(* ===== verification/Prelude.thy ===== *)
theory Prelude
  imports Main "HOL-Library.Word"
begin

text \<open>
  Shared vocabulary of the development: the machine integer types of the i686 target,
  the constants and address macros of \<^verbatim>\<open>include/memory.h\<close>, the counted loop of the
  C sources as a terminating recursion on 32-bit words, and the lemmas on words, lists
  and updates that the component theories share.
\<close>

unbundle bit_operations_syntax

section \<open>Machine types and the collections of the development\<close>

type_synonym u8 = "8 word"
type_synonym u16 = "16 word"
type_synonym u32 = "32 word"
type_synonym u64 = "64 word"

named_theorems word_to_nat
named_theorems page_simps

section \<open>Constants and macros of include/memory.h\<close>

definition PAGE_SIZE :: u32 where
  "PAGE_SIZE = 4096"

definition KERNEL_VIRTUAL_SPACE_START :: u32 where
  "KERNEL_VIRTUAL_SPACE_START = 0xC0000000"

definition KERNEL_LOW_WINDOW_SIZE :: u32 where
  "KERNEL_LOW_WINDOW_SIZE = 0x04000000"

definition ALIGN_DOWN :: "u32 \<Rightarrow> u32" where
  "ALIGN_DOWN v = v AND NOT (PAGE_SIZE - 1)"

definition ALIGN_UP :: "u32 \<Rightarrow> u32" where
  "ALIGN_UP v = (v + PAGE_SIZE - 1) AND NOT (PAGE_SIZE - 1)"

definition kernel_low_physical_to_virtual :: "u32 \<Rightarrow> u32" where
  "kernel_low_physical_to_virtual p = p + KERNEL_VIRTUAL_SPACE_START"

definition kernel_low_virtual_to_physical :: "u32 \<Rightarrow> u32" where
  "kernel_low_virtual_to_physical v = v - KERNEL_VIRTUAL_SPACE_START"

section \<open>The counted loop \<open>for (; i < n; ++i)\<close>\<close>

lemma word_less_unat_Suc: "i < n \<Longrightarrow> unat (i + 1) = Suc (unat i)" for i n :: u32
  by unat_arith

function for_range :: "u32 \<Rightarrow> u32 \<Rightarrow> (u32 \<Rightarrow> 's \<Rightarrow> 's) \<Rightarrow> 's \<Rightarrow> 's" where
  "for_range i n f s = (if i < n then for_range (i + 1) n f (f i s) else s)"
  by pat_completeness auto
termination
  by (relation "measure (\<lambda>(i, n, f, s). unat n - unat i)")
     (auto simp: word_less_unat_Suc word_less_nat_alt)

declare for_range.simps [simp del]

lemma for_range_done [simp]: "\<not> i < n \<Longrightarrow> for_range i n f s = s"
  by (simp add: for_range.simps [of i])

lemma for_range_step: "i < n \<Longrightarrow> for_range i n f s = for_range (i + 1) n f (f i s)"
  by (simp add: for_range.simps [of i])

text \<open>The loop rule: an invariant indexed by the loop variable holds at the exit.\<close>

lemma for_range_invariant:
  assumes "P i s" and "i \<le> n"
    and step: "\<And>k s. i \<le> k \<Longrightarrow> k < n \<Longrightarrow> P k s \<Longrightarrow> P (k + 1) (f k s)"
  shows "P n (for_range i n f s)"
  using assms
proof (induction i n f s rule: for_range.induct)
  case (1 i n f s)
  show ?case
  proof (cases "i < n")
    case True
    have le: "i + 1 \<le> n" and lt: "i \<le> i + 1" using True by unat_arith+
    have "P (i + 1) (f i s)" using "1.prems" True by simp
    then have "P n (for_range (i + 1) n f (f i s))"
      using "1.IH" [OF True] le lt "1.prems"(3) by (meson order_trans)
    then show ?thesis using True by (simp add: for_range_step)
  next
    case False
    with "1.prems" show ?thesis by (simp add: not_less)
  qed
qed

section \<open>Ports\<close>

text \<open>\<^verbatim>\<open>include/io.h\<close>: the bytes written to the ports, in order.\<close>

type_synonym port_trace = "(u16 \<times> u8) list"

definition io_outb :: "u16 \<Rightarrow> u8 \<Rightarrow> port_trace \<Rightarrow> port_trace" where
  "io_outb port v trace = trace @ [(port, v)]"

definition io_wait :: "port_trace \<Rightarrow> port_trace" where
  "io_wait = io_outb 0x80 0"

section \<open>Loops whose body may fault\<close>

text \<open>
  \<^verbatim>\<open>for (i = 0; i < n; ++i) body\<close> where the body may fault: the fault of one iteration is the
  fault of the loop.
\<close>

primrec for_each :: "('i \<Rightarrow> 's \<Rightarrow> 's option) \<Rightarrow> 'i list \<Rightarrow> 's \<Rightarrow> 's option" where
  "for_each f [] s = Some s"
| "for_each f (i # is) s = Option.bind (f i s) (for_each f is)"

definition indices :: "nat \<Rightarrow> u32 list" where
  "indices n = map of_nat [0..<n]"

lemma for_each_append: "for_each f (xs @ ys) s = Option.bind (for_each f xs s) (for_each f ys)"
  by (induction xs arbitrary: s) (auto split: bind_split)

lemma indices_Suc: "indices (Suc n) = indices n @ [of_nat n]"
  by (simp add: indices_def)

lemma for_each_rule:
  assumes "P 0 s"
    and "\<And>k s. k < length xs \<Longrightarrow> P k s \<Longrightarrow> \<exists>s'. f (xs ! k) s = Some s' \<and> P (Suc k) s'"
  shows "\<exists>s'. for_each f xs s = Some s' \<and> P (length xs) s'"
  using assms(2)
proof (induction xs rule: rev_induct)
  case Nil
  with assms(1) show ?case by simp
next
  case (snoc x xs)
  have "\<exists>s'. f (xs ! k) s = Some s' \<and> P (Suc k) s'" if "k < length xs" "P k s" for k s
    using snoc.prems [of k s] that by (simp add: nth_append)
  then obtain s1 where "for_each f xs s = Some s1" "P (length xs) s1" using snoc.IH by blast
  with snoc.prems [of "length xs" s1] show ?case by (auto simp: for_each_append)
qed

lemma for_each_indices_rule:
  assumes "P 0 s" and "\<And>k s. k < n \<Longrightarrow> P k s \<Longrightarrow> \<exists>s'. f (of_nat k) s = Some s' \<and> P (Suc k) s'"
  shows "\<exists>s'. for_each f (indices n) s = Some s' \<and> P n s'"
  using for_each_rule [of P s "indices n" f] assms by (simp add: indices_def)

section \<open>Page alignment\<close>

lemma unat_u32: "unat v < 4294967296" for v :: u32
  using unsigned_less [where ?'a = nat, of v] by simp

lemma unat_of_nat_u32: "n < 4294967296 \<Longrightarrow> unat (of_nat n :: u32) = n"
  by (simp add: unat_of_nat)

lemma of_nat_u32_0: "n < 4294967296 \<Longrightarrow> of_nat n = (0 :: u32) \<longleftrightarrow> n = 0"
  using unat_of_nat_u32 [of n] by auto

lemma page_mask_eq: "PAGE_SIZE - 1 = mask 12"
  by (simp add: PAGE_SIZE_def mask_eq_exp_minus_1)

lemma ALIGN_DOWN_shift: "ALIGN_DOWN v = push_bit 12 (drop_bit 12 v)"
  unfolding ALIGN_DOWN_def page_mask_eq
  by (rule bit_word_eqI) (auto simp: bit_simps)

lemma ALIGN_UP_DOWN: "ALIGN_UP v = ALIGN_DOWN (v + 4095)"
  by (simp add: ALIGN_UP_def ALIGN_DOWN_def PAGE_SIZE_def add.commute)

lemma unat_ALIGN_DOWN [word_to_nat]: "unat (ALIGN_DOWN v) = unat v div 4096 * 4096"
proof -
  have "unat v div 4096 * 4096 < 2 ^ 32"
    using unat_u32 [of v] by (simp add: div_times_less_eq_dividend le_less_trans)
  then show ?thesis
    unfolding ALIGN_DOWN_shift
    by (simp add: push_bit_eq_mult unat_word_ariths unat_drop_bit_eq drop_bit_eq_div)
qed

lemma unat_ALIGN_UP [word_to_nat]:
  "unat v + 4095 < 2 ^ 32 \<Longrightarrow> unat (ALIGN_UP v) = (unat v + 4095) div 4096 * 4096"
  by (simp add: ALIGN_UP_DOWN unat_ALIGN_DOWN unat_word_ariths)

lemma ALIGN_DOWN_le: "ALIGN_DOWN v \<le> v"
  by (simp add: word_le_nat_alt unat_ALIGN_DOWN)

lemma ALIGN_UP_ge: "unat v + 4095 < 2 ^ 32 \<Longrightarrow> v \<le> ALIGN_UP v"
  by (simp add: word_le_nat_alt unat_ALIGN_UP)

lemma ALIGN_DOWN_idem [simp]: "ALIGN_DOWN (ALIGN_DOWN v) = ALIGN_DOWN v"
  by (simp add: ALIGN_DOWN_def)

section \<open>Searching a list\<close>

lemma find_eq_None: "find P xs = None \<longleftrightarrow> (\<forall>x \<in> set xs. \<not> P x)"
  by (auto simp: find_None_iff)

lemma find_SomeD: "find P xs = Some x \<Longrightarrow> x \<in> set xs \<and> P x"
  by (induction xs) (auto split: if_splits)

lemma find_append: "find P (xs @ ys) = (case find P xs of None \<Rightarrow> find P ys | Some x \<Rightarrow> Some x)"
  by (induction xs) auto

lemma find_map: "find P (map f xs) = map_option f (find (\<lambda>x. P (f x)) xs)"
  by (induction xs) auto

lemma find_cong_set: "(\<And>x. x \<in> set xs \<Longrightarrow> P x = Q x) \<Longrightarrow> find P xs = find Q xs"
  by (induction xs) auto

lemma find_none [simp]: "find (\<lambda>x. False) xs = None"
  by (induction xs) auto

end
