(* ===== verification/Memory_Bitmap.thy ===== *)
theory Memory_Bitmap
  imports Prelude
begin

text \<open>
  The physical frame allocator, \<^verbatim>\<open>src/memory_bitmap.c\<close>: one bit per 4 KiB frame in an array
  of 32-bit entries (set means used), filled at boot from the multiboot memory map and then
  driven by \<^verbatim>\<open>memory_bitmap_allocate\<close> and \<^verbatim>\<open>memory_bitmap_free\<close>.

  The array behind the C pointer \<^verbatim>\<open>entries\<close> is a total function from entry indices to
  entries, because the code never compares an index with the size of the array; the pointer
  value itself is the field \<open>entries_at\<close>. Page numbers and byte counts are 32-bit words
  (\<^verbatim>\<open>size_t\<close> of the i686 target); the fields of a memory map entry are 64-bit words and are
  truncated where the C code assigns them to a \<^verbatim>\<open>size_t\<close>.
\<close>

section \<open>Data\<close>

record memory_bitmap_t =
  entries_at :: u32
  entries :: "u32 \<Rightarrow> u32"
  pages :: u32
  last_allocated_page_index :: u32

record multiboot_memory_map_t =
  mmap_region_addr :: u64
  mmap_region_len :: u64
  mmap_region_type :: u32

record multiboot_module_t =
  mod_start :: u32
  mod_end :: u32

text \<open>
  The part of the multiboot structure the allocator reads: the entries of the memory map in
  the order the loop over \<^verbatim>\<open>mmap_addr + i\<close> meets them, and the boot modules.
\<close>

record multiboot_info_t =
  mmap_entries :: "multiboot_memory_map_t list"
  mods :: "multiboot_module_t list"

definition MULTIBOOT_MEMORY_AVAILABLE :: u32 where
  "MULTIBOOT_MEMORY_AVAILABLE = 1"

section \<open>The bitmap macros\<close>

definition bitmap_bit :: "u32 \<Rightarrow> u32" where
  "bitmap_bit page_index = push_bit (unat (page_index mod 32)) 1"

definition BITMAP_SET :: "(u32 \<Rightarrow> u32) \<Rightarrow> u32 \<Rightarrow> u32 \<Rightarrow> u32" where
  "BITMAP_SET e page_index =
     e(page_index div 32 := e (page_index div 32) OR bitmap_bit page_index)"

definition BITMAP_CLEAR :: "(u32 \<Rightarrow> u32) \<Rightarrow> u32 \<Rightarrow> u32 \<Rightarrow> u32" where
  "BITMAP_CLEAR e page_index =
     e(page_index div 32 := e (page_index div 32) AND NOT (bitmap_bit page_index))"

definition BITMAP_TEST :: "(u32 \<Rightarrow> u32) \<Rightarrow> u32 \<Rightarrow> bool" where
  "BITMAP_TEST e page_index \<longleftrightarrow> e (page_index div 32) AND bitmap_bit page_index \<noteq> 0"

section \<open>Initialisation from the multiboot memory map\<close>

definition set_pages :: "u32 \<Rightarrow> u32 \<Rightarrow> memory_bitmap_t \<Rightarrow> memory_bitmap_t" where
  "set_pages page last_page bitmap =
     bitmap\<lparr>entries := for_range page last_page (\<lambda>p e. BITMAP_SET e p) (entries bitmap)\<rparr>"

definition clear_pages :: "u32 \<Rightarrow> u32 \<Rightarrow> memory_bitmap_t \<Rightarrow> memory_bitmap_t" where
  "clear_pages page last_page bitmap =
     bitmap\<lparr>entries := for_range page last_page (\<lambda>p e. BITMAP_CLEAR e p) (entries bitmap)\<rparr>"

definition memory_bitmap_lock_first_megabyte :: "memory_bitmap_t \<Rightarrow> memory_bitmap_t" where
  "memory_bitmap_lock_first_megabyte bitmap = set_pages 0 (0x100000 div PAGE_SIZE) bitmap"

definition lock_module :: "multiboot_module_t \<Rightarrow> memory_bitmap_t \<Rightarrow> memory_bitmap_t" where
  "lock_module m bitmap =
     set_pages (mod_start m div PAGE_SIZE) ((mod_end m + PAGE_SIZE - 1) div PAGE_SIZE) bitmap"

definition memory_bitmap_lock_multiboot_modules ::
    "memory_bitmap_t \<Rightarrow> multiboot_info_t \<Rightarrow> memory_bitmap_t" where
  "memory_bitmap_lock_multiboot_modules bitmap multiboot = fold lock_module (mods multiboot) bitmap"

definition memory_bitmap_lock_kernel :: "u32 \<Rightarrow> u32 \<Rightarrow> memory_bitmap_t \<Rightarrow> memory_bitmap_t" where
  "memory_bitmap_lock_kernel kernel_physical_start kernel_physical_end bitmap =
     set_pages (kernel_physical_start div PAGE_SIZE)
       ((kernel_physical_end + PAGE_SIZE - 1) div PAGE_SIZE) bitmap"

definition memory_bitmap_lock_bitmap :: "u32 \<Rightarrow> memory_bitmap_t \<Rightarrow> memory_bitmap_t" where
  "memory_bitmap_lock_bitmap kernel_physical_end bitmap =
     (let bitmap_phys_start = ALIGN_UP kernel_physical_end;
          bitmap_size_bytes = ALIGN_UP (pages bitmap div 8);
          bitmap_pages = bitmap_size_bytes div PAGE_SIZE;
          start_page = bitmap_phys_start div PAGE_SIZE
      in bitmap\<lparr>entries :=
           for_range 0 bitmap_pages (\<lambda>i e. BITMAP_SET e (start_page + i)) (entries bitmap)\<rparr>)"

definition region_total :: "multiboot_memory_map_t \<Rightarrow> u32 \<Rightarrow> u32" where
  "region_total memory_map total_memory_bytes =
     (let region_end = ucast (mmap_region_len memory_map + mmap_region_addr memory_map)
      in if region_end > total_memory_bytes then region_end else total_memory_bytes)"

definition region_first_page :: "multiboot_memory_map_t \<Rightarrow> u32" where
  "region_first_page memory_map = ucast (mmap_region_addr memory_map div 4096)"

definition region_last_page :: "multiboot_memory_map_t \<Rightarrow> u32" where
  "region_last_page memory_map =
     ucast ((mmap_region_addr memory_map + mmap_region_len memory_map + 4096 - 1) div 4096)"

definition release_region :: "multiboot_memory_map_t \<Rightarrow> memory_bitmap_t \<Rightarrow> memory_bitmap_t" where
  "release_region memory_map bitmap =
     (if mmap_region_type memory_map = MULTIBOOT_MEMORY_AVAILABLE
      then clear_pages (region_first_page memory_map) (region_last_page memory_map) bitmap
      else bitmap)"

text \<open>
  \<open>mem\<close> is what the memory behind \<^verbatim>\<open>entries\<close> holds before the kernel writes it; the two
  linker symbols \<^verbatim>\<open>_kernel_physical_start\<close> and \<^verbatim>\<open>_kernel_physical_end\<close> are parameters.
\<close>

definition memory_bitmap_module_init ::
    "(u32 \<Rightarrow> u32) \<Rightarrow> u32 \<Rightarrow> u32 \<Rightarrow> multiboot_info_t \<Rightarrow> memory_bitmap_t" where
  "memory_bitmap_module_init mem kernel_physical_start kernel_physical_end multiboot =
     (let total_memory_bytes = fold region_total (mmap_entries multiboot) 0;
          b0 = \<lparr>entries_at = ALIGN_UP (kernel_low_physical_to_virtual kernel_physical_end),
                entries = mem, pages = total_memory_bytes div PAGE_SIZE,
                last_allocated_page_index = 0\<rparr>;
          b1 = set_pages 0 (pages b0) b0;
          b2 = fold release_region (mmap_entries multiboot) b1;
          b3 = memory_bitmap_lock_first_megabyte b2;
          b4 = memory_bitmap_lock_multiboot_modules b3 multiboot;
          b5 = memory_bitmap_lock_kernel kernel_physical_start kernel_physical_end b4;
          b6 = memory_bitmap_lock_bitmap kernel_physical_end b5
      in b6\<lparr>last_allocated_page_index := 0\<rparr>)"

section \<open>Allocation\<close>

function scan_free :: "(u32 \<Rightarrow> u32) \<Rightarrow> u32 \<Rightarrow> u32 \<Rightarrow> u32 option" where
  "scan_free e page_index limit =
     (if page_index < limit
      then if \<not> BITMAP_TEST e page_index then Some page_index
           else scan_free e (page_index + 1) limit
      else None)"
  by pat_completeness auto
termination
  by (relation "measure (\<lambda>(e, i, n). unat n - unat i)")
     (auto simp: word_less_unat_Suc word_less_nat_alt)

declare scan_free.simps [simp del]

definition take_page :: "u32 \<Rightarrow> memory_bitmap_t \<Rightarrow> u32 \<times> memory_bitmap_t" where
  "take_page page_index bitmap =
     (page_index * PAGE_SIZE,
      bitmap\<lparr>entries := BITMAP_SET (entries bitmap) page_index,
             last_allocated_page_index := page_index\<rparr>)"

text \<open>A returned 0 is the null pointer.\<close>

definition memory_bitmap_allocate :: "memory_bitmap_t \<Rightarrow> u32 \<times> memory_bitmap_t" where
  "memory_bitmap_allocate bitmap =
     (case scan_free (entries bitmap) (last_allocated_page_index bitmap) (pages bitmap) of
        Some page_index \<Rightarrow> take_page page_index bitmap
      | None \<Rightarrow>
          (case scan_free (entries bitmap) 0 (last_allocated_page_index bitmap) of
             Some page_index \<Rightarrow> take_page page_index bitmap
           | None \<Rightarrow> (0, bitmap)))"

definition memory_bitmap_free :: "u32 \<Rightarrow> memory_bitmap_t \<Rightarrow> memory_bitmap_t" where
  "memory_bitmap_free address bitmap =
     (let page_index = address div PAGE_SIZE;
          e = (if BITMAP_TEST (entries bitmap) page_index
               then BITMAP_CLEAR (entries bitmap) page_index else entries bitmap);
          l = (if page_index < last_allocated_page_index bitmap then page_index
               else last_allocated_page_index bitmap)
      in bitmap\<lparr>entries := e, last_allocated_page_index := l\<rparr>)"

section \<open>What the macros do to single pages\<close>

definition page_used :: "memory_bitmap_t \<Rightarrow> u32 \<Rightarrow> bool" where
  "page_used bitmap page_index \<longleftrightarrow> BITMAP_TEST (entries bitmap) page_index"

lemma bit_bitmap_bit: "bit (bitmap_bit p) n \<longleftrightarrow> n = unat (p mod 32)"
proof -
  have "unat (p mod 32) < 32" by (simp add: unat_mod)
  then show ?thesis
    by (auto simp: bitmap_bit_def bit_simps)
qed

lemma BITMAP_TEST_bit: "BITMAP_TEST e p \<longleftrightarrow> bit (e (p div 32)) (unat (p mod 32))"
proof -
  have "unat (p mod 32) < 32" by (simp add: unat_mod)
  then have "e (p div 32) AND bitmap_bit p = 0 \<longleftrightarrow> \<not> bit (e (p div 32)) (unat (p mod 32))"
    by (auto simp: bit_eq_iff [of "e (p div 32) AND bitmap_bit p" 0] bit_and_iff bit_bitmap_bit
        dest: spec [of _ "unat (p mod 32)"])
  then show ?thesis by (simp add: BITMAP_TEST_def)
qed

lemma page_slot_inj: "p div 32 = q div 32 \<Longrightarrow> unat (p mod 32) = unat (q mod 32) \<Longrightarrow> p = q"
  for p q :: u32
  by (metis div_mult_mod_eq unsigned_word_eqI)

lemma BITMAP_TEST_SET [simp]: "BITMAP_TEST (BITMAP_SET e p) q \<longleftrightarrow> q = p \<or> BITMAP_TEST e q"
  by (auto simp: BITMAP_TEST_bit BITMAP_SET_def bit_or_iff bit_bitmap_bit dest: page_slot_inj)

lemma BITMAP_TEST_CLEAR [simp]: "BITMAP_TEST (BITMAP_CLEAR e p) q \<longleftrightarrow> q \<noteq> p \<and> BITMAP_TEST e q"
proof -
  have "unat (q mod 32) < 32" by (simp add: unat_mod)
  then show ?thesis
    by (auto simp: BITMAP_TEST_bit BITMAP_CLEAR_def bit_and_iff bit_not_iff bit_bitmap_bit
        dest: page_slot_inj)
qed

lemma BITMAP_TEST_set_range:
  "BITMAP_TEST (for_range a b (\<lambda>p e. BITMAP_SET e p) e) q \<longleftrightarrow> (a \<le> q \<and> q < b) \<or> BITMAP_TEST e q"
proof (induction a b "\<lambda>p e. BITMAP_SET e p" e rule: for_range.induct)
  case (1 a b e)
  show ?case
  proof (cases "a < b")
    case True
    have "a \<le> q \<and> q < b \<longleftrightarrow> q = a \<or> (a + 1 \<le> q \<and> q < b)" using True by unat_arith
    then show ?thesis using "1.hyps" [OF True] True by (auto simp: for_range_step)
  qed auto
qed

lemma BITMAP_TEST_clear_range:
  "BITMAP_TEST (for_range a b (\<lambda>p e. BITMAP_CLEAR e p) e) q \<longleftrightarrow> \<not> (a \<le> q \<and> q < b) \<and> BITMAP_TEST e q"
proof (induction a b "\<lambda>p e. BITMAP_CLEAR e p" e rule: for_range.induct)
  case (1 a b e)
  show ?case
  proof (cases "a < b")
    case True
    have "a \<le> q \<and> q < b \<longleftrightarrow> q = a \<or> (a + 1 \<le> q \<and> q < b)" using True by unat_arith
    then show ?thesis using "1.hyps" [OF True] True by (auto simp: for_range_step)
  qed auto
qed

lemma BITMAP_TEST_set_offset_range:
  "BITMAP_TEST (for_range a b (\<lambda>i e. BITMAP_SET e (s + i)) e) q \<longleftrightarrow>
     (a \<le> q - s \<and> q - s < b) \<or> BITMAP_TEST e q"
proof (induction a b "\<lambda>i e. BITMAP_SET e (s + i)" e rule: for_range.induct)
  case (1 a b e)
  show ?case
  proof (cases "a < b")
    case True
    have "a \<le> q - s \<and> q - s < b \<longleftrightarrow> q - s = a \<or> (a + 1 \<le> q - s \<and> q - s < b)"
      using True by unat_arith
    moreover have "q - s = a \<longleftrightarrow> q = s + a" by (auto simp: algebra_simps)
    ultimately show ?thesis using "1.hyps" [OF True] True by (auto simp: for_range_step)
  qed auto
qed

section \<open>The state after initialisation\<close>

lemma set_pages_simps [simp]:
  "page_used (set_pages a b bitmap) p \<longleftrightarrow> (a \<le> p \<and> p < b) \<or> page_used bitmap p"
  "pages (set_pages a b bitmap) = pages bitmap"
  "entries_at (set_pages a b bitmap) = entries_at bitmap"
  by (simp_all add: set_pages_def page_used_def BITMAP_TEST_set_range)

lemma clear_pages_simps [simp]:
  "page_used (clear_pages a b bitmap) p \<longleftrightarrow> \<not> (a \<le> p \<and> p < b) \<and> page_used bitmap p"
  "pages (clear_pages a b bitmap) = pages bitmap"
  "entries_at (clear_pages a b bitmap) = entries_at bitmap"
  by (simp_all add: clear_pages_def page_used_def BITMAP_TEST_clear_range)

definition in_module :: "multiboot_module_t \<Rightarrow> u32 \<Rightarrow> bool" where
  "in_module m p \<longleftrightarrow>
     mod_start m div PAGE_SIZE \<le> p \<and> p < (mod_end m + PAGE_SIZE - 1) div PAGE_SIZE"

definition in_available :: "multiboot_memory_map_t \<Rightarrow> u32 \<Rightarrow> bool" where
  "in_available r p \<longleftrightarrow> mmap_region_type r = MULTIBOOT_MEMORY_AVAILABLE \<and>
     region_first_page r \<le> p \<and> p < region_last_page r"

lemma fold_lock_module [simp]:
  "page_used (fold lock_module ms bitmap) p \<longleftrightarrow> (\<exists>m\<in>set ms. in_module m p) \<or> page_used bitmap p"
  "pages (fold lock_module ms bitmap) = pages bitmap"
  "entries_at (fold lock_module ms bitmap) = entries_at bitmap"
  by (induction ms arbitrary: bitmap) (auto simp: lock_module_def in_module_def)

lemma fold_release_region [simp]:
  "page_used (fold release_region rs bitmap) p \<longleftrightarrow>
     \<not> (\<exists>r\<in>set rs. in_available r p) \<and> page_used bitmap p"
  "pages (fold release_region rs bitmap) = pages bitmap"
  "entries_at (fold release_region rs bitmap) = entries_at bitmap"
  by (induction rs arbitrary: bitmap) (auto simp: release_region_def in_available_def)

lemma lock_bitmap_simps [simp]:
  "page_used (memory_bitmap_lock_bitmap kend bitmap) p \<longleftrightarrow>
     p - ALIGN_UP kend div PAGE_SIZE < ALIGN_UP (pages bitmap div 8) div PAGE_SIZE \<or>
     page_used bitmap p"
  "pages (memory_bitmap_lock_bitmap kend bitmap) = pages bitmap"
  "entries_at (memory_bitmap_lock_bitmap kend bitmap) = entries_at bitmap"
  by (auto simp: memory_bitmap_lock_bitmap_def page_used_def BITMAP_TEST_set_offset_range Let_def)

definition boot_pages :: "multiboot_info_t \<Rightarrow> u32" where
  "boot_pages multiboot = fold region_total (mmap_entries multiboot) 0 div PAGE_SIZE"

text \<open>The pages the boot code keeps for itself, whatever the memory map says.\<close>

definition boot_reserved :: "u32 \<Rightarrow> u32 \<Rightarrow> multiboot_info_t \<Rightarrow> u32 \<Rightarrow> bool" where
  "boot_reserved kstart kend multiboot p \<longleftrightarrow>
     p < 256 \<or> (\<exists>m\<in>set (mods multiboot). in_module m p) \<or>
     (kstart div PAGE_SIZE \<le> p \<and> p < (kend + PAGE_SIZE - 1) div PAGE_SIZE) \<or>
     p - ALIGN_UP kend div PAGE_SIZE < ALIGN_UP (boot_pages multiboot div 8) div PAGE_SIZE"

lemma page_used_update_last [simp]:
  "page_used (bitmap\<lparr>last_allocated_page_index := l\<rparr>) p = page_used bitmap p"
  by (simp add: page_used_def)

lemma init_pages [simp]:
  "pages (memory_bitmap_module_init mem kstart kend multiboot) = boot_pages multiboot"
  by (simp add: memory_bitmap_module_init_def Let_def boot_pages_def
      memory_bitmap_lock_first_megabyte_def memory_bitmap_lock_multiboot_modules_def
      memory_bitmap_lock_kernel_def)

lemma init_page_used:
  "page_used (memory_bitmap_module_init mem kstart kend multiboot) p \<longleftrightarrow>
     boot_reserved kstart kend multiboot p \<or>
     \<not> (\<exists>r\<in>set (mmap_entries multiboot). in_available r p) \<and>
       (p < boot_pages multiboot \<or> BITMAP_TEST mem p)"
proof -
  have div256: "(0x100000 :: u32) div PAGE_SIZE = 256" by (simp add: PAGE_SIZE_def)
  show ?thesis
    unfolding memory_bitmap_module_init_def Let_def boot_reserved_def
      memory_bitmap_lock_first_megabyte_def memory_bitmap_lock_multiboot_modules_def
      memory_bitmap_lock_kernel_def boot_pages_def [symmetric] div256
    by (auto simp: page_used_def [of "\<lparr>entries_at = _, entries = mem, pages = _,
        last_allocated_page_index = _\<rparr>"])
qed

section \<open>Allocation and release\<close>

lemma scan_free_Some:
  "scan_free e i n = Some p \<Longrightarrow> i \<le> p \<and> p < n \<and> \<not> BITMAP_TEST e p"
proof (induction e i n rule: scan_free.induct)
  case (1 e i n)
  show ?case
  proof (cases "i < n \<and> BITMAP_TEST e i")
    case True
    with "1.prems" have "scan_free e (i + 1) n = Some p" by (simp add: scan_free.simps [of e i])
    with "1.IH" True have "i + 1 \<le> p \<and> p < n \<and> \<not> BITMAP_TEST e p" by simp
    moreover have "i \<le> i + 1" using True by unat_arith
    ultimately show ?thesis by (meson order_trans)
  next
    case False
    with "1.prems" show ?thesis by (auto simp: scan_free.simps [of e i] split: if_splits)
  qed
qed

lemma scan_free_None: "scan_free e i n = None \<Longrightarrow> i \<le> p \<Longrightarrow> p < n \<Longrightarrow> BITMAP_TEST e p"
proof (induction e i n rule: scan_free.induct)
  case (1 e i n)
  have lt: "i < n" using "1.prems" by simp
  with "1.prems" have used: "BITMAP_TEST e i" and rest: "scan_free e (i + 1) n = None"
    by (auto simp: scan_free.simps [of e i] split: if_splits)
  show ?case
  proof (cases "p = i")
    case False
    with "1.prems" have "i + 1 \<le> p" by unat_arith
    with "1.IH" lt used rest "1.prems" show ?thesis by simp
  qed (simp add: used)
qed

definition bitmap_wf :: "memory_bitmap_t \<Rightarrow> bool" where
  "bitmap_wf bitmap \<longleftrightarrow> pages bitmap \<le> 0x100000 \<and>
     last_allocated_page_index bitmap \<le> pages bitmap \<and> page_used bitmap 0"

definition used_frames :: "memory_bitmap_t \<Rightarrow> u32 set" where
  "used_frames bitmap = {a. ALIGN_DOWN a = a \<and> page_used bitmap (a div PAGE_SIZE)}"

lemma page_address:
  assumes "p < 0x100000"
  shows "p * PAGE_SIZE div PAGE_SIZE = p" "ALIGN_DOWN (p * PAGE_SIZE) = p * PAGE_SIZE"
    "p * PAGE_SIZE = 0 \<longleftrightarrow> p = 0"
proof -
  have "unat p * 4096 < 2 ^ 32" using assms by (simp add: word_less_nat_alt)
  then have eq: "unat (p * PAGE_SIZE) = unat p * 4096"
    by (simp add: PAGE_SIZE_def unat_word_ariths)
  then have "unat (p * PAGE_SIZE div PAGE_SIZE) = unat p" by (simp add: unat_div PAGE_SIZE_def)
  then show "p * PAGE_SIZE div PAGE_SIZE = p" by (simp add: unsigned_word_eqI)
  show "ALIGN_DOWN (p * PAGE_SIZE) = p * PAGE_SIZE"
    by (rule unsigned_word_eqI [where ?'a = nat]) (simp add: unat_ALIGN_DOWN eq)
  show "p * PAGE_SIZE = 0 \<longleftrightarrow> p = 0"
    using eq by (metis mult_zero_left mult_is_0 unat_eq_zero zero_neq_numeral)
qed

lemma aligned_div_mult: "ALIGN_DOWN a = a \<Longrightarrow> a div PAGE_SIZE * PAGE_SIZE = a"
proof -
  assume "ALIGN_DOWN a = a"
  then have "unat a = unat a div 4096 * 4096" by (metis unat_ALIGN_DOWN)
  then have "unat (a div PAGE_SIZE * PAGE_SIZE) = unat a"
    using unat_u32 [of a] by (simp add: unat_word_ariths unat_div PAGE_SIZE_def)
  then show ?thesis by (rule unsigned_word_eqI)
qed

lemma take_page_simps:
  assumes "take_page p bitmap = (a, bitmap')"
  shows "a = p * PAGE_SIZE" "pages bitmap' = pages bitmap"
    "last_allocated_page_index bitmap' = p"
    "page_used bitmap' q \<longleftrightarrow> q = p \<or> page_used bitmap q"
  using assms by (auto simp: take_page_def page_used_def)

lemma allocate_cases:
  assumes wf: "bitmap_wf bitmap" and alloc: "memory_bitmap_allocate bitmap = (a, bitmap')"
  obtains (null) "a = 0" "bitmap' = bitmap" "\<And>p. p < pages bitmap \<Longrightarrow> page_used bitmap p"
  | (page) p where "p < pages bitmap" "\<not> page_used bitmap p" "take_page p bitmap = (a, bitmap')"
proof -
  let ?e = "entries bitmap" and ?l = "last_allocated_page_index bitmap" and ?n = "pages bitmap"
  consider (fst) p where "scan_free ?e ?l ?n = Some p"
    | (snd) p where "scan_free ?e ?l ?n = None" "scan_free ?e 0 ?l = Some p"
    | (none) "scan_free ?e ?l ?n = None" "scan_free ?e 0 ?l = None"
    by (cases "scan_free ?e ?l ?n"; cases "scan_free ?e 0 ?l") auto
  then show thesis
  proof cases
    case fst
    with alloc show ?thesis
      by (intro page) (auto simp: memory_bitmap_allocate_def page_used_def dest: scan_free_Some)
  next
    case snd
    from snd(2) have "p < ?l" "\<not> BITMAP_TEST ?e p" by (auto dest: scan_free_Some)
    with snd alloc wf show ?thesis
      by (intro page [of p]) (auto simp: memory_bitmap_allocate_def page_used_def bitmap_wf_def)
  next
    case none
    have "page_used bitmap p" if "p < ?n" for p
      using none that by (cases "?l \<le> p") (auto simp: page_used_def not_le dest: scan_free_None)
    with none alloc show ?thesis by (intro null) (auto simp: memory_bitmap_allocate_def)
  qed
qed

lemma allocate_wf:
  assumes wf: "bitmap_wf bitmap" and alloc: "memory_bitmap_allocate bitmap = (a, bitmap')"
  shows "bitmap_wf bitmap'"
  using wf alloc
proof (cases rule: allocate_cases)
  case (page p)
  with wf show ?thesis by (simp add: bitmap_wf_def take_page_simps [OF page(3)])
qed (use wf in simp)

lemma free_page_used:
  "page_used (memory_bitmap_free a bitmap) q \<longleftrightarrow> q \<noteq> a div PAGE_SIZE \<and> page_used bitmap q"
  by (auto simp: memory_bitmap_free_def Let_def page_used_def)

lemma free_wf:
  assumes "bitmap_wf bitmap" "PAGE_SIZE \<le> a"
  shows "bitmap_wf (memory_bitmap_free a bitmap)"
proof -
  have "unat (a div PAGE_SIZE) \<noteq> 0"
    using assms(2) by (simp add: unat_div PAGE_SIZE_def word_le_nat_alt)
  then have "a div PAGE_SIZE \<noteq> 0" by (metis unat_0)
  with assms(1) show ?thesis
    unfolding bitmap_wf_def free_page_used by (auto simp: memory_bitmap_free_def Let_def)
qed

lemma init_wf: "bitmap_wf (memory_bitmap_module_init mem kstart kend multiboot)"
proof -
  have "boot_pages multiboot \<le> 0x100000"
    using unat_u32 [of "fold region_total (mmap_entries multiboot) 0"]
    by (simp add: boot_pages_def word_le_nat_alt unat_div PAGE_SIZE_def)
  moreover have "boot_reserved kstart kend multiboot 0" by (simp add: boot_reserved_def)
  moreover have "last_allocated_page_index (memory_bitmap_module_init mem kstart kend multiboot) = 0"
    by (simp add: memory_bitmap_module_init_def Let_def)
  ultimately show ?thesis by (simp add: bitmap_wf_def init_page_used)
qed

section \<open>The interface the other components use\<close>

text \<open>
  What paging, the heap and the loaders rely on: an allocation hands out a frame that was not
  in use and marks only that frame, failure changes nothing, and a release gives back exactly
  the frame it is called with.
\<close>

primrec alloc_many :: "('s \<Rightarrow> u32 \<times> 's) \<Rightarrow> nat \<Rightarrow> 's \<Rightarrow> u32 list \<times> 's" where
  "alloc_many alloc 0 s = ([], s)"
| "alloc_many alloc (Suc n) s =
     (let (a, s1) = alloc s; (rest, s2) = alloc_many alloc n s1 in (a # rest, s2))"

locale frame_allocator =
  fixes alloc :: "'s \<Rightarrow> u32 \<times> 's"
    and release :: "u32 \<Rightarrow> 's \<Rightarrow> 's"
    and in_use :: "'s \<Rightarrow> u32 set"
    and wf :: "'s \<Rightarrow> bool"
  assumes alloc_null: "wf s \<Longrightarrow> alloc s = (0, s') \<Longrightarrow> s' = s"
    and alloc_fresh: "wf s \<Longrightarrow> alloc s = (a, s') \<Longrightarrow> a \<noteq> 0 \<Longrightarrow>
      a \<notin> in_use s \<and> ALIGN_DOWN a = a \<and> in_use s' = insert a (in_use s)"
    and alloc_wf: "wf s \<Longrightarrow> alloc s = (a, s') \<Longrightarrow> wf s'"
    and release_in_use: "wf s \<Longrightarrow> a \<noteq> 0 \<Longrightarrow> ALIGN_DOWN a = a \<Longrightarrow>
      in_use (release a s) = in_use s - {a}"
    and release_wf: "wf s \<Longrightarrow> a \<noteq> 0 \<Longrightarrow> ALIGN_DOWN a = a \<Longrightarrow> wf (release a s)"
begin

lemma alloc_release:
  assumes "wf s" "alloc s = (a, s')" "a \<noteq> 0"
  shows "in_use (release a s') = in_use s"
  using assms alloc_fresh [OF assms] alloc_wf [OF assms(1,2)] by (auto simp: release_in_use)

lemma alloc_many_distinct:
  assumes "wf s" "alloc_many alloc n s = (as, s')" "0 \<notin> set as"
  shows "wf s' \<and> distinct as \<and> set as \<inter> in_use s = {} \<and> in_use s' = set as \<union> in_use s"
  using assms
proof (induction n arbitrary: s as)
  case (Suc n)
  obtain a s1 where a: "alloc s = (a, s1)" by force
  obtain rest s2 where r: "alloc_many alloc n s1 = (rest, s2)" by force
  from Suc.prems(2) a r have eqs: "as = a # rest" "s' = s2" by auto
  with Suc.prems(3) have nz: "a \<noteq> 0" "0 \<notin> set rest" by auto
  have "wf s1" using alloc_wf [OF Suc.prems(1) a] .
  moreover have "alloc_many alloc n s1 = (rest, s')" using r eqs by simp
  ultimately have IH: "wf s' \<and> distinct rest \<and> set rest \<inter> in_use s1 = {} \<and>
      in_use s' = set rest \<union> in_use s1"
    using nz by (intro Suc.IH) auto
  have "a \<notin> in_use s" "in_use s1 = insert a (in_use s)"
    using alloc_fresh [OF Suc.prems(1) a nz(1)] by auto
  with IH eqs show ?case by auto
qed simp

end

lemma used_frames_allocate:
  assumes wf: "bitmap_wf bitmap" and alloc: "memory_bitmap_allocate bitmap = (a, bitmap')"
    and nz: "a \<noteq> 0"
  shows "a \<notin> used_frames bitmap \<and> ALIGN_DOWN a = a \<and>
    used_frames bitmap' = insert a (used_frames bitmap)"
  using wf alloc
proof (cases rule: allocate_cases)
  case (page p)
  have small: "p < 0x100000" using page(1) wf by (auto simp: bitmap_wf_def)
  have a: "a = p * PAGE_SIZE" using take_page_simps(1) [OF page(3)] .
  have adiv: "a div PAGE_SIZE = p" and al: "ALIGN_DOWN a = a"
    unfolding a by (fact page_address(1,2) [OF small])+
  have "x div PAGE_SIZE = p \<longleftrightarrow> x = a" if "ALIGN_DOWN x = x" for x
    using aligned_div_mult [OF that] adiv a by metis
  with page(2) adiv al show ?thesis
    by (auto simp: used_frames_def take_page_simps(4) [OF page(3)])
qed (use nz in simp)

lemma used_frames_free:
  assumes "ALIGN_DOWN a = a"
  shows "used_frames (memory_bitmap_free a bitmap) = used_frames bitmap - {a}"
proof -
  have "x div PAGE_SIZE = a div PAGE_SIZE \<longleftrightarrow> x = a" if "ALIGN_DOWN x = x" for x
    using aligned_div_mult [OF that] aligned_div_mult [OF assms] by metis
  then show ?thesis by (auto simp: used_frames_def free_page_used)
qed

lemma aligned_nonzero_ge: "ALIGN_DOWN a = a \<Longrightarrow> a \<noteq> 0 \<Longrightarrow> PAGE_SIZE \<le> a"
proof -
  assume al: "ALIGN_DOWN a = a" and "a \<noteq> 0"
  then have "unat a = unat a div 4096 * 4096" "unat a \<noteq> 0"
    by (metis unat_ALIGN_DOWN) (use \<open>a \<noteq> 0\<close> in \<open>simp add: unat_eq_zero\<close>)
  then have "4096 \<le> unat a" by (metis div_eq_0_iff mult_is_0 not_le zero_neq_numeral)
  then show ?thesis by (simp add: word_le_nat_alt PAGE_SIZE_def)
qed

interpretation bitmap_frames:
  frame_allocator memory_bitmap_allocate memory_bitmap_free used_frames bitmap_wf
proof unfold_locales
  fix s s' assume wf: "bitmap_wf s" and alloc: "memory_bitmap_allocate s = (0, s')"
  show "s' = s" using wf alloc
  proof (cases rule: allocate_cases)
    case (page p)
    then have "p = 0" using page_address(3) [of p] wf take_page_simps(1) [OF page(3)]
      by (auto simp: bitmap_wf_def)
    with page wf show ?thesis by (auto simp: bitmap_wf_def)
  qed simp
qed (auto dest: used_frames_allocate allocate_wf simp: used_frames_free free_wf aligned_nonzero_ge)

section \<open>Properties\<close>

text \<open>
  (C8) An allocation from a well-formed bitmap keeps it well formed and never changes its size.
  It fails, leaving the bitmap as it was, only when every page is in use; otherwise it returns the
  address of a page below \<open>pages\<close> that was free, and marks that page and no other.
\<close>

theorem memory_bitmap_allocate_correct:
  assumes "bitmap_wf bitmap" "memory_bitmap_allocate bitmap = (a, bitmap')"
  shows "bitmap_wf bitmap' \<and> pages bitmap' = pages bitmap \<and>
    (if a = 0 then bitmap' = bitmap \<and> (\<forall>p < pages bitmap. page_used bitmap p)
     else \<exists>p < pages bitmap. a = p * PAGE_SIZE \<and> \<not> page_used bitmap p \<and>
            (\<forall>q. page_used bitmap' q \<longleftrightarrow> q = p \<or> page_used bitmap q))"
  using assms
proof (cases rule: allocate_cases)
  case (page p)
  have "p < 0x100000" "p \<noteq> 0" using page(1,2) assms(1) by (auto simp: bitmap_wf_def)
  then have "a \<noteq> 0" using take_page_simps(1) [OF page(3)] page_address(3) [of p] by simp
  with page allocate_wf [OF assms] take_page_simps [OF page(3)] show ?thesis by auto
qed (use assms in auto)

definition sample_bitmap :: memory_bitmap_t where
  "sample_bitmap = \<lparr>entries_at = 0xC0200000, entries = (\<lambda>i. if i = 0 then 5 else 0), pages = 8,
     last_allocated_page_index = 2\<rparr>"

lemma sample_bitmap_wf: "bitmap_wf sample_bitmap"
  by (simp add: bitmap_wf_def sample_bitmap_def page_used_def BITMAP_TEST_def bitmap_bit_def)

lemma sample_bitmap_allocate:
  "memory_bitmap_allocate sample_bitmap =
     (3 * PAGE_SIZE, sample_bitmap\<lparr>entries := BITMAP_SET (entries sample_bitmap) 3,
        last_allocated_page_index := 3\<rparr>)"
  by (simp add: memory_bitmap_allocate_def sample_bitmap_def scan_free.simps BITMAP_TEST_def
      bitmap_bit_def take_page_def)

theorem memory_bitmap_allocate_correct_witness:
  "bitmap_wf (snd (memory_bitmap_allocate sample_bitmap)) \<and>
   fst (memory_bitmap_allocate sample_bitmap) = 0x3000"
  using memory_bitmap_allocate_correct [OF sample_bitmap_wf sample_bitmap_allocate]
  by (simp add: sample_bitmap_allocate PAGE_SIZE_def)

text \<open>
  Frames handed out by successive allocations are pairwise different and none of them was
  in use before; afterwards exactly they and the earlier ones are in use.
\<close>

theorem memory_bitmap_frames_distinct:
  assumes "bitmap_wf bitmap" "alloc_many memory_bitmap_allocate n bitmap = (as, bitmap')"
    "0 \<notin> set as"
  shows "distinct as \<and> set as \<inter> used_frames bitmap = {} \<and>
    used_frames bitmap' = set as \<union> used_frames bitmap"
  using bitmap_frames.alloc_many_distinct [OF assms] by blast

theorem memory_bitmap_frames_distinct_witness:
  "\<exists>as bitmap'. alloc_many memory_bitmap_allocate 2 sample_bitmap = (as, bitmap') \<and>
     distinct as \<and> as = [0x3000, 0x4000]"
proof -
  obtain as bitmap' where run: "alloc_many memory_bitmap_allocate 2 sample_bitmap = (as, bitmap')"
    by force
  then have "as = [0x3000, 0x4000]"
    by (auto simp: numeral_2_eq_2 sample_bitmap_allocate, simp_all add: memory_bitmap_allocate_def
        sample_bitmap_def scan_free.simps BITMAP_TEST_def BITMAP_SET_def bitmap_bit_def
        take_page_def PAGE_SIZE_def)
  with run memory_bitmap_frames_distinct [OF sample_bitmap_wf run] show ?thesis by auto
qed

text \<open>
  (C31) After boot the bitmap is well formed, and a page below its size is free exactly when some
  available region of the memory map covers it (even partly) and it is not one the kernel keeps:
  the first megabyte, the boot modules, the kernel image and the bitmap itself.
\<close>

theorem memory_bitmap_boot_free_pages:
  "bitmap_wf (memory_bitmap_module_init mem kstart kend multiboot) \<and>
   (\<forall>p < pages (memory_bitmap_module_init mem kstart kend multiboot).
      \<not> page_used (memory_bitmap_module_init mem kstart kend multiboot) p \<longleftrightarrow>
      (\<exists>r\<in>set (mmap_entries multiboot). in_available r p) \<and> \<not> boot_reserved kstart kend multiboot p)"
  by (auto simp: init_wf init_page_used)

definition sample_multiboot :: multiboot_info_t where
  "sample_multiboot = \<lparr>mmap_entries = [\<lparr>mmap_region_addr = 0, mmap_region_len = 0x400000,
     mmap_region_type = 1\<rparr>], mods = [\<lparr>mod_start = 0x300000, mod_end = 0x301800\<rparr>]\<rparr>"

theorem memory_bitmap_boot_free_pages_witness:
  "pages (memory_bitmap_module_init (\<lambda>_. 0) 0x100000 0x200000 sample_multiboot) = 0x400 \<and>
   page_used (memory_bitmap_module_init (\<lambda>_. 0) 0x100000 0x200000 sample_multiboot) 0x301 \<and>
   \<not> page_used (memory_bitmap_module_init (\<lambda>_. 0) 0x100000 0x200000 sample_multiboot) 0x302"
proof -
  have n: "boot_pages sample_multiboot = 0x400"
    by (simp add: boot_pages_def sample_multiboot_def region_total_def PAGE_SIZE_def)
  have "in_available \<lparr>mmap_region_addr = 0, mmap_region_len = 0x400000, mmap_region_type = 1\<rparr> 0x302"
    by (simp add: in_available_def MULTIBOOT_MEMORY_AVAILABLE_def region_first_page_def
        region_last_page_def)
  moreover have "boot_reserved 0x100000 0x200000 sample_multiboot 0x301"
    "\<not> boot_reserved 0x100000 0x200000 sample_multiboot 0x302"
    using n by (simp_all add: boot_reserved_def in_module_def sample_multiboot_def PAGE_SIZE_def
        ALIGN_UP_def ALIGN_DOWN_def)
  moreover have "mmap_entries sample_multiboot = [\<lparr>mmap_region_addr = 0,
      mmap_region_len = 0x400000, mmap_region_type = 1\<rparr>]"
    by (simp add: sample_multiboot_def)
  moreover note conjunct2 [OF memory_bitmap_boot_free_pages
      [of "\<lambda>_. 0" "0x100000" "0x200000" sample_multiboot]]
  note this [THEN spec, of "0x301"] this [THEN spec, of "0x302"]
  ultimately show ?thesis using n by simp
qed

text \<open>
  After a frame has been released an allocation succeeds, and releasing a frame right after
  allocating it gives back exactly the frames that were in use before.
\<close>

theorem memory_bitmap_free_reuse:
  assumes wf: "bitmap_wf bitmap" and a: "ALIGN_DOWN a = a" "a \<noteq> 0" "a div PAGE_SIZE < pages bitmap"
  shows "fst (memory_bitmap_allocate (memory_bitmap_free a bitmap)) \<noteq> 0 \<and>
    (fst (memory_bitmap_allocate bitmap) \<noteq> 0 \<longrightarrow>
     used_frames (memory_bitmap_free (fst (memory_bitmap_allocate bitmap))
       (snd (memory_bitmap_allocate bitmap))) = used_frames bitmap)"
proof -
  let ?b = "memory_bitmap_free a bitmap"
  obtain x b' where run: "memory_bitmap_allocate ?b = (x, b')" by force
  have wf': "bitmap_wf ?b" using bitmap_frames.release_wf [OF wf a(2,1)] .
  have "\<not> page_used ?b (a div PAGE_SIZE)" "pages ?b = pages bitmap"
    by (simp add: free_page_used) (simp add: memory_bitmap_free_def Let_def)
  with a(3) have notfull: "\<not> (\<forall>p < pages ?b. page_used ?b p)" by auto
  have "x \<noteq> 0"
  proof
    assume "x = 0"
    with bitmap_frames.alloc_null [OF wf'] run have "b' = ?b" by blast
    from wf' run show False
    proof (cases rule: allocate_cases)
      case (page p)
      with \<open>b' = ?b\<close> take_page_simps(4) [OF page(3), of p] show False by simp
    qed (use notfull in blast)
  qed
  then show ?thesis
    using run bitmap_frames.alloc_release [OF wf, of _ "snd (memory_bitmap_allocate bitmap)"]
    by (simp add: prod_eq_iff)
qed

theorem memory_bitmap_free_reuse_witness:
  "fst (memory_bitmap_allocate (memory_bitmap_free 0x2000 sample_bitmap)) \<noteq> 0"
  using memory_bitmap_free_reuse [OF sample_bitmap_wf, of "0x2000"]
  by (simp add: ALIGN_DOWN_def PAGE_SIZE_def sample_bitmap_def)

end
