(* ===== verification/Memory_Paging.thy ===== *)
theory Memory_Paging
  imports Memory_Bitmap "HOL-Library.Monad_Syntax"
begin

text \<open>
  Two-level paging of \<^verbatim>\<open>src/memory_paging.c\<close> and \<^verbatim>\<open>src/bootstrap.c\<close>. The machine is the physical
  memory as 32-bit words at 4-aligned addresses, the page directory base register and the PSE
  flag; \<open>translate\<close> is the page walk of the processor. Every access of the C code to a page
  directory or table goes through a virtual address: the recursive slot 1023, a bounce page or
  the low window, so \<open>vread\<close> and \<open>vwrite\<close> walk the tables that the code itself modifies, and an
  access to an address that is not mapped is the page fault \<open>None\<close>. The translation cache is
  not modelled: the code invalidates the entry after each change.
\<close>

section \<open>Constants of include/memory_paging.h and include/memory.h\<close>

definition PAGE_PRESENT :: u32 where "PAGE_PRESENT = 1"
definition PAGE_READ_WRITE :: u32 where "PAGE_READ_WRITE = 2"
definition PAGE_USER :: u32 where "PAGE_USER = 4"
definition PAGE_4MB :: u32 where "PAGE_4MB = 0x80"
definition PAGE_MASK :: u32 where "PAGE_MASK = 0xFFFFF000"
definition KERNEL_PDE_ENTRIES :: nat where "KERNEL_PDE_ENTRIES = 1024"
definition KERNEL_PDE_START :: nat where "KERNEL_PDE_START = 768"
definition PAGE_DIRECTORY_VADDR :: u32 where "PAGE_DIRECTORY_VADDR = 0xFFFFF000"

definition PAGE_TABLE_VADDR :: "u32 \<Rightarrow> u32" where
  "PAGE_TABLE_VADDR pd = 0xFFC00000 + push_bit 12 pd"

definition KERNEL_BOUNCE_PAGE_START :: u32 where "KERNEL_BOUNCE_PAGE_START = 0xFFB00000"
definition KERNEL_BOUNCE_PAGE_SIZE :: nat where "KERNEL_BOUNCE_PAGE_SIZE = 16"

datatype memory_paging_result_t =
    MEMORY_PAGING_RESULT_OK
  | MEMORY_PAGING_RESULT_ALLOCATION_ERROR
  | MEMORY_PAGING_RESULT_BAD_PARAMETER

section \<open>The machine\<close>

record machine =
  pmem :: "u32 \<Rightarrow> u32"
  cr3 :: u32
  cr4_pse :: bool
  memory_bitmap :: memory_bitmap_t
  bounce_pages_used :: "u32 \<Rightarrow> u8"
  kernel_page_directory :: u32
  kernel_page_directory_phys :: u32

definition page_directory_index :: "u32 \<Rightarrow> u32" where
  "page_directory_index virtual_address = drop_bit 22 virtual_address AND 0x3FF"

definition page_table_index :: "u32 \<Rightarrow> u32" where
  "page_table_index virtual_address = drop_bit 12 virtual_address AND 0x3FF"

definition page_offset :: "u32 \<Rightarrow> u32" where
  "page_offset virtual_address = virtual_address AND 0xFFF"

definition entry_present :: "u32 \<Rightarrow> bool" where
  "entry_present e \<longleftrightarrow> e AND PAGE_PRESENT \<noteq> 0"

text \<open>The element \<open>i\<close> of an array of page entries.\<close>

definition entry_at :: "u32 \<Rightarrow> u32 \<Rightarrow> u32" where
  "entry_at table i = table + 4 * i"

definition translate :: "(u32 \<Rightarrow> u32) \<Rightarrow> bool \<Rightarrow> u32 \<Rightarrow> u32 \<Rightarrow> u32 option" where
  "translate pm pse root va =
     (let pde = pm (entry_at (root AND PAGE_MASK) (page_directory_index va))
      in if \<not> entry_present pde then None
         else if pse \<and> pde AND PAGE_4MB \<noteq> 0
         then Some ((pde AND 0xFFC00000) + (va AND 0x3FFFFF))
         else let pte = pm (entry_at (pde AND PAGE_MASK) (page_table_index va))
              in if \<not> entry_present pte then None
                 else Some ((pte AND PAGE_MASK) + page_offset va))"

definition vread :: "u32 \<Rightarrow> 'a machine_scheme \<Rightarrow> u32 option" where
  "vread va s = map_option (pmem s) (translate (pmem s) (cr4_pse s) (cr3 s) va)"

definition vwrite :: "u32 \<Rightarrow> u32 \<Rightarrow> 'a machine_scheme \<Rightarrow> 'a machine_scheme option" where
  "vwrite va v s =
     map_option (\<lambda>pa. s\<lparr>pmem := (pmem s)(pa := v)\<rparr>) (translate (pmem s) (cr4_pse s) (cr3 s) va)"

definition allocate_frame :: "'a machine_scheme \<Rightarrow> u32 \<times> 'a machine_scheme" where
  "allocate_frame s = (let (f, b) = memory_bitmap_allocate (memory_bitmap s)
                       in (f, s\<lparr>memory_bitmap := b\<rparr>))"

definition free_frame :: "u32 \<Rightarrow> 'a machine_scheme \<Rightarrow> 'a machine_scheme" where
  "free_frame f s = s\<lparr>memory_bitmap := memory_bitmap_free f (memory_bitmap s)\<rparr>"

section \<open>The current address space, through the recursive slot\<close>

definition memory_paging_reset_entry :: "u32 \<Rightarrow> 'a machine_scheme \<Rightarrow> 'a machine_scheme option" where
  "memory_paging_reset_entry entry =
     for_each (\<lambda>i. vwrite (entry_at entry i) 0) (indices KERNEL_PDE_ENTRIES)"

definition ensure_table_current ::
    "u32 \<Rightarrow> 'a machine_scheme \<Rightarrow> (memory_paging_result_t \<times> 'a machine_scheme) option" where
  "ensure_table_current d s = do {
     pde \<leftarrow> vread (entry_at PAGE_DIRECTORY_VADDR d) s;
     if entry_present pde then Some (MEMORY_PAGING_RESULT_OK, s)
     else let (frame, s) = allocate_frame s
          in if frame = 0 then Some (MEMORY_PAGING_RESULT_ALLOCATION_ERROR, s)
             else do {
               s \<leftarrow> vwrite (entry_at PAGE_DIRECTORY_VADDR d) (frame OR PAGE_READ_WRITE OR PAGE_PRESENT) s;
               s \<leftarrow> memory_paging_reset_entry (PAGE_TABLE_VADDR d) s;
               Some (MEMORY_PAGING_RESULT_OK, s)
             }
   }"

text \<open>\<^verbatim>\<open>page_directory[d] |= PAGE_USER\<close> when the flags ask for it.\<close>

definition or_user :: "u32 \<Rightarrow> u32 \<Rightarrow> u32 \<Rightarrow> 'a machine_scheme \<Rightarrow> 'a machine_scheme option" where
  "or_user page_directory d flags s =
     (if flags AND PAGE_USER \<noteq> 0
      then do {
        pde \<leftarrow> vread (entry_at page_directory d) s;
        vwrite (entry_at page_directory d) (pde OR PAGE_USER) s
      } else Some s)"

definition memory_paging_map_current ::
    "u32 \<Rightarrow> u32 \<Rightarrow> u32 \<Rightarrow> 'a machine_scheme \<Rightarrow> (memory_paging_result_t \<times> 'a machine_scheme) option" where
  "memory_paging_map_current physical_address virtual_address flags s =
     (let d = page_directory_index virtual_address; t = page_table_index virtual_address in do {
        (r, s) \<leftarrow> ensure_table_current d s;
        if r \<noteq> MEMORY_PAGING_RESULT_OK then Some (r, s)
        else do {
          s \<leftarrow> or_user PAGE_DIRECTORY_VADDR d flags s;
          s \<leftarrow> vwrite (entry_at (PAGE_TABLE_VADDR d) t)
                 ((physical_address AND PAGE_MASK) OR flags OR PAGE_PRESENT) s;
          Some (MEMORY_PAGING_RESULT_OK, s)
        }
      })"

definition memory_paging_unmap_current ::
    "u32 \<Rightarrow> 'a machine_scheme \<Rightarrow> (memory_paging_result_t \<times> 'a machine_scheme) option" where
  "memory_paging_unmap_current virtual_address s =
     (let d = page_directory_index virtual_address; t = page_table_index virtual_address in do {
        pde \<leftarrow> vread (entry_at PAGE_DIRECTORY_VADDR d) s;
        s \<leftarrow> (if entry_present pde then vwrite (entry_at (PAGE_TABLE_VADDR d) t) 0 s else Some s);
        Some (MEMORY_PAGING_RESULT_OK, s)
      })"

section \<open>Bounce pages\<close>

definition bounce_init :: "'a machine_scheme \<Rightarrow> 'a machine_scheme" where
  "bounce_init s =
     s\<lparr>bounce_pages_used := fold (\<lambda>i u. u(i := 0)) (indices KERNEL_BOUNCE_PAGE_SIZE) (bounce_pages_used s)\<rparr>"

definition bounce_vaddr :: "u32 \<Rightarrow> u32" where
  "bounce_vaddr i = KERNEL_BOUNCE_PAGE_START + i * PAGE_SIZE"

definition bounce_alloc :: "u32 \<Rightarrow> 'a machine_scheme \<Rightarrow> (u32 \<times> 'a machine_scheme) option" where
  "bounce_alloc physical_address s =
     (case find (\<lambda>i. bounce_pages_used s i = 0) (indices KERNEL_BOUNCE_PAGE_SIZE) of
        None \<Rightarrow> Some (0, s)
      | Some i \<Rightarrow> do {
          (r, s) \<leftarrow> memory_paging_map_current physical_address (bounce_vaddr i) PAGE_READ_WRITE s;
          if r \<noteq> MEMORY_PAGING_RESULT_OK then Some (0, s)
          else Some (bounce_vaddr i, s\<lparr>bounce_pages_used := (bounce_pages_used s)(i := 1)\<rparr>)
        })"

definition bounce_free :: "u32 \<Rightarrow> 'a machine_scheme \<Rightarrow> 'a machine_scheme option" where
  "bounce_free virtual_address s =
     (if virtual_address < KERNEL_BOUNCE_PAGE_START then Some s
      else let bounce_index = (virtual_address - KERNEL_BOUNCE_PAGE_START) div PAGE_SIZE in
        if of_nat KERNEL_BOUNCE_PAGE_SIZE \<le> bounce_index then Some s
        else do {
          (r, s) \<leftarrow> memory_paging_unmap_current virtual_address s;
          Some (s\<lparr>bounce_pages_used := (bounce_pages_used s)(bounce_index := 0)\<rparr>)
        })"

section \<open>Other address spaces\<close>

definition ensure_table ::
    "u32 \<Rightarrow> u32 \<Rightarrow> 'a machine_scheme \<Rightarrow> (memory_paging_result_t \<times> 'a machine_scheme) option" where
  "ensure_table page_directory d s = do {
     pde \<leftarrow> vread (entry_at page_directory d) s;
     if entry_present pde then Some (MEMORY_PAGING_RESULT_OK, s)
     else let (frame, s) = allocate_frame s
          in if frame = 0 then Some (MEMORY_PAGING_RESULT_ALLOCATION_ERROR, s)
             else do {
               (table, s) \<leftarrow> bounce_alloc frame s;
               s \<leftarrow> memory_paging_reset_entry table s;
               s \<leftarrow> bounce_free table s;
               s \<leftarrow> vwrite (entry_at page_directory d) (frame OR PAGE_READ_WRITE OR PAGE_PRESENT) s;
               Some (MEMORY_PAGING_RESULT_OK, s)
             }
   }"

definition memory_paging_map ::
    "u32 \<Rightarrow> u32 \<Rightarrow> u32 \<Rightarrow> u32 \<Rightarrow> 'a machine_scheme \<Rightarrow>
     (memory_paging_result_t \<times> 'a machine_scheme) option" where
  "memory_paging_map page_directory physical_address virtual_address flags s =
     (let d = page_directory_index virtual_address; t = page_table_index virtual_address in do {
        (r, s) \<leftarrow> ensure_table page_directory d s;
        if r \<noteq> MEMORY_PAGING_RESULT_OK then Some (r, s)
        else do {
          s \<leftarrow> or_user page_directory d flags s;
          pde \<leftarrow> vread (entry_at page_directory d) s;
          (table, s) \<leftarrow> bounce_alloc (pde AND PAGE_MASK) s;
          s \<leftarrow> vwrite (entry_at table t) (physical_address OR flags OR PAGE_PRESENT) s;
          s \<leftarrow> bounce_free table s;
          Some (MEMORY_PAGING_RESULT_OK, s)
        }
      })"

definition memory_paging_unmap ::
    "u32 \<Rightarrow> u32 \<Rightarrow> 'a machine_scheme \<Rightarrow> (memory_paging_result_t \<times> 'a machine_scheme) option" where
  "memory_paging_unmap page_directory virtual_address s =
     (let d = page_directory_index virtual_address; t = page_table_index virtual_address in do {
        pde \<leftarrow> vread (entry_at page_directory d) s;
        s \<leftarrow> (if entry_present pde
              then do {
                (table, s) \<leftarrow> bounce_alloc (pde AND PAGE_MASK) s;
                s \<leftarrow> vwrite (entry_at table t) 0 s;
                bounce_free table s
              } else Some s);
        Some (MEMORY_PAGING_RESULT_OK, s)
      })"

definition memory_paging_virtual_to_physical ::
    "u32 \<Rightarrow> u32 \<Rightarrow> 'a machine_scheme \<Rightarrow> (u32 \<times> 'a machine_scheme) option" where
  "memory_paging_virtual_to_physical page_directory_phys virtual_address s =
     (let d = page_directory_index virtual_address; t = page_table_index virtual_address in do {
        (page_directory, s) \<leftarrow> bounce_alloc page_directory_phys s;
        pde \<leftarrow> vread (entry_at page_directory d) s;
        if \<not> entry_present pde then Some (0, s)
        else do {
          s \<leftarrow> bounce_free page_directory s;
          (page_table, s) \<leftarrow> bounce_alloc (pde AND PAGE_MASK) s;
          pte \<leftarrow> vread (entry_at page_table t) s;
          if \<not> entry_present pte then Some (0, s)
          else do {
            s \<leftarrow> bounce_free page_table s;
            Some ((pte AND PAGE_MASK) + page_offset virtual_address, s)
          }
        }
      })"

definition memory_paging_get_current_page_directory_physical :: "'a machine_scheme \<Rightarrow> u32" where
  "memory_paging_get_current_page_directory_physical s = cr3 s"

definition memory_paging_create_page_directory ::
    "'a machine_scheme \<Rightarrow> (memory_paging_result_t \<times> u32 \<times> 'a machine_scheme) option" where
  "memory_paging_create_page_directory s =
     (let (frame, s) = allocate_frame s
      in if frame = 0 then Some (MEMORY_PAGING_RESULT_ALLOCATION_ERROR, 0, s)
         else do {
           (new, s) \<leftarrow> bounce_alloc frame s;
           s \<leftarrow> memory_paging_reset_entry new s;
           s \<leftarrow> for_each (\<lambda>i s. do {
                   e \<leftarrow> vread (entry_at (kernel_page_directory s) i) s;
                   vwrite (entry_at new i) e s
                 }) (drop KERNEL_PDE_START (indices KERNEL_PDE_ENTRIES)) s;
           s \<leftarrow> vwrite (entry_at new 1023) (frame OR PAGE_PRESENT OR PAGE_READ_WRITE) s;
           s \<leftarrow> bounce_free new s;
           Some (MEMORY_PAGING_RESULT_OK, frame, s)
         })"

definition memory_paging_free_page_table :: "u32 \<Rightarrow> 'a machine_scheme \<Rightarrow> 'a machine_scheme option" where
  "memory_paging_free_page_table page_table =
     for_each (\<lambda>i s. do {
         e \<leftarrow> vread (entry_at page_table i) s;
         Some (if entry_present e then free_frame (e AND PAGE_MASK) s else s)
       }) (indices KERNEL_PDE_ENTRIES)"

definition free_directory_entry :: "u32 \<Rightarrow> u32 \<Rightarrow> 'a machine_scheme \<Rightarrow> 'a machine_scheme option" where
  "free_directory_entry page_directory i s =
     (if i = 1023 then Some s
      else do {
        e \<leftarrow> vread (entry_at page_directory i) s;
        if \<not> entry_present e then Some s
        else do {
          k \<leftarrow> vread (entry_at (kernel_page_directory s) i) s;
          if e AND PAGE_MASK = k AND PAGE_MASK then Some s
          else do {
            (table, s) \<leftarrow> bounce_alloc (e AND PAGE_MASK) s;
            s \<leftarrow> memory_paging_free_page_table table s;
            bounce_free table (free_frame (e AND PAGE_MASK) s)
          }
        }
      })"

definition memory_paging_free_page_directory ::
    "u32 \<Rightarrow> 'a machine_scheme \<Rightarrow> 'a machine_scheme option" where
  "memory_paging_free_page_directory page_directory s =
     (if page_directory = 0 then Some s
      else for_each (free_directory_entry page_directory) (indices KERNEL_PDE_ENTRIES) s)"

text \<open>\<^verbatim>\<open>memcpy(dst, src, PAGE_SIZE)\<close> between two pages, word by word.\<close>

definition copy_page :: "u32 \<Rightarrow> u32 \<Rightarrow> 'a machine_scheme \<Rightarrow> 'a machine_scheme option" where
  "copy_page dst src =
     for_each (\<lambda>i s. do { w \<leftarrow> vread (entry_at src i) s; vwrite (entry_at dst i) w s })
       (indices KERNEL_PDE_ENTRIES)"

definition copy_mapped_page ::
    "u32 \<Rightarrow> u32 \<Rightarrow> u32 \<Rightarrow> 'a machine_scheme \<Rightarrow> 'a machine_scheme option" where
  "copy_mapped_page dst d t s = do {
     pte \<leftarrow> vread (entry_at (PAGE_TABLE_VADDR d) t) s;
     if \<not> entry_present pte then Some s
     else let virtual_addr = push_bit 22 d OR push_bit 12 t;
              (phys_dst, s) = allocate_frame s
          in do {
            (bounce, s) \<leftarrow> bounce_alloc phys_dst s;
            s \<leftarrow> copy_page bounce virtual_addr s;
            pte \<leftarrow> vread (entry_at (PAGE_TABLE_VADDR d) t) s;
            (r, s) \<leftarrow> memory_paging_map dst phys_dst virtual_addr (pte AND 0xFFF) s;
            bounce_free bounce s
          }
   }"

definition memory_paging_copy_mapped_memory ::
    "u32 \<Rightarrow> 'a machine_scheme \<Rightarrow> (memory_paging_result_t \<times> 'a machine_scheme) option" where
  "memory_paging_copy_mapped_memory dst s =
     (if dst = PAGE_DIRECTORY_VADDR then Some (MEMORY_PAGING_RESULT_OK, s)
      else if dst = 0 then Some (MEMORY_PAGING_RESULT_BAD_PARAMETER, s)
      else do {
        s \<leftarrow> for_each (\<lambda>d s. do {
                pde \<leftarrow> vread (entry_at PAGE_DIRECTORY_VADDR d) s;
                if \<not> entry_present pde then Some s
                else for_each (copy_mapped_page dst d) (indices KERNEL_PDE_ENTRIES) s
              }) (indices KERNEL_PDE_START) s;
        Some (MEMORY_PAGING_RESULT_OK, s)
      })"

section \<open>The kernel address space\<close>

definition memory_paging_map_kernel ::
    "u32 \<Rightarrow> u32 \<Rightarrow> u32 \<Rightarrow> 'a machine_scheme \<Rightarrow> (memory_paging_result_t \<times> 'a machine_scheme) option" where
  "memory_paging_map_kernel physical_address virtual_address flags s =
     (let d = page_directory_index virtual_address; t = page_table_index virtual_address in do {
        pde \<leftarrow> vread (entry_at (kernel_page_directory s) d) s;
        (r, s) \<leftarrow> (if entry_present pde then Some (MEMORY_PAGING_RESULT_OK, s)
           else let (frame, s) = allocate_frame s
                in if frame = 0 then Some (MEMORY_PAGING_RESULT_ALLOCATION_ERROR, s)
                   else do {
                     s \<leftarrow> memory_paging_reset_entry (kernel_low_physical_to_virtual frame) s;
                     s \<leftarrow> vwrite (entry_at (kernel_page_directory s) d) (frame OR flags OR PAGE_PRESENT) s;
                     Some (MEMORY_PAGING_RESULT_OK, s)
                   });
        if r \<noteq> MEMORY_PAGING_RESULT_OK then Some (r, s)
        else do {
          s \<leftarrow> or_user (kernel_page_directory s) d flags s;
          pde \<leftarrow> vread (entry_at (kernel_page_directory s) d) s;
          s \<leftarrow> vwrite (entry_at (kernel_low_physical_to_virtual (pde AND PAGE_MASK)) t)
                 (physical_address OR flags OR PAGE_PRESENT) s;
          Some (MEMORY_PAGING_RESULT_OK, s)
        }
      })"

text \<open>The offsets \<^verbatim>\<open>0, PAGE_SIZE, ...\<close> below a page-aligned size.\<close>

definition page_offsets :: "u32 \<Rightarrow> u32 list" where
  "page_offsets total_size = map (\<lambda>i. i * PAGE_SIZE) (indices (unat total_size div 4096))"

definition memory_paging_map_physical_range ::
    "u32 \<Rightarrow> u32 \<Rightarrow> u32 \<Rightarrow> u32 \<Rightarrow> 'a machine_scheme \<Rightarrow> (u32 \<times> 'a machine_scheme) option" where
  "memory_paging_map_physical_range physical_address size_bytes virtual_address_base flags s =
     (let physical_page_start = ALIGN_DOWN physical_address;
          physical_offset = physical_address - physical_page_start;
          total_size = ALIGN_UP (size_bytes + physical_offset)
      in do {
        s \<leftarrow> for_each (\<lambda>offset s. map_option snd
                (memory_paging_map_kernel (physical_page_start + offset)
                   (virtual_address_base + offset) flags s)) (page_offsets total_size) s;
        Some (virtual_address_base + physical_offset, s)
      })"

definition memory_paging_map_higher_half :: "'a machine_scheme \<Rightarrow> 'a machine_scheme option" where
  "memory_paging_map_higher_half =
     for_each (\<lambda>offset s. map_option snd
         (memory_paging_map_kernel offset (KERNEL_VIRTUAL_SPACE_START + offset) PAGE_READ_WRITE s))
       (page_offsets KERNEL_LOW_WINDOW_SIZE)"

definition memory_paging_create_kernel_page_directory ::
    "'a machine_scheme \<Rightarrow> (memory_paging_result_t \<times> 'a machine_scheme) option" where
  "memory_paging_create_kernel_page_directory s =
     (let (frame, s) = allocate_frame s; s = s\<lparr>kernel_page_directory_phys := frame\<rparr>
      in if frame = 0 then Some (MEMORY_PAGING_RESULT_ALLOCATION_ERROR, s)
         else let s = s\<lparr>kernel_page_directory := frame + KERNEL_VIRTUAL_SPACE_START\<rparr> in do {
           s \<leftarrow> memory_paging_reset_entry (kernel_page_directory s) s;
           s \<leftarrow> memory_paging_map_higher_half s;
           s \<leftarrow> vwrite (entry_at (kernel_page_directory s) 1023)
                  (frame OR PAGE_PRESENT OR PAGE_READ_WRITE) s;
           Some (MEMORY_PAGING_RESULT_OK, s)
         })"

definition memory_paging_set :: "u32 \<Rightarrow> 'a machine_scheme \<Rightarrow> 'a machine_scheme" where
  "memory_paging_set page_directory_physical s = s\<lparr>cr3 := page_directory_physical\<rparr>"

definition memory_paging_disable_pse :: "'a machine_scheme \<Rightarrow> 'a machine_scheme" where
  "memory_paging_disable_pse s = s\<lparr>cr4_pse := False\<rparr>"

definition memory_paging_module_init :: "'a machine_scheme \<Rightarrow> 'a machine_scheme option" where
  "memory_paging_module_init s = do {
     (r, s) \<leftarrow> memory_paging_create_kernel_page_directory (bounce_init s);
     Some (memory_paging_disable_pse (memory_paging_set (kernel_page_directory_phys s) s))
   }"

section \<open>Address arithmetic\<close>

lemma unat_and_mask: "unat (x AND mask n) = unat x mod 2 ^ n" for x :: u32
  by (metis take_bit_eq_mask take_bit_eq_mod unsigned_take_bit_eq)

lemma unat_page_directory_index [word_to_nat]: "unat (page_directory_index va) = unat va div 4194304"
proof -
  have m: "(0x3FF :: u32) = mask 10" by (simp add: mask_eq_exp_minus_1)
  have "unat va div 4194304 < 1024" using unat_u32 [of va] by (simp add: less_mult_imp_div_less)
  then show ?thesis unfolding page_directory_index_def m unat_and_mask
    by (simp add: drop_bit_eq_div unat_div)
qed

lemma unat_page_table_index [word_to_nat]: "unat (page_table_index va) = unat va div 4096 mod 1024"
proof -
  have m: "(0x3FF :: u32) = mask 10" by (simp add: mask_eq_exp_minus_1)
  show ?thesis unfolding page_table_index_def m unat_and_mask
    by (simp add: drop_bit_eq_div unat_div)
qed

lemma unat_page_offset [word_to_nat]: "unat (page_offset va) = unat va mod 4096"
proof -
  have m: "(0xFFF :: u32) = mask 12" by (simp add: mask_eq_exp_minus_1)
  show ?thesis unfolding page_offset_def m unat_and_mask by simp
qed

lemma PAGE_MASK_ALIGN_DOWN: "x AND PAGE_MASK = ALIGN_DOWN x"
proof -
  have "PAGE_MASK = NOT (PAGE_SIZE - 1)" by (simp add: PAGE_MASK_def PAGE_SIZE_def not_eq_complement)
  then show ?thesis by (simp add: ALIGN_DOWN_def)
qed

lemma aligned_unat: "ALIGN_DOWN f = f \<longleftrightarrow> unat f mod 4096 = 0"
proof -
  have "ALIGN_DOWN f = f \<longleftrightarrow> unat f div 4096 * 4096 = unat f"
    by (metis unat_ALIGN_DOWN unsigned_word_eqI)
  also have "\<dots> \<longleftrightarrow> unat f mod 4096 = 0"
    by (metis div_mult_mod_eq add_cancel_right_right dvd_imp_mod_0 dvd_triv_right)
  finally show ?thesis .
qed

lemma aligned_cases:
  assumes "ALIGN_DOWN f = f"
  obtains k where "unat f = k * 4096" "k < 1048576"
proof -
  have "unat f mod 4096 = 0" using assms by (simp add: aligned_unat)
  then obtain k where k: "unat f = k * 4096" by (metis mod_0_imp_dvd dvd_def mult.commute)
  then have "k < 1048576" using unat_u32 [of f] by simp
  with k that show thesis by blast
qed

lemma unat_entry_at:
  assumes "ALIGN_DOWN f = f" "i < 1024"
  shows "unat (entry_at f i) = unat f + 4 * unat i"
proof -
  obtain k where "unat f = k * 4096" "k < 1048576" using assms(1) by (rule aligned_cases)
  moreover have i: "unat i < 1024" using assms(2) by (simp add: word_less_nat_alt)
  ultimately have lt: "unat f + 4 * unat i < 2 ^ 32" by simp
  have "unat (4 * i) = 4 * unat i" using i by (simp add: unat_word_ariths)
  then show ?thesis unfolding entry_at_def using lt by (simp add: unat_word_ariths)
qed

lemma entry_at_frame:
  assumes "ALIGN_DOWN f = f" "i < 1024"
  shows "ALIGN_DOWN (entry_at f i) = f"
proof (rule unsigned_word_eqI [where ?'a = nat])
  obtain k where "unat f = k * 4096" using assms(1) by (rule aligned_cases)
  moreover have "unat i < 1024" using assms(2) by (simp add: word_less_nat_alt)
  ultimately show "unat (ALIGN_DOWN (entry_at f i)) = unat f"
    unfolding unat_ALIGN_DOWN unat_entry_at [OF assms] by simp
qed

lemma entry_at_eq_iff:
  assumes "ALIGN_DOWN f = f" "ALIGN_DOWN g = g" "i < 1024" "j < 1024"
  shows "entry_at f i = entry_at g j \<longleftrightarrow> f = g \<and> i = j"
proof
  assume eq: "entry_at f i = entry_at g j"
  then have "f = g" using entry_at_frame assms by metis
  with eq have "unat f + 4 * unat i = unat f + 4 * unat j"
    using unat_entry_at assms by metis
  then show "f = g \<and> i = j" using \<open>f = g\<close> by (simp add: unsigned_word_eqI)
qed simp

lemma page_index_bounds:
  "page_directory_index va < 1024" "page_table_index va < 1024" "page_offset va < 4096"
  using unat_u32 [of va]
  by (simp_all add: word_less_nat_alt word_to_nat less_mult_imp_div_less)

text \<open>Addresses written as directory index, table index and offset.\<close>

definition vaddr :: "u32 \<Rightarrow> u32 \<Rightarrow> u32 \<Rightarrow> u32" where
  "vaddr d t off = d * 0x400000 + t * 0x1000 + off"

lemma unat_vaddr:
  assumes "d < 1024" "t < 1024" "off < 4096"
  shows "unat (vaddr d t off) = unat d * 4194304 + unat t * 4096 + unat off"
proof -
  have b: "unat d < 1024" "unat t < 1024" "unat off < 4096" using assms by (simp_all add: word_less_nat_alt)
  then have "unat d * 4194304 + unat t * 4096 + unat off < 2 ^ 32" by simp
  moreover have "unat (d * 0x400000) = unat d * 4194304" "unat (t * 0x1000) = unat t * 4096"
    using b by (simp_all add: unat_word_ariths)
  ultimately show ?thesis unfolding vaddr_def by (simp add: unat_word_ariths)
qed

lemma vaddr_parts:
  assumes "d < 1024" "t < 1024" "off < 4096"
  shows "page_directory_index (vaddr d t off) = d" "page_table_index (vaddr d t off) = t"
    "page_offset (vaddr d t off) = off"
proof -
  have b: "unat d < 1024" "unat t < 1024" "unat off < 4096" using assms by (simp_all add: word_less_nat_alt)
  have "(unat d * 1024 + unat t) * 4096 + unat off = unat (vaddr d t off)"
    using unat_vaddr [OF assms] by (simp add: algebra_simps)
  moreover have "(k * 4096 + unat off) div 4096 = k" "(k * 4096 + unat off) mod 4096 = unat off" for k
    using b by simp_all
  ultimately have q: "unat (vaddr d t off) div 4096 = unat d * 1024 + unat t"
    "unat (vaddr d t off) mod 4096 = unat off" by metis+
  moreover have "unat (vaddr d t off) div 4194304 = unat (vaddr d t off) div 4096 div 1024"
    by (simp add: div_mult2_eq)
  ultimately show "page_directory_index (vaddr d t off) = d" "page_table_index (vaddr d t off) = t"
    "page_offset (vaddr d t off) = off"
    using b by (auto intro!: unsigned_word_eqI [where ?'a = nat] simp: word_to_nat)
qed

lemma vaddr_of_parts: "vaddr (page_directory_index va) (page_table_index va) (page_offset va) = va"
proof (rule unsigned_word_eqI [where ?'a = nat])
  have q: "unat va div 4194304 = unat va div 4096 div 1024" by (simp add: div_mult2_eq)
  have "unat va div 4194304 * 4194304 + unat va div 4096 mod 1024 * 4096 =
      (unat va div 4096 div 1024 * 1024 + unat va div 4096 mod 1024) * 4096"
    unfolding q by (simp only: distrib_right mult.assoc)
  also have "\<dots> + unat va mod 4096 = unat va" by (simp only: div_mult_mod_eq)
  finally show "unat (vaddr (page_directory_index va) (page_table_index va) (page_offset va)) = unat va"
    unfolding unat_vaddr [OF page_index_bounds] word_to_nat .
qed

lemma recursive_vaddr:
  "entry_at PAGE_DIRECTORY_VADDR d = vaddr 1023 1023 (4 * d)"
  "entry_at (PAGE_TABLE_VADDR d) t = vaddr 1023 d (4 * t)"
  by (simp_all add: entry_at_def PAGE_DIRECTORY_VADDR_def PAGE_TABLE_VADDR_def vaddr_def
      push_bit_eq_mult)

lemma bounce_entry_vaddr: "entry_at (bounce_vaddr i) t = vaddr 1022 (0x300 + i) (4 * t)"
  by (simp add: entry_at_def bounce_vaddr_def KERNEL_BOUNCE_PAGE_START_def PAGE_SIZE_def vaddr_def
      algebra_simps)

lemma times_four_less: "i < 1024 \<Longrightarrow> 4 * i < 4096" for i :: u32
  by (simp add: word_less_nat_alt unat_word_ariths)


section \<open>Page entries\<close>

lemma ALIGN_DOWN_or [simp]: "ALIGN_DOWN (x OR y) = ALIGN_DOWN x OR ALIGN_DOWN y"
  by (simp add: ALIGN_DOWN_def bit.conj_disj_distrib2)

lemma ALIGN_DOWN_flags [simp]:
  "ALIGN_DOWN PAGE_PRESENT = 0" "ALIGN_DOWN PAGE_READ_WRITE = 0" "ALIGN_DOWN PAGE_USER = 0"
  "ALIGN_DOWN 0 = 0"
  by (simp_all add: ALIGN_DOWN_def PAGE_PRESENT_def PAGE_READ_WRITE_def PAGE_USER_def PAGE_SIZE_def)

lemma entry_present_or [simp]:
  "entry_present (x OR y) \<longleftrightarrow> entry_present x \<or> entry_present y"
  "entry_present PAGE_PRESENT" "\<not> entry_present 0"
proof -
  have "x AND 1 = 0 \<longleftrightarrow> \<not> bit x 0" for x :: u32
    by (simp add: and_one_eq odd_iff_mod_2_eq_one bit_0)
  then show "entry_present (x OR y) \<longleftrightarrow> entry_present x \<or> entry_present y"
    by (simp add: entry_present_def PAGE_PRESENT_def bit_or_iff)
qed (simp_all add: entry_present_def PAGE_PRESENT_def)

section \<open>The page walk\<close>

text \<open>The present page table entry for a directory and a table index.\<close>

definition leaf :: "(u32 \<Rightarrow> u32) \<Rightarrow> u32 \<Rightarrow> u32 \<Rightarrow> u32 \<Rightarrow> u32 option" where
  "leaf pm root d t =
     (let pde = pm (entry_at root d); pte = pm (entry_at (ALIGN_DOWN pde) t)
      in if entry_present pde \<and> entry_present pte then Some pte else None)"

lemma translate_leaf:
  "ALIGN_DOWN root = root \<Longrightarrow> translate pm False root va =
     map_option (\<lambda>pte. ALIGN_DOWN pte + page_offset va)
       (leaf pm root (page_directory_index va) (page_table_index va))"
  by (simp add: translate_def leaf_def PAGE_MASK_ALIGN_DOWN Let_def)

text \<open>
  A window: the page at the virtual address \<open>P\<close> shows the frame \<open>F\<close>.
\<close>

definition window :: "(u32 \<Rightarrow> u32) \<Rightarrow> u32 \<Rightarrow> u32 \<Rightarrow> u32 \<Rightarrow> bool" where
  "window pm root P F \<longleftrightarrow> page_offset P = 0 \<and>
     map_option ALIGN_DOWN (leaf pm root (page_directory_index P) (page_table_index P)) = Some F"

lemma entry_at_page:
  assumes "page_offset P = 0" "i < 1024"
  shows "entry_at P i = vaddr (page_directory_index P) (page_table_index P) (4 * i)"
proof -
  have "P = vaddr (page_directory_index P) (page_table_index P) 0"
    using vaddr_of_parts [of P] assms(1) by simp
  then show ?thesis by (simp add: entry_at_def vaddr_def)
qed

lemma window_translate:
  assumes "window pm root P F" "ALIGN_DOWN root = root" "i < 1024"
  shows "translate pm False root (entry_at P i) = Some (entry_at F i)"
proof -
  have "page_offset P = 0" using assms(1) by (simp add: window_def)
  then have "entry_at P i = vaddr (page_directory_index P) (page_table_index P) (4 * i)"
    using assms(3) by (rule entry_at_page)
  then show ?thesis
    using assms vaddr_parts [OF page_index_bounds(1,2) times_four_less [OF assms(3)], of P P]
    by (auto simp: translate_leaf window_def entry_at_def)
qed

definition in_table :: "u32 \<Rightarrow> u32 \<Rightarrow> bool" where
  "in_table F a \<longleftrightarrow> (\<exists>i<1024. a = entry_at F i)"

definition clear_table :: "u32 \<Rightarrow> (u32 \<Rightarrow> u32) \<Rightarrow> u32 \<Rightarrow> u32" where
  "clear_table F pm a = (if in_table F a then 0 else pm a)"

lemma in_table_entry [simp]: "i < 1024 \<Longrightarrow> in_table F (entry_at F i)"
  by (auto simp: in_table_def)

lemma in_table_other:
  "ALIGN_DOWN F = F \<Longrightarrow> ALIGN_DOWN G = G \<Longrightarrow> i < 1024 \<Longrightarrow> in_table F (entry_at G i) \<longleftrightarrow> F = G"
  by (auto simp: in_table_def entry_at_eq_iff)

lemma clear_table_entry:
  "ALIGN_DOWN F = F \<Longrightarrow> ALIGN_DOWN G = G \<Longrightarrow> i < 1024 \<Longrightarrow>
     clear_table F pm (entry_at G i) = (if F = G then 0 else pm (entry_at G i))"
  by (simp add: clear_table_def in_table_other)

text \<open>The words a walk for directory index \<open>d\<close> and table index \<open>t\<close> reads.\<close>

definition walk_words :: "(u32 \<Rightarrow> u32) \<Rightarrow> u32 \<Rightarrow> u32 \<Rightarrow> u32 \<Rightarrow> u32 set" where
  "walk_words pm root d t = {entry_at root d, entry_at (ALIGN_DOWN (pm (entry_at root d))) t}"

lemma leaf_cong: "\<forall>a \<in> walk_words pm root d t. pm' a = pm a \<Longrightarrow> leaf pm' root d t = leaf pm root d t"
  by (simp add: leaf_def walk_words_def Let_def)

lemma window_cong:
  "\<forall>a \<in> walk_words pm root (page_directory_index P) (page_table_index P). pm' a = pm a \<Longrightarrow>
     window pm' root P F = window pm root P F"
  by (simp add: window_def leaf_cong)

lemma reset_entry_window:
  assumes w: "window (pmem s) (cr3 s) P F" and r: "ALIGN_DOWN (cr3 s) = cr3 s" "\<not> cr4_pse s"
    and F: "ALIGN_DOWN F = F"
    and sep: "\<forall>a \<in> walk_words (pmem s) (cr3 s) (page_directory_index P) (page_table_index P). \<not> in_table F a"
  shows "memory_paging_reset_entry P s = Some (s\<lparr>pmem := clear_table F (pmem s)\<rparr>)"
proof -
  let ?pm = "\<lambda>k a. if \<exists>i<k. a = entry_at F (of_nat i) then 0 else pmem s a"
  let ?inv = "\<lambda>k s'. s' = s\<lparr>pmem := ?pm k\<rparr>"
  have idx: "(of_nat k :: u32) < 1024" if "k < 1024" for k
    using that by (simp add: word_less_nat_alt unat_of_nat_u32)
  have step: "\<exists>s'. vwrite (entry_at P (of_nat k)) 0 s1 = Some s' \<and> ?inv (Suc k) s'"
    if k: "k < KERNEL_PDE_ENTRIES" and inv: "?inv k s1" for k s1
  proof -
    have k': "k < 1024" using k by (simp add: KERNEL_PDE_ENTRIES_def)
    have "\<forall>a \<in> walk_words (pmem s) (cr3 s) (page_directory_index P) (page_table_index P).
        pmem s1 a = pmem s a"
      using sep inv in_table_entry [OF idx] k' by auto
    then have "window (pmem s1) (cr3 s) P F" using w by (simp add: window_cong)
    then have "translate (pmem s1) False (cr3 s) (entry_at P (of_nat k)) = Some (entry_at F (of_nat k))"
      using window_translate [OF _ r(1) idx [OF k']] by blast
    then have "vwrite (entry_at P (of_nat k)) 0 s1 =
        Some (s\<lparr>pmem := (pmem s1)(entry_at F (of_nat k) := 0)\<rparr>)"
      using inv r(2) by (simp add: vwrite_def)
    moreover have "(pmem s1)(entry_at F (of_nat k) := 0) = ?pm (Suc k)"
      using inv by (auto simp: fun_eq_iff less_Suc_eq)
    ultimately show ?thesis by simp
  qed
  have "\<exists>s'. for_each (\<lambda>i. vwrite (entry_at P i) 0) (indices KERNEL_PDE_ENTRIES) s = Some s' \<and>
      ?inv KERNEL_PDE_ENTRIES s'"
    using step by (intro for_each_indices_rule [where P = ?inv]) simp_all
  then have "memory_paging_reset_entry P s = Some (s\<lparr>pmem := ?pm KERNEL_PDE_ENTRIES\<rparr>)"
    unfolding memory_paging_reset_entry_def by blast
  moreover have "(\<exists>i<1024. a = entry_at F (of_nat i)) = in_table F a" for a
  proof
    assume "in_table F a"
    then obtain i where "i < 1024" "a = entry_at F i" by (auto simp: in_table_def)
    then have "unat i < 1024" "a = entry_at F (of_nat (unat i))" by (simp_all add: word_less_nat_alt)
    then show "\<exists>i<1024. a = entry_at F (of_nat i)" by blast
  qed (use idx in auto)
  ultimately show ?thesis by (simp add: clear_table_def [abs_def] KERNEL_PDE_ENTRIES_def)
qed

section \<open>Well-formed address spaces\<close>

text \<open>
  The directory maps itself in slot 1023, and its page tables are pairwise different frames in
  use, none of them the directory itself.
\<close>

definition address_space :: "(u32 \<Rightarrow> u32) \<Rightarrow> u32 \<Rightarrow> u32 set \<Rightarrow> bool" where
  "address_space pm root frames \<longleftrightarrow>
     ALIGN_DOWN root = root \<and> root \<in> frames \<and>
     entry_present (pm (entry_at root 1023)) \<and> ALIGN_DOWN (pm (entry_at root 1023)) = root \<and>
     (\<forall>d<1023. entry_present (pm (entry_at root d)) \<longrightarrow>
        ALIGN_DOWN (pm (entry_at root d)) \<in> frames - {root}) \<and>
     (\<forall>d<1023. \<forall>e<1023. entry_present (pm (entry_at root d)) \<and> entry_present (pm (entry_at root e)) \<and>
        ALIGN_DOWN (pm (entry_at root d)) = ALIGN_DOWN (pm (entry_at root e)) \<longrightarrow> d = e)"

lemma address_spaceD:
  assumes "address_space pm root frames"
  shows "ALIGN_DOWN root = root" "root \<in> frames"
    "entry_present (pm (entry_at root 1023))" "ALIGN_DOWN (pm (entry_at root 1023)) = root"
    "d < 1023 \<Longrightarrow> entry_present (pm (entry_at root d)) \<Longrightarrow>
       ALIGN_DOWN (pm (entry_at root d)) \<in> frames \<and> ALIGN_DOWN (pm (entry_at root d)) \<noteq> root"
    "d < 1023 \<Longrightarrow> e < 1023 \<Longrightarrow> entry_present (pm (entry_at root d)) \<Longrightarrow>
       entry_present (pm (entry_at root e)) \<Longrightarrow>
       ALIGN_DOWN (pm (entry_at root d)) = ALIGN_DOWN (pm (entry_at root e)) \<Longrightarrow> d = e"
  using assms unfolding address_space_def by blast+

lemma index_1023: "d < 1023 \<Longrightarrow> d < 1024" "d < 1023 \<Longrightarrow> d \<noteq> 1023" "(1023 :: u32) < 1024" for d :: u32
  by (auto intro: less_trans)

lemma recursive_windows:
  assumes a: "address_space pm root frames"
  shows "window pm root PAGE_DIRECTORY_VADDR root"
    "d < 1023 \<Longrightarrow> entry_present (pm (entry_at root d)) \<Longrightarrow>
       window pm root (PAGE_TABLE_VADDR d) (ALIGN_DOWN (pm (entry_at root d)))"
proof -
  have pd: "PAGE_DIRECTORY_VADDR = vaddr 1023 1023 0"
    by (simp add: PAGE_DIRECTORY_VADDR_def vaddr_def)
  show "window pm root PAGE_DIRECTORY_VADDR root"
    unfolding pd window_def using address_spaceD(3,4) [OF a] by (simp add: vaddr_parts leaf_def)
  show "window pm root (PAGE_TABLE_VADDR d) (ALIGN_DOWN (pm (entry_at root d)))"
    if "d < 1023" "entry_present (pm (entry_at root d))"
  proof -
    have "PAGE_TABLE_VADDR d = vaddr 1023 d 0"
      by (simp add: PAGE_TABLE_VADDR_def vaddr_def push_bit_eq_mult)
    then show ?thesis
      unfolding window_def using address_spaceD(3,4) [OF a] that
      by (simp add: vaddr_parts leaf_def index_1023)
  qed
qed

text \<open>What each kind of write to the tables does to the walk.\<close>

lemma leaf_write_table:
  assumes a: "address_space pm root frames" and d: "d < 1023" and t: "t < 1024"
    and p: "entry_present (pm (entry_at root d))"
    and pm': "pm' = pm(entry_at (ALIGN_DOWN (pm (entry_at root d))) t := e)"
  shows "address_space pm' root frames"
    "d' < 1023 \<Longrightarrow> t' < 1024 \<Longrightarrow> leaf pm' root d' t' =
       (if d' = d \<and> t' = t then if entry_present e then Some e else None else leaf pm root d' t')"
    "k < 1024 \<Longrightarrow> pm' (entry_at root k) = pm (entry_at root k)"
proof -
  let ?T = "ALIGN_DOWN (pm (entry_at root d))"
  note A = address_spaceD [OF a]
  have ne: "?T \<noteq> root" using A(5) [OF d p] by simp
  show dir: "k < 1024 \<Longrightarrow> pm' (entry_at root k) = pm (entry_at root k)" for k
    using ne t A(1) entry_at_eq_iff [of ?T root t k] unfolding pm' by auto
  show "address_space pm' root frames"
    using a unfolding address_space_def by (simp add: dir index_1023)
  show "leaf pm' root d' t' =
       (if d' = d \<and> t' = t then if entry_present e then Some e else None else leaf pm root d' t')"
    if "d' < 1023" "t' < 1024"
  proof (cases "entry_present (pm (entry_at root d'))")
    case True
    then have "ALIGN_DOWN (pm (entry_at root d')) = ?T \<longleftrightarrow> d' = d"
      using A(6) [OF that(1) d True p] by auto
    then have "entry_at (ALIGN_DOWN (pm (entry_at root d'))) t' = entry_at ?T t \<longleftrightarrow> d' = d \<and> t' = t"
      using that t by (simp add: entry_at_eq_iff)
    then have "pm' (entry_at (ALIGN_DOWN (pm (entry_at root d'))) t') =
        (if d' = d \<and> t' = t then e else pm (entry_at (ALIGN_DOWN (pm (entry_at root d'))) t'))"
      by (simp add: pm')
    moreover have "pm' (entry_at root d') = pm (entry_at root d')" using dir that(1) index_1023 by blast
    ultimately show ?thesis
      unfolding leaf_def Let_def using True by (cases "d' = d \<and> t' = t") auto
  next
    case False
    moreover have "pm' (entry_at root d') = pm (entry_at root d')" using dir that(1) index_1023 by blast
    ultimately show ?thesis using p by (auto simp: leaf_def)
  qed
qed

lemma leaf_write_directory:
  assumes a: "address_space pm root frames" and d: "d < 1023"
    and e: "ALIGN_DOWN e = ALIGN_DOWN (pm (entry_at root d))"
      "entry_present e = entry_present (pm (entry_at root d))"
    and pm': "pm' = pm(entry_at root d := e)"
  shows "address_space pm' root frames" "d' < 1023 \<Longrightarrow> t' < 1024 \<Longrightarrow> leaf pm' root d' t' = leaf pm root d' t'"
proof -
  note A = address_spaceD [OF a]
  have dir: "ALIGN_DOWN (pm' (entry_at root k)) = ALIGN_DOWN (pm (entry_at root k))"
    "entry_present (pm' (entry_at root k)) = entry_present (pm (entry_at root k))" if "k < 1024" for k
    using e d A(1) that index_1023(1) [OF d] unfolding pm' by (auto simp: entry_at_eq_iff)
  show "address_space pm' root frames"
    using a unfolding address_space_def by (simp add: dir index_1023)
  show "leaf pm' root d' t' = leaf pm root d' t'" if "d' < 1023" "t' < 1024"
  proof (cases "entry_present (pm (entry_at root d'))")
    case True
    then have "ALIGN_DOWN (pm (entry_at root d')) \<noteq> root" using A(5) that by blast
    then have "pm' (entry_at (ALIGN_DOWN (pm (entry_at root d'))) t') =
        pm (entry_at (ALIGN_DOWN (pm (entry_at root d'))) t')"
      using that d A(1) index_1023 unfolding pm' by (simp add: entry_at_eq_iff)
    then show ?thesis using that by (simp add: leaf_def dir index_1023 Let_def)
  next
    case False
    then show ?thesis using that by (simp add: leaf_def dir index_1023 Let_def)
  qed
qed

lemma leaf_install_table:
  assumes a: "address_space pm root frames" and d: "d < 1023" and t: "\<not> entry_present (pm (entry_at root d))"
    and f: "ALIGN_DOWN f = f" "f \<notin> frames" and e: "ALIGN_DOWN e = f" "entry_present e"
    and pm': "pm' = clear_table f (pm(entry_at root d := e))"
  shows "address_space pm' root (insert f frames)"
    "d' < 1023 \<Longrightarrow> t' < 1024 \<Longrightarrow> leaf pm' root d' t' = leaf pm root d' t'"
    "k < 1024 \<Longrightarrow> pm' (entry_at root k) = (if k = d then e else pm (entry_at root k))"
proof -
  note A = address_spaceD [OF a]
  have ne: "f \<noteq> root" using A(2) f(2) by blast
  show dir: "k < 1024 \<Longrightarrow> pm' (entry_at root k) = (if k = d then e else pm (entry_at root k))" for k
    using ne A(1) f(1) d index_1023(1) [OF d] unfolding pm' by (simp add: clear_table_entry entry_at_eq_iff)
  have nt: False if "k < 1023" "entry_present (pm (entry_at root k))" "ALIGN_DOWN (pm (entry_at root k)) = f" for k
    using A(5) [OF that(1,2)] that(3) f(2) by blast
  show "address_space pm' root (insert f frames)"
    unfolding address_space_def
    using A(1-4) A(5,6) d t e ne by (auto simp: dir index_1023 dest: nt nt [OF _ _ sym])
  show "leaf pm' root d' t' = leaf pm root d' t'" if "d' < 1023" "t' < 1024"
  proof (cases "d' = d")
    case True
    then have "pm' (entry_at root d') = e" using dir index_1023 that by simp
    moreover have "pm' (entry_at f t') = 0" using f(1) that unfolding pm' by (simp add: clear_table_entry)
    ultimately show ?thesis using t True e by (simp add: leaf_def)
  next
    case False
    then have eq: "pm' (entry_at root d') = pm (entry_at root d')" using dir index_1023 that by simp
    have "pm' (entry_at T t') = pm (entry_at T t')"
      if "T = ALIGN_DOWN (pm (entry_at root d'))" "entry_present (pm (entry_at root d'))" for T
    proof -
      have "ALIGN_DOWN T = T" "T \<noteq> f" "T \<noteq> root"
        using that nt A(5) \<open>d' < 1023\<close> by auto
      then show ?thesis
        using \<open>t' < 1024\<close> f(1) A(1) d index_1023(1) [OF d] unfolding pm'
        by (simp add: clear_table_entry entry_at_eq_iff)
    qed
    then show ?thesis using eq by (auto simp: leaf_def Let_def)
  qed
qed


section \<open>The current address space\<close>

definition machine_wf :: "'a machine_scheme \<Rightarrow> bool" where
  "machine_wf s \<longleftrightarrow> \<not> cr4_pse s \<and> bitmap_wf (memory_bitmap s) \<and>
     address_space (pmem s) (cr3 s) (used_frames (memory_bitmap s))"

lemma machine_wfD:
  assumes "machine_wf s"
  shows "\<not> cr4_pse s" "bitmap_wf (memory_bitmap s)"
    "address_space (pmem s) (cr3 s) (used_frames (memory_bitmap s))" "ALIGN_DOWN (cr3 s) = cr3 s"
  using assms address_spaceD(1) unfolding machine_wf_def by blast+

lemma vread_window:
  assumes "machine_wf s" "window (pmem s) (cr3 s) P F" "i < 1024"
  shows "vread (entry_at P i) s = Some (pmem s (entry_at F i))"
  using window_translate [OF assms(2) machine_wfD(4) [OF assms(1)] assms(3)] machine_wfD(1) [OF assms(1)]
  by (simp add: vread_def)

lemma vwrite_window:
  assumes "machine_wf s" "window (pmem s) (cr3 s) P F" "i < 1024"
  shows "vwrite (entry_at P i) v s = Some (s\<lparr>pmem := (pmem s)(entry_at F i := v)\<rparr>)"
  using window_translate [OF assms(2) machine_wfD(4) [OF assms(1)] assms(3)] machine_wfD(1) [OF assms(1)]
  by (simp add: vwrite_def)

lemma directory_access:
  assumes "machine_wf s" "d < 1024"
  shows "vread (entry_at PAGE_DIRECTORY_VADDR d) s = Some (pmem s (entry_at (cr3 s) d))"
    "vwrite (entry_at PAGE_DIRECTORY_VADDR d) v s = Some (s\<lparr>pmem := (pmem s)(entry_at (cr3 s) d := v)\<rparr>)"
  using recursive_windows(1) [OF machine_wfD(3) [OF assms(1)]] assms
  by (auto simp: vread_window vwrite_window)

lemma table_access:
  assumes "machine_wf s" "d < 1023" "entry_present (pmem s (entry_at (cr3 s) d))" "t < 1024"
  shows "vread (entry_at (PAGE_TABLE_VADDR d) t) s =
      Some (pmem s (entry_at (ALIGN_DOWN (pmem s (entry_at (cr3 s) d))) t))"
    "vwrite (entry_at (PAGE_TABLE_VADDR d) t) v s =
      Some (s\<lparr>pmem := (pmem s)(entry_at (ALIGN_DOWN (pmem s (entry_at (cr3 s) d))) t := v)\<rparr>)"
  using recursive_windows(2) [OF machine_wfD(3) [OF assms(1)] assms(2,3)] assms
  by (auto simp: vread_window vwrite_window)

lemma allocate_frame_cases:
  assumes "machine_wf s"
  obtains (null) "allocate_frame s = (0, s)" "\<forall>p < pages (memory_bitmap s). page_used (memory_bitmap s) p"
  | (frame) f b where "allocate_frame s = (f, s\<lparr>memory_bitmap := b\<rparr>)" "f \<noteq> 0" "ALIGN_DOWN f = f"
      "f \<notin> used_frames (memory_bitmap s)" "used_frames b = insert f (used_frames (memory_bitmap s))"
      "bitmap_wf b"
proof -
  let ?b = "memory_bitmap s"
  obtain f b where run: "memory_bitmap_allocate ?b = (f, b)" by force
  have wf: "bitmap_wf ?b" using machine_wfD(2) [OF assms] .
  show thesis
  proof (cases "f = 0")
    case True
    with run wf have "b = ?b" using bitmap_frames.alloc_null by blast
    moreover from wf run have "\<forall>p < pages ?b. page_used ?b p"
    proof (cases rule: allocate_cases)
      case (page p)
      with \<open>b = ?b\<close> show ?thesis using take_page_simps(4) [OF page(3), of p] by simp
    qed simp
    ultimately show thesis using run True null by (simp add: allocate_frame_def)
  next
    case False
    with run wf bitmap_frames.alloc_fresh [OF wf run False] bitmap_frames.alloc_wf [OF wf run]
    show thesis by (intro frame [of f b]) (auto simp: allocate_frame_def)
  qed
qed

text \<open>The two outcomes of making sure that a page table exists.\<close>

lemma machine_wf_update:
  "\<not> cr4_pse s \<Longrightarrow> bitmap_wf b \<Longrightarrow> address_space pm (cr3 s) (used_frames b) \<Longrightarrow>
     machine_wf (s\<lparr>pmem := pm, memory_bitmap := b\<rparr>)"
  by (simp add: machine_wf_def)

definition same_leaves :: "(u32 \<Rightarrow> u32) \<Rightarrow> (u32 \<Rightarrow> u32) \<Rightarrow> u32 \<Rightarrow> bool" where
  "same_leaves pm pm' root \<longleftrightarrow> (\<forall>d<1023. \<forall>t<1024. leaf pm' root d t = leaf pm root d t)"

lemma ensure_table_current_cases:
  assumes wf: "machine_wf s" and d: "d < 1023"
  obtains (fail) "ensure_table_current d s = Some (MEMORY_PAGING_RESULT_ALLOCATION_ERROR, s)"
      "\<not> entry_present (pmem s (entry_at (cr3 s) d))"
      "\<forall>p < pages (memory_bitmap s). page_used (memory_bitmap s) p"
  | (present) "ensure_table_current d s = Some (MEMORY_PAGING_RESULT_OK, s)"
      "entry_present (pmem s (entry_at (cr3 s) d))"
  | (install) f b pm where
      "ensure_table_current d s = Some (MEMORY_PAGING_RESULT_OK, s\<lparr>pmem := pm, memory_bitmap := b\<rparr>)"
      "machine_wf (s\<lparr>pmem := pm, memory_bitmap := b\<rparr>)" "same_leaves (pmem s) pm (cr3 s)"
      "entry_present (pm (entry_at (cr3 s) d))" "\<not> entry_present (pmem s (entry_at (cr3 s) d))"
      "f \<notin> used_frames (memory_bitmap s)" "used_frames b = insert f (used_frames (memory_bitmap s))"
      "ALIGN_DOWN f = f" "pm = clear_table f ((pmem s)(entry_at (cr3 s) d := f OR PAGE_READ_WRITE OR PAGE_PRESENT))"
proof (cases "entry_present (pmem s (entry_at (cr3 s) d))")
  case True
  then show ?thesis
    using present wf d by (simp add: ensure_table_current_def directory_access index_1023)
next
  case absent: False
  have rd: "vread (entry_at PAGE_DIRECTORY_VADDR d) s = Some (pmem s (entry_at (cr3 s) d))"
    using directory_access(1) wf d index_1023 by blast
  note A = machine_wfD(3) [OF wf]
  from wf show ?thesis
  proof (cases rule: allocate_frame_cases)
    case null
    with rd absent fail show ?thesis by (simp add: ensure_table_current_def)
  next
    case (frame f b)
    let ?e = "f OR PAGE_READ_WRITE OR PAGE_PRESENT"
    define pm1 where "pm1 = (pmem s)(entry_at (cr3 s) d := ?e)"
    define pm where "pm = clear_table f pm1"
    let ?s1 = "s\<lparr>pmem := pm1, memory_bitmap := b\<rparr>"
    have e: "ALIGN_DOWN ?e = f" "entry_present ?e" using frame(3) by simp_all
    have pm1: "pm1 (entry_at (cr3 s) k) = (if k = d then ?e else pmem s (entry_at (cr3 s) k))"
      if "k < 1024" for k
      using that index_1023(1) [OF d] machine_wfD(4) [OF wf] by (simp add: pm1_def entry_at_eq_iff)
    have ne: "f \<noteq> cr3 s" using address_spaceD(2) [OF A] frame(4) by blast
    have w: "window pm1 (cr3 s) (PAGE_TABLE_VADDR d) f"
    proof -
      have "PAGE_TABLE_VADDR d = vaddr 1023 d 0"
        by (simp add: PAGE_TABLE_VADDR_def vaddr_def push_bit_eq_mult)
      then show ?thesis
        using d e pm1 address_spaceD(3,4) [OF A] frame(3) index_1023
        by (simp add: window_def leaf_def vaddr_parts)
    qed
    have sep: "\<forall>a \<in> walk_words pm1 (cr3 s) (page_directory_index (PAGE_TABLE_VADDR d))
        (page_table_index (PAGE_TABLE_VADDR d)). \<not> in_table f a"
    proof -
      have "PAGE_TABLE_VADDR d = vaddr 1023 d 0"
        by (simp add: PAGE_TABLE_VADDR_def vaddr_def push_bit_eq_mult)
      then show ?thesis
        using d pm1 ne frame(3) machine_wfD(4) [OF wf] address_spaceD(4) [OF A] index_1023
        by (simp add: walk_words_def vaddr_parts in_table_other)
    qed
    have "memory_paging_reset_entry (PAGE_TABLE_VADDR d) ?s1 = Some (?s1\<lparr>pmem := clear_table f pm1\<rparr>)"
      using reset_entry_window [of ?s1 "PAGE_TABLE_VADDR d" f] w sep machine_wfD [OF wf] frame(3) by simp
    moreover have "vwrite (entry_at PAGE_DIRECTORY_VADDR d) ?e (s\<lparr>memory_bitmap := b\<rparr>) = Some ?s1"
      using window_translate [OF recursive_windows(1) [OF A] machine_wfD(4) [OF wf] index_1023(1) [OF d]]
        machine_wfD(1) [OF wf] by (simp add: vwrite_def pm1_def)
    ultimately have run: "ensure_table_current d s = Some (MEMORY_PAGING_RESULT_OK, s\<lparr>pmem := pm, memory_bitmap := b\<rparr>)"
      using rd absent frame(1,2) by (simp add: ensure_table_current_def pm_def)
    have pm_eq: "pm = clear_table f ((pmem s)(entry_at (cr3 s) d := ?e))" by (simp add: pm_def pm1_def)
    note L = leaf_install_table [OF A d absent frame(3,4) e pm_eq]
    show ?thesis
    proof (rule install [OF run])
      show "machine_wf (s\<lparr>pmem := pm, memory_bitmap := b\<rparr>)"
        using L(1) frame(5,6) machine_wfD(1) [OF wf] by (simp add: machine_wf_def)
      show "same_leaves (pmem s) pm (cr3 s)" using L(2) by (simp add: same_leaves_def)
      show "entry_present (pm (entry_at (cr3 s) d))" using L(3) [of d] d index_1023 e(2) by simp
    qed (use absent frame pm_eq in simp_all)
  qed
qed

lemma or_user_directory:
  assumes wf: "machine_wf s" and d: "d < 1023"
  obtains pm where "or_user PAGE_DIRECTORY_VADDR d flags s = Some (s\<lparr>pmem := pm\<rparr>)"
    "machine_wf (s\<lparr>pmem := pm\<rparr>)" "same_leaves (pmem s) pm (cr3 s)"
    "entry_present (pm (entry_at (cr3 s) d)) = entry_present (pmem s (entry_at (cr3 s) d))"
    "ALIGN_DOWN (pm (entry_at (cr3 s) d)) = ALIGN_DOWN (pmem s (entry_at (cr3 s) d))"
    "\<And>a. a \<noteq> entry_at (cr3 s) d \<Longrightarrow> pm a = pmem s a"
proof (cases "flags AND PAGE_USER = 0")
  case True
  then show ?thesis
    using that [of "pmem s"] wf by (simp add: or_user_def same_leaves_def)
next
  case False
  define pm where "pm = (pmem s)(entry_at (cr3 s) d := pmem s (entry_at (cr3 s) d) OR PAGE_USER)"
  let ?e = "pmem s (entry_at (cr3 s) d) OR PAGE_USER"
  have e: "ALIGN_DOWN ?e = ALIGN_DOWN (pmem s (entry_at (cr3 s) d))"
    "entry_present ?e = entry_present (pmem s (entry_at (cr3 s) d))"
    by simp_all (simp add: entry_present_def PAGE_USER_def PAGE_PRESENT_def)
  note L = leaf_write_directory [OF machine_wfD(3) [OF wf] d e pm_def]
  have "or_user PAGE_DIRECTORY_VADDR d flags s = Some (s\<lparr>pmem := pm\<rparr>)"
    using False wf index_1023(1) [OF d] by (simp add: or_user_def directory_access pm_def)
  then show ?thesis
  proof (rule that)
    show "machine_wf (s\<lparr>pmem := pm\<rparr>)" using L(1) machine_wfD [OF wf] by (simp add: machine_wf_def)
    show "same_leaves (pmem s) pm (cr3 s)" using L(2) by (simp add: same_leaves_def)
  qed (use e in \<open>simp_all add: pm_def\<close>)
qed

text \<open>
  The leaves after a mapping: those of before, with the one at \<open>d\<close>, \<open>t\<close> replaced.
\<close>

definition leaf_updated :: "(u32 \<Rightarrow> u32) \<Rightarrow> (u32 \<Rightarrow> u32) \<Rightarrow> u32 \<Rightarrow> u32 \<Rightarrow> u32 \<Rightarrow> u32 option \<Rightarrow> bool" where
  "leaf_updated pm pm' root d t e \<longleftrightarrow>
     (\<forall>d'<1023. \<forall>t'<1024. leaf pm' root d' t' = (if d' = d \<and> t' = t then e else leaf pm root d' t'))"

lemma map_current_cases:
  assumes wf: "machine_wf s" and d: "page_directory_index va < 1023"
  obtains (fail) "memory_paging_map_current pa va flags s = Some (MEMORY_PAGING_RESULT_ALLOCATION_ERROR, s)"
      "\<not> entry_present (pmem s (entry_at (cr3 s) (page_directory_index va)))"
      "\<forall>p < pages (memory_bitmap s). page_used (memory_bitmap s) p"
  | (ok) pm b where
      "memory_paging_map_current pa va flags s =
         Some (MEMORY_PAGING_RESULT_OK, s\<lparr>pmem := pm, memory_bitmap := b\<rparr>)"
      "machine_wf (s\<lparr>pmem := pm, memory_bitmap := b\<rparr>)"
      "leaf_updated (pmem s) pm (cr3 s) (page_directory_index va) (page_table_index va)
         (Some ((pa AND PAGE_MASK) OR flags OR PAGE_PRESENT))"
      "used_frames (memory_bitmap s) \<subseteq> used_frames b"
proof -
  let ?d = "page_directory_index va" and ?t = "page_table_index va"
  let ?e = "(pa AND PAGE_MASK) OR flags OR PAGE_PRESENT"
  have e: "entry_present ?e" by simp
  have t: "?t < 1024" by (rule page_index_bounds)
  have rest: thesis
    if ens: "ensure_table_current ?d s = Some (MEMORY_PAGING_RESULT_OK, s1)"
      and s1: "s1 = s\<lparr>pmem := pm1, memory_bitmap := b\<rparr>" "machine_wf s1" "same_leaves (pmem s) pm1 (cr3 s)"
        "entry_present (pm1 (entry_at (cr3 s) ?d))" "used_frames (memory_bitmap s) \<subseteq> used_frames b"
    for s1 pm1 b
  proof -
    obtain pm2 where u0: "or_user PAGE_DIRECTORY_VADDR ?d flags s1 = Some (s1\<lparr>pmem := pm2\<rparr>)"
      "machine_wf (s1\<lparr>pmem := pm2\<rparr>)" "same_leaves (pmem s1) pm2 (cr3 s1)"
      "entry_present (pm2 (entry_at (cr3 s1) ?d)) = entry_present (pmem s1 (entry_at (cr3 s1) ?d))"
      by (rule or_user_directory [OF s1(2) d, of flags])
    have u: "or_user PAGE_DIRECTORY_VADDR ?d flags s1 = Some (s1\<lparr>pmem := pm2\<rparr>)"
      "machine_wf (s1\<lparr>pmem := pm2\<rparr>)" "same_leaves pm1 pm2 (cr3 s)"
      "entry_present (pm2 (entry_at (cr3 s) ?d))"
      using u0 s1(1,4) by simp_all
    have A2: "address_space pm2 (cr3 s) (used_frames b)"
      using machine_wfD(3) [OF u(2)] s1(1) by simp
    define pm3 where "pm3 = pm2(entry_at (ALIGN_DOWN (pm2 (entry_at (cr3 s) ?d))) ?t := ?e)"
    have w: "vwrite (entry_at (PAGE_TABLE_VADDR ?d) ?t) ?e (s1\<lparr>pmem := pm2\<rparr>) = Some (s1\<lparr>pmem := pm3\<rparr>)"
      using table_access(2) [OF u(2) d _ t] u(4) s1(1) by (simp add: pm3_def)
    note L = leaf_write_table [OF A2 d t u(4) pm3_def]
    have "memory_paging_map_current pa va flags s =
        Some (MEMORY_PAGING_RESULT_OK, s\<lparr>pmem := pm3, memory_bitmap := b\<rparr>)"
      using ens u(1) w s1(1) by (simp add: memory_paging_map_current_def Let_def)
    then show thesis
    proof (rule ok)
      show "machine_wf (s\<lparr>pmem := pm3, memory_bitmap := b\<rparr>)"
        using L(1) machine_wfD [OF u(2)] s1(1) by (simp add: machine_wf_def)
      show "leaf_updated (pmem s) pm3 (cr3 s) ?d ?t (Some ?e)"
        using L(2) e s1(3) u(3) by (simp add: leaf_updated_def same_leaves_def)
      show "used_frames (memory_bitmap s) \<subseteq> used_frames b" by (rule s1(5))
    qed
  qed
  from wf d show thesis
  proof (cases rule: ensure_table_current_cases)
    case fail
    with that(1) show thesis by (simp add: memory_paging_map_current_def Let_def)
  next
    case present
    with wf show thesis by (intro rest [of s "memory_bitmap s" "pmem s"]) (simp_all add: same_leaves_def)
  next
    case (install f b pm)
    show thesis by (rule rest [OF install(1) refl install(2-4)]) (use install(7) in blast)
  qed
qed

lemma unmap_current_eq:
  assumes wf: "machine_wf s" and d: "page_directory_index va < 1023"
  obtains pm where "memory_paging_unmap_current va s = Some (MEMORY_PAGING_RESULT_OK, s\<lparr>pmem := pm\<rparr>)"
    "machine_wf (s\<lparr>pmem := pm\<rparr>)"
    "leaf_updated (pmem s) pm (cr3 s) (page_directory_index va) (page_table_index va) None"
    "pm = (if entry_present (pmem s (entry_at (cr3 s) (page_directory_index va)))
           then (pmem s)(entry_at (ALIGN_DOWN (pmem s (entry_at (cr3 s) (page_directory_index va))))
                  (page_table_index va) := 0)
           else pmem s)"
proof (cases "entry_present (pmem s (entry_at (cr3 s) (page_directory_index va)))")
  case True
  let ?d = "page_directory_index va" and ?t = "page_table_index va"
  define pm where "pm = (pmem s)(entry_at (ALIGN_DOWN (pmem s (entry_at (cr3 s) ?d))) ?t := 0)"
  note L = leaf_write_table [OF machine_wfD(3) [OF wf] d page_index_bounds(2) True pm_def]
  have "memory_paging_unmap_current va s = Some (MEMORY_PAGING_RESULT_OK, s\<lparr>pmem := pm\<rparr>)"
    using wf d True index_1023(1) [OF d] page_index_bounds(2) [of va]
    by (simp add: memory_paging_unmap_current_def directory_access table_access pm_def Let_def)
  then show thesis
  proof (rule that)
    show "machine_wf (s\<lparr>pmem := pm\<rparr>)" using L(1) machine_wfD [OF wf] by (simp add: machine_wf_def)
    show "leaf_updated (pmem s) pm (cr3 s) ?d ?t None" using L(2) by (simp add: leaf_updated_def)
  qed (use True in \<open>simp add: pm_def\<close>)
next
  case False
  then show thesis
    using that [of "pmem s"] wf d index_1023(1) [OF d]
    by (auto simp: memory_paging_unmap_current_def directory_access leaf_updated_def leaf_def)
qed

lemma same_page_iff:
  "page_directory_index x = page_directory_index y \<and> page_table_index x = page_table_index y \<longleftrightarrow>
     ALIGN_DOWN x = ALIGN_DOWN y"
proof -
  have dir: "unat (page_directory_index v) = unat v div 4096 div 1024" for v
    unfolding word_to_nat by (simp add: div_mult2_eq)
  have split: "unat v div 4096 = unat (page_directory_index v) * 1024 + unat (page_table_index v)" for v
    unfolding dir unat_page_table_index by (simp only: div_mult_mod_eq)
  have "ALIGN_DOWN x = ALIGN_DOWN y \<longleftrightarrow> unat x div 4096 = unat y div 4096"
    by (metis unat_ALIGN_DOWN unsigned_word_eqI mult_cancel2 zero_neq_numeral)
  also have "\<dots> \<longleftrightarrow> page_directory_index x = page_directory_index y \<and> page_table_index x = page_table_index y"
  proof
    assume "unat x div 4096 = unat y div 4096"
    then show "page_directory_index x = page_directory_index y \<and> page_table_index x = page_table_index y"
      by (metis dir unat_page_table_index unsigned_word_eqI)
  qed (simp add: split)
  finally show ?thesis ..
qed

lemma leaf_updated_translate:
  assumes u: "leaf_updated pm pm' root (page_directory_index va) (page_table_index va) e"
    and r: "ALIGN_DOWN root = root" and va': "page_directory_index va' \<noteq> 1023"
  shows "translate pm' False root va' =
    (if ALIGN_DOWN va' = ALIGN_DOWN va then map_option (\<lambda>pte. ALIGN_DOWN pte + page_offset va') e
     else translate pm False root va')"
proof -
  have "page_directory_index va' < 1023"
    using page_index_bounds(1) [of va'] va' by unat_arith
  then have "leaf pm' root (page_directory_index va') (page_table_index va') =
      (if page_directory_index va' = page_directory_index va \<and> page_table_index va' = page_table_index va
       then e else leaf pm root (page_directory_index va') (page_table_index va'))"
    using u page_index_bounds(2) unfolding leaf_updated_def by blast
  then show ?thesis using r by (simp add: translate_leaf same_page_iff)
qed


section \<open>What paging leaves alone\<close>

text \<open>The operations change the machine only, never the fields that extend it.\<close>

lemma vwrite_more: "vwrite va v s = Some s' \<Longrightarrow> machine.more s' = machine.more s"
  by (auto simp: vwrite_def)

lemma for_each_more:
  assumes "\<And>i s s'. f i s = Some s' \<Longrightarrow> machine.more s' = machine.more s"
  shows "for_each f xs s = Some s' \<Longrightarrow> machine.more s' = machine.more s"
  using assms by (induction xs arbitrary: s) (auto simp: bind_eq_Some_conv)

lemma frame_more [simp]:
  "machine.more (snd (allocate_frame s)) = machine.more s" "machine.more (free_frame f s) = machine.more s"
  by (simp_all add: allocate_frame_def free_frame_def split: prod.splits)

lemma allocate_frame_more: "allocate_frame s = (f, s') \<Longrightarrow> machine.more s' = machine.more s"
  by (metis frame_more(1) snd_conv)

lemma reset_entry_more: "memory_paging_reset_entry e s = Some s' \<Longrightarrow> machine.more s' = machine.more s"
  unfolding memory_paging_reset_entry_def by (rule for_each_more [OF vwrite_more])

lemma ensure_table_current_more: "ensure_table_current d s = Some (r, s') \<Longrightarrow> machine.more s' = machine.more s"
  by (auto simp: ensure_table_current_def bind_eq_Some_conv split: if_splits prod.splits
      dest!: vwrite_more reset_entry_more allocate_frame_more)

lemma or_user_more: "or_user pd d flags s = Some s' \<Longrightarrow> machine.more s' = machine.more s"
  by (auto simp: or_user_def bind_eq_Some_conv split: if_splits dest!: vwrite_more)

lemma map_current_more: "memory_paging_map_current pa va flags s = Some (r, s') \<Longrightarrow> machine.more s' = machine.more s"
  by (auto simp: memory_paging_map_current_def Let_def bind_eq_Some_conv split: if_splits
      dest!: vwrite_more or_user_more ensure_table_current_more)

lemma unmap_current_more: "memory_paging_unmap_current va s = Some (r, s') \<Longrightarrow> machine.more s' = machine.more s"
  by (auto simp: memory_paging_unmap_current_def Let_def bind_eq_Some_conv split: if_splits dest!: vwrite_more)

lemma bounce_more:
  "bounce_alloc pa s = Some (p, s') \<Longrightarrow> machine.more s' = machine.more s"
  "bounce_free p s = Some s' \<Longrightarrow> machine.more s' = machine.more s"
  by (auto simp: bounce_alloc_def bounce_free_def Let_def bind_eq_Some_conv split: if_splits option.splits
      dest!: map_current_more unmap_current_more)

lemma virtual_to_physical_more:
  "memory_paging_virtual_to_physical root va s = Some (p, s') \<Longrightarrow> machine.more s' = machine.more s"
  by (auto simp: memory_paging_virtual_to_physical_def Let_def bind_eq_Some_conv split: if_splits dest!: bounce_more)

end
