(* ===== verification/Bootstrap.thy ===== *)
theory Bootstrap
  imports Memory_Paging
begin

text \<open>
  The paging that \<^verbatim>\<open>src/bootstrap.c\<close> sets up before the kernel runs at its virtual address: pages of
  four megabytes that show the first 64 megabytes of memory at their own addresses and again at the
  start of the kernel's half.
\<close>

unbundle bit_operations_syntax

section \<open>Operations\<close>

definition BOOTSTRAP_4MB_PAGES :: nat where "BOOTSTRAP_4MB_PAGES = 16"

text \<open>Paging is still off, so the page directory is written at its physical address.\<close>

definition reset_entry :: "u32 \<Rightarrow> (u32 \<Rightarrow> u32) \<Rightarrow> u32 \<Rightarrow> u32" where
  "reset_entry entry pm = fold (\<lambda>i pm. pm(entry_at entry i := 0)) (indices (unat PAGE_SIZE div 4)) pm"

definition map_pages :: "u32 \<Rightarrow> (u32 \<Rightarrow> u32) \<Rightarrow> u32 \<Rightarrow> u32" where
  "map_pages bootstrap_page_directory pm =
     fold (\<lambda>i pm. let entry = i * 0x400000 OR PAGE_PRESENT OR PAGE_READ_WRITE OR PAGE_4MB
                  in pm(entry_at bootstrap_page_directory i := entry, entry_at bootstrap_page_directory (768 + i) := entry))
       (indices BOOTSTRAP_4MB_PAGES) pm"

definition enable_pse :: "'a machine_scheme \<Rightarrow> 'a machine_scheme" where
  "enable_pse s = s\<lparr>cr4_pse := True\<rparr>"

text \<open>From here on every access walks the page directory.\<close>

definition enable_paging :: "u32 \<Rightarrow> 'a machine_scheme \<Rightarrow> 'a machine_scheme" where
  "enable_paging bootstrap_page_directory s = s\<lparr>cr3 := bootstrap_page_directory\<rparr>"

definition setup_bootstrap_paging :: "u32 \<Rightarrow> 'a machine_scheme \<Rightarrow> 'a machine_scheme" where
  "setup_bootstrap_paging bootstrap_page_directory s =
     enable_paging bootstrap_page_directory (enable_pse
       (s\<lparr>pmem := map_pages bootstrap_page_directory (reset_entry bootstrap_page_directory (pmem s))\<rparr>))"

section \<open>The address space at the start of the kernel\<close>

definition bootstrap_entry :: "u32 \<Rightarrow> u32" where
  "bootstrap_entry i = i * 0x400000 OR PAGE_PRESENT OR PAGE_READ_WRITE OR PAGE_4MB"

lemma reset_entries:
  fixes pm :: "u32 \<Rightarrow> u32"
  assumes "ALIGN_DOWN dir = dir" "d < 1024" "n \<le> 1024"
  shows "fold (\<lambda>i pm. pm(entry_at dir i := 0)) (indices n) pm (entry_at dir d) =
    (if unat d < n then 0 else pm (entry_at dir d))"
  using assms(3)
proof (induction n)
  case 0
  then show ?case by (simp add: indices_def)
next
  case (Suc n)
  have n: "unat (of_nat n :: u32) = n" using Suc.prems by (simp add: unat_of_nat_u32)
  then have "(of_nat n :: u32) < 1024" using Suc.prems by (simp add: word_less_nat_alt)
  then have "entry_at dir d = entry_at dir (of_nat n) \<longleftrightarrow> unat d = n"
    using entry_at_eq_iff [OF assms(1) assms(1) assms(2)] n by (metis unsigned_word_eqI)
  then show ?case using Suc by (auto simp: indices_Suc)
qed

lemma map_entries:
  assumes "ALIGN_DOWN dir = dir" "d < 1024" "n \<le> 16"
  shows "fold (\<lambda>i pm. let entry = i * 0x400000 OR PAGE_PRESENT OR PAGE_READ_WRITE OR PAGE_4MB
                  in pm(entry_at dir i := entry, entry_at dir (768 + i) := entry)) (indices n) pm (entry_at dir d) =
    (if unat d < n then bootstrap_entry d else if 768 \<le> unat d \<and> unat d < 768 + n then bootstrap_entry (d - 768)
     else pm (entry_at dir d))"
  using assms(3)
proof (induction n)
  case 0
  then show ?case by (auto simp: indices_def)
next
  case (Suc n)
  have n: "unat (of_nat n :: u32) = n" using Suc.prems by (simp add: unat_of_nat_u32)
  then have m: "unat (768 + of_nat n :: u32) = 768 + n" using Suc.prems by (simp add: unat_word_ariths)
  have "(of_nat n :: u32) < 1024" "768 + (of_nat n :: u32) < 1024"
    using Suc.prems n m by (simp_all add: word_less_nat_alt)
  then have e: "entry_at dir d = entry_at dir (of_nat n) \<longleftrightarrow> d = of_nat n"
    "entry_at dir d = entry_at dir (768 + of_nat n) \<longleftrightarrow> d = 768 + of_nat n"
    using entry_at_eq_iff [OF assms(1) assms(1) assms(2)] by simp_all
  have i: "d = of_nat n \<longleftrightarrow> unat d = n" "d = 768 + of_nat n \<longleftrightarrow> unat d = 768 + n"
    using n m by (metis unsigned_word_eqI)+
  show ?case
  proof (cases "unat d = n \<or> unat d = 768 + n")
    case True
    then consider "d = of_nat n" | "d = 768 + of_nat n" using i by blast
    then show ?thesis
      using n m Suc.prems e by cases (simp_all add: indices_Suc Let_def bootstrap_entry_def)
  next
    case False
    then show ?thesis using Suc by (auto simp: indices_Suc Let_def e i)
  qed
qed

lemma bootstrap_entry_parts:
  assumes "i < 1024"
  shows "entry_present (bootstrap_entry i)" "bootstrap_entry i AND PAGE_4MB \<noteq> 0"
    "bootstrap_entry i AND 0xFFC00000 = i * 0x400000"
proof -
  show "entry_present (bootstrap_entry i)" by (simp add: bootstrap_entry_def)
  have "bit (bootstrap_entry i AND PAGE_4MB) 7"
    by (simp add: bootstrap_entry_def PAGE_4MB_def bit_simps)
  then show "bootstrap_entry i AND PAGE_4MB \<noteq> 0" by (metis bit_0_eq bot_apply bot_bool_def)
  have "bootstrap_entry i = push_bit 22 i OR 131"
    by (simp add: bootstrap_entry_def PAGE_PRESENT_def PAGE_READ_WRITE_def PAGE_4MB_def push_bit_eq_mult or.assoc)
  moreover have "(0xFFC00000 :: u32) = NOT (mask 22)" by (simp add: not_eq_complement mask_eq_exp_minus_1)
  moreover have "push_bit 22 i AND NOT (mask 22) = push_bit 22 i"
    by (rule bit_word_eqI) (auto simp: bit_simps)
  moreover have "(131 :: u32) AND NOT (mask 22) = 0" by (simp add: mask_eq_exp_minus_1)
  ultimately show "bootstrap_entry i AND 0xFFC00000 = i * 0x400000"
    by (simp add: bit.conj_disj_distrib2 push_bit_eq_mult)
qed

lemma bootstrap_directory:
  assumes "ALIGN_DOWN dir = dir" "d < 1024"
  shows "pmem (setup_bootstrap_paging dir s) (entry_at dir d) =
    (if unat d < 16 then bootstrap_entry d else if 768 \<le> unat d \<and> unat d < 784 then bootstrap_entry (d - 768) else 0)"
proof -
  have "unat d < 1024" using assms(2) by (simp add: word_less_nat_alt)
  then show ?thesis
    using map_entries [OF assms, of 16] reset_entries [OF assms, of 1024]
    by (simp add: setup_bootstrap_paging_def enable_paging_def enable_pse_def map_pages_def reset_entry_def
        BOOTSTRAP_4MB_PAGES_def PAGE_SIZE_def)
qed

lemma large_page_address: "unat (page_directory_index va * 0x400000 + (va AND 0x3FFFFF)) = unat va"
proof -
  have m: "(0x3FFFFF :: u32) = mask 22" by (simp add: mask_eq_exp_minus_1)
  have "unat va div 4194304 * 4194304 + unat va mod 4194304 = unat va" by (rule div_mult_mod_eq)
  moreover have "unat va div 4194304 * 4194304 \<le> unat va" by simp
  moreover have "unat (va AND mask 22) = unat va mod 4194304" by (simp add: unat_and_mask)
  ultimately show ?thesis unfolding m
    using unat_u32 [of va] by (simp add: unat_word_ariths word_to_nat)
qed


definition reset_machine :: machine where
  "reset_machine = \<lparr>pmem = (\<lambda>_. 7), cr3 = 0, cr4_pse = False,
     memory_bitmap = \<lparr>entries_at = 0, entries = (\<lambda>_. 0), pages = 0, last_allocated_page_index = 0\<rparr>,
     bounce_pages_used = (\<lambda>_. 0), kernel_page_directory = 0, kernel_page_directory_phys = 0\<rparr>"


end
