(* ===== verification/Address_Spaces.thy ===== *)
theory Address_Spaces
  imports Memory_Paging
begin

text \<open>
  The operations of \<^verbatim>\<open>src/memory_paging.c\<close> that reach frames through bounce pages: what a bounce
  page does to the address space, and the behaviour of the operations that edit a page directory
  other than through the recursive slot.
\<close>

section \<open>Bounce pages\<close>

text \<open>The page table that holds the bounce slots, and the slot of the bounce page \<open>i\<close>.\<close>

definition bounce_table :: "'a machine_scheme \<Rightarrow> u32" where
  "bounce_table s = ALIGN_DOWN (pmem s (entry_at (cr3 s) 1022))"

definition bounce_slot :: "u32 \<Rightarrow> u32" where
  "bounce_slot i = 0x300 + i"

text \<open>
  Bounce pages work once their page table exists, and every slot that is not in use is empty.
\<close>

definition bounce_ready :: "'a machine_scheme \<Rightarrow> bool" where
  "bounce_ready s \<longleftrightarrow> machine_wf s \<and> entry_present (pmem s (entry_at (cr3 s) 1022)) \<and>
     (\<forall>i<16. bounce_pages_used s i = 0 \<longrightarrow> pmem s (entry_at (bounce_table s) (bounce_slot i)) = 0)"

lemma bounce_readyD:
  assumes "bounce_ready s"
  shows "machine_wf s" "entry_present (pmem s (entry_at (cr3 s) 1022))"
    "i < 16 \<Longrightarrow> bounce_pages_used s i = 0 \<Longrightarrow> pmem s (entry_at (bounce_table s) (bounce_slot i)) = 0"
    "ALIGN_DOWN (bounce_table s) = bounce_table s" "bounce_table s \<noteq> cr3 s"
    "bounce_table s \<in> used_frames (memory_bitmap s)"
proof -
  show wf: "machine_wf s" and p: "entry_present (pmem s (entry_at (cr3 s) 1022))"
    and "i < 16 \<Longrightarrow> bounce_pages_used s i = 0 \<Longrightarrow> pmem s (entry_at (bounce_table s) (bounce_slot i)) = 0"
    using assms unfolding bounce_ready_def by blast+
  show "bounce_table s \<noteq> cr3 s" "bounce_table s \<in> used_frames (memory_bitmap s)"
    using address_spaceD(5) [OF machine_wfD(3) [OF wf] _ p] by (simp_all add: bounce_table_def)
qed (simp add: bounce_table_def)

lemma bounce_index:
  assumes "i < 16"
  shows "page_directory_index (bounce_vaddr i) = 1022" "page_table_index (bounce_vaddr i) = bounce_slot i"
    "page_offset (bounce_vaddr i) = 0" "bounce_slot i < 1024" "\<not> bounce_vaddr i < KERNEL_BOUNCE_PAGE_START"
    "(bounce_vaddr i - KERNEL_BOUNCE_PAGE_START) div PAGE_SIZE = i" "bounce_vaddr i \<noteq> 0"
proof -
  have lt: "bounce_slot i < 1024" using assms unfolding bounce_slot_def by unat_arith
  have v: "bounce_vaddr i = vaddr 1022 (bounce_slot i) 0"
    by (simp add: bounce_vaddr_def KERNEL_BOUNCE_PAGE_START_def PAGE_SIZE_def vaddr_def bounce_slot_def
        algebra_simps)
  show "page_directory_index (bounce_vaddr i) = 1022" "page_table_index (bounce_vaddr i) = bounce_slot i"
    "page_offset (bounce_vaddr i) = 0" "bounce_slot i < 1024"
    unfolding v using lt by (simp_all add: vaddr_parts)
  have i: "unat i < 16" using assms by (simp add: word_less_nat_alt)
  then have m: "unat (i * 4096) = unat i * 4096" by (simp add: unat_word_ariths)
  then have ub: "unat (bounce_vaddr i) = 0xFFB00000 + unat i * 4096"
    using i by (simp add: bounce_vaddr_def KERNEL_BOUNCE_PAGE_START_def PAGE_SIZE_def unat_word_ariths)
  then show "\<not> bounce_vaddr i < KERNEL_BOUNCE_PAGE_START"
    by (simp add: word_less_nat_alt KERNEL_BOUNCE_PAGE_START_def)
  show "bounce_vaddr i \<noteq> 0" using ub by (auto dest: arg_cong [of _ _ unat])
  have "unat (i * 4096 div 4096) = unat i" using m by (simp add: unat_div)
  then have "i * 4096 div 4096 = i" by (rule unsigned_word_eqI)
  then show "(bounce_vaddr i - KERNEL_BOUNCE_PAGE_START) div PAGE_SIZE = i"
    by (simp add: bounce_vaddr_def PAGE_SIZE_def)
qed

lemma bounce_slot_eq [simp]: "bounce_slot i = bounce_slot j \<longleftrightarrow> i = j"
  by (simp add: bounce_slot_def)

lemma map_current_present:
  assumes wf: "machine_wf s" and d: "page_directory_index va < 1023" and u: "flags AND PAGE_USER = 0"
    and p: "entry_present (pmem s (entry_at (cr3 s) (page_directory_index va)))"
  shows "memory_paging_map_current pa va flags s = Some (MEMORY_PAGING_RESULT_OK,
     s\<lparr>pmem := (pmem s)(entry_at (ALIGN_DOWN (pmem s (entry_at (cr3 s) (page_directory_index va))))
       (page_table_index va) := (pa AND PAGE_MASK) OR flags OR PAGE_PRESENT)\<rparr>)"
  using assms index_1023(1) [OF d] page_index_bounds(2) [of va]
  by (simp add: memory_paging_map_current_def ensure_table_current_def or_user_def directory_access
      table_access Let_def)

definition bounce_entry :: "u32 \<Rightarrow> u32" where
  "bounce_entry pa = ALIGN_DOWN pa OR PAGE_READ_WRITE OR PAGE_PRESENT"

text \<open>The state with the slot \<open>i\<close> showing the frame of \<open>pa\<close>.\<close>

definition with_slot :: "u32 \<Rightarrow> u32 \<Rightarrow> 'a machine_scheme \<Rightarrow> 'a machine_scheme" where
  "with_slot i pa s =
     s\<lparr>pmem := (pmem s)(entry_at (bounce_table s) (bounce_slot i) := bounce_entry pa),
       bounce_pages_used := (bounce_pages_used s)(i := 1)\<rparr>"

lemma find_Some_indices:
  assumes "find P (indices n) = Some i" "n \<le> 2 ^ 32"
  shows "P i" "i < of_nat n \<or> n = 2 ^ 32"
  using assms by (auto simp: find_Some_iff indices_def word_less_nat_alt unat_of_nat)

lemma bounce_alloc_cases:
  assumes r: "bounce_ready s"
  obtains (none) "bounce_alloc pa s = Some (0, s)" "\<forall>i<16. bounce_pages_used s i \<noteq> 0"
  | (slot) i where "i < 16" "bounce_pages_used s i = 0" "bounce_alloc pa s = Some (bounce_vaddr i, with_slot i pa s)"
proof (cases "find (\<lambda>i. bounce_pages_used s i = 0) (indices KERNEL_BOUNCE_PAGE_SIZE)")
  case None
  have "bounce_pages_used s i \<noteq> 0" if "i < 16" for i
  proof -
    have "i \<in> set (indices 16)"
      using that by (auto simp: indices_def word_less_nat_alt intro!: image_eqI [of _ _ "unat i"])
    with None show ?thesis by (auto simp: find_None_iff KERNEL_BOUNCE_PAGE_SIZE_def)
  qed
  with None none show ?thesis by (simp add: bounce_alloc_def)
next
  case (Some i)
  then have i: "i < 16" "bounce_pages_used s i = 0"
    using find_Some_indices [of "\<lambda>i. bounce_pages_used s i = 0" KERNEL_BOUNCE_PAGE_SIZE i]
    by (simp_all add: KERNEL_BOUNCE_PAGE_SIZE_def)
  have "PAGE_READ_WRITE AND PAGE_USER = 0" by (simp add: PAGE_READ_WRITE_def PAGE_USER_def)
  then have "memory_paging_map_current pa (bounce_vaddr i) PAGE_READ_WRITE s =
      Some (MEMORY_PAGING_RESULT_OK,
        s\<lparr>pmem := (pmem s)(entry_at (bounce_table s) (bounce_slot i) := bounce_entry pa)\<rparr>)"
    using map_current_present [OF bounce_readyD(1) [OF r], of "bounce_vaddr i" PAGE_READ_WRITE pa]
      bounce_index [OF i(1)] bounce_readyD(2) [OF r]
    by (simp add: bounce_table_def bounce_entry_def PAGE_MASK_ALIGN_DOWN)
  then have "bounce_alloc pa s = Some (bounce_vaddr i, with_slot i pa s)"
    using Some by (simp add: bounce_alloc_def with_slot_def)
  with i slot show ?thesis by blast
qed

text \<open>What a slot in use does to the rest of the state.\<close>

lemma bounce_slot_word:
  assumes r: "bounce_ready s" and i: "i < 16"
  shows "k < 1024 \<Longrightarrow> entry_at (cr3 s) k \<noteq> entry_at (bounce_table s) (bounce_slot i)"
  using bounce_readyD(4,5) [OF r] machine_wfD(4) [OF bounce_readyD(1) [OF r]] bounce_index(4) [OF i]
  by (simp add: entry_at_eq_iff)

lemma with_slot_simps [simp]:
  "cr3 (with_slot i pa s) = cr3 s" "memory_bitmap (with_slot i pa s) = memory_bitmap s"
  "cr4_pse (with_slot i pa s) = cr4_pse s" "kernel_page_directory (with_slot i pa s) = kernel_page_directory s"
  "kernel_page_directory_phys (with_slot i pa s) = kernel_page_directory_phys s"
  "bounce_pages_used (with_slot i pa s) = (bounce_pages_used s)(i := 1)"
  by (simp_all add: with_slot_def)

lemma with_slot_ready:
  assumes r: "bounce_ready s" and i: "i < 16"
  shows "bounce_ready (with_slot i pa s)" "bounce_table (with_slot i pa s) = bounce_table s"
    "window (pmem (with_slot i pa s)) (cr3 s) (bounce_vaddr i) (ALIGN_DOWN pa)"
    "leaf_updated (pmem s) (pmem (with_slot i pa s)) (cr3 s) 1022 (bounce_slot i) (Some (bounce_entry pa))"
proof -
  note wf = bounce_readyD(1) [OF r]
  have pm: "pmem (with_slot i pa s) = (pmem s)(entry_at (ALIGN_DOWN (pmem s (entry_at (cr3 s) 1022)))
      (bounce_slot i) := bounce_entry pa)"
    by (simp add: with_slot_def bounce_table_def)
  note L = leaf_write_table [OF machine_wfD(3) [OF wf] _ bounce_index(4) [OF i] bounce_readyD(2) [OF r] pm]
  have e: "entry_present (bounce_entry pa)" "ALIGN_DOWN (bounce_entry pa) = ALIGN_DOWN pa"
    by (simp_all add: bounce_entry_def)
  show bt: "bounce_table (with_slot i pa s) = bounce_table s"
    using L(3) [of 1022] by (simp add: bounce_table_def)
  show upd: "leaf_updated (pmem s) (pmem (with_slot i pa s)) (cr3 s) 1022 (bounce_slot i) (Some (bounce_entry pa))"
    using L(2) e by (simp add: leaf_updated_def)
  show "window (pmem (with_slot i pa s)) (cr3 s) (bounce_vaddr i) (ALIGN_DOWN pa)"
    using upd bounce_index [OF i] e by (simp add: window_def leaf_updated_def)
  have "machine_wf (with_slot i pa s)"
    using L(1) machine_wfD [OF wf] by (simp add: machine_wf_def)
  moreover have "entry_present (pmem (with_slot i pa s) (entry_at (cr3 s) 1022))"
    using L(3) [of 1022] bounce_readyD(2) [OF r] by simp
  moreover have "pmem (with_slot i pa s) (entry_at (bounce_table s) (bounce_slot j)) = 0"
    if "j < 16" "((bounce_pages_used s)(i := 1)) j = 0" for j
  proof -
    have "j \<noteq> i" "bounce_pages_used s j = 0" using that by (auto split: if_splits)
    then show ?thesis
      using bounce_readyD(3) [OF r that(1)] bounce_readyD(4) [OF r] bounce_index(4) [OF i] bounce_index(4) [OF that(1)]
      by (simp add: with_slot_def entry_at_eq_iff)
  qed
  ultimately show "bounce_ready (with_slot i pa s)"
    by (simp add: bounce_ready_def bt)
qed

definition release_slot :: "u32 \<Rightarrow> 'a machine_scheme \<Rightarrow> 'a machine_scheme" where
  "release_slot i s =
     s\<lparr>pmem := (pmem s)(entry_at (bounce_table s) (bounce_slot i) := 0),
       bounce_pages_used := (bounce_pages_used s)(i := 0)\<rparr>"

lemma bounce_free_slot:
  assumes wf: "machine_wf s" and p: "entry_present (pmem s (entry_at (cr3 s) 1022))" and i: "i < 16"
  shows "bounce_free (bounce_vaddr i) s = Some (release_slot i s)"
proof -
  have "memory_paging_unmap_current (bounce_vaddr i) s = Some (MEMORY_PAGING_RESULT_OK,
      s\<lparr>pmem := (pmem s)(entry_at (bounce_table s) (bounce_slot i) := 0)\<rparr>)"
    using wf p bounce_index [OF i]
    by (simp add: memory_paging_unmap_current_def directory_access table_access bounce_table_def Let_def)
  moreover have "\<not> of_nat KERNEL_BOUNCE_PAGE_SIZE \<le> i" using i by (simp add: KERNEL_BOUNCE_PAGE_SIZE_def)
  ultimately show ?thesis
    using bounce_index [OF i] by (simp add: bounce_free_def Let_def release_slot_def)
qed

lemma bounce_round_trip:
  assumes r: "bounce_ready s" and i: "i < 16" "bounce_pages_used s i = 0"
  shows "bounce_free (bounce_vaddr i) (with_slot i pa s) = Some s"
proof -
  have "release_slot i (with_slot i pa s) = s"
    using with_slot_ready(2) [OF r i(1), of pa] bounce_readyD(3) [OF r i] i(2)
    by (simp add: release_slot_def with_slot_def fun_upd_idem)
  then show ?thesis
    using bounce_free_slot [OF bounce_readyD(1,2) [OF with_slot_ready(1) [OF r i(1), of pa]]] i(1) by simp
qed


section \<open>Editing another address space\<close>

lemma address_space_mono:
  "address_space pm root frames \<Longrightarrow> frames \<subseteq> frames' \<Longrightarrow> address_space pm root frames'"
  unfolding address_space_def by blast

lemma address_space_cong:
  assumes "address_space pm root frames" "\<And>k. k < 1024 \<Longrightarrow> pm' (entry_at root k) = pm (entry_at root k)"
  shows "address_space pm' root frames"
  using assms(1) unfolding address_space_def by (simp add: assms(2) index_1023)

lemma bounce_ready_cong:
  assumes r: "bounce_ready s"
    and dir: "\<And>k. k < 1024 \<Longrightarrow> pm' (entry_at (cr3 s) k) = pmem s (entry_at (cr3 s) k)"
    and slots: "\<And>i. i < 16 \<Longrightarrow> pm' (entry_at (bounce_table s) (bounce_slot i)) =
      pmem s (entry_at (bounce_table s) (bounce_slot i))"
    and b: "bitmap_wf b" "used_frames (memory_bitmap s) \<subseteq> used_frames b"
  shows "bounce_ready (s\<lparr>pmem := pm', memory_bitmap := b\<rparr>)"
    "bounce_table (s\<lparr>pmem := pm', memory_bitmap := b\<rparr>) = bounce_table s"
proof -
  note wf = bounce_readyD(1) [OF r]
  show bt: "bounce_table (s\<lparr>pmem := pm', memory_bitmap := b\<rparr>) = bounce_table s"
    using dir [of 1022] by (simp add: bounce_table_def)
  have "address_space pm' (cr3 s) (used_frames b)"
    using address_space_mono [OF address_space_cong [OF machine_wfD(3) [OF wf] dir] b(2)] by blast
  then show "bounce_ready (s\<lparr>pmem := pm', memory_bitmap := b\<rparr>)"
    using bounce_readyD(2,3) [OF r] machine_wfD(1) [OF wf] b(1) slots dir [of 1022] bt
    by (simp add: bounce_ready_def machine_wf_def)
qed

text \<open>
  Between taking a bounce page and giving it back the code changes frames other than the
  directory; giving it back leaves exactly those changes.
\<close>

lemma bounce_give_back:
  assumes r: "bounce_ready s" and i: "i < 16" "bounce_pages_used s i = 0"
    and dir: "\<And>k. k < 1024 \<Longrightarrow> pm' (entry_at (cr3 s) k) = pmem s (entry_at (cr3 s) k)"
    and slot: "pm' (entry_at (bounce_table s) (bounce_slot i)) = 0"
  shows "bounce_free (bounce_vaddr i) ((with_slot i pa s)
      \<lparr>pmem := pm'(entry_at (bounce_table s) (bounce_slot i) := bounce_entry pa)\<rparr>) = Some (s\<lparr>pmem := pm'\<rparr>)"
proof -
  let ?sw = "entry_at (bounce_table s) (bounce_slot i)"
  let ?w = "(with_slot i pa s)\<lparr>pmem := pm'(?sw := bounce_entry pa)\<rparr>"
  have dir': "pmem ?w (entry_at (cr3 s) k) = pmem s (entry_at (cr3 s) k)" if "k < 1024" for k
    using dir [OF that] bounce_slot_word [OF r i(1) that] by simp
  then have "address_space (pmem ?w) (cr3 s) (used_frames (memory_bitmap s))"
    using address_space_cong [OF machine_wfD(3) [OF bounce_readyD(1) [OF r]]] by blast
  then have wf: "machine_wf ?w"
    using machine_wfD [OF bounce_readyD(1) [OF r]] by (simp add: machine_wf_def)
  have "entry_present (pmem ?w (entry_at (cr3 ?w) 1022))"
    using dir' [of 1022] bounce_readyD(2) [OF r] by simp
  moreover have "bounce_table ?w = bounce_table s"
    using dir' [of 1022] by (simp add: bounce_table_def)
  ultimately have "bounce_free (bounce_vaddr i) ?w = Some (release_slot i ?w)"
    using bounce_free_slot [OF wf _ i(1)] by blast
  moreover have "release_slot i ?w = s\<lparr>pmem := pm'\<rparr>"
    using \<open>bounce_table ?w = bounce_table s\<close> slot i(2)
    by (simp add: release_slot_def with_slot_def fun_upd_idem)
  ultimately show ?thesis by simp
qed

text \<open>
  The directory \<open>R\<close> beside the current one: neither is a page table of the other, and both
  share the page table of the bounce pages.
\<close>

definition companion :: "(u32 \<Rightarrow> u32) \<Rightarrow> u32 \<Rightarrow> u32 \<Rightarrow> bool" where
  "companion pm cur R \<longleftrightarrow>
     (\<forall>d<1023. entry_present (pm (entry_at R d)) \<longrightarrow> ALIGN_DOWN (pm (entry_at R d)) \<noteq> cur) \<and>
     (\<forall>d<1023. entry_present (pm (entry_at cur d)) \<longrightarrow> ALIGN_DOWN (pm (entry_at cur d)) \<noteq> R) \<and>
     entry_present (pm (entry_at R 1022)) \<and>
     ALIGN_DOWN (pm (entry_at R 1022)) = ALIGN_DOWN (pm (entry_at cur 1022))"

lemma companionD:
  assumes "companion pm cur R"
  shows "d < 1023 \<Longrightarrow> entry_present (pm (entry_at R d)) \<Longrightarrow> ALIGN_DOWN (pm (entry_at R d)) \<noteq> cur"
    "d < 1023 \<Longrightarrow> entry_present (pm (entry_at cur d)) \<Longrightarrow> ALIGN_DOWN (pm (entry_at cur d)) \<noteq> R"
    "entry_present (pm (entry_at R 1022))"
    "ALIGN_DOWN (pm (entry_at R 1022)) = ALIGN_DOWN (pm (entry_at cur 1022))"
  using assms unfolding companion_def by blast+

text \<open>
  What the operations on a page directory \<open>PD\<close>, a virtual address that shows the frame \<open>R\<close>,
  assume: bounce pages work, one of them is free, and \<open>R\<close> is an address space of its own.
\<close>

definition editable :: "'a machine_scheme \<Rightarrow> u32 \<Rightarrow> u32 \<Rightarrow> bool" where
  "editable s PD R \<longleftrightarrow> bounce_ready s \<and> window (pmem s) (cr3 s) PD R \<and> page_directory_index PD < 1023 \<and>
     address_space (pmem s) R (used_frames (memory_bitmap s)) \<and> companion (pmem s) (cr3 s) R \<and>
     (\<exists>i<16. bounce_pages_used s i = 0)"

lemma editableD:
  assumes "editable s PD R"
  shows "bounce_ready s" "machine_wf s" "window (pmem s) (cr3 s) PD R" "page_directory_index PD < 1023"
    "address_space (pmem s) R (used_frames (memory_bitmap s))" "companion (pmem s) (cr3 s) R"
    "\<exists>i<16. bounce_pages_used s i = 0" "ALIGN_DOWN R = R" "R \<noteq> bounce_table s"
proof -
  show r: "bounce_ready s" and c: "companion (pmem s) (cr3 s) R" and "machine_wf s"
    "window (pmem s) (cr3 s) PD R" "page_directory_index PD < 1023"
    "address_space (pmem s) R (used_frames (memory_bitmap s))"
    "\<exists>i<16. bounce_pages_used s i = 0" "ALIGN_DOWN R = R"
    using assms bounce_readyD(1) address_spaceD(1) unfolding editable_def by blast+
  show "R \<noteq> bounce_table s"
    using companionD(2) [OF c, of 1022] bounce_readyD(2) [OF r] by (auto simp: bounce_table_def)
qed

text \<open>The table that the walk to \<open>PD\<close> goes through is in use, so no fresh frame is that table.\<close>

lemma window_words:
  assumes wf: "machine_wf s" and w: "window (pmem s) (cr3 s) PD R" and d: "page_directory_index PD < 1023"
  obtains W where "W \<in> used_frames (memory_bitmap s)" "ALIGN_DOWN W = W" "W \<noteq> cr3 s"
    "walk_words (pmem s) (cr3 s) (page_directory_index PD) (page_table_index PD) =
       {entry_at (cr3 s) (page_directory_index PD), entry_at W (page_table_index PD)}"
proof -
  have "entry_present (pmem s (entry_at (cr3 s) (page_directory_index PD)))"
    using w by (auto simp: window_def leaf_def Let_def split: if_splits)
  then show thesis
    using that address_spaceD(5) [OF machine_wfD(3) [OF wf] d] by (auto simp: walk_words_def)
qed

lemma bounce_alloc_free_slot:
  assumes "bounce_ready s" "\<exists>i<16. bounce_pages_used s i = 0"
  obtains i where "i < 16" "bounce_pages_used s i = 0" "bounce_alloc pa s = Some (bounce_vaddr i, with_slot i pa s)"
  using assms(1)
proof (cases rule: bounce_alloc_cases [where pa = pa])
  case none
  with assms(2) show ?thesis by blast
next
  case (slot i)
  with that show ?thesis by blast
qed

text \<open>Clearing a fresh frame through a bounce page.\<close>

lemma bounce_clear:
  assumes r: "bounce_ready s" and free: "\<exists>i<16. bounce_pages_used s i = 0"
    and f: "ALIGN_DOWN f = f" "f \<noteq> cr3 s" "f \<noteq> bounce_table s"
  shows "do { (table, s) \<leftarrow> bounce_alloc f s; s \<leftarrow> memory_paging_reset_entry table s; bounce_free table s } =
    Some (s\<lparr>pmem := clear_table f (pmem s)\<rparr>)"
proof -
  obtain i where i: "i < 16" "bounce_pages_used s i = 0"
    and run: "bounce_alloc f s = Some (bounce_vaddr i, with_slot i f s)"
    using bounce_alloc_free_slot [OF r free] by blast
  let ?w = "with_slot i f s" and ?sw = "entry_at (bounce_table s) (bounce_slot i)"
  note W = with_slot_ready [OF r i(1), of f]
  have dirw: "pmem ?w (entry_at (cr3 s) k) = pmem s (entry_at (cr3 s) k)" if "k < 1024" for k
    using bounce_slot_word [OF r i(1) that] by (simp add: with_slot_def)
  have sep: "\<forall>a \<in> walk_words (pmem ?w) (cr3 ?w) (page_directory_index (bounce_vaddr i))
      (page_table_index (bounce_vaddr i)). \<not> in_table f a"
  proof -
    have "ALIGN_DOWN (pmem ?w (entry_at (cr3 s) 1022)) = bounce_table s"
      using dirw [of 1022] by (simp add: bounce_table_def)
    then show ?thesis
      using f bounce_readyD(4) [OF r] machine_wfD(4) [OF bounce_readyD(1) [OF r]]
      by (simp add: walk_words_def bounce_index [OF i(1)] in_table_other)
  qed
  have "memory_paging_reset_entry (bounce_vaddr i) ?w = Some (?w\<lparr>pmem := clear_table f (pmem ?w)\<rparr>)"
    using reset_entry_window [of ?w "bounce_vaddr i" f] W(3) f(1) sep
      machine_wfD [OF bounce_readyD(1) [OF W(1)]] by simp
  moreover have "clear_table f (pmem ?w) = (clear_table f (pmem s))(?sw := bounce_entry f)"
    using f bounce_readyD(4) [OF r] bounce_index(4) [OF i(1)]
    by (auto simp: fun_eq_iff clear_table_def with_slot_def in_table_other)
  moreover have "bounce_free (bounce_vaddr i) (?w\<lparr>pmem := (clear_table f (pmem s))(?sw := bounce_entry f)\<rparr>) =
      Some (s\<lparr>pmem := clear_table f (pmem s)\<rparr>)"
  proof (rule bounce_give_back [OF r i])
    show "clear_table f (pmem s) (entry_at (cr3 s) k) = pmem s (entry_at (cr3 s) k)" if "k < 1024" for k
      using that f machine_wfD(4) [OF bounce_readyD(1) [OF r]] by (simp add: clear_table_entry)
    show "clear_table f (pmem s) ?sw = 0" using bounce_readyD(3) [OF r i] by (simp add: clear_table_def)
  qed
  ultimately show ?thesis using run by simp
qed

text \<open>Writing one entry of a frame through a bounce page.\<close>

lemma bounce_write_entry:
  assumes r: "bounce_ready s" and free: "\<exists>i<16. bounce_pages_used s i = 0"
    and f: "ALIGN_DOWN f = f" "f \<noteq> cr3 s" "f \<noteq> bounce_table s" and t: "t < 1024"
  shows "do { (table, s) \<leftarrow> bounce_alloc f s; s \<leftarrow> vwrite (entry_at table t) v s; bounce_free table s } =
    Some (s\<lparr>pmem := (pmem s)(entry_at f t := v)\<rparr>)"
proof -
  obtain i where i: "i < 16" "bounce_pages_used s i = 0"
    and run: "bounce_alloc f s = Some (bounce_vaddr i, with_slot i f s)"
    using bounce_alloc_free_slot [OF r free] by blast
  let ?w = "with_slot i f s" and ?sw = "entry_at (bounce_table s) (bounce_slot i)"
  note W = with_slot_ready [OF r i(1), of f]
  have ne: "entry_at f t \<noteq> ?sw"
    using f t bounce_readyD(4) [OF r] bounce_index(4) [OF i(1)] by (simp add: entry_at_eq_iff)
  have "vwrite (entry_at (bounce_vaddr i) t) v ?w = Some (?w\<lparr>pmem := (pmem ?w)(entry_at f t := v)\<rparr>)"
    using vwrite_window [OF bounce_readyD(1) [OF W(1)] _ t] W(3) f(1) by simp
  moreover have "(pmem ?w)(entry_at f t := v) = ((pmem s)(entry_at f t := v))(?sw := bounce_entry f)"
    using ne by (auto simp: with_slot_def fun_eq_iff)
  moreover have "bounce_free (bounce_vaddr i) (?w\<lparr>pmem := ((pmem s)(entry_at f t := v))(?sw := bounce_entry f)\<rparr>) =
      Some (s\<lparr>pmem := (pmem s)(entry_at f t := v)\<rparr>)"
  proof (rule bounce_give_back [OF r i])
    show "((pmem s)(entry_at f t := v)) (entry_at (cr3 s) k) = pmem s (entry_at (cr3 s) k)" if "k < 1024" for k
      using that f t machine_wfD(4) [OF bounce_readyD(1) [OF r]] by (simp add: entry_at_eq_iff)
    show "((pmem s)(entry_at f t := v)) ?sw = 0" using bounce_readyD(3) [OF r i] ne by simp
  qed
  ultimately show ?thesis using run by simp
qed


text \<open>Words of the frames in use that two memories share.\<close>

definition agree_on :: "u32 set \<Rightarrow> (u32 \<Rightarrow> u32) \<Rightarrow> (u32 \<Rightarrow> u32) \<Rightarrow> bool" where
  "agree_on frames pm pm' \<longleftrightarrow> (\<forall>a. ALIGN_DOWN a \<in> frames \<longrightarrow> pm' a = pm a)"

lemma agree_on_entry:
  "agree_on frames pm pm' \<Longrightarrow> f \<in> frames \<Longrightarrow> ALIGN_DOWN f = f \<Longrightarrow> k < 1024 \<Longrightarrow>
     pm' (entry_at f k) = pm (entry_at f k)"
  by (simp add: agree_on_def entry_at_frame)

lemma clear_table_agree: "ALIGN_DOWN f = f \<Longrightarrow> f \<notin> frames \<Longrightarrow> agree_on frames pm (clear_table f pm)"
  by (auto simp: agree_on_def clear_table_def in_table_def entry_at_frame)

lemma pmem_bitmap_commute:
  "s\<lparr>memory_bitmap := b, pmem := pm\<rparr> = s\<lparr>pmem := pm, memory_bitmap := b\<rparr>" for s :: "'a machine_scheme"
  by simp

lemma editable_agree:
  assumes ed: "editable s PD R" and agr: "agree_on (used_frames (memory_bitmap s)) (pmem s) pm1"
    and b: "bitmap_wf b" "used_frames (memory_bitmap s) \<subseteq> used_frames b"
  shows "editable (s\<lparr>pmem := pm1, memory_bitmap := b\<rparr>) PD R"
proof -
  note E = editableD [OF ed]
  note al = machine_wfD(4) [OF E(2)] and root = address_spaceD(2) [OF machine_wfD(3) [OF E(2)]]
  have cur: "pm1 (entry_at (cr3 s) k) = pmem s (entry_at (cr3 s) k)" if "k < 1024" for k
    by (rule agree_on_entry [OF agr root al that])
  have dir: "pm1 (entry_at R k) = pmem s (entry_at R k)" if "k < 1024" for k
    by (rule agree_on_entry [OF agr address_spaceD(2) [OF E(5)] E(8) that])
  have r1: "bounce_ready (s\<lparr>pmem := pm1, memory_bitmap := b\<rparr>)"
    using agree_on_entry [OF agr bounce_readyD(6,4) [OF E(1)] bounce_index(4)] cur b
    by (intro bounce_ready_cong [OF E(1)]) auto
  from window_words [OF E(2-4)] obtain W where W: "W \<in> used_frames (memory_bitmap s)"
    "ALIGN_DOWN W = W" "walk_words (pmem s) (cr3 s) (page_directory_index PD) (page_table_index PD) =
       {entry_at (cr3 s) (page_directory_index PD), entry_at W (page_table_index PD)}" by blast
  then have "window pm1 (cr3 s) PD R"
    using E(3) cur [OF page_index_bounds(1)] agree_on_entry [OF agr W(1,2) page_index_bounds(2)]
    by (subst window_cong [where pm = "pmem s"]) auto
  moreover have "address_space pm1 R (used_frames b)"
    by (rule address_space_mono [OF address_space_cong [OF E(5) dir] b(2)])
  moreover have "companion pm1 (cr3 s) R"
    using E(6) unfolding companion_def by (simp add: cur dir index_1023)
  ultimately show ?thesis using r1 E(4,7) by (simp add: editable_def)
qed

lemma editable_write_directory:
  assumes ed: "editable s PD R" and d: "d < 1022"
    and agr: "agree_on (used_frames (memory_bitmap s)) (pmem s) pm1"
    and pm': "pm' = pm1(entry_at R d := e)" and e: "ALIGN_DOWN e \<noteq> cr3 s" "ALIGN_DOWN e \<noteq> R"
    and b: "bitmap_wf b" "used_frames (memory_bitmap s) \<subseteq> used_frames b"
    and A': "address_space pm' R (used_frames b)" and L: "same_leaves (pmem s) pm' R"
  shows "editable (s\<lparr>pmem := pm', memory_bitmap := b\<rparr>) PD R"
proof -
  let ?s = "s\<lparr>pmem := pm', memory_bitmap := b\<rparr>"
  note E = editableD [OF ed] and C = companionD [OF editableD(6) [OF ed]]
  note r = E(1) and wf = E(2)
  have d1: "d < 1023" "d < 1024" "d \<noteq> 1022" using d by (auto intro: less_trans)
  note al = machine_wfD(4) [OF wf] and root = address_spaceD(2) [OF machine_wfD(3) [OF wf]]
  have cur: "pm' (entry_at (cr3 s) k) = (if R = cr3 s \<and> k = d then e else pmem s (entry_at (cr3 s) k))"
    if "k < 1024" for k
    using agree_on_entry [OF agr root al that] that d1 al E(8) by (auto simp: pm' entry_at_eq_iff)
  have dir: "pm' (entry_at R k) = (if k = d then e else pmem s (entry_at R k))" if "k < 1024" for k
    using agree_on_entry [OF agr address_spaceD(2) [OF E(5)] E(8) that] that d1 E(8)
    by (auto simp: pm' entry_at_eq_iff)
  have slots: "pm' (entry_at (bounce_table s) (bounce_slot i)) = pmem s (entry_at (bounce_table s) (bounce_slot i))"
    if "i < 16" for i
    using agree_on_entry [OF agr bounce_readyD(6,4) [OF r] bounce_index(4) [OF that]] E(8,9) d1
      bounce_readyD(4) [OF r] bounce_index(4) [OF that] by (auto simp: pm' entry_at_eq_iff)
  have bt: "bounce_table ?s = bounce_table s" using cur [of 1022] d1 by (simp add: bounce_table_def)
  have "address_space pm' (cr3 s) (used_frames b)"
  proof (cases "R = cr3 s")
    case False
    then show ?thesis
      using cur address_space_mono [OF address_space_cong [OF machine_wfD(3) [OF wf]] b(2)] by auto
  qed (use A' in simp)
  then have wf': "machine_wf ?s" using machine_wfD(1) [OF wf] b(1) by (simp add: machine_wf_def)
  then have r': "bounce_ready ?s"
    using bounce_readyD(2,3) [OF r] cur [of 1022] d1 slots bt by (simp add: bounce_ready_def)
  have w': "window pm' (cr3 s) PD R"
  proof (cases "R = cr3 s")
    case True
    then have "leaf pm' (cr3 s) (page_directory_index PD) (page_table_index PD) =
        leaf (pmem s) (cr3 s) (page_directory_index PD) (page_table_index PD)"
      using L E(4) page_index_bounds(2) by (simp add: same_leaves_def)
    then show ?thesis using E(3) by (simp add: window_def)
  next
    case False
    from window_words [OF wf E(3,4)] obtain W where W: "W \<in> used_frames (memory_bitmap s)"
      "ALIGN_DOWN W = W" and ww: "walk_words (pmem s) (cr3 s) (page_directory_index PD) (page_table_index PD) =
       {entry_at (cr3 s) (page_directory_index PD), entry_at W (page_table_index PD)}" by blast
    have p: "entry_present (pmem s (entry_at (cr3 s) (page_directory_index PD)))"
      using E(3) by (auto simp: window_def leaf_def Let_def split: if_splits)
    have "W \<noteq> R"
    proof -
      have "entry_at W (page_table_index PD) = entry_at (ALIGN_DOWN (pmem s (entry_at (cr3 s) (page_directory_index PD)))) (page_table_index PD) \<or>
        W = cr3 s"
        using ww page_index_bounds W(2) al by (auto simp: walk_words_def doubleton_eq_iff entry_at_eq_iff)
      then show ?thesis
        using C(2) [OF E(4) p] False W(2) page_index_bounds(2) [of PD] by (auto simp: entry_at_eq_iff)
    qed
    then have "pm' (entry_at W (page_table_index PD)) = pmem s (entry_at W (page_table_index PD))"
      using agree_on_entry [OF agr W page_index_bounds(2)] W(2) E(8) d1 page_index_bounds(2) [of PD]
      by (simp add: pm' entry_at_eq_iff)
    then show ?thesis
      using E(3) cur [OF page_index_bounds(1), of PD] False ww by (subst window_cong [where pm = "pmem s"]) auto
  qed
  have "companion pm' (cr3 s) R"
    unfolding companion_def using C d1 e cur dir index_1023 by auto
  then show ?thesis using r' w' A' E(4,7) by (simp add: editable_def)
qed

lemma ensure_table_cases:
  assumes ed: "editable s PD R" and d: "d < 1022"
  obtains (fail) "ensure_table PD d s = Some (MEMORY_PAGING_RESULT_ALLOCATION_ERROR, s)"
      "\<not> entry_present (pmem s (entry_at R d))"
      "\<forall>p < pages (memory_bitmap s). page_used (memory_bitmap s) p"
  | (present) "ensure_table PD d s = Some (MEMORY_PAGING_RESULT_OK, s)" "entry_present (pmem s (entry_at R d))"
  | (install) f b pm where
      "ensure_table PD d s = Some (MEMORY_PAGING_RESULT_OK, s\<lparr>pmem := pm, memory_bitmap := b\<rparr>)"
      "editable (s\<lparr>pmem := pm, memory_bitmap := b\<rparr>) PD R" "same_leaves (pmem s) pm R"
      "entry_present (pm (entry_at R d))" "f \<notin> used_frames (memory_bitmap s)" "f \<noteq> 0"
      "used_frames b = insert f (used_frames (memory_bitmap s))" "ALIGN_DOWN (pm (entry_at R d)) = f"
      "\<And>a. ALIGN_DOWN a \<in> used_frames (memory_bitmap s) \<Longrightarrow> a \<noteq> entry_at R d \<Longrightarrow> pm a = pmem s a"
proof (cases "entry_present (pmem s (entry_at R d))")
  case True
  then show ?thesis
    using present vread_window [OF editableD(2,3) [OF ed], of d] d less_trans [OF d, of 1024]
    by (simp add: ensure_table_def)
next
  case absent: False
  note E = editableD [OF ed]
  have d1: "d < 1023" "d < 1024" "d \<noteq> 1022" using d by (auto intro: less_trans)
  have rd: "vread (entry_at PD d) s = Some (pmem s (entry_at R d))"
    using vread_window [OF E(2,3) d1(2)] .
  from E(2) show ?thesis
  proof (cases rule: allocate_frame_cases)
    case null
    with rd absent fail show ?thesis by (simp add: ensure_table_def)
  next
    case (frame f b)
    let ?U = "used_frames (memory_bitmap s)"
    let ?e = "f OR PAGE_READ_WRITE OR PAGE_PRESENT"
    let ?s1 = "s\<lparr>memory_bitmap := b\<rparr>"
    define pm1 where "pm1 = clear_table f (pmem s)"
    define pm where "pm = pm1(entry_at R d := ?e)"
    have e: "ALIGN_DOWN ?e = f" "entry_present ?e" using frame(3) by simp_all
    have sub: "?U \<subseteq> used_frames b" using frame(5) by blast
    have fne: "f \<noteq> cr3 s" "f \<noteq> bounce_table s" "f \<noteq> R"
      using frame(4) address_spaceD(2) [OF machine_wfD(3) [OF E(2)]] bounce_readyD(6) [OF E(1)]
        address_spaceD(2) [OF E(5)] by blast+
    have agr: "agree_on ?U (pmem s) pm1" unfolding pm1_def by (rule clear_table_agree [OF frame(3,4)])
    have r1: "bounce_ready ?s1" "bounce_table ?s1 = bounce_table s"
      using bounce_ready_cong [OF E(1) refl refl frame(6) sub] by simp_all
    have "do { (table, s) \<leftarrow> bounce_alloc f ?s1; s \<leftarrow> memory_paging_reset_entry table s; bounce_free table s } =
        Some (?s1\<lparr>pmem := pm1\<rparr>)"
      using bounce_clear [OF r1(1) _ frame(3)] E(7) fne r1(2) by (simp add: pm1_def)
    then have step: "do { (table, s) \<leftarrow> bounce_alloc f ?s1; s \<leftarrow> memory_paging_reset_entry table s;
          s \<leftarrow> bounce_free table s; g s } = g (?s1\<lparr>pmem := pm1\<rparr>)" for g :: "'a machine_scheme \<Rightarrow> 'b option"
      by (auto simp: Option.bind_eq_Some_conv)
    have pm_eq: "pm = clear_table f ((pmem s)(entry_at R d := ?e))"
      using fne frame(3) E(8) d1 by (auto simp: pm_def pm1_def fun_eq_iff clear_table_def in_table_other)
    note L = leaf_install_table [OF E(5) d1(1) absent frame(3,4) e pm_eq]
    have ed1: "editable (s\<lparr>pmem := pm, memory_bitmap := b\<rparr>) PD R"
      using editable_write_directory [OF ed d agr pm_def, of b] e fne frame(5,6) sub L(1,2)
      by (simp add: same_leaves_def)
    have mid: "editable (?s1\<lparr>pmem := pm1\<rparr>) PD R"
      using editable_agree [OF ed agr frame(6) sub] by (simp only: pmem_bitmap_commute)
    have w1: "window pm1 (cr3 s) PD R" and wf1: "machine_wf (?s1\<lparr>pmem := pm1\<rparr>)"
      using editableD(2,3) [OF mid] by simp_all
    have "vwrite (entry_at PD d) ?e (?s1\<lparr>pmem := pm1\<rparr>) = Some (s\<lparr>pmem := pm, memory_bitmap := b\<rparr>)"
      using vwrite_window [OF wf1, of PD R d ?e] w1 d1(2) by (simp add: pm_def)
    then have run: "ensure_table PD d s = Some (MEMORY_PAGING_RESULT_OK, s\<lparr>pmem := pm, memory_bitmap := b\<rparr>)"
      using rd absent frame(1,2) by (simp add: ensure_table_def step)
    show ?thesis
    proof (rule install [OF run ed1])
      show "same_leaves (pmem s) pm R" using L(2) by (simp add: same_leaves_def)
      show "entry_present (pm (entry_at R d))" "ALIGN_DOWN (pm (entry_at R d)) = f"
        using e by (simp_all add: pm_def)
      show "pm a = pmem s a" if "ALIGN_DOWN a \<in> ?U" "a \<noteq> entry_at R d" for a
        using that agr by (simp add: pm_def agree_on_def)
    qed (use frame in simp_all)
  qed
qed

lemma or_user_cases:
  assumes ed: "editable s PD R" and d: "d < 1022" and p: "entry_present (pmem s (entry_at R d))"
  obtains pm where "or_user PD d flags s = Some (s\<lparr>pmem := pm\<rparr>)" "editable (s\<lparr>pmem := pm\<rparr>) PD R"
    "same_leaves (pmem s) pm R" "entry_present (pm (entry_at R d))"
    "ALIGN_DOWN (pm (entry_at R d)) = ALIGN_DOWN (pmem s (entry_at R d))"
    "\<forall>a. a \<noteq> entry_at R d \<longrightarrow> pm a = pmem s a"
proof (cases "flags AND PAGE_USER = 0")
  case True
  then show ?thesis using that [of "pmem s"] ed p by (simp add: or_user_def same_leaves_def)
next
  case False
  note E = editableD [OF ed]
  have d1: "d < 1023" "d < 1024" using d by (auto intro: less_trans)
  let ?e = "pmem s (entry_at R d) OR PAGE_USER"
  define pm where "pm = (pmem s)(entry_at R d := ?e)"
  have e: "ALIGN_DOWN ?e = ALIGN_DOWN (pmem s (entry_at R d))"
    "entry_present ?e = entry_present (pmem s (entry_at R d))"
    by simp_all (simp add: entry_present_def PAGE_USER_def PAGE_PRESENT_def)
  note L = leaf_write_directory [OF E(5) d1(1) e pm_def]
  have ne: "ALIGN_DOWN ?e \<noteq> cr3 s" "ALIGN_DOWN ?e \<noteq> R"
    using companionD(1) [OF E(6) d1(1) p] address_spaceD(5) [OF E(5) d1(1) p] e by simp_all
  have "editable (s\<lparr>pmem := pm, memory_bitmap := memory_bitmap s\<rparr>) PD R"
  proof (rule editable_write_directory [OF ed d _ pm_def ne])
    show "agree_on (used_frames (memory_bitmap s)) (pmem s) (pmem s)" by (simp add: agree_on_def)
    show "same_leaves (pmem s) pm R" using L(2) by (simp add: same_leaves_def)
  qed (use L(1) machine_wfD(2) [OF E(2)] in auto)
  then have ed1: "editable (s\<lparr>pmem := pm\<rparr>) PD R" by simp
  have "or_user PD d flags s = Some (s\<lparr>pmem := pm\<rparr>)"
    using False vread_window [OF E(2,3) d1(2)] vwrite_window [OF E(2,3) d1(2)]
    by (simp add: or_user_def pm_def)
  then show ?thesis
  proof (rule that [OF _ ed1])
    show "same_leaves (pmem s) pm R" using L(2) by (simp add: same_leaves_def)
  qed (use e p in \<open>simp_all add: pm_def\<close>)
qed

text \<open>A write to a page table of \<open>R\<close>.\<close>

lemma bounce_ready_write_table:
  assumes ed: "editable s PD R" and d: "d < 1022" and p: "entry_present (pmem s (entry_at R d))"
    and t: "t < 1024" and pm': "pm' = (pmem s)(entry_at (ALIGN_DOWN (pmem s (entry_at R d))) t := e)"
  shows "bounce_ready (s\<lparr>pmem := pm'\<rparr>)" "address_space pm' R (used_frames (memory_bitmap s))"
    "companion pm' (cr3 s) R" "ALIGN_DOWN (pmem s (entry_at R d)) \<noteq> bounce_table s"
    "ALIGN_DOWN (pmem s (entry_at R d)) \<noteq> cr3 s"
proof -
  note E = editableD [OF ed] and C = companionD [OF editableD(6) [OF ed]]
  let ?T = "ALIGN_DOWN (pmem s (entry_at R d))"
  have d1: "d < 1023" "d < 1024" "d \<noteq> 1022" using d by (auto intro: less_trans)
  show Tc: "?T \<noteq> cr3 s" using C(1) [OF d1(1) p] .
  show Tb: "?T \<noteq> bounce_table s"
    using address_spaceD(6) [OF E(5) d1(1) _ p C(3)] C(4) d1 by (auto simp: bounce_table_def)
  have cur: "pm' (entry_at (cr3 s) k) = pmem s (entry_at (cr3 s) k)" if "k < 1024" for k
    using Tc that t machine_wfD(4) [OF E(2)] by (auto simp: pm' entry_at_eq_iff)
  have slots: "pm' (entry_at (bounce_table s) (bounce_slot i)) = pmem s (entry_at (bounce_table s) (bounce_slot i))"
    if "i < 16" for i
    using Tb t bounce_readyD(4) [OF E(1)] bounce_index(4) [OF that] by (auto simp: pm' entry_at_eq_iff)
  have "bounce_ready (s\<lparr>pmem := pm', memory_bitmap := memory_bitmap s\<rparr>)"
    using bounce_ready_cong(1) [OF E(1) cur slots machine_wfD(2) [OF E(2)]] by blast
  then show "bounce_ready (s\<lparr>pmem := pm'\<rparr>)" by simp
  note L = leaf_write_table [OF E(5) d1(1) t p pm']
  show "address_space pm' R (used_frames (memory_bitmap s))" by (rule L(1))
  show "companion pm' (cr3 s) R"
    using E(6) unfolding companion_def by (simp add: cur L(3) index_1023)
qed

text \<open>
  The result of \<^verbatim>\<open>memory_paging_map\<close> on another directory: it fails without any change when it
  needs a page table and no frame is left, and otherwise changes the one leaf.
\<close>

lemma memory_paging_map_cases:
  assumes ed: "editable s PD R" and d: "page_directory_index va < 1022"
  obtains (fail) "memory_paging_map PD pa va flags s = Some (MEMORY_PAGING_RESULT_ALLOCATION_ERROR, s)"
      "\<not> entry_present (pmem s (entry_at R (page_directory_index va)))"
      "\<forall>p < pages (memory_bitmap s). page_used (memory_bitmap s) p"
  | (ok) pm b where
      "memory_paging_map PD pa va flags s =
         Some (MEMORY_PAGING_RESULT_OK, s\<lparr>pmem := pm, memory_bitmap := b\<rparr>)"
      "leaf_updated (pmem s) pm R (page_directory_index va) (page_table_index va)
         (Some (pa OR flags OR PAGE_PRESENT))"
      "bounce_ready (s\<lparr>pmem := pm, memory_bitmap := b\<rparr>)" "address_space pm R (used_frames b)"
      "companion pm (cr3 s) R" "used_frames (memory_bitmap s) \<subseteq> used_frames b"
      "\<And>a. ALIGN_DOWN a \<in> used_frames (memory_bitmap s) \<Longrightarrow> a \<noteq> entry_at R (page_directory_index va) \<Longrightarrow>
         a \<noteq> entry_at (ALIGN_DOWN (pm (entry_at R (page_directory_index va)))) (page_table_index va) \<Longrightarrow>
         pm a = pmem s a"
      "ALIGN_DOWN (pm (entry_at R (page_directory_index va))) \<notin> used_frames (memory_bitmap s) \<or>
         entry_present (pmem s (entry_at R (page_directory_index va))) \<and>
         ALIGN_DOWN (pm (entry_at R (page_directory_index va))) = ALIGN_DOWN (pmem s (entry_at R (page_directory_index va)))"
proof -
  let ?d = "page_directory_index va" and ?t = "page_table_index va"
  let ?e = "pa OR flags OR PAGE_PRESENT"
  have t: "?t < 1024" by (rule page_index_bounds)
  have d1: "?d < 1023" "?d < 1024" using d by (auto intro: less_trans)
  have rest: thesis
    if ens: "ensure_table PD ?d s = Some (MEMORY_PAGING_RESULT_OK, s1)"
      and s1: "s1 = s\<lparr>pmem := pm1, memory_bitmap := b\<rparr>" "editable s1 PD R" "same_leaves (pmem s) pm1 R"
        "entry_present (pm1 (entry_at R ?d))" "used_frames (memory_bitmap s) \<subseteq> used_frames b"
        "\<And>a. ALIGN_DOWN a \<in> used_frames (memory_bitmap s) \<Longrightarrow> a \<noteq> entry_at R ?d \<Longrightarrow> pm1 a = pmem s a"
        "ALIGN_DOWN (pm1 (entry_at R ?d)) \<notin> used_frames (memory_bitmap s) \<or>
           entry_present (pmem s (entry_at R ?d)) \<and> ALIGN_DOWN (pm1 (entry_at R ?d)) = ALIGN_DOWN (pmem s (entry_at R ?d))"
    for s1 pm1 b
  proof -
    have p1: "entry_present (pmem s1 (entry_at R ?d))" using s1(1,4) by simp
    obtain pm2 where u: "or_user PD ?d flags s1 = Some (s1\<lparr>pmem := pm2\<rparr>)" "editable (s1\<lparr>pmem := pm2\<rparr>) PD R"
      "same_leaves (pmem s1) pm2 R" "entry_present (pm2 (entry_at R ?d))"
      "ALIGN_DOWN (pm2 (entry_at R ?d)) = ALIGN_DOWN (pmem s1 (entry_at R ?d))"
      "\<forall>a. a \<noteq> entry_at R ?d \<longrightarrow> pm2 a = pmem s1 a"
      by (rule or_user_cases [OF s1(2) d p1, of flags])
    let ?s2 = "s1\<lparr>pmem := pm2\<rparr>"
    let ?T = "ALIGN_DOWN (pm2 (entry_at R ?d))"
    define pm3 where "pm3 = pm2(entry_at ?T ?t := ?e)"
    note E2 = editableD [OF u(2)]
    have p2: "entry_present (pmem ?s2 (entry_at R ?d))" using u(4) by simp
    have pm3: "pm3 = (pmem ?s2)(entry_at (ALIGN_DOWN (pmem ?s2 (entry_at R ?d))) ?t := ?e)"
      by (simp add: pm3_def)
    note B = bounce_ready_write_table [OF u(2) d p2 t pm3]
    note L = leaf_write_table [OF E2(5) d1(1) t p2 pm3]
    have Tn: "?T \<noteq> cr3 ?s2" "?T \<noteq> bounce_table ?s2" using B(4,5) by simp_all
    have bw: "do { (table, s) \<leftarrow> bounce_alloc ?T ?s2; s \<leftarrow> vwrite (entry_at table ?t) ?e s; bounce_free table s } =
        Some (?s2\<lparr>pmem := (pmem ?s2)(entry_at ?T ?t := ?e)\<rparr>)"
      using bounce_write_entry [OF E2(1,7) _ Tn t, of ?e] by simp
    have step: "do { (table, s) \<leftarrow> bounce_alloc ?T ?s2; s \<leftarrow> vwrite (entry_at table ?t) ?e s;
          s \<leftarrow> bounce_free table s; g s } = g (s1\<lparr>pmem := pm3\<rparr>)" for g :: "'a machine_scheme \<Rightarrow> 'b option"
      using bw by (auto simp: Option.bind_eq_Some_conv pm3_def)
    have "vread (entry_at PD ?d) ?s2 = Some (pm2 (entry_at R ?d))"
      using vread_window [OF E2(2,3) d1(2)] by simp
    then have "memory_paging_map PD pa va flags s = Some (MEMORY_PAGING_RESULT_OK, s1\<lparr>pmem := pm3\<rparr>)"
      using ens u(1) by (simp add: memory_paging_map_def Let_def PAGE_MASK_ALIGN_DOWN step)
    moreover have "s1\<lparr>pmem := pm3\<rparr> = s\<lparr>pmem := pm3, memory_bitmap := b\<rparr>" using s1(1) by simp
    ultimately have "memory_paging_map PD pa va flags s =
        Some (MEMORY_PAGING_RESULT_OK, s\<lparr>pmem := pm3, memory_bitmap := b\<rparr>)" by simp
    then show thesis
    proof (rule ok)
      show "leaf_updated (pmem s) pm3 R ?d ?t (Some ?e)"
        using L(2) s1(1,3) u(3) by (simp add: leaf_updated_def same_leaves_def)
      show "bounce_ready (s\<lparr>pmem := pm3, memory_bitmap := b\<rparr>)" "address_space pm3 R (used_frames b)"
        "companion pm3 (cr3 s) R" using B(1-3) s1(1) by (simp_all add: pmem_bitmap_commute)
      show "used_frames (memory_bitmap s) \<subseteq> used_frames b" by (rule s1(5))
      show "pm3 a = pmem s a" if "ALIGN_DOWN a \<in> used_frames (memory_bitmap s)" "a \<noteq> entry_at R ?d"
        "a \<noteq> entry_at (ALIGN_DOWN (pm3 (entry_at R ?d))) ?t" for a
        using that s1(1,6) u(6) L(3) [OF d1(2)] by (simp add: pm3_def)
      show "ALIGN_DOWN (pm3 (entry_at R ?d)) \<notin> used_frames (memory_bitmap s) \<or>
           entry_present (pmem s (entry_at R ?d)) \<and> ALIGN_DOWN (pm3 (entry_at R ?d)) = ALIGN_DOWN (pmem s (entry_at R ?d))"
        using s1(1,7) u(5) L(3) [OF d1(2)] by simp
    qed
  qed
  from ed d show thesis
  proof (cases rule: ensure_table_cases)
    case fail
    with that(1) show thesis by (simp add: memory_paging_map_def Let_def)
  next
    case present
    with ed show thesis
      by (intro rest [of s "memory_bitmap s" "pmem s"]) (simp_all add: same_leaves_def)
  next
    case (install f b pm)
    show thesis by (rule rest [OF install(1) refl install(2-4)]) (use install(5-9) in auto)
  qed
qed


section \<open>Looking up an address\<close>

lemma bounce_read_entry:
  assumes r: "bounce_ready s" and i: "i < 16" and f: "ALIGN_DOWN f = f" "f \<noteq> bounce_table s" and t: "t < 1024"
  shows "vread (entry_at (bounce_vaddr i) t) (with_slot i f s) = Some (pmem s (entry_at f t))"
proof -
  note W = with_slot_ready [OF r i, of f]
  have "vread (entry_at (bounce_vaddr i) t) (with_slot i f s) = Some (pmem (with_slot i f s) (entry_at f t))"
    using vread_window [OF bounce_readyD(1) [OF W(1)] _ t] W(3) f(1) by simp
  moreover have "entry_at f t \<noteq> entry_at (bounce_table s) (bounce_slot i)"
    using f t bounce_readyD(4) [OF r] bounce_index(4) [OF i] by (simp add: entry_at_eq_iff)
  ultimately show ?thesis by (simp add: with_slot_def)
qed

lemma virtual_to_physical_cases:
  assumes r: "bounce_ready s" and free: "\<exists>i<16. bounce_pages_used s i = 0"
    and R: "address_space (pmem s) R (used_frames (memory_bitmap s))" "companion (pmem s) (cr3 s) R"
    and d: "page_directory_index va < 1022"
  obtains (mapped) p where "memory_paging_virtual_to_physical R va s = Some (p, s)"
      "translate (pmem s) False R va = Some p"
  | (absent) i f where "memory_paging_virtual_to_physical R va s = Some (0, with_slot i f s)"
      "translate (pmem s) False R va = None" "i < 16" "bounce_pages_used s i = 0"
proof -
  let ?d = "page_directory_index va" and ?t = "page_table_index va"
  let ?pde = "pmem s (entry_at R ?d)"
  have d1: "?d < 1023" "?d < 1024" "?d \<noteq> 1022" using d by (auto intro: less_trans)
  have al: "ALIGN_DOWN R = R" by (rule address_spaceD(1) [OF R(1)])
  have Rb: "R \<noteq> bounce_table s"
    using companionD(2) [OF R(2), of 1022] bounce_readyD(2) [OF r] by (auto simp: bounce_table_def)
  obtain i where i: "i < 16" "bounce_pages_used s i = 0"
    "bounce_alloc R s = Some (bounce_vaddr i, with_slot i R s)"
    using bounce_alloc_free_slot [OF r free] by blast
  have rd: "vread (entry_at (bounce_vaddr i) ?d) (with_slot i R s) = Some ?pde"
    by (rule bounce_read_entry [OF r i(1) al Rb d1(2)])
  show thesis
  proof (cases "entry_present ?pde")
    case False
    then have "memory_paging_virtual_to_physical R va s = Some (0, with_slot i R s)"
      using i(3) rd by (simp add: memory_paging_virtual_to_physical_def Let_def)
    with False i al absent show thesis by (simp add: translate_leaf leaf_def)
  next
    case present: True
    let ?T = "ALIGN_DOWN ?pde"
    let ?pte = "pmem s (entry_at ?T ?t)"
    have Tb: "?T \<noteq> bounce_table s"
      using address_spaceD(6) [OF R(1) d1(1) _ present companionD(3) [OF R(2)]] companionD(4) [OF R(2)] d1(3)
      by (auto simp: bounce_table_def)
    obtain j where j: "j < 16" "bounce_pages_used s j = 0"
      "bounce_alloc ?T s = Some (bounce_vaddr j, with_slot j ?T s)"
      using bounce_alloc_free_slot [OF r free] by blast
    have rd2: "vread (entry_at (bounce_vaddr j) ?t) (with_slot j ?T s) = Some ?pte"
      by (rule bounce_read_entry [OF r j(1) _ Tb page_index_bounds(2)]) simp
    note trip = bounce_round_trip [OF r i(1,2), of R] bounce_round_trip [OF r j(1,2), of ?T]
    show thesis
    proof (cases "entry_present ?pte")
      case True
      then have "memory_paging_virtual_to_physical R va s = Some (ALIGN_DOWN ?pte + page_offset va, s)"
        using i(3) rd j(3) rd2 present trip
        by (simp add: memory_paging_virtual_to_physical_def Let_def PAGE_MASK_ALIGN_DOWN)
      with True present al mapped show thesis by (simp add: translate_leaf leaf_def)
    next
      case False
      then have "memory_paging_virtual_to_physical R va s = Some (0, with_slot j ?T s)"
        using i(3) rd j(3) rd2 present trip
        by (simp add: memory_paging_virtual_to_physical_def Let_def PAGE_MASK_ALIGN_DOWN)
      with False present al absent j show thesis by (simp add: translate_leaf leaf_def)
    qed
  qed
qed

section \<open>Filling a frame through a bounce page\<close>

text \<open>
  The states while a frame \<open>f\<close> is being filled through the bounce page \<open>i\<close>: \<open>pm\<close> is what the
  memory will be once the bounce page is given back.
\<close>

definition slot_view :: "u32 \<Rightarrow> u32 \<Rightarrow> 'a machine_scheme \<Rightarrow> (u32 \<Rightarrow> u32) \<Rightarrow> 'a machine_scheme" where
  "slot_view i f s pm = (with_slot i f s)
     \<lparr>pmem := pm(entry_at (bounce_table s) (bounce_slot i) := bounce_entry f)\<rparr>"

lemma slot_view_simps [simp]:
  "cr3 (slot_view i f s pm) = cr3 s" "memory_bitmap (slot_view i f s pm) = memory_bitmap s"
  "cr4_pse (slot_view i f s pm) = cr4_pse s"
  "kernel_page_directory (slot_view i f s pm) = kernel_page_directory s"
  "slot_view i f s (pmem s) = with_slot i f s"
  by (simp_all add: slot_view_def) (simp add: with_slot_def)

definition filling :: "'a machine_scheme \<Rightarrow> u32 \<Rightarrow> u32 \<Rightarrow> bool" where
  "filling s i f \<longleftrightarrow> bounce_ready s \<and> i < 16 \<and> bounce_pages_used s i = 0 \<and>
     ALIGN_DOWN f = f \<and> f \<noteq> cr3 s \<and> f \<noteq> bounce_table s"

lemma fillingD:
  assumes "filling s i f"
  shows "bounce_ready s" "i < 16" "bounce_pages_used s i = 0" "ALIGN_DOWN f = f" "f \<noteq> cr3 s" "f \<noteq> bounce_table s"
  using assms unfolding filling_def by blast+

lemma slot_word:
  assumes "filling s i f"
  shows "\<not> in_table f (entry_at (bounce_table s) (bounce_slot i))"
  "k < 1024 \<Longrightarrow> entry_at (cr3 s) k \<noteq> entry_at (bounce_table s) (bounce_slot i)"
  "k < 1024 \<Longrightarrow> \<not> in_table f (entry_at (cr3 s) k)"
  "pmem s (entry_at (bounce_table s) (bounce_slot i)) = 0"
  using fillingD [OF assms] bounce_readyD(3,4) [of s] bounce_index(4) [of i] bounce_slot_word [of s i]
    machine_wfD(4) [OF bounce_readyD(1) [OF fillingD(1) [OF assms]]]
  by (auto simp: in_table_other)

lemma slot_view:
  assumes fill: "filling s i f" and agr: "\<forall>a. \<not> in_table f a \<longrightarrow> pm a = pmem s a"
  shows "machine_wf (slot_view i f s pm)"
    "window (pmem (slot_view i f s pm)) (cr3 s) (bounce_vaddr i) f"
    "\<forall>a \<in> walk_words (pmem (slot_view i f s pm)) (cr3 s) (page_directory_index (bounce_vaddr i))
       (page_table_index (bounce_vaddr i)). \<not> in_table f a"
    "window (pmem s) (cr3 s) P K \<Longrightarrow> ALIGN_DOWN (pmem s (entry_at (cr3 s) (page_directory_index P))) \<noteq> f \<Longrightarrow>
       window (pmem (slot_view i f s pm)) (cr3 s) P K"
proof -
  let ?sw = "entry_at (bounce_table s) (bounce_slot i)" and ?v = "slot_view i f s pm"
  note ready = fillingD(1) [OF fill] and slot = fillingD(2,3) [OF fill] and frame = fillingD(4-6) [OF fill]
  note wf = bounce_readyD(1) [OF ready] and slot_word = slot_word [OF fill]
  have cur: "pmem ?v (entry_at (cr3 s) k) = pmem s (entry_at (cr3 s) k)" if "k < 1024" for k
    using that slot_word(2,3) agr by (simp add: slot_view_def)
  have "address_space (pmem ?v) (cr3 s) (used_frames (memory_bitmap s))"
    by (rule address_space_cong [OF machine_wfD(3) [OF wf] cur])
  then show "machine_wf ?v" using machine_wfD(1,2) [OF wf] by (simp add: machine_wf_def)
  have bt: "ALIGN_DOWN (pmem ?v (entry_at (cr3 s) 1022)) = bounce_table s"
    "entry_present (pmem ?v (entry_at (cr3 s) 1022))"
    using cur [of 1022] bounce_readyD(2) [OF ready] by (simp_all add: bounce_table_def)
  have "leaf (pmem ?v) (cr3 s) 1022 (bounce_slot i) = Some (bounce_entry f)"
    unfolding leaf_def Let_def bt using bt(2) by (simp add: slot_view_def bounce_entry_def)
  then show "window (pmem ?v) (cr3 s) (bounce_vaddr i) f"
    using bounce_index [OF slot(1)] frame(1) by (simp add: window_def bounce_entry_def)
  show "\<forall>a \<in> walk_words (pmem ?v) (cr3 s) (page_directory_index (bounce_vaddr i))
       (page_table_index (bounce_vaddr i)). \<not> in_table f a"
    unfolding walk_words_def bounce_index(1,2) [OF slot(1)] bt(1) using slot_word(1,3) by simp
  show "window (pmem ?v) (cr3 s) P K"
    if w: "window (pmem s) (cr3 s) P K" and ne: "ALIGN_DOWN (pmem s (entry_at (cr3 s) (page_directory_index P))) \<noteq> f"
  proof -
    let ?W = "ALIGN_DOWN (pmem s (entry_at (cr3 s) (page_directory_index P)))"
    have "entry_present (pmem s (entry_at ?W (page_table_index P)))"
      using w by (auto simp: window_def leaf_def Let_def split: if_splits)
    then have "entry_at ?W (page_table_index P) \<noteq> ?sw" using slot_word(4) by auto
    then have "pmem ?v (entry_at ?W (page_table_index P)) = pmem s (entry_at ?W (page_table_index P))"
      using ne agr frame(1) page_index_bounds(2) by (simp add: slot_view_def in_table_other)
    then show ?thesis
      using w cur [OF page_index_bounds(1)] by (subst window_cong [where pm = "pmem s"]) (auto simp: walk_words_def)
  qed
qed

lemma slot_view_write:
  assumes fill: "filling s i f" and agr: "\<forall>a. \<not> in_table f a \<longrightarrow> pm a = pmem s a" and t: "t < 1024"
  shows "vwrite (entry_at (bounce_vaddr i) t) v (slot_view i f s pm) =
    Some (slot_view i f s (pm(entry_at f t := v)))"
proof -
  have "entry_at f t \<noteq> entry_at (bounce_table s) (bounce_slot i)"
    using slot_word(1) [OF fill] in_table_entry [OF t, of f] by auto
  then show ?thesis
    using vwrite_window [OF slot_view(1) [OF fill agr] _ t, of "bounce_vaddr i" f v] slot_view(2) [OF fill agr]
    by (simp add: slot_view_def fun_upd_twist)
qed

lemma slot_view_reset:
  assumes fill: "filling s i f"
  shows "memory_paging_reset_entry (bounce_vaddr i) (with_slot i f s) = Some (slot_view i f s (clear_table f (pmem s)))"
proof -
  have agr: "\<forall>a. \<not> in_table f a \<longrightarrow> pmem s a = pmem s a" by simp
  have "memory_paging_reset_entry (bounce_vaddr i) (slot_view i f s (pmem s)) =
      Some ((slot_view i f s (pmem s))\<lparr>pmem := clear_table f (pmem (slot_view i f s (pmem s)))\<rparr>)"
    using slot_view(1-3) [OF fill agr] machine_wfD [OF slot_view(1) [OF fill agr]] fillingD(4) [OF fill]
    by (intro reset_entry_window) simp_all
  moreover have "clear_table f (pmem (slot_view i f s (pmem s))) =
      (clear_table f (pmem s))(entry_at (bounce_table s) (bounce_slot i) := bounce_entry f)"
    using slot_word(1) [OF fill] by (auto simp: fun_eq_iff clear_table_def slot_view_def)
  ultimately have "memory_paging_reset_entry (bounce_vaddr i) (slot_view i f s (pmem s)) =
      Some (slot_view i f s (clear_table f (pmem s)))"
    by (simp add: slot_view_def)
  then show ?thesis by simp
qed

lemma slot_view_done:
  assumes fill: "filling s i f" and agr: "\<forall>a. \<not> in_table f a \<longrightarrow> pm a = pmem s a"
  shows "bounce_free (bounce_vaddr i) (slot_view i f s pm) = Some (s\<lparr>pmem := pm\<rparr>)"
  unfolding slot_view_def
  using agr slot_word [OF fill] by (intro bounce_give_back [OF fillingD(1-3) [OF fill]]) auto

section \<open>A new page directory\<close>

definition new_directory_entry :: "u32 \<Rightarrow> u32 \<Rightarrow> (u32 \<Rightarrow> u32) \<Rightarrow> u32 \<Rightarrow> u32" where
  "new_directory_entry f K pm i =
     (if i < 768 then 0 else if i < 1023 then pm (entry_at K i) else f OR PAGE_PRESENT OR PAGE_READ_WRITE)"

text \<open>The loop that copies the entries of the kernel directory from 768 on.\<close>

lemma copy_kernel_entries:
  assumes fill: "filling s i f" and K: "window (pmem s) (cr3 s) (kernel_page_directory s) K"
    "ALIGN_DOWN (pmem s (entry_at (cr3 s) (page_directory_index (kernel_page_directory s)))) \<noteq> f"
    "ALIGN_DOWN K = K" "K \<noteq> f" "K \<noteq> bounce_table s"
  shows "\<exists>pm. for_each (\<lambda>k s. do { e \<leftarrow> vread (entry_at (kernel_page_directory s) k) s; vwrite (entry_at (bounce_vaddr i) k) e s })
      (drop KERNEL_PDE_START (indices KERNEL_PDE_ENTRIES)) (slot_view i f s (clear_table f (pmem s))) =
      Some (slot_view i f s pm) \<and> (\<forall>a. \<not> in_table f a \<longrightarrow> pm a = pmem s a) \<and>
      (\<forall>k<1024. pm (entry_at f k) = (if k < 768 then 0 else pmem s (entry_at K k)))"
proof -
  let ?ks = "drop KERNEL_PDE_START (indices KERNEL_PDE_ENTRIES)"
  let ?P = "\<lambda>n s'. \<exists>pm. s' = slot_view i f s pm \<and> (\<forall>a. \<not> in_table f a \<longrightarrow> pm a = pmem s a) \<and>
      (\<forall>k<1024. pm (entry_at f k) = (if 768 \<le> unat k \<and> unat k < 768 + n then pmem s (entry_at K k) else 0))"
  note al = fillingD(4) [OF fill]
  have len: "length ?ks = 256" and nth: "?ks ! n = of_nat (768 + n)" if "n < 256" for n
    using that by (simp_all add: indices_def KERNEL_PDE_START_def KERNEL_PDE_ENTRIES_def)
  have "\<exists>s'. for_each (\<lambda>k s. do { e \<leftarrow> vread (entry_at (kernel_page_directory s) k) s;
      vwrite (entry_at (bounce_vaddr i) k) e s }) ?ks (slot_view i f s (clear_table f (pmem s))) = Some s' \<and> ?P (length ?ks) s'"
  proof (rule for_each_rule [where P = ?P])
    show "?P 0 (slot_view i f s (clear_table f (pmem s)))"
      using al by (intro exI [of _ "clear_table f (pmem s)"]) (auto simp: clear_table_def)
    fix n s1 assume "n < length ?ks" and "?P n s1"
    then obtain pm where n: "n < 256" and s1: "s1 = slot_view i f s pm"
      and agr: "\<forall>a. \<not> in_table f a \<longrightarrow> pm a = pmem s a"
      and filled: "\<And>k. k < 1024 \<Longrightarrow> pm (entry_at f k) =
        (if 768 \<le> unat k \<and> unat k < 768 + n then pmem s (entry_at K k) else 0)"
      by (auto simp: indices_def KERNEL_PDE_START_def KERNEL_PDE_ENTRIES_def)
    define k :: u32 where "k = of_nat (768 + n)"
    have uk: "unat k = 768 + n" using n by (simp add: k_def unat_of_nat_u32 del: of_nat_add)
    then have k: "k < 1024" using n by (simp add: word_less_nat_alt)
    have "entry_at K k \<noteq> entry_at (bounce_table s) (bounce_slot i)" "\<not> in_table f (entry_at K k)"
      using K(3-5) k al bounce_readyD(4) [OF fillingD(1) [OF fill]] bounce_index(4) [OF fillingD(2) [OF fill]]
      by (auto simp: entry_at_eq_iff in_table_other)
    then have "vread (entry_at (kernel_page_directory s1) k) s1 = Some (pmem s (entry_at K k))"
      using vread_window [OF slot_view(1) [OF fill agr] _ k] slot_view(4) [OF fill agr K(1,2)] agr s1
      by (simp add: slot_view_def)
    then have run: "do { e \<leftarrow> vread (entry_at (kernel_page_directory s1) (?ks ! n)) s1;
        vwrite (entry_at (bounce_vaddr i) (?ks ! n)) e s1 } =
        Some (slot_view i f s (pm(entry_at f k := pmem s (entry_at K k))))"
      using slot_view_write [OF fill agr k] nth [OF n] s1 by (simp add: k_def)
    have "?P (Suc n) (slot_view i f s (pm(entry_at f k := pmem s (entry_at K k))))"
    proof (rule exI [of _ "pm(entry_at f k := pmem s (entry_at K k))"], intro conjI allI impI)
      show "(pm(entry_at f k := pmem s (entry_at K k))) a = pmem s a" if "\<not> in_table f a" for a
        using that agr in_table_entry [OF k, of f] by auto
      show "(pm(entry_at f k := pmem s (entry_at K k))) (entry_at f j) =
          (if 768 \<le> unat j \<and> unat j < 768 + Suc n then pmem s (entry_at K j) else 0)" if "j < 1024" for j
      proof (cases "j = k")
        case False
        then have "unat j \<noteq> 768 + n" using uk by (metis unsigned_word_eqI)
        with False that filled al k show ?thesis by (auto simp: entry_at_eq_iff)
      qed (use uk in auto)
    qed (rule refl)
    with run show "\<exists>s'. do { e \<leftarrow> vread (entry_at (kernel_page_directory s1) (?ks ! n)) s1;
        vwrite (entry_at (bounce_vaddr i) (?ks ! n)) e s1 } = Some s' \<and> ?P (Suc n) s'" by blast
  qed
  then obtain pm where "for_each (\<lambda>k s. do { e \<leftarrow> vread (entry_at (kernel_page_directory s) k) s;
      vwrite (entry_at (bounce_vaddr i) k) e s }) ?ks (slot_view i f s (clear_table f (pmem s))) =
      Some (slot_view i f s pm)" and agr: "\<forall>a. \<not> in_table f a \<longrightarrow> pm a = pmem s a"
    and filled: "\<And>k. k < 1024 \<Longrightarrow> pm (entry_at f k) =
        (if 768 \<le> unat k \<and> unat k < 768 + length ?ks then pmem s (entry_at K k) else 0)" by blast
  moreover have "pm (entry_at f k) = (if k < 768 then 0 else pmem s (entry_at K k))" if "k < 1024" for k
    using filled [OF that] that len [of 0] by (auto simp: word_less_nat_alt)
  ultimately show ?thesis by blast
qed

lemma create_page_directory_cases:
  assumes r: "bounce_ready s" and free: "\<exists>i<16. bounce_pages_used s i = 0"
    and K: "window (pmem s) (cr3 s) (kernel_page_directory s) K"
      "page_directory_index (kernel_page_directory s) < 1023"
      "address_space (pmem s) K (used_frames (memory_bitmap s))" "K \<noteq> bounce_table s"
  obtains (fail) "memory_paging_create_page_directory s = Some (MEMORY_PAGING_RESULT_ALLOCATION_ERROR, 0, s)"
      "\<forall>p < pages (memory_bitmap s). page_used (memory_bitmap s) p"
  | (ok) f b pm where
      "memory_paging_create_page_directory s =
         Some (MEMORY_PAGING_RESULT_OK, f, s\<lparr>pmem := pm, memory_bitmap := b\<rparr>)"
      "f \<noteq> 0" "ALIGN_DOWN f = f" "f \<notin> used_frames (memory_bitmap s)"
      "used_frames b = insert f (used_frames (memory_bitmap s))" "bitmap_wf b"
      "\<forall>i<1024. pm (entry_at f i) = new_directory_entry f K (pmem s) i"
      "\<forall>a. \<not> in_table f a \<longrightarrow> pm a = pmem s a"
  using bounce_readyD(1) [OF r]
proof (cases rule: allocate_frame_cases)
  case null
  with fail show thesis by (simp add: memory_paging_create_page_directory_def)
next
  case (frame f b)
  let ?s1 = "s\<lparr>memory_bitmap := b\<rparr>"
  note wf = bounce_readyD(1) [OF r] and KA = address_spaceD [OF K(3)]
  have sub: "used_frames (memory_bitmap s) \<subseteq> used_frames b" using frame(5) by blast
  have fne: "f \<noteq> cr3 s" "f \<noteq> bounce_table s" "K \<noteq> f"
    using frame(4) address_spaceD(2) [OF machine_wfD(3) [OF wf]] bounce_readyD(6) [OF r] KA(2) by blast+
  have r1: "bounce_ready ?s1" "bounce_table ?s1 = bounce_table s"
    using bounce_ready_cong [OF r refl refl frame(6) sub] by simp_all
  obtain i where i: "i < 16" "bounce_pages_used ?s1 i = 0"
    and run: "bounce_alloc f ?s1 = Some (bounce_vaddr i, with_slot i f ?s1)"
    using bounce_alloc_free_slot [OF r1(1)] free by auto
  have fill: "filling ?s1 i f" using r1 i frame(3) fne by (simp add: filling_def)
  have "entry_present (pmem s (entry_at (cr3 s) (page_directory_index (kernel_page_directory s))))"
    using K(1) by (auto simp: window_def leaf_def Let_def split: if_splits)
  then have tab: "ALIGN_DOWN (pmem s (entry_at (cr3 s) (page_directory_index (kernel_page_directory s)))) \<noteq> f"
    using address_spaceD(5) [OF machine_wfD(3) [OF wf] K(2)] frame(4) by auto
  obtain pm1 where copy: "for_each (\<lambda>k s. do { e \<leftarrow> vread (entry_at (kernel_page_directory s) k) s;
        vwrite (entry_at (bounce_vaddr i) k) e s })
      (drop KERNEL_PDE_START (indices KERNEL_PDE_ENTRIES)) (slot_view i f ?s1 (clear_table f (pmem s))) =
      Some (slot_view i f ?s1 pm1)" and agr: "\<forall>a. \<not> in_table f a \<longrightarrow> pm1 a = pmem s a"
    and filled: "\<forall>k<1024. pm1 (entry_at f k) = (if k < 768 then 0 else pmem s (entry_at K k))"
    using copy_kernel_entries [OF fill, of K] K(1,4) tab KA(1) fne(3) r1(2) by auto
  let ?e = "f OR PAGE_PRESENT OR PAGE_READ_WRITE"
  define pm where "pm = pm1(entry_at f 1023 := ?e)"
  have agr1: "\<forall>a. \<not> in_table f a \<longrightarrow> pm a = pmem s a"
    using agr in_table_entry [of 1023 f] by (auto simp: pm_def)
  have "memory_paging_create_page_directory s =
      Some (MEMORY_PAGING_RESULT_OK, f, s\<lparr>pmem := pm, memory_bitmap := b\<rparr>)"
    using frame(1,2) run slot_view_reset [OF fill] copy slot_view_write [OF fill, of pm1 1023 ?e]
      slot_view_done [OF fill, of pm] agr agr1
    by (simp add: memory_paging_create_page_directory_def pm_def pmem_bitmap_commute)
  then show thesis
  proof (rule ok [OF _ frame(2-6)])
    show "\<forall>i<1024. pm (entry_at f i) = new_directory_entry f K (pmem s) i"
    proof (intro allI impI)
      fix i :: u32 assume "i < 1024"
      moreover from this have "i \<noteq> 1023 \<Longrightarrow> i < 1023" by unat_arith
      ultimately show "pm (entry_at f i) = new_directory_entry f K (pmem s) i"
        using filled frame(3) by (auto simp: pm_def new_directory_entry_def entry_at_eq_iff)
    qed
  qed (use agr1 in auto)
qed


section \<open>The interface of an address space\<close>

text \<open>
  What the users of an address space rely on: mapping a page changes the translation of that
  page only, or fails and changes nothing, and unmapping takes the page away.
\<close>

locale page_mapper =
  fixes lookup_va :: "'s \<Rightarrow> u32 \<Rightarrow> u32 option"
    and map_page :: "u32 \<Rightarrow> u32 \<Rightarrow> u32 \<Rightarrow> 's \<Rightarrow> (memory_paging_result_t \<times> 's) option"
    and unmap_page :: "u32 \<Rightarrow> 's \<Rightarrow> (memory_paging_result_t \<times> 's) option"
    and wf :: "'s \<Rightarrow> bool" and mappable :: "u32 \<Rightarrow> bool"
  assumes map_law: "wf s \<Longrightarrow> mappable va \<Longrightarrow> ALIGN_DOWN flags = 0 \<Longrightarrow>
      \<exists>r s'. map_page pa va flags s = Some (r, s') \<and> wf s' \<and>
        (if r = MEMORY_PAGING_RESULT_OK
         then \<forall>x. mappable x \<longrightarrow> lookup_va s' x =
           (if ALIGN_DOWN x = ALIGN_DOWN va then Some (ALIGN_DOWN pa + page_offset x) else lookup_va s x)
         else s' = s)"
    and unmap_law: "wf s \<Longrightarrow> mappable va \<Longrightarrow>
      \<exists>s'. unmap_page va s = Some (MEMORY_PAGING_RESULT_OK, s') \<and> wf s' \<and>
        (\<forall>x. mappable x \<longrightarrow> lookup_va s' x = (if ALIGN_DOWN x = ALIGN_DOWN va then None else lookup_va s x))"
begin

lemma map_then_unmap:
  assumes "wf s" "mappable va" "ALIGN_DOWN flags = 0" "map_page pa va flags s = Some (MEMORY_PAGING_RESULT_OK, s1)"
  shows "\<exists>s2. unmap_page va s1 = Some (MEMORY_PAGING_RESULT_OK, s2) \<and> wf s2 \<and>
    (\<forall>x. mappable x \<longrightarrow> ALIGN_DOWN x \<noteq> ALIGN_DOWN va \<longrightarrow> lookup_va s2 x = lookup_va s x) \<and> lookup_va s2 va = None"
proof -
  have s1: "wf s1" "\<forall>x. mappable x \<longrightarrow> lookup_va s1 x =
      (if ALIGN_DOWN x = ALIGN_DOWN va then Some (ALIGN_DOWN pa + page_offset x) else lookup_va s x)"
    using map_law [OF assms(1-3), of pa] assms(4) by auto
  then show ?thesis using unmap_law [OF s1(1) assms(2)] assms(2) by auto
qed

lemma map_two:
  assumes "wf s" "mappable va" "mappable vb" "ALIGN_DOWN va \<noteq> ALIGN_DOWN vb" "ALIGN_DOWN fa = 0" "ALIGN_DOWN fb = 0"
    "map_page pa va fa s = Some (MEMORY_PAGING_RESULT_OK, s1)"
    "map_page pb vb fb s1 = Some (MEMORY_PAGING_RESULT_OK, s2)"
  shows "lookup_va s2 va = Some (ALIGN_DOWN pa + page_offset va) \<and> lookup_va s2 vb = Some (ALIGN_DOWN pb + page_offset vb)"
proof -
  have "wf s1" "lookup_va s1 va = Some (ALIGN_DOWN pa + page_offset va)"
    using map_law [OF assms(1,2,5), of pa] assms(2,7) by auto
  then show ?thesis using map_law [OF _ assms(3,6), of s1 pb] assms(2-4,8) by auto
qed

end

definition current_lookup :: "'a machine_scheme \<Rightarrow> u32 \<Rightarrow> u32 option" where
  "current_lookup s va = translate (pmem s) (cr4_pse s) (cr3 s) va"

definition below_recursive :: "u32 \<Rightarrow> bool" where
  "below_recursive va \<longleftrightarrow> page_directory_index va \<noteq> 1023"

lemma below_recursive_index: "below_recursive va \<Longrightarrow> page_directory_index va < 1023"
  using page_index_bounds(1) [of va] unfolding below_recursive_def by unat_arith

lemma map_current_lookup:
  assumes wf: "machine_wf s" and va: "below_recursive va" and fl: "ALIGN_DOWN flags = 0"
  shows "\<exists>r s'. memory_paging_map_current pa va flags s = Some (r, s') \<and> machine_wf s' \<and>
    (if r = MEMORY_PAGING_RESULT_OK
     then \<forall>x. below_recursive x \<longrightarrow> current_lookup s' x =
       (if ALIGN_DOWN x = ALIGN_DOWN va then Some (ALIGN_DOWN pa + page_offset x) else current_lookup s x)
     else s' = s \<and> (\<forall>p < pages (memory_bitmap s). page_used (memory_bitmap s) p))"
  using wf below_recursive_index [OF va]
proof (cases rule: map_current_cases [where pa = pa and flags = flags])
  case fail
  with wf show ?thesis by auto
next
  case (ok pm b)
  have "current_lookup (s\<lparr>pmem := pm, memory_bitmap := b\<rparr>) x =
      (if ALIGN_DOWN x = ALIGN_DOWN va then Some (ALIGN_DOWN pa + page_offset x) else current_lookup s x)"
    if "below_recursive x" for x
    using leaf_updated_translate [OF ok(3) machine_wfD(4) [OF wf], of x] that machine_wfD(1) [OF wf] fl
    by (simp add: current_lookup_def below_recursive_def PAGE_MASK_ALIGN_DOWN)
  with ok show ?thesis by auto
qed

lemma unmap_current_lookup:
  assumes wf: "machine_wf s" and va: "below_recursive va"
  shows "\<exists>s'. memory_paging_unmap_current va s = Some (MEMORY_PAGING_RESULT_OK, s') \<and> machine_wf s' \<and>
    (\<forall>x. below_recursive x \<longrightarrow> current_lookup s' x = (if ALIGN_DOWN x = ALIGN_DOWN va then None else current_lookup s x))"
proof -
  obtain pm where pm: "memory_paging_unmap_current va s = Some (MEMORY_PAGING_RESULT_OK, s\<lparr>pmem := pm\<rparr>)"
    "machine_wf (s\<lparr>pmem := pm\<rparr>)"
    "leaf_updated (pmem s) pm (cr3 s) (page_directory_index va) (page_table_index va) None"
    using unmap_current_eq [OF wf below_recursive_index [OF va]] by blast
  have "current_lookup (s\<lparr>pmem := pm\<rparr>) x = (if ALIGN_DOWN x = ALIGN_DOWN va then None else current_lookup s x)"
    if "below_recursive x" for x
    using leaf_updated_translate [OF pm(3) machine_wfD(4) [OF wf], of x] that machine_wfD(1) [OF wf]
    by (simp add: current_lookup_def below_recursive_def)
  with pm show ?thesis by auto
qed

interpretation current_space:
  page_mapper current_lookup memory_paging_map_current memory_paging_unmap_current
    "machine_wf :: 'a machine_scheme \<Rightarrow> bool" below_recursive
proof unfold_locales
  fix s :: "'a machine_scheme" and va flags pa
  assume "machine_wf s" "below_recursive va" "ALIGN_DOWN flags = 0"
  from map_current_lookup [OF this, of pa]
  show "\<exists>r s'. memory_paging_map_current pa va flags s = Some (r, s') \<and> machine_wf s' \<and>
        (if r = MEMORY_PAGING_RESULT_OK
         then \<forall>x. below_recursive x \<longrightarrow> current_lookup s' x =
           (if ALIGN_DOWN x = ALIGN_DOWN va then Some (ALIGN_DOWN pa + page_offset x) else current_lookup s x)
         else s' = s)"
    by (elim exE conjE) (auto split: if_splits)
qed (rule unmap_current_lookup)

section \<open>A small machine\<close>

text \<open>
  The frame \<open>0x1000\<close> is the current directory, \<open>0x2000\<close> the page table of the bounce pages and
  \<open>0x3000\<close> a second directory, shown by the bounce page 0; four more frames are free.
\<close>

definition sample_pmem :: "u32 \<Rightarrow> u32" where
  "sample_pmem a =
     (if a = entry_at 0x1000 1023 then 0x1003 else if a = entry_at 0x1000 1022 then 0x2003
      else if a = entry_at 0x2000 (bounce_slot 0) then 0x3003
      else if a = entry_at 0x3000 1023 then 0x3003 else if a = entry_at 0x3000 1022 then 0x2003 else 0)"

definition sample_machine :: machine where
  "sample_machine = \<lparr>pmem = sample_pmem, cr3 = 0x1000, cr4_pse = False,
     memory_bitmap = \<lparr>entries_at = 0xC0200000, entries = (\<lambda>i. if i = 0 then 15 else 0), pages = 8,
       last_allocated_page_index = 0\<rparr>,
     bounce_pages_used = (\<lambda>i. if i = 0 then 1 else 0),
     kernel_page_directory = bounce_vaddr 0, kernel_page_directory_phys = 0x3000\<rparr>"

lemma sample_aligned [simp]:
  "ALIGN_DOWN 0x1000 = 0x1000" "ALIGN_DOWN 0x2000 = 0x2000" "ALIGN_DOWN 0x3000 = 0x3000"
  "ALIGN_DOWN 0x1003 = 0x1000" "ALIGN_DOWN 0x2003 = 0x2000" "ALIGN_DOWN 0x3003 = 0x3000"
  by (simp_all add: ALIGN_DOWN_def PAGE_SIZE_def)

lemma sample_present [simp]:
  "entry_present 0x1003" "entry_present 0x2003" "entry_present 0x3003"
  by (simp_all add: entry_present_def PAGE_PRESENT_def)

lemma sample_entries [simp]:
  assumes "i < 1024"
  shows "sample_pmem (entry_at 0x1000 i) = (if i = 1023 then 0x1003 else if i = 1022 then 0x2003 else 0)"
    "sample_pmem (entry_at 0x2000 i) = (if i = bounce_slot 0 then 0x3003 else 0)"
    "sample_pmem (entry_at 0x3000 i) = (if i = 1023 then 0x3003 else if i = 1022 then 0x2003 else 0)"
  using assms bounce_index(4) [of 0] by (simp_all add: sample_pmem_def entry_at_eq_iff)

lemma sample_bitmap_used:
  "bitmap_wf (memory_bitmap sample_machine)"
  "{0x1000, 0x2000, 0x3000} \<subseteq> used_frames (memory_bitmap sample_machine)"
  by (simp_all add: sample_machine_def bitmap_wf_def used_frames_def page_used_def BITMAP_TEST_def
      bitmap_bit_def PAGE_SIZE_def)

lemma sample_spaces:
  "address_space sample_pmem 0x1000 (used_frames (memory_bitmap sample_machine))"
  "address_space sample_pmem 0x3000 (used_frames (memory_bitmap sample_machine))"
  using sample_bitmap_used(2) by (auto simp: address_space_def index_1023)

lemma sample_wf: "machine_wf sample_machine"
  using sample_bitmap_used(1) sample_spaces(1) by (simp add: machine_wf_def sample_machine_def)

lemma sample_ready: "bounce_ready sample_machine"
  using sample_wf bounce_index(4)
  by (auto simp: bounce_ready_def bounce_table_def sample_machine_def)

lemma sample_editable: "editable sample_machine (bounce_vaddr 0) 0x3000"
proof -
  have "window sample_pmem 0x1000 (bounce_vaddr 0) 0x3000"
    using bounce_index [of 0] by (simp add: window_def leaf_def)
  moreover have "companion sample_pmem 0x1000 0x3000"
    by (auto simp: companion_def index_1023)
  moreover have "\<exists>i<16 :: u32. (if i = 0 then 1 else 0) = (0 :: u8)" by (intro exI [of _ 1]) simp
  ultimately show ?thesis
    using sample_ready sample_spaces(2) bounce_index(1) [of 0] by (simp add: editable_def sample_machine_def)
qed

section \<open>Properties\<close>

text \<open>
  (C1) Mapping a page into the current address space through the recursive slot never faults. On
  success every address of that page, and no other address below the recursive slot, is
  translated to the given frame, so nothing that was mapped is lost; without a free frame for a
  missing page table it fails and nothing changes. The address space stays well formed.
\<close>

theorem memory_paging_map_current_translates:
  assumes "machine_wf s" "below_recursive va" "ALIGN_DOWN flags = 0"
  shows "\<exists>r s'. memory_paging_map_current pa va flags s = Some (r, s') \<and> machine_wf s' \<and>
    (if r = MEMORY_PAGING_RESULT_OK
     then \<forall>x. below_recursive x \<longrightarrow> current_lookup s' x =
       (if ALIGN_DOWN x = ALIGN_DOWN va then Some (ALIGN_DOWN pa + page_offset x) else current_lookup s x)
     else s' = s \<and> (\<forall>p < pages (memory_bitmap s). page_used (memory_bitmap s) p))"
  by (rule map_current_lookup [OF assms])

theorem memory_paging_map_current_translates_witness:
  "machine_wf sample_machine \<and> below_recursive 0x400000 \<and>
   (\<exists>r s'. memory_paging_map_current 0x5000 0x400000 2 sample_machine = Some (r, s') \<and> machine_wf s')"
proof -
  have va: "below_recursive 0x400000" and fl: "ALIGN_DOWN 2 = 0"
    by (simp_all add: below_recursive_def page_directory_index_def ALIGN_DOWN_def PAGE_SIZE_def drop_bit_eq_div)
  show ?thesis
    using memory_paging_map_current_translates [OF sample_wf va fl, of "0x5000"] sample_wf va by blast
qed

text \<open>
  (C28) A page mapped into the current address space and unmapped again is not mapped any more,
  and no other translation has changed on the way.
\<close>

theorem memory_paging_unmap_current_restores:
  assumes "machine_wf s" "below_recursive va" "ALIGN_DOWN flags = 0"
    "memory_paging_map_current pa va flags s = Some (MEMORY_PAGING_RESULT_OK, s1)"
  shows "\<exists>s2. memory_paging_unmap_current va s1 = Some (MEMORY_PAGING_RESULT_OK, s2) \<and> machine_wf s2 \<and>
    (\<forall>x. below_recursive x \<longrightarrow> ALIGN_DOWN x \<noteq> ALIGN_DOWN va \<longrightarrow> current_lookup s2 x = current_lookup s x) \<and>
    current_lookup s2 va = None"
  by (rule current_space.map_then_unmap [OF assms])

lemma sample_map_bounce:
  "memory_paging_map_current 0x5000 (bounce_vaddr 1) 2 sample_machine =
     Some (MEMORY_PAGING_RESULT_OK, sample_machine\<lparr>pmem := sample_pmem(entry_at 0x2000 (bounce_slot 1) := 0x5003)\<rparr>)"
  using map_current_present [OF sample_wf, of "bounce_vaddr 1" 2 "0x5000"] bounce_index [of 1]
  by (simp add: sample_machine_def PAGE_USER_def PAGE_MASK_def PAGE_PRESENT_def)

theorem memory_paging_unmap_current_restores_witness:
  "\<exists>s1 s2. memory_paging_map_current 0x5000 (bounce_vaddr 1) 2 sample_machine = Some (MEMORY_PAGING_RESULT_OK, s1) \<and>
     memory_paging_unmap_current (bounce_vaddr 1) s1 = Some (MEMORY_PAGING_RESULT_OK, s2) \<and>
     current_lookup s2 (bounce_vaddr 1) = None"
proof -
  have va: "below_recursive (bounce_vaddr 1)" and fl: "ALIGN_DOWN 2 = 0"
    using bounce_index [of 1] by (simp_all add: below_recursive_def ALIGN_DOWN_def PAGE_SIZE_def)
  show ?thesis
    using memory_paging_unmap_current_restores [OF sample_wf va fl sample_map_bounce] sample_map_bounce by blast
qed

text \<open>
  (C9) Mapping into another page directory, reached through a window, never faults while a bounce
  page is free. On success exactly the given page of that directory is retranslated, the bounce
  pages are all given back and both address spaces stay well formed; otherwise no frame was left
  for a page table and nothing changes.
\<close>

theorem memory_paging_map_other_space:
  assumes ed: "editable s PD R" and va: "page_directory_index va < 1022"
    and al: "ALIGN_DOWN pa = pa" "ALIGN_DOWN flags = 0"
  shows "\<exists>r s'. memory_paging_map PD pa va flags s = Some (r, s') \<and> bounce_ready s' \<and>
    cr3 s' = cr3 s \<and> bounce_pages_used s' = bounce_pages_used s \<and>
    address_space (pmem s') R (used_frames (memory_bitmap s')) \<and>
    (if r = MEMORY_PAGING_RESULT_OK
     then \<forall>x. below_recursive x \<longrightarrow> translate (pmem s') False R x =
       (if ALIGN_DOWN x = ALIGN_DOWN va then Some (pa + page_offset x) else translate (pmem s) False R x)
     else s' = s \<and> (\<forall>p < pages (memory_bitmap s). page_used (memory_bitmap s) p))"
  using ed va
proof (cases rule: memory_paging_map_cases [where pa = pa and flags = flags])
  case fail
  with editableD [OF ed] show ?thesis by auto
next
  case (ok pm b)
  have "translate pm False R x =
       (if ALIGN_DOWN x = ALIGN_DOWN va then Some (pa + page_offset x) else translate (pmem s) False R x)"
    if "below_recursive x" for x
    using leaf_updated_translate [OF ok(2) editableD(8) [OF ed], of x] that al
    by (simp add: below_recursive_def)
  with ok show ?thesis by auto
qed

theorem memory_paging_map_other_space_witness:
  "editable sample_machine (bounce_vaddr 0) 0x3000 \<and>
   (\<exists>r s'. memory_paging_map (bounce_vaddr 0) 0x3000 0x400000 6 sample_machine = Some (r, s') \<and> bounce_ready s')"
proof -
  have "page_directory_index 0x400000 < 1022" "ALIGN_DOWN 6 = 0"
    by (simp_all add: page_directory_index_def ALIGN_DOWN_def PAGE_SIZE_def drop_bit_eq_div)
  then show ?thesis
    using memory_paging_map_other_space [OF sample_editable, of "0x400000" "0x3000" 6] sample_editable by auto
qed

text \<open>
  Looking up an address in another directory returns what the page walk finds, and 0 when the
  address is not mapped. In the second case the bounce page that was taken is not given back.
\<close>

theorem memory_paging_virtual_to_physical_walks:
  assumes "bounce_ready s" "\<exists>i<16. bounce_pages_used s i = 0"
    "address_space (pmem s) R (used_frames (memory_bitmap s))" "companion (pmem s) (cr3 s) R"
    "page_directory_index va < 1022"
  shows "case translate (pmem s) False R va of
      Some p \<Rightarrow> memory_paging_virtual_to_physical R va s = Some (p, s)
    | None \<Rightarrow> \<exists>i f. i < 16 \<and> bounce_pages_used s i = 0 \<and>
        memory_paging_virtual_to_physical R va s = Some (0, with_slot i f s)"
  using assms by (cases rule: virtual_to_physical_cases) auto

theorem memory_paging_virtual_to_physical_walks_witness:
  "\<exists>i f. i < 16 \<and> bounce_pages_used sample_machine i = 0 \<and>
     memory_paging_virtual_to_physical 0x3000 0x400000 sample_machine = Some (0, with_slot i f sample_machine)"
proof -
  note E = editableD [OF sample_editable]
  have i: "page_directory_index 0x400000 = 1"
    by (simp add: page_directory_index_def drop_bit_eq_div)
  moreover have "translate (pmem sample_machine) False 0x3000 0x400000 = None"
    using i by (simp add: translate_leaf leaf_def sample_machine_def)
  ultimately show ?thesis
    using memory_paging_virtual_to_physical_walks [OF E(1,7,5,6), of "0x400000"] by simp
qed

text \<open>
  (C29) A new page directory is an address space of its own in a fresh frame: nothing is mapped below
  the kernel half, every kernel address is translated as in the kernel directory, and no existing
  translation changes, because only the fresh frame is written. Without a free frame nothing
  changes.
\<close>

theorem memory_paging_create_page_directory_copies_kernel:
  assumes r: "bounce_ready s" and free: "\<exists>i<16. bounce_pages_used s i = 0"
    and K: "window (pmem s) (cr3 s) (kernel_page_directory s) K"
      "page_directory_index (kernel_page_directory s) < 1023"
      "address_space (pmem s) K (used_frames (memory_bitmap s))" "K \<noteq> bounce_table s"
  shows "\<exists>r f s'. memory_paging_create_page_directory s = Some (r, f, s') \<and>
    (if r = MEMORY_PAGING_RESULT_OK
     then f \<notin> used_frames (memory_bitmap s) \<and> used_frames (memory_bitmap s') = insert f (used_frames (memory_bitmap s)) \<and>
       address_space (pmem s') f (used_frames (memory_bitmap s')) \<and>
       (\<forall>a. \<not> in_table f a \<longrightarrow> pmem s' a = pmem s a) \<and>
       (\<forall>x. below_recursive x \<longrightarrow> translate (pmem s') False f x =
          (if x < KERNEL_VIRTUAL_SPACE_START then None else translate (pmem s) False K x))
     else s' = s \<and> (\<forall>p < pages (memory_bitmap s). page_used (memory_bitmap s) p))"
  using r free K
proof (cases rule: create_page_directory_cases)
  case fail
  then show ?thesis by simp
next
  case (ok f b pm)
  note KA = address_spaceD [OF K(3)]
  have tab: "ALIGN_DOWN (pmem s (entry_at K d)) \<noteq> f \<and> ALIGN_DOWN (pmem s (entry_at K d)) \<in> used_frames (memory_bitmap s)"
    if "d < 1023" "entry_present (pmem s (entry_at K d))" for d
    using KA(5) [OF that] ok(4) by auto
  have dir: "pm (entry_at f d) = (if d < 768 then 0 else pmem s (entry_at K d))" if "d < 1023" for d
    using ok(7) that index_1023(1) [OF that] by (simp add: new_directory_entry_def)
  have self: "pm (entry_at f 1023) = f OR PAGE_PRESENT OR PAGE_READ_WRITE"
    using ok(7) by (simp add: new_directory_entry_def)
  have "address_space pm f (used_frames b)"
    unfolding address_space_def using ok(3,5) self tab KA(6) by (auto simp: dir split: if_splits)
  moreover have "translate pm False f x = (if x < KERNEL_VIRTUAL_SPACE_START then None else translate (pmem s) False K x)"
    if "below_recursive x" for x
  proof -
    let ?d = "page_directory_index x" and ?t = "page_table_index x"
    have d: "?d < 1023" by (rule below_recursive_index [OF that])
    have half: "?d < 768 \<longleftrightarrow> x < KERNEL_VIRTUAL_SPACE_START"
      by (auto simp: word_less_nat_alt unat_page_directory_index KERNEL_VIRTUAL_SPACE_START_def)
    have "pm (entry_at (ALIGN_DOWN (pmem s (entry_at K ?d))) ?t) =
        pmem s (entry_at (ALIGN_DOWN (pmem s (entry_at K ?d))) ?t)" if "entry_present (pmem s (entry_at K ?d))"
      using ok(3,8) tab [OF d that] page_index_bounds(2) [of x] by (auto simp: in_table_other)
    then have "leaf pm f ?d ?t = (if ?d < 768 then None else leaf (pmem s) K ?d ?t)"
      by (auto simp: leaf_def Let_def dir [OF d])
    then show ?thesis using ok(3) KA(1) half by (simp add: translate_leaf)
  qed
  ultimately show ?thesis using ok by auto
qed

lemma sample_free_page: "\<not> (\<forall>p < pages (memory_bitmap sample_machine). page_used (memory_bitmap sample_machine) p)"
proof -
  have "\<not> page_used (memory_bitmap sample_machine) 4" "4 < pages (memory_bitmap sample_machine)"
    by (simp_all add: sample_machine_def page_used_def BITMAP_TEST_def bitmap_bit_def)
  then show ?thesis by blast
qed

theorem memory_paging_create_page_directory_copies_kernel_witness:
  "\<exists>f s'. memory_paging_create_page_directory sample_machine = Some (MEMORY_PAGING_RESULT_OK, f, s') \<and>
    translate (pmem s') False f 0x400000 = None"
proof -
  note E = editableD [OF sample_editable]
  have K: "kernel_page_directory sample_machine = bounce_vaddr 0" by (simp add: sample_machine_def)
  have low: "below_recursive 0x400000" "(0x400000 :: u32) < KERNEL_VIRTUAL_SPACE_START"
    by (simp_all add: below_recursive_def page_directory_index_def drop_bit_eq_div KERNEL_VIRTUAL_SPACE_START_def)
  have W: "window (pmem sample_machine) (cr3 sample_machine) (kernel_page_directory sample_machine) 0x3000"
    "page_directory_index (kernel_page_directory sample_machine) < 1023"
    using E(3,4) K by simp_all
  note res = memory_paging_create_page_directory_copies_kernel [OF E(1,7) W E(5,9)]
  with sample_free_page show ?thesis using low by (auto split: if_splits)
qed

end
