(* ===== verification/CString.thy ===== *)
theory CString
  imports Prelude
begin

text \<open>
  The freestanding string library, \<^verbatim>\<open>src/libc/string.c\<close>, over a byte memory
  \<open>u32 \<Rightarrow> char\<close>. A pointer is a 32-bit word, the null pointer is 0. The loops that only stop
  at a terminating zero byte may run forever on memory without one, so they are partial
  functions whose value is \<open>None\<close> when they do not return; each has a theorem that it returns
  on a terminated string. The loops counted by \<^verbatim>\<open>n\<close> recurse on the count.
\<close>

unbundle bit_operations_syntax

section \<open>Operations\<close>

type_synonym cmem = "u32 \<Rightarrow> char"

abbreviation nul :: char where
  "nul \<equiv> CHR 0x00"

definition strcmp_result :: "char \<Rightarrow> char \<Rightarrow> int" where
  "strcmp_result c1 c2 =
     (let result = int (of_char c1) - int (of_char c2)
      in if result < 0 then -1 else if result > 0 then 1 else 0)"

partial_function (option) strcmp :: "cmem \<Rightarrow> u32 \<Rightarrow> u32 \<Rightarrow> int option" where
  "strcmp m s1 s2 =
     (if m s1 \<noteq> nul \<and> m s1 = m s2 then strcmp m (s1 + 1) (s2 + 1)
      else Some (strcmp_result (m s1) (m s2)))"

partial_function (option) strcpy_loop :: "cmem \<Rightarrow> u32 \<Rightarrow> u32 \<Rightarrow> cmem option" where
  "strcpy_loop m output src =
     (if m src \<noteq> nul then strcpy_loop (m(output := m src)) (output + 1) (src + 1)
      else Some (m(output := nul)))"

definition strcpy :: "cmem \<Rightarrow> u32 \<Rightarrow> u32 \<Rightarrow> (cmem \<times> u32) option" where
  "strcpy m dst src = map_option (\<lambda>m'. (m', dst)) (strcpy_loop m dst src)"

primrec strncpy_pad :: "nat \<Rightarrow> cmem \<Rightarrow> u32 \<Rightarrow> cmem" where
  "strncpy_pad 0 m dst = m"
| "strncpy_pad (Suc n) m dst = strncpy_pad n (m(dst := nul)) (dst + 1)"

primrec strncpy_loop :: "nat \<Rightarrow> cmem \<Rightarrow> u32 \<Rightarrow> u32 \<Rightarrow> cmem" where
  "strncpy_loop 0 m dst src = m"
| "strncpy_loop (Suc n) m dst src =
     (if m src \<noteq> nul then strncpy_loop n (m(dst := m src)) (dst + 1) (src + 1)
      else strncpy_pad (Suc n) m dst)"

definition strncpy :: "cmem \<Rightarrow> u32 \<Rightarrow> u32 \<Rightarrow> u32 \<Rightarrow> cmem \<times> u32" where
  "strncpy m dst src n = (strncpy_loop (unat n) m dst src, dst)"

primrec memcpy_loop :: "nat \<Rightarrow> cmem \<Rightarrow> u32 \<Rightarrow> u32 \<Rightarrow> cmem" where
  "memcpy_loop 0 m d s = m"
| "memcpy_loop (Suc n) m d s = memcpy_loop n (m(d := m s)) (d + 1) (s + 1)"

definition memcpy :: "cmem \<Rightarrow> u32 \<Rightarrow> u32 \<Rightarrow> u32 \<Rightarrow> cmem \<times> u32" where
  "memcpy m dst src n = (memcpy_loop (unat n) m dst src, dst)"

primrec memset_loop :: "nat \<Rightarrow> cmem \<Rightarrow> u32 \<Rightarrow> char \<Rightarrow> cmem" where
  "memset_loop 0 m ptr ch = m"
| "memset_loop (Suc n) m ptr ch = memset_loop n (m(ptr := ch)) (ptr + 1) ch"

definition memset :: "cmem \<Rightarrow> u32 \<Rightarrow> char \<Rightarrow> u32 \<Rightarrow> cmem \<times> u32" where
  "memset m dst ch n = (memset_loop (unat n) m dst ch, dst)"

partial_function (option) is_delimiter :: "cmem \<Rightarrow> char \<Rightarrow> u32 \<Rightarrow> bool option" where
  "is_delimiter m c delimiter =
     (if m delimiter = nul then Some False
      else if c = m delimiter then Some True
      else is_delimiter m c (delimiter + 1))"

text \<open>The two loops of \<^verbatim>\<open>strtok\<close>: skip leading delimiters, then find the end of the token.\<close>

partial_function (option) strtok_skip :: "cmem \<Rightarrow> u32 \<Rightarrow> u32 \<Rightarrow> u32 option" where
  "strtok_skip m delimiter last_pos =
     (if m last_pos = nul then Some last_pos
      else Option.bind (is_delimiter m (m last_pos) delimiter)
             (\<lambda>d. if d then strtok_skip m delimiter (last_pos + 1) else Some last_pos))"

partial_function (option) strtok_scan :: "cmem \<Rightarrow> u32 \<Rightarrow> u32 \<Rightarrow> (cmem \<times> u32) option" where
  "strtok_scan m delimiter last_pos =
     (if m last_pos = nul then Some (m, last_pos)
      else Option.bind (is_delimiter m (m last_pos) delimiter)
             (\<lambda>d. if d then Some (m(last_pos := nul), last_pos + 1)
                  else strtok_scan m delimiter (last_pos + 1)))"

text \<open>
  \<^verbatim>\<open>strtok\<close> keeps \<^verbatim>\<open>last_pos\<close> in a static variable: it is an argument and a result. The
  result is the new memory, the new \<^verbatim>\<open>last_pos\<close> and the token (0 for a null result).
\<close>

definition strtok :: "cmem \<Rightarrow> u32 \<Rightarrow> u32 \<Rightarrow> u32 \<Rightarrow> (cmem \<times> u32 \<times> u32) option" where
  "strtok m last_pos str delimiter =
     (let last_pos = (if str \<noteq> 0 then str else last_pos)
      in if last_pos = 0 \<or> m last_pos = nul then Some (m, last_pos, 0)
         else Option.bind (strtok_skip m delimiter last_pos)
           (\<lambda>token_start.
              if m token_start = nul then Some (m, token_start, 0)
              else map_option (\<lambda>(m', p). (m', p, token_start))
                     (strtok_scan m delimiter token_start)))"

partial_function (option) strrchr_loop :: "cmem \<Rightarrow> u32 \<Rightarrow> char \<Rightarrow> u32 \<Rightarrow> u32 option" where
  "strrchr_loop m str target last_occurrence =
     (let l = (if m str = target then str else last_occurrence)
      in if m str \<noteq> nul then strrchr_loop m (str + 1) target l else Some l)"

definition strrchr :: "cmem \<Rightarrow> u32 \<Rightarrow> char \<Rightarrow> u32 option" where
  "strrchr m str c = strrchr_loop m str c 0"

partial_function (option) strlen_loop :: "cmem \<Rightarrow> u32 \<Rightarrow> u32 \<Rightarrow> u32 option" where
  "strlen_loop m str len =
     (if m (str + len) \<noteq> nul then strlen_loop m str (len + 1) else Some len)"

definition strlen :: "cmem \<Rightarrow> u32 \<Rightarrow> u32 option" where
  "strlen m str = strlen_loop m str 0"

section \<open>Bytes and words of memory\<close>

definition bytes_at :: "cmem \<Rightarrow> u32 \<Rightarrow> nat \<Rightarrow> char list" where
  "bytes_at m p n = map (\<lambda>i. m (p + of_nat i)) [0..<n]"

lemma bytes_at_length [simp]: "length (bytes_at m p n) = n"
  by (simp add: bytes_at_def)

lemma bytes_at_nth: "i < n \<Longrightarrow> bytes_at m p n ! i = m (p + of_nat i)"
  by (simp add: bytes_at_def)

text \<open>Words are stored with the low byte first.\<close>

definition store_u32 :: "u32 \<Rightarrow> u32 \<Rightarrow> cmem \<Rightarrow> cmem" where
  "store_u32 p v m =
     m(p := char_of (unat (v AND 0xFF)), p + 1 := char_of (unat (drop_bit 8 v AND 0xFF)),
       p + 2 := char_of (unat (drop_bit 16 v AND 0xFF)), p + 3 := char_of (unat (drop_bit 24 v)))"

definition load_u32 :: "cmem \<Rightarrow> u32 \<Rightarrow> u32" where
  "load_u32 m p = of_char (m p) OR push_bit 8 (of_char (m (p + 1))) OR push_bit 16 (of_char (m (p + 2))) OR
     push_bit 24 (of_char (m (p + 3)))"

section \<open>Terminated strings in memory\<close>

fun cstr_at :: "cmem \<Rightarrow> u32 \<Rightarrow> string \<Rightarrow> bool" where
  "cstr_at m p [] \<longleftrightarrow> m p = nul"
| "cstr_at m p (c # s) \<longleftrightarrow> c \<noteq> nul \<and> m p = c \<and> cstr_at m (p + 1) s"

definition range_of :: "u32 \<Rightarrow> nat \<Rightarrow> u32 set" where
  "range_of p n = (\<lambda>i. p + of_nat i) ` {..<n}"

lemma range_of_0 [simp]: "range_of p 0 = {}"
  by (simp add: range_of_def)

lemma range_of_Suc: "range_of p (Suc n) = insert p (range_of (p + 1) n)"
  by (auto simp: range_of_def lessThan_Suc_eq_insert_0 image_image algebra_simps)

lemma in_range_of: "q \<in> range_of p n \<longleftrightarrow> unat (q - p) < n" if "n \<le> 2 ^ 32"
proof
  assume "q \<in> range_of p n"
  then obtain i where "i < n" "q = p + of_nat i" by (auto simp: range_of_def)
  with that show "unat (q - p) < n" by (simp add: unat_of_nat)
next
  assume "unat (q - p) < n"
  then have "q = p + of_nat (unat (q - p))" by simp
  with \<open>unat (q - p) < n\<close> show "q \<in> range_of p n" unfolding range_of_def by blast
qed

lemma range_of_front: "n < 2 ^ 32 \<Longrightarrow> p \<notin> range_of (p + 1) n"
  by (simp add: in_range_of unsigned_minus_1_eq_mask mask_eq_exp_minus_1)

lemma range_of_disjoint_Suc:
  "range_of d (Suc n) \<inter> range_of s (Suc k) = {} \<Longrightarrow>
     range_of (d + 1) n \<inter> range_of (s + 1) k = {} \<and> d \<notin> range_of (s + 1) k \<and> s \<notin> range_of (d + 1) n"
  unfolding range_of_Suc by blast

lemma cstr_at_frame:
  "cstr_at m p s \<Longrightarrow> (\<And>q. q \<in> range_of p (Suc (length s)) \<Longrightarrow> m' q = m q) \<Longrightarrow> cstr_at m' p s"
proof (induction s arbitrary: p)
  case (Cons c s)
  have "cstr_at m' (p + 1) s"
    using Cons.prems by (intro Cons.IH) (auto simp: range_of_Suc [of p])
  with Cons.prems show ?case by (auto simp: range_of_Suc)
qed (simp add: range_of_Suc)

lemma cstr_at_update:
  "cstr_at m p s \<Longrightarrow> d \<notin> range_of p (Suc (length s)) \<Longrightarrow> cstr_at (m(d := c)) p s"
  by (rule cstr_at_frame [of m]) auto

lemma cstr_at_no_nul: "cstr_at m p s \<Longrightarrow> nul \<notin> set s"
  by (induction s arbitrary: p) auto

lemma cstr_at_unique: "cstr_at m p s \<Longrightarrow> cstr_at m p t \<Longrightarrow> s = t"
proof (induction s arbitrary: p t)
  case Nil
  then show ?case by (cases t) auto
next
  case (Cons c s)
  then show ?case by (cases t) auto
qed

section \<open>Words and bytes in memory\<close>

lemma of_char_char_of_u32: "w < 256 \<Longrightarrow> of_char (char_of (unat w)) = w" for w :: u32
proof -
  assume "w < 256"
  then have "unat w < 256" by (simp add: word_less_nat_alt)
  then have "(of_char (char_of (unat w)) :: nat) = unat w" by simp
  then have "of_nat (of_char (char_of (unat w))) = (of_nat (unat w) :: u32)" by simp
  then show ?thesis by (simp only: of_nat_of_char) simp
qed

lemma word_of_bytes:
  "v = (v AND 0xFF) OR push_bit 8 (drop_bit 8 v AND 0xFF) OR push_bit 16 (drop_bit 16 v AND 0xFF) OR push_bit 24 (drop_bit 24 v)"
  for v :: u32
proof -
  have m: "(0xFF :: u32) = mask 8" by (simp add: mask_eq_exp_minus_1)
  show ?thesis
    unfolding m
  proof (rule bit_word_eqI)
    fix n :: nat
    consider "n < 8" | "8 \<le> n" "n < 16" | "16 \<le> n" "n < 24" | "24 \<le> n" by linarith
    then show "bit v n = bit ((v AND mask 8) OR push_bit 8 (drop_bit 8 v AND mask 8) OR
        push_bit 16 (drop_bit 16 v AND mask 8) OR push_bit 24 (drop_bit 24 v)) n" if "n < LENGTH(32)"
      using that by cases (auto simp: bit_simps)
  qed
qed

lemma byte_bounds: "v AND 0xFF < 256" "drop_bit 24 v < 256" for v :: u32
proof -
  have "unat (v AND 0xFF) \<le> unat (0xFF :: u32)" using word_and_le1 [of v "0xFF"] by (simp add: word_le_nat_alt)
  then show "v AND 0xFF < 256" by (simp add: word_less_nat_alt)
  show "drop_bit 24 v < 256"
    using unat_u32 [of v] by (simp add: word_less_nat_alt drop_bit_eq_div unat_div less_mult_imp_div_less)
qed

lemma load_store_u32 [simp]: "load_u32 (store_u32 p v m) p = v"
  unfolding load_u32_def store_u32_def
  using word_of_bytes [of v] by (simp add: of_char_char_of_u32 byte_bounds)

lemma in_range_of_4: "q \<in> range_of p 4 \<longleftrightarrow> q = p \<or> q = p + 1 \<or> q = p + 2 \<or> q = p + 3"
  by (auto simp: numeral_eq_Suc range_of_Suc algebra_simps)

lemma store_u32_other: "q \<notin> range_of p 4 \<Longrightarrow> store_u32 p v m q = m q"
  by (simp add: in_range_of_4 store_u32_def)

lemma load_u32_cong: "(\<And>q. q \<in> range_of p 4 \<Longrightarrow> m' q = m q) \<Longrightarrow> load_u32 m' p = load_u32 m p"
  by (simp add: load_u32_def in_range_of_4)

lemma store_bytes_apply:
  assumes "length cs \<le> 2 ^ 32"
  shows "fold (\<lambda>(i, c) m. m(p + of_nat i := c)) (enumerate 0 cs) m q =
    (if q \<in> range_of p (length cs) then cs ! unat (q - p) else m q)"
  using assms
proof (induction cs rule: rev_induct)
  case (snoc c cs)
  have l: "unat (of_nat (length cs) :: u32) = length cs" using snoc.prems by (simp add: unat_of_nat)
  have "q = p + of_nat (length cs) \<longleftrightarrow> unat (q - p) = length cs"
    using l by (metis add_diff_cancel_left' diff_add_cancel add.commute unsigned_word_eqI)
  then show ?case using snoc by (auto simp: enumerate_append_eq in_range_of nth_append)
qed simp

lemma bytes_at_eqI:
  assumes "\<And>i. i < length cs \<Longrightarrow> m (p + of_nat i) = cs ! i"
  shows "bytes_at m p (length cs) = cs"
  using assms by (intro nth_equalityI) (simp_all add: bytes_at_nth)

section \<open>Comparison, length and search\<close>

definition byte_less :: "(char \<times> char) set" where
  "byte_less = {(a, b). (of_char a :: nat) < of_char b}"

lemma of_char_neq: "c \<noteq> d \<Longrightarrow> (of_char c :: nat) \<noteq> of_char d"
  by simp

lemma strcmp_result_eq:
  "strcmp_result c d = (if c = d then 0 else if (c, d) \<in> byte_less then -1 else 1)"
  using of_char_neq [of c d] by (auto simp: strcmp_result_def byte_less_def Let_def)

lemma strcmp_step: "m p \<noteq> nul \<Longrightarrow> m q = m p \<Longrightarrow> strcmp m p q = strcmp m (p + 1) (q + 1)"
  by (subst strcmp.simps) simp

lemma strcmp_stop:
  "m p = nul \<or> m q \<noteq> m p \<Longrightarrow> strcmp m p q = Some (strcmp_result (m p) (m q))"
  by (subst strcmp.simps) auto

lemma byte_less_nul: "c \<noteq> nul \<Longrightarrow> (nul, c) \<in> byte_less \<and> (c, nul) \<notin> byte_less"
  using of_char_neq [of c nul] by (simp add: byte_less_def)

lemma strcmp_of_strings:
  assumes "cstr_at m p s" "cstr_at m q t"
  shows "strcmp m p q = Some (if s = t then 0 else if (s, t) \<in> lexord byte_less then -1 else 1)"
  using assms
proof (induction s arbitrary: p q t)
  case Nil
  then show ?case
    by (cases t) (auto simp: strcmp_stop strcmp_result_eq byte_less_nul)
next
  case (Cons c s)
  show ?case
  proof (cases t)
    case Nil
    with Cons.prems show ?thesis by (auto simp: strcmp_stop strcmp_result_eq byte_less_nul)
  next
    case (Cons d t')
    note t = this
    show ?thesis
    proof (cases "c = d")
      case True
      have irrefl: "(d, d) \<notin> byte_less" by (simp add: byte_less_def)
      have "strcmp m p q = strcmp m (p + 1) (q + 1)"
        using True t Cons.prems by (intro strcmp_step) auto
      also have "\<dots> = Some (if s = t' then 0 else if (s, t') \<in> lexord byte_less then -1 else 1)"
        using t Cons.prems by (intro Cons.IH) auto
      finally show ?thesis using True t irrefl by simp
    next
      case False
      with t Cons.prems show ?thesis by (simp add: strcmp_stop strcmp_result_eq)
    qed
  qed
qed

lemma strlen_loop_of_string:
  "cstr_at m (p + k) s \<Longrightarrow> strlen_loop m p k = Some (k + of_nat (length s))"
  by (induction s arbitrary: k) (auto simp: strlen_loop.simps [of m p] add.assoc)

lemma strlen_of_string: "cstr_at m p s \<Longrightarrow> strlen m p = Some (of_nat (length s))"
  using strlen_loop_of_string [of m p 0 s] by (simp add: strlen_def)

text \<open>The index of the last occurrence, as a list function.\<close>

fun last_index :: "char \<Rightarrow> string \<Rightarrow> nat option" where
  "last_index c [] = None"
| "last_index c (x # xs) =
     (case last_index c xs of Some i \<Rightarrow> Some (Suc i) | None \<Rightarrow> if x = c then Some 0 else None)"

lemma last_index_None: "last_index c s = None \<longleftrightarrow> c \<notin> set s"
  by (induction s) (auto split: option.splits)

lemma last_index_Some:
  "last_index c s = Some i \<Longrightarrow> i < length s \<and> s ! i = c \<and> c \<notin> set (drop (Suc i) s)"
  by (induction s arbitrary: i) (auto simp: last_index_None split: option.splits if_splits)

lemma strrchr_loop_of_string:
  "cstr_at m p s \<Longrightarrow> c \<noteq> nul \<Longrightarrow>
     strrchr_loop m p c l = Some (case last_index c s of None \<Rightarrow> l | Some i \<Rightarrow> p + of_nat i)"
  by (induction s arbitrary: p l)
     (auto simp: strrchr_loop.simps [of m] add.assoc split: option.splits)

section \<open>Copying and filling\<close>

lemma word_diff_shift: "q - (d + 1) = q - d - 1" for q d :: u32
  by simp

lemma memset_loop_apply:
  "n \<le> 2 ^ 32 \<Longrightarrow> memset_loop n m d c q = (if q \<in> range_of d n then c else m q)"
  by (induction n arbitrary: m d) (auto simp: range_of_Suc)

lemma memcpy_loop_apply:
  assumes "n \<le> 2 ^ 32" "range_of d n \<inter> range_of s n = {}"
  shows "memcpy_loop n m d s q = (if q \<in> range_of d n then m (s + (q - d)) else m q)"
  using assms
proof (induction n arbitrary: m d s)
  case (Suc n)
  have disj: "range_of (d + 1) n \<inter> range_of (s + 1) n = {}"
    using range_of_disjoint_Suc [OF Suc.prems(2)] by blast
  have keep: "s + (q - d) \<noteq> d" if "q \<in> range_of (d + 1) n"
  proof
    assume eq: "s + (q - d) = d"
    have "unat (q - d) < Suc n" using that Suc.prems(1) in_range_of [of "Suc n" q d]
      by (simp add: range_of_Suc)
    then have "s + (q - d) \<in> range_of s (Suc n)" using Suc.prems(1) by (simp add: in_range_of)
    then have "d \<in> range_of s (Suc n)" by (simp only: eq)
    moreover have "d \<in> range_of d (Suc n)" by (simp add: range_of_Suc)
    ultimately show False using Suc.prems(2) by blast
  qed
  have nd: "d \<notin> range_of (d + 1) n" using Suc.prems(1) by (intro range_of_front) simp
  define m1 where "m1 = m(d := m s)"
  have "memcpy_loop (Suc n) m d s q = memcpy_loop n m1 (d + 1) (s + 1) q" by (simp add: m1_def)
  also have "\<dots> = (if q \<in> range_of (d + 1) n then m1 (s + 1 + (q - (d + 1))) else m1 q)"
    using Suc.prems(1) disj by (intro Suc.IH) simp_all
  also have "s + 1 + (q - (d + 1)) = s + (q - d)" by simp
  finally show ?case using keep nd by (cases "q = d") (simp_all add: range_of_Suc m1_def)
qed simp

lemma strcpy_loop_memcpy:
  assumes "cstr_at m src s" "length s < 2 ^ 32 - 1"
    "range_of dst (Suc (length s)) \<inter> range_of src (Suc (length s)) = {}"
  shows "strcpy_loop m dst src = Some (memcpy_loop (Suc (length s)) m dst src)"
  using assms
proof (induction s arbitrary: m dst src)
  case Nil
  then show ?case by (simp add: strcpy_loop.simps [of m dst] fun_upd_def)
next
  case (Cons c s)
  define m1 where "m1 = m(dst := c)"
  have disj: "range_of (dst + 1) (Suc (length s)) \<inter> range_of (src + 1) (Suc (length s)) = {}"
    and out: "dst \<notin> range_of (src + 1) (Suc (length s))"
    using range_of_disjoint_Suc [of dst "Suc (length s)" src "Suc (length s)"] Cons.prems(3) by simp_all
  have "cstr_at m1 (src + 1) s"
    unfolding m1_def using Cons.prems(1) out by (intro cstr_at_update) simp_all
  then have "strcpy_loop m1 (dst + 1) (src + 1) = Some (memcpy_loop (Suc (length s)) m1 (dst + 1) (src + 1))"
    using Cons.prems(2) disj by (intro Cons.IH) auto
  moreover have "strcpy_loop m dst src = strcpy_loop m1 (dst + 1) (src + 1)"
    using Cons.prems(1) by (subst strcpy_loop.simps) (simp add: m1_def)
  ultimately show ?case using Cons.prems(1) by (simp add: m1_def)
qed

lemma cstr_at_shift:
  assumes "cstr_at m src s" "\<And>i. i \<le> length s \<Longrightarrow> m' (dst + of_nat i) = m (src + of_nat i)"
  shows "cstr_at m' dst s"
  using assms
proof (induction s arbitrary: src dst)
  case Nil
  then show ?case using Nil.prems(2) [of 0] by simp
next
  case (Cons c s)
  have "cstr_at m' (dst + 1) s"
  proof (rule Cons.IH)
    show "cstr_at m (src + 1) s" using Cons.prems(1) by simp
    show "m' (dst + 1 + of_nat i) = m (src + 1 + of_nat i)" if "i \<le> length s" for i
      using Cons.prems(2) [of "Suc i"] that by (simp add: algebra_simps)
  qed
  with Cons.prems(1) Cons.prems(2) [of 0] show ?case by simp
qed

lemma strncpy_pad_apply:
  "n \<le> 2 ^ 32 \<Longrightarrow> strncpy_pad n m d q = (if q \<in> range_of d n then nul else m q)"
  by (induction n arbitrary: m d) (auto simp: range_of_Suc)

text \<open>The padded, truncated image that \<^verbatim>\<open>strncpy\<close> leaves in the destination.\<close>

definition strncpy_image :: "nat \<Rightarrow> string \<Rightarrow> string" where
  "strncpy_image n s = take n s @ replicate (n - length s) nul"

lemma length_strncpy_image [simp]: "length (strncpy_image n s) = n"
  by (simp add: strncpy_image_def)

lemma strncpy_loop_apply:
  assumes "cstr_at m src s" "n \<le> 2 ^ 32" "range_of dst n \<inter> range_of src (Suc (length s)) = {}"
  shows "strncpy_loop n m dst src q =
    (if q \<in> range_of dst n then strncpy_image n s ! unat (q - dst) else m q)"
  using assms
proof (induction n arbitrary: m dst src s)
  case (Suc n)
  have nd: "dst \<notin> range_of (dst + 1) n" using Suc.prems(2) by (intro range_of_front) simp
  show ?case
  proof (cases s)
    case Nil
    have "unat (q - dst) < Suc n" if "q \<in> range_of dst (Suc n)"
      using that Suc.prems(2) by (simp add: in_range_of)
    then show ?thesis
      using Nil Suc.prems strncpy_pad_apply [OF Suc.prems(2), of m dst q]
      by (auto simp: strncpy_image_def nth_Cons')
  next
    case (Cons c s')
    define m1 where "m1 = m(dst := c)"
    have ranges: "range_of (dst + 1) n \<inter> range_of (src + 1) (Suc (length s')) = {}"
      "dst \<notin> range_of (src + 1) (Suc (length s'))"
      using range_of_disjoint_Suc [of dst n src "Suc (length s')"] Suc.prems(3) Cons by simp_all
    have "cstr_at m1 (src + 1) s'"
      unfolding m1_def using Suc.prems(1) Cons ranges(2) by (intro cstr_at_update) simp_all
    then have IH: "strncpy_loop n m1 (dst + 1) (src + 1) q =
        (if q \<in> range_of (dst + 1) n then strncpy_image n s' ! unat (q - (dst + 1)) else m1 q)"
      using Suc.prems(2) ranges by (intro Suc.IH) auto
    have idx: "unat (q - dst) = Suc (unat (q - (dst + 1)))" if "q \<in> range_of (dst + 1) n"
    proof -
      have "q - dst \<noteq> 0" using that nd by auto
      then show ?thesis
        using unat_minus_one [of "q - dst"] by (simp add: diff_diff_eq unat_gt_0)
    qed
    from IH nd idx Cons Suc.prems(1) show ?thesis
      by (cases "q = dst") (simp_all add: range_of_Suc strncpy_image_def m1_def)
  qed
qed simp

section \<open>Tokens\<close>

lemma is_delimiter_of_string: "cstr_at m d ds \<Longrightarrow> is_delimiter m c d = Some (c \<in> set ds)"
  by (induction ds arbitrary: d) (auto simp: is_delimiter.simps [of m c])

lemma cstr_at_append: "cstr_at m p (xs @ ys) \<Longrightarrow> cstr_at m (p + of_nat (length xs)) ys"
  by (induction xs arbitrary: p) (auto simp: add.assoc [symmetric])

lemma cstr_at_cut:
  assumes "cstr_at m p (xs @ c # ys)" "length xs < 2 ^ 32"
  shows "cstr_at (m(p + of_nat (length xs) := nul)) p xs"
  using assms
proof (induction xs arbitrary: p)
  case (Cons x xs)
  let ?q = "p + of_nat (length (x # xs))"
  have q: "?q = p + 1 + of_nat (length xs)" by (simp add: algebra_simps)
  have "unat (of_nat (length (x # xs)) :: u32) \<noteq> 0" 
    using unat_of_nat_u32 [of "length (x # xs)"] Cons.prems(2) by (simp del: of_nat_Suc)
  then have "of_nat (length (x # xs)) \<noteq> (0 :: u32)" by (metis unat_0)
  then have neq: "?q \<noteq> p" by simp
  have tail: "cstr_at (m(?q := nul)) (p + 1) xs"
    unfolding q using Cons.prems by (intro Cons.IH) simp_all
  define m1 where "m1 = m(?q := nul)"
  have "m1 p = m p" using neq by (simp add: m1_def)
  with tail [folded m1_def] Cons.prems(1) have "cstr_at m1 p (x # xs)" by simp
  then show ?case by (simp only: m1_def)
qed simp

lemma strtok_skip_of_string:
  assumes "cstr_at m d ds" "cstr_at m p s"
  shows "strtok_skip m d p = Some (p + of_nat (length (takeWhile (\<lambda>c. c \<in> set ds) s)))"
  using assms(2)
proof (induction s arbitrary: p)
  case (Cons c s)
  then show ?case
    by (auto simp: strtok_skip.simps [of m d p] is_delimiter_of_string [OF assms(1)] algebra_simps)
qed (simp add: strtok_skip.simps)

lemma strtok_scan_of_string:
  assumes "cstr_at m d ds" "cstr_at m p s"
  shows "strtok_scan m d p =
    (let n = length (takeWhile (\<lambda>c. c \<notin> set ds) s) in
     Some (if n = length s then (m, p + of_nat n) else (m(p + of_nat n := nul), p + of_nat n + 1)))"
  using assms(2)
proof (induction s arbitrary: p)
  case (Cons c s)
  then show ?case
    by (auto simp: strtok_scan.simps [of m d p] is_delimiter_of_string [OF assms(1)] Let_def algebra_simps)
qed (simp add: strtok_scan.simps)

text \<open>
  The string seen by the next call: what follows the first token and its closing delimiter.
\<close>

definition token_skip :: "string \<Rightarrow> string \<Rightarrow> string" where
  "token_skip ds s = dropWhile (\<lambda>c. c \<in> set ds) s"

definition token_of :: "string \<Rightarrow> string \<Rightarrow> string" where
  "token_of ds s = takeWhile (\<lambda>c. c \<notin> set ds) (token_skip ds s)"

definition token_rest :: "string \<Rightarrow> string \<Rightarrow> string" where
  "token_rest ds s = tl (dropWhile (\<lambda>c. c \<notin> set ds) (token_skip ds s))"

lemma strtok_scan_cut:
  assumes ds: "cstr_at m d ds" and s: "cstr_at m p s" and len: "length s < 2 ^ 32"
  obtains m' q where "strtok_scan m d p = Some (m', q)"
    "cstr_at m' p (takeWhile (\<lambda>c. c \<notin> set ds) s)"
    "cstr_at m' q (tl (dropWhile (\<lambda>c. c \<notin> set ds) s))"
    "\<And>x. x \<notin> range_of p (length s) \<Longrightarrow> m' x = m x"
proof -
  let ?t = "takeWhile (\<lambda>c. c \<notin> set ds) s" and ?r = "dropWhile (\<lambda>c. c \<notin> set ds) s"
  have split: "?t @ ?r = s" by simp
  show thesis
  proof (cases ?r)
    case Nil
    then have all: "?t = s" using split by simp
    with s have "cstr_at m (p + of_nat (length s)) []" using cstr_at_append [of m p s "[]"] by simp
    moreover have "strtok_scan m d p = Some (m, p + of_nat (length s))"
      using strtok_scan_of_string [OF ds s] all by (simp add: Let_def)
    ultimately show ?thesis using Nil all s that by (metis list.sel(2))
  next
    case (Cons c r)
    let ?k = "p + of_nat (length ?t)"
    have s_eq: "s = ?t @ c # r" using split Cons by simp
    then have lt: "length ?t < length s" by (metis add_less_same_cancel1 length_append length_Cons
          less_add_same_cancel1 zero_less_Suc)
    have scan: "strtok_scan m d p = Some (m(?k := nul), ?k + 1)"
      using strtok_scan_of_string [OF ds s] lt by (simp add: Let_def)
    have tok: "cstr_at (m(?k := nul)) p ?t"
      using s s_eq lt len by (intro cstr_at_cut [of m p ?t c r]) simp_all
    have rest: "cstr_at m (?k + 1) r"
      using cstr_at_append [of m p ?t "c # r"] s s_eq by simp
    have "?k \<notin> range_of (?k + 1) (Suc (length r))"
      using len arg_cong [OF s_eq, of length] by (intro range_of_front) simp
    then have rest': "cstr_at (m(?k := nul)) (?k + 1) r" using rest by (intro cstr_at_update)
    have "?k \<in> range_of p (length s)" using lt by (auto simp: range_of_def)
    then have frame: "x \<notin> range_of p (length s) \<Longrightarrow> (m(?k := nul)) x = m x" for x by auto
    show ?thesis
    proof (rule that)
      show "strtok_scan m d p = Some (m(?k := nul), ?k + 1)" by (fact scan)
      show "cstr_at (m(?k := nul)) p ?t" by (fact tok)
      show "cstr_at (m(?k := nul)) (?k + 1) (tl ?r)" using rest' Cons by simp
    qed (fact frame)
  qed
qed

section \<open>Properties\<close>

text \<open>
  \<^verbatim>\<open>strcmp\<close> on two terminated strings returns, and its result is the lexicographic
  comparison of the strings by unsigned byte value: 0 exactly for equal strings, \<open>-1\<close> when the
  first is smaller, 1 when it is greater.
\<close>

theorem strcmp_lexicographic:
  assumes "cstr_at m p s" "cstr_at m q t"
  shows "strcmp m p q = Some (if s = t then 0 else if (s, t) \<in> lexord byte_less then -1 else 1)"
  using assms by (rule strcmp_of_strings)

definition sample_mem :: cmem where
  "sample_mem a = (if unat a < 9 then ''/bin//sh/'' ! unat a else if a = 20 then CHR ''/'' else nul)"

lemma sample_strings:
  "cstr_at sample_mem 0 ''/bin//sh/''" "cstr_at sample_mem 1 ''bin//sh/''"
  "cstr_at sample_mem 20 ''/''"
  by (simp_all add: sample_mem_def)

theorem strcmp_lexicographic_witness:
  "cstr_at sample_mem 0 ''/bin//sh/'' \<and> cstr_at sample_mem 20 ''/'' \<and>
   strcmp sample_mem 0 20 = Some 1"
proof -
  have "(''/bin//sh/'', ''/'') \<notin> lexord byte_less" by (simp add: byte_less_def)
  then show ?thesis
    using sample_strings strcmp_lexicographic [OF sample_strings(1) sample_strings(3)] by simp
qed

text \<open>
  A call of \<^verbatim>\<open>strtok\<close> on a terminated string (or on the saved position) returns: the
  null pointer when only delimiters are left, otherwise a pointer to the first token, which the
  call has terminated in place, and it saves a position at which the rest of the string after
  the token's delimiter is found; no byte outside the string changes.
\<close>

theorem strtok_next_token:
  assumes ds: "cstr_at m d ds" and s: "cstr_at m p s" and len: "length s < 2 ^ 32"
    and start: "p = (if str \<noteq> 0 then str else last_pos)" "p \<noteq> 0"
  shows "\<exists>m' last_pos' token. strtok m last_pos str d = Some (m', last_pos', token) \<and>
    (\<forall>x. x \<notin> range_of p (length s) \<longrightarrow> m' x = m x) \<and>
    (if token_skip ds s = [] then token = 0 \<and> m' = m \<and> cstr_at m' last_pos' []
     else token = p + of_nat (length s - length (token_skip ds s)) \<and>
          cstr_at m' token (token_of ds s) \<and> token_of ds s \<noteq> [] \<and>
          cstr_at m' last_pos' (token_rest ds s))"
proof (cases s)
  case Nil
  with s start show ?thesis by (auto simp: strtok_def token_skip_def Let_def)
next
  case (Cons c0 s0)
  let ?k = "length (takeWhile (\<lambda>c. c \<in> set ds) s)"
  let ?q = "p + of_nat ?k"
  have parts: "takeWhile (\<lambda>c. c \<in> set ds) s @ token_skip ds s = s" by (simp add: token_skip_def)
  have k: "length s - length (token_skip ds s) = ?k"
    using arg_cong [OF parts, of length] by simp
  have nonempty: "m p \<noteq> nul" using s Cons by simp
  have skip: "strtok_skip m d p = Some ?q" using strtok_skip_of_string [OF ds s] .
  have at_q: "cstr_at m ?q (token_skip ds s)"
    using cstr_at_append [of m p "takeWhile (\<lambda>c. c \<in> set ds) s" "token_skip ds s"] s parts by simp
  have run: "strtok m last_pos str d =
      (if m ?q = nul then Some (m, ?q, 0)
       else map_option (\<lambda>(m', x). (m', x, ?q)) (strtok_scan m d ?q))"
    using start nonempty skip by (auto simp: strtok_def Let_def)
  show ?thesis
  proof (cases "token_skip ds s")
    case Nil
    with at_q run show ?thesis by (auto simp: k)
  next
    case (Cons c r)
    have len': "length (token_skip ds s) < 2 ^ 32"
      using arg_cong [OF parts, of length] len by simp
    obtain m' x where scan: "strtok_scan m d ?q = Some (m', x)"
      "cstr_at m' ?q (takeWhile (\<lambda>c. c \<notin> set ds) (token_skip ds s))"
      "cstr_at m' x (tl (dropWhile (\<lambda>c. c \<notin> set ds) (token_skip ds s)))"
      "\<And>y. y \<notin> range_of ?q (length (token_skip ds s)) \<Longrightarrow> m' y = m y"
      using strtok_scan_cut [OF ds at_q len'] by blast
    have "c \<notin> set ds" using Cons hd_dropWhile [of "\<lambda>c. c \<in> set ds" s] by (simp add: token_skip_def)
    then have tok: "token_of ds s \<noteq> []" using Cons by (simp add: token_of_def)
    have sub: "y \<in> range_of p (length s)" if "y \<in> range_of ?q (length (token_skip ds s))" for y
    proof -
      obtain i where "i < length (token_skip ds s)" "y = ?q + of_nat i"
        using \<open>y \<in> range_of ?q _\<close> by (auto simp: range_of_def)
      then have "y = p + of_nat (?k + i)" "?k + i < length s"
        using arg_cong [OF parts, of length] by simp_all
      then show ?thesis unfolding range_of_def by blast
    qed
    have "strtok m last_pos str d = Some (m', x, ?q)"
      using run scan(1) at_q Cons by auto
    moreover have "length s - Suc (length r) = ?k" using k Cons by simp
    ultimately show ?thesis
      using scan(2-4) sub tok Cons by (auto simp: k token_of_def token_rest_def)
  qed
qed

theorem strtok_next_token_witness:
  "\<exists>m' last_pos' token. strtok sample_mem 0 1 20 = Some (m', last_pos', token) \<and>
     token = 1 \<and> cstr_at m' token ''bin'' \<and> cstr_at m' last_pos' ''/sh/''"
  using strtok_next_token [OF sample_strings(3) sample_strings(2), of 1 0]
  by (auto simp: token_skip_def token_of_def token_rest_def)

text \<open>
  \<^verbatim>\<open>strncpy\<close> writes exactly the \<open>n\<close> bytes at the destination: the string cut at \<open>n\<close> bytes
  and padded with zero bytes, so the copy is terminated only when the string is shorter than
  \<open>n\<close>; it returns the destination.
\<close>

theorem strncpy_truncates_and_pads:
  assumes "cstr_at m src s" "range_of dst (unat n) \<inter> range_of src (Suc (length s)) = {}"
  shows "strncpy m dst src n =
    (\<lambda>q. if q \<in> range_of dst (unat n) then strncpy_image (unat n) s ! unat (q - dst) else m q, dst)"
  using strncpy_loop_apply [OF assms(1) _ assms(2)] unat_u32 [of n]
  by (auto simp: strncpy_def fun_eq_iff)

theorem strncpy_truncates_and_pads_witness:
  "fst (strncpy sample_mem 100 0 4) 102 = CHR ''i'' \<and> fst (strncpy sample_mem 100 20 4) 103 = nul"
proof -
  have dis: "range_of 100 (unat (4 :: u32)) \<inter> range_of 0 (Suc (length ''/bin//sh/'')) = {}"
    "range_of 100 (unat (4 :: u32)) \<inter> range_of 20 (Suc (length ''/'')) = {}"
    by (auto simp: in_range_of) (unat_arith, simp)+
  show ?thesis
    using strncpy_truncates_and_pads [OF sample_strings(1) dis(1)]
      strncpy_truncates_and_pads [OF sample_strings(3) dis(2)]
    by (simp add: in_range_of strncpy_image_def)
qed

end
