(* ===== verification/Kernel_Heap.thy ===== *)
theory Kernel_Heap
  imports Address_Spaces CString
begin

text \<open>
  The kernel heap of \<^verbatim>\<open>src/kernel_heap.c\<close>: a circular list of free blocks in address order, first
  fit, with neighbouring blocks merged on release. A block starts with a header of eight bytes;
  sizes count headers. The headers are kept as two maps from addresses, the \<^verbatim>\<open>next\<close> and the
  \<^verbatim>\<open>size\<close> field, apart from the words of the page tables; the bytes of the allocated blocks are a
  third map. The growth of the heap goes through the frame allocator and \<^verbatim>\<open>memory_paging_map\<close>.
  The two \<^verbatim>\<open>while (1)\<close> loops are partial functions: a loop that never ends has the value \<open>None\<close>, as
  has a page fault.
\<close>

section \<open>State\<close>

record heap_machine = machine +
  hdr_next :: "u32 \<Rightarrow> u32"
  hdr_size :: "u32 \<Rightarrow> u32"
  heap_data :: cmem
  kernel_heap_base :: u32
  free_headers_head :: u32
  heap_start :: u32
  heap_end :: u32
  heap_break :: u32

definition KERNEL_HEAP_MINIMUM_HEADERS_TO_ALLOCATE :: u32 where
  "KERNEL_HEAP_MINIMUM_HEADERS_TO_ALLOCATE = 1024"

definition KERNEL_HEAP_VIRTUAL_START :: u32 where "KERNEL_HEAP_VIRTUAL_START = 0xF0000000"
definition KERNEL_HEAP_VIRTUAL_END :: u32 where "KERNEL_HEAP_VIRTUAL_END = 0xF7FFFFFF"

definition sizeof_header :: u32 where "sizeof_header = 8"

text \<open>Pointer arithmetic on headers: \<^verbatim>\<open>header + n\<close>.\<close>

definition hdr_plus :: "u32 \<Rightarrow> u32 \<Rightarrow> u32" where
  "hdr_plus header n = header + n * sizeof_header"

section \<open>Release\<close>

partial_function (option) find_location ::
    "(u32 \<Rightarrow> u32) \<Rightarrow> u32 \<Rightarrow> u32 \<Rightarrow> u32 option" where
  "find_location nxt freed_block_header location =
     (let after_current = freed_block_header > location;
          before_next = freed_block_header < nxt location
      in if after_current \<and> before_next then Some location
         else if location \<ge> nxt location \<and> (after_current \<or> before_next) then Some location
         else find_location nxt freed_block_header (nxt location))"

text \<open>Merging the released block \<open>h\<close> with the block after it, then with the block at \<open>loc\<close>.\<close>

definition merge_next :: "(u32 \<Rightarrow> u32) \<Rightarrow> (u32 \<Rightarrow> u32) \<Rightarrow> u32 \<Rightarrow> u32 \<Rightarrow> (u32 \<Rightarrow> u32) \<times> (u32 \<Rightarrow> u32)" where
  "merge_next nxt sz h loc =
     (if hdr_plus h (sz h) = nxt loc then (nxt(h := nxt (nxt loc)), sz(h := sz h + sz (nxt loc)))
      else (nxt(h := nxt loc), sz))"

definition merge_prev :: "(u32 \<Rightarrow> u32) \<Rightarrow> (u32 \<Rightarrow> u32) \<Rightarrow> u32 \<Rightarrow> u32 \<Rightarrow> (u32 \<Rightarrow> u32) \<times> (u32 \<Rightarrow> u32)" where
  "merge_prev nxt sz h loc =
     (if hdr_plus loc (sz loc) = h then (nxt(loc := nxt h), sz(loc := sz loc + sz h))
      else (nxt(loc := h), sz))"

definition kernel_heap_free :: "u32 \<Rightarrow> 'a heap_machine_scheme \<Rightarrow> 'a heap_machine_scheme option" where
  "kernel_heap_free address s =
     (if address = 0 then Some s
      else let h = address - sizeof_header in do {
        location \<leftarrow> find_location (hdr_next s) h (free_headers_head s);
        let (nxt, sz) = merge_next (hdr_next s) (hdr_size s) h location;
            (nxt, sz) = merge_prev nxt sz h location
        in Some (s\<lparr>hdr_next := nxt, hdr_size := sz, free_headers_head := location\<rparr>)
      })"

section \<open>Growth\<close>

text \<open>The loop over the pages: \<open>False\<close> when a frame was missing.\<close>

primrec map_heap_pages ::
    "nat \<Rightarrow> u32 \<Rightarrow> u32 \<Rightarrow> u32 \<Rightarrow> 'a heap_machine_scheme \<Rightarrow> (bool \<times> 'a heap_machine_scheme) option" where
  "map_heap_pages 0 page_directory flags address s = Some (True, s)"
| "map_heap_pages (Suc n) page_directory flags address s =
     (let (physical_allocated, s) = allocate_frame s
      in if physical_allocated = 0 then Some (False, s)
         else do {
           (r, s) \<leftarrow> memory_paging_map page_directory physical_allocated address flags s;
           map_heap_pages n page_directory flags (address + PAGE_SIZE) s
         })"

definition kernel_heap_allocate_physical_memory ::
    "u32 \<Rightarrow> u32 \<Rightarrow> u32 \<Rightarrow> 'a heap_machine_scheme \<Rightarrow> (u32 \<times> 'a heap_machine_scheme) option" where
  "kernel_heap_allocate_physical_memory bytes page_directory flags s =
     (let bytes_to_allocate = ALIGN_UP bytes;
          pages_to_allocate = bytes_to_allocate div PAGE_SIZE
      in if heap_break s + bytes_to_allocate > heap_end s then Some (0, s)
         else do {
           (ok, s) \<leftarrow> map_heap_pages (unat pages_to_allocate) page_directory flags (heap_break s) s;
           if \<not> ok then Some (0, s)
           else Some (heap_break s, s\<lparr>heap_break := heap_break s + bytes_to_allocate\<rparr>)
         })"

definition kernel_heap_allocate_more_headers ::
    "u32 \<Rightarrow> u32 \<Rightarrow> u32 \<Rightarrow> 'a heap_machine_scheme \<Rightarrow> (u32 \<times> 'a heap_machine_scheme) option" where
  "kernel_heap_allocate_more_headers headers_to_allocate page_directory flags s =
     (let bytes = headers_to_allocate * sizeof_header;
          bytes_to_allocate =
            (if bytes < KERNEL_HEAP_MINIMUM_HEADERS_TO_ALLOCATE * sizeof_header
             then KERNEL_HEAP_MINIMUM_HEADERS_TO_ALLOCATE * sizeof_header else bytes)
      in do {
        (header, s) \<leftarrow> kernel_heap_allocate_physical_memory bytes_to_allocate page_directory flags s;
        if header = 0 then Some (0, s)
        else do {
          s \<leftarrow> kernel_heap_free (hdr_plus header 1)
                 (s\<lparr>hdr_size := (hdr_size s)(header := bytes_to_allocate div sizeof_header),
                    hdr_next := (hdr_next s)(header := header)\<rparr>);
          Some (free_headers_head s, s)
        }
      })"

section \<open>Allocation\<close>

text \<open>Taking the block \<open>current\<close> when it is large enough: the whole block, or its tail.\<close>

definition take_block ::
    "u32 \<Rightarrow> u32 \<Rightarrow> u32 \<Rightarrow> 'a heap_machine_scheme \<Rightarrow> u32 \<times> 'a heap_machine_scheme" where
  "take_block headers previous current s =
     (if hdr_size s current = headers
      then (hdr_plus current 1,
            s\<lparr>hdr_next := (hdr_next s)(previous := hdr_next s current), free_headers_head := previous\<rparr>)
      else let rest = hdr_size s current - headers; block = hdr_plus current rest
           in (hdr_plus block 1,
               s\<lparr>hdr_size := (hdr_size s)(current := rest, block := headers), free_headers_head := previous\<rparr>))"

partial_function (option) malloc_loop ::
    "u32 \<Rightarrow> u32 \<Rightarrow> u32 \<Rightarrow> u32 \<Rightarrow> u32 \<Rightarrow> 'a heap_machine_scheme \<Rightarrow> (u32 \<times> 'a heap_machine_scheme) option" where
  "malloc_loop headers page_directory flags previous current s =
     (if hdr_size s current \<ge> headers then Some (take_block headers previous current s)
      else if current = free_headers_head s
      then do {
        (more, s) \<leftarrow> kernel_heap_allocate_more_headers headers page_directory flags s;
        if more = 0 then Some (0, s)
        else malloc_loop headers page_directory flags current (hdr_next s current) s
      }
      else malloc_loop headers page_directory flags current (hdr_next s current) s)"

definition headers_for :: "u32 \<Rightarrow> u32" where
  "headers_for size_bytes = (size_bytes + sizeof_header - 1) div sizeof_header + 1"

definition kernel_heap_malloc_into_page_directory ::
    "u32 \<Rightarrow> u32 \<Rightarrow> u32 \<Rightarrow> 'a heap_machine_scheme \<Rightarrow> (u32 \<times> 'a heap_machine_scheme) option" where
  "kernel_heap_malloc_into_page_directory size_bytes page_directory flags s =
     (if size_bytes = 0 then Some (0, s)
      else malloc_loop (headers_for size_bytes) page_directory flags (free_headers_head s)
             (hdr_next s (free_headers_head s)) s)"

definition kernel_heap_calloc_into_page_directory ::
    "u32 \<Rightarrow> u32 \<Rightarrow> u32 \<Rightarrow> 'a heap_machine_scheme \<Rightarrow> (u32 \<times> 'a heap_machine_scheme) option" where
  "kernel_heap_calloc_into_page_directory size_bytes page_directory flags s = do {
     (p, s) \<leftarrow> kernel_heap_malloc_into_page_directory size_bytes page_directory flags s;
     if p = 0 then Some (0, s)
     else Some (p, s\<lparr>heap_data := fst (memset (heap_data s) p nul size_bytes)\<rparr>)
   }"

definition kernel_heap_malloc :: "u32 \<Rightarrow> 'a heap_machine_scheme \<Rightarrow> (u32 \<times> 'a heap_machine_scheme) option" where
  "kernel_heap_malloc size_bytes s =
     kernel_heap_malloc_into_page_directory size_bytes (kernel_page_directory s) PAGE_READ_WRITE s"

definition kernel_heap_calloc :: "u32 \<Rightarrow> 'a heap_machine_scheme \<Rightarrow> (u32 \<times> 'a heap_machine_scheme) option" where
  "kernel_heap_calloc size_bytes s =
     kernel_heap_calloc_into_page_directory size_bytes (kernel_page_directory s) PAGE_READ_WRITE s"

definition kernel_heap_module_init :: "'a heap_machine_scheme \<Rightarrow> 'a heap_machine_scheme" where
  "kernel_heap_module_init s =
     s\<lparr>hdr_next := (hdr_next s)(kernel_heap_base s := kernel_heap_base s),
       hdr_size := (hdr_size s)(kernel_heap_base s := 0),
       free_headers_head := kernel_heap_base s,
       heap_start := ALIGN_UP KERNEL_HEAP_VIRTUAL_START,
       heap_end := ALIGN_DOWN KERNEL_HEAP_VIRTUAL_END,
       heap_break := ALIGN_UP KERNEL_HEAP_VIRTUAL_START\<rparr>"


section \<open>The free list\<close>

text \<open>The pointers of \<open>xs\<close> lead through the list and from its last element to \<open>e\<close>.\<close>

fun chain :: "(u32 \<Rightarrow> u32) \<Rightarrow> u32 list \<Rightarrow> u32 \<Rightarrow> bool" where
  "chain nxt [] e = True"
| "chain nxt [x] e = (nxt x = e)"
| "chain nxt (x # y # zs) e = (nxt x = y \<and> chain nxt (y # zs) e)"

lemma chain_Cons: "chain nxt (x # xs) e \<longleftrightarrow> nxt x = hd (xs @ [e]) \<and> chain nxt xs e"
  by (cases xs) auto

lemma chain_append: "chain nxt (xs @ ys) e \<longleftrightarrow> chain nxt xs (hd (ys @ [e])) \<and> chain nxt ys e"
proof (induction xs)
  case (Cons x xs)
  then show ?case by (cases xs; cases ys) (auto simp: chain_Cons)
qed simp

lemma chain_update: "y \<notin> set xs \<Longrightarrow> chain (nxt(y := v)) xs e = chain nxt xs e"
  by (induction xs) (auto simp: chain_Cons)

text \<open>Blocks in address order with a gap between neighbours.\<close>

definition block_end :: "(u32 \<Rightarrow> u32) \<Rightarrow> u32 \<Rightarrow> nat" where
  "block_end sz x = unat x + 8 * unat (sz x)"

definition apart :: "(u32 \<Rightarrow> u32) \<Rightarrow> u32 \<Rightarrow> u32 \<Rightarrow> bool" where
  "apart sz x y \<longleftrightarrow> block_end sz x < unat y"

lemma apart_less: "apart sz x y \<Longrightarrow> x < y"
  by (simp add: apart_def block_end_def word_less_nat_alt)

section \<open>The search for the place of a released block\<close>

lemma find_location_below:
  assumes "chain nxt (us @ x # ws @ vs) b" "sorted_wrt (<) (us @ x # ws @ vs)" "hd (us @ [x]) = b"
    "\<forall>y \<in> set (x # ws). y < h" "\<forall>y \<in> set vs. h < y"
  shows "find_location nxt h x = Some (last (x # ws))"
  using assms
proof (induction ws arbitrary: us x)
  case Nil
  have n: "nxt x = hd (vs @ [b])" using Nil.prems(1) by (simp add: chain_append chain_Cons)
  have "b \<le> x" using Nil.prems(2,3) by (cases us) (auto simp: less_imp_le)
  then show ?case
    using Nil.prems(4,5) n by (cases vs) (auto simp: find_location.simps [of nxt h x] Let_def)
next
  case (Cons y ws)
  have n: "nxt x = y" using Cons.prems(1) by (simp add: chain_append chain_Cons)
  have "x < y" using Cons.prems(2) by (auto simp: sorted_wrt_append)
  moreover have "find_location nxt h y = Some (last (y # ws))"
    using Cons.prems by (intro Cons.IH [of "us @ [x]"]) (auto simp: hd_append)
  ultimately show ?case
    using Cons.prems(4) n by (auto simp: find_location.simps [of nxt h x] Let_def)
qed

lemma find_location_above:
  assumes "chain nxt (us @ x # ws) b" "sorted_wrt (<) (us @ x # ws)" "\<forall>y \<in> set (x # ws). h < y" "b < h"
  shows "find_location nxt h x = find_location nxt h b"
  using assms
proof (induction ws arbitrary: us x)
  case Nil
  have n: "nxt x = b" using Nil.prems(1) by (simp add: chain_append)
  then show ?case
    using Nil.prems(3,4) by (subst find_location.simps) (auto simp: Let_def)
next
  case (Cons y ws)
  have n: "nxt x = y" using Cons.prems(1) by (simp add: chain_append chain_Cons)
  have "x < y" using Cons.prems(2) by (auto simp: sorted_wrt_append)
  moreover have "find_location nxt h y = find_location nxt h b"
    using Cons.prems by (intro Cons.IH [of "us @ [x]"]) auto
  ultimately show ?case
    using Cons.prems(3) n by (subst find_location.simps) (auto simp: Let_def)
qed

lemma find_location_finds:
  assumes c: "chain nxt (b # as) b" and s: "sorted_wrt (<) (b # as)" and h: "b < h" "h \<notin> set as"
    and start: "x \<in> set (b # as)"
  obtains us loc vs where "b # as = us @ loc # vs" "find_location nxt h x = Some loc"
    "\<forall>y \<in> set (us @ [loc]). y < h" "\<forall>y \<in> set vs. h < y"
proof -
  let ?L = "b # as"
  define ps vs where "ps = takeWhile (\<lambda>y. y < h) ?L" and "vs = dropWhile (\<lambda>y. y < h) ?L"
  have L: "?L = ps @ vs" by (simp add: ps_def vs_def)
  have pne: "ps \<noteq> []" using h by (simp add: ps_def)
  have below: "\<forall>y \<in> set ps. y < h" unfolding ps_def by (metis set_takeWhileD)
  have above: "\<forall>y \<in> set vs. h < y"
  proof (cases vs)
    case (Cons v vs')
    have "\<not> v < h" using Cons vs_def by (metis hd_dropWhile list.sel(1) list.distinct(1))
    moreover have "v \<noteq> h"
    proof -
      have "v \<in> set (b # as)" unfolding L Cons by simp
      then show ?thesis using h by auto
    qed
    ultimately have "h < v" by simp
    moreover have "sorted_wrt (<) (v # vs')" using s L Cons by (metis sorted_wrt_append)
    ultimately show ?thesis using Cons by (auto intro: less_trans)
  qed simp
  obtain us loc where ps: "ps = us @ [loc]" using pne by (metis rev_exhaust)
  have from_b: "find_location nxt h b = Some loc"
  proof -
    obtain ws where ws: "ps = b # ws" using L pne by (metis Cons_eq_append_conv)
    have "find_location nxt h b = Some (last (b # ws))"
      by (rule find_location_below [of _ "[]" _ ws vs b]) (use c s L ws below above in auto)
    moreover have "last (b # ws) = loc" using ws ps by (metis last_snoc)
    ultimately show ?thesis by (simp only:)
  qed
  have "find_location nxt h x = Some loc"
  proof -
    consider "x \<in> set ps" | "x \<in> set vs" using start L by auto
    then show ?thesis
    proof cases
      case 1
      then obtain us' ws where ps': "ps = us' @ x # ws" by (meson split_list)
      have "hd (us' @ [x]) = b" using ps' L by (metis append_is_Nil_conv hd_append list.sel(1) not_Cons_self2 append_Cons append_Nil)
      then have "find_location nxt h x = Some (last (x # ws))"
        by (intro find_location_below [of _ us' _ ws vs b]) (use c s L ps' below above in auto)
      then show ?thesis using ps ps' by (metis last_append last_snoc list.distinct(1))
    next
      case 2
      then obtain us' ws where vs': "vs = us' @ x # ws" by (meson split_list)
      then have "find_location nxt h x = find_location nxt h b"
        by (intro find_location_above [of _ "ps @ us'" _ ws b]) (use c s L above h in auto)
      then show ?thesis using from_b by simp
    qed
  qed
  then show thesis using that [of us loc vs] L ps below above by auto
qed

section \<open>Well-formed heaps\<close>

definition heap_wf :: "'a heap_machine_scheme \<Rightarrow> u32 list \<Rightarrow> bool" where
  "heap_wf s as \<longleftrightarrow>
     chain (hdr_next s) (kernel_heap_base s # as) (kernel_heap_base s) \<and>
     sorted_wrt (apart (hdr_size s)) (kernel_heap_base s # as) \<and>
     hdr_size s (kernel_heap_base s) = 0 \<and> free_headers_head s \<in> set (kernel_heap_base s # as) \<and>
     unat (kernel_heap_base s) < unat (heap_start s) \<and>
     (\<forall>a \<in> set as. 0 < hdr_size s a \<and> heap_start s \<le> a \<and> block_end (hdr_size s) a \<le> unat (heap_break s))"

text \<open>The bytes of a block, and of all free blocks.\<close>

definition block_bytes :: "(u32 \<Rightarrow> u32) \<Rightarrow> u32 \<Rightarrow> nat set" where
  "block_bytes sz a = {unat a ..< block_end sz a}"

definition free_bytes :: "'a heap_machine_scheme \<Rightarrow> u32 list \<Rightarrow> nat set" where
  "free_bytes s as = (\<Union>a \<in> set as. block_bytes (hdr_size s) a)"

text \<open>A block outside the free list, as \<^verbatim>\<open>malloc\<close> has handed it out.\<close>

definition allocated_block :: "'a heap_machine_scheme \<Rightarrow> u32 list \<Rightarrow> u32 \<Rightarrow> bool" where
  "allocated_block s as h \<longleftrightarrow> 0 < hdr_size s h \<and> heap_start s \<le> h \<and>
     block_end (hdr_size s) h \<le> unat (heap_break s) \<and> block_bytes (hdr_size s) h \<inter> free_bytes s as = {}"

lemma unat_hdr_plus:
  "unat h + 8 * unat n < 2 ^ 32 \<Longrightarrow> unat (hdr_plus h n) = unat h + 8 * unat n"
  by (simp add: hdr_plus_def sizeof_header_def unat_word_ariths mult.commute)

lemma hdr_plus_block:
  "block_end sz h < 2 ^ 32 \<Longrightarrow> hdr_plus h (sz h) = y \<longleftrightarrow> block_end sz h = unat y"
  by (metis block_end_def unat_hdr_plus unsigned_word_eqI)

lemma allocated_apart:
  assumes wf: "heap_wf s as" and al: "allocated_block s as h" and a: "a \<in> set as"
  shows "block_end (hdr_size s) a \<le> unat h \<and> a < h \<or> block_end (hdr_size s) h \<le> unat a \<and> h < a"
proof -
  let ?sz = "hdr_size s"
  have pos: "0 < unat (?sz h)" "0 < unat (?sz a)"
    using wf al a by (auto simp: heap_wf_def allocated_block_def word_less_nat_alt)
  have "block_bytes ?sz h \<inter> block_bytes ?sz a = {}"
    using al a by (auto simp: allocated_block_def free_bytes_def)
  then have "block_end ?sz a \<le> unat h \<or> block_end ?sz h \<le> unat a"
    using pos by (auto simp: block_bytes_def block_end_def)
  then show ?thesis using pos by (auto simp: block_end_def word_less_nat_alt)
qed

section \<open>Merging\<close>

lemma kernel_heap_free_eq:
  assumes "h + sizeof_header \<noteq> 0" "find_location (hdr_next s) h (free_headers_head s) = Some loc"
    "merge_next (hdr_next s) (hdr_size s) h loc = (nx1, sz1)" "merge_prev nx1 sz1 h loc = (nx2, sz2)"
  shows "kernel_heap_free (h + sizeof_header) s =
    Some (s\<lparr>hdr_next := nx2, hdr_size := sz2, free_headers_head := loc\<rparr>)"
  using assms by (simp add: kernel_heap_free_def)

lemma block_end_sum:
  "unat h + 8 * (unat x + unat y) < 2 ^ 32 \<Longrightarrow> block_end (sz(h := x + y)) h = unat h + 8 * (unat x + unat y)"
  by (simp add: block_end_def unat_word_ariths)

lemma merge_next_result:
  assumes c: "chain nxt (loc # vs) b" and so: "sorted_wrt (apart sz) vs" and h: "b < h" "h \<notin> set vs"
    and after: "\<forall>y \<in> set vs. block_end sz h \<le> unat y"
    and B: "block_end sz h \<le> B" "\<forall>y \<in> set vs. block_end sz y \<le> B" "B < 2 ^ 32"
    and m: "merge_next nxt sz h loc = (nx1, sz1)"
  obtains ws c where "nx1 = nxt(h := hd (ws @ [b]))" "sz1 = sz(h := c)" "chain nxt ws b" "set ws \<subseteq> set vs"
    "sorted_wrt (apart sz) ws" "\<forall>y \<in> set ws. block_end sz1 h < unat y" "block_end sz h \<le> block_end sz1 h"
    "block_end sz1 h \<le> B"
    "{unat h ..< block_end sz1 h} \<union> (\<Union>y \<in> set ws. block_bytes sz y) =
     {unat h ..< block_end sz h} \<union> (\<Union>y \<in> set vs. block_bytes sz y)"
proof (cases "vs \<noteq> [] \<and> block_end sz h = unat (hd vs)")
  case True
  then obtain v vs' where vs: "vs = v # vs'" and eq: "block_end sz h = unat v" by (cases vs) auto
  have n: "nxt loc = v" "nxt v = hd (vs' @ [b])" "chain nxt vs' b"
    using c vs by (auto simp: chain_Cons)
  have "hdr_plus h (sz h) = v" using eq B by (simp add: hdr_plus_block)
  then have m': "nx1 = nxt(h := hd (vs' @ [b]))" "sz1 = sz(h := sz h + sz v)"
    using m n by (simp_all add: merge_next_def)
  have Bv: "block_end sz v \<le> B" using B(2) vs by simp
  have sum: "unat h + 8 * (unat (sz h) + unat (sz v)) = block_end sz v" using eq by (simp add: block_end_def)
  then have e1: "block_end sz1 h = block_end sz v"
    using block_end_sum [of h "sz h" "sz v" sz] Bv B(3) by (simp add: m'(2))
  show thesis
  proof (rule that [OF m' n(3)])
    show "\<forall>y \<in> set vs'. block_end sz1 h < unat y" using so vs e1 by (auto simp: apart_def)
    show "{unat h ..< block_end sz1 h} \<union> (\<Union>y \<in> set vs'. block_bytes sz y) =
        {unat h ..< block_end sz h} \<union> (\<Union>y \<in> set vs. block_bytes sz y)"
    proof -
      have "unat h \<le> block_end sz h" "block_end sz h \<le> block_end sz v"
        using eq by (auto simp: block_end_def)
      then have "{unat h ..< block_end sz h} \<union> block_bytes sz v = {unat h ..< block_end sz1 h}"
        unfolding e1 block_bytes_def eq [symmetric] by (rule ivl_disj_un_two(3))
      then show ?thesis using vs by auto
    qed
  qed (use vs so e1 Bv eq in \<open>auto simp: block_end_def\<close>)
next
  case False
  have n: "nxt loc = hd (vs @ [b])" "chain nxt vs b" using c by (auto simp: chain_Cons)
  have "hdr_plus h (sz h) \<noteq> nxt loc"
  proof (cases vs)
    case Nil
    have "unat b < block_end sz h" using h(1) by (simp add: block_end_def word_less_nat_alt)
    then show ?thesis using Nil n B by (simp add: hdr_plus_block)
  next
    case (Cons v vs')
    then show ?thesis using False n B by (simp add: hdr_plus_block)
  qed
  then have m': "nx1 = nxt(h := hd (vs @ [b]))" "sz1 = sz(h := sz h)" using m n by (simp_all add: merge_next_def)
  have "\<forall>y \<in> set vs. block_end sz h < unat y"
  proof (cases vs)
    case (Cons v vs')
    then have "block_end sz h < unat v" using False after by (auto simp: le_less)
    moreover have "\<forall>y \<in> set vs'. unat v < unat y" using so Cons by (auto simp: apart_def block_end_def)
    ultimately show ?thesis using Cons by auto
  qed simp
  then show thesis by (intro that [OF m' n(2)]) (use so B m' in auto)
qed

lemma block_end_upd: "x \<noteq> h \<Longrightarrow> block_end (sz(h := c)) x = block_end sz x"
  by (simp add: block_end_def)

lemma sorted_apart_upd: "h \<notin> set xs \<Longrightarrow> sorted_wrt (apart (sz(h := c))) xs = sorted_wrt (apart sz) xs"
  by (induction xs) (auto simp: apart_def block_end_upd)

lemma bytes_upd: assumes "h \<notin> A" shows "(\<Union>y \<in> A. block_bytes (sz(h := c)) y) = (\<Union>y \<in> A. block_bytes sz y)"
proof (rule SUP_cong)
  fix y assume "y \<in> A"
  with assms have "y \<noteq> h" by blast
  then show "block_bytes (sz(h := c)) y = block_bytes sz y" by (simp add: block_bytes_def block_end_upd)
qed simp

lemma merge_prev_result:
  assumes pre: "chain nx1 (us @ [loc]) e" "sorted_wrt (apart sz1) (us @ [loc])" "loc \<notin> set us"
    and post: "chain nx1 ws b" "sorted_wrt (apart sz1) ws" "nx1 h = hd (ws @ [b])"
      "\<forall>y \<in> set ws. block_end sz1 h < unat y" "h \<notin> set ws" "loc \<notin> set ws"
    and h: "loc < h" "block_end sz1 loc \<le> unat h" "h \<notin> set us" "h \<noteq> loc" "block_end sz1 h < 2 ^ 32"
    and us: "\<forall>y \<in> set us. block_end sz1 y < unat loc"
    and m: "merge_prev nx1 sz1 h loc = (nx2, sz2)"
  obtains ks c where "chain nx2 (us @ ks @ ws) b" "sorted_wrt (apart sz2) (us @ ks @ ws)"
    "ks = [loc] \<or> ks = [loc, h]" "sz2 = sz1(loc := c)" "ks = [loc, h] \<longrightarrow> c = sz1 loc"
    "block_bytes sz1 loc \<union> {unat h ..< block_end sz1 h} = (\<Union>y \<in> set ks. block_bytes sz2 y)"
    "\<forall>y \<in> set ks. block_end sz2 y \<le> max (block_end sz1 loc) (block_end sz1 h) \<and> (sz1 loc \<le> c)"
    "ks = [loc] \<longrightarrow> sz1 h \<le> c"
proof (cases "block_end sz1 loc = unat h")
  case True
  have far: "block_end sz1 y < unat z" if "y \<in> set us" "z \<in> set ws" for y z
  proof -
    have "block_end sz1 y < unat loc" "block_end sz1 h < unat z" using us post(4) that by auto
    moreover have "unat loc \<le> unat h" "unat h \<le> block_end sz1 h"
      using h(2) by (auto simp: block_end_def)
    ultimately show ?thesis by linarith
  qed
  have usne: "y \<noteq> loc" if "y \<in> set us" for y using that pre(3) by blast
  have "block_end sz1 loc < 2 ^ 32" using True unat_u32 [of h] by simp
  then have m': "nx2 = nx1(loc := nx1 h)" "sz2 = sz1(loc := sz1 loc + sz1 h)"
    using m True by (auto simp: merge_prev_def hdr_plus_block)
  have sum: "unat loc + 8 * (unat (sz1 loc) + unat (sz1 h)) = block_end sz1 h"
    using True by (simp add: block_end_def)
  then have e: "block_end sz2 loc = block_end sz1 h"
    using block_end_sum [of loc "sz1 loc" "sz1 h" sz1] h(5) by (simp add: m'(2))
  have nw: "sz1 loc \<le> sz1 loc + sz1 h" "sz1 h \<le> sz1 loc + sz1 h"
    using sum h(5) by (simp_all add: word_le_nat_alt unat_word_ariths)
  show thesis
  proof (rule that [of "[loc]" "sz1 loc + sz1 h"])
    show "chain nx2 (us @ [loc] @ ws) b"
      using pre(1,3) post(1,3,6) by (simp add: m'(1) chain_append chain_Cons chain_update)
    show "sorted_wrt (apart sz2) (us @ [loc] @ ws)"
    proof -
      have "sorted_wrt (apart sz2) us" "sorted_wrt (apart sz2) ws"
        using pre(2,3) post(2,6) by (simp_all add: m'(2) sorted_wrt_append sorted_apart_upd)
      moreover have "apart sz2 loc z" if "z \<in> set ws" for z using that post(4) e by (simp add: apart_def)
      moreover have "apart sz2 y z" if "y \<in> set us" "z \<in> set ([loc] @ ws)" for y z
        using that us far usne [OF that(1)] by (auto simp: apart_def m'(2) block_end_upd)
      ultimately show ?thesis by (simp add: sorted_wrt_append)
    qed
    show "block_bytes sz1 loc \<union> {unat h ..< block_end sz1 h} = (\<Union>y \<in> set [loc]. block_bytes sz2 y)"
      using True e by (auto simp: block_bytes_def block_end_def)
  qed (use m' e nw in auto)
next
  case False
  have "block_end sz1 loc < 2 ^ 32" using h(2) unat_u32 [of h] by simp
  then have m': "nx2 = nx1(loc := h)" "sz2 = sz1"
    using m False by (auto simp: merge_prev_def hdr_plus_block)
  have lt: "block_end sz1 loc < unat h" using False h(2) by simp
  show thesis
  proof (rule that [of "[loc, h]" "sz1 loc"])
    show "chain nx2 (us @ [loc, h] @ ws) b"
      using pre(1,3) post(1,3,6) h(3,4) by (simp add: m'(1) chain_append chain_Cons chain_update)
    show "sorted_wrt (apart sz2) (us @ [loc, h] @ ws)"
    proof -
      have "unat loc \<le> block_end sz1 loc" "unat h \<le> block_end sz1 h" by (simp_all add: block_end_def)
      then have "apart sz1 y z" if "y \<in> set us" "z \<in> set ([loc, h] @ ws)" for y z
        using that us post(4) lt by (fastforce simp: apart_def)
      moreover have "apart sz1 loc z" if "z \<in> set ws" for z
        using that post(4) lt \<open>unat h \<le> block_end sz1 h\<close> by (fastforce simp: apart_def)
      ultimately show ?thesis
        using pre(2) post(2,4) lt by (simp add: m'(2) sorted_wrt_append apart_def)
    qed
  qed (use m' lt in \<open>auto simp: block_bytes_def\<close>)
qed

section \<open>Releasing a block\<close>

lemma heap_wfD:
  assumes "heap_wf s as"
  shows "chain (hdr_next s) (kernel_heap_base s # as) (kernel_heap_base s)"
    "sorted_wrt (apart (hdr_size s)) (kernel_heap_base s # as)" "hdr_size s (kernel_heap_base s) = 0"
    "free_headers_head s \<in> set (kernel_heap_base s # as)" "kernel_heap_base s < heap_start s"
    "a \<in> set as \<Longrightarrow> 0 < hdr_size s a" "a \<in> set as \<Longrightarrow> heap_start s \<le> a"
    "a \<in> set as \<Longrightarrow> block_end (hdr_size s) a \<le> unat (heap_break s)"
    "sorted_wrt (<) (kernel_heap_base s # as)" "distinct (kernel_heap_base s # as)"
proof -
  show "chain (hdr_next s) (kernel_heap_base s # as) (kernel_heap_base s)"
    and so: "sorted_wrt (apart (hdr_size s)) (kernel_heap_base s # as)" and "hdr_size s (kernel_heap_base s) = 0"
    "free_headers_head s \<in> set (kernel_heap_base s # as)" "kernel_heap_base s < heap_start s"
    "a \<in> set as \<Longrightarrow> 0 < hdr_size s a" "a \<in> set as \<Longrightarrow> heap_start s \<le> a"
    "a \<in> set as \<Longrightarrow> block_end (hdr_size s) a \<le> unat (heap_break s)"
    using assms unfolding heap_wf_def by (auto simp: word_less_nat_alt)
  show lt: "sorted_wrt (<) (kernel_heap_base s # as)"
    by (rule sorted_wrt_mono_rel [OF _ so]) (rule apart_less)
  then show "distinct (kernel_heap_base s # as)" by (metis strict_sorted_iff)
qed

lemma free_merge:
  assumes wf: "heap_wf s as" and al: "allocated_block s as h"
  obtains nx sz loc us ks ws vs where "kernel_heap_free (h + sizeof_header) s =
      Some (s\<lparr>hdr_next := nx, hdr_size := sz, free_headers_head := loc\<rparr>)"
    "kernel_heap_base s # as = us @ loc # vs" "ks = [loc] \<or> ks = [loc, h]"
    "\<forall>y \<in> set vs. h < y" "set ws \<subseteq> set vs"
    "chain nx (us @ ks @ ws) (kernel_heap_base s)" "sorted_wrt (apart sz) (us @ ks @ ws)"
    "\<forall>x. x \<noteq> loc \<longrightarrow> x \<noteq> h \<longrightarrow> sz x = hdr_size s x" "hdr_size s loc \<le> sz loc"
    "ks = [loc, h] \<longrightarrow> sz loc = hdr_size s loc \<and> hdr_size s h \<le> sz h" "ks = [loc] \<longrightarrow> hdr_size s h \<le> sz loc"
    "\<forall>y \<in> set ks. block_end sz y \<le> unat (heap_break s)"
    "(\<Union>y \<in> set (us @ ks @ ws). block_bytes sz y) =
       (\<Union>y \<in> set (kernel_heap_base s # as). block_bytes (hdr_size s) y) \<union> block_bytes (hdr_size s) h"
proof -
  let ?b = "kernel_heap_base s" and ?sz = "hdr_size s" and ?nx = "hdr_next s"
  note W = heap_wfD [OF wf]
  have A: "0 < ?sz h" "heap_start s \<le> h" "block_end ?sz h \<le> unat (heap_break s)"
    using al by (auto simp: allocated_block_def)
  have bh: "?b < h" using W(5) A(2) by simp
  have hn: "h \<notin> set as" using allocated_apart [OF wf al] by blast
  obtain us loc vs where L: "?b # as = us @ loc # vs" "find_location ?nx h (free_headers_head s) = Some loc"
    "\<forall>y \<in> set (us @ [loc]). y < h" "\<forall>y \<in> set vs. h < y"
    by (rule find_location_finds [OF W(1,9) bh hn W(4)])
  obtain nx1 sz1 where m1: "merge_next ?nx ?sz h loc = (nx1, sz1)" by force
  obtain nx2 sz2 where m2: "merge_prev nx1 sz1 h loc = (nx2, sz2)" by force
  have Bu: "unat (heap_break s) < 2 ^ 32" using unat_u32 by simp
  have vs_as: "set vs \<subseteq> set as" using L(1) by (cases us) auto
  have chainL: "chain ?nx (us @ [loc]) (hd (vs @ [?b]))" "chain ?nx (loc # vs) ?b"
    using W(1) L(1) by (auto simp: chain_append chain_Cons)
  have soL: "sorted_wrt (apart ?sz) (us @ [loc])" "sorted_wrt (apart ?sz) vs"
    "\<forall>y \<in> set us. block_end ?sz y < unat loc"
    using W(2) unfolding L(1) by (auto simp: sorted_wrt_append apart_def)
  have dist: "loc \<notin> set us" "loc \<notin> set vs" "h \<notin> set us" "h \<noteq> loc" "h \<notin> set vs" "set us \<inter> set vs = {}"
    using W(10) L(1,3,4) by auto
  obtain ws c where ws: "nx1 = ?nx(h := hd (ws @ [?b]))" "sz1 = ?sz(h := c)" "chain ?nx ws ?b" "set ws \<subseteq> set vs"
    "sorted_wrt (apart ?sz) ws" "\<forall>y \<in> set ws. block_end sz1 h < unat y" "block_end ?sz h \<le> block_end sz1 h"
    "block_end sz1 h \<le> unat (heap_break s)"
    "{unat h ..< block_end sz1 h} \<union> (\<Union>y \<in> set ws. block_bytes ?sz y) =
     {unat h ..< block_end ?sz h} \<union> (\<Union>y \<in> set vs. block_bytes ?sz y)"
  proof (rule merge_next_result [OF chainL(2) soL(2) bh dist(5) _ A(3) _ Bu m1])
    show "\<forall>y \<in> set vs. block_end ?sz h \<le> unat y"
      using allocated_apart [OF wf al] L(4) vs_as by (metis less_asym' subsetD)
    show "\<forall>y \<in> set vs. block_end ?sz y \<le> unat (heap_break s)" using W(8) vs_as by blast
  qed blast
  have w_vs: "loc \<notin> set ws" "h \<notin> set ws" "set us \<inter> set ws = {}" using ws(4) dist by auto
  have sz1: "sz1 x = ?sz x" "block_end sz1 x = block_end ?sz x" if "x \<noteq> h" for x
    using that by (simp_all add: ws(2) block_end_upd)
  have c_h: "?sz h \<le> sz1 h" using ws(7) by (simp add: block_end_def word_le_nat_alt)
  have loc_h: "block_end ?sz loc \<le> unat h"
  proof (cases us)
    case Nil
    then show ?thesis using L(1) W(3) bh by (simp add: block_end_def word_less_nat_alt less_imp_le)
  next
    case (Cons u us')
    then have "loc \<in> set as" using L(1) by auto
    then show ?thesis using allocated_apart [OF wf al] L(3) by (metis in_set_conv_decomp less_asym')
  qed
  obtain ks c2 where ks: "chain nx2 (us @ ks @ ws) ?b" "sorted_wrt (apart sz2) (us @ ks @ ws)"
    "ks = [loc] \<or> ks = [loc, h]" "sz2 = sz1(loc := c2)" "ks = [loc, h] \<longrightarrow> c2 = sz1 loc"
    "block_bytes sz1 loc \<union> {unat h ..< block_end sz1 h} = (\<Union>y \<in> set ks. block_bytes sz2 y)"
    "\<forall>y \<in> set ks. block_end sz2 y \<le> max (block_end sz1 loc) (block_end sz1 h) \<and> (sz1 loc \<le> c2)"
    "ks = [loc] \<longrightarrow> sz1 h \<le> c2"
  proof (rule merge_prev_result [OF _ _ dist(1) _ _ _ ws(6) w_vs(2,1) _ _ dist(3,4) _ _ m2])
    show "chain nx1 (us @ [loc]) (hd (vs @ [?b]))" "chain nx1 ws ?b"
      using chainL(1) ws(3) dist w_vs by (simp_all add: ws(1) chain_update)
    show "sorted_wrt (apart sz1) (us @ [loc])" "sorted_wrt (apart sz1) ws"
      using soL(1) ws(5) dist w_vs by (simp_all add: ws(2) sorted_apart_upd)
    show "\<forall>y \<in> set us. block_end sz1 y < unat loc" using soL(3) dist(3) sz1(2) by metis
    show "block_end sz1 loc \<le> unat h" using loc_h sz1(2) dist(4) by metis
    show "block_end sz1 h < 2 ^ 32" using ws(8) Bu by linarith
  qed (use L(3) ws(1) in auto)
  have hnz: "h + sizeof_header \<noteq> 0"
  proof -
    have "unat h + 8 \<le> block_end ?sz h" using A(1) by (simp add: block_end_def word_less_nat_alt)
    then have "unat (h + sizeof_header) = unat h + 8"
      using A(3) Bu by (simp add: sizeof_header_def unat_word_ariths)
    then show ?thesis by (metis add_is_0 unat_0 zero_neq_numeral)
  qed
  have keep: "(\<Union>y \<in> set us. block_bytes sz2 y) = (\<Union>y \<in> set us. block_bytes ?sz y)"
    "(\<Union>y \<in> set ws. block_bytes sz2 y) = (\<Union>y \<in> set ws. block_bytes ?sz y)"
    using dist(1,3) w_vs(1,2) by (simp_all add: ks(4) ws(2) bytes_upd)
  have bytes: "(\<Union>y \<in> set (us @ ks @ ws). block_bytes sz2 y) =
      (\<Union>y \<in> set (?b # as). block_bytes ?sz y) \<union> block_bytes ?sz h"
  proof -
    have "block_bytes sz1 loc = block_bytes ?sz loc" using sz1(2) [of loc] dist(4) by (simp add: block_bytes_def)
    then have "(\<Union>y \<in> set (us @ ks @ ws). block_bytes sz2 y) =
        (\<Union>y \<in> set us. block_bytes ?sz y) \<union> block_bytes ?sz loc \<union>
        ({unat h ..< block_end sz1 h} \<union> (\<Union>y \<in> set ws. block_bytes ?sz y))"
      using ks(6) keep by (auto simp del: UN_iff)
    then show ?thesis unfolding ws(9) L(1) by (auto simp: block_bytes_def)
  qed
  show thesis
  proof (rule that [OF kernel_heap_free_eq [OF hnz L(2) m1 m2] L(1) ks(3) L(4) ws(4) ks(1,2) _ _ _ _ _ bytes])
    show "\<forall>y \<in> set ks. block_end sz2 y \<le> unat (heap_break s)"
    proof -
      have "unat h \<le> block_end ?sz h" by (simp add: block_end_def)
      then have "max (block_end sz1 loc) (block_end sz1 h) \<le> unat (heap_break s)"
        using loc_h sz1(2) [of loc] dist(4) ws(8) A(3) by simp
      then show ?thesis using ks(7) by (meson order_trans)
    qed
    show "?sz loc \<le> sz2 loc" using ks(3,4,7) sz1(1) [of loc] dist(4) by auto
    show "ks = [loc, h] \<longrightarrow> sz2 loc = ?sz loc \<and> ?sz h \<le> sz2 h"
      using ks(4,5) sz1(1) [of loc] dist(4) c_h by simp
    show "ks = [loc] \<longrightarrow> ?sz h \<le> sz2 loc" using ks(4,8) c_h by auto
  qed (simp add: ks(4) ws(2))
qed

lemma kernel_heap_free_correct:
  assumes wf: "heap_wf s as" and al: "allocated_block s as h"
  obtains nx sz loc us ks ws vs as' where "kernel_heap_free (h + sizeof_header) s =
      Some (s\<lparr>hdr_next := nx, hdr_size := sz, free_headers_head := loc\<rparr>)"
    "heap_wf (s\<lparr>hdr_next := nx, hdr_size := sz, free_headers_head := loc\<rparr>) as'"
    "free_bytes (s\<lparr>hdr_next := nx, hdr_size := sz, free_headers_head := loc\<rparr>) as' =
       free_bytes s as \<union> block_bytes (hdr_size s) h"
    "kernel_heap_base s # as = us @ loc # vs" "kernel_heap_base s # as' = us @ ks @ ws"
    "ks = [loc] \<or> ks = [loc, h]" "\<forall>y \<in> set vs. h < y" "set ws \<subseteq> set vs"
    "\<forall>x. x \<noteq> loc \<longrightarrow> x \<noteq> h \<longrightarrow> sz x = hdr_size s x" "hdr_size s loc \<le> sz loc"
    "ks = [loc, h] \<longrightarrow> hdr_size s h \<le> sz h" "ks = [loc] \<longrightarrow> hdr_size s h \<le> sz loc"
proof -
  let ?b = "kernel_heap_base s"
  note W = heap_wfD [OF wf]
  have A: "0 < hdr_size s h" "heap_start s \<le> h" using al by (auto simp: allocated_block_def)
  have bh: "?b < h" using W(5) A(2) by simp
  show thesis using wf al
  proof (cases rule: free_merge)
    case M: (1 nx sz loc us ks ws vs)
    define as' where "as' = tl (us @ ks @ ws)"
    let ?s = "s\<lparr>hdr_next := nx, hdr_size := sz, free_headers_head := loc\<rparr>"
    have L': "?b # as' = us @ ks @ ws" using M(2,3) unfolding as'_def by (cases us) auto
    have vs_as: "set vs \<subseteq> set as" using M(2) by (cases us) auto
    have base: "sz ?b = 0"
    proof (cases "loc = ?b")
      case True
      have "ks = [loc, h]"
      proof (rule ccontr)
        assume "ks \<noteq> [loc, h]"
        then have one: "ks = [loc]" using M(3) by blast
        have "us = []" using True W(10) M(2) by (cases us) auto
        have "unat ?b \<in> block_bytes sz ?b"
          using M(11) one A(1) True by (auto simp: block_bytes_def block_end_def word_less_nat_alt word_le_nat_alt)
        then have "unat ?b \<in> (\<Union>y \<in> set (?b # as). block_bytes (hdr_size s) y) \<union> block_bytes (hdr_size s) h"
          using M(13) one True by auto
        moreover have "\<forall>y \<in> set (h # as). unat ?b < unat y"
          using bh W(9) by (auto simp: word_less_nat_alt)
        ultimately show False using W(3) by (auto simp: block_bytes_def block_end_def)
      qed
      then show ?thesis using M(10) True W(3) by simp
    qed (use M(8) bh W(3) in auto)
    have inner: "0 < sz a \<and> heap_start s \<le> a \<and> block_end sz a \<le> unat (heap_break s)" if a: "a \<in> set as'" for a
    proof -
      have nb: "a \<noteq> ?b" using a M(7) L' apart_less by (metis less_irrefl sorted_wrt.simps(2))
      have "a \<in> set us \<union> set ks \<union> set ws" using a L' by (metis Un_iff list.set_intros(2) set_append)
      then consider "a \<in> set as" "a \<noteq> loc" "a \<noteq> h" | "a = loc" "a \<in> set ks" "a \<in> set as" | "a = h" "ks = [loc, h]"
      proof -
        have sub: "set us \<union> {loc} \<union> set vs = insert ?b (set as)" using M(2) by (metis Un_insert_right list.simps(15) set_append sup_bot.right_neutral Un_assoc insert_is_Un)
        have "h \<notin> set as" using allocated_apart [OF wf al] by blast
        moreover have "loc \<notin> set us \<union> set vs" using W(10) M(2) by auto
        ultimately show thesis
          using \<open>a \<in> set us \<union> set ks \<union> set ws\<close> M(3,5) nb sub that by auto
      qed
      then show ?thesis
      proof cases
        case 1
        then show ?thesis using M(8) W(6-8) [of a] by (simp add: block_end_def)
      next
        case 2
        then show ?thesis using M(9,12) W(6,7) [of a] by auto
      next
        case 3
        then show ?thesis using M(10,12) A by auto
      qed
    qed
    have "chain nx (?b # as') ?b" "sorted_wrt (apart sz) (?b # as')" using M(6,7) unfolding L' by simp_all
    moreover have "loc \<in> set (?b # as')" using M(3) unfolding L' by auto
    ultimately have "heap_wf ?s as'"
      unfolding heap_wf_def using base W(5) inner by (simp del: chain.simps add: word_less_nat_alt)
    moreover have "free_bytes ?s as' = free_bytes s as \<union> block_bytes (hdr_size s) h"
      using M(13) base W(3) unfolding L' [symmetric] by (simp add: free_bytes_def block_bytes_def block_end_def)
    ultimately show thesis
      by (rule that [OF M(1) _ _ M(2) L' M(3-5,8,9) _ M(11)]) (use M(10) in blast)
  qed
qed


section \<open>Growing the heap\<close>

text \<open>
  The directory \<open>R\<close> shown at \<open>PD\<close> maps that window itself by the same page table as the current
  directory: the kernel directory is reached through the low window all directories share.
\<close>

definition self_window :: "'a machine_scheme \<Rightarrow> u32 \<Rightarrow> u32 \<Rightarrow> bool" where
  "self_window s PD R \<longleftrightarrow> entry_present (pmem s (entry_at R (page_directory_index PD))) \<and>
     ALIGN_DOWN (pmem s (entry_at R (page_directory_index PD))) =
     ALIGN_DOWN (pmem s (entry_at (cr3 s) (page_directory_index PD)))"

lemma memory_paging_map_keeps_editable:
  assumes ed: "editable s PD R" and sw: "self_window s PD R"
    and d: "page_directory_index va < 1022" "page_directory_index va \<noteq> page_directory_index PD"
  obtains r pm b where "memory_paging_map PD pa va flags s = Some (r, s\<lparr>pmem := pm, memory_bitmap := b\<rparr>)"
    "editable (s\<lparr>pmem := pm, memory_bitmap := b\<rparr>) PD R" "self_window (s\<lparr>pmem := pm, memory_bitmap := b\<rparr>) PD R"
  using ed d(1)
proof (cases rule: memory_paging_map_cases [where pa = pa and flags = flags])
  case fail
  then show thesis using that [of MEMORY_PAGING_RESULT_ALLOCATION_ERROR "memory_bitmap s" "pmem s"] ed sw by simp
next
  case (ok pm b)
  let ?d = "page_directory_index va" and ?t = "page_table_index va"
  let ?dP = "page_directory_index PD" and ?tP = "page_table_index PD"
  let ?T = "ALIGN_DOWN (pm (entry_at R ?d))"
  note E = editableD [OF ed]
  have d1: "?d < 1023" "?d < 1024" using d(1) by (auto intro: less_trans)
  have dP: "?dP < 1024" "?tP < 1024" "?t < 1024" by (rule page_index_bounds)+
  note al = machine_wfD(4) [OF E(2)]
  have p: "entry_present (pm (entry_at R ?d))"
  proof -
    have "leaf pm R ?d ?t = Some (pa OR flags OR PAGE_PRESENT)"
      using ok(2) d1 dP by (simp add: leaf_updated_def)
    then show ?thesis by (auto simp: leaf_def Let_def split: if_splits)
  qed
  have Tc: "?T \<noteq> cr3 s" using companionD(1) [OF ok(5) d1(1) p] .
  have TR: "?T \<noteq> R" using address_spaceD(5) [OF ok(4) d1(1) p] by blast
  have dir: "pm (entry_at R k) = pmem s (entry_at R k)" if "k < 1024" "k \<noteq> ?d" for k
    using that ok(7) [of "entry_at R k"] E(8) d1 dP TR address_spaceD(2) [OF E(5)]
    by (auto simp: entry_at_eq_iff entry_at_frame)
  have cur: "pm (entry_at (cr3 s) ?dP) = pmem s (entry_at (cr3 s) ?dP)"
    using ok(7) [of "entry_at (cr3 s) ?dP"] al E(8) d d1 dP Tc address_spaceD(2) [OF machine_wfD(3) [OF E(2)]]
    by (auto simp: entry_at_eq_iff entry_at_frame)
  let ?W = "ALIGN_DOWN (pmem s (entry_at (cr3 s) ?dP))"
  have pW: "entry_present (pmem s (entry_at (cr3 s) ?dP))"
    using E(3) by (auto simp: window_def leaf_def Let_def split: if_splits)
  have WR: "?W \<noteq> R" using companionD(2) [OF E(6,4) pW] .
  have WU: "?W \<in> used_frames (memory_bitmap s)" using address_spaceD(5) [OF machine_wfD(3) [OF E(2)] E(4) pW] by blast
  have WT: "?W \<noteq> ?T"
  proof
    assume eq: "?W = ?T"
    have "ALIGN_DOWN (pm (entry_at R ?dP)) = ?W" "entry_present (pm (entry_at R ?dP))"
      using sw dir [OF dP(1)] d(2) by (auto simp: self_window_def)
    then show False using address_spaceD(6) [OF ok(4) d1(1) E(4) p] eq d(2) by auto
  qed
  have "pm (entry_at ?W ?tP) = pmem s (entry_at ?W ?tP)"
    using ok(7) [of "entry_at ?W ?tP"] WR WU WT dP E(8) d1 by (auto simp: entry_at_eq_iff entry_at_frame)
  then have "window pm (cr3 s) PD R"
    using E(3) cur by (subst window_cong [where pm = "pmem s"]) (auto simp: walk_words_def)
  then have "editable (s\<lparr>pmem := pm, memory_bitmap := b\<rparr>) PD R"
    using ok(3-5) E(4,7) by (simp add: editable_def)
  moreover have "self_window (s\<lparr>pmem := pm, memory_bitmap := b\<rparr>) PD R"
    using sw dir [OF dP(1)] d(2) cur by (auto simp: self_window_def)
  ultimately show thesis using that ok(1) by blast
qed

lemma allocate_frame_editable:
  assumes ed: "editable s PD R" and sw: "self_window s PD R"
  obtains f b where "allocate_frame s = (f, s\<lparr>memory_bitmap := b\<rparr>)" "editable (s\<lparr>memory_bitmap := b\<rparr>) PD R"
    "self_window (s\<lparr>memory_bitmap := b\<rparr>) PD R"
  using editableD(2) [OF ed]
proof (cases rule: allocate_frame_cases)
  case null
  then show thesis using that [of 0 "memory_bitmap s"] ed sw by simp
next
  case (frame f b)
  have "editable (s\<lparr>pmem := pmem s, memory_bitmap := b\<rparr>) PD R"
    using frame(5) by (intro editable_agree [OF ed _ frame(6)]) (auto simp: agree_on_def)
  then show thesis using that [OF frame(1)] sw by (simp add: self_window_def)
qed

text \<open>Addresses of the heap region.\<close>

definition heap_page :: "u32 \<Rightarrow> bool" where
  "heap_page va \<longleftrightarrow> 0xF0000000 \<le> va \<and> va < 0xF8000000"

lemma heap_page_index:
  assumes "heap_page va"
  shows "960 \<le> page_directory_index va" "page_directory_index va < 1022"
  using assms by (auto simp: heap_page_def word_le_nat_alt word_less_nat_alt unat_page_directory_index)

lemma map_heap_pages_result:
  assumes "editable s PD R" "self_window s PD R" "page_directory_index PD < 960"
    "0xF0000000 \<le> unat address" "unat address + 4096 * n \<le> 0xF8000000"
  shows "\<exists>ok pm b. map_heap_pages n PD flags address s = Some (ok, s\<lparr>pmem := pm, memory_bitmap := b\<rparr>) \<and>
    editable (s\<lparr>pmem := pm, memory_bitmap := b\<rparr>) PD R \<and> self_window (s\<lparr>pmem := pm, memory_bitmap := b\<rparr>) PD R"
  using assms
proof (induction n arbitrary: address s)
  case 0
  then show ?case by (intro exI [of _ True] exI [of _ "pmem s"] exI [of _ "memory_bitmap s"]) simp
next
  case (Suc n)
  obtain f b where a: "allocate_frame s = (f, s\<lparr>memory_bitmap := b\<rparr>)" "editable (s\<lparr>memory_bitmap := b\<rparr>) PD R"
    "self_window (s\<lparr>memory_bitmap := b\<rparr>) PD R"
    by (rule allocate_frame_editable [OF Suc.prems(1,2)])
  show ?case
  proof (cases "f = 0")
    case True
    then show ?thesis using a by (intro exI [of _ False] exI [of _ "pmem s"] exI [of _ b]) simp
  next
    case False
    let ?s1 = "s\<lparr>memory_bitmap := b\<rparr>"
    have "heap_page address"
      using Suc.prems(4,5) by (simp add: heap_page_def word_le_nat_alt word_less_nat_alt)
    then have d: "page_directory_index address < 1022" "page_directory_index address \<noteq> page_directory_index PD"
      using heap_page_index Suc.prems(3) by (auto dest: heap_page_index)
    obtain r pm1 b1 where m: "memory_paging_map PD f address flags ?s1 = Some (r, ?s1\<lparr>pmem := pm1, memory_bitmap := b1\<rparr>)"
      "editable (?s1\<lparr>pmem := pm1, memory_bitmap := b1\<rparr>) PD R" "self_window (?s1\<lparr>pmem := pm1, memory_bitmap := b1\<rparr>) PD R"
      by (rule memory_paging_map_keeps_editable [OF a(2,3) d])
    have next_address: "unat (address + PAGE_SIZE) = unat address + 4096"
      using Suc.prems(5) by (simp add: PAGE_SIZE_def unat_word_ariths)
    obtain ok pm2 b2 where
      "map_heap_pages n PD flags (address + PAGE_SIZE) (?s1\<lparr>pmem := pm1, memory_bitmap := b1\<rparr>) =
         Some (ok, ?s1\<lparr>pmem := pm1, memory_bitmap := b1\<rparr>\<lparr>pmem := pm2, memory_bitmap := b2\<rparr>)"
      "editable (?s1\<lparr>pmem := pm1, memory_bitmap := b1\<rparr>\<lparr>pmem := pm2, memory_bitmap := b2\<rparr>) PD R"
      "self_window (?s1\<lparr>pmem := pm1, memory_bitmap := b1\<rparr>\<lparr>pmem := pm2, memory_bitmap := b2\<rparr>) PD R"
      using Suc.IH [OF m(2,3) Suc.prems(3), of "address + PAGE_SIZE"] Suc.prems(4,5) next_address by auto
    moreover have "?s1\<lparr>pmem := pm1, memory_bitmap := b1\<rparr>\<lparr>pmem := pm2, memory_bitmap := b2\<rparr> =
        s\<lparr>pmem := pm2, memory_bitmap := b2\<rparr>" by simp
    ultimately show ?thesis
      using a(1) False m(1) by (intro exI [of _ ok] exI [of _ pm2] exI [of _ b2]) simp
  qed
qed


definition heap_ready :: "'a heap_machine_scheme \<Rightarrow> u32 list \<Rightarrow> u32 \<Rightarrow> u32 \<Rightarrow> bool" where
  "heap_ready s as PD R \<longleftrightarrow> heap_wf s as \<and> kernel_heap_base s \<noteq> 0 \<and>
     heap_start s = 0xF0000000 \<and> heap_end s = 0xF7FFF000 \<and>
     heap_start s \<le> heap_break s \<and> heap_break s \<le> heap_end s \<and>
     editable s PD R \<and> self_window s PD R \<and> page_directory_index PD < 960"

lemma heap_readyD:
  assumes "heap_ready s as PD R"
  shows "heap_wf s as" "kernel_heap_base s \<noteq> 0" "heap_start s = 0xF0000000" "heap_end s = 0xF7FFF000"
    "0xF0000000 \<le> unat (heap_break s)" "unat (heap_break s) \<le> 0xF7FFF000"
    "editable s PD R" "self_window s PD R" "page_directory_index PD < 960"
  using assms by (auto simp: heap_ready_def word_le_nat_alt)

text \<open>The number of bytes that a growth asks for.\<close>

definition growth_bytes :: "u32 \<Rightarrow> u32" where
  "growth_bytes n =
     (if n * sizeof_header < KERNEL_HEAP_MINIMUM_HEADERS_TO_ALLOCATE * sizeof_header
      then KERNEL_HEAP_MINIMUM_HEADERS_TO_ALLOCATE * sizeof_header else n * sizeof_header)"

lemma growth_bytes_bounds:
  assumes "unat n \<le> 0x1000000"
  shows "8 * unat n \<le> unat (growth_bytes n)" "unat (growth_bytes n) \<le> 0x8000000" "0 < unat (growth_bytes n)"
    "unat (growth_bytes n) \<le> unat (ALIGN_UP (growth_bytes n))" "unat (ALIGN_UP (growth_bytes n)) \<le> 0x8000000"
    "unat (growth_bytes n div sizeof_header) * 8 = unat (growth_bytes n)"
    "n \<le> growth_bytes n div sizeof_header"
proof -
  have n8: "unat (n * sizeof_header) = 8 * unat n"
    using assms by (simp add: sizeof_header_def unat_word_ariths)
  then have g: "unat (growth_bytes n) = max (8 * unat n) 8192"
    by (auto simp: growth_bytes_def KERNEL_HEAP_MINIMUM_HEADERS_TO_ALLOCATE_def sizeof_header_def word_less_nat_alt)
  show b: "8 * unat n \<le> unat (growth_bytes n)" "unat (growth_bytes n) \<le> 0x8000000" "0 < unat (growth_bytes n)"
    unfolding g using assms by auto
  have u: "unat (ALIGN_UP (growth_bytes n)) = (unat (growth_bytes n) + 4095) div 4096 * 4096"
    using b(2) by (intro unat_ALIGN_UP) simp
  show "unat (growth_bytes n) \<le> unat (ALIGN_UP (growth_bytes n))" unfolding u by linarith
  have "(unat (growth_bytes n) + 4095) div 4096 \<le> 0x8000" using b(2) by linarith
  then show "unat (ALIGN_UP (growth_bytes n)) \<le> 0x8000000" unfolding u by linarith
  show d: "unat (growth_bytes n div sizeof_header) * 8 = unat (growth_bytes n)"
    unfolding unat_div g sizeof_header_def by (simp add: max_def)
  show "n \<le> growth_bytes n div sizeof_header" using b(1) d by (simp add: word_le_nat_alt)
qed

lemma allocate_physical_result:
  assumes r: "heap_ready s as PD R" and n: "unat n \<le> 0x1000000"
  obtains (fail) pm b where
      "kernel_heap_allocate_physical_memory (growth_bytes n) PD flags s = Some (0, s\<lparr>pmem := pm, memory_bitmap := b\<rparr>)"
      "heap_ready (s\<lparr>pmem := pm, memory_bitmap := b\<rparr>) as PD R"
  | (ok) pm b brk where
      "kernel_heap_allocate_physical_memory (growth_bytes n) PD flags s =
         Some (heap_break s, s\<lparr>pmem := pm, memory_bitmap := b, heap_break := brk\<rparr>)"
      "heap_ready (s\<lparr>pmem := pm, memory_bitmap := b, heap_break := brk\<rparr>) as PD R"
      "unat brk = unat (heap_break s) + unat (ALIGN_UP (growth_bytes n))"
proof -
  let ?a = "ALIGN_UP (growth_bytes n)"
  note H = heap_readyD [OF r] and G = growth_bytes_bounds [OF n]
  have sum: "unat (heap_break s + ?a) = unat (heap_break s) + unat ?a"
    using H(6) G(5) by (simp add: unat_word_ariths)
  show thesis
  proof (cases "heap_end s < heap_break s + ?a")
    case True
    then have "kernel_heap_allocate_physical_memory (growth_bytes n) PD flags s = Some (0, s)"
      by (simp add: kernel_heap_allocate_physical_memory_def Let_def)
    then show thesis using fail [of "memory_bitmap s" "pmem s"] r by simp
  next
    case False
    then have le: "unat (heap_break s) + unat ?a \<le> 0xF7FFF000"
      using H(4) sum by (simp add: word_less_nat_alt)
    have pages: "4096 * unat (?a div PAGE_SIZE) \<le> unat ?a" by (simp add: unat_div PAGE_SIZE_def)
    obtain ok pm b where m: "map_heap_pages (unat (?a div PAGE_SIZE)) PD flags (heap_break s) s =
        Some (ok, s\<lparr>pmem := pm, memory_bitmap := b\<rparr>)"
      "editable (s\<lparr>pmem := pm, memory_bitmap := b\<rparr>) PD R" "self_window (s\<lparr>pmem := pm, memory_bitmap := b\<rparr>) PD R"
      using map_heap_pages_result [OF H(7-9,5), of "unat (?a div PAGE_SIZE)" flags] le pages by auto
    show thesis
    proof (cases ok)
      case True
      let ?s = "s\<lparr>pmem := pm, memory_bitmap := b, heap_break := heap_break s + ?a\<rparr>"
      have "heap_wf ?s as" using H(1) sum by (auto simp: heap_wf_def)
      moreover have "editable ?s PD R" "self_window ?s PD R"
        using m(2,3) by (simp_all add: editable_def self_window_def bounce_ready_def machine_wf_def bounce_table_def)
      ultimately have "heap_ready ?s as PD R"
        using H sum le by (simp add: heap_ready_def word_le_nat_alt)
      moreover have "kernel_heap_allocate_physical_memory (growth_bytes n) PD flags s = Some (heap_break s, ?s)"
        using m(1) True False by (simp add: kernel_heap_allocate_physical_memory_def Let_def)
      ultimately show thesis using ok sum by blast
    next
      case no: False
      let ?s = "s\<lparr>pmem := pm, memory_bitmap := b\<rparr>"
      have "heap_ready ?s as PD R" using H m(2,3) by (simp add: heap_ready_def heap_wf_def word_le_nat_alt)
      moreover have "kernel_heap_allocate_physical_memory (growth_bytes n) PD flags s = Some (0, ?s)"
        using m(1) no False by (simp add: kernel_heap_allocate_physical_memory_def Let_def)
      ultimately show thesis using fail by blast
    qed
  qed
qed

lemma heap_ready_machine:
  "heap_ready (s\<lparr>hdr_next := nx, hdr_size := sz, free_headers_head := loc\<rparr>) as PD R \<longleftrightarrow>
     heap_wf (s\<lparr>hdr_next := nx, hdr_size := sz, free_headers_head := loc\<rparr>) as \<and> kernel_heap_base s \<noteq> 0 \<and>
     heap_start s = 0xF0000000 \<and> heap_end s = 0xF7FFF000 \<and>
     heap_start s \<le> heap_break s \<and> heap_break s \<le> heap_end s \<and>
     editable s PD R \<and> self_window s PD R \<and> page_directory_index PD < 960"
  by (simp add: heap_ready_def editable_def self_window_def bounce_ready_def machine_wf_def bounce_table_def)

text \<open>A block above all free blocks is put at the end of the list, or merged into the last one.\<close>

lemma free_top_block:
  assumes wf: "heap_wf s as" and al: "allocated_block s as h" and top: "\<forall>a \<in> set as. a < h"
  obtains nx sz loc as' where "kernel_heap_free (h + sizeof_header) s =
      Some (s\<lparr>hdr_next := nx, hdr_size := sz, free_headers_head := loc\<rparr>)"
    "heap_wf (s\<lparr>hdr_next := nx, hdr_size := sz, free_headers_head := loc\<rparr>) as'"
    "free_bytes (s\<lparr>hdr_next := nx, hdr_size := sz, free_headers_head := loc\<rparr>) as' =
       free_bytes s as \<union> block_bytes (hdr_size s) h"
    "loc = last (kernel_heap_base s # as)" "\<forall>x. x \<noteq> loc \<longrightarrow> x \<noteq> h \<longrightarrow> sz x = hdr_size s x"
    "hdr_size s loc \<le> sz loc"
    "as' = as @ [h] \<and> hdr_size s h \<le> sz h \<or> as' = as \<and> hdr_size s h \<le> sz loc"
  using wf al
proof (cases rule: kernel_heap_free_correct)
  case M: (1 nx sz loc us ks ws vs as')
  have "vs = []"
  proof (rule ccontr)
    assume "vs \<noteq> []"
    then obtain v where v: "v \<in> set vs" by (cases vs) auto
    then have "v \<in> set as" using M(4) by (cases us) auto
    with v M(7) top show False by (meson less_asym)
  qed
  then have "ws = []" "loc = last (kernel_heap_base s # as)" using M(4,8) by auto
  moreover have "as' = as @ [h] \<and> hdr_size s h \<le> sz h \<or> as' = as \<and> hdr_size s h \<le> sz loc"
    using M(6)
  proof
    assume ks: "ks = [loc]"
    then have "kernel_heap_base s # as' = kernel_heap_base s # as"
      using M(4,5) \<open>vs = []\<close> \<open>ws = []\<close> by simp
    with ks M(12) show ?thesis by simp
  next
    assume ks: "ks = [loc, h]"
    then have "kernel_heap_base s # as' = (us @ [loc]) @ [h]" using M(5) \<open>ws = []\<close> by simp
    then have "kernel_heap_base s # as' = kernel_heap_base s # as @ [h]" using M(4) \<open>vs = []\<close> by simp
    with ks M(11) show ?thesis by simp
  qed
  ultimately show thesis using that M(1-3,9,10) by blast
qed

text \<open>What the heap never touches besides its own pages and headers.\<close>

definition others_kept :: "'a heap_machine_scheme \<Rightarrow> 'a heap_machine_scheme \<Rightarrow> bool" where
  "others_kept s s' \<longleftrightarrow> cr3 s' = cr3 s \<and> kernel_page_directory s' = kernel_page_directory s \<and>
     kernel_page_directory_phys s' = kernel_page_directory_phys s \<and> bounce_pages_used s' = bounce_pages_used s \<and>
     heap_data s' = heap_data s \<and> heap_machine.more s' = heap_machine.more s"

lemma more_headers_result:
  assumes r: "heap_ready s as PD R" and n: "unat n \<le> 0x1000000"
  obtains (fail) s' where "kernel_heap_allocate_more_headers n PD flags s = Some (0, s')" "heap_ready s' as PD R"
      "hdr_size s' = hdr_size s" "hdr_next s' = hdr_next s" "heap_break s' = heap_break s"
      "free_headers_head s' = free_headers_head s" "kernel_heap_base s' = kernel_heap_base s" "others_kept s s'"
  | (ok) s' as' loc h where "kernel_heap_allocate_more_headers n PD flags s = Some (loc, s')" "loc \<noteq> 0"
      "heap_ready s' as' PD R" "loc = last (kernel_heap_base s # as)" "free_headers_head s' = loc"
      "h = heap_break s" "\<forall>x. x \<noteq> loc \<longrightarrow> x \<noteq> h \<longrightarrow> hdr_size s' x = hdr_size s x"
      "hdr_size s loc \<le> hdr_size s' loc"
      "as' = as @ [h] \<and> n \<le> hdr_size s' h \<or> as' = as \<and> n \<le> hdr_size s' loc"
      "free_bytes s as \<subseteq> free_bytes s' as'"
      "free_bytes s' as' \<subseteq> free_bytes s as \<union> {unat (heap_break s) ..< unat (heap_break s')}"
      "unat (heap_break s) \<le> unat (heap_break s')" "kernel_heap_base s' = kernel_heap_base s" "others_kept s s'"
  using r n
proof (cases rule: allocate_physical_result [where flags = flags])
  case (fail pm b)
  then have "kernel_heap_allocate_more_headers n PD flags s = Some (0, s\<lparr>pmem := pm, memory_bitmap := b\<rparr>)"
    by (simp add: kernel_heap_allocate_more_headers_def Let_def growth_bytes_def [symmetric])
  then show thesis using that(1) fail(2) by (simp add: others_kept_def)
next
  case (ok pm b brk)
  let ?h = "heap_break s" and ?b = "kernel_heap_base s"
  let ?s1 = "s\<lparr>pmem := pm, memory_bitmap := b, heap_break := brk\<rparr>"
  let ?q = "growth_bytes n div sizeof_header"
  let ?s2 = "?s1\<lparr>hdr_size := (hdr_size s)(?h := ?q), hdr_next := (hdr_next s)(?h := ?h)\<rparr>"
  note G = growth_bytes_bounds [OF n] and H = heap_readyD [OF r]
  note W = heap_wfD [OF H(1)] and H1 = heap_readyD [OF ok(2)]
  have below: "unat a < unat ?h" if "a \<in> set as" for a
  proof -
    have "unat a < block_end (hdr_size s) a" using W(6) [OF that] by (simp add: block_end_def word_less_nat_alt)
    then show ?thesis using W(8) [OF that] by linarith
  qed
  have bh: "unat ?b < unat ?h" using W(5) H(3,5) by (simp add: word_less_nat_alt)
  have hn: "?h \<notin> set (?b # as)" using below bh by (metis less_irrefl set_ConsD)
  have wf2: "heap_wf ?s2 as"
    unfolding heap_wf_def
  proof (intro conjI ballI)
    show "chain (hdr_next ?s2) (kernel_heap_base ?s2 # as) (kernel_heap_base ?s2)"
      using W(1) chain_update [OF hn] by simp
    show "sorted_wrt (apart (hdr_size ?s2)) (kernel_heap_base ?s2 # as)"
      using W(2) sorted_apart_upd [OF hn] by simp
    show "hdr_size ?s2 (kernel_heap_base ?s2) = 0" "free_headers_head ?s2 \<in> set (kernel_heap_base ?s2 # as)"
      "unat (kernel_heap_base ?s2) < unat (heap_start ?s2)"
      using W(3-5) hn by (auto simp: word_less_nat_alt)
    fix a assume a: "a \<in> set as"
    then have "a \<noteq> ?h" using hn by auto
    then show "0 < hdr_size ?s2 a" "heap_start ?s2 \<le> a" "block_end (hdr_size ?s2) a \<le> unat (heap_break ?s2)"
      using W(6-8) [OF a] ok(3) by (simp_all add: block_end_upd)
  qed
  have be: "block_end (hdr_size ?s2) ?h = unat ?h + unat (growth_bytes n)"
    using G(6) by (simp add: block_end_def)
  have fb: "free_bytes ?s2 as = free_bytes s as" using hn by (simp add: free_bytes_def bytes_upd)
  have fb_below: "x < unat ?h" if "x \<in> free_bytes s as" for x
    using that W(8) by (fastforce simp: free_bytes_def block_bytes_def)
  have al: "allocated_block ?s2 as ?h"
  proof -
    have "0 < ?q" using G(3,6) by (simp add: word_less_nat_alt)
    moreover have "block_bytes (hdr_size ?s2) ?h \<inter> free_bytes ?s2 as = {}"
      unfolding fb using fb_below by (fastforce simp: block_bytes_def)
    ultimately show ?thesis
      using be ok(3) G(4) H(3,5) by (simp add: allocated_block_def word_le_nat_alt)
  qed
  have top: "\<forall>a \<in> set as. a < ?h" using below by (simp add: word_less_nat_alt)
  from wf2 al top show thesis
  proof (cases rule: free_top_block)
    case F: (1 nx sz loc as')
    let ?s3 = "?s2\<lparr>hdr_next := nx, hdr_size := sz, free_headers_head := loc\<rparr>"
    have h0: "?h \<noteq> 0" using H(5) by auto
    have hp: "hdr_plus ?h 1 = ?h + sizeof_header" by (simp add: hdr_plus_def)
    have run: "kernel_heap_allocate_more_headers n PD flags s = Some (loc, ?s3)"
      using ok(1) h0 F(1) hp by (simp add: kernel_heap_allocate_more_headers_def Let_def growth_bytes_def [symmetric])
    have ready: "heap_ready ?s3 as' PD R"
      using F(2) H1 unfolding heap_ready_machine
      by (simp add: editable_def self_window_def bounce_ready_def machine_wf_def bounce_table_def word_le_nat_alt)
    have bytes: "free_bytes ?s3 as' = free_bytes s as \<union> {unat ?h ..< unat ?h + unat (growth_bytes n)}"
      using F(3) fb be by (simp add: block_bytes_def)
    have "loc \<noteq> 0"
    proof -
      have "loc \<in> set (?b # as)" using F(4) by simp
      then show ?thesis using H(2,3) W(7) [of loc] by auto
    qed
    then show thesis
    proof (rule that(2) [OF run _ ready])
      show "as' = as @ [?h] \<and> n \<le> hdr_size ?s3 ?h \<or> as' = as \<and> n \<le> hdr_size ?s3 loc"
        using F(7) G(7) by auto
      show "hdr_size s loc \<le> hdr_size ?s3 loc"
      proof -
        have "loc \<in> set (?b # as)" using F(4) by simp
        then have "loc \<noteq> ?h" using hn by metis
        then show ?thesis using F(6) by simp
      qed
      show "\<forall>x. x \<noteq> loc \<longrightarrow> x \<noteq> ?h \<longrightarrow> hdr_size ?s3 x = hdr_size s x" using F(5) by simp
      show "free_bytes s as \<subseteq> free_bytes ?s3 as'" using bytes by blast
      show "free_bytes ?s3 as' \<subseteq> free_bytes s as \<union> {unat ?h ..< unat (heap_break ?s3)}"
        using bytes ok(3) G(4) by auto
    qed (use F(4) ok(3) in \<open>simp_all add: others_kept_def\<close>)
  qed
qed


section \<open>Taking a block\<close>

lemma chain_predecessor:
  assumes c: "chain nxt L b" and p: "p \<in> set L" "nxt p = x" "x \<noteq> b"
  obtains ps qs where "L = ps @ p # x # qs"
proof -
  obtain ps qs where pq: "L = ps @ p # qs" using p(1) by (meson split_list)
  have "x = hd (qs @ [b])" using c p(2) unfolding pq by (simp add: chain_append chain_Cons)
  with p(3) obtain qs' where "qs = x # qs'" by (cases qs) auto
  with pq that show thesis by blast
qed

lemma sorted_wrt_two: "sorted_wrt P xs \<Longrightarrow> x \<in> set xs \<Longrightarrow> y \<in> set xs \<Longrightarrow> x \<noteq> y \<Longrightarrow> P x y \<or> P y x"
  by (induction xs) auto

lemma free_blocks_apart:
  assumes wf: "heap_wf s as" and xy: "x \<in> set as" "y \<in> set as" "x \<noteq> y"
  shows "apart (hdr_size s) x y \<or> apart (hdr_size s) y x"
    "block_bytes (hdr_size s) x \<inter> block_bytes (hdr_size s) y = {}"
proof -
  have "sorted_wrt (apart (hdr_size s)) as" using heap_wfD(2) [OF wf] by simp
  then show "apart (hdr_size s) x y \<or> apart (hdr_size s) y x" using sorted_wrt_two xy by metis
  then show "block_bytes (hdr_size s) x \<inter> block_bytes (hdr_size s) y = {}"
    by (auto simp: apart_def block_bytes_def)
qed

text \<open>What the caller of \<^verbatim>\<open>malloc\<close> gets: a block taken out of the free bytes.\<close>

definition block_taken :: "u32 \<Rightarrow> 'a heap_machine_scheme \<Rightarrow> u32 list \<Rightarrow> 'a heap_machine_scheme \<Rightarrow> u32 list \<Rightarrow> u32 \<Rightarrow> bool" where
  "block_taken n s as s' as' blk \<longleftrightarrow> heap_wf s' as' \<and> allocated_block s' as' blk \<and> hdr_size s' blk = n \<and>
     block_bytes (hdr_size s') blk \<subseteq> free_bytes s as \<and>
     free_bytes s' as' = free_bytes s as - block_bytes (hdr_size s') blk \<and>
     (\<forall>y. unat y \<notin> free_bytes s as \<longrightarrow> hdr_size s' y = hdr_size s y)"

lemma take_whole_block:
  assumes wf: "heap_wf s as" and x: "x \<in> set as" and p: "p \<in> set (kernel_heap_base s # as)" "hdr_next s p = x"
  shows "\<exists>as'. block_taken (hdr_size s x) s as
    (s\<lparr>hdr_next := (hdr_next s)(p := hdr_next s x), free_headers_head := p\<rparr>) as' x"
proof -
  let ?b = "kernel_heap_base s" and ?sz = "hdr_size s" and ?nx = "hdr_next s"
  let ?s = "s\<lparr>hdr_next := ?nx(p := ?nx x), free_headers_head := p\<rparr>"
  note W = heap_wfD [OF wf]
  have xb: "x \<noteq> ?b" using W(10) x by auto
  obtain ps qs where L: "?b # as = ps @ p # x # qs" by (rule chain_predecessor [OF W(1) p xb])
  define as' where "as' = tl (ps @ [p]) @ qs"
  have L': "?b # as' = ps @ p # qs" using L unfolding as'_def by (cases ps) auto
  have dist: "x \<notin> set ps" "x \<noteq> p" "x \<notin> set qs" "p \<notin> set ps" "p \<notin> set qs" using W(10) unfolding L by auto
  have "as = tl (ps @ [p]) @ x # qs" using L by (cases ps) auto
  moreover have "x \<notin> set (tl (ps @ [p]))" using dist(1,2) by (cases ps) auto
  ultimately have as_set: "set as = insert x (set as')" "x \<notin> set as'"
    using dist(3) unfolding as'_def by auto
  have "?nx x = hd (qs @ [?b])" using W(1) unfolding L by (simp add: chain_append chain_Cons)
  then have "chain (?nx(p := ?nx x)) (?b # as') ?b"
    unfolding L' using W(1) dist unfolding L by (simp add: chain_append chain_Cons chain_update)
  moreover have "sorted_wrt (apart ?sz) (?b # as')"
    unfolding L' using W(2) unfolding L by (auto simp: sorted_wrt_append)
  moreover have "p \<in> set (?b # as')" unfolding L' by simp
  ultimately have wf': "heap_wf ?s as'"
    unfolding heap_wf_def using W(3,5-8) as_set by (simp add: word_less_nat_alt)
  have fb: "free_bytes ?s as' = free_bytes s as - block_bytes ?sz x"
    using free_blocks_apart(2) [OF wf x] as_set by (fastforce simp: free_bytes_def)
  have "block_bytes ?sz x \<subseteq> free_bytes s as" using x by (auto simp: free_bytes_def)
  then show ?thesis
    using wf' fb W(6-8) [OF x] unfolding block_taken_def allocated_block_def by auto
qed

lemma take_block_tail:
  assumes wf: "heap_wf s as" and x: "x \<in> set as" and p: "p \<in> set (kernel_heap_base s # as)"
    and n: "0 < n" "n < hdr_size s x"
  shows "block_taken n s as (s\<lparr>hdr_size := (hdr_size s)(x := hdr_size s x - n, hdr_plus x (hdr_size s x - n) := n),
    free_headers_head := p\<rparr>) as (hdr_plus x (hdr_size s x - n))"
proof -
  let ?sz = "hdr_size s" and ?r = "hdr_size s x - n"
  let ?blk = "hdr_plus x ?r"
  let ?sz' = "?sz(x := ?r, ?blk := n)"
  let ?s = "s\<lparr>hdr_size := ?sz', free_headers_head := p\<rparr>"
  note W = heap_wfD [OF wf]
  have r: "unat ?r = unat (?sz x) - unat n" "0 < unat ?r"
    using n by (simp_all add: unat_sub word_less_nat_alt less_imp_le)
  have "block_end ?sz x < 2 ^ 32" using W(8) [OF x] unat_u32 [of "heap_break s"] by simp
  then have ub: "unat ?blk = unat x + 8 * unat ?r"
    using r by (intro unat_hdr_plus) (simp add: block_end_def)
  have be: "block_end ?sz' ?blk = block_end ?sz x"
    using ub r n by (simp add: block_end_def word_less_nat_alt)
  have bx: "?blk \<noteq> x" using ub r(2) by auto
  have ex: "block_end ?sz' x = unat ?blk" using bx ub by (simp add: block_end_def)
  have inx: "unat ?blk \<in> block_bytes ?sz x"
    using ub r n by (simp add: block_bytes_def block_end_def word_less_nat_alt)
  have nb: "?blk \<notin> set (kernel_heap_base s # as)"
  proof
    assume "?blk \<in> set (kernel_heap_base s # as)"
    moreover have "?blk \<noteq> kernel_heap_base s"
      using W(9) x ub by (auto simp: word_less_nat_alt dest!: arg_cong [of _ _ unat])
    ultimately have m: "?blk \<in> set as" by simp
    have "unat ?blk \<in> block_bytes ?sz ?blk" using W(6) [OF m] by (simp add: block_bytes_def block_end_def word_less_nat_alt)
    then show False using free_blocks_apart(2) [OF wf x m] bx inx by auto
  qed
  have keep: "block_end ?sz' y = block_end ?sz y" if "y \<in> set (kernel_heap_base s # as)" "y \<noteq> x" for y
    using that nb by (auto simp: block_end_def)
  have le: "block_end ?sz' y \<le> block_end ?sz y" if "y \<in> set (kernel_heap_base s # as)" for y
    using keep [OF that] ex inx by (cases "y = x") (auto simp: block_bytes_def)
  have "sorted_wrt (apart ?sz') (kernel_heap_base s # as)"
  proof (rule sorted_wrt_mono_rel [OF _ W(2)])
    fix y z assume "y \<in> set (kernel_heap_base s # as)" "apart ?sz y z"
    then show "apart ?sz' y z" using le [of y] by (simp add: apart_def)
  qed
  moreover have "?sz' (kernel_heap_base s) = 0" using W(3,10) x nb by auto
  moreover have "0 < ?sz' a \<and> heap_start s \<le> a \<and> block_end ?sz' a \<le> unat (heap_break s)" if "a \<in> set as" for a
    using W(6-8) [OF that] le [of a] that nb r by (cases "a = x") (auto simp: word_less_nat_alt)
  ultimately have wf': "heap_wf ?s as"
    unfolding heap_wf_def using W(1,4,5) p by (simp add: word_less_nat_alt)
  have blkb: "block_bytes ?sz' ?blk \<subseteq> block_bytes ?sz x" using be ub by (auto simp: block_bytes_def)
  have xb: "block_bytes ?sz' x = block_bytes ?sz x - block_bytes ?sz' ?blk"
    using ex be inx by (auto simp: block_bytes_def)
  have fb: "free_bytes ?s as = free_bytes s as - block_bytes ?sz' ?blk"
  proof -
    have "block_bytes ?sz' y = block_bytes ?sz y - block_bytes ?sz' ?blk" if "y \<in> set as" for y
    proof (cases "y = x")
      case False
      then show ?thesis using free_blocks_apart(2) [OF wf that x] keep [of y] that blkb by (auto simp: block_bytes_def)
    qed (use xb in simp)
    then show ?thesis by (auto simp: free_bytes_def)
  qed
  have sub: "block_bytes ?sz' ?blk \<subseteq> free_bytes s as" using blkb x by (auto simp: free_bytes_def)
  have "heap_start s \<le> ?blk" using W(7) [OF x] ub by (simp add: word_le_nat_alt)
  then have "allocated_block ?s as ?blk"
    using n fb be W(8) [OF x] by (auto simp: allocated_block_def)
  moreover have "?sz' y = ?sz y" if "unat y \<notin> free_bytes s as" for y
  proof -
    have "unat x \<in> block_bytes ?sz x" using W(6) [OF x] by (simp add: block_bytes_def block_end_def word_less_nat_alt)
    then have "y \<noteq> x" "y \<noteq> ?blk" using that inx x by (auto simp: free_bytes_def)
    then show ?thesis by simp
  qed
  ultimately show ?thesis using wf' fb sub by (simp add: block_taken_def)
qed

lemma take_block_correct:
  assumes wf: "heap_wf s as" and n: "0 < n" "n \<le> hdr_size s x" and x: "x \<in> set (kernel_heap_base s # as)"
    and p: "p \<in> set (kernel_heap_base s # as)" "hdr_next s p = x"
  obtains nx sz as' blk where "take_block n p x s =
      (blk + sizeof_header, s\<lparr>hdr_next := nx, hdr_size := sz, free_headers_head := p\<rparr>)"
    "block_taken n s as (s\<lparr>hdr_next := nx, hdr_size := sz, free_headers_head := p\<rparr>) as' blk"
proof -
  have xa: "x \<in> set as" using x n heap_wfD(3) [OF wf] by auto
  show thesis
  proof (cases "hdr_size s x = n")
    case True
    then obtain as' where "block_taken n s as
        (s\<lparr>hdr_next := (hdr_next s)(p := hdr_next s x), free_headers_head := p\<rparr>) as' x"
      using take_whole_block [OF wf xa p] by blast
    then show thesis
      using that [of x "hdr_size s" "(hdr_next s)(p := hdr_next s x)" as'] True by (simp add: take_block_def hdr_plus_def)
  next
    case False
    then have "n < hdr_size s x" using n by simp
    from take_block_tail [OF wf xa p(1) n(1) this]
    show thesis
      using that [of "hdr_plus x (hdr_size s x - n)" _ "hdr_next s" as] False
      by (simp add: take_block_def Let_def) (simp add: hdr_plus_def)
  qed
qed


section \<open>The first-fit loop\<close>

lemma malloc_scan:
  assumes "chain (hdr_next s) (prev # xs) e" "xs \<noteq> []" "free_headers_head s \<notin> set (butlast xs)"
  obtains (fit) ys x zs where "xs = ys @ x # zs" "n \<le> hdr_size s x"
      "malloc_loop n PD fl prev (hd xs) s = Some (take_block n (last (prev # ys)) x s)"
      "hdr_next s (last (prev # ys)) = x"
  | (none) "\<forall>x \<in> set xs. hdr_size s x < n"
      "malloc_loop n PD fl prev (hd xs) s = malloc_loop n PD fl (last (prev # butlast xs)) (last xs) s"
  using assms
proof (induction xs arbitrary: prev thesis)
  case (Cons x xs)
  have nx: "hdr_next s prev = x" "chain (hdr_next s) (x # xs) e" using Cons.prems(3) by (auto simp: chain_Cons)
  show ?case
  proof (cases "n \<le> hdr_size s x")
    case True
    then show ?thesis
      using Cons.prems(1) [of "[]" x xs] nx by (simp add: malloc_loop.simps [of n PD fl prev x])
  next
    case False
    show ?thesis
    proof (cases "xs = []")
      case True
      then show ?thesis using Cons.prems(2) False by simp
    next
      case ne: False
      have "x \<noteq> free_headers_head s" using Cons.prems(5) ne by auto
      moreover have "hdr_next s x = hd xs" using nx(2) ne by (simp add: chain_Cons)
      ultimately have step: "malloc_loop n PD fl prev x s = malloc_loop n PD fl x (hd xs) s"
        using False by (simp add: malloc_loop.simps [of n PD fl prev x])
      have head: "free_headers_head s \<notin> set (butlast xs)" using Cons.prems(5) ne by auto
      show ?thesis
      proof (rule Cons.IH [OF _ _ nx(2) ne head])
        fix ys y zs assume "xs = ys @ y # zs" "n \<le> hdr_size s y"
          "malloc_loop n PD fl x (hd xs) s = Some (take_block n (last (x # ys)) y s)" "hdr_next s (last (x # ys)) = y"
        then show thesis using Cons.prems(1) [of "x # ys" y zs] step by simp
      next
        assume "\<forall>y \<in> set xs. hdr_size s y < n"
          "malloc_loop n PD fl x (hd xs) s = malloc_loop n PD fl (last (x # butlast xs)) (last xs) s"
        then show thesis using Cons.prems(2) step False ne by simp
      qed
    qed
  qed
qed simp

text \<open>The ring, read from the element after \<open>p\<close> around to \<open>p\<close>.\<close>

lemma ring_rotate:
  assumes "chain nxt (b # as) b" "b # as = us @ p # vs"
  shows "chain nxt (p # vs @ us @ [p]) (hd (vs @ us @ [p]))"
proof -
  have c: "chain nxt us p" "chain nxt (p # vs) b" using assms by (auto simp: chain_append)
  have "hd (us @ [p]) = b" using assms(2) by (cases us) auto
  with c show ?thesis by (cases vs; cases us) (auto simp: chain_append chain_Cons hd_append)
qed

definition kept :: "'a heap_machine_scheme \<Rightarrow> u32 list \<Rightarrow> 'a heap_machine_scheme \<Rightarrow> u32 list \<Rightarrow> bool" where
  "kept s as s' as' \<longleftrightarrow> others_kept s s' \<and> (\<forall>h. allocated_block s as h \<longrightarrow> allocated_block s' as' h \<and> hdr_size s' h = hdr_size s h)"

lemma allocated_not_free: "allocated_block s as h \<Longrightarrow> unat h \<notin> free_bytes s as"
proof -
  assume al: "allocated_block s as h"
  then have "unat h \<in> block_bytes (hdr_size s) h"
    by (simp add: allocated_block_def block_bytes_def block_end_def word_less_nat_alt)
  with al show ?thesis by (auto simp: allocated_block_def)
qed

lemma free_start: "heap_wf s as \<Longrightarrow> x \<in> set as \<Longrightarrow> unat x \<in> free_bytes s as"
  using heap_wfD(6) [of s as x] by (auto simp: free_bytes_def block_bytes_def block_end_def word_less_nat_alt)

lemma block_taken_kept:
  assumes "block_taken n s as s' as' blk" "others_kept s s'" "heap_start s' = heap_start s" "heap_break s' = heap_break s"
  shows "kept s as s' as'"
    "allocated_block s as h \<Longrightarrow> block_bytes (hdr_size s) h \<inter> block_bytes (hdr_size s') blk = {}"
proof -
  have B: "block_bytes (hdr_size s') blk \<subseteq> free_bytes s as" "free_bytes s' as' \<subseteq> free_bytes s as"
    "\<forall>y. unat y \<notin> free_bytes s as \<longrightarrow> hdr_size s' y = hdr_size s y"
    using assms(1) by (auto simp: block_taken_def)
  show "block_bytes (hdr_size s) h \<inter> block_bytes (hdr_size s') blk = {}" if "allocated_block s as h" for h
    using that B(1) by (auto simp: allocated_block_def)
  have "allocated_block s' as' h \<and> hdr_size s' h = hdr_size s h" if al: "allocated_block s as h" for h
  proof -
    have same: "hdr_size s' h = hdr_size s h" using B(3) allocated_not_free [OF al] by blast
    then have "block_bytes (hdr_size s') h = block_bytes (hdr_size s) h" "block_end (hdr_size s') h = block_end (hdr_size s) h"
      by (simp_all add: block_bytes_def block_end_def)
    then show ?thesis using al same B(2) assms(3,4) by (auto simp: allocated_block_def)
  qed
  then show "kept s as s' as'" using assms(2) by (simp add: kept_def)
qed

lemma more_headers_kept:
  assumes wf: "heap_wf s as" and loc: "loc \<in> set (kernel_heap_base s # as)"
    and sz: "\<forall>x. x \<noteq> loc \<longrightarrow> x \<noteq> heap_break s \<longrightarrow> hdr_size s' x = hdr_size s x"
    and fb: "free_bytes s' as' \<subseteq> free_bytes s as \<union> {unat (heap_break s) ..< unat (heap_break s')}"
    and brk: "unat (heap_break s) \<le> unat (heap_break s')" "heap_start s' = heap_start s" "others_kept s s'"
  shows "kept s as s' as'"
  unfolding kept_def
proof (intro allI impI conjI [of "others_kept s s'"] brk(3))
  fix h assume al: "allocated_block s as h"
  have "h \<noteq> loc"
    using loc allocated_not_free [OF al] free_start [OF wf] al heap_wfD(5) [OF wf]
    by (auto simp: allocated_block_def)
  moreover have lt: "unat h < block_end (hdr_size s) h" "block_end (hdr_size s) h \<le> unat (heap_break s)"
    using al by (auto simp: allocated_block_def block_end_def word_less_nat_alt)
  ultimately have same: "hdr_size s' h = hdr_size s h" using sz by auto
  then have "block_bytes (hdr_size s') h = block_bytes (hdr_size s) h" by (simp add: block_bytes_def block_end_def)
  moreover have "block_bytes (hdr_size s) h \<inter> free_bytes s' as' = {}"
    using al fb lt by (fastforce simp: allocated_block_def block_bytes_def)
  ultimately show "allocated_block s' as' h \<and> hdr_size s' h = hdr_size s h"
    using al same brk by (auto simp: allocated_block_def block_end_def)
qed

text \<open>The promise of \<^verbatim>\<open>malloc\<close> for a block of \<open>n\<close> headers at the address \<open>r\<close>.\<close>

definition malloc_done :: "u32 \<Rightarrow> 'a heap_machine_scheme \<Rightarrow> u32 list \<Rightarrow> u32 \<Rightarrow> u32 \<Rightarrow> u32 \<Rightarrow>
    'a heap_machine_scheme \<Rightarrow> bool" where
  "malloc_done n s as PD R r s' \<longleftrightarrow> (\<exists>as'. heap_ready s' as' PD R \<and> kept s as s' as' \<and>
     (r \<noteq> 0 \<longrightarrow> allocated_block s' as' (r - sizeof_header) \<and> hdr_size s' (r - sizeof_header) = n \<and>
        (\<forall>h. allocated_block s as h \<longrightarrow>
           block_bytes (hdr_size s) h \<inter> block_bytes (hdr_size s') (r - sizeof_header) = {})))"

lemma take_block_done:
  assumes r: "heap_ready s1 as1 PD R" and k: "kept s as s1 as1" and n: "0 < n" "n \<le> hdr_size s1 x"
    and x: "x \<in> set (kernel_heap_base s1 # as1)" and p: "p \<in> set (kernel_heap_base s1 # as1)" "hdr_next s1 p = x"
  shows "\<exists>r s'. Some (take_block n p x s1) = Some (r, s') \<and> r \<noteq> 0 \<and> malloc_done n s as PD R r s'"
proof -
  note H = heap_readyD [OF r]
  obtain nx sz as' blk where t: "take_block n p x s1 =
      (blk + sizeof_header, s1\<lparr>hdr_next := nx, hdr_size := sz, free_headers_head := p\<rparr>)"
    and taken: "block_taken n s1 as1 (s1\<lparr>hdr_next := nx, hdr_size := sz, free_headers_head := p\<rparr>) as' blk"
    by (rule take_block_correct [OF H(1) n x p])
  let ?s = "s1\<lparr>hdr_next := nx, hdr_size := sz, free_headers_head := p\<rparr>"
  have ready: "heap_ready ?s as' PD R"
    using H taken unfolding heap_ready_machine
    by (simp add: block_taken_def editable_def self_window_def bounce_ready_def machine_wf_def bounce_table_def word_le_nat_alt)
  have same: "others_kept s1 ?s" by (simp add: others_kept_def)
  note K = block_taken_kept [OF taken same]
  have "kept s as ?s as'" using k K(1) by (simp add: kept_def others_kept_def)
  moreover have "block_bytes (hdr_size s) h \<inter> block_bytes (hdr_size ?s) blk = {}" if "allocated_block s as h" for h
  proof -
    have "allocated_block s1 as1 h" "hdr_size s1 h = hdr_size s h" using k that by (auto simp: kept_def)
    then show ?thesis using K(2) [of h] by (simp add: block_bytes_def block_end_def)
  qed
  moreover have "allocated_block ?s as' blk" "hdr_size ?s blk = n" using taken by (simp_all add: block_taken_def)
  moreover have "blk + sizeof_header \<noteq> 0"
  proof -
    have "unat blk + 8 \<le> unat (heap_break s1)"
      using \<open>allocated_block ?s as' blk\<close> by (simp add: allocated_block_def block_end_def word_less_nat_alt)
    then have "unat (blk + sizeof_header) = unat blk + 8"
      using unat_u32 [of "heap_break s1"] by (simp add: sizeof_header_def unat_word_ariths)
    then show ?thesis by (metis add_is_0 unat_0 zero_neq_numeral)
  qed
  ultimately show ?thesis using t ready by (auto simp: malloc_done_def)
qed

lemma kept_trans: "kept s as s1 as1 \<Longrightarrow> kept s1 as1 s2 as2 \<Longrightarrow> kept s as s2 as2"
  by (simp add: kept_def others_kept_def)

lemma more_headers_kept_ready:
  assumes r: "heap_ready s as PD R" "heap_ready s' as' PD R" and loc: "loc = last (kernel_heap_base s # as)"
    and sz: "\<forall>x. x \<noteq> loc \<longrightarrow> x \<noteq> heap_break s \<longrightarrow> hdr_size s' x = hdr_size s x"
    and fb: "free_bytes s' as' \<subseteq> free_bytes s as \<union> {unat (heap_break s) ..< unat (heap_break s')}"
    and brk: "unat (heap_break s) \<le> unat (heap_break s')" "others_kept s s'"
  shows "kept s as s' as'"
  using more_headers_kept [OF heap_readyD(1) [OF r(1)] _ sz fb brk(1) _ brk(2)] heap_readyD(3) [OF r(1)]
    heap_readyD(3) [OF r(2)] loc by simp

text \<open>The loop after the second growth: the block after the current one is large enough.\<close>

lemma malloc_next_fits:
  assumes r: "heap_ready s1 as1 PD R" and k: "kept s as s1 as1" and n: "0 < n" "n \<le> hdr_size s1 h"
    and L: "kernel_heap_base s1 # as1 = us @ p # h # vs"
  shows "\<exists>r s'. malloc_loop n PD fl p (hdr_next s1 p) s1 = Some (r, s') \<and> r \<noteq> 0 \<and> malloc_done n s as PD R r s'"
proof -
  have "hdr_next s1 p = h"
    using heap_wfD(1) [OF heap_readyD(1) [OF r]] unfolding L by (simp add: chain_append chain_Cons)
  then have "malloc_loop n PD fl p (hdr_next s1 p) s1 = Some (take_block n p h s1)"
    using n by (simp add: malloc_loop.simps [of n PD fl p h])
  then show ?thesis
    using take_block_done [OF r k n, of p] L \<open>hdr_next s1 p = h\<close> by simp
qed

lemma malloc_grow_again:
  assumes r: "heap_ready s1 as1 PD R" and k: "kept s as s1 as1" and n: "0 < n" "unat n \<le> 0x1000000"
    and L: "kernel_heap_base s1 # as1 = us @ [p, h]" and h: "n \<le> hdr_size s1 h"
    and p: "hdr_size s1 p < n" "p = free_headers_head s1"
  shows "\<exists>r s'. malloc_loop n PD fl q p s1 = Some (r, s') \<and> malloc_done n s as PD R r s'"
  using r n(2)
proof (cases rule: more_headers_result [where flags = fl])
  case (fail s2)
  have "kept s1 as1 s2 as1"
    using fail(3,5,8) heap_readyD(3) [OF r] heap_readyD(3) [OF fail(2)]
    by (simp add: kept_def allocated_block_def free_bytes_def)
  then have "malloc_done n s as PD R 0 s2" using fail(2) kept_trans [OF k] by (auto simp: malloc_done_def)
  moreover have "malloc_loop n PD fl q p s1 = Some (0, s2)"
    by (subst malloc_loop.simps) (use fail(1) p in \<open>simp add: linorder_not_le [symmetric]\<close>)
  ultimately show ?thesis by blast
next
  case (ok s2 as2 loc h2)
  have k2: "kept s as s2 as2"
    using kept_trans [OF k more_headers_kept_ready [OF r ok(3,4)]] ok(6,7,11,12,14) by simp
  have "loc = h" using ok(4) L by simp
  then have "n \<le> hdr_size s2 h" using ok(8) h by simp
  moreover have "\<exists>vs. kernel_heap_base s2 # as2 = us @ p # h # vs"
  proof -
    have "kernel_heap_base s2 # as1 = us @ [p, h]" using ok(13) L by simp
    then show ?thesis using ok(9) by (metis append.assoc append_Cons append_Nil)
  qed
  moreover have "malloc_loop n PD fl q p s1 = malloc_loop n PD fl p (hdr_next s2 p) s2"
    by (subst malloc_loop.simps) (use ok(1,2) p in \<open>simp add: linorder_not_le [symmetric]\<close>)
  ultimately show ?thesis
    using malloc_next_fits [OF ok(3) k2 n(1)] by fastforce
qed


text \<open>The loop after the first growth.\<close>

lemma malloc_after_growth:
  assumes r: "heap_ready s1 as1 PD R" and k: "kept s as s1 as1" and n: "0 < n" "unat n \<le> 0x1000000"
    and L: "kernel_heap_base s1 # as1 = us @ p # vs @ ts" "free_headers_head s1 = last (p # vs)"
    and big: "ts = [] \<and> n \<le> hdr_size s1 (last (p # vs)) \<or> ts = [h] \<and> n \<le> hdr_size s1 h"
  shows "\<exists>r s'. malloc_loop n PD fl p (hdr_next s1 p) s1 = Some (r, s') \<and> malloc_done n s as PD R r s'"
proof -
  note W = heap_wfD [OF heap_readyD(1) [OF r]]
  show ?thesis
  proof (cases "vs = [] \<and> ts \<noteq> []")
    case True
    then show ?thesis using malloc_next_fits [OF r k n(1)] L big by fastforce
  next
    case False
    define xs where "xs = (if vs = [] then us @ [p] else vs)"
    obtain e where e: "chain (hdr_next s1) (p # xs) e"
    proof (cases "vs = []")
      case True
      with False L have "kernel_heap_base s1 # as1 = us @ p # []" by simp
      from ring_rotate [OF W(1) this] that show ?thesis using True by (simp add: xs_def)
    next
      case False
      have "chain (hdr_next s1) ((us @ p # vs) @ ts) (kernel_heap_base s1)" using W(1) unfolding L by simp
      then have "chain (hdr_next s1) (us @ p # vs) (hd (ts @ [kernel_heap_base s1]))" by (simp only: chain_append)
      then have "chain (hdr_next s1) (p # vs) (hd (ts @ [kernel_heap_base s1]))" by (simp only: chain_append)
      then show ?thesis using that False by (simp add: xs_def)
    qed
    have ne: "xs \<noteq> []" and last_xs: "last xs = last (p # vs)" by (simp_all add: xs_def)
    have hd_xs: "hd xs = hdr_next s1 p" using e ne by (simp add: chain_Cons)
    have dist: "distinct xs" and sub: "set (p # xs) \<subseteq> set (kernel_heap_base s1 # as1)"
      using W(10) unfolding L xs_def by auto
    have head: "free_headers_head s1 \<notin> set (butlast xs)"
    proof -
      have "distinct (butlast xs @ [last xs])" using dist ne by simp
      then have "last xs \<notin> set (butlast xs)" by simp
      then show ?thesis using L(2) last_xs by simp
    qed
    show ?thesis
    proof (rule malloc_scan [OF e ne head, where n = n and PD = PD and fl = fl])
      fix ys x zs assume x: "xs = ys @ x # zs" "n \<le> hdr_size s1 x"
        "malloc_loop n PD fl p (hd xs) s1 = Some (take_block n (last (p # ys)) x s1)"
        "hdr_next s1 (last (p # ys)) = x"
      have "last (p # ys) \<in> set (p # xs)" using x(1) by auto
      then have "last (p # ys) \<in> set (kernel_heap_base s1 # as1)" "x \<in> set (kernel_heap_base s1 # as1)"
        using sub x(1) by auto
      from take_block_done [OF r k n(1) x(2) this(2,1) x(4)] show ?thesis using x(3) hd_xs by auto
    next
      assume none: "\<forall>x\<in>set xs. hdr_size s1 x < n"
        "malloc_loop n PD fl p (hd xs) s1 = malloc_loop n PD fl (last (p # butlast xs)) (last xs) s1"
      have small: "hdr_size s1 (last (p # vs)) < n" using none(1) ne last_xs by (metis last_in_set)
      with big have ts: "ts = [h]" "n \<le> hdr_size s1 h" by auto
      with False have vs: "vs \<noteq> []" by simp
      then have "kernel_heap_base s1 # as1 = (us @ p # butlast vs) @ [last vs, h]" using L ts by simp
      moreover have l: "last (p # vs) = last vs" using vs by simp
      ultimately have "\<exists>r s'. malloc_loop n PD fl (last (p # butlast xs)) (last vs) s1 = Some (r, s') \<and>
          malloc_done n s as PD R r s'"
        using small L(2) by (intro malloc_grow_again [OF r k n _ ts(2)]) simp_all
      then show ?thesis using none(2) l unfolding hd_xs last_xs by presburger
    qed
  qed
qed

lemma malloc_loop_correct:
  assumes r: "heap_ready s as PD R" and n: "0 < n" "unat n \<le> 0x1000000"
  shows "\<exists>r s'. malloc_loop n PD fl (free_headers_head s) (hdr_next s (free_headers_head s)) s = Some (r, s') \<and>
    malloc_done n s as PD R r s' \<and> ((\<exists>x \<in> set as. n \<le> hdr_size s x) \<longrightarrow> r \<noteq> 0)"
proof -
  let ?p = "free_headers_head s" and ?b = "kernel_heap_base s"
  note W = heap_wfD [OF heap_readyD(1) [OF r]]
  obtain us vs where L: "?b # as = us @ ?p # vs" using W(4) by (meson split_list)
  let ?xs = "vs @ us @ [?p]"
  have c: "chain (hdr_next s) (?p # ?xs) (hd ?xs)" by (rule ring_rotate [OF W(1) L])
  have d: "?p \<notin> set (butlast ?xs)" using W(10) unfolding L by (auto simp: butlast_append)
  have nx: "hd ?xs = hdr_next s ?p" using c by (simp add: chain_Cons hd_append)
  have set_xs: "set (?p # ?xs) = set (?b # as)" unfolding L by auto
  have k0: "kept s as s as" by (simp add: kept_def others_kept_def)
  show ?thesis
  proof (rule malloc_scan [OF c _ d, where n = n and PD = PD and fl = fl])
    fix ys x zs assume x: "?xs = ys @ x # zs" "n \<le> hdr_size s x"
      "malloc_loop n PD fl ?p (hd ?xs) s = Some (take_block n (last (?p # ys)) x s)"
      "hdr_next s (last (?p # ys)) = x"
    have "last (?p # ys) \<in> set (?p # ys @ x # zs)" by auto
    then have "last (?p # ys) \<in> set (?b # as)" "x \<in> set (?b # as)"
      unfolding set_xs [symmetric] x(1) by auto
    from take_block_done [OF r k0 n(1) x(2) this(2,1) x(4)] show ?thesis using x(3) nx by auto
  next
    assume none: "\<forall>x\<in>set ?xs. hdr_size s x < n"
      "malloc_loop n PD fl ?p (hd ?xs) s = malloc_loop n PD fl (last (?p # butlast ?xs)) (last ?xs) s"
    let ?q = "last (?p # butlast ?xs)"
    have run: "malloc_loop n PD fl ?p (hdr_next s ?p) s = malloc_loop n PD fl ?q ?p s" using none(2) nx by simp
    have small: "\<forall>x \<in> set (?b # as). hdr_size s x < n" using none(1) unfolding L by auto
    then have nofit: "\<not> (\<exists>x \<in> set as. n \<le> hdr_size s x)" by auto
    have p: "\<not> n \<le> hdr_size s ?p" using small W(4) by auto
    from r n(2) show ?thesis
    proof (cases rule: more_headers_result [where flags = fl])
      case (fail s2)
      have "kept s as s2 as"
        using fail(3,5,8) heap_readyD(3) [OF r] heap_readyD(3) [OF fail(2)]
        by (simp add: kept_def allocated_block_def free_bytes_def)
      then have "malloc_done n s as PD R 0 s2" using fail(2) by (auto simp: malloc_done_def)
      moreover have "malloc_loop n PD fl ?q ?p s = Some (0, s2)"
        by (subst malloc_loop.simps) (use fail(1) p in simp)
      ultimately show ?thesis using run nofit by auto
    next
      case (ok s2 as2 loc h)
      have k2: "kept s as s2 as2"
        by (rule more_headers_kept_ready [OF r ok(3,4)]) (use ok(6,7,11,12,14) in simp_all)
      define ts where "ts = (if as2 = as then [] else [h])"
      have "as2 = as @ ts" using ok(9) unfolding ts_def by auto
      then have "kernel_heap_base s2 # as2 = (?b # as) @ ts" using ok(13) by simp
      then have L2: "kernel_heap_base s2 # as2 = us @ ?p # vs @ ts" unfolding L by simp
      have loc: "free_headers_head s2 = last (?p # vs)" using ok(4,5) unfolding L by simp
      have big: "ts = [] \<and> n \<le> hdr_size s2 (last (?p # vs)) \<or> ts = [h] \<and> n \<le> hdr_size s2 h"
        using ok(9,5) loc unfolding ts_def by auto
      have "malloc_loop n PD fl ?q ?p s = malloc_loop n PD fl ?p (hdr_next s2 ?p) s2"
        by (subst malloc_loop.simps) (use ok(1,2) p in simp)
      then show ?thesis using malloc_after_growth [OF ok(3) k2 n L2 loc big, of fl] run nofit by auto
    qed
  qed simp
qed

end
