(* ===== verification/Heap_Interface.thy ===== *)
theory Heap_Interface
  imports Kernel_Heap
begin

text \<open>
  The kernel heap seen by its clients: the interface \<open>heap_allocator\<close>, its interpretation on the
  definitions of \<^verbatim>\<open>src/kernel_heap.c\<close>, a concrete heap, and the properties of the heap.
\<close>

section \<open>The interface of the heap\<close>

text \<open>
  What a client of the heap relies on: a request always returns; a block that was handed out keeps
  its bytes until it is released, and no two blocks overlap.
\<close>

locale heap_allocator =
  fixes ready :: "'s \<Rightarrow> bool" and live :: "'s \<Rightarrow> u32 \<Rightarrow> bool" and extent :: "'s \<Rightarrow> u32 \<Rightarrow> nat set"
    and fits :: "u32 \<Rightarrow> bool" and malloc :: "u32 \<Rightarrow> 's \<Rightarrow> (u32 \<times> 's) option" and free :: "u32 \<Rightarrow> 's \<Rightarrow> 's option"
  assumes malloc_returns: "ready s \<Longrightarrow> fits n \<Longrightarrow> \<exists>r s'. malloc n s = Some (r, s') \<and> ready s'"
    and malloc_fresh: "ready s \<Longrightarrow> fits n \<Longrightarrow> malloc n s = Some (r, s') \<Longrightarrow> r \<noteq> 0 \<Longrightarrow> live s' r"
    and malloc_keeps: "ready s \<Longrightarrow> fits n \<Longrightarrow> malloc n s = Some (r, s') \<Longrightarrow> live s a \<Longrightarrow>
      live s' a \<and> extent s' a = extent s a \<and> (r \<noteq> 0 \<longrightarrow> extent s a \<inter> extent s' r = {})"
    and free_returns: "ready s \<Longrightarrow> live s a \<Longrightarrow> \<exists>s'. free a s = Some s' \<and> ready s'"
    and free_keeps: "ready s \<Longrightarrow> live s a \<Longrightarrow> free a s = Some s' \<Longrightarrow> live s b \<Longrightarrow>
      extent s a \<inter> extent s b = {} \<Longrightarrow> live s' b \<and> extent s' b = extent s b"

text \<open>A client session: requests, and releases of the \<open>i\<close>-th block still held.\<close>

datatype heap_request = Malloc u32 | Free nat

fun heap_session :: "(u32 \<Rightarrow> 's \<Rightarrow> (u32 \<times> 's) option) \<Rightarrow> (u32 \<Rightarrow> 's \<Rightarrow> 's option) \<Rightarrow>
    heap_request list \<Rightarrow> u32 list \<Rightarrow> 's \<Rightarrow> (u32 list \<times> 's) option" where
  "heap_session malloc free [] held s = Some (held, s)"
| "heap_session malloc free (Malloc n # cs) held s = do {
     (r, s) \<leftarrow> malloc n s;
     heap_session malloc free cs (if r = 0 then held else r # held) s
   }"
| "heap_session malloc free (Free i # cs) held s =
     (if i < length held then do {
        s \<leftarrow> free (held ! i) s;
        heap_session malloc free cs (take i held @ drop (Suc i) held) s
      }
      else heap_session malloc free cs held s)"

context heap_allocator
begin

definition disjoint_blocks :: "'s \<Rightarrow> u32 list \<Rightarrow> bool" where
  "disjoint_blocks s held \<longleftrightarrow> (\<forall>a \<in> set held. live s a) \<and>
     sorted_wrt (\<lambda>a b. extent s a \<inter> extent s b = {}) held"

lemma disjoint_after_malloc:
  assumes "ready s" "fits n" "malloc n s = Some (r, s')" "disjoint_blocks s held"
  shows "disjoint_blocks s' (if r = 0 then held else r # held)"
proof -
  have keep: "live s' a \<and> extent s' a = extent s a \<and> (r \<noteq> 0 \<longrightarrow> extent s a \<inter> extent s' r = {})"
    if "a \<in> set held" for a
    using malloc_keeps [OF assms(1-3)] assms(4) that by (simp add: disjoint_blocks_def)
  have "sorted_wrt (\<lambda>a b. extent s' a \<inter> extent s' b = {}) held"
    using assms(4) unfolding disjoint_blocks_def
    by (elim conjE, rule_tac sorted_wrt_mono_rel [rotated]) (simp_all add: keep)
  then show ?thesis
    using malloc_fresh [OF assms(1-3)] keep unfolding disjoint_blocks_def by auto
qed

lemma disjoint_after_free:
  assumes r: "ready s" and d: "disjoint_blocks s held" and i: "i < length held"
    and f: "free (held ! i) s = Some s'"
  shows "disjoint_blocks s' (take i held @ drop (Suc i) held)"
proof -
  let ?h = "take i held @ drop (Suc i) held"
  have split: "held = take i held @ held ! i # drop (Suc i) held" using i by (rule id_take_nth_drop)
  have D: "\<forall>a \<in> set held. live s a" "sorted_wrt (\<lambda>a b. extent s a \<inter> extent s b = {}) held"
    using d by (simp_all add: disjoint_blocks_def)
  have sub: "set ?h \<subseteq> set held" by (auto dest: in_set_takeD in_set_dropD)
  have apart: "extent s (held ! i) \<inter> extent s a = {}" if "a \<in> set ?h" for a
    using D(2) that by (subst (asm) split) (auto simp: sorted_wrt_append)
  have keep: "live s' a \<and> extent s' a = extent s a" if "a \<in> set ?h" for a
    using free_keeps [OF r _ f, of a] D(1) sub that apart [OF that] i by auto
  have "sorted_wrt (\<lambda>a b. extent s a \<inter> extent s b = {}) ?h"
    using D(2) by (subst (asm) split) (auto simp: sorted_wrt_append)
  then have "sorted_wrt (\<lambda>a b. extent s' a \<inter> extent s' b = {}) ?h"
    by (rule sorted_wrt_mono_rel [rotated]) (simp_all add: keep)
  then show ?thesis unfolding disjoint_blocks_def using keep by blast
qed

lemma session_disjoint:
  assumes "ready s" "disjoint_blocks s held" "\<forall>n. Malloc n \<in> set cs \<longrightarrow> fits n"
  shows "\<exists>held' s'. heap_session malloc free cs held s = Some (held', s') \<and> ready s' \<and> disjoint_blocks s' held'"
  using assms
proof (induction cs arbitrary: held s)
  case (Cons c cs)
  show ?case
  proof (cases c)
    case (Malloc n)
    obtain r s1 where m: "malloc n s = Some (r, s1)" "ready s1"
      using malloc_returns Cons.prems Malloc by fastforce
    have "disjoint_blocks s1 (if r = 0 then held else r # held)"
      using disjoint_after_malloc [OF Cons.prems(1) _ m(1)] Cons.prems Malloc by simp
    from Cons.IH [OF m(2) this] Cons.prems(3) show ?thesis using m Malloc by simp
  next
    case (Free i)
    show ?thesis
    proof (cases "i < length held")
      case True
      have "live s (held ! i)" using Cons.prems(2) True by (simp add: disjoint_blocks_def)
      then obtain s1 where f: "free (held ! i) s = Some s1" "ready s1"
        using free_returns Cons.prems(1) by blast
      from Cons.IH [OF f(2) disjoint_after_free [OF Cons.prems(1,2) True f(1)]] Cons.prems(3)
      show ?thesis using f Free True by simp
    next
      case False
      then show ?thesis using Cons.IH [OF Cons.prems(1,2)] Cons.prems(3) Free by simp
    qed
  qed
qed simp

end

section \<open>The kernel heap provides the interface\<close>

lemma chain_unique:
  "chain nxt (x # xs) b \<Longrightarrow> chain nxt (x # ys) b \<Longrightarrow> b \<notin> set xs \<Longrightarrow> b \<notin> set ys \<Longrightarrow> xs = ys"
proof (induction xs arbitrary: x ys)
  case Nil
  then show ?case by (cases ys) auto
next
  case (Cons a xs)
  then obtain ys' where "ys = a # ys'" by (cases ys) auto
  with Cons show ?case by auto
qed

lemma heap_wf_unique: "heap_wf s as \<Longrightarrow> heap_wf s as' \<Longrightarrow> as = as'"
  using chain_unique heap_wfD(1,10) by (metis distinct.simps(2))

definition kernel_heap_ready :: "'a heap_machine_scheme \<Rightarrow> bool" where
  "kernel_heap_ready s \<longleftrightarrow> (\<exists>as R. heap_ready s as (kernel_page_directory s) R)"

definition heap_live :: "'a heap_machine_scheme \<Rightarrow> u32 \<Rightarrow> bool" where
  "heap_live s a \<longleftrightarrow> (\<exists>as. heap_wf s as \<and> allocated_block s as (a - sizeof_header))"

definition heap_extent :: "'a heap_machine_scheme \<Rightarrow> u32 \<Rightarrow> nat set" where
  "heap_extent s a = block_bytes (hdr_size s) (a - sizeof_header)"

definition heap_request_fits :: "u32 \<Rightarrow> bool" where
  "heap_request_fits n \<longleftrightarrow> n \<le> 0x7FFFFF8"

lemma unat_plus_header: "unat h + 8 < 2 ^ 32 \<Longrightarrow> unat (h + sizeof_header) = unat h + 8"
  by (simp add: sizeof_header_def unat_word_ariths)

lemma unat_numeral_8: "unat (8 :: u32) = 8"
  by simp

lemma headers_for_bounds:
  assumes "heap_request_fits n"
  shows "unat (headers_for n) = (unat n + 7) div 8 + 1" "unat (headers_for n) \<le> 0x1000000" "0 < headers_for n"
proof -
  have n: "unat n \<le> 0x7FFFFF8" using assms by (simp add: heap_request_fits_def word_le_nat_alt)
  have "n + sizeof_header - 1 = n + 7" by (simp add: sizeof_header_def)
  moreover have "unat (n + 7) = unat n + 7" using n by (simp add: unat_word_ariths)
  ultimately have d: "unat ((n + sizeof_header - 1) div sizeof_header) = (unat n + 7) div 8"
    by (metis sizeof_header_def unat_div unat_numeral_8)
  moreover have "(unat n + 7) div 8 \<le> 0xFFFFFF" using n by linarith
  ultimately show e: "unat (headers_for n) = (unat n + 7) div 8 + 1"
    unfolding headers_for_def by (subst unat_add_lem [THEN iffD1]) simp_all
  then show "unat (headers_for n) \<le> 0x1000000" using n by linarith
  show "0 < headers_for n" using e by (simp add: word_less_nat_alt)
qed

lemma kernel_heap_malloc_cases:
  assumes r: "heap_ready s as (kernel_page_directory s) R" and n: "heap_request_fits n"
  obtains r s' where "kernel_heap_malloc n s = Some (r, s')" "n = 0 \<longrightarrow> r = 0"
    "malloc_done (headers_for n) s as (kernel_page_directory s) R r s'"
    "n \<noteq> 0 \<and> (\<exists>x \<in> set as. headers_for n \<le> hdr_size s x) \<longrightarrow> r \<noteq> 0"
proof (cases "n = 0")
  case True
  have "malloc_done (headers_for n) s as (kernel_page_directory s) R 0 s"
    using r by (auto simp: malloc_done_def kept_def others_kept_def)
  then show ?thesis
    using that [of 0 s] True by (simp add: kernel_heap_malloc_def kernel_heap_malloc_into_page_directory_def)
next
  case False
  then show ?thesis
    using malloc_loop_correct [OF r headers_for_bounds(3,2) [OF n], of PAGE_READ_WRITE] that
    by (auto simp: kernel_heap_malloc_def kernel_heap_malloc_into_page_directory_def)
qed

lemma malloc_done_live:
  assumes "malloc_done n s as PD R r s'" "heap_wf s as"
  shows "r \<noteq> 0 \<Longrightarrow> heap_live s' r"
    "heap_live s a \<Longrightarrow> heap_live s' a \<and> heap_extent s' a = heap_extent s a \<and>
       (r \<noteq> 0 \<longrightarrow> heap_extent s a \<inter> heap_extent s' r = {})"
proof -
  obtain as' where D: "heap_ready s' as' PD R" "kept s as s' as'"
    "r \<noteq> 0 \<longrightarrow> allocated_block s' as' (r - sizeof_header) \<and>
       (\<forall>h. allocated_block s as h \<longrightarrow>
           block_bytes (hdr_size s) h \<inter> block_bytes (hdr_size s') (r - sizeof_header) = {})"
    using assms(1) unfolding malloc_done_def by blast
  show "r \<noteq> 0 \<Longrightarrow> heap_live s' r" using D(3) heap_readyD(1) [OF D(1)] by (auto simp: heap_live_def)
  assume "heap_live s a"
  then have "allocated_block s as (a - sizeof_header)"
    using heap_wf_unique [OF assms(2)] unfolding heap_live_def by blast
  then show "heap_live s' a \<and> heap_extent s' a = heap_extent s a \<and>
       (r \<noteq> 0 \<longrightarrow> heap_extent s a \<inter> heap_extent s' r = {})"
    using D heap_readyD(1) [OF D(1)]
    by (auto simp: heap_live_def heap_extent_def kept_def block_bytes_def block_end_def)
qed


lemma kernel_heap_free_live:
  assumes r: "heap_ready s as PD R" and l: "heap_live s a"
  obtains nx sz loc as' where
    "kernel_heap_free a s = Some (s\<lparr>hdr_next := nx, hdr_size := sz, free_headers_head := loc\<rparr>)"
    "heap_ready (s\<lparr>hdr_next := nx, hdr_size := sz, free_headers_head := loc\<rparr>) as' PD R"
    "\<forall>b. heap_live s b \<and> heap_extent s a \<inter> heap_extent s b = {} \<longrightarrow>
       heap_live (s\<lparr>hdr_next := nx, hdr_size := sz, free_headers_head := loc\<rparr>) b \<and> sz (b - sizeof_header) = hdr_size s (b - sizeof_header)"
proof -
  note H = heap_readyD [OF r]
  note W = heap_wfD [OF H(1)]
  have live: "allocated_block s as (b - sizeof_header)" if "heap_live s b" for b
    using that heap_wf_unique [OF H(1)] unfolding heap_live_def by blast
  from H(1) live [OF l] show thesis
  proof (cases rule: kernel_heap_free_correct)
    case F: (1 nx sz loc us ks ws vs as')
    let ?s = "s\<lparr>hdr_next := nx, hdr_size := sz, free_headers_head := loc\<rparr>" and ?h = "a - sizeof_header"
    have ready: "heap_ready ?s as' PD R"
      using F(2) H unfolding heap_ready_machine by (simp add: word_le_nat_alt)
    have "heap_live ?s b \<and> sz (b - sizeof_header) = hdr_size s (b - sizeof_header)"
      if b: "heap_live s b" "heap_extent s a \<inter> heap_extent s b = {}" for b
    proof -
      let ?k = "b - sizeof_header"
      note K = live [OF b(1)]
      have start: "unat x \<in> block_bytes (hdr_size s) x" if "0 < hdr_size s x" for x
        using that by (simp add: block_bytes_def block_end_def word_less_nat_alt)
      have "?k \<noteq> ?h"
        using b(2) start [of ?k] K by (auto simp: heap_extent_def allocated_block_def)
      moreover have "?k \<noteq> loc"
      proof
        assume "?k = loc"
        moreover have "loc \<in> set (kernel_heap_base s # as)" unfolding F(4) by simp
        ultimately show False
          using K allocated_not_free [OF K] free_start [OF H(1)] W(5) by (auto simp: allocated_block_def)
      qed
      ultimately have same: "sz ?k = hdr_size s ?k" using F(9) by blast
      then have "block_bytes sz ?k = block_bytes (hdr_size s) ?k" "block_end sz ?k = block_end (hdr_size s) ?k"
        by (simp_all add: block_bytes_def block_end_def)
      then have "allocated_block ?s as' ?k"
        using K same b(2) F(3) by (auto simp: allocated_block_def heap_extent_def)
      then show ?thesis using same F(2) unfolding heap_live_def by blast
    qed
    then show thesis using that F(1) ready by simp
  qed
qed

interpretation kernel_heap: heap_allocator kernel_heap_ready heap_live heap_extent heap_request_fits
    kernel_heap_malloc kernel_heap_free
proof
  fix s :: "'a heap_machine_scheme" and n r s' a b
  show "\<exists>r s'. kernel_heap_malloc n s = Some (r, s') \<and> kernel_heap_ready s'"
    if r: "kernel_heap_ready s" and n: "heap_request_fits n"
  proof -
    obtain as R where "heap_ready s as (kernel_page_directory s) R" using r unfolding kernel_heap_ready_def by blast
    from this n show ?thesis
    proof (cases rule: kernel_heap_malloc_cases)
      case (1 r s')
      then have "kernel_page_directory s' = kernel_page_directory s" "\<exists>as. heap_ready s' as (kernel_page_directory s) R"
        unfolding malloc_done_def kept_def others_kept_def by blast+
      then have "kernel_heap_ready s'" unfolding kernel_heap_ready_def by metis
      then show ?thesis using 1 by blast
    qed
  qed
  have md: "\<exists>as R. heap_wf s as \<and> malloc_done (headers_for n) s as (kernel_page_directory s) R r s'"
    if r: "kernel_heap_ready s" "heap_request_fits n" "kernel_heap_malloc n s = Some (r, s')"
  proof -
    obtain as R where h: "heap_ready s as (kernel_page_directory s) R" using r unfolding kernel_heap_ready_def by blast
    from h r(2) show ?thesis
    proof (cases rule: kernel_heap_malloc_cases)
      case (1 r' s'')
      then show ?thesis using r(3) heap_readyD(1) [OF h] by fastforce
    qed
  qed
  show "heap_live s' r"
    if "kernel_heap_ready s" "heap_request_fits n" "kernel_heap_malloc n s = Some (r, s')" "r \<noteq> 0"
    using md [OF that(1-3)] malloc_done_live(1) that(4) by blast
  show "heap_live s' a \<and> heap_extent s' a = heap_extent s a \<and> (r \<noteq> 0 \<longrightarrow> heap_extent s a \<inter> heap_extent s' r = {})"
    if "kernel_heap_ready s" "heap_request_fits n" "kernel_heap_malloc n s = Some (r, s')" "heap_live s a"
    using md [OF that(1-3)] malloc_done_live(2) [OF _ _ that(4)] by blast
  show "\<exists>s'. kernel_heap_free a s = Some s' \<and> kernel_heap_ready s'" if k: "kernel_heap_ready s" "heap_live s a"
  proof -
    obtain as R where "heap_ready s as (kernel_page_directory s) R" using k(1) unfolding kernel_heap_ready_def by blast
    from this k(2) show ?thesis
      by (cases rule: kernel_heap_free_live) (auto simp: kernel_heap_ready_def)
  qed
  show "heap_live s' b \<and> heap_extent s' b = heap_extent s b"
    if k: "kernel_heap_ready s" "heap_live s a" "kernel_heap_free a s = Some s'" "heap_live s b"
      "heap_extent s a \<inter> heap_extent s b = {}"
  proof -
    obtain as R where "heap_ready s as (kernel_page_directory s) R" using k(1) unfolding kernel_heap_ready_def by blast
    from this k(2) show ?thesis
    proof (cases rule: kernel_heap_free_live)
      case (1 nx sz loc as')
      then show ?thesis using k(3-5) by (auto simp: heap_extent_def block_bytes_def block_end_def)
    qed
  qed
qed


section \<open>What clients of the heap use\<close>

lemma kernel_heap_malloc_blocks:
  assumes "heap_ready s as (kernel_page_directory s) R" "heap_request_fits n"
  shows "\<exists>r s' as'. kernel_heap_malloc n s = Some (r, s') \<and> heap_ready s' as' (kernel_page_directory s') R \<and>
    others_kept s s' \<and> (n = 0 \<longrightarrow> r = 0) \<and> (n \<noteq> 0 \<and> (\<exists>x \<in> set as. headers_for n \<le> hdr_size s x) \<longrightarrow> r \<noteq> 0) \<and>
    (r \<noteq> 0 \<longrightarrow> heap_live s' r \<and> {unat r ..< unat r + unat n} \<subseteq> heap_extent s' r) \<and>
    (\<forall>a. heap_live s a \<longrightarrow> heap_live s' a \<and> heap_extent s' a = heap_extent s a \<and>
       (r \<noteq> 0 \<longrightarrow> heap_extent s a \<inter> heap_extent s' r = {}))"
  using assms
proof (cases rule: kernel_heap_malloc_cases)
  case (1 r s')
  obtain as' where D: "heap_ready s' as' (kernel_page_directory s) R" "others_kept s s'"
    "r \<noteq> 0 \<longrightarrow> allocated_block s' as' (r - sizeof_header) \<and> hdr_size s' (r - sizeof_header) = headers_for n"
    using 1(3) unfolding malloc_done_def kept_def by blast
  have pd: "kernel_page_directory s' = kernel_page_directory s" using D(2) by (simp add: others_kept_def)
  have room: "{unat r ..< unat r + unat n} \<subseteq> heap_extent s' r" if "r \<noteq> 0"
  proof -
    let ?h = "r - sizeof_header"
    have al: "allocated_block s' as' ?h" "hdr_size s' ?h = headers_for n" using D(3) that by auto
    then have be: "block_end (hdr_size s') ?h \<le> unat (heap_break s')" by (simp add: allocated_block_def)
    have hf: "unat (headers_for n) = (unat n + 7) div 8 + 1" by (rule headers_for_bounds(1) [OF assms(2)])
    then have lt: "unat ?h + 8 < 2 ^ 32"
      using be al(2) unat_u32 [of "heap_break s'"] by (simp add: block_end_def)
    have "unat (?h + sizeof_header) = unat ?h + 8" by (rule unat_plus_header [OF lt])
    then have "unat r = unat ?h + 8" by simp
    moreover have "unat n \<le> 8 * ((unat n + 7) div 8)" by linarith
    ultimately show ?thesis using al(2) hf by (auto simp: heap_extent_def block_bytes_def block_end_def)
  qed
  have K: "\<forall>a. heap_live s a \<longrightarrow> heap_live s' a \<and> heap_extent s' a = heap_extent s a \<and>
       (r \<noteq> 0 \<longrightarrow> heap_extent s a \<inter> heap_extent s' r = {})" "r \<noteq> 0 \<longrightarrow> heap_live s' r"
    using malloc_done_live [OF 1(3) heap_readyD(1) [OF assms(1)]] by blast+
  show ?thesis
    by (rule exI [of _ r], rule exI [of _ s'], rule exI [of _ as'])
      (use 1(1,2,4) D(1,2) pd K room in \<open>simp only: simp_thms\<close>, blast)
qed

text \<open>The fields that the heap depends on.\<close>

definition same_heap :: "'a heap_machine_scheme \<Rightarrow> 'b heap_machine_scheme \<Rightarrow> bool" where
  "same_heap s s' \<longleftrightarrow> pmem s' = pmem s \<and> cr3 s' = cr3 s \<and> cr4_pse s' = cr4_pse s \<and> memory_bitmap s' = memory_bitmap s \<and>
     bounce_pages_used s' = bounce_pages_used s \<and> kernel_page_directory s' = kernel_page_directory s \<and>
     hdr_next s' = hdr_next s \<and> hdr_size s' = hdr_size s \<and> kernel_heap_base s' = kernel_heap_base s \<and>
     free_headers_head s' = free_headers_head s \<and> heap_start s' = heap_start s \<and> heap_end s' = heap_end s \<and>
     heap_break s' = heap_break s"

lemma same_heap_trans: "same_heap s s' \<Longrightarrow> same_heap s' s'' \<Longrightarrow> same_heap s s''"
  by (simp add: same_heap_def)

lemma same_heapD:
  assumes "same_heap s s'"
  shows "kernel_heap_ready s' = kernel_heap_ready s" "heap_live s' = heap_live s" "heap_extent s' = heap_extent s"
proof -
  have wf: "heap_wf s' as = heap_wf s as" for as using assms by (simp add: same_heap_def heap_wf_def)
  have "heap_ready s' as (kernel_page_directory s') R = heap_ready s as (kernel_page_directory s) R" for as R
    using assms wf by (simp add: same_heap_def heap_ready_def editable_def self_window_def bounce_ready_def
        machine_wf_def bounce_table_def)
  then show "kernel_heap_ready s' = kernel_heap_ready s" by (simp add: kernel_heap_ready_def)
  have "allocated_block s' as h = allocated_block s as h" for as h
    using assms by (simp add: same_heap_def allocated_block_def free_bytes_def)
  with wf show "heap_live s' = heap_live s" by (simp add: fun_eq_iff heap_live_def)
  show "heap_extent s' = heap_extent s" using assms by (intro ext) (simp add: heap_extent_def same_heap_def)
qed

lemma heap_malloc_client:
  assumes "kernel_heap_ready s" "heap_request_fits n"
  obtains r s' where "kernel_heap_malloc n s = Some (r, s')" "kernel_heap_ready s'" "others_kept s s'" "n = 0 \<longrightarrow> r = 0"
    "r \<noteq> 0 \<longrightarrow> heap_live s' r \<and> {unat r ..< unat r + unat n} \<subseteq> heap_extent s' r"
    "\<forall>a. heap_live s a \<longrightarrow> heap_live s' a \<and> heap_extent s' a = heap_extent s a \<and>
       (r \<noteq> 0 \<longrightarrow> heap_extent s a \<inter> heap_extent s' r = {})"
proof -
  obtain as R where "heap_ready s as (kernel_page_directory s) R" using assms(1) unfolding kernel_heap_ready_def by blast
  from kernel_heap_malloc_blocks [OF this assms(2)] show thesis using that unfolding kernel_heap_ready_def by blast
qed

lemma heap_free_client:
  assumes "kernel_heap_ready s" "heap_live s a"
  obtains s' where "kernel_heap_free a s = Some s'" "kernel_heap_ready s'" "others_kept s s'"
    "\<forall>b. heap_live s b \<and> heap_extent s a \<inter> heap_extent s b = {} \<longrightarrow> heap_live s' b \<and> heap_extent s' b = heap_extent s b"
proof -
  obtain as R where "heap_ready s as (kernel_page_directory s) R" using assms(1) unfolding kernel_heap_ready_def by blast
  from this assms(2) show thesis
  proof (cases rule: kernel_heap_free_live)
    case (1 nx sz loc as')
    let ?s = "s\<lparr>hdr_next := nx, hdr_size := sz, free_headers_head := loc\<rparr>"
    have r: "kernel_heap_ready ?s" using 1(2) by (auto simp: kernel_heap_ready_def)
    have "others_kept s ?s" by (simp add: others_kept_def)
    moreover have "\<forall>b. heap_live s b \<and> heap_extent s a \<inter> heap_extent s b = {} \<longrightarrow>
        heap_live ?s b \<and> heap_extent ?s b = heap_extent s b"
      using kernel_heap.free_keeps [OF assms 1(1)] by blast
    ultimately show thesis using that [OF 1(1) r] by blast
  qed
qed

lemma heap_live_range:
  assumes "kernel_heap_ready s" "heap_live s a"
  shows "heap_extent s a \<subseteq> {0xF0000000 ..< 0xF7FFF000}"
proof -
  obtain as R where r: "heap_ready s as (kernel_page_directory s) R" using assms(1) unfolding kernel_heap_ready_def by blast
  note H = heap_readyD [OF r]
  have "allocated_block s as (a - sizeof_header)"
    using assms(2) heap_wf_unique [OF H(1)] unfolding heap_live_def by blast
  then show ?thesis using H(3,6) by (auto simp: heap_extent_def block_bytes_def allocated_block_def word_le_nat_alt)
qed

lemma kernel_heap_calloc_malloc:
  "kernel_heap_calloc n s = map_option (\<lambda>(r, s). (r, if r = 0 then s else s\<lparr>heap_data := memset_loop (unat n) (heap_data s) r nul\<rparr>))
     (kernel_heap_malloc n s)"
  by (cases "kernel_heap_malloc n s")
    (auto simp: kernel_heap_calloc_def kernel_heap_calloc_into_page_directory_def kernel_heap_malloc_def memset_def)

lemma same_heap_data [simp]: "same_heap s (s\<lparr>heap_data := d\<rparr>)"
  by (simp add: same_heap_def)

lemma heap_calloc_client:
  assumes "kernel_heap_ready s" "heap_request_fits n"
  obtains r s' where "kernel_heap_calloc n s = Some (r, s')" "kernel_heap_ready s'"
    "heap_machine.more s' = heap_machine.more s" "n = 0 \<longrightarrow> r = 0"
    "r \<noteq> 0 \<longrightarrow> heap_live s' r \<and> {unat r ..< unat r + unat n} \<subseteq> heap_extent s' r"
    "\<forall>a. heap_live s a \<longrightarrow> heap_live s' a \<and> heap_extent s' a = heap_extent s a \<and>
       (r \<noteq> 0 \<longrightarrow> heap_extent s a \<inter> heap_extent s' r = {} \<and> (n \<noteq> 0 \<longrightarrow> a \<noteq> r))"
    "heap_data s' = (if r = 0 then heap_data s else memset_loop (unat n) (heap_data s) r nul)"
proof (rule heap_malloc_client [OF assms])
  fix r s1
  assume m: "kernel_heap_malloc n s = Some (r, s1)" "kernel_heap_ready s1" "others_kept s s1" "n = 0 \<longrightarrow> r = 0"
    "r \<noteq> 0 \<longrightarrow> heap_live s1 r \<and> {unat r ..< unat r + unat n} \<subseteq> heap_extent s1 r"
    "\<forall>a. heap_live s a \<longrightarrow> heap_live s1 a \<and> heap_extent s1 a = heap_extent s a \<and>
       (r \<noteq> 0 \<longrightarrow> heap_extent s a \<inter> heap_extent s1 r = {})"
  let ?d = "if r = 0 then heap_data s else memset_loop (unat n) (heap_data s) r nul"
  let ?s = "s1\<lparr>heap_data := ?d\<rparr>"
  have h: "heap_live ?s = heap_live s1" "heap_extent ?s = heap_extent s1" "kernel_heap_ready ?s"
    using same_heapD [OF same_heap_data [of s1 ?d]] m(2) by blast+
  have r: "a \<noteq> r" if "r \<noteq> 0" "n \<noteq> 0" "heap_live s a" for a
  proof
    assume "a = r"
    with that m(5,6) have "heap_extent s1 r = {}" "unat r \<in> heap_extent s1 r" by (auto simp: unat_gt_0)
    then show False by simp
  qed
  show thesis
  proof (rule that)
    show "kernel_heap_calloc n s = Some (r, ?s)"
      using m(1,3) by (auto simp: kernel_heap_calloc_malloc others_kept_def)
    show "heap_machine.more ?s = heap_machine.more s" using m(3) by (simp add: others_kept_def)
    show "\<forall>a. heap_live s a \<longrightarrow> heap_live ?s a \<and> heap_extent ?s a = heap_extent s a \<and>
       (r \<noteq> 0 \<longrightarrow> heap_extent s a \<inter> heap_extent ?s r = {} \<and> (n \<noteq> 0 \<longrightarrow> a \<noteq> r))"
      unfolding h using m(6) r by blast
    show "r \<noteq> 0 \<longrightarrow> heap_live ?s r \<and> {unat r ..< unat r + unat n} \<subseteq> heap_extent ?s r" unfolding h by (rule m(5))
  qed (use m(4) h(3) in simp_all)
qed

section \<open>Blocks that share no bytes\<close>

text \<open>Blocks of the heap, no two of which share bytes.\<close>

definition separate :: "'a heap_machine_scheme \<Rightarrow> u32 set \<Rightarrow> bool" where
  "separate s B \<longleftrightarrow> (\<forall>a \<in> B. heap_live s a) \<and> (\<forall>a \<in> B. \<forall>b \<in> B. a \<noteq> b \<longrightarrow> heap_extent s a \<inter> heap_extent s b = {})"

lemma separate_mono: "separate s B \<Longrightarrow> C \<subseteq> B \<Longrightarrow> separate s C"
  unfolding separate_def by blast

lemma separate_same: "same_heap s s' \<Longrightarrow> separate s' B = separate s B"
  by (simp add: separate_def same_heapD)

lemma separate_calloc:
  assumes "kernel_heap_ready s" "separate s B" "heap_request_fits n" "n \<noteq> 0"
  obtains (none) s' where "kernel_heap_calloc n s = Some (0, s')" "kernel_heap_ready s'" "separate s' B"
      "heap_machine.more s' = heap_machine.more s"
  | (block) r s' where "kernel_heap_calloc n s = Some (r, s')" "r \<noteq> 0" "r \<notin> B" "kernel_heap_ready s'" "separate s' (insert r B)"
      "heap_machine.more s' = heap_machine.more s"
proof (rule heap_calloc_client [OF assms(1,3)])
  fix r s'
  assume h: "kernel_heap_calloc n s = Some (r, s')" "kernel_heap_ready s'" "heap_machine.more s' = heap_machine.more s"
    "r \<noteq> 0 \<longrightarrow> heap_live s' r \<and> {unat r ..< unat r + unat n} \<subseteq> heap_extent s' r"
    "\<forall>a. heap_live s a \<longrightarrow> heap_live s' a \<and> heap_extent s' a = heap_extent s a \<and>
       (r \<noteq> 0 \<longrightarrow> heap_extent s a \<inter> heap_extent s' r = {} \<and> (n \<noteq> 0 \<longrightarrow> a \<noteq> r))"
  have B: "separate s' B" using assms(2) h(5) unfolding separate_def by metis
  show thesis
  proof (cases "r = 0")
    case True
    then show thesis using none h B by blast
  next
    case False
    have "r \<notin> B" using assms(2,4) h(5) False unfolding separate_def by blast
    moreover have "heap_extent s' r \<inter> heap_extent s' a = {}" if "a \<in> B" for a
      using that assms(2) h(5) False unfolding separate_def by (metis inf_commute)
    then have "separate s' (insert r B)" using B h(4) False unfolding separate_def by (metis inf_commute insert_iff)
    ultimately show thesis using block h False by blast
  qed
qed

lemma separate_free:
  assumes "kernel_heap_ready s" "separate s B" "a \<in> B"
  obtains s' where "kernel_heap_free a s = Some s'" "kernel_heap_ready s'" "separate s' (B - {a})"
    "heap_machine.more s' = heap_machine.more s" "heap_data s' = heap_data s"
proof -
  have "heap_live s a" using assms(2,3) by (simp add: separate_def)
  with assms(1) show thesis
  proof (cases rule: heap_free_client)
    case (1 s')
    have "heap_live s' b \<and> heap_extent s' b = heap_extent s b" if "b \<in> B" "b \<noteq> a" for b
      using 1(4) that assms(2,3) unfolding separate_def by metis
    then have "separate s' (B - {a})" using assms(2) unfolding separate_def by (metis Diff_iff insertCI)
    then show thesis using that 1 by (simp add: others_kept_def)
  qed
qed

lemma separate_malloc:
  assumes "kernel_heap_ready s" "separate s B" "heap_request_fits n" "n \<noteq> 0"
  obtains (none) s' where "kernel_heap_malloc n s = Some (0, s')" "kernel_heap_ready s'" "separate s' B"
      "heap_machine.more s' = heap_machine.more s" "heap_data s' = heap_data s"
  | (block) r s' where "kernel_heap_malloc n s = Some (r, s')" "r \<noteq> 0" "r \<notin> B" "kernel_heap_ready s'" "separate s' (insert r B)"
      "heap_machine.more s' = heap_machine.more s" "heap_data s' = heap_data s"
proof (rule heap_malloc_client [OF assms(1,3)])
  fix r s'
  assume h: "kernel_heap_malloc n s = Some (r, s')" "kernel_heap_ready s'" "others_kept s s'"
    "r \<noteq> 0 \<longrightarrow> heap_live s' r \<and> {unat r ..< unat r + unat n} \<subseteq> heap_extent s' r"
    "\<forall>a. heap_live s a \<longrightarrow> heap_live s' a \<and> heap_extent s' a = heap_extent s a \<and>
       (r \<noteq> 0 \<longrightarrow> heap_extent s a \<inter> heap_extent s' r = {})"
  have k: "heap_machine.more s' = heap_machine.more s" "heap_data s' = heap_data s" using h(3) by (simp_all add: others_kept_def)
  have B: "separate s' B" using assms(2) h(5) unfolding separate_def by metis
  show thesis
  proof (cases "r = 0")
    case True
    then show thesis using none h k B by blast
  next
    case False
    have "r \<notin> B"
    proof
      assume "r \<in> B"
      then have "heap_extent s' r = {}" "unat r \<in> heap_extent s' r"
        using assms(2,4) h(4,5) False unfolding separate_def by (auto simp: unat_gt_0)
      then show False by simp
    qed
    moreover have "heap_extent s' r \<inter> heap_extent s' a = {}" if "a \<in> B" for a
      using that assms(2) h(5) False unfolding separate_def by (metis inf_commute)
    then have "separate s' (insert r B)" using B h(4) False unfolding separate_def by (metis inf_commute insert_iff)
    ultimately show thesis using block h k False by blast
  qed
qed

section \<open>A small heap\<close>

text \<open>
  The frame \<open>0x1000\<close> is the page directory, shown at \<open>0xC0005000\<close> through the page table \<open>0x3000\<close>;
  \<open>0x2000\<close> is the page table of the bounce pages.
\<close>

definition heap_pmem :: "u32 \<Rightarrow> u32" where
  "heap_pmem a =
     (if a = entry_at 0x1000 1023 then 0x1003 else if a = entry_at 0x1000 1022 then 0x2003
      else if a = entry_at 0x1000 768 then 0x3003 else if a = entry_at 0x3000 5 then 0x1003 else 0)"

definition sample_heap :: heap_machine where
  "sample_heap = kernel_heap_module_init \<lparr>pmem = heap_pmem, cr3 = 0x1000, cr4_pse = False,
     memory_bitmap = \<lparr>entries_at = 0xC0200000, entries = (\<lambda>i. if i = 0 then 15 else 0), pages = 16,
       last_allocated_page_index = 0\<rparr>,
     bounce_pages_used = (\<lambda>i. 0), kernel_page_directory = 0xC0005000, kernel_page_directory_phys = 0x1000,
     hdr_next = (\<lambda>a. 0), hdr_size = (\<lambda>a. 0), heap_data = (\<lambda>a. nul), kernel_heap_base = 0xC0004000,
     free_headers_head = 0, heap_start = 0, heap_end = 0, heap_break = 0\<rparr>"

lemma heap_entries [simp]:
  assumes "i < 1024"
  shows "heap_pmem (entry_at 0x1000 i) = (if i = 1023 then 0x1003 else if i = 1022 then 0x2003 else if i = 768 then 0x3003 else 0)"
    "heap_pmem (entry_at 0x2000 i) = 0"
    "heap_pmem (entry_at 0x3000 i) = (if i = 5 then 0x1003 else 0)"
  using assms by (simp_all add: heap_pmem_def entry_at_eq_iff)

lemma sample_heap_bitmap:
  "bitmap_wf (memory_bitmap sample_heap)"
  "{0x1000, 0x2000, 0x3000} \<subseteq> used_frames (memory_bitmap sample_heap)"
  by (simp_all add: sample_heap_def kernel_heap_module_init_def bitmap_wf_def used_frames_def page_used_def
      BITMAP_TEST_def bitmap_bit_def PAGE_SIZE_def)

lemma sample_heap_space: "address_space heap_pmem 0x1000 (used_frames (memory_bitmap sample_heap))"
  using sample_heap_bitmap(2) by (auto simp: address_space_def index_1023)

lemma sample_heap_fields:
  "pmem sample_heap = heap_pmem" "cr3 sample_heap = 0x1000" "\<not> cr4_pse sample_heap"
  "bounce_pages_used sample_heap = (\<lambda>i. 0)" "kernel_page_directory sample_heap = 0xC0005000"
  "kernel_heap_base sample_heap = 0xC0004000" "free_headers_head sample_heap = 0xC0004000"
  "heap_start sample_heap = 0xF0000000" "heap_end sample_heap = 0xF7FFF000" "heap_break sample_heap = 0xF0000000"
  "hdr_next sample_heap 0xC0004000 = 0xC0004000" "hdr_size sample_heap 0xC0004000 = 0"
  by (simp_all add: sample_heap_def kernel_heap_module_init_def KERNEL_HEAP_VIRTUAL_START_def
      KERNEL_HEAP_VIRTUAL_END_def ALIGN_UP_def ALIGN_DOWN_def PAGE_SIZE_def)

lemma sample_heap_ready: "heap_ready sample_heap [] 0xC0005000 0x1000"
proof -
  have wf: "machine_wf sample_heap"
    using sample_heap_bitmap(1) sample_heap_space by (simp add: machine_wf_def sample_heap_fields)
  have "bounce_ready sample_heap"
    using wf bounce_index(4) by (auto simp: bounce_ready_def bounce_table_def sample_heap_fields)
  moreover have "window heap_pmem 0x1000 0xC0005000 0x1000"
    by (simp add: window_def leaf_def page_offset_def page_directory_index_def page_table_index_def)
  moreover have "companion heap_pmem 0x1000 0x1000" by (auto simp: companion_def index_1023)
  moreover have "page_directory_index 0xC0005000 = 768" by (simp add: page_directory_index_def)
  ultimately show ?thesis
    using sample_heap_space
    by (auto simp: heap_ready_def heap_wf_def editable_def self_window_def sample_heap_fields intro: exI [of _ 0])
qed


section \<open>Properties\<close>



text \<open>
  (C10) Releasing a block ends, whatever block of the ring the search starts from. The block's bytes,
  and no others, become free; the free list is again in address order with no two adjacent blocks,
  so neighbours have been merged. Releasing \<^verbatim>\<open>NULL\<close> does nothing.
\<close>

theorem kernel_heap_free_coalesces:
  assumes "heap_wf s as" "allocated_block s as h"
  shows "kernel_heap_free 0 s = Some s \<and>
    (\<exists>s' as'. kernel_heap_free (h + sizeof_header) s = Some s' \<and> heap_wf s' as' \<and>
       free_bytes s' as' = free_bytes s as \<union> block_bytes (hdr_size s) h \<and> others_kept s s')"
  using assms
proof (cases rule: kernel_heap_free_correct)
  case (1 nx sz loc us ks ws vs as')
  have "others_kept s (s\<lparr>hdr_next := nx, hdr_size := sz, free_headers_head := loc\<rparr>)"
    by (simp add: others_kept_def)
  then show ?thesis using 1(1-3) by (auto simp: kernel_heap_free_def)
qed

definition sample_heap_block :: heap_machine where
  "sample_heap_block = sample_heap\<lparr>heap_break := 0xF0002000, hdr_size := (hdr_size sample_heap)(0xF0000000 := 4)\<rparr>"

lemma sample_heap_block_ok: "heap_wf sample_heap_block []" "allocated_block sample_heap_block [] 0xF0000000"
  by (simp_all add: sample_heap_block_def heap_wf_def allocated_block_def free_bytes_def sample_heap_fields
      block_end_def)

theorem kernel_heap_free_coalesces_witness:
  "heap_wf sample_heap_block [] \<and> allocated_block sample_heap_block [] 0xF0000000 \<and>
   (\<exists>s' as'. kernel_heap_free (0xF0000000 + sizeof_header) sample_heap_block = Some s' \<and> heap_wf s' as')"
  using sample_heap_block_ok kernel_heap_free_coalesces [OF sample_heap_block_ok] by blast



text \<open>
  \<^verbatim>\<open>kernel_heap_calloc\<close> gives the block that \<^verbatim>\<open>kernel_heap_malloc\<close> would give, with every requested
  byte zero and all other bytes of memory as they were; without a block it changes no byte.
\<close>

theorem kernel_heap_calloc_zeroes:
  assumes "kernel_heap_ready s" "heap_request_fits n"
  shows "\<exists>r s' s''. kernel_heap_malloc n s = Some (r, s') \<and> kernel_heap_calloc n s = Some (r, s'') \<and>
    s'' = s'\<lparr>heap_data := heap_data s''\<rparr> \<and> kernel_heap_ready s'' \<and>
    (\<forall>a. heap_data s'' a = (if r \<noteq> 0 \<and> a \<in> range_of r (unat n) then nul else heap_data s a))"
proof -
  obtain r s' where m: "kernel_heap_malloc n s = Some (r, s')" "kernel_heap_ready s'"
    using kernel_heap.malloc_returns [OF assms] by blast
  obtain as R where "heap_ready s as (kernel_page_directory s) R"
    using assms(1) unfolding kernel_heap_ready_def by blast
  from this assms(2) have "heap_data s' = heap_data s"
  proof (cases rule: kernel_heap_malloc_cases)
    case (1 r' s2)
    then show ?thesis using m(1) by (auto simp: malloc_done_def kept_def others_kept_def)
  qed
  moreover have "kernel_heap_ready (s'\<lparr>heap_data := d\<rparr>)" for d
    using m(2) by (simp add: kernel_heap_ready_def heap_ready_def heap_wf_def editable_def self_window_def
        bounce_ready_def machine_wf_def bounce_table_def)
  ultimately show ?thesis
    using m memset_loop_apply [of "unat n" "heap_data s'" r nul] unat_u32 [of n]
    by (cases "r = 0")
      (auto simp: kernel_heap_calloc_def kernel_heap_calloc_into_page_directory_def kernel_heap_malloc_def memset_def)
qed

theorem kernel_heap_calloc_zeroes_witness:
  "kernel_heap_ready sample_heap \<and> heap_request_fits 64 \<and>
   (\<exists>r s''. kernel_heap_calloc 64 sample_heap = Some (r, s'') \<and> kernel_heap_ready s'')"
proof -
  have h: "kernel_heap_ready sample_heap"
    using sample_heap_ready unfolding kernel_heap_ready_def sample_heap_fields by blast
  have f: "heap_request_fits 64" by (simp add: heap_request_fits_def)
  show ?thesis using h f kernel_heap_calloc_zeroes [OF h f] by blast
qed

end
