(* ===== verification/Linked_Lists.thy ===== *)
theory Linked_Lists
  imports Prelude "HOL-Library.Monad_Syntax"
begin

text \<open>
  Linked lists of the kernel: nodes are addresses, the list ends at \<^verbatim>\<open>NULL\<close>, and a map from
  addresses holds the \<^verbatim>\<open>next\<close> field. The loops of the C sources that walk such a list are
  partial functions, and the lemmas here say what they return on a list that ends.
\<close>

section \<open>Lists in a map of next pointers\<close>

fun path :: "(u32 \<Rightarrow> u32) \<Rightarrow> u32 \<Rightarrow> u32 list \<Rightarrow> bool" where
  "path nxt p [] \<longleftrightarrow> p = 0"
| "path nxt p (x # xs) \<longleftrightarrow> p = x \<and> x \<noteq> 0 \<and> path nxt (nxt x) xs"

lemma path_NULL [simp]: "path nxt 0 xs \<longleftrightarrow> xs = []"
  by (cases xs) auto

lemma path_nonempty: "path nxt p xs \<Longrightarrow> p \<noteq> 0 \<Longrightarrow> \<exists>ys. xs = p # ys \<and> path nxt (nxt p) ys"
  by (cases xs) auto

lemma path_no_NULL: "path nxt p xs \<Longrightarrow> 0 \<notin> set xs"
  by (induction xs arbitrary: p) auto

lemma path_unique: "path nxt p xs \<Longrightarrow> path nxt p ys \<Longrightarrow> xs = ys"
proof (induction xs arbitrary: p ys)
  case (Cons x xs)
  then show ?case by (cases ys) auto
qed simp

lemma path_cong: "(\<And>x. x \<in> set xs \<Longrightarrow> nxt' x = nxt x) \<Longrightarrow> path nxt' p xs = path nxt p xs"
  by (induction xs arbitrary: p) auto

lemma path_update [simp]: "y \<notin> set xs \<Longrightarrow> path (nxt(y := v)) p xs = path nxt p xs"
  by (rule path_cong) auto

lemma path_from_append:
  "path nxt p (xs @ y # ys) \<Longrightarrow> path nxt y (y # ys)"
  by (induction xs arbitrary: p) auto

lemma path_distinct: "path nxt p xs \<Longrightarrow> distinct xs"
proof (induction xs arbitrary: p)
  case (Cons x xs)
  have "x \<notin> set xs"
  proof
    assume "x \<in> set xs"
    then obtain as bs where "xs = as @ x # bs" by (meson split_list)
    moreover have "path nxt x (x # xs)" "path nxt (nxt x) xs" using Cons.prems by auto
    ultimately have "path nxt x (x # bs)" using path_from_append by blast
    then have "x # bs = x # xs" using path_unique Cons.prems by auto
    then show False using \<open>xs = as @ x # bs\<close> by (auto dest: arg_cong [of _ _ length])
  qed
  with Cons show ?case by auto
qed simp

text \<open>Putting an element at the end, and taking one out.\<close>

lemma path_snoc:
  assumes "path nxt p xs" "xs \<noteq> []" "y \<notin> set xs" "y \<noteq> 0" "nxt y = 0"
  shows "path (nxt(last xs := y)) p (xs @ [y])"
  using assms
proof (induction xs arbitrary: p)
  case (Cons x xs)
  show ?case
  proof (cases "xs = []")
    case True
    then show ?thesis using Cons.prems by auto
  next
    case False
    have "x \<notin> set xs" using path_distinct [OF Cons.prems(1)] by simp
    then have "x \<noteq> last xs" using False by auto
    then show ?thesis using Cons False by auto
  qed
qed simp

lemma path_remove:
  assumes "path nxt p (xs @ x # y # ys)" "v = nxt y"
  shows "path (nxt(x := v)) p (xs @ x # ys)"
  using assms path_distinct [OF assms(1)]
  by (induction xs arbitrary: p) auto

text \<open>The pointers back to the element before, \<^verbatim>\<open>q\<close> for the first one.\<close>

fun back_links :: "(u32 \<Rightarrow> u32) \<Rightarrow> u32 \<Rightarrow> u32 list \<Rightarrow> bool" where
  "back_links prv q [] \<longleftrightarrow> True"
| "back_links prv q (x # xs) \<longleftrightarrow> prv x = q \<and> back_links prv x xs"

lemma back_links_append: "back_links prv q (xs @ ys) \<longleftrightarrow> back_links prv q xs \<and> back_links prv (last (q # xs)) ys"
  by (induction xs arbitrary: q) auto

lemma back_links_cong: "(\<And>x. x \<in> set xs \<Longrightarrow> prv' x = prv x) \<Longrightarrow> back_links prv' q xs = back_links prv q xs"
  by (induction xs arbitrary: q) auto

lemma back_links_update [simp]: "y \<notin> set xs \<Longrightarrow> back_links (prv(y := v)) q xs = back_links prv q xs"
  by (rule back_links_cong) auto

text \<open>Unlinking the element \<^verbatim>\<open>h\<close> of a doubly linked list.\<close>

lemma path_unlink:
  assumes "path nxt p (us @ h # vs)"
  shows "path (if us = [] then nxt else nxt(last us := nxt h)) (if us = [] then nxt h else p) (us @ vs)"
proof (cases us rule: rev_cases)
  case Nil
  then show ?thesis using assms by simp
next
  case (snoc ws q)
  then show ?thesis using path_remove [of nxt p ws q h vs "nxt h"] assms by simp
qed

lemma back_links_unlink:
  assumes "back_links prv 0 (us @ h # vs)" "distinct (us @ h # vs)"
  shows "back_links (if vs = [] then prv else prv(hd vs := prv h)) 0 (us @ vs)"
  using assms by (cases vs) (auto simp: back_links_append)

lemma path_neighbours:
  assumes "path nxt p (us @ h # vs)" "back_links prv 0 (us @ h # vs)"
  shows "nxt h = 0 \<longleftrightarrow> vs = []" "vs \<noteq> [] \<Longrightarrow> nxt h = hd vs" "prv h = last (0 # us)" "prv h = 0 \<longleftrightarrow> us = []"
proof -
  have h: "path nxt h (h # vs)" using path_from_append [OF assms(1)] .
  then show "nxt h = 0 \<longleftrightarrow> vs = []" "vs \<noteq> [] \<Longrightarrow> nxt h = hd vs" by (cases vs; auto)+
  show l: "prv h = last (0 # us)" using assms(2) by (simp add: back_links_append)
  have "0 \<notin> set us" using path_no_NULL [OF assms(1)] by simp
  then show "prv h = 0 \<longleftrightarrow> us = []" using l by (cases us rule: rev_cases) auto
qed

section \<open>Walking a list\<close>

text \<open>\<^verbatim>\<open>while (head->next != NULL) head = head->next;\<close>\<close>

partial_function (option) queue_last :: "(u32 \<Rightarrow> u32) \<Rightarrow> u32 \<Rightarrow> u32 option" where
  "queue_last nxt head = (if nxt head \<noteq> 0 then queue_last nxt (nxt head) else Some head)"

lemma queue_last_path: "path nxt p xs \<Longrightarrow> xs \<noteq> [] \<Longrightarrow> queue_last nxt p = Some (last xs)"
proof (induction xs arbitrary: p)
  case (Cons x xs)
  then show ?case
    by (cases xs) (auto simp: queue_last.simps [of nxt x])
qed simp

text \<open>
  The search for the element before \<open>task\<close>: \<open>Some None\<close> when the end is reached first.
\<close>

partial_function (option) find_previous :: "(u32 \<Rightarrow> u32) \<Rightarrow> u32 \<Rightarrow> u32 \<Rightarrow> u32 option option" where
  "find_previous nxt task head =
     (if nxt head = 0 then Some None
      else if nxt head = task then Some (Some head)
      else find_previous nxt task (nxt head))"

lemma find_previous_found:
  assumes "path nxt p (xs @ x # y # ys)"
  shows "find_previous nxt y p = Some (Some x)"
  using assms
proof (induction xs arbitrary: p)
  case Nil
  then show ?case by (simp add: find_previous.simps [of nxt y x])
next
  case (Cons a xs)
  have d: "distinct ((a # xs) @ x # y # ys)" using path_distinct Cons.prems by blast
  have "nxt a \<noteq> y" "nxt a \<noteq> 0"
  proof -
    have "nxt a = hd (xs @ [x])" using Cons.prems by (cases xs) auto
    moreover have "hd (xs @ [x]) \<in> set (xs @ [x])" by (cases xs) auto
    ultimately show "nxt a \<noteq> y" "nxt a \<noteq> 0" using d path_no_NULL [OF Cons.prems] by auto
  qed
  moreover have "p = a" "path nxt (nxt a) (xs @ x # y # ys)" using Cons.prems by auto
  ultimately show ?case using Cons.IH by (simp add: find_previous.simps [of nxt y a])
qed

lemma find_previous_missing:
  assumes "path nxt p xs" "xs \<noteq> []" "y \<notin> set (tl xs)"
  shows "find_previous nxt y p = Some None"
  using assms
proof (induction xs arbitrary: p)
  case (Cons x xs)
  then show ?case
    by (cases xs) (auto simp: find_previous.simps [of nxt y x])
qed simp

text \<open>The first element of a list that satisfies a test, \<^verbatim>\<open>NULL\<close> if there is none.\<close>

partial_function (option) list_find :: "(u32 \<Rightarrow> u32) \<Rightarrow> (u32 \<Rightarrow> bool) \<Rightarrow> u32 \<Rightarrow> u32 option" where
  "list_find nxt test head =
     (if head = 0 then Some 0 else if test head then Some head else list_find nxt test (nxt head))"

lemma list_find_path:
  "path nxt p xs \<Longrightarrow> list_find nxt test p = Some (case find test xs of None \<Rightarrow> 0 | Some x \<Rightarrow> x)"
proof (induction xs arbitrary: p)
  case Nil
  then show ?case by (simp add: list_find.simps [of nxt test 0])
next
  case (Cons x xs)
  then show ?case by (auto simp: list_find.simps [of nxt test x])
qed

section \<open>The interface of a queue\<close>

text \<open>
  A first-in first-out queue: \<open>holds s xs\<close> says that the state \<open>s\<close> holds the elements \<open>xs\<close>, and
  \<open>admits s xs ys\<close> that the elements \<open>ys\<close> may be put in one after the other.
\<close>

locale fifo_queue =
  fixes holds :: "'s \<Rightarrow> 'e list \<Rightarrow> bool" and admits :: "'s \<Rightarrow> 'e list \<Rightarrow> 'e list \<Rightarrow> bool"
    and put :: "'e \<Rightarrow> 's \<Rightarrow> 's option" and get :: "'s \<Rightarrow> ('e \<times> 's) option"
  assumes put_law: "holds s xs \<Longrightarrow> admits s xs (y # ys) \<Longrightarrow>
      \<exists>s'. put y s = Some s' \<and> holds s' (xs @ [y]) \<and> admits s' (xs @ [y]) ys"
    and get_law: "holds s (x # xs) \<Longrightarrow> \<exists>s'. get s = Some (x, s') \<and> holds s' xs"

primrec drain :: "('s \<Rightarrow> ('e \<times> 's) option) \<Rightarrow> nat \<Rightarrow> 's \<Rightarrow> ('e list \<times> 's) option" where
  "drain get 0 s = Some ([], s)"
| "drain get (Suc n) s = do { (x, s) \<leftarrow> get s; (xs, s) \<leftarrow> drain get n s; Some (x # xs, s) }"

context fifo_queue
begin

lemma fill_holds:
  "holds s xs \<Longrightarrow> admits s xs ys \<Longrightarrow> \<exists>s'. for_each put ys s = Some s' \<and> holds s' (xs @ ys)"
proof (induction ys arbitrary: s xs)
  case (Cons y ys)
  obtain s1 where "put y s = Some s1" "holds s1 (xs @ [y])" "admits s1 (xs @ [y]) ys"
    using put_law [OF Cons.prems] by blast
  with Cons.IH [of s1 "xs @ [y]"] show ?case by auto
qed simp

lemma drain_holds: "holds s (xs @ ys) \<Longrightarrow> \<exists>s'. drain get (length xs) s = Some (xs, s') \<and> holds s' ys"
proof (induction xs arbitrary: s)
  case (Cons x xs)
  obtain s1 where "get s = Some (x, s1)" "holds s1 (xs @ ys)" using get_law Cons.prems by fastforce
  with Cons.IH [of s1] show ?case by auto
qed simp

lemma fifo_order:
  assumes "holds s xs" "admits s xs ys"
  shows "\<exists>s1 s2. for_each put ys s = Some s1 \<and> drain get (length (xs @ ys)) s1 = Some (xs @ ys, s2) \<and> holds s2 []"
proof -
  obtain s1 where s1: "for_each put ys s = Some s1" "holds s1 ((xs @ ys) @ [])"
    using fill_holds [OF assms] by auto
  obtain s2 where "drain get (length (xs @ ys)) s1 = Some (xs @ ys, s2)" "holds s2 []"
    using drain_holds [OF s1(2)] by blast
  with s1(1) show ?thesis by blast
qed

end

end
