(* ===== verification/Task_State.thy ===== *)
theory Task_State
  imports Heap_Interface Linked_Lists
begin

text \<open>
  The state of the kernel above the heap: the tasks of \<^verbatim>\<open>include/task_manager.h\<close>, the resources of
  \<^verbatim>\<open>include/resourse.h\<close>, the page directories waiting to be destroyed, and the global
  \<^verbatim>\<open>task_manager\<close>. Structures that the C code keeps in the heap are stores keyed by their
  address. An access through \<^verbatim>\<open>NULL\<close> and an index outside of an array are the fault \<open>None\<close>.
\<close>

section \<open>Data\<close>

datatype task_state_t =
    TASK_STATE_READY | TASK_STATE_RUNNING | TASK_STATE_BLOCKED | TASK_STATE_ZOMBIE | TASK_STATE_TERMINATED

datatype task_wait_reason_t = TASK_WAIT_REASON_NONE | TASK_WAIT_REASON_CHILD | TASK_WAIT_REASON_IO

datatype task_manager_result_t =
    TASK_MANAGER_RESULT_OK
  | TASK_MANAGER_RESULT_QUEUE_TASK_NOT_FOUND
  | TASK_MANAGER_RESULT_OUT_OF_MEMORY
  | TASK_MANAGER_RESULT_CHILD_NOT_FOUND
  | TASK_MANAGER_RESULT_ARGS_TOO_LARGE

record register_interrupt_data_t =
  frame_gs :: u32
  frame_fs :: u32
  frame_es :: u32
  frame_ds :: u32
  frame_edi :: u32
  frame_esi :: u32
  frame_ebp :: u32
  frame_ebx :: u32
  frame_edx :: u32
  frame_ecx :: u32
  frame_eax :: u32
  interrupt_index :: u32
  error_code :: u32
  frame_eip :: u32
  frame_cs :: u32
  frame_eflags :: u32
  frame_useresp :: u32
  frame_ss :: u32

record syscall_execution_t =
  syscall_index :: u32
  parameters :: "u32 \<Rightarrow> u32"

record task_node_t =
  node_task :: u32
  node_next :: u32
  node_previous :: u32

record page_directory_node_t =
  node_page_directory :: u32
  pd_node_next :: u32

text \<open>
  A task; \<open>next_task\<close> is the field \<^verbatim>\<open>next\<close>, \<open>task_heap_start\<close> and \<open>task_heap_break\<close> are \<^verbatim>\<open>heap_start\<close>
  and \<^verbatim>\<open>heap_break\<close>, and \<open>write_offset\<close> is \<^verbatim>\<open>syscall_execution_state.write.offset\<close>.
\<close>

record task_t =
  task_id :: u32
  task_esp :: u32
  task_cr3 :: u32
  task_state :: task_state_t
  task_time_slice :: u32
  task_queue_level :: u32
  stack_base :: u32
  stack_top :: u32
  task_is_user :: u8
  next_task :: u32
  syscall_retry :: u8
  resources :: "u32 \<Rightarrow> u32"
  task_init_eip :: u32
  parent :: u32
  children :: u32
  children_tail :: u32
  return_code :: u32
  yield :: u8
  syscall_execution :: syscall_execution_t
  write_offset :: u32
  wait_reason :: task_wait_reason_t
  wait_object :: u32
  task_heap_start :: u32
  task_heap_break :: u32
  ticks_user :: u64
  ticks_system :: u64
  child_ticks_user :: u64
  child_ticks_system :: u64
  signal_handlers :: "u32 \<Rightarrow> u32"
  saved_signal_frame :: register_interrupt_data_t
  in_signal_handler :: u8
  saved_syscall_retry :: u8

datatype resource_type_t =
    RESOURCE_TYPE_FILE | RESOURCE_TYPE_KEYBOARD | RESOURCE_TYPE_TERMINAL | RESOURCE_TYPE_FRAMEBUFFER

text \<open>The operations of a resource are the addresses of functions, \<^verbatim>\<open>NULL\<close> when absent.\<close>

record resource_operations_t =
  op_close :: u32
  op_read :: u32
  op_write :: u32
  op_ioctl :: u32

record resource_t =
  resource_type :: resource_type_t
  resource_data :: u32
  operations :: resource_operations_t
  ref_count :: u32
  resource_offset :: u32
  resource_flags :: u32

text \<open>A task and an interrupt frame with all bytes zero, as \<^verbatim>\<open>kernel_heap_calloc\<close> gives them.\<close>

definition zero_frame :: register_interrupt_data_t where
  "zero_frame = \<lparr>frame_gs = 0, frame_fs = 0, frame_es = 0, frame_ds = 0, frame_edi = 0, frame_esi = 0,
     frame_ebp = 0, frame_ebx = 0, frame_edx = 0, frame_ecx = 0, frame_eax = 0, interrupt_index = 0,
     error_code = 0, frame_eip = 0, frame_cs = 0, frame_eflags = 0, frame_useresp = 0, frame_ss = 0\<rparr>"

definition zero_task :: task_t where
  "zero_task = \<lparr>task_id = 0, task_esp = 0, task_cr3 = 0, task_state = TASK_STATE_READY, task_time_slice = 0,
     task_queue_level = 0, stack_base = 0, stack_top = 0, task_is_user = 0, next_task = 0, syscall_retry = 0,
     resources = (\<lambda>_. 0), task_init_eip = 0, parent = 0, children = 0, children_tail = 0, return_code = 0,
     yield = 0, syscall_execution = \<lparr>syscall_index = 0, parameters = (\<lambda>_. 0)\<rparr>, write_offset = 0,
     wait_reason = TASK_WAIT_REASON_NONE, wait_object = 0, task_heap_start = 0, task_heap_break = 0,
     ticks_user = 0, ticks_system = 0, child_ticks_user = 0, child_ticks_system = 0, signal_handlers = (\<lambda>_. 0),
     saved_signal_frame = zero_frame, in_signal_handler = 0, saved_syscall_retry = 0\<rparr>"

section \<open>Constants\<close>

definition TASK_MANAGER_QUEUE_LEVELS :: u32 where "TASK_MANAGER_QUEUE_LEVELS = 4"
definition TASK_MANAGER_DEFAULT_TIME_SLICE :: u32 where "TASK_MANAGER_DEFAULT_TIME_SLICE = 5"
definition TASK_MANAGER_QUEUE_INDEX_BLOCKED :: u32 where
  "TASK_MANAGER_QUEUE_INDEX_BLOCKED = TASK_MANAGER_QUEUE_LEVELS"
definition TASK_MANAGER_QUEUE_INDEX_ZOMBIE :: u32 where
  "TASK_MANAGER_QUEUE_INDEX_ZOMBIE = TASK_MANAGER_QUEUE_LEVELS + 1"
definition TIMER_PHASE :: u64 where "TIMER_PHASE = 1000"
definition TASK_MANAGER_PRIORITY_BOOST_INTERVAL :: u64 where
  "TASK_MANAGER_PRIORITY_BOOST_INTERVAL = 5 * TIMER_PHASE"
definition TASK_MANAGER_KERNEL_CODE_SELECTOR :: u32 where "TASK_MANAGER_KERNEL_CODE_SELECTOR = 0x08"
definition TASK_MANAGER_KERNEL_DATA_SELECTOR :: u32 where "TASK_MANAGER_KERNEL_DATA_SELECTOR = 0x10"
definition TASK_MANAGER_USER_CODE_SELECTOR :: u32 where "TASK_MANAGER_USER_CODE_SELECTOR = 0x1B"
definition TASK_MANAGER_USER_DATA_SELECTOR :: u32 where "TASK_MANAGER_USER_DATA_SELECTOR = 0x23"
definition TASK_MAX_ARGUMENTS :: u32 where "TASK_MAX_ARGUMENTS = 64"
definition TASK_MAX_RESOURCES :: u32 where "TASK_MAX_RESOURCES = 512"
definition SYSCALL_NSIG :: u32 where "SYSCALL_NSIG = 32"

section \<open>The kernel's state\<close>

record kernel = heap_machine +
  page_directory_nodes :: "u32 \<Rightarrow> page_directory_node_t"
  page_directories_to_destroy :: u32
  page_directories_to_destroy_tail :: u32
  tasks :: "u32 \<Rightarrow> task_t"
  task_nodes :: "u32 \<Rightarrow> task_node_t"
  resource_store :: "u32 \<Rightarrow> resource_t"
  task_id_counter :: u32
  timer_ticks :: u64
  task_current :: u32
  task_next :: u32
  task_needs_switching :: u32
  task_idle :: u32
  task_queues :: "u32 \<Rightarrow> u32"
  last_priority_boost_at_ticks :: u64
  task_init :: u32
  syscall_frame :: register_interrupt_data_t
  caller_task :: u32
  tss_esp0 :: u32

definition upd_task :: "u32 \<Rightarrow> (task_t \<Rightarrow> task_t) \<Rightarrow> 'a kernel_scheme \<Rightarrow> 'a kernel_scheme" where
  "upd_task p f s = s\<lparr>tasks := (tasks s)(p := f (tasks s p))\<rparr>"

definition task_links :: "'a kernel_scheme \<Rightarrow> u32 \<Rightarrow> u32" where
  "task_links s p = next_task (tasks s p)"

definition queue_head :: "u32 \<Rightarrow> 'a kernel_scheme \<Rightarrow> u32 option" where
  "queue_head i s = (if i < TASK_MANAGER_QUEUE_LEVELS + 2 then Some (task_queues s i) else None)"

definition set_queue_head :: "u32 \<Rightarrow> u32 \<Rightarrow> 'a kernel_scheme \<Rightarrow> 'a kernel_scheme" where
  "set_queue_head i p s = s\<lparr>task_queues := (task_queues s)(i := p)\<rparr>"

end
