(* ===== verification/Task_Queues.thy ===== *)
theory Task_Queues
  imports Task_State
begin

text \<open>
  The queues of \<^verbatim>\<open>src/task_manager.c\<close>: four priority levels, the blocked tasks and the zombies,
  each a linked list through the tasks. The operations refine operations on six lists.
\<close>

section \<open>Operations\<close>

definition task_manager_enqueue_task :: "u32 \<Rightarrow> u32 \<Rightarrow> 'a kernel_scheme \<Rightarrow> 'a kernel_scheme option" where
  "task_manager_enqueue_task queue_index task s =
     (if task = task_idle s then Some s
      else let s = upd_task task (\<lambda>t. t\<lparr>next_task := 0, task_queue_level := queue_index\<rparr>) s in do {
        head \<leftarrow> queue_head queue_index s;
        if head = 0 then Some (set_queue_head queue_index task s)
        else do {
          last_task \<leftarrow> queue_last (task_links s) head;
          Some (upd_task last_task (\<lambda>t. t\<lparr>next_task := task\<rparr>) s)
        }
      })"

definition task_manager_dequeue_task :: "u32 \<Rightarrow> 'a kernel_scheme \<Rightarrow> (u32 \<times> 'a kernel_scheme) option" where
  "task_manager_dequeue_task queue_index s = do {
     task \<leftarrow> queue_head queue_index s;
     if task = 0 then Some (0, s)
     else Some (task, upd_task task (\<lambda>t. t\<lparr>next_task := 0\<rparr>) (set_queue_head queue_index (task_links s task) s))
   }"

definition task_manager_remove_task_from_queue ::
    "u32 \<Rightarrow> u32 \<Rightarrow> 'a kernel_scheme \<Rightarrow> (task_manager_result_t \<times> 'a kernel_scheme) option" where
  "task_manager_remove_task_from_queue queue_index task s = do {
     head \<leftarrow> queue_head queue_index s;
     if head = 0 then Some (TASK_MANAGER_RESULT_QUEUE_TASK_NOT_FOUND, s)
     else if head = task
     then Some (TASK_MANAGER_RESULT_OK,
                upd_task task (\<lambda>t. t\<lparr>next_task := 0\<rparr>) (set_queue_head queue_index (task_links s task) s))
     else do {
       previous \<leftarrow> find_previous (task_links s) task head;
       case previous of
         None \<Rightarrow> Some (TASK_MANAGER_RESULT_QUEUE_TASK_NOT_FOUND, s)
       | Some p \<Rightarrow> Some (TASK_MANAGER_RESULT_OK,
           upd_task task (\<lambda>t. t\<lparr>next_task := 0\<rparr>)
             (upd_task p (\<lambda>t. t\<lparr>next_task := task_links s task\<rparr>) s))
     }
   }"

definition task_manager_calculate_time_slice :: "u32 \<Rightarrow> u32" where
  "task_manager_calculate_time_slice queue_level =
     TASK_MANAGER_QUEUE_INDEX_BLOCKED * push_bit (unat queue_level) 1"

definition task_manager_requeue_task :: "u32 \<Rightarrow> u32 \<Rightarrow> 'a kernel_scheme \<Rightarrow> 'a kernel_scheme option" where
  "task_manager_requeue_task task used_time_slice s =
     (if task = task_idle s then Some s
      else let s = (if used_time_slice \<noteq> 0 \<and> task_queue_level (tasks s task) < TASK_MANAGER_QUEUE_LEVELS - 1
                    then upd_task task (\<lambda>t. t\<lparr>task_queue_level := task_queue_level t + 1\<rparr>) s else s);
               s = upd_task task (\<lambda>t. t\<lparr>task_state := TASK_STATE_READY\<rparr>) s
           in task_manager_enqueue_task (task_queue_level (tasks s task)) task s)"

text \<open>
  The test \<^verbatim>\<open>task_state != READY || task_state != RUNNING\<close> is true of every state, so the first task
  found is taken.
\<close>

fun pick_from :: "u32 list \<Rightarrow> 'a kernel_scheme \<Rightarrow> (u32 \<times> 'a kernel_scheme) option" where
  "pick_from [] s =
     (if task_idle s = 0 then None
      else Some (task_idle s,
        upd_task (task_idle s) (\<lambda>t. t\<lparr>task_time_slice := task_manager_calculate_time_slice 0\<rparr>) s))"
| "pick_from (queue_index # rest) s = do {
     head \<leftarrow> queue_head queue_index s;
     if head = 0 then pick_from rest s
     else do {
       (task, s) \<leftarrow> task_manager_dequeue_task queue_index s;
       if task_state (tasks s task) \<noteq> TASK_STATE_READY \<or> task_state (tasks s task) \<noteq> TASK_STATE_RUNNING
       then Some (task, upd_task task
              (\<lambda>t. t\<lparr>task_time_slice := task_manager_calculate_time_slice queue_index\<rparr>) s)
       else pick_from rest s
     }
   }"

definition task_manager_pick_task :: "'a kernel_scheme \<Rightarrow> (u32 \<times> 'a kernel_scheme) option" where
  "task_manager_pick_task = pick_from (indices (unat TASK_MANAGER_QUEUE_LEVELS))"

partial_function (option) boost_queue :: "u32 \<Rightarrow> 'a kernel_scheme \<Rightarrow> 'a kernel_scheme option" where
  "boost_queue i s = do {
     head \<leftarrow> queue_head i s;
     if head = 0 then Some s
     else do {
       (task, s) \<leftarrow> task_manager_dequeue_task i s;
       s \<leftarrow> task_manager_enqueue_task 0 task (upd_task task (\<lambda>t. t\<lparr>task_queue_level := 0\<rparr>) s);
       boost_queue i s
     }
   }"

definition task_manager_boost_priority_of_all_tasks :: "'a kernel_scheme \<Rightarrow> 'a kernel_scheme option" where
  "task_manager_boost_priority_of_all_tasks s = do {
     s \<leftarrow> for_each boost_queue (tl (indices (unat TASK_MANAGER_QUEUE_LEVELS))) s;
     Some (s\<lparr>last_priority_boost_at_ticks := timer_ticks s\<rparr>)
   }"

definition task_manager_block_task ::
    "u32 \<Rightarrow> task_wait_reason_t \<Rightarrow> u32 \<Rightarrow> 'a kernel_scheme \<Rightarrow> (task_manager_result_t \<times> 'a kernel_scheme) option" where
  "task_manager_block_task task reason object s =
     (if task_state (tasks s task) = TASK_STATE_BLOCKED then Some (TASK_MANAGER_RESULT_OK, s)
      else let s = upd_task task (\<lambda>t. t\<lparr>task_state := TASK_STATE_BLOCKED, wait_object := object, wait_reason := reason\<rparr>) s in do {
        (r, s) \<leftarrow> task_manager_remove_task_from_queue (task_queue_level (tasks s task)) task s;
        s \<leftarrow> task_manager_enqueue_task TASK_MANAGER_QUEUE_INDEX_BLOCKED task s;
        Some (TASK_MANAGER_RESULT_OK, s)
      })"

definition task_manager_unblock_task ::
    "u32 \<Rightarrow> 'a kernel_scheme \<Rightarrow> (task_manager_result_t \<times> 'a kernel_scheme) option" where
  "task_manager_unblock_task task s =
     (if task_state (tasks s task) \<noteq> TASK_STATE_BLOCKED then Some (TASK_MANAGER_RESULT_OK, s)
      else let s = upd_task task (\<lambda>t. t\<lparr>task_state := TASK_STATE_READY\<rparr>) s in do {
        (r, s) \<leftarrow> task_manager_remove_task_from_queue (task_queue_level (tasks s task)) task s;
        s \<leftarrow> task_manager_enqueue_task 0 task s;
        Some (TASK_MANAGER_RESULT_OK, s)
      })"

partial_function (option) wake_loop ::
    "task_wait_reason_t \<Rightarrow> u32 \<Rightarrow> u32 \<Rightarrow> 'a kernel_scheme \<Rightarrow> 'a kernel_scheme option" where
  "wake_loop reason object head s =
     (if head = 0 then Some s
      else let following = task_links s head in do {
        s \<leftarrow> (if wait_reason (tasks s head) = reason \<and> wait_object (tasks s head) = object
              then map_option snd (task_manager_unblock_task head s) else Some s);
        wake_loop reason object following s
      })"

definition task_manager_wake_blocked_on ::
    "task_wait_reason_t \<Rightarrow> u32 \<Rightarrow> 'a kernel_scheme \<Rightarrow> 'a kernel_scheme option" where
  "task_manager_wake_blocked_on reason object s =
     wake_loop reason object (task_queues s TASK_MANAGER_QUEUE_INDEX_BLOCKED) s"


section \<open>The queues as lists\<close>

lemma task_links_upd [simp]:
  "task_links (upd_task p f s) = (task_links s)(p := next_task (f (tasks s p)))"
  by (auto simp: task_links_def upd_task_def fun_eq_iff)

lemma upd_task_simps [simp]:
  "tasks (upd_task p f s) = (tasks s)(p := f (tasks s p))"
  "task_queues (upd_task p f s) = task_queues s" "task_idle (upd_task p f s) = task_idle s"
  "task_links (set_queue_head i q s) = task_links s" "tasks (set_queue_head i q s) = tasks s"
  "task_queues (set_queue_head i q s) = (task_queues s)(i := q)" "task_idle (set_queue_head i q s) = task_idle s"
  "queue_head i (upd_task p f s) = queue_head i s"
  by (simp_all add: upd_task_def set_queue_head_def task_links_def queue_head_def fun_eq_iff)

lemma upd_task_fields [simp]:
  "task_current (upd_task p f s) = task_current s" "task_next (upd_task p f s) = task_next s"
  "task_needs_switching (upd_task p f s) = task_needs_switching s" "timer_ticks (upd_task p f s) = timer_ticks s"
  "last_priority_boost_at_ticks (upd_task p f s) = last_priority_boost_at_ticks s"
  "page_directories_to_destroy (upd_task p f s) = page_directories_to_destroy s" "task_init (upd_task p f s) = task_init s"
  by (simp_all add: upd_task_def)

lemma task_links_apply: "next_task (tasks s p) = task_links s p"
  by (simp add: task_links_def)

text \<open>Six lists in the six queues; every task knows the queue that it is in.\<close>

definition queues :: "'a kernel_scheme \<Rightarrow> (u32 \<Rightarrow> u32 list) \<Rightarrow> bool" where
  "queues s Q \<longleftrightarrow> task_idle s \<noteq> 0 \<and> (\<forall>i<6. path (task_links s) (task_queues s i) (Q i) \<and>
     task_idle s \<notin> set (Q i) \<and> (\<forall>t \<in> set (Q i). task_queue_level (tasks s t) = i))"

lemma queuesD:
  assumes "queues s Q" "i < 6"
  shows "path (task_links s) (task_queues s i) (Q i)" "task_idle s \<notin> set (Q i)"
    "t \<in> set (Q i) \<Longrightarrow> task_queue_level (tasks s t) = i" "distinct (Q i)" "0 \<notin> set (Q i)"
    "queue_head i s = Some (task_queues s i)" "task_queues s i = 0 \<longleftrightarrow> Q i = []"
proof -
  show p: "path (task_links s) (task_queues s i) (Q i)" and "task_idle s \<notin> set (Q i)"
    "t \<in> set (Q i) \<Longrightarrow> task_queue_level (tasks s t) = i" using assms unfolding queues_def by blast+
  show "distinct (Q i)" by (rule path_distinct [OF p])
  show "0 \<notin> set (Q i)" by (rule path_no_NULL [OF p])
  show "queue_head i s = Some (task_queues s i)"
    using assms(2) by (simp add: queue_head_def TASK_MANAGER_QUEUE_LEVELS_def)
  show "task_queues s i = 0 \<longleftrightarrow> Q i = []" using p by (cases "Q i") auto
qed

lemma queues_disjoint: "queues s Q \<Longrightarrow> i < 6 \<Longrightarrow> j < 6 \<Longrightarrow> i \<noteq> j \<Longrightarrow> t \<in> set (Q i) \<Longrightarrow> t \<notin> set (Q j)"
  using queuesD(3) by metis

text \<open>
  What the queue operations leave alone: everything but the links and the levels of the tasks and
  the heads of the queues.
\<close>

definition task_core :: "task_t \<Rightarrow> task_t" where
  "task_core t = t\<lparr>next_task := 0, task_queue_level := 0\<rparr>"

definition only_queues :: "'a kernel_scheme \<Rightarrow> 'a kernel_scheme \<Rightarrow> bool" where
  "only_queues s s' \<longleftrightarrow> (\<exists>T q. s' = s\<lparr>tasks := T, task_queues := q\<rparr> \<and> (\<forall>p. task_core (T p) = task_core (tasks s p)))"

lemma only_queues_refl [simp]: "only_queues s s"
  unfolding only_queues_def by (rule exI [of _ "tasks s"], rule exI [of _ "task_queues s"]) simp

lemma only_queues_trans:
  assumes "only_queues s s1" "only_queues s1 s2"
  shows "only_queues s s2"
proof -
  obtain T q T' q' where 1: "s1 = s\<lparr>tasks := T, task_queues := q\<rparr>" "\<forall>p. task_core (T p) = task_core (tasks s p)"
    and 2: "s2 = s1\<lparr>tasks := T', task_queues := q'\<rparr>" "\<forall>p. task_core (T' p) = task_core (tasks s1 p)"
    using assms unfolding only_queues_def by blast
  have "s2 = s\<lparr>tasks := T', task_queues := q'\<rparr>" "\<forall>p. task_core (T' p) = task_core (tasks s p)"
    using 1 2 by simp_all
  then show ?thesis unfolding only_queues_def by blast
qed

lemma task_core_next [simp]: "task_core (t\<lparr>next_task := n\<rparr>) = task_core t"
  and task_core_level [simp]: "task_core (t\<lparr>task_queue_level := l\<rparr>) = task_core t"
  and task_core_both [simp]: "task_core (t\<lparr>next_task := n, task_queue_level := l\<rparr>) = task_core t"
  by (simp_all add: task_core_def)

lemma only_queues_upd: "(\<And>t. task_core (f t) = task_core t) \<Longrightarrow> only_queues s (upd_task p f s)"
  unfolding only_queues_def upd_task_def
  by (rule exI [of _ "(tasks s)(p := f (tasks s p))"], rule exI [of _ "task_queues s"]) simp

lemma only_queues_head: "only_queues s (set_queue_head i p s)"
  unfolding only_queues_def set_queue_head_def
  by (rule exI [of _ "tasks s"], rule exI [of _ "(task_queues s)(i := p)"]) simp

lemma task_core_fields:
  "task_core t = task_core t' \<Longrightarrow>
     task_state t = task_state t' \<and> task_time_slice t = task_time_slice t' \<and> wait_reason t = wait_reason t' \<and>
     wait_object t = wait_object t' \<and> task_id t = task_id t' \<and> parent t = parent t' \<and> yield t = yield t' \<and>
     task_cr3 t = task_cr3 t' \<and> task_esp t = task_esp t' \<and> children t = children t' \<and> resources t = resources t' \<and>
     syscall_retry t = syscall_retry t' \<and> stack_top t = stack_top t'"
  unfolding task_core_def by (cases t; cases t') simp

lemma only_queuesD:
  assumes "only_queues s s'"
  shows "task_idle s' = task_idle s" "task_current s' = task_current s" "task_next s' = task_next s"
    "task_needs_switching s' = task_needs_switching s" "timer_ticks s' = timer_ticks s"
    "last_priority_boost_at_ticks s' = last_priority_boost_at_ticks s" "task_init s' = task_init s"
    "task_state (tasks s' p) = task_state (tasks s p)" "task_time_slice (tasks s' p) = task_time_slice (tasks s p)"
    "wait_reason (tasks s' p) = wait_reason (tasks s p)" "wait_object (tasks s' p) = wait_object (tasks s p)"
    "yield (tasks s' p) = yield (tasks s p)" "page_directories_to_destroy s' = page_directories_to_destroy s"
    "kernel.more s' = kernel.more s"
proof -
  obtain T q where s': "s' = s\<lparr>tasks := T, task_queues := q\<rparr>" and c: "task_core (T p) = task_core (tasks s p)"
    using assms unfolding only_queues_def by blast
  show "task_idle s' = task_idle s" "task_current s' = task_current s" "task_next s' = task_next s"
    "task_needs_switching s' = task_needs_switching s" "timer_ticks s' = timer_ticks s"
    "last_priority_boost_at_ticks s' = last_priority_boost_at_ticks s" "task_init s' = task_init s"
    "task_state (tasks s' p) = task_state (tasks s p)" "task_time_slice (tasks s' p) = task_time_slice (tasks s p)"
    "wait_reason (tasks s' p) = wait_reason (tasks s p)" "wait_object (tasks s' p) = wait_object (tasks s p)"
    "yield (tasks s' p) = yield (tasks s p)" "page_directories_to_destroy s' = page_directories_to_destroy s"
    "kernel.more s' = kernel.more s"
    using task_core_fields [OF c] by (simp_all add: s')
qed

section \<open>The operations refine operations on lists\<close>

lemma enqueue_refines:
  assumes q: "queues s Q" and i: "i < 6" and t: "t \<noteq> 0" "t \<noteq> task_idle s" and fresh: "\<forall>j<6. t \<notin> set (Q j)"
  obtains s' where "task_manager_enqueue_task i t s = Some s'" "queues s' (Q(i := Q i @ [t]))"
    "only_queues s s'" "\<forall>p. p \<noteq> t \<longrightarrow> task_queue_level (tasks s' p) = task_queue_level (tasks s p)"
proof -
  let ?f = "\<lambda>u. u\<lparr>next_task := 0, task_queue_level := i\<rparr>"
  let ?s = "upd_task t ?f s"
  note D = queuesD [OF q i]
  have idle: "task_idle s \<noteq> 0" using q by (simp add: queues_def)
  have same: "path ((task_links s)(t := 0)) (task_queues s j) (Q j)" if "j < 6" for j
    using queuesD(1) [OF q that] fresh that by simp
  have o1: "only_queues s ?s" by (rule only_queues_upd) simp
  show thesis
  proof (cases "Q i = []")
    case True
    let ?s' = "set_queue_head i t ?s"
    have run: "task_manager_enqueue_task i t s = Some ?s'"
      using t D(6,7) True by (simp add: task_manager_enqueue_task_def Let_def)
    have "queues ?s' (Q(i := Q i @ [t]))"
      unfolding queues_def
    proof (intro conjI allI impI)
      fix j :: u32 assume j: "j < 6"
      show "path (task_links ?s') (task_queues ?s' j) ((Q(i := Q i @ [t])) j)"
        using same [OF j] True t by (cases "j = i") auto
      show "task_idle ?s' \<notin> set ((Q(i := Q i @ [t])) j)" using queuesD(2) [OF q j] t True by simp
      show "\<forall>u \<in> set ((Q(i := Q i @ [t])) j). task_queue_level (tasks ?s' u) = j"
        using queuesD(3) [OF q j] True fresh j by auto
    qed (use idle in simp)
    then show thesis using that run only_queues_trans [OF o1 only_queues_head] by simp
  next
    case False
    let ?l = "last (Q i)"
    let ?s' = "upd_task ?l (\<lambda>u. u\<lparr>next_task := t\<rparr>) ?s"
    have l: "?l \<in> set (Q i)" "?l \<noteq> t" using False fresh i by auto
    have "queue_last ((task_links s)(t := 0)) (task_queues s i) = Some ?l"
      by (rule queue_last_path [OF same [OF i] False])
    then have run: "task_manager_enqueue_task i t s = Some ?s'"
      using t D(6,7) False by (simp add: task_manager_enqueue_task_def Let_def)
    have "queues ?s' (Q(i := Q i @ [t]))"
      unfolding queues_def
    proof (intro conjI allI impI)
      fix j :: u32 assume j: "j < 6"
      show "path (task_links ?s') (task_queues ?s' j) ((Q(i := Q i @ [t])) j)"
      proof (cases "j = i")
        case True
        then show ?thesis using path_snoc [OF same [OF i] False, of t] fresh i t l by simp
      next
        case ne: False
        then have "?l \<notin> set (Q j)" using queues_disjoint [OF q i j _ l(1)] by simp
        then show ?thesis using same [OF j] ne l by (simp add: fun_upd_twist)
      qed
      show "task_idle ?s' \<notin> set ((Q(i := Q i @ [t])) j)" using queuesD(2) [OF q j] t by (cases "j = i") auto
      show "\<forall>u \<in> set ((Q(i := Q i @ [t])) j). task_queue_level (tasks ?s' u) = j"
        using queuesD(3) [OF q j] fresh j l by auto
    qed (use idle in simp)
    moreover have "only_queues s ?s'" by (rule only_queues_trans [OF o1 only_queues_upd]) simp
    ultimately show thesis using that run by simp
  qed
qed

lemma dequeue_refines:
  assumes q: "queues s Q" and i: "i < 6" and Q: "Q i = t # ts"
  obtains s' where "task_manager_dequeue_task i s = Some (t, s')" "queues s' (Q(i := ts))"
    "only_queues s s'" "\<forall>p. task_queue_level (tasks s' p) = task_queue_level (tasks s p)"
    "next_task (tasks s' t) = 0"
proof -
  note D = queuesD [OF q i]
  let ?s = "set_queue_head i (task_links s t) s"
  let ?s' = "upd_task t (\<lambda>u. u\<lparr>next_task := 0\<rparr>) ?s"
  have h: "task_queues s i = t" "t \<noteq> 0" "path (task_links s) (task_links s t) ts" using D(1) Q by auto
  then have run: "task_manager_dequeue_task i s = Some (t, ?s')"
    using D(6) by (simp add: task_manager_dequeue_task_def)
  have nt: "t \<notin> set ts" using D(4) Q by simp
  have "queues ?s' (Q(i := ts))"
    unfolding queues_def
  proof (intro conjI allI impI)
    fix j :: u32 assume j: "j < 6"
    show "path (task_links ?s') (task_queues ?s' j) ((Q(i := ts)) j)"
      using h nt queuesD(1) [OF q j] queues_disjoint [OF q i j, of t] Q by (cases "j = i") auto
    show "task_idle ?s' \<notin> set ((Q(i := ts)) j)" using queuesD(2) [OF q j] Q by auto
    show "\<forall>u \<in> set ((Q(i := ts)) j). task_queue_level (tasks ?s' u) = j"
      using queuesD(3) [OF q j] Q by auto
  qed (use q in \<open>simp add: queues_def\<close>)
  moreover have "only_queues s ?s'"
    by (rule only_queues_trans [OF only_queues_head only_queues_upd]) simp
  ultimately show thesis using that run by simp
qed

lemma remove_refines:
  assumes q: "queues s Q" and i: "i < 6"
  obtains s' where "task_manager_remove_task_from_queue i t s =
      Some (if t \<in> set (Q i) then TASK_MANAGER_RESULT_OK else TASK_MANAGER_RESULT_QUEUE_TASK_NOT_FOUND, s')"
    "queues s' (Q(i := remove1 t (Q i)))" "only_queues s s'"
    "\<forall>p. task_queue_level (tasks s' p) = task_queue_level (tasks s p)" "t \<notin> set (Q i) \<longrightarrow> s' = s"
proof (cases "t \<in> set (Q i)")
  case False
  have r: "task_manager_remove_task_from_queue i t s = Some (TASK_MANAGER_RESULT_QUEUE_TASK_NOT_FOUND, s)"
  proof (cases "Q i = []")
    case True
    then show ?thesis using queuesD(6,7) [OF q i] by (simp add: task_manager_remove_task_from_queue_def)
  next
    case ne: False
    then have "t \<notin> set (tl (Q i))" using False by (meson list.set_sel(2))
    then have "find_previous (task_links s) t (task_queues s i) = Some None"
      by (rule find_previous_missing [OF queuesD(1) [OF q i] ne])
    moreover have "task_queues s i \<noteq> t" using queuesD(1) [OF q i] ne False by (cases "Q i") auto
    ultimately show ?thesis
      using queuesD(6,7) [OF q i] ne by (simp add: task_manager_remove_task_from_queue_def)
  qed
  have "queues s (Q(i := remove1 t (Q i)))" using q False by (simp add: remove1_idem)
  then show thesis using that [of s] r False by simp
next
  case True
  then obtain as bs where Q: "Q i = as @ t # bs" by (meson split_list)
  note D = queuesD [OF q i]
  have d: "t \<notin> set as" "t \<notin> set bs" using D(4) Q by auto
  have rm: "remove1 t (Q i) = as @ bs" using Q d by (simp add: remove1_append)
  show thesis
  proof (cases as rule: rev_cases)
    case Nil
    then have Q': "Q i = t # bs" using Q by simp
    have h: "task_queues s i = t" "t \<noteq> 0" using D(1) Q' by auto
    from q i Q' show thesis
    proof (cases rule: dequeue_refines)
      case (1 s')
      have "task_manager_remove_task_from_queue i t s = Some (TASK_MANAGER_RESULT_OK, s')"
        using 1(1) h D(6) by (simp add: task_manager_remove_task_from_queue_def task_manager_dequeue_task_def)
      then show thesis using that 1 True rm Nil by simp
    qed
  next
    case (snoc as' p)
    have P: "path (task_links s) (task_queues s i) (as' @ p # t # bs)" using D(1) Q snoc by simp
    have d2: "p \<noteq> t" "p \<in> set (Q i)" using d snoc Q by auto
    have h: "task_queues s i \<noteq> t" "task_queues s i \<noteq> 0"
      using P D(4) D(5) Q snoc by (cases as'; auto)+
    let ?s = "upd_task p (\<lambda>u. u\<lparr>next_task := task_links s t\<rparr>) s"
    let ?s' = "upd_task t (\<lambda>u. u\<lparr>next_task := 0\<rparr>) ?s"
    have run: "task_manager_remove_task_from_queue i t s = Some (TASK_MANAGER_RESULT_OK, ?s')"
      using find_previous_found [OF P] h D(6) by (simp add: task_manager_remove_task_from_queue_def)
    have "queues ?s' (Q(i := as @ bs))"
      unfolding queues_def
    proof (intro conjI allI impI)
      fix j :: u32 assume j: "j < 6"
      show "path (task_links ?s') (task_queues ?s' j) ((Q(i := as @ bs)) j)"
      proof (cases "j = i")
        case True
        then show ?thesis using path_remove [OF P refl] d snoc by simp
      next
        case False
        then have "t \<notin> set (Q j)" "p \<notin> set (Q j)"
          using queues_disjoint [OF q i j, of t] queues_disjoint [OF q i j, of p] d2 True by auto
        then show ?thesis using queuesD(1) [OF q j] False by simp
      qed
      show "task_idle ?s' \<notin> set ((Q(i := as @ bs)) j)" using queuesD(2) [OF q j] Q by auto
      show "\<forall>u \<in> set ((Q(i := as @ bs)) j). task_queue_level (tasks ?s' u) = j"
        using queuesD(3) [OF q j] Q by auto
    qed (use q in \<open>simp add: queues_def\<close>)
    moreover have "only_queues s ?s'"
      by (rule only_queues_trans [OF only_queues_upd only_queues_upd]) simp_all
    ultimately show thesis using that run True rm by simp
  qed
qed


section \<open>The multi-level feedback queue\<close>

text \<open>The states of the tasks in each queue.\<close>

definition queue_state :: "u32 \<Rightarrow> task_state_t" where
  "queue_state i = (if i < 4 then TASK_STATE_READY else if i = 4 then TASK_STATE_BLOCKED else TASK_STATE_ZOMBIE)"

lemma queue_state_ready: "i < 4 \<Longrightarrow> queue_state i = TASK_STATE_READY"
  and queue_state_not_running: "queue_state i \<noteq> TASK_STATE_RUNNING"
  by (simp_all add: queue_state_def)

definition sched_wf :: "'a kernel_scheme \<Rightarrow> (u32 \<Rightarrow> u32 list) \<Rightarrow> bool" where
  "sched_wf s Q \<longleftrightarrow> queues s Q \<and> (\<forall>i<6. \<forall>t \<in> set (Q i). task_state (tasks s t) = queue_state i)"

lemma sched_wfD:
  assumes "sched_wf s Q"
  shows "queues s Q" "i < 6 \<Longrightarrow> t \<in> set (Q i) \<Longrightarrow> task_state (tasks s t) = queue_state i"
  using assms by (auto simp: sched_wf_def)

lemma running_not_queued:
  "sched_wf s Q \<Longrightarrow> task_state (tasks s t) = TASK_STATE_RUNNING \<Longrightarrow> i < 6 \<Longrightarrow> t \<notin> set (Q i)"
  using queue_state_not_running [of i] by (auto simp: sched_wf_def)

lemma queues_upd:
  assumes "queues s Q" "next_task (f (tasks s p)) = next_task (tasks s p)"
    "(\<forall>i<6. p \<notin> set (Q i)) \<or> task_queue_level (f (tasks s p)) = task_queue_level (tasks s p)"
  shows "queues (upd_task p f s) Q"
proof -
  have l: "(task_links s)(p := next_task (f (tasks s p))) = task_links s" using assms(2) by (auto simp: task_links_def)
  show ?thesis
    using assms(1) unfolding queues_def
    by (auto simp: l) (use assms(3) in auto)
qed

lemma sched_wf_upd:
  assumes "sched_wf s Q" "next_task (f (tasks s p)) = next_task (tasks s p)"
    "(\<forall>i<6. p \<notin> set (Q i)) \<or>
       task_queue_level (f (tasks s p)) = task_queue_level (tasks s p) \<and> task_state (f (tasks s p)) = task_state (tasks s p)"
  shows "sched_wf (upd_task p f s) Q"
  using assms queues_upd [of s Q f p] unfolding sched_wf_def by auto

lemma sched_wf_only:
  assumes "only_queues s s'" "queues s' Q'" "\<forall>i<6. \<forall>t \<in> set (Q' i). task_state (tasks s t) = queue_state i"
  shows "sched_wf s' Q'"
  using assms(2,3) only_queuesD(8) [OF assms(1)] by (simp add: sched_wf_def)

lemma sched_wf_outer:
  assumes "sched_wf s Q" "tasks s' = tasks s" "task_queues s' = task_queues s" "task_idle s' = task_idle s"
  shows "sched_wf s' Q"
proof -
  have "task_links s' = task_links s" using assms(2) by (simp add: task_links_def fun_eq_iff)
  then show ?thesis using assms by (simp add: sched_wf_def queues_def)
qed

text \<open>The abstract scheduler, on lists.\<close>

definition mlfq_boost :: "(u32 \<Rightarrow> u32 list) \<Rightarrow> u32 \<Rightarrow> u32 list" where
  "mlfq_boost Q = Q(0 := Q 0 @ Q 1 @ Q 2 @ Q 3, 1 := [], 2 := [], 3 := [])"

definition mlfq_demote :: "u32 \<Rightarrow> u32" where
  "mlfq_demote level = (if level < 3 then level + 1 else level)"

text \<open>The first task of the first level that has one, with its level and the queues without it.\<close>

definition mlfq_pick :: "(u32 \<Rightarrow> u32 list) \<Rightarrow> (u32 \<times> u32 \<times> (u32 \<Rightarrow> u32 list)) option" where
  "mlfq_pick Q = map_option (\<lambda>i. (i, hd (Q i), Q(i := tl (Q i)))) (find (\<lambda>i. Q i \<noteq> []) [0, 1, 2, 3])"

lemma levels_indices: "indices (unat TASK_MANAGER_QUEUE_LEVELS) = [0, 1, 2, 3]"
  by (simp add: indices_def TASK_MANAGER_QUEUE_LEVELS_def upt_rec)

lemma boost_queue_refines:
  assumes "sched_wf s Q" "0 < i" "i < 4"
  shows "\<exists>s'. boost_queue i s = Some s' \<and> sched_wf s' (Q(0 := Q 0 @ Q i, i := [])) \<and> only_queues s s' \<and>
    (\<forall>p. p \<notin> set (Q i) \<longrightarrow> task_queue_level (tasks s' p) = task_queue_level (tasks s p))"
  using assms(1)
proof (induction "Q i" arbitrary: s Q)
  case Nil
  have i: "i < 6" using assms(3) by (rule less_trans) simp
  have "boost_queue i s = Some s"
    using queuesD(6,7) [OF sched_wfD(1) [OF Nil.prems] i] Nil.hyps by (simp add: boost_queue.simps [of i])
  moreover have "Q(0 := Q 0 @ Q i, i := []) = Q" using Nil.hyps by auto
  ultimately show ?case using Nil.prems by (simp del: fun_upd_apply)
next
  case (Cons t ts)
  have i: "i < 6" using assms(3) by (rule less_trans) simp
  note W = sched_wfD [OF Cons.prems]
  have Qi: "Q i = t # ts" using Cons.hyps(2) by simp
  have t0: "t \<noteq> 0" "t \<noteq> task_idle s" "t \<notin> set ts"
    using queuesD(2,4,5) [OF W(1) i] Qi by auto
  from W(1) i Qi show ?case
  proof (cases rule: dequeue_refines)
    case D: (1 s1)
    let ?Q1 = "Q(i := ts)" and ?s2 = "upd_task t (\<lambda>u. u\<lparr>task_queue_level := 0\<rparr>) s1"
    have fresh: "\<forall>j<6. t \<notin> set (?Q1 j)"
      using queues_disjoint [OF W(1) i, of _ t] Qi t0(3) by (auto split: if_splits)
    have q2: "queues ?s2 ?Q1" by (rule queues_upd [OF D(2)]) (use fresh in simp_all)
    have idle: "task_idle ?s2 = task_idle s" using only_queuesD(1) [OF D(3)] by simp
    have z: "(0 :: u32) < 6" by simp
    have ti: "t \<noteq> task_idle ?s2" using t0(2) idle by simp
    from q2 z t0(1) ti fresh show ?thesis
    proof (cases rule: enqueue_refines)
      case E: (1 s3)
      let ?Q3 = "?Q1(0 := ?Q1 0 @ [t])"
      have o2: "only_queues s ?s2" by (rule only_queues_trans [OF D(3) only_queues_upd]) simp
      have o3: "only_queues s s3" by (rule only_queues_trans [OF o2 E(3)])
      have wf3: "sched_wf s3 ?Q3"
        by (rule sched_wf_only [OF o3 E(2)])
          (use W(2) W(2) [OF z] W(2) [OF i] Qi assms(2,3) in \<open>auto simp: queue_state_ready split: if_splits\<close>)
      have "ts = ?Q3 i" using assms(2) by simp
      from Cons.hyps(1) [OF this wf3] obtain s' where IH: "boost_queue i s3 = Some s'"
        "sched_wf s' (?Q3(0 := ?Q3 0 @ ?Q3 i, i := []))" "only_queues s3 s'"
        "\<forall>p. p \<notin> set (?Q3 i) \<longrightarrow> task_queue_level (tasks s' p) = task_queue_level (tasks s3 p)"
        by blast
      have Q': "?Q3(0 := ?Q3 0 @ ?Q3 i, i := []) = Q(0 := Q 0 @ Q i, i := [])"
        using Qi assms(2) by (auto simp: fun_eq_iff)
      have h: "task_queues s i \<noteq> 0" "queue_head i s = Some (task_queues s i)"
        using queuesD(6,7) [OF W(1) i] Qi by auto
      have run: "boost_queue i s = Some s'"
        using h D(1) E(1) IH(1) by (simp add: boost_queue.simps [of i s])
      have lev: "task_queue_level (tasks s' p) = task_queue_level (tasks s p)" if "p \<notin> set (Q i)" for p
        using that IH(4) E(4) D(4) Qi assms(2) by simp
      show ?thesis
        using run IH(2) Q' only_queues_trans [OF o3 IH(3)] lev by auto
    qed
  qed
qed


lemma boost_refines:
  assumes "sched_wf s Q"
  obtains s' where "task_manager_boost_priority_of_all_tasks s = Some (s'\<lparr>last_priority_boost_at_ticks := timer_ticks s\<rparr>)"
    "sched_wf s' (mlfq_boost Q)" "only_queues s s'"
    "\<forall>p. (\<forall>i<6. p \<notin> set (Q i)) \<longrightarrow> task_queue_level (tasks s' p) = task_queue_level (tasks s p)"
proof -
  have r: "(0 :: u32) < 1" "(1 :: u32) < 4" "(0 :: u32) < 2" "(2 :: u32) < 4" "(0 :: u32) < 3" "(3 :: u32) < 4"
    by simp_all
  obtain s1 where 1: "boost_queue 1 s = Some s1" "sched_wf s1 (Q(0 := Q 0 @ Q 1, 1 := []))" "only_queues s s1"
    "\<forall>p. p \<notin> set (Q 1) \<longrightarrow> task_queue_level (tasks s1 p) = task_queue_level (tasks s p)"
    using boost_queue_refines [OF assms r(1,2)] by blast
  let ?Q1 = "Q(0 := Q 0 @ Q 1, 1 := [])"
  obtain s2 where 2: "boost_queue 2 s1 = Some s2" "sched_wf s2 (?Q1(0 := ?Q1 0 @ ?Q1 2, 2 := []))" "only_queues s1 s2"
    "\<forall>p. p \<notin> set (?Q1 2) \<longrightarrow> task_queue_level (tasks s2 p) = task_queue_level (tasks s1 p)"
    using boost_queue_refines [OF 1(2) r(3,4)] by blast
  let ?Q2 = "?Q1(0 := ?Q1 0 @ ?Q1 2, 2 := [])"
  obtain s3 where 3: "boost_queue 3 s2 = Some s3" "sched_wf s3 (?Q2(0 := ?Q2 0 @ ?Q2 3, 3 := []))" "only_queues s2 s3"
    "\<forall>p. p \<notin> set (?Q2 3) \<longrightarrow> task_queue_level (tasks s3 p) = task_queue_level (tasks s2 p)"
    using boost_queue_refines [OF 2(2) r(5,6)] by blast
  have o: "only_queues s s3" using 1(3) 2(3) 3(3) only_queues_trans by metis
  have Q3: "?Q2(0 := ?Q2 0 @ ?Q2 3, 3 := []) = mlfq_boost Q" by (auto simp: mlfq_boost_def fun_eq_iff)
  have "task_manager_boost_priority_of_all_tasks s = Some (s3\<lparr>last_priority_boost_at_ticks := timer_ticks s\<rparr>)"
    using 1(1) 2(1) 3(1) only_queuesD(5) [OF o]
    by (simp add: task_manager_boost_priority_of_all_tasks_def levels_indices)
  moreover have "sched_wf s3 (mlfq_boost Q)" using 3(2) unfolding Q3 .
  moreover have "task_queue_level (tasks s3 p) = task_queue_level (tasks s p)" if "\<forall>i<6. p \<notin> set (Q i)" for p
    using that 1(4) 2(4) 3(4) by simp
  ultimately show thesis using that o by blast
qed

lemma pick_from_refines:
  assumes "queues s Q" "\<forall>i \<in> set is. i < 6"
  obtains (idle) "\<forall>i \<in> set is. Q i = []" "pick_from is s = Some (task_idle s,
        upd_task (task_idle s) (\<lambda>t. t\<lparr>task_time_slice := task_manager_calculate_time_slice 0\<rparr>) s)"
  | (task) i t ts s' where "find (\<lambda>i. Q i \<noteq> []) is = Some i" "i < 6" "Q i = t # ts" "queues s' (Q(i := ts))"
      "only_queues s s'" "\<forall>p. task_queue_level (tasks s' p) = task_queue_level (tasks s p)" "task_links s' t = 0"
      "pick_from is s = Some (t, upd_task t (\<lambda>u. u\<lparr>task_time_slice := task_manager_calculate_time_slice i\<rparr>) s')"
  using assms(2)
proof (induction "is" arbitrary: thesis)
  case Nil
  show ?case using Nil.prems(1) assms(1) by (simp add: queues_def)
next
  case (Cons i "is")
  have i: "i < 6" using Cons.prems(3) by simp
  note D = queuesD [OF assms(1) i]
  show ?case
  proof (cases "Q i")
    case Nil
    then have e: "pick_from (i # is) s = pick_from is s" "find (\<lambda>i. Q i \<noteq> []) (i # is) = find (\<lambda>i. Q i \<noteq> []) is"
      using D(6,7) by simp_all
    show ?thesis
    proof (rule Cons.IH)
      show "\<forall>i\<in>set is. i < 6" using Cons.prems(3) by simp
    next
      assume "\<forall>i\<in>set is. Q i = []" "pick_from is s = Some (task_idle s,
        upd_task (task_idle s) (\<lambda>t. t\<lparr>task_time_slice := task_manager_calculate_time_slice 0\<rparr>) s)"
      then show thesis using Cons.prems(1) Nil unfolding e by simp
    next
      fix j t ts s' assume "find (\<lambda>i. Q i \<noteq> []) is = Some j" "j < 6" "Q j = t # ts" "queues s' (Q(j := ts))"
        "only_queues s s'" "\<forall>p. task_queue_level (tasks s' p) = task_queue_level (tasks s p)" "task_links s' t = 0"
        "pick_from is s = Some (t, upd_task t (\<lambda>u. u\<lparr>task_time_slice := task_manager_calculate_time_slice j\<rparr>) s')"
      then show thesis using Cons.prems(2) [of j t ts s'] unfolding e by blast
    qed
  next
    case q: (Cons t ts)
    from assms(1) i q show ?thesis
    proof (cases rule: dequeue_refines)
      case (1 s')
      have "task_state (tasks s' t) \<noteq> TASK_STATE_READY \<or> task_state (tasks s' t) \<noteq> TASK_STATE_RUNNING"
        by (cases "task_state (tasks s' t)") auto
      then have "pick_from (i # is) s = Some (t, upd_task t (\<lambda>u. u\<lparr>task_time_slice := task_manager_calculate_time_slice i\<rparr>) s')"
        using 1(1) D(6,7) q by simp
      then show ?thesis
        using Cons.prems(2) [of i t ts s'] q i 1 by (simp add: task_links_def del: fun_upd_apply pick_from.simps)
    qed
  qed
qed


section \<open>Blocking and waking\<close>

text \<open>A task that is not in its new queue yet: taken out of the queue it was in, put at the end of \<open>i\<close>.\<close>

definition move_to :: "u32 \<Rightarrow> u32 \<Rightarrow> u32 \<Rightarrow> (u32 \<Rightarrow> u32 list) \<Rightarrow> u32 \<Rightarrow> u32 list" where
  "move_to level i t Q = (let Q = Q(level := remove1 t (Q level)) in Q(i := Q i @ [t]))"

lemma move_task:
  assumes wf: "sched_wf s Q" and t: "t \<noteq> 0" "t \<noteq> task_idle s" and i: "i < 6"
    and l: "task_queue_level (tasks s t) < 6" and f: "next_task (f (tasks s t)) = next_task (tasks s t)"
      "task_queue_level (f (tasks s t)) = task_queue_level (tasks s t)" "task_state (f (tasks s t)) = queue_state i"
  obtains r s1 s2 where
    "task_manager_remove_task_from_queue (task_queue_level (tasks s t)) t (upd_task t f s) = Some (r, s1)"
    "task_manager_enqueue_task i t s1 = Some s2" "sched_wf s2 (move_to (task_queue_level (tasks s t)) i t Q)"
    "only_queues (upd_task t f s) s2" "\<forall>p. p \<noteq> t \<longrightarrow> task_queue_level (tasks s2 p) = task_queue_level (tasks s p)"
proof -
  let ?l = "task_queue_level (tasks s t)" and ?s = "upd_task t f s"
  let ?Q1 = "Q(?l := remove1 t (Q ?l))"
  note W = sched_wfD [OF wf]
  have q: "queues ?s Q" by (rule queues_upd [OF W(1)]) (use f in simp_all)
  have fresh: "\<forall>j<6. t \<notin> set (?Q1 j)"
  proof (intro allI impI)
    fix j :: u32 assume j: "j < 6"
    show "t \<notin> set (?Q1 j)"
    proof (cases "j = ?l")
      case True
      then show ?thesis using queuesD(4) [OF W(1) l] by simp
    next
      case False
      then show ?thesis using queuesD(3) [OF W(1) j] by auto
    qed
  qed
  from q l show thesis
  proof (cases rule: remove_refines [where t = t])
    case R: (1 s1)
    have ti: "t \<noteq> task_idle s1" using t only_queuesD(1) [OF R(3)] by simp
    from R(2) i t(1) ti fresh show thesis
    proof (cases rule: enqueue_refines)
      case E: (1 s2)
      have o: "only_queues ?s s2" by (rule only_queues_trans [OF R(3) E(3)])
      have st: "task_state (tasks ?s u) = queue_state j" if j: "j < 6" and u: "u \<in> set ((?Q1(i := ?Q1 i @ [t])) j)" for j u
      proof (cases "u = t")
        case True
        then have "j = i" using u fresh j by (auto split: if_splits)
        then show ?thesis using f(3) True by simp
      next
        case False
        then have "u \<in> set (Q j)" using u notin_set_remove1 by (fastforce split: if_splits)
        then show ?thesis using W(2) [OF j] False by simp
      qed
      have "sched_wf s2 (move_to ?l i t Q)"
        unfolding move_to_def Let_def by (rule sched_wf_only [OF o E(2)]) (use st in blast)
      then show thesis using that R(1) E(1,4) R(4) o by (simp add: f(2))
    qed
  qed
qed

lemma unblock_refines:
  assumes wf: "sched_wf s Q" and t: "t \<in> set (Q 4)"
  obtains s' where "task_manager_unblock_task t s = Some (TASK_MANAGER_RESULT_OK, s')"
    "sched_wf s' (Q(4 := remove1 t (Q 4), 0 := Q 0 @ [t]))"
    "only_queues (upd_task t (\<lambda>u. u\<lparr>task_state := TASK_STATE_READY\<rparr>) s) s'"
    "\<forall>p. p \<noteq> t \<longrightarrow> task_queue_level (tasks s' p) = task_queue_level (tasks s p)"
proof -
  have i: "(4 :: u32) < 6" "(0 :: u32) < 6" by simp_all
  note D = queuesD [OF sched_wfD(1) [OF wf] i(1)]
  have lev: "task_queue_level (tasks s t) = 4" by (rule D(3) [OF t])
  have st: "task_state (tasks s t) = TASK_STATE_BLOCKED" using sched_wfD(2) [OF wf i(1) t] by (simp add: queue_state_def)
  have nz: "t \<noteq> 0" "t \<noteq> task_idle s" using D(2,5) t by auto
  show thesis
  proof (rule move_task [OF wf nz i(2), of "\<lambda>u. u\<lparr>task_state := TASK_STATE_READY\<rparr>"])
    fix r s1 s2 assume M: "task_manager_remove_task_from_queue (task_queue_level (tasks s t)) t
        (upd_task t (\<lambda>u. u\<lparr>task_state := TASK_STATE_READY\<rparr>) s) = Some (r, s1)"
      "task_manager_enqueue_task 0 t s1 = Some s2" "sched_wf s2 (move_to (task_queue_level (tasks s t)) 0 t Q)"
      "only_queues (upd_task t (\<lambda>u. u\<lparr>task_state := TASK_STATE_READY\<rparr>) s) s2"
      "\<forall>p. p \<noteq> t \<longrightarrow> task_queue_level (tasks s2 p) = task_queue_level (tasks s p)"
    have "task_manager_unblock_task t s = Some (TASK_MANAGER_RESULT_OK, s2)"
      using M(1,2) st by (simp add: task_manager_unblock_task_def Let_def)
    moreover have "move_to 4 0 t Q = Q(4 := remove1 t (Q 4), 0 := Q 0 @ [t])" by (simp add: move_to_def Let_def)
    ultimately show thesis using that M(3-5) lev by metis
  qed (use lev in \<open>simp_all add: queue_state_def\<close>)
qed

lemma block_refines:
  assumes wf: "sched_wf s Q" and t: "t \<noteq> 0" "t \<noteq> task_idle s" "task_queue_level (tasks s t) < 6"
    "task_state (tasks s t) \<noteq> TASK_STATE_BLOCKED"
  obtains s' where "task_manager_block_task t reason object s = Some (TASK_MANAGER_RESULT_OK, s')"
    "sched_wf s' (move_to (task_queue_level (tasks s t)) 4 t Q)"
    "only_queues (upd_task t (\<lambda>u. u\<lparr>task_state := TASK_STATE_BLOCKED, wait_object := object, wait_reason := reason\<rparr>) s) s'"
proof -
  let ?f = "\<lambda>u. u\<lparr>task_state := TASK_STATE_BLOCKED, wait_object := object, wait_reason := reason\<rparr>"
  have i: "(4 :: u32) < 6" by simp
  show thesis
  proof (rule move_task [OF wf t(1,2) i t(3), of ?f])
    fix r s1 s2 assume M: "task_manager_remove_task_from_queue (task_queue_level (tasks s t)) t (upd_task t ?f s) = Some (r, s1)"
      "task_manager_enqueue_task 4 t s1 = Some s2" "sched_wf s2 (move_to (task_queue_level (tasks s t)) 4 t Q)"
      "only_queues (upd_task t ?f s) s2"
    have "task_manager_block_task t reason object s = Some (TASK_MANAGER_RESULT_OK, s2)"
      using M(1,2) t(4)
      by (simp add: task_manager_block_task_def Let_def TASK_MANAGER_QUEUE_INDEX_BLOCKED_def TASK_MANAGER_QUEUE_LEVELS_def)
    then show thesis using that M(3,4) by blast
  qed (simp_all add: queue_state_def)
qed


lemma only_queues_state:
  assumes "only_queues (upd_task t (\<lambda>u. u\<lparr>task_state := x\<rparr>) s) s'"
  shows "wait_reason (tasks s' p) = wait_reason (tasks s p)" "wait_object (tasks s' p) = wait_object (tasks s p)"
    "p \<noteq> t \<Longrightarrow> task_state (tasks s' p) = task_state (tasks s p)" "task_idle s' = task_idle s"
    "task_current s' = task_current s" "task_next s' = task_next s" "task_needs_switching s' = task_needs_switching s"
    "page_directories_to_destroy s' = page_directories_to_destroy s" "kernel.more s' = kernel.more s"
  using only_queuesD(1-4,13,14) [OF assms] only_queuesD(8,10,11) [OF assms, of p] by (auto simp: upd_task_def split: if_splits)

text \<open>The other tasks and the fields of the scheduler that waking leaves alone.\<close>

definition wake_frame :: "u32 set \<Rightarrow> 'a kernel_scheme \<Rightarrow> 'a kernel_scheme \<Rightarrow> bool" where
  "wake_frame W s s' \<longleftrightarrow> (\<forall>p. wait_reason (tasks s' p) = wait_reason (tasks s p) \<and> wait_object (tasks s' p) = wait_object (tasks s p)) \<and>
     (\<forall>p. p \<notin> W \<longrightarrow> task_state (tasks s' p) = task_state (tasks s p) \<and>
        task_queue_level (tasks s' p) = task_queue_level (tasks s p)) \<and> task_idle s' = task_idle s \<and>
     task_current s' = task_current s \<and> task_next s' = task_next s \<and> task_needs_switching s' = task_needs_switching s \<and>
     page_directories_to_destroy s' = page_directories_to_destroy s \<and> kernel.more s' = kernel.more s"

definition waits_on :: "task_wait_reason_t \<Rightarrow> u32 \<Rightarrow> 'a kernel_scheme \<Rightarrow> u32 \<Rightarrow> bool" where
  "waits_on reason object s t \<longleftrightarrow> wait_reason (tasks s t) = reason \<and> wait_object (tasks s t) = object"

lemma wake_loop_refines:
  assumes "sched_wf s Q" "Q 4 = xs @ ys" "head = hd (ys @ [0])"
  shows "\<exists>s'. wake_loop reason object head s = Some s' \<and>
    sched_wf s' (Q(4 := xs @ filter (\<lambda>t. \<not> waits_on reason object s t) ys, 0 := Q 0 @ filter (waits_on reason object s) ys)) \<and>
    wake_frame (set (filter (waits_on reason object s) ys)) s s'"
  using assms
proof (induction ys arbitrary: s Q xs head)
  case Nil
  have "Q(4 := xs, 0 := Q 0) = Q" using Nil.prems(2) by auto
  then show ?case using Nil.prems by (simp add: wake_loop.simps [of _ _ 0] wake_frame_def del: fun_upd_apply)
next
  case (Cons h ys)
  have i: "(4 :: u32) < 6" by simp
  note W = sched_wfD(1) [OF Cons.prems(1)]
  note D = queuesD [OF W i]
  have h: "h \<noteq> 0" "h \<notin> set xs" "h \<notin> set ys" "head = h" using D(4,5) Cons.prems(2,3) by auto
  have link: "task_links s h = hd (ys @ [0])"
  proof -
    have "path (task_links s) (task_queues s 4) (xs @ h # ys)" using D(1) Cons.prems(2) by simp
    then have "path (task_links s) h (h # ys)" by (rule path_from_append)
    then show ?thesis by (cases ys) auto
  qed
  show ?case
  proof (cases "waits_on reason object s h")
    case False
    have "wake_loop reason object head s = wake_loop reason object (hd (ys @ [0])) s"
      using h False link by (auto simp: wake_loop.simps [of _ _ h] waits_on_def Let_def)
    moreover have "Q 4 = (xs @ [h]) @ ys" using Cons.prems(2) by simp
    ultimately show ?thesis using Cons.IH [OF Cons.prems(1) _ refl, of "xs @ [h]"] False by simp
  next
    case True
    have m: "h \<in> set (Q 4)" using Cons.prems(2) by simp
    from Cons.prems(1) m show ?thesis
    proof (cases rule: unblock_refines)
      case U: (1 s1)
      let ?Q1 = "Q(4 := remove1 h (Q 4), 0 := Q 0 @ [h])"
      have rm: "remove1 h (Q 4) = xs @ ys" using Cons.prems(2) h by (simp add: remove1_append)
      have Q1: "?Q1 4 = xs @ ys" using rm by simp
      note F = only_queues_state [OF U(3)]
      have same: "waits_on reason object s1 = waits_on reason object s"
        by (simp add: waits_on_def fun_eq_iff F)
      have step: "wake_loop reason object head s = wake_loop reason object (hd (ys @ [0])) s1"
        using h True U(1) link by (simp add: wake_loop.simps [of _ _ h s] waits_on_def Let_def)
      obtain s' where IH: "wake_loop reason object (hd (ys @ [0])) s1 = Some s'"
        "sched_wf s' (?Q1(4 := xs @ filter (\<lambda>t. \<not> waits_on reason object s t) ys, 0 := ?Q1 0 @ filter (waits_on reason object s) ys))"
        "wake_frame (set (filter (waits_on reason object s) ys)) s1 s'"
        using Cons.IH [OF U(2) Q1 refl] unfolding same by blast
      have Q': "?Q1(4 := xs @ filter (\<lambda>t. \<not> waits_on reason object s t) ys, 0 := ?Q1 0 @ filter (waits_on reason object s) ys) =
        Q(4 := xs @ filter (\<lambda>t. \<not> waits_on reason object s t) (h # ys), 0 := Q 0 @ filter (waits_on reason object s) (h # ys))"
        using True by (auto simp: fun_eq_iff)
      have "wake_frame (set (filter (waits_on reason object s) (h # ys))) s s'"
        using IH(3) F U(4) True unfolding wake_frame_def by auto
      then show ?thesis using step IH(1,2) unfolding Q' by (simp only:) blast
    qed
  qed
qed

lemma wake_refines:
  assumes "sched_wf s Q"
  obtains s' where "task_manager_wake_blocked_on reason object s = Some s'"
    "sched_wf s' (Q(4 := filter (\<lambda>t. \<not> waits_on reason object s t) (Q 4), 0 := Q 0 @ filter (waits_on reason object s) (Q 4)))"
    "wake_frame (set (filter (waits_on reason object s) (Q 4))) s s'"
proof -
  have i: "(4 :: u32) < 6" by simp
  have "task_queues s 4 = hd (Q 4 @ [0])"
    using queuesD(1) [OF sched_wfD(1) [OF assms] i] by (cases "Q 4") auto
  then show thesis
    using wake_loop_refines [OF assms, of "[]" "Q 4" "task_queues s 4" reason object] that
    by (auto simp: task_manager_wake_blocked_on_def TASK_MANAGER_QUEUE_INDEX_BLOCKED_def TASK_MANAGER_QUEUE_LEVELS_def)
qed


text \<open>Each queue of the task manager is a first-in first-out queue, whatever the others hold.\<close>

definition queue_holds :: "u32 \<Rightarrow> (u32 \<Rightarrow> u32 list) \<Rightarrow> 'a kernel_scheme \<Rightarrow> u32 list \<Rightarrow> bool" where
  "queue_holds i Q s xs \<longleftrightarrow> i < 6 \<and> queues s (Q(i := xs))"

definition queue_admits :: "u32 \<Rightarrow> (u32 \<Rightarrow> u32 list) \<Rightarrow> 'a kernel_scheme \<Rightarrow> u32 list \<Rightarrow> u32 list \<Rightarrow> bool" where
  "queue_admits i Q s xs ys \<longleftrightarrow> distinct ys \<and> 0 \<notin> set ys \<and> task_idle s \<notin> set ys \<and>
     (\<forall>j<6. set ((Q(i := xs)) j) \<inter> set ys = {})"

interpretation task_queue: fifo_queue "queue_holds i Q" "queue_admits i Q"
  "task_manager_enqueue_task i" "task_manager_dequeue_task i" for i Q
proof
  fix s :: "'a kernel_scheme" and xs x y ys
  show "\<exists>s'. task_manager_enqueue_task i y s = Some s' \<and> queue_holds i Q s' (xs @ [y]) \<and> queue_admits i Q s' (xs @ [y]) ys"
    if h: "queue_holds i Q s xs" and a: "queue_admits i Q s xs (y # ys)"
  proof -
    have i: "i < 6" and q: "queues s (Q(i := xs))" using h by (auto simp: queue_holds_def)
    have y: "y \<noteq> 0" "y \<noteq> task_idle s" "\<forall>j<6. y \<notin> set ((Q(i := xs)) j)" using a by (auto simp: queue_admits_def)
    from q i y show ?thesis
    proof (cases rule: enqueue_refines)
      case (1 s')
      have "queue_holds i Q s' (xs @ [y])" using 1(2) i unfolding queue_holds_def fun_upd_upd fun_upd_same by blast
      moreover have "queue_admits i Q s' (xs @ [y]) ys"
        unfolding queue_admits_def
      proof (intro conjI allI impI)
        fix j :: u32 assume "j < 6"
        then have "set ((Q(i := xs)) j) \<inter> set (y # ys) = {}" "distinct (y # ys)"
          using a unfolding queue_admits_def by blast+
        then show "set ((Q(i := xs @ [y])) j) \<inter> set ys = {}" by (cases "j = i") auto
      qed (use a only_queuesD(1) [OF 1(3)] in \<open>auto simp: queue_admits_def\<close>)
      ultimately show ?thesis using 1(1) by blast
    qed
  qed
  show "\<exists>s'. task_manager_dequeue_task i s = Some (x, s') \<and> queue_holds i Q s' xs" if h: "queue_holds i Q s (x # xs)"
  proof -
    have i: "i < 6" and q: "queues s (Q(i := x # xs))" using h by (auto simp: queue_holds_def)
    have "(Q(i := x # xs)) i = x # xs" by simp
    from q i this show ?thesis
    proof (cases rule: dequeue_refines)
      case (1 s')
      then show ?thesis using i unfolding queue_holds_def fun_upd_upd by blast
    qed
  qed
qed

end
