(* ===== verification/Scheduler.thy ===== *)
theory Scheduler
  imports Task_Queues
begin

text \<open>
  The scheduler of \<^verbatim>\<open>src/task_manager.c\<close> and the timer interrupt of \<^verbatim>\<open>src/drivers/timer.c\<close>, with the
  page directories that wait to be destroyed (the last part of \<^verbatim>\<open>src/memory_paging.c\<close>) and the
  switch of \<^verbatim>\<open>src/task_switch.s\<close> that ends an interrupt. The scheduler refines a multi-level
  feedback queue on lists.
\<close>

section \<open>Page directories to destroy\<close>

definition sizeof_page_directory_node_t :: u32 where "sizeof_page_directory_node_t = 8"

definition memory_paging_queue_to_destroy ::
    "u32 \<Rightarrow> 'a kernel_scheme \<Rightarrow> (memory_paging_result_t \<times> 'a kernel_scheme) option" where
  "memory_paging_queue_to_destroy page_directory s =
     (if page_directory = kernel_page_directory_phys s then Some (MEMORY_PAGING_RESULT_OK, s)
      else do {
        (node, s) \<leftarrow> kernel_heap_malloc sizeof_page_directory_node_t s;
        if node = 0 then None
        else let s = s\<lparr>page_directory_nodes := (page_directory_nodes s)
                       (node := \<lparr>node_page_directory = page_directory, pd_node_next = 0\<rparr>)\<rparr>
             in if page_directories_to_destroy s = 0
                then Some (MEMORY_PAGING_RESULT_OK,
                       s\<lparr>page_directories_to_destroy := node, page_directories_to_destroy_tail := node\<rparr>)
                else let tail = page_directories_to_destroy_tail s
                     in Some (MEMORY_PAGING_RESULT_OK,
                          s\<lparr>page_directory_nodes := (page_directory_nodes s)
                              (tail := (page_directory_nodes s tail)\<lparr>pd_node_next := node\<rparr>),
                            page_directories_to_destroy_tail := node\<rparr>)
      })"

partial_function (option) destroy_loop :: "u32 \<Rightarrow> 'a kernel_scheme \<Rightarrow> 'a kernel_scheme option" where
  "destroy_loop head s =
     (if head = 0 then Some s
      else let following = pd_node_next (page_directory_nodes s head);
               directory = node_page_directory (page_directory_nodes s head) in do {
        (page_directory, s) \<leftarrow> bounce_alloc directory s;
        s \<leftarrow> memory_paging_free_page_directory page_directory s;
        s \<leftarrow> bounce_free page_directory s;
        s \<leftarrow> kernel_heap_free head (free_frame directory s);
        destroy_loop following s
      })"

definition memory_paging_destroy_queued :: "'a kernel_scheme \<Rightarrow> 'a kernel_scheme option" where
  "memory_paging_destroy_queued s = do {
     s \<leftarrow> destroy_loop (page_directories_to_destroy s) s;
     Some (s\<lparr>page_directories_to_destroy := 0, page_directories_to_destroy_tail := 0\<rparr>)
   }"

section \<open>The scheduler\<close>

text \<open>The end of the time slice of \<open>old_task\<close>.\<close>

definition schedule_switch :: "u32 \<Rightarrow> 'a kernel_scheme \<Rightarrow> 'a kernel_scheme option" where
  "schedule_switch old_task s =
     (let s = upd_task old_task (\<lambda>t. t\<lparr>yield := 0\<rparr>) s in do {
        s \<leftarrow> (if old_task \<noteq> task_idle s \<and> task_state (tasks s old_task) = TASK_STATE_RUNNING
              then task_manager_requeue_task old_task 1 s else Some s);
        (new_task, s) \<leftarrow> task_manager_pick_task s;
        let s = upd_task new_task (\<lambda>t. t\<lparr>task_state := TASK_STATE_RUNNING\<rparr>) s in
        Some (if new_task \<noteq> old_task then s\<lparr>task_next := new_task, task_needs_switching := 1\<rparr>
              else upd_task new_task
                (\<lambda>t. t\<lparr>task_time_slice := task_manager_calculate_time_slice (task_queue_level t)\<rparr>) s)
      })"

text \<open>One tick of the current task.\<close>

definition schedule_tick :: "'a kernel_scheme \<Rightarrow> 'a kernel_scheme option" where
  "schedule_tick s =
     (let current = task_current s in
      if current = 0 then Some s
      else let s = upd_task current (\<lambda>t. t\<lparr>task_time_slice := task_time_slice t - 1\<rparr>) s in
        if task_time_slice (tasks s current) \<le> 0 \<or> yield (tasks s current) \<noteq> 0
        then schedule_switch current s else Some s)"

definition schedule_boost :: "'a kernel_scheme \<Rightarrow> 'a kernel_scheme option" where
  "schedule_boost s =
     (if timer_ticks s - last_priority_boost_at_ticks s \<ge> TASK_MANAGER_PRIORITY_BOOST_INTERVAL
      then task_manager_boost_priority_of_all_tasks s else Some s)"

definition task_manager_schedule :: "'a kernel_scheme \<Rightarrow> 'a kernel_scheme option" where
  "task_manager_schedule s = do {
     s \<leftarrow> memory_paging_destroy_queued s;
     s \<leftarrow> schedule_boost s;
     schedule_tick s
   }"

definition task_manager_yield_current ::
    "'a kernel_scheme \<Rightarrow> (task_manager_result_t \<times> 'a kernel_scheme) option" where
  "task_manager_yield_current s =
     (if task_current s = 0 then Some (TASK_MANAGER_RESULT_OK, s)
      else do {
        s \<leftarrow> task_manager_schedule (upd_task (task_current s) (\<lambda>t. t\<lparr>yield := 1\<rparr>) s);
        Some (TASK_MANAGER_RESULT_OK, s)
      })"

definition timer_irq_handler :: "register_interrupt_data_t \<Rightarrow> 'a kernel_scheme \<Rightarrow> 'a kernel_scheme option" where
  "timer_irq_handler data s =
     (let s = s\<lparr>timer_ticks := timer_ticks s + 1\<rparr>;
          current = task_current s;
          s = (if current = 0 then s
               else if frame_cs data = TASK_MANAGER_KERNEL_CODE_SELECTOR
               then upd_task current (\<lambda>t. t\<lparr>ticks_system := ticks_system t + 1\<rparr>) s
               else upd_task current (\<lambda>t. t\<lparr>ticks_user := ticks_user t + 1\<rparr>) s)
      in task_manager_schedule s)"

text \<open>
  The end of an interrupt: when a switch is pending, the stack pointer of the interrupted task is
  saved and the next task becomes the current one, with its kernel stack and page directory.
\<close>

definition task_manager_task_switch :: "u32 \<Rightarrow> 'a kernel_scheme \<Rightarrow> 'a kernel_scheme" where
  "task_manager_task_switch esp s =
     (if task_needs_switching s = 0 then s
      else let s = s\<lparr>task_needs_switching := 0\<rparr>;
               s = (if task_current s = 0 then s else upd_task (task_current s) (\<lambda>t. t\<lparr>task_esp := esp\<rparr>) s);
               new = task_next s
           in s\<lparr>tss_esp0 := stack_top (tasks s new), task_current := new, cr3 := task_cr3 (tasks s new)\<rparr>)"


section \<open>The scheduler refines the multi-level feedback queue\<close>

lemma destroy_nothing:
  "page_directories_to_destroy s = 0 \<Longrightarrow>
     memory_paging_destroy_queued s = Some (s\<lparr>page_directories_to_destroy := 0, page_directories_to_destroy_tail := 0\<rparr>)"
  by (simp add: memory_paging_destroy_queued_def destroy_loop.simps [of 0])

text \<open>The interrupted task goes to the end of the next lower level, if it can still run.\<close>

definition mlfq_requeue :: "'a kernel_scheme \<Rightarrow> (u32 \<Rightarrow> u32 list) \<Rightarrow> u32 \<Rightarrow> u32 list" where
  "mlfq_requeue s Q =
     (let c = task_current s; level = mlfq_demote (task_queue_level (tasks s c)) in
      if c \<noteq> task_idle s \<and> task_state (tasks s c) = TASK_STATE_RUNNING then Q(level := Q level @ [c]) else Q)"

text \<open>The choice of the next task: its level, the task, and the queues without it.\<close>

definition mlfq_choose :: "u32 \<Rightarrow> (u32 \<Rightarrow> u32 list) \<Rightarrow> u32 \<times> u32 \<times> (u32 \<Rightarrow> u32 list)" where
  "mlfq_choose idle Q = (case mlfq_pick Q of None \<Rightarrow> (0, idle, Q) | Some r \<Rightarrow> r)"

definition boost_due :: "'a kernel_scheme \<Rightarrow> bool" where
  "boost_due s \<longleftrightarrow> timer_ticks s - last_priority_boost_at_ticks s \<ge> TASK_MANAGER_PRIORITY_BOOST_INTERVAL"

definition mlfq_aged :: "'a kernel_scheme \<Rightarrow> (u32 \<Rightarrow> u32 list) \<Rightarrow> u32 \<Rightarrow> u32 list" where
  "mlfq_aged s Q = (if boost_due s then mlfq_boost Q else Q)"

lemma demote_bound: "level < 4 \<Longrightarrow> mlfq_demote level < 4"
  unfolding mlfq_demote_def by unat_arith

lemma task_level_state_commute:
  "t\<lparr>task_queue_level := a, task_state := b\<rparr> = t\<lparr>task_state := b, task_queue_level := a\<rparr>" for t :: task_t
  by (cases t) simp

lemma requeue_refines:
  assumes wf: "sched_wf s Q" and t: "t \<noteq> 0" "t \<noteq> task_idle s" "task_state (tasks s t) = TASK_STATE_RUNNING"
    "task_queue_level (tasks s t) < 4"
  obtains s' where "task_manager_requeue_task t 1 s = Some s'"
    "sched_wf s' (Q(mlfq_demote (task_queue_level (tasks s t)) := Q (mlfq_demote (task_queue_level (tasks s t))) @ [t]))"
    "only_queues (upd_task t (\<lambda>u. u\<lparr>task_state := TASK_STATE_READY\<rparr>) s) s'"
proof -
  let ?l = "mlfq_demote (task_queue_level (tasks s t))"
  let ?s1 = "if task_queue_level (tasks s t) < 3
             then upd_task t (\<lambda>u. u\<lparr>task_queue_level := task_queue_level u + 1\<rparr>) s else s"
  let ?s2 = "upd_task t (\<lambda>u. u\<lparr>task_state := TASK_STATE_READY\<rparr>) ?s1"
  have fresh: "\<forall>j<6. t \<notin> set (Q j)" using running_not_queued [OF wf t(3)] by blast
  have l: "?l < 4" "?l < 6" using demote_bound [OF t(4)] by (auto intro: less_trans)
  have q1: "queues ?s1 Q" using queues_upd [OF sched_wfD(1) [OF wf]] fresh sched_wfD(1) [OF wf] by simp
  have q2: "queues ?s2 Q" by (rule queues_upd [OF q1]) simp_all
  have lev: "task_queue_level (tasks ?s2 t) = ?l" by (simp add: mlfq_demote_def)
  have ti: "t \<noteq> task_idle ?s2" using t(2) by simp
  from q2 l(2) t(1) ti fresh show thesis
  proof (cases rule: enqueue_refines)
    case (1 s')
    have run: "task_manager_requeue_task t 1 s = Some s'"
      using 1(1) t(2) lev
      by (simp add: task_manager_requeue_task_def Let_def TASK_MANAGER_QUEUE_LEVELS_def split del: if_split)
    have "only_queues (upd_task t (\<lambda>u. u\<lparr>task_state := TASK_STATE_READY\<rparr>) s) ?s2"
    proof (cases "task_queue_level (tasks s t) < 3")
      case True
      have "?s2 = upd_task t (\<lambda>u. u\<lparr>task_queue_level := task_queue_level u + 1\<rparr>)
          (upd_task t (\<lambda>u. u\<lparr>task_state := TASK_STATE_READY\<rparr>) s)"
        using True by (simp add: upd_task_def task_level_state_commute)
      show ?thesis unfolding \<open>?s2 = _\<close> by (rule only_queues_upd) simp
    qed simp
    then have o: "only_queues (upd_task t (\<lambda>u. u\<lparr>task_state := TASK_STATE_READY\<rparr>) s) s'"
      by (rule only_queues_trans [OF _ 1(3)])
    have "task_state (tasks ?s2 u) = queue_state j" if "j < 6" "u \<in> set ((Q(?l := Q ?l @ [t])) j)" for j u
    proof (cases "u = t")
      case True
      then have "j = ?l" using that fresh by (auto split: if_splits)
      then show ?thesis using True l(1) by (simp add: queue_state_ready)
    next
      case False
      then have "u \<in> set (Q j)" using that by (auto split: if_splits)
      then show ?thesis using sched_wfD(2) [OF wf that(1)] False by simp
    qed
    then have "sched_wf s' (Q(?l := Q ?l @ [t]))" using sched_wf_only [OF 1(3,2)] by blast
    then show thesis using that run o by blast
  qed
qed


lemma pick_refines:
  assumes wf: "sched_wf s Q"
  obtains i t Q2 s1 where "mlfq_choose (task_idle s) Q = (i, t, Q2)" "only_queues s s1" "queues s1 Q2"
    "task_manager_pick_task s = Some (t, upd_task t (\<lambda>u. u\<lparr>task_time_slice := task_manager_calculate_time_slice i\<rparr>) s1)"
    "\<forall>j<6. t \<notin> set (Q2 j)" "\<forall>j. set (Q2 j) \<subseteq> set (Q j)" "t \<noteq> 0"
    "t \<noteq> task_idle s \<longrightarrow> task_queue_level (tasks s1 t) = i" "t = task_idle s \<longrightarrow> i = 0"
    "t \<noteq> task_idle s \<longrightarrow> t \<in> set (Q i) \<and> i < 4"
    "\<forall>p. task_queue_level (tasks s1 p) = task_queue_level (tasks s p)"
proof -
  note W = sched_wfD(1) [OF wf]
  have b: "\<forall>i \<in> set [0, 1, 2, 3 :: u32]. i < 6" by simp
  have idle: "task_idle s \<noteq> 0" "\<forall>j<6. task_idle s \<notin> set (Q j)" using W by (auto simp: queues_def)
  from W b show thesis
  proof (cases rule: pick_from_refines)
    case idle_case: idle
    then have "find (\<lambda>i. Q i \<noteq> []) [0, 1, 2, 3] = None" by (simp add: find_None_iff)
    then have "mlfq_choose (task_idle s) Q = (0, task_idle s, Q)" by (simp add: mlfq_choose_def mlfq_pick_def)
    then show thesis
      using that [of 0 "task_idle s" Q s] idle_case(2) idle W
      by (simp add: task_manager_pick_task_def levels_indices)
  next
    case (task i t ts s1)
    have ch: "mlfq_choose (task_idle s) Q = (i, t, Q(i := ts))"
      using task(1,3) by (simp add: mlfq_choose_def mlfq_pick_def)
    have fresh: "\<forall>j<6. t \<notin> set ((Q(i := ts)) j)"
      using queues_disjoint [OF W task(2), of _ t] task(3) queuesD(4) [OF W task(2)] by auto
    have m: "t \<in> set (Q i)" using task(3) by simp
    have nz: "t \<noteq> 0" "t \<noteq> task_idle s" using queuesD(2,5) [OF W task(2)] m by auto
    have i4: "i < 4"
    proof -
      have "i \<in> set [0, 1, 2, 3]" using task(1) by (auto split: if_splits)
      then show ?thesis by auto
    qed
    have sub: "\<forall>j. set ((Q(i := ts)) j) \<subseteq> set (Q j)" using task(3) by auto
    have run: "task_manager_pick_task s = Some (t, upd_task t (\<lambda>u. u\<lparr>task_time_slice := task_manager_calculate_time_slice i\<rparr>) s1)"
      using task(8) by (simp only: task_manager_pick_task_def levels_indices)
    show thesis
      by (rule that [OF ch task(5,4) run fresh sub nz(1)])
        (use task(6) m nz i4 queuesD(3) [OF W task(2) m] in simp_all)
  qed
qed


text \<open>The state before the choice: directories destroyed, priorities aged, one tick taken off.\<close>

lemma schedule_ages:
  assumes wf: "sched_wf s Q" and d: "page_directories_to_destroy s = 0"
  obtains s1 where "sched_wf s1 (mlfq_aged s Q)" "task_current s1 = task_current s" "task_idle s1 = task_idle s"
    "task_next s1 = task_next s" "task_needs_switching s1 = task_needs_switching s"
    "\<forall>p. task_core (tasks s1 p) = task_core (tasks s p)"
    "\<forall>p. task_state (tasks s p) = TASK_STATE_RUNNING \<or> p = task_idle s \<longrightarrow> task_queue_level (tasks s1 p) = task_queue_level (tasks s p)"
    "task_manager_schedule s = schedule_tick s1" "page_directories_to_destroy s1 = 0"
proof -
  let ?s = "s\<lparr>page_directories_to_destroy := 0, page_directories_to_destroy_tail := 0\<rparr>"
  have wf0: "sched_wf ?s Q" by (rule sched_wf_outer [OF wf]) simp_all
  show thesis
  proof (cases "boost_due s")
    case False
    then show thesis
      using that [of ?s] wf0 d by (simp add: task_manager_schedule_def schedule_boost_def destroy_nothing mlfq_aged_def boost_due_def)
  next
    case True
    from wf0 show thesis
    proof (cases rule: boost_refines)
      case (1 s')
      let ?s1 = "s'\<lparr>last_priority_boost_at_ticks := timer_ticks ?s\<rparr>"
      note O = only_queuesD [OF 1(3)]
      have "sched_wf ?s1 (mlfq_aged s Q)"
        using sched_wf_outer [OF 1(2), of ?s1] True by (simp add: mlfq_aged_def)
      moreover have "\<forall>p. task_core (tasks s' p) = task_core (tasks s p)"
        using 1(3) unfolding only_queues_def by fastforce
      moreover have "\<forall>i<6. p \<notin> set (Q i)" if "task_state (tasks s p) = TASK_STATE_RUNNING \<or> p = task_idle s" for p
        using that running_not_queued [OF wf] sched_wfD(1) [OF wf] unfolding queues_def by blast
      ultimately show thesis
        using that [of ?s1] 1(1,4) True d O(1-4) only_queuesD(13) [OF 1(3)]
        by (simp add: task_manager_schedule_def schedule_boost_def destroy_nothing boost_due_def)
    qed
  qed
qed


lemma slice_expires: "t - 1 \<le> 0 \<longleftrightarrow> t = 1" for t :: u32
  by (metis diff_eq_diff_eq diff_self eq_iff_diff_eq_0 word_le_0_iff)

lemma switch_refines:
  assumes wf: "sched_wf s Q" and c: "c = task_current s" "c \<noteq> 0"
    and lv: "c \<noteq> task_idle s \<and> task_state (tasks s c) = TASK_STATE_RUNNING \<longrightarrow> task_queue_level (tasks s c) < 4"
  obtains i t Q2 s' where "schedule_switch c s = Some s'"
      "mlfq_choose (task_idle s) (mlfq_requeue s Q) = (i, t, Q2)" "sched_wf s' Q2" "task_current s' = c"
      "task_state (tasks s' t) = TASK_STATE_RUNNING"
      "t \<noteq> c \<or> t \<noteq> task_idle s \<longrightarrow> task_time_slice (tasks s' t) = task_manager_calculate_time_slice i"
      "task_next s' = (if t \<noteq> c then t else task_next s)"
      "task_needs_switching s' = (if t \<noteq> c then 1 else task_needs_switching s)" "task_idle s' = task_idle s"
      "t \<noteq> task_idle s \<longrightarrow> task_queue_level (tasks s' t) = i \<and> i < 4"
      "page_directories_to_destroy s' = page_directories_to_destroy s"
proof -
  let ?s3 = "upd_task c (\<lambda>t. t\<lparr>yield := 0\<rparr>) s"
  have wf3: "sched_wf ?s3 Q" by (rule sched_wf_upd [OF wf]) simp_all
  define run where "run \<longleftrightarrow> c \<noteq> task_idle s \<and> task_state (tasks s c) = TASK_STATE_RUNNING"
  obtain s4 where s4: "(if run then task_manager_requeue_task c 1 ?s3 else Some ?s3) = Some s4"
    "sched_wf s4 (mlfq_requeue s Q)" "task_idle s4 = task_idle s" "task_next s4 = task_next s"
    "task_needs_switching s4 = task_needs_switching s" "task_current s4 = c"
    "page_directories_to_destroy s4 = page_directories_to_destroy s"
  proof (cases run)
    case True
    have i3: "c \<noteq> task_idle ?s3" "task_state (tasks ?s3 c) = TASK_STATE_RUNNING" "task_queue_level (tasks ?s3 c) < 4"
      using True lv by (simp_all add: run_def)
    from wf3 c(2) i3 show ?thesis
    proof (cases rule: requeue_refines)
      case (1 s')
      have "mlfq_requeue s Q = Q(mlfq_demote (task_queue_level (tasks s c)) :=
          Q (mlfq_demote (task_queue_level (tasks s c))) @ [c])"
        using True c by (simp add: mlfq_requeue_def run_def Let_def)
      then show ?thesis
        using that [of s'] 1 True only_queues_state(4-8) [OF 1(3)] c by (simp add: upd_task_def)
    qed
  next
    case False
    then have "mlfq_requeue s Q = Q" using c by (auto simp: mlfq_requeue_def run_def Let_def)
    then show ?thesis using that [of ?s3] wf3 False c by (simp add: upd_task_def)
  qed
  have run3: "(c \<noteq> task_idle ?s3 \<and> task_state (tasks ?s3 c) = TASK_STATE_RUNNING) = run" by (simp add: run_def)
  from s4(2) show thesis
  proof (cases rule: pick_refines)
    case P: (1 i t Q2 s5)
    let ?s6 = "upd_task t (\<lambda>u. u\<lparr>task_time_slice := task_manager_calculate_time_slice i\<rparr>) s5"
    let ?s7 = "upd_task t (\<lambda>u. u\<lparr>task_state := TASK_STATE_RUNNING\<rparr>) ?s6"
    define s' where "s' = (if t \<noteq> c then ?s7\<lparr>task_next := t, task_needs_switching := 1\<rparr>
      else upd_task t (\<lambda>u. u\<lparr>task_time_slice := task_manager_calculate_time_slice (task_queue_level u)\<rparr>) ?s7)"
    have run: "schedule_switch c s = Some s'"
      unfolding schedule_switch_def Let_def run3 s4(1) s'_def using P(4) by simp
    have wf5: "sched_wf s5 Q2"
      by (rule sched_wf_only [OF P(2,3)]) (use sched_wfD(2) [OF s4(2)] P(6) in blast)
    have "sched_wf ?s6 Q2" by (rule sched_wf_upd [OF wf5]) simp_all
    then have wf7: "sched_wf ?s7 Q2" by (rule sched_wf_upd) (use P(5) in simp_all)
    have wf': "sched_wf s' Q2"
    proof (cases "t = c")
      case True
      have "sched_wf (upd_task t (\<lambda>u. u\<lparr>task_time_slice := task_manager_calculate_time_slice (task_queue_level u)\<rparr>) ?s7) Q2"
        by (rule sched_wf_upd [OF wf7]) simp_all
      then show ?thesis using True by (simp add: s'_def)
    next
      case False
      have "sched_wf (?s7\<lparr>task_next := t, task_needs_switching := 1\<rparr>) Q2" by (rule sched_wf_outer [OF wf7]) simp_all
      then show ?thesis using False by (simp add: s'_def)
    qed
    note O = only_queuesD(1-4,13) [OF P(2)]
    have "mlfq_choose (task_idle s) (mlfq_requeue s Q) = (i, t, Q2)" using P(1) s4(3) by simp
    from run this wf' show thesis
      by (rule that) (use P(8,10) O s4(3-7) in \<open>auto simp: s'_def\<close>)
  qed
qed

lemma tick_refines:
  assumes wf: "sched_wf s Q" and c: "c = task_current s" "c \<noteq> 0"
    and lv: "c \<noteq> task_idle s \<and> task_state (tasks s c) = TASK_STATE_RUNNING \<longrightarrow> task_queue_level (tasks s c) < 4"
  obtains (quantum) s' where "task_time_slice (tasks s c) \<noteq> 1" "yield (tasks s c) = 0" "schedule_tick s = Some s'"
      "sched_wf s' Q" "task_current s' = c" "task_next s' = task_next s"
      "task_needs_switching s' = task_needs_switching s" "task_time_slice (tasks s' c) = task_time_slice (tasks s c) - 1"
      "task_state (tasks s' c) = task_state (tasks s c)" "task_idle s' = task_idle s"
      "task_queue_level (tasks s' c) = task_queue_level (tasks s c)"
      "page_directories_to_destroy s' = page_directories_to_destroy s"
  | (switch) i t Q2 s' where "task_time_slice (tasks s c) = 1 \<or> yield (tasks s c) \<noteq> 0" "schedule_tick s = Some s'"
      "mlfq_choose (task_idle s) (mlfq_requeue s Q) = (i, t, Q2)" "sched_wf s' Q2" "task_current s' = c"
      "task_state (tasks s' t) = TASK_STATE_RUNNING"
      "t \<noteq> c \<or> t \<noteq> task_idle s \<longrightarrow> task_time_slice (tasks s' t) = task_manager_calculate_time_slice i"
      "task_next s' = (if t \<noteq> c then t else task_next s)"
      "task_needs_switching s' = (if t \<noteq> c then 1 else task_needs_switching s)" "task_idle s' = task_idle s"
      "t \<noteq> task_idle s \<longrightarrow> task_queue_level (tasks s' t) = i \<and> i < 4"
      "page_directories_to_destroy s' = page_directories_to_destroy s"
proof -
  let ?s2 = "upd_task c (\<lambda>t. t\<lparr>task_time_slice := task_time_slice t - 1\<rparr>) s"
  have wf2: "sched_wf ?s2 Q" by (rule sched_wf_upd [OF wf]) simp_all
  show thesis
  proof (cases "task_time_slice (tasks s c) = 1 \<or> yield (tasks s c) \<noteq> 0")
    case False
    have "schedule_tick s = Some ?s2" using False c by (simp add: schedule_tick_def Let_def slice_expires)
    then show thesis using that(1) False wf2 c by (simp add: upd_task_def)
  next
    case True
    have tick: "schedule_tick s = schedule_switch c ?s2"
      using True c by (auto simp: schedule_tick_def Let_def slice_expires)
    have c2: "c = task_current ?s2" using c by (simp add: upd_task_def)
    have lv2: "c \<noteq> task_idle ?s2 \<and> task_state (tasks ?s2 c) = TASK_STATE_RUNNING \<longrightarrow> task_queue_level (tasks ?s2 c) < 4"
      using lv by simp
    have rq: "page_directories_to_destroy ?s2 = page_directories_to_destroy s" "mlfq_requeue ?s2 Q = mlfq_requeue s Q" "task_idle ?s2 = task_idle s" "task_next ?s2 = task_next s"
      "task_needs_switching ?s2 = task_needs_switching s"
      using c by (simp_all add: mlfq_requeue_def upd_task_def Let_def)
    from wf2 c2 c(2) lv2 show thesis
    proof (cases rule: switch_refines)
      case (1 i t Q2 s')
      show thesis by (rule that(2) [OF True, of s' i t Q2]) (use 1 tick rq in simp_all)
    qed
  qed
qed


lemma schedule_refines:
  assumes wf: "sched_wf s Q" and d: "page_directories_to_destroy s = 0" and c: "c = task_current s" "c \<noteq> 0"
    and lv: "c \<noteq> task_idle s \<and> task_state (tasks s c) = TASK_STATE_RUNNING \<longrightarrow> task_queue_level (tasks s c) < 4"
  obtains (quantum) s' where "task_time_slice (tasks s c) \<noteq> 1" "yield (tasks s c) = 0" "task_manager_schedule s = Some s'"
      "sched_wf s' (mlfq_aged s Q)" "task_current s' = c" "task_next s' = task_next s"
      "task_needs_switching s' = task_needs_switching s" "task_time_slice (tasks s' c) = task_time_slice (tasks s c) - 1"
      "task_state (tasks s' c) = task_state (tasks s c)" "task_idle s' = task_idle s"
      "task_state (tasks s c) = TASK_STATE_RUNNING \<longrightarrow> task_queue_level (tasks s' c) = task_queue_level (tasks s c)"
      "page_directories_to_destroy s' = page_directories_to_destroy s"
  | (switch) i t Q2 s' where "task_time_slice (tasks s c) = 1 \<or> yield (tasks s c) \<noteq> 0" "task_manager_schedule s = Some s'"
      "mlfq_choose (task_idle s) (mlfq_requeue s (mlfq_aged s Q)) = (i, t, Q2)" "sched_wf s' Q2" "task_current s' = c"
      "task_state (tasks s' t) = TASK_STATE_RUNNING"
      "t \<noteq> c \<or> t \<noteq> task_idle s \<longrightarrow> task_time_slice (tasks s' t) = task_manager_calculate_time_slice i"
      "task_next s' = (if t \<noteq> c then t else task_next s)"
      "task_needs_switching s' = (if t \<noteq> c then 1 else task_needs_switching s)" "task_idle s' = task_idle s"
      "t \<noteq> task_idle s \<longrightarrow> task_queue_level (tasks s' t) = i \<and> i < 4"
      "page_directories_to_destroy s' = page_directories_to_destroy s"
proof -
  from wf d show thesis
  proof (cases rule: schedule_ages)
    case A: (1 s1)
    have core: "task_state (tasks s1 p) = task_state (tasks s p)" "task_time_slice (tasks s1 p) = task_time_slice (tasks s p)"
      "yield (tasks s1 p) = yield (tasks s p)" for p
      using task_core_fields [of "tasks s1 p" "tasks s p"] A(6) by auto
    have c1: "c = task_current s1" using A(2) c by simp
    have lv1: "c \<noteq> task_idle s1 \<and> task_state (tasks s1 c) = TASK_STATE_RUNNING \<longrightarrow> task_queue_level (tasks s1 c) < 4"
      using lv A(3,7) core by simp
    have rq: "mlfq_requeue s1 (mlfq_aged s Q) = mlfq_requeue s (mlfq_aged s Q)"
      using A(2,3,7) core by (auto simp: mlfq_requeue_def Let_def)
    from A(1) c1 c(2) lv1 show thesis
    proof (cases rule: tick_refines)
      case (quantum s')
      show thesis
        by (rule that(1) [of s']) (use quantum core A(3-5,7-9) d in simp_all)
    next
      case (switch i t Q2 s')
      show thesis
        by (rule that(2) [of s' i t Q2]) (use switch core A(3-5,8,9) d rq in simp_all)
    qed
  qed
qed

section \<open>Runs of the scheduler\<close>

text \<open>All tasks in the queues.\<close>

definition queued :: "(u32 \<Rightarrow> u32 list) \<Rightarrow> u32 set" where
  "queued Q = set (concat (map Q [0, 1, 2, 3, 4, 5]))"

lemma index_cases: "i < 6 \<Longrightarrow> i = 0 \<or> i = 1 \<or> i = 2 \<or> i = 3 \<or> i = 4 \<or> i = 5" for i :: u32
proof -
  assume "i < 6"
  then have "unat i < 6" by (simp add: word_less_nat_alt)
  then have "unat i \<in> {0, 1, 2, 3, 4, 5}" by auto
  moreover have "i = of_nat k" if "unat i = k" for k using that by (simp add: that [symmetric])
  ultimately show ?thesis by fastforce
qed

lemma queued_iff: "t \<in> queued Q \<longleftrightarrow> (\<exists>i<6. t \<in> set (Q i))"
proof
  assume "t \<in> queued Q"
  then show "\<exists>i<6. t \<in> set (Q i)" unfolding queued_def by (auto intro: exI [of _ 0] exI [of _ 1] exI [of _ 2] exI [of _ 3] exI [of _ 4] exI [of _ 5])
next
  assume "\<exists>i<6. t \<in> set (Q i)"
  then show "t \<in> queued Q" unfolding queued_def using index_cases by fastforce
qed

lemma queued_boost: "queued (mlfq_boost Q) = queued Q"
  by (auto simp: queued_def mlfq_boost_def)

lemma queued_upd: "i < 6 \<Longrightarrow> queued (Q(i := Q i @ [t])) = insert t (queued Q)"
  using index_cases [of i] by (auto simp: queued_def)


text \<open>
  Between two interrupts: no switch is pending, and the current task is the idle task or a running
  task of one of the four levels that is in no queue.
\<close>

definition between_interrupts :: "'a kernel_scheme \<Rightarrow> (u32 \<Rightarrow> u32 list) \<Rightarrow> bool" where
  "between_interrupts s Q \<longleftrightarrow> sched_wf s Q \<and> page_directories_to_destroy s = 0 \<and> task_needs_switching s = 0 \<and>
     task_current s \<noteq> 0 \<and> (task_current s = task_idle s \<or>
       task_state (tasks s (task_current s)) = TASK_STATE_RUNNING \<and> task_queue_level (tasks s (task_current s)) < 4)"

text \<open>All tasks that the scheduler knows, the idle task aside.\<close>

definition known_tasks :: "'a kernel_scheme \<Rightarrow> (u32 \<Rightarrow> u32 list) \<Rightarrow> u32 set" where
  "known_tasks s Q = queued Q \<union> ({task_current s} - {task_idle s})"

lemma queued_choose:
  assumes idle: "task_idle s \<notin> queued Q" and ch: "mlfq_choose (task_idle s) Q = (i, t, Q2)"
  shows "queued Q = queued Q2 \<union> ({t} - {task_idle s})"
proof (cases "mlfq_pick Q")
  case None
  then show ?thesis using ch by (auto simp: mlfq_choose_def)
next
  case (Some r)
  then obtain k where f: "find (\<lambda>i. Q i \<noteq> []) [0, 1, 2, 3] = Some k" and r: "r = (k, hd (Q k), Q(k := tl (Q k)))"
    unfolding mlfq_pick_def by auto
  have ne: "Q k \<noteq> []" and "k \<in> set [0, 1, 2, 3]" using f by (auto split: if_splits)
  then have k6: "k < 6" by auto
  have e: "t = hd (Q k)" "Q2 = Q(k := tl (Q k))" using ch Some r by (auto simp: mlfq_choose_def)
  have "set (Q k) = insert t (set (Q2 k))" using ne e by (metis fun_upd_same list.collapse list.simps(15))
  then have "(\<exists>i<6. u \<in> set (Q i)) \<longleftrightarrow> u = t \<or> (\<exists>i<6. u \<in> set (Q2 i))" for u
    using k6 e(2) by (metis fun_upd_other insert_iff)
  then have "queued Q = insert t (queued Q2)" by (auto simp: queued_iff)
  moreover have "t \<noteq> task_idle s" using idle calculation by auto
  ultimately show ?thesis by auto
qed

text \<open>An interrupt: the handler, then the switch if one is pending.\<close>

lemma queued_aged: "queued (mlfq_aged s Q) = queued Q"
  by (simp add: mlfq_aged_def queued_boost)

lemma queued_requeue:
  assumes "task_current s \<noteq> task_idle s \<and> task_state (tasks s (task_current s)) = TASK_STATE_RUNNING \<longrightarrow>
    task_queue_level (tasks s (task_current s)) < 4"
  shows "queued (mlfq_requeue s Q) = (if task_current s \<noteq> task_idle s \<and> task_state (tasks s (task_current s)) = TASK_STATE_RUNNING
    then insert (task_current s) (queued Q) else queued Q)"
proof -
  have "mlfq_demote (task_queue_level (tasks s (task_current s))) < 6"
    if "task_queue_level (tasks s (task_current s)) < 4"
    using demote_bound [OF that] by (rule less_trans) simp
  then show ?thesis using assms by (auto simp: mlfq_requeue_def Let_def queued_upd)
qed


lemma schedule_then_switch:
  assumes wf: "sched_wf s Q" and d: "page_directories_to_destroy s = 0" "task_needs_switching s = 0"
    and c: "c = task_current s" "c \<noteq> 0"
    and st: "c = task_idle s \<or> task_state (tasks s c) = TASK_STATE_RUNNING \<and> task_queue_level (tasks s c) < 4 \<or>
      c \<in> queued Q \<and> task_state (tasks s c) = TASK_STATE_BLOCKED \<and> yield (tasks s c) \<noteq> 0"
  shows "\<exists>s1 Q'. task_manager_schedule s = Some s1 \<and> between_interrupts (task_manager_task_switch esp s1) Q' \<and>
    known_tasks (task_manager_task_switch esp s1) Q' = queued Q \<union> ({c} - {task_idle s}) \<and>
    task_idle (task_manager_task_switch esp s1) = task_idle s"
proof -
  have lv: "c \<noteq> task_idle s \<and> task_state (tasks s c) = TASK_STATE_RUNNING \<longrightarrow> task_queue_level (tasks s c) < 4"
    using st by auto
  have idle: "task_idle s \<notin> queued Q" using sched_wfD(1) [OF wf] by (auto simp: queued_iff queues_def)
  from wf d(1) c lv show ?thesis
  proof (cases rule: schedule_refines)
    case (quantum s1)
    have "task_manager_task_switch esp s1 = s1" using quantum(7) d(2) by (simp add: task_manager_task_switch_def)
    moreover have "between_interrupts s1 (mlfq_aged s Q)"
      using quantum d c(2) st by (auto simp: between_interrupts_def)
    moreover have "known_tasks s1 (mlfq_aged s Q) = queued Q \<union> ({c} - {task_idle s})"
      using quantum(5,10) by (simp add: known_tasks_def queued_aged)
    ultimately show ?thesis using quantum(3,10) by metis
  next
    case (switch i t Q2 s1)
    have rq: "queued (mlfq_requeue s (mlfq_aged s Q)) = queued Q \<union> ({c} - {task_idle s})"
      using queued_requeue [of s "mlfq_aged s Q"] lv c st by (auto simp: queued_aged)
    have "task_idle s \<notin> queued (mlfq_requeue s (mlfq_aged s Q))" unfolding rq using idle by simp
    from queued_choose [OF this switch(3)]
    have q: "queued Q2 \<union> ({t} - {task_idle s}) = queued Q \<union> ({c} - {task_idle s})" unfolding rq by simp
    let ?s2 = "task_manager_task_switch esp s1"
    have t0: "t \<noteq> 0"
    proof (cases "t = task_idle s")
      case True
      then show ?thesis using sched_wfD(1) [OF wf] by (simp add: queues_def)
    next
      case False
      then have "t \<in> queued Q \<or> t = c" using q by auto
      then show ?thesis using c(2) queuesD(5) [OF sched_wfD(1) [OF wf]] by (auto simp: queued_iff)
    qed
    have fields: "task_current ?s2 = t" "task_needs_switching ?s2 = 0" "task_idle ?s2 = task_idle s"
      "page_directories_to_destroy ?s2 = 0" "task_state (tasks ?s2 t) = TASK_STATE_RUNNING"
      "t \<noteq> task_idle s \<longrightarrow> task_queue_level (tasks ?s2 t) < 4" "sched_wf ?s2 Q2"
    proof -
      have "sched_wf ?s2 Q2"
      proof (cases "task_needs_switching s1 = 0")
        case True
        then show ?thesis using switch(4) by (simp add: task_manager_task_switch_def)
      next
        case False
        have "sched_wf (upd_task c (\<lambda>t. t\<lparr>task_esp := esp\<rparr>) s1) Q2" by (rule sched_wf_upd [OF switch(4)]) simp_all
        then show ?thesis
          by (rule sched_wf_outer)
            (use False switch(5) c in \<open>simp_all add: task_manager_task_switch_def Let_def upd_task_def\<close>)
      qed
      then show "task_current ?s2 = t" "task_needs_switching ?s2 = 0" "task_idle ?s2 = task_idle s"
        "page_directories_to_destroy ?s2 = 0" "task_state (tasks ?s2 t) = TASK_STATE_RUNNING"
        "t \<noteq> task_idle s \<longrightarrow> task_queue_level (tasks ?s2 t) < 4" "sched_wf ?s2 Q2"
        using switch d by (auto simp: task_manager_task_switch_def Let_def)
    qed
    then have "between_interrupts ?s2 Q2" using t0 by (auto simp: between_interrupts_def)
    moreover have "known_tasks ?s2 Q2 = queued Q \<union> ({c} - {task_idle s})"
      using fields q by (simp add: known_tasks_def)
    ultimately show ?thesis using switch(2) fields(3) by blast
  qed
qed


text \<open>
  What the outside does to the scheduler: a timer interrupt, a system call that blocks the current
  task and yields, or the arrival of what blocked tasks wait for. \<open>esp\<close> is the stack pointer at
  the end of the interrupt.
\<close>

datatype sched_event =
    Timer_Interrupt register_interrupt_data_t u32
  | Block_Current task_wait_reason_t u32 u32
  | Wake_Tasks task_wait_reason_t u32

fun sched_event_step :: "sched_event \<Rightarrow> 'a kernel_scheme \<Rightarrow> 'a kernel_scheme option" where
  "sched_event_step (Timer_Interrupt data esp) s =
     map_option (task_manager_task_switch esp) (timer_irq_handler data s)"
| "sched_event_step (Block_Current reason object esp) s =
     (if task_current s = task_idle s then Some s
      else do {
        (r, s) \<leftarrow> task_manager_block_task (task_current s) reason object s;
        (r, s) \<leftarrow> task_manager_yield_current s;
        Some (task_manager_task_switch esp s)
      })"
| "sched_event_step (Wake_Tasks reason object) s = task_manager_wake_blocked_on reason object s"

lemma timer_step:
  assumes b: "between_interrupts s Q"
  shows "\<exists>s' Q'. sched_event_step (Timer_Interrupt data esp) s = Some s' \<and> between_interrupts s' Q' \<and>
    known_tasks s' Q' = known_tasks s Q \<and> task_idle s' = task_idle s"
proof -
  let ?c = "task_current s" and ?s0 = "s\<lparr>timer_ticks := timer_ticks s + 1\<rparr>"
  define f where "f = (if frame_cs data = TASK_MANAGER_KERNEL_CODE_SELECTOR
    then (\<lambda>t :: task_t. t\<lparr>ticks_system := ticks_system t + 1\<rparr>) else (\<lambda>t. t\<lparr>ticks_user := ticks_user t + 1\<rparr>))"
  let ?s1 = "upd_task ?c f ?s0"
  note B = b [unfolded between_interrupts_def]
  have f: "next_task (f t) = next_task t" "task_queue_level (f t) = task_queue_level t" "task_state (f t) = task_state t" for t
    by (simp_all add: f_def)
  have "sched_wf ?s0 Q" by (rule sched_wf_outer [of s]) (use B in simp_all)
  then have wf: "sched_wf ?s1 Q" by (rule sched_wf_upd) (simp_all add: f)
  have run: "timer_irq_handler data s = task_manager_schedule ?s1"
    using B by (simp add: timer_irq_handler_def Let_def f_def)
  have "\<exists>s1 Q'. task_manager_schedule ?s1 = Some s1 \<and> between_interrupts (task_manager_task_switch esp s1) Q' \<and>
    known_tasks (task_manager_task_switch esp s1) Q' = queued Q \<union> ({?c} - {task_idle ?s1}) \<and>
    task_idle (task_manager_task_switch esp s1) = task_idle ?s1"
    by (rule schedule_then_switch [OF wf]) (use B f in auto)
  then show ?thesis using run by (auto simp: known_tasks_def)
qed

lemma wake_step:
  assumes b: "between_interrupts s Q"
  shows "\<exists>s' Q'. sched_event_step (Wake_Tasks reason object) s = Some s' \<and> between_interrupts s' Q' \<and>
    known_tasks s' Q' = known_tasks s Q \<and> task_idle s' = task_idle s"
proof -
  note B = b [unfolded between_interrupts_def]
  have wf: "sched_wf s Q" using B by simp
  then show ?thesis
  proof (cases rule: wake_refines [where reason = reason and object = object])
    case (1 s')
    let ?m = "waits_on reason object s"
    let ?Q = "Q(4 := filter (\<lambda>t. \<not> ?m t) (Q 4), 0 := Q 0 @ filter ?m (Q 4))"
    have F: "task_current s' = task_current s" "task_idle s' = task_idle s" "task_needs_switching s' = task_needs_switching s"
      "page_directories_to_destroy s' = page_directories_to_destroy s"
      using 1(3) by (auto simp: wake_frame_def)
    have all: "queued ?Q = queued Q" by (auto simp: queued_def)
    have cur: "task_state (tasks s' (task_current s)) = TASK_STATE_RUNNING \<and> task_queue_level (tasks s' (task_current s)) < 4"
      if "task_current s \<noteq> task_idle s" "task_state (tasks s (task_current s)) = TASK_STATE_RUNNING"
        "task_queue_level (tasks s (task_current s)) < 4"
    proof -
      have "task_current s \<notin> set (Q 4)" using running_not_queued [OF wf that(2)] by simp
      then have "task_current s \<notin> set (filter ?m (Q 4))" by simp
      then show ?thesis using 1(3) that unfolding wake_frame_def by presburger
    qed
    show ?thesis using 1(1,2) F all B cur by (auto simp: between_interrupts_def known_tasks_def)
  qed
qed


lemma block_step:
  assumes b: "between_interrupts s Q"
  shows "\<exists>s' Q'. sched_event_step (Block_Current reason object esp) s = Some s' \<and> between_interrupts s' Q' \<and>
    known_tasks s' Q' = known_tasks s Q \<and> task_idle s' = task_idle s"
proof (cases "task_current s = task_idle s")
  case True
  then show ?thesis using b by auto
next
  case False
  let ?c = "task_current s"
  note B = b [unfolded between_interrupts_def]
  have wf: "sched_wf s Q" and c: "?c \<noteq> 0" and st: "task_state (tasks s ?c) = TASK_STATE_RUNNING"
    and l4: "task_queue_level (tasks s ?c) < 4" using B False by auto
  have l: "task_queue_level (tasks s ?c) < 6" using l4 by (rule less_trans) simp
  have nb: "task_state (tasks s ?c) \<noteq> TASK_STATE_BLOCKED" using st by simp
  from wf c False l nb show ?thesis
  proof (cases rule: block_refines [where reason = reason and object = object])
    case (1 s1)
    let ?Q = "move_to (task_queue_level (tasks s ?c)) 4 ?c Q"
    let ?s2 = "upd_task ?c (\<lambda>t. t\<lparr>yield := 1\<rparr>) s1"
    note F = only_queuesD [OF 1(3), simplified]
    have fresh: "?c \<notin> set (Q i)" if "i < 6" for i using running_not_queued [OF wf st that] .
    have Q': "?Q = Q(4 := Q 4 @ [?c])" using fresh [OF l] l4 by (auto simp: move_to_def remove1_idem Let_def)
    have known: "queued ?Q = insert ?c (queued Q)" unfolding Q' by (simp add: queued_upd)
    have wf2: "sched_wf ?s2 ?Q" by (rule sched_wf_upd [OF 1(2)]) simp_all
    have blocked: "task_state (tasks s1 ?c) = TASK_STATE_BLOCKED" using only_queuesD(8) [OF 1(3), of ?c] by simp
    have "\<exists>s' Q'. task_manager_schedule ?s2 = Some s' \<and> between_interrupts (task_manager_task_switch esp s') Q' \<and>
      known_tasks (task_manager_task_switch esp s') Q' = queued ?Q \<union> ({?c} - {task_idle ?s2}) \<and>
      task_idle (task_manager_task_switch esp s') = task_idle ?s2"
      by (rule schedule_then_switch [OF wf2]) (use B F c known blocked in auto)
    then obtain s' Q' where S: "task_manager_schedule ?s2 = Some s'" "between_interrupts (task_manager_task_switch esp s') Q'"
      "known_tasks (task_manager_task_switch esp s') Q' = known_tasks s Q"
      "task_idle (task_manager_task_switch esp s') = task_idle s"
      using known False F by (auto simp: known_tasks_def)
    have "sched_event_step (Block_Current reason object esp) s = Some (task_manager_task_switch esp s')"
      using 1(1) S(1) F c False by (simp add: task_manager_yield_current_def)
    then show ?thesis using S by blast
  qed
qed

lemma event_step:
  "between_interrupts s Q \<Longrightarrow> \<exists>s' Q'. sched_event_step e s = Some s' \<and> between_interrupts s' Q' \<and>
     known_tasks s' Q' = known_tasks s Q \<and> task_idle s' = task_idle s"
  by (cases e) (use timer_step block_step wake_step in \<open>simp_all del: sched_event_step.simps\<close>)

lemma events_run:
  "between_interrupts s Q \<Longrightarrow> \<exists>s' Q'. for_each sched_event_step es s = Some s' \<and> between_interrupts s' Q' \<and>
     known_tasks s' Q' = known_tasks s Q"
proof (induction es arbitrary: s Q)
  case (Cons e es)
  obtain s1 Q1 where 1: "sched_event_step e s = Some s1" "between_interrupts s1 Q1" "known_tasks s1 Q1 = known_tasks s Q"
    using event_step [OF Cons.prems] by blast
  from Cons.IH [OF 1(2)] 1 show ?case by auto
qed auto


section \<open>A small kernel\<close>

text \<open>
  The task \<open>0x200\<close> runs on its last tick, \<open>0x300\<close> is ready, \<open>0x400\<close> waits for a device, and the
  idle task is \<open>0x100\<close>.
\<close>

definition sample_tasks :: "u32 \<Rightarrow> task_t" where
  "sample_tasks p =
     (if p = 0x200 then zero_task\<lparr>task_id := 2, task_state := TASK_STATE_RUNNING, task_time_slice := 1\<rparr>
      else if p = 0x300 then zero_task\<lparr>task_id := 3\<rparr>
      else if p = 0x400 then zero_task\<lparr>task_id := 4, task_state := TASK_STATE_BLOCKED, task_queue_level := 4,
        wait_reason := TASK_WAIT_REASON_IO, wait_object := 7\<rparr>
      else zero_task)"

definition sample_kernel :: kernel where
  "sample_kernel = \<lparr>pmem = pmem sample_heap, cr3 = cr3 sample_heap, cr4_pse = False,
     memory_bitmap = memory_bitmap sample_heap, bounce_pages_used = bounce_pages_used sample_heap,
     kernel_page_directory = kernel_page_directory sample_heap,
     kernel_page_directory_phys = kernel_page_directory_phys sample_heap,
     hdr_next = hdr_next sample_heap, hdr_size = hdr_size sample_heap, heap_data = heap_data sample_heap,
     kernel_heap_base = kernel_heap_base sample_heap, free_headers_head = free_headers_head sample_heap,
     heap_start = heap_start sample_heap, heap_end = heap_end sample_heap, heap_break = heap_break sample_heap,
     page_directory_nodes = (\<lambda>_. \<lparr>node_page_directory = 0, pd_node_next = 0\<rparr>),
     page_directories_to_destroy = 0, page_directories_to_destroy_tail = 0, tasks = sample_tasks,
     task_nodes = (\<lambda>_. \<lparr>node_task = 0, node_next = 0, node_previous = 0\<rparr>),
     resource_store = (\<lambda>_. \<lparr>resource_type = RESOURCE_TYPE_FILE, resource_data = 0,
       operations = \<lparr>op_close = 0, op_read = 0, op_write = 0, op_ioctl = 0\<rparr>, ref_count = 0,
       resource_offset = 0, resource_flags = 0\<rparr>),
     task_id_counter = 5, timer_ticks = 0, task_current = 0x200, task_next = 0x200, task_needs_switching = 0,
     task_idle = 0x100, task_queues = (\<lambda>i. if i = 0 then 0x300 else if i = 4 then 0x400 else 0),
     last_priority_boost_at_ticks = 0, task_init = 0x200, syscall_frame = zero_frame, caller_task = 0x200,
     tss_esp0 = 0\<rparr>"

definition sample_queues :: "u32 \<Rightarrow> u32 list" where
  "sample_queues i = (if i = 0 then [0x300] else if i = 4 then [0x400] else [])"

lemma sample_between: "between_interrupts sample_kernel sample_queues"
proof -
  have "queues sample_kernel sample_queues"
    by (auto simp: queues_def sample_kernel_def sample_queues_def sample_tasks_def zero_task_def task_links_def)
  moreover have "\<forall>i<6. \<forall>t \<in> set (sample_queues i). task_state (tasks sample_kernel t) = queue_state i"
    by (auto simp: sample_kernel_def sample_queues_def sample_tasks_def zero_task_def queue_state_def)
  ultimately show ?thesis
    by (simp add: between_interrupts_def sched_wf_def) (simp add: sample_kernel_def sample_tasks_def zero_task_def)
qed

section \<open>Properties\<close>

text \<open>
  (C3) The scheduler is a multi-level feedback queue. Every five seconds all waiting tasks return to
  the highest level, in the order of their levels. While the current task has ticks left and has not
  yielded, it keeps running with one tick less. Otherwise, if it can still run, it goes to the end of
  the next lower level; the task that runs next is the first one of the highest level that has a
  task, or the idle task when there is none; it becomes the running task with a time slice that
  doubles with each level, and a switch is requested exactly when it is another task.
\<close>

theorem task_manager_schedule_mlfq:
  assumes "sched_wf s Q" "page_directories_to_destroy s = 0" "c = task_current s" "c \<noteq> 0"
    "c \<noteq> task_idle s \<and> task_state (tasks s c) = TASK_STATE_RUNNING \<longrightarrow> task_queue_level (tasks s c) < 4"
  shows "\<exists>s'. task_manager_schedule s = Some s' \<and> task_current s' = c \<and>
    (if task_time_slice (tasks s c) \<noteq> 1 \<and> yield (tasks s c) = 0
     then sched_wf s' (mlfq_aged s Q) \<and> task_time_slice (tasks s' c) = task_time_slice (tasks s c) - 1 \<and>
       task_state (tasks s' c) = task_state (tasks s c) \<and> task_next s' = task_next s \<and>
       task_needs_switching s' = task_needs_switching s
     else \<exists>i t Q2. mlfq_choose (task_idle s) (mlfq_requeue s (mlfq_aged s Q)) = (i, t, Q2) \<and> sched_wf s' Q2 \<and>
       task_state (tasks s' t) = TASK_STATE_RUNNING \<and>
       (t \<noteq> c \<or> t \<noteq> task_idle s \<longrightarrow> task_time_slice (tasks s' t) = 4 * 2 ^ unat i) \<and>
       (if t = c then task_next s' = task_next s \<and> task_needs_switching s' = task_needs_switching s
        else task_next s' = t \<and> task_needs_switching s' = 1))"
  using assms
proof (cases rule: schedule_refines)
  case (quantum s')
  then show ?thesis by auto
next
  case (switch i t Q2 s')
  have "task_manager_calculate_time_slice i = 4 * 2 ^ unat i"
    by (simp add: task_manager_calculate_time_slice_def TASK_MANAGER_QUEUE_INDEX_BLOCKED_def
        TASK_MANAGER_QUEUE_LEVELS_def push_bit_eq_mult)
  then show ?thesis using switch by auto
qed

theorem task_manager_schedule_mlfq_witness:
  "sched_wf sample_kernel sample_queues \<and> task_current sample_kernel = 0x200 \<and>
   (\<exists>s'. task_manager_schedule sample_kernel = Some s' \<and> task_next s' = 0x300 \<and> task_needs_switching s' = 1)"
proof -
  have wf: "sched_wf sample_kernel sample_queues" using sample_between by (simp add: between_interrupts_def)
  have f: "page_directories_to_destroy sample_kernel = 0" "task_current sample_kernel = 0x200" "task_idle sample_kernel = 0x100"
    "task_time_slice (tasks sample_kernel 0x200) = 1" "task_state (tasks sample_kernel 0x200) = TASK_STATE_RUNNING"
    "task_queue_level (tasks sample_kernel 0x200) = 0" "timer_ticks sample_kernel = 0" "last_priority_boost_at_ticks sample_kernel = 0"
    by (simp_all add: sample_kernel_def sample_tasks_def zero_task_def)
  have ch: "mlfq_choose 0x100 (mlfq_requeue sample_kernel (mlfq_aged sample_kernel sample_queues)) =
      (0, 0x300, sample_queues(1 := [0x200], 0 := []))"
    using f by (simp add: mlfq_aged_def boost_due_def TASK_MANAGER_PRIORITY_BOOST_INTERVAL_def TIMER_PHASE_def
        mlfq_requeue_def Let_def mlfq_demote_def mlfq_choose_def mlfq_pick_def sample_queues_def)
  show ?thesis
    using task_manager_schedule_mlfq [OF wf f(1) f(2) [symmetric]] f ch wf by auto
qed

text \<open>
  Each of the six queues is first in, first out: tasks put in one after the other come out in
  the same order, behind those that were there, and the other queues do not matter.
\<close>

theorem task_queues_fifo:
  assumes "i < 6" "queues s Q" "distinct ys" "0 \<notin> set ys" "task_idle s \<notin> set ys" "\<forall>j<6. set (Q j) \<inter> set ys = {}"
  shows "\<exists>s1 s2. for_each (task_manager_enqueue_task i) ys s = Some s1 \<and>
    drain (task_manager_dequeue_task i) (length (Q i @ ys)) s1 = Some (Q i @ ys, s2) \<and> queues s2 (Q(i := []))"
proof -
  have h: "queue_holds i Q s (Q i)" "queue_admits i Q s (Q i) ys"
    using assms by (simp_all add: queue_holds_def queue_admits_def)
  show ?thesis using task_queue.fifo_order [OF h] unfolding queue_holds_def by blast
qed

theorem task_queues_fifo_witness:
  "queues sample_kernel sample_queues \<and>
   (\<exists>s1 s2. for_each (task_manager_enqueue_task 2) [0x200, 0x500] sample_kernel = Some s1 \<and>
     drain (task_manager_dequeue_task 2) (length [0x200, 0x500 :: u32]) s1 = Some ([0x200, 0x500], s2))"
proof -
  have q: "queues sample_kernel sample_queues" using sample_between by (simp add: between_interrupts_def sched_wf_def)
  have "\<exists>s1 s2. for_each (task_manager_enqueue_task 2) [0x200, 0x500] sample_kernel = Some s1 \<and>
     drain (task_manager_dequeue_task 2) (length (sample_queues 2 @ [0x200, 0x500])) s1 =
       Some (sample_queues 2 @ [0x200, 0x500], s2) \<and> queues s2 (sample_queues(2 := []))"
    by (rule task_queues_fifo [OF _ q]) (simp_all add: sample_kernel_def sample_queues_def)
  moreover have "sample_queues 2 @ xs = xs" for xs by (simp add: sample_queues_def)
  ultimately show ?thesis using q by metis
qed

text \<open>
  (C38) Waking the tasks that wait for an object moves exactly these tasks from the blocked queue to the
  end of the highest level, in the order in which they blocked, and makes them ready; all other tasks
  keep their state and their place, although the walk unlinks tasks from the list it follows.
\<close>

theorem task_manager_wake_blocked_on_exact:
  assumes "sched_wf s Q"
  shows "\<exists>s'. task_manager_wake_blocked_on reason object s = Some s' \<and>
    sched_wf s' (Q(4 := filter (\<lambda>t. \<not> waits_on reason object s t) (Q 4), 0 := Q 0 @ filter (waits_on reason object s) (Q 4))) \<and>
    (\<forall>p. p \<notin> set (filter (waits_on reason object s) (Q 4)) \<longrightarrow> task_state (tasks s' p) = task_state (tasks s p))"
  using assms
proof (cases rule: wake_refines [where reason = reason and object = object])
  case (1 s')
  then show ?thesis unfolding wake_frame_def by blast
qed

theorem task_manager_wake_blocked_on_exact_witness:
  "sched_wf sample_kernel sample_queues \<and>
   (\<exists>s'. task_manager_wake_blocked_on TASK_WAIT_REASON_IO 7 sample_kernel = Some s' \<and>
     sched_wf s' (sample_queues(4 := [], 0 := [0x300, 0x400])))"
proof -
  have wf: "sched_wf sample_kernel sample_queues" using sample_between by (simp add: between_interrupts_def)
  have e: "filter (\<lambda>t. \<not> waits_on TASK_WAIT_REASON_IO 7 sample_kernel t) (sample_queues 4) = []"
    "sample_queues 0 @ filter (waits_on TASK_WAIT_REASON_IO 7 sample_kernel) (sample_queues 4) = [0x300, 0x400]"
    by (simp_all add: sample_queues_def waits_on_def sample_kernel_def sample_tasks_def)
  show ?thesis
    using task_manager_wake_blocked_on_exact [OF wf, of TASK_WAIT_REASON_IO 7] wf unfolding e by blast
qed

text \<open>
  (C12) Whatever sequence of timer interrupts, blocking system calls and wake-ups happens, no step
  fails and no task is lost or duplicated: the scheduler knows the same tasks as before, each is
  either the current task or in exactly one queue, with the state that belongs to the queue.
\<close>

theorem scheduler_loses_no_task:
  assumes "between_interrupts s Q"
  shows "\<exists>s' Q'. for_each sched_event_step es s = Some s' \<and> between_interrupts s' Q' \<and>
    known_tasks s' Q' = known_tasks s Q \<and> (\<forall>i<6. distinct (Q' i)) \<and>
    (\<forall>i<6. \<forall>j<6. i \<noteq> j \<longrightarrow> set (Q' i) \<inter> set (Q' j) = {})"
proof -
  obtain s' Q' where r: "for_each sched_event_step es s = Some s'" "between_interrupts s' Q'"
    "known_tasks s' Q' = known_tasks s Q" using events_run [OF assms] by blast
  have q: "queues s' Q'" using r(2) by (simp add: between_interrupts_def sched_wf_def)
  have "\<forall>i<6. distinct (Q' i)" using queuesD(4) [OF q] by blast
  moreover have "\<forall>i<6. \<forall>j<6. i \<noteq> j \<longrightarrow> set (Q' i) \<inter> set (Q' j) = {}" using queues_disjoint [OF q] by blast
  ultimately show ?thesis using r by blast
qed

theorem scheduler_loses_no_task_witness:
  "between_interrupts sample_kernel sample_queues \<and>
   (\<exists>s' Q'. for_each sched_event_step [Timer_Interrupt zero_frame 0, Block_Current TASK_WAIT_REASON_IO 9 0,
        Wake_Tasks TASK_WAIT_REASON_IO 7] sample_kernel = Some s' \<and> known_tasks s' Q' = known_tasks sample_kernel sample_queues)"
  using sample_between scheduler_loses_no_task [OF sample_between] by blast

end
