(* ===== verification/Keyboard.thy ===== *)
theory Keyboard
  imports Scheduler
begin

text \<open>
  The keyboard driver \<^verbatim>\<open>src/drivers/keyboard.c\<close>: a ring buffer of 256 scancodes between the
  interrupt handler and \<^verbatim>\<open>keyboard_read\<close>. The ring buffer refines a bounded first-in first-out
  queue; the interrupt handler also wakes the tasks that wait for the keyboard.
\<close>

section \<open>The driver\<close>

datatype resource_result_t =
    RESOURCE_RESULT_OK | RESOURCE_RESULT_INVALID | RESOURCE_RESULT_NOT_FOUND | RESOURCE_RESULT_BAD_PARAMETER
  | RESOURCE_RESULT_ALREADY_PRESENT | RESOURCE_RESULT_STILL_IN_USE | RESOURCE_RESULT_ALLOCATION_ERROR
  | RESOURCE_RESULT_NO_FREE_SLOTS | RESOURCE_RESULT_WILL_BLOCK

definition KEYBOARD_BUFFER_SIZE :: u32 where "KEYBOARD_BUFFER_SIZE = 256"

record keyboard_t =
  shift :: u8
  ctrl :: u8
  alt :: u8
  kb_buffer :: "u32 \<Rightarrow> u8"
  buffer_head :: u32
  buffer_tail :: u32
  buffer_count :: u32

text \<open>One scancode taken out at the tail.\<close>

definition keyboard_pop :: "keyboard_t \<Rightarrow> keyboard_t" where
  "keyboard_pop k = k\<lparr>buffer_tail := (buffer_tail k + 1) mod KEYBOARD_BUFFER_SIZE, buffer_count := buffer_count k - 1\<rparr>"

lemma unat_pred: "0 < n \<Longrightarrow> unat (n - 1) = unat n - 1" for n :: u32
  by (simp add: unat_minus_one word_gt_0)

text \<open>
  The loop of \<^verbatim>\<open>keyboard_read\<close>; \<open>out\<close> holds the bytes stored so far.
\<close>

function keyboard_read_loop :: "u32 \<Rightarrow> u32 \<Rightarrow> u8 list \<Rightarrow> keyboard_t \<Rightarrow> u32 \<times> u8 list \<times> keyboard_t" where
  "keyboard_read_loop len written out k =
     (if written < len \<and> buffer_count k > 0
      then keyboard_read_loop len (written + 1) (out @ [kb_buffer k (buffer_tail k)]) (keyboard_pop k)
      else (written, out, k))"
  by pat_completeness auto
termination
  by (relation "measure (\<lambda>(len, written, out, k). unat (buffer_count k))")
     (auto simp: keyboard_pop_def unat_pred word_less_nat_alt)

declare keyboard_read_loop.simps [simp del]

definition keyboard_read :: "u32 \<Rightarrow> keyboard_t \<Rightarrow> resource_result_t \<times> u32 \<times> u8 list \<times> keyboard_t" where
  "keyboard_read len k =
     (let (written, out, k) = keyboard_read_loop len 0 [] k
      in if written = 0 then (RESOURCE_RESULT_WILL_BLOCK, 0, out, k) else (RESOURCE_RESULT_OK, written, out, k))"

definition keyboard_buffer_write :: "u8 \<Rightarrow> keyboard_t \<Rightarrow> keyboard_t" where
  "keyboard_buffer_write scancode k =
     (if buffer_count k = KEYBOARD_BUFFER_SIZE then k
      else k\<lparr>kb_buffer := (kb_buffer k)(buffer_head k := scancode),
             buffer_head := (buffer_head k + 1) mod KEYBOARD_BUFFER_SIZE, buffer_count := buffer_count k + 1\<rparr>)"

text \<open>The state of the modifier keys.\<close>

definition keyboard_modifiers :: "u8 \<Rightarrow> keyboard_t \<Rightarrow> keyboard_t" where
  "keyboard_modifiers scancode k =
     (let released = scancode AND 0x80; key = scancode AND 0x7F; pressed = (if released = 0 then 1 else 0)
      in if key = 42 \<or> key = 54 then k\<lparr>shift := pressed\<rparr>
         else if key = 29 then k\<lparr>ctrl := pressed\<rparr>
         else if key = 56 then k\<lparr>alt := pressed\<rparr> else k)"

record kernel_keyboard = kernel +
  keyboard :: keyboard_t
  keyboard_address :: u32

definition keyboard_irq_handler :: "u8 \<Rightarrow> 'a kernel_keyboard_scheme \<Rightarrow> 'a kernel_keyboard_scheme option" where
  "keyboard_irq_handler scancode s =
     (let s = s\<lparr>keyboard := keyboard_buffer_write scancode (keyboard_modifiers scancode (keyboard s))\<rparr>
      in task_manager_wake_blocked_on TASK_WAIT_REASON_IO (keyboard_address s) s)"

section \<open>The ring buffer as a list\<close>

definition keyboard_wf :: "keyboard_t \<Rightarrow> bool" where
  "keyboard_wf k \<longleftrightarrow> unat (buffer_tail k) < 256 \<and> unat (buffer_count k) \<le> 256 \<and>
     unat (buffer_head k) = (unat (buffer_tail k) + unat (buffer_count k)) mod 256"

definition contents :: "keyboard_t \<Rightarrow> u8 list" where
  "contents k = map (\<lambda>i. kb_buffer k (of_nat ((unat (buffer_tail k) + i) mod 256))) [0..<unat (buffer_count k)]"

lemma length_contents [simp]: "length (contents k) = unat (buffer_count k)"
  by (simp add: contents_def)

lemma contents_empty: "contents k = [] \<longleftrightarrow> unat (buffer_count k) = 0"
  by (simp add: contents_def)

lemma unat_ring_succ: "unat ((p + 1) mod KEYBOARD_BUFFER_SIZE) = (unat p + 1) mod 256" if "unat p < 256" for p :: u32
proof -
  have "unat (p + 1) = unat p + 1" using that by (simp add: unat_word_ariths)
  then show ?thesis by (simp add: KEYBOARD_BUFFER_SIZE_def unat_mod)
qed

lemma keyboard_take:
  assumes wf: "keyboard_wf k" and n: "0 < buffer_count k"
  shows "contents k = kb_buffer k (buffer_tail k) # contents (keyboard_pop k)" and "keyboard_wf (keyboard_pop k)"
proof -
  let ?t = "unat (buffer_tail k)" and ?n = "unat (buffer_count k)" and ?k = "keyboard_pop k"
  have W: "?t < 256" "?n \<le> 256" "unat (buffer_head k) = (?t + ?n) mod 256" using wf by (auto simp: keyboard_wf_def)
  have n1: "unat (buffer_count ?k) = ?n - 1" "0 < ?n"
    using n by (simp_all add: keyboard_pop_def unat_pred) (simp add: word_less_nat_alt)
  have t1: "unat (buffer_tail ?k) = (?t + 1) mod 256" using unat_ring_succ [OF W(1)] by (simp add: keyboard_pop_def)
  have h: "buffer_head ?k = buffer_head k" "kb_buffer ?k = kb_buffer k" by (simp_all add: keyboard_pop_def)
  have "((?t + 1) mod 256 + (?n - 1)) mod 256 = (?t + ?n) mod 256"
    using n1(2) by (metis Suc_diff_1 Suc_eq_plus1 add.assoc mod_add_left_eq plus_1_eq_Suc)
  then show "keyboard_wf ?k" using W n1 t1 h by (simp add: keyboard_wf_def)
  have "[0..<?n] = 0 # map Suc [0..<?n - 1]" using n1(2) by (metis map_Suc_upt upt_conv_Cons Suc_diff_1)
  moreover have "of_nat (?t mod 256) = buffer_tail k" using W(1) by simp
  moreover have "((?t + 1) mod 256 + i) mod 256 = (?t + Suc i) mod 256" for i by (simp add: mod_add_left_eq)
  ultimately show "contents k = kb_buffer k (buffer_tail k) # contents ?k"
    unfolding contents_def n1(1) t1 h by simp
qed

lemma unat_numeral_256: "unat (256 :: u32) = 256"
  by simp

lemma min_eq_0: "min a b = 0 \<longleftrightarrow> a = 0 \<or> b = (0 :: nat)"
  by auto

lemma ring_index: "unat (of_nat (m mod 256) :: u32) = m mod 256"
  by (simp add: unat_of_nat)

lemma keyboard_put:
  assumes wf: "keyboard_wf k" and n: "unat (buffer_count k) < 256"
  shows "contents (keyboard_buffer_write c k) = contents k @ [c]" and "keyboard_wf (keyboard_buffer_write c k)"
proof -
  let ?t = "unat (buffer_tail k)" and ?n = "unat (buffer_count k)" and ?k = "keyboard_buffer_write c k"
  have W: "?t < 256" "unat (buffer_head k) = (?t + ?n) mod 256" using wf by (auto simp: keyboard_wf_def)
  have k: "?k = k\<lparr>kb_buffer := (kb_buffer k)(buffer_head k := c),
      buffer_head := (buffer_head k + 1) mod KEYBOARD_BUFFER_SIZE, buffer_count := buffer_count k + 1\<rparr>"
    using n by (auto simp: keyboard_buffer_write_def KEYBOARD_BUFFER_SIZE_def)
  have n1: "unat (buffer_count k + 1) = ?n + 1" using n by (simp add: unat_word_ariths)
  have h1: "unat (buffer_head ?k) = (unat (buffer_head k) + 1) mod 256" unfolding k using W by (simp add: unat_ring_succ)
  show "keyboard_wf ?k" using W n n1 h1 by (simp add: keyboard_wf_def k mod_simps)
  have hd: "of_nat ((?t + ?n) mod 256) = buffer_head k" using W(2) by (metis of_nat_unat ucast_id)
  have "of_nat ((?t + i) mod 256) \<noteq> buffer_head k" if "i < ?n" for i
  proof
    assume "of_nat ((?t + i) mod 256) = buffer_head k"
    then have "(?t + i) mod 256 = unat (buffer_head k)" by (metis ring_index)
    then have "(?t + i) mod 256 = (?t + ?n) mod 256" using W(2) by simp
    then have "256 dvd (?t + ?n) - (?t + i)"
      using that by (intro iffD1 [OF mod_eq_dvd_iff_nat]) simp_all
    then have "256 dvd ?n - i" by simp
    then show False using that n by (auto dest!: dvd_imp_le)
  qed
  then show "contents ?k = contents k @ [c]" by (simp add: contents_def k n1 hd)
qed


lemma keyboard_read_loop_result:
  assumes "keyboard_wf k" "written \<le> len" "unat written = length out"
  shows "\<exists>k'. keyboard_read_loop len written out k =
      (of_nat (length out + min (unat len - unat written) (unat (buffer_count k))),
       out @ take (unat len - unat written) (contents k), k') \<and> keyboard_wf k' \<and>
      contents k' = drop (unat len - unat written) (contents k)"
  using assms
proof (induction len written out k rule: keyboard_read_loop.induct)
  case (1 len written out k)
  show ?case
  proof (cases "written < len \<and> 0 < buffer_count k")
    case True
    have lt: "unat written < unat len" using True by (simp add: word_less_nat_alt)
    have w1: "unat (written + 1) = unat written + 1" using True by (intro word_less_unat_Suc [THEN trans]) auto
    have le: "written + 1 \<le> len" using lt w1 by (simp add: word_le_nat_alt)
    note T = keyboard_take [OF "1.prems"(1) conjunct2 [OF True]]
    have c1: "unat (buffer_count (keyboard_pop k)) + 1 = unat (buffer_count k)"
      using arg_cong [OF T(1), of length] by simp
    obtain k' where IH: "keyboard_read_loop len (written + 1) (out @ [kb_buffer k (buffer_tail k)]) (keyboard_pop k) =
      (of_nat (length (out @ [kb_buffer k (buffer_tail k)]) + min (unat len - unat (written + 1)) (unat (buffer_count (keyboard_pop k)))),
       (out @ [kb_buffer k (buffer_tail k)]) @ take (unat len - unat (written + 1)) (contents (keyboard_pop k)), k')"
      "keyboard_wf k'" "contents k' = drop (unat len - unat (written + 1)) (contents (keyboard_pop k))"
      using "1.IH" [OF True T(2) le] w1 "1.prems"(3) by auto
    have s: "unat len - unat written = Suc (unat len - unat (written + 1))" using lt w1 by simp
    have m: "length (out @ [x]) + min (unat len - unat (written + 1)) (unat (buffer_count (keyboard_pop k))) =
        length out + min (unat len - unat written) (unat (buffer_count k))" for x :: u8
      using s c1 by simp
    show ?thesis
      using IH True unfolding m by (simp add: keyboard_read_loop.simps [of len written out k] s T(1))
  next
    case False
    have z: "min (unat len - unat written) (unat (buffer_count k)) = 0"
      using False by (auto simp: word_less_nat_alt)
    have w: "of_nat (length out) = written" using "1.prems"(3) by (metis of_nat_unat ucast_id)
    have t: "take (unat len - unat written) (contents k) = []" "drop (unat len - unat written) (contents k) = contents k"
      using z contents_empty [of k] by (auto simp: min_def split: if_splits)
    have "keyboard_read_loop len written out k = (written, out, k)"
      by (subst keyboard_read_loop.simps) (use False in auto)
    then show ?thesis using "1.prems"(1) z w t by simp
  qed
qed

lemma keyboard_read_result:
  assumes "keyboard_wf k"
  obtains k' where "keyboard_read len k =
      (if len = 0 \<or> contents k = [] then (RESOURCE_RESULT_WILL_BLOCK, 0, [], k')
       else (RESOURCE_RESULT_OK, of_nat (min (unat len) (length (contents k))), take (unat len) (contents k), k'))"
    "keyboard_wf k'" "contents k' = drop (unat len) (contents k)"
proof -
  obtain k' where r: "keyboard_read_loop len 0 [] k = (of_nat (min (unat len) (unat (buffer_count k))), take (unat len) (contents k), k')"
    "keyboard_wf k'" "contents k' = drop (unat len) (contents k)"
    using keyboard_read_loop_result [OF assms, of 0 len "[]"] by auto
  define m where "m = min (unat len) (unat (buffer_count k))"
  have "m < 4294967296" using unat_u32 [of len] by (simp add: m_def)
  then have "of_nat m = (0 :: u32) \<longleftrightarrow> m = 0" by (rule of_nat_u32_0)
  moreover have "m = 0 \<longleftrightarrow> len = 0 \<or> contents k = []" by (simp add: m_def contents_empty unat_eq_0 min_eq_0)
  moreover have "len = 0 \<or> contents k = [] \<Longrightarrow> take (unat len) (contents k) = []" by auto
  ultimately have "keyboard_read len k =
      (if len = 0 \<or> contents k = [] then (RESOURCE_RESULT_WILL_BLOCK, 0, [], k')
       else (RESOURCE_RESULT_OK, of_nat (min (unat len) (length (contents k))), take (unat len) (contents k), k'))"
    using r(1) unfolding length_contents m_def [symmetric] by (auto simp: keyboard_read_def)
  then show thesis using that r by blast
qed

section \<open>The ring buffer is a bounded queue\<close>

definition keyboard_holds :: "keyboard_t \<Rightarrow> u8 list \<Rightarrow> bool" where
  "keyboard_holds k xs \<longleftrightarrow> keyboard_wf k \<and> contents k = xs"

definition keyboard_admits :: "keyboard_t \<Rightarrow> u8 list \<Rightarrow> u8 list \<Rightarrow> bool" where
  "keyboard_admits k xs ys \<longleftrightarrow> length xs + length ys \<le> 256"

definition keyboard_get :: "keyboard_t \<Rightarrow> (u8 \<times> keyboard_t) option" where
  "keyboard_get k = (case keyboard_read 1 k of (r, n, out, k) \<Rightarrow>
     if r = RESOURCE_RESULT_OK then Some (hd out, k) else None)"

interpretation keyboard_queue: fifo_queue keyboard_holds keyboard_admits
  "\<lambda>c k. Some (keyboard_buffer_write c k)" keyboard_get
proof
  fix k xs x y ys
  show "\<exists>k'. Some (keyboard_buffer_write y k) = Some k' \<and> keyboard_holds k' (xs @ [y]) \<and> keyboard_admits k' (xs @ [y]) ys"
    if h: "keyboard_holds k xs" "keyboard_admits k xs (y # ys)"
  proof -
    have "unat (buffer_count k) < 256"
      using h length_contents [of k] by (simp add: keyboard_holds_def keyboard_admits_def)
    then show ?thesis using keyboard_put [of k y] h by (simp add: keyboard_holds_def keyboard_admits_def)
  qed
  show "\<exists>k'. keyboard_get k = Some (x, k') \<and> keyboard_holds k' xs" if h: "keyboard_holds k (x # xs)"
  proof -
    have wf: "keyboard_wf k" and c: "contents k = x # xs" using h by (auto simp: keyboard_holds_def)
    from wf show ?thesis
    proof (cases rule: keyboard_read_result [where len = 1])
      case (1 k')
      then show ?thesis using c by (simp add: keyboard_get_def keyboard_holds_def)
    qed
  qed
qed


section \<open>Properties\<close>

lemma keyboard_write_bounded:
  assumes "keyboard_wf k"
  shows "contents (keyboard_buffer_write c k) = take 256 (contents k @ [c])" "keyboard_wf (keyboard_buffer_write c k)"
proof -
  have le: "unat (buffer_count k) \<le> 256" using assms by (simp add: keyboard_wf_def)
  have "contents (keyboard_buffer_write c k) = take 256 (contents k @ [c]) \<and> keyboard_wf (keyboard_buffer_write c k)"
  proof (cases "unat (buffer_count k) < 256")
    case True
    then show ?thesis using keyboard_put [OF assms True] by simp
  next
    case False
    then have "unat (buffer_count k) = 256" using le by simp
    then have "buffer_count k = KEYBOARD_BUFFER_SIZE" unfolding KEYBOARD_BUFFER_SIZE_def by (metis unat_numeral_256 unsigned_word_eqI)
    then have "keyboard_buffer_write c k = k" by (simp add: keyboard_buffer_write_def)
    then show ?thesis using False le assms by simp
  qed
  then show "contents (keyboard_buffer_write c k) = take 256 (contents k @ [c])" "keyboard_wf (keyboard_buffer_write c k)"
    by blast+
qed

lemma keyboard_writes:
  "keyboard_wf k \<Longrightarrow> contents (fold keyboard_buffer_write cs k) = take 256 (contents k @ cs) \<and>
     keyboard_wf (fold keyboard_buffer_write cs k)"
proof (induction cs arbitrary: k)
  case Nil
  then show ?case by (simp add: keyboard_wf_def)
next
  case (Cons c cs)
  have W: "contents (keyboard_buffer_write c k) = take 256 (contents k @ [c])" "keyboard_wf (keyboard_buffer_write c k)"
    using keyboard_write_bounded [OF Cons.prems] by blast+
  have "take 256 (take 256 (contents k @ [c]) @ cs) = take 256 (contents k @ c # cs)"
    by (cases "256 - length (contents k)") (simp_all add: take_append del: length_contents)
  then show ?case using Cons.IH [OF W(2)] W(1) by simp
qed

text \<open>
  (C22) The ring buffer is a queue of at most 256 scancodes: after any sequence of key events the buffer
  holds the scancodes in the order of the events, and those that found it full are dropped. A read of
  \<open>len\<close> bytes gives the oldest \<open>len\<close> scancodes, or all of them if there are fewer, and leaves the
  others; it asks to block exactly when there is nothing to give.
\<close>

theorem keyboard_bounded_fifo:
  assumes "keyboard_wf k" "k1 = fold keyboard_buffer_write cs k"
  shows "contents k1 = take 256 (contents k @ cs) \<and>
    (\<exists>k2. keyboard_read len k1 =
      (if len = 0 \<or> contents k1 = [] then (RESOURCE_RESULT_WILL_BLOCK, 0, [], k2)
       else (RESOURCE_RESULT_OK, of_nat (min (unat len) (length (contents k1))), take (unat len) (contents k1), k2)) \<and>
      keyboard_wf k2 \<and> contents k2 = drop (unat len) (contents k1))"
proof -
  have k1: "contents k1 = take 256 (contents k @ cs)" "keyboard_wf k1" using keyboard_writes [OF assms(1)] assms(2) by auto
  from k1(2) show ?thesis using k1(1) by (cases rule: keyboard_read_result [where len = len]) blast
qed

definition sample_keyboard :: keyboard_t where
  "sample_keyboard = \<lparr>shift = 0, ctrl = 0, alt = 0, kb_buffer = (\<lambda>_. 0), buffer_head = 255, buffer_tail = 255, buffer_count = 0\<rparr>"

lemma sample_keyboard_wf: "keyboard_wf sample_keyboard"
  by (simp add: keyboard_wf_def sample_keyboard_def)

theorem keyboard_bounded_fifo_witness:
  "keyboard_wf sample_keyboard \<and> contents (fold keyboard_buffer_write [30, 158] sample_keyboard) = [30, 158]"
  using keyboard_bounded_fifo [OF sample_keyboard_wf refl, of "[30, 158]" 1] sample_keyboard_wf
  by (auto simp: contents_def sample_keyboard_def)

text \<open>
  A keyboard interrupt stores the scancode if there is room, records whether a modifier key is
  down, and makes exactly the tasks ready that wait for the keyboard; it never faults.
\<close>

theorem keyboard_irq_handler_delivers:
  assumes "sched_wf s Q" "keyboard_wf (keyboard s)"
  shows "\<exists>s'. keyboard_irq_handler scancode s = Some s' \<and> keyboard_wf (keyboard s') \<and>
    contents (keyboard s') = take 256 (contents (keyboard s) @ [scancode]) \<and>
    (scancode AND 0x7F \<in> {42, 54} \<longrightarrow> shift (keyboard s') = (if scancode AND 0x80 = 0 then 1 else 0)) \<and>
    sched_wf s' (Q(4 := filter (\<lambda>t. \<not> waits_on TASK_WAIT_REASON_IO (keyboard_address s) s t) (Q 4),
                   0 := Q 0 @ filter (waits_on TASK_WAIT_REASON_IO (keyboard_address s) s) (Q 4)))"
proof -
  let ?k = "keyboard_buffer_write scancode (keyboard_modifiers scancode (keyboard s))"
  let ?s = "s\<lparr>keyboard := ?k\<rparr>"
  have m: "keyboard_wf (keyboard_modifiers scancode k) = keyboard_wf k" "contents (keyboard_modifiers scancode k) = contents k" for k
    by (simp_all add: keyboard_modifiers_def keyboard_wf_def contents_def Let_def)
  have wf: "sched_wf ?s Q" by (rule sched_wf_outer [OF assms(1)]) simp_all
  have w: "waits_on TASK_WAIT_REASON_IO (keyboard_address s) ?s = waits_on TASK_WAIT_REASON_IO (keyboard_address s) s"
    by (simp add: waits_on_def fun_eq_iff)
  have sh: "shift ?k = shift (keyboard_modifiers scancode (keyboard s))" by (simp add: keyboard_buffer_write_def)
  from wf show ?thesis
  proof (cases rule: wake_refines [where reason = TASK_WAIT_REASON_IO and object = "keyboard_address s"])
    case (1 s')
    have "kernel.more s' = kernel.more ?s" using 1(3) by (simp add: wake_frame_def)
    then have "keyboard s' = ?k" by (cases s'; cases s) simp
    then show ?thesis
      using 1(1,2) keyboard_write_bounded [of "keyboard_modifiers scancode (keyboard s)" scancode] m assms(2) w sh
      by (auto simp: keyboard_irq_handler_def keyboard_modifiers_def Let_def)
  qed
qed

definition sample_kernel_keyboard :: kernel_keyboard where
  "sample_kernel_keyboard = kernel.extend sample_kernel (kernel_keyboard.fields sample_keyboard 7)"

lemma sample_kernel_keyboard_ok:
  "sched_wf sample_kernel_keyboard sample_queues" "keyboard sample_kernel_keyboard = sample_keyboard"
  "keyboard_address sample_kernel_keyboard = 7"
proof -
  have "sched_wf sample_kernel sample_queues" using sample_between by (simp add: between_interrupts_def)
  then show "sched_wf sample_kernel_keyboard sample_queues"
    by (rule sched_wf_outer) (simp_all add: sample_kernel_keyboard_def kernel.defs kernel_keyboard.defs)
  show "keyboard sample_kernel_keyboard = sample_keyboard" "keyboard_address sample_kernel_keyboard = 7"
    by (simp_all add: sample_kernel_keyboard_def kernel.defs kernel_keyboard.defs)
qed

theorem keyboard_irq_handler_delivers_witness:
  "\<exists>s'. keyboard_irq_handler 30 sample_kernel_keyboard = Some s' \<and> contents (keyboard s') = [30]"
proof -
  have wf: "keyboard_wf (keyboard sample_kernel_keyboard)"
    using sample_keyboard_wf sample_kernel_keyboard_ok(2) by simp
  have "contents (keyboard sample_kernel_keyboard) = []"
    by (simp add: sample_kernel_keyboard_ok(2) contents_def sample_keyboard_def)
  then show ?thesis using keyboard_irq_handler_delivers [OF sample_kernel_keyboard_ok(1) wf, of 30] by auto
qed

end
