(* ===== verification/File_State.thy ===== *)
theory File_State
  imports Keyboard
begin

text \<open>
  The state of the file systems: the structures of \<^verbatim>\<open>include/vfs.h\<close> and \<^verbatim>\<open>include/fs/ramfs.h\<close>. As for
  tasks, structures in the heap are stores keyed by their address. A name is the list of its
  characters; a directory entry of the ram file system also keeps the address of the block that
  holds its name. The array of entries with its count is a list.
\<close>

definition VFS_NODE_NAME_LENGTH :: nat where "VFS_NODE_NAME_LENGTH = 256"
definition RAMFS_NODE_MAX_CHILDREN :: nat where "RAMFS_NODE_MAX_CHILDREN = 64"

datatype vfs_node_type = VFS_NODE_TYPE_FILE | VFS_NODE_TYPE_DIRECTORY

text \<open>
  The tables of operations are constants of the source: the tables of the two file systems and the
  three tables in \<^verbatim>\<open>devfs_entries\<close>. The functions below say which entries of a table are not \<^verbatim>\<open>NULL\<close>.
\<close>

datatype vfs_node_operations_t =
    ramfs_node_operations | devfs_node_operations | keyboard_operations | terminal_operations | framebuffer_operations

record vfs_node_t =
  vfs_name :: "char list"
  mount :: u32
  node_operations :: vfs_node_operations_t
  node_type :: vfs_node_type
  node_resource_type :: resource_type_t
  fs_data :: u32
  cache_index :: u64
  node_index :: u64
  node_ref_count :: u32

record vfs_dir_t =
  dir_name :: "char list"
  dir_type :: vfs_node_type

record vfs_node_cache_node_t =
  cached_node :: u32
  cached_next :: u32

record vfs_node_cache_t =
  cache_number :: u64
  cache_nodes :: u32
  cache_next :: u32

record ramfs_dirent_t =
  dirent_block :: u32
  dirent_name :: "char list"
  dirent_node :: u32

record ramfs_node_t =
  ramfs_id :: u64
  ramfs_children :: "ramfs_dirent_t list"
  ramfs_name :: "char list"
  ramfs_type :: vfs_node_type
  ramfs_data :: u32
  ramfs_data_size :: u32
  link_count :: u32

datatype ramfs_result_t = RAMFS_RESULT_OK | RAMFS_RESULT_MAX_CHILDREN | RAMFS_RESULT_NOT_FOUND | RAMFS_RESULT_ERROR

record kernel_fs = kernel_keyboard +
  vfs_nodes :: "u32 \<Rightarrow> vfs_node_t"
  vfs_cache_nodes :: "u32 \<Rightarrow> vfs_node_cache_node_t"
  vfs_caches :: "u32 \<Rightarrow> vfs_node_cache_t"
  vfs_root :: u32
  vfs_cache :: u32
  last_cache_index :: u64
  ramfs_nodes :: "u32 \<Rightarrow> ramfs_node_t"
  ramfs_last_index :: u64
  ramfs_root :: u32

definition sizeof_vfs_node_t :: u32 where "sizeof_vfs_node_t = 336"
definition sizeof_vfs_node_cache_t :: u32 where "sizeof_vfs_node_cache_t = 16"
definition sizeof_vfs_node_cache_node_t :: u32 where "sizeof_vfs_node_cache_node_t = 8"
definition sizeof_ramfs_node_t :: u32 where "sizeof_ramfs_node_t = 796"

definition upd_node :: "u32 \<Rightarrow> (vfs_node_t \<Rightarrow> vfs_node_t) \<Rightarrow> 'a kernel_fs_scheme \<Rightarrow> 'a kernel_fs_scheme" where
  "upd_node p f s = s\<lparr>vfs_nodes := (vfs_nodes s)(p := f (vfs_nodes s p))\<rparr>"

definition upd_cache :: "u32 \<Rightarrow> (vfs_node_cache_t \<Rightarrow> vfs_node_cache_t) \<Rightarrow> 'a kernel_fs_scheme \<Rightarrow> 'a kernel_fs_scheme" where
  "upd_cache p f s = s\<lparr>vfs_caches := (vfs_caches s)(p := f (vfs_caches s p))\<rparr>"

definition upd_cached ::
    "u32 \<Rightarrow> (vfs_node_cache_node_t \<Rightarrow> vfs_node_cache_node_t) \<Rightarrow> 'a kernel_fs_scheme \<Rightarrow> 'a kernel_fs_scheme" where
  "upd_cached p f s = s\<lparr>vfs_cache_nodes := (vfs_cache_nodes s)(p := f (vfs_cache_nodes s p))\<rparr>"

definition upd_ramfs :: "u32 \<Rightarrow> (ramfs_node_t \<Rightarrow> ramfs_node_t) \<Rightarrow> 'a kernel_fs_scheme \<Rightarrow> 'a kernel_fs_scheme" where
  "upd_ramfs p f s = s\<lparr>ramfs_nodes := (ramfs_nodes s)(p := f (ramfs_nodes s p))\<rparr>"

end
