(* ===== verification/Vfs_Cache.thy ===== *)
theory Vfs_Cache
  imports File_State
begin

text \<open>
  The cache of nodes of \<^verbatim>\<open>src/vfs.c\<close>: a list of caches, one per file system, each with a list of the
  nodes in use. A node is counted once for the cache and once for each user; when the last user
  releases it, it leaves the cache and is freed.
\<close>

section \<open>Operations\<close>

text \<open>The first element that satisfies a test and the one before it, \<^verbatim>\<open>NULL\<close> where there is none.\<close>

partial_function (option) find_with_previous ::
    "(u32 \<Rightarrow> u32) \<Rightarrow> (u32 \<Rightarrow> bool) \<Rightarrow> u32 \<Rightarrow> u32 \<Rightarrow> (u32 \<times> u32) option" where
  "find_with_previous nxt test prev head =
     (if head = 0 then Some (prev, 0) else if test head then Some (prev, head)
      else find_with_previous nxt test head (nxt head))"

definition cache_links :: "'a kernel_fs_scheme \<Rightarrow> u32 \<Rightarrow> u32" where
  "cache_links s p = cache_next (vfs_caches s p)"

definition cached_links :: "'a kernel_fs_scheme \<Rightarrow> u32 \<Rightarrow> u32" where
  "cached_links s p = cached_next (vfs_cache_nodes s p)"

definition cached_index :: "'a kernel_fs_scheme \<Rightarrow> u32 \<Rightarrow> u64" where
  "cached_index s p = node_index (vfs_nodes s (cached_node (vfs_cache_nodes s p)))"

definition vfs_cache_query_node ::
    "u32 \<Rightarrow> u64 \<Rightarrow> 'a kernel_fs_scheme \<Rightarrow> (resource_result_t \<times> u32) option" where
  "vfs_cache_query_node index ident s = do {
     cache_head \<leftarrow> list_find (cache_links s) (\<lambda>p. cache_number (vfs_caches s p) = ucast index) (vfs_cache s);
     if cache_head = 0 then None
     else do {
       node_head \<leftarrow> list_find (cached_links s) (\<lambda>p. cached_index s p = ident) (cache_nodes (vfs_caches s cache_head));
       Some (if node_head = 0 then (RESOURCE_RESULT_NOT_FOUND, 0)
             else (RESOURCE_RESULT_OK, cached_node (vfs_cache_nodes s node_head)))
     }
   }"

definition vfs_lock_node :: "u32 \<Rightarrow> 'a kernel_fs_scheme \<Rightarrow> resource_result_t \<times> 'a kernel_fs_scheme" where
  "vfs_lock_node node s =
     (if node = 0 then (RESOURCE_RESULT_BAD_PARAMETER, s)
      else (RESOURCE_RESULT_OK, upd_node node (\<lambda>n. n\<lparr>node_ref_count := node_ref_count n + 1\<rparr>) s))"

text \<open>Putting a node into its cache, which is appended to the list of caches when there is none yet.\<close>

definition find_or_add_cache :: "u64 \<Rightarrow> 'a kernel_fs_scheme \<Rightarrow> (u32 \<times> 'a kernel_fs_scheme) option" where
  "find_or_add_cache number s = do {
     (cache_head_prev, cache_head) \<leftarrow>
       find_with_previous (cache_links s) (\<lambda>p. cache_number (vfs_caches s p) = number) 0 (vfs_cache s);
     if cache_head \<noteq> 0 then Some (cache_head, s)
     else do {
       (cache_head, s) \<leftarrow> kernel_heap_calloc sizeof_vfs_node_cache_t s;
       if cache_head = 0 then Some (0, s)
       else let s = s\<lparr>vfs_caches := (vfs_caches s)(cache_head := \<lparr>cache_number = number, cache_nodes = 0, cache_next = 0\<rparr>)\<rparr>
            in Some (cache_head,
                 if cache_head_prev \<noteq> 0 then upd_cache cache_head_prev (\<lambda>c. c\<lparr>cache_next := cache_head\<rparr>) s
                 else s\<lparr>vfs_cache := cache_head\<rparr>)
     }
   }"

definition vfs_cache_put :: "u32 \<Rightarrow> 'a kernel_fs_scheme \<Rightarrow> (resource_result_t \<times> 'a kernel_fs_scheme) option" where
  "vfs_cache_put node s =
     (if node = 0 then Some (RESOURCE_RESULT_BAD_PARAMETER, s)
      else do {
        (cache_head, s) \<leftarrow> find_or_add_cache (cache_index (vfs_nodes s node)) s;
        if cache_head = 0 then Some (RESOURCE_RESULT_ALLOCATION_ERROR, s)
        else do {
          (node_head_prev, node_head) \<leftarrow>
            find_with_previous (cached_links s) (\<lambda>p. cached_index s p = node_index (vfs_nodes s node)) 0
              (cache_nodes (vfs_caches s cache_head));
          if node_head \<noteq> 0 then Some (RESOURCE_RESULT_ALREADY_PRESENT, s)
          else do {
            (node_head, s) \<leftarrow> kernel_heap_calloc sizeof_vfs_node_cache_node_t s;
            if node_head = 0 then Some (RESOURCE_RESULT_ALLOCATION_ERROR, s)
            else let s = s\<lparr>vfs_cache_nodes := (vfs_cache_nodes s)(node_head := \<lparr>cached_node = node, cached_next = 0\<rparr>)\<rparr>;
                     s = (if node_head_prev \<noteq> 0 then upd_cached node_head_prev (\<lambda>c. c\<lparr>cached_next := node_head\<rparr>) s
                          else upd_cache cache_head (\<lambda>c. c\<lparr>cache_nodes := node_head\<rparr>) s)
                 in Some (RESOURCE_RESULT_OK, snd (vfs_lock_node node s))
          }
        }
      })"

definition vfs_create_node ::
    "u32 \<Rightarrow> u64 \<Rightarrow> char list \<Rightarrow> vfs_node_operations_t \<Rightarrow> u32 \<Rightarrow> vfs_node_type \<Rightarrow> resource_type_t \<Rightarrow>
      'a kernel_fs_scheme \<Rightarrow> (resource_result_t \<times> u32 \<times> 'a kernel_fs_scheme) option" where
  "vfs_create_node directory ident name ops data kind resource s = do {
     (node, s) \<leftarrow> kernel_heap_calloc sizeof_vfs_node_t s;
     if node = 0 then Some (RESOURCE_RESULT_ALLOCATION_ERROR, 0, s)
     else if length name \<ge> VFS_NODE_NAME_LENGTH then None
     else let (index, s) = (if directory \<noteq> 0 then (cache_index (vfs_nodes s directory), s)
                else (last_cache_index s, s\<lparr>last_cache_index := last_cache_index s + 1\<rparr>));
              s = s\<lparr>vfs_nodes := (vfs_nodes s)(node := \<lparr>vfs_name = name, mount = 0, node_operations = ops,
                node_type = kind, node_resource_type = resource, fs_data = data, cache_index = index,
                node_index = ident, node_ref_count = 0\<rparr>)\<rparr>
          in do {
            (_, s) \<leftarrow> vfs_cache_put node s;
            Some (RESOURCE_RESULT_OK, node, s)
          }
   }"

text \<open>The last link and the last user are gone: the ram file system frees the file.\<close>

definition ramfs_release :: "u32 \<Rightarrow> 'a kernel_fs_scheme \<Rightarrow> 'a kernel_fs_scheme option" where
  "ramfs_release file s =
     (let node = fs_data (vfs_nodes s file) in
      if link_count (ramfs_nodes s node) > 0 then Some s
      else do {
        s \<leftarrow> (if ramfs_data (ramfs_nodes s node) \<noteq> 0 then kernel_heap_free (ramfs_data (ramfs_nodes s node)) s else Some s);
        kernel_heap_free node s
      })"

definition call_release :: "u32 \<Rightarrow> 'a kernel_fs_scheme \<Rightarrow> 'a kernel_fs_scheme option" where
  "call_release node s =
     (if node_operations (vfs_nodes s node) = ramfs_node_operations then ramfs_release node s else Some s)"

text \<open>Taking the cache node out of its cache, and the cache out of the list when it is empty.\<close>

definition unlink_cached :: "u32 \<Rightarrow> u32 \<Rightarrow> u32 \<Rightarrow> 'a kernel_fs_scheme \<Rightarrow> 'a kernel_fs_scheme option" where
  "unlink_cached cache_head node_head_prev node_head s =
     (let following = cached_next (vfs_cache_nodes s node_head);
          s = (if node_head_prev \<noteq> 0 then upd_cached node_head_prev (\<lambda>c. c\<lparr>cached_next := following\<rparr>) s
               else upd_cache cache_head (\<lambda>c. c\<lparr>cache_nodes := following\<rparr>) s)
      in kernel_heap_free node_head s)"

definition drop_empty_cache :: "u32 \<Rightarrow> u32 \<Rightarrow> 'a kernel_fs_scheme \<Rightarrow> 'a kernel_fs_scheme option" where
  "drop_empty_cache cache_head_prev cache_head s =
     (if cache_nodes (vfs_caches s cache_head) \<noteq> 0 then Some s
      else let following = cache_next (vfs_caches s cache_head);
               s = (if cache_head_prev \<noteq> 0 then upd_cache cache_head_prev (\<lambda>c. c\<lparr>cache_next := following\<rparr>) s
                    else s\<lparr>vfs_cache := following\<rparr>)
           in kernel_heap_free cache_head s)"

definition vfs_cache_try_evict :: "u32 \<Rightarrow> 'a kernel_fs_scheme \<Rightarrow> (resource_result_t \<times> 'a kernel_fs_scheme) option" where
  "vfs_cache_try_evict node s =
     (if node = 0 then Some (RESOURCE_RESULT_BAD_PARAMETER, s)
      else if node_ref_count (vfs_nodes s node) \<noteq> 1 then Some (RESOURCE_RESULT_STILL_IN_USE, s)
      else do {
        (cache_head_prev, cache_head) \<leftarrow> find_with_previous (cache_links s)
          (\<lambda>p. cache_number (vfs_caches s p) = cache_index (vfs_nodes s node)) 0 (vfs_cache s);
        if cache_head = 0 then Some (RESOURCE_RESULT_NOT_FOUND, s)
        else do {
          (node_head_prev, node_head) \<leftarrow> find_with_previous (cached_links s)
            (\<lambda>p. cached_index s p = node_index (vfs_nodes s node)) 0 (cache_nodes (vfs_caches s cache_head));
          if node_head = 0 then Some (RESOURCE_RESULT_NOT_FOUND, s)
          else do {
            s \<leftarrow> unlink_cached cache_head node_head_prev node_head s;
            s \<leftarrow> drop_empty_cache cache_head_prev cache_head s;
            s \<leftarrow> call_release node s;
            s \<leftarrow> kernel_heap_free node s;
            Some (RESOURCE_RESULT_OK, s)
          }
        }
      })"

definition vfs_release_node :: "u32 \<Rightarrow> 'a kernel_fs_scheme \<Rightarrow> (resource_result_t \<times> 'a kernel_fs_scheme) option" where
  "vfs_release_node node s =
     (if node = 0 then Some (RESOURCE_RESULT_BAD_PARAMETER, s)
      else do {
        (_, s) \<leftarrow> vfs_cache_try_evict node (upd_node node (\<lambda>n. n\<lparr>node_ref_count := node_ref_count n - 1\<rparr>) s);
        Some (RESOURCE_RESULT_OK, s)
      })"

end
