(* ===== verification/Ramfs.thy ===== *)
theory Ramfs
  imports Vfs_Cache
begin

text \<open>
  The ram file system \<^verbatim>\<open>src/fs/ramfs.c\<close>: directories of at most 64 entries, files whose bytes are a
  block of the kernel heap, and hard links. The bytes of files and buffers are the bytes of the
  memory that the heap manages, so that copying follows \<^verbatim>\<open>memcpy\<close> of the string library.
\<close>

section \<open>Paths and entries\<close>

definition slash :: char where "slash = CHR ''/''"

lemma dropWhile_shorter: "dropWhile P xs \<noteq> [] \<Longrightarrow> Q (hd (dropWhile P xs)) \<Longrightarrow> length (dropWhile Q (dropWhile P xs)) < length xs"
proof -
  assume a: "dropWhile P xs \<noteq> []" "Q (hd (dropWhile P xs))"
  then obtain y ys where e: "dropWhile P xs = y # ys" by (cases "dropWhile P xs") auto
  have "length (dropWhile Q ys) \<le> length ys" by (rule length_dropWhile_le)
  moreover have "length (y # ys) \<le> length xs" using length_dropWhile_le [of P xs] e by simp
  ultimately show ?thesis using a(2) e by simp
qed

text \<open>The parts of a path between slashes, as successive calls of \<^verbatim>\<open>strtok\<close> give them.\<close>

function path_components :: "char list \<Rightarrow> char list list" where
  "path_components p =
     (let q = dropWhile (\<lambda>c. c = slash) p
      in if q = [] then [] else takeWhile (\<lambda>c. c \<noteq> slash) q # path_components (dropWhile (\<lambda>c. c \<noteq> slash) q))"
  by pat_completeness auto
termination
proof (relation "measure length")
  fix p q :: "char list"
  assume q: "q = dropWhile (\<lambda>c. c = slash) p" "q \<noteq> []"
  then have "hd q \<noteq> slash" using hd_dropWhile [of "\<lambda>c. c = slash" p] by auto
  then show "(dropWhile (\<lambda>c. c \<noteq> slash) q, p) \<in> measure length"
    using dropWhile_shorter [of "\<lambda>c. c = slash" p "\<lambda>c. c \<noteq> slash"] q by simp
qed simp

declare path_components.simps [simp del]

text \<open>The position of the first element that satisfies a test.\<close>

fun position :: "('e \<Rightarrow> bool) \<Rightarrow> 'e list \<Rightarrow> nat option" where
  "position P [] = None"
| "position P (x # xs) = (if P x then Some 0 else map_option Suc (position P xs))"

section \<open>Nodes\<close>

definition ramfs_create_node ::
    "char list \<Rightarrow> vfs_node_type \<Rightarrow> u32 \<Rightarrow> u32 \<Rightarrow> 'a kernel_fs_scheme \<Rightarrow> (ramfs_result_t \<times> u32 \<times> 'a kernel_fs_scheme) option" where
  "ramfs_create_node name kind data data_size s = do {
     (node, s) \<leftarrow> kernel_heap_calloc sizeof_ramfs_node_t s;
     if node = 0 then Some (RAMFS_RESULT_ERROR, 0, s)
     else Some (RAMFS_RESULT_OK, node,
       s\<lparr>ramfs_last_index := ramfs_last_index s + 1,
         ramfs_nodes := (ramfs_nodes s)(node := \<lparr>ramfs_id = ramfs_last_index s, ramfs_children = [],
           ramfs_name = take (VFS_NODE_NAME_LENGTH - 1) name, ramfs_type = kind, ramfs_data = data,
           ramfs_data_size = data_size, link_count = 1\<rparr>)\<rparr>)
   }"

definition ramfs_add_child ::
    "u32 \<Rightarrow> char list \<Rightarrow> u32 \<Rightarrow> 'a kernel_fs_scheme \<Rightarrow> (ramfs_result_t \<times> 'a kernel_fs_scheme) option" where
  "ramfs_add_child directory name child s =
     (if length (ramfs_children (ramfs_nodes s directory)) \<ge> RAMFS_NODE_MAX_CHILDREN then Some (RAMFS_RESULT_MAX_CHILDREN, s)
      else do {
        (name_copy, s) \<leftarrow> kernel_heap_malloc (of_nat (length name) + 1) s;
        if name_copy = 0 then Some (RAMFS_RESULT_ERROR, s)
        else Some (RAMFS_RESULT_OK, upd_ramfs directory (\<lambda>n. n\<lparr>ramfs_children := ramfs_children n @
          [\<lparr>dirent_block = name_copy, dirent_name = name, dirent_node = child\<rparr>]\<rparr>) s)
      })"

definition ramfs_find_child :: "u32 \<Rightarrow> char list \<Rightarrow> 'a kernel_fs_scheme \<Rightarrow> ramfs_result_t \<times> u32" where
  "ramfs_find_child directory name s =
     (case find (\<lambda>e. dirent_name e = name) (ramfs_children (ramfs_nodes s directory)) of
        Some e \<Rightarrow> (RAMFS_RESULT_OK, dirent_node e)
      | None \<Rightarrow> (RAMFS_RESULT_NOT_FOUND, 0))"

fun get_or_create_loop ::
    "char list list \<Rightarrow> u32 \<Rightarrow> 'a kernel_fs_scheme \<Rightarrow> (ramfs_result_t \<times> u32 \<times> 'a kernel_fs_scheme) option" where
  "get_or_create_loop [] current s = Some (RAMFS_RESULT_OK, current, s)"
| "get_or_create_loop (token # tokens) current s =
     (let (result, child) = ramfs_find_child current token s in
      if result \<noteq> RAMFS_RESULT_NOT_FOUND then get_or_create_loop tokens child s
      else do {
        (result, child, s) \<leftarrow> ramfs_create_node token VFS_NODE_TYPE_DIRECTORY 0 0 s;
        if result \<noteq> RAMFS_RESULT_OK then Some (result, 0, s)
        else do {
          (_, s) \<leftarrow> ramfs_add_child current token child s;
          get_or_create_loop tokens child s
        }
      })"

definition ramfs_get_or_create_directory ::
    "u32 \<Rightarrow> char list \<Rightarrow> 'a kernel_fs_scheme \<Rightarrow> (ramfs_result_t \<times> u32 \<times> 'a kernel_fs_scheme) option" where
  "ramfs_get_or_create_directory root pathname s = get_or_create_loop (path_components pathname) root s"

definition ramfs_create_path ::
    "u32 \<Rightarrow> char list \<Rightarrow> vfs_node_type \<Rightarrow> 'a kernel_fs_scheme \<Rightarrow> (ramfs_result_t \<times> u32 \<times> 'a kernel_fs_scheme) option" where
  "ramfs_create_path root pathname kind s =
     (let last_slash = last_index slash pathname;
          name = (case last_slash of None \<Rightarrow> pathname | Some i \<Rightarrow> drop (Suc i) pathname)
      in do {
        (result, directory, s) \<leftarrow> (case last_slash of None \<Rightarrow> Some (RAMFS_RESULT_OK, root, s)
          | Some i \<Rightarrow> ramfs_get_or_create_directory root (take i pathname) s);
        if result \<noteq> RAMFS_RESULT_OK then Some (result, 0, s)
        else let (result, node) = ramfs_find_child directory name s in
          if result \<noteq> RAMFS_RESULT_NOT_FOUND then Some (RAMFS_RESULT_OK, node, s)
          else do {
            (result, node, s) \<leftarrow> ramfs_create_node name kind 0 0 s;
            if result \<noteq> RAMFS_RESULT_OK then Some (result, 0, s)
            else do {
              (result, s) \<leftarrow> ramfs_add_child directory name node s;
              if result \<noteq> RAMFS_RESULT_OK then Some (result, 0, s) else Some (RAMFS_RESULT_OK, node, s)
            }
          }
      })"

section \<open>Operations of the file system\<close>

definition node_for ::
    "u32 \<Rightarrow> u32 \<Rightarrow> char list \<Rightarrow> 'a kernel_fs_scheme \<Rightarrow> (resource_result_t \<times> u32 \<times> 'a kernel_fs_scheme) option" where
  "node_for directory child name s = do {
     (queue_result, node) \<leftarrow>
       vfs_cache_query_node (ucast (cache_index (vfs_nodes s directory))) (ramfs_id (ramfs_nodes s child)) s;
     if queue_result = RESOURCE_RESULT_OK then Some (RESOURCE_RESULT_OK, node, s)
     else vfs_create_node directory (ramfs_id (ramfs_nodes s child)) name ramfs_node_operations child
            (ramfs_type (ramfs_nodes s child)) RESOURCE_TYPE_FILE s
   }"

definition ramfs_lookup ::
    "u32 \<Rightarrow> char list \<Rightarrow> 'a kernel_fs_scheme \<Rightarrow> (resource_result_t \<times> u32 \<times> 'a kernel_fs_scheme) option" where
  "ramfs_lookup directory pathname s =
     (case find (\<lambda>e. dirent_name e = pathname) (ramfs_children (ramfs_nodes s (fs_data (vfs_nodes s directory)))) of
        None \<Rightarrow> Some (RESOURCE_RESULT_NOT_FOUND, 0, s)
      | Some e \<Rightarrow> node_for directory (dirent_node e) (dirent_name e) s)"

definition ramfs_create ::
    "u32 \<Rightarrow> char list \<Rightarrow> vfs_node_type \<Rightarrow> 'a kernel_fs_scheme \<Rightarrow> (resource_result_t \<times> u32 \<times> 'a kernel_fs_scheme) option" where
  "ramfs_create directory name kind s =
     (let par = fs_data (vfs_nodes s directory);
          (result, existing) = ramfs_find_child par name s
      in if result = RAMFS_RESULT_OK then node_for directory existing (ramfs_name (ramfs_nodes s existing)) s
         else do {
           (result, node, s) \<leftarrow> ramfs_create_node name kind 0 0 s;
           if result \<noteq> RAMFS_RESULT_OK then Some (RESOURCE_RESULT_ALLOCATION_ERROR, 0, s)
           else do {
             (result, s) \<leftarrow> ramfs_add_child par name node s;
             if result \<noteq> RAMFS_RESULT_OK then Some (RESOURCE_RESULT_ALLOCATION_ERROR, 0, s)
             else vfs_create_node directory (ramfs_id (ramfs_nodes s node)) name ramfs_node_operations node
                    (ramfs_type (ramfs_nodes s node)) RESOURCE_TYPE_FILE s
           }
         })"

definition ramfs_truncate :: "u32 \<Rightarrow> 'a kernel_fs_scheme \<Rightarrow> (resource_result_t \<times> 'a kernel_fs_scheme) option" where
  "ramfs_truncate file s =
     (let node = fs_data (vfs_nodes s file) in do {
        s \<leftarrow> (if ramfs_data (ramfs_nodes s node) \<noteq> 0 then kernel_heap_free (ramfs_data (ramfs_nodes s node)) s else Some s);
        Some (RESOURCE_RESULT_OK, upd_ramfs node (\<lambda>n. n\<lparr>ramfs_data := 0, ramfs_data_size := 0\<rparr>) s)
      })"

definition ramfs_link :: "u32 \<Rightarrow> char list \<Rightarrow> u32 \<Rightarrow> 'a kernel_fs_scheme \<Rightarrow> (resource_result_t \<times> 'a kernel_fs_scheme) option" where
  "ramfs_link directory name target s =
     (let par = fs_data (vfs_nodes s directory); target_node = fs_data (vfs_nodes s target) in
      if fst (ramfs_find_child par name s) = RAMFS_RESULT_OK then Some (RESOURCE_RESULT_ALREADY_PRESENT, s)
      else do {
        (result, s) \<leftarrow> ramfs_add_child par name target_node s;
        if result \<noteq> RAMFS_RESULT_OK then Some (RESOURCE_RESULT_ALLOCATION_ERROR, s)
        else Some (RESOURCE_RESULT_OK, upd_ramfs target_node (\<lambda>n. n\<lparr>link_count := link_count n + 1\<rparr>) s)
      })"

text \<open>The entry is replaced by the last one of the directory.\<close>

definition remove_entry :: "nat \<Rightarrow> 'e list \<Rightarrow> 'e list" where
  "remove_entry i xs = butlast (xs[i := last xs])"

definition ramfs_unlink :: "u32 \<Rightarrow> char list \<Rightarrow> 'a kernel_fs_scheme \<Rightarrow> (resource_result_t \<times> 'a kernel_fs_scheme) option" where
  "ramfs_unlink directory name s =
     (let par = fs_data (vfs_nodes s directory); entries = ramfs_children (ramfs_nodes s par) in
      case position (\<lambda>e. dirent_name e = name) entries of
        None \<Rightarrow> Some (RESOURCE_RESULT_NOT_FOUND, s)
      | Some i \<Rightarrow>
          let target = dirent_node (entries ! i) in
          if target = 0 then Some (RESOURCE_RESULT_NOT_FOUND, s)
          else if ramfs_type (ramfs_nodes s target) = VFS_NODE_TYPE_DIRECTORY then Some (RESOURCE_RESULT_BAD_PARAMETER, s)
          else do {
            s \<leftarrow> kernel_heap_free (dirent_block (entries ! i)) s;
            let s = upd_ramfs par (\<lambda>n. n\<lparr>ramfs_children := remove_entry i entries\<rparr>) s;
                s = upd_ramfs target (\<lambda>n. n\<lparr>link_count := link_count n - 1\<rparr>) s
            in if link_count (ramfs_nodes s target) \<noteq> 0 then Some (RESOURCE_RESULT_OK, s)
               else do {
                 (queue_result, _) \<leftarrow>
                   vfs_cache_query_node (ucast (cache_index (vfs_nodes s directory))) (ramfs_id (ramfs_nodes s target)) s;
                 if queue_result = RESOURCE_RESULT_OK then Some (RESOURCE_RESULT_OK, s)
                 else do {
                   s \<leftarrow> (if ramfs_data (ramfs_nodes s target) \<noteq> 0
                         then kernel_heap_free (ramfs_data (ramfs_nodes s target)) s else Some s);
                   s \<leftarrow> kernel_heap_free target s;
                   Some (RESOURCE_RESULT_OK, s)
                 }
               }
          })"

definition ramfs_readdir :: "u32 \<Rightarrow> u32 \<Rightarrow> 'a kernel_fs_scheme \<Rightarrow> (resource_result_t \<times> vfs_dir_t option) option" where
  "ramfs_readdir directory index s =
     (let entries = ramfs_children (ramfs_nodes s (fs_data (vfs_nodes s directory))) in
      if unat index \<ge> length entries then Some (RESOURCE_RESULT_NOT_FOUND, None)
      else let e = entries ! unat index in
        if length (dirent_name e) \<ge> VFS_NODE_NAME_LENGTH then None
        else Some (RESOURCE_RESULT_OK, Some \<lparr>dir_name = dirent_name e, dir_type = ramfs_type (ramfs_nodes s (dirent_node e))\<rparr>))"

definition ramfs_read ::
    "u32 \<Rightarrow> u32 \<Rightarrow> u32 \<Rightarrow> u32 \<Rightarrow> 'a kernel_fs_scheme \<Rightarrow> resource_result_t \<times> u32 \<times> 'a kernel_fs_scheme" where
  "ramfs_read file offset buf len s =
     (let node = ramfs_nodes s (fs_data (vfs_nodes s file)) in
      if offset \<ge> ramfs_data_size node then (RESOURCE_RESULT_OK, 0, s)
      else let remaining = ramfs_data_size node - offset;
               length_to_read = (if len < remaining then len else remaining)
           in (RESOURCE_RESULT_OK, length_to_read,
               s\<lparr>heap_data := fst (memcpy (heap_data s) buf (ramfs_data node + offset) length_to_read)\<rparr>))"

text \<open>A file that is too short gets a new block: the old bytes, zeros up to the offset, then the data.\<close>

definition grow_file :: "u32 \<Rightarrow> u32 \<Rightarrow> u32 \<Rightarrow> 'a kernel_fs_scheme \<Rightarrow> (bool \<times> 'a kernel_fs_scheme) option" where
  "grow_file n offset required_size s = do {
     (new_data, s) \<leftarrow> kernel_heap_malloc required_size s;
     if new_data = 0 then Some (False, s)
     else let node = ramfs_nodes s n;
              m = heap_data s;
              m = (if ramfs_data_size node \<noteq> 0 then fst (memcpy m new_data (ramfs_data node) (ramfs_data_size node)) else m);
              m = (if offset > ramfs_data_size node
                   then fst (memset m (new_data + ramfs_data_size node) nul (offset - ramfs_data_size node)) else m);
              s = s\<lparr>heap_data := m\<rparr>
          in do {
            s \<leftarrow> (if ramfs_data node \<noteq> 0 then kernel_heap_free (ramfs_data node) s else Some s);
            Some (True, upd_ramfs n (\<lambda>n. n\<lparr>ramfs_data := new_data, ramfs_data_size := required_size\<rparr>) s)
          }
   }"

definition ramfs_write ::
    "u32 \<Rightarrow> u32 \<Rightarrow> u32 \<Rightarrow> u32 \<Rightarrow> 'a kernel_fs_scheme \<Rightarrow> (resource_result_t \<times> u32 \<times> 'a kernel_fs_scheme) option" where
  "ramfs_write file offset buf len s =
     (let n = fs_data (vfs_nodes s file); required_size = offset + len in do {
        (ok, s) \<leftarrow> (if required_size > ramfs_data_size (ramfs_nodes s n) then grow_file n offset required_size s
                   else Some (True, s));
        if \<not> ok then Some (RESOURCE_RESULT_ALLOCATION_ERROR, 0, s)
        else Some (RESOURCE_RESULT_OK, len,
          s\<lparr>heap_data := fst (memcpy (heap_data s) (ramfs_data (ramfs_nodes s n) + offset) buf len)\<rparr>)
      })"

definition ramfs_size :: "u32 \<Rightarrow> 'a kernel_fs_scheme \<Rightarrow> resource_result_t \<times> u32" where
  "ramfs_size file s = (RESOURCE_RESULT_OK, ramfs_data_size (ramfs_nodes s (fs_data (vfs_nodes s file))))"


section \<open>Bytes of memory\<close>

lemma unat_offset: "unat p + i < 2 ^ 32 \<Longrightarrow> unat (p + of_nat i) = unat p + i" for p :: u32
  by (simp add: unat_word_ariths unat_of_nat_u32)

lemma range_of_interval:
  "unat p + n \<le> 2 ^ 32 \<Longrightarrow> q \<in> range_of p n \<longleftrightarrow> unat p \<le> unat q \<and> unat q < unat p + n"
proof
  assume n: "unat p + n \<le> 2 ^ 32"
  show "unat p \<le> unat q \<and> unat q < unat p + n" if "q \<in> range_of p n"
    using that n by (auto simp: range_of_def unat_offset)
  assume "unat p \<le> unat q \<and> unat q < unat p + n"
  then have "q = p + of_nat (unat q - unat p)" "unat q - unat p < n"
    by (auto simp: of_nat_diff)
  then show "q \<in> range_of p n" unfolding range_of_def by blast
qed

text \<open>Two areas, given by their start and length, with no byte in common.\<close>

definition apart_areas :: "u32 \<Rightarrow> nat \<Rightarrow> u32 \<Rightarrow> nat \<Rightarrow> bool" where
  "apart_areas p n q k \<longleftrightarrow> unat p + n \<le> unat q \<or> unat q + k \<le> unat p \<or> n = 0 \<or> k = 0"

lemma memcpy_bytes:
  assumes "unat d + n \<le> 2 ^ 32" "unat s + n \<le> 2 ^ 32" "apart_areas d n s n"
  shows "memcpy_loop n m d s q = (if unat d \<le> unat q \<and> unat q < unat d + n then m (s + (q - d)) else m q)"
proof -
  have "range_of d n \<inter> range_of s n = {}"
    using assms by (auto simp: range_of_interval apart_areas_def)
  moreover have "n \<le> 2 ^ 32" using assms(1) by simp
  ultimately show ?thesis using assms(1) by (simp add: memcpy_loop_apply range_of_interval)
qed

lemma memset_bytes:
  assumes "unat d + n \<le> 2 ^ 32"
  shows "memset_loop n m d c q = (if unat d \<le> unat q \<and> unat q < unat d + n then c else m q)"
  using assms memset_loop_apply [of n m d c q] by (simp add: range_of_interval)

lemma memcpy_same:
  assumes "unat d + n \<le> 2 ^ 32" "unat s + n \<le> 2 ^ 32" "apart_areas d n s n" "i < n"
  shows "memcpy_loop n m d s (d + of_nat i) = m (s + of_nat i)"
  using assms by (simp add: memcpy_bytes unat_offset)

lemma memcpy_apart:
  assumes "unat d + n \<le> 2 ^ 32" "unat s + n \<le> 2 ^ 32" "apart_areas d n s n" "apart_areas d n p k" "unat p + k \<le> 2 ^ 32" "i < k"
  shows "memcpy_loop n m d s (p + of_nat i) = m (p + of_nat i)"
  using assms by (auto simp: memcpy_bytes unat_offset apart_areas_def)

section \<open>A file is a list of bytes\<close>

definition file_data :: "'a kernel_fs_scheme \<Rightarrow> u32 \<Rightarrow> char list" where
  "file_data s n = bytes_at (heap_data s) (ramfs_data (ramfs_nodes s n)) (unat (ramfs_data_size (ramfs_nodes s n)))"

definition file_area :: "'a kernel_fs_scheme \<Rightarrow> u32 \<Rightarrow> nat set" where
  "file_area s n = (let d = ramfs_data (ramfs_nodes s n) in {unat d ..< unat d + unat (ramfs_data_size (ramfs_nodes s n))})"

definition file_ok :: "'a kernel_fs_scheme \<Rightarrow> u32 \<Rightarrow> bool" where
  "file_ok s n \<longleftrightarrow> (let d = ramfs_data (ramfs_nodes s n) in
     if d = 0 then ramfs_data_size (ramfs_nodes s n) = 0 else heap_live s d \<and> file_area s n \<subseteq> heap_extent s d)"

text \<open>The specification: reading and writing a list of bytes at an offset.\<close>

definition list_read :: "nat \<Rightarrow> nat \<Rightarrow> char list \<Rightarrow> char list" where
  "list_read offset len xs = take len (drop offset xs)"

definition list_write :: "nat \<Rightarrow> char list \<Rightarrow> char list \<Rightarrow> char list" where
  "list_write offset ys xs = take offset xs @ replicate (offset - length xs) nul @ ys @ drop (offset + length ys) xs"

text \<open>A buffer of user memory lies below the kernel heap.\<close>

definition user_buffer :: "u32 \<Rightarrow> u32 \<Rightarrow> bool" where
  "user_buffer buf len \<longleftrightarrow> unat buf + unat len \<le> 0xF0000000"

lemma file_data_range:
  assumes "kernel_heap_ready s" "file_ok s n" "ramfs_data_size (ramfs_nodes s n) \<noteq> 0"
  shows "0xF0000000 \<le> unat (ramfs_data (ramfs_nodes s n))"
    "unat (ramfs_data (ramfs_nodes s n)) + unat (ramfs_data_size (ramfs_nodes s n)) \<le> 0xF7FFF000"
proof -
  let ?d = "unat (ramfs_data (ramfs_nodes s n))" and ?k = "unat (ramfs_data_size (ramfs_nodes s n))"
  have "{?d ..< ?d + ?k} \<subseteq> {0xF0000000 ..< 0xF7FFF000}"
    using assms heap_live_range by (fastforce simp: file_ok_def file_area_def Let_def split: if_splits)
  moreover have "0 < ?k" using assms(3) by (simp add: unat_gt_0)
  ultimately show "0xF0000000 \<le> ?d" "?d + ?k \<le> 0xF7FFF000" by (auto simp: subset_iff dest: spec [of _ ?d] spec [of _ "?d + ?k - 1"])
qed

text \<open>
  (C23) Reading a file of the ram file system gives the bytes of the file from the offset on, at most
  as many as asked for, and none past its end; it stores exactly these in the buffer and changes
  no other byte of memory, in particular none of the file.
\<close>

theorem ramfs_read_refines:
  assumes "kernel_heap_ready s" and "file_ok s (fs_data (vfs_nodes s file))" and "user_buffer buf len"
  shows "\<exists>k s'. ramfs_read file offset buf len s = (RESOURCE_RESULT_OK, k, s') \<and>
    bytes_at (heap_data s') buf (unat k) = list_read (unat offset) (unat len) (file_data s (fs_data (vfs_nodes s file))) \<and>
    file_data s' (fs_data (vfs_nodes s file)) = file_data s (fs_data (vfs_nodes s file)) \<and>
    s' = s\<lparr>heap_data := heap_data s'\<rparr> \<and>
    (\<forall>q. unat q < unat buf \<or> unat buf + unat k \<le> unat q \<longrightarrow> heap_data s' q = heap_data s q)"
proof -
  let ?n = "fs_data (vfs_nodes s file)"
  let ?d = "ramfs_data (ramfs_nodes s ?n)" and ?k = "ramfs_data_size (ramfs_nodes s ?n)"
  show ?thesis
  proof (cases "?k \<le> offset")
    case True
    then show ?thesis by (simp add: ramfs_read_def list_read_def file_data_def bytes_at_def word_le_nat_alt)
  next
    case False
    define l where "l = (if len < ?k - offset then len else ?k - offset)"
    have lt: "unat offset < unat ?k" using False by (simp add: word_le_nat_alt)
    then have rem: "unat (?k - offset) = unat ?k - unat offset" by (simp add: unat_sub word_le_nat_alt)
    have l: "unat l = min (unat len) (unat ?k - unat offset)" using rem by (auto simp: l_def word_less_nat_alt min_def)
    have "?k \<noteq> 0" using lt by auto
    note R = file_data_range [OF assms(1,2) this]
    have o: "unat (?d + offset) = unat ?d + unat offset" using R lt by (simp add: unat_word_ariths)
    have ap: "apart_areas buf (unat l) (?d + offset) (unat l)" "apart_areas buf (unat l) ?d (unat ?k)"
      using assms(3) l R o by (auto simp: user_buffer_def apart_areas_def)
    have w: "unat buf + unat l \<le> 2 ^ 32" "unat (?d + offset) + unat l \<le> 2 ^ 32" "unat ?d + unat ?k \<le> 2 ^ 32"
      using assms(3) l R o lt by (auto simp: user_buffer_def)
    let ?m = "memcpy_loop (unat l) (heap_data s) buf (?d + offset)"
    have r: "ramfs_read file offset buf len s = (RESOURCE_RESULT_OK, l, s\<lparr>heap_data := ?m\<rparr>)"
      using False by (simp add: ramfs_read_def Let_def memcpy_def l_def)
    have "bytes_at ?m buf (unat l) = list_read (unat offset) (unat len) (file_data s ?n)"
    proof (rule nth_equalityI)
      show "length (bytes_at ?m buf (unat l)) = length (list_read (unat offset) (unat len) (file_data s ?n))"
        by (simp add: l list_read_def file_data_def)
      fix i assume "i < length (bytes_at ?m buf (unat l))"
      then have i: "i < unat l" "i < unat len" "unat offset + i < unat ?k" using l lt by auto
      then show "bytes_at ?m buf (unat l) ! i = list_read (unat offset) (unat len) (file_data s ?n) ! i"
        by (simp add: bytes_at_nth memcpy_same [OF w(1,2) ap(1)] list_read_def file_data_def add.assoc)
    qed
    moreover have "file_data (s\<lparr>heap_data := ?m\<rparr>) ?n = file_data s ?n"
      by (auto intro!: nth_equalityI simp: file_data_def bytes_at_nth memcpy_apart [OF w(1,2) ap(1,2) w(3)])
    moreover have "\<forall>q. unat q < unat buf \<or> unat buf + unat l \<le> unat q \<longrightarrow> ?m q = heap_data s q"
      using memcpy_bytes [OF w(1,2) ap(1)] by auto
    ultimately show ?thesis using r by (intro exI [of _ l] exI [of _ "s\<lparr>heap_data := ?m\<rparr>"]) simp
  qed
qed


text \<open>A write in place, into a file that is long enough.\<close>

lemma write_in_place:
  assumes s: "kernel_heap_ready s" "file_ok s n" and b: "user_buffer buf len"
    and fits: "unat offset + unat len \<le> unat (ramfs_data_size (ramfs_nodes s n))"
    and m: "m = memcpy_loop (unat len) (heap_data s) (ramfs_data (ramfs_nodes s n) + offset) buf"
  shows "file_data (s\<lparr>heap_data := m\<rparr>) n =
      take (unat offset) (file_data s n) @ bytes_at (heap_data s) buf (unat len) @ drop (unat offset + unat len) (file_data s n)"
    "\<forall>q. unat q \<notin> file_area s n \<longrightarrow> m q = heap_data s q"
proof -
  let ?d = "ramfs_data (ramfs_nodes s n)" and ?k = "ramfs_data_size (ramfs_nodes s n)"
  have both: "file_data (s\<lparr>heap_data := m\<rparr>) n =
      take (unat offset) (file_data s n) @ bytes_at (heap_data s) buf (unat len) @ drop (unat offset + unat len) (file_data s n) \<and>
    (\<forall>q. unat q \<notin> file_area s n \<longrightarrow> m q = heap_data s q)"
  proof (cases "len = 0")
    case True
    then show ?thesis using m by (simp add: file_data_def bytes_at_def)
  next
    case False
    then have l: "0 < unat len" by (simp add: unat_gt_0)
    then have "?k \<noteq> 0" using fits by auto
    note R = file_data_range [OF s this]
    have o: "unat (?d + offset) = unat ?d + unat offset" using R fits l by (simp add: unat_word_ariths)
    have w: "unat (?d + offset) + unat len \<le> 2 ^ 32" "unat buf + unat len \<le> 2 ^ 32" "apart_areas (?d + offset) (unat len) buf (unat len)"
      using R o fits b by (auto simp: user_buffer_def apart_areas_def)
    have mq: "m q = (if unat ?d + unat offset \<le> unat q \<and> unat q < unat ?d + unat offset + unat len
      then heap_data s (buf + (q - (?d + offset))) else heap_data s q)" for q
      using memcpy_bytes [OF w, of "heap_data s" q] m o by simp
    have "file_data (s\<lparr>heap_data := m\<rparr>) n =
      take (unat offset) (file_data s n) @ bytes_at (heap_data s) buf (unat len) @ drop (unat offset + unat len) (file_data s n)"
    proof (rule nth_equalityI)
      fix i assume "i < length (file_data (s\<lparr>heap_data := m\<rparr>) n)"
      then have i: "i < unat ?k" by (simp add: file_data_def)
      then have u: "unat (?d + of_nat i) = unat ?d + i" using R by (intro unat_offset) simp
      have "?d + of_nat i - (?d + offset) = of_nat (i - unat offset)" if "unat offset \<le> i"
        using that by (simp add: of_nat_diff)
      then show "file_data (s\<lparr>heap_data := m\<rparr>) n ! i = (take (unat offset) (file_data s n) @
          bytes_at (heap_data s) buf (unat len) @ drop (unat offset + unat len) (file_data s n)) ! i"
        using i fits u mq [of "?d + of_nat i"] by (auto simp: file_data_def bytes_at_nth nth_append)
    qed (use fits in \<open>simp add: file_data_def\<close>)
    moreover have "\<forall>q. unat q \<notin> file_area s n \<longrightarrow> m q = heap_data s q"
      using mq fits by (auto simp: file_area_def Let_def)
    ultimately show ?thesis by blast
  qed
  then show "file_data (s\<lparr>heap_data := m\<rparr>) n =
      take (unat offset) (file_data s n) @ bytes_at (heap_data s) buf (unat len) @ drop (unat offset + unat len) (file_data s n)"
    "\<forall>q. unat q \<notin> file_area s n \<longrightarrow> m q = heap_data s q" by blast+
qed

lemma more_fs:
  fixes s s' :: "'a kernel_fs_scheme"
  assumes "heap_machine.more s' = heap_machine.more s"
  shows "ramfs_nodes s' = ramfs_nodes s" "vfs_nodes s' = vfs_nodes s" "vfs_cache_nodes s' = vfs_cache_nodes s"
    "vfs_caches s' = vfs_caches s" "vfs_root s' = vfs_root s" "vfs_cache s' = vfs_cache s"
    "last_cache_index s' = last_cache_index s" "ramfs_last_index s' = ramfs_last_index s" "ramfs_root s' = ramfs_root s"
  using assms by (cases s; cases s'; simp)+


lemma same_heap_fs [simp]:
  "same_heap s (upd_ramfs n f s)" "same_heap s (s\<lparr>heap_data := m\<rparr>)" "same_heap s (upd_node n g s)"
  "same_heap s (upd_cache n c s)" "same_heap s (upd_cached n e s)"
  by (simp_all add: same_heap_def upd_ramfs_def upd_node_def upd_cache_def upd_cached_def)

lemmas heap_fs [simp] = same_heapD [OF same_heap_fs(1)] same_heapD [OF same_heap_fs(2)] same_heapD [OF same_heap_fs(3)]
  same_heapD [OF same_heap_fs(4)] same_heapD [OF same_heap_fs(5)]

lemma upd_ramfs_simps [simp]:
  "ramfs_nodes (upd_ramfs n f s) m = (if m = n then f (ramfs_nodes s n) else ramfs_nodes s m)"
  "heap_data (upd_ramfs n f s) = heap_data s" "vfs_nodes (upd_ramfs n f s) = vfs_nodes s"
  by (simp_all add: upd_ramfs_def)

lemma file_ok_heap_data [simp]: "file_ok (s\<lparr>heap_data := m\<rparr>) n = file_ok s n"
  by (simp add: file_ok_def file_area_def)

lemma file_ok_live: "file_ok s n \<Longrightarrow> ramfs_data (ramfs_nodes s n) \<noteq> 0 \<Longrightarrow> heap_live s (ramfs_data (ramfs_nodes s n))"
  by (simp add: file_ok_def Let_def)

text \<open>Another file keeps its bytes when its block is kept and no byte of it is written.\<close>

definition file_kept :: "'a kernel_fs_scheme \<Rightarrow> 'a kernel_fs_scheme \<Rightarrow> u32 \<Rightarrow> bool" where
  "file_kept s s' m \<longleftrightarrow> file_ok s' m \<and> file_data s' m = file_data s m \<and> ramfs_nodes s' m = ramfs_nodes s m"

text \<open>Two files with blocks of their own.\<close>

definition separate_files :: "'a kernel_fs_scheme \<Rightarrow> u32 \<Rightarrow> u32 \<Rightarrow> bool" where
  "separate_files s n m \<longleftrightarrow> m \<noteq> n \<and> file_ok s m \<and> (ramfs_data (ramfs_nodes s n) = 0 \<or> ramfs_data (ramfs_nodes s m) = 0 \<or>
     heap_extent s (ramfs_data (ramfs_nodes s n)) \<inter> heap_extent s (ramfs_data (ramfs_nodes s m)) = {})"

lemma file_kept_rule:
  assumes "file_ok s m" "kernel_heap_ready s" "ramfs_nodes s' m = ramfs_nodes s m"
    and "ramfs_data (ramfs_nodes s m) \<noteq> 0 \<Longrightarrow> heap_live s' (ramfs_data (ramfs_nodes s m)) \<and>
      heap_extent s' (ramfs_data (ramfs_nodes s m)) = heap_extent s (ramfs_data (ramfs_nodes s m))"
    and "\<And>q. ramfs_data (ramfs_nodes s m) \<noteq> 0 \<Longrightarrow> unat q \<in> heap_extent s (ramfs_data (ramfs_nodes s m)) \<Longrightarrow> heap_data s' q = heap_data s q"
  shows "file_kept s s' m"
proof -
  let ?d = "ramfs_data (ramfs_nodes s m)" and ?k = "ramfs_data_size (ramfs_nodes s m)"
  have ok: "file_ok s' m" using assms(1,3,4) by (simp add: file_ok_def file_area_def Let_def split: if_splits)
  have "heap_data s' (?d + of_nat i) = heap_data s (?d + of_nat i)" if i: "i < unat ?k" for i
  proof -
    have k0: "?k \<noteq> 0" using i by auto
    note R = file_data_range [OF assms(2,1) k0]
    have d0: "?d \<noteq> 0" using R(1) by auto
    have "unat (?d + of_nat i) = unat ?d + i" using R i by (intro unat_offset) simp
    then have "unat (?d + of_nat i) \<in> heap_extent s ?d"
      using assms(1) i d0 by (auto simp: file_ok_def file_area_def Let_def)
    then show ?thesis using assms(5) [OF d0] by blast
  qed
  then show ?thesis using ok assms(3) by (auto simp: file_kept_def file_data_def bytes_at_def)
qed

lemma grow_file_result:
  assumes s: "kernel_heap_ready s" "file_ok s n"
    and req: "unat (required :: u32) = unat offset + unat len" "heap_request_fits required" "ramfs_data_size (ramfs_nodes s n) < required"
  obtains (fail) s' where "grow_file n offset required s = Some (False, s')" "kernel_heap_ready s'" "file_kept s s' n"
      "\<forall>m. separate_files s n m \<longrightarrow> file_kept s s' m" "vfs_nodes s' = vfs_nodes s"
  | (grown) s' where "grow_file n offset required s = Some (True, s')" "kernel_heap_ready s'" "file_ok s' n"
      "ramfs_data_size (ramfs_nodes s' n) = required" "vfs_nodes s' = vfs_nodes s"
      "take (unat offset) (file_data s' n) = take (unat offset) (file_data s n) @ replicate (unat offset - length (file_data s n)) nul"
      "\<forall>m. separate_files s n m \<longrightarrow> file_kept s s' m \<and> separate_files s' n m"
      "\<forall>q. unat q < 0xF0000000 \<longrightarrow> heap_data s' q = heap_data s q"
proof -
  let ?d = "ramfs_data (ramfs_nodes s n)" and ?k = "ramfs_data_size (ramfs_nodes s n)"
  obtain r s1 where r: "kernel_heap_malloc required s = Some (r, s1)" "kernel_heap_ready s1" "others_kept s s1"
    "r \<noteq> 0 \<longrightarrow> heap_live s1 r \<and> {unat r ..< unat r + unat required} \<subseteq> heap_extent s1 r"
    "\<forall>a. heap_live s a \<longrightarrow> heap_live s1 a \<and> heap_extent s1 a = heap_extent s a \<and>
       (r \<noteq> 0 \<longrightarrow> heap_extent s a \<inter> heap_extent s1 r = {})"
    by (rule heap_malloc_client [OF s(1) req(2)])
  have "heap_machine.more s1 = heap_machine.more s" "heap_data s1 = heap_data s" using r(3) by (simp_all add: others_kept_def)
  note M = more_fs [OF this(1)] this(2)
  have keep1: "file_kept s s1 m" if "file_ok s m" for m
    using that s(1) r(5) M by (intro file_kept_rule) (auto simp: file_ok_def Let_def)
  show thesis
  proof (cases "r = 0")
    case True
    then have "grow_file n offset required s = Some (False, s1)" using r(1) by (simp add: grow_file_def)
    then show thesis using fail [of s1] r(2) keep1 s(2) M by (auto simp: separate_files_def)
  next
    case False
    define m1 where "m1 = (if ?k \<noteq> 0 then memcpy_loop (unat ?k) (heap_data s) r ?d else heap_data s)"
    define m2 where "m2 = (if ?k < offset then memset_loop (unat (offset - ?k)) m1 (r + ?k) nul else m1)"
    have R: "0xF0000000 \<le> unat r" "unat r + unat required \<le> 0xF7FFF000"
    proof -
      have "{unat r ..< unat r + unat required} \<subseteq> {0xF0000000 ..< 0xF7FFF000}"
        using r(4) False heap_live_range [OF r(2)] by fastforce
      moreover have "0 < unat required" using req(3) by (simp add: word_less_nat_alt)
      ultimately show "0xF0000000 \<le> unat r" "unat r + unat required \<le> 0xF7FFF000"
        by (auto simp: subset_iff dest: spec [of _ "unat r"] spec [of _ "unat r + unat required - 1"])
    qed
    have kr: "unat ?k < unat required" using req(3) by (simp add: word_less_nat_alt)
    have m1q: "m1 q = (if unat r \<le> unat q \<and> unat q < unat r + unat ?k then heap_data s (?d + (q - r)) else heap_data s q)" for q
    proof (cases "?k = 0")
      case k: False
      note D = file_data_range [OF s k]
      have live: "heap_live s ?d" "{unat ?d ..< unat ?d + unat ?k} \<subseteq> heap_extent s ?d"
        using s(2) k by (auto simp: file_ok_def file_area_def Let_def split: if_splits)
      have "apart_areas r (unat ?k) ?d (unat ?k)"
      proof (rule ccontr)
        assume "\<not> ?thesis"
        then have "max (unat r) (unat ?d) \<in> {unat r ..< unat r + unat required} \<inter> {unat ?d ..< unat ?d + unat ?k}"
          using kr by (auto simp: apart_areas_def)
        then show False using r(4,5) live False by blast
      qed
      then show ?thesis using memcpy_bytes [of r "unat ?k" ?d "heap_data s" q] R D kr k by (simp add: m1_def)
    qed (auto simp: m1_def)
    have rk: "unat (r + ?k) = unat r + unat ?k" using R kr by (simp add: unat_word_ariths)
    have m2q: "m2 q = (if unat r + unat ?k \<le> unat q \<and> unat q < unat r + unat offset then nul else m1 q)" for q
    proof (cases "?k < offset")
      case k: True
      then have "unat (offset - ?k) = unat offset - unat ?k" "unat ?k \<le> unat offset"
        by (simp_all add: unat_sub word_less_nat_alt word_le_nat_alt)
      then show ?thesis using k memset_bytes [of "r + ?k" "unat (offset - ?k)" m1 nul q] R rk req(1) by (simp add: m2_def)
    next
      case k: False
      then have "unat offset \<le> unat ?k" by (simp add: word_le_nat_alt not_less)
      then show ?thesis using k by (auto simp: m2_def)
    qed
    let ?s2 = "s1\<lparr>heap_data := m2\<rparr>"
    have g: "grow_file n offset required s = Option.bind (if ?d \<noteq> 0 then kernel_heap_free ?d ?s2 else Some ?s2)
      (\<lambda>s. Some (True, upd_ramfs n (\<lambda>n. n\<lparr>ramfs_data := r, ramfs_data_size := required\<rparr>) s))"
      using r(1) False by (simp add: grow_file_def M m1_def m2_def Let_def memcpy_def memset_def)
    obtain s3 where s3: "(if ?d \<noteq> 0 then kernel_heap_free ?d ?s2 else Some ?s2) = Some s3" "kernel_heap_ready s3" "others_kept ?s2 s3"
      "\<forall>b. heap_live s1 b \<and> (?d = 0 \<or> heap_extent s1 ?d \<inter> heap_extent s1 b = {}) \<longrightarrow> heap_live s3 b \<and> heap_extent s3 b = heap_extent s1 b"
    proof (cases "?d = 0")
      case True
      then show thesis using that [of ?s2] r(2) by (simp add: others_kept_def)
    next
      case d: False
      then have "heap_live ?s2 ?d" using s(2) r(5) by (auto simp: file_ok_def Let_def)
      then obtain s3 where "kernel_heap_free ?d ?s2 = Some s3" "kernel_heap_ready s3" "others_kept ?s2 s3"
        "\<forall>b. heap_live ?s2 b \<and> heap_extent ?s2 ?d \<inter> heap_extent ?s2 b = {} \<longrightarrow> heap_live s3 b \<and> heap_extent s3 b = heap_extent ?s2 b"
        using heap_free_client [of ?s2 ?d] r(2) by auto
      then show thesis using that [of s3] d by simp
    qed
    let ?s = "upd_ramfs n (\<lambda>n. n\<lparr>ramfs_data := r, ramfs_data_size := required\<rparr>) s3"
    have "heap_machine.more s3 = heap_machine.more s1" "heap_data s3 = m2" using s3(3) by (simp_all add: others_kept_def)
    note M3 = more_fs [OF this(1)] this(2)
    have below: "m2 q = heap_data s q" if "unat q \<notin> {unat r ..< unat r + unat required}" for q
      using that m2q [of q] m1q [of q] kr req(1) by auto
    have r3: "heap_live s3 r" "heap_extent s3 r = heap_extent s1 r"
    proof -
      have "?d = 0 \<or> heap_extent s1 ?d \<inter> heap_extent s1 r = {}"
        using file_ok_live [OF s(2)] r(5) False by blast
      then show "heap_live s3 r" "heap_extent s3 r = heap_extent s1 r" using s3(4) r(4) False by blast+
    qed
    have ok: "file_ok ?s n" using r3 r(4) False by (simp add: file_ok_def file_area_def)
    have first: "take (unat offset) (file_data ?s n) = take (unat offset) (file_data s n) @ replicate (unat offset - length (file_data s n)) nul"
    proof (rule nth_equalityI)
      fix i assume "i < length (take (unat offset) (file_data ?s n))"
      then have i: "i < unat offset" "i < unat required" by (simp_all add: file_data_def)
      then have "unat (r + of_nat i) = unat r + i" using R by (intro unat_offset) simp
      then have "m2 (r + of_nat i) = (if i < unat ?k then heap_data s (?d + of_nat i) else nul)"
        using m2q [of "r + of_nat i"] m1q [of "r + of_nat i"] i by auto
      then show "take (unat offset) (file_data ?s n) ! i =
          (take (unat offset) (file_data s n) @ replicate (unat offset - length (file_data s n)) nul) ! i"
        using i by (auto simp: file_data_def M3 bytes_at_nth nth_append)
    qed (use req(1) in \<open>simp add: file_data_def\<close>)
    have others: "file_kept s ?s m \<and> separate_files ?s n m" if m: "separate_files s n m" for m
    proof -
      let ?e = "ramfs_data (ramfs_nodes s m)"
      have mm: "m \<noteq> n" "file_ok s m" "?d = 0 \<or> ?e = 0 \<or> heap_extent s ?d \<inter> heap_extent s ?e = {}"
        using m by (auto simp: separate_files_def)
      have nm: "ramfs_nodes ?s m = ramfs_nodes s m" using mm(1) M M3 by simp
      have e: "heap_live s3 ?e \<and> heap_extent s3 ?e = heap_extent s ?e \<and> heap_extent s ?e \<inter> heap_extent s1 r = {}" if "?e \<noteq> 0"
      proof -
        have "heap_live s ?e" using file_ok_live [OF mm(2) that] .
        then have e1: "heap_live s1 ?e" "heap_extent s1 ?e = heap_extent s ?e" "heap_extent s ?e \<inter> heap_extent s1 r = {}"
          using r(5) False by blast+
        have "?d = 0 \<or> heap_extent s1 ?d \<inter> heap_extent s1 ?e = {}"
          using mm(3) that r(5) file_ok_live [OF s(2)] e1(2) by (cases "?d = 0") auto
        then show ?thesis using s3(4) e1 by simp
      qed
      have "file_kept s ?s m"
      proof (rule file_kept_rule [OF mm(2) s(1) nm])
        show "heap_live ?s ?e \<and> heap_extent ?s ?e = heap_extent s ?e" if "?e \<noteq> 0" using e [OF that] by simp
        fix q :: u32 assume q: "?e \<noteq> 0" "unat q \<in> heap_extent s ?e"
        then have "unat q \<notin> {unat r ..< unat r + unat required}" using e [OF q(1)] r(4) False by blast
        then show "heap_data ?s q = heap_data s q" using below M3 by simp
      qed
      moreover have "ramfs_data (ramfs_nodes ?s n) = r" by simp
      ultimately show ?thesis using mm(1) nm e r3(2) by (auto simp: separate_files_def file_kept_def)
    qed
    show thesis
    proof (rule grown [of ?s])
      show "grow_file n offset required s = Some (True, ?s)" using g s3(1) by simp
      show "\<forall>q. unat q < 0xF0000000 \<longrightarrow> heap_data ?s q = heap_data s q"
        using below R(1) M3 by simp
    qed (use s3(2) ok first others M M3 in simp_all)
  qed
qed



section \<open>A small file system\<close>

text \<open>A root directory at \<open>0x700\<close> with one empty file at \<open>0x720\<close>, and their two nodes in one cache.\<close>

definition sample_node :: "u32 \<Rightarrow> vfs_node_t" where
  "sample_node p = \<lparr>vfs_name = (if p = 0x510 then ''a'' else ''/''), mount = 0, node_operations = ramfs_node_operations,
     node_type = (if p = 0x510 then VFS_NODE_TYPE_FILE else VFS_NODE_TYPE_DIRECTORY), node_resource_type = RESOURCE_TYPE_FILE,
     fs_data = (if p = 0x510 then 0x720 else 0x700), cache_index = 0, node_index = (if p = 0x510 then 1 else 0),
     node_ref_count = 2\<rparr>"

definition sample_ramfs_node :: "u32 \<Rightarrow> ramfs_node_t" where
  "sample_ramfs_node p = \<lparr>ramfs_id = (if p = 0x720 then 1 else 0),
     ramfs_children = (if p = 0x700 then [\<lparr>dirent_block = 0x740, dirent_name = ''a'', dirent_node = 0x720\<rparr>] else []),
     ramfs_name = (if p = 0x720 then ''a'' else ''/''),
     ramfs_type = (if p = 0x720 then VFS_NODE_TYPE_FILE else VFS_NODE_TYPE_DIRECTORY), ramfs_data = 0, ramfs_data_size = 0,
     link_count = 1\<rparr>"

definition sample_fs :: kernel_fs where
  "sample_fs = kernel_keyboard.extend sample_kernel_keyboard (kernel_fs.fields sample_node
     (\<lambda>p. if p = 0x610 then \<lparr>cached_node = 0x500, cached_next = 0x618\<rparr> else \<lparr>cached_node = 0x510, cached_next = 0\<rparr>)
     (\<lambda>p. \<lparr>cache_number = 0, cache_nodes = 0x610, cache_next = 0\<rparr>) 0x500 0x600 1 sample_ramfs_node 2 0x700)"

lemma sample_fs_fields [simp]:
  "vfs_nodes sample_fs = sample_node" "ramfs_nodes sample_fs = sample_ramfs_node" "vfs_root sample_fs = 0x500"
  "vfs_cache sample_fs = 0x600" "heap_data sample_fs = (\<lambda>_. nul)"
  by (simp_all add: sample_fs_def sample_kernel_keyboard_def sample_kernel_def sample_heap_def kernel_heap_module_init_def
      kernel_keyboard.defs kernel_fs.defs kernel.defs)

lemma sample_fs_ready: "kernel_heap_ready sample_fs"
proof -
  have "kernel_heap_ready sample_heap"
    using sample_heap_ready unfolding kernel_heap_ready_def sample_heap_fields by blast
  moreover have "same_heap sample_heap sample_fs"
    by (simp add: same_heap_def sample_fs_def sample_kernel_keyboard_def sample_kernel_def kernel_keyboard.defs
        kernel_fs.defs kernel.defs sample_heap_fields)
  ultimately show ?thesis using same_heapD(1) by blast
qed

lemma sample_file_ok: "file_ok sample_fs 0x720"
  by (simp add: file_ok_def sample_ramfs_node_def)

lemma ramfs_read_refines_witness:
  "kernel_heap_ready sample_fs \<and> file_ok sample_fs (fs_data (vfs_nodes sample_fs 0x510)) \<and> user_buffer 0x8000 64 \<and>
   (\<exists>k s'. ramfs_read 0x510 0 0x8000 64 sample_fs = (RESOURCE_RESULT_OK, k, s') \<and> bytes_at (heap_data s') 0x8000 (unat k) = [])"
proof -
  have f: "file_ok sample_fs (fs_data (vfs_nodes sample_fs 0x510))" using sample_file_ok by (simp add: sample_node_def)
  have b: "user_buffer 0x8000 64" by (simp add: user_buffer_def)
  have e: "file_data sample_fs (fs_data (vfs_nodes sample_fs 0x510)) = []"
    by (simp add: file_data_def bytes_at_def sample_ramfs_node_def)
  show ?thesis using ramfs_read_refines [OF sample_fs_ready f b, of 0] sample_fs_ready f b unfolding e
    by (auto simp: list_read_def)
qed



section \<open>A directory is a finite map\<close>

definition dir_map :: "'a kernel_fs_scheme \<Rightarrow> u32 \<Rightarrow> char list \<rightharpoonup> u32" where
  "dir_map s d = map_of (map (\<lambda>e. (dirent_name e, dirent_node e)) (ramfs_children (ramfs_nodes s d)))"

definition dir_ok :: "'a kernel_fs_scheme \<Rightarrow> u32 \<Rightarrow> bool" where
  "dir_ok s d \<longleftrightarrow> distinct (map dirent_name (ramfs_children (ramfs_nodes s d))) \<and>
     length (ramfs_children (ramfs_nodes s d)) \<le> RAMFS_NODE_MAX_CHILDREN"

lemma find_entry:
  "map_of (map (\<lambda>e. (dirent_name e, dirent_node e)) es) name = map_option dirent_node (find (\<lambda>e. dirent_name e = name) es)"
  by (induction es) auto

lemma ramfs_find_child_map:
  "ramfs_find_child d name s = (case dir_map s d name of None \<Rightarrow> (RAMFS_RESULT_NOT_FOUND, 0) | Some c \<Rightarrow> (RAMFS_RESULT_OK, c))"
  by (simp add: ramfs_find_child_def dir_map_def find_entry split: option.splits)

lemma ramfs_add_child_cases:
  assumes "kernel_heap_ready s" "dir_ok s d" "dir_map s d name = None" "length name < 2 ^ 16"
  obtains (full) "ramfs_add_child d name c s = Some (RAMFS_RESULT_MAX_CHILDREN, s)"
      "length (ramfs_children (ramfs_nodes s d)) = RAMFS_NODE_MAX_CHILDREN"
  | (nomem) s' where "ramfs_add_child d name c s = Some (RAMFS_RESULT_ERROR, s')" "kernel_heap_ready s'"
      "ramfs_nodes s' = ramfs_nodes s" "vfs_nodes s' = vfs_nodes s"
  | (added) s' b where "ramfs_add_child d name c s = Some (RAMFS_RESULT_OK, s')" "kernel_heap_ready s'" "heap_live s' b"
      "ramfs_nodes s' = (ramfs_nodes s)(d := (ramfs_nodes s d)\<lparr>ramfs_children := ramfs_children (ramfs_nodes s d) @
         [\<lparr>dirent_block = b, dirent_name = name, dirent_node = c\<rparr>]\<rparr>)"
      "dir_map s' d = (dir_map s d)(name \<mapsto> c)" "dir_ok s' d" "vfs_nodes s' = vfs_nodes s"
proof (cases "length (ramfs_children (ramfs_nodes s d)) \<ge> RAMFS_NODE_MAX_CHILDREN")
  case True
  then show thesis using full assms(2) by (simp add: ramfs_add_child_def dir_ok_def)
next
  case False
  have "unat (of_nat (length name) + 1 :: u32) = length name + 1"
    using assms(4) by (simp add: unat_word_ariths unat_of_nat)
  then have fits: "heap_request_fits (of_nat (length name) + 1)"
    using assms(4) by (simp add: heap_request_fits_def word_le_nat_alt)
  obtain b s1 where b: "kernel_heap_malloc (of_nat (length name) + 1) s = Some (b, s1)" "kernel_heap_ready s1" "others_kept s s1"
    "b \<noteq> 0 \<longrightarrow> heap_live s1 b \<and> {unat b ..< unat b + unat (of_nat (length name) + 1 :: u32)} \<subseteq> heap_extent s1 b"
    by (rule heap_malloc_client [OF assms(1) fits])
  have "heap_machine.more s1 = heap_machine.more s" using b(3) by (simp add: others_kept_def)
  note M = more_fs [OF this]
  show thesis
  proof (cases "b = 0")
    case True
    then show thesis using nomem [of s1] b False M by (simp add: ramfs_add_child_def)
  next
    case b0: False
    let ?e = "\<lparr>dirent_block = b, dirent_name = name, dirent_node = c\<rparr>"
    let ?s = "upd_ramfs d (\<lambda>n. n\<lparr>ramfs_children := ramfs_children n @ [?e]\<rparr>) s1"
    have fresh: "name \<notin> dirent_name ` set (ramfs_children (ramfs_nodes s d))"
      using assms(3) by (auto simp: dir_map_def map_of_eq_None_iff image_image)
    then have "dir_map ?s d = (dir_map s d)(name \<mapsto> c)"
      using assms(3) by (auto simp: dir_map_def M map_add_def fun_eq_iff split: option.splits)
    moreover have "dir_ok ?s d" using fresh assms(2) False M by (auto simp: dir_ok_def)
    moreover have "ramfs_nodes ?s = (ramfs_nodes s)(d := (ramfs_nodes s d)\<lparr>ramfs_children := ramfs_children (ramfs_nodes s d) @ [?e]\<rparr>)"
      by (auto simp: M fun_eq_iff)
    ultimately show thesis using added [of ?s b] b b0 False M by (simp add: ramfs_add_child_def)
  qed
qed

lemma position_last: "\<forall>x \<in> set xs. \<not> P x \<Longrightarrow> P y \<Longrightarrow> position P (xs @ [y]) = Some (length xs)"
  by (induction xs) auto

lemma remove_entry_last: "remove_entry (length xs) (xs @ [y]) = xs"
  by (simp add: remove_entry_def)

text \<open>
  (C24) A hard link: the name must be new and the directory must have room for it. Then the directory
  maps the new name to the file, all other names as before, and the file counts one more link; the
  file is also found by the new name. Removing the link gives back the directory and the count, and
  the file is kept. A link to a name in use is refused and changes nothing.
\<close>

theorem ramfs_link_unlink_roundtrip:
  assumes "kernel_heap_ready s" and "dir_ok s d" and "length name < 2 ^ 16"
    and "fs_data (vfs_nodes s directory) = d" and "fs_data (vfs_nodes s target) = t" and "t \<noteq> 0" and "t \<noteq> d"
    and "ramfs_type (ramfs_nodes s t) = VFS_NODE_TYPE_FILE" and "0 < link_count (ramfs_nodes s t)"
    and "link_count (ramfs_nodes s t) + 1 \<noteq> 0"
  shows "\<exists>r s'. ramfs_link directory name target s = Some (r, s') \<and>
    (if dir_map s d name \<noteq> None then r = RESOURCE_RESULT_ALREADY_PRESENT \<and> s' = s
     else if r = RESOURCE_RESULT_OK
     then dir_map s' d = (dir_map s d)(name \<mapsto> t) \<and> dir_ok s' d \<and>
       link_count (ramfs_nodes s' t) = link_count (ramfs_nodes s t) + 1 \<and>
       (\<exists>s''. ramfs_unlink directory name s' = Some (RESOURCE_RESULT_OK, s'') \<and> kernel_heap_ready s'' \<and>
          ramfs_nodes s'' = ramfs_nodes s)
     else r = RESOURCE_RESULT_ALLOCATION_ERROR \<and> ramfs_nodes s' = ramfs_nodes s)"
proof (cases "dir_map s d name")
  case (Some c)
  then show ?thesis using assms(4) by (simp add: ramfs_link_def ramfs_find_child_map)
next
  case None
  have link: "ramfs_link directory name target s = Option.bind (ramfs_add_child d name t s) (\<lambda>(result, s).
      if result \<noteq> RAMFS_RESULT_OK then Some (RESOURCE_RESULT_ALLOCATION_ERROR, s)
      else Some (RESOURCE_RESULT_OK, upd_ramfs t (\<lambda>n. n\<lparr>link_count := link_count n + 1\<rparr>) s))"
    using assms(4,5) None by (simp add: ramfs_link_def ramfs_find_child_map)
  from assms(1,2) None assms(3) show ?thesis
  proof (cases rule: ramfs_add_child_cases [where c = t])
    case full
    then show ?thesis using link None by simp
  next
    case (nomem s')
    then show ?thesis using link None by simp
  next
    case (added s1 b)
    let ?n = "\<lambda>n. n\<lparr>link_count := link_count n + 1\<rparr>"
    let ?s = "upd_ramfs t ?n s1"
    let ?es = "ramfs_children (ramfs_nodes s d)"
    let ?e = "\<lparr>dirent_block = b, dirent_name = name, dirent_node = t\<rparr>"
    have l: "ramfs_link directory name target s = Some (RESOURCE_RESULT_OK, ?s)" using link added(1) by simp
    have nt: "ramfs_nodes s1 t = ramfs_nodes s t" using added(4) assms(7) by simp
    have d: "dir_map ?s d = (dir_map s d)(name \<mapsto> t)" "dir_ok ?s d"
      using added(5,6) assms(7) by (simp_all add: dir_map_def dir_ok_def)
    have es: "ramfs_children (ramfs_nodes ?s d) = ?es @ [?e]" using added(4) assms(7) by simp
    have "\<forall>x \<in> set ?es. dirent_name x \<noteq> name" using None by (auto simp: dir_map_def map_of_eq_None_iff image_image)
    then have p: "position (\<lambda>e. dirent_name e = name) (?es @ [?e]) = Some (length ?es)" by (intro position_last) auto
    obtain s2 where s2: "kernel_heap_free b ?s = Some s2" "kernel_heap_ready s2" "others_kept ?s s2"
      by (rule heap_free_client [of ?s b]) (use added(2,3) in auto)
    have "heap_machine.more s2 = heap_machine.more ?s" using s2(3) by (simp add: others_kept_def)
    note M = more_fs [OF this]
    let ?s3 = "upd_ramfs d (\<lambda>n. n\<lparr>ramfs_children := ?es\<rparr>) s2"
    let ?s4 = "upd_ramfs t (\<lambda>n. n\<lparr>link_count := link_count n - 1\<rparr>) ?s3"
    have lc: "link_count (ramfs_nodes ?s4 t) = link_count (ramfs_nodes s t)" using assms(7) nt M by simp
    have "ramfs_unlink directory name ?s = Some (RESOURCE_RESULT_OK, ?s4)"
      using s2(1) p es assms(4,6,7,8,9) added(7) nt lc M
      by (simp add: ramfs_unlink_def Let_def remove_entry_last word_gt_0)
    moreover have "ramfs_nodes ?s4 = ramfs_nodes s"
      using assms(7) nt M added(4) by (auto simp: fun_eq_iff)
    ultimately show ?thesis using l None d nt s2(2) by auto
  qed
qed

lemma ramfs_link_unlink_roundtrip_witness:
  "\<exists>r s'. ramfs_link 0x500 ''b'' 0x510 sample_fs = Some (r, s') \<and>
    (r = RESOURCE_RESULT_OK \<longrightarrow> dir_map s' 0x700 ''b'' = Some 0x720 \<and> dir_map s' 0x700 ''a'' = Some 0x720 \<and>
       (\<exists>s''. ramfs_unlink 0x500 ''b'' s' = Some (RESOURCE_RESULT_OK, s'') \<and> ramfs_nodes s'' = sample_ramfs_node))"
proof -
  have d: "dir_ok sample_fs 0x700" by (simp add: dir_ok_def sample_ramfs_node_def RAMFS_NODE_MAX_CHILDREN_def)
  have m: "dir_map sample_fs 0x700 = [''a'' \<mapsto> 0x720]" by (simp add: dir_map_def sample_ramfs_node_def)
  have h: "length ''b'' < 2 ^ 16" "fs_data (vfs_nodes sample_fs 0x500) = 0x700" "fs_data (vfs_nodes sample_fs 0x510) = 0x720"
    "(0x720 :: u32) \<noteq> 0" "(0x720 :: u32) \<noteq> 0x700" "ramfs_type (ramfs_nodes sample_fs 0x720) = VFS_NODE_TYPE_FILE"
    "0 < link_count (ramfs_nodes sample_fs 0x720)" "link_count (ramfs_nodes sample_fs 0x720) + 1 \<noteq> 0"
    by (simp_all add: sample_node_def sample_ramfs_node_def)
  show ?thesis
    using ramfs_link_unlink_roundtrip [OF sample_fs_ready d h] by (auto simp: m split: if_splits)
qed

end
