(* ===== verification/Resources.thy ===== *)
theory Resources
  imports Keyboard
begin

text \<open>
  Open resources, \<^verbatim>\<open>src/resource.c\<close>: each task has a table of 512 slots that point to resources, and a
  resource counts the slots that point to it. The function that closes a resource is reached through
  its table of operations; it is the parameter \<open>close\<close> of the model, given with the virtual file
  system.
\<close>

section \<open>Operations\<close>

definition sizeof_resource_t :: u32 where "sizeof_resource_t = 36"

definition upd_resource :: "u32 \<Rightarrow> (resource_t \<Rightarrow> resource_t) \<Rightarrow> 'a kernel_scheme \<Rightarrow> 'a kernel_scheme" where
  "upd_resource p f s = s\<lparr>resource_store := (resource_store s)(p := f (resource_store s p))\<rparr>"

definition set_slot :: "u32 \<Rightarrow> u32 \<Rightarrow> u32 \<Rightarrow> 'a kernel_scheme \<Rightarrow> 'a kernel_scheme" where
  "set_slot task i p = upd_task task (\<lambda>t. t\<lparr>resources := (resources t)(i := p)\<rparr>)"

definition free_slot :: "u32 \<Rightarrow> 'a kernel_scheme \<Rightarrow> u32 option" where
  "free_slot task s = find (\<lambda>i. resources (tasks s task) i = 0) (indices (unat TASK_MAX_RESOURCES))"

text \<open>The new resource is used without a test for \<^verbatim>\<open>NULL\<close>: no memory is a fault.\<close>

definition resource_register ::
    "u32 \<Rightarrow> resource_type_t \<Rightarrow> u32 \<Rightarrow> resource_operations_t option \<Rightarrow> u32 \<Rightarrow> 'a kernel_scheme \<Rightarrow>
      (resource_result_t \<times> u32 \<times> 'a kernel_scheme) option" where
  "resource_register task kind data ops flags s =
     (case ops of None \<Rightarrow> Some (RESOURCE_RESULT_BAD_PARAMETER, 0, s)
      | Some ops \<Rightarrow>
          if task = 0 then Some (RESOURCE_RESULT_BAD_PARAMETER, 0, s)
          else case free_slot task s of None \<Rightarrow> Some (RESOURCE_RESULT_NO_FREE_SLOTS, 0, s)
             | Some free_index \<Rightarrow> do {
                 (resource, s) \<leftarrow> kernel_heap_calloc sizeof_resource_t s;
                 if resource = 0 then None
                 else Some (RESOURCE_RESULT_OK, free_index, set_slot task free_index resource
                   (s\<lparr>resource_store := (resource_store s)(resource := \<lparr>resource_type = kind, resource_data = data,
                     operations = ops, ref_count = 1, resource_offset = 0, resource_flags = flags\<rparr>)\<rparr>))
               })"

definition resource_remove ::
    "(u32 \<Rightarrow> 'a kernel_scheme \<Rightarrow> (resource_result_t \<times> 'a kernel_scheme) option) \<Rightarrow> u32 \<Rightarrow> u32 \<Rightarrow> 'a kernel_scheme \<Rightarrow>
      (resource_result_t \<times> 'a kernel_scheme) option" where
  "resource_remove close task index s =
     (if task = 0 \<or> index \<ge> TASK_MAX_RESOURCES then Some (RESOURCE_RESULT_BAD_PARAMETER, s)
      else let resource = resources (tasks s task) index in
        if resource = 0 then Some (RESOURCE_RESULT_OK, s)
        else let s = upd_resource resource (\<lambda>r. r\<lparr>ref_count := ref_count r - 1\<rparr>) s in do {
          s \<leftarrow> (if ref_count (resource_store s resource) = 0
                then do {
                  s \<leftarrow> (if op_close (operations (resource_store s resource)) \<noteq> 0
                        then map_option snd (close resource s) else Some s);
                  kernel_heap_free resource s
                }
                else Some s);
          Some (RESOURCE_RESULT_OK, set_slot task index 0 s)
        })"

text \<open>The result of \<^verbatim>\<open>resource_share\<close> is never set, and no caller uses it.\<close>

definition resource_share :: "u32 \<Rightarrow> u32 \<Rightarrow> u32 \<Rightarrow> 'a kernel_scheme \<Rightarrow> 'a kernel_scheme option" where
  "resource_share child index resource s =
     (if index \<ge> TASK_MAX_RESOURCES then None
      else Some (set_slot child index resource (upd_resource resource (\<lambda>r. r\<lparr>ref_count := ref_count r + 1\<rparr>) s)))"

section \<open>Reference counts\<close>

definition slots :: "'a kernel_scheme \<Rightarrow> u32 set \<Rightarrow> u32 \<Rightarrow> (u32 \<times> u32) set" where
  "slots s T p = {(t, i). t \<in> T \<and> i < TASK_MAX_RESOURCES \<and> resources (tasks s t) i = p}"

text \<open>The count of every resource in use is the number of slots that point to it.\<close>

definition counts_ok :: "'a kernel_scheme \<Rightarrow> u32 set \<Rightarrow> bool" where
  "counts_ok s T \<longleftrightarrow> (\<forall>p. p \<noteq> 0 \<and> slots s T p \<noteq> {} \<longrightarrow> unat (ref_count (resource_store s p)) = card (slots s T p))"

lemma slots_finite [simp]: "finite (slots s T p)"
  by (rule finite_subset [of _ UNIV]) simp_all

lemma set_slot_resources [simp]:
  "resources (tasks (set_slot t i p s) u) j = (if u = t \<and> j = i then p else resources (tasks s u) j)"
  "resource_store (set_slot t i p s) = resource_store s"
  by (simp_all add: set_slot_def upd_task_def)

lemma upd_resource_simps [simp]:
  "tasks (upd_resource p f s) = tasks s"
  "resource_store (upd_resource p f s) q = (if q = p then f (resource_store s p) else resource_store s q)"
  by (simp_all add: upd_resource_def)

lemma slots_upd_resource [simp]: "slots (upd_resource p f s) T q = slots s T q"
  by (simp add: slots_def)

lemma slots_set:
  assumes "t \<in> T" "i < TASK_MAX_RESOURCES"
  shows "slots (set_slot t i p s) T q = (if q = p then insert (t, i) (slots s T q) else slots s T q - {(t, i)})"
  using assms by (auto simp: slots_def)

lemma free_slot_Some: "free_slot t s = Some i \<Longrightarrow> i < TASK_MAX_RESOURCES \<and> resources (tasks s t) i = 0"
proof -
  assume "free_slot t s = Some i"
  then have r: "resources (tasks s t) i = 0" and "i \<in> set (indices (unat TASK_MAX_RESOURCES))"
    unfolding free_slot_def by (auto simp: find_Some_iff)
  then obtain k where "i = of_nat k" "k < 512" by (auto simp: indices_def TASK_MAX_RESOURCES_def)
  then show ?thesis using r by (simp add: TASK_MAX_RESOURCES_def word_less_nat_alt unat_of_nat)
qed

lemma free_slot_None: "free_slot t s = None \<longleftrightarrow> (\<forall>i<TASK_MAX_RESOURCES. resources (tasks s t) i \<noteq> 0)"
proof -
  have "i \<in> set (indices (unat TASK_MAX_RESOURCES)) \<longleftrightarrow> i < TASK_MAX_RESOURCES" for i
  proof
    assume "i \<in> set (indices (unat TASK_MAX_RESOURCES))"
    then show "i < TASK_MAX_RESOURCES" by (auto simp: indices_def TASK_MAX_RESOURCES_def word_less_nat_alt unat_of_nat)
  next
    assume "i < TASK_MAX_RESOURCES"
    then have "unat i < 512" "i = of_nat (unat i)" by (simp_all add: TASK_MAX_RESOURCES_def word_less_nat_alt)
    then show "i \<in> set (indices (unat TASK_MAX_RESOURCES))"
      by (auto simp: indices_def TASK_MAX_RESOURCES_def intro: image_eqI [of _ _ "unat i"])
  qed
  then show ?thesis unfolding free_slot_def by (auto simp: find_None_iff)
qed


definition TASK_LIMIT :: nat where "TASK_LIMIT = 2 ^ 23"

definition in_use :: "'a kernel_scheme \<Rightarrow> u32 set \<Rightarrow> u32 \<Rightarrow> bool" where
  "in_use s T p \<longleftrightarrow> p \<noteq> 0 \<and> slots s T p \<noteq> {}"

text \<open>
  The invariant: the heap is in order, every resource in a slot is a block of the heap, no two share
  bytes, and its count is exact. A task takes 2400 bytes, so there are fewer than \<^verbatim>\<open>2\<^sup>2\<^sup>3\<close> of them.
\<close>

definition resources_ok :: "'a kernel_scheme \<Rightarrow> u32 set \<Rightarrow> bool" where
  "resources_ok s T \<longleftrightarrow> kernel_heap_ready s \<and> card T < TASK_LIMIT \<and> counts_ok s T \<and>
     (\<forall>p. in_use s T p \<longrightarrow> heap_live s p) \<and>
     (\<forall>p q. in_use s T p \<and> in_use s T q \<and> p \<noteq> q \<longrightarrow> heap_extent s p \<inter> heap_extent s q = {})"

lemma slots_bound: "card T < TASK_LIMIT \<Longrightarrow> card (slots s T p) < 2 ^ 32"
proof -
  assume "card T < TASK_LIMIT"
  have "slots s T p \<subseteq> T \<times> {i. i < TASK_MAX_RESOURCES}" by (auto simp: slots_def)
  then have "card (slots s T p) \<le> card T * card {i. i < TASK_MAX_RESOURCES}"
    using card_mono [of "T \<times> {i. i < TASK_MAX_RESOURCES}"] by (simp add: card_cartesian_product)
  also have "card {i. i < TASK_MAX_RESOURCES} = card (unat ` {i. i < TASK_MAX_RESOURCES})"
    by (rule card_image [symmetric]) (simp add: inj_on_def word_unat_eq_iff)
  also have "card T * card (unat ` {i. i < TASK_MAX_RESOURCES}) \<le> card T * 512"
    using card_mono [of "{..<512}" "unat ` {i. i < TASK_MAX_RESOURCES}"]
    by (auto simp: TASK_MAX_RESOURCES_def word_less_nat_alt)
  also have "\<dots> < 2 ^ 32" using \<open>card T < TASK_LIMIT\<close> by (simp add: TASK_LIMIT_def)
  finally show ?thesis .
qed

lemma resources_okD:
  assumes "resources_ok s T"
  shows "kernel_heap_ready s" "card (slots s T p) < 2 ^ 32"
    "in_use s T p \<Longrightarrow> heap_live s p" "in_use s T p \<Longrightarrow> unat (ref_count (resource_store s p)) = card (slots s T p)"
    "in_use s T p \<Longrightarrow> in_use s T q \<Longrightarrow> p \<noteq> q \<Longrightarrow> heap_extent s p \<inter> heap_extent s q = {}"
  using assms slots_bound [of T s p] by (auto simp: resources_ok_def counts_ok_def in_use_def)

lemma more_kernel:
  fixes s s' :: "'a kernel_scheme"
  assumes "heap_machine.more s' = heap_machine.more s"
  shows "tasks s' = tasks s" "resource_store s' = resource_store s"
  using assms by (cases s; cases s'; simp)+

lemma same_heap_tasks [simp]:
  "same_heap s (set_slot t i p s)" "same_heap s (upd_resource p f s)" "same_heap s (s\<lparr>resource_store := R\<rparr>)"
  by (simp_all add: same_heap_def set_slot_def upd_task_def upd_resource_def)

lemma slots_cong: "tasks s' = tasks s \<Longrightarrow> slots s' T p = slots s T p"
  by (simp add: slots_def)


text \<open>A state in which one more slot, so far empty, points to a resource that is new or already counted.\<close>

lemma resources_ok_point:
  assumes ok: "resources_ok s T" and t: "t \<in> T" "i < TASK_MAX_RESOURCES" "resources (tasks s t) i = 0"
    and s': "kernel_heap_ready s'" "\<And>u j. resources (tasks s' u) j = (if u = t \<and> j = i then p else resources (tasks s u) j)"
    and count: "p \<noteq> 0" "unat (ref_count (resource_store s' p)) = Suc (card (slots s T p))"
    and others: "\<And>q. q \<noteq> p \<Longrightarrow> resource_store s' q = resource_store s q"
    and heap: "heap_live s' p" "\<And>q. in_use s T q \<Longrightarrow> heap_live s' q \<and> heap_extent s' q = heap_extent s q"
    and apart: "\<And>q. in_use s T q \<Longrightarrow> q \<noteq> p \<Longrightarrow> heap_extent s q \<inter> heap_extent s' p = {}"
  shows "resources_ok s' T"
proof -
  have sl: "slots s' T q = (if q = p then insert (t, i) (slots s T q) else slots s T q)" if "q \<noteq> 0" for q
    using s'(2) t that by (auto simp: slots_def)
  have new: "(t, i) \<notin> slots s T p" using t(3) count(1) by (simp add: slots_def)
  have use: "q = p \<or> in_use s T q" if "in_use s' T q" for q
    using that sl [of q] by (auto simp: in_use_def split: if_splits)
  have "counts_ok s' T"
    unfolding counts_ok_def
  proof (intro allI impI, elim conjE)
    fix q assume q: "q \<noteq> 0" "slots s' T q \<noteq> {}"
    show "unat (ref_count (resource_store s' q)) = card (slots s' T q)"
    proof (cases "q = p")
      case True
      then show ?thesis using sl [OF q(1)] new count(2) by simp
    next
      case False
      then show ?thesis using sl [OF q(1)] q others resources_okD(4) [OF ok, of q] by (simp add: in_use_def)
    qed
  qed
  moreover have "heap_live s' q" if "in_use s' T q" for q using use [OF that] heap by blast
  moreover have "heap_extent s' q \<inter> heap_extent s' r = {}" if "in_use s' T q" "in_use s' T r" "q \<noteq> r" for q r
    using use [OF that(1)] use [OF that(2)] that(3) heap(2) apart resources_okD(5) [OF ok, of q r] by blast
  ultimately show ?thesis using ok s'(1) by (simp add: resources_ok_def)
qed

lemma resource_register_keeps:
  assumes ok: "resources_ok s T" and task: "task \<in> T" "task \<noteq> 0"
  obtains (full) "resource_register task kind data (Some ops) flags s = Some (RESOURCE_RESULT_NO_FREE_SLOTS, 0, s)"
      "\<forall>i<TASK_MAX_RESOURCES. resources (tasks s task) i \<noteq> 0"
  | (nomem) "resource_register task kind data (Some ops) flags s = None"
      "\<exists>s'. kernel_heap_calloc sizeof_resource_t s = Some (0, s')"
  | (registered) i r s' where "resource_register task kind data (Some ops) flags s = Some (RESOURCE_RESULT_OK, i, s')"
      "i < TASK_MAX_RESOURCES" "resources (tasks s task) i = 0" "r \<noteq> 0" "slots s T r = {}"
      "tasks s' = (tasks s)(task := (tasks s task)\<lparr>resources := (resources (tasks s task))(i := r)\<rparr>)"
      "resource_store s' = (resource_store s)(r := \<lparr>resource_type = kind, resource_data = data,
         operations = ops, ref_count = 1, resource_offset = 0, resource_flags = flags\<rparr>)" "resources_ok s' T"
proof (cases "free_slot task s")
  case None
  then have "resource_register task kind data (Some ops) flags s = Some (RESOURCE_RESULT_NO_FREE_SLOTS, 0, s)"
    using task(2) by (simp add: resource_register_def)
  then show thesis using full None free_slot_None by blast
next
  case (Some i)
  note i = free_slot_Some [OF Some]
  have "heap_request_fits sizeof_resource_t" by (simp add: heap_request_fits_def sizeof_resource_t_def)
  with resources_okD(1) [OF ok] show thesis
  proof (cases rule: heap_calloc_client)
    case (1 r s1)
    note M = more_kernel [OF 1(3)]
    show thesis
    proof (cases "r = 0")
      case True
      then show thesis using nomem 1(1) Some task(2) by (auto simp: resource_register_def)
    next
      case False
      let ?r = "\<lparr>resource_type = kind, resource_data = data, operations = ops, ref_count = 1, resource_offset = 0,
        resource_flags = flags\<rparr>"
      let ?s1 = "s1\<lparr>resource_store := (resource_store s1)(r := ?r)\<rparr>"
      let ?s = "set_slot task i r ?s1"
      have h: "same_heap s1 ?s" using same_heap_tasks(1) [of ?s1] by (simp add: same_heap_def)
      note H = same_heapD [OF h]
      have new: "slots s T r = {}"
      proof (rule ccontr)
        assume "slots s T r \<noteq> {}"
        then have "heap_live s r" using resources_okD(3) [OF ok] False by (simp add: in_use_def)
        then show False using 1(6) False by (auto simp: sizeof_resource_t_def)
      qed
      have "resources_ok ?s T"
      proof (rule resources_ok_point [OF ok task(1) _ _ _ _ False])
        show "resources (tasks ?s u) j = (if u = task \<and> j = i then r else resources (tasks s u) j)" for u j using M by simp
        show "unat (ref_count (resource_store ?s r)) = Suc (card (slots s T r))" using new by simp
        show "heap_live ?s q \<and> heap_extent ?s q = heap_extent s q" if "in_use s T q" for q
          using resources_okD(3) [OF ok that] 1(6) H by auto
        show "heap_extent s q \<inter> heap_extent ?s r = {}" if "in_use s T q" "q \<noteq> r" for q
          using resources_okD(3) [OF ok that(1)] 1(6) H False by auto
      qed (use i M H 1(2,5) False in auto)
      moreover have "tasks ?s = (tasks s)(task := (tasks s task)\<lparr>resources := (resources (tasks s task))(i := r)\<rparr>)"
        "resource_store ?s = (resource_store s)(r := ?r)" using M by (simp_all add: set_slot_def upd_task_def)
      moreover have "resource_register task kind data (Some ops) flags s = Some (RESOURCE_RESULT_OK, i, ?s)"
        using Some 1(1) False task(2) by (simp add: resource_register_def)
      ultimately show thesis using registered i False new by blast
    qed
  qed
qed

lemma resource_share_keeps:
  assumes ok: "resources_ok s T" and t: "t \<in> T" "i < TASK_MAX_RESOURCES" "resources (tasks s t) i = 0" and p: "in_use s T p"
  obtains s' where "resource_share t i p s = Some s'" "resources_ok s' T"
    "tasks s' = (tasks s)(t := (tasks s t)\<lparr>resources := (resources (tasks s t))(i := p)\<rparr>)"
    "resource_store s' = (resource_store s)(p := (resource_store s p)\<lparr>ref_count := ref_count (resource_store s p) + 1\<rparr>)"
proof -
  let ?s1 = "upd_resource p (\<lambda>r. r\<lparr>ref_count := ref_count r + 1\<rparr>) s"
  let ?s = "set_slot t i p ?s1"
  have h: "same_heap s ?s" using same_heap_tasks(1) [of ?s1] by (simp add: same_heap_def upd_resource_def)
  note H = same_heapD [OF h]
  have new: "(t, i) \<notin> slots s T p" using t(3) p by (auto simp: slots_def in_use_def)
  have "slots s T p \<subseteq> slots ?s T p" "(t, i) \<in> slots ?s T p" using t p by (auto simp: slots_def)
  then have "card (insert (t, i) (slots s T p)) \<le> card (slots ?s T p)" by (intro card_mono) auto
  then have "Suc (card (slots s T p)) < 2 ^ 32"
    using new ok slots_bound [of T ?s p] by (simp add: resources_ok_def)
  then have c: "unat (ref_count (resource_store s p) + 1) = Suc (card (slots s T p))"
    using resources_okD(4) [OF ok p] by (simp add: unat_word_ariths)
  have "resources_ok ?s T"
  proof (rule resources_ok_point [OF ok t])
    show "resources (tasks ?s u) j = (if u = t \<and> j = i then p else resources (tasks s u) j)" for u j by simp
  qed (use p c H resources_okD(1,3,5) [OF ok] in \<open>auto simp: in_use_def\<close>)
  then show thesis using that [of ?s] t by (simp add: resource_share_def set_slot_def upd_resource_def upd_task_def)
qed


text \<open>What closing must keep: it returns and leaves the tables, the resources and their blocks alone.\<close>

definition close_keeps ::
    "(u32 \<Rightarrow> 'a kernel_scheme \<Rightarrow> (resource_result_t \<times> 'a kernel_scheme) option) \<Rightarrow> u32 set \<Rightarrow> u32 \<Rightarrow> 'a kernel_scheme \<Rightarrow> bool" where
  "close_keeps close T p s \<longleftrightarrow> (\<exists>r s'. close p s = Some (r, s') \<and> kernel_heap_ready s' \<and> tasks s' = tasks s \<and>
     resource_store s' = resource_store s \<and>
     (\<forall>q. in_use s T q \<longrightarrow> heap_live s' q \<and> heap_extent s' q = heap_extent s q))"

lemma resources_ok_unpoint:
  assumes ok: "resources_ok s T" and t: "t \<in> T" "i < TASK_MAX_RESOURCES" "resources (tasks s t) i = p" "p \<noteq> 0"
    and s': "kernel_heap_ready s'" "\<And>u j. resources (tasks s' u) j = (if u = t \<and> j = i then 0 else resources (tasks s u) j)"
    and count: "unat (ref_count (resource_store s' p)) = card (slots s T p) - 1"
    and others: "\<And>q. q \<noteq> p \<Longrightarrow> resource_store s' q = resource_store s q"
    and heap: "\<And>q. in_use s' T q \<Longrightarrow> heap_live s' q \<and> heap_extent s' q = heap_extent s q"
  shows "resources_ok s' T \<and> slots s' T p = slots s T p - {(t, i)}"
proof -
  have sl: "slots s' T q = (if q = p then slots s T q - {(t, i)} else slots s T q)" if "q \<noteq> 0" for q
    using s'(2) t that by (auto simp: slots_def)
  then have "slots s' T p = slots s T p - {(t, i)}" using t(4) by simp
  moreover have was: "(t, i) \<in> slots s T p" using t by (simp add: slots_def)
  have use: "in_use s T q" if "in_use s' T q" for q
    using that sl [of q] by (auto simp: in_use_def split: if_splits)
  have "counts_ok s' T"
    unfolding counts_ok_def
  proof (intro allI impI, elim conjE)
    fix q assume q: "q \<noteq> 0" "slots s' T q \<noteq> {}"
    show "unat (ref_count (resource_store s' q)) = card (slots s' T q)"
    proof (cases "q = p")
      case True
      then show ?thesis using sl [OF q(1)] was count by simp
    next
      case False
      then show ?thesis using sl [OF q(1)] q others resources_okD(4) [OF ok, of q] by (simp add: in_use_def)
    qed
  qed
  then have "resources_ok s' T"
    using ok s'(1) use heap resources_okD(5) [OF ok] by (simp add: resources_ok_def)
  ultimately show ?thesis by blast
qed

lemma resource_remove_keeps:
  assumes ok: "resources_ok s T" and t: "task \<in> T" "task \<noteq> 0" "index < TASK_MAX_RESOURCES"
    and p: "resources (tasks s task) index = p" "p \<noteq> 0"
    and dec: "s0 = upd_resource p (\<lambda>r. r\<lparr>ref_count := ref_count r - 1\<rparr>) s"
    and close: "slots s T p = {(task, index)} \<and> op_close (operations (resource_store s p)) \<noteq> 0 \<longrightarrow> close_keeps close T p s0"
  obtains s1 s' where "resource_remove close task index s = Some (RESOURCE_RESULT_OK, s')" "resources_ok s' T"
    "slots s' T p = slots s T p - {(task, index)}" "s' = set_slot task index 0 s1"
    "if slots s T p \<noteq> {(task, index)} then s1 = s0
     else \<exists>s2. kernel_heap_free p s2 = Some s1 \<and>
       (if op_close (operations (resource_store s p)) = 0 then s2 = s0 else \<exists>r. close p s0 = Some (r, s2))"
proof -
  have u: "in_use s T p" using t p by (auto simp: in_use_def slots_def)
  have was: "(task, index) \<in> slots s T p" using t p by (simp add: slots_def)
  have c: "unat (ref_count (resource_store s p)) = card (slots s T p)" using resources_okD(4) [OF ok u] .
  then have pos: "0 < unat (ref_count (resource_store s p))" using was card_gt_0_iff [of "slots s T p"] by auto
  then have c0: "unat (ref_count (resource_store s0 p)) = card (slots s T p) - 1"
    using c by (simp add: dec unat_sub word_le_nat_alt)
  have one: "ref_count (resource_store s0 p) = 0 \<longleftrightarrow> slots s T p = {(task, index)}"
  proof -
    have "ref_count (resource_store s0 p) = 0 \<longleftrightarrow> card (slots s T p) = 1"
      using c0 pos c by (simp add: word_unat_eq_iff) linarith
    also have "\<dots> \<longleftrightarrow> slots s T p = {(task, index)}" using was by (auto simp: card_1_singleton_iff)
    finally show ?thesis .
  qed
  have h0: "same_heap s s0" by (simp add: dec)
  note H0 = same_heapD [OF h0]
  show thesis
  proof (cases "slots s T p = {(task, index)}")
    case False
    let ?s = "set_slot task index 0 s0"
    note H = same_heapD [OF same_heap_tasks(1) [of s0 task index 0]]
    have "resources_ok ?s T \<and> slots ?s T p = slots s T p - {(task, index)}"
    proof (rule resources_ok_unpoint [OF ok t(1,3) p])
      show "heap_live ?s q \<and> heap_extent ?s q = heap_extent s q" if "in_use ?s T q" for q
      proof -
        have "in_use s T q" using that by (auto simp: in_use_def slots_def dec split: if_splits)
        then show ?thesis using H H0 resources_okD(3) [OF ok] by simp
      qed
    qed (use c0 resources_okD(1) [OF ok] H H0 in \<open>auto simp: dec\<close>)
    moreover have "resource_remove close task index s = Some (RESOURCE_RESULT_OK, ?s)"
      using False one t p by (simp add: resource_remove_def Let_def flip: dec)
    ultimately show thesis using that False by simp
  next
    case True
    define s2 where "s2 = (if op_close (operations (resource_store s p)) = 0 then s0 else snd (the (close p s0)))"
    have u0: "in_use s0 T q \<longleftrightarrow> in_use s T q" for q by (simp add: dec in_use_def)
    have k: "kernel_heap_ready s2 \<and> tasks s2 = tasks s0 \<and> resource_store s2 = resource_store s0 \<and>
        (\<forall>q. in_use s T q \<longrightarrow> heap_live s2 q \<and> heap_extent s2 q = heap_extent s q)"
      "op_close (operations (resource_store s p)) \<noteq> 0 \<longrightarrow> (\<exists>r. close p s0 = Some (r, s2))"
      using close True resources_okD(1,3) [OF ok] H0 u0 by (auto simp: s2_def close_keeps_def)
    have c2: "(if op_close (operations (resource_store s0 p)) \<noteq> 0 then map_option snd (close p s0) else Some s0) = Some s2"
      using k(2) by (auto simp: dec s2_def)
    have "kernel_heap_ready s2" "heap_live s2 p" using k(1) u by blast+
    then show thesis
    proof (cases rule: heap_free_client)
      case (1 s1)
      have M: "tasks s1 = tasks s" "resource_store s1 = resource_store s0"
        using more_kernel [of s1 s2] 1(3) k(1) by (simp_all add: others_kept_def dec)
      let ?s = "set_slot task index 0 s1"
      note H = same_heapD [OF same_heap_tasks(1) [of s1 task index 0]]
      have keep: "heap_live s1 q \<and> heap_extent s1 q = heap_extent s q" if "in_use s T q" "q \<noteq> p" for q
        using 1(4) k(1) that u resources_okD(5) [OF ok u that(1)] by metis
      have "resources_ok ?s T \<and> slots ?s T p = slots s T p - {(task, index)}"
      proof (rule resources_ok_unpoint [OF ok t(1,3) p])
        show "heap_live ?s q \<and> heap_extent ?s q = heap_extent s q" if "in_use ?s T q" for q
        proof -
          have "in_use s T q" "q \<noteq> p" using that True M t p by (auto simp: in_use_def slots_def split: if_splits)
          then show ?thesis using keep H by simp
        qed
      qed (use 1(2) c0 M H in \<open>auto simp: dec\<close>)
      moreover have "resource_remove close task index s = Some (RESOURCE_RESULT_OK, ?s)"
        using True one t p c2 1(1) by (simp add: resource_remove_def Let_def flip: dec)
      moreover have "\<exists>s2. kernel_heap_free p s2 = Some s1 \<and>
         (if op_close (operations (resource_store s p)) = 0 then s2 = s0 else \<exists>r. close p s0 = Some (r, s2))"
        using 1(1) k(2) s2_def by (intro exI [of _ s2]) auto
      ultimately show thesis using that True by auto
    qed
  qed
qed


section \<open>Properties\<close>

text \<open>
  Registering a resource fills the first use of an empty slot of the task with a new resource of
  count one, or reports that all 512 slots are used and changes nothing; without memory the kernel
  faults. Sharing a resource counts it once more. Both keep every count equal to the number of
  slots that point to the resource.
\<close>

theorem resource_register_counts:
  assumes "resources_ok s T" and "task \<in> T" "task \<noteq> 0"
  shows "case resource_register task kind data (Some ops) flags s of
      None \<Rightarrow> \<exists>s'. kernel_heap_calloc sizeof_resource_t s = Some (0, s')
    | Some (result, i, s') \<Rightarrow>
        (if \<forall>i<TASK_MAX_RESOURCES. resources (tasks s task) i \<noteq> 0
         then result = RESOURCE_RESULT_NO_FREE_SLOTS \<and> s' = s
         else result = RESOURCE_RESULT_OK \<and> resources_ok s' T \<and> i < TASK_MAX_RESOURCES \<and> resources (tasks s task) i = 0 \<and>
           (\<exists>r. r \<noteq> 0 \<and> slots s T r = {} \<and>
             tasks s' = (tasks s)(task := (tasks s task)\<lparr>resources := (resources (tasks s task))(i := r)\<rparr>) \<and>
             resource_store s' = (resource_store s)(r := \<lparr>resource_type = kind, resource_data = data,
               operations = ops, ref_count = 1, resource_offset = 0, resource_flags = flags\<rparr>)) \<and>
           (\<forall>t j p. t \<in> T \<and> j < TASK_MAX_RESOURCES \<and> resources (tasks s' t) j = 0 \<and> in_use s' T p \<longrightarrow>
             (\<exists>s''. resource_share t j p s' = Some s'' \<and> resources_ok s'' T \<and>
               slots s'' T p = insert (t, j) (slots s' T p))))"
  using assms
proof (cases rule: resource_register_keeps [of s T task kind data ops flags])
  case full
  then show ?thesis by simp
next
  case nomem
  then show ?thesis by simp
next
  case (registered i r s')
  have share: "\<exists>s''. resource_share t j p s' = Some s'' \<and> resources_ok s'' T \<and> slots s'' T p = insert (t, j) (slots s' T p)"
    if t: "t \<in> T" "j < TASK_MAX_RESOURCES" "resources (tasks s' t) j = 0" and p: "in_use s' T p" for t j p
    using registered(8) t p
  proof (cases rule: resource_share_keeps)
    case (1 s'')
    have "slots s'' T p = insert (t, j) (slots s' T p)" using 1(3) t by (auto simp: slots_def split: if_splits)
    then show ?thesis using 1(1,2) by blast
  qed
  have n: "\<not> (\<forall>i<TASK_MAX_RESOURCES. resources (tasks s task) i \<noteq> 0)" using registered(2,3) by blast
  show ?thesis
    unfolding registered(1) option.case prod.case if_not_P [OF n]
    by (intro conjI allI impI registered exI [of _ r] refl, elim conjE, rule share)
qed

text \<open>
  (C27) Removing a resource from a slot of a task empties that slot and no other and keeps every count
  equal to the number of slots that point to the resource. The resource is closed and its memory
  freed exactly when this was the last slot that pointed to it, closed first and once. A bad index
  and an empty slot change nothing.
\<close>

theorem resource_remove_last_reference:
  assumes "resources_ok s T" and "task \<in> T" "task \<noteq> 0"
    and "p = resources (tasks s task) index" and "s0 = upd_resource p (\<lambda>r. r\<lparr>ref_count := ref_count r - 1\<rparr>) s"
    and "slots s T p = {(task, index)} \<and> op_close (operations (resource_store s p)) \<noteq> 0 \<longrightarrow> close_keeps close T p s0"
  shows "if index \<ge> TASK_MAX_RESOURCES then resource_remove close task index s = Some (RESOURCE_RESULT_BAD_PARAMETER, s)
    else if p = 0 then resource_remove close task index s = Some (RESOURCE_RESULT_OK, s)
    else \<exists>s1 s'. resource_remove close task index s = Some (RESOURCE_RESULT_OK, s') \<and> resources_ok s' T \<and>
      slots s' T p = slots s T p - {(task, index)} \<and> s' = set_slot task index 0 s1 \<and>
      (if slots s T p \<noteq> {(task, index)} then s1 = s0
       else \<exists>s2. kernel_heap_free p s2 = Some s1 \<and>
         (if op_close (operations (resource_store s p)) = 0 then s2 = s0 else \<exists>r. close p s0 = Some (r, s2)))"
proof (cases "TASK_MAX_RESOURCES \<le> index \<or> p = 0")
  case True
  then show ?thesis using assms(3,4) by (auto simp: resource_remove_def Let_def)
next
  case False
  then have i: "index < TASK_MAX_RESOURCES" "p \<noteq> 0" by auto
  have n: "\<not> TASK_MAX_RESOURCES \<le> index" using i by simp
  show ?thesis unfolding if_not_P [OF n] if_not_P [OF i(2)]
  proof (rule resource_remove_keeps [OF assms(1-3) i(1) assms(4) [symmetric] i(2) assms(5,6)], goal_cases)
    case (1 s1 s')
    then show ?case by (intro exI conjI)
  qed
qed


text \<open>A task with one resource, the block at \<^verbatim>\<open>0xF0000008\<close>, in its first slot.\<close>

definition sample_resources :: kernel where
  "sample_resources = sample_kernel\<lparr>heap_break := 0xF0002000, hdr_size := (hdr_size sample_heap)(0xF0000000 := 6),
     tasks := (\<lambda>_. zero_task)(0x200 := zero_task\<lparr>resources := (\<lambda>_. 0)(0 := 0xF0000008)\<rparr>),
     resource_store := (\<lambda>_. \<lparr>resource_type = RESOURCE_TYPE_FILE, resource_data = 0x500,
       operations = \<lparr>op_close = 0xC0100000, op_read = 0, op_write = 0, op_ioctl = 0\<rparr>, ref_count = 1,
       resource_offset = 0, resource_flags = 0\<rparr>)\<rparr>"

lemma sample_resources_heap: "kernel_heap_ready sample_resources" "heap_live sample_resources 0xF0000008"
proof -
  have wf: "heap_wf sample_resources []"
    by (simp add: sample_resources_def sample_kernel_def heap_wf_def sample_heap_fields)
  then have "heap_ready sample_resources [] 0xC0005000 0x1000"
    using sample_heap_ready by (simp add: heap_ready_def sample_resources_def sample_kernel_def sample_heap_fields
        editable_def self_window_def bounce_ready_def machine_wf_def bounce_table_def)
  moreover have "kernel_page_directory sample_resources = 0xC0005000"
    by (simp add: sample_resources_def sample_kernel_def sample_heap_fields)
  ultimately show "kernel_heap_ready sample_resources" unfolding kernel_heap_ready_def by metis
  have "allocated_block sample_resources [] (0xF0000008 - sizeof_header)"
    by (simp add: sample_resources_def sample_kernel_def allocated_block_def free_bytes_def sample_heap_fields
        block_end_def sizeof_header_def)
  with wf show "heap_live sample_resources 0xF0000008" unfolding heap_live_def by blast
qed

lemma sample_resources_task: "resources (tasks sample_resources 0x200) i = (if i = 0 then 0xF0000008 else 0)"
  by (simp add: sample_resources_def zero_task_def)

lemma sample_resources_slots: "p \<noteq> 0 \<Longrightarrow> slots sample_resources {0x200} p = (if p = 0xF0000008 then {(0x200, 0)} else {})"
  by (auto simp: slots_def sample_resources_task TASK_MAX_RESOURCES_def split: if_splits)

lemma sample_resources_ok: "resources_ok sample_resources {0x200}"
proof -
  have u: "in_use sample_resources {0x200} p \<longleftrightarrow> p = 0xF0000008" for p
    using sample_resources_slots [of p] by (auto simp: in_use_def)
  have "counts_ok sample_resources {0x200}"
    unfolding counts_ok_def using sample_resources_slots by (auto simp: sample_resources_def split: if_splits)
  then show ?thesis using sample_resources_heap by (simp add: resources_ok_def u TASK_LIMIT_def)
qed

lemma resource_register_counts_witness:
  "resources_ok sample_resources {0x200} \<and>
   (case resource_register 0x200 RESOURCE_TYPE_FILE 0x520 (Some \<lparr>op_close = 0xC0100000, op_read = 0, op_write = 0, op_ioctl = 0\<rparr>) 0
       sample_resources of
      None \<Rightarrow> \<exists>s'. kernel_heap_calloc sizeof_resource_t sample_resources = Some (0, s')
    | Some (result, i, s') \<Rightarrow> result = RESOURCE_RESULT_OK \<and> resources_ok s' {0x200} \<and> i \<noteq> 0)"
proof -
  have n: "\<not> (\<forall>i<TASK_MAX_RESOURCES. resources (tasks sample_resources 0x200) i \<noteq> 0)"
    by (auto simp: sample_resources_task TASK_MAX_RESOURCES_def intro!: exI [of _ 1])
  have z: "resources (tasks sample_resources 0x200) 0 \<noteq> 0" by (simp add: sample_resources_def)
  note R = resource_register_counts [OF sample_resources_ok, of "0x200" RESOURCE_TYPE_FILE "0x520"
      "\<lparr>op_close = 0xC0100000, op_read = 0, op_write = 0, op_ioctl = 0\<rparr>" 0, unfolded if_not_P [OF n]]
  show ?thesis using sample_resources_ok z R by (auto split: option.splits prod.splits)
qed

lemma resource_remove_last_reference_witness:
  "resources_ok sample_resources {0x200} \<and>
   (\<exists>s1 s'. resource_remove (\<lambda>p s. Some (RESOURCE_RESULT_OK, s\<lparr>task_id_counter := 9\<rparr>)) 0x200 0 sample_resources =
      Some (RESOURCE_RESULT_OK, s') \<and> resources_ok s' {0x200} \<and> slots s' {0x200} 0xF0000008 = {} \<and>
      s' = set_slot 0x200 0 0 s1)"
proof -
  let ?c = "\<lambda>p s. Some (RESOURCE_RESULT_OK, s\<lparr>task_id_counter := 9\<rparr>)"
  let ?s0 = "upd_resource 0xF0000008 (\<lambda>r. r\<lparr>ref_count := ref_count r - 1\<rparr>) sample_resources"
  have p: "0xF0000008 = resources (tasks sample_resources 0x200) 0" by (simp add: sample_resources_def)
  have h: "same_heap sample_resources ?s0" "same_heap ?s0 (?s0\<lparr>task_id_counter := 9\<rparr>)"
    by (simp_all add: same_heap_def upd_resource_def)
  have "in_use ?s0 {0x200} q \<Longrightarrow> q = 0xF0000008" for q
    using sample_resources_slots [of q] by (auto simp: in_use_def split: if_splits)
  then have k: "close_keeps ?c {0x200} 0xF0000008 ?s0"
    using same_heapD [OF h(1)] same_heapD [OF h(2)] sample_resources_heap by (auto simp: close_keeps_def)
  have i: "\<not> TASK_MAX_RESOURCES \<le> (0 :: u32)" by (simp add: TASK_MAX_RESOURCES_def)
  have "\<exists>s1 s'. resource_remove ?c 0x200 0 sample_resources = Some (RESOURCE_RESULT_OK, s') \<and> resources_ok s' {0x200} \<and>
      slots s' {0x200} 0xF0000008 = slots sample_resources {0x200} 0xF0000008 - {(0x200, 0)} \<and> s' = set_slot 0x200 0 0 s1"
    using resource_remove_last_reference [OF sample_resources_ok, of "0x200" "0xF0000008" 0 ?s0 ?c] p k i by auto
  then show ?thesis using sample_resources_ok by (simp add: sample_resources_slots)
qed

end
