(* ===== verification/Terminal.thy ===== *)
theory Terminal
  imports Prelude "HOL-Library.Monad_Syntax"
begin

text \<open>
  The text terminal \<^verbatim>\<open>src/terminal.c\<close> over the interface of \<^verbatim>\<open>include/text_display_driver.h\<close>. The
  terminal keeps a buffer of characters and a cursor, and shows the buffer through the driver. An
  access outside of the buffer is the fault \<open>None\<close>, so that the theorems show that none happens.
\<close>

section \<open>Data\<close>

text \<open>
  A display driver is a structure of functions; \<open>'d\<close> is the state of the device that they change.
\<close>

record 'd text_display_driver_t =
  put_char :: "char \<Rightarrow> u32 \<Rightarrow> u32 \<Rightarrow> 'd \<Rightarrow> 'd"
  set_cursor :: "u32 \<Rightarrow> u32 \<Rightarrow> 'd \<Rightarrow> 'd"
  get_dimensions :: "'d \<Rightarrow> u32 \<times> u32"

datatype terminal_overflow_t = TERMINAL_OVERFLOW_NONE | TERMINAL_OVERFLOW_WRAP | TERMINAL_OVERFLOW_NEW_LINE

datatype terminal_scroll_t = TERMINAL_SCROLL_NONE | TERMINAL_SCROLL_VERTICAL

datatype terminal_result_t = TERMINAL_RESULT_OK | TERMINAL_RESULT_OUT_OF_BOUNDS

record terminal_t =
  buffer :: "u32 \<Rightarrow> char"
  cursor_x :: u32
  cursor_y :: u32
  overflow :: terminal_overflow_t
  scroll :: terminal_scroll_t
  width :: u32
  height :: u32

definition newline :: char where "newline = CHR 0x0A"
definition backspace :: char where "backspace = CHR 0x08"
definition space :: char where "space = CHR 0x20"
definition nul_char :: char where "nul_char = CHR 0x00"

section \<open>Operations\<close>

definition terminal_display_char :: "char \<Rightarrow> char" where
  "terminal_display_char character = (if character = newline then space else character)"

definition buffer_index :: "u32 \<Rightarrow> u32 \<Rightarrow> terminal_t \<Rightarrow> u32" where
  "buffer_index x y t = y * width t + x"

definition buffer_get :: "u32 \<Rightarrow> terminal_t \<Rightarrow> char option" where
  "buffer_get i t = (if i < width t * height t then Some (buffer t i) else None)"

definition buffer_set :: "u32 \<Rightarrow> char \<Rightarrow> terminal_t \<Rightarrow> terminal_t option" where
  "buffer_set i c t = (if i < width t * height t then Some (t\<lparr>buffer := (buffer t)(i := c)\<rparr>) else None)"

definition words :: "nat \<Rightarrow> nat \<Rightarrow> u32 list" where
  "words a b = map of_nat [a..<b]"

definition render_cell :: "'d text_display_driver_t \<Rightarrow> terminal_t \<Rightarrow> u32 \<Rightarrow> u32 \<Rightarrow> 'd \<Rightarrow> 'd option" where
  "render_cell driver t y x d = do {
     character \<leftarrow> buffer_get (buffer_index x y t) t;
     Some (put_char driver (terminal_display_char character) x y d)
   }"

definition terminal_render :: "'d text_display_driver_t \<Rightarrow> terminal_t \<Rightarrow> 'd \<Rightarrow> (terminal_result_t \<times> 'd) option" where
  "terminal_render driver t d = do {
     d \<leftarrow> for_each (\<lambda>y. for_each (render_cell driver t y) (words 0 (unat (width t)))) (words 0 (unat (height t))) d;
     Some (TERMINAL_RESULT_OK, d)
   }"

definition scroll_cell :: "u32 \<Rightarrow> u32 \<Rightarrow> terminal_t \<Rightarrow> terminal_t option" where
  "scroll_cell y x t = do {
     character \<leftarrow> buffer_get (buffer_index x y t) t;
     buffer_set (buffer_index x (y - 1) t) character t
   }"

definition clear_cell :: "u32 \<Rightarrow> terminal_t \<Rightarrow> terminal_t option" where
  "clear_cell x t = buffer_set (buffer_index x (height t - 1) t) nul_char t"

definition terminal_scroll ::
    "'d text_display_driver_t \<Rightarrow> terminal_t \<Rightarrow> 'd \<Rightarrow> (terminal_result_t \<times> terminal_t \<times> 'd) option" where
  "terminal_scroll driver t d = do {
     t \<leftarrow> for_each (\<lambda>y. for_each (scroll_cell y) (words 0 (unat (width t)))) (words 1 (unat (height t))) t;
     t \<leftarrow> for_each clear_cell (words 0 (unat (width t))) t;
     (r, d) \<leftarrow> terminal_render driver t d;
     Some (r, t, d)
   }"

text \<open>Moving the cursor to a point inside: the old cell is drawn again, then the cursor moves.\<close>

definition place_cursor ::
    "'d text_display_driver_t \<Rightarrow> u32 \<Rightarrow> u32 \<Rightarrow> terminal_t \<Rightarrow> 'd \<Rightarrow> (terminal_result_t \<times> terminal_t \<times> 'd) option" where
  "place_cursor driver x y t d = do {
     previous_character \<leftarrow> buffer_get (buffer_index (cursor_x t) (cursor_y t) t) t;
     let d = put_char driver (terminal_display_char previous_character) (cursor_x t) (cursor_y t) d;
         t = t\<lparr>cursor_x := x, cursor_y := y\<rparr>
     in Some (TERMINAL_RESULT_OK, t, set_cursor driver (cursor_x t) (cursor_y t) d)
   }"

definition terminal_set_cursor ::
    "'d text_display_driver_t \<Rightarrow> u32 \<Rightarrow> u32 \<Rightarrow> terminal_t \<Rightarrow> 'd \<Rightarrow> (terminal_result_t \<times> terminal_t \<times> 'd) option" where
  "terminal_set_cursor driver x y t d =
     (if sint x < 0 \<or> x \<ge> width t \<or> sint y < 0 \<or> y \<ge> height t
      then case overflow t of
          TERMINAL_OVERFLOW_NONE \<Rightarrow> Some (TERMINAL_RESULT_OUT_OF_BOUNDS, t, d)
        | TERMINAL_OVERFLOW_WRAP \<Rightarrow> place_cursor driver 0 y t d
        | TERMINAL_OVERFLOW_NEW_LINE \<Rightarrow>
            if y + 1 \<ge> height t
            then do {
              (r, t, d) \<leftarrow> terminal_scroll driver t d;
              place_cursor driver 0 (height t - 1) t d
            }
            else place_cursor driver 0 (y + 1) t d
      else place_cursor driver x y t d)"

definition terminal_put_char ::
    "'d text_display_driver_t \<Rightarrow> char \<Rightarrow> terminal_t \<Rightarrow> 'd \<Rightarrow> (terminal_result_t \<times> terminal_t \<times> 'd) option" where
  "terminal_put_char driver character t d =
     (if character = newline
      then do {
        t \<leftarrow> buffer_set (buffer_index (cursor_x t) (cursor_y t) t) character t;
        (r, t, d) \<leftarrow> terminal_set_cursor driver 0 (cursor_y t + 1) t d;
        Some (TERMINAL_RESULT_OK, t, d)
      }
      else if character = backspace
      then if cursor_x t = 0 then Some (TERMINAL_RESULT_OK, t, d)
           else let x = cursor_x t - 1; y = cursor_y t in do {
             t \<leftarrow> buffer_set (buffer_index x y t) space t;
             let d = put_char driver space x y d in do {
               (r, t, d) \<leftarrow> terminal_set_cursor driver x y t d;
               Some (TERMINAL_RESULT_OK, t, d)
             }
           }
      else do {
        t \<leftarrow> buffer_set (buffer_index (cursor_x t) (cursor_y t) t) character t;
        let d = put_char driver character (cursor_x t) (cursor_y t) d
        in terminal_set_cursor driver (cursor_x t + 1) (cursor_y t) t d
      })"

fun terminal_put_string ::
    "'d text_display_driver_t \<Rightarrow> char list \<Rightarrow> terminal_t \<Rightarrow> 'd \<Rightarrow> (terminal_result_t \<times> terminal_t \<times> 'd) option" where
  "terminal_put_string driver [] t d = Some (TERMINAL_RESULT_OK, t, d)"
| "terminal_put_string driver (c # cs) t d = do {
     (r, t, d) \<leftarrow> terminal_put_char driver c t d;
     if r \<noteq> TERMINAL_RESULT_OK then Some (r, t, d) else terminal_put_string driver cs t d
   }"

definition terminal_set_overflow :: "terminal_overflow_t \<Rightarrow> terminal_t \<Rightarrow> terminal_result_t \<times> terminal_t" where
  "terminal_set_overflow mode t = (TERMINAL_RESULT_OK, t\<lparr>overflow := mode\<rparr>)"

definition terminal_set_scroll :: "terminal_scroll_t \<Rightarrow> terminal_t \<Rightarrow> terminal_result_t \<times> terminal_t" where
  "terminal_set_scroll mode t = (TERMINAL_RESULT_OK, t\<lparr>scroll := mode\<rparr>)"

text \<open>The buffer comes zeroed from \<^verbatim>\<open>kernel_heap_calloc\<close>.\<close>

definition terminal_create :: "'d text_display_driver_t \<Rightarrow> 'd \<Rightarrow> (terminal_result_t \<times> terminal_t \<times> 'd) option" where
  "terminal_create driver d =
     (let (w, h) = get_dimensions driver d;
          t = \<lparr>buffer = (\<lambda>_. nul_char), cursor_x = 0, cursor_y = 0, overflow = TERMINAL_OVERFLOW_NEW_LINE,
               scroll = TERMINAL_SCROLL_VERTICAL, width = w, height = h\<rparr>
      in do {
        (r, d) \<leftarrow> terminal_render driver t d;
        Some (TERMINAL_RESULT_OK, t, d)
      })"

text \<open>\<^verbatim>\<open>terminal_write\<close>: at most \<open>length data\<close> characters, up to a zero; the results are ignored.\<close>

fun terminal_write_loop ::
    "'d text_display_driver_t \<Rightarrow> char list \<Rightarrow> u32 \<Rightarrow> terminal_t \<Rightarrow> 'd \<Rightarrow> (u32 \<times> terminal_t \<times> 'd) option" where
  "terminal_write_loop driver [] written t d = Some (written, t, d)"
| "terminal_write_loop driver (c # cs) written t d =
     (if c = nul_char then Some (written, t, d)
      else do {
        (r, t, d) \<leftarrow> terminal_put_char driver c t d;
        terminal_write_loop driver cs (written + 1) t d
      })"

definition terminal_write ::
    "'d text_display_driver_t \<Rightarrow> char list \<Rightarrow> terminal_t \<Rightarrow> 'd \<Rightarrow> (u32 \<times> terminal_t \<times> 'd) option" where
  "terminal_write driver data = terminal_write_loop driver data 0"

section \<open>Cells of the buffer\<close>

text \<open>A terminal whose cursor is inside and whose cells have distinct indices.\<close>

definition terminal_wf :: "terminal_t \<Rightarrow> bool" where
  "terminal_wf t \<longleftrightarrow> cursor_x t < width t \<and> cursor_y t < height t \<and> overflow t = TERMINAL_OVERFLOW_NEW_LINE \<and>
     unat (width t) * unat (height t) < 2 ^ 31"

definition cell :: "terminal_t \<Rightarrow> u32 \<Rightarrow> u32 \<Rightarrow> char" where
  "cell t x y = buffer t (buffer_index x y t)"

lemma grid_index:
  fixes x y w h :: nat
  assumes "x < w" "y < h"
  shows "y * w + x < w * h"
proof -
  have "Suc y * w \<le> h * w" using assms(2) by (intro mult_le_mono1) simp
  then show ?thesis using assms(1) by (simp add: mult.commute)
qed

lemma unat_grid:
  fixes w h x y :: u32
  assumes "unat w * unat h < 2 ^ 31" "x < w" "y < h"
  shows "unat (y * w + x) = unat y * unat w + unat x" "y * w + x < w * h"
proof -
  have lt: "unat y * unat w + unat x < unat w * unat h"
    using assms(2,3) by (intro grid_index) (simp_all add: word_less_nat_alt)
  show u: "unat (y * w + x) = unat y * unat w + unat x" using lt assms(1) by (simp add: unat_word_ariths)
  have "unat (w * h) = unat w * unat h" using assms(1) by (simp add: unat_word_ariths)
  then show "y * w + x < w * h" using u lt by (simp add: word_less_nat_alt)
qed

lemma grid_inj:
  fixes w h x y x' y' :: u32
  assumes "unat w * unat h < 2 ^ 31" "x < w" "y < h" "x' < w" "y' < h"
  shows "y * w + x = y' * w + x' \<longleftrightarrow> x = x' \<and> y = y'"
proof
  assume "y * w + x = y' * w + x'"
  then have e: "unat y * unat w + unat x = unat y' * unat w + unat x'"
    using unat_grid(1) [OF assms(1-3)] unat_grid(1) [OF assms(1,4,5)] by metis
  have lt: "unat x < unat w" "unat x' < unat w" using assms by (simp_all add: word_less_nat_alt)
  have "(unat y * unat w + unat x) div unat w = (unat y' * unat w + unat x') div unat w"
    "(unat y * unat w + unat x) mod unat w = (unat y' * unat w + unat x') mod unat w" using e by simp_all
  then have "unat y = unat y'" "unat x = unat x'" using lt by simp_all
  then show "x = x' \<and> y = y'" by (metis unsigned_word_eqI)
qed simp


text \<open>All fields but the buffer.\<close>

definition shape :: "terminal_t \<Rightarrow> u32 \<times> u32 \<times> terminal_overflow_t \<times> terminal_scroll_t \<times> u32 \<times> u32" where
  "shape t = (cursor_x t, cursor_y t, overflow t, scroll t, width t, height t)"

definition grid_ok :: "terminal_t \<Rightarrow> bool" where
  "grid_ok t \<longleftrightarrow> unat (width t) * unat (height t) < 2 ^ 31"

lemma shapeD:
  assumes "shape t' = shape t"
  shows "width t' = width t" "height t' = height t" "cursor_x t' = cursor_x t" "cursor_y t' = cursor_y t"
    "overflow t' = overflow t" "grid_ok t' = grid_ok t" "buffer_index x y t' = buffer_index x y t"
  using assms by (auto simp: shape_def grid_ok_def buffer_index_def)

lemma buffer_get_cell: "grid_ok t \<Longrightarrow> x < width t \<Longrightarrow> y < height t \<Longrightarrow> buffer_get (buffer_index x y t) t = Some (cell t x y)"
  using unat_grid(2) by (simp add: buffer_get_def cell_def buffer_index_def grid_ok_def)

lemma buffer_set_cell:
  assumes "grid_ok t" "x < width t" "y < height t"
  obtains t' where "buffer_set (buffer_index x y t) c t = Some t'" "shape t' = shape t"
    "\<forall>x' < width t. \<forall>y' < height t. cell t' x' y' = (if x' = x \<and> y' = y then c else cell t x' y')"
proof -
  let ?t = "t\<lparr>buffer := (buffer t)(buffer_index x y t := c)\<rparr>"
  have "buffer_set (buffer_index x y t) c t = Some ?t"
    using assms unat_grid(2) by (simp add: buffer_set_def buffer_index_def grid_ok_def)
  moreover have "cell ?t x' y' = (if x' = x \<and> y' = y then c else cell t x' y')" if "x' < width t" "y' < height t" for x' y'
    using grid_inj [of "width t" "height t" x' y' x y] assms that by (simp add: cell_def buffer_index_def grid_ok_def)
  ultimately show thesis using that by (simp add: shape_def)
qed

lemma words_length [simp]: "length (words a b) = b - a"
  by (simp add: words_def)

lemma words_nth: "k < b - a \<Longrightarrow> words a b ! k = of_nat (a + k)"
  by (simp add: words_def)

lemma word_index: "k < unat n \<Longrightarrow> unat (of_nat k :: u32) = k" for n :: u32
  using unat_u32 [of n] by (intro unat_of_nat_u32) simp

section \<open>Displays\<close>

text \<open>
  What the terminal relies on: the driver keeps one character per cell of its dimensions; drawing
  changes exactly one cell, and moving the cursor changes none.
\<close>

locale text_display =
  fixes driver :: "'d text_display_driver_t" and shown :: "'d \<Rightarrow> u32 \<Rightarrow> u32 \<Rightarrow> char" and w h :: u32
  assumes dimensions: "get_dimensions driver d = (w, h)" "0 < w" "0 < h" "unat w * unat h < 2 ^ 31"
    and put_shown: "x < w \<Longrightarrow> y < h \<Longrightarrow> x' < w \<Longrightarrow> y' < h \<Longrightarrow>
      shown (put_char driver c x y d) x' y' = (if x' = x \<and> y' = y then c else shown d x' y')"
    and cursor_shown: "x' < w \<Longrightarrow> y' < h \<Longrightarrow> shown (set_cursor driver x y d) x' y' = shown d x' y'"
begin

definition mirrors :: "terminal_t \<Rightarrow> 'd \<Rightarrow> bool" where
  "mirrors t d \<longleftrightarrow> (\<forall>x<w. \<forall>y<h. shown d x y = terminal_display_char (cell t x y))"

definition fits :: "terminal_t \<Rightarrow> bool" where
  "fits t \<longleftrightarrow> width t = w \<and> height t = h"

lemma fits_grid: "fits t \<Longrightarrow> grid_ok t"
  using dimensions(4) by (simp add: fits_def grid_ok_def)

lemma render_row:
  assumes t: "fits t" and y: "y < h"
  shows "\<exists>d'. for_each (render_cell driver t y) (words 0 (unat (width t))) d = Some d' \<and>
    (\<forall>x'<w. \<forall>y'<h. shown d' x' y' = (if y' = y then terminal_display_char (cell t x' y') else shown d x' y'))"
proof -
  let ?P = "\<lambda>k d'. \<forall>x'<w. \<forall>y'<h. shown d' x' y' =
    (if y' = y \<and> unat x' < k then terminal_display_char (cell t x' y') else shown d x' y')"
  have "\<exists>d'. for_each (render_cell driver t y) (words 0 (unat w)) d = Some d' \<and> ?P (length (words 0 (unat w))) d'"
  proof (rule for_each_rule)
    fix k d1 assume k: "k < length (words 0 (unat w))" and P: "?P k d1"
    have u: "unat (of_nat k :: u32) = k" using k by (intro word_index [of k w]) simp
    then have x: "(of_nat k :: u32) < w" using k by (simp add: word_less_nat_alt)
    have get: "buffer_get (buffer_index (of_nat k) y t) t = Some (cell t (of_nat k) y)"
      using buffer_get_cell [OF fits_grid [OF t]] t x y by (simp add: fits_def)
    have eq: "x' = of_nat k \<longleftrightarrow> unat x' = k" for x' :: u32 using u by (metis unsigned_word_eqI)
    show "\<exists>d'. render_cell driver t y (words 0 (unat w) ! k) d1 = Some d' \<and> ?P (Suc k) d'"
      using k get P x y by (auto simp: words_nth render_cell_def put_shown eq less_Suc_eq)
  qed simp
  moreover have "unat x' < unat w" if "x' < w" for x' :: u32 using that by (simp add: word_less_nat_alt)
  ultimately show ?thesis using t by (auto simp: fits_def)
qed

lemma terminal_render_mirrors:
  assumes t: "fits t"
  shows "\<exists>d'. terminal_render driver t d = Some (TERMINAL_RESULT_OK, d') \<and> mirrors t d'"
proof -
  let ?P = "\<lambda>k d'. \<forall>x'<w. \<forall>y'<h. shown d' x' y' =
    (if unat y' < k then terminal_display_char (cell t x' y') else shown d x' y')"
  let ?f = "\<lambda>y. for_each (render_cell driver t y) (words 0 (unat (width t)))"
  have "\<exists>d'. for_each ?f (words 0 (unat h)) d = Some d' \<and> ?P (length (words 0 (unat h))) d'"
  proof (rule for_each_rule)
    fix k d1 assume k: "k < length (words 0 (unat h))" and P: "?P k d1"
    have u: "unat (of_nat k :: u32) = k" using k by (intro word_index [of k h]) simp
    then have y: "(of_nat k :: u32) < h" using k by (simp add: word_less_nat_alt)
    obtain d' where d': "?f (of_nat k) d1 = Some d'" "\<forall>x'<w. \<forall>y'<h. shown d' x' y' =
      (if y' = of_nat k then terminal_display_char (cell t x' y') else shown d1 x' y')"
      using render_row [OF t y, of d1] by blast
    have eq: "y' = of_nat k \<longleftrightarrow> unat y' = k" for y' :: u32 using u by (metis unsigned_word_eqI)
    show "\<exists>d'. ?f (words 0 (unat h) ! k) d1 = Some d' \<and> ?P (Suc k) d'"
      using k d' P by (auto simp: words_nth eq less_Suc_eq)
  qed simp
  moreover have "unat y' < unat h" if "y' < h" for y' :: u32 using that by (simp add: word_less_nat_alt)
  ultimately show ?thesis using t by (auto simp: terminal_render_def fits_def mirrors_def)
qed

end


section \<open>Scrolling\<close>

lemma scroll_row:
  assumes t: "grid_ok t" and y: "y < height t" "0 < y"
  shows "\<exists>t'. for_each (scroll_cell y) (words 0 (unat (width t))) t = Some t' \<and> shape t' = shape t \<and>
    (\<forall>x'<width t. \<forall>y'<height t. cell t' x' y' = (if y' = y - 1 then cell t x' y else cell t x' y'))"
proof -
  let ?P = "\<lambda>k t'. shape t' = shape t \<and> (\<forall>x'<width t. \<forall>y'<height t. cell t' x' y' =
    (if y' = y - 1 \<and> unat x' < k then cell t x' y else cell t x' y'))"
  have y1: "y - 1 < height t" "y \<noteq> y - 1" using y by unat_arith+
  have "\<exists>t'. for_each (scroll_cell y) (words 0 (unat (width t))) t = Some t' \<and> ?P (length (words 0 (unat (width t)))) t'"
  proof (rule for_each_rule)
    fix k t1 assume k: "k < length (words 0 (unat (width t)))" and P: "?P k t1"
    then have "shape t1 = shape t" by blast
    note s = shapeD [OF this]
    have u: "unat (of_nat k :: u32) = k" using k by (intro word_index [of k "width t"]) simp
    then have x: "(of_nat k :: u32) < width t" using k by (simp add: word_less_nat_alt)
    have get: "buffer_get (buffer_index (of_nat k) y t1) t1 = Some (cell t (of_nat k) y)"
      using buffer_get_cell [of t1 "of_nat k" y] t x y y1 P s by simp
    obtain t2 where t2: "buffer_set (buffer_index (of_nat k) (y - 1) t1) (cell t (of_nat k) y) t1 = Some t2"
      "shape t2 = shape t1" "\<forall>x'<width t1. \<forall>y'<height t1. cell t2 x' y' =
        (if x' = of_nat k \<and> y' = y - 1 then cell t (of_nat k) y else cell t1 x' y')"
      by (rule buffer_set_cell [of t1 "of_nat k" "y - 1" "cell t (of_nat k) y"]) (use t x y1 s in simp_all)
    have eq: "x' = of_nat k \<longleftrightarrow> unat x' = k" for x' :: u32 using u by (metis unsigned_word_eqI)
    show "\<exists>t'. scroll_cell y (words 0 (unat (width t)) ! k) t1 = Some t' \<and> ?P (Suc k) t'"
      using k get t2 P s by (auto simp: words_nth scroll_cell_def eq less_Suc_eq)
  qed simp
  moreover have "unat x' < unat (width t)" if "x' < width t" for x' :: u32 using that by (simp add: word_less_nat_alt)
  ultimately show ?thesis by (auto simp: y1)
qed

lemma clear_last_row:
  assumes t: "grid_ok t" and h: "0 < height t"
  shows "\<exists>t'. for_each clear_cell (words 0 (unat (width t))) t = Some t' \<and> shape t' = shape t \<and>
    (\<forall>x'<width t. \<forall>y'<height t. cell t' x' y' = (if y' = height t - 1 then nul_char else cell t x' y'))"
proof -
  let ?P = "\<lambda>k t'. shape t' = shape t \<and> (\<forall>x'<width t. \<forall>y'<height t. cell t' x' y' =
    (if y' = height t - 1 \<and> unat x' < k then nul_char else cell t x' y'))"
  have y1: "height t - 1 < height t" using h by unat_arith
  have "\<exists>t'. for_each clear_cell (words 0 (unat (width t))) t = Some t' \<and> ?P (length (words 0 (unat (width t)))) t'"
  proof (rule for_each_rule)
    fix k t1 assume k: "k < length (words 0 (unat (width t)))" and P: "?P k t1"
    then have "shape t1 = shape t" by blast
    note s = shapeD [OF this]
    have u: "unat (of_nat k :: u32) = k" using k by (intro word_index [of k "width t"]) simp
    then have x: "(of_nat k :: u32) < width t" using k by (simp add: word_less_nat_alt)
    obtain t2 where t2: "buffer_set (buffer_index (of_nat k) (height t1 - 1) t1) nul_char t1 = Some t2"
      "shape t2 = shape t1" "\<forall>x'<width t1. \<forall>y'<height t1. cell t2 x' y' =
        (if x' = of_nat k \<and> y' = height t1 - 1 then nul_char else cell t1 x' y')"
      by (rule buffer_set_cell [of t1 "of_nat k" "height t1 - 1" nul_char]) (use t x y1 s in simp_all)
    have eq: "x' = of_nat k \<longleftrightarrow> unat x' = k" for x' :: u32 using u by (metis unsigned_word_eqI)
    show "\<exists>t'. clear_cell (words 0 (unat (width t)) ! k) t1 = Some t' \<and> ?P (Suc k) t'"
      using k t2 P s by (auto simp: words_nth clear_cell_def eq less_Suc_eq)
  qed simp
  moreover have "unat x' < unat (width t)" if "x' < width t" for x' :: u32 using that by (simp add: word_less_nat_alt)
  ultimately show ?thesis by auto
qed

lemma scroll_rows:
  assumes t: "grid_ok t" and h: "0 < height t"
  shows "\<exists>t'. for_each (\<lambda>y. for_each (scroll_cell y) (words 0 (unat (width t)))) (words 1 (unat (height t))) t = Some t' \<and>
    shape t' = shape t \<and>
    (\<forall>x<width t. \<forall>y<height t. cell t' x y = (if y < height t - 1 then cell t x (y + 1) else cell t x y))"
proof -
  let ?h = "unat (height t)"
  let ?P = "\<lambda>k t'. shape t' = shape t \<and> (\<forall>x<width t. \<forall>y<height t. cell t' x y =
    (if unat y < k then cell t x (y + 1) else cell t x y))"
  let ?f = "\<lambda>y. for_each (scroll_cell y) (words 0 (unat (width t)))"
  have "\<exists>t'. for_each ?f (words 1 ?h) t = Some t' \<and> ?P (length (words 1 ?h)) t'"
  proof (rule for_each_rule)
    fix k t1 assume k: "k < length (words 1 ?h)" and P: "?P k t1"
    then have "shape t1 = shape t" by blast
    note s = shapeD [OF this]
    have u: "unat (of_nat k :: u32) = k" using k by (intro word_index [of k "height t"]) simp
    have u1: "unat (of_nat (Suc k) :: u32) = Suc k" using k by (intro word_index [of "Suc k" "height t"]) simp
    then have y: "(of_nat (Suc k) :: u32) < height t" "0 < (of_nat (Suc k) :: u32)"
      using k by (simp_all add: word_less_nat_alt del: of_nat_Suc)
    obtain t2 where t2: "?f (of_nat (Suc k)) t1 = Some t2" "shape t2 = shape t1"
      "\<forall>x'<width t1. \<forall>y'<height t1. cell t2 x' y' =
        (if y' = of_nat (Suc k) - 1 then cell t1 x' (of_nat (Suc k)) else cell t1 x' y')"
      using scroll_row [of t1 "of_nat (Suc k)"] t y s by (simp del: of_nat_Suc) blast
    have eq: "y' = of_nat k \<longleftrightarrow> unat y' = k" for y' :: u32 using u by (metis unsigned_word_eqI)
    have cells: "cell t2 x' y' = (if y' = of_nat k then cell t1 x' (of_nat k + 1) else cell t1 x' y')"
      if "x' < width t" "y' < height t" for x' y' using t2(3) that s P by (simp add: add.commute)
    have row: "cell t1 x' (of_nat k + 1) = cell t x' (of_nat k + 1)" if "x' < width t" for x'
      using P y u1 that by (simp add: add.commute)
    have ki: "\<not> unat (of_nat k :: u32) < k" using u by simp
    have "?P (Suc k) t2"
      using P t2(2) cells row by (auto simp: less_Suc_eq eq [symmetric])
    then show "\<exists>t'. ?f (words 1 ?h ! k) t1 = Some t' \<and> ?P (Suc k) t'"
      using k t2(1) by (auto simp: words_nth)
  qed simp
  moreover have "unat y < ?h - 1 \<longleftrightarrow> y < height t - 1" if "y < height t" for y
    using that by unat_arith
  ultimately show ?thesis by (auto cong: if_cong)
qed


section \<open>The specification: a teletype\<close>

text \<open>
  A teletype has a page of characters and the position of its head. A new line moves the head to the
  start of the next row, and rolls the page up by one row when there is none.
\<close>

type_synonym teletype = "(u32 \<Rightarrow> u32 \<Rightarrow> char) \<times> u32 \<times> u32"

definition type_at :: "u32 \<Rightarrow> u32 \<Rightarrow> char \<Rightarrow> (u32 \<Rightarrow> u32 \<Rightarrow> char) \<Rightarrow> u32 \<Rightarrow> u32 \<Rightarrow> char" where
  "type_at x y c page = (\<lambda>x' y'. if x' = x \<and> y' = y then c else page x' y')"

definition roll_up :: "u32 \<Rightarrow> (u32 \<Rightarrow> u32 \<Rightarrow> char) \<Rightarrow> u32 \<Rightarrow> u32 \<Rightarrow> char" where
  "roll_up h page = (\<lambda>x y. if y < h - 1 then page x (y + 1) else nul_char)"

definition next_row :: "u32 \<Rightarrow> (u32 \<Rightarrow> u32 \<Rightarrow> char) \<Rightarrow> u32 \<Rightarrow> teletype" where
  "next_row h page y = (if y < h - 1 then (page, 0, y + 1) else (roll_up h page, 0, h - 1))"

definition teletype_put :: "u32 \<Rightarrow> u32 \<Rightarrow> char \<Rightarrow> teletype \<Rightarrow> teletype" where
  "teletype_put w h c = (\<lambda>(page, x, y).
     if c = newline then next_row h (type_at x y newline page) y
     else if c = backspace then if x = 0 then (page, x, y) else (type_at (x - 1) y space page, x - 1, y)
     else if x < w - 1 then (type_at x y c page, x + 1, y)
     else next_row h (type_at x y c page) y)"

definition teletype_puts :: "u32 \<Rightarrow> u32 \<Rightarrow> char list \<Rightarrow> teletype \<Rightarrow> teletype" where
  "teletype_puts w h = fold (teletype_put w h)"

text \<open>The terminal shows the page of the teletype, with the cursor at the head.\<close>

definition types :: "terminal_t \<Rightarrow> teletype \<Rightarrow> bool" where
  "types t = (\<lambda>(page, x, y). cursor_x t = x \<and> cursor_y t = y \<and>
     (\<forall>x<width t. \<forall>y<height t. cell t x y = page x y))"

lemma scroll_rolls_up:
  assumes t: "grid_ok t" and h: "0 < height t"
  obtains t1 t2 where
    "for_each (\<lambda>y. for_each (scroll_cell y) (words 0 (unat (width t)))) (words 1 (unat (height t))) t = Some t1"
    "for_each clear_cell (words 0 (unat (width t1))) t1 = Some t2" "shape t2 = shape t"
    "\<forall>x<width t. \<forall>y<height t. cell t2 x y = roll_up (height t) (cell t) x y"
proof -
  obtain t1 where t1: "for_each (\<lambda>y. for_each (scroll_cell y) (words 0 (unat (width t)))) (words 1 (unat (height t))) t = Some t1"
    "shape t1 = shape t"
    "\<forall>x<width t. \<forall>y<height t. cell t1 x y = (if y < height t - 1 then cell t x (y + 1) else cell t x y)"
    using scroll_rows [OF assms] by blast
  note s = shapeD [OF t1(2)]
  obtain t2 where t2: "for_each clear_cell (words 0 (unat (width t1))) t1 = Some t2" "shape t2 = shape t1"
    "\<forall>x'<width t1. \<forall>y'<height t1. cell t2 x' y' = (if y' = height t1 - 1 then nul_char else cell t1 x' y')"
    using clear_last_row [of t1] t h s by auto
  have "y < height t - 1 \<longleftrightarrow> y \<noteq> height t - 1" if "y < height t" for y using that by unat_arith
  then show thesis using that [of t1 t2] t1 t2 s by (simp add: roll_up_def)
qed

lemma sint_unat: "unat v < 2 ^ 31 \<Longrightarrow> sint v = int (unat v)" for v :: u32
proof -
  assume "unat v < 2 ^ 31"
  then have "int (unat v) < int (2 ^ 31)" unfolding of_nat_less_iff .
  then have "uint v < 2 ^ 31" by simp
  then have "sint v = uint v"
    unfolding sint_uint by (intro signed_take_bit_int_eq_self) (use order_trans [of "- (2 ^ 31)" 0 "uint v"] in simp_all)
  then show ?thesis by simp
qed

lemma sint_small: "unat v < 2 ^ 31 \<Longrightarrow> \<not> sint v < 0" for v :: u32
  using sint_unat [of v] by simp


context text_display
begin

definition near :: "terminal_t \<Rightarrow> 'd \<Rightarrow> bool" where
  "near t d \<longleftrightarrow> terminal_wf t \<and> fits t \<and> (\<forall>x<w. \<forall>y<h. x = cursor_x t \<and> y = cursor_y t \<or>
     shown d x y = terminal_display_char (cell t x y))"

definition good :: "terminal_t \<Rightarrow> 'd \<Rightarrow> bool" where
  "good t d \<longleftrightarrow> terminal_wf t \<and> fits t \<and> mirrors t d"

lemma good_near: "good t d \<Longrightarrow> near t d"
  by (simp add: good_def near_def mirrors_def)

lemma place_cursor_good:
  assumes t: "near t d" "types t (page, x0, y0)" and x: "x < w" "y < h"
  shows "\<exists>t' d'. place_cursor driver x y t d = Some (TERMINAL_RESULT_OK, t', d') \<and> good t' d' \<and> types t' (page, x, y)"
proof -
  have b: "cursor_x t < w" "cursor_y t < h" "width t = w" "height t = h" "fits t" "terminal_wf t"
    using t by (auto simp: near_def fits_def terminal_wf_def)
  have get: "buffer_get (buffer_index (cursor_x t) (cursor_y t) t) t = Some (cell t (cursor_x t) (cursor_y t))"
    using buffer_get_cell [OF fits_grid [OF b(5)]] b by simp
  have cell: "cell (t\<lparr>cursor_x := x, cursor_y := y\<rparr>) = cell t" by (simp add: cell_def fun_eq_iff buffer_index_def)
  have "good (t\<lparr>cursor_x := x, cursor_y := y\<rparr>) (set_cursor driver x y
    (put_char driver (terminal_display_char (cell t (cursor_x t) (cursor_y t))) (cursor_x t) (cursor_y t) d))"
    using t b x unfolding good_def near_def mirrors_def cell
    by (auto simp: cursor_shown put_shown terminal_wf_def fits_def)
  moreover have "types (t\<lparr>cursor_x := x, cursor_y := y\<rparr>) (page, x, y)" using t(2) by (simp add: types_def cell)
  ultimately show ?thesis by (simp add: place_cursor_def get)
qed

lemma terminal_scroll_rolls:
  assumes t: "terminal_wf t" "fits t" "types t (page, x, y)"
  shows "\<exists>t' d'. terminal_scroll driver t d = Some (TERMINAL_RESULT_OK, t', d') \<and> good t' d' \<and> types t' (roll_up h page, x, y)"
proof -
  have b: "width t = w" "height t = h" "grid_ok t" "0 < height t"
    using t dimensions(3) fits_grid by (auto simp: fits_def)
  obtain t1 t2 where t12:
    "for_each (\<lambda>y. for_each (scroll_cell y) (words 0 (unat (width t)))) (words 1 (unat (height t))) t = Some t1"
    "for_each clear_cell (words 0 (unat (width t1))) t1 = Some t2" "shape t2 = shape t"
    "\<forall>x<width t. \<forall>y<height t. cell t2 x y = roll_up (height t) (cell t) x y"
    by (rule scroll_rolls_up [OF b(3,4)])
  note s = shapeD [OF t12(3)]
  have ft: "fits t2" using t(2) s by (simp add: fits_def)
  obtain d' where d': "terminal_render driver t2 d = Some (TERMINAL_RESULT_OK, d')" "mirrors t2 d'"
    using terminal_render_mirrors [OF ft] by blast
  have "y + 1 < h" if "y < h - 1" "y < h" for y using that by unat_arith
  then have "types t2 (roll_up h page, x, y)" using t(3) t12(4) s b by (auto simp: types_def roll_up_def)
  moreover have "good t2 d'" using ft d' s t(1) by (simp add: good_def terminal_wf_def)
  ultimately show ?thesis using t12 d'(1) by (auto simp: terminal_scroll_def)
qed

lemma small: "unat w < 2 ^ 31" "unat h < 2 ^ 31"
proof -
  have "unat w * 1 \<le> unat w * unat h" "1 * unat h \<le> unat w * unat h"
    using dimensions(2,3) by (intro mult_le_mono; simp add: word_less_nat_alt)+
  then show "unat w < 2 ^ 31" "unat h < 2 ^ 31" using dimensions(4) by linarith+
qed

lemma inside:
  assumes "x < w" "y < h"
  shows "\<not> sint x < 0" "\<not> sint y < 0" "\<not> w \<le> x" "\<not> h \<le> y"
  using assms small by (auto intro!: sint_small simp: word_less_nat_alt not_le)

lemma set_cursor_inside:
  assumes t: "near t d" "types t (page, x0, y0)" and x: "x < w" "y < h"
  shows "\<exists>t' d'. terminal_set_cursor driver x y t d = Some (TERMINAL_RESULT_OK, t', d') \<and> good t' d' \<and> types t' (page, x, y)"
proof -
  have "width t = w" "height t = h" using t(1) by (auto simp: near_def fits_def)
  then show ?thesis using place_cursor_good [OF t x] inside [OF x] by (simp add: terminal_set_cursor_def)
qed

lemma set_cursor_next_row:
  assumes t: "near t d" "types t (page, x0, y0)" and x: "x = w \<and> y = y0 \<or> x = 0 \<and> y = y0 + 1"
  shows "\<exists>t' d'. terminal_set_cursor driver x y t d = Some (TERMINAL_RESULT_OK, t', d') \<and> good t' d' \<and>
    types t' (next_row h page y0)"
proof (cases "y0 < h - 1")
  case True
  have b: "width t = w" "height t = h" "terminal_wf t" using t(1) by (auto simp: near_def fits_def)
  have y1: "y0 + 1 < h" using True dimensions(3) by unat_arith
  then have y2: "\<not> h \<le> y0 + 1" by simp
  show ?thesis
  proof (cases "x = w \<and> y = y0")
    case eq: True
    have "terminal_set_cursor driver x y t d = place_cursor driver 0 (y0 + 1) t d"
      using eq b y2 by (simp add: terminal_set_cursor_def terminal_wf_def)
    then show ?thesis using place_cursor_good [OF t, of 0 "y0 + 1"] dimensions(2) y1 True by (simp add: next_row_def)
  next
    case False
    then have "x = 0" "y = y0 + 1" using x by auto
    then show ?thesis using set_cursor_inside [OF t, of 0 "y0 + 1"] dimensions(2) y1 True by (simp add: next_row_def)
  qed
next
  case False
  have b: "width t = w" "height t = h" "terminal_wf t" "fits t" using t(1) by (auto simp: near_def fits_def)
  have "y0 < h" using t(2) b by (auto simp: terminal_wf_def types_def)
  then have y0: "y0 = h - 1" using False by unat_arith
  have "h \<le> h + 1" using small(2) by (simp add: word_le_nat_alt unat_word_ariths)
  moreover have "h \<le> h + 1 + 1" using small(2) by (simp add: word_le_nat_alt unat_word_ariths)
  moreover have "h - 1 < h" using dimensions(3) by unat_arith
  ultimately have hh: "h \<le> h + 1" "h \<le> h + 1 + 1" "h - 1 < h" by blast+
  obtain t1 d1 where t1: "terminal_scroll driver t d = Some (TERMINAL_RESULT_OK, t1, d1)" "good t1 d1"
    "types t1 (roll_up h page, x0, y0)" using terminal_scroll_rolls [OF b(3,4) t(2)] by blast
  have "height t1 = h" using t1(2) by (auto simp: good_def fits_def)
  then have "terminal_set_cursor driver x y t d = place_cursor driver 0 (h - 1) t1 d1"
    using x b hh y0 t1(1) by (auto simp: terminal_set_cursor_def terminal_wf_def)
  then show ?thesis using place_cursor_good [OF good_near [OF t1(2)] t1(3), of 0 "h - 1"] dimensions(2) hh False
    by (simp add: next_row_def)
qed

lemma type_char:
  assumes t: "good t d" "types t (page, x0, y0)" and x: "x < w" "y < h"
  obtains t' where "buffer_set (buffer_index x y t) c t = Some t'" "shape t' = shape t"
    "types t' (type_at x y c page, x0, y0)"
    "x = x0 \<Longrightarrow> y = y0 \<Longrightarrow> near t' d"
    "c = terminal_display_char c \<Longrightarrow> good t' (put_char driver c x y d)"
proof -
  have b: "width t = w" "height t = h" "grid_ok t" "terminal_wf t" "fits t" "mirrors t d"
    "cursor_x t = x0" "cursor_y t = y0"
    using t fits_grid by (auto simp: good_def fits_def types_def)
  obtain t' where t': "buffer_set (buffer_index x y t) c t = Some t'" "shape t' = shape t"
    "\<forall>x'<width t. \<forall>y'<height t. cell t' x' y' = (if x' = x \<and> y' = y then c else cell t x' y')"
    by (rule buffer_set_cell [of t x y c]) (use b x in simp_all)
  note s = shapeD [OF t'(2)]
  have wf: "terminal_wf t'" "fits t'" using b s by (simp_all add: terminal_wf_def fits_def)
  have "types t' (type_at x y c page, x0, y0)" using t(2) t'(3) s by (simp add: types_def type_at_def)
  moreover have "near t' d" if "x = x0" "y = y0"
    unfolding near_def using wf b s t'(3) that by (auto simp: mirrors_def)
  moreover have "good t' (put_char driver c x y d)" if "c = terminal_display_char c"
    unfolding good_def using wf b x t'(3) that [symmetric] by (auto simp: mirrors_def put_shown)
  ultimately show thesis using that t' by blast
qed

lemma terminal_put_char_types:
  assumes t: "good t d" "types t s"
  shows "\<exists>t' d'. terminal_put_char driver c t d = Some (TERMINAL_RESULT_OK, t', d') \<and> good t' d' \<and>
    types t' (teletype_put w h c s)"
proof -
  obtain page x y where s: "s = (page, x, y)" by (cases s)
  have b: "cursor_x t = x" "cursor_y t = y" "x < w" "y < h"
    using t unfolding s by (auto simp: good_def fits_def types_def terminal_wf_def)
  note t2 = t(2) [unfolded s]
  consider "c = newline" | "c = backspace" "x = 0" | "c = backspace" "0 < x" | "c \<noteq> newline" "c \<noteq> backspace"
    by (metis word_gt_0)
  then show ?thesis
  proof cases
    case 1
    obtain t1 where t1: "buffer_set (buffer_index x y t) newline t = Some t1" "shape t1 = shape t"
      "types t1 (type_at x y newline page, x, y)" "near t1 d"
      by (rule type_char [OF t(1) t2 b(3,4), of newline]) blast
    then show ?thesis using set_cursor_next_row [OF t1(4,3), of 0 "y + 1"] b shapeD [OF t1(2)] 1
      by (auto simp: terminal_put_char_def teletype_put_def s)
  next
    case 2
    then show ?thesis using t b by (auto simp: terminal_put_char_def teletype_put_def s newline_def backspace_def)
  next
    case 3
    have x1: "x - 1 < w" "x \<noteq> 0" using b 3 by unat_arith+
    obtain t1 where t1: "buffer_set (buffer_index (x - 1) y t) space t = Some t1"
      "types t1 (type_at (x - 1) y space page, x, y)" "good t1 (put_char driver space (x - 1) y d)"
      by (rule type_char [OF t(1) t2 x1(1) b(4), of space]) (auto simp: terminal_display_char_def space_def newline_def)
    then show ?thesis using set_cursor_inside [OF good_near [OF t1(3)] t1(2) x1(1) b(4)] b x1 3
      by (auto simp: terminal_put_char_def teletype_put_def s newline_def backspace_def Let_def)
  next
    case 4
    obtain t1 where t1: "buffer_set (buffer_index x y t) c t = Some t1" "shape t1 = shape t"
      "types t1 (type_at x y c page, x, y)" "good t1 (put_char driver c x y d)"
      by (rule type_char [OF t(1) t2 b(3,4), of c]) (use 4 in \<open>auto simp: terminal_display_char_def\<close>)
    have put: "terminal_put_char driver c t d = terminal_set_cursor driver (x + 1) y t1 (put_char driver c x y d)"
      using t1(1) b shapeD [OF t1(2)] 4 by (simp add: terminal_put_char_def)
    show ?thesis
    proof (cases "x < w - 1")
      case True
      have "x + 1 < w" using True b(3) by unat_arith
      then show ?thesis using set_cursor_inside [OF good_near [OF t1(4)] t1(3) _ b(4), of "x + 1"] put 4 True
        by (auto simp: teletype_put_def s)
    next
      case False
      have "x + 1 = w" using False b(3) by unat_arith
      then show ?thesis using set_cursor_next_row [OF good_near [OF t1(4)] t1(3), of w y] put 4 False
        by (auto simp: teletype_put_def s)
    qed
  qed
qed

lemma terminal_put_string_types:
  "good t d \<Longrightarrow> types t s \<Longrightarrow> \<exists>t' d'. terminal_put_string driver cs t d = Some (TERMINAL_RESULT_OK, t', d') \<and>
    good t' d' \<and> types t' (teletype_puts w h cs s)"
proof (induction cs arbitrary: t d s)
  case Nil
  then show ?case by (simp add: teletype_puts_def)
next
  case (Cons c cs)
  obtain t1 d1 where t1: "terminal_put_char driver c t d = Some (TERMINAL_RESULT_OK, t1, d1)" "good t1 d1"
    "types t1 (teletype_put w h c s)" using terminal_put_char_types [OF Cons.prems] by blast
  then show ?case using Cons.IH [OF t1(2,3)] by (simp add: teletype_puts_def)
qed

lemma terminal_write_loop_types:
  "good t d \<Longrightarrow> types t s \<Longrightarrow> \<exists>t' d'. terminal_write_loop driver cs n t d =
    Some (n + of_nat (length (takeWhile (\<lambda>c. c \<noteq> nul_char) cs)), t', d') \<and>
    good t' d' \<and> types t' (teletype_puts w h (takeWhile (\<lambda>c. c \<noteq> nul_char) cs) s)"
proof (induction cs arbitrary: n t d s)
  case Nil
  then show ?case by (simp add: teletype_puts_def)
next
  case (Cons c cs)
  obtain t1 d1 where t1: "terminal_put_char driver c t d = Some (TERMINAL_RESULT_OK, t1, d1)" "good t1 d1"
    "types t1 (teletype_put w h c s)" using terminal_put_char_types [OF Cons.prems] by blast
  show ?case using t1(1) Cons.IH [OF t1(2,3), of "n + 1"] Cons.prems
    by (cases "c = nul_char") (auto simp: teletype_puts_def add.assoc)
qed

lemma terminal_create_good:
  "\<exists>t d'. terminal_create driver d = Some (TERMINAL_RESULT_OK, t, d') \<and> good t d' \<and> types t ((\<lambda>_ _. nul_char), 0, 0)"
proof -
  let ?t = "\<lparr>buffer = (\<lambda>_. nul_char), cursor_x = 0, cursor_y = 0, overflow = TERMINAL_OVERFLOW_NEW_LINE,
    scroll = TERMINAL_SCROLL_VERTICAL, width = w, height = h\<rparr>"
  have f: "fits ?t" by (simp add: fits_def)
  then show ?thesis using terminal_render_mirrors [OF f, of d] dimensions
    by (auto simp: terminal_create_def good_def terminal_wf_def types_def cell_def)
qed

end

end
