(* ===== verification/Framebuffer.thy ===== *)
theory Framebuffer
  imports Terminal Keyboard
begin

unbundle bit_operations_syntax

text \<open>
  The linear frame buffer \<^verbatim>\<open>src/drivers/framebuffer.c\<close> with its font \<^verbatim>\<open>src/drivers/font8x8.c\<close>. The memory
  behind the frame buffer is a function from addresses to bytes, a part of the device. A C \<^verbatim>\<open>int\<close> is
  an \<open>int\<close>, and \<open>i32\<close> brings the result of an operation back into its 32 bits.
\<close>

section \<open>Data\<close>

definition FONT8X8_WIDTH :: u32 where "FONT8X8_WIDTH = 8"
definition FONT8X8_HEIGHT :: u32 where "FONT8X8_HEIGHT = 8"
definition KERNEL_FRAMEBUFFER_VIRTUAL_START :: u32 where "KERNEL_FRAMEBUFFER_VIRTUAL_START = 0xF8000000"
definition FBIOGET_INFO :: u32 where "FBIOGET_INFO = 1"

definition font8x8_basic :: "u8 list list" where
  "font8x8_basic = replicate 0x20 [0, 0, 0, 0, 0, 0, 0, 0] @ [
    [0x00, 0x00, 0x00, 0x00, 0x00, 0x00, 0x00, 0x00],
    [0x18, 0x3C, 0x3C, 0x18, 0x18, 0x00, 0x18, 0x00],
    [0x36, 0x36, 0x00, 0x00, 0x00, 0x00, 0x00, 0x00],
    [0x36, 0x36, 0x7F, 0x36, 0x7F, 0x36, 0x36, 0x00],
    [0x0C, 0x3E, 0x03, 0x1E, 0x30, 0x1F, 0x0C, 0x00],
    [0x00, 0x63, 0x33, 0x18, 0x0C, 0x66, 0x63, 0x00],
    [0x1C, 0x36, 0x1C, 0x6E, 0x3B, 0x33, 0x6E, 0x00],
    [0x06, 0x06, 0x03, 0x00, 0x00, 0x00, 0x00, 0x00],
    [0x18, 0x0C, 0x06, 0x06, 0x06, 0x0C, 0x18, 0x00],
    [0x06, 0x0C, 0x18, 0x18, 0x18, 0x0C, 0x06, 0x00],
    [0x00, 0x66, 0x3C, 0xFF, 0x3C, 0x66, 0x00, 0x00],
    [0x00, 0x0C, 0x0C, 0x3F, 0x0C, 0x0C, 0x00, 0x00],
    [0x00, 0x00, 0x00, 0x00, 0x00, 0x0C, 0x0C, 0x06],
    [0x00, 0x00, 0x00, 0x3F, 0x00, 0x00, 0x00, 0x00],
    [0x00, 0x00, 0x00, 0x00, 0x00, 0x0C, 0x0C, 0x00],
    [0x60, 0x30, 0x18, 0x0C, 0x06, 0x03, 0x01, 0x00],
    [0x3E, 0x63, 0x73, 0x7B, 0x6F, 0x67, 0x3E, 0x00],
    [0x0C, 0x0E, 0x0C, 0x0C, 0x0C, 0x0C, 0x3F, 0x00],
    [0x1E, 0x33, 0x30, 0x1C, 0x06, 0x33, 0x3F, 0x00],
    [0x1E, 0x33, 0x30, 0x1C, 0x30, 0x33, 0x1E, 0x00],
    [0x38, 0x3C, 0x36, 0x33, 0x7F, 0x30, 0x78, 0x00],
    [0x3F, 0x03, 0x1F, 0x30, 0x30, 0x33, 0x1E, 0x00],
    [0x1C, 0x06, 0x03, 0x1F, 0x33, 0x33, 0x1E, 0x00],
    [0x3F, 0x33, 0x30, 0x18, 0x0C, 0x0C, 0x0C, 0x00],
    [0x1E, 0x33, 0x33, 0x1E, 0x33, 0x33, 0x1E, 0x00],
    [0x1E, 0x33, 0x33, 0x3E, 0x30, 0x18, 0x0E, 0x00],
    [0x00, 0x0C, 0x0C, 0x00, 0x00, 0x0C, 0x0C, 0x00],
    [0x00, 0x0C, 0x0C, 0x00, 0x00, 0x0C, 0x0C, 0x06],
    [0x18, 0x0C, 0x06, 0x03, 0x06, 0x0C, 0x18, 0x00],
    [0x00, 0x00, 0x3F, 0x00, 0x00, 0x3F, 0x00, 0x00],
    [0x06, 0x0C, 0x18, 0x30, 0x18, 0x0C, 0x06, 0x00],
    [0x1E, 0x33, 0x30, 0x18, 0x0C, 0x00, 0x0C, 0x00],
    [0x3E, 0x63, 0x7B, 0x7B, 0x7B, 0x03, 0x1E, 0x00],
    [0x0C, 0x1E, 0x33, 0x33, 0x3F, 0x33, 0x33, 0x00],
    [0x3F, 0x66, 0x66, 0x3E, 0x66, 0x66, 0x3F, 0x00],
    [0x3C, 0x66, 0x03, 0x03, 0x03, 0x66, 0x3C, 0x00],
    [0x1F, 0x36, 0x66, 0x66, 0x66, 0x36, 0x1F, 0x00],
    [0x7F, 0x46, 0x16, 0x1E, 0x16, 0x46, 0x7F, 0x00],
    [0x7F, 0x46, 0x16, 0x1E, 0x16, 0x06, 0x0F, 0x00],
    [0x3C, 0x66, 0x03, 0x03, 0x73, 0x66, 0x7C, 0x00],
    [0x33, 0x33, 0x33, 0x3F, 0x33, 0x33, 0x33, 0x00],
    [0x1E, 0x0C, 0x0C, 0x0C, 0x0C, 0x0C, 0x1E, 0x00],
    [0x78, 0x30, 0x30, 0x30, 0x33, 0x33, 0x1E, 0x00],
    [0x67, 0x66, 0x36, 0x1E, 0x36, 0x66, 0x67, 0x00],
    [0x0F, 0x06, 0x06, 0x06, 0x46, 0x66, 0x7F, 0x00],
    [0x63, 0x77, 0x7F, 0x7F, 0x6B, 0x63, 0x63, 0x00],
    [0x63, 0x67, 0x6F, 0x7B, 0x73, 0x63, 0x63, 0x00],
    [0x1C, 0x36, 0x63, 0x63, 0x63, 0x36, 0x1C, 0x00],
    [0x3F, 0x66, 0x66, 0x3E, 0x06, 0x06, 0x0F, 0x00],
    [0x1E, 0x33, 0x33, 0x33, 0x3B, 0x1E, 0x38, 0x00],
    [0x3F, 0x66, 0x66, 0x3E, 0x36, 0x66, 0x67, 0x00],
    [0x1E, 0x33, 0x07, 0x0E, 0x38, 0x33, 0x1E, 0x00],
    [0x3F, 0x2D, 0x0C, 0x0C, 0x0C, 0x0C, 0x1E, 0x00],
    [0x33, 0x33, 0x33, 0x33, 0x33, 0x33, 0x3F, 0x00],
    [0x33, 0x33, 0x33, 0x33, 0x33, 0x1E, 0x0C, 0x00],
    [0x63, 0x63, 0x63, 0x6B, 0x7F, 0x77, 0x63, 0x00],
    [0x63, 0x63, 0x36, 0x1C, 0x1C, 0x36, 0x63, 0x00],
    [0x33, 0x33, 0x33, 0x1E, 0x0C, 0x0C, 0x1E, 0x00],
    [0x7F, 0x63, 0x31, 0x18, 0x4C, 0x66, 0x7F, 0x00],
    [0x1E, 0x06, 0x06, 0x06, 0x06, 0x06, 0x1E, 0x00],
    [0x03, 0x06, 0x0C, 0x18, 0x30, 0x60, 0x40, 0x00],
    [0x1E, 0x18, 0x18, 0x18, 0x18, 0x18, 0x1E, 0x00],
    [0x08, 0x1C, 0x36, 0x63, 0x00, 0x00, 0x00, 0x00],
    [0x00, 0x00, 0x00, 0x00, 0x00, 0x00, 0x00, 0xFF],
    [0x0C, 0x0C, 0x18, 0x00, 0x00, 0x00, 0x00, 0x00],
    [0x00, 0x00, 0x1E, 0x30, 0x3E, 0x33, 0x6E, 0x00],
    [0x07, 0x06, 0x06, 0x3E, 0x66, 0x66, 0x3B, 0x00],
    [0x00, 0x00, 0x1E, 0x33, 0x03, 0x33, 0x1E, 0x00],
    [0x38, 0x30, 0x30, 0x3E, 0x33, 0x33, 0x6E, 0x00],
    [0x00, 0x00, 0x1E, 0x33, 0x3F, 0x03, 0x1E, 0x00],
    [0x1C, 0x36, 0x06, 0x0F, 0x06, 0x06, 0x0F, 0x00],
    [0x00, 0x00, 0x6E, 0x33, 0x33, 0x3E, 0x30, 0x1F],
    [0x07, 0x06, 0x36, 0x6E, 0x66, 0x66, 0x67, 0x00],
    [0x0C, 0x00, 0x0E, 0x0C, 0x0C, 0x0C, 0x1E, 0x00],
    [0x30, 0x00, 0x30, 0x30, 0x30, 0x33, 0x33, 0x1E],
    [0x07, 0x06, 0x66, 0x36, 0x1E, 0x36, 0x67, 0x00],
    [0x0E, 0x0C, 0x0C, 0x0C, 0x0C, 0x0C, 0x1E, 0x00],
    [0x00, 0x00, 0x33, 0x7F, 0x7F, 0x6B, 0x63, 0x00],
    [0x00, 0x00, 0x1F, 0x33, 0x33, 0x33, 0x33, 0x00],
    [0x00, 0x00, 0x1E, 0x33, 0x33, 0x33, 0x1E, 0x00],
    [0x00, 0x00, 0x3B, 0x66, 0x66, 0x3E, 0x06, 0x0F],
    [0x00, 0x00, 0x6E, 0x33, 0x33, 0x3E, 0x30, 0x78],
    [0x00, 0x00, 0x3B, 0x6E, 0x66, 0x06, 0x0F, 0x00],
    [0x00, 0x00, 0x3E, 0x03, 0x1E, 0x30, 0x1F, 0x00],
    [0x08, 0x0C, 0x3E, 0x0C, 0x0C, 0x2C, 0x18, 0x00],
    [0x00, 0x00, 0x33, 0x33, 0x33, 0x33, 0x6E, 0x00],
    [0x00, 0x00, 0x33, 0x33, 0x33, 0x1E, 0x0C, 0x00],
    [0x00, 0x00, 0x63, 0x6B, 0x7F, 0x7F, 0x36, 0x00],
    [0x00, 0x00, 0x63, 0x36, 0x1C, 0x36, 0x63, 0x00],
    [0x00, 0x00, 0x33, 0x33, 0x33, 0x3E, 0x30, 0x1F],
    [0x00, 0x00, 0x3F, 0x19, 0x0C, 0x26, 0x3F, 0x00],
    [0x38, 0x0C, 0x0C, 0x07, 0x0C, 0x0C, 0x38, 0x00],
    [0x18, 0x18, 0x18, 0x00, 0x18, 0x18, 0x18, 0x00],
    [0x07, 0x0C, 0x0C, 0x38, 0x0C, 0x0C, 0x07, 0x00],
    [0x6E, 0x3B, 0x00, 0x00, 0x00, 0x00, 0x00, 0x00],
    [0x00, 0x00, 0x00, 0x00, 0x00, 0x00, 0x00, 0x00]]"

record framebuffer_color_t =
  red :: u8
  green :: u8
  blue :: u8

record framebuffer_t =
  fb_address :: u32
  fb_pitch :: u32
  fb_width :: u32
  fb_height :: u32
  fb_bpp :: u8
  fb_size :: u32
  red_field_position :: u8
  green_field_position :: u8
  blue_field_position :: u8
  fb_foreground :: framebuffer_color_t
  fb_background :: framebuffer_color_t
  fb_cursor_x :: u32
  fb_cursor_y :: u32
  fb_memory :: "u32 \<Rightarrow> u8"

record framebuffer_sprite_t =
  pixels :: "u32 \<Rightarrow> u32"
  sprite_width :: u32
  sprite_height :: u32

datatype framebuffer_result_t = FRAMEBUFFER_RESULT_OK

text \<open>The fields of the boot information that describe the frame buffer.\<close>

record multiboot_framebuffer = multiboot_info_t +
  framebuffer_addr :: u64
  framebuffer_pitch :: u32
  framebuffer_width :: u32
  framebuffer_height :: u32
  framebuffer_bpp :: u8
  framebuffer_red_field_position :: u8
  framebuffer_green_field_position :: u8
  framebuffer_blue_field_position :: u8

section \<open>Operations\<close>

definition i32 :: "int \<Rightarrow> int" where "i32 = signed_take_bit 31"

definition framebuffer_create :: "framebuffer_t \<Rightarrow> framebuffer_result_t \<times> framebuffer_t" where
  "framebuffer_create fb = (FRAMEBUFFER_RESULT_OK,
     fb\<lparr>fb_foreground := \<lparr>red = 255, green = 255, blue = 255\<rparr>, fb_background := \<lparr>red = 0x42, green = 0x42, blue = 0x42\<rparr>\<rparr>)"

definition framebuffer_driver_init ::
    "multiboot_framebuffer \<Rightarrow> framebuffer_t \<Rightarrow> 'a machine_scheme \<Rightarrow> (framebuffer_t \<times> 'a machine_scheme) option" where
  "framebuffer_driver_init multiboot fb s =
     (let physical_address = ucast (framebuffer_addr multiboot);
          pitch = framebuffer_pitch multiboot;
          height = framebuffer_height multiboot;
          size_bytes = pitch * height;
          fb = snd (framebuffer_create fb)
      in do {
        (address, s) \<leftarrow> memory_paging_map_physical_range physical_address size_bytes KERNEL_FRAMEBUFFER_VIRTUAL_START
          PAGE_READ_WRITE s;
        Some (fb\<lparr>fb_address := address, fb_pitch := pitch, fb_width := framebuffer_width multiboot, fb_height := height,
          fb_bpp := framebuffer_bpp multiboot, fb_size := size_bytes,
          red_field_position := framebuffer_red_field_position multiboot,
          green_field_position := framebuffer_green_field_position multiboot,
          blue_field_position := framebuffer_blue_field_position multiboot\<rparr>, s)
      })"

definition framebuffer_set_color ::
    "framebuffer_color_t \<Rightarrow> framebuffer_color_t \<Rightarrow> framebuffer_t \<Rightarrow> framebuffer_result_t \<times> framebuffer_t" where
  "framebuffer_set_color foreground background fb =
     (FRAMEBUFFER_RESULT_OK, fb\<lparr>fb_foreground := foreground, fb_background := background\<rparr>)"

definition field_color :: "framebuffer_t \<Rightarrow> u8 \<Rightarrow> u8 \<Rightarrow> u8 \<Rightarrow> u32" where
  "field_color fb r g b =
     (push_bit (unat (red_field_position fb)) (ucast r) OR push_bit (unat (green_field_position fb)) (ucast g)
        OR push_bit (unat (blue_field_position fb)) (ucast b))"

text \<open>At 32 bits per pixel \<^verbatim>\<open>framebuffer_put_pixel\<close> stores through a pointer to a byte.\<close>

definition framebuffer_put_pixel :: "u32 \<Rightarrow> u32 \<Rightarrow> u8 \<Rightarrow> u8 \<Rightarrow> u8 \<Rightarrow> framebuffer_t \<Rightarrow> framebuffer_t" where
  "framebuffer_put_pixel x y r g b fb =
     (let pixel = fb_address fb + y * fb_pitch fb + x * ucast (fb_bpp fb div 8);
          color = field_color fb r g b;
          m = fb_memory fb
      in fb\<lparr>fb_memory :=
        (if fb_bpp fb = 32 then m(pixel := ucast color)
         else if fb_bpp fb = 24
         then m(pixel := ucast (color AND 0xFF), pixel + 1 := ucast (drop_bit 8 color AND 0xFF),
                pixel + 2 := ucast (drop_bit 16 color AND 0xFF))
         else if fb_bpp fb = 16 then m(pixel := ucast color, pixel + 1 := ucast (drop_bit 8 color))
         else m)\<rparr>)"

text \<open>One pixel of \<^verbatim>\<open>framebuffer_blit\<close>, with the number of bytes that the destination moves on.\<close>

definition blit_pixel :: "framebuffer_t \<Rightarrow> u32 \<Rightarrow> u32 \<Rightarrow> (u32 \<Rightarrow> u8) \<Rightarrow> (u32 \<Rightarrow> u8) \<times> u32" where
  "blit_pixel fb raw_color dest m =
     (let r = ucast (drop_bit 16 raw_color AND 0xFF); g = ucast (drop_bit 8 raw_color AND 0xFF); b = ucast (raw_color AND 0xFF);
          color = field_color fb r g b
      in if fb_bpp fb = 32
         then (m(dest := ucast color, dest + 1 := ucast (drop_bit 8 color), dest + 2 := ucast (drop_bit 16 color),
                 dest + 3 := ucast (drop_bit 24 color)), 4)
         else if fb_bpp fb = 24
         then (m(dest := ucast (color AND 0xFF), dest + 1 := ucast (drop_bit 8 color AND 0xFF),
                 dest + 2 := ucast (drop_bit 16 color AND 0xFF)), 3)
         else if fb_bpp fb = 16 then (m(dest := ucast color, dest + 1 := ucast (drop_bit 8 color)), 2)
         else (m, 0))"

fun blit_row :: "framebuffer_t \<Rightarrow> (u32 \<Rightarrow> u32) \<Rightarrow> nat \<Rightarrow> u32 \<Rightarrow> u32 \<Rightarrow> (u32 \<Rightarrow> u8) \<Rightarrow> u32 \<Rightarrow> u8" where
  "blit_row fb src 0 src_pixel dest_pixel m = m"
| "blit_row fb src (Suc n) src_pixel dest_pixel m =
     (let (m, step) = blit_pixel fb (src src_pixel) dest_pixel m
      in blit_row fb src n (src_pixel + 1) (dest_pixel + step) m)"

fun blit_rows ::
    "framebuffer_t \<Rightarrow> framebuffer_sprite_t \<Rightarrow> nat \<Rightarrow> nat \<Rightarrow> u32 \<Rightarrow> u32 \<Rightarrow> (u32 \<Rightarrow> u8) \<Rightarrow> u32 \<Rightarrow> u8" where
  "blit_rows fb source src_w 0 src_row dest_row m = m"
| "blit_rows fb source src_w (Suc n) src_row dest_row m =
     blit_rows fb source src_w n (src_row + sprite_width source) (dest_row + fb_pitch fb)
       (blit_row fb (pixels source) src_w src_row dest_row m)"

text \<open>
  Clipping along one axis: the first source coordinate, the length and the destination, for a
  destination \<open>dest\<close>, a source of length \<open>len\<close> and a frame buffer of length \<open>extent\<close>.
\<close>

definition clip_axis :: "int \<Rightarrow> int \<Rightarrow> u32 \<Rightarrow> int \<times> int \<times> int" where
  "clip_axis dest len extent =
     (let (src, len, dest) = (if dest < 0 then (i32 (- dest), i32 (len + dest), 0) else (0, len, dest));
          len = (if i32 (dest + len) > sint extent then sint (extent - word_of_int dest) else len)
      in (src, len, dest))"

definition framebuffer_blit :: "int \<Rightarrow> int \<Rightarrow> framebuffer_sprite_t option \<Rightarrow> framebuffer_t \<Rightarrow> framebuffer_t" where
  "framebuffer_blit dest_x dest_y source fb =
     (case source of None \<Rightarrow> fb
      | Some source \<Rightarrow>
          if dest_x \<ge> sint (fb_width fb) \<or> dest_y \<ge> sint (fb_height fb) then fb
          else if i32 (dest_x + sint (sprite_width source)) < 0 \<or> i32 (dest_y + sint (sprite_height source)) < 0 then fb
          else let (src_x, src_w, dest_x) = clip_axis dest_x (sint (sprite_width source)) (fb_width fb);
                   (src_y, src_h, dest_y) = clip_axis dest_y (sint (sprite_height source)) (fb_height fb);
                   bytes_per_pixel = ucast (fb_bpp fb) div 8;
                   dest_row = fb_address fb + word_of_int dest_y * fb_pitch fb + word_of_int dest_x * bytes_per_pixel;
                   src_row = word_of_int src_y * sprite_width source + word_of_int src_x
               in fb\<lparr>fb_memory := blit_rows fb source (nat src_w) (nat src_h) src_row dest_row (fb_memory fb)\<rparr>)"

definition color_word :: "framebuffer_color_t \<Rightarrow> u32" where
  "color_word c = (push_bit 16 (ucast (red c)) OR push_bit 8 (ucast (green c)) OR ucast (blue c))"

text \<open>The loops that fill the 64 pixels of a character.\<close>

definition glyph_pixels :: "u8 list \<Rightarrow> u32 \<Rightarrow> u32 \<Rightarrow> u32 list" where
  "glyph_pixels glyph fg bg =
     concat (map (\<lambda>row. map (\<lambda>col. if (glyph ! row) AND push_bit col 1 \<noteq> 0 then fg else bg) [0..<unat FONT8X8_WIDTH])
       [0..<unat FONT8X8_HEIGHT])"

definition glyph_of :: "char \<Rightarrow> u8 list" where
  "glyph_of character =
     (let code = of_char character :: u8; code = (if code \<ge> 128 then of_char (CHR ''?'') else code)
      in font8x8_basic ! unat code)"

definition framebuffer_put_char :: "char \<Rightarrow> u32 \<Rightarrow> u32 \<Rightarrow> framebuffer_t \<Rightarrow> framebuffer_t" where
  "framebuffer_put_char character x y fb =
     (let fg = color_word (fb_foreground fb); bg = color_word (fb_background fb);
          ps = glyph_pixels (glyph_of character) fg bg;
          sprite = \<lparr>pixels = (\<lambda>i. ps ! unat i), sprite_width = FONT8X8_WIDTH, sprite_height = FONT8X8_HEIGHT\<rparr>
      in framebuffer_blit (sint (x * FONT8X8_WIDTH)) (sint (y * FONT8X8_HEIGHT)) (Some sprite) fb)"

definition framebuffer_set_cursor :: "u32 \<Rightarrow> u32 \<Rightarrow> framebuffer_t \<Rightarrow> framebuffer_t" where
  "framebuffer_set_cursor x y fb =
     (let fb = fb\<lparr>fb_cursor_x := x, fb_cursor_y := y\<rparr>
      in framebuffer_put_char (CHR ''_'') (fb_cursor_x fb) (fb_cursor_y fb) fb)"

definition framebuffer_get_dimensions :: "framebuffer_t \<Rightarrow> u32 \<times> u32" where
  "framebuffer_get_dimensions fb = (fb_width fb div FONT8X8_WIDTH, fb_height fb div FONT8X8_HEIGHT)"

definition framebuffer_driver :: "framebuffer_t text_display_driver_t" where
  "framebuffer_driver = \<lparr>put_char = framebuffer_put_char, set_cursor = framebuffer_set_cursor,
     get_dimensions = framebuffer_get_dimensions\<rparr>"

definition framebuffer_is_valid_user_pointer :: "u32 \<Rightarrow> u32 \<Rightarrow> bool" where
  "framebuffer_is_valid_user_pointer pointer len =
     (let last = pointer + len in if last < pointer then False else last \<le> KERNEL_VIRTUAL_SPACE_START)"

text \<open>The device file: writing copies bytes of the caller's memory to the frame buffer.\<close>

fun copy_to_device :: "nat \<Rightarrow> cmem \<Rightarrow> u32 \<Rightarrow> u32 \<Rightarrow> (u32 \<Rightarrow> u8) \<Rightarrow> u32 \<Rightarrow> u8" where
  "copy_to_device 0 src d p m = m"
| "copy_to_device (Suc n) src d p m = copy_to_device n src (d + 1) (p + 1) (m(d := of_char (src p)))"

definition framebuffer_dev_write ::
    "u32 \<Rightarrow> cmem \<Rightarrow> u32 \<Rightarrow> u32 \<Rightarrow> framebuffer_t \<Rightarrow> resource_result_t \<times> u32 \<times> framebuffer_t" where
  "framebuffer_dev_write offset src buf len fb =
     (if offset \<ge> fb_size fb then (RESOURCE_RESULT_OK, 0, fb)
      else let available = fb_size fb - offset;
               to_write = (if len < available then len else available)
           in (RESOURCE_RESULT_OK, to_write,
               fb\<lparr>fb_memory := copy_to_device (unat to_write) src (fb_address fb + offset) buf (fb_memory fb)\<rparr>))"

definition sizeof_fb_info :: u32 where "sizeof_fb_info = 24"

definition framebuffer_dev_ioctl :: "u32 \<Rightarrow> u32 \<Rightarrow> framebuffer_t \<Rightarrow> cmem \<Rightarrow> resource_result_t \<times> cmem" where
  "framebuffer_dev_ioctl command argument fb m =
     (if command = FBIOGET_INFO
      then if \<not> framebuffer_is_valid_user_pointer argument sizeof_fb_info then (RESOURCE_RESULT_BAD_PARAMETER, m)
           else let m = store_u32 argument (fb_width fb) m;
                    m = store_u32 (argument + 4) (fb_height fb) m;
                    m = store_u32 (argument + 8) (fb_pitch fb) m;
                    m = store_u32 (argument + 12) (ucast (fb_bpp fb)) m;
                    m = store_u32 (argument + 16) (fb_size fb) m
                in (RESOURCE_RESULT_OK, m(argument + 20 := char_of (unat (red_field_position fb)),
                      argument + 21 := char_of (unat (green_field_position fb)), argument + 22 := char_of (unat (blue_field_position fb))))
      else (RESOURCE_RESULT_BAD_PARAMETER, m))"


section \<open>Drawing a sprite\<close>

text \<open>The bytes of a colour, least significant first, and the colour that a sprite's pixel becomes.\<close>

definition color_byte :: "u32 \<Rightarrow> nat \<Rightarrow> u8" where
  "color_byte color k = ucast (drop_bit (8 * k) color)"

definition screen_color :: "framebuffer_t \<Rightarrow> u32 \<Rightarrow> u32" where
  "screen_color fb raw =
     field_color fb (ucast (drop_bit 16 raw AND 0xFF)) (ucast (drop_bit 8 raw AND 0xFF)) (ucast (raw AND 0xFF))"

definition pixel_bytes :: "framebuffer_t \<Rightarrow> nat" where
  "pixel_bytes fb = unat (fb_bpp fb) div 8"

definition deep :: "framebuffer_t \<Rightarrow> bool" where
  "deep fb \<longleftrightarrow> fb_bpp fb = 16 \<or> fb_bpp fb = 24 \<or> fb_bpp fb = 32"

lemma deep_bytes: "deep fb \<Longrightarrow> pixel_bytes fb \<in> {2, 3, 4} \<and> 0 < pixel_bytes fb \<and> pixel_bytes fb < 2 ^ 32"
  by (auto simp: deep_def pixel_bytes_def)

lemma color_byte_low: "ucast (color AND 0xFF) = color_byte color 0" "ucast color = color_byte color 0"
  "ucast (drop_bit 8 color AND 0xFF) = color_byte color (Suc 0)" "ucast (drop_bit 8 color) = color_byte color (Suc 0)"
  "ucast (drop_bit 16 color AND 0xFF) = color_byte color 2" "ucast (drop_bit 16 color) = color_byte color 2"
  "ucast (drop_bit 24 color) = color_byte color 3"
proof -
  have m: "(0xFF :: u32) = mask 8" by (simp add: mask_eq_exp_minus_1)
  have "(ucast (v AND 0xFF) :: u8) = ucast v" for v :: u32
    unfolding m by (rule bit_word_eqI) (auto simp: bit_simps)
  then show "ucast (color AND 0xFF) = color_byte color 0" "ucast color = color_byte color 0"
    "ucast (drop_bit 8 color AND 0xFF) = color_byte color (Suc 0)" "ucast (drop_bit 8 color) = color_byte color (Suc 0)"
    "ucast (drop_bit 16 color AND 0xFF) = color_byte color 2" "ucast (drop_bit 16 color) = color_byte color 2"
    "ucast (drop_bit 24 color) = color_byte color 3" by (simp_all add: color_byte_def)
qed

lemma unat_plus_small: "unat d + n \<le> 2 ^ 32 \<Longrightarrow> k < n \<Longrightarrow> unat (d + of_nat k) = unat d + k" for d :: u32
  by (simp add: unat_word_ariths unat_of_nat_u32)

lemma offset_eq_iff:
  fixes d q :: u32
  assumes "unat d + n \<le> 2 ^ 32" "k < n"
  shows "q = d + of_nat k \<longleftrightarrow> unat d \<le> unat q \<and> unat q - unat d = k"
proof -
  have "q = d + of_nat k \<longleftrightarrow> unat q = unat d + k" unfolding word_unat_eq_iff using unat_plus_small [OF assms] by simp
  then show ?thesis by auto
qed

lemma blit_pixel_bytes:
  assumes "deep fb" "unat d + pixel_bytes fb \<le> 2 ^ 32"
  shows "snd (blit_pixel fb raw d m) = of_nat (pixel_bytes fb)"
    "fst (blit_pixel fb raw d m) q =
       (if unat d \<le> unat q \<and> unat q < unat d + pixel_bytes fb
        then color_byte (screen_color fb raw) (unat q - unat d) else m q)"
proof -
  define c where "c = screen_color fb raw"
  note C = blit_pixel_def Let_def color_byte_low [of c] c_def [unfolded screen_color_def, symmetric]
  show "snd (blit_pixel fb raw d m) = of_nat (pixel_bytes fb)"
    using assms(1) by (auto simp: blit_pixel_def Let_def deep_def pixel_bytes_def)
  note eq = offset_eq_iff [OF assms(2), of 0 q] offset_eq_iff [OF assms(2), of "Suc 0" q]
    offset_eq_iff [OF assms(2), of 2 q] offset_eq_iff [OF assms(2), of 3 q]
  consider "fb_bpp fb = 16" "pixel_bytes fb = 2" | "fb_bpp fb = 24" "pixel_bytes fb = 3" | "fb_bpp fb = 32" "pixel_bytes fb = 4"
    using assms(1) by (auto simp: deep_def pixel_bytes_def)
  then show "fst (blit_pixel fb raw d m) q =
       (if unat d \<le> unat q \<and> unat q < unat d + pixel_bytes fb
        then color_byte (screen_color fb raw) (unat q - unat d) else m q)"
  proof cases
    case 1
    then show ?thesis using eq(1,2) unfolding c_def [symmetric] by (auto simp: C)
  next
    case 2
    then show ?thesis using eq(1-3) unfolding c_def [symmetric] by (auto simp: C)
  next
    case 3
    then show ?thesis using eq unfolding c_def [symmetric] by (auto simp: C)
  qed
qed


lemma blit_row_bytes:
  assumes "deep fb" "unat d + n * pixel_bytes fb \<le> 2 ^ 32"
  shows "blit_row fb src n i d m q =
    (let off = unat q - unat d in
     if unat d \<le> unat q \<and> off < n * pixel_bytes fb
     then color_byte (screen_color fb (src (i + of_nat (off div pixel_bytes fb)))) (off mod pixel_bytes fb) else m q)"
  using assms(2)
proof (induction n arbitrary: i d m)
  case (Suc n)
  let ?B = "pixel_bytes fb"
  let ?o = "unat q - unat d"
  have B: "0 < ?B" "?B < 2 ^ 32" using deep_bytes [OF assms(1)] by simp_all
  have fits: "unat d + ?B \<le> 2 ^ 32" using Suc.prems by simp
  note P = blit_pixel_bytes [OF assms(1) fits]
  let ?m = "fst (blit_pixel fb (src i) d m)" and ?d = "d + of_nat ?B"
  have step: "blit_row fb src (Suc n) i d m q = blit_row fb src n (i + 1) ?d ?m q"
    by (simp add: P(1) split_beta Let_def)
  show ?case
  proof (cases "n = 0")
    case True
    then show ?thesis using step P(2) [of "src i" m q] B by (simp add: Let_def) linarith
  next
    case False
    then have "unat d + ?B < 2 ^ 32"
      using Suc.prems B by (cases n) (auto simp: algebra_simps)
    then have d: "unat ?d = unat d + ?B" using B by (simp add: unat_word_ariths unat_of_nat_u32)
    then have "unat ?d + n * ?B \<le> 2 ^ 32" using Suc.prems by simp
    note IH = Suc.IH [OF this]
    consider "unat q < unat d" | "unat d \<le> unat q" "?o < ?B" | "unat d \<le> unat q" "?B \<le> ?o" by linarith
    then show ?thesis
    proof cases
      case 1
      then show ?thesis unfolding step IH using P(2) d by (simp add: Let_def)
    next
      case 2
      then have "?o < Suc n * ?B" by simp
      then show ?thesis unfolding step IH using 2 P(2) [of "src i" m q] d B by (simp add: Let_def) linarith
    next
      case 3
      then have o: "unat q - unat ?d = ?o - ?B" "unat ?d \<le> unat q" "\<not> unat q < unat d + ?B" using d by linarith+
      have "?o div ?B = Suc ((?o - ?B) div ?B)" "?o mod ?B = (?o - ?B) mod ?B"
        using 3 B by (simp_all add: le_div_geq le_mod_geq)
      then show ?thesis unfolding step IH Let_def o(1)
        using o(2,3) 3 P(2) [of "src i" m q] by (auto simp: add.assoc)
    qed
  qed
qed simp

lemma blit_rows_none: "blit_rows fb sp 0 n i d m = m"
  by (induction n arbitrary: i d) auto

lemma blit_rows_bytes:
  assumes "deep fb" "w * pixel_bytes fb \<le> unat (fb_pitch fb)"
    and "0 < n \<longrightarrow> unat d + (n - 1) * unat (fb_pitch fb) + w * pixel_bytes fb \<le> 2 ^ 32"
  shows "blit_rows fb sp w n i d m q =
    (let off = unat q - unat d; y = off div unat (fb_pitch fb); b = off mod unat (fb_pitch fb) in
     if unat d \<le> unat q \<and> y < n \<and> b < w * pixel_bytes fb
     then color_byte (screen_color fb (pixels sp (i + of_nat y * sprite_width sp + of_nat (b div pixel_bytes fb))))
       (b mod pixel_bytes fb)
     else m q)"
proof (cases "w = 0")
  case True
  then show ?thesis by (simp add: blit_rows_none)
next
  case False
  let ?B = "pixel_bytes fb" and ?P = "unat (fb_pitch fb)"
  have B: "0 < ?B" using deep_bytes [OF assms(1)] by simp
  then have wB: "0 < w * ?B" using False by simp
  have P: "0 < ?P" using assms(2) wB by linarith
  show ?thesis using assms(3)
  proof (induction n arbitrary: i d m)
    case (Suc n)
    let ?o = "unat q - unat d"
    let ?m = "blit_row fb (pixels sp) w i d m" and ?d = "d + fb_pitch fb"
    have "unat d + w * ?B \<le> 2 ^ 32" using Suc.prems by simp
    note R = blit_row_bytes [OF assms(1) this, of "pixels sp" i m q]
    show ?case
    proof (cases "n = 0")
      case True
      then show ?thesis using R P assms(2) by (auto simp: Let_def div_eq_0_iff)
    next
      case False
      then obtain k where k: "n = Suc k" by (cases n) auto
      have "unat d + ?P + k * ?P + w * ?B \<le> 2 ^ 32" using Suc.prems k by (simp add: algebra_simps)
      then have "unat d + ?P < 2 ^ 32" using wB by linarith
      then have d: "unat ?d = unat d + ?P" by (simp add: unat_word_ariths)
      have "0 < n \<longrightarrow> unat ?d + (n - 1) * ?P + w * ?B \<le> 2 ^ 32" using Suc.prems d k by simp
      note IH = Suc.IH [OF this, of "i + sprite_width sp" ?m]
      consider "unat q < unat d" | "unat d \<le> unat q" "?o < ?P" | "unat d \<le> unat q" "?P \<le> ?o" by linarith
      then show ?thesis
      proof cases
        case 1
        then show ?thesis using IH R d by (simp add: Let_def)
      next
        case 2
        then have "?o div ?P = 0" "?o mod ?P = ?o" "\<not> unat ?d \<le> unat q" using d by auto
        then show ?thesis using IH R 2 by (simp add: Let_def)
      next
        case 3
        then have o: "unat q - unat ?d = ?o - ?P" "unat ?d \<le> unat q" "\<not> ?o < w * ?B" using d assms(2) by linarith+
        have "?o div ?P = Suc ((?o - ?P) div ?P)" "?o mod ?P = (?o - ?P) mod ?P"
          using 3 P by (simp_all add: le_div_geq le_mod_geq)
        then show ?thesis using IH R o 3 by (auto simp: Let_def algebra_simps)
      qed
    qed
  qed simp
qed


text \<open>A frame buffer whose rows fit its pitch and whose memory does not wrap around.\<close>

definition fb_ok :: "framebuffer_t \<Rightarrow> bool" where
  "fb_ok fb \<longleftrightarrow> deep fb \<and> 0 < fb_width fb \<and> 0 < fb_height fb \<and> unat (fb_width fb) * pixel_bytes fb \<le> unat (fb_pitch fb) \<and>
     unat (fb_address fb) + unat (fb_height fb) * unat (fb_pitch fb) \<le> 2 ^ 32 \<and>
     unat (fb_width fb) < 2 ^ 30 \<and> unat (fb_height fb) < 2 ^ 30"

text \<open>The column and row of the pixel that an address belongs to, and the byte of the pixel.\<close>

definition pixel_of :: "framebuffer_t \<Rightarrow> u32 \<Rightarrow> (nat \<times> nat \<times> nat) option" where
  "pixel_of fb q =
     (let off = unat q - unat (fb_address fb); y = off div unat (fb_pitch fb); b = off mod unat (fb_pitch fb) in
      if fb_address fb \<le> q \<and> y < unat (fb_height fb) \<and> b < unat (fb_width fb) * pixel_bytes fb
      then Some (b div pixel_bytes fb, y, b mod pixel_bytes fb) else None)"

definition drawn :: "int \<Rightarrow> int \<Rightarrow> framebuffer_sprite_t \<Rightarrow> framebuffer_t \<Rightarrow> u32 \<Rightarrow> u8" where
  "drawn dest_x dest_y sp fb q =
     (case pixel_of fb q of None \<Rightarrow> fb_memory fb q
      | Some (x, y, k) \<Rightarrow>
          let sx = int x - dest_x; sy = int y - dest_y; w = int (unat (sprite_width sp)); h = int (unat (sprite_height sp)) in
          if 0 \<le> sx \<and> sx < w \<and> 0 \<le> sy \<and> sy < h
          then color_byte (screen_color fb (pixels sp (word_of_int (sy * w + sx)))) k else fb_memory fb q)"

lemma i32_id: "- (2 ^ 31) \<le> x \<Longrightarrow> x < 2 ^ 31 \<Longrightarrow> i32 x = x"
  by (simp add: i32_def signed_take_bit_int_eq_self)

lemma clip_axis_result:
  assumes "- (2 ^ 30) \<le> dest" "dest < int (unat extent)" "0 \<le> len" "len < 2 ^ 30" "unat extent < 2 ^ 31" "0 \<le> dest + len"
    and "dest + len < 2 ^ 31"
  shows "clip_axis dest len extent = (max 0 (- dest), min (dest + len) (int (unat extent)) - max 0 dest, max 0 dest)"
proof -
  have e: "sint extent = int (unat extent)" using assms(5) by (rule sint_unat)
  have sub: "sint (extent - word_of_int d) = int (unat extent) - d" if d: "0 \<le> d" "d < int (unat extent)" for d
  proof -
    obtain k where k: "d = int k" using d(1) nonneg_int_cases by blast
    have lt: "k < unat extent" using d(2) unfolding k by (simp only: of_nat_less_iff)
    then have "unat (of_nat k :: u32) = k" using assms(5) by (intro unat_of_nat_u32) simp
    then have u: "unat (extent - of_nat k) = unat extent - k" using lt by (simp add: unat_sub word_le_nat_alt)
    then have "sint (extent - of_nat k) = int (unat extent - k)" using sint_unat [of "extent - of_nat k"] assms(5) by simp
    then show ?thesis using lt k by (simp only: of_nat_diff [OF less_imp_le [OF lt]] of_int_of_nat_eq)
  qed
  show ?thesis
    using assms e sub [of "max 0 dest"] by (auto simp: clip_axis_def i32_id Let_def max_def min_def)
qed


text \<open>Positions relative to a corner inside of the grid.\<close>

lemma inner_offset:
  fixes A D P dx dy w n q :: nat
  assumes D: "D = A + dy * P + dx" and P: "dx + w \<le> P" "0 < P"
  shows "D \<le> q \<and> (q - D) div P < n \<and> (q - D) mod P < w \<longleftrightarrow>
      A \<le> q \<and> dy \<le> (q - A) div P \<and> (q - A) div P < dy + n \<and> dx \<le> (q - A) mod P \<and> (q - A) mod P < dx + w"
    "A \<le> q \<Longrightarrow> dy \<le> (q - A) div P \<Longrightarrow> dx \<le> (q - A) mod P \<Longrightarrow> (q - A) mod P < dx + w \<Longrightarrow>
      (q - D) div P = (q - A) div P - dy \<and> (q - D) mod P = (q - A) mod P - dx"
proof -
  have split: "(q - A) div P = dy + (q - D) div P \<and> (q - A) mod P = dx + (q - D) mod P"
    if "D \<le> q" "(q - D) mod P < w"
  proof -
    have "q - A = (dy + (q - D) div P) * P + (dx + (q - D) mod P)"
      using that(1) D div_mult_mod_eq [of "q - D" P] by (simp add: algebra_simps)
    then show ?thesis using that(2) P by simp
  qed
  show part: "(q - D) div P = (q - A) div P - dy \<and> (q - D) mod P = (q - A) mod P - dx"
    if "A \<le> q" "dy \<le> (q - A) div P" "dx \<le> (q - A) mod P" "(q - A) mod P < dx + w"
  proof -
    have "dy * P \<le> (q - A) div P * P" using that(2) by simp
    define r where "r = (q - A) mod P - dx"
    have "q - D = ((q - A) div P - dy) * P + r"
      using that D div_mult_mod_eq [of "q - A" P] \<open>dy * P \<le> _\<close> by (simp add: diff_mult_distrib r_def)
    moreover have "r < P" using that P by (simp add: r_def)
    ultimately show ?thesis by (simp add: r_def [symmetric])
  qed
  have "D \<le> q" if "A \<le> q" "dy \<le> (q - A) div P" "dx \<le> (q - A) mod P"
  proof -
    have "dy * P \<le> (q - A) div P * P" using that(2) by simp
    then show ?thesis using that D div_mult_mod_eq [of "q - A" P] by linarith
  qed
  note below = this
  show "D \<le> q \<and> (q - D) div P < n \<and> (q - D) mod P < w \<longleftrightarrow>
      A \<le> q \<and> dy \<le> (q - A) div P \<and> (q - A) div P < dy + n \<and> dx \<le> (q - A) mod P \<and> (q - A) mod P < dx + w"
  proof (intro iffI; elim conjE)
    assume q: "D \<le> q" "(q - D) div P < n" "(q - D) mod P < w"
    have "A \<le> q" using q(1) D by linarith
    then show "A \<le> q \<and> dy \<le> (q - A) div P \<and> (q - A) div P < dy + n \<and> dx \<le> (q - A) mod P \<and> (q - A) mod P < dx + w"
      using split [OF q(1,3)] q(2,3) by linarith
  next
    assume q: "A \<le> q" "dy \<le> (q - A) div P" "(q - A) div P < dy + n" "dx \<le> (q - A) mod P" "(q - A) mod P < dx + w"
    then show "D \<le> q \<and> (q - D) div P < n \<and> (q - D) mod P < w"
      using below [OF q(1,2,4)] part [OF q(1,2,4,5)] by linarith
  qed
qed


lemma fb_okD:
  assumes "fb_ok fb"
  shows "deep fb" "0 < pixel_bytes fb" "unat (fb_width fb) * pixel_bytes fb \<le> unat (fb_pitch fb)"
    "unat (fb_address fb) + unat (fb_height fb) * unat (fb_pitch fb) \<le> 2 ^ 32"
    "unat (fb_height fb) < 2 ^ 31" "unat (fb_width fb) < 2 ^ 31"
    "unat (fb_height fb) < 2 ^ 30" "unat (fb_width fb) < 2 ^ 30"
  using assms deep_bytes [of fb] by (simp_all add: fb_ok_def)

text \<open>The rectangle that is left after clipping, in natural numbers.\<close>

lemma blit_rect:
  fixes fb :: framebuffer_t
  defines "B \<equiv> pixel_bytes fb" and "P \<equiv> unat (fb_pitch fb)" and "A \<equiv> unat (fb_address fb)"
  assumes ok: "fb_ok fb" and dx: "dx < unat (fb_width fb)" "dx + w \<le> unat (fb_width fb)"
    and dy: "dy < unat (fb_height fb)" "dy + n \<le> unat (fb_height fb)"
    and d: "d = fb_address fb + of_nat dy * fb_pitch fb + of_nat dx * (ucast (fb_bpp fb) div 8)"
  shows "unat d = A + dy * P + dx * B" "dx * B + w * B \<le> P" "0 < P"
    "0 < n \<longrightarrow> unat d + (n - 1) * P + w * B \<le> 2 ^ 32"
proof -
  note O = fb_okD [OF ok, folded B_def P_def A_def]
  have s: "dx * B + w * B \<le> unat (fb_width fb) * B" using dx(2) by (simp flip: add_mult_distrib)
  then show rows: "dx * B + w * B \<le> P" using O(3) by linarith
  have x: "dx * B < P" using dx(1) O(2,3) mult_less_mono1 [of dx "unat (fb_width fb)" B] by linarith
  then show "0 < P" by simp
  have H: "Suc dy * P \<le> unat (fb_height fb) * P" using dy(1) by (intro mult_le_mono1) simp
  then have lt: "A + dy * P + dx * B < 2 ^ 32" using O(4) x by simp
  have b: "unat (ucast (fb_bpp fb) div 8 :: u32) = B"
    using O(1) by (auto simp: B_def deep_def pixel_bytes_def)
  have "dy * P < 2 ^ 32" "dx * B < 2 ^ 32" "A + dy * P < 2 ^ 32" using lt by linarith+
  moreover have "unat (of_nat dy :: u32) = dy" "unat (of_nat dx :: u32) = dx"
    using dx dy O(5,6) by (simp_all add: unat_of_nat_u32)
  ultimately show ud: "unat d = A + dy * P + dx * B"
    using lt b unfolding d by (simp add: unat_word_ariths A_def P_def)
  show "0 < n \<longrightarrow> unat d + (n - 1) * P + w * B \<le> 2 ^ 32"
  proof
    assume "0 < n"
    then have "Suc (dy + (n - 1)) * P \<le> unat (fb_height fb) * P" using dy(2) by (intro mult_le_mono1) simp
    then have "(dy + (n - 1)) * P + P \<le> unat (fb_height fb) * P" by simp
    then show "unat d + (n - 1) * P + w * B \<le> 2 ^ 32" using ud rows O(4) by (simp add: add_mult_distrib)
  qed
qed


lemma pixel_of_inside:
  assumes "fb_ok fb" "pixel_of fb q = Some (x, y, k)"
  shows "x < unat (fb_width fb)" "y < unat (fb_height fb)" "k < pixel_bytes fb"
  using assms(2) fb_okD(2) [OF assms(1)]
  by (auto simp: pixel_of_def Let_def less_mult_imp_div_less split: if_splits)

lemma drawn_outside:
  assumes ok: "fb_ok fb"
    and out: "int (unat (fb_width fb)) \<le> dx \<or> int (unat (fb_height fb)) \<le> dy \<or>
      dx + int (unat (sprite_width sp)) < 0 \<or> dy + int (unat (sprite_height sp)) < 0"
  shows "drawn dx dy sp fb = fb_memory fb"
proof
  fix q
  show "drawn dx dy sp fb q = fb_memory fb q"
  proof (cases "pixel_of fb q")
    case (Some r)
    obtain x y k where r: "r = (x, y, k)" by (cases r)
    have "int x < int (unat (fb_width fb))" "int y < int (unat (fb_height fb))"
      using pixel_of_inside [OF ok Some [unfolded r]] by (simp_all only: of_nat_less_iff)
    then have "\<not> (0 \<le> int x - dx \<and> int x - dx < int (unat (sprite_width sp)) \<and>
        0 \<le> int y - dy \<and> int y - dy < int (unat (sprite_height sp)))"
      using out by linarith
    then show ?thesis unfolding drawn_def Some r option.case prod.case Let_def by (simp only: if_False)
  qed (simp add: drawn_def)
qed

text \<open>The clipped interval of an axis, as the pixels that the sprite and the screen have in common.\<close>

lemma clipped_interval:
  fixes e len :: nat
  assumes "dest < int e" "0 \<le> dest + int len"
  defines "c \<equiv> nat (max 0 dest)" and "n \<equiv> nat (min (dest + int len) (int e) - max 0 dest)"
  shows "c \<le> x \<and> x < c + n \<longleftrightarrow> x < e \<and> 0 \<le> int x - dest \<and> int x - dest < int len" "c + n \<le> e"
    "max 0 (- dest) + int (x - c) = int x - dest \<or> x < c" "0 < e \<longrightarrow> c < e" "int c = max 0 dest"
    "int n = min (dest + int len) (int e) - max 0 dest"
  using assms(1,2) unfolding c_def n_def by linarith+


lemma source_index:
  fixes sp :: framebuffer_sprite_t
  defines "w \<equiv> int (unat (sprite_width sp))"
  assumes "a + int y = sy" "b + int x = sx"
  shows "word_of_int a * sprite_width sp + word_of_int b + of_nat y * sprite_width sp + of_nat x =
    (word_of_int (sy * w + sx) :: u32)"
proof -
  have w: "sprite_width sp = word_of_int w" by (simp add: w_def)
  have "word_of_int a * sprite_width sp + word_of_int b + of_nat y * sprite_width sp + of_nat x =
    (word_of_int (a * w + b + int y * w + int x) :: u32)" unfolding w by simp
  also have "a * w + b + int y * w + int x = sy * w + sx" using assms(2,3) by (simp add: algebra_simps flip: assms(2,3))
  finally show ?thesis .
qed

lemma shift_div: "c * m \<le> b \<Longrightarrow> 0 < m \<Longrightarrow> (b - c * m) div m = b div m - c \<and> (b - c * m) mod m = b mod m" for b c m :: nat
  by (auto dest!: le_Suc_ex)

lemma blit_clipped:
  fixes fb :: framebuffer_t and sp :: framebuffer_sprite_t
  defines "W \<equiv> unat (fb_width fb)" and "H \<equiv> unat (fb_height fb)" and "sw \<equiv> unat (sprite_width sp)"
    and "sh \<equiv> unat (sprite_height sp)"
  assumes ok: "fb_ok fb" and x: "dx < int W" "0 \<le> dx + int sw" and y: "dy < int H" "0 \<le> dy + int sh"
  shows "blit_rows fb sp (nat (min (dx + int sw) (int W) - max 0 dx)) (nat (min (dy + int sh) (int H) - max 0 dy))
      (word_of_int (max 0 (- dy)) * sprite_width sp + word_of_int (max 0 (- dx)))
      (fb_address fb + word_of_int (max 0 dy) * fb_pitch fb + word_of_int (max 0 dx) * (ucast (fb_bpp fb) div 8))
      (fb_memory fb) = drawn dx dy sp fb"
proof
  fix q :: u32
  define cx where "cx = nat (max 0 dx)"
  define w where "w = nat (min (dx + int sw) (int W) - max 0 dx)"
  define cy where "cy = nat (max 0 dy)"
  define h where "h = nat (min (dy + int sh) (int H) - max 0 dy)"
  note X = clipped_interval [OF x, folded cx_def w_def] and Y = clipped_interval [OF y, folded cy_def h_def]
  let ?B = "pixel_bytes fb" and ?P = "unat (fb_pitch fb)" and ?A = "unat (fb_address fb)"
  let ?d = "fb_address fb + of_nat cy * fb_pitch fb + of_nat cx * (ucast (fb_bpp fb) div 8)"
  have c: "word_of_int (max 0 dx) = (of_nat cx :: u32)" "word_of_int (max 0 dy) = (of_nat cy :: u32)"
    using X(5) Y(5) by (metis of_int_of_nat_eq)+
  have pos: "0 < W" "0 < H" using ok by (simp_all add: fb_ok_def W_def H_def word_less_nat_alt)
  note R = blit_rect [OF ok X(4) [rule_format, OF pos(1), unfolded W_def] X(2) [unfolded W_def]
      Y(4) [rule_format, OF pos(2), unfolded H_def] Y(2) [unfolded H_def] refl]
  note O = fb_okD [OF ok]
  have wP: "w * ?B \<le> ?P" using R(2) by linarith
  define row where "row = (unat q - ?A) div ?P"
  define b where "b = (unat q - ?A) mod ?P"
  note I = inner_offset [OF R(1) R(2,3), of "unat q", folded row_def b_def]
  have bx: "cx * ?B \<le> b \<longleftrightarrow> cx \<le> b div ?B" "b < cx * ?B + w * ?B \<longleftrightarrow> b div ?B < cx + w"
    "b < W * ?B \<longleftrightarrow> b div ?B < W"
    using O(2) by (simp_all add: less_eq_div_iff_mult_less_eq div_less_iff_less_mult flip: add_mult_distrib)
  define within where "within \<longleftrightarrow> ?A \<le> unat q \<and> cy \<le> row \<and> row < cy + h \<and> cx * ?B \<le> b \<and> b < cx * ?B + w * ?B"
  let ?i = "word_of_int (max 0 (- dy)) * sprite_width sp + word_of_int (max 0 (- dx)) :: u32"
  have inside: "blit_rows fb sp w h ?i ?d (fb_memory fb) q = drawn dx dy sp fb q" if within
  proof -
    note s = that [unfolded within_def]
    have part: "(unat q - unat ?d) div ?P = row - cy" "(unat q - unat ?d) mod ?P = b - cx * ?B"
      using I(2) s by blast+
    have "blit_rows fb sp w h ?i ?d (fb_memory fb) q =
        color_byte (screen_color fb (pixels sp (?i + of_nat (row - cy) * sprite_width sp + of_nat ((b - cx * ?B) div ?B))))
          ((b - cx * ?B) mod ?B)"
      using blit_rows_bytes [OF O(1) wP R(4), of sp ?i "fb_memory fb" q] I(1) [of h] s part by (simp add: Let_def)
    moreover have "(b - cx * ?B) div ?B = b div ?B - cx" "(b - cx * ?B) mod ?B = b mod ?B"
      using shift_div [of cx ?B b] s O(2) by blast+
    moreover have "?i + of_nat (row - cy) * sprite_width sp + of_nat (b div ?B - cx) =
        word_of_int ((int row - dy) * int (unat (sprite_width sp)) + (int (b div ?B) - dx))"
      by (rule source_index) (use X(3) [of "b div ?B"] Y(3) [of row] s bx in auto)
    moreover have "pixel_of fb q = Some (b div ?B, row, b mod ?B)"
      using s bx X(2) Y(2) by (simp add: pixel_of_def Let_def row_def [symmetric] b_def [symmetric] word_le_nat_alt W_def H_def)
    moreover have "0 \<le> int (b div ?B) - dx \<and> int (b div ?B) - dx < int sw \<and> 0 \<le> int row - dy \<and> int row - dy < int sh"
      using s bx X(1) [of "b div ?B"] Y(1) [of row] by blast
    ultimately show ?thesis unfolding drawn_def by (simp add: Let_def sw_def sh_def)
  qed
  have outside: "blit_rows fb sp w h ?i ?d (fb_memory fb) q = drawn dx dy sp fb q" if "\<not> within"
  proof -
    have "blit_rows fb sp w h ?i ?d (fb_memory fb) q = fb_memory fb q"
      using blit_rows_bytes [OF O(1) wP R(4), of sp ?i "fb_memory fb" q] that
      unfolding Let_def I(1) [of h, folded within_def] by simp
    moreover have "drawn dx dy sp fb q = fb_memory fb q"
    proof (cases "pixel_of fb q")
      case (Some r)
      then have r: "r = (b div ?B, row, b mod ?B)" "?A \<le> unat q" "row < H" "b < W * ?B"
        by (auto simp: pixel_of_def Let_def row_def b_def word_le_nat_alt W_def H_def split: if_splits)
      then have "\<not> (0 \<le> int (b div ?B) - dx \<and> int (b div ?B) - dx < int sw \<and> 0 \<le> int row - dy \<and> int row - dy < int sh)"
        using that bx X(1) [of "b div ?B"] Y(1) [of row] unfolding within_def by blast
      then show ?thesis unfolding drawn_def Some r option.case prod.case Let_def sw_def sh_def by (simp only: if_False)
    qed (simp add: drawn_def)
    ultimately show ?thesis by simp
  qed
  show "blit_rows fb sp (nat (min (dx + int sw) (int W) - max 0 dx)) (nat (min (dy + int sh) (int H) - max 0 dy))
      (word_of_int (max 0 (- dy)) * sprite_width sp + word_of_int (max 0 (- dx)))
      (fb_address fb + word_of_int (max 0 dy) * fb_pitch fb + word_of_int (max 0 dx) * (ucast (fb_bpp fb) div 8))
      (fb_memory fb) q = drawn dx dy sp fb q"
    unfolding c w_def [symmetric] h_def [symmetric] using inside outside by blast
qed


lemma framebuffer_blit_drawn:
  assumes ok: "fb_ok fb" and size: "unat (sprite_width sp) < 2 ^ 30" "unat (sprite_height sp) < 2 ^ 30"
    and dest: "- (2 ^ 30) \<le> dx" "dx \<le> 2 ^ 30" "- (2 ^ 30) \<le> dy" "dy \<le> 2 ^ 30"
  shows "framebuffer_blit dx dy (Some sp) fb = fb\<lparr>fb_memory := drawn dx dy sp fb\<rparr>"
proof -
  let ?w = "int (unat (sprite_width sp))" and ?h = "int (unat (sprite_height sp))"
  let ?W = "int (unat (fb_width fb))" and ?H = "int (unat (fb_height fb))"
  note O = fb_okD [OF ok]
  have iw: "?w < 2 ^ 30" "?h < 2 ^ 30" using size by (metis of_nat_less_iff of_nat_numeral of_nat_power)+
  have s: "sint (sprite_width sp) = ?w" "sint (sprite_height sp) = ?h" "sint (fb_width fb) = ?W" "sint (fb_height fb) = ?H"
    using sint_unat [of "sprite_width sp"] sint_unat [of "sprite_height sp"] sint_unat [of "fb_width fb"]
      sint_unat [of "fb_height fb"] size O(5,6) by simp_all
  have pos: "0 \<le> ?w" "0 \<le> ?h" by (rule of_nat_0_le_iff)+
  have two: "(2 :: int) ^ 31 = 2 * 2 ^ 30" "(1 :: int) \<le> 2 ^ 30" by simp_all
  have ix: "i32 (dx + ?w) = dx + ?w" by (rule i32_id) (use dest iw pos two in linarith)+
  have iy: "i32 (dy + ?h) = dy + ?h" by (rule i32_id) (use dest iw pos two in linarith)+
  show ?thesis
  proof (cases "?W \<le> dx \<or> ?H \<le> dy \<or> dx + ?w < 0 \<or> dy + ?h < 0")
    case True
    then have "framebuffer_blit dx dy (Some sp) fb = fb"
      unfolding framebuffer_blit_def option.case s ix iy by auto
    then show ?thesis using drawn_outside [OF ok True] by simp
  next
    case False
    then have x: "dx < ?W" "0 \<le> dx + ?w" and y: "dy < ?H" "0 \<le> dy + ?h" by linarith+
    have cx: "clip_axis dx ?w (fb_width fb) = (max 0 (- dx), min (dx + ?w) ?W - max 0 dx, max 0 dx)"
      by (rule clip_axis_result) (use dest x iw pos two O(6) in linarith)+
    have cy: "clip_axis dy ?h (fb_height fb) = (max 0 (- dy), min (dy + ?h) ?H - max 0 dy, max 0 dy)"
      by (rule clip_axis_result) (use dest y iw pos two O(5) in linarith)+
    have "\<not> (?W \<le> dx \<or> ?H \<le> dy)" "\<not> (dx + ?w < 0 \<or> dy + ?h < 0)" using False by blast+
    then show ?thesis
      unfolding framebuffer_blit_def option.case s ix iy cx cy Let_def prod.case blit_clipped [OF ok x y]
      by (simp only: if_False)
  qed
qed


lemma drawn_index:
  assumes "0 \<le> sx" "sx < int (unat (sprite_width sp))" "0 \<le> sy" "sy < int (unat (sprite_height sp))"
    and "unat (sprite_width sp) * unat (sprite_height sp) < 2 ^ 32"
  shows "unat (word_of_int (sy * int (unat (sprite_width sp)) + sx) :: u32) = nat sy * unat (sprite_width sp) + nat sx"
    "nat sy * unat (sprite_width sp) + nat sx < unat (sprite_width sp) * unat (sprite_height sp)"
proof -
  obtain x y where xy: "sx = int x" "sy = int y" using assms(1,3) nonneg_int_cases by metis
  have lt: "x < unat (sprite_width sp)" "y < unat (sprite_height sp)"
    using assms(2,4) unfolding xy by (simp_all only: of_nat_less_iff)
  then have g: "y * unat (sprite_width sp) + x < unat (sprite_width sp) * unat (sprite_height sp)" by (rule grid_index)
  then show "nat sy * unat (sprite_width sp) + nat sx < unat (sprite_width sp) * unat (sprite_height sp)" unfolding xy by simp
  have "sy * int (unat (sprite_width sp)) + sx = int (y * unat (sprite_width sp) + x)" unfolding xy by simp
  then show "unat (word_of_int (sy * int (unat (sprite_width sp)) + sx) :: u32) = nat sy * unat (sprite_width sp) + nat sx"
    using unat_of_nat_u32 [of "y * unat (sprite_width sp) + x"] g assms(5) xy by (simp only: of_int_of_nat_eq nat_int) simp
qed

lemma pixel_of_range:
  assumes "fb_ok fb" "pixel_of fb q \<noteq> None"
  shows "unat (fb_address fb) \<le> unat q \<and> unat q < unat (fb_address fb) + unat (fb_height fb) * unat (fb_pitch fb)"
proof -
  let ?o = "unat q - unat (fb_address fb)" and ?P = "unat (fb_pitch fb)"
  have q: "unat (fb_address fb) \<le> unat q" "?o div ?P < unat (fb_height fb)" "?o mod ?P < unat (fb_width fb) * pixel_bytes fb"
    using assms(2) by (auto simp: pixel_of_def Let_def word_le_nat_alt split: if_splits)
  have "0 < ?P" using q(3) fb_okD(3) [OF assms(1)] by linarith
  then have "?o < unat (fb_height fb) * ?P" using q(2) by (simp add: div_less_iff_less_mult)
  then show ?thesis using q(1) by linarith
qed

lemma drawn_cong:
  assumes s: "sprite_width other = sprite_width sp" "sprite_height other = sprite_height sp"
    and pix: "\<And>sx sy. 0 \<le> sx \<and> sx < int (unat (sprite_width sp)) \<and> 0 \<le> sy \<and> sy < int (unat (sprite_height sp)) \<Longrightarrow>
      pixels other (word_of_int (sy * int (unat (sprite_width sp)) + sx)) =
      pixels sp (word_of_int (sy * int (unat (sprite_width sp)) + sx))"
  shows "drawn dx dy other fb = drawn dx dy sp fb"
proof
  fix q
  show "drawn dx dy other fb q = drawn dx dy sp fb q"
  proof (cases "pixel_of fb q")
    case (Some r)
    obtain x y k where r: "r = (x, y, k)" by (cases r)
    show ?thesis
      unfolding drawn_def Some r option.case prod.case Let_def s
      by (rule if_cong) (simp_all only: pix)
  qed (simp add: drawn_def)
qed

lemma concat_grid:
  "concat (map (\<lambda>r. map (f r) [0..<w]) [0..<h]) = map (\<lambda>i. f (i div w) (i mod w)) [0..<h * w]"
proof (induction h)
  case (Suc h)
  have "map (\<lambda>i. f (i div w) (i mod w)) [h * w..<h * w + w] = map (f h) [0..<w]"
    by (rule nth_equalityI) auto
  moreover have "[0..<Suc h * w] = [0..<h * w] @ [h * w..<h * w + w]"
    using upt_add_eq_append [of 0 "h * w" w] by (simp add: add.commute)
  ultimately show ?case using Suc by simp
qed simp

lemma glyph_pixel:
  assumes "x < 8" "y < 8"
  shows "glyph_pixels glyph fg bg ! (y * 8 + x) = (if bit (glyph ! y) x then fg else bg)"
proof -
  have "y * 8 + x < 64" using assms by simp
  moreover have "(glyph ! y) AND push_bit x 1 \<noteq> 0 \<longleftrightarrow> bit (glyph ! y) x"
    using assms(1) by (simp add: bit_iff_and_push_bit_not_eq_0)
  ultimately show ?thesis
    using assms by (simp add: glyph_pixels_def FONT8X8_WIDTH_def FONT8X8_HEIGHT_def concat_grid)
qed

section \<open>Properties\<close>

text \<open>
  (C32) Drawing a sprite at any position, partly or wholly outside of the screen too, paints exactly
  the pixels of the screen that the sprite covers with the sprite's colours, whatever the depth (16,
  24 or 32 bits). Every other byte, the padding at the end of the rows included, stays as it was; no
  byte outside of the frame buffer is written and no pixel outside of the sprite is read.
\<close>

theorem framebuffer_blit_clips:
  assumes "fb_ok fb" and "unat (sprite_width sp) < 2 ^ 30" "unat (sprite_height sp) < 2 ^ 30"
    and "unat (sprite_width sp) * unat (sprite_height sp) < 2 ^ 32"
    and "- (2 ^ 30) \<le> dx" "dx \<le> 2 ^ 30" "- (2 ^ 30) \<le> dy" "dy \<le> 2 ^ 30"
  shows "framebuffer_blit dx dy (Some sp) fb = fb\<lparr>fb_memory := drawn dx dy sp fb\<rparr> \<and>
    (\<forall>q. drawn dx dy sp fb q \<noteq> fb_memory fb q \<longrightarrow>
      unat (fb_address fb) \<le> unat q \<and> unat q < unat (fb_address fb) + unat (fb_height fb) * unat (fb_pitch fb)) \<and>
    (\<forall>other. sprite_width other = sprite_width sp \<and> sprite_height other = sprite_height sp \<and>
      (\<forall>i. unat i < unat (sprite_width sp) * unat (sprite_height sp) \<longrightarrow> pixels other i = pixels sp i) \<longrightarrow>
      framebuffer_blit dx dy (Some other) fb = framebuffer_blit dx dy (Some sp) fb)"
proof (intro conjI allI impI)
  show draw: "framebuffer_blit dx dy (Some sp) fb = fb\<lparr>fb_memory := drawn dx dy sp fb\<rparr>"
    by (rule framebuffer_blit_drawn [OF assms(1-3,5-8)])
  fix q assume "drawn dx dy sp fb q \<noteq> fb_memory fb q"
  then have "pixel_of fb q \<noteq> None" unfolding drawn_def by (cases "pixel_of fb q") simp_all
  then show "unat (fb_address fb) \<le> unat q" "unat q < unat (fb_address fb) + unat (fb_height fb) * unat (fb_pitch fb)"
    using pixel_of_range [OF assms(1)] by blast+
next
  fix other :: framebuffer_sprite_t
  assume s: "sprite_width other = sprite_width sp \<and> sprite_height other = sprite_height sp \<and>
    (\<forall>i. unat i < unat (sprite_width sp) * unat (sprite_height sp) \<longrightarrow> pixels other i = pixels sp i)"
  have "pixels other (word_of_int (sy * int (unat (sprite_width sp)) + sx)) =
      pixels sp (word_of_int (sy * int (unat (sprite_width sp)) + sx))"
    if "0 \<le> sx \<and> sx < int (unat (sprite_width sp)) \<and> 0 \<le> sy \<and> sy < int (unat (sprite_height sp))" for sx sy
    using s drawn_index [of sx sp sy] that assms(4) by metis
  then have "drawn dx dy other fb = drawn dx dy sp fb" using s by (intro drawn_cong) blast+
  moreover have "framebuffer_blit dx dy (Some other) fb = fb\<lparr>fb_memory := drawn dx dy other fb\<rparr>"
    by (rule framebuffer_blit_drawn) (use s assms in simp_all)
  ultimately show "framebuffer_blit dx dy (Some other) fb = framebuffer_blit dx dy (Some sp) fb"
    using framebuffer_blit_drawn [OF assms(1-3,5-8)] by simp
qed


lemma text_cell:
  assumes "x < n div 8" "n < 2 ^ 30"
  shows "sint (x * FONT8X8_WIDTH) = 8 * int (unat x)" "8 * int (unat x) \<le> 2 ^ 30"
proof -
  have x: "unat x * 8 < 2 ^ 30" using assms by (simp add: word_less_nat_alt unat_div)
  then have "unat (x * FONT8X8_WIDTH) = unat x * 8" by (simp add: FONT8X8_WIDTH_def unat_word_ariths)
  then show "sint (x * FONT8X8_WIDTH) = 8 * int (unat x)" using sint_unat [of "x * FONT8X8_WIDTH"] x by simp
  have "int (unat x * 8) \<le> int (2 ^ 30)" using x unfolding of_nat_le_iff by linarith
  then show "8 * int (unat x) \<le> 2 ^ 30" by simp
qed

lemma within_cell:
  fixes p c :: nat
  shows "0 \<le> int p - 8 * int c \<and> int p - 8 * int c < 8 \<longleftrightarrow> p div 8 = c"
    "p div 8 = c \<Longrightarrow> int p - 8 * int c = int (p mod 8)"
proof -
  define d m where "d = p div 8" "m = p mod 8"
  have p: "p = 8 * d + m" "m < 8" by (simp_all add: d_m_def)
  show "0 \<le> int p - 8 * int c \<and> int p - 8 * int c < 8 \<longleftrightarrow> p div 8 = c"
    using p(2) unfolding p(1) by auto
  show "p div 8 = c \<Longrightarrow> int p - 8 * int c = int (p mod 8)"
    using p by auto
qed

text \<open>
  Putting a character into a cell of the text screen paints the 8 by 8 pixels of that cell with
  the character's glyph, in the foreground colour where the glyph has a bit set and in the
  background colour elsewhere, and leaves every other byte as it was.
\<close>

theorem framebuffer_put_char_glyph:
  assumes "fb_ok fb" and "x < fst (framebuffer_get_dimensions fb)" and "y < snd (framebuffer_get_dimensions fb)"
  shows "framebuffer_put_char c x y fb = fb\<lparr>fb_memory := \<lambda>q.
    (case pixel_of fb q of None \<Rightarrow> fb_memory fb q
     | Some (px, py, k) \<Rightarrow>
         if px div 8 = unat x \<and> py div 8 = unat y
         then color_byte (screen_color fb (color_word
           (if bit (glyph_of c ! (py mod 8)) (px mod 8) then fb_foreground fb else fb_background fb))) k
         else fb_memory fb q)\<rparr>"
proof -
  note O = fb_okD [OF assms(1)]
  define fg where "fg = color_word (fb_foreground fb)"
  define bg where "bg = color_word (fb_background fb)"
  define sp where "sp = \<lparr>pixels = (\<lambda>i. glyph_pixels (glyph_of c) fg bg ! unat i),
    sprite_width = FONT8X8_WIDTH, sprite_height = FONT8X8_HEIGHT\<rparr>"
  have sz: "unat (sprite_width sp) = 8" "unat (sprite_height sp) = 8"
    by (simp_all add: sp_def FONT8X8_WIDTH_def FONT8X8_HEIGHT_def)
  have n: "fb_width fb < 2 ^ 30" "fb_height fb < 2 ^ 30" using O(7,8) by (simp_all add: word_less_nat_alt)
  have x: "sint (x * FONT8X8_WIDTH) = 8 * int (unat x)" "8 * int (unat x) \<le> 2 ^ 30"
    using text_cell [OF _ n(1), of x] assms(2) by (simp_all add: framebuffer_get_dimensions_def FONT8X8_WIDTH_def)
  have y: "sint (y * FONT8X8_HEIGHT) = 8 * int (unat y)" "8 * int (unat y) \<le> 2 ^ 30"
    using text_cell [OF _ n(2), of y] assms(3)
    by (simp_all add: framebuffer_get_dimensions_def FONT8X8_WIDTH_def FONT8X8_HEIGHT_def)
  have low: "- (2 ^ 30) \<le> 8 * int n" for n by (rule order_trans [of _ 0]) simp_all
  have "framebuffer_blit (8 * int (unat x)) (8 * int (unat y)) (Some sp) fb =
      fb\<lparr>fb_memory := drawn (8 * int (unat x)) (8 * int (unat y)) sp fb\<rparr>"
    by (rule framebuffer_blit_drawn [OF assms(1) _ _ low x(2) low y(2)]) (simp_all only: sz, simp_all)
  then have "framebuffer_put_char c x y fb = fb\<lparr>fb_memory := drawn (8 * int (unat x)) (8 * int (unat y)) sp fb\<rparr>"
    by (simp only: framebuffer_put_char_def Let_def x(1) y(1) sp_def fg_def bg_def)
  moreover have "drawn (8 * int (unat x)) (8 * int (unat y)) sp fb q =
    (case pixel_of fb q of None \<Rightarrow> fb_memory fb q
     | Some (px, py, k) \<Rightarrow>
         if px div 8 = unat x \<and> py div 8 = unat y
         then color_byte (screen_color fb (color_word
           (if bit (glyph_of c ! (py mod 8)) (px mod 8) then fb_foreground fb else fb_background fb))) k
         else fb_memory fb q)" for q
  proof (cases "pixel_of fb q")
    case (Some r)
    obtain px py k where r: "r = (px, py, k)" by (cases r)
    note cell = within_cell
    have pix: "pixels sp (word_of_int (int (py mod 8) * 8 + int (px mod 8))) =
        color_word (if bit (glyph_of c ! (py mod 8)) (px mod 8) then fb_foreground fb else fb_background fb)"
    proof -
      have "unat (word_of_int (int (py mod 8) * 8 + int (px mod 8)) :: u32) = py mod 8 * 8 + px mod 8"
        using drawn_index(1) [of "int (px mod 8)" sp "int (py mod 8)"] sz by simp
      then show ?thesis by (simp add: sp_def glyph_pixel fg_def bg_def)
    qed
    have iff: "0 \<le> int px - 8 * int (unat x) \<and> int px - 8 * int (unat x) < 8 \<and>
        0 \<le> int py - 8 * int (unat y) \<and> int py - 8 * int (unat y) < 8 \<longleftrightarrow> px div 8 = unat x \<and> py div 8 = unat y"
      using cell(1) [of px "unat x"] cell(1) [of py "unat y"] by blast
    have eight: "int (unat (sprite_width sp)) = 8" "int (unat (sprite_height sp)) = 8" by (simp_all only: sz of_nat_numeral)
    have in_cell: "pixels sp (word_of_int ((int py - 8 * int (unat y)) * 8 + (int px - 8 * int (unat x)))) =
        color_word (if bit (glyph_of c ! (py mod 8)) (px mod 8) then fb_foreground fb else fb_background fb)"
      if "px div 8 = unat x \<and> py div 8 = unat y"
      using pix cell(2) [of px "unat x"] cell(2) [of py "unat y"] that by presburger
    show ?thesis
      unfolding drawn_def Some r option.case prod.case Let_def eight iff
      by (rule if_cong) (simp_all only: in_cell)
  qed (simp add: drawn_def)
  ultimately show ?thesis by presburger
qed


text \<open>A screen of 20 by 10 pixels with 24 bits per pixel and four bytes of padding in each row.\<close>

definition sample_framebuffer :: framebuffer_t where
  "sample_framebuffer = \<lparr>fb_address = 0xF8000000, fb_pitch = 64, fb_width = 20, fb_height = 10, fb_bpp = 24,
     fb_size = 640, red_field_position = 16, green_field_position = 8, blue_field_position = 0,
     fb_foreground = \<lparr>red = 255, green = 255, blue = 255\<rparr>, fb_background = \<lparr>red = 0x42, green = 0x42, blue = 0x42\<rparr>,
     fb_cursor_x = 0, fb_cursor_y = 0, fb_memory = (\<lambda>_. 0)\<rparr>"

lemma sample_framebuffer_ok: "fb_ok sample_framebuffer"
  by (simp add: fb_ok_def deep_def pixel_bytes_def sample_framebuffer_def)

definition sample_sprite :: framebuffer_sprite_t where
  "sample_sprite = \<lparr>pixels = (\<lambda>i. if i < 16 then 0x00112233 else 0), sprite_width = 4, sprite_height = 4\<rparr>"

text \<open>The sprite hangs over the upper left corner; its pixel (3, 2) is the pixel (1, 0) of the screen.\<close>

lemma framebuffer_blit_clips_witness:
  "fb_ok sample_framebuffer \<and>
   fb_memory (framebuffer_blit (- 2) (- 2) (Some sample_sprite) sample_framebuffer) 0xF8000004 = 0x22 \<and>
   fb_memory (framebuffer_blit (- 2) (- 2) (Some sample_sprite) sample_framebuffer) 0xF8000008 = 0"
proof -
  have "framebuffer_blit (- 2) (- 2) (Some sample_sprite) sample_framebuffer =
      sample_framebuffer\<lparr>fb_memory := drawn (- 2) (- 2) sample_sprite sample_framebuffer\<rparr>"
    using framebuffer_blit_clips [OF sample_framebuffer_ok, of sample_sprite "- 2" "- 2"] by (simp add: sample_sprite_def)
  moreover have "drawn (- 2) (- 2) sample_sprite sample_framebuffer 0xF8000004 = 0x22"
    "drawn (- 2) (- 2) sample_sprite sample_framebuffer 0xF8000008 = 0"
    by (simp_all add: drawn_def pixel_of_def sample_framebuffer_def sample_sprite_def pixel_bytes_def color_byte_def
        screen_color_def field_color_def Let_def)
  ultimately show ?thesis using sample_framebuffer_ok by simp
qed

lemma framebuffer_put_char_glyph_witness:
  "fb_ok sample_framebuffer \<and>
   fb_memory (framebuffer_put_char (CHR ''_'') 1 0 sample_framebuffer) (0xF8000000 + 7 * 64 + 8 * 3) = 255 \<and>
   fb_memory (framebuffer_put_char (CHR ''_'') 1 0 sample_framebuffer) (0xF8000000 + 6 * 64 + 8 * 3) = 0x42 \<and>
   fb_memory (framebuffer_put_char (CHR ''_'') 1 0 sample_framebuffer) 0xF8000000 = 0"
proof -
  have d: "(1 :: u32) < fst (framebuffer_get_dimensions sample_framebuffer)" "(0 :: u32) < snd (framebuffer_get_dimensions sample_framebuffer)"
    by (simp_all add: framebuffer_get_dimensions_def sample_framebuffer_def FONT8X8_WIDTH_def FONT8X8_HEIGHT_def)
  have g: "glyph_of (CHR ''_'') = [0, 0, 0, 0, 0, 0, 0, 0xFF]" by code_simp
  show ?thesis
    unfolding framebuffer_put_char_glyph [OF sample_framebuffer_ok d, of "CHR ''_''"] g
    using sample_framebuffer_ok
    by (simp add: pixel_of_def sample_framebuffer_def pixel_bytes_def color_byte_def
        screen_color_def field_color_def color_word_def Let_def)
qed

end
