(* ===== verification/Vfs.thy ===== *)
theory Vfs
  imports Ramfs Resources Framebuffer
begin

text \<open>
  The virtual file system \<^verbatim>\<open>src/vfs.c\<close> and the device file system \<^verbatim>\<open>src/fs/devfs.c\<close>: resolving, creating,
  opening, linking and unlinking by path, and the operations of an open file. A call through the
  table of operations of a node is a case distinction on the table; a \<^verbatim>\<open>NULL\<close> entry is \<open>None\<close> of the
  tables below. A path is the list of its characters.
\<close>

unbundle bit_operations_syntax

section \<open>Devices\<close>

text \<open>The devices that the device file system names, with the addresses of their structures.\<close>

record kernel_io = kernel_fs +
  terminal :: terminal_t
  framebuffer :: framebuffer_t
  terminal_address :: u32
  framebuffer_address :: u32

record devfs_entry_t =
  entry_name :: "char list"
  entry_operations :: vfs_node_operations_t
  entry_data :: u32
  entry_resource_type :: resource_type_t

definition devfs_entries :: "'a kernel_io_scheme \<Rightarrow> devfs_entry_t list" where
  "devfs_entries s =
     [\<lparr>entry_name = ''keyboard'', entry_operations = keyboard_operations, entry_data = keyboard_address s,
       entry_resource_type = RESOURCE_TYPE_KEYBOARD\<rparr>,
      \<lparr>entry_name = ''terminal'', entry_operations = terminal_operations, entry_data = terminal_address s,
       entry_resource_type = RESOURCE_TYPE_TERMINAL\<rparr>,
      \<lparr>entry_name = ''framebuffer'', entry_operations = framebuffer_operations, entry_data = framebuffer_address s,
       entry_resource_type = RESOURCE_TYPE_FRAMEBUFFER\<rparr>]"

definition DEVFS_ENTRY_COUNT :: nat where "DEVFS_ENTRY_COUNT = 3"

definition devfs_lookup ::
    "u32 \<Rightarrow> char list \<Rightarrow> 'a kernel_io_scheme \<Rightarrow> (resource_result_t \<times> u32 \<times> 'a kernel_io_scheme) option" where
  "devfs_lookup directory name s =
     (case position (\<lambda>e. entry_name e = name) (devfs_entries s) of
        None \<Rightarrow> Some (RESOURCE_RESULT_NOT_FOUND, 0, s)
      | Some i \<Rightarrow> let e = devfs_entries s ! i in do {
          (cached_result, node) \<leftarrow> vfs_cache_query_node (ucast (cache_index (vfs_nodes s directory))) (of_nat i) s;
          if cached_result = RESOURCE_RESULT_OK then Some (RESOURCE_RESULT_OK, node, s)
          else vfs_create_node directory (of_nat i) (entry_name e) (entry_operations e) (entry_data e) VFS_NODE_TYPE_FILE
                 (entry_resource_type e) s
        })"

definition devfs_readdir :: "u32 \<Rightarrow> 'a kernel_io_scheme \<Rightarrow> (resource_result_t \<times> vfs_dir_t option) option" where
  "devfs_readdir index s =
     (if unat index \<ge> DEVFS_ENTRY_COUNT then Some (RESOURCE_RESULT_NOT_FOUND, None)
      else Some (RESOURCE_RESULT_OK,
        Some \<lparr>dir_name = entry_name (devfs_entries s ! unat index), dir_type = VFS_NODE_TYPE_FILE\<rparr>))"

section \<open>Tables of operations\<close>

fun lookup_operation ::
    "vfs_node_operations_t \<Rightarrow>
      (u32 \<Rightarrow> char list \<Rightarrow> 'a kernel_io_scheme \<Rightarrow> (resource_result_t \<times> u32 \<times> 'a kernel_io_scheme) option) option" where
  "lookup_operation ramfs_node_operations = Some ramfs_lookup"
| "lookup_operation devfs_node_operations = Some devfs_lookup"
| "lookup_operation _ = None"

text \<open>Creating, truncating, linking, unlinking and the size are operations of the ram file system only.\<close>

definition has_file_operations :: "vfs_node_operations_t \<Rightarrow> bool" where
  "has_file_operations ops \<longleftrightarrow> ops = ramfs_node_operations"

definition vfs_readdir :: "u32 \<Rightarrow> u32 \<Rightarrow> 'a kernel_io_scheme \<Rightarrow> (resource_result_t \<times> vfs_dir_t option) option" where
  "vfs_readdir directory index s =
     (if directory = 0 then Some (RESOURCE_RESULT_INVALID, None)
      else case node_operations (vfs_nodes s directory) of
          ramfs_node_operations \<Rightarrow> ramfs_readdir directory index s
        | devfs_node_operations \<Rightarrow> devfs_readdir index s
        | _ \<Rightarrow> Some (RESOURCE_RESULT_BAD_PARAMETER, None))"

definition vfs_get_size :: "u32 \<Rightarrow> 'a kernel_io_scheme \<Rightarrow> resource_result_t \<times> u32" where
  "vfs_get_size node s =
     (if node = 0 then (RESOURCE_RESULT_BAD_PARAMETER, 0)
      else if \<not> has_file_operations (node_operations (vfs_nodes s node)) then (RESOURCE_RESULT_BAD_PARAMETER, 0)
      else ramfs_size node s)"

definition vfs_truncate :: "u32 \<Rightarrow> 'a kernel_io_scheme \<Rightarrow> (resource_result_t \<times> 'a kernel_io_scheme) option" where
  "vfs_truncate node s =
     (if node = 0 then Some (RESOURCE_RESULT_BAD_PARAMETER, s)
      else if node_type (vfs_nodes s node) \<noteq> VFS_NODE_TYPE_FILE then Some (RESOURCE_RESULT_INVALID, s)
      else if \<not> has_file_operations (node_operations (vfs_nodes s node)) then Some (RESOURCE_RESULT_BAD_PARAMETER, s)
      else ramfs_truncate node s)"

section \<open>Paths\<close>

text \<open>The copy of a path in a buffer of 256 bytes is cut to 255 characters.\<close>

definition path_copy :: "char list \<Rightarrow> char list" where
  "path_copy pathname = take (VFS_NODE_NAME_LENGTH - 1) pathname"

definition vfs_split_path :: "char list \<Rightarrow> char list \<times> char list" where
  "vfs_split_path p =
     (case last_index slash p of
        None \<Rightarrow> (p, [slash])
      | Some i \<Rightarrow> (drop (Suc i) p, if take i p \<noteq> [] then take i p else [slash]))"

text \<open>
  One step of \<^verbatim>\<open>vfs_resolve\<close> per component. A component of 256 characters or more overruns the buffer
  on the stack. On an error the references that the walk holds are not given back.
\<close>

fun resolve_loop ::
    "char list list \<Rightarrow> u32 \<Rightarrow> 'a kernel_io_scheme \<Rightarrow> (resource_result_t \<times> u32 \<times> 'a kernel_io_scheme) option" where
  "resolve_loop [] current s = Some (RESOURCE_RESULT_OK, current, s)"
| "resolve_loop (component # rest) current s =
     (if length component \<ge> VFS_NODE_NAME_LENGTH then None
      else let (current, s) =
             (if mount (vfs_nodes s current) \<noteq> 0
              then (mount (vfs_nodes s current), snd (vfs_lock_node (mount (vfs_nodes s current)) s)) else (current, s))
        in case lookup_operation (node_operations (vfs_nodes s current)) of
          None \<Rightarrow> Some (RESOURCE_RESULT_BAD_PARAMETER, 0, s)
        | Some lookup \<Rightarrow> do {
            (result, following, s) \<leftarrow> lookup current component s;
            if result \<noteq> RESOURCE_RESULT_OK then Some (result, 0, s)
            else do {
              (_, s) \<leftarrow> vfs_release_node current (snd (vfs_lock_node following s));
              if following = 0 then Some (RESOURCE_RESULT_NOT_FOUND, 0, s) else resolve_loop rest following s
            }
          })"

definition vfs_resolve ::
    "char list \<Rightarrow> 'a kernel_io_scheme \<Rightarrow> (resource_result_t \<times> u32 \<times> 'a kernel_io_scheme) option" where
  "vfs_resolve pathname s = resolve_loop (path_components pathname) (vfs_root s) (snd (vfs_lock_node (vfs_root s) s))"

definition release :: "u32 \<Rightarrow> 'a kernel_io_scheme \<Rightarrow> 'a kernel_io_scheme option" where
  "release node s = map_option snd (vfs_release_node node s)"

definition vfs_create ::
    "char list \<Rightarrow> vfs_node_type \<Rightarrow> 'a kernel_io_scheme \<Rightarrow> (resource_result_t \<times> u32 \<times> 'a kernel_io_scheme) option" where
  "vfs_create pathname kind s =
     (let (name, parent_path) = vfs_split_path (path_copy pathname) in
      if name = [] then Some (RESOURCE_RESULT_BAD_PARAMETER, 0, s)
      else do {
        (resolve_result, directory, s) \<leftarrow> vfs_resolve parent_path s;
        if resolve_result \<noteq> RESOURCE_RESULT_OK then Some (resolve_result, 0, s)
        else if node_type (vfs_nodes s directory) \<noteq> VFS_NODE_TYPE_DIRECTORY \<or>
                \<not> has_file_operations (node_operations (vfs_nodes s directory))
        then do {
          s \<leftarrow> release directory s;
          Some (RESOURCE_RESULT_BAD_PARAMETER, 0, s)
        }
        else do {
          (create_result, child, s) \<leftarrow> ramfs_create directory name kind s;
          s \<leftarrow> release directory s;
          if create_result \<noteq> RESOURCE_RESULT_OK then Some (create_result, 0, s)
          else Some (RESOURCE_RESULT_OK, child, snd (vfs_lock_node child s))
        }
      })"

definition SYSCALL_O_CREAT :: u32 where "SYSCALL_O_CREAT = 0x0200"
definition SYSCALL_O_TRUNC :: u32 where "SYSCALL_O_TRUNC = 0x0400"

text \<open>The node of an opened path; \<open>0\<close> after an error.\<close>

definition open_node ::
    "char list \<Rightarrow> u32 \<Rightarrow> 'a kernel_io_scheme \<Rightarrow> (resource_result_t \<times> u32 \<times> 'a kernel_io_scheme) option" where
  "open_node pathname flags s = do {
     (resolve_result, node, s) \<leftarrow> vfs_resolve pathname s;
     if resolve_result \<noteq> RESOURCE_RESULT_OK
     then if resolve_result \<noteq> RESOURCE_RESULT_NOT_FOUND \<or> flags AND SYSCALL_O_CREAT = 0 then Some (resolve_result, 0, s)
          else vfs_create pathname VFS_NODE_TYPE_FILE s
     else if flags AND SYSCALL_O_TRUNC \<noteq> 0
     then if node_type (vfs_nodes s node) \<noteq> VFS_NODE_TYPE_FILE then Some (RESOURCE_RESULT_BAD_PARAMETER, 0, s)
          else do {
            (_, s) \<leftarrow> vfs_truncate node s;
            Some (RESOURCE_RESULT_OK, node, s)
          }
     else Some (RESOURCE_RESULT_OK, node, s)
   }"

definition vfs_open ::
    "resource_operations_t \<Rightarrow> u32 \<Rightarrow> char list \<Rightarrow> u32 \<Rightarrow> 'a kernel_io_scheme \<Rightarrow>
      (resource_result_t \<times> u32 \<times> 'a kernel_io_scheme) option" where
  "vfs_open vfs_operations task pathname flags s = do {
     (result, node, s) \<leftarrow> open_node pathname flags s;
     if result \<noteq> RESOURCE_RESULT_OK then Some (result, 0, s)
     else if node_type (vfs_nodes s node) \<noteq> VFS_NODE_TYPE_FILE then Some (RESOURCE_RESULT_BAD_PARAMETER, 0, s)
     else resource_register task (node_resource_type (vfs_nodes s node)) node (Some vfs_operations) flags s
   }"

definition vfs_link ::
    "char list \<Rightarrow> char list \<Rightarrow> 'a kernel_io_scheme \<Rightarrow> (resource_result_t \<times> 'a kernel_io_scheme) option" where
  "vfs_link old_path new_path s = do {
     (resolve_result, source, s) \<leftarrow> vfs_resolve old_path s;
     if resolve_result \<noteq> RESOURCE_RESULT_OK then Some (resolve_result, s)
     else if node_type (vfs_nodes s source) \<noteq> VFS_NODE_TYPE_FILE \<or> node_resource_type (vfs_nodes s source) \<noteq> RESOURCE_TYPE_FILE
     then do {
       s \<leftarrow> release source s;
       Some (RESOURCE_RESULT_BAD_PARAMETER, s)
     }
     else let (name, parent_path) = vfs_split_path (path_copy new_path) in
       if name = []
       then do {
         s \<leftarrow> release source s;
         Some (RESOURCE_RESULT_BAD_PARAMETER, s)
       }
       else do {
         (resolve_result, directory, s) \<leftarrow> vfs_resolve parent_path s;
         if resolve_result \<noteq> RESOURCE_RESULT_OK
         then do {
           s \<leftarrow> release source s;
           Some (resolve_result, s)
         }
         else if node_type (vfs_nodes s directory) \<noteq> VFS_NODE_TYPE_DIRECTORY \<or>
                 \<not> has_file_operations (node_operations (vfs_nodes s directory))
         then do {
           s \<leftarrow> release directory s;
           s \<leftarrow> release source s;
           Some (RESOURCE_RESULT_BAD_PARAMETER, s)
         }
         else do {
           (link_result, s) \<leftarrow> ramfs_link directory name source s;
           s \<leftarrow> release directory s;
           s \<leftarrow> release source s;
           Some (link_result, s)
         }
       }
   }"

definition vfs_unlink :: "char list \<Rightarrow> 'a kernel_io_scheme \<Rightarrow> (resource_result_t \<times> 'a kernel_io_scheme) option" where
  "vfs_unlink pathname s =
     (let (name, parent_path) = vfs_split_path (path_copy pathname) in
      if name = [] then Some (RESOURCE_RESULT_BAD_PARAMETER, s)
      else do {
        (resolve_result, directory, s) \<leftarrow> vfs_resolve parent_path s;
        if resolve_result \<noteq> RESOURCE_RESULT_OK then Some (resolve_result, s)
        else if node_type (vfs_nodes s directory) \<noteq> VFS_NODE_TYPE_DIRECTORY \<or>
                \<not> has_file_operations (node_operations (vfs_nodes s directory))
        then do {
          s \<leftarrow> release directory s;
          Some (RESOURCE_RESULT_BAD_PARAMETER, s)
        }
        else do {
          (unlink_result, s) \<leftarrow> ramfs_unlink directory name s;
          s \<leftarrow> release directory s;
          Some (unlink_result, s)
        }
      })"

section \<open>Operations of an open file\<close>

text \<open>The resource is given by its address; its data is the node.\<close>

definition vfs_close :: "u32 \<Rightarrow> 'a kernel_io_scheme \<Rightarrow> (resource_result_t \<times> 'a kernel_io_scheme) option" where
  "vfs_close resource s = vfs_release_node (resource_data (resource_store s resource)) s"

fun store_bytes :: "u32 \<Rightarrow> u8 list \<Rightarrow> cmem \<Rightarrow> cmem" where
  "store_bytes p [] m = m"
| "store_bytes p (b # bs) m = store_bytes (p + 1) bs (m(p := char_of (unat b)))"

definition read_node ::
    "u32 \<Rightarrow> u32 \<Rightarrow> u32 \<Rightarrow> u32 \<Rightarrow> 'a kernel_io_scheme \<Rightarrow> resource_result_t \<times> u32 \<times> 'a kernel_io_scheme" where
  "read_node node offset buf len s =
     (case node_operations (vfs_nodes s node) of
        ramfs_node_operations \<Rightarrow> ramfs_read node offset buf len s
      | keyboard_operations \<Rightarrow>
          let (result, n, bytes, k) = keyboard_read len (keyboard s)
          in (result, n, s\<lparr>heap_data := store_bytes buf bytes (heap_data s), keyboard := k\<rparr>)
      | _ \<Rightarrow> (RESOURCE_RESULT_BAD_PARAMETER, 0, s))"

definition vfs_read_data ::
    "u32 \<Rightarrow> u32 \<Rightarrow> u32 \<Rightarrow> u32 \<Rightarrow> 'a kernel_io_scheme \<Rightarrow> resource_result_t \<times> u32 \<times> 'a kernel_io_scheme" where
  "vfs_read_data node offset buf len s =
     (if buf = 0 \<or> len = 0 then (RESOURCE_RESULT_BAD_PARAMETER, 0, s)
      else if node_type (vfs_nodes s node) \<noteq> VFS_NODE_TYPE_FILE then (RESOURCE_RESULT_INVALID, 0, s)
      else read_node node offset buf len s)"

definition vfs_read ::
    "u32 \<Rightarrow> u32 \<Rightarrow> u32 \<Rightarrow> u32 \<Rightarrow> 'a kernel_io_scheme \<Rightarrow> resource_result_t \<times> u32 \<times> 'a kernel_io_scheme" where
  "vfs_read resource offset buf len s =
     (if resource = 0 then (RESOURCE_RESULT_BAD_PARAMETER, 0, s)
      else vfs_read_data (resource_data (resource_store s resource)) offset buf len s)"

definition write_node ::
    "u32 \<Rightarrow> u32 \<Rightarrow> u32 \<Rightarrow> u32 \<Rightarrow> 'a kernel_io_scheme \<Rightarrow> (resource_result_t \<times> u32 \<times> 'a kernel_io_scheme) option" where
  "write_node node offset buf len s =
     (case node_operations (vfs_nodes s node) of
        ramfs_node_operations \<Rightarrow> ramfs_write node offset buf len s
      | terminal_operations \<Rightarrow> do {
          (n, t, fb) \<leftarrow> terminal_write framebuffer_driver (bytes_at (heap_data s) buf (unat len)) (terminal s) (framebuffer s);
          Some (RESOURCE_RESULT_OK, n, s\<lparr>terminal := t, framebuffer := fb\<rparr>)
        }
      | framebuffer_operations \<Rightarrow>
          let (result, n, fb) = framebuffer_dev_write offset (heap_data s) buf len (framebuffer s)
          in Some (result, n, s\<lparr>framebuffer := fb\<rparr>)
      | _ \<Rightarrow> Some (RESOURCE_RESULT_BAD_PARAMETER, 0, s))"

definition vfs_write ::
    "u32 \<Rightarrow> u32 \<Rightarrow> u32 \<Rightarrow> u32 \<Rightarrow> 'a kernel_io_scheme \<Rightarrow> (resource_result_t \<times> u32 \<times> 'a kernel_io_scheme) option" where
  "vfs_write resource offset buf len s =
     (if resource = 0 \<or> buf = 0 \<or> len = 0 then Some (RESOURCE_RESULT_BAD_PARAMETER, 0, s)
      else let node = resource_data (resource_store s resource) in
        if node_type (vfs_nodes s node) \<noteq> VFS_NODE_TYPE_FILE then Some (RESOURCE_RESULT_INVALID, 0, s)
        else write_node node offset buf len s)"

definition vfs_ioctl :: "u32 \<Rightarrow> u32 \<Rightarrow> u32 \<Rightarrow> 'a kernel_io_scheme \<Rightarrow> resource_result_t \<times> 'a kernel_io_scheme" where
  "vfs_ioctl resource command argument s =
     (if resource = 0 then (RESOURCE_RESULT_BAD_PARAMETER, s)
      else if node_operations (vfs_nodes s (resource_data (resource_store s resource))) \<noteq> framebuffer_operations
      then (RESOURCE_RESULT_BAD_PARAMETER, s)
      else let (result, m) = framebuffer_dev_ioctl command argument (framebuffer s) (heap_data s)
           in (result, s\<lparr>heap_data := m\<rparr>))"

section \<open>Initialisation\<close>

definition vfs_module_init :: "'a kernel_io_scheme \<Rightarrow> 'a kernel_io_scheme option" where
  "vfs_module_init s =
     (let s = s\<lparr>last_cache_index := 0\<rparr>; root = ramfs_nodes s (ramfs_root s) in do {
        (result, node, s) \<leftarrow> vfs_create_node 0 (ramfs_id root) (ramfs_name root) ramfs_node_operations (ramfs_root s)
          (ramfs_type root) RESOURCE_TYPE_FILE s;
        let s = (if result = RESOURCE_RESULT_OK then s\<lparr>vfs_root := node\<rparr> else s)
        in Some (snd (vfs_lock_node (vfs_root s) s))
      })"

definition devfs_module_init :: "'a kernel_io_scheme \<Rightarrow> 'a kernel_io_scheme option" where
  "devfs_module_init s = do {
     (result, dev_directory, s) \<leftarrow> vfs_resolve ''/dev'' s;
     (result, dev_directory, s) \<leftarrow> (if result \<noteq> RESOURCE_RESULT_OK then vfs_create ''/dev'' VFS_NODE_TYPE_DIRECTORY s
       else Some (result, dev_directory, s));
     if result \<noteq> RESOURCE_RESULT_OK then Some s
     else do {
       (result, devfs_root, s) \<leftarrow> vfs_create_node 0 (- 1) ''dev'' devfs_node_operations 0 VFS_NODE_TYPE_DIRECTORY
         RESOURCE_TYPE_FILE s;
       if result \<noteq> RESOURCE_RESULT_OK then Some s
       else Some (upd_node dev_directory (\<lambda>n. n\<lparr>mount := devfs_root\<rparr>) (snd (vfs_lock_node devfs_root s)))
     }
   }"

end
