(* ===== verification/Task_Stacks.thy ===== *)
theory Task_Stacks
  imports Task_State
begin

text \<open>
  The stacks of a new task, \<^verbatim>\<open>src/task_manager.c\<close>: the page of the kernel stack with the interrupt
  frame that the first switch to the task restores, and the page of the user stack with the
  arguments of the program. Both pages belong to another address space and are filled through
  bounce pages, so every store walks the page tables of the current address space. The arguments
  are read from the memory of the caller.
\<close>

unbundle bit_operations_syntax

section \<open>Operations\<close>

definition USER_STACK_TOP :: u32 where "USER_STACK_TOP = 0xBFFFE000"
definition KERNEL_STACK_TOP :: u32 where "KERNEL_STACK_TOP = 0xD0000000"

text \<open>Bytes of a word, the low byte first, and stores of bytes.\<close>

definition get_byte :: "u32 \<Rightarrow> nat \<Rightarrow> u8" where
  "get_byte w i = ucast (drop_bit (8 * i) w)"

definition set_byte :: "u32 \<Rightarrow> nat \<Rightarrow> u8 \<Rightarrow> u32" where
  "set_byte w i b = (w AND NOT (push_bit (8 * i) 0xFF)) OR push_bit (8 * i) (ucast b)"

definition vwrite_byte :: "u32 \<Rightarrow> u8 \<Rightarrow> 'a machine_scheme \<Rightarrow> 'a machine_scheme option" where
  "vwrite_byte va b s = do {
     w \<leftarrow> vread (va AND NOT 3) s;
     vwrite (va AND NOT 3) (set_byte w (unat (va AND 3)) b) s
   }"

primrec vwrite_bytes :: "u32 \<Rightarrow> char list \<Rightarrow> 'a machine_scheme \<Rightarrow> 'a machine_scheme option" where
  "vwrite_bytes va [] s = Some s"
| "vwrite_bytes va (c # cs) s = Option.bind (vwrite_byte va (of_char c) s) (vwrite_bytes (va + 1) cs)"

text \<open>\<^verbatim>\<open>*--top = word\<close> for each word.\<close>

fun push_words :: "u32 list \<Rightarrow> u32 \<Rightarrow> 'a machine_scheme \<Rightarrow> (u32 \<times> 'a machine_scheme) option" where
  "push_words [] sp s = Some (sp, s)"
| "push_words (w # ws) sp s = do {
     s \<leftarrow> vwrite (sp - 4) w s;
     push_words ws (sp - 4) s
   }"

definition first_frame :: "bool \<Rightarrow> u32 \<Rightarrow> u32 \<Rightarrow> u32 list" where
  "first_frame is_user eip user_esp =
     (let data_selector = (if is_user then TASK_MANAGER_USER_DATA_SELECTOR else TASK_MANAGER_KERNEL_DATA_SELECTOR)
      in (if is_user then [TASK_MANAGER_USER_DATA_SELECTOR, user_esp] else []) @
         [0x202, if is_user then TASK_MANAGER_USER_CODE_SELECTOR else TASK_MANAGER_KERNEL_CODE_SELECTOR, eip,
          0, 0, 0, 0, 0, 0, 0, 0, 0, data_selector, data_selector, data_selector, data_selector])"

definition task_manager_prepare_new_stack ::
    "u32 \<Rightarrow> u8 \<Rightarrow> u32 \<Rightarrow> u32 \<Rightarrow> 'a machine_scheme \<Rightarrow> (task_manager_result_t \<times> u32 \<times> 'a machine_scheme) option" where
  "task_manager_prepare_new_stack task_page_directory is_user eip user_esp s =
     (let (kernel_stack_phys, s) = allocate_frame s in do {
        (_, s) \<leftarrow> memory_paging_map task_page_directory kernel_stack_phys (KERNEL_STACK_TOP - PAGE_SIZE) PAGE_READ_WRITE s;
        (task_stack_base, s) \<leftarrow> bounce_alloc kernel_stack_phys s;
        (task_stack_top, s) \<leftarrow> push_words (first_frame (is_user \<noteq> 0) eip user_esp) (task_stack_base + PAGE_SIZE) s;
        s \<leftarrow> bounce_free task_stack_base s;
        Some (TASK_MANAGER_RESULT_OK, KERNEL_STACK_TOP - (task_stack_base + PAGE_SIZE - task_stack_top), s)
      })"

partial_function (option) count_loop :: "cmem \<Rightarrow> u32 \<Rightarrow> u32 \<Rightarrow> u32 option" where
  "count_loop m args count =
     (if load_u32 m (args + 4 * count) \<noteq> 0 then count_loop m args (count + 1) else Some count)"

definition task_manager_count_arguments :: "cmem \<Rightarrow> u32 \<Rightarrow> u32 option" where
  "task_manager_count_arguments m args = (if args = 0 then Some 0 else count_loop m args 0)"

definition task_manager_map_user_stack :: "u32 \<Rightarrow> 'a machine_scheme \<Rightarrow> (u32 \<times> 'a machine_scheme) option" where
  "task_manager_map_user_stack task_page_directory s =
     (let (user_stack_phys, s) = allocate_frame s in
      if user_stack_phys = 0 then Some (0, s)
      else do {
        (_, s) \<leftarrow> memory_paging_map task_page_directory user_stack_phys (USER_STACK_TOP - PAGE_SIZE) (PAGE_USER OR PAGE_READ_WRITE) s;
        Some (user_stack_phys, s)
      })"

text \<open>
  The strings, the last one first; the addresses are those of the new address space. The array of
  addresses has 64 elements, and a store past it is a fault.
\<close>

primrec copy_arguments ::
    "nat \<Rightarrow> u32 \<Rightarrow> u32 \<Rightarrow> u32 \<Rightarrow> (u32 \<Rightarrow> u32) \<Rightarrow> 'a heap_machine_scheme \<Rightarrow> (u32 \<times> (u32 \<Rightarrow> u32) \<times> 'a heap_machine_scheme) option" where
  "copy_arguments 0 argv page cursor addresses s = Some (cursor, addresses, s)"
| "copy_arguments (Suc i) argv page cursor addresses s =
     (let p = load_u32 (heap_data s) (argv + 4 * of_nat i) in do {
        n \<leftarrow> strlen (heap_data s) p;
        let cursor = cursor - (n + 1) in do {
          s \<leftarrow> vwrite_bytes cursor (bytes_at (heap_data s) p (unat (n + 1))) s;
          if of_nat i \<ge> TASK_MAX_ARGUMENTS then None
          else copy_arguments i argv page cursor (addresses(of_nat i := USER_STACK_TOP - PAGE_SIZE + (cursor - page))) s
        }
      })"

definition task_manager_build_arguments_on_stack ::
    "u32 \<Rightarrow> u32 \<Rightarrow> u32 \<Rightarrow> 'a heap_machine_scheme \<Rightarrow> (task_manager_result_t \<times> u32 \<times> 'a heap_machine_scheme) option" where
  "task_manager_build_arguments_on_stack user_stack_phys argv user_esp s = do {
     argc \<leftarrow> task_manager_count_arguments (heap_data s) argv;
     (page, s) \<leftarrow> bounce_alloc user_stack_phys s;
     (cursor, addresses, s) \<leftarrow> copy_arguments (unat argc) argv page (page + PAGE_SIZE) (\<lambda>_. 0) s;
     let cursor = cursor AND NOT 3 in
       if cursor - page < 4 + (argc + 1) * 4
       then do {
         s \<leftarrow> bounce_free page s;
         Some (TASK_MANAGER_RESULT_ARGS_TOO_LARGE, user_esp, s)
       }
       else do {
         (word_cursor, s) \<leftarrow> push_words (0 # map (\<lambda>i. addresses (of_nat i)) (rev [0..<unat argc]) @ [argc]) cursor s;
         s \<leftarrow> bounce_free page s;
         Some (TASK_MANAGER_RESULT_OK, USER_STACK_TOP - PAGE_SIZE + (word_cursor - page), s)
       }
   }"

text \<open>The stack pointer of a failed call is what the caller had: \<open>0\<close> here, as both callers start with it.\<close>

definition task_manager_prepare_new_stack_with_args ::
    "u32 \<Rightarrow> u8 \<Rightarrow> u32 \<Rightarrow> u32 \<Rightarrow> 'a heap_machine_scheme \<Rightarrow> (task_manager_result_t \<times> u32 \<times> 'a heap_machine_scheme) option" where
  "task_manager_prepare_new_stack_with_args task_page_directory is_user eip argv s =
     (if is_user \<noteq> 0
      then do {
        (user_stack_phys, s) \<leftarrow> task_manager_map_user_stack task_page_directory s;
        if user_stack_phys = 0 then Some (TASK_MANAGER_RESULT_OUT_OF_MEMORY, 0, s)
        else do {
          (args_result, user_esp, s) \<leftarrow> task_manager_build_arguments_on_stack user_stack_phys argv USER_STACK_TOP s;
          if args_result \<noteq> TASK_MANAGER_RESULT_OK then Some (args_result, 0, s)
          else task_manager_prepare_new_stack task_page_directory is_user eip user_esp s
        }
      }
      else task_manager_prepare_new_stack task_page_directory is_user eip USER_STACK_TOP s)"

end
