(* ===== verification/Tasks.thy ===== *)
theory Tasks
  imports Task_Stacks Resources
begin

text \<open>
  The life of a task, \<^verbatim>\<open>src/task_manager.c\<close>: creating and copying tasks, their children, their end
  and destruction, the search for a task, and the delivery of a signal. The function that closes a
  resource is a parameter, as in the theory of resources.
\<close>

unbundle bit_operations_syntax

section \<open>Creating and copying\<close>

definition sizeof_task_t :: u32 where "sizeof_task_t = 2400"
definition sizeof_task_node_t :: u32 where "sizeof_task_node_t = 12"

text \<open>
  The new task is used without a test for \<^verbatim>\<open>NULL\<close>. When no page directory could be made its field
  keeps the zero of the cleared block, and the code goes on.
\<close>

definition task_manager_task_create ::
    "u32 \<Rightarrow> u8 \<Rightarrow> bool \<Rightarrow> 'a kernel_scheme \<Rightarrow> (u32 \<times> 'a kernel_scheme) option" where
  "task_manager_task_create entry is_user enqueue s = do {
     (task, s) \<leftarrow> kernel_heap_calloc sizeof_task_t s;
     if task = 0 then None
     else let s = s\<lparr>tasks := (tasks s)(task := zero_task\<lparr>task_id := task_id_counter s, task_state := TASK_STATE_READY,
                task_time_slice := TASK_MANAGER_DEFAULT_TIME_SLICE, task_queue_level := 0, task_init_eip := entry\<rparr>),
                task_id_counter := task_id_counter s + 1\<rparr>
       in do {
         (paging_result, page_directory, s) \<leftarrow> memory_paging_create_page_directory s;
         let s = upd_task task (\<lambda>t. t\<lparr>task_cr3 := if paging_result = MEMORY_PAGING_RESULT_OK then page_directory else task_cr3 t,
               stack_base := KERNEL_STACK_TOP - PAGE_SIZE, stack_top := KERNEL_STACK_TOP, task_is_user := is_user\<rparr>) s
         in do {
           (task_page_directory, s) \<leftarrow> bounce_alloc (task_cr3 (tasks s task)) s;
           (_, esp, s) \<leftarrow> task_manager_prepare_new_stack_with_args task_page_directory is_user entry 0 s;
           s \<leftarrow> bounce_free task_page_directory (upd_task task (\<lambda>t. t\<lparr>task_esp := esp\<rparr>) s);
           s \<leftarrow> (if enqueue then task_manager_enqueue_task (task_queue_level (tasks s task)) task s else Some s);
           Some (task, s)
         }
       }
   }"

text \<open>The copy of a task; \<open>40\<close> is the offset of \<^verbatim>\<open>eax\<close> in the interrupt frame.\<close>

definition share_resources :: "u32 \<Rightarrow> u32 \<Rightarrow> 'a kernel_scheme \<Rightarrow> 'a kernel_scheme option" where
  "share_resources par task =
     for_each (\<lambda>i s. if resources (tasks s par) i \<noteq> 0 then resource_share task i (resources (tasks s par) i) s else Some s)
       (indices (unat TASK_MAX_RESOURCES))"

definition copied_task :: "task_t \<Rightarrow> u32 \<Rightarrow> task_t" where
  "copied_task p ident = zero_task\<lparr>task_id := ident, next_task := 0, task_state := TASK_STATE_READY,
     task_time_slice := TASK_MANAGER_DEFAULT_TIME_SLICE, task_queue_level := 0, task_is_user := task_is_user p,
     task_init_eip := task_init_eip p, task_heap_start := task_heap_start p, task_heap_break := task_heap_break p,
     signal_handlers := signal_handlers p\<rparr>"

definition task_manager_task_copy :: "u32 \<Rightarrow> bool \<Rightarrow> 'a kernel_scheme \<Rightarrow> (u32 \<times> 'a kernel_scheme) option" where
  "task_manager_task_copy par enqueue s = do {
     (task, s) \<leftarrow> kernel_heap_calloc sizeof_task_t s;
     if task = 0 then None
     else let s = s\<lparr>tasks := (tasks s)(task := copied_task (tasks s par) (task_id_counter s)),
                task_id_counter := task_id_counter s + 1\<rparr>
       in do {
         (paging_result, page_directory, s) \<leftarrow> memory_paging_create_page_directory s;
         let s = (if paging_result = MEMORY_PAGING_RESULT_OK then upd_task task (\<lambda>t. t\<lparr>task_cr3 := page_directory\<rparr>) s else s)
         in do {
           (task_page_directory, s) \<leftarrow> bounce_alloc (task_cr3 (tasks s task)) s;
           let (kernel_stack_phys, s) = allocate_frame s in do {
             (_, s) \<leftarrow> memory_paging_map task_page_directory kernel_stack_phys (KERNEL_STACK_TOP - PAGE_SIZE) PAGE_READ_WRITE s;
             (_, s) \<leftarrow> memory_paging_copy_mapped_memory task_page_directory
               (upd_task task (\<lambda>t. t\<lparr>stack_base := KERNEL_STACK_TOP - PAGE_SIZE, stack_top := KERNEL_STACK_TOP\<rparr>) s);
             (kernel_stack, s) \<leftarrow> bounce_alloc kernel_stack_phys s;
             s \<leftarrow> copy_page kernel_stack (stack_base (tasks s par)) s;
             let esp_offset = task_esp (tasks s par) - stack_base (tasks s par);
                 s = upd_task task (\<lambda>t. t\<lparr>task_esp := stack_base t + esp_offset\<rparr>) s
             in do {
               s \<leftarrow> vwrite (kernel_stack + esp_offset + 40) 0 s;
               s \<leftarrow> bounce_free kernel_stack s;
               s \<leftarrow> bounce_free task_page_directory s;
               s \<leftarrow> share_resources par task s;
               s \<leftarrow> (if enqueue then task_manager_enqueue_task (task_queue_level (tasks s task)) task s else Some s);
               Some (task, s)
             }
           }
         }
       }
   }"

text \<open>
  At boot only the four levels are emptied; the other two queues are empty as all of the data
  section. The address of the idle task's function is a parameter.
\<close>

definition task_manager_module_init :: "u32 \<Rightarrow> 'a kernel_scheme \<Rightarrow> 'a kernel_scheme option" where
  "task_manager_module_init idle_task s =
     (let s = s\<lparr>task_queues := fold (\<lambda>i q. q(i := 0)) (indices (unat TASK_MANAGER_QUEUE_LEVELS)) (task_queues s),
                last_priority_boost_at_ticks := timer_ticks s\<rparr>
      in do {
        (idle, s) \<leftarrow> task_manager_task_create idle_task 0 False s;
        Some (upd_task idle (\<lambda>t. t\<lparr>task_state := TASK_STATE_RUNNING\<rparr>)
          (s\<lparr>task_idle := idle, task_current := 0, task_next := idle, task_needs_switching := 1\<rparr>))
      })"

section \<open>Children\<close>

definition upd_task_node :: "u32 \<Rightarrow> (task_node_t \<Rightarrow> task_node_t) \<Rightarrow> 'a kernel_scheme \<Rightarrow> 'a kernel_scheme" where
  "upd_task_node p f s = s\<lparr>task_nodes := (task_nodes s)(p := f (task_nodes s p))\<rparr>"

definition child_links :: "'a kernel_scheme \<Rightarrow> u32 \<Rightarrow> u32" where
  "child_links s p = node_next (task_nodes s p)"

definition task_manager_add_child_to_task ::
    "u32 \<Rightarrow> u32 \<Rightarrow> 'a kernel_scheme \<Rightarrow> (task_manager_result_t \<times> 'a kernel_scheme) option" where
  "task_manager_add_child_to_task par child s = do {
     (node, s) \<leftarrow> kernel_heap_malloc sizeof_task_node_t s;
     if node = 0 then None
     else let s = s\<lparr>task_nodes := (task_nodes s)(node :=
                \<lparr>node_task = child, node_next = 0, node_previous = children_tail (tasks s par)\<rparr>)\<rparr>
       in if children (tasks s par) = 0
          then Some (TASK_MANAGER_RESULT_OK, upd_task par (\<lambda>t. t\<lparr>children := node, children_tail := node\<rparr>) s)
          else if children_tail (tasks s par) = 0 then None
          else Some (TASK_MANAGER_RESULT_OK, upd_task par (\<lambda>t. t\<lparr>children_tail := node\<rparr>)
                 (upd_task_node (children_tail (tasks s par)) (\<lambda>n. n\<lparr>node_next := node\<rparr>) s))
   }"

definition task_manager_remove_child_from_task ::
    "u32 \<Rightarrow> u32 \<Rightarrow> 'a kernel_scheme \<Rightarrow> (task_manager_result_t \<times> 'a kernel_scheme) option" where
  "task_manager_remove_child_from_task par child s = do {
     head \<leftarrow> list_find (child_links s) (\<lambda>p. node_task (task_nodes s p) = child) (children (tasks s par));
     if head = 0 then Some (TASK_MANAGER_RESULT_CHILD_NOT_FOUND, s)
     else let n = task_nodes s head;
              s = (if node_previous n \<noteq> 0 then upd_task_node (node_previous n) (\<lambda>m. m\<lparr>node_next := node_next n\<rparr>) s
                   else upd_task par (\<lambda>t. t\<lparr>children := node_next n\<rparr>) s);
              s = (if node_next n \<noteq> 0 then upd_task_node (node_next n) (\<lambda>m. m\<lparr>node_previous := node_previous n\<rparr>) s
                   else upd_task par (\<lambda>t. t\<lparr>children_tail := node_previous n\<rparr>) s)
       in do {
         s \<leftarrow> kernel_heap_free head s;
         Some (TASK_MANAGER_RESULT_OK, s)
       }
   }"

definition task_manager_find_child :: "u32 \<Rightarrow> u32 \<Rightarrow> 'a kernel_scheme \<Rightarrow> u32 option" where
  "task_manager_find_child par pid s = do {
     head \<leftarrow> list_find (child_links s) (\<lambda>p. task_id (tasks s (node_task (task_nodes s p))) = pid) (children (tasks s par));
     Some (if head = 0 then 0 else node_task (task_nodes s head))
   }"

definition task_manager_find_zombie_child :: "u32 \<Rightarrow> 'a kernel_scheme \<Rightarrow> u32 option" where
  "task_manager_find_zombie_child par s = do {
     head \<leftarrow> list_find (child_links s) (\<lambda>p. task_state (tasks s (node_task (task_nodes s p))) = TASK_STATE_ZOMBIE)
       (children (tasks s par));
     Some (if head = 0 then 0 else node_task (task_nodes s head))
   }"

text \<open>
  The recursive search visits a task and then its children in order; the loop over the children is
  the function below, with the recursive call in its body.
\<close>

partial_function (option) find_task_below :: "'a kernel_scheme \<Rightarrow> u32 \<Rightarrow> u32 \<Rightarrow> u32 option" where
  "find_task_below s pid head =
     (if head = 0 then Some 0
      else let task = node_task (task_nodes s head) in
        if task_id (tasks s task) = pid then Some task
        else do {
          found \<leftarrow> find_task_below s pid (children (tasks s task));
          if found \<noteq> 0 then Some found else find_task_below s pid (child_links s head)
        })"

definition task_manager_find_task_recursive :: "u32 \<Rightarrow> u32 \<Rightarrow> 'a kernel_scheme \<Rightarrow> u32 option" where
  "task_manager_find_task_recursive root pid s =
     (if task_id (tasks s root) = pid then Some root else find_task_below s pid (children (tasks s root)))"

definition task_manager_find_task :: "u32 \<Rightarrow> 'a kernel_scheme \<Rightarrow> u32 option" where
  "task_manager_find_task pid s = (if task_init s = 0 then None else task_manager_find_task_recursive (task_init s) pid s)"

section \<open>The end of a task\<close>

text \<open>
  The children of a task that ends go to the front of the list of the first task. The field
  \<^verbatim>\<open>previous\<close> of the new node keeps what its block held.
\<close>

partial_function (option) reparent_children ::
    "u32 \<Rightarrow> 'a kernel_scheme \<Rightarrow> (task_manager_result_t \<times> 'a kernel_scheme) option" where
  "reparent_children head s =
     (if head = 0 then Some (TASK_MANAGER_RESULT_OK, s)
      else let following = child_links s head; child = node_task (task_nodes s head) in do {
        (node, s) \<leftarrow> kernel_heap_malloc sizeof_task_node_t (upd_task child (\<lambda>t. t\<lparr>parent := task_init s\<rparr>) s);
        if node = 0 then Some (TASK_MANAGER_RESULT_OUT_OF_MEMORY, s)
        else if task_init s = 0 then None
        else do {
          s \<leftarrow> kernel_heap_free head
            (upd_task (task_init s) (\<lambda>t. t\<lparr>children := node\<rparr>)
              (upd_task_node node (\<lambda>n. n\<lparr>node_task := child, node_next := children (tasks s (task_init s))\<rparr>) s));
          reparent_children following s
        }
      })"

definition waits_for :: "task_t \<Rightarrow> u32 \<Rightarrow> bool" where
  "waits_for p pid \<longleftrightarrow> task_state p = TASK_STATE_BLOCKED \<and> wait_reason p = TASK_WAIT_REASON_CHILD \<and>
     (wait_object p = pid \<or> wait_object p = - 1)"

definition task_manager_exit_task ::
    "u32 \<Rightarrow> u32 \<Rightarrow> 'a kernel_scheme \<Rightarrow> (task_manager_result_t \<times> 'a kernel_scheme) option" where
  "task_manager_exit_task task code s = do {
     s \<leftarrow> (case task_state (tasks s task) of
         TASK_STATE_READY \<Rightarrow> map_option snd (task_manager_remove_task_from_queue (task_queue_level (tasks s task)) task s)
       | TASK_STATE_BLOCKED \<Rightarrow> map_option snd (task_manager_remove_task_from_queue TASK_MANAGER_QUEUE_INDEX_BLOCKED task s)
       | _ \<Rightarrow> Some s);
     let s = upd_task task (\<lambda>t. t\<lparr>task_state := TASK_STATE_ZOMBIE, return_code := code\<rparr>) s in do {
       (result, s) \<leftarrow> reparent_children (children (tasks s task)) s;
       if result \<noteq> TASK_MANAGER_RESULT_OK then Some (result, s)
       else let s = upd_task task (\<lambda>t. t\<lparr>children := 0\<rparr>) s;
                p = parent (tasks s task)
            in do {
              s \<leftarrow> (if p \<noteq> 0 \<and> waits_for (tasks s p) (task_id (tasks s task))
                    then map_option snd (task_manager_unblock_task p s) else Some s);
              s \<leftarrow> task_manager_enqueue_task TASK_MANAGER_QUEUE_INDEX_ZOMBIE task s;
              Some (TASK_MANAGER_RESULT_OK, s)
            }
     }
   }"

definition remove_resources ::
    "(u32 \<Rightarrow> 'a kernel_scheme \<Rightarrow> (resource_result_t \<times> 'a kernel_scheme) option) \<Rightarrow> u32 \<Rightarrow> 'a kernel_scheme \<Rightarrow> 'a kernel_scheme option" where
  "remove_resources close task =
     for_each (\<lambda>i s. if resources (tasks s task) i = 0 then Some s else map_option snd (resource_remove close task i s))
       (indices (unat TASK_MAX_RESOURCES))"

definition task_manager_destroy_task ::
    "(u32 \<Rightarrow> 'a kernel_scheme \<Rightarrow> (resource_result_t \<times> 'a kernel_scheme) option) \<Rightarrow> u32 \<Rightarrow> 'a kernel_scheme \<Rightarrow> 'a kernel_scheme option" where
  "task_manager_destroy_task close task s =
     (let p = parent (tasks s task); t = tasks s task;
          s = (if p \<noteq> 0 then upd_task p (\<lambda>u. u\<lparr>child_ticks_user := child_ticks_user u + (ticks_user t + child_ticks_user t),
                 child_ticks_system := child_ticks_system u + (ticks_system t + child_ticks_system t)\<rparr>) s else s)
      in do {
        s \<leftarrow> remove_resources close task s;
        s \<leftarrow> (if parent (tasks s task) \<noteq> 0
              then map_option snd (task_manager_remove_child_from_task (parent (tasks s task)) task s) else Some s);
        (_, s) \<leftarrow> task_manager_remove_task_from_queue (task_queue_level (tasks s task)) task s;
        s \<leftarrow> (if task_cr3 (tasks s task) \<noteq> kernel_page_directory_phys s
              then do {
                (task_page_directory, s) \<leftarrow> bounce_alloc (task_cr3 (tasks s task)) s;
                s \<leftarrow> memory_paging_free_page_directory task_page_directory s;
                s \<leftarrow> bounce_free task_page_directory s;
                Some (free_frame (task_cr3 (tasks s task)) s)
              }
              else Some s);
        kernel_heap_free task s
      })"

section \<open>Signals\<close>

text \<open>The words of an interrupt frame, from its lowest address up.\<close>

definition frame_words :: "register_interrupt_data_t \<Rightarrow> u32 list" where
  "frame_words f = [frame_gs f, frame_fs f, frame_es f, frame_ds f, frame_edi f, frame_esi f, frame_ebp f, frame_ebx f,
     frame_edx f, frame_ecx f, frame_eax f, interrupt_index f, error_code f, frame_eip f, frame_cs f, frame_eflags f,
     frame_useresp f, frame_ss f]"

definition frame_of_words :: "u32 list \<Rightarrow> register_interrupt_data_t" where
  "frame_of_words w = \<lparr>frame_gs = w ! 0, frame_fs = w ! 1, frame_es = w ! 2, frame_ds = w ! 3, frame_edi = w ! 4,
     frame_esi = w ! 5, frame_ebp = w ! 6, frame_ebx = w ! 7, frame_edx = w ! 8, frame_ecx = w ! 9, frame_eax = w ! 10,
     interrupt_index = w ! 11, error_code = w ! 12, frame_eip = w ! 13, frame_cs = w ! 14, frame_eflags = w ! 15,
     frame_useresp = w ! 16, frame_ss = w ! 17\<rparr>"

definition word_bytes :: "u32 \<Rightarrow> char list" where
  "word_bytes w = map (\<lambda>i. char_of (unat (get_byte w i))) [0..<4]"

definition frame_bytes :: "register_interrupt_data_t \<Rightarrow> char list" where
  "frame_bytes f = concat (map word_bytes (frame_words f))"

definition frame_of_bytes :: "char list \<Rightarrow> register_interrupt_data_t" where
  "frame_of_bytes bs = frame_of_words (map (\<lambda>i. load_u32 (\<lambda>p. bs ! unat p) (4 * of_nat i)) [0..<18])"

definition vread_byte :: "u32 \<Rightarrow> 'a machine_scheme \<Rightarrow> char option" where
  "vread_byte va s = do {
     w \<leftarrow> vread (va AND NOT 3) s;
     Some (char_of (unat (get_byte w (unat (va AND 3)))))
   }"

definition vread_bytes :: "u32 \<Rightarrow> nat \<Rightarrow> 'a machine_scheme \<Rightarrow> char list option" where
  "vread_bytes va n s = those (map (\<lambda>i. vread_byte (va + of_nat i) s) [0..<n])"

text \<open>
  \<^verbatim>\<open>task_manager_copy_memory\<close> page by page: into the memory of the target, and out of it. The loop
  ends early when a page is not mapped; then the caller gets the bytes copied so far.
\<close>

definition chunk_size :: "u32 \<Rightarrow> nat \<Rightarrow> nat" where
  "chunk_size physical n = min (unat (PAGE_SIZE - (physical - ALIGN_DOWN physical))) n"

lemma chunk_positive: "n \<noteq> 0 \<Longrightarrow> 0 < chunk_size p n"
proof -
  have "unat p mod 4096 \<le> unat p" by simp
  then have "unat (p - ALIGN_DOWN p) = unat p mod 4096"
    by (simp add: unat_sub [OF ALIGN_DOWN_le] unat_ALIGN_DOWN) (metis add_diff_cancel_left' div_mult_mod_eq mult.commute)
  moreover have "unat p mod 4096 < 4096" by simp
  ultimately have "p - ALIGN_DOWN p < PAGE_SIZE" by (simp add: word_less_nat_alt PAGE_SIZE_def)
  then have "0 < PAGE_SIZE - (p - ALIGN_DOWN p)" by (simp add: word_gt_0)
  then show "n \<noteq> 0 \<Longrightarrow> 0 < chunk_size p n" by (simp add: chunk_size_def word_less_nat_alt)
qed


function copy_to_task :: "u32 \<Rightarrow> u32 \<Rightarrow> char list \<Rightarrow> 'a machine_scheme \<Rightarrow> 'a machine_scheme option" where
  "copy_to_task cr3_phys va bs s =
     (if bs = [] then Some s
      else do {
        (physical, s) \<leftarrow> memory_paging_virtual_to_physical cr3_phys va s;
        if physical = 0 then Some s
        else let chunk = chunk_size physical (length bs) in do {
          (mapped, s) \<leftarrow> bounce_alloc (ALIGN_DOWN physical) s;
          s \<leftarrow> vwrite_bytes (mapped + (physical - ALIGN_DOWN physical)) (take chunk bs) s;
          s \<leftarrow> bounce_free mapped s;
          copy_to_task cr3_phys (va + of_nat chunk) (drop chunk bs) s
        }
      })"
  by pat_completeness auto
termination
  by (relation "measure (\<lambda>(_, _, bs, _). length bs)") (auto simp: chunk_positive)

function copy_from_task :: "u32 \<Rightarrow> u32 \<Rightarrow> nat \<Rightarrow> 'a machine_scheme \<Rightarrow> (char list \<times> 'a machine_scheme) option" where
  "copy_from_task cr3_phys va n s =
     (if n = 0 then Some ([], s)
      else do {
        (physical, s) \<leftarrow> memory_paging_virtual_to_physical cr3_phys va s;
        if physical = 0 then Some ([], s)
        else let chunk = chunk_size physical n in do {
          (mapped, s) \<leftarrow> bounce_alloc (ALIGN_DOWN physical) s;
          bs \<leftarrow> vread_bytes (mapped + (physical - ALIGN_DOWN physical)) chunk s;
          s \<leftarrow> bounce_free mapped s;
          (rest, s) \<leftarrow> copy_from_task cr3_phys (va + of_nat chunk) (n - chunk) s;
          Some (bs @ rest, s)
        }
      })"
  by pat_completeness auto
termination
  by (relation "measure (\<lambda>(_, _, n, _). n)") (auto simp: chunk_positive)

declare copy_to_task.simps [simp del] copy_from_task.simps [simp del]

text \<open>The pages from one aligned address up to another.\<close>

definition pages_between :: "u32 \<Rightarrow> u32 \<Rightarrow> u32 list" where
  "pages_between first stop = map (\<lambda>i. first + of_nat i * PAGE_SIZE) [0..<(unat stop - unat first) div unat PAGE_SIZE]"

primrec all_mapped :: "u32 \<Rightarrow> u32 list \<Rightarrow> 'a machine_scheme \<Rightarrow> (bool \<times> 'a machine_scheme) option" where
  "all_mapped cr3_phys [] s = Some (True, s)"
| "all_mapped cr3_phys (page # rest) s = do {
     (physical, s) \<leftarrow> memory_paging_virtual_to_physical cr3_phys page s;
     if physical = 0 then Some (False, s) else all_mapped cr3_phys rest s
   }"

definition task_manager_user_range_mapped :: "u32 \<Rightarrow> u32 \<Rightarrow> u32 \<Rightarrow> 'a machine_scheme \<Rightarrow> (bool \<times> 'a machine_scheme) option" where
  "task_manager_user_range_mapped cr3_phys va len =
     all_mapped cr3_phys (pages_between (ALIGN_DOWN va) (ALIGN_UP (va + len)))"

definition SYSCALL_SIGRETURN :: u32 where "SYSCALL_SIGRETURN = 21"

text \<open>\<^verbatim>\<open>mov eax, SYSCALL_SIGRETURN; int 0x80; jmp $\<close>\<close>

definition trampoline :: "char list" where
  "trampoline = CHR 0xB8 # word_bytes SYSCALL_SIGRETURN @ [CHR 0xCD, CHR 0x80, CHR 0xEB, CHR 0xFE]"

definition sizeof_frame :: nat where "sizeof_frame = 72"

text \<open>The frame of the target: that of the running system call, or the one saved on its kernel stack.\<close>

definition target_frame :: "u32 \<Rightarrow> 'a kernel_scheme \<Rightarrow> (register_interrupt_data_t \<times> 'a kernel_scheme) option" where
  "target_frame target s =
     (if target = task_current s then Some (syscall_frame s, s)
      else do {
        (bs, s) \<leftarrow> copy_from_task (task_cr3 (tasks s target)) (task_esp (tasks s target)) sizeof_frame s;
        if length bs < sizeof_frame then None else Some (frame_of_bytes bs, s)
      })"

definition write_signal_frame ::
    "u32 \<Rightarrow> u32 \<Rightarrow> u32 \<Rightarrow> register_interrupt_data_t \<Rightarrow> 'a kernel_scheme \<Rightarrow> 'a kernel_scheme option" where
  "write_signal_frame target sig trampoline_addr frame s =
     (let arg_addr = trampoline_addr - 4; retaddr_addr = arg_addr - 4 in
      if target = task_current s
      then Some (s\<lparr>heap_data := store_u32 retaddr_addr trampoline_addr (store_u32 arg_addr sig
             (fold (\<lambda>(i, c) m. m(trampoline_addr + of_nat i := c)) (enumerate 0 trampoline) (heap_data s))),
           syscall_frame := frame\<rparr>)
      else let target_cr3 = task_cr3 (tasks s target) in do {
        s \<leftarrow> copy_to_task target_cr3 trampoline_addr trampoline s;
        s \<leftarrow> copy_to_task target_cr3 arg_addr (word_bytes sig) s;
        s \<leftarrow> copy_to_task target_cr3 retaddr_addr (word_bytes trampoline_addr) s;
        copy_to_task target_cr3 (task_esp (tasks s target)) (frame_bytes frame) s
      })"

definition task_manager_deliver_signal :: "u32 \<Rightarrow> u32 \<Rightarrow> u32 \<Rightarrow> 'a kernel_scheme \<Rightarrow> 'a kernel_scheme option" where
  "task_manager_deliver_signal target sig handler s =
     (let frame_size = 9 + 8; is_self = (target = task_current s) in do {
        (frame, s) \<leftarrow> target_frame target s;
        let trampoline_addr = frame_useresp frame - 9; arg_addr = trampoline_addr - 4; retaddr_addr = arg_addr - 4 in do {
          (mapped, s) \<leftarrow> (if frame_useresp frame < frame_size then Some (False, s)
            else task_manager_user_range_mapped (task_cr3 (tasks s target)) retaddr_addr frame_size s);
          if \<not> mapped
          then do {
            (_, s) \<leftarrow> task_manager_exit_task target (sig AND 0x7F) s;
            if is_self then map_option snd (task_manager_yield_current s) else Some s
          }
          else write_signal_frame target sig trampoline_addr (frame\<lparr>frame_useresp := retaddr_addr, frame_eip := handler\<rparr>)
            (upd_task target (\<lambda>t. t\<lparr>saved_signal_frame := frame, in_signal_handler := 1,
               saved_syscall_retry := syscall_retry t, syscall_retry := 0\<rparr>) s)
        }
      })"

end
