(* ===== verification/Elf.thy ===== *)
theory Elf
  imports Vfs Tasks
begin

text \<open>
  The program loader \<^verbatim>\<open>src/elf_executable.c\<close>: reading the header and the program headers of an ELF
  file, mapping and filling the segments of a new address space through bounce pages, and giving the
  address space to the task. The two local buffers of the C function are given by their addresses on
  the kernel stack. A store into a bounce page reaches the frame that the page shows.
\<close>

unbundle bit_operations_syntax

section \<open>Headers\<close>

definition PT_LOAD :: u32 where "PT_LOAD = 1"

record Elf32_Ehdr =
  e_ident :: "char list"
  e_type :: u32
  e_machine :: u32
  e_version :: u32
  e_entry :: u32
  e_phoff :: u32
  e_shoff :: u32
  e_flags :: u32
  e_ehsize :: u32
  e_phentsize :: u32
  e_phnum :: u32
  e_shentsize :: u32
  e_shnum :: u32
  e_shstrndx :: u32

record Elf32_Phdr =
  p_type :: u32
  p_offset :: u32
  p_vaddr :: u32
  p_paddr :: u32
  p_filesz :: u32
  p_memsz :: u32
  p_flags :: u32
  p_align :: u32

datatype elf_result_t =
    ELF_RESULT_OK | ELF_RESULT_INVALID_ELF | ELF_RESULT_BAD_PARAMETER | ELF_RESULT_READ_ERROR | ELF_RESULT_ALLOCATION_ERROR

definition sizeof_Elf32_Ehdr :: u32 where "sizeof_Elf32_Ehdr = 52"
definition sizeof_Elf32_Phdr :: u32 where "sizeof_Elf32_Phdr = 32"

definition load_u16 :: "cmem \<Rightarrow> u32 \<Rightarrow> u32" where
  "load_u16 m p = of_char (m p) OR push_bit 8 (of_char (m (p + 1)))"

definition elf_header_at :: "cmem \<Rightarrow> u32 \<Rightarrow> Elf32_Ehdr" where
  "elf_header_at m p = \<lparr>e_ident = bytes_at m p 16, e_type = load_u16 m (p + 16), e_machine = load_u16 m (p + 18),
     e_version = load_u32 m (p + 20), e_entry = load_u32 m (p + 24), e_phoff = load_u32 m (p + 28),
     e_shoff = load_u32 m (p + 32), e_flags = load_u32 m (p + 36), e_ehsize = load_u16 m (p + 40),
     e_phentsize = load_u16 m (p + 42), e_phnum = load_u16 m (p + 44), e_shentsize = load_u16 m (p + 46),
     e_shnum = load_u16 m (p + 48), e_shstrndx = load_u16 m (p + 50)\<rparr>"

definition program_header_at :: "cmem \<Rightarrow> u32 \<Rightarrow> Elf32_Phdr" where
  "program_header_at m p = \<lparr>p_type = load_u32 m p, p_offset = load_u32 m (p + 4), p_vaddr = load_u32 m (p + 8),
     p_paddr = load_u32 m (p + 12), p_filesz = load_u32 m (p + 16), p_memsz = load_u32 m (p + 20),
     p_flags = load_u32 m (p + 24), p_align = load_u32 m (p + 28)\<rparr>"

definition is_elf :: "Elf32_Ehdr \<Rightarrow> bool" where
  "is_elf h \<longleftrightarrow> e_ident h ! 0 = CHR 0x7F \<and> e_ident h ! 1 = CHR ''E'' \<and> e_ident h ! 2 = CHR ''L'' \<and> e_ident h ! 3 = CHR ''F''"

section \<open>Segments\<close>

text \<open>The pages of a segment are taken from the frame allocator and mapped one by one.\<close>

primrec map_segment ::
    "u32 \<Rightarrow> u32 \<Rightarrow> u32 list \<Rightarrow> 'a machine_scheme \<Rightarrow> (elf_result_t \<times> 'a machine_scheme) option" where
  "map_segment page_directory flags [] s = Some (ELF_RESULT_OK, s)"
| "map_segment page_directory flags (address # rest) s =
     (let (memory, s) = allocate_frame s in
      if memory = 0 then Some (ELF_RESULT_ALLOCATION_ERROR, s)
      else do {
        (paging_result, s) \<leftarrow> memory_paging_map page_directory memory address flags s;
        if paging_result \<noteq> MEMORY_PAGING_RESULT_OK then Some (ELF_RESULT_ALLOCATION_ERROR, free_frame memory s)
        else map_segment page_directory flags rest s
      })"

definition page_chunk :: "u32 \<Rightarrow> u32 \<Rightarrow> u32" where
  "page_chunk virt n = (let chunk = PAGE_SIZE - (virt AND (PAGE_SIZE - 1)) in if chunk > n then n else chunk)"

lemma page_chunk_decreases: "n \<noteq> 0 \<Longrightarrow> unat (n - page_chunk v n) < unat n"
proof -
  assume n: "n \<noteq> 0"
  have "v AND (PAGE_SIZE - 1) < PAGE_SIZE"
    using word_and_le1 [of v "PAGE_SIZE - 1"] unfolding PAGE_SIZE_def by (simp add: word_le_nat_alt word_less_nat_alt)
  then have "0 < PAGE_SIZE - (v AND (PAGE_SIZE - 1))" by (simp add: word_gt_0)
  then have "0 < page_chunk v n" "page_chunk v n \<le> n" using n by (auto simp: page_chunk_def Let_def word_gt_0)
  then show "unat (n - page_chunk v n) < unat n" by unat_arith
qed

definition read_into_window ::
    "u32 \<Rightarrow> u32 \<Rightarrow> u32 \<Rightarrow> u32 \<Rightarrow> 'a kernel_io_scheme \<Rightarrow> (resource_result_t \<times> 'a kernel_io_scheme) option" where
  "read_into_window node offset va len s =
     (let (result, n, s) = vfs_read_data node offset va len s in do {
        s \<leftarrow> vwrite_bytes va (bytes_at (heap_data s) va (unat n)) s;
        Some (result, s)
      })"

function copy_segment ::
    "u32 \<Rightarrow> u32 \<Rightarrow> u32 \<Rightarrow> u32 \<Rightarrow> u32 \<Rightarrow> 'a kernel_io_scheme \<Rightarrow> (elf_result_t \<times> 'a kernel_io_scheme) option" where
  "copy_segment node page_directory_phys file_offset virt bytes_to_copy s =
     (if bytes_to_copy = 0 then Some (ELF_RESULT_OK, s)
      else let page_off = virt AND (PAGE_SIZE - 1); chunk = page_chunk virt bytes_to_copy in do {
        (phys, s) \<leftarrow> memory_paging_virtual_to_physical page_directory_phys virt s;
        (kaddr, s) \<leftarrow> bounce_alloc phys s;
        (result, s) \<leftarrow> read_into_window node file_offset (kaddr + page_off) chunk s;
        s \<leftarrow> bounce_free kaddr s;
        if result \<noteq> RESOURCE_RESULT_OK then Some (ELF_RESULT_READ_ERROR, s)
        else copy_segment node page_directory_phys (file_offset + chunk) (virt + chunk) (bytes_to_copy - chunk) s
      })"
  by pat_completeness auto
termination
  by (relation "measure (\<lambda>(_, _, _, _, n, _). unat n)") (auto simp: page_chunk_decreases)

function zero_segment :: "u32 \<Rightarrow> u32 \<Rightarrow> u32 \<Rightarrow> 'a machine_scheme \<Rightarrow> (elf_result_t \<times> 'a machine_scheme) option" where
  "zero_segment page_directory_phys zero_start zero_len s =
     (if zero_len = 0 then Some (ELF_RESULT_OK, s)
      else let page_off = zero_start AND (PAGE_SIZE - 1); chunk = page_chunk zero_start zero_len in do {
        (phys, s) \<leftarrow> memory_paging_virtual_to_physical page_directory_phys zero_start s;
        (kaddr, s) \<leftarrow> bounce_alloc phys s;
        if kaddr = 0 then Some (ELF_RESULT_ALLOCATION_ERROR, s)
        else do {
          s \<leftarrow> vwrite_bytes (kaddr + page_off) (replicate (unat chunk) nul) s;
          s \<leftarrow> bounce_free kaddr s;
          zero_segment page_directory_phys (zero_start + chunk) (zero_len - chunk) s
        }
      })"
  by pat_completeness auto
termination
  by (relation "measure (\<lambda>(_, _, n, _). unat n)") (auto simp: page_chunk_decreases)

declare copy_segment.simps [simp del] zero_segment.simps [simp del]

text \<open>What the loader gives back when it fails, in the order of the code.\<close>

definition fail_release_first ::
    "u32 \<Rightarrow> u32 \<Rightarrow> elf_result_t \<Rightarrow> 'a kernel_io_scheme \<Rightarrow> (elf_result_t \<times> 'a kernel_io_scheme) option" where
  "fail_release_first node page_directory result s = do {
     s \<leftarrow> release node s;
     s \<leftarrow> bounce_free page_directory s;
     Some (result, s)
   }"

definition fail_release_last ::
    "u32 \<Rightarrow> u32 \<Rightarrow> elf_result_t \<Rightarrow> 'a kernel_io_scheme \<Rightarrow> (elf_result_t \<times> 'a kernel_io_scheme) option" where
  "fail_release_last node page_directory result s = do {
     s \<leftarrow> bounce_free page_directory s;
     s \<leftarrow> release node s;
     Some (result, s)
   }"

definition load_segment ::
    "u32 \<Rightarrow> u32 \<Rightarrow> u32 \<Rightarrow> u32 \<Rightarrow> Elf32_Phdr \<Rightarrow> 'a kernel_io_scheme \<Rightarrow> (elf_result_t \<times> 'a kernel_io_scheme) option" where
  "load_segment node page_directory page_directory_phys flags ph s = do {
     (result, s) \<leftarrow> map_segment page_directory flags
       (pages_between (ALIGN_DOWN (p_vaddr ph)) (ALIGN_UP (p_vaddr ph + p_memsz ph))) s;
     if result \<noteq> ELF_RESULT_OK then fail_release_first node page_directory result s
     else do {
       (result, s) \<leftarrow> copy_segment node page_directory_phys (p_offset ph) (p_vaddr ph) (p_filesz ph) s;
       if result \<noteq> ELF_RESULT_OK then fail_release_last node page_directory result s
       else if p_memsz ph > p_filesz ph
       then do {
         (result, s) \<leftarrow> zero_segment page_directory_phys (p_vaddr ph + p_filesz ph) (p_memsz ph - p_filesz ph) s;
         if result \<noteq> ELF_RESULT_OK then fail_release_last node page_directory result s else Some (ELF_RESULT_OK, s)
       }
       else Some (ELF_RESULT_OK, s)
     }
   }"

text \<open>The program headers in order; the heap of the program starts behind the highest segment.\<close>

fun load_segments ::
    "u32 \<Rightarrow> u32 \<Rightarrow> u32 \<Rightarrow> u32 \<Rightarrow> u32 \<Rightarrow> u32 \<Rightarrow> u32 list \<Rightarrow> u32 \<Rightarrow> 'a kernel_io_scheme \<Rightarrow>
      (elf_result_t \<times> u32 \<times> 'a kernel_io_scheme) option" where
  "load_segments node page_directory page_directory_phys flags phoff buf [] heap_top s = Some (ELF_RESULT_OK, heap_top, s)"
| "load_segments node page_directory page_directory_phys flags phoff buf (i # rest) heap_top s =
     (let (result, n, s) = vfs_read_data node (phoff + i * sizeof_Elf32_Phdr) buf sizeof_Elf32_Phdr s in
      if result \<noteq> RESOURCE_RESULT_OK
      then do {
        (result, s) \<leftarrow> fail_release_first node page_directory ELF_RESULT_READ_ERROR s;
        Some (result, heap_top, s)
      }
      else let ph = program_header_at (heap_data s) buf in
        if p_type ph \<noteq> PT_LOAD
        then load_segments node page_directory page_directory_phys flags phoff buf rest heap_top s
        else let segment_end = ALIGN_UP (p_vaddr ph + p_memsz ph);
                 heap_top = (if segment_end > heap_top then segment_end else heap_top)
             in do {
               (result, s) \<leftarrow> load_segment node page_directory page_directory_phys flags ph s;
               if result \<noteq> ELF_RESULT_OK then Some (result, heap_top, s)
               else load_segments node page_directory page_directory_phys flags phoff buf rest heap_top s
             })"

section \<open>Loading a program\<close>

definition SYSCALL_SIG_DFL :: u32 where "SYSCALL_SIG_DFL = 0"
definition SYSCALL_SIG_IGN :: u32 where "SYSCALL_SIG_IGN = 1"

definition reset_handlers :: "(u32 \<Rightarrow> u32) \<Rightarrow> u32 \<Rightarrow> u32" where
  "reset_handlers h =
     fold (\<lambda>i h. if h i \<noteq> SYSCALL_SIG_IGN then h(i := SYSCALL_SIG_DFL) else h) (indices (unat SYSCALL_NSIG)) h"

definition elf_load_into_task ::
    "u32 \<Rightarrow> u32 \<Rightarrow> u32 \<Rightarrow> char list option \<Rightarrow> u32 \<Rightarrow> 'a kernel_io_scheme \<Rightarrow> (elf_result_t \<times> 'a kernel_io_scheme) option" where
  "elf_load_into_task header_buf program_buf task pathname argv s =
     (case pathname of None \<Rightarrow> Some (ELF_RESULT_BAD_PARAMETER, s)
      | Some pathname \<Rightarrow> do {
          (result, elf_node, s) \<leftarrow> vfs_resolve pathname s;
          if result \<noteq> RESOURCE_RESULT_OK then Some (ELF_RESULT_INVALID_ELF, s)
          else if node_type (vfs_nodes s elf_node) \<noteq> VFS_NODE_TYPE_FILE
          then do {
            s \<leftarrow> release elf_node s;
            Some (ELF_RESULT_INVALID_ELF, s)
          }
          else let (result, n, s) = vfs_read_data elf_node 0 header_buf sizeof_Elf32_Ehdr s;
                   header = elf_header_at (heap_data s) header_buf
            in if result \<noteq> RESOURCE_RESULT_OK
               then do {
                 s \<leftarrow> release elf_node s;
                 Some (ELF_RESULT_READ_ERROR, s)
               }
               else if \<not> is_elf header
               then do {
                 s \<leftarrow> release elf_node s;
                 Some (ELF_RESULT_INVALID_ELF, s)
               }
               else do {
                 (paging_result, new_phys, s) \<leftarrow> memory_paging_create_page_directory s;
                 if paging_result \<noteq> MEMORY_PAGING_RESULT_OK then Some (ELF_RESULT_ALLOCATION_ERROR, s)
                 else let current_phys = memory_paging_get_current_page_directory_physical s in do {
                   (new_directory, s) \<leftarrow> bounce_alloc new_phys s;
                   (_, new_esp, s) \<leftarrow> task_manager_prepare_new_stack_with_args new_directory (task_is_user (tasks s task))
                     (e_entry header) argv s;
                   (result, heap_top, s) \<leftarrow> load_segments elf_node new_directory new_phys
                     (PAGE_PRESENT OR (if task_is_user (tasks s task) \<noteq> 0 then PAGE_USER else 0) OR PAGE_READ_WRITE)
                     (e_phoff header) program_buf (indices (unat (e_phnum header))) 0 s;
                   if result \<noteq> ELF_RESULT_OK then Some (result, s)
                   else do {
                     s \<leftarrow> bounce_free new_directory (upd_task task (\<lambda>t. t\<lparr>task_init_eip := e_entry header, task_cr3 := new_phys,
                       task_esp := new_esp, task_heap_start := heap_top, task_heap_break := heap_top,
                       signal_handlers := reset_handlers (signal_handlers t)\<rparr>) s);
                     (_, s) \<leftarrow> memory_paging_queue_to_destroy current_phys s;
                     Some (ELF_RESULT_OK, s)
                   }
                 }
               }
        })"

definition elf_load_and_execute ::
    "u32 \<Rightarrow> u32 \<Rightarrow> char list option \<Rightarrow> u32 \<Rightarrow> 'a kernel_io_scheme \<Rightarrow> (elf_result_t \<times> u32 \<times> 'a kernel_io_scheme) option" where
  "elf_load_and_execute header_buf program_buf pathname argv s = do {
     (created_task, s) \<leftarrow> task_manager_task_create 0 1 True s;
     (result, s) \<leftarrow> elf_load_into_task header_buf program_buf created_task pathname argv s;
     Some (result, created_task, s)
   }"

end
