(* ===== verification/Vga.thy ===== *)
theory Vga
  imports Terminal
begin

unbundle bit_operations_syntax

text \<open>
  The VGA text driver \<^verbatim>\<open>src/drivers/vga.c\<close>: the text memory as a function from cell numbers to 16-bit
  cells and the port writes of \<^verbatim>\<open>io_outb\<close> as a trace. The driver provides the interface of a text
  display, so that what holds of the terminal on any display holds of it on this one.
\<close>

section \<open>Data\<close>

definition VGA_WIDTH :: u32 where "VGA_WIDTH = 80"
definition VGA_HEIGHT :: u32 where "VGA_HEIGHT = 25"
definition VGA_COLOR_BLACK :: "4 word" where "VGA_COLOR_BLACK = 0x00"
definition VGA_COLOR_WHITE :: "4 word" where "VGA_COLOR_WHITE = 0x0F"

record vga_color_t =
  background :: "4 word"
  foreground :: "4 word"

datatype vga_result_t = VGA_RESULT_OK

record vga_t =
  color :: vga_color_t
  VGA_POINTER :: "u32 \<Rightarrow> u16"
  port_writes :: port_trace

section \<open>Operations\<close>

definition VGA_COLOR :: "vga_color_t \<Rightarrow> u32" where
  "VGA_COLOR c = (push_bit 4 (ucast (background c)) OR ucast (foreground c))"

definition vga_set_color :: "vga_color_t \<Rightarrow> vga_t \<Rightarrow> vga_result_t \<times> vga_t" where
  "vga_set_color c d = (VGA_RESULT_OK, d\<lparr>color := c\<rparr>)"

text \<open>The character is a signed \<^verbatim>\<open>char\<close>, promoted to \<^verbatim>\<open>int\<close> before the bitwise or.\<close>

definition vga_put_char :: "char \<Rightarrow> u32 \<Rightarrow> u32 \<Rightarrow> vga_t \<Rightarrow> vga_t" where
  "vga_put_char character x y d =
     d\<lparr>VGA_POINTER := (VGA_POINTER d)(VGA_WIDTH * y + x :=
       ucast (push_bit 8 (VGA_COLOR (color d)) OR scast (of_char character :: u8) :: u32))\<rparr>"

definition vga_set_cursor :: "u32 \<Rightarrow> u32 \<Rightarrow> vga_t \<Rightarrow> vga_t" where
  "vga_set_cursor x y d =
     (let pos = ucast (y * VGA_WIDTH + x) :: u16;
          ports = io_outb 0x3D4 0x0F (port_writes d);
          ports = io_outb 0x3D5 (ucast (pos AND 0xFF)) ports;
          ports = io_outb 0x3D4 0x0E ports
      in d\<lparr>port_writes := io_outb 0x3D5 (ucast (drop_bit 8 pos AND 0xFF)) ports\<rparr>)"

definition vga_cursor_disable :: "vga_t \<Rightarrow> vga_t" where
  "vga_cursor_disable d = d\<lparr>port_writes := io_outb 0x3D5 0x20 (io_outb 0x3D4 0x0A (port_writes d))\<rparr>"

definition vga_get_dimensions :: "vga_t \<Rightarrow> u32 \<times> u32" where
  "vga_get_dimensions d = (VGA_WIDTH, VGA_HEIGHT)"

text \<open>\<^verbatim>\<open>vga_create\<close> sets the colour of the structure and the functions of the driver.\<close>

definition vga_create :: "vga_t \<Rightarrow> vga_result_t \<times> vga_t text_display_driver_t \<times> vga_t" where
  "vga_create d = (VGA_RESULT_OK,
     \<lparr>put_char = vga_put_char, set_cursor = vga_set_cursor, get_dimensions = vga_get_dimensions\<rparr>,
     d\<lparr>color := \<lparr>background = VGA_COLOR_BLACK, foreground = VGA_COLOR_WHITE\<rparr>\<rparr>)"

definition vga_driver :: "vga_t text_display_driver_t" where
  "vga_driver = \<lparr>put_char = vga_put_char, set_cursor = vga_set_cursor, get_dimensions = vga_get_dimensions\<rparr>"

section \<open>The driver is a text display\<close>

definition vga_shown :: "vga_t \<Rightarrow> u32 \<Rightarrow> u32 \<Rightarrow> char" where
  "vga_shown d x y = char_of (unat (VGA_POINTER d (y * VGA_WIDTH + x)))"

lemma unat_of_char: "unat (of_char c :: u8) = of_char c"
  by (cases c) simp

lemma vga_cell_byte: "take_bit 8 (ucast (push_bit 8 v OR scast b :: u32) :: u16) = ucast b" for b :: u8
proof (rule bit_word_eqI)
  fix n :: nat
  consider "n < 7" | "n = 7" | "8 \<le> n" by linarith
  then show "bit (take_bit 8 (ucast (push_bit 8 v OR scast b :: u32) :: u16)) n = bit (ucast b :: u16) n"
    by cases (auto simp: bit_simps dest: bit_imp_le_length)
qed

lemma vga_cell_char: "char_of (unat (ucast (push_bit 8 v OR scast (of_char c :: u8) :: u32) :: u16)) = c"
proof -
  let ?v = "ucast (push_bit 8 v OR scast (of_char c :: u8) :: u32) :: u16"
  have "take_bit 8 (unat ?v) = unat (ucast (of_char c :: u8) :: u16)"
    using vga_cell_byte [of v "of_char c"] by (metis unsigned_take_bit_eq)
  also have "\<dots> = of_char c"
    using unsigned_less [where ?'a = nat, of "of_char c :: u8"]
    by (simp add: unsigned_ucast_eq take_bit_nat_eq_self_iff unat_of_char less_trans [of _ 256])
  finally have "take_bit 8 (unat ?v) = of_char c" .
  then have "char_of (take_bit 8 (unat ?v)) = c" by simp
  then show ?thesis by (simp add: char_of_take_bit_eq)
qed

interpretation vga_display: text_display vga_driver vga_shown VGA_WIDTH VGA_HEIGHT
proof
  show "get_dimensions vga_driver d = (VGA_WIDTH, VGA_HEIGHT)" for d
    by (simp add: vga_driver_def vga_get_dimensions_def)
  show "0 < VGA_WIDTH" "0 < VGA_HEIGHT" "unat VGA_WIDTH * unat VGA_HEIGHT < 2 ^ 31"
    by (simp_all add: VGA_WIDTH_def VGA_HEIGHT_def)
  show "vga_shown (put_char vga_driver c x y d) x' y' = (if x' = x \<and> y' = y then c else vga_shown d x' y')"
    if "x < VGA_WIDTH" "y < VGA_HEIGHT" "x' < VGA_WIDTH" "y' < VGA_HEIGHT" for x y x' y' c d
    using grid_inj [of VGA_WIDTH VGA_HEIGHT x' y' x y] that
    by (simp add: vga_driver_def vga_put_char_def vga_shown_def vga_cell_char mult.commute VGA_WIDTH_def VGA_HEIGHT_def)
  show "vga_shown (set_cursor vga_driver x y d) x' y' = vga_shown d x' y'" for x y d x' y'
    by (simp add: vga_driver_def vga_set_cursor_def vga_shown_def Let_def)
qed

section \<open>Properties\<close>

definition vga_terminal_ok :: "terminal_t \<Rightarrow> vga_t \<Rightarrow> bool" where
  "vga_terminal_ok t d \<longleftrightarrow> width t = VGA_WIDTH \<and> height t = VGA_HEIGHT \<and> overflow t = TERMINAL_OVERFLOW_NEW_LINE \<and>
     cursor_x t < VGA_WIDTH \<and> cursor_y t < VGA_HEIGHT \<and>
     (\<forall>x<VGA_WIDTH. \<forall>y<VGA_HEIGHT. vga_shown d x y = terminal_display_char (cell t x y))"

lemma vga_terminal_ok_good: "vga_terminal_ok t d \<longleftrightarrow> vga_display.good t d"
  using vga_display.dimensions(4)
  by (auto simp: vga_terminal_ok_def vga_display.good_def terminal_wf_def vga_display.fits_def vga_display.mirrors_def)

text \<open>
  (C13) Writing to the terminal on the VGA display never leaves the buffer or the screen, keeps the
  cursor inside and the screen equal to the buffer, and does what a teletype does: the characters of
  the data up to the first zero are typed in order, with new lines, back spaces, wrapping at the end
  of a row and scrolling at the end of the page; the result is the number of characters typed.
\<close>

theorem terminal_write_teletype:
  assumes "vga_terminal_ok t d" and "types t s"
  shows "\<exists>t' d'. terminal_write vga_driver data t d = Some (of_nat (length (takeWhile (\<lambda>c. c \<noteq> nul_char) data)), t', d') \<and>
    vga_terminal_ok t' d' \<and> types t' (teletype_puts VGA_WIDTH VGA_HEIGHT (takeWhile (\<lambda>c. c \<noteq> nul_char) data) s)"
  using vga_display.terminal_write_loop_types [of t d s data 0] assms
  by (simp add: vga_terminal_ok_good terminal_write_def)

text \<open>
  Creating the terminal on the VGA display gives a blank page with the cursor at the origin; the
  invariant that the cursor is inside and the screen shows the buffer holds from then on, after any
  string is put, and no call reports an error or leaves the buffer.
\<close>

theorem terminal_session_invariant:
  "\<exists>t0 d0. terminal_create vga_driver d = Some (TERMINAL_RESULT_OK, t0, d0) \<and> vga_terminal_ok t0 d0 \<and>
    (\<exists>t1 d1. terminal_put_string vga_driver string t0 d0 = Some (TERMINAL_RESULT_OK, t1, d1) \<and>
      vga_terminal_ok t1 d1 \<and>
      types t1 (teletype_puts VGA_WIDTH VGA_HEIGHT string (\<lambda>_ _. nul_char, 0, 0)))"
proof -
  obtain t0 d0 where t0: "terminal_create vga_driver d = Some (TERMINAL_RESULT_OK, t0, d0)" "vga_display.good t0 d0"
    "types t0 (\<lambda>_ _. nul_char, 0, 0)" using vga_display.terminal_create_good [of d] by blast
  then show ?thesis using vga_display.terminal_put_string_types [OF t0(2,3), of string]
    by (simp add: vga_terminal_ok_good)
qed

lemma unat_low_byte: "unat (ucast (v AND 0xFF) :: u8) = unat v mod 256" for v :: u16
proof -
  have "v AND 0xFF = take_bit 8 v" by (simp add: take_bit_eq_mask mask_eq_exp_minus_1)
  then show ?thesis by (simp add: unsigned_ucast_eq take_bit_eq_mod unat_mod)
qed

text \<open>
  The cursor position reaches the VGA controller as two bytes that put together give the cell
  number of the cursor, for every position on the screen.
\<close>

theorem vga_set_cursor_bytes:
  assumes "x < VGA_WIDTH" and "y < VGA_HEIGHT"
  shows "\<exists>low high. port_writes (vga_set_cursor x y d) =
      port_writes d @ [(0x3D4, 0x0F), (0x3D5, low), (0x3D4, 0x0E), (0x3D5, high)] \<and>
    256 * unat high + unat low = 80 * unat y + unat x \<and> VGA_POINTER (vga_set_cursor x y d) = VGA_POINTER d"
proof -
  let ?pos = "ucast (y * VGA_WIDTH + x) :: u16"
  have u: "unat (y * VGA_WIDTH + x) = unat y * 80 + unat x" and lt: "unat y * 80 + unat x < 2000"
    using unat_grid(1) [of VGA_WIDTH VGA_HEIGHT x y] grid_index [of "unat x" 80 "unat y" 25] assms
    by (simp_all add: VGA_WIDTH_def VGA_HEIGHT_def word_less_nat_alt)
  have pos: "unat ?pos = unat y * 80 + unat x"
    using u lt by (simp add: unsigned_ucast_eq take_bit_nat_eq_self_iff)
  have "unat (ucast (?pos AND 0xFF) :: u8) = unat ?pos mod 256" by (rule unat_low_byte)
  moreover have "unat (ucast (drop_bit 8 ?pos AND 0xFF) :: u8) = unat ?pos div 256"
    using lt unat_low_byte [of "drop_bit 8 ?pos"] by (simp add: pos drop_bit_eq_div unat_div)
  ultimately show ?thesis by (simp add: vga_set_cursor_def io_outb_def Let_def pos)
qed

lemma terminal_write_teletype_witness:
  "\<exists>t' d'. terminal_write vga_driver [CHR ''h'', newline, CHR ''i'', nul_char, CHR ''!'']
      \<lparr>buffer = (\<lambda>_. nul_char), cursor_x = 79, cursor_y = 24, overflow = TERMINAL_OVERFLOW_NEW_LINE,
       scroll = TERMINAL_SCROLL_VERTICAL, width = 80, height = 25\<rparr>
      \<lparr>color = \<lparr>background = 0, foreground = 15\<rparr>, VGA_POINTER = (\<lambda>_. 0), port_writes = []\<rparr> = Some (3, t', d') \<and>
    vga_terminal_ok t' d' \<and> cursor_x t' = 1 \<and> cursor_y t' = 24"
proof -
  let ?t = "\<lparr>buffer = (\<lambda>_. nul_char), cursor_x = 79, cursor_y = 24, overflow = TERMINAL_OVERFLOW_NEW_LINE,
    scroll = TERMINAL_SCROLL_VERTICAL, width = 80, height = 25\<rparr>"
  let ?d = "\<lparr>color = \<lparr>background = 0, foreground = 15\<rparr>, VGA_POINTER = (\<lambda>_. 0), port_writes = []\<rparr>"
  have "vga_terminal_ok ?t ?d"
    by (simp add: vga_terminal_ok_def VGA_WIDTH_def VGA_HEIGHT_def vga_shown_def cell_def terminal_display_char_def
        nul_char_def newline_def char_of_def)
  moreover have "types ?t (\<lambda>_ _. nul_char, 79, 24)" by (simp add: types_def cell_def)
  ultimately show ?thesis
    using terminal_write_teletype [of ?t ?d "(\<lambda>_ _. nul_char, 79, 24)" "[CHR ''h'', newline, CHR ''i'', nul_char, CHR ''!'']"]
    by (auto simp: teletype_puts_def teletype_put_def next_row_def VGA_WIDTH_def VGA_HEIGHT_def newline_def backspace_def
        nul_char_def types_def)
qed

lemma vga_set_cursor_bytes_witness:
  "\<exists>low high. port_writes (vga_set_cursor 79 24 \<lparr>color = \<lparr>background = 0, foreground = 15\<rparr>,
      VGA_POINTER = (\<lambda>_. 0), port_writes = []\<rparr>) = [(0x3D4, 0x0F), (0x3D5, low), (0x3D4, 0x0E), (0x3D5, high)] \<and>
    256 * unat high + unat low = 1999"
  using vga_set_cursor_bytes [of 79 24 "\<lparr>color = \<lparr>background = 0, foreground = 15\<rparr>, VGA_POINTER = (\<lambda>_. 0), port_writes = []\<rparr>"]
  by (auto simp: VGA_WIDTH_def VGA_HEIGHT_def)

end
