(* ===== verification/Print.thy ===== *)
theory Print
  imports Vga "HOL-Library.Signed_Division"
begin

text \<open>
  Formatted output, \<^verbatim>\<open>src/print.c\<close>. The buffer is a function from indices to characters; a write at
  or past \<^verbatim>\<open>buffer_len\<close> is the fault \<open>None\<close>, and so is reading past the end of the format and taking an
  argument of another type than the one passed. The number of characters written never passes the
  length of the buffer, so it is a natural number. A string argument is its characters before the
  terminating zero.
\<close>

section \<open>The formatter\<close>

definition FORMATTED_PRINT_NUMBER_BUFFER_LENGTH :: nat where "FORMATTED_PRINT_NUMBER_BUFFER_LENGTH = 32"
definition FORMATTED_PRINT_BUFFER :: nat where "FORMATTED_PRINT_BUFFER = 512"

datatype va_arg = Va_int u32 | Va_long u64 | Va_string "char list"

type_synonym out_buffer = "nat \<times> (nat \<Rightarrow> char)"

text \<open>\<^verbatim>\<open>buffer[written] = c; written++;\<close>\<close>

fun put :: "nat \<Rightarrow> char \<Rightarrow> out_buffer \<Rightarrow> out_buffer option" where
  "put n c (w, b) = (if w < n then Some (w + 1, b(w := c)) else None)"

text \<open>The loops that copy while there is room, from a string or from the end of the digits.\<close>

fun put_while_room :: "nat \<Rightarrow> char list \<Rightarrow> out_buffer \<Rightarrow> out_buffer option" where
  "put_while_room n [] st = Some st"
| "put_while_room n (c # cs) (w, b) =
     (if w + 1 < n then Option.bind (put n c (w, b)) (put_while_room n cs) else Some (w, b))"

text \<open>
  The digits, least significant first. The count stops at the length of the buffer of digits; the
  division of C truncates.
\<close>

fun decimal_loop :: "nat \<Rightarrow> int \<Rightarrow> char list" where
  "decimal_loop 0 number = []"
| "decimal_loop (Suc k) number =
     char_of (48 + number smod 10) #
     (if number sdiv 10 \<noteq> 0 \<and> 0 < k then decimal_loop k (number sdiv 10) else [])"

definition hex_char :: "nat \<Rightarrow> char" where
  "hex_char digit = (if digit < 10 then char_of (48 + digit) else char_of (65 + digit - 10))"

fun hex_loop :: "nat \<Rightarrow> nat \<Rightarrow> char list" where
  "hex_loop 0 number = []"
| "hex_loop (Suc k) number =
     hex_char (number mod 16) # (if number div 16 \<noteq> 0 \<and> 0 < k then hex_loop k (number div 16) else [])"

definition number_digits :: nat where
  "number_digits = FORMATTED_PRINT_NUMBER_BUFFER_LENGTH - 1"

text \<open>\<^verbatim>\<open>number = -number\<close> on 32 bits: the least number stays as it is.\<close>

definition negate :: "int \<Rightarrow> int" where
  "negate i = (if i = - (2 ^ 31) then i else - i)"

definition put_decimal :: "nat \<Rightarrow> u32 \<Rightarrow> out_buffer \<Rightarrow> out_buffer option" where
  "put_decimal n v st =
     (let number = sint v in
      if number < 0
      then do { st \<leftarrow> put n (CHR ''-'') st; put_while_room n (rev (decimal_loop number_digits (negate number))) st }
      else put_while_room n (rev (decimal_loop number_digits number)) st)"

definition put_hex :: "nat \<Rightarrow> nat \<Rightarrow> out_buffer \<Rightarrow> out_buffer option" where
  "put_hex n v st = do {
     st \<leftarrow> put n (CHR ''0'') st;
     st \<leftarrow> put n (CHR ''x'') st;
     put_while_room n (rev (hex_loop number_digits v)) st
   }"

text \<open>The two default cases: the second character is only counted when there is no room for it.\<close>

definition put_unknown :: "nat \<Rightarrow> char \<Rightarrow> char \<Rightarrow> out_buffer \<Rightarrow> out_buffer option" where
  "put_unknown n first k st = do {
     (w, b) \<leftarrow> put n first st;
     if w + 1 < n then put n k (w, b) else Some (w + 1, b)
   }"

text \<open>A directive: the characters after the percent sign, the arguments, and what is left of both.\<close>

fun directive ::
    "nat \<Rightarrow> char list \<Rightarrow> va_arg list \<Rightarrow> out_buffer \<Rightarrow> (char list \<times> va_arg list \<times> out_buffer) option" where
  "directive n [] args st = None"
| "directive n (k # cs) args st =
     (if k = CHR ''s''
      then case args of Va_string s # args \<Rightarrow> map_option (\<lambda>st. (cs, args, st)) (put_while_room n s st) | _ \<Rightarrow> None
      else if k = CHR ''d''
      then case args of Va_int v # args \<Rightarrow> map_option (\<lambda>st. (cs, args, st)) (put_decimal n v st) | _ \<Rightarrow> None
      else if k = CHR ''c''
      then case args of Va_int v # args \<Rightarrow> map_option (\<lambda>st. (cs, args, st)) (put n (char_of (unat v)) st) | _ \<Rightarrow> None
      else if k = CHR ''x''
      then case args of Va_int v # args \<Rightarrow> map_option (\<lambda>st. (cs, args, st)) (put_hex n (unat v) st) | _ \<Rightarrow> None
      else if k = CHR ''l''
      then case cs of [] \<Rightarrow> None
         | k2 # cs \<Rightarrow>
             if k2 = CHR ''x''
             then case args of Va_long v # args \<Rightarrow> map_option (\<lambda>st. (cs, args, st)) (put_hex n (unat v) st) | _ \<Rightarrow> None
             else if k2 = CHR ''d''
             then case args of Va_int v # args \<Rightarrow> map_option (\<lambda>st. (cs, args, st)) (put_decimal n v st) | _ \<Rightarrow> None
             else map_option (\<lambda>st. (cs, args, st)) (put_unknown n (CHR ''l'') k2 st)
      else map_option (\<lambda>st. (cs, args, st)) (put_unknown n (CHR ''%'') k st))"

lemma directive_shorter: "directive n cs args st = Some (cs', args', st') \<Longrightarrow> length cs' < length cs"
  by (induction n cs args st rule: directive.induct)
     (auto split: if_splits list.splits va_arg.splits)

function vsnprintf_loop :: "nat \<Rightarrow> char list \<Rightarrow> va_arg list \<Rightarrow> out_buffer \<Rightarrow> out_buffer option" where
  "vsnprintf_loop n [] args st = Some st"
| "vsnprintf_loop n (c # cs) args st =
     (if fst st + 1 \<ge> n then Some st
      else if c \<noteq> CHR ''%'' then Option.bind (put n c st) (vsnprintf_loop n cs args)
      else case directive n cs args st of None \<Rightarrow> None | Some (cs, args, st) \<Rightarrow> vsnprintf_loop n cs args st)"
  by pat_completeness auto
termination
  by (relation "measure (\<lambda>(n, cs, args, st). length cs)") (auto dest: directive_shorter)

definition vsnprintf ::
    "(nat \<Rightarrow> char) \<Rightarrow> nat \<Rightarrow> char list \<Rightarrow> va_arg list \<Rightarrow> (nat \<times> (nat \<Rightarrow> char)) option" where
  "vsnprintf buf buffer_len fmt args = do {
     (written, buf) \<leftarrow> vsnprintf_loop buffer_len fmt args (0, buf);
     (_, buf) \<leftarrow> put buffer_len nul_char (written, buf);
     Some (written, buf)
   }"

text \<open>The characters of a buffer before the first zero, if there is one among the first \<open>n\<close>.\<close>

fun cstring :: "(nat \<Rightarrow> char) \<Rightarrow> nat \<Rightarrow> nat \<Rightarrow> char list" where
  "cstring b i 0 = []"
| "cstring b i (Suc k) = (if b i = nul_char then [] else b i # cstring b (Suc i) k)"

definition printf ::
    "'d text_display_driver_t \<Rightarrow> (nat \<Rightarrow> char) \<Rightarrow> char list \<Rightarrow> va_arg list \<Rightarrow> terminal_t \<Rightarrow> 'd \<Rightarrow>
      (nat \<times> terminal_t \<times> 'd) option" where
  "printf driver garbage fmt args t d = do {
     (written, buf) \<leftarrow> vsnprintf garbage FORMATTED_PRINT_BUFFER fmt args;
     (_, t, d) \<leftarrow> terminal_put_string driver (cstring buf 0 FORMATTED_PRINT_BUFFER) t d;
     Some (written, t, d)
   }"


section \<open>What is printed\<close>

text \<open>The digits of a number, most significant first, and their value.\<close>

fun digits_of :: "nat \<Rightarrow> nat \<Rightarrow> nat list" where
  "digits_of base n = (if n < base \<or> base < 2 then [n] else digits_of base (n div base) @ [n mod base])"

declare digits_of.simps [simp del]

definition value_of :: "nat \<Rightarrow> nat list \<Rightarrow> nat" where
  "value_of base = foldl (\<lambda>a d. base * a + d) 0"

lemma value_of_digits: "value_of base (digits_of base n) = n"
proof (induction base n rule: digits_of.induct)
  case (1 base n)
  then show ?case by (subst digits_of.simps) (auto simp: value_of_def)
qed

lemma decimal_step:
  "int n sdiv 10 = int (n div 10)" "int n smod 10 = int (n mod 10)" "char_of (48 + int d) = char_of (48 + d)"
proof -
  show "int n sdiv 10 = int (n div 10)" by (cases "n = 0") (simp_all add: signed_divide_int_def zdiv_int)
  show "int n smod 10 = int (n mod 10)" by (cases "n = 0") (simp_all add: signed_modulo_int_def zmod_int)
  have "48 + int d = of_nat (48 + d)" by simp
  then show "char_of (48 + int d) = char_of (48 + d)" by (simp only: char_of_nat)
qed

lemma decimal_loop_digits:
  "n < 10 ^ Suc k \<Longrightarrow> rev (decimal_loop (Suc k) (int n)) = map (\<lambda>d. char_of (48 + d)) (digits_of 10 n)"
proof (induction k arbitrary: n)
  case 0
  then show ?case by (simp add: digits_of.simps decimal_step del: of_nat_mod of_nat_div)
next
  case (Suc k)
  show ?case using Suc.IH [of "n div 10"] Suc.prems
    by (cases "n < 10") (auto simp: decimal_step digits_of.simps [of 10 n] div_eq_0_iff simp del: of_nat_mod of_nat_div)
qed

lemma hex_loop_digits: "n < 16 ^ Suc k \<Longrightarrow> rev (hex_loop (Suc k) n) = map hex_char (digits_of 16 n)"
proof (induction k arbitrary: n)
  case 0
  then show ?case by (simp add: digits_of.simps)
next
  case (Suc k)
  show ?case using Suc.IH [of "n div 16"] Suc.prems
    by (cases "n < 16") (auto simp: digits_of.simps [of 16 n] div_eq_0_iff)
qed

text \<open>A format as a list of items, the text each prints, and the format and arguments that ask for it.\<close>

datatype format_item =
    Literal char | String_arg "char list" | Decimal u32 | Long_decimal u32 | Character u32 | Hex u32 | Long_hex u64

fun item_format :: "format_item \<Rightarrow> char list" where
  "item_format (Literal c) = [c]"
| "item_format (String_arg s) = ''%s''"
| "item_format (Decimal v) = ''%d''"
| "item_format (Long_decimal v) = ''%ld''"
| "item_format (Character v) = ''%c''"
| "item_format (Hex v) = ''%x''"
| "item_format (Long_hex v) = ''%lx''"

fun item_args :: "format_item \<Rightarrow> va_arg list" where
  "item_args (Literal c) = []"
| "item_args (String_arg s) = [Va_string s]"
| "item_args (Decimal v) = [Va_int v]"
| "item_args (Long_decimal v) = [Va_int v]"
| "item_args (Character v) = [Va_int v]"
| "item_args (Hex v) = [Va_int v]"
| "item_args (Long_hex v) = [Va_long v]"

definition decimal_text :: "int \<Rightarrow> char list" where
  "decimal_text i = (if i < 0 then ''-'' else []) @ map (\<lambda>d. char_of (48 + d)) (digits_of 10 (nat \<bar>i\<bar>))"

definition hex_text :: "nat \<Rightarrow> char list" where
  "hex_text n = ''0x'' @ map hex_char (digits_of 16 n)"

fun item_text :: "format_item \<Rightarrow> char list" where
  "item_text (Literal c) = [c]"
| "item_text (String_arg s) = s"
| "item_text (Decimal v) = decimal_text (sint v)"
| "item_text (Long_decimal v) = decimal_text (sint v)"
| "item_text (Character v) = [char_of (unat v)]"
| "item_text (Hex v) = hex_text (unat v)"
| "item_text (Long_hex v) = hex_text (unat v)"

text \<open>A literal is no percent sign, and the least number is excluded: negating it overflows.\<close>

fun item_ok :: "format_item \<Rightarrow> bool" where
  "item_ok (Literal c) = (c \<noteq> CHR ''%'')"
| "item_ok (Decimal v) = (sint v \<noteq> - (2 ^ 31))"
| "item_ok (Long_decimal v) = (sint v \<noteq> - (2 ^ 31))"
| "item_ok _ = True"

definition text_of :: "format_item list \<Rightarrow> char list" where "text_of items = concat (map item_text items)"
definition format_of :: "format_item list \<Rightarrow> char list" where "format_of items = concat (map item_format items)"
definition args_of :: "format_item list \<Rightarrow> va_arg list" where "args_of items = concat (map item_args items)"

lemma parts [simp]:
  "text_of (item # items) = item_text item @ text_of items" "format_of (item # items) = item_format item @ format_of items"
  "args_of (item # items) = item_args item @ args_of items" "text_of [] = []" "format_of [] = []" "args_of [] = []"
  by (simp_all add: text_of_def format_of_def args_of_def)

section \<open>Writing what fits\<close>

fun store :: "(nat \<Rightarrow> char) \<Rightarrow> nat \<Rightarrow> char list \<Rightarrow> nat \<Rightarrow> char" where
  "store b w [] = b"
| "store b w (c # cs) = store (b(w := c)) (Suc w) cs"

lemma store_append: "store b w (xs @ ys) = store (store b w xs) (w + length xs) ys"
  by (induction xs arbitrary: b w) simp_all

lemma store_nth: "store b w cs i = (if w \<le> i \<and> i < w + length cs then cs ! (i - w) else b i)"
proof (induction cs arbitrary: b w)
  case (Cons c cs)
  have "(c # cs) ! (i - w) = cs ! (i - Suc w)" if "w < i" using that by (simp add: nth_Cons')
  with Cons show ?case by auto
qed auto

lemma sint_range: "- (2 ^ 31) \<le> sint v" "sint v < 2 ^ 31" for v :: u32
  using sint_greater_eq [of v] sint_less [of v] by simp_all

lemma decimal_chars:
  fixes v :: u32
  assumes "sint v \<noteq> - (2 ^ 31)"
  shows "rev (decimal_loop number_digits (if sint v < 0 then negate (sint v) else sint v)) =
    map (\<lambda>d. char_of (48 + d)) (digits_of 10 (nat \<bar>sint v\<bar>))"
proof -
  have "\<bar>sint v\<bar> < 2 ^ 31" using sint_range [of v] assms(1) by linarith
  then have "nat \<bar>sint v\<bar> < 2 ^ 31" by simp
  then have "nat \<bar>sint v\<bar> < 10 ^ Suc 30" by (rule less_le_trans) simp
  from decimal_loop_digits [OF this]
  have d: "rev (decimal_loop number_digits \<bar>sint v\<bar>) = map (\<lambda>d. char_of (48 + d)) (digits_of 10 (nat \<bar>sint v\<bar>))"
    by (simp add: number_digits_def FORMATTED_PRINT_NUMBER_BUFFER_LENGTH_def numeral_eq_Suc del: decimal_loop.simps)
  moreover have "(if sint v < 0 then negate (sint v) else sint v) = \<bar>sint v\<bar>" using assms by (simp add: negate_def)
  ultimately show ?thesis by simp
qed

lemma put_while_room_truncates:
  "w < n \<Longrightarrow> put_while_room n cs (w, b) = Some (w + min (n - 1 - w) (length cs), store b w (take (n - 1 - w) cs))"
proof (induction cs arbitrary: w b)
  case (Cons c cs)
  show ?case
  proof (cases "w + 1 < n")
    case True
    then have "n - 1 - w = Suc (n - 1 - Suc w)" by linarith
    then show ?thesis using True by (simp add: Cons.IH del: fun_upd_apply)
  qed (use Cons.prems in simp)
qed simp

lemma put_while_room_fits: "w + length cs < n \<Longrightarrow> put_while_room n cs (w, b) = Some (w + length cs, store b w cs)"
proof -
  assume fits: "w + length cs < n"
  then have "length cs \<le> n - 1 - w" by linarith
  then show ?thesis using put_while_room_truncates [of w n cs b] fits by (simp add: min_absorb2)
qed

lemma put_decimal_truncates:
  assumes "sint v \<noteq> - (2 ^ 31)" "w + 1 < n"
  shows "put_decimal n v (w, b) = Some (w + min (n - 1 - w) (length (decimal_text (sint v))),
    store b w (take (n - 1 - w) (decimal_text (sint v))))"
proof -
  have r: "n - 1 - w = Suc (n - 1 - Suc w)" using assms(2) by linarith
  show ?thesis
  proof (cases "sint v < 0")
    case True
    then have "rev (decimal_loop number_digits (negate (sint v))) = map (\<lambda>d. char_of (48 + d)) (digits_of 10 (nat (- sint v)))"
      using decimal_chars [OF assms(1)] by simp
    then show ?thesis using True assms(2) r
      by (simp add: put_decimal_def Let_def decimal_text_def put_while_room_truncates del: fun_upd_apply)
  next
    case False
    then have "rev (decimal_loop number_digits (sint v)) = map (\<lambda>d. char_of (48 + d)) (digits_of 10 (nat (sint v)))"
      using decimal_chars [OF assms(1)] by simp
    then show ?thesis using False assms(2)
      by (simp add: put_decimal_def Let_def decimal_text_def put_while_room_truncates)
  qed
qed

lemma put_decimal_fits:
  assumes "sint v \<noteq> - (2 ^ 31)" "w + length (decimal_text (sint v)) < n"
  shows "put_decimal n v (w, b) = Some (w + length (decimal_text (sint v)), store b w (decimal_text (sint v)))"
proof -
  have "0 < length (decimal_text (sint v))" by (subst decimal_text_def, subst digits_of.simps) simp
  then have "w + 1 < n" "length (decimal_text (sint v)) \<le> n - 1 - w" using assms(2) by linarith+
  then show ?thesis using put_decimal_truncates [OF assms(1), of w n b] by (simp add: min_absorb2)
qed

lemma put_hex_fits:
  assumes "v < 2 ^ 64" "w + length (hex_text v) < n"
  shows "put_hex n v (w, b) = Some (w + length (hex_text v), store b w (hex_text v))"
proof -
  have "v < 16 ^ Suc 30" using assms(1) by (rule less_le_trans) simp
  from hex_loop_digits [OF this] have "rev (hex_loop number_digits v) = map hex_char (digits_of 16 v)"
    by (simp add: number_digits_def FORMATTED_PRINT_NUMBER_BUFFER_LENGTH_def numeral_eq_Suc del: hex_loop.simps)
  then show ?thesis using assms(2) by (simp add: put_hex_def hex_text_def put_while_room_fits)
qed

lemma directive_fits:
  assumes "item_ok item" "w + length (item_text item) < n" "item_format item = CHR ''%'' # k"
  shows "directive n (k @ cs) (item_args item @ args) (w, b) =
    Some (cs, args, w + length (item_text item), store b w (item_text item))"
proof (cases item)
  case (Literal c)
  then show ?thesis using assms by simp
next
  case (Hex v)
  then show ?thesis using assms put_hex_fits [of "unat v" w n b] unat_u32 [of v] by auto
next
  case (Long_hex v)
  then show ?thesis using assms put_hex_fits [of "unat v" w n b] unsigned_less [where ?'a = nat, of v] by auto
qed (use assms put_decimal_fits put_while_room_fits in auto)

lemma item_shape: "item_ok item \<Longrightarrow> (\<exists>c. item = Literal c \<and> c \<noteq> CHR ''%'') \<or> (\<exists>k. item_format item = CHR ''%'' # k)"
  by (cases item) auto

lemma vsnprintf_loop_fits:
  "\<forall>item \<in> set items. item_ok item \<Longrightarrow> w + length (text_of items) < n \<Longrightarrow>
   vsnprintf_loop n (format_of items) (args_of items) (w, b) = Some (w + length (text_of items), store b w (text_of items))"
proof (induction items arbitrary: w b)
  case Nil
  then show ?case by simp
next
  case (Cons item items)
  let ?t = "item_text item"
  have rest: "vsnprintf_loop n (format_of items) (args_of items) (w + length ?t, store b w ?t) =
    Some (w + length (text_of (item # items)), store b w (text_of (item # items)))"
    using Cons.IH [of "w + length ?t" "store b w ?t"] Cons.prems by (simp add: store_append add.assoc)
  have fits: "w + length ?t < n" "item_ok item" using Cons.prems by simp_all
  obtain c cs where f: "item_format item @ format_of items = c # cs" by (cases item) auto
  show ?case
  proof (cases "n \<le> w + 1")
    case True
    then have "length (text_of (item # items)) = 0" using Cons.prems(2) by linarith
    then show ?thesis using True f by simp
  next
    case False
    from item_shape [OF fits(2)] show ?thesis
    proof (elim disjE exE conjE)
      fix c assume "item = Literal c" "c \<noteq> CHR ''%''"
      then show ?thesis using False rest fits by simp
    next
      fix k assume k: "item_format item = CHR ''%'' # k"
      show ?thesis using False rest directive_fits [OF fits(2,1) k, of "format_of items" "args_of items" b]
        by (simp add: k)
    qed
  qed
qed

lemma cstring_prefix:
  "nul_char \<notin> set cs \<Longrightarrow> length cs < k \<Longrightarrow> (\<forall>j < length cs. b (i + j) = cs ! j) \<Longrightarrow> b (i + length cs) = nul_char \<Longrightarrow>
   cstring b i k = cs"
proof (induction cs arbitrary: i k)
  case Nil
  then show ?case by (cases k) auto
next
  case (Cons c cs)
  obtain k' where k: "k = Suc k'" using Cons.prems(2) by (cases k) auto
  have "b i = c" using Cons.prems(3) by (metis add.right_neutral length_greater_0_conv list.distinct(1) nth_Cons_0)
  moreover have "cstring b (Suc i) k' = cs"
    using Cons.prems k by (intro Cons.IH) (auto simp: nth_Cons' dest: spec [of _ "Suc _"])
  ultimately show ?case using Cons.prems(1) k by auto
qed

section \<open>Properties\<close>



text \<open>The reader's side: the number that a decimal text stands for.\<close>

definition read_digit :: "char \<Rightarrow> nat" where
  "read_digit c = of_char c - 48"

fun read_decimal :: "char list \<Rightarrow> int" where
  "read_decimal [] = 0"
| "read_decimal (c # cs) = (if c = CHR ''-'' then - int (value_of 10 (map read_digit cs))
     else int (value_of 10 (map read_digit (c # cs))))"

lemma digits_small: "base \<ge> 2 \<Longrightarrow> d \<in> set (digits_of base n) \<Longrightarrow> d < base"
proof (induction base n rule: digits_of.induct)
  case (1 base n)
  then show ?case by (cases "n < base") (auto simp: digits_of.simps [of base n])
qed

lemma digits_length: "n < base ^ k \<Longrightarrow> base \<ge> 2 \<Longrightarrow> 0 < k \<Longrightarrow> length (digits_of base n) \<le> k"
proof (induction k arbitrary: n)
  case (Suc k)
  show ?case
  proof (cases "n < base")
    case False
    then have "0 < k" using Suc.prems by (cases k) auto
    moreover have "n div base < base ^ k" using Suc.prems by (simp add: less_mult_imp_div_less mult.commute)
    ultimately show ?thesis using Suc.IH [of "n div base"] Suc.prems False by (simp add: digits_of.simps [of base n])
  qed (simp add: digits_of.simps)
qed simp

lemma digits_nonempty: "digits_of base n \<noteq> []"
  by (subst digits_of.simps) simp

lemma read_digit_char: "d < 10 \<Longrightarrow> read_digit (char_of (48 + d)) = d"
  by (simp add: read_digit_def)

lemma read_decimal_text: "read_decimal (decimal_text i) = i"
proof -
  let ?ds = "digits_of 10 (nat \<bar>i\<bar>)"
  have r: "map read_digit (map (\<lambda>d. char_of (48 + d)) ?ds) = ?ds"
    using digits_small [of 10] by (auto intro!: map_idI simp: read_digit_char)
  obtain d ds where ds: "?ds = d # ds" using digits_nonempty by (cases ?ds) auto
  have "d < 10" using digits_small [of 10 d "nat \<bar>i\<bar>"] ds by simp
  then have o: "of_char (char_of (48 + d) :: char) = 48 + d" by simp
  have "char_of (48 + d) \<noteq> CHR ''-''"
  proof
    assume "char_of (48 + d) = CHR ''-''"
    with o have "48 + d = of_char (CHR ''-'')" by simp
    then show False by simp
  qed
  then show ?thesis using r ds value_of_digits [of 10 "nat \<bar>i\<bar>"] by (simp add: decimal_text_def)
qed

text \<open>
  A signed number printed with \<^verbatim>\<open>%d\<close> reads back as that number, for every 32-bit number but the
  least one.
\<close>

theorem vsnprintf_decimal_roundtrip:
  assumes "sint v \<noteq> - (2 ^ 31)"
  shows "\<exists>len b'. vsnprintf b FORMATTED_PRINT_BUFFER ''%d'' [Va_int v] = Some (len, b') \<and>
    read_decimal (map b' [0..<len]) = sint v"
proof -
  let ?t = "decimal_text (sint v)"
  have "\<bar>sint v\<bar> < 2 ^ 31" using sint_range [of v] assms by linarith
  then have "nat \<bar>sint v\<bar> < 10 ^ 10" by simp
  from digits_length [OF this] have len: "length ?t < 512" by (cases "sint v < 0") (simp_all add: decimal_text_def)
  obtain b' where b': "vsnprintf b 512 ''%d'' [Va_int v] = Some (length ?t, b')" "\<forall>i < length ?t. b' i = ?t ! i"
    using vsnprintf_loop_fits [of "[Decimal v]" 0 512 b] len assms by (auto simp: vsnprintf_def store_nth)
  then have "map b' [0..<length ?t] = ?t" by (auto intro: nth_equalityI)
  then show ?thesis using b'(1) read_decimal_text [of "sint v"] by (auto simp: FORMATTED_PRINT_BUFFER_def)
qed

lemma vsnprintf_decimal_roundtrip_witness:
  "\<exists>len b'. vsnprintf (\<lambda>_. nul_char) FORMATTED_PRINT_BUFFER ''%d'' [Va_int (- 2147483647)] = Some (len, b') \<and>
    read_decimal (map b' [0..<len]) = - 2147483647"
  using vsnprintf_decimal_roundtrip [of "- 2147483647" "\<lambda>_. nul_char"] by simp

section \<open>Truncation\<close>

fun item_safe :: "format_item \<Rightarrow> bool" where
  "item_safe (Hex v) = False"
| "item_safe (Long_hex v) = False"
| "item_safe item = item_ok item"

lemma directive_truncates:
  assumes "item_safe item" "w + 1 < n" "item_format item = CHR ''%'' # k"
  shows "directive n (k @ cs) (item_args item @ args) (w, b) =
    Some (cs, args, w + min (n - 1 - w) (length (item_text item)), store b w (take (n - 1 - w) (item_text item)))"
proof -
  have "n - 1 - w = Suc (n - 1 - Suc w)" using assms(2) by linarith
  then show ?thesis using assms put_decimal_truncates [of _ w n b] put_while_room_truncates [of w n] by (cases item) auto
qed

lemma vsnprintf_loop_truncates:
  "\<forall>item \<in> set items. item_safe item \<Longrightarrow> w < n \<Longrightarrow>
   vsnprintf_loop n (format_of items) (args_of items) (w, b) =
     Some (w + min (n - 1 - w) (length (text_of items)), store b w (take (n - 1 - w) (text_of items)))"
proof (induction items arbitrary: w b)
  case Nil
  then show ?case by simp
next
  case (Cons item items)
  let ?t = "item_text item"
  have safe: "item_safe item" "item_ok item" using Cons.prems by (auto elim: item_safe.elims)
  obtain c cs where f: "item_format item @ format_of items = c # cs" by (cases item) auto
  show ?case
  proof (cases "n \<le> w + 1")
    case True
    then show ?thesis using f by simp
  next
    case False
    let ?m = "min (n - 1 - w) (length ?t)"
    have rest: "vsnprintf_loop n (format_of items) (args_of items) (w + ?m, store b w (take (n - 1 - w) ?t)) =
      Some (w + min (n - 1 - w) (length (text_of (item # items))), store b w (take (n - 1 - w) (text_of (item # items))))"
      using Cons.IH [of "w + ?m" "store b w (take (n - 1 - w) ?t)"] Cons.prems False
      by (auto simp: store_append min_def)
    from item_shape [OF safe(2)] show ?thesis
    proof (elim disjE exE conjE)
      fix c assume "item = Literal c" "c \<noteq> CHR ''%''"
      moreover have "n - 1 - w = Suc (n - 1 - Suc w)" using False by linarith
      ultimately show ?thesis using False rest by simp
    next
      fix k assume k: "item_format item = CHR ''%'' # k"
      show ?thesis using False rest directive_truncates [OF safe(1) _ k, of w n "format_of items" "args_of items" b]
        by (simp add: k)
    qed
  qed
qed

text \<open>
  A text too long for the buffer is cut: formatting literals, strings, characters and decimals
  into a buffer of any positive length never writes outside of it, and stores the longest prefix of
  the text that leaves room for the final zero, whose length it returns.
\<close>

theorem vsnprintf_truncates:
  assumes "\<forall>item \<in> set items. item_safe item" and "0 < n"
  shows "\<exists>b' len. vsnprintf b n (format_of items) (args_of items) = Some (len, b') \<and>
    len = min (n - 1) (length (text_of items)) \<and> map b' [0..<len] = take (n - 1) (text_of items) \<and> b' len = nul_char \<and>
    (\<forall>i \<ge> n. b' i = b i)"
proof -
  let ?m = "min (n - 1) (length (text_of items))"
  let ?b = "(store b 0 (take (n - 1) (text_of items)))(?m := nul_char)"
  have "vsnprintf b n (format_of items) (args_of items) = Some (?m, ?b)"
    using vsnprintf_loop_truncates [of items 0 n b] assms by (simp add: vsnprintf_def)
  moreover have "map ?b [0..<?m] = take (n - 1) (text_of items)"
    by (auto intro!: nth_equalityI simp: store_nth)
  moreover have "\<forall>i \<ge> n. ?b i = b i" using assms(2) by (auto simp: store_nth)
  ultimately show ?thesis by auto
qed

lemma vsnprintf_truncates_witness:
  "\<exists>b' len. vsnprintf (\<lambda>_. CHR ''?'') 4 ''%d'' [Va_int (- 1234)] = Some (len, b') \<and> len = 3 \<and>
    map b' [0..<len] = ''-12'' \<and> b' len = nul_char"
proof -
  have t: "text_of [Decimal (- 1234)] = ''-1234''" by (simp add: decimal_text_def digits_of.simps char_of_def bit_Suc_0_iff)
  show ?thesis using vsnprintf_truncates [of "[Decimal (- 1234)]" 4 "\<lambda>_. CHR ''?''"] unfolding t
    by (auto simp: numeral_eq_Suc)
qed

text \<open>
  A hexadecimal number has no such bound: its prefix is stored without a test, so that the final
  zero can land one past the end of the buffer.
\<close>

lemma vsnprintf_hex_overruns: "vsnprintf b 2 ''%x'' [Va_int v] = None"
proof -
  have "put_while_room 2 cs (2, b) = Some (2, b)" for cs b by (cases cs) simp_all
  then show ?thesis by (simp add: vsnprintf_def put_hex_def numeral_2_eq_2 del: fun_upd_apply)
qed

text \<open>
  \<^verbatim>\<open>printf\<close> on the VGA terminal types the formatted text: when it has no zero and fits the buffer of
  512 characters, the screen afterwards is that of the teletype on which the text is typed.
\<close>

theorem printf_types:
  assumes "\<forall>item \<in> set items. item_ok item" and "length (text_of items) < FORMATTED_PRINT_BUFFER"
    and "nul_char \<notin> set (text_of items)" and "vga_terminal_ok t d" and "types t s"
  shows "\<exists>t' d'. printf vga_driver garbage (format_of items) (args_of items) t d = Some (length (text_of items), t', d') \<and>
    vga_terminal_ok t' d' \<and> types t' (teletype_puts VGA_WIDTH VGA_HEIGHT (text_of items) s)"
proof -
  let ?n = "length (text_of items)"
  let ?b = "(store garbage 0 (text_of items))(?n := nul_char)"
  have v: "vsnprintf garbage FORMATTED_PRINT_BUFFER (format_of items) (args_of items) = Some (?n, ?b)"
    using vsnprintf_loop_fits [of items 0 FORMATTED_PRINT_BUFFER garbage] assms(1,2) by (simp add: vsnprintf_def)
  have "cstring ?b 0 FORMATTED_PRINT_BUFFER = text_of items"
    using assms(2,3) by (intro cstring_prefix) (auto simp: store_nth)
  then show ?thesis
    using v vga_display.terminal_put_string_types [of t d s "text_of items"] assms(4,5)
    by (auto simp: printf_def vga_terminal_ok_good)
qed

lemma printf_types_witness:
  "\<exists>t' d'. printf vga_driver (\<lambda>_. CHR ''?'') ''v=%x'' [Va_int 255]
      \<lparr>buffer = (\<lambda>_. nul_char), cursor_x = 0, cursor_y = 0, overflow = TERMINAL_OVERFLOW_NEW_LINE,
       scroll = TERMINAL_SCROLL_VERTICAL, width = 80, height = 25\<rparr>
      \<lparr>color = \<lparr>background = 0, foreground = 15\<rparr>, VGA_POINTER = (\<lambda>_. 0), port_writes = []\<rparr> = Some (6, t', d') \<and>
    cursor_x t' = 6 \<and> vga_shown d' 4 0 = CHR ''F''"
proof -
  let ?items = "[Literal (CHR ''v''), Literal (CHR ''=''), Hex 255]"
  let ?t = "\<lparr>buffer = (\<lambda>_. nul_char), cursor_x = 0, cursor_y = 0, overflow = TERMINAL_OVERFLOW_NEW_LINE,
    scroll = TERMINAL_SCROLL_VERTICAL, width = 80, height = 25\<rparr>"
  let ?d = "\<lparr>color = \<lparr>background = 0, foreground = 15\<rparr>, VGA_POINTER = (\<lambda>_. 0), port_writes = []\<rparr>"
  let ?s = "(\<lambda>_ _. nul_char, 0, 0)"
  have txt_eq: "text_of ?items = ''v=0xFF''"
    by (simp add: hex_text_def digits_of.simps hex_char_def char_of_def bit_Suc_0_iff)
  have f: "format_of ?items = ''v=%x''" "args_of ?items = [Va_int 255]" by simp_all
  have ok: "vga_terminal_ok ?t ?d"
    by (simp add: vga_terminal_ok_def VGA_WIDTH_def VGA_HEIGHT_def vga_shown_def cell_def terminal_display_char_def
        nul_char_def newline_def char_of_def)
  have ty: "types ?t ?s" by (simp add: types_def cell_def)
  obtain t' d' where r: "printf vga_driver (\<lambda>_. CHR ''?'') (format_of ?items) (args_of ?items) ?t ?d =
      Some (length (text_of ?items), t', d')"
    "vga_terminal_ok t' d'" "types t' (teletype_puts VGA_WIDTH VGA_HEIGHT (text_of ?items) ?s)"
    using printf_types [of ?items ?t ?d ?s "\<lambda>_. CHR ''?''"] ok ty
    by (auto simp: txt_eq FORMATTED_PRINT_BUFFER_def nul_char_def simp del: parts)
  have "cursor_x t' = 6" "cell t' 4 0 = CHR ''F''"
    using r(2,3) unfolding txt_eq
    by (auto simp: teletype_puts_def teletype_put_def types_def newline_def backspace_def VGA_WIDTH_def VGA_HEIGHT_def
        type_at_def vga_terminal_ok_def)
  then show ?thesis using r(1,2) unfolding txt_eq f
    by (auto simp: vga_terminal_ok_def VGA_WIDTH_def VGA_HEIGHT_def terminal_display_char_def newline_def)
qed

end
