(* ===== verification/Descriptors.thy ===== *)
theory Descriptors
  imports Task_State
begin

unbundle bit_operations_syntax

text \<open>
  The processor's tables: the segment descriptors of \<^verbatim>\<open>src/gdt.c\<close>, the task state segment of
  \<^verbatim>\<open>src/tss.c\<close> and the interrupt gates of \<^verbatim>\<open>src/idt.c\<close>. A table is a list as long as the C array; a
  write outside of it is the fault \<open>None\<close>. The addresses that the linker gives to the tables and
  to the assembly stubs are parameters.
\<close>

section \<open>The global descriptor table\<close>

definition GDT_ENTRIES_COUNT :: int where "GDT_ENTRIES_COUNT = 6"
definition GDT_FLAG_PRESENT :: u8 where "GDT_FLAG_PRESENT = 0x80"
definition GDT_FLAG_RING0 :: u8 where "GDT_FLAG_RING0 = 0x00"
definition GDT_FLAG_RING3 :: u8 where "GDT_FLAG_RING3 = 0x60"
definition GDT_FLAG_SEGMENT :: u8 where "GDT_FLAG_SEGMENT = 0x10"
definition GDT_FLAG_SYSTEM :: u8 where "GDT_FLAG_SYSTEM = 0x00"
definition GDT_FLAG_EXECUTABLE :: u8 where "GDT_FLAG_EXECUTABLE = 0x08"
definition GDT_FLAG_READ_WRITE :: u8 where "GDT_FLAG_READ_WRITE = 0x02"
definition GDT_FLAG_TSS :: u8 where "GDT_FLAG_TSS = 0x09"
definition GDT_GRANULARITY_BYTE :: u8 where "GDT_GRANULARITY_BYTE = 0x00"
definition GDT_GRANULARITY_4K :: u8 where "GDT_GRANULARITY_4K = 0x80"
definition GDT_GRANULARITY_32BIT :: u8 where "GDT_GRANULARITY_32BIT = 0x40"
definition GDT_NULL :: int where "GDT_NULL = 0"
definition GDT_KERNEL_CODE :: int where "GDT_KERNEL_CODE = 1"
definition GDT_KERNEL_DATA :: int where "GDT_KERNEL_DATA = 2"
definition GDT_USER_CODE :: int where "GDT_USER_CODE = 3"
definition GDT_USER_DATA :: int where "GDT_USER_DATA = 4"
definition GDT_TSS :: int where "GDT_TSS = 5"

datatype gdt_result_t = GDT_RESULT_OK | GDT_RESULT_OUT_OF_BOUNDS

record gdt_entry_t =
  limit_low :: u16
  base_low :: u16
  base_middle :: u8
  access :: u8
  granularity :: u8
  base_high :: u8

record gdt_pointer_t =
  gdt_limit :: u16
  gdt_base :: u32

record gdt_t =
  gdt_entries :: "gdt_entry_t list"
  gdt_pointer :: gdt_pointer_t

record tss_entry_t =
  tss_link :: u32
  esp0 :: u32
  ss0 :: u32
  esp1 :: u32
  ss1 :: u32
  esp2 :: u32
  ss2 :: u32
  tss_cr3 :: u32
  tss_eip :: u32
  tss_eflags :: u32
  tss_eax :: u32
  tss_ecx :: u32
  tss_edx :: u32
  tss_ebx :: u32
  tss_esp :: u32
  tss_ebp :: u32
  tss_esi :: u32
  tss_edi :: u32
  tss_es :: u32
  tss_cs :: u32
  tss_ss :: u32
  tss_ds :: u32
  tss_fs :: u32
  tss_gs :: u32
  ldtr :: u32
  iopb :: u32

definition sizeof_tss_entry_t :: u32 where "sizeof_tss_entry_t = 26 * 4"

section \<open>The interrupt descriptor table\<close>

definition IDT_MAX_ENTRIES_COUNT :: int where "IDT_MAX_ENTRIES_COUNT = 256"
definition IDT_BASE_ENTRIES_COUNT :: int where "IDT_BASE_ENTRIES_COUNT = 32"
definition IDT_SYSCALL :: int where "IDT_SYSCALL = 0x80"

datatype idt_result_t = IDT_RESULT_OK | IDT_RESULT_OUT_OF_BOUNDS

record idt_entry_t =
  offset_low :: u16
  segment_selector :: u16
  reserved :: u8
  type_attributes :: u8
  offset_high :: u16

record idt_pointer_t =
  idt_limit :: u16
  idt_base :: u32

record idt_t =
  idt_entries :: "idt_entry_t list"
  idt_pointer :: idt_pointer_t

text \<open>The registers that the flush instructions load.\<close>

record cpu_tables =
  gdtr :: gdt_pointer_t
  idtr :: idt_pointer_t
  cs_register :: u16
  data_registers :: u16
  task_register :: u16

section \<open>Operations\<close>

definition gdt_set_entry :: "int \<Rightarrow> u32 \<Rightarrow> u32 \<Rightarrow> u8 \<Rightarrow> u8 \<Rightarrow> gdt_t \<Rightarrow> (gdt_result_t \<times> gdt_t) option" where
  "gdt_set_entry index base limit acc gran g =
     (if index \<ge> GDT_ENTRIES_COUNT then Some (GDT_RESULT_OUT_OF_BOUNDS, g)
      else if index < 0 then None
      else Some (GDT_RESULT_OK, g\<lparr>gdt_entries := (gdt_entries g)[nat index :=
        \<lparr>limit_low = ucast (limit AND 0xFFFF), base_low = ucast (base AND 0xFFFF),
         base_middle = ucast (drop_bit 16 base AND 0xFF), access = acc,
         granularity = ucast (drop_bit 16 limit AND 0x0F) OR (gran AND 0xF0),
         base_high = ucast (drop_bit 24 base AND 0xFF)\<rparr>]\<rparr>))"

definition gdt_flush :: "gdt_pointer_t \<Rightarrow> cpu_tables \<Rightarrow> cpu_tables" where
  "gdt_flush pointer c = c\<lparr>gdtr := pointer, data_registers := 0x10, cs_register := 0x08\<rparr>"

definition gdt_create :: "u32 \<Rightarrow> u32 \<Rightarrow> gdt_t \<times> cpu_tables \<Rightarrow> (gdt_result_t \<times> gdt_t \<times> cpu_tables) option" where
  "gdt_create entries_address tss_address gc = (let (g, c) = gc in do {
     let g = g\<lparr>gdt_pointer := \<lparr>gdt_limit = 6 * 8 - 1, gdt_base = entries_address\<rparr>\<rparr>;
     (_, g) \<leftarrow> gdt_set_entry GDT_NULL 0 0 0 0 g;
     (_, g) \<leftarrow> gdt_set_entry GDT_KERNEL_CODE 0 0xFFFFFFFF
       (GDT_FLAG_PRESENT OR GDT_FLAG_RING0 OR GDT_FLAG_SEGMENT OR GDT_FLAG_EXECUTABLE OR GDT_FLAG_READ_WRITE)
       (GDT_GRANULARITY_4K OR GDT_GRANULARITY_32BIT) g;
     (_, g) \<leftarrow> gdt_set_entry GDT_KERNEL_DATA 0 0xFFFFFFFF
       (GDT_FLAG_PRESENT OR GDT_FLAG_RING0 OR GDT_FLAG_SEGMENT OR GDT_FLAG_READ_WRITE)
       (GDT_GRANULARITY_4K OR GDT_GRANULARITY_32BIT) g;
     (_, g) \<leftarrow> gdt_set_entry GDT_USER_CODE 0 0xFFFFFFFF
       (GDT_FLAG_PRESENT OR GDT_FLAG_RING3 OR GDT_FLAG_SEGMENT OR GDT_FLAG_EXECUTABLE OR GDT_FLAG_READ_WRITE)
       (GDT_GRANULARITY_4K OR GDT_GRANULARITY_32BIT) g;
     (_, g) \<leftarrow> gdt_set_entry GDT_USER_DATA 0 0xFFFFFFFF
       (GDT_FLAG_PRESENT OR GDT_FLAG_RING3 OR GDT_FLAG_SEGMENT OR GDT_FLAG_READ_WRITE)
       (GDT_GRANULARITY_4K OR GDT_GRANULARITY_32BIT) g;
     (_, g) \<leftarrow> gdt_set_entry GDT_TSS tss_address (sizeof_tss_entry_t - 1)
       (GDT_FLAG_PRESENT OR GDT_FLAG_RING0 OR GDT_FLAG_SYSTEM OR GDT_FLAG_TSS) GDT_GRANULARITY_BYTE g;
     Some (GDT_RESULT_OK, g, gdt_flush (gdt_pointer g) c)
   })"

definition tss_flush :: "cpu_tables \<Rightarrow> cpu_tables" where
  "tss_flush c = c\<lparr>task_register := 0x28\<rparr>"

definition tss_module_init :: "tss_entry_t \<times> cpu_tables \<Rightarrow> tss_entry_t \<times> cpu_tables" where
  "tss_module_init tc = (let (t, c) = tc in
     (t\<lparr>ss0 := push_bit 3 (of_int GDT_KERNEL_DATA) OR 0, iopb := sizeof_tss_entry_t\<rparr>, tss_flush c))"

definition idt_set_entry :: "int \<Rightarrow> u32 \<Rightarrow> u16 \<Rightarrow> u8 \<Rightarrow> idt_t \<Rightarrow> (idt_result_t \<times> idt_t) option" where
  "idt_set_entry index offset selector attributes i =
     (if index \<ge> IDT_MAX_ENTRIES_COUNT then Some (IDT_RESULT_OUT_OF_BOUNDS, i)
      else if index < 0 then None
      else Some (IDT_RESULT_OK, i\<lparr>idt_entries := (idt_entries i)[nat index :=
        \<lparr>offset_low = ucast (offset AND 0xFFFF), segment_selector = selector, reserved = 0,
         type_attributes = attributes, offset_high = ucast (drop_bit 16 offset AND 0xFFFF)\<rparr>]\<rparr>))"

definition idt_flush :: "idt_pointer_t \<Rightarrow> cpu_tables \<Rightarrow> cpu_tables" where
  "idt_flush pointer c = c\<lparr>idtr := pointer\<rparr>"

definition idt_create ::
    "u32 \<Rightarrow> (int \<Rightarrow> u32) \<Rightarrow> u32 \<Rightarrow> idt_t \<times> cpu_tables \<Rightarrow> (idt_result_t \<times> idt_t \<times> cpu_tables) option" where
  "idt_create entries_address isr_stubs isr_syscall ic = (let (i, c) = ic in do {
     let i = i\<lparr>idt_pointer := \<lparr>idt_limit = 256 * 8 - 1, idt_base = entries_address\<rparr>\<rparr>;
     i \<leftarrow> for_each (\<lambda>n i. map_option snd (idt_set_entry n (isr_stubs n) 0x08 0x8E i)) [0..IDT_BASE_ENTRIES_COUNT - 1] i;
     (_, i) \<leftarrow> idt_set_entry IDT_SYSCALL isr_syscall 0x08 0xEE i;
     Some (IDT_RESULT_OK, i, idt_flush (idt_pointer i) c)
   })"

definition IRQ_MAX_ENTRIES_COUNT :: int where "IRQ_MAX_ENTRIES_COUNT = 16"

definition irq_set_idt_entries :: "(int \<Rightarrow> u32) \<Rightarrow> idt_t \<Rightarrow> idt_t option" where
  "irq_set_idt_entries irq_stubs =
     for_each (\<lambda>n i. map_option snd (idt_set_entry (n + IDT_BASE_ENTRIES_COUNT) (irq_stubs n) 0x08 0x8E i))
       [0..IRQ_MAX_ENTRIES_COUNT - 1]"

section \<open>How the processor reads a descriptor\<close>

definition descriptor_base :: "gdt_entry_t \<Rightarrow> u32" where
  "descriptor_base e = ucast (base_low e) OR push_bit 16 (ucast (base_middle e)) OR push_bit 24 (ucast (base_high e))"

definition descriptor_limit :: "gdt_entry_t \<Rightarrow> u32" where
  "descriptor_limit e = ucast (limit_low e) OR push_bit 16 (ucast (granularity e AND 0x0F))"

text \<open>The last offset inside the segment: the limit counts pages when the granularity bit is set.\<close>

definition segment_last :: "gdt_entry_t \<Rightarrow> nat" where
  "segment_last e = (if bit (granularity e) 7 then unat (descriptor_limit e) * 4096 + 4095 else unat (descriptor_limit e))"

definition segment_dpl :: "gdt_entry_t \<Rightarrow> u8" where
  "segment_dpl e = drop_bit 5 (access e) AND 3"

definition gate_offset :: "idt_entry_t \<Rightarrow> u32" where
  "gate_offset e = ucast (offset_low e) OR push_bit 16 (ucast (offset_high e))"

definition gate_dpl :: "idt_entry_t \<Rightarrow> u8" where
  "gate_dpl e = drop_bit 5 (type_attributes e) AND 3"

definition gate_present :: "idt_entry_t \<Rightarrow> bool" where
  "gate_present e \<longleftrightarrow> bit (type_attributes e) 7"

text \<open>The descriptor that a selector names in a table.\<close>

definition selected :: "gdt_t \<Rightarrow> u16 \<Rightarrow> gdt_entry_t" where
  "selected g s = gdt_entries g ! unat (drop_bit 3 s)"


section \<open>Encoding and decoding\<close>

lemma and_masks:
  "v AND 0x0F = take_bit 4 v" "v AND 0xFF = take_bit 8 v" "v AND 0xFFFF = take_bit 16 v" "v AND 0xFFFFF = take_bit 20 v"
  for v :: "'a::len word"
  by (simp_all add: take_bit_eq_mask mask_eq_exp_minus_1)

lemma bit_0xF0: "bit (0xF0 :: u8) n \<longleftrightarrow> 4 \<le> n \<and> n < 8"
proof -
  have "(0xF0 :: u8) = push_bit 4 (mask 4)" by (simp add: push_bit_eq_mult mask_eq_exp_minus_1)
  moreover have "bit (push_bit 4 (mask 4) :: u8) n \<longleftrightarrow> 4 \<le> n \<and> n < 8" by (auto simp: bit_simps)
  ultimately show ?thesis by metis
qed

lemma base_split:
  "ucast (ucast (take_bit 16 v) :: u16) OR push_bit 16 (ucast (ucast (take_bit 8 (drop_bit 16 v)) :: u8)) OR
   push_bit 24 (ucast (ucast (take_bit 8 (drop_bit 24 v)) :: u8)) = v" (is "?l = v") for v :: u32
proof (rule bit_word_eqI)
  fix n :: nat assume "n < LENGTH(32)"
  then consider "n < 16" | "16 \<le> n" "n < 24" | "24 \<le> n" "n < 32" by force
  then show "bit ?l n = bit v n" by cases (auto simp: bit_simps)
qed

lemma limit_split:
  "ucast (ucast (take_bit 16 v) :: u16) OR push_bit 16 (ucast (take_bit 4 (ucast (take_bit 4 (drop_bit 16 v)) :: u8))) =
   take_bit 20 v" (is "?l = ?r") for v :: u32
proof (rule bit_word_eqI)
  fix n :: nat assume "n < LENGTH(32)"
  then consider "n < 16" | "16 \<le> n" "n < 20" | "20 \<le> n" "n < 32" by force
  then show "bit ?l n = bit ?r n" by cases (auto simp: bit_simps)
qed

lemma flags_split: "(ucast (take_bit 4 v) OR (g AND 0xF0)) AND 0xF0 = (g AND 0xF0 :: u8)" for v :: u32
  by (rule bit_word_eqI, simp only: bit_and_iff bit_or_iff bit_0xF0 bit_unsigned_iff bit_take_bit_iff) auto

lemma offset_split:
  "ucast (ucast (take_bit 16 v) :: u16) OR push_bit 16 (ucast (ucast (take_bit 16 (drop_bit 16 v)) :: u16)) = v" (is "?l = v") for v :: u32
proof (rule bit_word_eqI)
  fix n :: nat assume "n < LENGTH(32)"
  then consider "n < 16" | "16 \<le> n" "n < 32" by force
  then show "bit ?l n = bit v n"
    by cases (auto simp: bit_simps)
qed

text \<open>
  A descriptor written by \<^verbatim>\<open>gdt_set_entry\<close> reads back, by the processor's layout, as the base,
  the low 20 bits of the limit, the access byte and the flags that were given; no other descriptor
  changes. An index past the table is refused and changes nothing.
\<close>

theorem gdt_set_entry_roundtrip:
  assumes "length (gdt_entries g) = 6" and "0 \<le> index"
  shows "if index < 6
    then \<exists>g' e. gdt_set_entry index base limit acc gran g = Some (GDT_RESULT_OK, g') \<and>
      gdt_entries g' = (gdt_entries g)[nat index := e] \<and> gdt_entries g' ! nat index = e \<and>
      descriptor_base e = base \<and> descriptor_limit e = limit AND 0xFFFFF \<and> access e = acc \<and>
      granularity e AND 0xF0 = gran AND 0xF0 \<and> gdt_pointer g' = gdt_pointer g
    else gdt_set_entry index base limit acc gran g = Some (GDT_RESULT_OUT_OF_BOUNDS, g)"
  using assms
  by (simp add: gdt_set_entry_def GDT_ENTRIES_COUNT_def descriptor_base_def descriptor_limit_def and_masks base_split
      limit_split flags_split)

text \<open>
  A gate written by \<^verbatim>\<open>idt_set_entry\<close> reads back as the handler's address, selector and
  attributes that were given, and no other gate changes; an index past the table is refused.
\<close>

theorem idt_set_entry_roundtrip:
  assumes "length (idt_entries i) = 256" and "0 \<le> index"
  shows "if index < 256
    then \<exists>i' e. idt_set_entry index offset selector attributes i = Some (IDT_RESULT_OK, i') \<and>
      idt_entries i' = (idt_entries i)[nat index := e] \<and> idt_entries i' ! nat index = e \<and>
      gate_offset e = offset \<and> segment_selector e = selector \<and> type_attributes e = attributes \<and> reserved e = 0
    else idt_set_entry index offset selector attributes i = Some (IDT_RESULT_OUT_OF_BOUNDS, i)"
  using assms by (simp add: idt_set_entry_def IDT_MAX_ENTRIES_COUNT_def gate_offset_def and_masks offset_split)

lemma gdt_set_entry_roundtrip_witness:
  "\<exists>g' e. gdt_set_entry 5 0xC0123456 103 0x89 0 \<lparr>gdt_entries = replicate 6
      \<lparr>limit_low = 0, base_low = 0, base_middle = 0, access = 0, granularity = 0, base_high = 0\<rparr>,
      gdt_pointer = \<lparr>gdt_limit = 47, gdt_base = 0\<rparr>\<rparr> = Some (GDT_RESULT_OK, g') \<and>
    gdt_entries g' ! 5 = e \<and> descriptor_base e = 0xC0123456 \<and> descriptor_limit e = 103 \<and> access e = 0x89"
  using gdt_set_entry_roundtrip [of "\<lparr>gdt_entries = replicate 6
      \<lparr>limit_low = 0, base_low = 0, base_middle = 0, access = 0, granularity = 0, base_high = 0\<rparr>,
      gdt_pointer = \<lparr>gdt_limit = 47, gdt_base = 0\<rparr>\<rparr>" 5 "0xC0123456" 103 "0x89" 0]
  by auto

lemma idt_set_entry_roundtrip_witness:
  "\<exists>i' e. idt_set_entry 0x80 0xC0101010 0x08 0xEE \<lparr>idt_entries = replicate 256
      \<lparr>offset_low = 0, segment_selector = 0, reserved = 0, type_attributes = 0, offset_high = 0\<rparr>,
      idt_pointer = \<lparr>idt_limit = 2047, idt_base = 0\<rparr>\<rparr> = Some (IDT_RESULT_OK, i') \<and>
    idt_entries i' ! 0x80 = e \<and> gate_offset e = 0xC0101010 \<and> segment_selector e = 0x08 \<and> type_attributes e = 0xEE"
  using idt_set_entry_roundtrip [of "\<lparr>idt_entries = replicate 256
      \<lparr>offset_low = 0, segment_selector = 0, reserved = 0, type_attributes = 0, offset_high = 0\<rparr>,
      idt_pointer = \<lparr>idt_limit = 2047, idt_base = 0\<rparr>\<rparr>" "0x80" "0xC0101010" "0x08" "0xEE"]
  by auto

section \<open>The tables after boot\<close>

text \<open>
  (C39) After \<^verbatim>\<open>gdt_module_init\<close> and \<^verbatim>\<open>tss_module_init\<close> every selector the kernel uses names a fitting
  descriptor: the kernel's code and data segments have privilege 0, the user's have privilege 3 as
  the requested privilege of their selectors, all four cover the whole 4 GiB from 0, and the task
  register names a segment that is exactly the task state segment.
\<close>

theorem descriptor_tables_boot:
  assumes "length (gdt_entries g) = 6"
  shows "\<exists>g' c' t' c''. gdt_create table tss_address (g, c) = Some (GDT_RESULT_OK, g', c') \<and>
    tss_module_init (t, c') = (t', c'') \<and> gdt_base (gdtr c'') = table \<and> unat (gdt_limit (gdtr c'')) + 1 = 6 * 8 \<and>
    cs_register c'' = 0x08 \<and> data_registers c'' = 0x10 \<and>
    (\<forall>(sel, acc, dpl) \<in> {(cs_register c'', 0x9A, 0), (data_registers c'', 0x92, 0), (ucast (ss0 t'), 0x92, 0),
        (ucast TASK_MANAGER_USER_CODE_SELECTOR, 0xFA, 3), (ucast TASK_MANAGER_USER_DATA_SELECTOR, 0xF2, 3)}.
      access (selected g' sel) = acc \<and> segment_dpl (selected g' sel) = dpl \<and> ucast (sel AND 3) = dpl \<and>
      descriptor_base (selected g' sel) = 0 \<and> segment_last (selected g' sel) = 2 ^ 32 - 1) \<and>
    access (selected g' (task_register c'')) = 0x89 \<and>
    descriptor_base (selected g' (task_register c'')) = tss_address \<and>
    segment_last (selected g' (task_register c'')) + 1 = unat sizeof_tss_entry_t"
proof -
  obtain e0 e1 e2 e3 e4 e5 where "gdt_entries g = [e0, e1, e2, e3, e4, e5]"
    using assms by (auto simp: numeral_eq_Suc length_Suc_conv)
  then show ?thesis
    using base_split [of tss_address]
    by (simp add: gdt_create_def gdt_set_entry_def GDT_ENTRIES_COUNT_def GDT_NULL_def GDT_KERNEL_CODE_def
        GDT_KERNEL_DATA_def GDT_USER_CODE_def GDT_USER_DATA_def GDT_TSS_def tss_module_init_def tss_flush_def gdt_flush_def
        GDT_FLAG_PRESENT_def GDT_FLAG_RING0_def GDT_FLAG_RING3_def GDT_FLAG_SEGMENT_def GDT_FLAG_SYSTEM_def
        GDT_FLAG_EXECUTABLE_def GDT_FLAG_READ_WRITE_def GDT_FLAG_TSS_def GDT_GRANULARITY_BYTE_def GDT_GRANULARITY_4K_def
        GDT_GRANULARITY_32BIT_def sizeof_tss_entry_t_def selected_def segment_dpl_def segment_last_def
        descriptor_base_def descriptor_limit_def TASK_MANAGER_USER_CODE_SELECTOR_def TASK_MANAGER_USER_DATA_SELECTOR_def
        and_masks bit_numeral_rec)
qed

lemma descriptor_tables_boot_witness:
  "\<forall>c t. \<exists>g' c' t' c''. gdt_create 0xC0110000 0xC0120000 (\<lparr>gdt_entries = replicate 6
      \<lparr>limit_low = 0, base_low = 0, base_middle = 0, access = 0, granularity = 0, base_high = 0\<rparr>,
      gdt_pointer = \<lparr>gdt_limit = 0, gdt_base = 0\<rparr>\<rparr>, c) = Some (GDT_RESULT_OK, g', c') \<and>
    tss_module_init (t, c') = (t', c'') \<and> access (selected g' 0x1B) = 0xFA \<and> segment_last (selected g' 0x23) = 2 ^ 32 - 1 \<and>
    descriptor_base (selected g' 0x28) = 0xC0120000" (is "\<forall>c t. ?P c t")
proof (intro allI)
  fix c t
  let ?g = "\<lparr>gdt_entries = replicate 6
      \<lparr>limit_low = 0, base_low = 0, base_middle = 0, access = 0, granularity = 0, base_high = 0\<rparr>,
      gdt_pointer = \<lparr>gdt_limit = 0, gdt_base = 0\<rparr>\<rparr>"
  obtain g' c' t' c'' where *: "gdt_create 0xC0110000 0xC0120000 (?g, c) = Some (GDT_RESULT_OK, g', c')"
    "tss_module_init (t, c') = (t', c'')"
    "\<forall>(sel, acc, dpl) \<in> {(cs_register c'', 0x9A, 0), (data_registers c'', 0x92, 0), (ucast (ss0 t'), 0x92, 0),
        (ucast TASK_MANAGER_USER_CODE_SELECTOR, 0xFA, 3), (ucast TASK_MANAGER_USER_DATA_SELECTOR, 0xF2, 3)}.
      access (selected g' sel) = acc \<and> segment_dpl (selected g' sel) = dpl \<and> ucast (sel AND 3) = dpl \<and>
      descriptor_base (selected g' sel) = 0 \<and> segment_last (selected g' sel) = 2 ^ 32 - 1"
    "descriptor_base (selected g' (task_register c'')) = 0xC0120000"
    using descriptor_tables_boot [of ?g "0xC0110000" "0xC0120000" c t] by auto
  moreover have "task_register c'' = 0x28" using *(2) by (auto simp: tss_module_init_def tss_flush_def)
  ultimately show "?P c t" by (auto simp: TASK_MANAGER_USER_CODE_SELECTOR_def TASK_MANAGER_USER_DATA_SELECTOR_def)
qed

definition gate_is :: "u32 \<Rightarrow> u8 \<Rightarrow> idt_entry_t \<Rightarrow> bool" where
  "gate_is handler attributes e \<longleftrightarrow> gate_offset e = handler \<and> segment_selector e = 0x08 \<and> type_attributes e = attributes"

lemma idt_set_entry_ok:
  assumes "length (idt_entries i) = 256" "n < 256"
  obtains i' e where "idt_set_entry (int n) offset 0x08 attributes i = Some (IDT_RESULT_OK, i')"
    "idt_entries i' = (idt_entries i)[n := e]" "gate_is offset attributes e" "idt_pointer i' = idt_pointer i"
  using assms that by (simp add: idt_set_entry_def IDT_MAX_ENTRIES_COUNT_def gate_is_def gate_offset_def and_masks offset_split)

lemma idt_fill:
  assumes len: "length (idt_entries i) = 256" and b: "b + m \<le> 256"
  shows "\<exists>i'. for_each (\<lambda>n i. map_option snd (idt_set_entry (n + int b) (stubs n) 0x08 attributes i)) [0..int m - 1] i = Some i' \<and>
    length (idt_entries i') = 256 \<and> idt_pointer i' = idt_pointer i \<and>
    (\<forall>n<256. if b \<le> n \<and> n < b + m then gate_is (stubs (int (n - b))) attributes (idt_entries i' ! n)
      else idt_entries i' ! n = idt_entries i ! n)"
proof -
  let ?f = "\<lambda>n i. map_option snd (idt_set_entry (n + int b) (stubs n) 0x08 attributes i)"
  let ?P = "\<lambda>k (i' :: idt_t). length (idt_entries i') = 256 \<and> idt_pointer i' = idt_pointer i \<and>
    (\<forall>n<256. if b \<le> n \<and> n < b + k then gate_is (stubs (int (n - b))) attributes (idt_entries i' ! n)
      else idt_entries i' ! n = idt_entries i ! n)"
  have "\<exists>i'. for_each ?f [0..int m - 1] i = Some i' \<and> ?P (length [0..int m - 1]) i'"
  proof (rule for_each_rule)
    fix k i1 assume k: "k < length [0..int m - 1]" and P: "?P k i1"
    have lt: "k + b < 256" using k b by simp
    obtain i' e where i': "idt_set_entry (int (k + b)) (stubs (int k)) 0x08 attributes i1 = Some (IDT_RESULT_OK, i')"
      "idt_entries i' = (idt_entries i1)[k + b := e]" "gate_is (stubs (int k)) attributes e" "idt_pointer i' = idt_pointer i1"
      using idt_set_entry_ok [of i1 "k + b"] P lt by blast
    have "?P (Suc k) i'" using P i' lt by (auto simp: nth_list_update less_Suc_eq simp del: of_nat_diff)
    moreover have "?f ([0..int m - 1] ! k) i1 = Some i'" using i'(1) k by simp
    ultimately show "\<exists>s'. ?f ([0..int m - 1] ! k) i1 = Some s' \<and> ?P (Suc k) s'" by blast
  qed (use len in auto)
  then show ?thesis by simp
qed

text \<open>
  After boot the interrupt table routes each vector: the 32 exceptions to their stubs, the 16
  hardware interrupts that the controller sends from vector 32 on to theirs, both closed to user
  code, and vector 0x80 to the system call stub, open to user code. All other gates are as before.
\<close>

theorem interrupt_vectors_boot:
  assumes "length (idt_entries i) = 256"
  shows "\<exists>i' c' i''. idt_create table isr_stubs isr_syscall (i, c) = Some (IDT_RESULT_OK, i', c') \<and>
    irq_set_idt_entries irq_stubs i' = Some i'' \<and> idtr c' = \<lparr>idt_limit = 0x7FF, idt_base = table\<rparr> \<and>
    (\<forall>n<256. if n < 32 then gate_is (isr_stubs (int n)) 0x8E (idt_entries i'' ! n)
      else if n < 48 then gate_is (irq_stubs (int n - 32)) 0x8E (idt_entries i'' ! n)
      else if n = 0x80 then gate_is isr_syscall 0xEE (idt_entries i'' ! n)
      else idt_entries i'' ! n = idt_entries i ! n) \<and>
    (\<forall>e handler. gate_is handler 0x8E e \<longrightarrow> gate_present e \<and> gate_dpl e = 0) \<and>
    (\<forall>e handler. gate_is handler 0xEE e \<longrightarrow> gate_present e \<and> gate_dpl e = 3)"
proof -
  let ?i = "i\<lparr>idt_pointer := \<lparr>idt_limit = 256 * 8 - 1, idt_base = table\<rparr>\<rparr>"
  obtain i1 where i1: "for_each (\<lambda>n i. map_option snd (idt_set_entry n (isr_stubs n) 0x08 0x8E i)) [0..31] ?i = Some i1"
    "length (idt_entries i1) = 256" "idt_pointer i1 = idt_pointer ?i"
    "\<forall>n<256. if n < 32 then gate_is (isr_stubs (int n)) 0x8E (idt_entries i1 ! n) else idt_entries i1 ! n = idt_entries i ! n"
    using idt_fill [of ?i 0 32 isr_stubs "0x8E"] assms by (auto cong: if_cong)
  obtain i2 e where i2: "idt_set_entry 0x80 isr_syscall 0x08 0xEE i1 = Some (IDT_RESULT_OK, i2)"
    "idt_entries i2 = (idt_entries i1)[0x80 := e]" "gate_is isr_syscall 0xEE e" "idt_pointer i2 = idt_pointer i1"
    using idt_set_entry_ok [OF i1(2), of "0x80" isr_syscall "0xEE"] by auto
  obtain i3 where i3: "irq_set_idt_entries irq_stubs i2 = Some i3"
    "\<forall>n<256. if 32 \<le> n \<and> n < 48 then gate_is (irq_stubs (int (n - 32))) 0x8E (idt_entries i3 ! n)
      else idt_entries i3 ! n = idt_entries i2 ! n"
    using idt_fill [of i2 32 16 irq_stubs "0x8E"] i1(2) i2(2)
    by (auto simp: irq_set_idt_entries_def IDT_BASE_ENTRIES_COUNT_def IRQ_MAX_ENTRIES_COUNT_def)
  have "\<forall>n<256. if n < 32 then gate_is (isr_stubs (int n)) 0x8E (idt_entries i3 ! n)
      else if n < 48 then gate_is (irq_stubs (int n - 32)) 0x8E (idt_entries i3 ! n)
      else if n = 0x80 then gate_is isr_syscall 0xEE (idt_entries i3 ! n)
      else idt_entries i3 ! n = idt_entries i ! n"
  proof (intro allI impI)
    fix n :: nat assume n: "n < 256"
    show "if n < 32 then gate_is (isr_stubs (int n)) 0x8E (idt_entries i3 ! n)
      else if n < 48 then gate_is (irq_stubs (int n - 32)) 0x8E (idt_entries i3 ! n)
      else if n = 0x80 then gate_is isr_syscall 0xEE (idt_entries i3 ! n)
      else idt_entries i3 ! n = idt_entries i ! n"
      using i3(2) [rule_format, OF n] i1(4) [rule_format, OF n] i2(2,3) i1(2) n
      by (auto simp: nth_list_update of_nat_diff split: if_splits)
  qed
  moreover have "idt_create table isr_stubs isr_syscall (i, c) = Some (IDT_RESULT_OK, i2, idt_flush (idt_pointer i2) c)"
    using i1(1) i2(1) by (simp add: idt_create_def IDT_BASE_ENTRIES_COUNT_def IDT_SYSCALL_def)
  ultimately show ?thesis using i3(1) i1(3) i2(4)
    by (auto simp: idt_flush_def gate_is_def gate_present_def gate_dpl_def bit_numeral_rec)
qed

lemma interrupt_vectors_boot_witness:
  "\<forall>c. \<exists>i' c' i''. idt_create 0xC0130000 (\<lambda>n. 0xC0100000 + 16 * of_int n) 0xC0100800 (\<lparr>idt_entries = replicate 256
      \<lparr>offset_low = 0, segment_selector = 0, reserved = 0, type_attributes = 0, offset_high = 0\<rparr>,
      idt_pointer = \<lparr>idt_limit = 0, idt_base = 0\<rparr>\<rparr>, c) = Some (IDT_RESULT_OK, i', c') \<and>
    irq_set_idt_entries (\<lambda>n. 0xC0101000 + 16 * of_int n) i' = Some i'' \<and>
    gate_is 0xC01000E0 0x8E (idt_entries i'' ! 14) \<and> gate_is 0xC0101010 0x8E (idt_entries i'' ! 33) \<and>
    gate_is 0xC0100800 0xEE (idt_entries i'' ! 0x80)" (is "\<forall>c. ?P c")
proof
  fix c
  let ?i = "\<lparr>idt_entries = replicate 256
      \<lparr>offset_low = 0, segment_selector = 0, reserved = 0, type_attributes = 0, offset_high = 0\<rparr>,
      idt_pointer = \<lparr>idt_limit = 0, idt_base = 0\<rparr>\<rparr>"
  have "length (idt_entries ?i) = 256" by simp
  from interrupt_vectors_boot [OF this, of "0xC0130000" "\<lambda>n. 0xC0100000 + 16 * of_int n" "0xC0100800" c "\<lambda>n. 0xC0101000 + 16 * of_int n"]
  obtain i' c' i'' where *: "idt_create 0xC0130000 (\<lambda>n. 0xC0100000 + 16 * of_int n) 0xC0100800 (?i, c) = Some (IDT_RESULT_OK, i', c')"
    "irq_set_idt_entries (\<lambda>n. 0xC0101000 + 16 * of_int n) i' = Some i''"
    "\<forall>n<256. if n < 32 then gate_is (0xC0100000 + 16 * of_int (int n)) 0x8E (idt_entries i'' ! n)
      else if n < 48 then gate_is (0xC0101000 + 16 * of_int (int n - 32)) 0x8E (idt_entries i'' ! n)
      else if n = 0x80 then gate_is 0xC0100800 0xEE (idt_entries i'' ! n)
      else idt_entries i'' ! n = idt_entries ?i ! n" by blast
  then show "?P c" using *(3) [rule_format, of 14] *(3) [rule_format, of 33] *(3) [rule_format, of 128] by auto
qed

end
