(* ===== verification/Interrupts.thy ===== *)
theory Interrupts
  imports Descriptors Keyboard
begin

unbundle bit_operations_syntax

text \<open>
  Hardware interrupts: the interrupt controller \<^verbatim>\<open>src/pic.c\<close>, the table of handlers \<^verbatim>\<open>src/irq.c\<close> and
  the programming of the timer \<^verbatim>\<open>src/drivers/timer.c\<close>. A handler is a function on the kernel's
  state; the bytes written to the ports are a trace. The chips that read the trace are modelled from
  their data sheets, to say what the programming achieves.
\<close>

section \<open>The interrupt controller\<close>

definition PIC1_COMMAND :: u16 where "PIC1_COMMAND = 0x20"
definition PIC1_DATA :: u16 where "PIC1_DATA = PIC1_COMMAND + 1"
definition PIC2_COMMAND :: u16 where "PIC2_COMMAND = 0xA0"
definition PIC2_DATA :: u16 where "PIC2_DATA = PIC2_COMMAND + 1"
definition PIC_COMMAND_INITIALIZE :: u8 where "PIC_COMMAND_INITIALIZE = 0x11"
definition PIC_COMMAND_EOI :: u8 where "PIC_COMMAND_EOI = 0x20"
definition PIC_VALUE_HAS_SLAVE_AT_IRQ2 :: u8 where "PIC_VALUE_HAS_SLAVE_AT_IRQ2 = push_bit 2 1"
definition PIC_VALUE_CASCADE_IRQ2 :: u8 where "PIC_VALUE_CASCADE_IRQ2 = 2"
definition PIC_VALUE_8086 :: u8 where "PIC_VALUE_8086 = 0x01"
definition PIC1_REMAPPED_VECTOR :: u32 where "PIC1_REMAPPED_VECTOR = 0x20"
definition PIC2_REMAPPED_VECTOR :: u32 where "PIC2_REMAPPED_VECTOR = 0x28"

definition outb_wait :: "u16 \<Rightarrow> u8 \<Rightarrow> port_trace \<Rightarrow> port_trace" where
  "outb_wait port v trace = io_wait (io_outb port v trace)"

definition pic_remap :: "u32 \<Rightarrow> u32 \<Rightarrow> port_trace \<Rightarrow> port_trace" where
  "pic_remap offset_master offset_slave trace =
     (let trace = outb_wait PIC1_COMMAND PIC_COMMAND_INITIALIZE trace;
          trace = outb_wait PIC2_COMMAND PIC_COMMAND_INITIALIZE trace;
          trace = outb_wait PIC1_DATA (ucast offset_master) trace;
          trace = outb_wait PIC2_DATA (ucast offset_slave) trace;
          trace = outb_wait PIC1_DATA PIC_VALUE_HAS_SLAVE_AT_IRQ2 trace;
          trace = outb_wait PIC2_DATA PIC_VALUE_CASCADE_IRQ2 trace;
          trace = outb_wait PIC1_DATA PIC_VALUE_8086 trace;
          trace = outb_wait PIC2_DATA PIC_VALUE_8086 trace;
          trace = outb_wait PIC1_DATA 0 trace
      in outb_wait PIC2_DATA 0 trace)"

definition pic_module_init :: "port_trace \<Rightarrow> port_trace" where
  "pic_module_init = pic_remap PIC1_REMAPPED_VECTOR PIC2_REMAPPED_VECTOR"

definition pic_send_eoi :: "int \<Rightarrow> port_trace \<Rightarrow> port_trace" where
  "pic_send_eoi irq trace =
     io_outb PIC1_COMMAND PIC_COMMAND_EOI (if irq \<ge> 8 then io_outb PIC2_COMMAND PIC_COMMAND_EOI trace else trace)"

section \<open>The table of handlers\<close>

datatype irq_result_t = IRQ_RESULT_OK | IRQ_RESULT_INDEX_ALREADY_IN_USE | IRQ_RESULT_OUT_OF_BOUNDS

type_synonym 's irq_handler_function = "register_interrupt_data_t \<Rightarrow> 's \<Rightarrow> 's option"

record 's irq_t =
  irq_handlers :: "'s irq_handler_function option list"

definition irq_reset_handlers :: "'s irq_t \<Rightarrow> 's irq_t" where
  "irq_reset_handlers q = fold (\<lambda>n q. q\<lparr>irq_handlers := (irq_handlers q)[n := None]\<rparr>) [0..<nat IRQ_MAX_ENTRIES_COUNT] q"

definition irq_register_handler ::
    "u32 \<Rightarrow> 's irq_handler_function \<Rightarrow> 's irq_t \<Rightarrow> irq_result_t \<times> 's irq_t" where
  "irq_register_handler index handler q =
     (if index > of_int IRQ_MAX_ENTRIES_COUNT - 1 then (IRQ_RESULT_OUT_OF_BOUNDS, q)
      else if irq_handlers q ! unat index \<noteq> None then (IRQ_RESULT_INDEX_ALREADY_IN_USE, q)
      else (IRQ_RESULT_OK, q\<lparr>irq_handlers := (irq_handlers q)[unat index := Some handler]\<rparr>))"

definition irq_remove_handler :: "u32 \<Rightarrow> 's irq_t \<Rightarrow> irq_result_t \<times> 's irq_t" where
  "irq_remove_handler index q =
     (if index > of_int IRQ_MAX_ENTRIES_COUNT - 1 then (IRQ_RESULT_OUT_OF_BOUNDS, q)
      else (IRQ_RESULT_OK, q\<lparr>irq_handlers := (irq_handlers q)[unat index := None]\<rparr>))"

text \<open>The line is not checked: one outside of the table is a fault.\<close>

definition irq_handler ::
    "register_interrupt_data_t \<Rightarrow> 's irq_t \<Rightarrow> 's \<Rightarrow> port_trace \<Rightarrow> ('s \<times> port_trace) option" where
  "irq_handler data q s trace =
     (let irq_index = sint (interrupt_index data - PIC1_REMAPPED_VECTOR)
      in if irq_index < 0 \<or> irq_index \<ge> IRQ_MAX_ENTRIES_COUNT then None
         else do {
           s \<leftarrow> (case irq_handlers q ! nat irq_index of None \<Rightarrow> Some s | Some handler \<Rightarrow> handler data s);
           Some (s, pic_send_eoi irq_index trace)
         })"

definition irq_module_init :: "(int \<Rightarrow> u32) \<Rightarrow> 's irq_t \<Rightarrow> idt_t \<Rightarrow> ('s irq_t \<times> idt_t) option" where
  "irq_module_init irq_stubs q i = do {
     i \<leftarrow> irq_set_idt_entries irq_stubs i;
     Some (irq_reset_handlers q, i)
   }"

section \<open>The timer\<close>

definition PIT_CLOCK :: u32 where "PIT_CLOCK = 1193180"
definition PIT0 :: u16 where "PIT0 = 0x40"
definition PIT_COMMAND :: u16 where "PIT_COMMAND = 0x43"
definition TIMER_CHANNEL_0 :: u8 where "TIMER_CHANNEL_0 = 0x0"
definition TIMER_READ_WRITE_HIGH_LOW :: u8 where "TIMER_READ_WRITE_HIGH_LOW = 0x30"
definition TIMER_MODE_SQUARE_WAVE :: u8 where "TIMER_MODE_SQUARE_WAVE = 0x6"
definition TIMER_16_BIT_BINARY :: u8 where "TIMER_16_BIT_BINARY = 0x0"

definition timer_set_phase :: "port_trace \<Rightarrow> port_trace" where
  "timer_set_phase trace =
     (let divisor = PIT_CLOCK div ucast TIMER_PHASE;
          trace = io_outb PIT_COMMAND
            (TIMER_CHANNEL_0 OR TIMER_READ_WRITE_HIGH_LOW OR TIMER_MODE_SQUARE_WAVE OR TIMER_16_BIT_BINARY) trace;
          trace = io_outb PIT0 (ucast (divisor AND 0xFF)) trace
      in io_outb PIT0 (ucast (drop_bit 8 divisor)) trace)"

definition timer_module_init ::
    "'a kernel_scheme irq_t \<Rightarrow> port_trace \<Rightarrow> irq_result_t \<times> 'a kernel_scheme irq_t \<times> port_trace" where
  "timer_module_init q trace = (let trace = timer_set_phase trace; (r, q) = irq_register_handler 0 timer_irq_handler q
     in (r, q, trace))"

definition timer_get_ticks :: "'a kernel_scheme \<Rightarrow> u64" where
  "timer_get_ticks s = timer_ticks s"

section \<open>The chips\<close>

text \<open>
  An 8259 interrupt controller: a command with bit 4 starts the initialisation, and the next three
  bytes on the data port are the vector offset, the cascade and the mode; otherwise a byte on the
  data port is the mask, and the command 0x20 ends the interrupt in service.
\<close>

record i8259 =
  icw_next :: nat
  chip_vector :: u8
  chip_cascade :: u8
  chip_mode :: u8
  chip_mask :: u8
  ended :: nat

definition i8259_write :: "u16 \<Rightarrow> u16 \<times> u8 \<Rightarrow> i8259 \<Rightarrow> i8259" where
  "i8259_write command = (\<lambda>(port, v) c.
     if port = command
     then if bit v 4 then c\<lparr>icw_next := 2, chip_mask := 0\<rparr>
          else if v = 0x20 then c\<lparr>ended := ended c + 1\<rparr> else c
     else if port = command + 1
     then if icw_next c = 2 then c\<lparr>chip_vector := v AND 0xF8, icw_next := 3\<rparr>
          else if icw_next c = 3 then c\<lparr>chip_cascade := v, icw_next := 4\<rparr>
          else if icw_next c = 4 then c\<lparr>chip_mode := v, icw_next := 0\<rparr>
          else c\<lparr>chip_mask := v\<rparr>
     else c)"

definition i8259_run :: "u16 \<Rightarrow> port_trace \<Rightarrow> i8259 \<Rightarrow> i8259" where
  "i8259_run command = fold (i8259_write command)"

text \<open>Channel 0 of an 8254 timer, programmed for the low byte and then the high byte.\<close>

record i8254 =
  pit_mode :: u8
  pit_low :: "u8 option"
  pit_reload :: nat

definition i8254_write :: "u16 \<times> u8 \<Rightarrow> i8254 \<Rightarrow> i8254" where
  "i8254_write = (\<lambda>(port, v) c.
     if port = 0x43 \<and> drop_bit 6 v = 0 then c\<lparr>pit_mode := v, pit_low := None\<rparr>
     else if port = 0x40
     then case pit_low c of None \<Rightarrow> c\<lparr>pit_low := Some v\<rparr>
        | Some low \<Rightarrow> c\<lparr>pit_low := None, pit_reload := 256 * unat v + unat low\<rparr>
     else c)"

definition i8254_run :: "port_trace \<Rightarrow> i8254 \<Rightarrow> i8254" where
  "i8254_run = fold i8254_write"

section \<open>Properties\<close>

lemma irq_reset_none: "length (irq_handlers q) = 16 \<Longrightarrow> irq_handlers (irq_reset_handlers q) = replicate 16 None"
proof -
  assume "length (irq_handlers q) = 16"
  then have "\<exists>a b c d e f g h i j k l m n p r. irq_handlers q = [a, b, c, d, e, f, g, h, i, j, k, l, m, n, p, r]"
    by (auto simp: numeral_eq_Suc length_Suc_conv)
  then show ?thesis by (auto simp: irq_reset_handlers_def IRQ_MAX_ENTRIES_COUNT_def upt_conv_Cons numeral_eq_Suc)
qed

text \<open>
  Whatever state the two interrupt controllers are in, \<^verbatim>\<open>pic_module_init\<close> leaves them
  initialised with no byte pending: the first sends vectors from 32 on and has the second on its line
  2, the second sends vectors from 40 on as the cascade of line 2, both in 8086 mode and unmasked.
\<close>

theorem pic_module_init_programs:
  "i8259_run PIC1_COMMAND (pic_module_init []) c =
     \<lparr>icw_next = 0, chip_vector = 0x20, chip_cascade = 4, chip_mode = 1, chip_mask = 0, ended = ended c\<rparr> \<and>
   i8259_run PIC2_COMMAND (pic_module_init []) c =
     \<lparr>icw_next = 0, chip_vector = 0x28, chip_cascade = 2, chip_mode = 1, chip_mask = 0, ended = ended c\<rparr>"
  by (cases c) (simp add: i8259_run_def pic_module_init_def pic_remap_def outb_wait_def io_wait_def io_outb_def i8259_write_def
      PIC1_COMMAND_def PIC1_DATA_def PIC2_COMMAND_def PIC2_DATA_def PIC_COMMAND_INITIALIZE_def PIC_VALUE_HAS_SLAVE_AT_IRQ2_def
      PIC_VALUE_CASCADE_IRQ2_def PIC_VALUE_8086_def PIC1_REMAPPED_VECTOR_def PIC2_REMAPPED_VECTOR_def bit_numeral_rec)


text \<open>
  \<^verbatim>\<open>timer_set_phase\<close> programs the timer, from any state, with the divisor 1193 in square wave
  mode, so that it ticks at least 1000 and less than 1001 times a second.
\<close>

theorem timer_set_phase_programs:
  "i8254_run (timer_set_phase []) c = \<lparr>pit_mode = 0x36, pit_low = None, pit_reload = 1193\<rparr> \<and>
   1000 * 1193 \<le> unat PIT_CLOCK \<and> unat PIT_CLOCK < 1001 * 1193"
  by (cases c) (simp add: i8254_run_def timer_set_phase_def io_outb_def i8254_write_def PIT_CLOCK_def TIMER_PHASE_def
      PIT_COMMAND_def PIT0_def TIMER_CHANNEL_0_def TIMER_READ_WRITE_HIGH_LOW_def TIMER_MODE_SQUARE_WAVE_def
      TIMER_16_BIT_BINARY_def drop_bit_eq_div)

lemma irq_line:
  assumes "interrupt_index data = PIC1_REMAPPED_VECTOR + of_nat line" "line < 16"
  shows "sint (interrupt_index data - PIC1_REMAPPED_VECTOR) = int line"
proof -
  have "sint (of_nat line :: u32) = int line"
    using assms(2) by (simp add: signed_of_nat signed_take_bit_int_eq_self)
  then show ?thesis using assms(1) by simp
qed

lemma irq_handler_run:
  assumes "interrupt_index data = PIC1_REMAPPED_VECTOR + of_nat line" "line < 16"
  shows "irq_handler data q s trace = map_option (\<lambda>s'. (s', pic_send_eoi (int line) trace))
    (case irq_handlers q ! line of None \<Rightarrow> Some s | Some handler \<Rightarrow> handler data s)"
  using irq_line [OF assms] assms(2)
  by (simp add: irq_handler_def IRQ_MAX_ENTRIES_COUNT_def map_conv_bind_option comp_def)

lemma eoi_effect:
  "i8259_run PIC1_COMMAND (pic_send_eoi line trace) c = (i8259_run PIC1_COMMAND trace c)
     \<lparr>ended := ended (i8259_run PIC1_COMMAND trace c) + 1\<rparr>"
  "i8259_run PIC2_COMMAND (pic_send_eoi line trace) c = (i8259_run PIC2_COMMAND trace c)
     \<lparr>ended := ended (i8259_run PIC2_COMMAND trace c) + (if line \<ge> 8 then 1 else 0)\<rparr>"
  by (simp_all add: i8259_run_def pic_send_eoi_def io_outb_def i8259_write_def PIC1_COMMAND_def PIC2_COMMAND_def
      PIC_COMMAND_EOI_def bit_numeral_rec)

text \<open>
  A hardware interrupt on one of the 16 lines runs the handler registered for that line, once
  and on the state at hand, or none when the line has none. Then it ends the interrupt at the first
  controller, and at the second exactly for the lines 8 to 15 that come through it.
\<close>

theorem irq_handler_dispatches:
  assumes "interrupt_index data = PIC1_REMAPPED_VECTOR + of_nat line" and "line < 16" and "length (irq_handlers q) = 16"
  shows "\<exists>trace'. irq_handler data q s trace =
      map_option (\<lambda>s'. (s', trace')) (case irq_handlers q ! line of None \<Rightarrow> Some s | Some handler \<Rightarrow> handler data s) \<and>
    (\<forall>c. ended (i8259_run PIC1_COMMAND trace' c) = ended (i8259_run PIC1_COMMAND trace c) + 1) \<and>
    (\<forall>c. ended (i8259_run PIC2_COMMAND trace' c) = ended (i8259_run PIC2_COMMAND trace c) + (if 8 \<le> line then 1 else 0))"
  by (intro exI [of _ "pic_send_eoi (int line) trace"]) (simp add: irq_handler_run [OF assms(1,2)] eoi_effect)

text \<open>
  Registering a handler: an index past the 16 lines and a line in use are refused with nothing
  changed; a free line gets the handler, the other lines keep theirs, and removing it gives the
  table back.
\<close>

theorem irq_register_handler_table:
  assumes "length (irq_handlers q) = 16"
  shows "if 16 \<le> unat index then irq_register_handler index handler q = (IRQ_RESULT_OUT_OF_BOUNDS, q)
    else if irq_handlers q ! unat index \<noteq> None
    then irq_register_handler index handler q = (IRQ_RESULT_INDEX_ALREADY_IN_USE, q)
    else \<exists>q'. irq_register_handler index handler q = (IRQ_RESULT_OK, q') \<and>
      irq_handlers q' ! unat index = Some handler \<and>
      (\<forall>line<16. line \<noteq> unat index \<longrightarrow> irq_handlers q' ! line = irq_handlers q ! line) \<and>
      irq_remove_handler index q' = (IRQ_RESULT_OK, q)"
proof -
  have lt: "(index > of_int IRQ_MAX_ENTRIES_COUNT - 1) = (16 \<le> unat index)"
    by (simp add: IRQ_MAX_ENTRIES_COUNT_def word_less_nat_alt) linarith
  have same: "(irq_handlers q)[unat index := None] = irq_handlers q" if "irq_handlers q ! unat index = None"
    using that by (metis list_update_id)
  show ?thesis using assms
    by (auto simp: irq_register_handler_def irq_remove_handler_def lt same not_le)
qed

section \<open>The keyboard and the timer\<close>

text \<open>The scancode comes from \<^verbatim>\<open>io_inb(0x60)\<close>, an input of the machine.\<close>

definition keyboard_driver_init ::
    "(u16 \<Rightarrow> u8) \<Rightarrow> 'a kernel_keyboard_scheme irq_t \<Rightarrow> irq_result_t \<times> 'a kernel_keyboard_scheme irq_t" where
  "keyboard_driver_init io_inb = irq_register_handler 1 (\<lambda>data. keyboard_irq_handler (io_inb 0x60))"

text \<open>
  (C40) After the boot sequence of the interrupt modules, vector 32 runs the timer's handler, vector
  33 the keyboard's with the scancode of the port, and the other lines leave the state as it is;
  both registrations succeed.
\<close>

theorem boot_interrupts_reach_handlers:
  assumes "length (irq_handlers q) = 16" and "line < 16"
    and "interrupt_index data = PIC1_REMAPPED_VECTOR + of_nat line"
  shows "\<exists>q1 q2 trace1 trace'. timer_module_init (irq_reset_handlers q) trace0 = (IRQ_RESULT_OK, q1, trace1) \<and>
    keyboard_driver_init io_inb q1 = (IRQ_RESULT_OK, q2) \<and>
    irq_handler data q2 s trace = map_option (\<lambda>s'. (s', trace'))
      (if line = 0 then timer_irq_handler data s
       else if line = 1 then keyboard_irq_handler (io_inb 0x60) s else Some s)"
proof -
  note reset = irq_reset_none [OF assms(1)]
  let ?q1 = "(irq_reset_handlers q)\<lparr>irq_handlers := (replicate 16 None)[0 := Some timer_irq_handler]\<rparr>"
  let ?q2 = "?q1\<lparr>irq_handlers := (replicate 16 None)[0 := Some timer_irq_handler, 1 := Some (\<lambda>data. keyboard_irq_handler (io_inb 0x60))]\<rparr>"
  have q1: "timer_module_init (irq_reset_handlers q) trace0 = (IRQ_RESULT_OK, ?q1, timer_set_phase trace0)"
    by (simp add: timer_module_init_def irq_register_handler_def reset IRQ_MAX_ENTRIES_COUNT_def)
  have q2: "keyboard_driver_init io_inb ?q1 = (IRQ_RESULT_OK, ?q2)"
    by (simp add: keyboard_driver_init_def irq_register_handler_def IRQ_MAX_ENTRIES_COUNT_def)
  have "irq_handlers ?q2 ! line = (if line = 0 then Some timer_irq_handler
      else if line = 1 then Some (\<lambda>data. keyboard_irq_handler (io_inb 0x60)) else None)"
    using assms(2) by (simp add: nth_list_update)
  then have "irq_handler data ?q2 s trace = map_option (\<lambda>s'. (s', pic_send_eoi (int line) trace))
    (if line = 0 then timer_irq_handler data s
     else if line = 1 then keyboard_irq_handler (io_inb 0x60) s else Some s)"
    by (simp only: irq_handler_run [OF assms(3,2)] option.case if_True if_False split: if_split) simp
  then show ?thesis using q1 q2 by blast
qed

lemma irq_handler_dispatches_witness:
  "\<exists>trace'. irq_handler (zero_frame\<lparr>interrupt_index := 0x2C\<rparr>)
      \<lparr>irq_handlers = (replicate 16 None)[12 := Some (\<lambda>data n. Some (n + 1))]\<rparr> (41 :: nat) [] = Some (42, trace')"
proof -
  let ?d = "zero_frame\<lparr>interrupt_index := 0x2C\<rparr>"
  let ?q = "\<lparr>irq_handlers = (replicate 16 None)[12 := Some (\<lambda>data n. Some (n + 1 :: nat))]\<rparr>"
  have "interrupt_index ?d = PIC1_REMAPPED_VECTOR + of_nat 12" by (simp add: PIC1_REMAPPED_VECTOR_def)
  then show ?thesis using irq_handler_dispatches [of ?d 12 ?q 41 "[]"] by auto
qed

lemma irq_register_handler_table_witness:
  "\<exists>q'. irq_register_handler 7 (\<lambda>data n. Some (n + 1)) \<lparr>irq_handlers = replicate 16 None\<rparr> = (IRQ_RESULT_OK, q') \<and>
    irq_remove_handler 7 q' = (IRQ_RESULT_OK, \<lparr>irq_handlers = replicate 16 (None :: nat irq_handler_function option)\<rparr>)"
  using irq_register_handler_table [of "\<lparr>irq_handlers = replicate 16 (None :: nat irq_handler_function option)\<rparr>" 7]
  by auto

lemma boot_interrupts_reach_handlers_witness:
  "\<forall>s. \<exists>q1 q2 trace1 trace'. timer_module_init (irq_reset_handlers \<lparr>irq_handlers = replicate 16 None\<rparr>) [] = (IRQ_RESULT_OK, q1, trace1) \<and>
    keyboard_driver_init (\<lambda>_. 42) q1 = (IRQ_RESULT_OK, q2) \<and>
    irq_handler (zero_frame\<lparr>interrupt_index := 0x21\<rparr>) q2 s [] = map_option (\<lambda>s'. (s', trace')) (keyboard_irq_handler 42 s)" (is "\<forall>s. ?P s")
proof
  fix s
  let ?d = "zero_frame\<lparr>interrupt_index := 0x21\<rparr>"
  have "interrupt_index ?d = PIC1_REMAPPED_VECTOR + of_nat 1" by (simp add: PIC1_REMAPPED_VECTOR_def)
  then show "?P s"
    using boot_interrupts_reach_handlers [of "\<lparr>irq_handlers = replicate 16 None\<rparr>" 1 ?d "[]" "\<lambda>_. 42" s "[]"] by auto
qed

end
