(* ===== verification/Syscalls.thy ===== *)
theory Syscalls
  imports Elf Print Interrupts
begin

text \<open>
  System calls, \<^verbatim>\<open>src/syscall.c\<close>, and the handler of exceptions of \<^verbatim>\<open>src/idt.c\<close>. The parameters of a
  call are kept in the task, so that a call which blocks is run again with the same ones. Memory of
  the calling task is read and written through its pointers; a string is read up to its zero, and a
  string at \<^verbatim>\<open>NULL\<close> is a fault. Every resource has the table \<^verbatim>\<open>vfs_operations\<close>, so a call through an
  entry that is not \<^verbatim>\<open>NULL\<close> is the function of the virtual file system.
\<close>

unbundle bit_operations_syntax

section \<open>State and constants\<close>

datatype syscall_result_t =
    SYSCALL_RESULT_OK | SYSCALL_RESULT_FAIL | SYSCALL_RESULT_BAD_PARAMETER | SYSCALL_RESULT_BUSY
  | SYSCALL_RESULT_OUT_OF_MEMORY | SYSCALL_RESULT_WOULD_BLOCK

primrec syscall_result_code :: "syscall_result_t \<Rightarrow> u32" where
  "syscall_result_code SYSCALL_RESULT_OK = 0"
| "syscall_result_code SYSCALL_RESULT_FAIL = 1"
| "syscall_result_code SYSCALL_RESULT_BAD_PARAMETER = 2"
| "syscall_result_code SYSCALL_RESULT_BUSY = 3"
| "syscall_result_code SYSCALL_RESULT_OUT_OF_MEMORY = 4"
| "syscall_result_code SYSCALL_RESULT_WOULD_BLOCK = 5"

primrec resource_result_code :: "resource_result_t \<Rightarrow> u32" where
  "resource_result_code RESOURCE_RESULT_OK = 0"
| "resource_result_code RESOURCE_RESULT_INVALID = 1"
| "resource_result_code RESOURCE_RESULT_NOT_FOUND = 2"
| "resource_result_code RESOURCE_RESULT_BAD_PARAMETER = 3"
| "resource_result_code RESOURCE_RESULT_ALREADY_PRESENT = 4"
| "resource_result_code RESOURCE_RESULT_STILL_IN_USE = 5"
| "resource_result_code RESOURCE_RESULT_ALLOCATION_ERROR = 6"
| "resource_result_code RESOURCE_RESULT_NO_FREE_SLOTS = 7"
| "resource_result_code RESOURCE_RESULT_WILL_BLOCK = 8"

text \<open>\<^verbatim>\<open>-(int32_t)result\<close>\<close>

definition failure :: "syscall_result_t \<Rightarrow> u32" where
  "failure r = - syscall_result_code r"

definition SYSCALL_OPEN :: u32 where "SYSCALL_OPEN = 0"
definition SYSCALL_CLOSE :: u32 where "SYSCALL_CLOSE = 1"
definition SYSCALL_READ :: u32 where "SYSCALL_READ = 2"
definition SYSCALL_WRITE :: u32 where "SYSCALL_WRITE = 3"
definition SYSCALL_FORK :: u32 where "SYSCALL_FORK = 4"
definition SYSCALL_EXECVE :: u32 where "SYSCALL_EXECVE = 5"
definition SYSCALL_EXIT :: u32 where "SYSCALL_EXIT = 6"
definition SYSCALL_WAITPID :: u32 where "SYSCALL_WAITPID = 7"
definition SYSCALL_SBRK :: u32 where "SYSCALL_SBRK = 8"
definition SYSCALL_ISATTY :: u32 where "SYSCALL_ISATTY = 9"
definition SYSCALL_GETPID :: u32 where "SYSCALL_GETPID = 10"
definition SYSCALL_LSEEK :: u32 where "SYSCALL_LSEEK = 11"
definition SYSCALL_FCNTL :: u32 where "SYSCALL_FCNTL = 12"
definition SYSCALL_IOCTL :: u32 where "SYSCALL_IOCTL = 13"
definition SYSCALL_FSTAT :: u32 where "SYSCALL_FSTAT = 14"
definition SYSCALL_STAT :: u32 where "SYSCALL_STAT = 15"
definition SYSCALL_LINK :: u32 where "SYSCALL_LINK = 16"
definition SYSCALL_UNLINK :: u32 where "SYSCALL_UNLINK = 17"
definition SYSCALL_TIMES :: u32 where "SYSCALL_TIMES = 18"
definition SYSCALL_KILL :: u32 where "SYSCALL_KILL = 19"
definition SYSCALL_SIGACTION :: u32 where "SYSCALL_SIGACTION = 20"
definition SYSCALL_LSEEK_SET :: u32 where "SYSCALL_LSEEK_SET = 0"
definition SYSCALL_LSEEK_CUR :: u32 where "SYSCALL_LSEEK_CUR = 1"
definition SYSCALL_LSEEK_END :: u32 where "SYSCALL_LSEEK_END = 2"
definition SYSCALL_F_GETFL :: u32 where "SYSCALL_F_GETFL = 1"
definition SYSCALL_F_SETFL :: u32 where "SYSCALL_F_SETFL = 2"
definition SYSCALL_O_RDONLY :: u32 where "SYSCALL_O_RDONLY = 0"
definition SYSCALL_O_WRONLY :: u32 where "SYSCALL_O_WRONLY = 1"
definition SYSCALL_O_ACCMODE :: u32 where "SYSCALL_O_ACCMODE = 3"
definition SYSCALL_O_NONBLOCK :: u32 where "SYSCALL_O_NONBLOCK = 4"
definition SYSCALL_SIGKILL :: u32 where "SYSCALL_SIGKILL = 9"
definition USER_HEAP_VIRTUAL_CEILING :: u32 where
  "USER_HEAP_VIRTUAL_CEILING = USER_STACK_TOP - PAGE_SIZE - 0x100000"

text \<open>
  The table of the virtual file system, the two buffers of the program loader on the kernel stack,
  and whether \<^verbatim>\<open>syscall.current_register_data\<close> has been set. It then points to the frame on top of
  the kernel stack, where every interrupt from user mode leaves its frame.
\<close>

record kernel_sys = kernel_io +
  vfs_operations :: resource_operations_t
  elf_header_buffer :: u32
  elf_program_buffer :: u32
  register_data_set :: bool

abbreviation SYSCALL_TASK :: "'a kernel_sys_scheme \<Rightarrow> task_t" where
  "SYSCALL_TASK s \<equiv> tasks s (caller_task s)"

definition SYSCALL_GET_PARAMETER :: "u32 \<Rightarrow> 'a kernel_sys_scheme \<Rightarrow> u32" where
  "SYSCALL_GET_PARAMETER i s = parameters (syscall_execution (SYSCALL_TASK s)) i"

definition upd_caller :: "(task_t \<Rightarrow> task_t) \<Rightarrow> 'a kernel_sys_scheme \<Rightarrow> 'a kernel_sys_scheme" where
  "upd_caller f s = upd_task (caller_task s) f s"

definition read_string :: "u32 \<Rightarrow> 'a kernel_sys_scheme \<Rightarrow> char list option" where
  "read_string p s =
     (if p = 0 then None
      else do {
        n \<leftarrow> strlen (heap_data s) p;
        Some (bytes_at (heap_data s) p (unat n))
      })"

definition above_user :: "u32 \<Rightarrow> 'a kernel_sys_scheme \<Rightarrow> bool" where
  "above_user p s \<longleftrightarrow> task_is_user (SYSCALL_TASK s) \<noteq> 0 \<and> p \<ge> KERNEL_VIRTUAL_SPACE_START"

definition syscall_validate_user_buffer :: "u32 \<Rightarrow> u32 \<Rightarrow> 'a kernel_sys_scheme \<Rightarrow> syscall_result_t" where
  "syscall_validate_user_buffer buf len s =
     (if task_is_user (SYSCALL_TASK s) = 0 then SYSCALL_RESULT_OK
      else let buffer_end = buf + len in
        if buf \<ge> KERNEL_VIRTUAL_SPACE_START then SYSCALL_RESULT_BAD_PARAMETER
        else if buffer_end < buf \<or> buffer_end > KERNEL_VIRTUAL_SPACE_START then SYSCALL_RESULT_BAD_PARAMETER
        else SYSCALL_RESULT_OK)"

section \<open>Files\<close>

definition syscall_open :: "'a kernel_sys_scheme \<Rightarrow> (u32 \<times> 'a kernel_sys_scheme) option" where
  "syscall_open s = do {
     pathname \<leftarrow> read_string (SYSCALL_GET_PARAMETER 0 s) s;
     (result, index, s) \<leftarrow> vfs_open (vfs_operations s) (caller_task s) pathname (SYSCALL_GET_PARAMETER 1 s) s;
     if result \<noteq> RESOURCE_RESULT_OK then Some (failure SYSCALL_RESULT_FAIL, s) else Some (index, s)
   }"

text \<open>The index is not tested; a slot outside of the table is a fault.\<close>

definition syscall_close :: "'a kernel_sys_scheme \<Rightarrow> (u32 \<times> 'a kernel_sys_scheme) option" where
  "syscall_close s =
     (let resource_index = SYSCALL_GET_PARAMETER 0 s in
      if resource_index \<ge> TASK_MAX_RESOURCES then None
      else if resources (SYSCALL_TASK s) resource_index = 0 then Some (failure SYSCALL_RESULT_FAIL, s)
      else do {
        (_, s) \<leftarrow> resource_remove vfs_close (caller_task s) resource_index s;
        Some (0, s)
      })"

text \<open>Blocking the caller until the object is ready; the call is then run again.\<close>

definition block_and_retry :: "task_wait_reason_t \<Rightarrow> u32 \<Rightarrow> 'a kernel_sys_scheme \<Rightarrow> (u32 \<times> 'a kernel_sys_scheme) option" where
  "block_and_retry reason object s = do {
     (_, s) \<leftarrow> task_manager_block_task (caller_task s) reason object s;
     (_, s) \<leftarrow> task_manager_yield_current s;
     Some (failure SYSCALL_RESULT_BUSY, upd_caller (\<lambda>t. t\<lparr>syscall_retry := 1\<rparr>) s)
   }"

definition syscall_read :: "'a kernel_sys_scheme \<Rightarrow> (u32 \<times> 'a kernel_sys_scheme) option" where
  "syscall_read s =
     (let resource_index = SYSCALL_GET_PARAMETER 0 s; buf = SYSCALL_GET_PARAMETER 1 s; len = SYSCALL_GET_PARAMETER 2 s in
      if syscall_validate_user_buffer buf len s \<noteq> SYSCALL_RESULT_OK then Some (failure SYSCALL_RESULT_BAD_PARAMETER, s)
      else if resource_index \<ge> TASK_MAX_RESOURCES then Some (failure SYSCALL_RESULT_BAD_PARAMETER, s)
      else let p = resources (SYSCALL_TASK s) resource_index; resource = resource_store s p in
        if p = 0 then Some (failure SYSCALL_RESULT_FAIL, s)
        else if resource_flags resource AND SYSCALL_O_ACCMODE = SYSCALL_O_WRONLY
        then Some (failure SYSCALL_RESULT_BAD_PARAMETER, s)
        else if op_read (operations resource) = 0 then Some (0, s)
        else let (result, read_bytes, s) = vfs_read p (resource_offset resource) buf len s in
          if result = RESOURCE_RESULT_WILL_BLOCK
          then if resource_flags (resource_store s p) AND SYSCALL_O_NONBLOCK \<noteq> 0
               then Some (failure SYSCALL_RESULT_WOULD_BLOCK, upd_caller (\<lambda>t. t\<lparr>syscall_retry := 0\<rparr>) s)
               else block_and_retry TASK_WAIT_REASON_IO (fs_data (vfs_nodes s (resource_data (resource_store s p)))) s
          else let s = upd_caller (\<lambda>t. t\<lparr>syscall_retry := 0\<rparr>) s in
            if result \<noteq> RESOURCE_RESULT_OK then Some (failure SYSCALL_RESULT_FAIL, s)
            else Some (read_bytes, upd_resource p (\<lambda>r. r\<lparr>resource_offset := resource_offset r + read_bytes\<rparr>) s))"

text \<open>How much was written is kept in the task while the call is run again.\<close>

definition syscall_write :: "'a kernel_sys_scheme \<Rightarrow> (u32 \<times> 'a kernel_sys_scheme) option" where
  "syscall_write s =
     (let resource_index = SYSCALL_GET_PARAMETER 0 s; buf = SYSCALL_GET_PARAMETER 1 s; len = SYSCALL_GET_PARAMETER 2 s;
          s = (if syscall_retry (SYSCALL_TASK s) = 0 then upd_caller (\<lambda>t. t\<lparr>write_offset := 0\<rparr>) s else s) in
      if syscall_validate_user_buffer buf len s \<noteq> SYSCALL_RESULT_OK then Some (failure SYSCALL_RESULT_BAD_PARAMETER, s)
      else if resource_index \<ge> TASK_MAX_RESOURCES then Some (failure SYSCALL_RESULT_BAD_PARAMETER, s)
      else let p = resources (SYSCALL_TASK s) resource_index; resource = resource_store s p in
        if p = 0 then Some (failure SYSCALL_RESULT_FAIL, s)
        else if resource_flags resource AND SYSCALL_O_ACCMODE = SYSCALL_O_RDONLY
        then Some (failure SYSCALL_RESULT_BAD_PARAMETER, s)
        else if op_write (operations resource) = 0 then Some (failure SYSCALL_RESULT_FAIL, s)
        else let done = write_offset (SYSCALL_TASK s) in do {
          (result, written_bytes, s) \<leftarrow> vfs_write p (resource_offset resource + done) (buf + done) (len - done) s;
          let s = upd_caller (\<lambda>t. t\<lparr>write_offset := write_offset t + written_bytes\<rparr>) s in
            if result = RESOURCE_RESULT_WILL_BLOCK then block_and_retry TASK_WAIT_REASON_IO p s
            else let s = upd_caller (\<lambda>t. t\<lparr>syscall_retry := 0\<rparr>) s;
                     done = write_offset (SYSCALL_TASK s);
                     s = upd_resource p (\<lambda>r. r\<lparr>resource_offset := resource_offset r + done\<rparr>) s
                 in if result \<noteq> RESOURCE_RESULT_OK \<and> done = 0 then Some (failure SYSCALL_RESULT_FAIL, s)
                    else Some (done, s)
        })"

definition syscall_isatty :: "'a kernel_sys_scheme \<Rightarrow> u32" where
  "syscall_isatty s =
     (let resource_index = SYSCALL_GET_PARAMETER 0 s; p = resources (SYSCALL_TASK s) resource_index in
      if resource_index \<ge> TASK_MAX_RESOURCES then 0
      else if p = 0 then 0
      else if resource_type (resource_store s p) = RESOURCE_TYPE_KEYBOARD \<or> resource_type (resource_store s p) = RESOURCE_TYPE_TERMINAL
      then 1 else 0)"

text \<open>The new offset, in 64-bit arithmetic, or the error.\<close>

definition lseek_target :: "u32 \<Rightarrow> int \<Rightarrow> u32 \<Rightarrow> 'a kernel_sys_scheme \<Rightarrow> syscall_result_t + int" where
  "lseek_target p offset whence s =
     (let resource = resource_store s p in
      if whence = SYSCALL_LSEEK_SET then Inr offset
      else if whence = SYSCALL_LSEEK_CUR then Inr (uint (resource_offset resource) + offset)
      else if whence = SYSCALL_LSEEK_END
      then if resource_type resource \<noteq> RESOURCE_TYPE_FILE then Inl SYSCALL_RESULT_BAD_PARAMETER
           else let (result, file_size) = vfs_get_size (resource_data resource) s in
             if result \<noteq> RESOURCE_RESULT_OK then Inl SYSCALL_RESULT_FAIL else Inr (uint file_size + offset)
      else Inl SYSCALL_RESULT_BAD_PARAMETER)"

definition syscall_lseek :: "'a kernel_sys_scheme \<Rightarrow> u32 \<times> 'a kernel_sys_scheme" where
  "syscall_lseek s =
     (let resource_index = SYSCALL_GET_PARAMETER 0 s; offset = sint (SYSCALL_GET_PARAMETER 1 s);
          whence = SYSCALL_GET_PARAMETER 2 s; p = resources (SYSCALL_TASK s) resource_index in
      if resource_index \<ge> TASK_MAX_RESOURCES then (failure SYSCALL_RESULT_BAD_PARAMETER, s)
      else if p = 0 then (failure SYSCALL_RESULT_FAIL, s)
      else case lseek_target p offset whence s of
          Inl r \<Rightarrow> (failure r, s)
        | Inr new_offset \<Rightarrow>
            if new_offset < 0 then (failure SYSCALL_RESULT_BAD_PARAMETER, s)
            else (word_of_int new_offset, upd_resource p (\<lambda>r. r\<lparr>resource_offset := word_of_int new_offset\<rparr>) s))"

definition syscall_fcntl :: "'a kernel_sys_scheme \<Rightarrow> u32 \<times> 'a kernel_sys_scheme" where
  "syscall_fcntl s =
     (let resource_index = SYSCALL_GET_PARAMETER 0 s; command = SYSCALL_GET_PARAMETER 1 s;
          argument = SYSCALL_GET_PARAMETER 2 s; p = resources (SYSCALL_TASK s) resource_index in
      if resource_index \<ge> TASK_MAX_RESOURCES then (failure SYSCALL_RESULT_BAD_PARAMETER, s)
      else if p = 0 then (failure SYSCALL_RESULT_FAIL, s)
      else if command = SYSCALL_F_GETFL then (resource_flags (resource_store s p), s)
      else if command = SYSCALL_F_SETFL then (0, upd_resource p (\<lambda>r. r\<lparr>resource_flags := argument\<rparr>) s)
      else (failure SYSCALL_RESULT_BAD_PARAMETER, s))"

text \<open>The result of the device is returned as it is, without a sign.\<close>

definition syscall_ioctl :: "'a kernel_sys_scheme \<Rightarrow> u32 \<times> 'a kernel_sys_scheme" where
  "syscall_ioctl s =
     (let resource_index = SYSCALL_GET_PARAMETER 0 s; command = SYSCALL_GET_PARAMETER 1 s;
          argument = SYSCALL_GET_PARAMETER 2 s; p = resources (SYSCALL_TASK s) resource_index in
      if resource_index \<ge> TASK_MAX_RESOURCES then (failure SYSCALL_RESULT_BAD_PARAMETER, s)
      else if p = 0 then (failure SYSCALL_RESULT_FAIL, s)
      else if op_ioctl (operations (resource_store s p)) = 0 then (failure SYSCALL_RESULT_FAIL, s)
      else let (result, s) = vfs_ioctl p command argument s in (resource_result_code result, s))"

definition sizeof_stat :: u32 where "sizeof_stat = 40"
definition S_IFREG :: u32 where "S_IFREG = 0x8000"
definition S_IFDIR :: u32 where "S_IFDIR = 0x4000"
definition S_IFCHR :: u32 where "S_IFCHR = 0x2000"

definition stat_mode :: "vfs_node_type \<Rightarrow> resource_type_t \<Rightarrow> u32" where
  "stat_mode kind resource =
     (if kind = VFS_NODE_TYPE_DIRECTORY then S_IFDIR OR 0x1ED
      else if resource = RESOURCE_TYPE_KEYBOARD \<or> resource = RESOURCE_TYPE_TERMINAL \<or> resource = RESOURCE_TYPE_FRAMEBUFFER
      then S_IFCHR OR 0x1B6 else S_IFREG OR 0x1A4)"

definition syscall_fill_stat :: "vfs_node_type \<Rightarrow> resource_type_t \<Rightarrow> u32 \<Rightarrow> u32 \<Rightarrow> 'a kernel_sys_scheme \<Rightarrow> 'a kernel_sys_scheme" where
  "syscall_fill_stat kind resource size_of_file out s =
     s\<lparr>heap_data := store_u32 (out + 12) 1 (store_u32 (out + 28) size_of_file (store_u32 (out + 8) (stat_mode kind resource)
        (fst (memset (heap_data s) out nul sizeof_stat))))\<rparr>"

definition syscall_fstat :: "'a kernel_sys_scheme \<Rightarrow> u32 \<times> 'a kernel_sys_scheme" where
  "syscall_fstat s =
     (let resource_index = SYSCALL_GET_PARAMETER 0 s; buf = SYSCALL_GET_PARAMETER 1 s;
          p = resources (SYSCALL_TASK s) resource_index; resource = resource_store s p in
      if resource_index \<ge> TASK_MAX_RESOURCES then (failure SYSCALL_RESULT_BAD_PARAMETER, s)
      else if syscall_validate_user_buffer buf sizeof_stat s \<noteq> SYSCALL_RESULT_OK then (failure SYSCALL_RESULT_BAD_PARAMETER, s)
      else if p = 0 then (failure SYSCALL_RESULT_FAIL, s)
      else let (kind, size_of_file) = (if resource_type resource = RESOURCE_TYPE_FILE
             then (node_type (vfs_nodes s (resource_data resource)), snd (vfs_get_size (resource_data resource) s))
             else (VFS_NODE_TYPE_FILE, 0))
           in (0, syscall_fill_stat kind (resource_type resource) size_of_file buf s))"

definition syscall_stat :: "'a kernel_sys_scheme \<Rightarrow> (u32 \<times> 'a kernel_sys_scheme) option" where
  "syscall_stat s =
     (let p = SYSCALL_GET_PARAMETER 0 s; buf = SYSCALL_GET_PARAMETER 1 s in
      if above_user p s then Some (failure SYSCALL_RESULT_BAD_PARAMETER, s)
      else if syscall_validate_user_buffer buf sizeof_stat s \<noteq> SYSCALL_RESULT_OK then Some (failure SYSCALL_RESULT_BAD_PARAMETER, s)
      else do {
        pathname \<leftarrow> read_string p s;
        (result, node, s) \<leftarrow> vfs_resolve pathname s;
        if result \<noteq> RESOURCE_RESULT_OK then Some (failure SYSCALL_RESULT_FAIL, s)
        else let n = vfs_nodes s node;
                 size_of_file = (if node_type n = VFS_NODE_TYPE_FILE then snd (vfs_get_size node s) else 0)
          in do {
            s \<leftarrow> release node (syscall_fill_stat (node_type n) (node_resource_type n) size_of_file buf s);
            Some (0, s)
          }
      })"

definition syscall_link :: "'a kernel_sys_scheme \<Rightarrow> (u32 \<times> 'a kernel_sys_scheme) option" where
  "syscall_link s =
     (let old_path = SYSCALL_GET_PARAMETER 0 s; new_path = SYSCALL_GET_PARAMETER 1 s in
      if above_user old_path s \<or> above_user new_path s then Some (failure SYSCALL_RESULT_BAD_PARAMETER, s)
      else if old_path = 0 \<or> new_path = 0 then Some (failure SYSCALL_RESULT_FAIL, s)
      else do {
        old_name \<leftarrow> read_string old_path s;
        new_name \<leftarrow> read_string new_path s;
        (result, s) \<leftarrow> vfs_link old_name new_name s;
        Some (if result \<noteq> RESOURCE_RESULT_OK then failure SYSCALL_RESULT_FAIL else 0, s)
      })"

definition syscall_unlink :: "'a kernel_sys_scheme \<Rightarrow> (u32 \<times> 'a kernel_sys_scheme) option" where
  "syscall_unlink s =
     (let p = SYSCALL_GET_PARAMETER 0 s in
      if above_user p s then Some (failure SYSCALL_RESULT_BAD_PARAMETER, s)
      else if p = 0 then Some (failure SYSCALL_RESULT_FAIL, s)
      else do {
        pathname \<leftarrow> read_string p s;
        (result, s) \<leftarrow> vfs_unlink pathname s;
        Some (if result \<noteq> RESOURCE_RESULT_OK then failure SYSCALL_RESULT_FAIL else 0, s)
      })"


section \<open>Processes\<close>

definition syscall_fork :: "'a kernel_sys_scheme \<Rightarrow> (u32 \<times> 'a kernel_sys_scheme) option" where
  "syscall_fork s = do {
     (child_task, s) \<leftarrow> task_manager_task_copy (caller_task s) True s;
     (_, s) \<leftarrow> task_manager_add_child_to_task (caller_task s) child_task
       (upd_task child_task (\<lambda>t. t\<lparr>parent := caller_task s\<rparr>) s);
     Some (task_id (tasks s child_task), s)
   }"

definition syscall_execve :: "'a kernel_sys_scheme \<Rightarrow> (u32 \<times> 'a kernel_sys_scheme) option" where
  "syscall_execve s =
     (let p = SYSCALL_GET_PARAMETER 0 s; argv = SYSCALL_GET_PARAMETER 1 s in
      if above_user p s \<or> argv \<noteq> 0 \<and> above_user argv s then Some (failure SYSCALL_RESULT_BAD_PARAMETER, s)
      else do {
        pathname \<leftarrow> (if p = 0 then Some None else map_option Some (read_string p s));
        (result, s) \<leftarrow> elf_load_into_task (elf_header_buffer s) (elf_program_buffer s) (caller_task s) pathname argv s;
        Some (if result \<noteq> ELF_RESULT_OK then failure SYSCALL_RESULT_FAIL else 0, s)
      })"

text \<open>A normal end leaves the code in the second byte of the status.\<close>

definition syscall_exit :: "'a kernel_sys_scheme \<Rightarrow> (u32 \<times> 'a kernel_sys_scheme) option" where
  "syscall_exit s = do {
     (_, s) \<leftarrow> task_manager_exit_task (caller_task s) (push_bit 8 (SYSCALL_GET_PARAMETER 0 s AND 0xFF)) s;
     (_, s) \<leftarrow> task_manager_yield_current s;
     Some (0, s)
   }"

definition waited_child :: "u32 \<Rightarrow> 'a kernel_sys_scheme \<Rightarrow> u32 option" where
  "waited_child pid s =
     (if pid = - 1 then task_manager_find_zombie_child (caller_task s) s
      else do {
        child \<leftarrow> task_manager_find_child (caller_task s) pid s;
        Some (if child \<noteq> 0 \<and> task_state (tasks s child) \<noteq> TASK_STATE_ZOMBIE then 0 else child)
      })"

definition syscall_waitpid :: "'a kernel_sys_scheme \<Rightarrow> (u32 \<times> 'a kernel_sys_scheme) option" where
  "syscall_waitpid s =
     (let pid = SYSCALL_GET_PARAMETER 0 s; result = SYSCALL_GET_PARAMETER 1 s in do {
        child \<leftarrow> waited_child pid s;
        if child = 0
        then do {
          existing_child \<leftarrow> (if pid \<noteq> - 1 then task_manager_find_child (caller_task s) pid s else Some 1);
          if existing_child = 0
          then Some (failure SYSCALL_RESULT_FAIL, upd_caller (\<lambda>t. t\<lparr>syscall_retry := 0\<rparr>) s)
          else block_and_retry TASK_WAIT_REASON_CHILD pid s
        }
        else let code = return_code (tasks s child); child_pid = task_id (tasks s child) in do {
          s \<leftarrow> task_manager_destroy_task vfs_close child s;
          let s = upd_caller (\<lambda>t. t\<lparr>syscall_retry := 0\<rparr>) s
          in Some (child_pid, if result \<noteq> 0 then s\<lparr>heap_data := store_u32 result code (heap_data s)\<rparr> else s)
        }
      })"

section \<open>The heap of the program\<close>

text \<open>Giving back the pages of a heap that could not grow, from the lowest one on.\<close>

definition release_page :: "u32 \<Rightarrow> u32 \<Rightarrow> 'a kernel_sys_scheme \<Rightarrow> 'a kernel_sys_scheme option" where
  "release_page page_directory_phys address s = do {
     (physical, s) \<leftarrow> memory_paging_virtual_to_physical page_directory_phys address s;
     (_, s) \<leftarrow> memory_paging_unmap_current address s;
     Some (if physical \<noteq> 0 then free_frame physical s else s)
   }"

primrec sbrk_map_pages :: "nat \<Rightarrow> u32 \<Rightarrow> u32 \<Rightarrow> u32 \<Rightarrow> 'a kernel_sys_scheme \<Rightarrow> (bool \<times> 'a kernel_sys_scheme) option" where
  "sbrk_map_pages 0 page_directory_phys start_address address s = Some (True, s)"
| "sbrk_map_pages (Suc n) page_directory_phys start_address address s =
     (let (physical, s) = allocate_frame s in
      if physical = 0
      then do {
        s \<leftarrow> for_each (release_page page_directory_phys) (pages_between start_address address) s;
        Some (False, s)
      }
      else do {
        (_, s) \<leftarrow> memory_paging_map_current physical address (PAGE_PRESENT OR PAGE_USER OR PAGE_READ_WRITE) s;
        sbrk_map_pages n page_directory_phys start_address (address + PAGE_SIZE) s
      })"

definition syscall_sbrk_allocate_physical_memory :: "u32 \<Rightarrow> 'a kernel_sys_scheme \<Rightarrow> (u32 \<times> 'a kernel_sys_scheme) option" where
  "syscall_sbrk_allocate_physical_memory bytes s =
     (let bytes_to_allocate = ALIGN_UP bytes; start_address = task_heap_break (SYSCALL_TASK s) in
      if start_address + bytes_to_allocate > USER_HEAP_VIRTUAL_CEILING then Some (0, s)
      else do {
        (mapped, s) \<leftarrow> sbrk_map_pages (unat (bytes_to_allocate div PAGE_SIZE))
          (memory_paging_get_current_page_directory_physical s) start_address start_address s;
        if \<not> mapped then Some (0, s)
        else Some (task_heap_break (SYSCALL_TASK s),
               upd_caller (\<lambda>t. t\<lparr>task_heap_break := task_heap_break t + bytes_to_allocate\<rparr>) s)
      })"

primrec sbrk_unmap_pages :: "nat \<Rightarrow> u32 \<Rightarrow> u32 \<Rightarrow> 'a kernel_sys_scheme \<Rightarrow> 'a kernel_sys_scheme option" where
  "sbrk_unmap_pages 0 page_directory_phys address s = Some s"
| "sbrk_unmap_pages (Suc n) page_directory_phys address s = do {
     s \<leftarrow> release_page page_directory_phys (address - PAGE_SIZE) s;
     sbrk_unmap_pages n page_directory_phys (address - PAGE_SIZE) s
   }"

definition syscall_sbrk_free_physical_memory :: "u32 \<Rightarrow> 'a kernel_sys_scheme \<Rightarrow> 'a kernel_sys_scheme option" where
  "syscall_sbrk_free_physical_memory bytes s =
     (let bytes_to_free = ALIGN_UP bytes in do {
        s \<leftarrow> sbrk_unmap_pages (unat (bytes_to_free div PAGE_SIZE)) (memory_paging_get_current_page_directory_physical s)
          (task_heap_break (SYSCALL_TASK s)) s;
        Some (upd_caller (\<lambda>t. t\<lparr>task_heap_break := task_heap_break t - bytes_to_free\<rparr>) s)
      })"

definition syscall_sbrk :: "'a kernel_sys_scheme \<Rightarrow> (u32 \<times> 'a kernel_sys_scheme) option" where
  "syscall_sbrk s =
     (let delta = sint (SYSCALL_GET_PARAMETER 0 s); current_heap_break = task_heap_break (SYSCALL_TASK s);
          new_break = uint current_heap_break + delta in
      if task_is_user (SYSCALL_TASK s) = 0 then Some (failure SYSCALL_RESULT_FAIL, s)
      else if delta = 0 then Some (current_heap_break, s)
      else if current_heap_break = 0 then Some (failure SYSCALL_RESULT_FAIL, s)
      else if new_break \<ge> uint USER_HEAP_VIRTUAL_CEILING then Some (failure SYSCALL_RESULT_OUT_OF_MEMORY, s)
      else if new_break < uint (task_heap_start (SYSCALL_TASK s)) then Some (failure SYSCALL_RESULT_FAIL, s)
      else if new_break \<ge> uint KERNEL_VIRTUAL_SPACE_START then Some (failure SYSCALL_RESULT_BAD_PARAMETER, s)
      else if delta > 0
      then do {
        (address, s) \<leftarrow> syscall_sbrk_allocate_physical_memory (word_of_int delta) s;
        if address = 0 then Some (failure SYSCALL_RESULT_OUT_OF_MEMORY, s) else Some (current_heap_break, s)
      }
      else do {
        s \<leftarrow> syscall_sbrk_free_physical_memory (word_of_int (- delta)) s;
        Some (current_heap_break, s)
      })"

section \<open>Signals and times\<close>

definition syscall_getpid :: "'a kernel_sys_scheme \<Rightarrow> u32" where
  "syscall_getpid s = task_id (SYSCALL_TASK s)"

definition sizeof_tms :: u32 where "sizeof_tms = 16"

definition syscall_times :: "'a kernel_sys_scheme \<Rightarrow> u32 \<times> 'a kernel_sys_scheme" where
  "syscall_times s =
     (let buf = SYSCALL_GET_PARAMETER 0 s; t = SYSCALL_TASK s in
      if syscall_validate_user_buffer buf sizeof_tms s \<noteq> SYSCALL_RESULT_OK then (failure SYSCALL_RESULT_BAD_PARAMETER, s)
      else (ucast (timer_ticks s), s\<lparr>heap_data := store_u32 (buf + 12) (ucast (child_ticks_system t))
             (store_u32 (buf + 8) (ucast (child_ticks_user t)) (store_u32 (buf + 4) (ucast (ticks_system t))
               (store_u32 buf (ucast (ticks_user t)) (heap_data s))))\<rparr>))"

definition syscall_kill :: "'a kernel_sys_scheme \<Rightarrow> (u32 \<times> 'a kernel_sys_scheme) option" where
  "syscall_kill s =
     (let pid = SYSCALL_GET_PARAMETER 0 s; sig = SYSCALL_GET_PARAMETER 1 s in
      if sint pid \<le> 0 then Some (failure SYSCALL_RESULT_BAD_PARAMETER, s)
      else if sint sig < 0 \<or> sint sig \<ge> uint SYSCALL_NSIG then Some (failure SYSCALL_RESULT_BAD_PARAMETER, s)
      else do {
        target \<leftarrow> task_manager_find_task pid s;
        if target = 0 then Some (failure SYSCALL_RESULT_FAIL, s)
        else if sig = 0 then Some (0, s)
        else if task_state (tasks s target) = TASK_STATE_ZOMBIE \<or> task_state (tasks s target) = TASK_STATE_TERMINATED
        then Some (0, s)
        else let handler = signal_handlers (tasks s target) sig in
          if handler = SYSCALL_SIG_IGN then Some (0, s)
          else if handler = SYSCALL_SIG_DFL
          then do {
            (_, s) \<leftarrow> task_manager_exit_task target (sig AND 0x7F) s;
            s \<leftarrow> (if target = caller_task s then map_option snd (task_manager_yield_current s) else Some s);
            Some (0, s)
          }
          else do {
            s \<leftarrow> (if task_state (tasks s target) = TASK_STATE_BLOCKED
                  then map_option snd (task_manager_unblock_task target s) else Some s);
            s \<leftarrow> task_manager_deliver_signal target sig handler s;
            Some (0, s)
          }
      })"

definition sizeof_sigaction :: u32 where "sizeof_sigaction = 4"

definition syscall_sigaction :: "'a kernel_sys_scheme \<Rightarrow> u32 \<times> 'a kernel_sys_scheme" where
  "syscall_sigaction s =
     (let sig = SYSCALL_GET_PARAMETER 0 s; action = SYSCALL_GET_PARAMETER 1 s; old_action = SYSCALL_GET_PARAMETER 2 s in
      if sint sig \<le> 0 \<or> sint sig \<ge> uint SYSCALL_NSIG then (failure SYSCALL_RESULT_BAD_PARAMETER, s)
      else if sig = SYSCALL_SIGKILL then (failure SYSCALL_RESULT_BAD_PARAMETER, s)
      else if action \<noteq> 0 \<and> syscall_validate_user_buffer action sizeof_sigaction s \<noteq> SYSCALL_RESULT_OK
      then (failure SYSCALL_RESULT_BAD_PARAMETER, s)
      else if old_action \<noteq> 0 \<and> syscall_validate_user_buffer old_action sizeof_sigaction s \<noteq> SYSCALL_RESULT_OK
      then (failure SYSCALL_RESULT_BAD_PARAMETER, s)
      else let s = (if old_action \<noteq> 0
                    then s\<lparr>heap_data := store_u32 old_action (signal_handlers (SYSCALL_TASK s) sig) (heap_data s)\<rparr> else s);
               s = (if action \<noteq> 0
                    then upd_caller (\<lambda>t. t\<lparr>signal_handlers := (signal_handlers t)(sig := load_u32 (heap_data s) action)\<rparr>) s else s)
           in (0, s))"

definition syscall_sigreturn :: "'a kernel_sys_scheme \<Rightarrow> u32 \<times> 'a kernel_sys_scheme" where
  "syscall_sigreturn s =
     (let s = (if in_signal_handler (SYSCALL_TASK s) \<noteq> 0
               then upd_caller (\<lambda>t. t\<lparr>in_signal_handler := 0\<rparr>) (s\<lparr>syscall_frame := saved_signal_frame (SYSCALL_TASK s)\<rparr>)
               else s)
      in (frame_eax (syscall_frame s), s))"

section \<open>The handlers\<close>

text \<open>The call of an index; an unknown index does nothing. The result is stored in \<^verbatim>\<open>eax\<close>.\<close>

definition return_eax :: "(u32 \<times> 'a kernel_sys_scheme) option \<Rightarrow> 'a kernel_sys_scheme option" where
  "return_eax = map_option (\<lambda>(r, s). s\<lparr>syscall_frame := (syscall_frame s)\<lparr>frame_eax := r\<rparr>\<rparr>)"

definition syscall_dispatch :: "u32 \<Rightarrow> 'a kernel_sys_scheme \<Rightarrow> 'a kernel_sys_scheme option" where
  "syscall_dispatch index s =
     (if index = SYSCALL_OPEN then return_eax (syscall_open s)
      else if index = SYSCALL_CLOSE then return_eax (syscall_close s)
      else if index = SYSCALL_READ then return_eax (syscall_read s)
      else if index = SYSCALL_WRITE then return_eax (syscall_write s)
      else if index = SYSCALL_FORK then return_eax (syscall_fork s)
      else if index = SYSCALL_EXECVE
      then do {
        (result, s) \<leftarrow> syscall_execve s;
        Some (s\<lparr>syscall_frame := if result = 0
          then (syscall_frame s)\<lparr>frame_useresp := task_esp (SYSCALL_TASK s), frame_eip := task_init_eip (SYSCALL_TASK s)\<rparr>
          else (syscall_frame s)\<lparr>frame_eax := result\<rparr>\<rparr>)
      }
      else if index = SYSCALL_EXIT then map_option snd (syscall_exit s)
      else if index = SYSCALL_WAITPID then return_eax (syscall_waitpid s)
      else if index = SYSCALL_SBRK then return_eax (syscall_sbrk s)
      else if index = SYSCALL_GETPID then return_eax (Some (syscall_getpid s, s))
      else if index = SYSCALL_ISATTY then return_eax (Some (syscall_isatty s, s))
      else if index = SYSCALL_LSEEK then return_eax (Some (syscall_lseek s))
      else if index = SYSCALL_FCNTL then return_eax (Some (syscall_fcntl s))
      else if index = SYSCALL_IOCTL then return_eax (Some (syscall_ioctl s))
      else if index = SYSCALL_FSTAT then return_eax (Some (syscall_fstat s))
      else if index = SYSCALL_STAT then return_eax (syscall_stat s)
      else if index = SYSCALL_LINK then return_eax (syscall_link s)
      else if index = SYSCALL_UNLINK then return_eax (syscall_unlink s)
      else if index = SYSCALL_TIMES then return_eax (Some (syscall_times s))
      else if index = SYSCALL_KILL then return_eax (syscall_kill s)
      else if index = SYSCALL_SIGACTION then return_eax (Some (syscall_sigaction s))
      else if index = SYSCALL_SIGRETURN then return_eax (Some (syscall_sigreturn s))
      else Some s)"

definition execution_of :: "register_interrupt_data_t \<Rightarrow> syscall_execution_t \<Rightarrow> syscall_execution_t" where
  "execution_of data e = \<lparr>syscall_index = frame_eax data, parameters = (parameters e)(0 := frame_ebx data, 1 := frame_ecx data,
     2 := frame_edx data, 3 := frame_esi data, 4 := frame_edi data, 5 := 0)\<rparr>"

definition syscall_handler :: "register_interrupt_data_t \<Rightarrow> 'a kernel_sys_scheme \<Rightarrow> (register_interrupt_data_t \<times> 'a kernel_sys_scheme) option" where
  "syscall_handler data s =
     (let s = s\<lparr>caller_task := task_current s, syscall_frame := data, register_data_set := True\<rparr> in
      if caller_task s = 0 then None
      else let s = (if syscall_retry (SYSCALL_TASK s) = 0
                    then upd_caller (\<lambda>t. t\<lparr>syscall_execution := execution_of data (syscall_execution t)\<rparr>) s else s)
        in do {
          s \<leftarrow> syscall_dispatch (syscall_index (syscall_execution (SYSCALL_TASK s))) s;
          Some (syscall_frame s, s)
        })"


section \<open>Exceptions\<close>

definition SYSCALL_SIGILL :: u32 where "SYSCALL_SIGILL = 4"
definition SYSCALL_SIGTRAP :: u32 where "SYSCALL_SIGTRAP = 5"
definition SYSCALL_SIGABRT :: u32 where "SYSCALL_SIGABRT = 6"
definition SYSCALL_SIGBUS :: u32 where "SYSCALL_SIGBUS = 7"
definition SYSCALL_SIGFPE :: u32 where "SYSCALL_SIGFPE = 8"
definition SYSCALL_SIGSEGV :: u32 where "SYSCALL_SIGSEGV = 11"

definition exception_signals :: "u32 list" where
  "exception_signals =
     [SYSCALL_SIGFPE, SYSCALL_SIGTRAP, SYSCALL_SIGABRT, SYSCALL_SIGTRAP, SYSCALL_SIGFPE, SYSCALL_SIGSEGV, SYSCALL_SIGILL,
      SYSCALL_SIGFPE, SYSCALL_SIGABRT, SYSCALL_SIGFPE, SYSCALL_SIGSEGV, SYSCALL_SIGBUS, SYSCALL_SIGBUS, SYSCALL_SIGSEGV,
      SYSCALL_SIGSEGV, SYSCALL_SIGABRT, SYSCALL_SIGFPE, SYSCALL_SIGBUS, SYSCALL_SIGABRT, SYSCALL_SIGFPE, SYSCALL_SIGSEGV,
      SYSCALL_SIGABRT, SYSCALL_SIGABRT, SYSCALL_SIGABRT, SYSCALL_SIGABRT, SYSCALL_SIGABRT, SYSCALL_SIGABRT, SYSCALL_SIGABRT,
      SYSCALL_SIGABRT, SYSCALL_SIGABRT, SYSCALL_SIGABRT, SYSCALL_SIGABRT]"

definition line_feed :: char where "line_feed = CHR 0x0A"

definition exception_format :: "char list" where
  "exception_format = line_feed # line_feed # ''Exception #%x: Error Code: %x'' @ line_feed # ''Registers:'' @ line_feed #
     ''gs = %x, fs = %x, es = %x, ds = %x'' @ line_feed #
     ''edi = %x, esi = %x, ebp = %x, ebx = %x, edx = %x, ecx = %x, eax = %x'' @ line_feed #
     ''eip = %x, cs = %x, eflags = %x, useresp = %x, ss = %x''"

definition exception_arguments :: "register_interrupt_data_t \<Rightarrow> va_arg list" where
  "exception_arguments f = map Va_int [interrupt_index f, error_code f, frame_gs f, frame_fs f, frame_es f, frame_ds f,
     frame_edi f, frame_esi f, frame_ebp f, frame_ebx f, frame_edx f, frame_ecx f, frame_eax f, frame_eip f, frame_cs f,
     frame_eflags f, frame_useresp f, frame_ss f]"

text \<open>\<^verbatim>\<open>printf\<close> on the terminal of the kernel; its buffer starts with the bytes \<open>garbage\<close> of the stack.\<close>

definition kernel_printf :: "(nat \<Rightarrow> char) \<Rightarrow> char list \<Rightarrow> va_arg list \<Rightarrow> 'a kernel_io_scheme \<Rightarrow> 'a kernel_io_scheme option" where
  "kernel_printf garbage fmt args s = do {
     (_, t, d) \<leftarrow> printf framebuffer_driver garbage fmt args (terminal s) (framebuffer s);
     Some (s\<lparr>terminal := t, framebuffer := d\<rparr>)
   }"

datatype 's isr_outcome = Halts 's | Returns register_interrupt_data_t 's

text \<open>
  An exception in user mode is turned into a signal: the handler of the task gets it, or the task
  ends. In the kernel it stops the machine. The signal is delivered through
  \<^verbatim>\<open>syscall.current_register_data\<close>, which is \<^verbatim>\<open>NULL\<close> before the first system call.
\<close>

definition isr_handler ::
    "(nat \<Rightarrow> char) \<Rightarrow> register_interrupt_data_t \<Rightarrow> 'a kernel_sys_scheme \<Rightarrow> 'a kernel_sys_scheme isr_outcome option" where
  "isr_handler garbage data s =
     (if interrupt_index data < PIC1_REMAPPED_VECTOR
      then if frame_cs data AND 3 \<noteq> 3
           then map_option Halts (kernel_printf garbage exception_format (exception_arguments data) s)
           else let faulting_task = task_current s in
             if faulting_task = 0 then Some (Returns data s)
             else let sig = exception_signals ! unat (interrupt_index data);
                      handler = signal_handlers (tasks s faulting_task) sig in
               if handler \<noteq> SYSCALL_SIG_DFL \<and> handler \<noteq> SYSCALL_SIG_IGN
               then if \<not> register_data_set s then None
                    else do {
                      s \<leftarrow> task_manager_deliver_signal faulting_task sig handler (s\<lparr>syscall_frame := data\<rparr>);
                      Some (Returns (syscall_frame s) s)
                    }
               else do {
                 s \<leftarrow> kernel_printf garbage exception_format (exception_arguments data) s;
                 s \<leftarrow> kernel_printf garbage (line_feed # ''[terminating user task]'' @ [line_feed]) [] s;
                 (_, s) \<leftarrow> task_manager_exit_task faulting_task (sig AND 0x7F) s;
                 (_, s) \<leftarrow> task_manager_yield_current s;
                 Some (Returns data s)
               }
      else if uint (interrupt_index data) = IDT_SYSCALL
      then map_option (\<lambda>(d, s). Returns d s) (syscall_handler data s)
      else Some (Returns data s))"

end
