(* ===== verification/Ustar.thy ===== *)
theory Ustar
  imports Vfs Task_Stacks
begin

text \<open>
  The initial archive, \<^verbatim>\<open>src/fs/ustar.c\<close>: a tar archive in memory is read header by header, and each
  entry becomes a directory or a file of the ram file system; \<^verbatim>\<open>ramfs_driver_init\<close> of
  \<^verbatim>\<open>src/fs/ramfs.c\<close> brings the archive of the boot loader into the heap. The loop over the headers
  may run forever on a bad archive, as the sizes in the headers can take the pointer back.
\<close>

unbundle bit_operations_syntax

section \<open>Operations\<close>

definition TAR_BLOCK_SIZE :: u32 where "TAR_BLOCK_SIZE = 512"

text \<open>The header of an entry: the fields that the code reads, with their offsets in the block.\<close>

definition tar_name :: u32 where "tar_name = 0"
definition tar_size :: u32 where "tar_size = 124"
definition tar_type :: u32 where "tar_type = 156"
definition tar_filename_prefix :: u32 where "tar_filename_prefix = 345"

definition is_octal :: "char \<Rightarrow> bool" where
  "is_octal c \<longleftrightarrow> of_char (CHR ''0'') \<le> (of_char c :: nat) \<and> (of_char c :: nat) \<le> of_char (CHR ''7'')"

primrec octal_loop :: "cmem \<Rightarrow> u32 \<Rightarrow> nat \<Rightarrow> u32 \<Rightarrow> u32" where
  "octal_loop m text 0 value = value"
| "octal_loop m text (Suc n) value =
     (if \<not> is_octal (m text) then value
      else octal_loop m (text + 1) n (push_bit 3 value + (of_char (m text) - of_char (CHR ''0''))))"

definition tar_get_size_from_octal :: "cmem \<Rightarrow> u32 \<Rightarrow> nat \<Rightarrow> u32" where
  "tar_get_size_from_octal m text n = octal_loop m text n 0"

definition tar_is_zero_block :: "cmem \<Rightarrow> u32 \<Rightarrow> bool" where
  "tar_is_zero_block m p \<longleftrightarrow> (\<forall>c \<in> set (bytes_at m p (unat TAR_BLOCK_SIZE)). c = nul)"

text \<open>
  The path of an entry. A name is read up to its zero or up to the size of the buffer; a name without
  a zero runs on into the fields that follow it.
\<close>

definition name_at :: "cmem \<Rightarrow> u32 \<Rightarrow> nat \<Rightarrow> char list" where
  "name_at m p n = takeWhile (\<lambda>c. c \<noteq> nul) (bytes_at m p n)"

definition tar_build_path :: "nat \<Rightarrow> cmem \<Rightarrow> u32 \<Rightarrow> u32 \<Rightarrow> char list" where
  "tar_build_path dst_size m prefix name =
     (let p = name_at m prefix (dst_size - 1);
          p = (if p \<noteq> [] \<and> length p + 1 < dst_size then p @ [slash] else p)
      in p @ name_at m name (dst_size - 1 - length p))"

definition full_name :: "cmem \<Rightarrow> u32 \<Rightarrow> char list" where
  "full_name m header =
     (if m (header + tar_filename_prefix) \<noteq> nul
      then tar_build_path VFS_NODE_NAME_LENGTH m (header + tar_filename_prefix) (header + tar_name)
      else name_at m (header + tar_name) (VFS_NODE_NAME_LENGTH - 1))"

definition strip_slash :: "char list \<Rightarrow> char list" where
  "strip_slash p = (if p \<noteq> [] \<and> last p = slash then butlast p else p)"

definition entry_path :: "char list \<Rightarrow> char list" where
  "entry_path p = (if p \<noteq> [] \<and> hd p = CHR ''.'' then tl p else p)"

text \<open>
  The data of a file; a file that could not be created is a fault, as its pointer is not set, and so
  is one whose block could not be taken.
\<close>

definition fill_file :: "u32 \<Rightarrow> u32 \<Rightarrow> u32 \<Rightarrow> 'a kernel_fs_scheme \<Rightarrow> 'a kernel_fs_scheme option" where
  "fill_file node header file_size s =
     (let s = upd_ramfs node (\<lambda>n. n\<lparr>ramfs_data_size := file_size\<rparr>) s in
      if file_size = 0 then Some s
      else do {
        (data, s) \<leftarrow> kernel_heap_calloc file_size s;
        if data = 0 then None
        else Some (upd_ramfs node (\<lambda>n. n\<lparr>ramfs_data := data\<rparr>)
               (s\<lparr>heap_data := fst (memcpy (heap_data s) data (header + TAR_BLOCK_SIZE) file_size)\<rparr>))
      })"

definition tar_entry :: "u32 \<Rightarrow> u32 \<Rightarrow> 'a kernel_fs_scheme \<Rightarrow> 'a kernel_fs_scheme option" where
  "tar_entry root header s =
     (let m = heap_data s;
          file_size = tar_get_size_from_octal m (header + tar_size) 12;
          name = full_name m header;
          pathname = entry_path name
      in if pathname = [] \<or> pathname = [slash] then Some s
         else if m (header + tar_type) = CHR ''5''
         then map_option (\<lambda>(_, _, s). s) (ramfs_create_path root (entry_path (strip_slash name)) VFS_NODE_TYPE_DIRECTORY s)
         else do {
           (result, node, s) \<leftarrow> ramfs_create_path root pathname VFS_NODE_TYPE_FILE s;
           if result \<noteq> RAMFS_RESULT_OK then None else fill_file node header file_size s
         })"

definition entry_bytes :: "cmem \<Rightarrow> u32 \<Rightarrow> u32" where
  "entry_bytes m header =
     (let file_size = tar_get_size_from_octal m (header + tar_size) 12;
          blocks = (file_size + TAR_BLOCK_SIZE - 1) div TAR_BLOCK_SIZE
      in TAR_BLOCK_SIZE + blocks * TAR_BLOCK_SIZE)"

partial_function (option) tar_loop :: "u32 \<Rightarrow> u32 \<Rightarrow> u32 \<Rightarrow> 'a kernel_fs_scheme \<Rightarrow> 'a kernel_fs_scheme option" where
  "tar_loop root ptr stop s =
     (if ptr + TAR_BLOCK_SIZE > stop then Some s
      else if tar_is_zero_block (heap_data s) ptr then Some s
      else let following = ptr + entry_bytes (heap_data s) ptr in do {
        s \<leftarrow> tar_entry root ptr s;
        tar_loop root following stop s
      })"

definition tar_create_ramfs_node :: "u32 \<Rightarrow> u32 \<Rightarrow> 'a kernel_fs_scheme \<Rightarrow> (u32 \<times> 'a kernel_fs_scheme) option" where
  "tar_create_ramfs_node tar_data tar_bytes s = do {
     (result, root, s) \<leftarrow> ramfs_create_node [slash] VFS_NODE_TYPE_DIRECTORY 0 9 s;
     if result \<noteq> RAMFS_RESULT_OK then Some (0, s)
     else do {
       s \<leftarrow> tar_loop root tar_data (tar_data + tar_bytes) s;
       Some (root, s)
     }
   }"

section \<open>The archive of the boot loader\<close>

text \<open>
  The archive is copied page by page out of the frames where the boot loader left it, each shown by
  a bounce page, and the frames are given back. The bytes read through the bounce page are those of
  the frame.
\<close>

definition window_bytes :: "u32 \<Rightarrow> nat \<Rightarrow> 'a machine_scheme \<Rightarrow> char list option" where
  "window_bytes va n s = those (map (\<lambda>i. do {
       w \<leftarrow> vread ((va + of_nat i) AND NOT 3) s;
       Some (char_of (unat (get_byte w (unat ((va + of_nat i) AND 3)))))
     }) [0..<n])"

definition copy_initrd_page ::
    "u32 \<Rightarrow> u32 \<Rightarrow> u32 \<Rightarrow> u32 \<Rightarrow> u32 \<times> 'a heap_machine_scheme \<Rightarrow> (u32 \<times> 'a heap_machine_scheme) option" where
  "copy_initrd_page tar_data first stop page = (\<lambda>(copied, s).
     let chunk_start = (if page < first then first else page);
         chunk_end = (if page + PAGE_SIZE > stop then stop else page + PAGE_SIZE);
         chunk_len = chunk_end - chunk_start
     in do {
       (bounce, s) \<leftarrow> bounce_alloc page s;
       bs \<leftarrow> window_bytes (bounce + (chunk_start - page)) (unat chunk_len) s;
       s \<leftarrow> bounce_free bounce (s\<lparr>heap_data := fold (\<lambda>(i, c) m. m(tar_data + copied + of_nat i := c)) (enumerate 0 bs) (heap_data s)\<rparr>);
       Some (copied + chunk_len, free_frame page s)
     })"

partial_function (option) copy_initrd ::
    "u32 \<Rightarrow> u32 \<Rightarrow> u32 \<Rightarrow> u32 \<Rightarrow> u32 \<times> 'a heap_machine_scheme \<Rightarrow> (u32 \<times> 'a heap_machine_scheme) option" where
  "copy_initrd tar_data first stop page cs =
     (if page < stop
      then do {
        cs \<leftarrow> copy_initrd_page tar_data first stop page cs;
        copy_initrd tar_data first stop (page + PAGE_SIZE) cs
      }
      else Some cs)"

text \<open>The first module of the boot loader; without one the code reads past the list.\<close>

definition ramfs_driver_init :: "'m multiboot_info_t_scheme \<Rightarrow> 'a kernel_fs_scheme \<Rightarrow> 'a kernel_fs_scheme option" where
  "ramfs_driver_init multiboot s =
     (case mods multiboot of [] \<Rightarrow> None
      | initrd # _ \<Rightarrow>
          let tar_bytes = mod_end initrd - mod_start initrd; s = s\<lparr>ramfs_last_index := 0\<rparr> in do {
            (tar_data, s) \<leftarrow> kernel_heap_malloc tar_bytes s;
            (_, s) \<leftarrow> copy_initrd tar_data (mod_start initrd) (mod_end initrd) (ALIGN_DOWN (mod_start initrd)) (0, s);
            (root, s) \<leftarrow> tar_create_ramfs_node tar_data tar_bytes s;
            Some (s\<lparr>ramfs_root := root\<rparr>)
          })"

end
