(* ===== verification/Boot.thy ===== *)
theory Boot
  imports Bootstrap Syscalls Ustar
begin

text \<open>
  The start of the kernel, \<^verbatim>\<open>src/kernel.c\<close>: every module is initialised in turn and the first program is
  started. Addresses that the linker gives are the fields of \<open>link_map\<close>.
\<close>

unbundle bit_operations_syntax

section \<open>The kernel\<close>

record link_map =
  kernel_physical_start :: u32
  kernel_physical_end :: u32
  gdt_address :: u32
  tss_address :: u32
  idt_address :: u32
  isr_stubs :: "int \<Rightarrow> u32"
  isr_syscall :: u32
  irq_stubs :: "int \<Rightarrow> u32"
  idle_task :: u32
  init_argv :: u32

record ('s) tables =
  gdt :: gdt_t
  tss :: tss_entry_t
  idt :: idt_t
  irq :: "'s irq_t"
  cpu :: cpu_tables
  ports :: port_trace
  vga :: vga_t

text \<open>The descriptor tables, the interrupt controller and the timer.\<close>

definition initialize_tables :: "link_map \<Rightarrow> 'a kernel_scheme tables \<Rightarrow> 'a kernel_scheme tables option" where
  "initialize_tables l b =
     (let b = b\<lparr>vga := snd (snd (vga_create (vga b)))\<rparr> in do {
        (_, g, c) \<leftarrow> gdt_create (gdt_address l) (tss_address l) (gdt b, cpu b);
        let (t, c) = tss_module_init (tss b, c); trace = pic_module_init (ports b) in do {
          (_, i, c) \<leftarrow> idt_create (idt_address l) (isr_stubs l) (isr_syscall l) (idt b, c);
          (q, i) \<leftarrow> irq_module_init (irq_stubs l) (irq b) i;
          let (_, q, trace) = timer_module_init q trace
          in Some (b\<lparr>gdt := g, tss := t, idt := i, irq := q, cpu := c, ports := trace\<rparr>)
        }
      })"

text \<open>The terminal with its buffer in the heap.\<close>

definition terminal_module_init :: "'a kernel_io_scheme \<Rightarrow> 'a kernel_io_scheme option" where
  "terminal_module_init s =
     (let (w, h) = framebuffer_get_dimensions (framebuffer s) in do {
        (block, s) \<leftarrow> kernel_heap_calloc (w * h) s;
        (_, t, fb) \<leftarrow> terminal_create framebuffer_driver (framebuffer s);
        Some (s\<lparr>terminal := t, framebuffer := fb\<rparr>)
      })"

text \<open>The three files of the first program; their results are ignored.\<close>

definition open_standard_files :: "'a kernel_sys_scheme \<Rightarrow> 'a kernel_sys_scheme option" where
  "open_standard_files s = do {
     (_, _, s) \<leftarrow> vfs_open (vfs_operations s) (task_init s) ''/dev/keyboard'' SYSCALL_O_RDONLY s;
     (_, _, s) \<leftarrow> vfs_open (vfs_operations s) (task_init s) ''/dev/terminal'' SYSCALL_O_WRONLY s;
     (_, _, s) \<leftarrow> vfs_open (vfs_operations s) (task_init s) ''/dev/terminal'' SYSCALL_O_WRONLY s;
     Some s
   }"

definition kernel_initialize ::
    "link_map \<Rightarrow> (u16 \<Rightarrow> u8) \<Rightarrow> multiboot_framebuffer \<Rightarrow> 'a kernel_sys_scheme tables \<Rightarrow> 'a kernel_sys_scheme \<Rightarrow>
      ('a kernel_sys_scheme tables \<times> 'a kernel_sys_scheme) option" where
  "kernel_initialize l io_inb multiboot b s =
     (let s = s\<lparr>memory_bitmap := memory_bitmap_module_init (entries (memory_bitmap s)) (kernel_physical_start l)
                 (kernel_physical_end l) (multiboot_info_t.truncate multiboot)\<rparr> in do {
        s \<leftarrow> memory_paging_module_init s;
        let s = kernel_heap_module_init s in do {
          b \<leftarrow> initialize_tables l b;
          s \<leftarrow> task_manager_module_init (idle_task l) s;
          (fb, s) \<leftarrow> framebuffer_driver_init multiboot (framebuffer s) s;
          s \<leftarrow> ramfs_driver_init multiboot (s\<lparr>framebuffer := fb\<rparr>);
          s \<leftarrow> vfs_module_init s;
          s \<leftarrow> devfs_module_init s;
          s \<leftarrow> terminal_module_init s;
          let (_, q) = keyboard_driver_init io_inb (irq b) in do {
            (_, task, s) \<leftarrow> elf_load_and_execute (elf_header_buffer s) (elf_program_buffer s) (Some ''/bin/init.elf'') (init_argv l) s;
            s \<leftarrow> open_standard_files (s\<lparr>task_init := task\<rparr>);
            Some (b\<lparr>irq := q\<rparr>, s)
          }
        }
      })"

end
