(* ===== verification/Task_Tree.thy ===== *)
theory Task_Tree
  imports Tasks
begin

text \<open>
  The tree of tasks of \<^verbatim>\<open>src/task_manager.c\<close>. The children of a task are a doubly linked list of nodes
  in the heap; the operations on it refine those of a list of tasks. The search for a task visits the
  tree in preorder. A task that ends becomes a zombie, leaves its children to the first task and
  wakes a parent that waits for it.
\<close>

section \<open>The children of a task as a list\<close>

definition child_prev :: "'a kernel_scheme \<Rightarrow> u32 \<Rightarrow> u32" where
  "child_prev s p = node_previous (task_nodes s p)"

definition child_at :: "'a kernel_scheme \<Rightarrow> u32 \<Rightarrow> u32" where
  "child_at s p = node_task (task_nodes s p)"

definition child_list :: "'a kernel_scheme \<Rightarrow> u32 \<Rightarrow> u32 list \<Rightarrow> bool" where
  "child_list s par ns \<longleftrightarrow> path (child_links s) (children (tasks s par)) ns \<and> back_links (child_prev s) 0 ns \<and>
     children_tail (tasks s par) = last (0 # ns)"

lemma child_listD:
  assumes "child_list s par ns"
  shows "path (child_links s) (children (tasks s par)) ns" "back_links (child_prev s) 0 ns"
    "children_tail (tasks s par) = last (0 # ns)" "distinct ns" "0 \<notin> set ns"
    "children (tasks s par) = 0 \<longleftrightarrow> ns = []"
proof -
  show p: "path (child_links s) (children (tasks s par)) ns" and "back_links (child_prev s) 0 ns"
    "children_tail (tasks s par) = last (0 # ns)" using assms by (simp_all add: child_list_def)
  show "distinct ns" "0 \<notin> set ns" using p path_distinct path_no_NULL by blast+
  show "children (tasks s par) = 0 \<longleftrightarrow> ns = []" using p by (cases ns) auto
qed

lemma upd_task_node_simps [simp]:
  "tasks (upd_task_node p f s) = tasks s" "task_nodes (upd_task_node p f s) = (task_nodes s)(p := f (task_nodes s p))"
  "task_nodes (upd_task t g s) = task_nodes s" "child_links (upd_task t g s) = child_links s"
  "child_prev (upd_task t g s) = child_prev s" "child_at (upd_task t g s) = child_at s"
  by (simp_all add: upd_task_node_def upd_task_def child_links_def child_prev_def child_at_def fun_eq_iff)

lemma child_fields_upd [simp]:
  "child_links (upd_task_node p f s) = (child_links s)(p := node_next (f (task_nodes s p)))"
  "child_prev (upd_task_node p f s) = (child_prev s)(p := node_previous (f (task_nodes s p)))"
  "child_at (upd_task_node p f s) = (child_at s)(p := node_task (f (task_nodes s p)))"
  by (simp_all add: child_links_def child_prev_def child_at_def fun_eq_iff)

lemma same_heap_upd [simp]:
  "same_heap s (upd_task t f s)" "same_heap s (upd_task_node p g s)" "same_heap s (s\<lparr>task_nodes := N\<rparr>)"
  by (simp_all add: same_heap_def upd_task_def upd_task_node_def)

lemma child_list_cong:
  assumes "\<And>n. n \<in> set ns \<Longrightarrow> task_nodes s' n = task_nodes s n"
    "children (tasks s' par) = children (tasks s par)" "children_tail (tasks s' par) = children_tail (tasks s par)"
  shows "child_list s' par ns = child_list s par ns"
proof -
  have "path (child_links s') q ns = path (child_links s) q ns" for q
    using assms(1) by (intro path_cong) (simp add: child_links_def)
  moreover have "back_links (child_prev s') q ns = back_links (child_prev s) q ns" for q
    using assms(1) by (intro back_links_cong) (simp add: child_prev_def)
  ultimately show ?thesis using assms(2,3) by (simp add: child_list_def)
qed

text \<open>The lists \<open>N\<close> of the children of the tasks \<open>T\<close>; no block is a node of two lists.\<close>

definition family :: "'a kernel_scheme \<Rightarrow> u32 set \<Rightarrow> (u32 \<Rightarrow> u32 list) \<Rightarrow> bool" where
  "family s T N \<longleftrightarrow> kernel_heap_ready s \<and> separate s (\<Union>p \<in> T. set (N p)) \<and> (\<forall>p \<in> T. child_list s p (N p)) \<and>
     (\<forall>p \<in> T. \<forall>q \<in> T. p \<noteq> q \<longrightarrow> set (N p) \<inter> set (N q) = {})"

definition child_tasks :: "'a kernel_scheme \<Rightarrow> u32 list \<Rightarrow> u32 list" where
  "child_tasks s ns = map (child_at s) ns"

lemma familyD:
  assumes "family s T N"
  shows "kernel_heap_ready s" "separate s (\<Union>p \<in> T. set (N p))" "p \<in> T \<Longrightarrow> child_list s p (N p)"
    "p \<in> T \<Longrightarrow> q \<in> T \<Longrightarrow> p \<noteq> q \<Longrightarrow> set (N p) \<inter> set (N q) = {}"
  using assms by (auto simp: family_def)

text \<open>Changing the list of one task only.\<close>

lemma family_update:
  assumes F: "family s T N" and p: "p \<in> T" "child_list s' p ns"
    and h: "kernel_heap_ready s'" "separate s' (set ns \<union> (\<Union>q \<in> T - {p}. set (N q)))"
    and new: "\<forall>q \<in> T - {p}. set ns \<inter> set (N q) = {}"
    and keep: "\<And>q n. q \<in> T \<Longrightarrow> q \<noteq> p \<Longrightarrow> n \<in> set (N q) \<Longrightarrow> task_nodes s' n = task_nodes s n"
      "\<And>q. q \<in> T \<Longrightarrow> q \<noteq> p \<Longrightarrow> children (tasks s' q) = children (tasks s q) \<and> children_tail (tasks s' q) = children_tail (tasks s q)"
  shows "family s' T (N(p := ns))"
  unfolding family_def
proof (intro conjI ballI impI)
  have "(\<Union>q \<in> T. set ((N(p := ns)) q)) = set ns \<union> (\<Union>q \<in> T - {p}. set (N q))" using p(1) by (auto split: if_splits)
  then show "separate s' (\<Union>q \<in> T. set ((N(p := ns)) q))" using h(2) by simp
  show "child_list s' q ((N(p := ns)) q)" if "q \<in> T" for q
  proof (cases "q = p")
    case True
    then show ?thesis using p by simp
  next
    case False
    then show ?thesis using child_list_cong [of "N q" s' s q] keep that familyD(3) [OF F that] by simp
  qed
  show "set ((N(p := ns)) q) \<inter> set ((N(p := ns)) r) = {}" if "q \<in> T" "r \<in> T" "q \<noteq> r" for q r
    using that new familyD(4) [OF F, of q r] by auto
qed (rule h(1))

lemma more_nodes:
  fixes s s' :: "'a kernel_scheme"
  assumes "heap_machine.more s' = heap_machine.more s"
  shows "task_nodes s' = task_nodes s" "task_init s' = task_init s"
    "child_links s' = child_links s" "child_prev s' = child_prev s" "child_at s' = child_at s"
  using assms by (cases s; cases s'; simp add: child_links_def child_prev_def child_at_def fun_eq_iff)+

definition append_child :: "u32 \<Rightarrow> u32 list \<Rightarrow> u32 \<Rightarrow> 'a kernel_scheme \<Rightarrow> 'a kernel_scheme" where
  "append_child par ns n s =
     (if ns = [] then upd_task par (\<lambda>t. t\<lparr>children := n, children_tail := n\<rparr>) s
      else upd_task par (\<lambda>t. t\<lparr>children_tail := n\<rparr>) (upd_task_node (last ns) (\<lambda>m. m\<lparr>node_next := n\<rparr>) s))"

lemma append_child_simps:
  "same_heap s (append_child par ns n s)" "child_at (append_child par ns n s) = child_at s"
  "m \<notin> set ns \<Longrightarrow> task_nodes (append_child par ns n s) m = task_nodes s m"
  "q \<noteq> par \<Longrightarrow> tasks (append_child par ns n s) q = tasks s q"
  "\<exists>c e. tasks (append_child par ns n s) q = (tasks s q)\<lparr>children := c, children_tail := e\<rparr>"
proof -
  show "same_heap s (append_child par ns n s)"
    by (simp add: append_child_def same_heap_def upd_task_def upd_task_node_def)
  show "child_at (append_child par ns n s) = child_at s"
    by (simp add: append_child_def) (simp add: fun_eq_iff child_at_def)
  show "m \<notin> set ns \<Longrightarrow> task_nodes (append_child par ns n s) m = task_nodes s m"
    by (auto simp: append_child_def)
  show "q \<noteq> par \<Longrightarrow> tasks (append_child par ns n s) q = tasks s q" by (simp add: append_child_def)
  show "\<exists>c e. tasks (append_child par ns n s) q = (tasks s q)\<lparr>children := c, children_tail := e\<rparr>"
    by (cases "tasks s q") (auto simp: append_child_def)
qed

lemma child_list_add:
  assumes "child_list s par ns" "n \<notin> set ns" "n \<noteq> 0" "child_links s n = 0" "child_prev s n = last (0 # ns)"
  shows "child_list (append_child par ns n s) par (ns @ [n])"
proof (cases "ns = []")
  case True
  then show ?thesis using assms by (simp add: child_list_def append_child_def)
next
  case False
  note D = child_listD [OF assms(1)]
  have "path ((child_links s)(last ns := n)) (children (tasks s par)) (ns @ [n])" "back_links (child_prev s) 0 (ns @ [n])"
    using path_snoc [OF D(1) False assms(2,3,4)] D(2) assms(5) False by (simp_all add: back_links_append)
  moreover have "(child_prev s)(last ns := node_previous (task_nodes s (last ns))) = child_prev s"
    by (simp add: child_prev_def fun_eq_iff)
  ultimately show ?thesis using False by (simp add: child_list_def append_child_def)
qed

lemma add_child_run:
  assumes L: "child_list s par ns"
    and M: "kernel_heap_malloc sizeof_task_node_t s = Some (n, s1)" "n \<noteq> 0" "heap_machine.more s1 = heap_machine.more s"
  shows "task_manager_add_child_to_task par child s = Some (TASK_MANAGER_RESULT_OK, append_child par ns n
    (s1\<lparr>task_nodes := (task_nodes s)(n := \<lparr>node_task = child, node_next = 0, node_previous = last (0 # ns)\<rparr>)\<rparr>))"
proof -
  note D = child_listD [OF L] and K = more_kernel [OF M(3)] more_nodes [OF M(3)]
  have l: "last ns \<noteq> 0" if "ns \<noteq> []" using that D(5) last_in_set by metis
  show ?thesis
    using D(3,6) l by (simp add: task_manager_add_child_to_task_def M(1,2) K append_child_def)
qed

lemma add_child_result:
  assumes F: "family s T N" and p: "par \<in> T"
  obtains (nomem) s' where "kernel_heap_malloc sizeof_task_node_t s = Some (0, s')" "task_manager_add_child_to_task par child s = None"
  | (added) n s' where "task_manager_add_child_to_task par child s = Some (TASK_MANAGER_RESULT_OK, s')"
      "n \<noteq> 0" "\<forall>q \<in> T. n \<notin> set (N q)" "family s' T (N(par := N par @ [n]))" "child_at s' = (child_at s)(n := child)"
      "\<forall>q. \<exists>c e. tasks s' q = (tasks s q)\<lparr>children := c, children_tail := e\<rparr>"
proof -
  have f: "heap_request_fits sizeof_task_node_t" "sizeof_task_node_t \<noteq> 0"
    by (simp_all add: heap_request_fits_def sizeof_task_node_t_def)
  from familyD(1,2) [OF F] f show thesis
  proof (cases rule: separate_malloc)
    case (none s')
    then show thesis using nomem by (simp add: task_manager_add_child_to_task_def)
  next
    case (block n s1)
    define s2 where "s2 = s1\<lparr>task_nodes := (task_nodes s)(n := \<lparr>node_task = child, node_next = 0, node_previous = last (0 # N par)\<rparr>)\<rparr>"
    define s' where "s' = append_child par (N par) n s2"
    note M = more_kernel [OF block(6)] more_nodes [OF block(6)]
    have S2: "tasks s2 = tasks s" "child_links s2 = (child_links s)(n := 0)" "child_prev s2 = (child_prev s)(n := last (0 # N par))"
      "child_at s2 = (child_at s)(n := child)" "\<And>m. m \<noteq> n \<Longrightarrow> task_nodes s2 m = task_nodes s m" "same_heap s1 s2"
      by (auto simp: s2_def M child_links_def child_prev_def child_at_def)
    have new: "n \<notin> set (N q)" if "q \<in> T" for q using block(3) that by auto
    have run: "task_manager_add_child_to_task par child s = Some (TASK_MANAGER_RESULT_OK, s')"
      unfolding s'_def s2_def by (rule add_child_run [OF familyD(3) [OF F p] block(1,2,6)])
    have "child_list s2 par (N par)"
      using child_list_cong [of "N par" s2 s par] S2(1,5) new [OF p] familyD(3) [OF F p] by metis
    then have cl: "child_list s' par (N par @ [n])"
      unfolding s'_def using child_list_add [of s2 par "N par" n] new [OF p] block(2) S2(2,3) by simp
    note A = append_child_simps [where s = s2 and par = par and ns = "N par" and n = n, folded s'_def]
    have hp: "same_heap s1 s'" using same_heap_trans [OF S2(6) A(1)] .
    have "family s' T (N(par := N par @ [n]))"
    proof (rule family_update [OF F p cl])
      show "kernel_heap_ready s'" using block(4) same_heapD(1) [OF hp] by blast
      have "set (N par @ [n]) \<union> (\<Union>q \<in> T - {par}. set (N q)) = insert n (\<Union>q \<in> T. set (N q))" using p by auto
      then show "separate s' (set (N par @ [n]) \<union> (\<Union>q \<in> T - {par}. set (N q)))" using block(5) separate_same [OF hp] by metis
      show "\<forall>q \<in> T - {par}. set (N par @ [n]) \<inter> set (N q) = {}" using familyD(4) [OF F p] new by fastforce
      show "task_nodes s' m = task_nodes s m" if "q \<in> T" "q \<noteq> par" "m \<in> set (N q)" for q m
      proof -
        have "m \<noteq> n" "m \<notin> set (N par)" using that new [OF that(1)] familyD(4) [OF F p that(1)] by auto
        then show ?thesis using A(3) S2(5) by simp
      qed
      show "children (tasks s' q) = children (tasks s q) \<and> children_tail (tasks s' q) = children_tail (tasks s q)"
        if "q \<in> T" "q \<noteq> par" for q using that A(4) S2(1) by simp
    qed
    moreover have "child_at s' = (child_at s)(n := child)" using A(2) S2(4) by simp
    ultimately show thesis using added [OF run block(2)] new A(5) S2(1) by simp
  qed
qed


text \<open>Taking a node out of the list.\<close>

definition unlink_child :: "u32 \<Rightarrow> u32 \<Rightarrow> 'a kernel_scheme \<Rightarrow> 'a kernel_scheme" where
  "unlink_child par h s =
     (let n = task_nodes s h;
          s = (if node_previous n \<noteq> 0 then upd_task_node (node_previous n) (\<lambda>m. m\<lparr>node_next := node_next n\<rparr>) s
               else upd_task par (\<lambda>t. t\<lparr>children := node_next n\<rparr>) s)
      in if node_next n \<noteq> 0 then upd_task_node (node_next n) (\<lambda>m. m\<lparr>node_previous := node_previous n\<rparr>) s
         else upd_task par (\<lambda>t. t\<lparr>children_tail := node_previous n\<rparr>) s)"

lemma unlink_child_simps:
  "same_heap s (unlink_child par h s)" "child_at (unlink_child par h s) = child_at s"
  "m \<noteq> child_links s h \<Longrightarrow> m \<noteq> child_prev s h \<Longrightarrow> task_nodes (unlink_child par h s) m = task_nodes s m"
  "q \<noteq> par \<Longrightarrow> tasks (unlink_child par h s) q = tasks s q"
  "\<exists>c e. tasks (unlink_child par h s) q = (tasks s q)\<lparr>children := c, children_tail := e\<rparr>"
proof -
  show "same_heap s (unlink_child par h s)"
    by (simp add: unlink_child_def Let_def same_heap_def upd_task_def upd_task_node_def)
  show "child_at (unlink_child par h s) = child_at s"
    by (simp add: unlink_child_def Let_def) (simp add: fun_eq_iff child_at_def)
  show "m \<noteq> child_links s h \<Longrightarrow> m \<noteq> child_prev s h \<Longrightarrow> task_nodes (unlink_child par h s) m = task_nodes s m"
    by (simp add: unlink_child_def Let_def child_links_def child_prev_def)
  show "q \<noteq> par \<Longrightarrow> tasks (unlink_child par h s) q = tasks s q" by (simp add: unlink_child_def Let_def)
  show "\<exists>c e. tasks (unlink_child par h s) q = (tasks s q)\<lparr>children := c, children_tail := e\<rparr>"
    by (cases "tasks s q") (auto simp: unlink_child_def Let_def)
qed

lemma child_list_unlink:
  assumes "child_list s par (us @ h # vs)"
  shows "child_list (unlink_child par h s) par (us @ vs)"
proof -
  note D = child_listD [OF assms] and N = path_neighbours [OF child_listD(1,2) [OF assms]]
  have f: "node_next (task_nodes s h) = child_links s h" "node_previous (task_nodes s h) = child_prev s h"
    by (simp_all add: child_links_def child_prev_def)
  have l: "child_links (unlink_child par h s) = (if us = [] then child_links s else (child_links s)(last us := child_links s h))"
    unfolding unlink_child_def Let_def f using N(3,4) by (auto simp: child_links_def fun_eq_iff)
  have b: "child_prev (unlink_child par h s) = (if vs = [] then child_prev s else (child_prev s)(hd vs := child_prev s h))"
    unfolding unlink_child_def Let_def f using N(1,2) by (auto simp: child_prev_def fun_eq_iff)
  have c: "children (tasks (unlink_child par h s) par) = (if us = [] then child_links s h else children (tasks s par))"
    unfolding unlink_child_def Let_def f using N(4) by simp
  have e: "children_tail (tasks (unlink_child par h s) par) = (if vs = [] then child_prev s h else children_tail (tasks s par))"
    unfolding unlink_child_def Let_def f using N(1) by simp
  show ?thesis
    unfolding child_list_def l b c e
    using path_unlink [OF D(1)] back_links_unlink [OF D(2,4)] D(3) N(3) by (cases vs rule: rev_cases) auto
qed

lemma remove_child_result:
  assumes F: "family s T N" and p: "par \<in> T"
  obtains (missing) "child \<notin> set (child_tasks s (N par))"
      "task_manager_remove_child_from_task par child s = Some (TASK_MANAGER_RESULT_CHILD_NOT_FOUND, s)"
  | (removed) us h vs s' where "N par = us @ h # vs" "child_at s h = child" "child \<notin> set (child_tasks s us)"
      "task_manager_remove_child_from_task par child s = Some (TASK_MANAGER_RESULT_OK, s')"
      "family s' T (N(par := us @ vs))" "child_at s' = child_at s"
      "\<forall>q. \<exists>c e. tasks s' q = (tasks s q)\<lparr>children := c, children_tail := e\<rparr>"
proof -
  let ?P = "\<lambda>q. node_task (task_nodes s q) = child"
  note L = familyD(3) [OF F p] and D = child_listD [OF familyD(3) [OF F p]]
  have fd: "list_find (child_links s) ?P (children (tasks s par)) = Some (case find ?P (N par) of None \<Rightarrow> 0 | Some x \<Rightarrow> x)"
    by (rule list_find_path [OF D(1)])
  show thesis
  proof (cases "find ?P (N par)")
    case None
    then have "child \<notin> set (child_tasks s (N par))" by (auto simp: find_None_iff child_tasks_def child_at_def)
    moreover have "task_manager_remove_child_from_task par child s = Some (TASK_MANAGER_RESULT_CHILD_NOT_FOUND, s)"
      using fd None by (simp add: task_manager_remove_child_from_task_def)
    ultimately show thesis by (rule missing)
  next
    case (Some h)
    then obtain i where i: "i < length (N par)" "?P (N par ! i)" "h = N par ! i" "\<And>j. j < i \<Longrightarrow> \<not> ?P (N par ! j)"
      by (auto simp: find_Some_iff)
    define us vs where "us = take i (N par)" and "vs = drop (Suc i) (N par)"
    have split: "N par = us @ h # vs" using i(1,3) id_take_nth_drop unfolding us_def vs_def by blast
    have us: "child \<notin> set (child_tasks s us)"
    proof
      assume "child \<in> set (child_tasks s us)"
      then obtain j where "j < i" "?P (N par ! j)"
        using i(1) by (auto simp: child_tasks_def us_def in_set_conv_nth child_at_def)
      then show False using i(4) by blast
    qed
    have h0: "h \<noteq> 0" using D(5) split by auto
    define s1 where "s1 = unlink_child par h s"
    note U = unlink_child_simps [where s = s and par = par and h = h, folded s1_def]
    note N = path_neighbours [OF D(1,2) [unfolded split]]
    have hB: "h \<in> (\<Union>q \<in> T. set (N q))" using p split by force
    have "kernel_heap_ready s1" "separate s1 (\<Union>q \<in> T. set (N q))"
      using familyD(1,2) [OF F] same_heapD(1) [OF U(1)] separate_same [OF U(1)] by simp_all
    from this hB show thesis
    proof (cases rule: separate_free)
      case (1 s')
      note M = more_kernel [OF 1(4)] more_nodes [OF 1(4)]
      have run: "task_manager_remove_child_from_task par child s = Some (TASK_MANAGER_RESULT_OK, s')"
        using fd Some h0 1(1) by (simp add: task_manager_remove_child_from_task_def Let_def s1_def unlink_child_def)
      have d: "distinct (us @ h # vs)" using D(4) split by simp
      have "child_list s1 par (us @ vs)" unfolding s1_def using child_list_unlink L split by metis
      then have cl: "child_list s' par (us @ vs)" using child_list_cong [of "us @ vs" s' s1 par] M by simp
      have "family s' T (N(par := us @ vs))"
      proof (rule family_update [OF F p cl 1(2)])
        have "set (us @ vs) \<union> (\<Union>q \<in> T - {par}. set (N q)) \<subseteq> (\<Union>q \<in> T. set (N q)) - {h}"
          using p split d familyD(4) [OF F p] by fastforce
        then show "separate s' (set (us @ vs) \<union> (\<Union>q \<in> T - {par}. set (N q)))" by (rule separate_mono [OF 1(3)])
        show "\<forall>q \<in> T - {par}. set (us @ vs) \<inter> set (N q) = {}" using familyD(4) [OF F p] split by fastforce
        show "task_nodes s' m = task_nodes s m" if "q \<in> T" "q \<noteq> par" "m \<in> set (N q)" for q m
        proof -
          have "m \<notin> set (N par)" "m \<noteq> 0" using that familyD(4) [OF F p that(1)] child_listD(5) [OF familyD(3) [OF F that(1)]] by auto
          then have "m \<noteq> child_links s h" "m \<noteq> child_prev s h" using N split by (cases vs; cases us rule: rev_cases; auto)+
          then show ?thesis using U(3) M by simp
        qed
        show "children (tasks s' q) = children (tasks s q) \<and> children_tail (tasks s' q) = children_tail (tasks s q)"
          if "q \<in> T" "q \<noteq> par" for q using that U(4) M by simp
      qed
      moreover have "child_at s h = child" using i by (simp add: child_at_def)
      moreover have "child_at s' = child_at s" using U(2) M by simp
      ultimately show thesis using removed [OF split _ us run] U(5) M by simp
    qed
  qed
qed


section \<open>Sequences of additions and removals\<close>

datatype child_op = Add_child u32 u32 | Remove_child u32 u32

fun run_child_ops :: "child_op list \<Rightarrow> 'a kernel_scheme \<Rightarrow> 'a kernel_scheme option" where
  "run_child_ops [] s = Some s"
| "run_child_ops (Add_child par child # ops) s = do {
     (_, s) \<leftarrow> task_manager_add_child_to_task par child s;
     run_child_ops ops s
   }"
| "run_child_ops (Remove_child par child # ops) s = do {
     (_, s) \<leftarrow> task_manager_remove_child_from_task par child s;
     run_child_ops ops s
   }"

fun list_child_ops :: "child_op list \<Rightarrow> (u32 \<Rightarrow> u32 list) \<Rightarrow> u32 \<Rightarrow> u32 list" where
  "list_child_ops [] C = C"
| "list_child_ops (Add_child par child # ops) C = list_child_ops ops (C(par := C par @ [child]))"
| "list_child_ops (Remove_child par child # ops) C = list_child_ops ops (C(par := remove1 child (C par)))"

primrec op_parent :: "child_op \<Rightarrow> u32" where
  "op_parent (Add_child par child) = par"
| "op_parent (Remove_child par child) = par"

definition children_are :: "'a kernel_scheme \<Rightarrow> u32 set \<Rightarrow> (u32 \<Rightarrow> u32 list) \<Rightarrow> bool" where
  "children_are s T C \<longleftrightarrow> (\<exists>N. family s T N \<and> (\<forall>p \<in> T. child_tasks s (N p) = C p))"

definition same_but_children :: "'a kernel_scheme \<Rightarrow> 'a kernel_scheme \<Rightarrow> bool" where
  "same_but_children s s' \<longleftrightarrow> (\<forall>q. \<exists>c e. tasks s' q = (tasks s q)\<lparr>children := c, children_tail := e\<rparr>)"

lemma same_but_children_refl: "same_but_children s s"
proof -
  have "tasks s q = (tasks s q)\<lparr>children := children (tasks s q), children_tail := children_tail (tasks s q)\<rparr>" for q by simp
  then show ?thesis unfolding same_but_children_def by blast
qed

lemma same_but_children_trans:
  assumes "same_but_children s s'" "same_but_children s' s''"
  shows "same_but_children s s''"
  unfolding same_but_children_def
proof
  fix q
  obtain c e c' e' where "tasks s' q = (tasks s q)\<lparr>children := c, children_tail := e\<rparr>"
    "tasks s'' q = (tasks s' q)\<lparr>children := c', children_tail := e'\<rparr>" using assms unfolding same_but_children_def by metis
  then have "tasks s'' q = (tasks s q)\<lparr>children := c', children_tail := e'\<rparr>" by simp
  then show "\<exists>c e. tasks s'' q = (tasks s q)\<lparr>children := c, children_tail := e\<rparr>" by blast
qed

lemma add_child_refines:
  assumes "children_are s T C" "par \<in> T" "task_manager_add_child_to_task par child s = Some (r, s')"
  shows "r = TASK_MANAGER_RESULT_OK \<and> children_are s' T (C(par := C par @ [child])) \<and> same_but_children s s'"
proof -
  obtain N where F: "family s T N" and C: "\<forall>p \<in> T. child_tasks s (N p) = C p" using assms(1) unfolding children_are_def by blast
  from F assms(2) show ?thesis
  proof (cases rule: add_child_result [where child = child])
    case (nomem s1)
    then show ?thesis using assms(3) by simp
  next
    case (added n s1)
    then have s': "s' = s1" "r = TASK_MANAGER_RESULT_OK" using assms(3) by simp_all
    have "\<forall>p \<in> T. child_tasks s' ((N(par := N par @ [n])) p) = (C(par := C par @ [child])) p"
    proof
      fix p assume p: "p \<in> T"
      have "map (child_at s') (N p) = map (child_at s) (N p)" using added(3,5) p s' by (intro map_cong refl) auto
      then show "child_tasks s' ((N(par := N par @ [n])) p) = (C(par := C par @ [child])) p"
        using C p assms(2) added(5) s'(1) unfolding child_tasks_def by auto
    qed
    then show ?thesis using s' added(4,6) unfolding children_are_def same_but_children_def by blast
  qed
qed

lemma remove_child_refines:
  assumes "children_are s T C" "par \<in> T"
  obtains s' where "task_manager_remove_child_from_task par child s =
      Some (if child \<in> set (C par) then TASK_MANAGER_RESULT_OK else TASK_MANAGER_RESULT_CHILD_NOT_FOUND, s')"
    "children_are s' T (C(par := remove1 child (C par)))" "same_but_children s s'"
proof -
  obtain N where F: "family s T N" and C: "\<forall>p \<in> T. child_tasks s (N p) = C p" using assms(1) unfolding children_are_def by blast
  from F assms(2) show thesis
  proof (cases rule: remove_child_result [where child = child])
    case missing
    then have "child \<notin> set (C par)" using C assms(2) by simp
    then show thesis using that [of s] missing(2) assms(1) by (simp add: remove1_idem same_but_children_refl)
  next
    case (removed us h vs s')
    have Cp: "C par = child_tasks s us @ child # child_tasks s vs"
      using C assms(2) removed(1,2) by (metis child_tasks_def list.simps(9) map_append)
    have "remove1 child (C par) = child_tasks s' (us @ vs)"
      using Cp removed(3,6) by (simp add: remove1_append child_tasks_def)
    then have "\<forall>p \<in> T. child_tasks s' ((N(par := us @ vs)) p) = (C(par := remove1 child (C par))) p"
      using C removed(6) by (simp add: child_tasks_def)
    then have "children_are s' T (C(par := remove1 child (C par)))" using removed(5) unfolding children_are_def by blast
    then show thesis using that removed(4,7) Cp unfolding same_but_children_def by auto
  qed
qed

lemma child_ops_refine:
  assumes "children_are s T C" "\<forall>a \<in> set ops. op_parent a \<in> T" "run_child_ops ops s = Some s'"
  shows "children_are s' T (list_child_ops ops C) \<and> same_but_children s s'"
  using assms
proof (induction ops arbitrary: s C)
  case Nil
  then show ?case by (simp add: same_but_children_refl)
next
  case (Cons a ops)
  show ?case
  proof (cases a)
    case a: (Add_child par child)
    then obtain r s1 where s1: "task_manager_add_child_to_task par child s = Some (r, s1)" "run_child_ops ops s1 = Some s'"
      using Cons.prems(3) by (auto simp: bind_eq_Some_conv)
    then show ?thesis
      using add_child_refines [OF Cons.prems(1) _ s1(1)] Cons.IH [OF _ _ s1(2)] Cons.prems(2) a same_but_children_trans by fastforce
  next
    case a: (Remove_child par child)
    have "par \<in> T" using Cons.prems(2) a by simp
    with Cons.prems(1) show ?thesis
    proof (cases rule: remove_child_refines [where child = child])
      case (1 s1)
      then have "run_child_ops ops s1 = Some s'" using Cons.prems(3) a by simp
      then show ?thesis using 1 Cons.IH Cons.prems(2) a same_but_children_trans by fastforce
    qed
  qed
qed

lemma find_child_list:
  assumes "children_are s T C" "par \<in> T"
  shows "task_manager_find_child par pid s = Some (case find (\<lambda>t. task_id (tasks s t) = pid) (C par) of None \<Rightarrow> 0 | Some t \<Rightarrow> t)"
    and "task_manager_find_zombie_child par s =
      Some (case find (\<lambda>t. task_state (tasks s t) = TASK_STATE_ZOMBIE) (C par) of None \<Rightarrow> 0 | Some t \<Rightarrow> t)"
proof -
  obtain N where F: "family s T N" and C: "child_tasks s (N par) = C par" using assms unfolding children_are_def by blast
  note D = child_listD [OF familyD(3) [OF F assms(2)]]
  have nz: "x \<noteq> 0" if "find P (N par) = Some x" for P x using find_SomeD [OF that] D(5) by auto
  show "task_manager_find_child par pid s = Some (case find (\<lambda>t. task_id (tasks s t) = pid) (C par) of None \<Rightarrow> 0 | Some t \<Rightarrow> t)"
    "task_manager_find_zombie_child par s =
      Some (case find (\<lambda>t. task_state (tasks s t) = TASK_STATE_ZOMBIE) (C par) of None \<Rightarrow> 0 | Some t \<Rightarrow> t)"
    unfolding task_manager_find_child_def task_manager_find_zombie_child_def list_find_path [OF D(1)] C [symmetric] child_tasks_def
    by (simp_all add: find_map child_at_def nz split: option.split)
qed


section \<open>The search for a task\<close>

text \<open>The tree below a task, as far as the lists of children give it.\<close>

datatype task_tree = Task_tree u32 "task_tree list"

primrec tree_root :: "task_tree \<Rightarrow> u32" where
  "tree_root (Task_tree t ts) = t"

fun preorder :: "task_tree \<Rightarrow> u32 list" where
  "preorder (Task_tree t ts) = t # concat (map preorder ts)"

fun tree_at :: "'a kernel_scheme \<Rightarrow> task_tree \<Rightarrow> bool" where
  "tree_at s (Task_tree t ts) \<longleftrightarrow> t \<noteq> 0 \<and> (\<exists>ns. path (child_links s) (children (tasks s t)) ns \<and>
     map (child_at s) ns = map tree_root ts) \<and> (\<forall>u \<in> set ts. tree_at s u)"

definition first_with_id :: "'a kernel_scheme \<Rightarrow> u32 \<Rightarrow> u32 list \<Rightarrow> u32" where
  "first_with_id s pid ts = (case find (\<lambda>t. task_id (tasks s t) = pid) ts of None \<Rightarrow> 0 | Some t \<Rightarrow> t)"

lemma preorder_nonzero: "tree_at s tr \<Longrightarrow> 0 \<notin> set (preorder tr)"
  by (induction tr rule: preorder.induct) auto

lemma first_with_id_Cons:
  "first_with_id s pid (t # ts) = (if task_id (tasks s t) = pid then t else first_with_id s pid ts)"
  by (simp add: first_with_id_def)

lemma first_with_id_append:
  "0 \<notin> set xs \<Longrightarrow> first_with_id s pid (xs @ ys) = (if first_with_id s pid xs \<noteq> 0 then first_with_id s pid xs else first_with_id s pid ys)"
  by (induction xs) (auto simp: first_with_id_Cons first_with_id_def [of s pid "[]"])

lemma find_task_below_preorder:
  assumes "path (child_links s) head ns" "map (child_at s) ns = map tree_root ts" "\<forall>u \<in> set ts. tree_at s u"
  shows "find_task_below s pid head = Some (first_with_id s pid (concat (map preorder ts)))"
proof -
  have "size_list size ts \<le> n \<Longrightarrow> path (child_links s) head ns \<Longrightarrow> map (child_at s) ns = map tree_root ts \<Longrightarrow> \<forall>u \<in> set ts. tree_at s u \<Longrightarrow>
    find_task_below s pid head = Some (first_with_id s pid (concat (map preorder ts)))" for n ts ns head
  proof (induction n arbitrary: ts ns head)
    case 0
    then have "ts = []" by (cases ts) auto
    with 0 show ?case by (simp add: find_task_below.simps [of s pid 0] first_with_id_def)
  next
    case (Suc n)
    show ?case
    proof (cases ts)
      case Nil
      with Suc.prems show ?thesis by (simp add: find_task_below.simps [of s pid 0] first_with_id_def)
    next
      case (Cons u us)
      obtain t vs where u: "u = Task_tree t vs" by (cases u)
      from Suc.prems(2,3) Cons obtain h hs where ns: "ns = h # hs" "head = h" "h \<noteq> 0" "path (child_links s) (child_links s h) hs"
        "child_at s h = t" "map (child_at s) hs = map tree_root us" using u by (cases ns) auto
      obtain ms where ms: "path (child_links s) (children (tasks s t)) ms" "map (child_at s) ms = map tree_root vs"
        "\<forall>w \<in> set vs. tree_at s w" and t0: "t \<noteq> 0" using Suc.prems(4) Cons u by auto
      have below: "find_task_below s pid (children (tasks s t)) = Some (first_with_id s pid (concat (map preorder vs)))"
        using Suc.IH [OF _ ms] Suc.prems(1) Cons u by simp
      have rest: "find_task_below s pid (child_links s h) = Some (first_with_id s pid (concat (map preorder us)))"
        using Suc.IH [OF _ ns(4,6)] Suc.prems(1,4) Cons u by simp
      have "0 \<notin> set (concat (map preorder vs))" using preorder_nonzero ms(3) by auto
      note A = first_with_id_append [OF this]
      have "find_task_below s pid h = Some (first_with_id s pid (preorder u @ concat (map preorder us)))"
        using below rest ns(3,5) t0 unfolding find_task_below.simps [of s pid h] child_at_def
        by (simp add: u first_with_id_Cons A)
      then show ?thesis using Cons ns(2) by simp
    qed
  qed
  then show ?thesis using assms by blast
qed


lemma find_task_result:
  assumes "tree_at s tr" "tree_root tr = task_init s"
  shows "task_manager_find_task pid s = Some (first_with_id s pid (preorder tr))"
proof -
  obtain t ts where tr: "tr = Task_tree t ts" by (cases tr)
  then obtain ns where ns: "path (child_links s) (children (tasks s t)) ns" "map (child_at s) ns = map tree_root ts"
    "\<forall>u \<in> set ts. tree_at s u" using assms(1) by auto
  have t: "t \<noteq> 0" "task_init s = t" using assms tr by simp_all
  note B = find_task_below_preorder [OF ns, of pid]
  show ?thesis
    unfolding tr task_manager_find_task_def task_manager_find_task_recursive_def preorder.simps first_with_id_Cons t(2) B
    using t(1) by simp
qed

section \<open>Properties\<close>

lemma child_ops_fault:
  assumes "children_are s T C" "\<forall>a \<in> set ops. op_parent a \<in> T" "run_child_ops ops s = None"
  shows "\<exists>before par child after s1 s2. ops = before @ Add_child par child # after \<and> run_child_ops before s = Some s1 \<and>
    kernel_heap_malloc sizeof_task_node_t s1 = Some (0, s2)"
  using assms
proof (induction ops arbitrary: s C)
  case (Cons a ops)
  show ?case
  proof (cases a)
    case a: (Add_child par child)
    obtain N where "family s T N" using Cons.prems(1) unfolding children_are_def by blast
    moreover have "par \<in> T" using Cons.prems(2) a by simp
    ultimately show ?thesis
    proof (cases rule: add_child_result [where child = child])
      case (nomem s2)
      have "a # ops = [] @ Add_child par child # ops" "run_child_ops [] s = Some s" using a by simp_all
      then show ?thesis using nomem(1) by blast
    next
      case (added n s1)
      have r: "run_child_ops ops s1 = None" using Cons.prems(3) a added(1) by simp
      have "children_are s1 T (C(par := C par @ [child]))"
        using add_child_refines [OF Cons.prems(1) \<open>par \<in> T\<close> added(1)] by blast
      from Cons.IH [OF this _ r] Cons.prems(2) obtain before p c after s2 s3 where
        "ops = before @ Add_child p c # after" "run_child_ops before s1 = Some s2"
        "kernel_heap_malloc sizeof_task_node_t s2 = Some (0, s3)" by auto
      moreover have "run_child_ops (a # before) s = run_child_ops before s1" using a added(1) by simp
      ultimately show ?thesis by (metis append_Cons)
    qed
  next
    case a: (Remove_child par child)
    have "par \<in> T" using Cons.prems(2) a by simp
    with Cons.prems(1) show ?thesis
    proof (cases rule: remove_child_refines [where child = child])
      case (1 s1)
      have r: "run_child_ops ops s1 = None" using Cons.prems(3) a 1(1) by simp
      from Cons.IH [OF 1(2) _ r] Cons.prems(2) obtain before p c after s2 s3 where
        "ops = before @ Add_child p c # after" "run_child_ops before s1 = Some s2"
        "kernel_heap_malloc sizeof_task_node_t s2 = Some (0, s3)" by auto
      moreover have "run_child_ops (a # before) s = run_child_ops before s1" using a 1(1) by simp
      ultimately show ?thesis by (metis append_Cons)
    qed
  qed
qed simp


text \<open>
  (C18) The recursive search for a task ends on every finite tree of tasks below the first one, and
  gives the same task as a search of the list of all tasks in preorder: the first one with the
  number, or \<^verbatim>\<open>NULL\<close> when no task has it.
\<close>

theorem task_manager_find_task_preorder:
  assumes "tree_at s tr" "tree_root tr = task_init s"
  shows "task_manager_find_task pid s = Some (first_with_id s pid (preorder tr))"
  by (rule find_task_result [OF assms])

definition sample_family :: kernel where
  "sample_family = sample_resources\<lparr>task_init := 0x200,
     tasks := (\<lambda>_. zero_task)(0x200 := zero_task\<lparr>task_id := 1, children := 0xF0000008, children_tail := 0xF0000008\<rparr>,
       0x300 := zero_task\<lparr>task_id := 2\<rparr>),
     task_nodes := (\<lambda>_. \<lparr>node_task = 0x300, node_next = 0, node_previous = 0\<rparr>)\<rparr>"

lemma sample_family_fields:
  "tasks sample_family = (\<lambda>_. zero_task)(0x200 := zero_task\<lparr>task_id := 1, children := 0xF0000008, children_tail := 0xF0000008\<rparr>,
     0x300 := zero_task\<lparr>task_id := 2\<rparr>)"
  "task_nodes sample_family = (\<lambda>_. \<lparr>node_task = 0x300, node_next = 0, node_previous = 0\<rparr>)" "task_init sample_family = 0x200"
  "child_links sample_family = (\<lambda>_. 0)" "child_prev sample_family = (\<lambda>_. 0)" "child_at sample_family = (\<lambda>_. 0x300)"
  by (simp_all add: sample_family_def child_links_def child_prev_def child_at_def fun_eq_iff)

lemma sample_family_children: "children_are sample_family {0x200, 0x300} ((\<lambda>_. [])(0x200 := [0x300]))"
proof -
  have h: "same_heap sample_resources sample_family" by (simp add: sample_family_def same_heap_def)
  have "separate sample_family {0xF0000008}" "kernel_heap_ready sample_family"
    using sample_resources_heap same_heapD [OF h] by (simp_all add: separate_def)
  then have "family sample_family {0x200, 0x300} ((\<lambda>_. [])(0x200 := [0xF0000008]))"
    by (simp add: family_def child_list_def sample_family_fields zero_task_def)
  then show ?thesis
    unfolding children_are_def by (intro exI [of _ "(\<lambda>_. [])(0x200 := [0xF0000008])"]) (simp add: child_tasks_def sample_family_fields)
qed


theorem task_manager_find_task_preorder_witness:
  "tree_at sample_family (Task_tree 0x200 [Task_tree 0x300 []]) \<and> task_manager_find_task 2 sample_family = Some 0x300 \<and>
   task_manager_find_task 7 sample_family = Some 0"
proof -
  have t: "tree_at sample_family (Task_tree 0x200 [Task_tree 0x300 []])"
    by (auto simp: sample_family_fields zero_task_def intro: exI [of _ "[0xF0000008]"])
  have r: "tree_root (Task_tree 0x200 [Task_tree 0x300 []]) = task_init sample_family" by (simp add: sample_family_fields)
  show ?thesis
    using t task_manager_find_task_preorder [OF t r, of 2] task_manager_find_task_preorder [OF t r, of 7]
    by (simp add: first_with_id_def sample_family_fields zero_task_def)
qed


section \<open>The end of a task\<close>

text \<open>What adopting the children changes: their parent, and the head of the list of the first task.\<close>

definition adopted :: "'a kernel_scheme \<Rightarrow> u32 set \<Rightarrow> u32 \<Rightarrow> u32 \<Rightarrow> task_t" where
  "adopted s A head q = (tasks s q)\<lparr>parent := if q \<in> A then task_init s else parent (tasks s q),
     children := if q = task_init s then head else children (tasks s q)\<rparr>"

definition adopts :: "'a kernel_scheme \<Rightarrow> u32 set \<Rightarrow> 'a kernel_scheme \<Rightarrow> bool" where
  "adopts s A s' \<longleftrightarrow> (\<exists>N. heap_machine.more s' = heap_machine.more (s\<lparr>tasks := tasks s', task_nodes := N\<rparr>)) \<and>
     tasks s' = adopted s A (children (tasks s' (task_init s)))"

lemma adopts_fields:
  fixes s s' :: "'a kernel_scheme"
  assumes "adopts s A s'"
  shows "task_queues s' = task_queues s" "task_idle s' = task_idle s" "task_init s' = task_init s"
    "task_current s' = task_current s" "kernel.more s' = kernel.more s" "caller_task s' = caller_task s"
  using assms unfolding adopts_def by (cases s; cases s'; auto)+

lemma adopts_task:
  assumes "adopts s A s'"
  shows "next_task (tasks s' q) = next_task (tasks s q)" "task_queue_level (tasks s' q) = task_queue_level (tasks s q)"
    "task_state (tasks s' q) = task_state (tasks s q)" "return_code (tasks s' q) = return_code (tasks s q)"
    "task_id (tasks s' q) = task_id (tasks s q)" "wait_reason (tasks s' q) = wait_reason (tasks s q)"
    "wait_object (tasks s' q) = wait_object (tasks s q)"
    "parent (tasks s' q) = (if q \<in> A then task_init s else parent (tasks s q))"
    "q \<noteq> task_init s \<Longrightarrow> children (tasks s' q) = children (tasks s q)"
proof -
  have "tasks s' q = adopted s A (children (tasks s' (task_init s))) q" using assms unfolding adopts_def by metis
  then show "next_task (tasks s' q) = next_task (tasks s q)" "task_queue_level (tasks s' q) = task_queue_level (tasks s q)"
    "task_state (tasks s' q) = task_state (tasks s q)" "return_code (tasks s' q) = return_code (tasks s q)"
    "task_id (tasks s' q) = task_id (tasks s q)" "wait_reason (tasks s' q) = wait_reason (tasks s q)"
    "wait_object (tasks s' q) = wait_object (tasks s q)"
    "parent (tasks s' q) = (if q \<in> A then task_init s else parent (tasks s q))"
    "q \<noteq> task_init s \<Longrightarrow> children (tasks s' q) = children (tasks s q)" by (simp_all add: adopted_def)
qed

lemma adopts_refl: "adopts s {} s"
proof -
  have "s\<lparr>tasks := tasks s, task_nodes := task_nodes s\<rparr> = s" by simp
  then show ?thesis unfolding adopts_def by (auto simp: adopted_def fun_eq_iff intro!: exI [of _ "task_nodes s"])
qed

lemma adopts_trans:
  fixes s s' :: "'a kernel_scheme"
  assumes "adopts s A s'" "adopts s' B s''"
  shows "adopts s (A \<union> B) s''"
proof -
  have i: "task_init s' = task_init s" by (rule adopts_fields(3) [OF assms(1)])
  have a: "tasks s' q = adopted s A (children (tasks s' (task_init s))) q" for q using assms(1) unfolding adopts_def by metis
  have b: "tasks s'' q = adopted s' B (children (tasks s'' (task_init s'))) q" for q using assms(2) unfolding adopts_def by metis
  have "tasks s'' q = adopted s (A \<union> B) (children (tasks s'' (task_init s))) q" for q
    unfolding b [of q] unfolding adopted_def i using a [of q] by (simp add: adopted_def)
  then have 1: "tasks s'' = adopted s (A \<union> B) (children (tasks s'' (task_init s)))" by blast
  obtain N N' where "heap_machine.more s' = heap_machine.more (s\<lparr>tasks := tasks s', task_nodes := N\<rparr>)"
    "heap_machine.more s'' = heap_machine.more (s'\<lparr>tasks := tasks s'', task_nodes := N'\<rparr>)" using assms unfolding adopts_def by blast
  then have "heap_machine.more s'' = heap_machine.more (s\<lparr>tasks := tasks s'', task_nodes := N'\<rparr>)" by (cases s; cases s') simp
  then show ?thesis using 1 unfolding adopts_def by blast
qed

definition adopt_one :: "u32 \<Rightarrow> u32 \<Rightarrow> 'a kernel_scheme \<Rightarrow> 'a kernel_scheme" where
  "adopt_one child n s = upd_task (task_init s) (\<lambda>t. t\<lparr>children := n\<rparr>)
     (upd_task_node n (\<lambda>m. m\<lparr>node_task := child, node_next := children (tasks s (task_init s))\<rparr>) s)"

lemma adopt_one_simps:
  "same_heap s (adopt_one child n s)"
  "child_at (adopt_one child n s) = (child_at s)(n := child)"
  "child_links (adopt_one child n s) = (child_links s)(n := children (tasks s (task_init s)))"
  "children (tasks (adopt_one child n s) (task_init s)) = n" "task_init (adopt_one child n s) = task_init s"
  by (simp_all add: adopt_one_def same_heap_def upd_task_def upd_task_node_def child_at_def child_links_def fun_eq_iff)

lemma adopt_step:
  assumes "heap_machine.more s1 = heap_machine.more (upd_task child (\<lambda>t. t\<lparr>parent := task_init s\<rparr>) s)"
    "heap_machine.more s' = heap_machine.more (adopt_one child n s1)"
  shows "adopts s {child} s'"
proof -
  have 1: "tasks s1 = tasks (upd_task child (\<lambda>t. t\<lparr>parent := task_init s\<rparr>) s)" "task_init s1 = task_init s"
    using more_kernel(1) [OF assms(1)] more_nodes(2) [OF assms(1)] by simp_all
  have 2: "tasks s' = tasks (adopt_one child n s1)" using more_kernel(1) [OF assms(2)] .
  have "tasks s' = adopted s {child} n"
    unfolding 2 adopt_one_def by (auto simp: 1 adopted_def fun_eq_iff)
  moreover from this have "children (tasks s' (task_init s)) = n" by (simp add: adopted_def)
  moreover have "heap_machine.more s' = heap_machine.more (s\<lparr>tasks := tasks s', task_nodes := task_nodes s'\<rparr>)"
    using assms by (cases s; cases s1; cases s') (simp add: adopt_one_def upd_task_def upd_task_node_def)
  ultimately show ?thesis unfolding adopts_def by metis
qed

lemma reparent_result:
  assumes "kernel_heap_ready s" "separate s (set ns \<union> set os)" "set ns \<inter> set os = {}" "task_init s \<noteq> 0"
    "path (child_links s) head ns" "path (child_links s) (children (tasks s (task_init s))) os"
  shows "(\<exists>s' A. reparent_children head s = Some (TASK_MANAGER_RESULT_OUT_OF_MEMORY, s') \<and> ns \<noteq> [] \<and>
       A \<subseteq> child_at s ` set ns \<and> adopts s A s') \<or>
    (\<exists>s' ms. reparent_children head s = Some (TASK_MANAGER_RESULT_OK, s') \<and> adopts s (child_at s ` set ns) s' \<and>
       path (child_links s') (children (tasks s' (task_init s))) (ms @ os) \<and>
       map (child_at s') (ms @ os) = rev (map (child_at s) ns) @ map (child_at s) os \<and>
       kernel_heap_ready s' \<and> separate s' (set (ms @ os)))"
  using assms
proof (induction ns arbitrary: s head os)
  case Nil
  then show ?case using adopts_refl [of s]
    by (intro disjI2 exI [of _ s] exI [of _ "[]"]) (simp add: reparent_children.simps [of 0])
next
  case (Cons h ns)
  have hd: "head = h" "h \<noteq> 0" "path (child_links s) (child_links s h) ns" "h \<notin> set ns"
    using Cons.prems(5) path_distinct [OF Cons.prems(5)] by auto
  let ?c = "child_at s h" and ?i = "task_init s"
  let ?s0 = "upd_task ?c (\<lambda>t. t\<lparr>parent := ?i\<rparr>) s"
  have f: "heap_request_fits sizeof_task_node_t" "sizeof_task_node_t \<noteq> 0"
    by (simp_all add: heap_request_fits_def sizeof_task_node_t_def)
  have "kernel_heap_ready ?s0" "separate ?s0 (set (h # ns) \<union> set os)"
    using Cons.prems(1,2) same_heapD(1) separate_same same_heap_upd(1) by metis+
  from this f show ?case
  proof (cases rule: separate_malloc)
    case (none s')
    have "heap_machine.more s' = heap_machine.more (s\<lparr>tasks := tasks s', task_nodes := task_nodes s\<rparr>)"
      using none(4) more_kernel(1) [OF none(4)] by (simp add: upd_task_def)
    moreover have "tasks s' = adopted s {?c} (children (tasks s' ?i))"
      using more_kernel(1) [OF none(4)] by (auto simp: adopted_def fun_eq_iff)
    ultimately have "adopts s {?c} s'" unfolding adopts_def by blast
    moreover have "reparent_children head s = Some (TASK_MANAGER_RESULT_OUT_OF_MEMORY, s')"
      using none(1) hd(1,2) unfolding reparent_children.simps [of head] by (simp add: child_at_def Let_def)
    ultimately show ?thesis by auto
  next
    case (block n s1)
    note M = more_kernel [OF block(6)] more_nodes [OF block(6)]
    let ?s2 = "adopt_one ?c n s1"
    note A = adopt_one_simps [where s = s1 and child = ?c and n = n]
    have n: "n \<noteq> h" "n \<notin> set ns" "n \<notin> set os" using block(3) by auto
    have "kernel_heap_ready ?s2" "separate ?s2 (insert n (set (h # ns) \<union> set os))" "h \<in> insert n (set (h # ns) \<union> set os)"
      using block(4,5) same_heapD(1) [OF A(1)] separate_same [OF A(1)] by simp_all
    then show ?thesis
    proof (cases rule: separate_free)
      case free: (1 s3)
      note K = more_kernel [OF free(4)] more_nodes [OF free(4)]
      have i: "task_init s3 = ?i" "task_init s1 = ?i" using K(4) M(4) A(5) by simp_all
      have run: "reparent_children head s = reparent_children (child_links s h) s3"
        using block(1,2) hd(1,2) i(2) Cons.prems(4) free(1) unfolding reparent_children.simps [of head s]
        by (simp add: child_at_def child_links_def Let_def adopt_one_def)
      have st: "adopts s {?c} s3" by (rule adopt_step [OF block(6) free(4)])
      have ci: "children (tasks s1 ?i) = children (tasks s ?i)" using M(1) by simp
      have links: "child_links s3 = (child_links s)(n := children (tasks s ?i))" using K(5) M(5) A(3) i ci by simp
      have cat: "child_at s3 = (child_at s)(n := ?c)" using K(7) M(7) A(2) by simp
      have cn: "children (tasks s3 ?i) = n" using K(1) A(4) i(2) by metis
      have "set ns \<union> set (n # os) \<subseteq> insert n (set (h # ns) \<union> set os) - {h}"
        using hd(4) Cons.prems(3) n by auto
      then have sep: "separate s3 (set ns \<union> set (n # os))" by (rule separate_mono [OF free(3)])
      have p1: "path (child_links s3) (child_links s h) ns" using links hd(3) n by simp
      have p2: "path (child_links s3) (children (tasks s3 (task_init s3))) (n # os)"
        using links cn i Cons.prems(6) n block(2) by simp
      have cs: "child_at s3 ` set ns = child_at s ` set ns" "map (child_at s3) ns = map (child_at s) ns"
        "map (child_at s3) (n # os) = ?c # map (child_at s) os" using cat n by auto
      have "set ns \<inter> set (n # os) = {}" "task_init s3 \<noteq> 0" using Cons.prems(3,4) n i by auto
      from Cons.IH [OF free(2) sep this p1 p2] show ?thesis
      proof (elim disjE exE conjE)
        fix s' A assume r: "reparent_children (child_links s h) s3 = Some (TASK_MANAGER_RESULT_OUT_OF_MEMORY, s')"
          "A \<subseteq> child_at s3 ` set ns" "adopts s3 A s'"
        have "adopts s (insert ?c A) s'" using adopts_trans [OF st r(3)] by simp
        moreover have "insert ?c A \<subseteq> child_at s ` set (h # ns)" using r(2) cs by auto
        ultimately show ?thesis using run r(1) by (intro disjI1 exI [of _ s'] exI [of _ "insert ?c A"]) simp
      next
        fix s' ms assume r: "reparent_children (child_links s h) s3 = Some (TASK_MANAGER_RESULT_OK, s')"
          "adopts s3 (child_at s3 ` set ns) s'" "path (child_links s') (children (tasks s' (task_init s3))) (ms @ n # os)"
          "map (child_at s') (ms @ n # os) = rev (map (child_at s3) ns) @ map (child_at s3) (n # os)"
          "kernel_heap_ready s'" "separate s' (set (ms @ n # os))"
        have "adopts s (child_at s ` set (h # ns)) s'" using adopts_trans [OF st r(2)] cs by simp
        moreover have "map (child_at s') ((ms @ [n]) @ os) = rev (map (child_at s) (h # ns)) @ map (child_at s) os"
          using r(4) cs by simp
        moreover have "path (child_links s') (children (tasks s' ?i)) ((ms @ [n]) @ os)" "separate s' (set ((ms @ [n]) @ os))"
          using r(3,6) i by simp_all
        ultimately show ?thesis using run r(1,5) by (intro disjI2 exI [of _ s'] exI [of _ "ms @ [n]"]) simp
      qed
    qed
  qed
qed


text \<open>
  What a task needs to end: it is in the queue of its state, its children and those of the first task
  are lists in the heap, and it is not one of its own children. A task that is blocked is in the
  queue of blocked tasks.
\<close>

definition may_exit :: "'a kernel_scheme \<Rightarrow> (u32 \<Rightarrow> u32 list) \<Rightarrow> u32 \<Rightarrow> u32 list \<Rightarrow> u32 list \<Rightarrow> bool" where
  "may_exit s Q t ns os \<longleftrightarrow> sched_wf s Q \<and> t \<noteq> 0 \<and> t \<noteq> task_idle s \<and> t \<noteq> task_init s \<and> task_init s \<noteq> 0 \<and>
     task_queue_level (tasks s t) < 6 \<and>
     task_state (tasks s t) \<in> {TASK_STATE_RUNNING, TASK_STATE_READY, TASK_STATE_BLOCKED} \<and>
     (\<forall>i<6. t \<in> set (Q i) \<longrightarrow> i = task_queue_level (tasks s t)) \<and>
     (task_state (tasks s t) = TASK_STATE_BLOCKED \<longrightarrow> task_queue_level (tasks s t) = 4) \<and>
     kernel_heap_ready s \<and> separate s (set ns \<union> set os) \<and> set ns \<inter> set os = {} \<and>
     path (child_links s) (children (tasks s t)) ns \<and> path (child_links s) (children (tasks s (task_init s))) os \<and>
     t \<notin> child_at s ` set ns \<and> parent (tasks s t) \<noteq> t \<and>
     (let p = parent (tasks s t) in p \<noteq> 0 \<and> task_state (tasks s p) = TASK_STATE_BLOCKED \<longrightarrow> p \<in> set (Q 4))"

lemma sched_wf_adopts:
  assumes "queues s Q" "adopts s A s'"
  shows "queues s' Q"
proof -
  have "task_links s' = task_links s" using adopts_task(1) [OF assms(2)] by (simp add: task_links_def fun_eq_iff)
  then show ?thesis using assms(1) adopts_fields(1,2) [OF assms(2)] adopts_task(2) [OF assms(2)] by (simp add: queues_def)
qed

definition dequeued :: "u32 \<Rightarrow> (u32 \<Rightarrow> u32 list) \<Rightarrow> u32 \<Rightarrow> u32 list" where
  "dequeued t Q i = remove1 t (Q i)"

lemma exit_dequeues:
  assumes "may_exit s Q t ns os"
  obtains s1 where "(case task_state (tasks s t) of
         TASK_STATE_READY \<Rightarrow> map_option snd (task_manager_remove_task_from_queue (task_queue_level (tasks s t)) t s)
       | TASK_STATE_BLOCKED \<Rightarrow> map_option snd (task_manager_remove_task_from_queue TASK_MANAGER_QUEUE_INDEX_BLOCKED t s)
       | _ \<Rightarrow> Some s) = Some s1" "queues s1 (dequeued t Q)" "only_queues s s1"
    "\<forall>p. task_queue_level (tasks s1 p) = task_queue_level (tasks s p)"
proof -
  have wf: "sched_wf s Q" and l: "task_queue_level (tasks s t) < 6" and own: "\<forall>i<6. t \<in> set (Q i) \<longrightarrow> i = task_queue_level (tasks s t)"
    and st: "task_state (tasks s t) \<in> {TASK_STATE_RUNNING, TASK_STATE_READY, TASK_STATE_BLOCKED}"
    and bl: "task_state (tasks s t) = TASK_STATE_BLOCKED \<longrightarrow> task_queue_level (tasks s t) = 4"
    using assms by (simp_all add: may_exit_def)
  note q = sched_wfD(1) [OF wf]
  have D: "queues s' (dequeued t Q)" if "queues s' (Q(task_queue_level (tasks s t) := remove1 t (Q (task_queue_level (tasks s t)))))" for s'
  proof -
    have "(Q(task_queue_level (tasks s t) := remove1 t (Q (task_queue_level (tasks s t))))) i = dequeued t Q i" if "i < 6" for i
      using own that by (auto simp: dequeued_def remove1_idem)
    then show ?thesis using that by (simp add: queues_def)
  qed
  show thesis
  proof (cases "task_state (tasks s t) = TASK_STATE_RUNNING")
    case True
    then have "t \<notin> set (Q i)" if "i < 6" for i using running_not_queued [OF wf _ that] by blast
    then have "queues s (dequeued t Q)" using q by (simp add: queues_def dequeued_def remove1_idem)
    then show thesis using that [of s] True by simp
  next
    case False
    from q l show thesis
    proof (cases rule: remove_refines [where t = t])
      case (1 s1)
      have "(case task_state (tasks s t) of
         TASK_STATE_READY \<Rightarrow> map_option snd (task_manager_remove_task_from_queue (task_queue_level (tasks s t)) t s)
       | TASK_STATE_BLOCKED \<Rightarrow> map_option snd (task_manager_remove_task_from_queue TASK_MANAGER_QUEUE_INDEX_BLOCKED t s)
       | _ \<Rightarrow> Some s) = Some s1"
        using 1(1) st bl False by (auto simp: TASK_MANAGER_QUEUE_INDEX_BLOCKED_def TASK_MANAGER_QUEUE_LEVELS_def)
      then show thesis using that D [OF 1(2)] 1(3,4) by blast
    qed
  qed
qed


lemma only_queues_core:
  assumes "only_queues s s'"
  shows "task_core (tasks s' q) = task_core (tasks s q)" "same_heap s s'" "task_nodes s' = task_nodes s"
    "child_at s' = child_at s" "child_links s' = child_links s" "caller_task s' = caller_task s"
proof -
  obtain T q' where s': "s' = s\<lparr>tasks := T, task_queues := q'\<rparr>" "\<forall>p. task_core (T p) = task_core (tasks s p)"
    using assms unfolding only_queues_def by blast
  then show "task_core (tasks s' q) = task_core (tasks s q)" "same_heap s s'" "task_nodes s' = task_nodes s"
    "child_at s' = child_at s" "child_links s' = child_links s" "caller_task s' = caller_task s"
    by (simp_all add: same_heap_def child_at_def child_links_def fun_eq_iff)
qed

lemma task_core_exit_fields:
  "task_core t = task_core t' \<Longrightarrow> return_code t = return_code t' \<and> children t = children t' \<and> parent t = parent t' \<and>
     task_id t = task_id t' \<and> task_state t = task_state t'"
  unfolding task_core_def by (cases t; cases t') simp

text \<open>The parent is woken up, and the task goes to the end of the zombies.\<close>

definition exit_queues :: "'a kernel_scheme \<Rightarrow> u32 \<Rightarrow> (u32 \<Rightarrow> u32 list) \<Rightarrow> u32 \<Rightarrow> u32 list" where
  "exit_queues s t Q =
     (let p = parent (tasks s t); Q = dequeued t Q;
          Q = (if p \<noteq> 0 \<and> waits_for (tasks s p) (task_id (tasks s t)) then Q(4 := remove1 p (Q 4), 0 := Q 0 @ [p]) else Q)
      in Q(5 := Q 5 @ [t]))"

lemma exit_enqueues:
  assumes wf: "sched_wf s4 (dequeued t Q)" and t: "t \<noteq> 0" "t \<noteq> task_idle s4" "\<forall>i<6. t \<notin> set (dequeued t Q i)"
    "task_state (tasks s4 t) = TASK_STATE_ZOMBIE" and p: "p \<noteq> t" "waking \<Longrightarrow> p \<in> set (dequeued t Q 4)"
  obtains s' where
    "(do { s \<leftarrow> (if waking then map_option snd (task_manager_unblock_task p s4) else Some s4);
           task_manager_enqueue_task TASK_MANAGER_QUEUE_INDEX_ZOMBIE t s }) = Some s'"
    "sched_wf s' (let Q = dequeued t Q; Q = (if waking then Q(4 := remove1 p (Q 4), 0 := Q 0 @ [p]) else Q) in Q(5 := Q 5 @ [t]))"
    "only_queues (if waking then upd_task p (\<lambda>u. u\<lparr>task_state := TASK_STATE_READY\<rparr>) s4 else s4) s'"
proof -
  let ?Q = "if waking then (dequeued t Q)(4 := remove1 p (dequeued t Q 4), 0 := dequeued t Q 0 @ [p]) else dequeued t Q"
  let ?s4 = "if waking then upd_task p (\<lambda>u. u\<lparr>task_state := TASK_STATE_READY\<rparr>) s4 else s4"
  obtain s5 where s5: "(if waking then map_option snd (task_manager_unblock_task p s4) else Some s4) = Some s5"
    "sched_wf s5 ?Q" "only_queues ?s4 s5"
  proof (cases waking)
    case True
    from wf p(2) [OF True] show thesis
      by (cases rule: unblock_refines) (use that True in simp)
  next
    case False
    then show thesis using that wf by simp
  qed
  have st: "task_state (tasks s5 t) = TASK_STATE_ZOMBIE" using only_queuesD(8) [OF s5(3), of t] t(4) p(1) by (simp split: if_splits)
  have "t \<noteq> task_idle s5" using only_queuesD(1) [OF s5(3)] t(2) by (simp split: if_splits)
  moreover have "\<forall>j<6. t \<notin> set (?Q j)" using t(3) p(1) by (auto dest: notin_set_remove1 [of t])
  moreover have "(5 :: u32) < 6" by simp
  ultimately obtain s' where s': "task_manager_enqueue_task 5 t s5 = Some s'" "queues s' (?Q(5 := ?Q 5 @ [t]))" "only_queues s5 s'"
    using enqueue_refines [OF sched_wfD(1) [OF s5(2)] _ t(1)] by metis
  have "\<forall>i<6. \<forall>u \<in> set ((?Q(5 := ?Q 5 @ [t])) i). task_state (tasks s5 u) = queue_state i"
  proof (intro allI impI ballI)
    fix i :: u32 and u assume i: "i < 6" and u: "u \<in> set ((?Q(5 := ?Q 5 @ [t])) i)"
    then have "u \<in> set (?Q i) \<or> i = 5 \<and> u = t" by (auto split: if_splits)
    then show "task_state (tasks s5 u) = queue_state i"
      using sched_wfD(2) [OF s5(2) i] st by (auto simp: queue_state_def)
  qed
  note sw = sched_wf_only [OF s'(3,2) this]
  show thesis
  proof (rule that)
    show "sched_wf s' (let Q = dequeued t Q; Q = (if waking then Q(4 := remove1 p (Q 4), 0 := Q 0 @ [p]) else Q) in Q(5 := Q 5 @ [t]))"
      unfolding Let_def by (rule sw)
    show "only_queues ?s4 s'" by (rule only_queues_trans [OF s5(3) s'(3)])
    show "(do { s \<leftarrow> (if waking then map_option snd (task_manager_unblock_task p s4) else Some s4);
           task_manager_enqueue_task TASK_MANAGER_QUEUE_INDEX_ZOMBIE t s }) = Some s'"
      using s5(1) s'(1) by (simp add: TASK_MANAGER_QUEUE_INDEX_ZOMBIE_def TASK_MANAGER_QUEUE_LEVELS_def)
  qed
qed


lemma exit_task_result:
  assumes E: "may_exit s Q t ns os"
  shows "\<exists>r s'. task_manager_exit_task t code s = Some (r, s') \<and> task_state (tasks s' t) = TASK_STATE_ZOMBIE \<and>
    return_code (tasks s' t) = code \<and> task_current s' = task_current s \<and> caller_task s' = caller_task s \<and>
    (if r = TASK_MANAGER_RESULT_OK
     then sched_wf s' (exit_queues s t Q) \<and> children (tasks s' t) = 0 \<and>
       (\<forall>q. parent (tasks s' q) = (if q \<in> child_at s ` set ns then task_init s else parent (tasks s q))) \<and>
       (\<exists>ms. path (child_links s') (children (tasks s' (task_init s))) ms \<and>
          map (child_at s') ms = rev (map (child_at s) ns) @ map (child_at s) os \<and> kernel_heap_ready s' \<and> separate s' (set ms))
     else r = TASK_MANAGER_RESULT_OUT_OF_MEMORY \<and> ns \<noteq> [] \<and> queues s' (dequeued t Q))"
proof -
  have wf: "sched_wf s Q" and t: "t \<noteq> 0" "t \<noteq> task_idle s" "t \<noteq> task_init s" "task_init s \<noteq> 0"
    and h: "kernel_heap_ready s" "separate s (set ns \<union> set os)" "set ns \<inter> set os = {}"
    and c: "path (child_links s) (children (tasks s t)) ns" "path (child_links s) (children (tasks s (task_init s))) os"
    and own: "t \<notin> child_at s ` set ns" "parent (tasks s t) \<noteq> t"
    and blocked: "parent (tasks s t) \<noteq> 0 \<Longrightarrow> task_state (tasks s (parent (tasks s t))) = TASK_STATE_BLOCKED \<Longrightarrow> parent (tasks s t) \<in> set (Q 4)"
    using E by (simp_all add: may_exit_def Let_def)
  from E obtain s1 where s1: "(case task_state (tasks s t) of
         TASK_STATE_READY \<Rightarrow> map_option snd (task_manager_remove_task_from_queue (task_queue_level (tasks s t)) t s)
       | TASK_STATE_BLOCKED \<Rightarrow> map_option snd (task_manager_remove_task_from_queue TASK_MANAGER_QUEUE_INDEX_BLOCKED t s)
       | _ \<Rightarrow> Some s) = Some s1" "queues s1 (dequeued t Q)" "only_queues s s1"
    by (rule exit_dequeues)
  note O = only_queues_core [OF s1(3)] and F = task_core_exit_fields [OF only_queues_core(1) [OF s1(3)]]
  define s2 where "s2 = upd_task t (\<lambda>u. u\<lparr>task_state := TASK_STATE_ZOMBIE, return_code := code\<rparr>) s1"
  have h2: "same_heap s s2" unfolding s2_def using same_heap_trans [OF O(2) same_heap_upd(1)] .
  have S2: "task_init s2 = task_init s" "child_at s2 = child_at s" "child_links s2 = child_links s" "task_idle s2 = task_idle s"
    "\<And>q. children (tasks s2 q) = children (tasks s q)" "\<And>q. parent (tasks s2 q) = parent (tasks s q)"
    "\<And>q. task_id (tasks s2 q) = task_id (tasks s q)"
    using O F only_queuesD(1,7) [OF s1(3)] by (simp_all add: s2_def)
  have cur2: "task_current s2 = task_current s" "caller_task s2 = caller_task s"
    using O(6) only_queuesD(2) [OF s1(3)] by (simp_all add: s2_def) (simp add: upd_task_def)
  have q2: "queues s2 (dequeued t Q)" unfolding s2_def by (rule queues_upd [OF s1(2)]) simp_all
  have fresh: "t \<notin> set (dequeued t Q i)" if "i < 6" for i
    using queuesD(4) [OF sched_wfD(1) [OF wf] that] by (simp add: dequeued_def)
  have run: "task_manager_exit_task t code s = do {
       (result, s) \<leftarrow> reparent_children (children (tasks s2 t)) s2;
       if result \<noteq> TASK_MANAGER_RESULT_OK then Some (result, s)
       else let s = upd_task t (\<lambda>t. t\<lparr>children := 0\<rparr>) s; p = parent (tasks s t)
            in do {
              s \<leftarrow> (if p \<noteq> 0 \<and> waits_for (tasks s p) (task_id (tasks s t)) then map_option snd (task_manager_unblock_task p s) else Some s);
              s \<leftarrow> task_manager_enqueue_task TASK_MANAGER_QUEUE_INDEX_ZOMBIE t s;
              Some (TASK_MANAGER_RESULT_OK, s)
            }
     }" unfolding task_manager_exit_task_def s1(1) by (simp add: s2_def)
  have r2: "kernel_heap_ready s2" "separate s2 (set ns \<union> set os)" "task_init s2 \<noteq> 0"
    "path (child_links s2) (children (tasks s2 t)) ns" "path (child_links s2) (children (tasks s2 (task_init s2))) os"
    using h c t(4) S2 same_heapD(1) [OF h2] separate_same [OF h2] by simp_all
  have zt: "task_state (tasks s2 t) = TASK_STATE_ZOMBIE" "return_code (tasks s2 t) = code" by (simp_all add: s2_def)
  from reparent_result [OF r2(1,2) h(3) r2(3-5)] show ?thesis
  proof (elim disjE exE conjE)
    fix s3 A assume "reparent_children (children (tasks s2 t)) s2 = Some (TASK_MANAGER_RESULT_OUT_OF_MEMORY, s3)" "ns \<noteq> []" "adopts s2 A s3"
    then show ?thesis using run adopts_task [of s2 A s3] adopts_fields [of s2 A s3] zt sched_wf_adopts [OF q2] cur2 by simp
  next
    fix s3 ms assume a: "reparent_children (children (tasks s2 t)) s2 = Some (TASK_MANAGER_RESULT_OK, s3)"
      "adopts s2 (child_at s2 ` set ns) s3" "path (child_links s3) (children (tasks s3 (task_init s2))) (ms @ os)"
      "map (child_at s3) (ms @ os) = rev (map (child_at s2) ns) @ map (child_at s2) os"
      "kernel_heap_ready s3" "separate s3 (set (ms @ os))"
    note AT = adopts_task [OF a(2)] and AF = adopts_fields [OF a(2)]
    define s4 where "s4 = upd_task t (\<lambda>u. u\<lparr>children := 0\<rparr>) s3"
    let ?p = "parent (tasks s t)"
    have p4: "parent (tasks s4 q) = (if q \<in> child_at s ` set ns then task_init s else parent (tasks s q))" for q
      using AT(8) [of q] S2 by (cases "q = t") (simp_all add: s4_def)
    have w4: "waits_for (tasks s4 ?p) (task_id (tasks s4 t)) = waits_for (tasks s ?p) (task_id (tasks s t))"
      using AT(3,5,6,7) own(2) S2(7) only_queuesD(8,10,11) [OF s1(3)] F by (simp add: s4_def s2_def waits_for_def)
    have st4: "task_state (tasks s4 q) = (if q = t then TASK_STATE_ZOMBIE else task_state (tasks s q))" for q
      using AT(3) [of q] zt F [of q] by (cases "q = t") (simp_all add: s4_def s2_def)
    have q4: "queues s4 (dequeued t Q)"
      unfolding s4_def by (rule queues_upd [OF sched_wf_adopts [OF q2 a(2)]]) simp_all
    have wf4: "sched_wf s4 (dequeued t Q)"
      unfolding sched_wf_def
    proof (intro conjI allI impI ballI q4)
      fix i :: u32 and u assume "i < 6" "u \<in> set (dequeued t Q i)"
      then show "task_state (tasks s4 u) = queue_state i"
        using fresh [of i] sched_wfD(2) [OF wf, of i u] notin_set_remove1 st4 [of u] by (fastforce simp: dequeued_def)
    qed
    have ti: "t \<noteq> task_idle s4" "task_state (tasks s4 t) = TASK_STATE_ZOMBIE" using t(2) AF(2) S2(4) st4 [of t] by (simp_all add: s4_def)
    let ?w = "?p \<noteq> 0 \<and> waits_for (tasks s ?p) (task_id (tasks s t))"
    have "?p \<in> set (dequeued t Q 4)" if ?w
      using blocked that own(2) by (auto simp: waits_for_def dequeued_def in_set_remove1)
    then obtain s' where s': "(do { s \<leftarrow> (if ?w then map_option snd (task_manager_unblock_task ?p s4) else Some s4);
           task_manager_enqueue_task TASK_MANAGER_QUEUE_INDEX_ZOMBIE t s }) = Some s'"
      "sched_wf s' (exit_queues s t Q)" "only_queues (if ?w then upd_task ?p (\<lambda>u. u\<lparr>task_state := TASK_STATE_READY\<rparr>) s4 else s4) s'"
      using exit_enqueues [OF wf4 t(1) ti(1) _ ti(2) own(2), of ?w] fresh unfolding exit_queues_def Let_def by metis
    have "parent (tasks s4 t) = ?p" using p4 own(1) by simp
    then have x: "task_manager_exit_task t code s = Some (TASK_MANAGER_RESULT_OK, s')"
      unfolding run a(1) using s'(1) w4 by (auto simp: Let_def s4_def split: if_splits bind_splits)
    let ?s4 = "if ?w then upd_task ?p (\<lambda>u. u\<lparr>task_state := TASK_STATE_READY\<rparr>) s4 else s4"
    note C = only_queues_core [OF s'(3)] and G = task_core_exit_fields [OF only_queues_core(1) [OF s'(3)]]
    have "same_heap s3 ?s4" by (simp add: s4_def same_heap_def upd_task_def)
    then have k: "same_heap s3 s'" using C(2) by (rule same_heap_trans)
    have e: "children (tasks ?s4 q) = (if q = t then 0 else children (tasks s3 q))" "parent (tasks ?s4 q) = parent (tasks s4 q)"
      "task_state (tasks ?s4 t) = TASK_STATE_ZOMBIE" "return_code (tasks ?s4 t) = code" "child_at ?s4 = child_at s3" "child_links ?s4 = child_links s3" for q
      using own(2) ti(2) zt AT(4) by (auto simp: s4_def)
    have "task_current s' = task_current s" "caller_task s' = caller_task s"
      using only_queuesD(2) [OF s'(3)] C(6) AF(4,6) cur2 by (auto simp: s4_def upd_task_def)
    then show ?thesis
      using x s'(2) G e p4 t(3) a(3-6) C(4,5) S2(1,2) same_heapD(1) [OF k] separate_same [OF k]
      by (intro exI [of _ TASK_MANAGER_RESULT_OK] exI [of _ s']) (auto intro!: exI [of _ "ms @ os"])
  qed
qed


text \<open>
  (C4) The end of a task. The task leaves the queue of its state and becomes a zombie with the given
  code, at the end of the queue of zombies. Its children get the first task as their parent and stand
  in front of the first task's own children, the last child first. A parent that waits for this task,
  or for any child, is made ready; no other task changes its queue. When the heap has no room for the
  nodes of the children, the call fails half-way, with the task in no queue.
\<close>

theorem task_manager_exit_task_ends:
  assumes "may_exit s Q t ns os"
  shows "\<exists>r s'. task_manager_exit_task t code s = Some (r, s') \<and> task_state (tasks s' t) = TASK_STATE_ZOMBIE \<and>
    return_code (tasks s' t) = code \<and> task_current s' = task_current s \<and> caller_task s' = caller_task s \<and>
    (if r = TASK_MANAGER_RESULT_OK
     then sched_wf s' (exit_queues s t Q) \<and> children (tasks s' t) = 0 \<and>
       (\<forall>q. parent (tasks s' q) = (if q \<in> child_at s ` set ns then task_init s else parent (tasks s q))) \<and>
       (\<exists>ms. path (child_links s') (children (tasks s' (task_init s))) ms \<and>
          map (child_at s') ms = rev (map (child_at s) ns) @ map (child_at s) os \<and> kernel_heap_ready s' \<and> separate s' (set ms))
     else r = TASK_MANAGER_RESULT_OUT_OF_MEMORY \<and> ns \<noteq> [] \<and> queues s' (dequeued t Q))"
  by (rule exit_task_result [OF assms])

text \<open>The task \<open>0x300\<close> is ready, and its parent \<open>0x400\<close> waits for any child.\<close>

definition sample_exit :: kernel where
  "sample_exit = sample_kernel\<lparr>tasks := (sample_tasks)(0x300 := (sample_tasks 0x300)\<lparr>parent := 0x400\<rparr>,
     0x400 := (sample_tasks 0x400)\<lparr>wait_reason := TASK_WAIT_REASON_CHILD, wait_object := - 1\<rparr>)\<rparr>"

lemma sample_exit_ready: "may_exit sample_exit sample_queues 0x300 [] []"
proof -
  have "same_heap sample_heap sample_exit"
    by (simp add: same_heap_def sample_exit_def sample_kernel_def sample_heap_fields)
  moreover have "kernel_heap_ready sample_heap"
    using sample_heap_ready unfolding kernel_heap_ready_def by (metis sample_heap_fields(5))
  ultimately have "kernel_heap_ready sample_exit" using same_heapD(1) by blast
  moreover have "queues sample_exit sample_queues"
    by (auto simp: queues_def sample_exit_def sample_kernel_def sample_queues_def sample_tasks_def zero_task_def task_links_def)
  then have "sched_wf sample_exit sample_queues"
    by (auto simp: sched_wf_def sample_exit_def sample_kernel_def sample_queues_def sample_tasks_def zero_task_def queue_state_def)
  ultimately show ?thesis
    unfolding may_exit_def
    by (auto simp: separate_def sample_exit_def sample_kernel_def sample_tasks_def zero_task_def sample_queues_def Let_def)
qed

theorem task_manager_exit_task_ends_witness:
  "may_exit sample_exit sample_queues 0x300 [] [] \<and> exit_queues sample_exit 0x300 sample_queues 0 = [0x400] \<and>
   (\<exists>r s'. task_manager_exit_task 0x300 7 sample_exit = Some (r, s') \<and> task_state (tasks s' 0x300) = TASK_STATE_ZOMBIE \<and>
      (r = TASK_MANAGER_RESULT_OK \<longrightarrow> sched_wf s' (exit_queues sample_exit 0x300 sample_queues)))"
proof -
  have "exit_queues sample_exit 0x300 sample_queues 0 = [0x400]"
    by (simp add: exit_queues_def sample_exit_def sample_tasks_def zero_task_def sample_queues_def waits_for_def dequeued_def)
  then show ?thesis using task_manager_exit_task_ends [OF sample_exit_ready, of 7] sample_exit_ready by (metis (full_types))
qed

text \<open>
  The first task's pointer to its last child is not set when it gets its first children this way, and
  the next addition to its list is a fault.
\<close>

lemma adopts_tail:
  assumes "adopts s A s'"
  shows "children_tail (tasks s' q) = children_tail (tasks s q)"
proof -
  have "tasks s' q = adopted s A (children (tasks s' (task_init s))) q" using assms unfolding adopts_def by metis
  then show ?thesis by (simp add: adopted_def)
qed

lemma orphans_break_children:
  assumes "kernel_heap_ready s" "separate s (set ns)" "task_init s \<noteq> 0" "path (child_links s) head ns" "ns \<noteq> []"
    "children (tasks s (task_init s)) = 0" "children_tail (tasks s (task_init s)) = 0"
    "reparent_children head s = Some (TASK_MANAGER_RESULT_OK, s')"
  shows "task_manager_add_child_to_task (task_init s) child s' = None"
proof -
  have "path (child_links s) (children (tasks s (task_init s))) []" using assms(6) by simp
  from reparent_result [OF assms(1) _ _ assms(3,4) this] assms(2,8) obtain ms where
    ms: "adopts s (child_at s ` set ns) s'" "path (child_links s') (children (tasks s' (task_init s))) ms"
      "map (child_at s') ms = rev (map (child_at s) ns)" "kernel_heap_ready s'" by auto
  then have "children (tasks s' (task_init s)) \<noteq> 0" using assms(5) by (cases ms) auto
  moreover have "children_tail (tasks s' (task_init s)) = 0" using adopts_tail [OF ms(1)] assms(7) by simp
  moreover obtain n s2 where m: "kernel_heap_malloc sizeof_task_node_t s' = Some (n, s2)" "heap_machine.more s2 = heap_machine.more s'"
  proof -
    have "heap_request_fits sizeof_task_node_t" by (simp add: heap_request_fits_def sizeof_task_node_t_def)
    with ms(4) show thesis by (cases rule: heap_malloc_client) (use that in \<open>simp add: others_kept_def\<close>)
  qed
  ultimately show ?thesis using more_kernel(1) [OF m(2)] by (simp add: task_manager_add_child_to_task_def m(1))
qed

end
