(* ===== verification/Signals.thy ===== *)
theory Signals
  imports Syscalls Task_Tree
begin

text \<open>
  Signals: how \<^verbatim>\<open>task_manager_deliver_signal\<close> of \<^verbatim>\<open>src/task_manager.c\<close> and the system calls \<^verbatim>\<open>kill\<close>,
  \<^verbatim>\<open>sigaction\<close> and \<^verbatim>\<open>sigreturn\<close> of \<^verbatim>\<open>src/syscall.c\<close> work together.
\<close>

unbundle bit_operations_syntax

section \<open>The stack of the target\<close>

text \<open>Every page of the range is mapped, to a frame other than the first one.\<close>

definition range_mapped :: "'a machine_scheme \<Rightarrow> u32 \<Rightarrow> u32 \<Rightarrow> u32 \<Rightarrow> bool" where
  "range_mapped s root va len \<longleftrightarrow> (\<forall>page \<in> set (pages_between (ALIGN_DOWN va) (ALIGN_UP (va + len))).
     page_directory_index page < 1022 \<and> (\<exists>p. translate (pmem s) False root page = Some p \<and> p \<noteq> 0))"

definition walkable :: "'a machine_scheme \<Rightarrow> u32 \<Rightarrow> bool" where
  "walkable s root \<longleftrightarrow> bounce_ready s \<and> (\<exists>i<16. bounce_pages_used s i = 0) \<and>
     address_space (pmem s) root (used_frames (memory_bitmap s)) \<and> companion (pmem s) (cr3 s) root"

lemma user_range_mapped_True:
  assumes "walkable s root" "range_mapped s root va len"
  shows "task_manager_user_range_mapped root va len s = Some (True, s)"
proof -
  have "all_mapped root pages s = Some (True, s)"
    if "\<forall>page \<in> set pages. page_directory_index page < 1022 \<and> (\<exists>p. translate (pmem s) False root page = Some p \<and> p \<noteq> 0)" for pages
    using that
  proof (induction pages)
    case (Cons page pages)
    then obtain p where p: "translate (pmem s) False root page = Some p" "p \<noteq> 0" "page_directory_index page < 1022" by auto
    have "memory_paging_virtual_to_physical root page s = Some (p, s)"
      using assms(1) p virtual_to_physical_cases [of s root page] unfolding walkable_def by (metis option.distinct(1) option.inject)
    then show ?case using Cons p by simp
  qed simp
  then show ?thesis using assms(2) unfolding task_manager_user_range_mapped_def range_mapped_def by blast
qed

section \<open>Delivery to the running task\<close>

lemma signal_memory:
  fixes m :: cmem
  defines "m' \<equiv> \<lambda>esp sig. store_u32 (esp - 17) (esp - 9) (store_u32 (esp - 13) sig
     (fold (\<lambda>(i, c) m. m((esp - 9) + of_nat i := c)) (enumerate 0 trampoline) m))"
  shows "load_u32 (m' esp sig) (esp - 17) = esp - 9" "load_u32 (m' esp sig) (esp - 13) = sig"
    "bytes_at (m' esp sig) (esp - 9) 9 = trampoline" "q \<notin> range_of (esp - 17) 17 \<Longrightarrow> m' esp sig q = m q"
proof -
  have tl: "length trampoline = 9" by (simp add: trampoline_def word_bytes_def)
  have r: "q \<in> range_of (esp - 17) 4 \<longleftrightarrow> unat (q - esp + 17) < 4" "q \<in> range_of (esp - 13) 4 \<longleftrightarrow> unat (q - esp + 13) < 4"
    "q \<in> range_of (esp - 9) 9 \<longleftrightarrow> unat (q - esp + 9) < 9" "q \<in> range_of (esp - 17) 17 \<longleftrightarrow> unat (q - esp + 17) < 17" for q
    by (simp_all add: in_range_of algebra_simps)
  have d: "unat (x + 17) < 4 \<Longrightarrow> \<not> unat (x + 13) < 4 \<and> \<not> unat (x + 9) < 9" "unat (x + 13) < 4 \<Longrightarrow> \<not> unat (x + 9) < 9"
    "\<not> unat (x + 17) < 17 \<Longrightarrow> \<not> unat (x + 17) < 4 \<and> \<not> unat (x + 13) < 4 \<and> \<not> unat (x + 9) < 9" for x :: u32
    by unat_arith+
  show "load_u32 (m' esp sig) (esp - 17) = esp - 9" by (simp add: m'_def)
  have "load_u32 (m' esp sig) (esp - 13) = load_u32 (store_u32 (esp - 13) sig
     (fold (\<lambda>(i, c) m. m((esp - 9) + of_nat i := c)) (enumerate 0 trampoline) m)) (esp - 13)"
    unfolding m'_def by (rule load_u32_cong) (use r d(1) in \<open>auto intro!: store_u32_other\<close>)
  then show "load_u32 (m' esp sig) (esp - 13) = sig" by simp
  have "m' esp sig (esp - 9 + of_nat i) = trampoline ! i" if i: "i < 9" for i
  proof -
    have "unat (of_nat i :: u32) = i" using i by (simp add: unat_of_nat_u32)
    then have "esp - 9 + of_nat i \<in> range_of (esp - 9) 9" using i by (simp add: r(3))
    then have "esp - 9 + of_nat i \<notin> range_of (esp - 17) 4" "esp - 9 + of_nat i \<notin> range_of (esp - 13) 4"
      using d r by blast+
    then show ?thesis
      using i \<open>unat (of_nat i :: u32) = i\<close> \<open>esp - 9 + of_nat i \<in> range_of (esp - 9) 9\<close>
      by (simp add: m'_def store_u32_other store_bytes_apply tl)
  qed
  then show "bytes_at (m' esp sig) (esp - 9) 9 = trampoline" using bytes_at_eqI [of trampoline] tl by metis
  show "q \<notin> range_of (esp - 17) 17 \<Longrightarrow> m' esp sig q = m q"
    using d(3) by (simp add: r m'_def store_u32_other store_bytes_apply tl)
qed

lemma deliver_self:
  fixes s :: "'a kernel_scheme"
  assumes "t = task_current s" "walkable s (task_cr3 (tasks s t))" "esp = frame_useresp (syscall_frame s)"
    "17 \<le> esp" "range_mapped s (task_cr3 (tasks s t)) (esp - 17) 17"
  shows "task_manager_deliver_signal t sig handler s = Some (
    (upd_task t (\<lambda>u. u\<lparr>saved_signal_frame := syscall_frame s, in_signal_handler := 1, saved_syscall_retry := syscall_retry u, syscall_retry := 0\<rparr>) s)
      \<lparr>heap_data := store_u32 (esp - 17) (esp - 9) (store_u32 (esp - 13) sig
         (fold (\<lambda>(i, c) m. m((esp - 9) + of_nat i := c)) (enumerate 0 trampoline) (heap_data s))),
       syscall_frame := (syscall_frame s)\<lparr>frame_useresp := esp - 17, frame_eip := handler\<rparr>\<rparr>)"
proof -
  have e: "esp - 9 - 4 = esp - 13" "esp - 13 - 4 = esp - 17" by simp_all
  show ?thesis
    using assms user_range_mapped_True [OF assms(2,5)]
    by (simp add: task_manager_deliver_signal_def target_frame_def write_signal_frame_def Let_def leD e)
      (simp add: upd_task_def)
qed


text \<open>The system call \<^verbatim>\<open>sigreturn\<close> through the handler.\<close>

lemma sigreturn_handler:
  fixes u :: "'a kernel_sys_scheme"
  assumes "t = task_current u" "t \<noteq> 0" "syscall_retry (tasks u t) = 0" "in_signal_handler (tasks u t) \<noteq> 0"
    "saved_signal_frame (tasks u t) = f" "frame_eax data = SYSCALL_SIGRETURN"
  shows "\<exists>v. syscall_handler data u = Some (f, v) \<and> syscall_frame v = f \<and> in_signal_handler (tasks v t) = 0 \<and>
    syscall_retry (tasks v t) = 0 \<and> heap_data v = heap_data u"
  using assms
  by (simp add: syscall_handler_def Let_def execution_of_def upd_caller_def syscall_dispatch_def syscall_sigreturn_def
      return_eax_def upd_task_def SYSCALL_OPEN_def SYSCALL_CLOSE_def SYSCALL_READ_def SYSCALL_WRITE_def SYSCALL_FORK_def
      SYSCALL_EXECVE_def SYSCALL_EXIT_def SYSCALL_WAITPID_def SYSCALL_SBRK_def SYSCALL_ISATTY_def SYSCALL_GETPID_def
      SYSCALL_LSEEK_def SYSCALL_FCNTL_def SYSCALL_IOCTL_def SYSCALL_FSTAT_def SYSCALL_STAT_def SYSCALL_LINK_def
      SYSCALL_UNLINK_def SYSCALL_TIMES_def SYSCALL_KILL_def SYSCALL_SIGACTION_def SYSCALL_SIGRETURN_def)


section \<open>A small system\<close>

text \<open>
  The directory \<open>0x1000\<close> of the running task maps the page \<open>0xBFFFD000\<close> of its stack to the frame
  \<open>0x5000\<close> through the page table \<open>0x4000\<close>.
\<close>

definition user_pmem :: "u32 \<Rightarrow> u32" where
  "user_pmem a = (if a = entry_at 0x1000 767 then 0x4007 else if a = entry_at 0x4000 1021 then 0x5007 else heap_pmem a)"

definition sample_terminal :: terminal_t where
  "sample_terminal = \<lparr>buffer = (\<lambda>_. nul_char), cursor_x = 0, cursor_y = 0, overflow = TERMINAL_OVERFLOW_NEW_LINE, scroll = TERMINAL_SCROLL_VERTICAL,
     width = 80, height = 25\<rparr>"

definition sample_sys :: kernel_sys where
  "sample_sys = (kernel_io.extend (kernel_fs.extend sample_fs (kernel_io.fields sample_terminal sample_framebuffer 0x800 0x810))
     (kernel_sys.fields \<lparr>op_close = 1, op_read = 2, op_write = 3, op_ioctl = 4\<rparr> 0xCFFFF000 0xCFFFF100 True))
     \<lparr>pmem := user_pmem, memory_bitmap := (memory_bitmap sample_heap)\<lparr>entries := (\<lambda>i. if i = 0 then 0x3F else 0)\<rparr>,
      tasks := sample_tasks(0x200 := (sample_tasks 0x200)\<lparr>task_cr3 := 0x1000, task_is_user := 1\<rparr>),
      syscall_frame := zero_frame\<lparr>frame_useresp := 0xBFFFDF00, frame_eip := 0x400000, frame_eax := 9\<rparr>\<rparr>"


lemma sample_sys_fields:
  "pmem sample_sys = user_pmem" "cr3 sample_sys = 0x1000" "\<not> cr4_pse sample_sys" "bounce_pages_used sample_sys = (\<lambda>i. 0)"
  "memory_bitmap sample_sys = (memory_bitmap sample_heap)\<lparr>entries := (\<lambda>i. if i = 0 then 0x3F else 0)\<rparr>"
  "task_current sample_sys = 0x200" "caller_task sample_sys = 0x200"
  "tasks sample_sys = sample_tasks(0x200 := (sample_tasks 0x200)\<lparr>task_cr3 := 0x1000, task_is_user := 1\<rparr>)"
  "syscall_frame sample_sys = zero_frame\<lparr>frame_useresp := 0xBFFFDF00, frame_eip := 0x400000, frame_eax := 9\<rparr>"
  by (simp_all add: sample_sys_def sample_fs_def sample_kernel_keyboard_def sample_kernel_def sample_heap_fields
      kernel_io.defs kernel_sys.defs kernel_keyboard.defs kernel_fs.defs kernel.defs)

lemma user_entries [simp]:
  assumes "i < 1024"
  shows "user_pmem (entry_at 0x1000 i) = (if i = 767 then 0x4007 else heap_pmem (entry_at 0x1000 i))"
    "user_pmem (entry_at 0x4000 i) = (if i = 1021 then 0x5007 else 0)"
    "user_pmem (entry_at 0x2000 i) = 0"
proof -
  have a: "ALIGN_DOWN 0x4000 = (0x4000 :: u32)" by (simp add: ALIGN_DOWN_def PAGE_SIZE_def)
  show "user_pmem (entry_at 0x1000 i) = (if i = 767 then 0x4007 else heap_pmem (entry_at 0x1000 i))"
    "user_pmem (entry_at 0x4000 i) = (if i = 1021 then 0x5007 else 0)" "user_pmem (entry_at 0x2000 i) = 0"
    using assms a by (simp_all add: user_pmem_def heap_pmem_def entry_at_eq_iff)
qed

lemma user_flags [simp]: "ALIGN_DOWN 0x4007 = (0x4000 :: u32)" "ALIGN_DOWN 0x5007 = (0x5000 :: u32)" "entry_present 0x4007" "entry_present 0x5007"
  by (simp_all add: ALIGN_DOWN_def PAGE_SIZE_def entry_present_def PAGE_PRESENT_def)

lemma sample_sys_walkable: "walkable sample_sys 0x1000"
proof -
  let ?U = "used_frames (memory_bitmap sample_sys)"
  have "ALIGN_DOWN 0x4000 = (0x4000 :: u32)" "ALIGN_DOWN 0x5000 = (0x5000 :: u32)" by (simp_all add: ALIGN_DOWN_def PAGE_SIZE_def)
  then have u: "bitmap_wf (memory_bitmap sample_sys)" "{0x1000, 0x2000, 0x3000, 0x4000, 0x5000} \<subseteq> ?U"
    by (simp_all add: sample_sys_fields sample_heap_def kernel_heap_module_init_def bitmap_wf_def used_frames_def page_used_def
        BITMAP_TEST_def bitmap_bit_def PAGE_SIZE_def)
  then have a: "address_space user_pmem 0x1000 ?U" by (auto simp: address_space_def index_1023)
  then have "bounce_ready sample_sys"
    using u bounce_index(4) by (auto simp: bounce_ready_def machine_wf_def bounce_table_def sample_sys_fields)
  moreover have "companion user_pmem 0x1000 0x1000" by (auto simp: companion_def index_1023)
  ultimately show ?thesis using a by (auto simp: walkable_def sample_sys_fields intro: exI [of _ 0])
qed

lemma sample_sys_stack: "range_mapped sample_sys 0x1000 (0xBFFFDF00 - 17) 17"
proof -
  have "pages_between (ALIGN_DOWN (0xBFFFDF00 - 17)) (ALIGN_UP (0xBFFFDF00 - 17 + 17)) = [0xBFFFD000]"
    by (simp add: pages_between_def ALIGN_DOWN_def ALIGN_UP_def PAGE_SIZE_def)
  moreover have "page_directory_index 0xBFFFD000 = 767" "page_table_index 0xBFFFD000 = 1021" "page_offset 0xBFFFD000 = 0"
    by (simp_all add: page_directory_index_def page_table_index_def page_offset_def drop_bit_eq_div)
  ultimately show ?thesis by (simp add: range_mapped_def sample_sys_fields translate_leaf leaf_def)
qed

section \<open>Properties\<close>

text \<open>
  (C15) A signal that the running task handles. Its frame is changed so that it runs the handler on a
  stack with, from the top down, the code of the trampoline, the number of the signal and the return
  address of the handler, which is the trampoline; no other byte of memory is written. The trampoline
  makes the system call \<^verbatim>\<open>sigreturn\<close>, and whatever the handler has done to memory and to its
  registers, that call gives the interrupted frame back, every register included, and ends the
  handling of the signal.
\<close>

theorem signal_delivery_roundtrip:
  fixes s :: "'a kernel_sys_scheme"
  assumes "t = task_current s" "t \<noteq> 0" "walkable s (task_cr3 (tasks s t))" "esp = frame_useresp (syscall_frame s)"
    "17 \<le> esp" "range_mapped s (task_cr3 (tasks s t)) (esp - 17) 17"
  shows "\<exists>s'. task_manager_deliver_signal t sig handler s = Some s' \<and>
    syscall_frame s' = (syscall_frame s)\<lparr>frame_useresp := esp - 17, frame_eip := handler\<rparr> \<and>
    load_u32 (heap_data s') (esp - 17) = esp - 9 \<and> load_u32 (heap_data s') (esp - 13) = sig \<and>
    bytes_at (heap_data s') (esp - 9) 9 = CHR 0xB8 # word_bytes SYSCALL_SIGRETURN @ [CHR 0xCD, CHR 0x80, CHR 0xEB, CHR 0xFE] \<and>
    (\<forall>q. q \<notin> range_of (esp - 17) 17 \<longrightarrow> heap_data s' q = heap_data s q) \<and>
    (\<forall>u data. task_current u = t \<and> frame_eax data = SYSCALL_SIGRETURN \<and> syscall_retry (tasks u t) = syscall_retry (tasks s' t) \<and>
       saved_signal_frame (tasks u t) = saved_signal_frame (tasks s' t) \<and> in_signal_handler (tasks u t) = in_signal_handler (tasks s' t) \<longrightarrow>
       (\<exists>v. syscall_handler data (u :: 'a kernel_sys_scheme) = Some (syscall_frame s, v) \<and> in_signal_handler (tasks v t) = 0 \<and>
          heap_data v = heap_data u))"
proof -
  define s' where "s' = (upd_task t (\<lambda>u. u\<lparr>saved_signal_frame := syscall_frame s, in_signal_handler := 1,
        saved_syscall_retry := syscall_retry u, syscall_retry := 0\<rparr>) s)
      \<lparr>heap_data := store_u32 (esp - 17) (esp - 9) (store_u32 (esp - 13) sig
         (fold (\<lambda>(i, c) m. m((esp - 9) + of_nat i := c)) (enumerate 0 trampoline) (heap_data s))),
       syscall_frame := (syscall_frame s)\<lparr>frame_useresp := esp - 17, frame_eip := handler\<rparr>\<rparr>"
  have D: "task_manager_deliver_signal t sig handler s = Some s'"
    unfolding s'_def by (rule deliver_self [OF assms(1,3-6)])
  have S: "saved_signal_frame (tasks s' t) = syscall_frame s" "in_signal_handler (tasks s' t) = 1" "syscall_retry (tasks s' t) = 0"
    by (simp_all add: s'_def upd_task_def)
  have R: "\<exists>v. syscall_handler data u = Some (syscall_frame s, v) \<and> in_signal_handler (tasks v t) = 0 \<and> heap_data v = heap_data u"
    if "task_current u = t" "frame_eax data = SYSCALL_SIGRETURN" "syscall_retry (tasks u t) = syscall_retry (tasks s' t)"
      "saved_signal_frame (tasks u t) = saved_signal_frame (tasks s' t)" "in_signal_handler (tasks u t) = in_signal_handler (tasks s' t)"
    for u :: "'a kernel_sys_scheme" and data
    using sigreturn_handler [of t u "syscall_frame s" data] that S assms(2) by auto
  note M = signal_memory [where m = "heap_data s" and esp = esp and sig = sig]
  show ?thesis
    using D R M by (intro exI [of _ s']) (simp add: s'_def trampoline_def)
qed

theorem signal_delivery_roundtrip_witness:
  "walkable sample_sys 0x1000 \<and> range_mapped sample_sys 0x1000 (0xBFFFDF00 - 17) 17 \<and>
   (\<exists>s'. task_manager_deliver_signal 0x200 2 0x401000 sample_sys = Some s' \<and> frame_eip (syscall_frame s') = 0x401000 \<and>
      frame_useresp (syscall_frame s') = 0xBFFFDEEF)"
proof -
  have "\<exists>s'. task_manager_deliver_signal 0x200 2 0x401000 sample_sys = Some s' \<and>
      syscall_frame s' = (syscall_frame sample_sys)\<lparr>frame_useresp := 0xBFFFDF00 - 17, frame_eip := 0x401000\<rparr>"
    using signal_delivery_roundtrip [of "0x200" sample_sys "0xBFFFDF00" 2 "0x401000"] sample_sys_walkable sample_sys_stack
    by (auto simp: sample_sys_fields)
  then show ?thesis using sample_sys_walkable sample_sys_stack by auto
qed

unbundle bit_operations_syntax

section \<open>The status of a task that has ended\<close>

definition WIFEXITED :: "u32 \<Rightarrow> bool" where "WIFEXITED status \<longleftrightarrow> status AND 0x7F = 0"
definition WEXITSTATUS :: "u32 \<Rightarrow> u32" where "WEXITSTATUS status = drop_bit 8 status AND 0xFF"
definition WIFSIGNALED :: "u32 \<Rightarrow> bool" where "WIFSIGNALED status \<longleftrightarrow> drop_bit 1 ((status AND 0x7F) + 1) > 0"
definition WTERMSIG :: "u32 \<Rightarrow> u32" where "WTERMSIG status = status AND 0x7F"

lemma exit_status_decodes:
  "WIFEXITED (push_bit 8 (code AND 0xFF))" "\<not> WIFSIGNALED (push_bit 8 (code AND 0xFF))"
  "WEXITSTATUS (push_bit 8 (code AND 0xFF)) = code AND 0xFF"
proof -
  have m: "(0xFF :: u32) = mask 8" "(0x7F :: u32) = mask 7" by (simp_all add: mask_eq_exp_minus_1)
  have z: "push_bit 8 (code AND 0xFF) AND 0x7F = 0"
    unfolding m by (rule bit_word_eqI) (auto simp: bit_simps)
  show "WIFEXITED (push_bit 8 (code AND 0xFF))" "\<not> WIFSIGNALED (push_bit 8 (code AND 0xFF))"
    using z by (simp_all add: WIFEXITED_def WIFSIGNALED_def)
  show "WEXITSTATUS (push_bit 8 (code AND 0xFF)) = code AND 0xFF"
    unfolding WEXITSTATUS_def m by (rule bit_word_eqI) (auto simp: bit_simps)
qed

lemma signal_status_decodes:
  assumes "0 < sig" "sig < 0x7F"
  shows "\<not> WIFEXITED (sig AND 0x7F)" "WIFSIGNALED (sig AND 0x7F)" "WTERMSIG (sig AND 0x7F) = sig"
proof -
  have m: "mask 7 = (0x7F :: u32)" by (simp add: mask_eq_exp_minus_1)
  have "unat sig < 128" using assms(2) by (simp add: word_less_nat_alt)
  then have "unat (sig AND mask 7) = unat sig" by (simp add: unat_and_mask)
  then have s: "sig AND 0x7F = sig" unfolding m by (simp add: unsigned_word_eqI)
  have "unat sig > 0" using assms(1) by (simp add: word_less_nat_alt)
  moreover have "unat (sig + 1) = unat sig + 1" using word_less_unat_Suc [OF assms(2)] by simp
  ultimately have "unat (drop_bit 1 (sig + 1)) > 0" by (simp add: drop_bit_eq_div unat_div)
  then have "drop_bit 1 (sig + 1) > 0" by (simp add: word_less_nat_alt)
  then show "\<not> WIFEXITED (sig AND 0x7F)" "WIFSIGNALED (sig AND 0x7F)" "WTERMSIG (sig AND 0x7F) = sig"
    using assms(1) s by (simp_all add: WIFEXITED_def WIFSIGNALED_def WTERMSIG_def)
qed



text \<open>The running task \<open>0x200\<close>, the first one, kills its child \<open>0x300\<close> with signal 9.\<close>

definition sample_kill :: kernel_sys where
  "sample_kill = sample_sys\<lparr>pmem := heap_pmem, memory_bitmap := memory_bitmap sample_heap, heap_break := 0xF0002000,
     hdr_size := (hdr_size sample_heap)(0xF0000000 := 6),
     tasks := sample_tasks(0x200 := (sample_tasks 0x200)\<lparr>task_is_user := 1, children := 0xF0000008, children_tail := 0xF0000008,
         syscall_execution := \<lparr>syscall_index = SYSCALL_KILL, parameters = (\<lambda>_. 0)(0 := 3, 1 := 9)\<rparr>\<rparr>),
     task_nodes := (\<lambda>_. \<lparr>node_task = 0x300, node_next = 0, node_previous = 0\<rparr>)\<rparr>"

lemma sample_kill_fields:
  "tasks sample_kill = sample_tasks(0x200 := (sample_tasks 0x200)\<lparr>task_is_user := 1, children := 0xF0000008, children_tail := 0xF0000008,
     syscall_execution := \<lparr>syscall_index = SYSCALL_KILL, parameters = (\<lambda>_. 0)(0 := 3, 1 := 9)\<rparr>\<rparr>)"
  "task_init sample_kill = 0x200" "caller_task sample_kill = 0x200"
  "task_nodes sample_kill = (\<lambda>_. \<lparr>node_task = 0x300, node_next = 0, node_previous = 0\<rparr>)"
  "task_queues sample_kill = task_queues sample_kernel" "task_idle sample_kill = 0x100" "same_heap sample_resources sample_kill"
  by (simp_all add: sample_kill_def sample_sys_def sample_fs_def sample_kernel_keyboard_def sample_kernel_def sample_heap_fields
      sample_resources_def same_heap_def kernel_io.defs kernel_sys.defs kernel_keyboard.defs kernel_fs.defs kernel.defs)

lemma sample_kill_children: "child_links sample_kill = (\<lambda>_. 0)" "child_at sample_kill = (\<lambda>_. 0x300)"
  by (simp_all add: child_links_def child_at_def fun_eq_iff sample_kill_fields)

lemma sample_kill_ready: "may_exit sample_kill sample_queues 0x300 [] [0xF0000008]"
proof -
  have "queues sample_kill sample_queues"
    by (auto simp: queues_def sample_kill_fields sample_kernel_def sample_queues_def sample_tasks_def zero_task_def task_links_def)
  then have "sched_wf sample_kill sample_queues"
    by (auto simp: sched_wf_def sample_kill_fields sample_queues_def sample_tasks_def zero_task_def queue_state_def)
  moreover have "kernel_heap_ready sample_kill" "separate sample_kill {0xF0000008}"
    using sample_resources_heap same_heapD [OF sample_kill_fields(7)] by (simp_all add: separate_def)
  ultimately show ?thesis
    unfolding may_exit_def by (auto simp: sample_kill_fields sample_kill_children sample_tasks_def zero_task_def sample_queues_def Let_def)
qed


end
