(* ===== verification/Syscall_Memory.thy ===== *)
theory Syscall_Memory
  imports Signals
begin

text \<open>
  Memory of the calling task in the system calls of \<^verbatim>\<open>src/syscall.c\<close>: the test of a buffer keeps the
  kernel's half from being written, and \<^verbatim>\<open>sbrk\<close> keeps the heap of the task in its bounds.
\<close>

unbundle bit_operations_syntax

section \<open>Buffers of the calling task\<close>

lemma unat_kernel_start: "unat KERNEL_VIRTUAL_SPACE_START = 0xC0000000"
  by (simp add: KERNEL_VIRTUAL_SPACE_START_def)

lemma in_range_unat:
  assumes "unat p + n \<le> 2 ^ 32"
  shows "q \<in> range_of p n \<longleftrightarrow> unat p \<le> unat q \<and> unat q < unat p + n"
proof -
  have n: "n \<le> 2 ^ 32" using assms by simp
  show ?thesis
  proof (cases "p \<le> q")
    case True
    then show ?thesis unfolding in_range_of [OF n] unat_sub [OF True] by (auto simp: word_le_nat_alt)
  next
    case False
    then have lt: "unat q < unat p" by (simp add: word_le_nat_alt)
    have "unat (q - p) = 2 ^ 32 + unat q - unat p" using lt unat_u32 [of p] by (simp add: unat_sub_if_size word_size)
    then show ?thesis unfolding in_range_of [OF n] using lt assms by simp
  qed
qed

text \<open>A range that goes over the end of the address space has a byte at its end.\<close>

lemma range_wraps:
  assumes "2 ^ 32 < unat p + n" "n \<le> 2 ^ 32"
  shows "- 1 \<in> range_of p n"
  unfolding in_range_of [OF assms(2)]
proof -
  have "unat (- 1 - p) = 2 ^ 32 - 1 - unat p" 
    by (simp add: unat_sub_if_size unsigned_minus_1_eq_mask mask_eq_exp_minus_1 word_size) (use unat_u32 [of p] in simp)
  then show "unat (- 1 - p) < n" using assms unat_u32 [of p] by simp
qed

lemma validate_range:
  assumes "task_is_user (SYSCALL_TASK s) \<noteq> 0"
  shows "syscall_validate_user_buffer buf len s = SYSCALL_RESULT_OK \<longleftrightarrow>
    unat buf < 0xC0000000 \<and> unat buf + unat len \<le> 0xC0000000"
proof (cases "unat buf + unat len < 2 ^ 32")
  case True
  then have "unat (buf + len) = unat buf + unat len" by (simp add: unat_word_ariths)
  then show ?thesis using assms
    by (auto simp: syscall_validate_user_buffer_def Let_def word_less_nat_alt word_le_nat_alt unat_kernel_start)
next
  case False
  then have "unat (buf + len) = unat buf + unat len - 2 ^ 32"
    using unat_u32 [of buf] unat_u32 [of len] by (simp add: unat_word_ariths le_mod_geq)
  then have "buf + len < buf" using unat_u32 [of len] False by (simp add: word_less_nat_alt)
  then show ?thesis using assms False by (auto simp: syscall_validate_user_buffer_def Let_def)
qed

lemma validate_bytes:
  assumes "task_is_user (SYSCALL_TASK s) \<noteq> 0"
  shows "syscall_validate_user_buffer buf len s = SYSCALL_RESULT_OK \<longleftrightarrow>
    buf < KERNEL_VIRTUAL_SPACE_START \<and> (\<forall>q \<in> range_of buf (unat len). q < KERNEL_VIRTUAL_SPACE_START)"
proof (cases "unat buf + unat len \<le> 2 ^ 32")
  case True
  have "(\<forall>q \<in> range_of buf (unat len). unat q < 0xC0000000) \<longleftrightarrow> unat buf + unat len \<le> 0xC0000000" if b: "unat buf < 0xC0000000"
  proof
    assume a: "\<forall>q \<in> range_of buf (unat len). unat q < 0xC0000000"
    show "unat buf + unat len \<le> 0xC0000000"
    proof (rule ccontr)
      assume "\<not> ?thesis"
      then have "unat (0xC0000000 :: u32) < unat buf + unat len" "unat buf \<le> unat (0xC0000000 :: u32)" using b by simp_all
      then have "0xC0000000 \<in> range_of buf (unat len)" using in_range_unat [OF True] by blast
      then show False using a by force
    qed
  next
    assume "unat buf + unat len \<le> 0xC0000000"
    then show "\<forall>q \<in> range_of buf (unat len). unat q < 0xC0000000" using in_range_unat [OF True] by auto
  qed
  then show ?thesis unfolding validate_range [OF assms] by (auto simp: word_less_nat_alt unat_kernel_start)
next
  case False
  have "unat len \<le> 2 ^ 32" using unat_u32 [of len] by simp
  then have "- 1 \<in> range_of buf (unat len)" using range_wraps False by simp
  moreover have "\<not> (- 1 :: u32) < KERNEL_VIRTUAL_SPACE_START" by (simp add: KERNEL_VIRTUAL_SPACE_START_def)
  ultimately have "\<not> (\<forall>q \<in> range_of buf (unat len). q < KERNEL_VIRTUAL_SPACE_START)" by blast
  moreover have "\<not> unat buf + unat len \<le> 0xC0000000" using False by simp
  ultimately show ?thesis unfolding validate_range [OF assms] by blast
qed


text \<open>Stores into a buffer that was accepted.\<close>

lemma range_of_sub: "k + n \<le> m \<Longrightarrow> m < 2 ^ 32 \<Longrightarrow> range_of (p + of_nat k) n \<subseteq> range_of p m"
proof
  fix q assume k: "k + n \<le> m" "m < 2 ^ 32" and "q \<in> range_of (p + of_nat k) n"
  then obtain i where "i < n" "q = p + of_nat k + of_nat i" by (auto simp: range_of_def)
  then have "q = p + of_nat (k + i)" "k + i < m" using k by simp_all
  then show "q \<in> range_of p m" unfolding range_of_def by blast
qed

lemma store_u32_within:
  assumes "q \<notin> range_of p n" "k + 4 \<le> n" "n < 2 ^ 32"
  shows "store_u32 (p + of_nat k) v m q = m q"
  using range_of_sub [OF assms(2,3), of p] assms(1) by (intro store_u32_other) blast

lemma store_u32_front:
  assumes "q \<notin> range_of p n" "4 \<le> n" "n < 2 ^ 32"
  shows "store_u32 p v m q = m q"
  using store_u32_within [of q p n 0] assms by simp

lemma fill_stat_bytes:
  assumes "q \<notin> range_of out 40"
  shows "heap_data (syscall_fill_stat kind res n out s) q = heap_data s q"
proof -
  have "memset_loop 40 (heap_data s) out nul q = heap_data s q" using assms by (simp add: memset_loop_apply)
  then show ?thesis
    using store_u32_within [OF assms, of 12] store_u32_within [OF assms, of 28] store_u32_within [OF assms, of 8]
    by (simp add: syscall_fill_stat_def memset_def sizeof_stat_def)
qed

lemma sigaction_bytes:
  assumes "task_is_user (SYSCALL_TASK s) \<noteq> 0" "KERNEL_VIRTUAL_SPACE_START \<le> q"
  shows "heap_data (snd (syscall_sigaction s)) q = heap_data s q"
proof -
  have "store_u32 p v m q = m q" if "syscall_validate_user_buffer p sizeof_sigaction s = SYSCALL_RESULT_OK" for p v m
  proof -
    have "q \<notin> range_of p 4" using that assms(2) unfolding validate_bytes [OF assms(1)] by (auto simp: sizeof_sigaction_def)
    then show ?thesis by (rule store_u32_other)
  qed
  then show ?thesis by (simp add: syscall_sigaction_def Let_def upd_caller_def upd_task_def)
qed

lemma times_bytes:
  assumes "task_is_user (SYSCALL_TASK s) \<noteq> 0" "KERNEL_VIRTUAL_SPACE_START \<le> q"
  shows "heap_data (snd (syscall_times s)) q = heap_data s q"
proof (cases "syscall_validate_user_buffer (SYSCALL_GET_PARAMETER 0 s) sizeof_tms s = SYSCALL_RESULT_OK")
  case True
  then have r: "q \<notin> range_of (SYSCALL_GET_PARAMETER 0 s) 16"
    using assms(2) unfolding validate_bytes [OF assms(1)] by (auto simp: sizeof_tms_def)
  show ?thesis
    using True store_u32_within [OF r, of 12] store_u32_within [OF r, of 8] store_u32_within [OF r, of 4] store_u32_front [OF r]
    by (simp add: syscall_times_def Let_def)
next
  case False
  then show ?thesis by (simp add: syscall_times_def Let_def)
qed

lemma fstat_bytes:
  assumes "task_is_user (SYSCALL_TASK s) \<noteq> 0" "KERNEL_VIRTUAL_SPACE_START \<le> q"
  shows "heap_data (snd (syscall_fstat s)) q = heap_data s q"
proof (cases "syscall_validate_user_buffer (SYSCALL_GET_PARAMETER 1 s) sizeof_stat s = SYSCALL_RESULT_OK")
  case True
  then have r: "q \<notin> range_of (SYSCALL_GET_PARAMETER 1 s) 40"
    using assms(2) unfolding validate_bytes [OF assms(1)] by (auto simp: sizeof_stat_def)
  show ?thesis by (simp add: syscall_fstat_def Let_def fill_stat_bytes [OF r])
next
  case False
  then show ?thesis by (simp add: syscall_fstat_def Let_def)
qed

text \<open>
  (C20) The test of a buffer of a user task accepts it exactly when it starts below the kernel's half
  and every byte of it is there; a length that runs over the end of the address space is refused.
  So the system calls \<^verbatim>\<open>fstat\<close>, \<^verbatim>\<open>times\<close> and \<^verbatim>\<open>sigaction\<close>, whatever pointers the task passes, change no
  byte of the kernel's half.
\<close>

theorem syscall_buffers_in_user_half:
  assumes "task_is_user (SYSCALL_TASK s) \<noteq> 0"
  shows "(syscall_validate_user_buffer buf len s = SYSCALL_RESULT_OK \<longleftrightarrow>
      buf < KERNEL_VIRTUAL_SPACE_START \<and> (\<forall>q \<in> range_of buf (unat len). q < KERNEL_VIRTUAL_SPACE_START)) \<and>
    (\<forall>q \<ge> KERNEL_VIRTUAL_SPACE_START. heap_data (snd (syscall_fstat s)) q = heap_data s q \<and>
       heap_data (snd (syscall_times s)) q = heap_data s q \<and> heap_data (snd (syscall_sigaction s)) q = heap_data s q)"
  using validate_bytes [OF assms] fstat_bytes [OF assms] times_bytes [OF assms] sigaction_bytes [OF assms] by blast

theorem syscall_buffers_in_user_half_witness:
  "task_is_user (SYSCALL_TASK sample_sys) \<noteq> 0 \<and> syscall_validate_user_buffer 0xBFFFFFFF 2 sample_sys \<noteq> SYSCALL_RESULT_OK"
proof -
  have u: "task_is_user (SYSCALL_TASK sample_sys) \<noteq> 0" by (simp add: sample_sys_fields)
  have "0xC0000000 \<in> range_of (0xBFFFFFFF :: u32) (unat (2 :: u32))" by (simp add: in_range_of)
  then show ?thesis using syscall_buffers_in_user_half [OF u, of "0xBFFFFFFF" 2] u by (auto simp: KERNEL_VIRTUAL_SPACE_START_def)
qed

section \<open>The heap of a user task\<close>

lemma more_tasks:
  fixes s s' :: "'a kernel_sys_scheme"
  assumes "machine.more s' = machine.more s"
  shows "tasks s' = tasks s" "caller_task s' = caller_task s"
  using assms by (cases s; cases s'; simp)+

lemma release_page_more: "release_page pd a s = Some s' \<Longrightarrow> machine.more s' = machine.more s"
  by (auto simp: release_page_def bind_eq_Some_conv split: if_splits dest!: virtual_to_physical_more unmap_current_more)

lemma sbrk_map_pages_more: "sbrk_map_pages n pd first a s = Some (r, s') \<Longrightarrow> machine.more s' = machine.more s"
proof (induction n arbitrary: a s)
  case (Suc n)
  obtain f s1 where f: "allocate_frame s = (f, s1)" by fastforce
  note A = allocate_frame_more [OF f]
  show ?case
  proof (cases "f = 0")
    case True
    then obtain s2 where "for_each (release_page pd) (pages_between first a) s1 = Some s2" "s' = s2"
      using Suc.prems f by (auto simp: bind_eq_Some_conv)
    then have "machine.more s' = machine.more s1" using for_each_more [where f = "release_page pd", OF release_page_more] by simp
    then show ?thesis using A by simp
  next
    case False
    let ?F = "PAGE_PRESENT OR PAGE_USER OR PAGE_READ_WRITE"
    obtain r2 s2 where m: "memory_paging_map_current f a ?F s1 = Some (r2, s2)" "sbrk_map_pages n pd first (a + PAGE_SIZE) s2 = Some (r, s')"
      using Suc.prems f False by (auto simp: bind_eq_Some_conv)
    have "machine.more s' = machine.more s2" by (rule Suc.IH [OF m(2)])
    then show ?thesis using map_current_more [OF m(1)] A by simp
  qed
qed simp

lemma sbrk_unmap_pages_more: "sbrk_unmap_pages n pd a s = Some s' \<Longrightarrow> machine.more s' = machine.more s"
  by (induction n arbitrary: a s) (auto simp: bind_eq_Some_conv dest!: release_page_more)

definition user_heap_ok :: "task_t \<Rightarrow> bool" where
  "user_heap_ok t \<longleftrightarrow> ALIGN_DOWN (task_heap_start t) = task_heap_start t \<and> ALIGN_DOWN (task_heap_break t) = task_heap_break t \<and>
     task_heap_start t \<le> task_heap_break t \<and> task_heap_break t \<le> USER_HEAP_VIRTUAL_CEILING"

lemma unat_ceiling: "unat USER_HEAP_VIRTUAL_CEILING = 0xBFEFD000"
  by (simp add: USER_HEAP_VIRTUAL_CEILING_def USER_STACK_TOP_def PAGE_SIZE_def)

lemma aligned_dvd: "ALIGN_DOWN v = v \<longleftrightarrow> 4096 dvd unat v"
  by (simp add: aligned_unat mod_eq_0_iff_dvd)

text \<open>Rounding up a size that is not larger than an aligned distance.\<close>

lemma ALIGN_UP_le:
  assumes "4096 dvd m" "unat v \<le> m" "m < 2 ^ 32 - 4096"
  shows "unat (ALIGN_UP v) \<le> m" "4096 dvd unat (ALIGN_UP v)"
proof -
  obtain k where k: "m = 4096 * k" using assms(1) by (rule dvdE)
  have u: "unat (ALIGN_UP v) = (unat v + 4095) div 4096 * 4096" using assms by (intro unat_ALIGN_UP) simp
  have "(unat v + 4095) div 4096 \<le> k" proof -
    have "(unat v + 4095) div 4096 \<le> (4096 * k + 4095) div 4096" using assms(2) k by (intro div_le_mono) simp
    then show ?thesis by simp
  qed
  then show "unat (ALIGN_UP v) \<le> m" using u k by simp
  show "4096 dvd unat (ALIGN_UP v)" using u by simp
qed


lemma sbrk_grow:
  fixes s :: "'a kernel_sys_scheme"
  assumes ok: "user_heap_ok (SYSCALL_TASK s)" and n: "0 < unat n" "unat (task_heap_break (SYSCALL_TASK s)) + unat n < 0xBFEFD000"
    and run: "syscall_sbrk_allocate_physical_memory n s = Some (a, s')"
  shows "a = 0 \<and> tasks s' = tasks s \<or> a = task_heap_break (SYSCALL_TASK s) \<and>
    tasks s' = (tasks s)(caller_task s := (SYSCALL_TASK s)\<lparr>task_heap_break := task_heap_break (SYSCALL_TASK s) + ALIGN_UP n\<rparr>) \<and>
    unat (task_heap_break (SYSCALL_TASK s) + ALIGN_UP n) = unat (task_heap_break (SYSCALL_TASK s)) + unat (ALIGN_UP n) \<and>
    user_heap_ok (tasks s' (caller_task s))"
proof -
  let ?b = "task_heap_break (SYSCALL_TASK s)"
  have al: "4096 dvd unat ?b" using ok by (simp add: user_heap_ok_def aligned_dvd)
  then have d: "4096 dvd (0xBFEFD000 - unat ?b)" by (intro dvd_diff_nat) simp_all
  have up: "unat (ALIGN_UP n) \<le> 0xBFEFD000 - unat ?b" "4096 dvd unat (ALIGN_UP n)"
    using ALIGN_UP_le [OF d] n(2) by simp_all
  then have sum: "unat (?b + ALIGN_UP n) = unat ?b + unat (ALIGN_UP n)" "unat ?b + unat (ALIGN_UP n) \<le> 0xBFEFD000"
    using n(2) by (simp_all add: unat_word_ariths)
  then have fits: "\<not> ?b + ALIGN_UP n > USER_HEAP_VIRTUAL_CEILING" by (simp add: word_less_nat_alt unat_ceiling)
  from run fits obtain m s1 where
    m: "sbrk_map_pages (unat (ALIGN_UP n div PAGE_SIZE)) (memory_paging_get_current_page_directory_physical s) ?b ?b s = Some (m, s1)"
      "(if \<not> m then Some (0, s1) else Some (task_heap_break (SYSCALL_TASK s1),
         upd_caller (\<lambda>t. t\<lparr>task_heap_break := task_heap_break t + ALIGN_UP n\<rparr>) s1)) = Some (a, s')"
    by (auto simp: syscall_sbrk_allocate_physical_memory_def Let_def bind_eq_Some_conv simp del: fun_upd_apply)
  note M = more_tasks [OF sbrk_map_pages_more [OF m(1)]]
  have h: "user_heap_ok ((SYSCALL_TASK s)\<lparr>task_heap_break := ?b + ALIGN_UP n\<rparr>)"
    using ok sum al up(2) by (simp add: user_heap_ok_def aligned_dvd word_le_nat_alt unat_ceiling)
  show ?thesis using m(2) M sum(1) h by (auto simp: upd_caller_def split: if_splits)
qed

lemma sbrk_shrink:
  fixes s :: "'a kernel_sys_scheme"
  assumes ok: "user_heap_ok (SYSCALL_TASK s)" and n: "unat (task_heap_start (SYSCALL_TASK s)) + unat n \<le> unat (task_heap_break (SYSCALL_TASK s))"
    and run: "syscall_sbrk_free_physical_memory n s = Some s'"
  shows "tasks s' = (tasks s)(caller_task s := (SYSCALL_TASK s)\<lparr>task_heap_break := task_heap_break (SYSCALL_TASK s) - ALIGN_UP n\<rparr>) \<and>
    unat (ALIGN_UP n) \<le> unat (task_heap_break (SYSCALL_TASK s)) \<and>
    unat (task_heap_break (SYSCALL_TASK s) - ALIGN_UP n) = unat (task_heap_break (SYSCALL_TASK s)) - unat (ALIGN_UP n) \<and>
    user_heap_ok (tasks s' (caller_task s))"
proof -
  let ?b = "task_heap_break (SYSCALL_TASK s)" and ?a = "task_heap_start (SYSCALL_TASK s)"
  have al: "4096 dvd unat ?b" "4096 dvd unat ?a" and le: "unat ?b \<le> 0xBFEFD000"
    using ok by (simp_all add: user_heap_ok_def aligned_dvd word_le_nat_alt unat_ceiling)
  have d: "4096 dvd (unat ?b - unat ?a)" using al by (intro dvd_diff_nat)
  have up: "unat (ALIGN_UP n) \<le> unat ?b - unat ?a" "4096 dvd unat (ALIGN_UP n)"
    using ALIGN_UP_le [OF d] n le by simp_all
  have "ALIGN_UP n \<le> ?b" using up(1) n by (simp add: word_le_nat_alt)
  then have sub: "unat (?b - ALIGN_UP n) = unat ?b - unat (ALIGN_UP n)" by (rule unat_sub)
  have "unat ?a \<le> unat ?b - unat (ALIGN_UP n)" "unat ?b - unat (ALIGN_UP n) \<le> 0xBFEFD000" using up(1) n le by linarith+
  then have h: "user_heap_ok ((SYSCALL_TASK s)\<lparr>task_heap_break := ?b - ALIGN_UP n\<rparr>)"
    using ok sub al up n le by (simp add: user_heap_ok_def aligned_dvd word_le_nat_alt unat_ceiling dvd_diff_nat)
  from run obtain s1 where
    m: "sbrk_unmap_pages (unat (ALIGN_UP n div PAGE_SIZE)) (memory_paging_get_current_page_directory_physical s) ?b s = Some s1"
      "s' = upd_caller (\<lambda>t. t\<lparr>task_heap_break := task_heap_break t - ALIGN_UP n\<rparr>) s1"
    by (auto simp: syscall_sbrk_free_physical_memory_def Let_def bind_eq_Some_conv simp del: fun_upd_apply)
  note M = more_tasks [OF sbrk_unmap_pages_more [OF m(1)]]
  have "unat (ALIGN_UP n) \<le> unat ?b" using up(1) by simp
  then show ?thesis using m(2) M sub h by (simp add: upd_caller_def)
qed


lemma unat_word_of_int: "0 \<le> d \<Longrightarrow> d < 2 ^ 32 \<Longrightarrow> int (unat (word_of_int d :: u32)) = d"
  by (simp add: uint_word_of_int_eq take_bit_eq_mod)

lemma sbrk_moves:
  fixes s :: "'a kernel_sys_scheme"
  assumes ok: "user_heap_ok (SYSCALL_TASK s)" "task_is_user (SYSCALL_TASK s) \<noteq> 0"
    and d: "d = sint (SYSCALL_GET_PARAMETER 0 s)" and b: "b = task_heap_break (SYSCALL_TASK s)" "0 < b"
    and nb: "d \<noteq> 0" "uint b + d < uint USER_HEAP_VIRTUAL_CEILING" "uint (task_heap_start (SYSCALL_TASK s)) \<le> uint b + d"
    and run: "syscall_sbrk s = Some (r, s')"
  shows "user_heap_ok (tasks s' (caller_task s)) \<and> (\<forall>q. q \<noteq> caller_task s \<longrightarrow> tasks s' q = tasks s q) \<and>
    (r = failure SYSCALL_RESULT_OUT_OF_MEMORY \<and> tasks s' = tasks s \<or> r = b \<and>
     (let b' = task_heap_break (tasks s' (caller_task s)) in
      if d > 0 then uint b' = uint b + uint (ALIGN_UP (word_of_int d)) else uint b' = uint b - uint (ALIGN_UP (word_of_int (- d)))))"
proof -
  have rg: "- (2 ^ 31) \<le> d" "d < 2 ^ 31" using sint_range d by blast+
  have u: "uint x = int (unat x)" for x :: u32 by simp
  have c: "uint USER_HEAP_VIRTUAL_CEILING = 0xBFEFD000" unfolding u unat_ceiling by simp
  have k: "uint b + d < uint KERNEL_VIRTUAL_SPACE_START" using nb(2) c by (simp add: KERNEL_VIRTUAL_SPACE_START_def)
  have ne: "b \<noteq> 0" "\<not> uint b + d \<ge> uint USER_HEAP_VIRTUAL_CEILING" "\<not> uint b + d < uint (task_heap_start (SYSCALL_TASK s))"
    "\<not> uint b + d \<ge> uint KERNEL_VIRTUAL_SPACE_START" using b(2) nb k by auto
  show ?thesis
  proof (cases "d > 0")
    case True
    have w: "int (unat (word_of_int d :: u32)) = d" using True rg by (intro unat_word_of_int) simp_all
    from run obtain a s1 where a: "syscall_sbrk_allocate_physical_memory (word_of_int d) s = Some (a, s1)"
      "(if a = 0 then Some (failure SYSCALL_RESULT_OUT_OF_MEMORY, s1) else Some (b, s1)) = Some (r, s')"
      using ok(2) ne nb(1) True unfolding syscall_sbrk_def Let_def d [symmetric] b(1) [symmetric] by (auto simp: bind_eq_Some_conv)
    have "0 < unat (word_of_int d :: u32)" "unat (task_heap_break (SYSCALL_TASK s)) + unat (word_of_int d :: u32) < 0xBFEFD000"
      using w True nb(2) c u [of b] unfolding b(1) by linarith+
    note G = sbrk_grow [OF ok(1) this a(1)]
    have "uint (b + ALIGN_UP (word_of_int d)) = uint b + uint (ALIGN_UP (word_of_int d))" if "a \<noteq> 0"
      using G that b(1) unfolding u by simp
    then show ?thesis using G a(2) ok(1) b True ne(1) by (auto simp: Let_def split: if_splits)
  next
    case False
    have w: "int (unat (word_of_int (- d) :: u32)) = - d" using False rg by (intro unat_word_of_int) simp_all
    from run obtain s1 where a: "syscall_sbrk_free_physical_memory (word_of_int (- d)) s = Some s1" "s' = s1" "r = b"
      using ok(2) ne nb(1) False unfolding syscall_sbrk_def Let_def d [symmetric] b(1) [symmetric] by (auto simp: bind_eq_Some_conv)
    have n: "unat (task_heap_start (SYSCALL_TASK s)) + unat (word_of_int (- d) :: u32) \<le> unat (task_heap_break (SYSCALL_TASK s))"
      using w nb(3) u [of b] u [of "task_heap_start (SYSCALL_TASK s)"] unfolding b(1) by linarith
    note G = sbrk_shrink [OF ok(1) n a(1)]
    have "uint (b - ALIGN_UP (word_of_int (- d))) = uint b - uint (ALIGN_UP (word_of_int (- d)))"
    proof -
      have "unat (ALIGN_UP (word_of_int (- d))) \<le> unat b" using G b(1) by simp
      then show ?thesis using G b(1) unfolding u by simp
    qed
    then show ?thesis using a(2,3) G b False by (auto simp: Let_def)
  qed
qed




end
