(* ===== verification/User_Heap.thy ===== *)
theory User_Heap
  imports Syscall_Memory
begin

text \<open>
  The growth of a user heap: \<^verbatim>\<open>syscall_sbrk\<close> of \<^verbatim>\<open>src/syscall.c\<close> over the frame allocator and the
  page tables of the running task.
\<close>

unbundle bit_operations_syntax

section \<open>Counting the free frames\<close>

definition free_pages :: "memory_bitmap_t \<Rightarrow> u32 set" where
  "free_pages b = {p. p < pages b \<and> \<not> page_used b p}"

lemma allocate_free_pages:
  assumes "bitmap_wf b" "memory_bitmap_allocate b = (f, b')"
  shows "card (free_pages b) \<le> Suc (card (free_pages b'))"
  using assms
proof (cases rule: allocate_cases)
  case (page p)
  have "free_pages b \<subseteq> insert p (free_pages b')"
    using take_page_simps(2,4) [OF page(3)] by (auto simp: free_pages_def)
  then have "card (free_pages b) \<le> card (insert p (free_pages b'))" by (intro card_mono) (simp_all)
  also have "\<dots> \<le> Suc (card (free_pages b'))" by (simp add: card_insert_if)
  finally show ?thesis .
qed simp

lemma vwrite_bitmap: "vwrite va v s = Some s' \<Longrightarrow> memory_bitmap s' = memory_bitmap s"
  by (auto simp: vwrite_def)

lemma for_each_bitmap:
  assumes "\<And>i s s'. f i s = Some s' \<Longrightarrow> memory_bitmap s' = memory_bitmap s"
  shows "for_each f xs s = Some s' \<Longrightarrow> memory_bitmap s' = memory_bitmap s"
  using assms by (induction xs arbitrary: s) (auto simp: bind_eq_Some_conv)

lemma reset_entry_bitmap: "memory_paging_reset_entry e s = Some s' \<Longrightarrow> memory_bitmap s' = memory_bitmap s"
  unfolding memory_paging_reset_entry_def by (rule for_each_bitmap [OF vwrite_bitmap])

lemma or_user_bitmap: "or_user pd d flags s = Some s' \<Longrightarrow> memory_bitmap s' = memory_bitmap s"
  by (auto simp: or_user_def bind_eq_Some_conv split: if_splits dest!: vwrite_bitmap)

lemma allocate_frame_free:
  assumes "bitmap_wf (memory_bitmap s)" "allocate_frame s = (f, s')"
  shows "card (free_pages (memory_bitmap s)) \<le> Suc (card (free_pages (memory_bitmap s')))"
  using assms allocate_free_pages by (auto simp: allocate_frame_def split: prod.splits)

lemma ensure_table_current_free:
  assumes "bitmap_wf (memory_bitmap s)" "ensure_table_current d s = Some (r, s')"
  shows "card (free_pages (memory_bitmap s)) \<le> Suc (card (free_pages (memory_bitmap s')))"
proof -
  obtain f s1 where a: "allocate_frame s = (f, s1)" by fastforce
  show ?thesis using assms(2) allocate_frame_free [OF assms(1) a] a
    by (auto simp: ensure_table_current_def bind_eq_Some_conv split: if_splits dest!: vwrite_bitmap reset_entry_bitmap)
qed

lemma map_current_free:
  assumes "bitmap_wf (memory_bitmap s)" "memory_paging_map_current pa va flags s = Some (r, s')"
  shows "card (free_pages (memory_bitmap s)) \<le> Suc (card (free_pages (memory_bitmap s')))"
  using assms(2) ensure_table_current_free [OF assms(1)]
  by (auto simp: memory_paging_map_current_def Let_def bind_eq_Some_conv split: if_splits dest!: vwrite_bitmap or_user_bitmap)
    
lemma machine_wf_bitmap:
  assumes "machine_wf s" "bitmap_wf b" "used_frames (memory_bitmap s) \<subseteq> used_frames b"
  shows "machine_wf (s\<lparr>memory_bitmap := b\<rparr>)"
  using assms by (auto simp: machine_wf_def address_space_def)

lemma none_free: "free_pages b \<noteq> {} \<longleftrightarrow> \<not> (\<forall>p < pages b. page_used b p)"
  by (auto simp: free_pages_def)

section \<open>Mapping the new pages\<close>

lemma same_page_interval:
  assumes "ALIGN_DOWN a = a"
  shows "ALIGN_DOWN x = a \<longleftrightarrow> unat a \<le> unat x \<and> unat x < unat a + 4096"
proof -
  obtain k where k: "unat a = k * 4096" using assms by (rule aligned_cases)
  have "ALIGN_DOWN x = a \<longleftrightarrow> unat x div 4096 * 4096 = k * 4096"
    using k unat_ALIGN_DOWN [of x] by (metis unsigned_word_eqI)
  then show ?thesis using k by auto
qed

lemma next_page:
  assumes "ALIGN_DOWN a = a" "unat a + 4096 < 2 ^ 32"
  shows "ALIGN_DOWN (a + PAGE_SIZE) = a + PAGE_SIZE" "unat (a + PAGE_SIZE) = unat a + 4096"
proof -
  show u: "unat (a + PAGE_SIZE) = unat a + 4096" using assms(2) by (simp add: unat_word_ariths PAGE_SIZE_def)
  show "ALIGN_DOWN (a + PAGE_SIZE) = a + PAGE_SIZE" using assms(1) u by (simp add: aligned_unat mod_add_self2)
qed

definition mapped_pages :: "'a machine_scheme \<Rightarrow> u32 \<Rightarrow> u32 list \<Rightarrow> u32 \<Rightarrow> u32 option" where
  "mapped_pages s a fs x =
     (if unat a \<le> unat x \<and> unat x < unat a + 4096 * length fs then Some (fs ! ((unat x - unat a) div 4096) + page_offset x)
      else current_lookup s x)"

lemma sbrk_map_pages_maps:
  fixes s :: "'a kernel_sys_scheme"
  assumes "machine_wf s" "2 * n \<le> card (free_pages (memory_bitmap s))" "ALIGN_DOWN a = a" "unat a + 4096 * n \<le> 0xC0000000"
  shows "\<exists>s' fs. sbrk_map_pages n pd first a s = Some (True, s') \<and> machine_wf s' \<and> length fs = n \<and> distinct fs \<and>
    set fs \<inter> used_frames (memory_bitmap s) = {} \<and> (\<forall>f \<in> set fs. ALIGN_DOWN f = f) \<and>
    used_frames (memory_bitmap s) \<union> set fs \<subseteq> used_frames (memory_bitmap s') \<and>
    (\<forall>x. below_recursive x \<longrightarrow> current_lookup s' x = mapped_pages s a fs x)"
  using assms
proof (induction n arbitrary: a s)
  case 0
  then show ?case by (auto simp: mapped_pages_def)
next
  case (Suc n)
  let ?F = "PAGE_PRESENT OR PAGE_USER OR PAGE_READ_WRITE" and ?b = "memory_bitmap s"
  have some: "free_pages ?b \<noteq> {}" using Suc.prems(2) by auto
  from Suc.prems(1) show ?case
  proof (cases rule: allocate_frame_cases)
    case null
    then show ?thesis using some by (simp add: none_free)
  next
    case (frame f b)
    let ?s1 = "s\<lparr>memory_bitmap := b\<rparr>"
    have wf1: "machine_wf ?s1" using machine_wf_bitmap [OF Suc.prems(1) frame(6)] frame(5) by auto
    have c1: "2 * n + 1 \<le> card (free_pages b)"
      using allocate_frame_free [OF machine_wfD(2) [OF Suc.prems(1)] frame(1)] Suc.prems(2) by simp
    have br: "below_recursive a"
    proof -
      have "unat (page_directory_index a) < 1023" using Suc.prems(4) by (simp add: word_to_nat)
      then show ?thesis by (auto simp: below_recursive_def)
    qed
    have fl: "ALIGN_DOWN ?F = 0" by (simp add: ALIGN_DOWN_def PAGE_SIZE_def PAGE_PRESENT_def PAGE_USER_def PAGE_READ_WRITE_def)
    from wf1 below_recursive_index [OF br] show ?thesis
    proof (cases rule: map_current_cases [where pa = f and flags = ?F])
      case fail
      then have "free_pages b = {}" using none_free [of b] by simp
      then show ?thesis using c1 by simp
    next
      case (ok pm b')
      let ?s2 = "?s1\<lparr>pmem := pm, memory_bitmap := b'\<rparr>"
      have c2: "2 * n \<le> card (free_pages (memory_bitmap ?s2))"
        using map_current_free [OF _ ok(1)] frame(6) c1 by simp
      have l2: "current_lookup ?s2 x = (if ALIGN_DOWN x = a then Some (f + page_offset x) else current_lookup s x)" if "below_recursive x" for x
        using map_current_lookup [OF wf1 br fl, of f] ok(1) that frame(3) Suc.prems(3) by (auto simp: current_lookup_def)
      have "unat a + 4096 < 2 ^ 32" using Suc.prems(4) by simp
      note nx = next_page [OF Suc.prems(3) this]
      have "unat (a + PAGE_SIZE) + 4096 * n \<le> 0xC0000000" using nx(2) Suc.prems(4) by simp
      from Suc.IH [OF ok(2) c2 nx(1) this] obtain s' fs where
        r: "sbrk_map_pages n pd first (a + PAGE_SIZE) ?s2 = Some (True, s')" "machine_wf s'" "length fs = n" "distinct fs"
          "set fs \<inter> used_frames b' = {}" "\<forall>f \<in> set fs. ALIGN_DOWN f = f" "used_frames b' \<union> set fs \<subseteq> used_frames (memory_bitmap s')"
          "\<And>x. below_recursive x \<Longrightarrow> current_lookup s' x = mapped_pages ?s2 (a + PAGE_SIZE) fs x" by auto
      have u: "insert f (used_frames ?b) \<subseteq> used_frames b'" using ok(4) frame(5) by simp
      have "current_lookup s' x = mapped_pages s a (f # fs) x" if x: "below_recursive x" for x
      proof -
        consider (here) "unat a \<le> unat x" "unat x < unat a + 4096" | (later) "unat a + 4096 \<le> unat x" | (below) "unat x < unat a" by linarith
        then show ?thesis
        proof cases
          case here
          then show ?thesis using r(8) [OF x] l2 [OF x] same_page_interval [OF Suc.prems(3), of x] nx(2) by (simp add: mapped_pages_def)
        next
          case later
          then have "(unat x - unat a) div 4096 = Suc ((unat x - (unat a + 4096)) div 4096)" by (subst div_if) (simp add: diff_diff_left)
          then show ?thesis using later r(8) [OF x] l2 [OF x] same_page_interval [OF Suc.prems(3), of x] nx(2)
            by (simp add: mapped_pages_def algebra_simps)
        next
          case below
          then show ?thesis using r(8) [OF x] l2 [OF x] same_page_interval [OF Suc.prems(3), of x] nx(2) by (simp add: mapped_pages_def)
        qed
      qed
      moreover have "sbrk_map_pages (Suc n) pd first a s = Some (True, s')" using frame(1,2) ok(1) r(1) by simp
      ultimately show ?thesis
        using r(2-7) u frame(3,4) by (intro exI [of _ s'] exI [of _ "f # fs"]) auto
    qed
  qed
qed

section \<open>Properties\<close>

text \<open>
  (C7) The system call \<^verbatim>\<open>sbrk\<close> gives memory. A user task that asks for bytes below the ceiling of its
  heap, with two free frames for each page it asks for (the page and at most one page table), gets its
  old break back, and the break moves up by whole pages. In its address space each page between the
  two breaks is then a frame of its own that nobody used before, and every other address below the
  recursive slot means what it meant.
\<close>

theorem syscall_sbrk_maps_pages:
  fixes s :: "'a kernel_sys_scheme"
  assumes "machine_wf s" "user_heap_ok (SYSCALL_TASK s)" "task_is_user (SYSCALL_TASK s) \<noteq> 0"
    "d = sint (SYSCALL_GET_PARAMETER 0 s)" "0 < d" "b = task_heap_break (SYSCALL_TASK s)" "0 < b"
    "uint b + d < uint USER_HEAP_VIRTUAL_CEILING" "n = (nat d + 4095) div 4096"
    "2 * n \<le> card (free_pages (memory_bitmap s))"
  shows "\<exists>s' fs. syscall_sbrk s = Some (b, s') \<and> machine_wf s' \<and>
    unat (task_heap_break (tasks s' (caller_task s))) = unat b + 4096 * n \<and>
    length fs = n \<and> distinct fs \<and> set fs \<inter> used_frames (memory_bitmap s) = {} \<and> set fs \<subseteq> used_frames (memory_bitmap s') \<and>
    (\<forall>x. page_directory_index x \<noteq> 1023 \<longrightarrow> current_lookup s' x =
       (if unat b \<le> unat x \<and> unat x < unat b + 4096 * n then Some (fs ! ((unat x - unat b) div 4096) + page_offset x)
        else current_lookup s x))"
proof -
  let ?n = "word_of_int d :: u32"
  have rg: "d < 2 ^ 31" using sint_range assms(4) by blast
  have w: "int (unat ?n) = d" using assms(5) rg by (intro unat_word_of_int) simp_all
  have wn: "unat ?n = nat d" using w by linarith
  have u: "uint x = int (unat x)" for x :: u32 by simp
  have c: "uint USER_HEAP_VIRTUAL_CEILING = 0xBFEFD000" unfolding u unat_ceiling by simp
  have bd: "unat b + unat ?n < 0xBFEFD000" using assms(8) w c u [of b] by linarith
  have al: "ALIGN_DOWN b = b" "4096 dvd unat b" using assms(2,6) by (simp_all add: user_heap_ok_def aligned_dvd)
  have up: "unat (ALIGN_UP ?n) = 4096 * n" using bd unat_ALIGN_UP [of ?n] unfolding assms(9) wn [symmetric] by (simp add: mult.commute)
  have nn: "unat (ALIGN_UP ?n div PAGE_SIZE) = n" using up by (simp add: unat_div PAGE_SIZE_def)
  have "4096 dvd (0xBFEFD000 - unat b)" using al by (intro dvd_diff_nat) simp_all
  then have "unat (ALIGN_UP ?n) \<le> 0xBFEFD000 - unat b" by (rule ALIGN_UP_le(1)) (use bd in simp_all)
  then have le: "unat b + 4096 * n \<le> 0xBFEFD000" using bd up by linarith
  from sbrk_map_pages_maps [OF assms(1,10) al(1), of "memory_paging_get_current_page_directory_physical s" b] le obtain s1 fs where
    m: "sbrk_map_pages n (memory_paging_get_current_page_directory_physical s) b b s = Some (True, s1)"
      "machine_wf s1" "length fs = n" "distinct fs" "set fs \<inter> used_frames (memory_bitmap s) = {}"
      "used_frames (memory_bitmap s) \<union> set fs \<subseteq> used_frames (memory_bitmap s1)"
      "\<And>x. below_recursive x \<Longrightarrow> current_lookup s1 x = mapped_pages s b fs x" by auto
  note M = more_tasks [OF sbrk_map_pages_more [OF m(1)]]
  have sum: "unat (b + ALIGN_UP ?n) = unat b + 4096 * n" using le up by (simp add: unat_word_ariths)
  then have fits: "\<not> b + ALIGN_UP ?n > USER_HEAP_VIRTUAL_CEILING" using le by (simp add: word_less_nat_alt unat_ceiling)
  let ?s' = "upd_caller (\<lambda>t. t\<lparr>task_heap_break := task_heap_break t + ALIGN_UP ?n\<rparr>) s1"
  have "syscall_sbrk_allocate_physical_memory ?n s = Some (b, ?s')"
    using m(1) fits M assms(6) nn by (simp add: syscall_sbrk_allocate_physical_memory_def Let_def)
  moreover have "uint (task_heap_start (SYSCALL_TASK s)) \<le> uint b"
    using assms(2,6) by (simp add: user_heap_ok_def word_le_def)
  ultimately have "syscall_sbrk s = Some (b, ?s')"
    using assms(3,5,7,8) c unfolding syscall_sbrk_def Let_def assms(4) [symmetric] assms(6) [symmetric]
    by (auto simp: KERNEL_VIRTUAL_SPACE_START_def)
  moreover have "machine_wf ?s'" using m(2) by (simp add: machine_wf_def upd_caller_def upd_task_def)
  moreover have "memory_bitmap ?s' = memory_bitmap s1" "current_lookup ?s' = current_lookup s1"
    by (simp_all add: upd_caller_def upd_task_def current_lookup_def fun_eq_iff)
  moreover have "task_heap_break (tasks ?s' (caller_task s)) = b + ALIGN_UP ?n" using M assms(6) by (simp add: upd_caller_def upd_task_def)
  ultimately show ?thesis
    using m(3-7) sum by (intro exI [of _ ?s'] exI [of _ fs]) (auto simp: mapped_pages_def below_recursive_def)
qed

theorem syscall_sbrk_maps_pages_witness:
  "\<exists>(s :: kernel_sys) s' f. syscall_sbrk s = Some (0x60003000, s') \<and> task_heap_break (tasks s' (caller_task s)) = 0x60004000 \<and>
    f \<notin> used_frames (memory_bitmap s) \<and> current_lookup s' 0x60003ABC = Some (f + 0xABC)"
proof -
  let ?s = "sample_sys\<lparr>tasks := (\<lambda>_. zero_task\<lparr>task_is_user := 1, task_heap_start := 0x60002000, task_heap_break := 0x60003000,
    syscall_execution := \<lparr>syscall_index = SYSCALL_SBRK, parameters = (\<lambda>_. 100)\<rparr>\<rparr>)\<rparr>"
  have wf: "machine_wf ?s" using sample_sys_walkable by (simp add: walkable_def bounce_ready_def machine_wf_def)
  have ok: "user_heap_ok (SYSCALL_TASK ?s)" "task_is_user (SYSCALL_TASK ?s) \<noteq> 0" "100 = sint (SYSCALL_GET_PARAMETER 0 ?s)"
    "0 < (100 :: int)" "0x60003000 = task_heap_break (SYSCALL_TASK ?s)" "0 < (0x60003000 :: u32)"
    "uint (0x60003000 :: u32) + 100 < uint USER_HEAP_VIRTUAL_CEILING" "1 = (nat 100 + 4095) div 4096"
    by (simp_all add: user_heap_ok_def SYSCALL_GET_PARAMETER_def zero_task_def ALIGN_DOWN_def PAGE_SIZE_def
        USER_HEAP_VIRTUAL_CEILING_def USER_STACK_TOP_def)
  have "{6, 7} \<subseteq> free_pages (memory_bitmap ?s)"
    by (simp add: free_pages_def sample_sys_fields sample_heap_def kernel_heap_module_init_def page_used_def BITMAP_TEST_def bitmap_bit_def)
  then have "card {6, 7 :: u32} \<le> card (free_pages (memory_bitmap ?s))" by (rule card_mono [rotated]) simp
  then have "2 * 1 \<le> card (free_pages (memory_bitmap ?s))" by simp
  from syscall_sbrk_maps_pages [OF wf ok this] obtain s' fs where
    r: "syscall_sbrk ?s = Some (0x60003000, s')" "unat (task_heap_break (tasks s' (caller_task ?s))) = 0x60004000"
      "length fs = 1" "set fs \<inter> used_frames (memory_bitmap ?s) = {}"
      "current_lookup s' 0x60003ABC = Some (fs ! 0 + page_offset 0x60003ABC)"
    by (auto simp: page_directory_index_def drop_bit_eq_div)
  have "task_heap_break (tasks s' (caller_task ?s)) = 0x60004000" using r(2) by (intro unsigned_word_eqI [where ?'a = nat]) simp
  moreover have "fs ! 0 \<notin> used_frames (memory_bitmap ?s)" using r(3,4) by (cases fs) auto
  moreover have "page_offset 0x60003ABC = 0xABC" by (simp add: page_offset_def)
  ultimately show ?thesis using r(1,5) by metis
qed

end
