(* ===== verification/Task_Start.thy ===== *)
theory Task_Start
  imports Tasks
begin

text \<open>
  The first stack of a task: the frame that \<^verbatim>\<open>task_manager_prepare_new_stack\<close> of
  \<^verbatim>\<open>src/task_manager.c\<close> leaves on the kernel stack of a new address space is the one that the end of
  the first interrupt restores.
\<close>

unbundle bit_operations_syntax

section \<open>A page filled from its end\<close>

fun fill_down :: "u32 \<Rightarrow> nat \<Rightarrow> u32 list \<Rightarrow> (u32 \<Rightarrow> u32) \<Rightarrow> u32 \<Rightarrow> u32" where
  "fill_down f n [] pm = pm"
| "fill_down f n (w # ws) pm = fill_down f (n - 1) ws (pm(entry_at f (of_nat (n - 1)) := w))"

lemma index_less: "n < 1024 \<Longrightarrow> (of_nat n :: u32) < 1024"
  by (simp add: word_less_nat_alt unat_of_nat_u32)

lemma fill_down_outside: "n \<le> 1024 \<Longrightarrow> length ws \<le> n \<Longrightarrow> \<not> in_table f a \<Longrightarrow> fill_down f n ws pm a = pm a"
proof (induction ws arbitrary: n pm)
  case (Cons w ws)
  have "in_table f (entry_at f (of_nat (n - 1)))" using Cons.prems by (intro in_table_entry index_less) simp
  then have "a \<noteq> entry_at f (of_nat (n - 1))" using Cons.prems(3) by auto
  then show ?case using Cons by simp
qed simp

lemma fill_down_above:
  assumes "ALIGN_DOWN f = f"
  shows "n \<le> 1024 \<Longrightarrow> length ws \<le> n \<Longrightarrow> n \<le> k \<Longrightarrow> k < 1024 \<Longrightarrow> fill_down f n ws pm (entry_at f (of_nat k)) = pm (entry_at f (of_nat k))"
proof (induction ws arbitrary: n pm)
  case (Cons w ws)
  obtain m where m: "n = Suc m" using Cons.prems by (cases n) auto
  have "unat (of_nat k :: u32) \<noteq> unat (of_nat m :: u32)" using Cons.prems m by (simp add: unat_of_nat_u32)
  then have "(of_nat k :: u32) \<noteq> of_nat m" by metis
  moreover have "(of_nat k :: u32) < 1024" "(of_nat m :: u32) < 1024" using Cons.prems m by (intro index_less; simp)+
  ultimately show ?case using Cons assms m by (simp add: entry_at_eq_iff)
qed simp

lemma fill_down_nth:
  assumes "ALIGN_DOWN f = f"
  shows "n \<le> 1024 \<Longrightarrow> length ws \<le> n \<Longrightarrow> i < length ws \<Longrightarrow> fill_down f n ws pm (entry_at f (of_nat (n - 1 - i))) = ws ! i"
proof (induction ws arbitrary: n pm i)
  case (Cons w ws)
  show ?case
  proof (cases i)
    case 0
    then show ?thesis using Cons.prems fill_down_above [OF assms, of "n - 1" ws "n - 1"] by simp
  next
    case (Suc j)
    then have "n - 1 - i = n - 1 - 1 - j" by simp
    then show ?thesis using Cons.IH [of "n - 1" j] Cons.prems Suc by simp
  qed
qed simp

text \<open>Pushing words through the bounce page of the frame.\<close>

lemma push_words_fills:
  assumes fill: "filling s i f"
  shows "\<forall>a. \<not> in_table f a \<longrightarrow> pm a = pmem s a \<Longrightarrow> n \<le> 1024 \<Longrightarrow> length ws \<le> n \<Longrightarrow>
    push_words ws (entry_at (bounce_vaddr i) (of_nat n)) (slot_view i f s pm) =
      Some (entry_at (bounce_vaddr i) (of_nat (n - length ws)), slot_view i f s (fill_down f n ws pm))"
proof (induction ws arbitrary: n pm)
  case (Cons w ws)
  obtain k where n: "n = Suc k" "k < 1024" using Cons.prems by (cases n) auto
  let ?pm = "pm(entry_at f (of_nat k) := w)"
  have e: "entry_at (bounce_vaddr i) (of_nat n) - 4 = entry_at (bounce_vaddr i) (of_nat k)"
    by (simp add: n(1) entry_at_def algebra_simps)
  have w: "vwrite (entry_at (bounce_vaddr i) (of_nat k)) w (slot_view i f s pm) = Some (slot_view i f s ?pm)"
    by (rule slot_view_write [OF fill Cons.prems(1) index_less [OF n(2)]])
  have "\<forall>a. \<not> in_table f a \<longrightarrow> ?pm a = pmem s a"
    using Cons.prems(1) in_table_entry [OF index_less [OF n(2)], of f] by auto
  note IH = Cons.IH [where pm = ?pm and n = k, OF this]
  show ?case unfolding push_words.simps e w using IH Cons.prems n by (simp del: of_nat_diff fun_upd_apply)
qed simp

section \<open>A fresh page in another address space\<close>

text \<open>The frame \<open>f\<close> is none of the tables of the directory \<open>R\<close>.\<close>

definition off_tables :: "(u32 \<Rightarrow> u32) \<Rightarrow> u32 \<Rightarrow> u32 \<Rightarrow> bool" where
  "off_tables pm R f \<longleftrightarrow> ALIGN_DOWN f = f \<and> f \<noteq> R \<and>
     (\<forall>d<1023. entry_present (pm (entry_at R d)) \<longrightarrow> ALIGN_DOWN (pm (entry_at R d)) \<noteq> f)"

lemma off_tables_translate:
  assumes "off_tables pm R f" "ALIGN_DOWN R = R" "\<forall>a. \<not> in_table f a \<longrightarrow> pm' a = pm a" "below_recursive x"
  shows "translate pm' False R x = translate pm False R x"
proof -
  let ?d = "page_directory_index x" and ?t = "page_table_index x"
  have d: "?d < 1023" "?d < 1024" "?t < 1024"
    using page_index_bounds(1,2) [of x] assms(4) unfolding below_recursive_def by (unat_arith, auto)
  have o: "ALIGN_DOWN f = f" "f \<noteq> R" "entry_present (pm (entry_at R ?d)) \<Longrightarrow> ALIGN_DOWN (pm (entry_at R ?d)) \<noteq> f"
    using assms(1) d(1) by (auto simp: off_tables_def)
  have dir: "pm' (entry_at R ?d) = pm (entry_at R ?d)"
    using assms(3) in_table_other [OF o(1) assms(2) d(2)] o(2) by blast
  have "pm' (entry_at (ALIGN_DOWN (pm (entry_at R ?d))) ?t) = pm (entry_at (ALIGN_DOWN (pm (entry_at R ?d))) ?t)"
    if "entry_present (pm (entry_at R ?d))"
    using assms(3) in_table_other [OF o(1) _ d(3), of "ALIGN_DOWN (pm (entry_at R ?d))"] o(3) [OF that] by simp
  then show ?thesis using dir by (auto simp: translate_leaf [OF assms(2)] leaf_def Let_def)
qed


lemma editable_bitmap:
  assumes "editable s PD R" "bitmap_wf b" "used_frames (memory_bitmap s) \<subseteq> used_frames b"
  shows "editable (s\<lparr>memory_bitmap := b\<rparr>) PD R"
  using editable_agree [OF assms(1) _ assms(2,3), of "pmem s"] by (simp add: agree_on_def)

lemma fresh_page_mapped:
  assumes ed: "editable s PD R" and va: "page_directory_index va < 1022"
    and f: "ALIGN_DOWN f = f" "f \<notin> used_frames (memory_bitmap s)"
    and b: "bitmap_wf b" "used_frames b = insert f (used_frames (memory_bitmap s))" and fl: "ALIGN_DOWN flags = 0"
  obtains (fail) "memory_paging_map PD f va flags (s\<lparr>memory_bitmap := b\<rparr>) = Some (MEMORY_PAGING_RESULT_ALLOCATION_ERROR, s\<lparr>memory_bitmap := b\<rparr>)"
  | (ok) pm b' where "memory_paging_map PD f va flags (s\<lparr>memory_bitmap := b\<rparr>) = Some (MEMORY_PAGING_RESULT_OK, s\<lparr>pmem := pm, memory_bitmap := b'\<rparr>)"
      "bounce_ready (s\<lparr>pmem := pm, memory_bitmap := b'\<rparr>)" "off_tables pm R f" "f \<noteq> cr3 s" "f \<noteq> bounce_table (s\<lparr>pmem := pm, memory_bitmap := b'\<rparr>)"
      "\<And>x. below_recursive x \<Longrightarrow> translate pm False R x =
         (if ALIGN_DOWN x = ALIGN_DOWN va then Some (f + page_offset x) else translate (pmem s) False R x)"
proof -
  let ?s1 = "s\<lparr>memory_bitmap := b\<rparr>" and ?d = "page_directory_index va"
  note E = editableD [OF ed]
  have ed1: "editable ?s1 PD R" by (rule editable_bitmap [OF ed b(1)]) (use b(2) in auto)
  have d1: "?d < 1023" "?d < 1024" using va by (auto intro: less_trans)
  from ed1 va show thesis
  proof (cases rule: memory_paging_map_cases [where pa = f and flags = flags])
    case fail
    then show thesis using that(1) by simp
  next
    case (ok pm b')
    have p: "entry_present (pm (entry_at R ?d))"
    proof -
      have "leaf pm R ?d (page_table_index va) = Some (f OR flags OR PAGE_PRESENT)"
        using ok(2) d1 page_index_bounds(2) [of va] by (simp add: leaf_updated_def)
      then show ?thesis by (auto simp: leaf_def Let_def split: if_splits)
    qed
    let ?T = "ALIGN_DOWN (pm (entry_at R ?d))"
    have T: "?T \<noteq> cr3 s" "?T \<noteq> R" using companionD(1) [OF ok(5) d1(1) p] address_spaceD(5) [OF ok(4) d1(1) p] by auto
    have cr: "cr3 s \<in> used_frames (memory_bitmap s)" "ALIGN_DOWN (cr3 s) = cr3 s"
      using address_spaceD(2) [OF machine_wfD(3) [OF E(2)]] machine_wfD(4) [OF E(2)] by simp_all
    have R: "R \<in> used_frames (memory_bitmap s)" using address_spaceD(2) [OF E(5)] .
    have same: "pm (entry_at D k) = pmem s (entry_at D k)"
      if "D \<in> {cr3 s, R}" "k < 1024" "k \<noteq> ?d" for D k
    proof -
      have D: "ALIGN_DOWN D = D" "D \<in> used_frames (memory_bitmap s)" "D \<noteq> ?T" using that(1) cr R E(8) T by auto
      then show ?thesis
        using ok(7) [of "entry_at D k"] that b(2) E(8) d1 page_index_bounds(2) [of va] by (auto simp: entry_at_frame entry_at_eq_iff)
    qed
    have "ALIGN_DOWN (pm (entry_at R d)) \<noteq> f" if d: "d < 1023" "entry_present (pm (entry_at R d))" for d
    proof (cases "d = ?d")
      case True
      have "?T \<noteq> f"
      proof
        assume "?T = f"
        then have "entry_present (pmem s (entry_at R ?d))" "ALIGN_DOWN (pmem s (entry_at R ?d)) = f" using ok(8) b(2) by auto
        then show False using address_spaceD(5) [OF E(5) d1(1)] f(2) by auto
      qed
      then show ?thesis using True by simp
    next
      case False
      have "d < 1024" using d(1) by (auto intro: less_trans)
      then have "pm (entry_at R d) = pmem s (entry_at R d)" using same False by simp
      then show ?thesis using address_spaceD(5) [OF E(5) d(1)] d(2) f(2) by auto
    qed
    then have off: "off_tables pm R f" using f R by (auto simp: off_tables_def)
    have "pm (entry_at (cr3 s) 1022) = pmem s (entry_at (cr3 s) 1022)" using same va by auto
    then have "f \<noteq> bounce_table (s\<lparr>pmem := pm, memory_bitmap := b'\<rparr>)"
      using bounce_readyD(6) [OF E(1)] f(2) by (auto simp: bounce_table_def)
    moreover have "translate pm False R x = (if ALIGN_DOWN x = ALIGN_DOWN va then Some (f + page_offset x) else translate (pmem s) False R x)"
      if "below_recursive x" for x
      using leaf_updated_translate [OF ok(2) E(8), of x] that f(1) fl by (simp add: below_recursive_def)
    ultimately show thesis using that(2) ok(1,3) off f(2) cr(1) by auto
  qed
qed


lemma allocate_frame_full:
  assumes "bitmap_wf (memory_bitmap s)" "\<forall>p < pages (memory_bitmap s). page_used (memory_bitmap s) p"
  shows "fst (allocate_frame s) = 0"
proof -
  obtain f b where r: "memory_bitmap_allocate (memory_bitmap s) = (f, b)" by force
  from assms(1) r have "f = 0" by (cases rule: allocate_cases) (use assms(2) in auto)
  then show ?thesis using r by (simp add: allocate_frame_def)
qed

lemma first_frame_length: "length (first_frame u eip esp) = (if u then 18 else 16)"
  by (simp add: first_frame_def Let_def)

lemma stack_page: "page_directory_index (KERNEL_STACK_TOP - PAGE_SIZE) < 1022" "ALIGN_DOWN (KERNEL_STACK_TOP - PAGE_SIZE) = KERNEL_STACK_TOP - PAGE_SIZE"
  by (simp_all add: KERNEL_STACK_TOP_def PAGE_SIZE_def page_directory_index_def ALIGN_DOWN_def drop_bit_eq_div)

lemma page_filled:
  assumes rdy: "bounce_ready s" "\<exists>i<16. bounce_pages_used s i = 0"
    and f: "ALIGN_DOWN f = f" "f \<noteq> cr3 s" "f \<noteq> bounce_table s" and l: "length ws \<le> 1024"
  obtains base v sp v' where "bounce_alloc f s = Some (base, v)" "push_words ws (base + PAGE_SIZE) v = Some (sp, v')"
    "bounce_free base v' = Some (s\<lparr>pmem := fill_down f 1024 ws (pmem s)\<rparr>)" "base + PAGE_SIZE - sp = 4 * of_nat (length ws)"
proof -
  from rdy obtain i where i: "i < 16" "bounce_pages_used s i = 0" "bounce_alloc f s = Some (bounce_vaddr i, with_slot i f s)"
    by (rule bounce_alloc_free_slot)
  have fill: "filling s i f" using rdy(1) f i by (simp add: filling_def)
  have e: "entry_at (bounce_vaddr i) (of_nat 1024) = bounce_vaddr i + PAGE_SIZE" by (simp add: entry_at_def PAGE_SIZE_def)
  have "push_words ws (bounce_vaddr i + PAGE_SIZE) (with_slot i f s) =
      Some (entry_at (bounce_vaddr i) (of_nat (1024 - length ws)), slot_view i f s (fill_down f 1024 ws (pmem s)))"
    using push_words_fills [OF fill, of "pmem s" 1024 ws] l unfolding e by (simp del: of_nat_diff)
  moreover have "\<forall>a. \<not> in_table f a \<longrightarrow> fill_down f 1024 ws (pmem s) a = pmem s a" using fill_down_outside [of 1024 ws f] l by simp
  moreover have "bounce_vaddr i + PAGE_SIZE - entry_at (bounce_vaddr i) (of_nat (1024 - length ws)) = 4 * of_nat (length ws)"
    using l by (simp add: entry_at_def PAGE_SIZE_def of_nat_diff algebra_simps)
  ultimately show thesis using that i(3) slot_view_done [OF fill] by blast
qed

lemma prepare_new_stack_result:
  assumes ed: "editable s PD R" and free: "fst (allocate_frame s) \<noteq> 0" "fst (allocate_frame (snd (allocate_frame s))) \<noteq> 0"
    and W: "W = first_frame (is_user \<noteq> 0) eip esp"
  obtains f pm b where
    "task_manager_prepare_new_stack PD is_user eip esp s =
       Some (TASK_MANAGER_RESULT_OK, KERNEL_STACK_TOP - 4 * of_nat (length W), s\<lparr>pmem := pm, memory_bitmap := b\<rparr>)"
    "f \<notin> used_frames (memory_bitmap s)" "ALIGN_DOWN f = f"
    "\<And>x. below_recursive x \<Longrightarrow> translate pm False R x =
       (if ALIGN_DOWN x = KERNEL_STACK_TOP - PAGE_SIZE then Some (f + page_offset x) else translate (pmem s) False R x)"
    "\<And>i. i < length W \<Longrightarrow> pm (entry_at f (of_nat (1023 - i))) = W ! i"
proof -
  note E = editableD [OF ed]
  from E(2) show thesis
  proof (cases rule: allocate_frame_cases)
    case null
    then show thesis using free(1) by simp
  next
    case (frame f b)
    have "ALIGN_DOWN PAGE_READ_WRITE = 0" by simp
    with ed stack_page(1) frame(3,4,6,5) show thesis
    proof (cases rule: fresh_page_mapped)
      case fail
      from editable_bitmap [OF ed frame(6)] frame(5) have ed1: "editable (s\<lparr>memory_bitmap := b\<rparr>) PD R" by auto
      from ed1 stack_page(1) have "fst (allocate_frame (s\<lparr>memory_bitmap := b\<rparr>)) = 0"
        by (cases rule: memory_paging_map_cases [where pa = f and flags = PAGE_READ_WRITE])
          (use fail allocate_frame_full [of "s\<lparr>memory_bitmap := b\<rparr>"] frame(6) in auto)
      then show thesis using free(2) frame(1) by simp
    next
      case (ok pm b')
      let ?s2 = "s\<lparr>pmem := pm, memory_bitmap := b'\<rparr>" and ?pm = "fill_down f 1024 W pm"
      have l: "length W \<le> 1024" unfolding W first_frame_length by simp
      have c: "\<exists>i<16. bounce_pages_used ?s2 i = 0" "f \<noteq> cr3 ?s2" using E(7) ok(4) by simp_all
      from page_filled [OF ok(2) c(1) frame(3) c(2) ok(5) l] obtain base v sp v' where r: "bounce_alloc f ?s2 = Some (base, v)"
        "push_words W (base + PAGE_SIZE) v = Some (sp, v')" "bounce_free base v' = Some (?s2\<lparr>pmem := fill_down f 1024 W (pmem ?s2)\<rparr>)"
        "base + PAGE_SIZE - sp = 4 * of_nat (length W)" .
      have st: "?s2\<lparr>pmem := fill_down f 1024 W (pmem ?s2)\<rparr> = s\<lparr>pmem := ?pm, memory_bitmap := b'\<rparr>" by simp
      have agr: "\<forall>a. \<not> in_table f a \<longrightarrow> ?pm a = pm a" using fill_down_outside [of 1024 W f] l by simp
      have "task_manager_prepare_new_stack PD is_user eip esp s =
          Some (TASK_MANAGER_RESULT_OK, KERNEL_STACK_TOP - 4 * of_nat (length W), s\<lparr>pmem := ?pm, memory_bitmap := b'\<rparr>)"
        unfolding task_manager_prepare_new_stack_def frame(1) Let_def prod.case W [symmetric]
        using ok(1) r unfolding st by simp
      then show thesis
      proof (rule that [where f = f and pm = ?pm and b = b'])
        show "translate ?pm False R x = (if ALIGN_DOWN x = KERNEL_STACK_TOP - PAGE_SIZE then Some (f + page_offset x) else translate (pmem s) False R x)"
          if "below_recursive x" for x
          using off_tables_translate [OF ok(3) E(8) agr that] ok(6) [OF that] stack_page(2) by simp
        show "?pm (entry_at f (of_nat (1023 - j))) = W ! j" if "j < length W" for j
          using fill_down_nth [OF frame(3), of 1024 W j pm] that l by simp
      qed (use frame in simp_all)
    qed
  qed
qed

text \<open>The words that the address space of \<open>R\<close> shows from the address \<open>va\<close> on.\<close>

definition words_at :: "(u32 \<Rightarrow> u32) \<Rightarrow> u32 \<Rightarrow> u32 \<Rightarrow> nat \<Rightarrow> u32 list option" where
  "words_at pm R va n = those (map (\<lambda>k. map_option pm (translate pm False R (va + 4 * of_nat k))) [0..<n])"

lemma words_atI:
  assumes "\<And>k. k < length ws \<Longrightarrow> map_option pm (translate pm False R (va + 4 * of_nat k)) = Some (ws ! k)"
  shows "words_at pm R va (length ws) = Some ws"
proof -
  have "map (\<lambda>k. map_option pm (translate pm False R (va + 4 * of_nat k))) [0..<length ws] = map Some ws"
    using assms by (auto intro: nth_equalityI)
  moreover have "those (map Some ws) = Some ws" by (induction ws) auto
  ultimately show ?thesis by (simp add: words_at_def)
qed

lemma stack_slot:
  assumes "k < 1024"
  shows "ALIGN_DOWN (entry_at (KERNEL_STACK_TOP - PAGE_SIZE) (of_nat k)) = KERNEL_STACK_TOP - PAGE_SIZE"
    "f + page_offset (entry_at (KERNEL_STACK_TOP - PAGE_SIZE) (of_nat k)) = entry_at f (of_nat k)"
    "below_recursive (entry_at (KERNEL_STACK_TOP - PAGE_SIZE) (of_nat k))"
proof -
  have P: "page_offset (KERNEL_STACK_TOP - PAGE_SIZE) = 0" by (simp add: page_offset_def KERNEL_STACK_TOP_def PAGE_SIZE_def)
  note e = entry_at_page [OF P index_less [OF assms]]
  show "ALIGN_DOWN (entry_at (KERNEL_STACK_TOP - PAGE_SIZE) (of_nat k)) = KERNEL_STACK_TOP - PAGE_SIZE"
    by (rule entry_at_frame [OF stack_page(2) index_less [OF assms]])
  note parts = vaddr_parts [OF page_index_bounds(1,2) times_four_less [OF index_less [OF assms]],
    of "KERNEL_STACK_TOP - PAGE_SIZE" "KERNEL_STACK_TOP - PAGE_SIZE"]
  show "f + page_offset (entry_at (KERNEL_STACK_TOP - PAGE_SIZE) (of_nat k)) = entry_at f (of_nat k)"
    "below_recursive (entry_at (KERNEL_STACK_TOP - PAGE_SIZE) (of_nat k))"
    unfolding e using stack_page(1) parts by (auto simp: entry_at_def below_recursive_def)
qed

text \<open>
  (C16) A new task starts from the frame \<^verbatim>\<open>task_manager_prepare_new_stack\<close> leaves for it. With two
  free frames (the stack page and at most one page table) the function returns the stack pointer that
  is the size of the frame below the top of the kernel stack; through the page tables of the new address space
  the memory there holds, for a user task, the frame \<^verbatim>\<open>register_interrupt_data_t\<close> with cleared
  general registers, the user selectors, interrupts enabled, the entry point and the user stack pointer, and for a kernel
  task the same without a stack pointer and with the kernel selectors. No other page of that address space moves.
\<close>

theorem prepare_new_stack_frame:
  assumes "editable s PD R" "fst (allocate_frame s) \<noteq> 0" "fst (allocate_frame (snd (allocate_frame s))) \<noteq> 0"
  shows "\<exists>sp s'. task_manager_prepare_new_stack PD is_user eip user_esp s = Some (TASK_MANAGER_RESULT_OK, sp, s') \<and>
    (if is_user = 0
     then sp = KERNEL_STACK_TOP - 64 \<and>
       words_at (pmem s') R sp 16 = Some [0x10, 0x10, 0x10, 0x10, 0, 0, 0, 0, 0, 0, 0, 0, 0, eip, 0x08, 0x202]
     else sp = KERNEL_STACK_TOP - 72 \<and>
       map_option frame_of_words (words_at (pmem s') R sp 18) = Some \<lparr>frame_gs = 0x23, frame_fs = 0x23, frame_es = 0x23,
         frame_ds = 0x23, frame_edi = 0, frame_esi = 0, frame_ebp = 0, frame_ebx = 0, frame_edx = 0, frame_ecx = 0,
         frame_eax = 0, interrupt_index = 0, error_code = 0, frame_eip = eip, frame_cs = 0x1B, frame_eflags = 0x202,
         frame_useresp = user_esp, frame_ss = 0x23\<rparr>) \<and>
    (\<forall>x. page_directory_index x \<noteq> 1023 \<and> ALIGN_DOWN x \<noteq> KERNEL_STACK_TOP - PAGE_SIZE \<longrightarrow>
       translate (pmem s') False R x = translate (pmem s) False R x)"
proof -
  define W where W: "W = first_frame (is_user \<noteq> 0) eip user_esp"
  obtain f pm b where r: "task_manager_prepare_new_stack PD is_user eip user_esp s =
      Some (TASK_MANAGER_RESULT_OK, KERNEL_STACK_TOP - 4 * of_nat (length W), s\<lparr>pmem := pm, memory_bitmap := b\<rparr>)"
    and f: "f \<notin> used_frames (memory_bitmap s)" "ALIGN_DOWN f = f"
    and tr: "\<And>x. below_recursive x \<Longrightarrow> translate pm False R x =
       (if ALIGN_DOWN x = KERNEL_STACK_TOP - PAGE_SIZE then Some (f + page_offset x) else translate (pmem s) False R x)"
    and nth: "\<And>i. i < length W \<Longrightarrow> pm (entry_at f (of_nat (1023 - i))) = W ! i"
    by (rule prepare_new_stack_result [OF assms W]) (rule that)
  have l: "length W = (if is_user = 0 then 16 else 18)" by (simp add: W first_frame_length)
  have "words_at pm R (KERNEL_STACK_TOP - 4 * of_nat (length W)) (length (rev W)) = Some (rev W)"
  proof (rule words_atI)
    fix k assume k: "k < length (rev W)"
    let ?i = "length W - Suc k"
    have i: "?i < length W" "1023 - ?i < 1024" using k l by auto
    have "1023 - ?i = 1024 - length W + k" using k l by (auto split: if_splits)
    then have "KERNEL_STACK_TOP - 4 * of_nat (length W) + 4 * of_nat k = entry_at (KERNEL_STACK_TOP - PAGE_SIZE) (of_nat (1023 - ?i))"
      using l by (simp add: entry_at_def PAGE_SIZE_def algebra_simps split: if_splits)
    then show "map_option pm (translate pm False R (KERNEL_STACK_TOP - 4 * of_nat (length W) + 4 * of_nat k)) = Some (rev W ! k)"
      using tr [OF stack_slot(3) [OF i(2)]] stack_slot(1,2) [OF i(2)] nth [OF i(1)] k by (simp add: rev_nth)
  qed
  then have "words_at pm R (KERNEL_STACK_TOP - 4 * of_nat (length W)) (length W) = Some (rev W)" by simp
  then have "if is_user = 0 then words_at pm R (KERNEL_STACK_TOP - 64) 16 = Some (rev W)
     else words_at pm R (KERNEL_STACK_TOP - 72) 18 = Some (rev W)" unfolding l by (simp split: if_splits)
  then show ?thesis unfolding r using tr unfolding l
    by (auto simp: W first_frame_def frame_of_words_def TASK_MANAGER_KERNEL_CODE_SELECTOR_def below_recursive_def
        TASK_MANAGER_KERNEL_DATA_SELECTOR_def TASK_MANAGER_USER_CODE_SELECTOR_def TASK_MANAGER_USER_DATA_SELECTOR_def)
qed

theorem prepare_new_stack_frame_witness:
  "\<exists>sp s'. task_manager_prepare_new_stack (bounce_vaddr 0) 1 0x08048000 0xBFFFFFF0 sample_machine =
      Some (TASK_MANAGER_RESULT_OK, sp, s') \<and> sp = 0xCFFFFFB8 \<and>
    map_option (\<lambda>w. (frame_eip (frame_of_words w), frame_useresp (frame_of_words w))) (words_at (pmem s') 0x3000 sp 18) =
      Some (0x08048000, 0xBFFFFFF0)"
proof -
  have "fst (allocate_frame sample_machine) \<noteq> 0" "fst (allocate_frame (snd (allocate_frame sample_machine))) \<noteq> 0"
    by (simp_all add: sample_machine_def, code_simp+)
  from prepare_new_stack_frame [OF sample_editable this, of 1 "0x08048000" "0xBFFFFFF0"] show ?thesis
    by (fastforce simp: KERNEL_STACK_TOP_def)
qed

end
