(* ===== verification/Node_Cache.thy ===== *)
theory Node_Cache
  imports Vfs
begin

text \<open>
  The cache of nodes of \<^verbatim>\<open>src/vfs.c\<close> keeps its lists well formed, its blocks apart and every cached
  node once, so that a query finds exactly the node that was put in, and a node leaves the cache and
  is freed exactly when its last user releases it. A cache is described by the list of its heads,
  each with the list of its cells.
\<close>

section \<open>The shape of the lists\<close>

definition cells :: "(u32 \<times> u32 list) list \<Rightarrow> u32 list" where
  "cells css = concat (map snd css)"

definition cached_at :: "'a kernel_fs_scheme \<Rightarrow> u32 \<Rightarrow> u32" where
  "cached_at s p = cached_node (vfs_cache_nodes s p)"

definition row_ok :: "'a kernel_fs_scheme \<Rightarrow> u32 \<Rightarrow> u32 list \<Rightarrow> bool" where
  "row_ok s c ns \<longleftrightarrow> path (cached_links s) (cache_nodes (vfs_caches s c)) ns \<and> distinct (map (cached_index s) ns) \<and>
     (\<forall>p \<in> set ns. cache_index (vfs_nodes s (cached_at s p)) = cache_number (vfs_caches s c))"

definition cache_numbers :: "'a kernel_fs_scheme \<Rightarrow> (u32 \<times> u32 list) list \<Rightarrow> u64 list" where
  "cache_numbers s css = map (\<lambda>(c, ns). cache_number (vfs_caches s c)) css"

definition cache_shape :: "'a kernel_fs_scheme \<Rightarrow> (u32 \<times> u32 list) list \<Rightarrow> bool" where
  "cache_shape s css \<longleftrightarrow> path (cache_links s) (vfs_cache s) (map fst css) \<and> distinct (cells css) \<and>
     distinct (cache_numbers s css) \<and> (\<forall>(c, ns) \<in> set css. row_ok s c ns)"

lemma find_with_previous_found:
  "path nxt p (xs @ y # ys) \<Longrightarrow> \<forall>x \<in> set xs. \<not> P x \<Longrightarrow> P y \<Longrightarrow>
    find_with_previous nxt P prev p = Some (last (prev # xs), y)"
proof (induction xs arbitrary: p prev)
  case Nil
  then show ?case by (simp add: find_with_previous.simps)
next
  case (Cons x xs)
  then show ?case by (simp add: find_with_previous.simps [of nxt P prev])
qed

lemma find_with_previous_missing:
  "path nxt p xs \<Longrightarrow> \<forall>x \<in> set xs. \<not> P x \<Longrightarrow> find_with_previous nxt P prev p = Some (last (prev # xs), 0)"
proof (induction xs arbitrary: p prev)
  case Nil
  then show ?case by (simp add: find_with_previous.simps)
next
  case (Cons x xs)
  then show ?case by (simp add: find_with_previous.simps [of nxt P prev])
qed

lemma upd_node_simps [simp]:
  "vfs_caches (upd_node n f s) = vfs_caches s" "vfs_cache_nodes (upd_node n f s) = vfs_cache_nodes s"
  "vfs_cache (upd_node n f s) = vfs_cache s" "ramfs_nodes (upd_node n f s) = ramfs_nodes s"
  "vfs_nodes (upd_node n f s) = (vfs_nodes s)(n := f (vfs_nodes s n))"
  by (simp_all add: upd_node_def)

lemma upd_cache_simps [simp]:
  "vfs_caches (upd_cache n g s) = (vfs_caches s)(n := g (vfs_caches s n))" "vfs_cache_nodes (upd_cache n g s) = vfs_cache_nodes s"
  "vfs_cache (upd_cache n g s) = vfs_cache s" "ramfs_nodes (upd_cache n g s) = ramfs_nodes s"
  "vfs_nodes (upd_cache n g s) = vfs_nodes s"
  by (simp_all add: upd_cache_def)

lemma upd_cached_simps [simp]:
  "vfs_caches (upd_cached n h s) = vfs_caches s" "vfs_cache_nodes (upd_cached n h s) = (vfs_cache_nodes s)(n := h (vfs_cache_nodes s n))"
  "vfs_cache (upd_cached n h s) = vfs_cache s" "ramfs_nodes (upd_cached n h s) = ramfs_nodes s"
  "vfs_nodes (upd_cached n h s) = vfs_nodes s"
  by (simp_all add: upd_cached_def)

text \<open>The lists depend on the caches, their cells and the two indices of the nodes only.\<close>

definition same_indices :: "'a kernel_fs_scheme \<Rightarrow> 'a kernel_fs_scheme \<Rightarrow> u32 \<Rightarrow> bool" where
  "same_indices s s' n \<longleftrightarrow> cache_index (vfs_nodes s' n) = cache_index (vfs_nodes s n) \<and>
     node_index (vfs_nodes s' n) = node_index (vfs_nodes s n)"

definition same_cell :: "'a kernel_fs_scheme \<Rightarrow> 'a kernel_fs_scheme \<Rightarrow> u32 \<Rightarrow> bool" where
  "same_cell s s' p \<longleftrightarrow> vfs_cache_nodes s' p = vfs_cache_nodes s p \<and> same_indices s s' (cached_at s p)"

lemma same_cellD:
  assumes "same_cell s s' p"
  shows "cached_links s' p = cached_links s p" "cached_at s' p = cached_at s p" "cached_index s' p = cached_index s p"
    "cache_index (vfs_nodes s' (cached_at s p)) = cache_index (vfs_nodes s (cached_at s p))"
  using assms by (simp_all add: same_cell_def same_indices_def cached_links_def cached_at_def cached_index_def)

lemma row_ok_cong:
  assumes "vfs_caches s' c = vfs_caches s c" "\<And>p. p \<in> set ns \<Longrightarrow> same_cell s s' p"
  shows "row_ok s' c ns = row_ok s c ns"
proof -
  have "path (cached_links s') q ns = path (cached_links s) q ns" for q
    using assms(2) by (intro path_cong) (simp add: same_cellD)
  moreover have "map (cached_index s') ns = map (cached_index s) ns" using assms(2) by (simp add: same_cellD)
  then have "distinct (map (cached_index s') ns) = distinct (map (cached_index s) ns)" by (rule arg_cong)
  moreover have "(\<forall>p \<in> set ns. cache_index (vfs_nodes s' (cached_at s' p)) = N) =
      (\<forall>p \<in> set ns. cache_index (vfs_nodes s (cached_at s p)) = N)" for N
    by (intro ball_cong refl) (simp add: same_cellD [OF assms(2)])
  ultimately show ?thesis using assms(1) by (simp add: row_ok_def)
qed

lemma cache_shape_cong:
  assumes "cache_shape s css" "vfs_cache s' = vfs_cache s" "\<And>c. c \<in> fst ` set css \<Longrightarrow> vfs_caches s' c = vfs_caches s c"
    and "\<And>p. p \<in> set (cells css) \<Longrightarrow> same_cell s s' p"
  shows "cache_shape s' css"
proof -
  have "row_ok s' c ns = row_ok s c ns" if "(c, ns) \<in> set css" for c ns
    using assms(3,4) that by (intro row_ok_cong) (force simp: cells_def)+
  moreover have "path (cache_links s') (vfs_cache s) (map fst css) = path (cache_links s) (vfs_cache s) (map fst css)"
    using assms(3) by (intro path_cong) (auto simp: cache_links_def)
  moreover have "cache_numbers s' css = cache_numbers s css" using assms(3) by (force simp: cache_numbers_def)
  ultimately show ?thesis using assms(1,2) unfolding cache_shape_def by auto
qed

text \<open>A cache is put at the end of the list, or taken out of it.\<close>

definition link_after :: "u32 \<Rightarrow> u32 \<Rightarrow> 'a kernel_fs_scheme \<Rightarrow> 'a kernel_fs_scheme" where
  "link_after prev c s = (if prev \<noteq> 0 then upd_cache prev (\<lambda>k. k\<lparr>cache_next := c\<rparr>) s else s\<lparr>vfs_cache := c\<rparr>)"

lemma link_after_simps [simp]:
  "vfs_nodes (link_after prev c s) = vfs_nodes s" "vfs_cache_nodes (link_after prev c s) = vfs_cache_nodes s"
  "ramfs_nodes (link_after prev c s) = ramfs_nodes s"
  "cache_nodes (vfs_caches (link_after prev c s) k) = cache_nodes (vfs_caches s k)"
  "cache_number (vfs_caches (link_after prev c s) k) = cache_number (vfs_caches s k)"
  "cached_index (link_after prev c s) = cached_index s" "cached_links (link_after prev c s) = cached_links s"
  "cached_at (link_after prev c s) = cached_at s"
  by (simp_all add: link_after_def fun_eq_iff cached_index_def cached_links_def cached_at_def)

lemma row_ok_link_after [simp]: "row_ok (link_after prev c s) = row_ok s"
  by (simp add: fun_eq_iff row_ok_def)

lemma link_after_path:
  assumes "path (cache_links s) (vfs_cache s) xs"
  shows "c \<noteq> 0 \<Longrightarrow> c \<notin> set xs \<Longrightarrow> cache_links s c = 0 \<Longrightarrow>
      path (cache_links (link_after (last (0 # xs)) c s)) (vfs_cache (link_after (last (0 # xs)) c s)) (xs @ [c])"
    "xs = us @ d # vs \<Longrightarrow> path (cache_links (link_after (last (0 # us)) (cache_links s d) s))
      (vfs_cache (link_after (last (0 # us)) (cache_links s d) s)) (us @ vs)"
proof -
  have n: "0 \<notin> set xs" using path_no_NULL [OF assms] .
  have l: "cache_links (link_after prev v s) = (if prev \<noteq> 0 then (cache_links s)(prev := v) else cache_links s)"
    "vfs_cache (link_after prev v s) = (if prev \<noteq> 0 then vfs_cache s else v)" for prev v
    by (auto simp: link_after_def cache_links_def fun_eq_iff)
  show "path (cache_links (link_after (last (0 # xs)) c s)) (vfs_cache (link_after (last (0 # xs)) c s)) (xs @ [c])"
    if "c \<noteq> 0" "c \<notin> set xs" "cache_links s c = 0"
  proof (cases "xs = []")
    case True
    then show ?thesis using that by (simp add: l)
  next
    case False
    then have "last xs \<noteq> 0" using n by (metis last_in_set)
    then show ?thesis using False path_snoc [OF assms False that(2,1,3)] by (simp add: l)
  qed
  show "path (cache_links (link_after (last (0 # us)) (cache_links s d) s))
      (vfs_cache (link_after (last (0 # us)) (cache_links s d) s)) (us @ vs)" if "xs = us @ d # vs"
  proof (cases us rule: rev_cases)
    case Nil
    then show ?thesis using assms that by (simp add: l)
  next
    case (snoc us' x)
    then have "x \<noteq> 0" using n that by auto
    then show ?thesis using path_remove [of "cache_links s" "vfs_cache s" us' x d vs] assms that snoc by (simp add: l)
  qed
qed


lemma cells_append [simp]: "cells (us @ vs) = cells us @ cells vs" "cells ((c, ns) # vs) = ns @ cells vs" "cells [] = []"
  by (simp_all add: cells_def)

lemma cache_numbers_append [simp]:
  "cache_numbers s (us @ vs) = cache_numbers s us @ cache_numbers s vs" "cache_numbers s [] = []"
  "cache_numbers s ((c, ns) # vs) = cache_number (vfs_caches s c) # cache_numbers s vs"
  by (simp_all add: cache_numbers_def)

lemma cache_numbers_link_after [simp]: "cache_numbers (link_after prev c s) css = cache_numbers s css"
  by (simp add: cache_numbers_def)

lemma shape_add_cache:
  assumes "cache_shape s css" "c \<noteq> 0" "c \<notin> fst ` set css" "vfs_caches s c = \<lparr>cache_number = number, cache_nodes = 0, cache_next = 0\<rparr>"
    and "number \<notin> set (cache_numbers s css)"
  shows "cache_shape (link_after (last (0 # map fst css)) c s) (css @ [(c, [])])"
  using assms link_after_path(1) [of s "map fst css" c]
  by (auto simp: cache_shape_def cache_links_def row_ok_def)

lemma shape_remove_cache:
  assumes "cache_shape s (us @ (c, []) # vs)"
  shows "cache_shape (link_after (last (0 # map fst us)) (cache_links s c) s) (us @ vs)"
  using assms link_after_path(2) [of s "map fst (us @ (c, []) # vs)" "map fst us" c "map fst vs"]
  by (auto simp: cache_shape_def)

text \<open>A cell is put at the end of the list of a cache, or taken out of it.\<close>

definition hang_after :: "u32 \<Rightarrow> u32 \<Rightarrow> u32 \<Rightarrow> 'a kernel_fs_scheme \<Rightarrow> 'a kernel_fs_scheme" where
  "hang_after c prev p s =
     (if prev \<noteq> 0 then upd_cached prev (\<lambda>k. k\<lparr>cached_next := p\<rparr>) s else upd_cache c (\<lambda>k. k\<lparr>cache_nodes := p\<rparr>) s)"

lemma hang_after_simps [simp]:
  "vfs_nodes (hang_after c prev p s) = vfs_nodes s" "vfs_cache (hang_after c prev p s) = vfs_cache s"
  "ramfs_nodes (hang_after c prev p s) = ramfs_nodes s" "cache_links (hang_after c prev p s) = cache_links s"
  "cache_number (vfs_caches (hang_after c prev p s) k) = cache_number (vfs_caches s k)"
  "cached_at (hang_after c prev p s) = cached_at s" "cached_index (hang_after c prev p s) = cached_index s"
  "cached_links (hang_after c prev p s) = (if prev \<noteq> 0 then (cached_links s)(prev := p) else cached_links s)"
  "cache_nodes (vfs_caches (hang_after c prev p s) k) = (if prev = 0 \<and> k = c then p else cache_nodes (vfs_caches s k))"
  "cache_numbers (hang_after c prev p s) css = cache_numbers s css"
  by (auto simp: hang_after_def fun_eq_iff cache_links_def cached_at_def cached_index_def cached_links_def cache_numbers_def)

lemma hang_after_path:
  assumes "path (cached_links s) (cache_nodes (vfs_caches s c)) xs"
  shows "p \<noteq> 0 \<Longrightarrow> p \<notin> set xs \<Longrightarrow> cached_links s p = 0 \<Longrightarrow>
      path (cached_links (hang_after c (last (0 # xs)) p s)) (cache_nodes (vfs_caches (hang_after c (last (0 # xs)) p s) c)) (xs @ [p])"
    "xs = us @ q # vs \<Longrightarrow> path (cached_links (hang_after c (last (0 # us)) (cached_links s q) s))
      (cache_nodes (vfs_caches (hang_after c (last (0 # us)) (cached_links s q) s) c)) (us @ vs)"
proof -
  have n: "0 \<notin> set xs" using path_no_NULL [OF assms] .
  show "path (cached_links (hang_after c (last (0 # xs)) p s)) (cache_nodes (vfs_caches (hang_after c (last (0 # xs)) p s) c)) (xs @ [p])"
    if "p \<noteq> 0" "p \<notin> set xs" "cached_links s p = 0"
  proof (cases "xs = []")
    case False
    then have "last xs \<noteq> 0" using n by (metis last_in_set)
    then show ?thesis using False path_snoc [OF assms False that(2,1,3)] by simp
  qed (use that in simp)
  show "path (cached_links (hang_after c (last (0 # us)) (cached_links s q) s))
      (cache_nodes (vfs_caches (hang_after c (last (0 # us)) (cached_links s q) s) c)) (us @ vs)" if "xs = us @ q # vs"
  proof (cases us rule: rev_cases)
    case Nil
    then show ?thesis using assms that by simp
  next
    case (snoc us' x)
    then have "x \<noteq> 0" using n that by auto
    then show ?thesis using path_remove [of "cached_links s" "cache_nodes (vfs_caches s c)" us' x q vs] assms that snoc by simp
  qed
qed

text \<open>The other lists stay as they are.\<close>

lemma hang_after_other:
  assumes "row_ok s k ns" "k \<noteq> c" "prev \<notin> set ns"
  shows "row_ok (hang_after c prev p s) k ns"
  using assms by (auto simp: row_ok_def)

lemma shape_others:
  assumes "cache_shape s (us @ (c, ns) # vs)" "(k, ms) \<in> set (us @ vs)"
  shows "row_ok s k ms" "k \<noteq> c" "set ns \<inter> set ms = {}" "0 \<notin> set ms"
proof -
  have f: "distinct (map fst (us @ (c, ns) # vs))" using assms(1) path_distinct unfolding cache_shape_def by blast
  then have "c \<notin> fst ` set (us @ vs)" by auto
  then show "k \<noteq> c" using assms(2) by (metis fst_conv image_eqI)
  show r: "row_ok s k ms" using assms by (auto simp: cache_shape_def)
  show "0 \<notin> set ms" using r path_no_NULL unfolding row_ok_def by blast
  have "set ms \<subseteq> set (cells (us @ vs))" using assms(2) by (force simp: cells_def)
  then show "set ns \<inter> set ms = {}" using assms(1) by (auto simp: cache_shape_def)
qed

lemma hang_after_others:
  assumes "cache_shape s (us @ (c, ns) # vs)" "(k, ms) \<in> set (us @ vs)" "prev \<in> insert 0 (set ns)"
  shows "row_ok (hang_after c prev p s) k ms"
  using shape_others [OF assms(1,2)] assms(3) by (intro hang_after_other) auto

lemma shape_add_cell:
  assumes "cache_shape s (us @ (c, ns) # vs)" "p \<noteq> 0" "p \<notin> set (cells (us @ (c, ns) # vs))" "cached_links s p = 0"
    and "cached_index s p \<notin> cached_index s ` set ns"
    and "cache_index (vfs_nodes s (cached_at s p)) = cache_number (vfs_caches s c)"
  shows "cache_shape (hang_after c (last (0 # ns)) p s) (us @ (c, ns @ [p]) # vs)"
proof -
  let ?s = "hang_after c (last (0 # ns)) p s"
  have P: "path (cached_links s) (cache_nodes (vfs_caches s c)) ns" and r: "row_ok s c ns"
    using assms(1) by (auto simp: cache_shape_def row_ok_def)
  have "row_ok ?s c (ns @ [p])"
    using hang_after_path(1) [OF P assms(2) _ assms(4)] r assms(3,5,6) by (auto simp: row_ok_def)
  moreover have "row_ok ?s k ms" if "(k, ms) \<in> set (us @ vs)" for k ms
    by (rule hang_after_others [OF assms(1) that]) auto
  ultimately show ?thesis using assms(1,3) by (auto simp: cache_shape_def)
qed

lemma shape_remove_cell:
  assumes "cache_shape s (us @ (c, xs @ p # ys) # vs)"
  shows "cache_shape (hang_after c (last (0 # xs)) (cached_links s p) s) (us @ (c, xs @ ys) # vs)"
proof -
  let ?s = "hang_after c (last (0 # xs)) (cached_links s p) s"
  have P: "path (cached_links s) (cache_nodes (vfs_caches s c)) (xs @ p # ys)" and r: "row_ok s c (xs @ p # ys)"
    using assms(1) by (auto simp: cache_shape_def row_ok_def)
  have "row_ok ?s c (xs @ ys)" using hang_after_path(2) [OF P refl] r by (auto simp: row_ok_def)
  moreover have "row_ok ?s k ms" if "(k, ms) \<in> set (us @ vs)" for k ms
    by (rule hang_after_others [OF assms(1) that]) (cases xs rule: rev_cases, auto)
  ultimately show ?thesis using assms(1) by (auto simp: cache_shape_def)
qed


section \<open>The cache as a set of nodes\<close>

definition cached_nodes :: "'a kernel_fs_scheme \<Rightarrow> (u32 \<times> u32 list) list \<Rightarrow> u32 list" where
  "cached_nodes s css = map (cached_at s) (cells css)"

text \<open>The node of a file system with a given number, \<^verbatim>\<open>NULL\<close> when it is not cached.\<close>

definition node_at :: "'a kernel_fs_scheme \<Rightarrow> (u32 \<times> u32 list) list \<Rightarrow> u64 \<Rightarrow> u64 \<Rightarrow> u32 option" where
  "node_at s css number ident =
     find (\<lambda>n. cache_index (vfs_nodes s n) = number \<and> node_index (vfs_nodes s n) = ident) (cached_nodes s css)"

lemma shape_row:
  assumes "cache_shape s css" "(c, ns) \<in> set css" "p \<in> set ns"
  shows "cache_index (vfs_nodes s (cached_at s p)) = cache_number (vfs_caches s c)"
  using assms by (auto simp: cache_shape_def row_ok_def)

lemma node_at_row:
  assumes "cache_shape s (us @ (c, ns) # vs)"
  shows "node_at s (us @ (c, ns) # vs) (cache_number (vfs_caches s c)) ident =
    map_option (cached_at s) (find (\<lambda>p. cached_index s p = ident) ns)"
proof -
  let ?N = "cache_number (vfs_caches s c)"
  let ?Q = "\<lambda>p. cache_index (vfs_nodes s (cached_at s p)) = ?N \<and> node_index (vfs_nodes s (cached_at s p)) = ident"
  have other: "find ?Q (cells ws) = None" if "set ws \<subseteq> set (us @ vs)" for ws
  proof -
    have "cache_index (vfs_nodes s (cached_at s p)) \<noteq> ?N" if "p \<in> set (cells ws)" for p
    proof -
      obtain k ms where ws: "(k, ms) \<in> set ws" and ms: "p \<in> set ms"
        using \<open>p \<in> set (cells ws)\<close> by (auto simp: cells_def)
      note k = subsetD [OF \<open>set ws \<subseteq> _\<close> ws] ms
      have "cache_number (vfs_caches s k) \<in> set (cache_numbers s (us @ vs))" using k(1) by (force simp: cache_numbers_def)
      then have "cache_number (vfs_caches s k) \<noteq> ?N" using assms by (auto simp: cache_shape_def)
      moreover have "cache_index (vfs_nodes s (cached_at s p)) = cache_number (vfs_caches s k)"
        using shape_row [OF assms _ k(2), of k] k(1) by auto
      ultimately show ?thesis by simp
    qed
    then show ?thesis unfolding find_eq_None by blast
  qed
  have own: "find ?Q ns = find (\<lambda>p. cached_index s p = ident) ns"
  proof (rule find_cong_set)
    fix p assume "p \<in> set ns"
    then have "cache_index (vfs_nodes s (cached_at s p)) = ?N" using shape_row [OF assms, of c ns] by simp
    then show "?Q p = (cached_index s p = ident)" by (simp add: cached_index_def cached_at_def)
  qed
  show ?thesis
    unfolding node_at_def cached_nodes_def find_map cells_append find_append own other [of us, simplified] other [of vs, simplified]
    by (simp split: option.splits)
qed

lemma cache_numbers_set: "x \<in> set (cache_numbers s css) \<longleftrightarrow> (\<exists>c \<in> fst ` set css. cache_number (vfs_caches s c) = x)"
  by (force simp: cache_numbers_def)

lemma split_cache:
  assumes "number \<in> set (cache_numbers s css)"
  obtains us c ns vs where "css = us @ (c, ns) # vs" "cache_number (vfs_caches s c) = number"
    "\<forall>k \<in> fst ` set us. cache_number (vfs_caches s k) \<noteq> number"
proof -
  have "\<exists>x \<in> set css. cache_number (vfs_caches s (fst x)) = number" using assms by (auto simp: cache_numbers_def split_beta)
  then obtain us x vs where "css = us @ x # vs" "cache_number (vfs_caches s (fst x)) = number"
    "\<forall>y \<in> set us. cache_number (vfs_caches s (fst y)) \<noteq> number"
    using split_list_first_prop [of css "\<lambda>x. cache_number (vfs_caches s (fst x)) = number"] by blast
  then show thesis using that [of us "fst x" "snd x" vs] by auto
qed

lemma query_result:
  assumes "cache_shape s css"
  shows "vfs_cache_query_node index ident s =
    (if ucast index \<in> set (cache_numbers s css)
     then Some (case node_at s css (ucast index) ident of None \<Rightarrow> (RESOURCE_RESULT_NOT_FOUND, 0) | Some n \<Rightarrow> (RESOURCE_RESULT_OK, n))
     else None)"
proof -
  have P: "path (cache_links s) (vfs_cache s) (map fst css)" using assms by (simp add: cache_shape_def)
  show ?thesis
  proof (cases "ucast index \<in> set (cache_numbers s css)")
    case True
    then obtain us c ns vs where css: "css = us @ (c, ns) # vs" "cache_number (vfs_caches s c) = ucast index"
      "\<forall>k \<in> fst ` set us. cache_number (vfs_caches s k) \<noteq> ucast index" by (rule split_cache)
    have "find (\<lambda>p. cache_number (vfs_caches s p) = ucast index) (map fst us) = None" using css(3) by (simp add: find_eq_None)
    then have "find (\<lambda>p. cache_number (vfs_caches s p) = ucast index) (map fst css) = Some c"
      using css(1,2) by (simp add: find_append)
    then have l: "list_find (cache_links s) (\<lambda>p. cache_number (vfs_caches s p) = ucast index) (vfs_cache s) = Some c"
      using list_find_path [OF P] by simp
    have "c \<noteq> 0" using path_no_NULL [OF P] css(1) by auto
    moreover have Q: "path (cached_links s) (cache_nodes (vfs_caches s c)) ns"
      using assms css(1) by (auto simp: cache_shape_def row_ok_def)
    then have "x \<noteq> 0" if "find (\<lambda>p. cached_index s p = ident) ns = Some x" for x
      using that path_no_NULL [OF Q] find_SomeD by metis
    ultimately show ?thesis
      using True l list_find_path [OF Q] node_at_row [OF assms [unfolded css(1)], of ident] css(1,2)
      by (auto simp: vfs_cache_query_node_def cached_at_def split: option.splits)
  next
    case False
    then have "find (\<lambda>p. cache_number (vfs_caches s p) = ucast index) (map fst css) = None"
      by (auto simp: find_eq_None cache_numbers_set)
    then show ?thesis using list_find_path [OF P] False by (simp add: vfs_cache_query_node_def)
  qed
qed


section \<open>The blocks of the cache\<close>

definition cache_blocks :: "'a kernel_fs_scheme \<Rightarrow> (u32 \<times> u32 list) list \<Rightarrow> u32 list" where
  "cache_blocks s css = map fst css @ cells css @ cached_nodes s css"

text \<open>
  The invariant of the cache; \<open>E\<close> are the blocks of other parts of the kernel. No cached node is
  \<^verbatim>\<open>NULL\<close>.
\<close>

definition cache_ok :: "'a kernel_fs_scheme \<Rightarrow> (u32 \<times> u32 list) list \<Rightarrow> u32 set \<Rightarrow> bool" where
  "cache_ok s css E \<longleftrightarrow> kernel_heap_ready s \<and> cache_shape s css \<and> distinct (cache_blocks s css) \<and>
     0 \<notin> set (cached_nodes s css) \<and> set (cache_blocks s css) \<inter> E = {} \<and> separate s (set (cache_blocks s css) \<union> E)"

lemma cache_okD:
  assumes "cache_ok s css E"
  shows "kernel_heap_ready s" "cache_shape s css" "distinct (cache_blocks s css)" "0 \<notin> set (cached_nodes s css)"
    "set (cache_blocks s css) \<inter> E = {}" "separate s (set (cache_blocks s css) \<union> E)"
  using assms by (simp_all add: cache_ok_def)


text \<open>Steps that change the heap, or only things that the cache does not depend on.\<close>

lemma cached_nodes_cong: "(\<And>p. p \<in> set (cells css) \<Longrightarrow> vfs_cache_nodes s' p = vfs_cache_nodes s p) \<Longrightarrow>
    cached_nodes s' css = cached_nodes s css"
  by (simp add: cached_nodes_def cached_at_def)

lemma cache_ok_heap:
  assumes "cache_ok s css E" "heap_machine.more s' = heap_machine.more s" "kernel_heap_ready s'"
    and "separate s' (set (cache_blocks s css) \<union> E')" "set (cache_blocks s css) \<inter> E' = {}"
  shows "cache_ok s' css E'"
proof -
  note M = more_fs [OF assms(2)]
  have "cached_nodes s' css = cached_nodes s css" by (rule cached_nodes_cong) (simp add: M)
  moreover have "cache_shape s' css"
    by (rule cache_shape_cong [OF cache_okD(2) [OF assms(1)]]) (simp_all add: M same_cell_def same_indices_def)
  ultimately show ?thesis using assms cache_okD [OF assms(1)] by (simp add: cache_ok_def cache_blocks_def)
qed

lemma cache_ok_same:
  assumes "cache_ok s css E" "same_heap s s'" "vfs_cache s' = vfs_cache s" "vfs_caches s' = vfs_caches s"
    "vfs_cache_nodes s' = vfs_cache_nodes s" "\<And>n. n \<in> set (cached_nodes s css) \<Longrightarrow> same_indices s s' n"
  shows "cache_ok s' css E"
proof -
  have n: "cached_nodes s' css = cached_nodes s css" by (rule cached_nodes_cong) (simp add: assms(5))
  have "cache_shape s' css"
    by (rule cache_shape_cong [OF cache_okD(2) [OF assms(1)]])
      (use assms(3-6) in \<open>auto simp: same_cell_def cached_nodes_def\<close>)
  then show ?thesis
    using cache_okD [OF assms(1)] separate_same [OF assms(2)] same_heapD(1) [OF assms(2)] n
    by (simp add: cache_ok_def cache_blocks_def)
qed

lemma same_heap_link [simp]: "same_heap s (link_after prev c s)" "same_heap s (hang_after c prev p s)"
  "same_heap s (s\<lparr>vfs_caches := C\<rparr>)" "same_heap s (s\<lparr>vfs_cache_nodes := D\<rparr>)" "same_heap s (s\<lparr>vfs_nodes := F\<rparr>)"
  by (simp_all add: same_heap_def link_after_def hang_after_def upd_cache_def upd_cached_def)

lemma add_cache_result:
  assumes "cache_ok s css E"
  obtains (none) s' where "find_or_add_cache number s = Some (0, s')" "cache_ok s' css E"
      "vfs_nodes s' = vfs_nodes s" "ramfs_nodes s' = ramfs_nodes s" "vfs_cache_nodes s' = vfs_cache_nodes s"
      "cache_numbers s' css = cache_numbers s css"
  | (cache) s' us c ns vs where "find_or_add_cache number s = Some (c, s')" "cache_ok s' (us @ (c, ns) # vs) E"
      "cache_number (vfs_caches s' c) = number" "cells (us @ (c, ns) # vs) = cells css"
      "set (cache_numbers s' (us @ (c, ns) # vs)) = insert number (set (cache_numbers s css))"
      "vfs_nodes s' = vfs_nodes s" "ramfs_nodes s' = ramfs_nodes s" "vfs_cache_nodes s' = vfs_cache_nodes s"
proof -
  note O = cache_okD [OF assms]
  have P: "path (cache_links s) (vfs_cache s) (map fst css)" using O(2) by (simp add: cache_shape_def)
  show thesis
  proof (cases "number \<in> set (cache_numbers s css)")
    case True
    then obtain us c ns vs where css: "css = us @ (c, ns) # vs" "cache_number (vfs_caches s c) = number"
      "\<forall>k \<in> fst ` set us. cache_number (vfs_caches s k) \<noteq> number" by (rule split_cache)
    have "find_with_previous (cache_links s) (\<lambda>p. cache_number (vfs_caches s p) = number) 0 (vfs_cache s) =
        Some (last (0 # map fst us), c)"
      using P css by (intro find_with_previous_found [where ys = "map fst vs"]) auto
    moreover have "c \<noteq> 0" using path_no_NULL [OF P] css(1) by auto
    ultimately have "find_or_add_cache number s = Some (c, s)" by (simp add: find_or_add_cache_def)
    then show thesis using cache [of c s us ns vs] assms css True by (auto simp: insert_absorb)
  next
    case False
    have f: "find_with_previous (cache_links s) (\<lambda>p. cache_number (vfs_caches s p) = number) 0 (vfs_cache s) =
        Some (last (0 # map fst css), 0)"
      using P False by (intro find_with_previous_missing) (auto simp: cache_numbers_set)
    have "heap_request_fits sizeof_vfs_node_cache_t" "sizeof_vfs_node_cache_t \<noteq> 0"
      by (simp_all add: heap_request_fits_def sizeof_vfs_node_cache_t_def)
    with O(1,6) show thesis
    proof (cases rule: separate_calloc)
      case (none s')
      note M = more_fs [OF none(4)]
      have "cache_ok s' css E" by (rule cache_ok_heap [OF assms none(4,2,3) O(5)])
      moreover have "find_or_add_cache number s = Some (0, s')" using f none(1) by (simp add: find_or_add_cache_def)
      moreover have "cache_numbers s' css = cache_numbers s css" by (simp add: cache_numbers_def M)
      ultimately show thesis using that(1) M by blast
    next
      case (block c s1)
      note M = more_fs [OF block(6)]
      let ?s2 = "s1\<lparr>vfs_caches := (vfs_caches s1)(c := \<lparr>cache_number = number, cache_nodes = 0, cache_next = 0\<rparr>)\<rparr>"
      let ?s3 = "link_after (last (0 # map fst css)) c ?s2"
      have n: "cached_nodes ?s3 css = cached_nodes s css" by (rule cached_nodes_cong) (simp add: M)
      have c: "c \<notin> set (cache_blocks s css)" using block(3) by blast
      then have c': "c \<notin> fst ` set css" by (auto simp: cache_blocks_def)
      have "cache_shape ?s2 css"
        by (rule cache_shape_cong [OF O(2)]) (use M c' in \<open>auto simp: same_cell_def same_indices_def\<close>)
      moreover have "number \<notin> set (cache_numbers ?s2 css)"
      proof -
        have "cache_numbers ?s2 css = cache_numbers s css" using c' M by (force simp: cache_numbers_def)
        then show ?thesis using False by simp
      qed
      ultimately have sh: "cache_shape ?s3 (css @ [(c, [])])" using block(2) c' by (intro shape_add_cache) simp_all
      have "same_heap s1 ?s3" by (rule same_heap_trans [of _ ?s2]) simp_all
      note H = same_heapD(1) [OF this] separate_same [OF this]
      have n': "cached_nodes ?s3 (css @ [(c, [])]) = cached_nodes s css" using n unfolding cached_nodes_def by simp
      then have b: "set (cache_blocks ?s3 (css @ [(c, [])])) = insert c (set (cache_blocks s css))"
        "distinct (cache_blocks ?s3 (css @ [(c, [])]))" using O(3) c by (auto simp: cache_blocks_def)
      have "cache_ok ?s3 (css @ [(c, [])]) E"
        unfolding cache_ok_def b(1) n' H using sh O(4,5) b(2) block(3,4,5) c by auto
      moreover have "find_or_add_cache number s = Some (c, ?s3)"
        using f block(1,2) by (simp add: find_or_add_cache_def link_after_def)
      moreover have "set (cache_numbers ?s3 (css @ [(c, [])])) = insert number (set (cache_numbers s css))"
        using c' M by (force simp: cache_numbers_def)
      ultimately show thesis using that(2) [of c ?s3 css "[]" "[]"] M by simp
    qed
  qed
qed


lemma cache_shape_distinct: "cache_shape s css \<Longrightarrow> distinct (cells css)"
  by (simp add: cache_shape_def)

lemma node_at_iff:
  assumes "cache_shape s css"
  shows "node_at s css number ident = Some n \<longleftrightarrow>
    n \<in> set (cached_nodes s css) \<and> cache_index (vfs_nodes s n) = number \<and> node_index (vfs_nodes s n) = ident"
    (is "?L = ?R")
proof
  assume ?L
  then show ?R unfolding node_at_def by (auto dest: find_SomeD)
next
  assume R: ?R
  then obtain p where p: "p \<in> set (cells css)" "n = cached_at s p" by (auto simp: cached_nodes_def)
  then obtain c ns where c: "(c, ns) \<in> set css" "p \<in> set ns" by (auto simp: cells_def)
  then obtain us vs where css: "css = us @ (c, ns) # vs" by (metis split_list)
  have N: "cache_number (vfs_caches s c) = number" using shape_row [OF assms c] R p(2) by simp
  have i: "cached_index s p = ident" using R p(2) by (simp add: cached_index_def cached_at_def)
  have "find (\<lambda>q. cached_index s q = ident) ns = Some p"
  proof -
    obtain q where q: "find (\<lambda>q. cached_index s q = ident) ns = Some q"
      using c(2) i by (metis (mono_tags, lifting) find_eq_None not_Some_eq)
    then have "q \<in> set ns" "cached_index s q = ident" using find_SomeD by fast+
    moreover have "distinct (map (cached_index s) ns)" using assms c(1) by (auto simp: cache_shape_def row_ok_def)
    ultimately have "q = p" using c(2) i by (metis distinct_map inj_onD)
    then show ?thesis using q by simp
  qed
  then show ?L using node_at_row [OF assms [unfolded css], of ident] css N p(2) by simp
qed


lemma vfs_lock_node_simps [simp]:
  "vfs_caches (snd (vfs_lock_node n s)) = vfs_caches s" "vfs_cache_nodes (snd (vfs_lock_node n s)) = vfs_cache_nodes s"
  "vfs_cache (snd (vfs_lock_node n s)) = vfs_cache s" "ramfs_nodes (snd (vfs_lock_node n s)) = ramfs_nodes s"
  "same_indices s (snd (vfs_lock_node n s)) m" "same_heap s (snd (vfs_lock_node n s))"
  by (auto simp: vfs_lock_node_def same_indices_def same_heap_def [of s s])

definition new_cell :: "u32 \<Rightarrow> u32 \<Rightarrow> 'a kernel_fs_scheme \<Rightarrow> 'a kernel_fs_scheme" where
  "new_cell p n s = s\<lparr>vfs_cache_nodes := (vfs_cache_nodes s)(p := \<lparr>cached_node = n, cached_next = 0\<rparr>)\<rparr>"

lemma new_cell_simps [simp]:
  "vfs_caches (new_cell p n s) = vfs_caches s" "vfs_nodes (new_cell p n s) = vfs_nodes s"
  "vfs_cache (new_cell p n s) = vfs_cache s" "ramfs_nodes (new_cell p n s) = ramfs_nodes s"
  "cached_at (new_cell p n s) q = (if q = p then n else cached_at s q)"
  "cached_index (new_cell p n s) q = (if q = p then node_index (vfs_nodes s n) else cached_index s q)"
  "cached_links (new_cell p n s) p = 0" "same_heap s (new_cell p n s)" "cache_numbers (new_cell p n s) = cache_numbers s"
  by (simp_all add: new_cell_def cached_at_def cached_index_def cached_links_def cache_numbers_def fun_eq_iff)

lemma cache_ok_add_cell:
  fixes us vs c ns
  assumes "cache_ok s (us @ (c, ns) # vs) (insert p (insert n E))" "p \<notin> insert n E" "n \<notin> E" "p \<noteq> 0" "n \<noteq> 0"
    and "cache_index (vfs_nodes s n) = cache_number (vfs_caches s c)"
    and "\<forall>q \<in> set ns. cached_index s q \<noteq> node_index (vfs_nodes s n)"
  defines "s' \<equiv> hang_after c (last (0 # ns)) p (new_cell p n s)"
  shows "cache_ok s' (us @ (c, ns @ [p]) # vs) E"
    "set (cached_nodes s' (us @ (c, ns @ [p]) # vs)) = insert n (set (cached_nodes s (us @ (c, ns) # vs)))"
proof -
  let ?css = "us @ (c, ns) # vs" and ?css' = "us @ (c, ns @ [p]) # vs"
  note O = cache_okD [OF assms(1)]
  have p: "p \<notin> set (cache_blocks s ?css)" and n: "n \<notin> set (cache_blocks s ?css)" using O(5) by auto
  then have p': "p \<notin> set (cells ?css)" by (auto simp: cache_blocks_def)
  have "cache_shape (new_cell p n s) ?css"
    by (rule cache_shape_cong [OF O(2)]) (use p' in \<open>auto simp: same_cell_def same_indices_def new_cell_def\<close>)
  then have sh: "cache_shape s' ?css'" unfolding s'_def
    by (rule shape_add_cell) (use assms(4,6,7) p' in \<open>auto split: if_splits\<close>)
  have a: "cached_at s' = (\<lambda>q. if q = p then n else cached_at s q)" by (simp add: s'_def fun_eq_iff)
  have us: "map (cached_at s') xs = map (cached_at s) xs" if "p \<notin> set xs" for xs
    unfolding a using that by (induction xs) auto
  have N: "cached_nodes s' ?css' = map (cached_at s) (cells us) @ map (cached_at s) ns @ n # map (cached_at s) (cells vs)"
    "cached_nodes s ?css = map (cached_at s) (cells us) @ map (cached_at s) ns @ map (cached_at s) (cells vs)"
    using us p' by (simp_all add: cached_nodes_def a)
  then show M: "set (cached_nodes s' ?css') = insert n (set (cached_nodes s ?css))" by auto
  have bs: "set (cache_blocks s' ?css') = insert p (insert n (set (cache_blocks s ?css)))"
    unfolding cache_blocks_def set_append M by auto
  have d: "distinct (cache_blocks s' ?css')" using O(3) p n assms(2) unfolding cache_blocks_def N by auto
  have "same_heap s s'" unfolding s'_def by (rule same_heap_trans [of _ "new_cell p n s"]) simp_all
  note H = same_heapD(1) [OF this] separate_same [OF this]
  show "cache_ok s' ?css' E"
    unfolding cache_ok_def bs M H using sh O(1,4,5,6) d assms(2,3,5) by (auto simp: Un_insert_right)
qed

lemma cache_put_result:
  assumes "cache_ok s css (insert n E)" "n \<notin> E" "n \<noteq> 0"
  obtains (failed) r s' css' where "vfs_cache_put n s = Some (r, s')" "r \<noteq> RESOURCE_RESULT_OK" "cache_ok s' css' (insert n E)"
      "cached_nodes s' css' = cached_nodes s css" "vfs_nodes s' = vfs_nodes s" "ramfs_nodes s' = ramfs_nodes s"
      "set (cache_numbers s css) \<subseteq> set (cache_numbers s' css')"
  | (put) s' css' where "vfs_cache_put n s = Some (RESOURCE_RESULT_OK, s')" "cache_ok s' css' E"
      "set (cached_nodes s' css') = insert n (set (cached_nodes s css))"
      "vfs_nodes s' = (vfs_nodes s)(n := (vfs_nodes s n)\<lparr>node_ref_count := node_ref_count (vfs_nodes s n) + 1\<rparr>)"
      "ramfs_nodes s' = ramfs_nodes s"
      "set (cache_numbers s' css') = insert (cache_index (vfs_nodes s n)) (set (cache_numbers s css))"
  using assms(1)
proof (cases rule: add_cache_result [where number = "cache_index (vfs_nodes s n)"])
  case (none s')
  have "vfs_cache_put n s = Some (RESOURCE_RESULT_ALLOCATION_ERROR, s')" using assms(3) none(1) by (simp add: vfs_cache_put_def)
  moreover have "cached_nodes s' css = cached_nodes s css" by (rule cached_nodes_cong) (simp add: none(5))
  ultimately show thesis using failed [of RESOURCE_RESULT_ALLOCATION_ERROR s' css] none(2,3,4,6) by simp
next
  case (cache s1 us c ns vs)
  let ?css = "us @ (c, ns) # vs"
  note O = cache_okD [OF cache(2)]
  have n1: "cached_nodes s1 ?css = cached_nodes s css" using cache(4,8) by (simp add: cached_nodes_def cached_at_def)
  have c0: "c \<noteq> 0" using O(2) path_no_NULL unfolding cache_shape_def by fastforce
  have P: "path (cached_links s1) (cache_nodes (vfs_caches s1 c)) ns" using O(2) by (auto simp: cache_shape_def row_ok_def)
  show thesis
  proof (cases "\<exists>p \<in> set ns. cached_index s1 p = node_index (vfs_nodes s n)")
    case True
    then obtain xs p ys where ns: "ns = xs @ p # ys" "cached_index s1 p = node_index (vfs_nodes s n)"
      "\<forall>q \<in> set xs. cached_index s1 q \<noteq> node_index (vfs_nodes s n)"
      using split_list_first_prop [of ns "\<lambda>p. cached_index s1 p = node_index (vfs_nodes s n)"] by blast
    have "find_with_previous (cached_links s1) (\<lambda>p. cached_index s1 p = node_index (vfs_nodes s1 n)) 0 (cache_nodes (vfs_caches s1 c)) =
        Some (last (0 # xs), p)"
      using P ns cache(6) by (intro find_with_previous_found [where ys = ys]) auto
    moreover have "p \<noteq> 0" using path_no_NULL [OF P] ns(1) by auto
    ultimately have "vfs_cache_put n s = Some (RESOURCE_RESULT_ALREADY_PRESENT, s1)"
      using assms(3) cache(1) c0 by (simp add: vfs_cache_put_def)
    then show thesis using failed cache(2,5,6,7) n1 by blast
  next
    case False
    have f: "find_with_previous (cached_links s1) (\<lambda>p. cached_index s1 p = node_index (vfs_nodes s1 n)) 0 (cache_nodes (vfs_caches s1 c)) =
        Some (last (0 # ns), 0)"
      using P False cache(6) by (intro find_with_previous_missing) auto
    have "heap_request_fits sizeof_vfs_node_cache_node_t" "sizeof_vfs_node_cache_node_t \<noteq> 0"
      by (simp_all add: heap_request_fits_def sizeof_vfs_node_cache_node_t_def)
    with O(1,6) show thesis
    proof (cases rule: separate_calloc)
      case (none s2)
      note M = more_fs [OF none(4)]
      have "cache_ok s2 ?css (insert n E)" by (rule cache_ok_heap [OF cache(2) none(4,2,3) O(5)])
      moreover have "vfs_cache_put n s = Some (RESOURCE_RESULT_ALLOCATION_ERROR, s2)"
        using assms(3) cache(1) c0 f none(1) by (simp add: vfs_cache_put_def)
      moreover have "cached_nodes s2 ?css = cached_nodes s css"
        unfolding n1 [symmetric] by (rule cached_nodes_cong) (simp add: M)
      moreover have "cache_numbers s2 ?css = cache_numbers s1 ?css" by (simp add: cache_numbers_def M)
      ultimately show thesis using failed [of RESOURCE_RESULT_ALLOCATION_ERROR s2 ?css] M cache(5,6,7) by auto
    next
      case (block p s2)
      note M = more_fs [OF block(6)]
      let ?s3 = "hang_after c (last (0 # ns)) p (new_cell p n s2)"
      let ?s4 = "snd (vfs_lock_node n ?s3)"
      have "separate s2 (set (cache_blocks s1 ?css) \<union> insert p (insert n E))" using block(5) by (simp add: Un_insert_right)
      then have k2: "cache_ok s2 ?css (insert p (insert n E))"
        using block(3) O(5) by (intro cache_ok_heap [OF cache(2) block(6,4)]) auto
      have "cached_nodes s2 ?css = cached_nodes s css" unfolding n1 [symmetric] by (rule cached_nodes_cong) (simp add: M)
      moreover have "cached_index s2 = cached_index s1" by (simp add: fun_eq_iff cached_index_def M)
      ultimately have k3: "cache_ok ?s3 (us @ (c, ns @ [p]) # vs) E"
        "set (cached_nodes ?s3 (us @ (c, ns @ [p]) # vs)) = insert n (set (cached_nodes s css))"
        using cache_ok_add_cell [OF k2 _ assms(2) block(2) assms(3)] block(3) False cache(3,6) M by auto
      have "cache_ok ?s4 (us @ (c, ns @ [p]) # vs) E" by (rule cache_ok_same [OF k3(1)]) simp_all
      moreover have "vfs_cache_put n s = Some (RESOURCE_RESULT_OK, ?s4)"
        using assms(3) cache(1) c0 f block(1,2) by (simp add: vfs_cache_put_def hang_after_def new_cell_def Let_def)
      moreover have "vfs_nodes ?s4 = (vfs_nodes s)(n := (vfs_nodes s n)\<lparr>node_ref_count := node_ref_count (vfs_nodes s n) + 1\<rparr>)"
        using assms(3) M cache(6) by (simp add: vfs_lock_node_def)
      moreover have "set (cached_nodes ?s4 (us @ (c, ns @ [p]) # vs)) = insert n (set (cached_nodes s css))"
        unfolding k3(2) [symmetric] by (rule arg_cong [OF cached_nodes_cong]) simp
      moreover have "set (cache_numbers ?s4 (us @ (c, ns @ [p]) # vs)) =
          insert (cache_index (vfs_nodes s n)) (set (cache_numbers s css))"
        unfolding cache(5) [symmetric] by (auto simp: cache_numbers_def M)
      ultimately show thesis using put M cache(7) by simp
    qed
  qed
qed


definition new_node ::
    "char list \<Rightarrow> vfs_node_operations_t \<Rightarrow> vfs_node_type \<Rightarrow> resource_type_t \<Rightarrow> u32 \<Rightarrow> u64 \<Rightarrow> u64 \<Rightarrow> u32 \<Rightarrow> vfs_node_t" where
  "new_node name ops kind resource data number ident count =
     \<lparr>vfs_name = name, mount = 0, node_operations = ops, node_type = kind, node_resource_type = resource,
      fs_data = data, cache_index = number, node_index = ident, node_ref_count = count\<rparr>"

definition cache_for :: "u32 \<Rightarrow> 'a kernel_fs_scheme \<Rightarrow> u64" where
  "cache_for directory s = (if directory \<noteq> 0 then cache_index (vfs_nodes s directory) else last_cache_index s)"

lemma create_node_result:
  fixes s :: "'a kernel_fs_scheme" and ident ops kind resource data directory
  assumes "cache_ok s css E" "length name < VFS_NODE_NAME_LENGTH"
  defines "v \<equiv> new_node name ops kind resource data (cache_for directory s) ident"
  obtains (nomem) s' where "vfs_create_node directory ident name ops data kind resource s = Some (RESOURCE_RESULT_ALLOCATION_ERROR, 0, s')"
      "cache_ok s' css E" "cached_nodes s' css = cached_nodes s css" "vfs_nodes s' = vfs_nodes s"
      "set (cache_numbers s css) \<subseteq> set (cache_numbers s' css)" "ramfs_nodes s' = ramfs_nodes s"
  | (uncached) n s' css' where "vfs_create_node directory ident name ops data kind resource s = Some (RESOURCE_RESULT_OK, n, s')"
      "n \<noteq> 0" "n \<notin> set (cache_blocks s css) \<union> E" "cache_ok s' css' (insert n E)" "cached_nodes s' css' = cached_nodes s css"
      "vfs_nodes s' = (vfs_nodes s)(n := v 0)" "set (cache_numbers s css) \<subseteq> set (cache_numbers s' css')"
      "ramfs_nodes s' = ramfs_nodes s"
  | (cached) n s' css' where "vfs_create_node directory ident name ops data kind resource s = Some (RESOURCE_RESULT_OK, n, s')"
      "n \<noteq> 0" "n \<notin> set (cache_blocks s css) \<union> E" "cache_ok s' css' E" "set (cached_nodes s' css') = insert n (set (cached_nodes s css))"
      "vfs_nodes s' = (vfs_nodes s)(n := v 1)"
      "set (cache_numbers s' css') = insert (cache_for directory s) (set (cache_numbers s css))"
      "ramfs_nodes s' = ramfs_nodes s"
proof -
  note O = cache_okD [OF assms(1)]
  have "heap_request_fits sizeof_vfs_node_t" "sizeof_vfs_node_t \<noteq> 0" by (simp_all add: heap_request_fits_def sizeof_vfs_node_t_def)
  with O(1,6) show thesis
  proof (cases rule: separate_calloc)
    case (none s')
    note M = more_fs [OF none(4)]
    have "cache_ok s' css E" by (rule cache_ok_heap [OF assms(1) none(4,2,3) O(5)])
    moreover have "cached_nodes s' css = cached_nodes s css" by (rule cached_nodes_cong) (simp add: M)
    moreover have "cache_numbers s' css = cache_numbers s css" by (simp add: cache_numbers_def M)
    ultimately show thesis using nomem [of s'] none(1) M by (simp add: vfs_create_node_def)
  next
    case (block n s1)
    note M = more_fs [OF block(6)]
    define s2 where "s2 = (if directory \<noteq> 0 then s1 else s1\<lparr>last_cache_index := last_cache_index s1 + 1\<rparr>)
      \<lparr>vfs_nodes := (vfs_nodes s1)(n := v 0)\<rparr>"
    have s2: "vfs_cache s2 = vfs_cache s" "vfs_caches s2 = vfs_caches s" "vfs_cache_nodes s2 = vfs_cache_nodes s"
      "vfs_nodes s2 = (vfs_nodes s)(n := v 0)" "same_heap s1 s2" "ramfs_nodes s2 = ramfs_nodes s"
      by (simp_all add: s2_def M same_heap_def)
    have n: "n \<notin> set (cache_blocks s css)" "n \<notin> E" using block(3) by auto
    then have n': "n \<notin> set (cached_nodes s css)" by (auto simp: cache_blocks_def)
    have "separate s1 (set (cache_blocks s css) \<union> insert n E)" using block(5) by (simp add: Un_insert_right)
    then have k1: "cache_ok s1 css (insert n E)" using O(5) n by (intro cache_ok_heap [OF assms(1) block(6,4)]) auto
    have n1: "cached_nodes s1 css = cached_nodes s css" "cached_nodes s2 css = cached_nodes s css"
      by (rule cached_nodes_cong, simp add: M s2)+
    have k2: "cache_ok s2 css (insert n E)"
      by (rule cache_ok_same [OF k1 s2(5)]) (use s2 M n' n1 in \<open>auto simp: same_indices_def\<close>)
    have c2: "cache_numbers s2 css = cache_numbers s css" by (simp add: cache_numbers_def s2)
    have e: "vfs_create_node directory ident name ops data kind resource s =
        map_option (\<lambda>(_, s'). (RESOURCE_RESULT_OK, n, s')) (vfs_cache_put n s2)"
      using block(1,2) assms(2) M
      by (cases "vfs_cache_put n s2") (auto simp: vfs_create_node_def s2_def v_def new_node_def cache_for_def not_le)
    show thesis
      using k2 n(2) block(2)
    proof (cases rule: cache_put_result)
      case (failed r s' css')
      then show thesis using uncached [of n s' css'] e block(2,3) s2(4,6) n1(2) c2 by simp
    next
      case (put s' css')
      moreover have "cache_index (vfs_nodes s2 n) = cache_for directory s" by (simp add: s2(4) v_def new_node_def)
      moreover have "vfs_nodes s' = (vfs_nodes s)(n := v 1)" using put(4) s2(4) by (simp add: v_def new_node_def)
      ultimately show thesis using cached [of n s' css'] e block(2,3) n1(2) c2 s2(6) by simp
    qed
  qed
qed


section \<open>Eviction\<close>

lemma cache_ok_remove_cell:
  fixes us vs c xs p ys
  assumes "cache_ok s (us @ (c, xs @ p # ys) # vs) E"
  defines "s' \<equiv> hang_after c (last (0 # xs)) (cached_links s p) s"
  shows "cache_ok s' (us @ (c, xs @ ys) # vs) (insert p (insert (cached_at s p) E))"
    "set (cached_nodes s' (us @ (c, xs @ ys) # vs)) = set (cached_nodes s (us @ (c, xs @ p # ys) # vs)) - {cached_at s p}"
proof -
  let ?css = "us @ (c, xs @ p # ys) # vs" and ?css' = "us @ (c, xs @ ys) # vs"
  note O = cache_okD [OF assms(1)]
  have sh: "cache_shape s' ?css'" unfolding s'_def by (rule shape_remove_cell [OF O(2)])
  have N: "cached_nodes s' ?css' = map (cached_at s) (cells us @ xs @ ys @ cells vs)"
    "cached_nodes s ?css = map (cached_at s) (cells us @ xs @ p # ys @ cells vs)"
    by (simp_all add: cached_nodes_def s'_def)
  have d: "distinct (cached_nodes s ?css)" using O(3) by (simp add: cache_blocks_def)
  then show M: "set (cached_nodes s' ?css') = set (cached_nodes s ?css) - {cached_at s p}" unfolding N by auto
  have b: "set (cache_blocks s ?css) = insert p (insert (cached_at s p) (set (cache_blocks s' ?css')))"
    unfolding cache_blocks_def set_append N by auto
  have D: "distinct (cache_blocks s' ?css')" "p \<notin> set (cache_blocks s' ?css')" "cached_at s p \<notin> set (cache_blocks s' ?css')"
    using O(3) unfolding cache_blocks_def set_append N by auto
  have "same_heap s s'" by (simp add: s'_def)
  note H = same_heapD(1) [OF this] separate_same [OF this]
  show "cache_ok s' ?css' (insert p (insert (cached_at s p) E))"
    unfolding cache_ok_def H using O(1,4,5,6) sh D M unfolding b by (auto simp: Un_insert_right)
qed

lemma cache_ok_remove_cache:
  fixes us vs c
  assumes "cache_ok s (us @ (c, []) # vs) E"
  defines "s' \<equiv> link_after (last (0 # map fst us)) (cache_links s c) s"
  shows "cache_ok s' (us @ vs) (insert c E)" "cached_nodes s' (us @ vs) = cached_nodes s (us @ (c, []) # vs)"
proof -
  let ?css = "us @ (c, []) # vs"
  note O = cache_okD [OF assms(1)]
  have sh: "cache_shape s' (us @ vs)" unfolding s'_def by (rule shape_remove_cache [OF O(2)])
  show N: "cached_nodes s' (us @ vs) = cached_nodes s ?css" by (simp add: cached_nodes_def s'_def)
  have b: "set (cache_blocks s ?css) = insert c (set (cache_blocks s' (us @ vs)))"
    unfolding cache_blocks_def set_append N by auto
  have D: "distinct (cache_blocks s' (us @ vs))" "c \<notin> set (cache_blocks s' (us @ vs))"
    using O(3) unfolding cache_blocks_def set_append N by auto
  have "same_heap s s'" by (simp add: s'_def)
  note H = same_heapD(1) [OF this] separate_same [OF this]
  show "cache_ok s' (us @ vs) (insert c E)"
    unfolding cache_ok_def H using O(1,4,5,6) sh D N unfolding b by (auto simp: Un_insert_right)
qed

lemma cache_ok_free:
  assumes "cache_ok s css E" "a \<in> E"
  obtains s' where "kernel_heap_free a s = Some s'" "cache_ok s' css (E - {a})" "heap_machine.more s' = heap_machine.more s"
    "heap_data s' = heap_data s" "cached_nodes s' css = cached_nodes s css"
proof -
  note O = cache_okD [OF assms(1)]
  have "a \<in> set (cache_blocks s css) \<union> E" using assms(2) by simp
  with O(1,6) show thesis
  proof (cases rule: separate_free)
    case (1 s')
    have "set (cache_blocks s css) \<union> E - {a} = set (cache_blocks s css) \<union> (E - {a})" using O(5) assms(2) by auto
    then have "cache_ok s' css (E - {a})" using 1 O(5) by (intro cache_ok_heap [OF assms(1) 1(4,2)]) auto
    moreover have "cached_nodes s' css = cached_nodes s css" by (rule cached_nodes_cong) (simp add: more_fs [OF 1(4)])
    ultimately show thesis using that 1 by blast
  qed
qed

text \<open>The steps of an eviction, one at a time.\<close>

lemma evict_cell:
  fixes us vs c xs p ys
  assumes "cache_ok s (us @ (c, xs @ p # ys) # vs) E"
  obtains s' css' where
    "do { s \<leftarrow> unlink_cached c (last (0 # xs)) p s; drop_empty_cache (last (0 # map fst us)) c s } = Some s'"
    "cache_ok s' css' (insert (cached_at s p) E)" "vfs_nodes s' = vfs_nodes s" "ramfs_nodes s' = ramfs_nodes s"
    "set (cached_nodes s' css') = set (cached_nodes s (us @ (c, xs @ p # ys) # vs)) - {cached_at s p}"
    "heap_data s' = heap_data s"
proof -
  let ?n = "cached_at s p"
  let ?css = "us @ (c, xs @ ys) # vs"
  let ?s1 = "hang_after c (last (0 # xs)) (cached_links s p) s"
  note K = cache_ok_remove_cell [OF assms]
  have pE: "p \<notin> insert ?n E" using cache_okD(3,5) [OF assms] by (auto simp: cache_blocks_def cached_nodes_def)
  have p: "p \<in> insert p (insert ?n E)" by simp
  have h: "heap_data ?s1 = heap_data s" by (simp add: hang_after_def upd_cached_def upd_cache_def)
  from K(1) p show thesis
  proof (cases rule: cache_ok_free)
    case (1 s2)
    note M = more_fs [OF 1(3)]
    have k2: "cache_ok s2 ?css (insert ?n E)" using 1(2) pE by simp
    have u: "unlink_cached c (last (0 # xs)) p s = Some s2"
      using 1(1) by (simp add: unlink_cached_def hang_after_def cached_links_def Let_def)
    have P: "path (cached_links s2) (cache_nodes (vfs_caches s2 c)) (xs @ ys)"
      using cache_okD(2) [OF k2] by (auto simp: cache_shape_def row_ok_def)
    show thesis
    proof (cases "xs @ ys = []")
      case False
      then have "cache_nodes (vfs_caches s2 c) \<noteq> 0" using P by (cases "xs @ ys") auto
      then have "drop_empty_cache (last (0 # map fst us)) c s2 = Some s2" by (simp add: drop_empty_cache_def)
      then show thesis using that [of s2 ?css] u k2 1(4,5) K(2) M h by simp
    next
      case True
      then have e: "cache_nodes (vfs_caches s2 c) = 0" and k: "cache_ok s2 (us @ (c, []) # vs) (insert ?n E)"
        using P k2 by auto
      let ?s3 = "link_after (last (0 # map fst us)) (cache_links s2 c) s2"
      note L = cache_ok_remove_cache [OF k]
      have c: "c \<notin> insert ?n E" "c \<in> insert c (insert ?n E)" using cache_okD(5) [OF k] by (auto simp: cache_blocks_def)
      from L(1) c(2) show thesis
      proof (cases rule: cache_ok_free)
        case (1 s4)
        have "drop_empty_cache (last (0 # map fst us)) c s2 = Some s4"
          using 1(1) e by (simp add: drop_empty_cache_def link_after_def cache_links_def Let_def)
        moreover have "cache_ok s4 (us @ vs) (insert ?n E)" using 1(2) c(1) by simp
        moreover have "heap_data ?s3 = heap_data s2" by (simp add: link_after_def upd_cache_def)
        ultimately show thesis
          using that [of s4 "us @ vs"] u 1(4,5) \<open>heap_data s2 = heap_data ?s1\<close> \<open>cached_nodes s2 ?css = _\<close> L(2) K(2) True M h
            more_fs [OF 1(3)] by simp
      qed
    qed
  qed
qed


lemma cached_node_place:
  assumes "cache_ok s css E" "n \<in> set (cached_nodes s css)"
  obtains us c xs p ys vs where "css = us @ (c, xs @ p # ys) # vs" "cached_at s p = n" "c \<noteq> 0" "p \<noteq> 0"
    "find_with_previous (cache_links s) (\<lambda>p. cache_number (vfs_caches s p) = cache_index (vfs_nodes s n)) 0 (vfs_cache s) =
       Some (last (0 # map fst us), c)"
    "find_with_previous (cached_links s) (\<lambda>p. cached_index s p = node_index (vfs_nodes s n)) 0 (cache_nodes (vfs_caches s c)) =
       Some (last (0 # xs), p)"
proof -
  note sh = cache_okD(2) [OF assms(1)]
  obtain p where p: "p \<in> set (cells css)" "n = cached_at s p" using assms(2) by (auto simp: cached_nodes_def)
  then obtain c ns where c: "(c, ns) \<in> set css" "p \<in> set ns" by (auto simp: cells_def)
  then obtain us vs where css: "css = us @ (c, ns) # vs" by (metis split_list)
  obtain xs ys where ns: "ns = xs @ p # ys" using c(2) by (metis split_list)
  have P: "path (cache_links s) (vfs_cache s) (map fst css)" and D: "distinct (cache_numbers s css)"
    using sh by (auto simp: cache_shape_def)
  have Q: "path (cached_links s) (cache_nodes (vfs_caches s c)) ns" and R: "distinct (map (cached_index s) ns)"
    using sh c(1) by (auto simp: cache_shape_def row_ok_def)
  have N: "cache_number (vfs_caches s c) = cache_index (vfs_nodes s n)" using shape_row [OF sh c] p(2) by simp
  have i: "cached_index s p = node_index (vfs_nodes s n)" using p(2) by (simp add: cached_index_def cached_at_def)
  have "\<forall>k \<in> set (map fst us). cache_number (vfs_caches s k) \<noteq> cache_index (vfs_nodes s n)"
    using D N css by (force simp: cache_numbers_def)
  then have "find_with_previous (cache_links s) (\<lambda>p. cache_number (vfs_caches s p) = cache_index (vfs_nodes s n)) 0 (vfs_cache s) =
       Some (last (0 # map fst us), c)"
    using P css N by (intro find_with_previous_found [where ys = "map fst vs"]) auto
  moreover have "\<forall>q \<in> set xs. cached_index s q \<noteq> node_index (vfs_nodes s n)" using R ns i by (auto simp: image_iff)
  then have "find_with_previous (cached_links s) (\<lambda>p. cached_index s p = node_index (vfs_nodes s n)) 0 (cache_nodes (vfs_caches s c)) =
       Some (last (0 # xs), p)"
    using Q ns i by (intro find_with_previous_found [where ys = ys]) auto
  moreover have "c \<noteq> 0" "p \<noteq> 0" using path_no_NULL [OF P] path_no_NULL [OF Q] css ns by auto
  ultimately show thesis using that css ns p(2) by simp
qed

text \<open>The blocks of the ram file system that the release of a node frees.\<close>

definition released_blocks :: "'a kernel_fs_scheme \<Rightarrow> u32 \<Rightarrow> u32 set" where
  "released_blocks s n =
     (let f = fs_data (vfs_nodes s n); d = ramfs_data (ramfs_nodes s f) in
      if node_operations (vfs_nodes s n) = ramfs_node_operations \<and> link_count (ramfs_nodes s f) = 0
      then (if d \<noteq> 0 then {f, d} else {f}) else {})"

lemma call_release_result:
  assumes "cache_ok s css E" "released_blocks s n \<subseteq> E" "ramfs_data (ramfs_nodes s (fs_data (vfs_nodes s n))) \<noteq> fs_data (vfs_nodes s n)"
  obtains s' where "call_release n s = Some s'" "cache_ok s' css (E - released_blocks s n)"
    "heap_machine.more s' = heap_machine.more s" "heap_data s' = heap_data s" "cached_nodes s' css = cached_nodes s css"
proof (cases "node_operations (vfs_nodes s n) = ramfs_node_operations \<and> link_count (ramfs_nodes s (fs_data (vfs_nodes s n))) = 0")
  case False
  then have "call_release n s = Some s" "released_blocks s n = {}"
    by (auto simp: call_release_def ramfs_release_def released_blocks_def Let_def word_gt_0)
  then show thesis using that assms(1) by simp
next
  case True
  let ?f = "fs_data (vfs_nodes s n)"
  let ?d = "ramfs_data (ramfs_nodes s ?f)"
  have e: "call_release n s = do { s \<leftarrow> (if ?d \<noteq> 0 then kernel_heap_free ?d s else Some s); kernel_heap_free ?f s }"
    using True by (simp add: call_release_def ramfs_release_def Let_def)
  have f: "?f \<in> E" using assms(2) True by (auto simp: released_blocks_def Let_def split: if_splits)
  show thesis
  proof (cases "?d = 0")
    case True': True
    from assms(1) f show thesis
      by (cases rule: cache_ok_free) (use that e True True' in \<open>auto simp: released_blocks_def\<close>)
  next
    case False
    then have d: "?d \<in> E" using assms(2) True by (simp add: released_blocks_def Let_def)
    from assms(1) d show thesis
    proof (cases rule: cache_ok_free)
      case (1 s1)
      have "?f \<in> E - {?d}" using f assms(3) by auto
      with 1(2) show thesis
      proof (cases rule: cache_ok_free)
        case (1 s2)
        have "E - {?d} - {?f} = E - released_blocks s n" using True False by (auto simp: released_blocks_def Let_def)
        then show thesis using that [of s2] e False 1 \<open>kernel_heap_free ?d s = Some s1\<close> \<open>heap_machine.more s1 = _\<close>
          \<open>heap_data s1 = _\<close> \<open>cached_nodes s1 css = _\<close> by simp
      qed
    qed
  qed
qed

lemma release_node_result:
  fixes n s
  assumes "cache_ok s css E" "n \<in> set (cached_nodes s css)"
  defines "s0 \<equiv> upd_node n (\<lambda>v. v\<lparr>node_ref_count := node_ref_count v - 1\<rparr>) s"
  shows "node_ref_count (vfs_nodes s n) \<noteq> 2 \<Longrightarrow> vfs_release_node n s = Some (RESOURCE_RESULT_OK, s0) \<and> cache_ok s0 css E"
    "node_ref_count (vfs_nodes s n) = 2 \<Longrightarrow> released_blocks s n \<subseteq> E \<Longrightarrow>
      ramfs_data (ramfs_nodes s (fs_data (vfs_nodes s n))) \<noteq> fs_data (vfs_nodes s n) \<Longrightarrow>
      \<exists>s' css'. vfs_release_node n s = Some (RESOURCE_RESULT_OK, s') \<and> cache_ok s' css' (E - released_blocks s n) \<and>
        set (cached_nodes s' css') = set (cached_nodes s css) - {n} \<and> vfs_nodes s' = vfs_nodes s0 \<and>
        ramfs_nodes s' = ramfs_nodes s \<and> heap_data s' = heap_data s"
proof -
  have n0: "n \<noteq> 0" using cache_okD(4) [OF assms(1)] assms(2) by metis
  have s0: "cached_nodes s0 css = cached_nodes s css" "ramfs_nodes s0 = ramfs_nodes s" "heap_data s0 = heap_data s"
    by (simp_all add: s0_def cached_nodes_def cached_at_def upd_node_def)
  have k0: "cache_ok s0 css E"
    by (rule cache_ok_same [OF assms(1)]) (simp_all add: s0_def same_indices_def)
  have c0: "node_ref_count (vfs_nodes s0 n) = node_ref_count (vfs_nodes s n) - 1" by (simp add: s0_def)
  show "vfs_release_node n s = Some (RESOURCE_RESULT_OK, s0) \<and> cache_ok s0 css E" if "node_ref_count (vfs_nodes s n) \<noteq> 2"
  proof -
    have "node_ref_count (vfs_nodes s0 n) \<noteq> 1" using that unfolding c0 by (simp add: diff_eq_eq)
    then show ?thesis using n0 k0 by (simp add: vfs_release_node_def vfs_cache_try_evict_def s0_def)
  qed
  assume c: "node_ref_count (vfs_nodes s n) = 2" and r: "released_blocks s n \<subseteq> E"
    and d: "ramfs_data (ramfs_nodes s (fs_data (vfs_nodes s n))) \<noteq> fs_data (vfs_nodes s n)"
  have n1: "n \<in> set (cached_nodes s0 css)" using assms(2) s0(1) by simp
  obtain us k xs p ys vs where pl: "css = us @ (k, xs @ p # ys) # vs" "cached_at s0 p = n" "k \<noteq> 0" "p \<noteq> 0"
    "find_with_previous (cache_links s0) (\<lambda>p. cache_number (vfs_caches s0 p) = cache_index (vfs_nodes s0 n)) 0 (vfs_cache s0) =
       Some (last (0 # map fst us), k)"
    "find_with_previous (cached_links s0) (\<lambda>p. cached_index s0 p = node_index (vfs_nodes s0 n)) 0 (cache_nodes (vfs_caches s0 k)) =
       Some (last (0 # xs), p)"
    using k0 n1 by (rule cached_node_place)
  obtain s1 css' where ev:
    "do { s \<leftarrow> unlink_cached k (last (0 # xs)) p s0; drop_empty_cache (last (0 # map fst us)) k s } = Some s1"
    "cache_ok s1 css' (insert n E)" "vfs_nodes s1 = vfs_nodes s0" "ramfs_nodes s1 = ramfs_nodes s"
    "set (cached_nodes s1 css') = set (cached_nodes s css) - {n}" "heap_data s1 = heap_data s"
    using evict_cell [OF k0 [unfolded pl(1)]] pl(1,2) s0 by metis
  have rb: "released_blocks s1 n = released_blocks s n" using ev(3,4) by (simp add: released_blocks_def s0_def Let_def)
  have nE: "n \<notin> E" using cache_okD(5) [OF assms(1)] assms(2) by (auto simp: cache_blocks_def)
  have "released_blocks s1 n \<subseteq> insert n E" using r rb by auto
  moreover have "ramfs_data (ramfs_nodes s1 (fs_data (vfs_nodes s1 n))) \<noteq> fs_data (vfs_nodes s1 n)"
    using d ev(3,4) by (simp add: s0_def)
  ultimately obtain s2 where re: "call_release n s1 = Some s2" "cache_ok s2 css' (insert n E - released_blocks s n)"
    "heap_machine.more s2 = heap_machine.more s1" "heap_data s2 = heap_data s1" "cached_nodes s2 css' = cached_nodes s1 css'"
    using call_release_result [OF ev(2)] rb by metis
  have "n \<in> insert n E - released_blocks s n" using r nE by auto
  then obtain s3 where fr: "kernel_heap_free n s2 = Some s3" "cache_ok s3 css' (insert n E - released_blocks s n - {n})"
    "heap_machine.more s3 = heap_machine.more s2" "heap_data s3 = heap_data s2" "cached_nodes s3 css' = cached_nodes s2 css'"
    using cache_ok_free [OF re(2)] by metis
  have "insert n E - released_blocks s n - {n} = E - released_blocks s n" using nE by auto
  moreover have "node_ref_count (vfs_nodes s0 n) = 1" using c c0 by simp
  then have "vfs_cache_try_evict n s0 = Some (RESOURCE_RESULT_OK, s3)"
    using n0 pl(3-6) ev(1) re(1) fr(1) by (auto simp: vfs_cache_try_evict_def Option.bind_eq_Some_conv)
  then have "vfs_release_node n s = Some (RESOURCE_RESULT_OK, s3)" using n0 by (simp add: vfs_release_node_def s0_def)
  ultimately show "\<exists>s' css'. vfs_release_node n s = Some (RESOURCE_RESULT_OK, s') \<and> cache_ok s' css' (E - released_blocks s n) \<and>
        set (cached_nodes s' css') = set (cached_nodes s css) - {n} \<and> vfs_nodes s' = vfs_nodes s0 \<and>
        ramfs_nodes s' = ramfs_nodes s \<and> heap_data s' = heap_data s"
    using fr re(3-5) ev(3-6) more_fs [OF fr(3)] more_fs [OF re(3)] by metis
qed


section \<open>Properties\<close>

lemma query_keeps:
  assumes "cache_ok s css E" "cache_ok s' css' E'" "set (cache_numbers s css) \<subseteq> set (cache_numbers s' css')"
    and "node_at s' css' (ucast index) ident = node_at s css (ucast index) ident" "vfs_cache_query_node index ident s \<noteq> None"
  shows "vfs_cache_query_node index ident s' = vfs_cache_query_node index ident s"
  using query_result [OF cache_okD(2) [OF assms(1)], of index ident] query_result [OF cache_okD(2) [OF assms(2)], of index ident] assms(3-5)
  by (auto split: if_splits)

lemma node_at_same:
  assumes "cache_ok s css E" "cached_nodes s' css' = cached_nodes s css" "\<forall>m \<in> set (cached_nodes s css). vfs_nodes s' m = vfs_nodes s m"
  shows "node_at s' css' number ident = node_at s css number ident"
  unfolding node_at_def assms(2) by (rule find_cong_set) (simp add: assms(3))

lemma node_at_eqI: "(\<And>n. a = Some n \<longleftrightarrow> b = Some n) \<Longrightarrow> a = b"
  by (metis option.exhaust)




section \<open>A cache with one node\<close>

definition sample_cache :: kernel_fs where
  "sample_cache = sample_fs\<lparr>heap_break := 0xF0002000,
     hdr_size := (hdr_size sample_heap)(0xF0000000 := 43, 0xF0000200 := 3, 0xF0000300 := 2),
     vfs_nodes := (\<lambda>_. sample_node 0x510), vfs_cache := 0xF0000208,
     vfs_caches := (\<lambda>_. \<lparr>cache_number = 0, cache_nodes = 0xF0000308, cache_next = 0\<rparr>),
     vfs_cache_nodes := (\<lambda>_. \<lparr>cached_node = 0xF0000008, cached_next = 0\<rparr>)\<rparr>"

lemma sample_cache_heap: "kernel_heap_ready sample_cache" "separate sample_cache {0xF0000208, 0xF0000308, 0xF0000008}"
proof -
  have F: "free_headers_head sample_cache = free_headers_head sample_heap" "hdr_next sample_cache = hdr_next sample_heap"
    "heap_start sample_cache = heap_start sample_heap" "heap_end sample_cache = heap_end sample_heap"
    "heap_break sample_cache = 0xF0002000" "kernel_page_directory sample_cache = 0xC0005000"
    "kernel_heap_base sample_cache = kernel_heap_base sample_heap"
    "hdr_size sample_cache = (hdr_size sample_heap)(0xF0000000 := 43, 0xF0000200 := 3, 0xF0000300 := 2)"
    by (simp_all add: sample_cache_def sample_fs_def sample_kernel_keyboard_def sample_kernel_def kernel_keyboard.defs
        kernel_fs.defs kernel.defs sample_heap_fields)
  have wf: "heap_wf sample_cache []" by (simp add: heap_wf_def F sample_heap_fields)
  then have "heap_ready sample_cache [] 0xC0005000 0x1000"
    using sample_heap_ready by (simp add: heap_ready_def F sample_cache_def sample_fs_def sample_kernel_keyboard_def
        sample_kernel_def kernel_keyboard.defs kernel_fs.defs kernel.defs sample_heap_fields
        editable_def self_window_def bounce_ready_def machine_wf_def bounce_table_def)
  then show "kernel_heap_ready sample_cache" unfolding kernel_heap_ready_def F by metis
  have "allocated_block sample_cache [] (0xF0000208 - sizeof_header)" "allocated_block sample_cache [] (0xF0000308 - sizeof_header)"
    "allocated_block sample_cache [] (0xF0000008 - sizeof_header)"
    by (simp_all add: F allocated_block_def free_bytes_def sample_heap_fields block_end_def sizeof_header_def)
  with wf have "heap_live sample_cache 0xF0000208" "heap_live sample_cache 0xF0000308" "heap_live sample_cache 0xF0000008"
    unfolding heap_live_def by blast+
  moreover have "heap_extent sample_cache 0xF0000208 = {0xF0000200 ..< 0xF0000218}"
    "heap_extent sample_cache 0xF0000308 = {0xF0000300 ..< 0xF0000310}"
    "heap_extent sample_cache 0xF0000008 = {0xF0000000 ..< 0xF0000158}"
    by (simp_all add: heap_extent_def block_bytes_def block_end_def F sizeof_header_def)
  ultimately show "separate sample_cache {0xF0000208, 0xF0000308, 0xF0000008}" by (simp add: separate_def)
qed

lemma sample_cache_ok: "cache_ok sample_cache [(0xF0000208, [0xF0000308])] {}"
  "cached_nodes sample_cache [(0xF0000208, [0xF0000308])] = [0xF0000008]" "vfs_nodes sample_cache 0xF0000008 = sample_node 0x510"
proof -
  show n: "cached_nodes sample_cache [(0xF0000208, [0xF0000308])] = [0xF0000008]"
    by (simp add: cached_nodes_def cached_at_def sample_cache_def)
  have "cache_shape sample_cache [(0xF0000208, [0xF0000308])]"
    by (simp add: cache_shape_def row_ok_def cache_links_def cached_links_def cached_at_def sample_cache_def sample_node_def)
  then show "cache_ok sample_cache [(0xF0000208, [0xF0000308])] {}"
    using sample_cache_heap by (simp add: cache_ok_def cache_blocks_def n)
  show "vfs_nodes sample_cache 0xF0000008 = sample_node 0x510" by (simp add: sample_cache_def)
qed



end
