(* ===== verification/Path_Walk.thy ===== *)
theory Path_Walk
  imports Node_Cache
begin

text \<open>
  Resolving paths: the walk of \<^verbatim>\<open>vfs_resolve\<close> in \<^verbatim>\<open>src/vfs.c\<close> over the cache of nodes and the directories
  of the ram file system finds the file that the names of the path lead to, and takes one count of
  its node.
\<close>

section \<open>Walking the directories\<close>

definition child_named :: "(u32 \<Rightarrow> ramfs_node_t) \<Rightarrow> u32 \<Rightarrow> char list \<Rightarrow> u32 option" where
  "child_named fs f name = map_option dirent_node (find (\<lambda>e. dirent_name e = name) (ramfs_children (fs f)))"

fun ramfs_walk :: "(u32 \<Rightarrow> ramfs_node_t) \<Rightarrow> char list list \<Rightarrow> u32 \<Rightarrow> u32 option" where
  "ramfs_walk fs [] f = Some f"
| "ramfs_walk fs (name # names) f = (case child_named fs f name of None \<Rightarrow> None | Some c \<Rightarrow> ramfs_walk fs names c)"

text \<open>No directory that the walk looks into is one of the mount points \<open>M\<close>.\<close>

fun avoids :: "(u32 \<Rightarrow> ramfs_node_t) \<Rightarrow> u32 set \<Rightarrow> char list list \<Rightarrow> u32 \<Rightarrow> bool" where
  "avoids fs M [] f = True"
| "avoids fs M (name # names) f = (f \<notin> M \<and> (case child_named fs f name of None \<Rightarrow> True | Some c \<Rightarrow> avoids fs M names c))"

text \<open>The files \<open>R\<close> have numbers of their own, are linked, and their directories stay inside \<open>R\<close>.\<close>

definition file_tree :: "(u32 \<Rightarrow> ramfs_node_t) \<Rightarrow> u32 set \<Rightarrow> bool" where
  "file_tree fs R \<longleftrightarrow> inj_on (\<lambda>f. ramfs_id (fs f)) R \<and>
     (\<forall>f \<in> R. link_count (fs f) > 0 \<and> ramfs_data (fs f) \<noteq> f \<and>
        (\<forall>e \<in> set (ramfs_children (fs f)). dirent_node e \<in> R \<and> length (dirent_name e) < VFS_NODE_NAME_LENGTH))"

lemma file_treeD:
  assumes "file_tree fs R" "f \<in> R"
  shows "link_count (fs f) > 0" "ramfs_data (fs f) \<noteq> f"
    "\<And>e. e \<in> set (ramfs_children (fs f)) \<Longrightarrow> dirent_node e \<in> R \<and> length (dirent_name e) < VFS_NODE_NAME_LENGTH"
    "\<And>g. g \<in> R \<Longrightarrow> ramfs_id (fs f) = ramfs_id (fs g) \<Longrightarrow> f = g"
  using assms by (auto simp: file_tree_def dest: inj_onD)

lemma child_named_in: "file_tree fs R \<Longrightarrow> f \<in> R \<Longrightarrow> child_named fs f name = Some c \<Longrightarrow> c \<in> R"
  using file_treeD(3) find_SomeD unfolding child_named_def by fastforce

section \<open>Nodes and their users\<close>

definition ram_node :: "'a kernel_fs_scheme \<Rightarrow> u32 set \<Rightarrow> u64 \<Rightarrow> u32 set \<Rightarrow> u32 \<Rightarrow> bool" where
  "ram_node s M k R n \<longleftrightarrow> (let v = vfs_nodes s n in node_operations v = ramfs_node_operations \<and>
     (fs_data v \<notin> M \<longrightarrow> mount v = 0) \<and> cache_index v = k \<and> fs_data v \<in> R \<and> node_index v = ramfs_id (ramfs_nodes s (fs_data v)))"

text \<open>
  The users of each file: a cached node is counted once for the cache and once for each user. Only
  the nodes of \<open>Z\<close> may be cached without a user.
\<close>

definition user_counts ::
    "'a kernel_fs_scheme \<Rightarrow> (u32 \<times> u32 list) list \<Rightarrow> u64 \<Rightarrow> u32 set \<Rightarrow> (u32 \<Rightarrow> nat) \<Rightarrow> u32 set \<Rightarrow> bool" where
  "user_counts s css k R U Z \<longleftrightarrow> (\<forall>f \<in> R. case node_at s css k (ramfs_id (ramfs_nodes s f)) of
       None \<Rightarrow> U f = 0
     | Some n \<Rightarrow> unat (node_ref_count (vfs_nodes s n)) = U f + 1 \<and> (U f \<ge> 1 \<or> f \<in> Z))"

definition files_ok ::
    "'a kernel_fs_scheme \<Rightarrow> (u32 \<times> u32 list) list \<Rightarrow> u32 set \<Rightarrow> u32 set \<Rightarrow> u64 \<Rightarrow> u32 set \<Rightarrow> (u32 \<Rightarrow> nat) \<Rightarrow> u32 set \<Rightarrow> bool" where
  "files_ok s css E M k R U Z \<longleftrightarrow> cache_ok s css E \<and> ucast (ucast k :: u32) = k \<and> file_tree (ramfs_nodes s) R \<and>
     (\<forall>n \<in> set (cached_nodes s css). cache_index (vfs_nodes s n) = k \<longrightarrow> ram_node s M k R n) \<and> user_counts s css k R U Z"

lemma files_okD:
  assumes "files_ok s css E M k R U Z"
  shows "cache_ok s css E" "ucast (ucast k :: u32) = k" "file_tree (ramfs_nodes s) R"
    "\<And>n. n \<in> set (cached_nodes s css) \<Longrightarrow> cache_index (vfs_nodes s n) = k \<Longrightarrow> ram_node s M k R n"
    "user_counts s css k R U Z"
  using assms by (auto simp: files_ok_def)

lemma ram_nodeD:
  assumes "ram_node s M k R n"
  shows "node_operations (vfs_nodes s n) = ramfs_node_operations" "fs_data (vfs_nodes s n) \<notin> M \<Longrightarrow> mount (vfs_nodes s n) = 0"
    "cache_index (vfs_nodes s n) = k" "fs_data (vfs_nodes s n) \<in> R"
    "node_index (vfs_nodes s n) = ramfs_id (ramfs_nodes s (fs_data (vfs_nodes s n)))"
  using assms by (simp_all add: ram_node_def Let_def)

lemma cached_file:
  assumes "files_ok s css E M k R U Z" "n \<in> set (cached_nodes s css)" "ram_node s M k R n"
  shows "node_at s css k (ramfs_id (ramfs_nodes s (fs_data (vfs_nodes s n)))) = Some n"
    "unat (node_ref_count (vfs_nodes s n)) = U (fs_data (vfs_nodes s n)) + 1"
    "U (fs_data (vfs_nodes s n)) \<ge> 1 \<or> fs_data (vfs_nodes s n) \<in> Z"
proof -
  note N = ram_nodeD [OF assms(3)]
  show a: "node_at s css k (ramfs_id (ramfs_nodes s (fs_data (vfs_nodes s n)))) = Some n"
    using node_at_iff [OF cache_okD(2) [OF files_okD(1) [OF assms(1)]]] assms(2) N by simp
  show "unat (node_ref_count (vfs_nodes s n)) = U (fs_data (vfs_nodes s n)) + 1"
    "U (fs_data (vfs_nodes s n)) \<ge> 1 \<or> fs_data (vfs_nodes s n) \<in> Z"
    using files_okD(5) [OF assms(1)] N(4) a unfolding user_counts_def by fastforce+
qed

lemma file_cached:
  assumes "files_ok s css E M k R U Z" "f \<in> R" "node_at s css k (ramfs_id (ramfs_nodes s f)) = Some n"
  shows "n \<in> set (cached_nodes s css)" "ram_node s M k R n" "fs_data (vfs_nodes s n) = f"
proof -
  have a: "n \<in> set (cached_nodes s css)" "cache_index (vfs_nodes s n) = k" "node_index (vfs_nodes s n) = ramfs_id (ramfs_nodes s f)"
    using node_at_iff [OF cache_okD(2) [OF files_okD(1) [OF assms(1)]]] assms(3) by auto
  show "n \<in> set (cached_nodes s css)" using a(1) .
  show r: "ram_node s M k R n" using files_okD(4) [OF assms(1)] a by blast
  show "fs_data (vfs_nodes s n) = f"
    using file_treeD(4) [OF files_okD(3) [OF assms(1)] ram_nodeD(4) [OF r] assms(2)] ram_nodeD(5) [OF r] a(3) by simp
qed

text \<open>One node changes its count, or the cache loses a node.\<close>

lemma user_counts_step:
  assumes ok: "files_ok s css E M k R U Z" and n: "n \<in> set (cached_nodes s css)" "ram_node s M k R n"
    and k': "cache_ok s' css' E'" and c: "set (cached_nodes s' css') = set (cached_nodes s css)"
    and v: "vfs_nodes s' = (vfs_nodes s)(n := (vfs_nodes s n)\<lparr>node_ref_count := count\<rparr>)" "ramfs_nodes s' = ramfs_nodes s"
    and u: "unat count = u + 1" "u \<ge> 1 \<or> fs_data (vfs_nodes s n) \<in> Z'" "Z \<subseteq> insert (fs_data (vfs_nodes s n)) Z'"
  shows "files_ok s' css' E' M k R (U(fs_data (vfs_nodes s n) := u)) Z'"
proof -
  note O = files_okD [OF ok]
  have e: "cache_index (vfs_nodes s' m) = cache_index (vfs_nodes s m)" "node_index (vfs_nodes s' m) = node_index (vfs_nodes s m)"
    "fs_data (vfs_nodes s' m) = fs_data (vfs_nodes s m)" "ram_node s' M k R m = ram_node s M k R m" for m
    by (simp_all add: v ram_node_def Let_def)
  have at: "node_at s' css' k i = node_at s css k i" for i
    by (rule node_at_eqI) (simp add: node_at_iff [OF cache_okD(2) [OF k']] node_at_iff [OF cache_okD(2) [OF O(1)]] c e)
  have same: "m = n \<longleftrightarrow> f = fs_data (vfs_nodes s n)" if "f \<in> R" "node_at s css k (ramfs_id (ramfs_nodes s f)) = Some m" for f m
  proof
    assume "m = n"
    then show "f = fs_data (vfs_nodes s n)" using file_cached(3) [OF ok that] by simp
  next
    assume "f = fs_data (vfs_nodes s n)"
    then show "m = n" using cached_file(1) [OF ok n] that(2) by (metis option.inject)
  qed
  have "user_counts s' css' k R (U(fs_data (vfs_nodes s n) := u)) Z'" unfolding user_counts_def
  proof (rule ballI)
    fix f assume f: "f \<in> R"
    show "case node_at s' css' k (ramfs_id (ramfs_nodes s' f)) of None \<Rightarrow> (U(fs_data (vfs_nodes s n) := u)) f = 0
      | Some m \<Rightarrow> unat (node_ref_count (vfs_nodes s' m)) = (U(fs_data (vfs_nodes s n) := u)) f + 1 \<and>
          ((U(fs_data (vfs_nodes s n) := u)) f \<ge> 1 \<or> f \<in> Z')"
    proof (cases "node_at s css k (ramfs_id (ramfs_nodes s f))")
      case None
      then have "f \<noteq> fs_data (vfs_nodes s n)" using cached_file(1) [OF ok n] by auto
      moreover have "U f = 0" using O(5) f None unfolding user_counts_def by fastforce
      ultimately show ?thesis unfolding v(2) at None by simp
    next
      case (Some m)
      have "unat (node_ref_count (vfs_nodes s m)) = U f + 1" "U f \<ge> 1 \<or> f \<in> Z"
        using O(5) f Some unfolding user_counts_def by fastforce+
      then show ?thesis unfolding v(2) at Some using same [OF f Some] u by (cases "m = n") (auto simp: v(1))
    qed
  qed
  then show ?thesis using O k' e c v(2) by (auto simp: files_ok_def)
qed

lemma files_ok_drop:
  assumes ok: "files_ok s css E M k R U Z" and n: "n \<in> set (cached_nodes s css)" "ram_node s M k R n"
    and k': "cache_ok s' css' E'" and c: "set (cached_nodes s' css') = set (cached_nodes s css) - {n}"
    and v: "vfs_nodes s' = (vfs_nodes s)(n := w)" "ramfs_nodes s' = ramfs_nodes s"
  shows "files_ok s' css' E' M k R (U(fs_data (vfs_nodes s n) := 0)) Z"
proof -
  note O = files_okD [OF ok]
  note I = node_at_iff [OF cache_okD(2) [OF k']] node_at_iff [OF cache_okD(2) [OF O(1)]]
  have e: "vfs_nodes s' m = vfs_nodes s m" "ram_node s' M k R m = ram_node s M k R m" if "m \<noteq> n" for m
    using that by (simp_all add: v ram_node_def Let_def)
  have "user_counts s' css' k R (U(fs_data (vfs_nodes s n) := 0)) Z" unfolding user_counts_def
  proof (rule ballI)
    fix f assume f: "f \<in> R"
    let ?i = "ramfs_id (ramfs_nodes s f)"
    show "case node_at s' css' k (ramfs_id (ramfs_nodes s' f)) of None \<Rightarrow> (U(fs_data (vfs_nodes s n) := 0)) f = 0
      | Some m \<Rightarrow> unat (node_ref_count (vfs_nodes s' m)) = (U(fs_data (vfs_nodes s n) := 0)) f + 1 \<and>
          ((U(fs_data (vfs_nodes s n) := 0)) f \<ge> 1 \<or> f \<in> Z)"
    proof (cases "node_at s' css' k ?i")
      case None
      have "U f = 0" if "f \<noteq> fs_data (vfs_nodes s n)"
      proof (cases "node_at s css k ?i")
        case None
        then show ?thesis using O(5) f unfolding user_counts_def by fastforce
      next
        case (Some m)
        have "m \<noteq> n" using file_cached(3) [OF ok f Some] that by auto
        then have "node_at s' css' k ?i = Some m" using I [of k ?i m] Some c e by auto
        then show ?thesis using None by simp
      qed
      then show ?thesis unfolding v(2) None by simp
    next
      case (Some m)
      then have m: "m \<noteq> n" using I(1) [of k ?i m] c by simp
      then have at: "node_at s css k ?i = Some m" using I [of k ?i m] Some c e(1) [OF m] by auto
      have "unat (node_ref_count (vfs_nodes s m)) = U f + 1" "U f \<ge> 1 \<or> f \<in> Z"
        using O(5) f at unfolding user_counts_def by fastforce+
      moreover have "f \<noteq> fs_data (vfs_nodes s n)"
      proof
        assume "f = fs_data (vfs_nodes s n)"
        then show False using cached_file(1) [OF ok n] at m by (metis option.inject)
      qed
      ultimately show ?thesis unfolding v(2) Some using e(1) [OF m] by simp
    qed
  qed
  then show ?thesis using O k' e c v(2) by (auto simp: files_ok_def)
qed

text \<open>Changes that no cached node sees.\<close>

lemma files_ok_other:
  assumes ok: "files_ok s css E M k R U Z" and k': "cache_ok s' css' E'" and c: "cached_nodes s' css' = cached_nodes s css"
    and v: "\<And>m. m \<in> set (cached_nodes s css) \<Longrightarrow> vfs_nodes s' m = vfs_nodes s m" "ramfs_nodes s' = ramfs_nodes s"
  shows "files_ok s' css' E' M k R U Z"
proof -
  note O = files_okD [OF ok]
  have "node_at s' css' k i = node_at s css k i" for i using node_at_same [OF O(1) c] v(1) by blast
  moreover have "m \<in> set (cached_nodes s css)" if "node_at s css k i = Some m" for i m
    using that node_at_iff [OF cache_okD(2) [OF O(1)]] by blast
  ultimately have "user_counts s' css' k R U Z" using O(5) v unfolding user_counts_def by (auto split: option.splits)
  moreover have "ram_node s' M k R m = ram_node s M k R m" if "m \<in> set (cached_nodes s css)" for m
    using v that by (simp add: ram_node_def Let_def)
  ultimately show ?thesis using O k' c v by (auto simp: files_ok_def)
qed

lemma files_ok_new:
  assumes ok: "files_ok s css E M k R U {}" and k': "cache_ok s' css' E'"
    and c: "set (cached_nodes s' css') = insert n (set (cached_nodes s css))" and n: "n \<notin> set (cached_nodes s css)"
    and v: "\<And>m. m \<noteq> n \<Longrightarrow> vfs_nodes s' m = vfs_nodes s m"
    and r: "ram_node s' M k R n" "fs_data (vfs_nodes s' n) = f" "ramfs_nodes s' = ramfs_nodes s \<and> node_ref_count (vfs_nodes s' n) = 1"
    and f: "f \<in> R" "U f = 0" "node_at s css k (ramfs_id (ramfs_nodes s f)) = None"
  shows "files_ok s' css' E' M k R U {f}"
proof -
  note O = files_okD [OF ok] and N = ram_nodeD [OF r(1)]
  note I = node_at_iff [OF cache_okD(2) [OF k']] node_at_iff [OF cache_okD(2) [OF O(1)]]
  have e: "ram_node s' M k R m = ram_node s M k R m" if "m \<noteq> n" for m using that v r(3) by (simp add: ram_node_def Let_def)
  have new: "node_at s' css' k (ramfs_id (ramfs_nodes s f)) = Some n" using I(1) c N r by simp
  have "user_counts s' css' k R U {f}" unfolding user_counts_def
  proof (rule ballI)
    fix g assume g: "g \<in> R"
    show "case node_at s' css' k (ramfs_id (ramfs_nodes s' g)) of None \<Rightarrow> U g = 0
      | Some m \<Rightarrow> unat (node_ref_count (vfs_nodes s' m)) = U g + 1 \<and> (U g \<ge> 1 \<or> g \<in> {f})"
    proof (cases "g = f")
      case True
      then show ?thesis using new r f(2) by simp
    next
      case False
      let ?i = "ramfs_id (ramfs_nodes s g)"
      have i: "?i \<noteq> ramfs_id (ramfs_nodes s f)" using file_treeD(4) [OF O(3) g f(1)] False by blast
      have "node_at s' css' k ?i = node_at s css k ?i"
      proof (rule node_at_eqI)
        fix m
        show "node_at s' css' k ?i = Some m \<longleftrightarrow> node_at s css k ?i = Some m"
          using I [of k ?i m] c n v N(5) r i by (cases "m = n") auto
      qed
      moreover have "m \<noteq> n" if "node_at s css k ?i = Some m" for m using that I(2) [of k ?i m] n by auto
      ultimately show ?thesis using O(5) g v r(3) unfolding user_counts_def by (fastforce split: option.splits)
    qed
  qed
  moreover have "ram_node s' M k R m" if "m \<in> set (cached_nodes s' css')" "cache_index (vfs_nodes s' m) = k" for m
    using that c O(4) e v r(1) by (cases "m = n") auto
  ultimately show ?thesis using O(2,3) k' r(3) by (simp add: files_ok_def)
qed

section \<open>The steps of the walk\<close>

lemma lock_node_files:
  assumes ok: "files_ok s css E M k R U Z" and n: "n \<in> set (cached_nodes s css)" "ram_node s M k R n"
    and b: "U (fs_data (vfs_nodes s n)) < 2 ^ 32 - 2" and Z: "Z \<subseteq> {fs_data (vfs_nodes s n)}"
  defines "s' \<equiv> snd (vfs_lock_node n s)"
  shows "files_ok s' css E M k R (U(fs_data (vfs_nodes s n) := U (fs_data (vfs_nodes s n)) + 1)) {}"
    "ramfs_nodes s' = ramfs_nodes s" "cached_nodes s' css = cached_nodes s css"
    "vfs_nodes s' = (vfs_nodes s)(n := (vfs_nodes s n)\<lparr>node_ref_count := node_ref_count (vfs_nodes s n) + 1\<rparr>)"
proof -
  have "n \<noteq> 0" using cache_okD(4) [OF files_okD(1) [OF ok]] n(1) by metis
  then show v: "vfs_nodes s' = (vfs_nodes s)(n := (vfs_nodes s n)\<lparr>node_ref_count := node_ref_count (vfs_nodes s n) + 1\<rparr>)"
    "ramfs_nodes s' = ramfs_nodes s" by (simp_all add: s'_def vfs_lock_node_def)
  show c: "cached_nodes s' css = cached_nodes s css" by (rule cached_nodes_cong) (simp add: s'_def)
  have k': "cache_ok s' css E" unfolding s'_def by (rule cache_ok_same [OF files_okD(1) [OF ok]]) simp_all
  have "unat (node_ref_count (vfs_nodes s n) + 1) = U (fs_data (vfs_nodes s n)) + 1 + 1"
    using cached_file(2) [OF ok n] b by (simp add: unat_word_ariths)
  then show "files_ok s' css E M k R (U(fs_data (vfs_nodes s n) := U (fs_data (vfs_nodes s n)) + 1)) {}"
    using user_counts_step [OF ok n k' _ v] c Z by auto
qed

lemma release_cached:
  assumes ok: "files_ok s css E M k R U {}" and n: "n \<in> set (cached_nodes s css)" "ram_node s M k R n"
  obtains s' css' where "vfs_release_node n s = Some (RESOURCE_RESULT_OK, s')"
    "files_ok s' css' E M k R (U(fs_data (vfs_nodes s n) := U (fs_data (vfs_nodes s n)) - 1)) {}"
    "ramfs_nodes s' = ramfs_nodes s"
    "vfs_nodes s' = (vfs_nodes s)(n := (vfs_nodes s n)\<lparr>node_ref_count := node_ref_count (vfs_nodes s n) - 1\<rparr>)"
    "set (cached_nodes s' css') = set (cached_nodes s css) - (if U (fs_data (vfs_nodes s n)) = 1 then {n} else {})"
proof -
  let ?f = "fs_data (vfs_nodes s n)" and ?s0 = "upd_node n (\<lambda>v. v\<lparr>node_ref_count := node_ref_count v - 1\<rparr>) s"
  note O = files_okD [OF ok] and N = ram_nodeD [OF n(2)]
  note C = cached_file [OF ok n] and T = file_treeD [OF O(3) N(4)]
  note R = release_node_result [OF O(1) n(1)]
  have r: "released_blocks s n = {}" using T(1) by (auto simp: released_blocks_def Let_def)
  have v: "vfs_nodes ?s0 = (vfs_nodes s)(n := (vfs_nodes s n)\<lparr>node_ref_count := node_ref_count (vfs_nodes s n) - 1\<rparr>)"
    "ramfs_nodes ?s0 = ramfs_nodes s" by (simp_all add: upd_node_def)
  show thesis
  proof (cases "U ?f = 1")
    case True
    then have "unat (node_ref_count (vfs_nodes s n)) = unat (2 :: u32)" using C(2) by simp
    then have "node_ref_count (vfs_nodes s n) = 2" by (rule unsigned_word_eqI)
    then obtain s' css' where x: "vfs_release_node n s = Some (RESOURCE_RESULT_OK, s')" "cache_ok s' css' E"
        "set (cached_nodes s' css') = set (cached_nodes s css) - {n}" "vfs_nodes s' = vfs_nodes ?s0" "ramfs_nodes s' = ramfs_nodes s"
      using R(2) r T(2) by auto
    then show thesis using that [of s' css'] files_ok_drop [OF ok n x(2,3) _ x(5)] v(1) True by simp
  next
    case False
    then have u: "U ?f \<ge> 2" using C(3) by auto
    have "node_ref_count (vfs_nodes s n) \<noteq> 2" using C(2) u by auto
    then have e: "vfs_release_node n s = Some (RESOURCE_RESULT_OK, ?s0)" "cache_ok ?s0 css E" using R(1) by auto
    have "unat (node_ref_count (vfs_nodes s n) - 1) = U ?f - 1 + 1" using C(2) u unat_sub [of 1 "node_ref_count (vfs_nodes s n)"] by (simp add: word_le_nat_alt)
    moreover have c: "cached_nodes ?s0 css = cached_nodes s css" by (rule cached_nodes_cong) (simp add: upd_node_def)
    ultimately have "files_ok ?s0 css E M k R (U(?f := U ?f - 1)) {}" using user_counts_step [OF ok n e(2) _ v, of "U ?f - 1" "{}"] u by auto
    then show thesis using that [of ?s0 css] e v c False by simp
  qed
qed

lemma release_uncached:
  assumes ok: "files_ok s css E M k R U Z" and n: "n \<in> E" "n \<noteq> 0" "node_ref_count (vfs_nodes s n) = 1"
  obtains s' where "vfs_release_node n s = Some (RESOURCE_RESULT_OK, s')" "files_ok s' css E M k R U Z"
    "ramfs_nodes s' = ramfs_nodes s" "cached_nodes s' css = cached_nodes s css" "\<And>m. m \<noteq> n \<Longrightarrow> vfs_nodes s' m = vfs_nodes s m"
proof -
  let ?s0 = "upd_node n (\<lambda>v. v\<lparr>node_ref_count := node_ref_count v - 1\<rparr>) s"
  have "n \<notin> set (cached_nodes s css)" using cache_okD(5) [OF files_okD(1) [OF ok]] n(1) by (auto simp: cache_blocks_def)
  then have v: "vfs_nodes ?s0 m = vfs_nodes s m" if "m \<in> set (cached_nodes s css)" for m using that by (auto simp: upd_node_def)
  have c: "cached_nodes ?s0 css = cached_nodes s css" by (rule cached_nodes_cong) (simp add: upd_node_def)
  have "cache_ok ?s0 css E" by (rule cache_ok_same [OF files_okD(1) [OF ok]]) (simp_all add: same_indices_def)
  then have "files_ok ?s0 css E M k R U Z" by (rule files_ok_other [OF ok _ c v]) (simp_all add: upd_node_def)
  moreover have "vfs_release_node n s = Some (RESOURCE_RESULT_OK, ?s0)"
    using n by (simp add: vfs_release_node_def vfs_cache_try_evict_def upd_node_def)
  ultimately show thesis using that c by (simp add: upd_node_def)
qed

lemma used_cache_number:
  assumes ok: "files_ok s css E M k R U Z" and f: "f \<in> R" "U f \<ge> 1"
  shows "k \<in> set (cache_numbers s css)"
proof -
  note O = files_okD [OF ok]
  obtain n where "node_at s css k (ramfs_id (ramfs_nodes s f)) = Some n"
    using O(5) f unfolding user_counts_def by (cases "node_at s css k (ramfs_id (ramfs_nodes s f))") fastforce+
  then have n: "n \<in> set (cached_nodes s css)" "cache_index (vfs_nodes s n) = k"
    using node_at_iff [OF cache_okD(2) [OF O(1)]] by auto
  then obtain q where q: "q \<in> set (cells css)" "n = cached_at s q" by (auto simp: cached_nodes_def)
  then obtain c ns where c: "(c, ns) \<in> set css" "q \<in> set ns" by (auto simp: cells_def)
  then have "cache_number (vfs_caches s c) = k" using shape_row [OF cache_okD(2) [OF O(1)] c] n(2) q(2) by simp
  then show ?thesis using c(1) by (force simp: cache_numbers_def)
qed

lemma lookup_lock:
  fixes s :: "'a kernel_fs_scheme"
  assumes ok: "files_ok s css E M k R U {}" and cur: "cur \<noteq> 0" "ram_node s M k R cur"
    and k: "k \<in> set (cache_numbers s css)" and c: "child_named (ramfs_nodes s) (fs_data (vfs_nodes s cur)) name = Some c"
    and b: "U c < 2 ^ 32 - 2"
  obtains (nomem) s' where "ramfs_lookup cur name s = Some (RESOURCE_RESULT_ALLOCATION_ERROR, 0, s')" "files_ok s' css E M k R U {}"
      "cached_nodes s' css = cached_nodes s css" "vfs_nodes s' = vfs_nodes s" "ramfs_nodes s' = ramfs_nodes s"
  | (held) n s1 s' css' where "ramfs_lookup cur name s = Some (RESOURCE_RESULT_OK, n, s1)" "snd (vfs_lock_node n s1) = s'"
      "ram_node s' M k R n" "fs_data (vfs_nodes s' n) = c" "\<And>m. m \<noteq> n \<Longrightarrow> vfs_nodes s' m = vfs_nodes s m" "ramfs_nodes s' = ramfs_nodes s"
      "files_ok s' css' E M k R (U(c := U c + 1)) {}" "n \<in> set (cached_nodes s' css')" "set (cached_nodes s css) \<subseteq> set (cached_nodes s' css')"
      "n \<in> set (cached_nodes s css) \<union> E \<Longrightarrow> fs_data (vfs_nodes s n) = c"
  | (loose) n s1 s' css' where "ramfs_lookup cur name s = Some (RESOURCE_RESULT_OK, n, s1)" "snd (vfs_lock_node n s1) = s'"
      "ram_node s' M k R n" "fs_data (vfs_nodes s' n) = c" "\<And>m. m \<noteq> n \<Longrightarrow> vfs_nodes s' m = vfs_nodes s m" "ramfs_nodes s' = ramfs_nodes s"
      "files_ok s' css' (insert n E) M k R U {}" "n \<notin> set (cached_nodes s css) \<union> E" "n \<noteq> 0" "node_ref_count (vfs_nodes s' n) = 1"
      "cached_nodes s' css' = cached_nodes s css"
proof -
  let ?f = "fs_data (vfs_nodes s cur)" and ?i = "ramfs_id (ramfs_nodes s c)"
  note O = files_okD [OF ok] and N = ram_nodeD [OF cur(2)]
  obtain e where e: "find (\<lambda>e. dirent_name e = name) (ramfs_children (ramfs_nodes s ?f)) = Some e" "dirent_node e = c"
    using c by (auto simp: child_named_def)
  have le: "length (dirent_name e) < VFS_NODE_NAME_LENGTH" and cR: "c \<in> R" using file_treeD(3) [OF O(3) N(4)] find_SomeD [OF e(1)] e(2) by auto
  have q: "vfs_cache_query_node (ucast (cache_index (vfs_nodes s cur))) ?i s =
      Some (case node_at s css k ?i of None \<Rightarrow> (RESOURCE_RESULT_NOT_FOUND, 0) | Some n \<Rightarrow> (RESOURCE_RESULT_OK, n))"
    using query_result [OF cache_okD(2) [OF O(1)], of "ucast k" ?i] k O(2) N(3) by simp
  show thesis
  proof (cases "node_at s css k ?i")
    case (Some n)
    note C = file_cached [OF ok cR Some]
    have l: "ramfs_lookup cur name s = Some (RESOURCE_RESULT_OK, n, s)" using e q Some by (simp add: ramfs_lookup_def node_for_def)
    note L = lock_node_files [OF ok C(1,2)]
    have "ram_node (snd (vfs_lock_node n s)) M k R n" using C(2) L(2,4) b C(3) by (simp add: ram_node_def Let_def)
    then show thesis using held [OF l refl] L b C by simp
  next
    case None
    have U0: "U c = 0" using O(5) cR None unfolding user_counts_def by fastforce
    have l: "ramfs_lookup cur name s = vfs_create_node cur ?i (dirent_name e) ramfs_node_operations c
        (ramfs_type (ramfs_nodes s c)) RESOURCE_TYPE_FILE s"
      using e q None by (simp add: ramfs_lookup_def node_for_def)
    have cf: "cache_for cur s = k" using cur(1) N(3) by (simp add: cache_for_def)
    from O(1) le show thesis
    proof (cases rule: create_node_result [where directory = cur and ident = ?i and ops = ramfs_node_operations and data = c and
          kind = "ramfs_type (ramfs_nodes s c)" and resource = RESOURCE_TYPE_FILE])
      case (nomem s')
      have "files_ok s' css E M k R U {}" by (rule files_ok_other [OF ok nomem(2,3)]) (simp_all add: nomem(4,6))
      then show thesis using that(1) nomem l by simp
    next
      case (uncached n s1 css')
      let ?s' = "snd (vfs_lock_node n s1)"
      have n: "n \<notin> set (cached_nodes s css)" using uncached(3) by (auto simp: cache_blocks_def)
      have v: "vfs_nodes ?s' = (vfs_nodes s)(n := new_node (dirent_name e) ramfs_node_operations (ramfs_type (ramfs_nodes s c)) RESOURCE_TYPE_FILE c k ?i 1)"
        "ramfs_nodes ?s' = ramfs_nodes s" using uncached(2,6,8) cf by (simp_all add: vfs_lock_node_def new_node_def)
      have cc: "cached_nodes ?s' css' = cached_nodes s css" unfolding uncached(5) [symmetric] by (rule cached_nodes_cong) simp
      have "cache_ok ?s' css' (insert n E)" by (rule cache_ok_same [OF uncached(4)]) simp_all
      then have "files_ok ?s' css' (insert n E) M k R U {}" by (rule files_ok_other [OF ok _ cc]) (use v n in auto)
      moreover have "ram_node ?s' M k R n" using cR v by (simp add: ram_node_def new_node_def)
      ultimately show thesis using loose [of n s1 ?s' css'] uncached(1-3) n v l cc by (simp add: new_node_def)
    next
      case (cached n s1 css')
      have n: "n \<notin> set (cached_nodes s css)" "n \<notin> E" using cached(3) by (auto simp: cache_blocks_def)
      have v: "vfs_nodes s1 = (vfs_nodes s)(n := new_node (dirent_name e) ramfs_node_operations (ramfs_type (ramfs_nodes s c)) RESOURCE_TYPE_FILE c k ?i 1)"
        using cached(6) cf by simp
      have r1: "ram_node s1 M k R n" "fs_data (vfs_nodes s1 n) = c" using cR cached(8) by (simp_all add: v ram_node_def new_node_def)
      have k1: "files_ok s1 css' E M k R U {c}" by (rule files_ok_new [OF ok cached(4,5) _ _ r1 _ cR U0 None]) (use v n cached(8) in \<open>auto simp: new_node_def\<close>)
      note L = lock_node_files [OF k1 _ r1(1)]
      have "ram_node (snd (vfs_lock_node n s1)) M k R n" using r1 L(2,4) b cached(5) by (simp add: ram_node_def Let_def)
      then show thesis using held [of n s1 "snd (vfs_lock_node n s1)" css'] l cached(1) L r1 b cached(5,8) v n by auto
    qed
  qed
qed

text \<open>
  The walk stands at a node: it has one count of the node in the cache, or the node could not be
  cached for lack of memory.
\<close>

definition walking ::
    "'a kernel_fs_scheme \<Rightarrow> (u32 \<times> u32 list) list \<Rightarrow> u32 set \<Rightarrow> u32 set \<Rightarrow> u64 \<Rightarrow> u32 set \<Rightarrow> (u32 \<Rightarrow> nat) \<Rightarrow> u32 \<Rightarrow> bool" where
  "walking s css E M k R U cur \<longleftrightarrow> cur \<noteq> 0 \<and> ram_node s M k R cur \<and> (let f = fs_data (vfs_nodes s cur) in
     cur \<in> set (cached_nodes s css) \<and> files_ok s css E M k R (U(f := U f + 1)) {} \<or>
     cur \<in> E \<and> node_ref_count (vfs_nodes s cur) = 1 \<and> files_ok s css E M k R U {})"

lemma walking_cases:
  assumes "walking s css E M k R U cur"
  obtains (held) "cur \<noteq> 0" "ram_node s M k R cur" "cur \<in> set (cached_nodes s css)"
      "files_ok s css E M k R (U(fs_data (vfs_nodes s cur) := U (fs_data (vfs_nodes s cur)) + 1)) {}"
  | (loose) "cur \<noteq> 0" "ram_node s M k R cur" "cur \<in> E" "node_ref_count (vfs_nodes s cur) = 1" "files_ok s css E M k R U {}"
  using assms by (auto simp: walking_def Let_def)

lemma move_from:
  assumes w: "cur \<noteq> 0" "ram_node s M k R cur"
    and V: "cur \<in> set (cached_nodes s css) \<and> V = U(fs_data (vfs_nodes s cur) := U (fs_data (vfs_nodes s cur)) + 1) \<or>
      cur \<in> E \<and> node_ref_count (vfs_nodes s cur) = 1 \<and> V = U"
    and ok: "files_ok s css E M k R V {}" and c: "child_named (ramfs_nodes s) (fs_data (vfs_nodes s cur)) name = Some c"
    and r: "root \<in> R" "U root \<ge> 1" and b: "\<And>f. U f < 2 ^ 32 - 4"
  obtains (nomem) s' where "ramfs_lookup cur name s = Some (RESOURCE_RESULT_ALLOCATION_ERROR, 0, s')" "walking s' css E M k R U cur"
      "fs_data (vfs_nodes s' cur) = fs_data (vfs_nodes s cur)" "ramfs_nodes s' = ramfs_nodes s" "cached_nodes s' css = cached_nodes s css"
  | (moved) n s1 s' css' E' where "ramfs_lookup cur name s = Some (RESOURCE_RESULT_OK, n, s1)"
      "vfs_release_node cur (snd (vfs_lock_node n s1)) = Some (RESOURCE_RESULT_OK, s')" "walking s' css' E' M k R U n"
      "fs_data (vfs_nodes s' n) = c" "ramfs_nodes s' = ramfs_nodes s" "E \<subseteq> E'" "n \<in> set (cached_nodes s' css') \<or> n \<in> E' - E"
proof -
  let ?f = "fs_data (vfs_nodes s cur)"
  have V1: "V root \<ge> 1" "V c < 2 ^ 32 - 2" using V r(2) b [of c] by auto
  have nc: "cur \<in> E \<Longrightarrow> cur \<notin> set (cached_nodes s css)" using cache_okD(5) [OF files_okD(1) [OF ok]] by (auto simp: cache_blocks_def)
  from ok w used_cache_number [OF ok r(1) V1(1)] c V1(2) show thesis
  proof (cases rule: lookup_lock)
    case (nomem s')
    have "ram_node s' M k R cur" using w(2) nomem(4,5) by (simp add: ram_node_def Let_def)
    then have "walking s' css E M k R U cur" using V w(1) nomem(2-4) by (auto simp: walking_def Let_def)
    then show thesis using that(1) nomem by simp
  next
    case (held n s1 s2 css2)
    have f2: "fs_data (vfs_nodes s2 cur) = ?f" using held(4,5,10) V by (cases "cur = n") auto
    have r2: "ram_node s2 M k R cur" using held(3,5,6) w(2) by (cases "cur = n") (auto simp: ram_node_def Let_def)
    show thesis
    proof (cases "cur \<in> set (cached_nodes s css)")
      case True
      then have VU: "V = U(?f := U ?f + 1)" using V nc by auto
      have "cur \<in> set (cached_nodes s2 css2)" using True held(9) by auto
      from release_cached [OF held(7) this r2] obtain s' css' where
        x: "vfs_release_node cur s2 = Some (RESOURCE_RESULT_OK, s')"
          "files_ok s' css' E M k R ((V(c := V c + 1))(?f := (V(c := V c + 1)) ?f - 1)) {}" "ramfs_nodes s' = ramfs_nodes s2"
          "vfs_nodes s' = (vfs_nodes s2)(cur := (vfs_nodes s2 cur)\<lparr>node_ref_count := node_ref_count (vfs_nodes s2 cur) - 1\<rparr>)"
          "set (cached_nodes s' css') = set (cached_nodes s2 css2) - (if (V(c := V c + 1)) ?f = 1 then {cur} else {})"
        unfolding f2 by metis
      have e: "(V(c := V c + 1))(?f := (V(c := V c + 1)) ?f - 1) = U(c := U c + 1)" by (auto simp: VU fun_eq_iff)
      have "n = cur \<Longrightarrow> c = ?f" using held(10) True by auto
      then have n: "n \<in> set (cached_nodes s' css')" using x(5) held(8) VU by auto
      have "ram_node s' M k R n" "fs_data (vfs_nodes s' n) = c" using held(3,4) x(3,4) by (auto simp: ram_node_def Let_def)
      moreover have "n \<noteq> 0" using cache_okD(4) [OF files_okD(1) [OF x(2)]] n by metis
      ultimately have "walking s' css' E M k R U n" using x(2) n unfolding e by (simp add: walking_def)
      then show thesis using moved [of n s1 s' css' E] held(1,2,6) x(1,3) n \<open>fs_data (vfs_nodes s' n) = c\<close> by simp
    next
      case False
      then have u: "cur \<in> E" "node_ref_count (vfs_nodes s cur) = 1" "V = U" using V by auto
      have ne: "cur \<noteq> n" using cache_okD(5) [OF files_okD(1) [OF held(7)]] held(8) u(1) by (auto simp: cache_blocks_def)
      have "node_ref_count (vfs_nodes s2 cur) = 1" using held(5) ne u(2) by simp
      from release_uncached [OF held(7) u(1) w(1) this] obtain s' where
        x: "vfs_release_node cur s2 = Some (RESOURCE_RESULT_OK, s')" "files_ok s' css2 E M k R (V(c := V c + 1)) {}"
          "ramfs_nodes s' = ramfs_nodes s2" "cached_nodes s' css2 = cached_nodes s2 css2" "\<And>m. m \<noteq> cur \<Longrightarrow> vfs_nodes s' m = vfs_nodes s2 m"
        by metis
      have n: "ram_node s' M k R n" "fs_data (vfs_nodes s' n) = c" "n \<in> set (cached_nodes s' css2)"
        using held(3,4,8) x(3-5) ne by (simp_all add: ram_node_def Let_def)
      moreover have "n \<noteq> 0" using cache_okD(4) [OF files_okD(1) [OF x(2)]] n(3) by metis
      ultimately have "walking s' css2 E M k R U n" using x(2) u(3) by (simp add: walking_def)
      then show thesis using moved [of n s1 s' css2 E] held(1,2,6) x(1,3) n by simp
    qed
  next
    case (loose n s1 s2 css2)
    have ne: "cur \<noteq> n" using loose(8) V by auto
    have r2: "ram_node s2 M k R cur" "fs_data (vfs_nodes s2 cur) = ?f" using loose(5,6) ne w(2) by (simp_all add: ram_node_def Let_def)
    have fin: thesis if "vfs_release_node cur s2 = Some (RESOURCE_RESULT_OK, s')" "files_ok s' css' (insert n E) M k R U {}"
        "ramfs_nodes s' = ramfs_nodes s2" "\<And>m. m \<noteq> cur \<Longrightarrow> vfs_nodes s' m = vfs_nodes s2 m" for s' css'
    proof -
      have n: "ram_node s' M k R n" "fs_data (vfs_nodes s' n) = c" "node_ref_count (vfs_nodes s' n) = 1"
        using loose(3,4,10) that(3,4) ne by (simp_all add: ram_node_def Let_def)
      then have "walking s' css' (insert n E) M k R U n" using that(2) loose(9) by (simp add: walking_def)
      then show thesis using moved [of n s1 s' css' "insert n E"] loose(1,2,6,8) that(1,3) n(2) by auto
    qed
    show thesis
    proof (cases "cur \<in> set (cached_nodes s css)")
      case True
      then have VU: "V = U(?f := U ?f + 1)" using V nc by auto
      have "cur \<in> set (cached_nodes s2 css2)" using True loose(11) by simp
      from release_cached [OF loose(7) this r2(1)] obtain s' css' where
        x: "vfs_release_node cur s2 = Some (RESOURCE_RESULT_OK, s')" "files_ok s' css' (insert n E) M k R (V(?f := V ?f - 1)) {}"
          "ramfs_nodes s' = ramfs_nodes s2"
          "vfs_nodes s' = (vfs_nodes s2)(cur := (vfs_nodes s2 cur)\<lparr>node_ref_count := node_ref_count (vfs_nodes s2 cur) - 1\<rparr>)"
        unfolding r2(2) by metis
      have "V(?f := V ?f - 1) = U" by (auto simp: VU fun_eq_iff)
      then show thesis using fin [OF x(1) _ x(3)] x(2,4) by simp
    next
      case False
      then have u: "cur \<in> insert n E" "node_ref_count (vfs_nodes s2 cur) = 1" "V = U" using V loose(5) ne by auto
      from release_uncached [OF loose(7) u(1) w(1) u(2)] show thesis using fin u(3) by metis
    qed
  qed
qed

section \<open>The whole walk\<close>

lemma resolve_loop_walks:
  fixes s :: "'a kernel_io_scheme"
  assumes r: "root \<in> R" "U root \<ge> 1" and b: "\<And>f. U f < 2 ^ 32 - 4"
  shows "walking s css E M k R U cur \<Longrightarrow> E0 \<subseteq> E \<Longrightarrow> cur \<in> set (cached_nodes s css) \<or> cur \<in> E - E0 \<Longrightarrow>
      avoids (ramfs_nodes s) M names (fs_data (vfs_nodes s cur)) \<Longrightarrow> \<forall>c \<in> set names. length c < VFS_NODE_NAME_LENGTH \<Longrightarrow>
    \<exists>result n s' css' E' d. resolve_loop names cur s = Some (result, n, s') \<and> ramfs_nodes s' = ramfs_nodes s \<and> E0 \<subseteq> E' \<and>
      walking s' css' E' M k R U d \<and> (d \<in> set (cached_nodes s' css') \<or> d \<in> E' - E0) \<and>
      (result = RESOURCE_RESULT_OK \<and> n = d \<and> ramfs_walk (ramfs_nodes s) names (fs_data (vfs_nodes s cur)) = Some (fs_data (vfs_nodes s' d)) \<or>
       result = RESOURCE_RESULT_NOT_FOUND \<and> n = 0 \<and> ramfs_walk (ramfs_nodes s) names (fs_data (vfs_nodes s cur)) = None \<or>
       result = RESOURCE_RESULT_ALLOCATION_ERROR \<and> n = 0)"
proof (induction names arbitrary: s css E cur)
  case Nil
  then show ?case by (auto intro!: exI [of _ css] exI [of _ E])
next
  case (Cons name names)
  let ?f = "fs_data (vfs_nodes s cur)"
  have w: "cur \<noteq> 0" "ram_node s M k R cur" using Cons.prems(1) by (auto simp: walking_def)
  have m: "mount (vfs_nodes s cur) = 0" using ram_nodeD(2) [OF w(2)] Cons.prems(4) by simp
  have l: "lookup_operation (node_operations (vfs_nodes s cur)) = Some (ramfs_lookup :: u32 \<Rightarrow> char list \<Rightarrow> 'a kernel_io_scheme \<Rightarrow> _)"
    using ram_nodeD(1) [OF w(2)] by simp
  have len: "length name < VFS_NODE_NAME_LENGTH" using Cons.prems(5) by simp
  show ?case
  proof (cases "child_named (ramfs_nodes s) ?f name")
    case None
    then have "ramfs_lookup cur name s = Some (RESOURCE_RESULT_NOT_FOUND, 0, s)" by (auto simp: child_named_def ramfs_lookup_def)
    then have "resolve_loop (name # names) cur s = Some (RESOURCE_RESULT_NOT_FOUND, 0, s)" using m l len by (simp add: not_le)
    then show ?thesis using Cons.prems(1-3) None
      by (intro exI [of _ RESOURCE_RESULT_NOT_FOUND] exI [of _ 0] exI [of _ s] exI [of _ css] exI [of _ E] exI [of _ cur])
        (simp del: resolve_loop.simps)
  next
    case (Some c)
    obtain V where V: "cur \<in> set (cached_nodes s css) \<and> V = U(?f := U ?f + 1) \<or> cur \<in> E \<and> node_ref_count (vfs_nodes s cur) = 1 \<and> V = U"
        "files_ok s css E M k R V {}"
      using Cons.prems(1) by (cases rule: walking_cases) auto
    from w V Some r b show ?thesis
    proof (cases rule: move_from)
      case (nomem s')
      then have "resolve_loop (name # names) cur s = Some (RESOURCE_RESULT_ALLOCATION_ERROR, 0, s')" using m l len by (simp add: not_le)
      then show ?thesis using nomem(2,4,5) Cons.prems(2,3)
        by (intro exI [of _ RESOURCE_RESULT_ALLOCATION_ERROR] exI [of _ 0] exI [of _ s'] exI [of _ css] exI [of _ E] exI [of _ cur])
          (simp del: resolve_loop.simps)
    next
      case (moved n s1 s' css' E')
      have "n \<noteq> 0" using moved(3) by (auto simp: walking_def)
      then have e: "resolve_loop (name # names) cur s = resolve_loop names n s'" using moved(1,2) m l len by (simp add: not_le)
      have "E0 \<subseteq> E'" "n \<in> set (cached_nodes s' css') \<or> n \<in> E' - E0" using moved(6,7) Cons.prems(2) by auto
      note IH = Cons.IH [OF moved(3) this]
      have "avoids (ramfs_nodes s') M names (fs_data (vfs_nodes s' n))" using Cons.prems(4) Some moved(4,5) by simp
      from IH [OF this] Cons.prems(5) show ?thesis unfolding e using Some moved(4,5) by simp
    qed
  qed
qed

section \<open>Properties\<close>

text \<open>
  (C5) Resolving a path ends, and finds what the names lead to. The walk over the cached nodes
  returns for every path whose components fit their buffer and whose walk does not pass a mount point. It succeeds
  only with a node of the file that the directories of the ram file system name, and says
  \<^verbatim>\<open>not found\<close> only when they name none; the third result is lack of memory. As long as memory
  for the cache was found, the node is cached and has exactly one user more, and every other file
  has the users it had: the nodes on the way were taken and given back. A failed walk is different:
  the directory \<open>d\<close> where it ended keeps one user too many.
\<close>

theorem vfs_resolve_walks:
  fixes s :: "'a kernel_io_scheme"
  assumes "files_ok s css E M k R U {}" "vfs_root s \<in> set (cached_nodes s css)" "cache_index (vfs_nodes s (vfs_root s)) = k"
    "root = fs_data (vfs_nodes s (vfs_root s))" "\<forall>f. U f < 2 ^ 32 - 4" "names = path_components pathname"
    "\<forall>c \<in> set names. length c < VFS_NODE_NAME_LENGTH" "avoids (ramfs_nodes s) M names root"
  shows "\<exists>result n s' css' E' d U'. vfs_resolve pathname s = Some (result, n, s') \<and> ramfs_nodes s' = ramfs_nodes s \<and> E \<subseteq> E' \<and>
    files_ok s' css' E' M k R U' {} \<and> d \<in> R \<and> (U' = U(d := U d + 1) \<or> U' = U \<and> E' \<noteq> E) \<and>
    (case result of
       RESOURCE_RESULT_OK \<Rightarrow> ramfs_walk (ramfs_nodes s) names root = Some d \<and> n \<noteq> 0 \<and> fs_data (vfs_nodes s' n) = d \<and>
         (E' = E \<longrightarrow> n \<in> set (cached_nodes s' css'))
     | RESOURCE_RESULT_NOT_FOUND \<Rightarrow> ramfs_walk (ramfs_nodes s) names root = None \<and> n = 0
     | _ \<Rightarrow> result = RESOURCE_RESULT_ALLOCATION_ERROR \<and> n = 0)"
proof -
  let ?r = "vfs_root s" and ?s0 = "snd (vfs_lock_node (vfs_root s) s)"
  have rn: "ram_node s M k R ?r" using files_okD(4) [OF assms(1)] assms(2,3) by blast
  have rR: "root \<in> R" "U root \<ge> 1" using ram_nodeD(4) [OF rn] cached_file(3) [OF assms(1,2) rn] assms(4) by auto
  have "U root < 2 ^ 32 - 4" using assms(5) by blast
  then have b: "U (fs_data (vfs_nodes s ?r)) < 2 ^ 32 - 2" using assms(4) by simp
  note L = lock_node_files [OF assms(1,2) rn b, simplified]
  have r0: "ram_node ?s0 M k R ?r" "fs_data (vfs_nodes ?s0 ?r) = root" using rn L(2,4) assms(4) by (simp_all add: ram_node_def Let_def)
  have "?r \<noteq> 0" using cache_okD(4) [OF files_okD(1) [OF assms(1)]] assms(2) by metis
  then have w: "walking ?s0 css E M k R U ?r" using r0 L(1,3) assms(2,4) by (simp add: walking_def)
  have rf: "ramfs_nodes ?s0 = ramfs_nodes s" by simp
  have "\<exists>result n s' css' E' d. resolve_loop names ?r ?s0 = Some (result, n, s') \<and> ramfs_nodes s' = ramfs_nodes ?s0 \<and> E \<subseteq> E' \<and>
      walking s' css' E' M k R U d \<and> (d \<in> set (cached_nodes s' css') \<or> d \<in> E' - E) \<and>
      (result = RESOURCE_RESULT_OK \<and> n = d \<and> ramfs_walk (ramfs_nodes ?s0) names (fs_data (vfs_nodes ?s0 ?r)) = Some (fs_data (vfs_nodes s' d)) \<or>
       result = RESOURCE_RESULT_NOT_FOUND \<and> n = 0 \<and> ramfs_walk (ramfs_nodes ?s0) names (fs_data (vfs_nodes ?s0 ?r)) = None \<or>
       result = RESOURCE_RESULT_ALLOCATION_ERROR \<and> n = 0)"
    by (rule resolve_loop_walks [OF rR _ w]) (use assms(2,5,7,8) L(2,3) r0(2) in auto)
  then obtain result n s' css' E' d where x: "resolve_loop names ?r ?s0 = Some (result, n, s')" "ramfs_nodes s' = ramfs_nodes s" "E \<subseteq> E'"
      "walking s' css' E' M k R U d" "d \<in> set (cached_nodes s' css') \<or> d \<in> E' - E"
      "result = RESOURCE_RESULT_OK \<and> n = d \<and> ramfs_walk (ramfs_nodes s) names root = Some (fs_data (vfs_nodes s' d)) \<or>
       result = RESOURCE_RESULT_NOT_FOUND \<and> n = 0 \<and> ramfs_walk (ramfs_nodes s) names root = None \<or>
       result = RESOURCE_RESULT_ALLOCATION_ERROR \<and> n = 0"
    unfolding r0(2) rf by blast
  let ?d = "fs_data (vfs_nodes s' d)"
  have d: "d \<noteq> 0" "?d \<in> R" using x(4) ram_nodeD(4) by (auto simp: walking_def)
  obtain U' where U': "files_ok s' css' E' M k R U' {}" "U' = U(?d := U ?d + 1) \<or> U' = U \<and> E' \<noteq> E"
    "E' = E \<longrightarrow> d \<in> set (cached_nodes s' css')"
    using x(4)
  proof (cases rule: walking_cases)
    case loose
    have "d \<notin> set (cached_nodes s' css')" using cache_okD(5) [OF files_okD(1) [OF loose(5)]] loose(3) by (auto simp: cache_blocks_def)
    then show ?thesis using that [of U] loose(5) x(5) by auto
  qed (use that in auto)
  have "vfs_resolve pathname s = Some (result, n, s')" using x(1) assms(6) by (simp add: vfs_resolve_def)
  then show ?thesis
    using x(2,3,6) U' d by (intro exI [of _ result] exI [of _ n] exI [of _ s'] exI [of _ css'] exI [of _ E'] exI [of _ ?d] exI [of _ U']) auto
qed

text \<open>A file system whose root has the file \<open>a\<close>; only the root is cached.\<close>

definition sample_root :: kernel_io where
  "sample_root = (kernel_fs.extend sample_cache (kernel_io.fields
       \<lparr>buffer = (\<lambda>_. nul_char), cursor_x = 0, cursor_y = 0, overflow = TERMINAL_OVERFLOW_NEW_LINE, scroll = TERMINAL_SCROLL_VERTICAL,
        width = 80, height = 25\<rparr> sample_framebuffer 0x800 0x810))
     \<lparr>vfs_root := 0xF0000008, vfs_nodes := (\<lambda>_. sample_node 0x500)\<rparr>"

lemma sample_root_fields:
  "vfs_root sample_root = 0xF0000008" "vfs_nodes sample_root = (\<lambda>_. sample_node 0x500)" "ramfs_nodes sample_root = sample_ramfs_node"
  "vfs_cache sample_root = 0xF0000208" "vfs_caches sample_root = (\<lambda>_. \<lparr>cache_number = 0, cache_nodes = 0xF0000308, cache_next = 0\<rparr>)"
  "vfs_cache_nodes sample_root = (\<lambda>_. \<lparr>cached_node = 0xF0000008, cached_next = 0\<rparr>)" "same_heap sample_cache sample_root"
  by (simp_all add: sample_root_def sample_cache_def sample_fs_def same_heap_def kernel_io.defs kernel_fs.defs kernel_keyboard.defs)

lemma sample_root_ok: "files_ok sample_root [(0xF0000208, [0xF0000308])] {} {} 0 {0x700, 0x720} (\<lambda>f. if f = 0x700 then 1 else 0) {}"
proof -
  let ?css = "[(0xF0000208, [0xF0000308])] :: (u32 \<times> u32 list) list"
  have n: "cached_nodes sample_root ?css = [0xF0000008]" by (simp add: cached_nodes_def cached_at_def sample_root_fields)
  have "cache_shape sample_root ?css"
    by (simp add: cache_shape_def row_ok_def cache_links_def cached_links_def cached_at_def sample_root_fields sample_node_def)
  then have "cache_ok sample_root ?css {}"
    using sample_cache_heap same_heapD(1) [OF sample_root_fields(7)] separate_same [OF sample_root_fields(7)]
    by (simp add: cache_ok_def cache_blocks_def n)
  moreover have "file_tree (ramfs_nodes sample_root) {0x700, 0x720}"
    by (auto simp: file_tree_def sample_root_fields sample_ramfs_node_def inj_on_def VFS_NODE_NAME_LENGTH_def)
  moreover have "user_counts sample_root ?css 0 {0x700, 0x720} (\<lambda>f. if f = 0x700 then 1 else 0) {}"
    by (simp add: user_counts_def node_at_def n sample_root_fields sample_node_def sample_ramfs_node_def)
  ultimately show ?thesis by (simp add: files_ok_def n ram_node_def sample_root_fields sample_node_def sample_ramfs_node_def)
qed

theorem vfs_resolve_walks_witness:
  "files_ok sample_root [(0xF0000208, [0xF0000308])] {} {} 0 {0x700, 0x720} (\<lambda>f. if f = 0x700 then 1 else 0) {} \<and>
   (\<exists>result n s'. vfs_resolve ''/a'' sample_root = Some (result, n, s') \<and> (result = RESOURCE_RESULT_OK \<longrightarrow> fs_data (vfs_nodes s' n) = 0x720))"
proof -
  have p: "[''a''] = path_components ''/a''" by (simp add: path_components.simps slash_def)
  have w: "ramfs_walk (ramfs_nodes sample_root) [''a''] 0x700 = Some 0x720"
    by (simp add: child_named_def sample_root_fields sample_ramfs_node_def)
  have h: "vfs_root sample_root \<in> set (cached_nodes sample_root [(0xF0000208, [0xF0000308])])"
    "cache_index (vfs_nodes sample_root (vfs_root sample_root)) = 0" "0x700 = fs_data (vfs_nodes sample_root (vfs_root sample_root))"
    "\<forall>f :: u32. (if f = 0x700 then 1 else 0 :: nat) < 2 ^ 32 - 4" "\<forall>c \<in> set [''a'']. length c < VFS_NODE_NAME_LENGTH"
    "avoids (ramfs_nodes sample_root) {} [''a''] 0x700"
    by (simp_all add: cached_nodes_def cached_at_def sample_root_fields sample_node_def VFS_NODE_NAME_LENGTH_def child_named_def
        sample_ramfs_node_def)
  from vfs_resolve_walks [OF sample_root_ok h(1-4) p h(5,6)] obtain result n s' where
    "vfs_resolve ''/a'' sample_root = Some (result, n, s')" "result = RESOURCE_RESULT_OK \<longrightarrow> fs_data (vfs_nodes s' n) = 0x720"
    unfolding w by (elim exE conjE) (auto split: resource_result_t.splits)
  then show ?thesis using sample_root_ok by blast
qed

end
