(* ===== verification/Elf_Load.thy ===== *)
theory Elf_Load
  imports User_Heap Task_Start Path_Walk
begin

text \<open>
  What the program loader leaves in memory: the segments of an ELF file (\<^verbatim>\<open>src/elf_executable.c\<close>) in the
  pages of the new address space.
\<close>

unbundle bit_operations_syntax

section \<open>Bytes of physical memory\<close>

definition phys_byte :: "(u32 \<Rightarrow> u32) \<Rightarrow> u32 \<Rightarrow> u8" where
  "phys_byte pm p = get_byte (pm (p AND NOT 3)) (unat (p AND 3))"

lemma bit_get_byte: "bit (get_byte w j) n \<longleftrightarrow> n < 8 \<and> bit w (8 * j + n)"
  by (auto simp: get_byte_def bit_simps)

lemma bit_set_byte:
  assumes "m < 32"
  shows "bit (set_byte w i b) m \<longleftrightarrow> (if 8 * i \<le> m \<and> m < 8 * i + 8 then bit b (m - 8 * i) else bit w m)"
proof -
  have "bit (push_bit (8 * i) (0xFF :: u32)) m \<longleftrightarrow> 8 * i \<le> m \<and> m < 8 * i + 8"
  proof -
    have e: "(0xFF :: u32) = mask 8" by (simp add: mask_eq_exp_minus_1)
    show ?thesis unfolding e using assms by (auto simp: bit_push_bit_iff bit_mask_iff)
  qed
  moreover have "bit (push_bit (8 * i) (ucast b :: u32)) m \<longleftrightarrow> 8 * i \<le> m \<and> m < 8 * i + 8 \<and> bit b (m - 8 * i)"
    using assms bit_imp_le_length [of b "m - 8 * i"] by (auto simp: bit_push_bit_iff bit_ucast_iff)
  ultimately show ?thesis using assms by (auto simp: set_byte_def bit_or_iff bit_and_iff bit_not_iff)
qed

lemma get_set_byte:
  assumes "i < 4" "j < 4"
  shows "get_byte (set_byte w i b) j = (if i = j then b else get_byte w j)"
proof (rule bit_word_eqI)
  fix n assume n: "n < LENGTH(8)"
  then have "8 * j + n < 32" "8 * i \<le> 8 * j + n \<and> 8 * j + n < 8 * i + 8 \<longleftrightarrow> i = j" using assms by auto
  then show "bit (get_byte (set_byte w i b) j) n = bit (if i = j then b else get_byte w j) n"
    using n by (simp add: bit_get_byte bit_set_byte)
qed

lemma unat_word_parts: "unat (v AND 3) = unat v mod 4" "unat (v AND NOT 3) = unat v div 4 * 4" for v :: u32
proof -
  have "v AND 3 = take_bit 2 v" by (simp add: take_bit_eq_mask mask_eq_exp_minus_1)
  then show "unat (v AND 3) = unat v mod 4" by (simp only: unsigned_take_bit_eq) (simp add: take_bit_eq_mod)
  have m: "(3 :: u32) = mask 2" by (simp add: mask_eq_exp_minus_1)
  have "bit v (Suc (Suc (n - 2))) = bit v n" if "2 \<le> n" for n
  proof -
    have "Suc (Suc (n - 2)) = n" using that by arith
    then show ?thesis by simp
  qed
  then have s: "v AND NOT 3 = push_bit 2 (drop_bit 2 v)" unfolding m by (intro bit_word_eqI) (auto simp: bit_simps not_less)
  have "unat v div 4 * 4 < 2 ^ 32" using unat_u32 [of v] by (simp add: div_times_less_eq_dividend le_less_trans)
  then show "unat (v AND NOT 3) = unat v div 4 * 4"
    unfolding s by (simp add: push_bit_eq_mult unat_word_ariths unat_drop_bit_eq drop_bit_eq_div)
qed

lemma word_parts_eq: "p = q \<longleftrightarrow> p AND NOT 3 = q AND NOT 3 \<and> unat (p AND 3) = unat (q AND 3)" for p q :: u32
proof
  assume "p AND NOT 3 = q AND NOT 3 \<and> unat (p AND 3) = unat (q AND 3)"
  then have "unat p div 4 * 4 = unat q div 4 * 4" "unat p mod 4 = unat q mod 4" by (metis unat_word_parts)+
  then have "unat p = unat q" by (metis div_mult_mod_eq)
  then show "p = q" by (rule unsigned_word_eqI)
qed simp

lemma split_word:
  assumes "ALIGN_DOWN f = f" "k < 4096"
  shows "(f + of_nat k) AND NOT 3 = entry_at f (of_nat (k div 4))" "unat ((f + of_nat k) AND 3) = k mod 4"
    "unat (f + of_nat k) = unat f + k" "ALIGN_DOWN (f + of_nat k) = f"
proof -
  obtain n where n: "unat f = n * 4096" using assms(1) by (rule aligned_cases)
  have "n * 4096 < 1048576 * 4096" using n unat_u32 [of f] by simp
  then have "n < 1048576" by simp
  then have lt: "unat f + k < 2 ^ 32" using n assms(2) by simp
  then show u: "unat (f + of_nat k) = unat f + k" by (rule unat_offset)
  have d: "(n * 4096 + k) div 4096 = n" using assms(2) by simp
  then show "ALIGN_DOWN (f + of_nat k) = f"
    using n u unat_ALIGN_DOWN [of "f + of_nat k"] by (intro unsigned_word_eqI [where ?'a = nat]) simp
  have k4: "n * 4096 + k = k + (n * 1024) * 4" by simp
  have "(n * 4096 + k) mod 4 = k mod 4" unfolding k4 by (rule mod_mult_self1)
  then show "unat ((f + of_nat k) AND 3) = k mod 4" using u n by (simp add: unat_word_parts)
  have "entry_at f (of_nat (k div 4)) = f + of_nat (4 * (k div 4))" by (simp add: entry_at_def)
  moreover have "unat (f + of_nat (4 * (k div 4))) = unat f + 4 * (k div 4)"
  proof (rule unat_offset)
    have "4 * (k div 4) \<le> k" by simp
    then show "unat f + 4 * (k div 4) < 2 ^ 32" using lt by linarith
  qed
  moreover have "(n * 4096 + k) div 4 * 4 = n * 4096 + 4 * (k div 4)" unfolding k4 div_mult_self1 [of 4 k "n * 1024", OF zero_neq_numeral [symmetric]] by (simp only: add_mult_distrib mult.commute mult.assoc) simp
  ultimately have "unat ((f + of_nat k) AND NOT 3) = unat (entry_at f (of_nat (k div 4)))"
    unfolding unat_word_parts(2) u n by (simp only:)
  then show "(f + of_nat k) AND NOT 3 = entry_at f (of_nat (k div 4))" by (rule unsigned_word_eqI)
qed

lemma quarter_less: "k < 4096 \<Longrightarrow> (of_nat (k div 4) :: u32) < 1024"
  by (rule index_less) simp

definition put_byte :: "u32 \<Rightarrow> nat \<Rightarrow> char \<Rightarrow> (u32 \<Rightarrow> u32) \<Rightarrow> u32 \<Rightarrow> u32" where
  "put_byte f k c pm = (let e = entry_at f (of_nat (k div 4)) in pm(e := set_byte (pm e) (k mod 4) (of_char c)))"

lemma phys_byte_put:
  assumes f: "ALIGN_DOWN f = f" "k < 4096"
  shows "phys_byte (put_byte f k c pm) q = (if q = f + of_nat k then of_char c else phys_byte pm q)"
proof -
  note K = split_word [OF f]
  show ?thesis
  proof (cases "q AND NOT 3 = (f + of_nat k) AND NOT 3")
    case True
    then have "q = f + of_nat k \<longleftrightarrow> unat (q AND 3) = k mod 4" using word_parts_eq [of q "f + of_nat k"] K(2) by simp
    then show ?thesis using True K(1) by (simp add: phys_byte_def put_byte_def Let_def get_set_byte unat_word_parts)
  next
    case False
    then show ?thesis using K(1) by (auto simp: phys_byte_def put_byte_def Let_def)
  qed
qed

section \<open>Filling a page through a window\<close>

primrec put_bytes :: "u32 \<Rightarrow> nat \<Rightarrow> char list \<Rightarrow> (u32 \<Rightarrow> u32) \<Rightarrow> u32 \<Rightarrow> u32" where
  "put_bytes f k [] pm = pm"
| "put_bytes f k (c # cs) pm = put_bytes f (Suc k) cs (put_byte f k c pm)"

lemma put_byte_outside: "k < 4096 \<Longrightarrow> \<not> in_table f a \<Longrightarrow> put_byte f k c pm a = pm a"
  using in_table_entry [OF quarter_less, of k f] by (auto simp: put_byte_def Let_def)

lemma put_bytes_outside: "k + length cs \<le> 4096 \<Longrightarrow> \<not> in_table f a \<Longrightarrow> put_bytes f k cs pm a = pm a"
  by (induction cs arbitrary: k pm) (simp_all add: put_byte_outside)

lemma phys_put_bytes:
  assumes "ALIGN_DOWN f = f"
  shows "k + length cs \<le> 4096 \<Longrightarrow> phys_byte (put_bytes f k cs pm) q =
    (if unat f + k \<le> unat q \<and> unat q < unat f + k + length cs then of_char (cs ! (unat q - unat f - k)) else phys_byte pm q)"
proof (induction cs arbitrary: k pm)
  case (Cons c cs)
  have k: "k < 4096" using Cons.prems by simp
  have e: "q = f + of_nat k \<longleftrightarrow> unat q = unat f + k" using split_word(3) [OF assms k] word_unat_eq_iff [of q "f + of_nat k"] by simp
  have "unat q - unat f - k = Suc (unat q - unat f - Suc k)" if "unat f + k < unat q" using that by simp
  then show ?case using Cons.IH [of "Suc k"] Cons.prems phys_byte_put [OF assms k] e by (auto simp: not_less_eq_eq nth_Cons')
qed auto

lemma bounce_aligned: "i < 16 \<Longrightarrow> ALIGN_DOWN (bounce_vaddr i) = bounce_vaddr i"
  using bounce_index(3) [of i] unat_page_offset [of "bounce_vaddr i"] by (simp add: aligned_unat)

lemma vwrite_bytes_window:
  assumes fill: "filling s i f"
  shows "\<forall>a. \<not> in_table f a \<longrightarrow> pm a = pmem s a \<Longrightarrow> k + length cs \<le> 4096 \<Longrightarrow>
    vwrite_bytes (bounce_vaddr i + of_nat k) cs (slot_view i f s pm) = Some (slot_view i f s (put_bytes f k cs pm))"
proof (induction cs arbitrary: k pm)
  case (Cons c cs)
  have k: "k < 4096" using Cons.prems by simp
  have al: "ALIGN_DOWN (bounce_vaddr i) = bounce_vaddr i" by (rule bounce_aligned [OF fillingD(2) [OF fill]])
  note K = split_word [OF al k] and t = quarter_less [OF k]
  have "pmem (slot_view i f s pm) (entry_at f (of_nat (k div 4))) = pm (entry_at f (of_nat (k div 4)))"
    using slot_word(1) [OF fill] in_table_entry [OF t, of f] by (auto simp: slot_view_def)
  then have "vread (entry_at (bounce_vaddr i) (of_nat (k div 4))) (slot_view i f s pm) = Some (pm (entry_at f (of_nat (k div 4))))"
    using vread_window [OF slot_view(1) [OF fill Cons.prems(1)] _ t] slot_view(2) [OF fill Cons.prems(1)] by simp
  then have w: "vwrite_byte (bounce_vaddr i + of_nat k) (of_char c) (slot_view i f s pm) = Some (slot_view i f s (put_byte f k c pm))"
    using slot_view_write [OF fill Cons.prems(1) t] unfolding vwrite_byte_def K put_byte_def Let_def by simp
  have "\<forall>a. \<not> in_table f a \<longrightarrow> put_byte f k c pm a = pmem s a" using Cons.prems(1) put_byte_outside [OF k] by simp
  note IH = Cons.IH [OF this, of "Suc k"]
  have "bounce_vaddr i + of_nat k + 1 = bounce_vaddr i + of_nat (Suc k)" by (simp add: algebra_simps)
  then show ?case using IH Cons.prems(2) w by (simp add: add.assoc del: of_nat_Suc)
qed simp

section \<open>An address space that is being loaded\<close>

text \<open>The directory \<open>R\<close> can be reached by its physical address, and writing the frames \<open>F\<close> changes no table.\<close>

definition loading :: "'a machine_scheme \<Rightarrow> u32 \<Rightarrow> u32 \<Rightarrow> u32 set \<Rightarrow> bool" where
  "loading s PD R F \<longleftrightarrow> editable s PD R \<and> page_directory_index PD = 1022 \<and>
     (\<forall>f \<in> F. off_tables (pmem s) R f \<and> f \<noteq> cr3 s \<and> f \<noteq> bounce_table s)"

lemma loadingD:
  assumes "loading s PD R F"
  shows "bounce_ready s" "\<exists>i<16. bounce_pages_used s i = 0" "address_space (pmem s) R (used_frames (memory_bitmap s))"
    "companion (pmem s) (cr3 s) R" "ALIGN_DOWN R = R"
    "f \<in> F \<Longrightarrow> off_tables (pmem s) R f" "f \<in> F \<Longrightarrow> f \<noteq> cr3 s" "f \<in> F \<Longrightarrow> f \<noteq> bounce_table s" "f \<in> F \<Longrightarrow> ALIGN_DOWN f = f" "f \<in> F \<Longrightarrow> f \<noteq> R"
    "window (pmem s) (cr3 s) PD R" "page_directory_index PD = 1022"
  using assms address_spaceD(1) unfolding loading_def off_tables_def editable_def by blast+

lemma loading_fill:
  assumes L: "loading s PD R F" and f: "f \<in> F" and pm: "\<forall>a. \<not> in_table f a \<longrightarrow> pm a = pmem s a"
  shows "loading (s\<lparr>pmem := pm\<rparr>) PD R F" "below_recursive x \<Longrightarrow> translate pm False R x = translate (pmem s) False R x"
proof -
  note D = loadingD [OF L]
  note wf = bounce_readyD(1) [OF D(1)]
  have cur: "pm (entry_at (cr3 s) k) = pmem s (entry_at (cr3 s) k)" if "k < 1024" for k
    using pm in_table_other [OF D(9) [OF f] machine_wfD(4) [OF wf] that] D(7) [OF f] by blast
  have dir: "pm (entry_at R k) = pmem s (entry_at R k)" if "k < 1024" for k
    using pm in_table_other [OF D(9) [OF f] D(5) that] D(10) [OF f] by blast
  have tab: "pm (entry_at (bounce_table s) (bounce_slot i)) = pmem s (entry_at (bounce_table s) (bounce_slot i))" if "i < 16" for i
    using pm in_table_other [OF D(9) [OF f] bounce_readyD(4) [OF D(1)] bounce_index(4) [OF that]] D(8) [OF f] by blast
  have "bounce_ready (s\<lparr>pmem := pm\<rparr>)"
    using bounce_ready_cong(1) [OF D(1) cur tab machine_wfD(2) [OF wf] order_refl] by simp
  moreover have "address_space pm R (used_frames (memory_bitmap s))" by (rule address_space_cong [OF D(3) dir])
  moreover have "companion pm (cr3 s) R"
    using D(4) unfolding companion_def by (simp add: cur dir index_1023)
  moreover have "bounce_table (s\<lparr>pmem := pm\<rparr>) = bounce_table s" using cur [of 1022] by (simp add: bounce_table_def)
  moreover have "off_tables pm R g" if "g \<in> F" for g
    using D(6) [OF that] dir by (simp add: off_tables_def index_1023)
  moreover have "window pm (cr3 s) PD R"
  proof -
    have "pm (entry_at (bounce_table s) (page_table_index PD)) = pmem s (entry_at (bounce_table s) (page_table_index PD))"
      using pm in_table_other [OF D(9) [OF f] bounce_readyD(4) [OF D(1)] page_index_bounds(2)] D(8) [OF f] by blast
    then show ?thesis using D(11) cur [of 1022] unfolding window_def leaf_def D(12) bounce_table_def by simp
  qed
  ultimately show "loading (s\<lparr>pmem := pm\<rparr>) PD R F" using D(2,7,8,12) by (simp add: loading_def editable_def)
  show "translate pm False R x = translate (pmem s) False R x" if "below_recursive x"
    by (rule off_tables_translate [OF D(6) [OF f] D(5) pm that])
qed

lemma loading_slot:
  assumes L: "loading s PD R F" and f: "f \<in> F" and p: "ALIGN_DOWN p = f"
  obtains i where "bounce_alloc p s = Some (bounce_vaddr i, slot_view i f s (pmem s))" "filling s i f" "bounce_vaddr i \<noteq> 0"
proof -
  note D = loadingD [OF L]
  from D(1,2) obtain i where i: "i < 16" "bounce_pages_used s i = 0" "bounce_alloc p s = Some (bounce_vaddr i, with_slot i p s)"
    by (rule bounce_alloc_free_slot)
  have "with_slot i p s = slot_view i f s (pmem s)" using p D(9) [OF f] by (simp add: with_slot_def bounce_entry_def)
  moreover have "filling s i f" using i D(1) D(7-9) [OF f] by (simp add: filling_def)
  ultimately show thesis using that i(3) bounce_index(7) [OF i(1)] by simp
qed

text \<open>One piece of a page, written through a bounce page.\<close>

lemma piece_written:
  assumes fill: "filling s i f" and k: "k + length cs \<le> 4096"
  shows "do { s \<leftarrow> vwrite_bytes (bounce_vaddr i + of_nat k) cs (slot_view i f s (pmem s)); bounce_free (bounce_vaddr i) s } =
    Some (s\<lparr>pmem := put_bytes f k cs (pmem s)\<rparr>)"
  using vwrite_bytes_window [OF fill _ k, of "pmem s"] slot_view_done [OF fill, of "put_bytes f k cs (pmem s)"] put_bytes_outside [OF k]
  by simp

text \<open>The bytes \<open>cs\<close> are in the address space \<open>R\<close> from \<open>va\<close> on, and no byte of memory but theirs has changed.\<close>

definition shows_bytes :: "(u32 \<Rightarrow> u32) \<Rightarrow> (u32 \<Rightarrow> u32) \<Rightarrow> u32 \<Rightarrow> u32 \<Rightarrow> char list \<Rightarrow> bool" where
  "shows_bytes pm pm' R va cs \<longleftrightarrow>
     (\<forall>j < length cs. map_option (phys_byte pm') (translate pm' False R (va + of_nat j)) = Some (of_char (cs ! j))) \<and>
     (\<forall>p. (\<forall>j < length cs. translate pm False R (va + of_nat j) \<noteq> Some p) \<longrightarrow> phys_byte pm' p = phys_byte pm p)"

text \<open>The range is mapped to the frames \<open>F\<close>, each byte to one of its own.\<close>

definition range_in :: "(u32 \<Rightarrow> u32) \<Rightarrow> u32 \<Rightarrow> u32 set \<Rightarrow> u32 \<Rightarrow> nat \<Rightarrow> bool" where
  "range_in pm R F va n \<longleftrightarrow> unat va + n \<le> 0xC0000000 \<and>
     (\<forall>j < n. \<exists>f \<in> F. translate pm False R (va + of_nat j) = Some (f + page_offset (va + of_nat j))) \<and>
     (\<forall>j < n. \<forall>k < n. translate pm False R (va + of_nat j) = translate pm False R (va + of_nat k) \<longrightarrow> j = k)"

lemma user_below:
  assumes "unat x < 0xC0000000"
  shows "below_recursive x" "page_directory_index x < 1022"
proof -
  have "unat (page_directory_index x) < 768" using assms by (simp add: word_to_nat)
  then show "below_recursive x" "page_directory_index x < 1022" by (auto simp: below_recursive_def word_less_nat_alt)
qed

lemma page_chunk_unat:
  assumes "n \<noteq> 0"
  shows "unat (page_chunk va n) = min (4096 - unat va mod 4096) (unat n)" "0 < unat (page_chunk va n)"
    "unat (n - page_chunk va n) = unat n - unat (page_chunk va n)"
proof -
  have o: "unat (va AND (PAGE_SIZE - 1)) = unat va mod 4096"
    using unat_page_offset [of va] by (simp add: page_offset_def PAGE_SIZE_def)
  have le: "va AND (PAGE_SIZE - 1) \<le> PAGE_SIZE" using o by (simp add: word_le_nat_alt PAGE_SIZE_def)
  have "unat (PAGE_SIZE - (va AND (PAGE_SIZE - 1))) = 4096 - unat va mod 4096"
    unfolding unat_sub [OF le] o by (simp add: PAGE_SIZE_def)
  then show c: "unat (page_chunk va n) = min (4096 - unat va mod 4096) (unat n)"
    by (auto simp: page_chunk_def Let_def word_less_nat_alt min_def)
  show "0 < unat (page_chunk va n)" unfolding c using assms by (simp add: unat_gt_0)
  show "unat (n - page_chunk va n) = unat n - unat (page_chunk va n)" using c by (intro unat_sub) (simp add: word_le_nat_alt)
qed

lemma shows_bytes_append:
  assumes s1: "shows_bytes pm pm1 R va cs" and s2: "shows_bytes pm1 pm2 R (va + of_nat (length cs)) ds"
    and r: "range_in pm R F va (length cs + length ds)"
    and T: "\<And>x. below_recursive x \<Longrightarrow> translate pm1 False R x = translate pm False R x"
      "\<And>x. below_recursive x \<Longrightarrow> translate pm2 False R x = translate pm1 False R x"
  shows "shows_bytes pm pm2 R va (cs @ ds)"
proof -
  have x: "below_recursive (va + of_nat j)" if "j < length cs + length ds" for j
    using r that by (intro user_below) (simp add: range_in_def unat_offset)
  have T': "translate pm1 False R (va + of_nat j) = translate pm False R (va + of_nat j)"
    "translate pm2 False R (va + of_nat j) = translate pm False R (va + of_nat j)" if "j < length cs + length ds" for j
    using T x [OF that] by simp_all
  have shift: "va + of_nat (length cs) + of_nat j = va + of_nat (length cs + j)" for j by simp
  have inj: "j = k" if "translate pm False R (va + of_nat j) = translate pm False R (va + of_nat k)"
    "j < length cs + length ds" "k < length cs + length ds" for j k using r that unfolding range_in_def by blast
  have m1: "map_option (phys_byte pm1) (translate pm1 False R (va + of_nat j)) = Some (of_char (cs ! j))" if "j < length cs" for j
    using s1 that unfolding shows_bytes_def by blast
  have m2: "map_option (phys_byte pm2) (translate pm2 False R (va + of_nat (length cs + j))) = Some (of_char (ds ! j))" if "j < length ds" for j
    using s2 that unfolding shows_bytes_def shift by blast
  have k1: "phys_byte pm1 p = phys_byte pm p" if "\<forall>j < length cs. translate pm False R (va + of_nat j) \<noteq> Some p" for p
    using s1 that unfolding shows_bytes_def by blast
  have k2: "phys_byte pm2 p = phys_byte pm1 p" if "\<forall>j < length ds. translate pm False R (va + of_nat (length cs + j)) \<noteq> Some p" for p
  proof -
    have "\<forall>j < length ds. translate pm1 False R (va + of_nat (length cs + j)) \<noteq> Some p"
      using that T'(1) [of "length cs + _"] by (metis add_less_cancel_left)
    then show ?thesis using s2 unfolding shows_bytes_def shift by blast
  qed
  have "map_option (phys_byte pm2) (translate pm2 False R (va + of_nat j)) = Some (of_char ((cs @ ds) ! j))"
    if j: "j < length (cs @ ds)" for j
  proof (cases "j < length cs")
    case True
    obtain p where p: "translate pm False R (va + of_nat j) = Some p" "phys_byte pm1 p = of_char (cs ! j)"
      using m1 [OF True] T'(1) [of j] j by auto
    have "\<forall>k < length ds. translate pm False R (va + of_nat (length cs + k)) \<noteq> Some p"
      using inj [of j "length cs + _"] p(1) True by fastforce
    then show ?thesis using k2 p T'(2) [of j] j True by (simp add: nth_append)
  next
    case False
    then show ?thesis using m2 [of "j - length cs"] j by (simp add: nth_append)
  qed
  moreover have "phys_byte pm2 p = phys_byte pm p" if n: "\<forall>j < length (cs @ ds). translate pm False R (va + of_nat j) \<noteq> Some p" for p
  proof -
    have "\<forall>j < length cs. translate pm False R (va + of_nat j) \<noteq> Some p" using n by simp
    moreover have "\<forall>j < length ds. translate pm False R (va + of_nat (length cs + j)) \<noteq> Some p" using n by (metis length_append add_less_cancel_left)
    ultimately show ?thesis using k1 [of p] k2 [of p] by metis
  qed
  ultimately show ?thesis unfolding shows_bytes_def by blast
qed

lemma page_translate:
  assumes "ALIGN_DOWN R = R" "ALIGN_DOWN x = ALIGN_DOWN y" "translate pm False R y = Some (f + page_offset y)"
  shows "translate pm False R x = Some (f + page_offset x)"
  using assms(2,3) unfolding translate_leaf [OF assms(1)] same_page_iff [symmetric] by auto

lemma range_in_cong:
  assumes r: "range_in pm R F va n" and c: "c \<le> n"
    and T: "\<And>x. below_recursive x \<Longrightarrow> translate pm' False R x = translate pm False R x"
  shows "range_in pm' R F (va + of_nat c) (n - c)"
proof -
  have hi: "unat va + n \<le> 0xC0000000" using r by (simp add: range_in_def)
  have u: "unat (va + of_nat c) = unat va + c" using hi c by (intro unat_offset) simp
  have shift: "va + of_nat c + of_nat j = va + of_nat (c + j)" for j by simp
  have T': "translate pm' False R (va + of_nat (c + j)) = translate pm False R (va + of_nat (c + j))" if "j < n - c" for j
  proof (rule T, rule user_below)
    show "unat (va + of_nat (c + j)) < 0xC0000000" using hi that by (subst unat_offset) simp_all
  qed
  have "\<exists>f \<in> F. translate pm' False R (va + of_nat (c + j)) = Some (f + page_offset (va + of_nat (c + j)))" if j: "j < n - c" for j
    unfolding T' [OF j] using r j unfolding range_in_def by (metis less_diff_conv add.commute)
  moreover have "j = k" if "j < n - c" "k < n - c"
      "translate pm' False R (va + of_nat (c + j)) = translate pm' False R (va + of_nat (c + k))" for j k
  proof -
    have "c + j < n" "c + k < n" using that(1,2) by simp_all
    then have "c + j = c + k" using r that(3) unfolding T' [OF that(1)] T' [OF that(2)] range_in_def by blast
    then show ?thesis by simp
  qed
  ultimately show ?thesis using hi u c unfolding range_in_def shift by auto
qed

lemma piece_shows:
  assumes L: "loading s PD R F" and r: "range_in (pmem s) R F va n"
    and c: "length cs \<le> n" "0 < length cs" "unat va mod 4096 + length cs \<le> 4096"
  obtains f where "f \<in> F" "translate (pmem s) False R va = Some (f + page_offset va)"
    "loading (s\<lparr>pmem := put_bytes f (unat va mod 4096) cs (pmem s)\<rparr>) PD R F"
    "\<And>x. below_recursive x \<Longrightarrow> translate (put_bytes f (unat va mod 4096) cs (pmem s)) False R x = translate (pmem s) False R x"
    "shows_bytes (pmem s) (put_bytes f (unat va mod 4096) cs (pmem s)) R va cs"
    "range_in (put_bytes f (unat va mod 4096) cs (pmem s)) R F (va + of_nat (length cs)) (n - length cs)"
proof -
  let ?o = "unat va mod 4096"
  have hi: "unat va + n \<le> 0xC0000000" using r by (simp add: range_in_def)
  have pos: "0 < n" using c by linarith
  obtain f where f: "f \<in> F" "translate (pmem s) False R va = Some (f + page_offset va)"
  proof -
    have "\<exists>f \<in> F. translate (pmem s) False R (va + of_nat 0) = Some (f + page_offset (va + of_nat 0))"
      using r pos unfolding range_in_def by blast
    then show thesis using that by auto
  qed
  note fa = loadingD(9) [OF L f(1)]
  have u: "unat (va + of_nat j) = unat va + j" if "j \<le> n" for j using hi that by (intro unat_offset) simp
  have below: "below_recursive (va + of_nat j)" if "j < n" for j using hi u [of j] that by (intro user_below) simp
  have same: "translate (pmem s) False R (va + of_nat j) = Some (f + of_nat (?o + j))" if j: "j < length cs" for j
  proof -
    have o: "(unat va + j) mod 4096 = ?o + j" "(unat va + j) div 4096 = unat va div 4096"
    proof -
      have e: "unat va + j = (?o + j) + unat va div 4096 * 4096" using div_mult_mod_eq [of "unat va" 4096] by linarith
      have lt: "?o + j < 4096" using c(3) j by linarith
      show "(unat va + j) mod 4096 = ?o + j" by (subst e) (use lt in \<open>simp only: mod_mult_self1 mod_less\<close>)
      have "(?o + j + unat va div 4096 * 4096) div 4096 = unat va div 4096 + (?o + j) div 4096" by (rule div_mult_self1) simp
      then show "(unat va + j) div 4096 = unat va div 4096" unfolding e [symmetric] div_less [OF lt] by simp
    qed
    have uj: "unat (va + of_nat j) = unat va + j" using u c(1) j by simp
    have a: "ALIGN_DOWN (va + of_nat j) = ALIGN_DOWN va"
      using o(2) uj by (intro unsigned_word_eqI [where ?'a = nat]) (simp only: unat_ALIGN_DOWN)
    have "unat (of_nat (?o + j) :: u32) = ?o + j" using c(3) j by (intro unat_of_nat_u32) linarith
    then have "page_offset (va + of_nat j) = of_nat (?o + j)"
      using o(1) uj by (intro unsigned_word_eqI [where ?'a = nat]) (simp only: unat_page_offset)
    then show ?thesis using page_translate [OF loadingD(5) [OF L] a f(2)] by simp
  qed
  let ?pm = "put_bytes f ?o cs (pmem s)"
  have out: "\<forall>a. \<not> in_table f a \<longrightarrow> ?pm a = pmem s a" using put_bytes_outside [OF c(3)] by blast
  note fill = loading_fill [OF L f(1) out]
  have at: "unat (f + of_nat (?o + j)) = unat f + ?o + j" if "j < length cs" for j
    using split_word(3) [OF fa, of "?o + j"] c(3) that by simp
  have "shows_bytes (pmem s) ?pm R va cs"
    unfolding shows_bytes_def
  proof (intro conjI allI impI)
    fix j assume j: "j < length cs"
    have "translate ?pm False R (va + of_nat j) = Some (f + of_nat (?o + j))" using fill(2) [OF below] j c(1) same [OF j] by simp
    then show "map_option (phys_byte ?pm) (translate ?pm False R (va + of_nat j)) = Some (of_char (cs ! j))"
      using phys_put_bytes [OF fa c(3), of "pmem s" "f + of_nat (?o + j)"] at [OF j] j by (simp only: option.map) simp
  next
    fix p assume p: "\<forall>j < length cs. translate (pmem s) False R (va + of_nat j) \<noteq> Some p"
    have "\<not> (unat f + ?o \<le> unat p \<and> unat p < unat f + ?o + length cs)"
    proof
      assume b: "unat f + ?o \<le> unat p \<and> unat p < unat f + ?o + length cs"
      define j where "j = unat p - (unat f + ?o)"
      have j: "j < length cs" "unat p = unat f + ?o + j" using b by (auto simp: j_def)
      then have "p = f + of_nat (?o + j)" using at [OF j(1)] by (intro unsigned_word_eqI [where ?'a = nat]) simp
      then show False using p same [OF j(1)] j(1) by simp
    qed
    then show "phys_byte ?pm p = phys_byte (pmem s) p" using phys_put_bytes [OF fa c(3), of "pmem s" p] by (simp only: if_False)
  qed
  moreover have "range_in ?pm R F (va + of_nat (length cs)) (n - length cs)" by (rule range_in_cong [OF r c(1) fill(2)])
  ultimately show thesis using that [OF f fill(1)] fill(2) by blast
qed

lemma page_off_nat: "va AND (PAGE_SIZE - 1) = of_nat (unat va mod 4096)" for va :: u32
proof (rule unsigned_word_eqI [where ?'a = nat])
  have "va AND (PAGE_SIZE - 1) = page_offset va" by (simp add: page_offset_def PAGE_SIZE_def)
  moreover have "unat (of_nat (unat va mod 4096) :: u32) = unat va mod 4096" by (rule unat_of_nat_u32) (rule less_trans [of _ 4096], simp_all)
  ultimately show "unat (va AND (PAGE_SIZE - 1)) = unat (of_nat (unat va mod 4096) :: u32)" by (simp only: unat_page_offset)
qed

lemma frame_page: "ALIGN_DOWN f = f \<Longrightarrow> ALIGN_DOWN (f + page_offset va) = f"
  using split_word(4) [of f "unat va mod 4096"] page_off_nat [of va] by (simp add: page_offset_def PAGE_SIZE_def)

text \<open>The zeros behind the contents of a segment.\<close>

lemma zero_segment_shows:
  assumes "loading s PD R F" "range_in (pmem s) R F va (unat n)"
  shows "\<exists>pm. zero_segment R va n s = Some (ELF_RESULT_OK, s\<lparr>pmem := pm\<rparr>) \<and> loading (s\<lparr>pmem := pm\<rparr>) PD R F \<and>
    (\<forall>x. below_recursive x \<longrightarrow> translate pm False R x = translate (pmem s) False R x) \<and>
    shows_bytes (pmem s) pm R va (replicate (unat n) nul)"
  using assms
proof (induction "unat n" arbitrary: va n s rule: less_induct)
  case less
  show ?case
  proof (cases "n = 0")
    case True
    then show ?thesis using less.prems(1) by (intro exI [of _ "pmem s"]) (simp add: zero_segment.simps shows_bytes_def)
  next
    case False
    define c where "c = unat (page_chunk va n)"
    note C = page_chunk_unat [OF False, of va, folded c_def]
    let ?cs = "replicate c nul"
    have "unat va mod 4096 < 4096" by simp
    then have c: "length ?cs \<le> unat n" "0 < length ?cs" "unat va mod 4096 + length ?cs \<le> 4096" using C(1,2) by (simp_all add: min_def split: if_splits)
    obtain f where f: "f \<in> F" "translate (pmem s) False R va = Some (f + page_offset va)"
      "loading (s\<lparr>pmem := put_bytes f (unat va mod 4096) ?cs (pmem s)\<rparr>) PD R F"
      "\<And>x. below_recursive x \<Longrightarrow> translate (put_bytes f (unat va mod 4096) ?cs (pmem s)) False R x = translate (pmem s) False R x"
      "shows_bytes (pmem s) (put_bytes f (unat va mod 4096) ?cs (pmem s)) R va ?cs"
      "range_in (put_bytes f (unat va mod 4096) ?cs (pmem s)) R F (va + of_nat c) (unat n - c)"
      using piece_shows [OF less.prems c] by auto
    let ?pm = "put_bytes f (unat va mod 4096) ?cs (pmem s)"
    note D = loadingD [OF less.prems(1)]
    have "0 < unat n" using c by linarith
    then have va: "page_directory_index va < 1022" using less.prems(2) unfolding range_in_def by (intro user_below) linarith
    from D(1-4) va have v: "memory_paging_virtual_to_physical R va s = Some (f + page_offset va, s)"
      by (cases rule: virtual_to_physical_cases) (use f(2) in simp_all)
    obtain i where i: "bounce_alloc (f + page_offset va) s = Some (bounce_vaddr i, slot_view i f s (pmem s))" "filling s i f" "bounce_vaddr i \<noteq> 0"
      by (rule loading_slot [OF less.prems(1) f(1) frame_page [OF loadingD(9) [OF less.prems(1) f(1)]]])
    have w: "do { s \<leftarrow> vwrite_bytes (bounce_vaddr i + of_nat (unat va mod 4096)) ?cs (slot_view i f s (pmem s)); bounce_free (bounce_vaddr i) s } =
        Some (s\<lparr>pmem := ?pm\<rparr>)" by (rule piece_written [OF i(2) c(3)])
    have n: "unat (n - page_chunk va n) = unat n - c" "of_nat c = page_chunk va n" using C(3) by (simp_all add: c_def)
    have pg: "\<And>v. bind (memory_paging_virtual_to_physical R va s) v = v (f + page_offset va, s)"
      "\<And>v. bind (bounce_alloc (f + page_offset va) s) v = v (bounce_vaddr i, slot_view i f s (pmem s))" by (simp_all add: v i(1))
    have step: "zero_segment R va n s = zero_segment R (va + page_chunk va n) (n - page_chunk va n) (s\<lparr>pmem := ?pm\<rparr>)"
      using w unfolding zero_segment.simps [of R va n s] Let_def pg prod.case page_off_nat c_def [symmetric]
      by (simp only: False i(3) if_False bind_assoc [symmetric] bind.bind_lunit)
    define s1 where "s1 = s\<lparr>pmem := ?pm\<rparr>"
    have p1: "pmem s1 = ?pm" by (simp add: s1_def)
    have "unat n - c < unat n" using c C(1) by simp
    from less.hyps [of "n - page_chunk va n" s1 "va + page_chunk va n", unfolded p1 n(1), OF this] obtain pm
      where pm: "zero_segment R (va + page_chunk va n) (n - page_chunk va n) s1 = Some (ELF_RESULT_OK, s1\<lparr>pmem := pm\<rparr>)"
        "loading (s1\<lparr>pmem := pm\<rparr>) PD R F" "\<And>x. below_recursive x \<Longrightarrow> translate pm False R x = translate ?pm False R x"
        "shows_bytes ?pm pm R (va + page_chunk va n) (replicate (unat n - c) nul)"
      using f(3) [folded s1_def] f(6) [unfolded n(2)] by blast
    have len: "length ?cs + length (replicate (unat n - c) nul) = unat n" using C(1) by simp
    have "shows_bytes (pmem s) pm R va (?cs @ replicate (unat n - c) nul)"
    proof (rule shows_bytes_append [OF f(5) _ _ f(4) pm(3)])
      show "shows_bytes ?pm pm R (va + of_nat (length ?cs)) (replicate (unat n - c) nul)" using pm(4) n(2) by simp
      show "range_in (pmem s) R F va (length ?cs + length (replicate (unat n - c) nul))" using less.prems(2) len by (simp only:)
    qed
    moreover have "?cs @ replicate (unat n - c) nul = replicate (unat n) nul" using len by (simp add: replicate_add [symmetric])
    moreover have "s1\<lparr>pmem := pm\<rparr> = s\<lparr>pmem := pm\<rparr>" by (simp add: s1_def)
    ultimately show ?thesis using step [folded s1_def] pm(1-3) f(4) by (intro exI [of _ pm]) (simp only:, blast)
  qed
qed

section \<open>Reading the file\<close>

text \<open>The node is a file of the ram file system with the contents \<open>data\<close>, in the kernel heap.\<close>

definition program_file :: "'a kernel_fs_scheme \<Rightarrow> u32 \<Rightarrow> char list \<Rightarrow> bool" where
  "program_file s node data \<longleftrightarrow> node_type (vfs_nodes s node) = VFS_NODE_TYPE_FILE \<and>
     node_operations (vfs_nodes s node) = ramfs_node_operations \<and> file_data s (fs_data (vfs_nodes s node)) = data \<and>
     (let n = ramfs_nodes s (fs_data (vfs_nodes s node)) in
      0xF0000000 \<le> unat (ramfs_data n) \<and> unat (ramfs_data n) + unat (ramfs_data_size n) \<le> 0xF7FFF000)"

lemma read_program:
  assumes p: "program_file s node data" and b: "0xF7FFF000 \<le> unat buf" "unat buf + unat len \<le> 2 ^ 32"
    and l: "len \<noteq> 0" "unat off + unat len \<le> length data"
  obtains h where "vfs_read_data node off buf len s = (RESOURCE_RESULT_OK, len, s\<lparr>heap_data := h\<rparr>)"
    "bytes_at h buf (unat len) = take (unat len) (drop (unat off) data)" "program_file (s\<lparr>heap_data := h\<rparr>) node data"
proof -
  let ?n = "fs_data (vfs_nodes s node)"
  let ?d = "ramfs_data (ramfs_nodes s ?n)" and ?k = "ramfs_data_size (ramfs_nodes s ?n)"
  have P: "node_type (vfs_nodes s node) = VFS_NODE_TYPE_FILE" "node_operations (vfs_nodes s node) = ramfs_node_operations"
    "data = bytes_at (heap_data s) ?d (unat ?k)" "0xF0000000 \<le> unat ?d" "unat ?d + unat ?k \<le> 0xF7FFF000"
    using p by (auto simp: program_file_def file_data_def Let_def)
  have k: "unat off + unat len \<le> unat ?k" using l(2) P(3) by simp
  have "0 < unat len" using l(1) by (simp add: unat_gt_0)
  then have lt: "\<not> ?k \<le> off" using k by (simp add: word_le_nat_alt)
  then have "unat (?k - off) = unat ?k - unat off" by (simp add: unat_sub)
  then have min: "(if len < ?k - off then len else ?k - off) = len"
    using k word_less_nat_alt [of len "?k - off"] by (auto simp: word_unat_eq_iff)
  have o: "unat (?d + off) = unat ?d + unat off" using P(4,5) k unat_offset [of ?d "unat off"] by simp
  let ?h = "memcpy_loop (unat len) (heap_data s) buf (?d + off)"
  have w: "unat buf + unat len \<le> 2 ^ 32" "unat (?d + off) + unat len \<le> 2 ^ 32" "apart_areas buf (unat len) (?d + off) (unat len)"
    "apart_areas buf (unat len) ?d (unat ?k)" "unat ?d + unat ?k \<le> 2 ^ 32"
    using b P(4,5) k o by (auto simp: apart_areas_def)
  have "buf \<noteq> 0" using b(1) by auto
  then have "vfs_read_data node off buf len s = (RESOURCE_RESULT_OK, len, s\<lparr>heap_data := ?h\<rparr>)"
    using l(1) P(1,2) lt min by (simp add: vfs_read_data_def read_node_def ramfs_read_def Let_def memcpy_def)
  moreover have "bytes_at ?h buf (unat len) = take (unat len) (drop (unat off) data)"
  proof (rule nth_equalityI)
    show "length (bytes_at ?h buf (unat len)) = length (take (unat len) (drop (unat off) data))" using l(2) by simp
    fix i assume "i < length (bytes_at ?h buf (unat len))"
    then show "bytes_at ?h buf (unat len) ! i = take (unat len) (drop (unat off) data) ! i"
      using memcpy_same [OF w(1-3), of i] k P(3) by (simp add: bytes_at_nth add.assoc)
  qed
  moreover have "bytes_at ?h ?d (unat ?k) = bytes_at (heap_data s) ?d (unat ?k)"
    by (auto intro!: nth_equalityI simp: bytes_at_nth memcpy_apart [OF w])
  then have "program_file (s\<lparr>heap_data := ?h\<rparr>) node data" using P by (simp add: program_file_def file_data_def Let_def)
  ultimately show thesis by (rule that)
qed

lemma loading_data: "loading (s\<lparr>heap_data := h\<rparr>) PD R F = loading s PD R F" "filling (s\<lparr>heap_data := h\<rparr>) i f = filling s i f"
  "slot_view i f (s\<lparr>heap_data := h\<rparr>) pm = (slot_view i f s pm)\<lparr>heap_data := h\<rparr>"
  by (simp_all add: loading_def editable_def filling_def bounce_ready_def machine_wf_def bounce_table_def slot_view_def with_slot_def)

lemma program_file_machine: "program_file (slot_view i f s pm) node data = program_file s node data"
  "program_file (s\<lparr>pmem := pm\<rparr>) node data = program_file s node data"
  by (simp_all add: program_file_def slot_view_def with_slot_def file_data_def)

lemma window_high:
  assumes "i < 16" "k < 4096"
  shows "0xF7FFF000 \<le> unat (bounce_vaddr i + of_nat k)" "unat (bounce_vaddr i + of_nat k) = unat (bounce_vaddr i) + k" "unat (bounce_vaddr i) + 4096 \<le> 2 ^ 32"
proof -
  have "page_directory_index (bounce_vaddr i) = 1022" by (rule bounce_index(1) [OF assms(1)])
  then have d: "unat (bounce_vaddr i) div 4194304 = 1022" using unat_page_directory_index [of "bounce_vaddr i"] by simp
  then have lo: "1022 * 4194304 \<le> unat (bounce_vaddr i)" "unat (bounce_vaddr i) < 1023 * 4194304"
    by (metis div_times_less_eq_dividend, metis lessI less_eq_Suc_le div_less_iff_less_mult eval_nat_numeral(3) zero_less_numeral Suc_numeral semiring_norm(5))
  show u: "unat (bounce_vaddr i + of_nat k) = unat (bounce_vaddr i) + k" by (rule split_word(3) [OF bounce_aligned [OF assms(1)] assms(2)])
  show "0xF7FFF000 \<le> unat (bounce_vaddr i + of_nat k)" unfolding u using lo by simp
  show "unat (bounce_vaddr i) + 4096 \<le> 2 ^ 32" using lo by simp
qed

lemma copy_segment_shows:
  fixes s :: "'a kernel_io_scheme"
  assumes "loading s PD R F" "range_in (pmem s) R F va (unat n)" "program_file s node data" "unat off + unat n \<le> length data"
  shows "\<exists>pm h. copy_segment node R off va n s = Some (ELF_RESULT_OK, s\<lparr>pmem := pm, heap_data := h\<rparr>) \<and>
    loading (s\<lparr>pmem := pm, heap_data := h\<rparr>) PD R F \<and> program_file (s\<lparr>pmem := pm, heap_data := h\<rparr>) node data \<and>
    (\<forall>x. below_recursive x \<longrightarrow> translate pm False R x = translate (pmem s) False R x) \<and>
    shows_bytes (pmem s) pm R va (take (unat n) (drop (unat off) data))"
  using assms
proof (induction "unat n" arbitrary: va n off s rule: less_induct)
  case less
  show ?case
  proof (cases "n = 0")
    case True
    then show ?thesis using less.prems(1,3) by (intro exI [of _ "pmem s"] exI [of _ "heap_data s"]) (simp add: copy_segment.simps shows_bytes_def)
  next
    case False
    define c where "c = unat (page_chunk va n)"
    define o' where "o' = unat va mod 4096"
    note C = page_chunk_unat [OF False, of va, folded c_def o'_def]
    let ?cs = "take c (drop (unat off) data)"
    have o4: "o' < 4096" by (simp add: o'_def)
    have cn: "c \<le> unat n" "o' + c \<le> 4096" using C(1) o4 by (simp_all add: min_def split: if_splits)
    have len: "length ?cs = c" using cn less.prems(4) by simp
    have c: "length ?cs \<le> unat n" "0 < length ?cs" "unat va mod 4096 + length ?cs \<le> 4096" unfolding len using cn C(2) by (simp_all add: o'_def)
    obtain f where f: "f \<in> F" "translate (pmem s) False R va = Some (f + page_offset va)"
      "loading (s\<lparr>pmem := put_bytes f o' ?cs (pmem s)\<rparr>) PD R F"
      "\<And>x. below_recursive x \<Longrightarrow> translate (put_bytes f o' ?cs (pmem s)) False R x = translate (pmem s) False R x"
      "shows_bytes (pmem s) (put_bytes f o' ?cs (pmem s)) R va ?cs"
      "range_in (put_bytes f o' ?cs (pmem s)) R F (va + of_nat c) (unat n - c)"
      using piece_shows [OF less.prems(1,2) c] unfolding len o'_def by auto
    let ?pm = "put_bytes f o' ?cs (pmem s)"
    note D = loadingD [OF less.prems(1)]
    have "0 < unat n" using c by linarith
    then have va: "page_directory_index va < 1022" using less.prems(2) unfolding range_in_def by (intro user_below) linarith
    from D(1-4) va have v: "memory_paging_virtual_to_physical R va s = Some (f + page_offset va, s)"
      by (cases rule: virtual_to_physical_cases) (use f(2) in simp_all)
    obtain i where i: "bounce_alloc (f + page_offset va) s = Some (bounce_vaddr i, slot_view i f s (pmem s))" "filling s i f" "bounce_vaddr i \<noteq> 0"
      by (rule loading_slot [OF less.prems(1) f(1) frame_page [OF loadingD(9) [OF less.prems(1) f(1)]]])
    note W = window_high [OF fillingD(2) [OF i(2)] o4]
    have nz: "page_chunk va n \<noteq> 0" using C(2) by (auto simp: c_def)
    have room: "unat (bounce_vaddr i + of_nat o') + unat (page_chunk va n) \<le> 2 ^ 32" using W(2,3) cn(2) by (simp add: c_def)
    have off: "unat off + unat (page_chunk va n) \<le> length data" using cn(1) less.prems(4) by (simp add: c_def)
    have pf: "program_file (slot_view i f s (pmem s)) node data" using less.prems(3) by (simp only: program_file_machine)
    obtain h where h: "vfs_read_data node off (bounce_vaddr i + of_nat o') (page_chunk va n) (slot_view i f s (pmem s)) =
          (RESOURCE_RESULT_OK, page_chunk va n, (slot_view i f s (pmem s))\<lparr>heap_data := h\<rparr>)"
        "bytes_at h (bounce_vaddr i + of_nat o') (unat (page_chunk va n)) = take (unat (page_chunk va n)) (drop (unat off) data)"
        "program_file ((slot_view i f s (pmem s))\<lparr>heap_data := h\<rparr>) node data"
      by (rule read_program [OF pf W(1) room nz off])
    define s0 where "s0 = s\<lparr>heap_data := h\<rparr>"
    define s1 where "s1 = s0\<lparr>pmem := ?pm\<rparr>"
    have s0: "filling s0 i f" "pmem s0 = pmem s" "slot_view i f s0 (pmem s) = (slot_view i f s (pmem s))\<lparr>heap_data := h\<rparr>"
      unfolding s0_def loading_data by (simp_all add: i(2))
    have k: "o' + length ?cs \<le> 4096" using cn(2) len by simp
    obtain v' where v': "vwrite_bytes (bounce_vaddr i + of_nat o') ?cs ((slot_view i f s (pmem s))\<lparr>heap_data := h\<rparr>) = Some v'"
        "bounce_free (bounce_vaddr i) v' = Some s1"
      using piece_written [OF s0(1) k] unfolding s0(2,3) s1_def by (auto simp: bind_eq_Some_conv)
    have r: "read_into_window node off (bounce_vaddr i + of_nat o') (page_chunk va n) (slot_view i f s (pmem s)) = Some (RESOURCE_RESULT_OK, v')"
      unfolding read_into_window_def h(1) Let_def prod.case using v'(1) h(2) [folded c_def] by (simp add: c_def)
    have step: "copy_segment node R off va n s = copy_segment node R (off + page_chunk va n) (va + page_chunk va n) (n - page_chunk va n) s1"
      using False v i(1) r v'(2) unfolding copy_segment.simps [of node R off va n s] Let_def page_off_nat o'_def [symmetric]
      by (simp only: if_False bind.bind_lunit prod.case) simp
    have n: "unat (n - page_chunk va n) = unat n - c" "of_nat c = page_chunk va n" using C(3) by (simp_all add: c_def)
    have o: "unat (off + page_chunk va n) = unat off + c"
    proof -
      have "length data < 2 ^ 32" using less.prems(3) unat_u32 [of "ramfs_data_size (ramfs_nodes s (fs_data (vfs_nodes s node)))"]
        by (auto simp: program_file_def file_data_def)
      then show ?thesis using unat_offset [of off c] off n(2) by (simp add: c_def)
    qed
    have p1: "pmem s1 = ?pm" "loading s1 PD R F" "program_file s1 node data"
    proof -
      show "pmem s1 = ?pm" by (simp add: s1_def)
      have "s1 = s\<lparr>pmem := ?pm\<rparr>\<lparr>heap_data := h\<rparr>" by (simp add: s1_def s0_def)
      then show "loading s1 PD R F" using f(3) by (simp only: loading_data)
      have "program_file s0 node data"
        using h(3) unfolding s0(3) [symmetric] program_file_machine .
      then show "program_file s1 node data" unfolding s1_def program_file_machine .
    qed
    have lt: "unat n - c < unat n" by (rule diff_less [OF C(2) \<open>0 < unat n\<close>])
    have fit: "unat off + c + (unat n - c) \<le> length data" using less.prems(4) cn(1) by simp
    from less.hyps [of "n - page_chunk va n" s1 "va + page_chunk va n" "off + page_chunk va n", unfolded p1(1) n(1) o, OF lt p1(2) _ p1(3) fit]
    obtain pm h' where pm: "copy_segment node R (off + page_chunk va n) (va + page_chunk va n) (n - page_chunk va n) s1 =
          Some (ELF_RESULT_OK, s1\<lparr>pmem := pm, heap_data := h'\<rparr>)"
        "loading (s1\<lparr>pmem := pm, heap_data := h'\<rparr>) PD R F" "program_file (s1\<lparr>pmem := pm, heap_data := h'\<rparr>) node data"
        "\<And>x. below_recursive x \<Longrightarrow> translate pm False R x = translate ?pm False R x"
        "shows_bytes ?pm pm R (va + page_chunk va n) (take (unat n - c) (drop (unat off + c) data))"
      using f(6) [unfolded n(2)] by blast
    let ?ds = "take (unat n - c) (drop (unat off + c) data)"
    have split: "?cs @ ?ds = take (unat n) (drop (unat off) data)"
      using cn(1) take_add [of c "unat n - c" "drop (unat off) data"] by (simp add: add.commute)
    have ld: "length ?cs + length ?ds = unat n" using len cn(1) less.prems(4) by simp
    have "shows_bytes (pmem s) pm R va (?cs @ ?ds)"
    proof (rule shows_bytes_append [OF f(5) _ _ f(4) pm(4)])
      show "shows_bytes ?pm pm R (va + of_nat (length ?cs)) ?ds" using pm(5) unfolding len n(2) .
      show "range_in (pmem s) R F va (length ?cs + length ?ds)" using less.prems(2) unfolding ld .
    qed
    moreover have "s1\<lparr>pmem := pm, heap_data := h'\<rparr> = s\<lparr>pmem := pm, heap_data := h'\<rparr>" by (simp add: s1_def s0_def)
    ultimately show ?thesis using step pm(1-4) f(4) unfolding split by (intro exI [of _ pm] exI [of _ h']) (simp only:, blast)
  qed
qed

section \<open>Mapping the pages\<close>

text \<open>The frames \<open>F\<close> are in use and none of them is a table.\<close>

definition frames_kept :: "'a machine_scheme \<Rightarrow> u32 \<Rightarrow> u32 set \<Rightarrow> bool" where
  "frames_kept s R F \<longleftrightarrow> (\<forall>f \<in> F. f \<in> used_frames (memory_bitmap s) \<and> off_tables (pmem s) R f \<and> f \<noteq> cr3 s \<and> f \<noteq> bounce_table s)"

lemma loading_kept: "editable s PD R \<Longrightarrow> page_directory_index PD = 1022 \<Longrightarrow> frames_kept s R F \<Longrightarrow> loading s PD R F"
  by (auto simp: frames_kept_def loading_def)

lemma map_keeps:
  assumes ed: "editable s PD R" and PD: "page_directory_index PD = 1022" and d: "page_directory_index va < 1022"
    and m: "memory_paging_map PD pa va flags s = Some (MEMORY_PAGING_RESULT_OK, s\<lparr>pmem := pm, memory_bitmap := b\<rparr>)"
  shows "editable (s\<lparr>pmem := pm, memory_bitmap := b\<rparr>) PD R" "used_frames (memory_bitmap s) \<subseteq> used_frames b"
    "frames_kept s R F \<Longrightarrow> frames_kept (s\<lparr>pmem := pm, memory_bitmap := b\<rparr>) R F"
proof -
  let ?d = "page_directory_index va" and ?T = "ALIGN_DOWN (pm (entry_at R (page_directory_index va)))"
  note E = editableD [OF ed]
  have d1: "?d < 1023" "?d < 1024" using d by (auto intro: less_trans)
  have sw: "self_window s PD R"
    using companionD [OF E(6)] E(6) unfolding self_window_def PD companion_def by auto
  have ne: "page_directory_index va \<noteq> page_directory_index PD" using d PD by auto
  have eq: "pm' = pm" "b' = b" if "s\<lparr>pmem := pm', memory_bitmap := b'\<rparr> = s\<lparr>pmem := pm, memory_bitmap := b\<rparr>" for pm' b'
    using arg_cong [OF that, of pmem] arg_cong [OF that, of memory_bitmap] by simp_all
  obtain r pm1 b1 where r: "memory_paging_map PD pa va flags s = Some (r, s\<lparr>pmem := pm1, memory_bitmap := b1\<rparr>)"
    "editable (s\<lparr>pmem := pm1, memory_bitmap := b1\<rparr>) PD R"
    by (rule memory_paging_map_keeps_editable [OF ed sw d ne, where pa = pa and flags = flags])
  have "s\<lparr>pmem := pm1, memory_bitmap := b1\<rparr> = s\<lparr>pmem := pm, memory_bitmap := b\<rparr>" using r(1) m by (simp only: option.inject prod.inject)
  then show ed': "editable (s\<lparr>pmem := pm, memory_bitmap := b\<rparr>) PD R" using r(2) by (simp only:)
  have k: "leaf_updated (pmem s) pm R ?d (page_table_index va) (Some (pa OR flags OR PAGE_PRESENT)) \<and>
      address_space pm R (used_frames b) \<and> companion pm (cr3 s) R \<and> used_frames (memory_bitmap s) \<subseteq> used_frames b \<and>
      (\<forall>a. ALIGN_DOWN a \<in> used_frames (memory_bitmap s) \<longrightarrow> a \<noteq> entry_at R ?d \<longrightarrow> a \<noteq> entry_at ?T (page_table_index va) \<longrightarrow> pm a = pmem s a) \<and>
      (?T \<notin> used_frames (memory_bitmap s) \<or> entry_present (pmem s (entry_at R ?d)) \<and> ?T = ALIGN_DOWN (pmem s (entry_at R ?d)))"
    using ed d
  proof (cases rule: memory_paging_map_cases [where pa = pa and flags = flags])
    case fail
    then have "MEMORY_PAGING_RESULT_ALLOCATION_ERROR = MEMORY_PAGING_RESULT_OK" using m by (simp only: option.inject prod.inject)
    then show ?thesis by simp
  next
    case (ok pm' b')
    then have e: "s\<lparr>pmem := pm', memory_bitmap := b'\<rparr> = s\<lparr>pmem := pm, memory_bitmap := b\<rparr>" using m by (simp only: option.inject prod.inject)
    show ?thesis using ok(2,4-8) unfolding eq [OF e] by blast
  qed
  note k = k [THEN conjunct1] k [THEN conjunct2, THEN conjunct1] k [THEN conjunct2, THEN conjunct2, THEN conjunct1]
    k [THEN conjunct2, THEN conjunct2, THEN conjunct2, THEN conjunct1]
    k [THEN conjunct2, THEN conjunct2, THEN conjunct2, THEN conjunct2, THEN conjunct1, rule_format]
    k [THEN conjunct2, THEN conjunct2, THEN conjunct2, THEN conjunct2, THEN conjunct2]
  show "used_frames (memory_bitmap s) \<subseteq> used_frames b" by (rule k(4))
  have p: "entry_present (pm (entry_at R ?d))"
    using k(1) d1 page_index_bounds(2) [of va] by (auto simp: leaf_updated_def leaf_def Let_def split: if_splits)
  have T: "?T \<noteq> cr3 s" "?T \<noteq> R" using companionD(1) [OF k(3) d1(1) p] address_spaceD(5) [OF k(2) d1(1) p] by auto
  have cr: "cr3 s \<in> used_frames (memory_bitmap s)" "ALIGN_DOWN (cr3 s) = cr3 s"
    using address_spaceD(2) [OF machine_wfD(3) [OF E(2)]] machine_wfD(4) [OF E(2)] by simp_all
  have R: "R \<in> used_frames (memory_bitmap s)" using address_spaceD(2) [OF E(5)] .
  have same: "pm (entry_at D j) = pmem s (entry_at D j)" if "D \<in> {cr3 s, R}" "j < 1024" "j \<noteq> ?d" for D j
  proof -
    have D: "ALIGN_DOWN D = D" "D \<in> used_frames (memory_bitmap s)" "D \<noteq> ?T" using that(1) cr R E(8) T by auto
    then show ?thesis
      using k(5) [of "entry_at D j"] that E(8) d1 page_index_bounds(2) [of va] by (auto simp: entry_at_frame entry_at_eq_iff)
  qed
  show "frames_kept (s\<lparr>pmem := pm, memory_bitmap := b\<rparr>) R F" if K: "frames_kept s R F"
    unfolding frames_kept_def
  proof
    fix f assume f: "f \<in> F"
    have F: "f \<in> used_frames (memory_bitmap s)" "ALIGN_DOWN f = f" "f \<noteq> R" "f \<noteq> cr3 s" "f \<noteq> bounce_table s"
      "\<And>d. d < 1023 \<Longrightarrow> entry_present (pmem s (entry_at R d)) \<Longrightarrow> ALIGN_DOWN (pmem s (entry_at R d)) \<noteq> f"
      using K f by (auto simp: frames_kept_def off_tables_def)
    have "ALIGN_DOWN (pm (entry_at R e)) \<noteq> f" if e: "e < 1023" "entry_present (pm (entry_at R e))" for e
    proof (cases "e = ?d")
      case True
      then show ?thesis using k(6) F(1) F(6) [OF d1(1)] by auto
    next
      case False
      have "e < 1024" using e(1) by (auto intro: less_trans)
      then show ?thesis using same [of R e] False F(6) [OF e(1)] e(2) by simp
    qed
    moreover have "bounce_table (s\<lparr>pmem := pm, memory_bitmap := b\<rparr>) = bounce_table s"
      using same [of "cr3 s" 1022] d by (auto simp: bounce_table_def)
    ultimately show "f \<in> used_frames (memory_bitmap (s\<lparr>pmem := pm, memory_bitmap := b\<rparr>)) \<and> off_tables (pmem (s\<lparr>pmem := pm, memory_bitmap := b\<rparr>)) R f \<and>
        f \<noteq> cr3 (s\<lparr>pmem := pm, memory_bitmap := b\<rparr>) \<and> f \<noteq> bounce_table (s\<lparr>pmem := pm, memory_bitmap := b\<rparr>)"
      using F k(4) by (auto simp: off_tables_def)
  qed
qed

definition page_list :: "u32 \<Rightarrow> nat \<Rightarrow> u32 list" where
  "page_list a n = map (\<lambda>i. a + of_nat i * PAGE_SIZE) [0..<n]"

lemma page_list_Suc: "page_list a (Suc n) = a # page_list (a + PAGE_SIZE) n"
  by (simp add: page_list_def upt_conv_Cons map_Suc_upt [symmetric] algebra_simps del: upt_Suc)

definition frames_shown :: "(u32 \<Rightarrow> u32) \<Rightarrow> u32 \<Rightarrow> u32 \<Rightarrow> u32 list \<Rightarrow> u32 \<Rightarrow> u32 option" where
  "frames_shown pm R a fs x =
     (if unat a \<le> unat x \<and> unat x < unat a + 4096 * length fs then Some (fs ! ((unat x - unat a) div 4096) + page_offset x)
      else translate pm False R x)"

lemma frames_shown_Cons:
  assumes al: "ALIGN_DOWN a = a" and nx: "unat (a + PAGE_SIZE) = unat a + 4096"
    and T: "translate pm1 False R x = (if ALIGN_DOWN x = a then Some (f + page_offset x) else translate pm False R x)"
  shows "frames_shown pm1 R (a + PAGE_SIZE) fs x = frames_shown pm R a (f # fs) x"
proof -
  note P = same_page_interval [OF al, of x]
  consider (here) "unat a \<le> unat x" "unat x < unat a + 4096" | (later) "unat a + 4096 \<le> unat x" | (below) "unat x < unat a" by linarith
  then show ?thesis
  proof cases
    case later
    then have "(unat x - unat a) div 4096 = Suc ((unat x - (unat a + 4096)) div 4096)" by (subst div_if) (simp add: diff_diff_left)
    then show ?thesis using later P T nx by (simp add: frames_shown_def algebra_simps)
  qed (use P T nx in \<open>simp_all add: frames_shown_def\<close>)
qed

lemma full_bitmap: "\<forall>p < pages b. page_used b p \<Longrightarrow> card (free_pages (memory_bitmap_free f b)) \<le> 1 \<and> free_pages b = {}"
proof
  assume u: "\<forall>p < pages b. page_used b p"
  have "free_pages (memory_bitmap_free f b) \<subseteq> {f div PAGE_SIZE}"
    using u by (auto simp: free_pages_def free_page_used) (simp add: memory_bitmap_free_def Let_def)
  then show "card (free_pages (memory_bitmap_free f b)) \<le> 1" using card_mono [of "{f div PAGE_SIZE}"] by simp
qed (auto simp: free_pages_def)

lemma map_segment_maps:
  assumes "editable s PD R" "page_directory_index PD = 1022" "ALIGN_DOWN flags = 0" "ALIGN_DOWN a = a" "unat a + 4096 * n \<le> 0xC0000000" "frames_kept s R F"
  shows "(\<exists>pm b fs. map_segment PD flags (page_list a n) s = Some (ELF_RESULT_OK, s\<lparr>pmem := pm, memory_bitmap := b\<rparr>) \<and>
      editable (s\<lparr>pmem := pm, memory_bitmap := b\<rparr>) PD R \<and> frames_kept (s\<lparr>pmem := pm, memory_bitmap := b\<rparr>) R (F \<union> set fs) \<and>
      length fs = n \<and> distinct fs \<and> set fs \<inter> used_frames (memory_bitmap s) = {} \<and>
      (\<forall>x. below_recursive x \<longrightarrow> translate pm False R x = frames_shown (pmem s) R a fs x)) \<or>
    (\<exists>s'. map_segment PD flags (page_list a n) s = Some (ELF_RESULT_ALLOCATION_ERROR, s') \<and> card (free_pages (memory_bitmap s')) \<le> 1)"
  using assms
proof (induction n arbitrary: a s F)
  case 0
  then show ?case by (intro disjI1 exI [of _ "pmem s"] exI [of _ "memory_bitmap s"] exI [of _ "[]"]) (auto simp: page_list_def frames_shown_def)
next
  case (Suc n)
  let ?b = "memory_bitmap s"
  note E = editableD [OF Suc.prems(1)]
  from E(2) show ?case
  proof (cases rule: allocate_frame_cases)
    case null
    then show ?thesis using full_bitmap [of ?b] by (intro disjI2 exI [of _ s]) (simp add: page_list_Suc)
  next
    case (frame f b)
    let ?s1 = "s\<lparr>memory_bitmap := b\<rparr>"
    have d: "page_directory_index a < 1022" by (rule user_below) (use Suc.prems(5) in simp)
    have ed1: "editable ?s1 PD R" by (rule editable_bitmap [OF Suc.prems(1) frame(6)]) (use frame(5) in auto)
    from Suc.prems(1) d frame(3,4,6,5) Suc.prems(3) show ?thesis
    proof (cases rule: fresh_page_mapped)
      case fail
      from ed1 d have "\<forall>p < pages b. page_used b p"
        by (cases rule: memory_paging_map_cases [where pa = f and flags = flags]) (use fail in simp_all)
      then show ?thesis using full_bitmap [of b f] frame(1,2) fail
        by (intro disjI2 exI [of _ "free_frame f ?s1"]) (simp add: page_list_Suc free_frame_def)
    next
      case (ok pm b')
      let ?s2 = "s\<lparr>pmem := pm, memory_bitmap := b'\<rparr>"
      have m: "memory_paging_map PD f a flags ?s1 = Some (MEMORY_PAGING_RESULT_OK, ?s1\<lparr>pmem := pm, memory_bitmap := b'\<rparr>)" using ok(1) by simp
      have k1: "frames_kept ?s1 R F" using Suc.prems(6) frame(5) by (auto simp: frames_kept_def bounce_table_def)
      note K = map_keeps [OF ed1 Suc.prems(2) d m]
      have e2: "?s1\<lparr>pmem := pm, memory_bitmap := b'\<rparr> = ?s2" by simp
      have f': "f \<in> used_frames b'" using K(2) frame(5) by auto
      have k2: "frames_kept ?s2 R (insert f F)" using K(3) [OF k1] f' ok(3-5) unfolding e2 by (auto simp: frames_kept_def)
      have "unat a + 4096 < 2 ^ 32" using Suc.prems(5) by simp
      note nx = next_page [OF Suc.prems(4) this]
      have "unat (a + PAGE_SIZE) + 4096 * n \<le> 0xC0000000" using nx(2) Suc.prems(5) by simp
      note IH = Suc.IH [OF K(1) [unfolded e2] Suc.prems(2,3) nx(1) this k2]
      have run: "map_segment PD flags (page_list a (Suc n)) s = map_segment PD flags (page_list (a + PAGE_SIZE) n) ?s2"
        using frame(1,2) ok(1) by (simp add: page_list_Suc)
      have sh: "frames_shown pm R (a + PAGE_SIZE) fs x = frames_shown (pmem s) R a (f # fs) x" if "below_recursive x" for x fs
        by (rule frames_shown_Cons [OF Suc.prems(4) nx(2)]) (use ok(6) [OF that] Suc.prems(4) in simp)
      from IH show ?thesis
      proof (elim disjE exE conjE)
        fix pm3 b3 fs
        assume r: "map_segment PD flags (page_list (a + PAGE_SIZE) n) ?s2 = Some (ELF_RESULT_OK, ?s2\<lparr>pmem := pm3, memory_bitmap := b3\<rparr>)"
          "editable (?s2\<lparr>pmem := pm3, memory_bitmap := b3\<rparr>) PD R" "frames_kept (?s2\<lparr>pmem := pm3, memory_bitmap := b3\<rparr>) R (insert f F \<union> set fs)"
          "length fs = n" "distinct fs" "set fs \<inter> used_frames (memory_bitmap ?s2) = {}"
          "\<forall>x. below_recursive x \<longrightarrow> translate pm3 False R x = frames_shown (pmem ?s2) R (a + PAGE_SIZE) fs x"
        have e3: "?s2\<lparr>pmem := pm3, memory_bitmap := b3\<rparr> = s\<lparr>pmem := pm3, memory_bitmap := b3\<rparr>" by simp
        have u: "used_frames ?b \<subseteq> used_frames b'" using K(2) frame(5) by auto
        have fs: "length (f # fs) = Suc n" "distinct (f # fs)" "set (f # fs) \<inter> used_frames ?b = {}" "F \<union> set (f # fs) = insert f F \<union> set fs"
          using r(4-6) f' u frame(4) by auto
        have T: "\<forall>x. below_recursive x \<longrightarrow> translate pm3 False R x = frames_shown (pmem s) R a (f # fs) x" using r(7) sh by simp
        show ?thesis
          using r(1-3) fs(1-3) T unfolding run e3 fs(4) [symmetric] by (intro disjI1 exI [of _ pm3] exI [of _ b3] exI [of _ "f # fs"]) blast
      next
        fix s'
        assume "map_segment PD flags (page_list (a + PAGE_SIZE) n) ?s2 = Some (ELF_RESULT_ALLOCATION_ERROR, s')" "card (free_pages (memory_bitmap s')) \<le> 1"
        then show ?thesis unfolding run by blast
      qed
    qed
  qed
qed

lemma range_in_frames:
  assumes fs: "distinct fs" "\<forall>f \<in> set fs. ALIGN_DOWN f = f" and a: "ALIGN_DOWN a = a"
    and T: "\<And>x. below_recursive x \<Longrightarrow> translate pm False R x = frames_shown pm0 R a fs x"
    and r: "unat a \<le> unat va" "unat va + n \<le> unat a + 4096 * length fs" "unat va + n \<le> 0xC0000000"
  shows "range_in pm R (set fs) va n"
proof -
  have u: "unat (va + of_nat j) = unat va + j" if "j < n" for j using r(3) that by (intro unat_offset) simp
  define k where "k = (\<lambda>j. (unat va + j - unat a) div 4096)"
  have kn: "k j < length fs" if "j < n" for j
    using r(1,2) that unfolding k_def by (subst div_less_iff_less_mult) simp_all
  have t: "translate pm False R (va + of_nat j) = Some (fs ! k j + page_offset (va + of_nat j))" if "j < n" for j
  proof -
    have "below_recursive (va + of_nat j)" by (rule user_below) (use u [OF that] r(3) that in simp)
    then show ?thesis using T [of "va + of_nat j"] u [OF that] r(1,2) that by (simp add: frames_shown_def k_def)
  qed
  have "j = i" if j: "j < n" "i < n" and e: "translate pm False R (va + of_nat j) = translate pm False R (va + of_nat i)" for j i
  proof -
    have e': "fs ! k j + page_offset (va + of_nat j) = fs ! k i + page_offset (va + of_nat i)" using e t [OF j(1)] t [OF j(2)] by simp
    have al: "ALIGN_DOWN (fs ! k j) = fs ! k j" "ALIGN_DOWN (fs ! k i) = fs ! k i" using fs(2) kn j by simp_all
    have f: "fs ! k j = fs ! k i" using arg_cong [OF e', of ALIGN_DOWN] unfolding frame_page [OF al(1)] frame_page [OF al(2)] .
    then have kk: "k j = k i" using fs(1) kn j by (simp add: nth_eq_iff_index_eq)
    have "unat (page_offset (va + of_nat j)) = unat (page_offset (va + of_nat i))" using e' f by simp
    then have "(unat va + j) mod 4096 = (unat va + i) mod 4096" unfolding unat_page_offset u [OF j(1)] u [OF j(2)] .
    moreover obtain q where q: "unat a = q * 4096" using a by (rule aligned_cases)
    moreover have "(unat va + l) mod 4096 = (unat va + l - unat a) mod 4096" for l
    proof -
      have "unat va + l = q * 4096 + (unat va + l - unat a)" using r(1) q by simp
      then show ?thesis by (metis mod_mult_self3)
    qed
    ultimately have m: "(unat va + j - unat a) mod 4096 = (unat va + i - unat a) mod 4096" by metis
    have "unat va + j - unat a = unat va + i - unat a"
      using kk m unfolding k_def by (metis div_mult_mod_eq)
    then show ?thesis using r(1) by simp
  qed
  moreover have "\<exists>f \<in> set fs. translate pm False R (va + of_nat j) = Some (f + page_offset (va + of_nat j))" if "j < n" for j
    using t [OF that] kn [OF that] by (intro bexI [of _ "fs ! k j"]) simp_all
  ultimately show ?thesis using r(3) unfolding range_in_def by blast
qed

section \<open>A segment of a program\<close>

lemma segment_pages:
  assumes "unat va + unat n + 4095 < 2 ^ 32"
  shows "pages_between (ALIGN_DOWN va) (ALIGN_UP (va + n)) = page_list (ALIGN_DOWN va) ((unat va mod 4096 + unat n + 4095) div 4096)"
    "unat va + unat n \<le> unat (ALIGN_DOWN va) + 4096 * ((unat va mod 4096 + unat n + 4095) div 4096)"
    "unat (ALIGN_DOWN va) + 4096 * ((unat va mod 4096 + unat n + 4095) div 4096) \<le> unat va + unat n + 4095"
    "unat (ALIGN_DOWN va) \<le> unat va"
    "unat (ALIGN_UP (va + n)) = unat (ALIGN_DOWN va) + 4096 * ((unat va mod 4096 + unat n + 4095) div 4096)"
proof -
  define q o' where "q = unat va div 4096" and "o' = unat va mod 4096"
  have va: "unat va = q * 4096 + o'" by (simp add: q_def o'_def)
  have d: "unat (ALIGN_DOWN va) = q * 4096" unfolding unat_ALIGN_DOWN q_def by (rule refl)
  have sum: "unat (va + n) = unat va + unat n" using unat_offset [of va "unat n"] assms by simp
  have e: "unat va + unat n + 4095 = q * 4096 + (o' + unat n + 4095)" using va by simp
  have up: "unat (ALIGN_UP (va + n)) = q * 4096 + (o' + unat n + 4095) div 4096 * 4096"
    using assms e unat_ALIGN_UP [of "va + n"] unfolding sum by (simp only: add.assoc div_mult_self3 zero_neq_numeral) (simp add: algebra_simps)
  show "pages_between (ALIGN_DOWN va) (ALIGN_UP (va + n)) = page_list (ALIGN_DOWN va) ((unat va mod 4096 + unat n + 4095) div 4096)"
    unfolding pages_between_def page_list_def up d o'_def [symmetric] by (simp add: PAGE_SIZE_def)
  show "unat (ALIGN_DOWN va) \<le> unat va" using d va by simp
  show "unat (ALIGN_UP (va + n)) = unat (ALIGN_DOWN va) + 4096 * ((unat va mod 4096 + unat n + 4095) div 4096)"
    unfolding up d o'_def [symmetric] by simp
  have "(o' + unat n + 4095) div 4096 * 4096 + (o' + unat n + 4095) mod 4096 = o' + unat n + 4095" by (rule div_mult_mod_eq)
  moreover have "(o' + unat n + 4095) mod 4096 < 4096" by simp
  ultimately show "unat va + unat n \<le> unat (ALIGN_DOWN va) + 4096 * ((unat va mod 4096 + unat n + 4095) div 4096)"
    "unat (ALIGN_DOWN va) + 4096 * ((unat va mod 4096 + unat n + 4095) div 4096) \<le> unat va + unat n + 4095"
    unfolding o'_def [symmetric] using va d by linarith+
qed

definition segment_image :: "char list \<Rightarrow> Elf32_Phdr \<Rightarrow> char list" where
  "segment_image data ph = take (unat (p_filesz ph)) (drop (unat (p_offset ph)) data) @ replicate (unat (p_memsz ph) - unat (p_filesz ph)) nul"

lemma segment_filled:
  fixes s :: "'a kernel_io_scheme"
  assumes L: "loading s PD R F" and r: "range_in (pmem s) R F (p_vaddr ph) (unat (p_memsz ph))" and p: "program_file s node data"
    and size: "p_filesz ph \<le> p_memsz ph" "unat (p_offset ph) + unat (p_filesz ph) \<le> length data"
  obtains s1 pm h where "copy_segment node R (p_offset ph) (p_vaddr ph) (p_filesz ph) s = Some (ELF_RESULT_OK, s1)"
    "(if p_memsz ph > p_filesz ph then zero_segment R (p_vaddr ph + p_filesz ph) (p_memsz ph - p_filesz ph) s1 else Some (ELF_RESULT_OK, s1)) =
       Some (ELF_RESULT_OK, s\<lparr>pmem := pm, heap_data := h\<rparr>)"
    "loading (s\<lparr>pmem := pm, heap_data := h\<rparr>) PD R F" "program_file (s\<lparr>pmem := pm, heap_data := h\<rparr>) node data"
    "\<And>x. below_recursive x \<Longrightarrow> translate pm False R x = translate (pmem s) False R x"
    "shows_bytes (pmem s) pm R (p_vaddr ph) (segment_image data ph)"
proof -
  let ?va = "p_vaddr ph" and ?n = "p_filesz ph" and ?m = "p_memsz ph" and ?cs = "take (unat (p_filesz ph)) (drop (unat (p_offset ph)) data)"
  have le: "unat ?n \<le> unat ?m" using size(1) by (simp add: word_le_nat_alt)
  have diff: "unat (?m - ?n) = unat ?m - unat ?n" using size(1) by (simp add: unat_sub)
  have rn: "range_in (pmem s) R F ?va (unat ?n)" using r le unfolding range_in_def by (meson less_le_trans add_le_cancel_left order_trans)
  obtain pm h where c: "copy_segment node R (p_offset ph) ?va ?n s = Some (ELF_RESULT_OK, s\<lparr>pmem := pm, heap_data := h\<rparr>)"
      "loading (s\<lparr>pmem := pm, heap_data := h\<rparr>) PD R F" "program_file (s\<lparr>pmem := pm, heap_data := h\<rparr>) node data"
      "\<And>x. below_recursive x \<Longrightarrow> translate pm False R x = translate (pmem s) False R x" "shows_bytes (pmem s) pm R ?va ?cs"
    using copy_segment_shows [OF L rn p size(2)] by blast
  show thesis
  proof (cases "?m > ?n")
    case False
    then have e: "segment_image data ph = ?cs" by (simp add: segment_image_def word_less_nat_alt)
    show thesis using that [OF c(1) _ c(2,3,4)] c(5) False unfolding e by simp
  next
    case True
    define s1 where "s1 = s\<lparr>pmem := pm, heap_data := h\<rparr>"
    have p1: "pmem s1 = pm" by (simp add: s1_def)
    have rz: "range_in (pmem s1) R F (?va + ?n) (unat (?m - ?n))"
      unfolding p1 diff using range_in_cong [OF r le c(4)] by simp
    obtain pm2 where z: "zero_segment R (?va + ?n) (?m - ?n) s1 = Some (ELF_RESULT_OK, s1\<lparr>pmem := pm2\<rparr>)"
        "loading (s1\<lparr>pmem := pm2\<rparr>) PD R F" "\<And>x. below_recursive x \<Longrightarrow> translate pm2 False R x = translate pm False R x"
        "shows_bytes pm pm2 R (?va + ?n) (replicate (unat ?m - unat ?n) nul)"
      using zero_segment_shows [OF c(2) [folded s1_def] rz] unfolding p1 diff by blast
    have e: "s1\<lparr>pmem := pm2\<rparr> = s\<lparr>pmem := pm2, heap_data := h\<rparr>" by (simp add: s1_def)
    have len: "length ?cs = unat ?n" using size(2) by simp
    have "shows_bytes (pmem s) pm2 R ?va (segment_image data ph)"
      unfolding segment_image_def
    proof (rule shows_bytes_append [OF c(5) _ _ c(4) z(3)])
      show "shows_bytes pm pm2 R (?va + of_nat (length ?cs)) (replicate (unat ?m - unat ?n) nul)" using z(4) unfolding len by simp
      show "range_in (pmem s) R F ?va (length ?cs + length (replicate (unat ?m - unat ?n) nul))" using r le unfolding len by simp
    qed
    moreover have "program_file (s1\<lparr>pmem := pm2\<rparr>) node data" using c(3) unfolding s1_def [symmetric] program_file_machine .
    ultimately show thesis using that [OF c(1) [folded s1_def], where pm = pm2 and h = h] True z(1-3) c(4) unfolding e by simp
  qed
qed

text \<open>
  (C6) The loader places a segment of a program: when the frames suffice, \<open>load_segment\<close> succeeds, the pages of
  the segment show fresh frames, no two of them the same and none in use before, every other user page of the
  new address space is mapped as it was, and byte \<open>j\<close> of the segment is byte \<open>p_offset + j\<close> of the file below
  \<open>p_filesz\<close> and zero from there to \<open>p_memsz\<close>. Otherwise it releases the node and the window of the directory and
  fails, with at most one free frame left.
\<close>

theorem elf_segment_loaded:
  fixes s :: "'a kernel_io_scheme"
  assumes "editable s PD R" "page_directory_index PD = 1022" "ALIGN_DOWN flags = 0" "program_file s node data"
    and "unat (p_vaddr ph) + unat (p_memsz ph) \<le> 0xBFFFF000"
    and "p_filesz ph \<le> p_memsz ph" "unat (p_offset ph) + unat (p_filesz ph) \<le> length data"
  shows "(\<exists>s' fs. load_segment node PD R flags ph s = Some (ELF_RESULT_OK, s') \<and> editable s' PD R \<and> program_file s' node data \<and>
      distinct fs \<and> set fs \<inter> used_frames (memory_bitmap s) = {} \<and> set fs \<subseteq> used_frames (memory_bitmap s') \<and>
      unat (ALIGN_UP (p_vaddr ph + p_memsz ph)) = unat (ALIGN_DOWN (p_vaddr ph)) + 4096 * length fs \<and>
      (\<forall>x. below_recursive x \<longrightarrow> translate (pmem s') False R x = frames_shown (pmem s) R (ALIGN_DOWN (p_vaddr ph)) fs x) \<and>
      (\<forall>j < unat (p_memsz ph). map_option (phys_byte (pmem s')) (translate (pmem s') False R (p_vaddr ph + of_nat j)) =
         Some (if j < unat (p_filesz ph) then of_char (data ! (unat (p_offset ph) + j)) else 0))) \<or>
    (\<exists>s'. load_segment node PD R flags ph s = fail_release_first node PD ELF_RESULT_ALLOCATION_ERROR s' \<and>
      card (free_pages (memory_bitmap s')) \<le> 1)"
proof -
  let ?va = "p_vaddr ph" and ?m = "p_memsz ph" and ?a = "ALIGN_DOWN (p_vaddr ph)"
  define n where "n = (unat ?va mod 4096 + unat ?m + 4095) div 4096"
  have hi: "unat ?va + unat ?m + 4095 < 2 ^ 32" using assms(5) by simp
  note P = segment_pages [OF hi, folded n_def]
  have a: "ALIGN_DOWN ?a = ?a" by simp
  have n: "unat ?a + 4096 * n \<le> 0xC0000000" "frames_kept s R {}" using P(3) assms(5) by (simp_all add: frames_kept_def)
  from map_segment_maps [OF assms(1-3) a n] show ?thesis
  proof (elim disjE exE conjE)
    fix pm b fs
    assume m: "map_segment PD flags (page_list ?a n) s = Some (ELF_RESULT_OK, s\<lparr>pmem := pm, memory_bitmap := b\<rparr>)"
      "editable (s\<lparr>pmem := pm, memory_bitmap := b\<rparr>) PD R" "frames_kept (s\<lparr>pmem := pm, memory_bitmap := b\<rparr>) R ({} \<union> set fs)"
      "length fs = n" "distinct fs" "set fs \<inter> used_frames (memory_bitmap s) = {}"
      "\<forall>x. below_recursive x \<longrightarrow> translate pm False R x = frames_shown (pmem s) R ?a fs x"
    define s1 where "s1 = s\<lparr>pmem := pm, memory_bitmap := b\<rparr>"
    have k: "frames_kept s1 R (set fs)" "pmem s1 = pm" using m(3) by (simp_all add: s1_def)
    have L: "loading s1 PD R (set fs)" using loading_kept [OF m(2) assms(2)] k(1) by (simp add: s1_def)
    have al: "\<forall>f \<in> set fs. ALIGN_DOWN f = f" using loadingD(9) [OF L] by blast
    have pf: "program_file s1 node data" using assms(4) by (simp add: s1_def program_file_def file_data_def)
    have r: "range_in (pmem s1) R (set fs) ?va (unat ?m)"
      unfolding k(2) by (rule range_in_frames [OF m(5) al a]) (use m(4,7) P(2,4) assms(5) in simp_all)
    obtain s2 pm2 h where f: "copy_segment node R (p_offset ph) ?va (p_filesz ph) s1 = Some (ELF_RESULT_OK, s2)"
        "(if ?m > p_filesz ph then zero_segment R (?va + p_filesz ph) (?m - p_filesz ph) s2 else Some (ELF_RESULT_OK, s2)) =
           Some (ELF_RESULT_OK, s1\<lparr>pmem := pm2, heap_data := h\<rparr>)"
        "loading (s1\<lparr>pmem := pm2, heap_data := h\<rparr>) PD R (set fs)" "program_file (s1\<lparr>pmem := pm2, heap_data := h\<rparr>) node data"
        "\<And>x. below_recursive x \<Longrightarrow> translate pm2 False R x = translate (pmem s1) False R x"
        "shows_bytes (pmem s1) pm2 R ?va (segment_image data ph)"
      by (rule segment_filled [OF L r pf assms(6,7)]) (rule that)
    let ?s' = "s1\<lparr>pmem := pm2, heap_data := h\<rparr>"
    have run: "load_segment node PD R flags ph s = Some (ELF_RESULT_OK, ?s')"
      using m(1) f(1,2) unfolding load_segment_def P(1) s1_def [symmetric] by (simp split: if_splits)
    have len: "length (segment_image data ph) = unat ?m" using assms(6,7) by (simp add: segment_image_def word_le_nat_alt)
    have bytes: "map_option (phys_byte (pmem ?s')) (translate (pmem ?s') False R (?va + of_nat j)) =
        Some (if j < unat (p_filesz ph) then of_char (data ! (unat (p_offset ph) + j)) else 0)" if "j < unat ?m" for j
    proof -
      have "segment_image data ph ! j = (if j < unat (p_filesz ph) then data ! (unat (p_offset ph) + j) else nul)"
        using that assms(7) by (auto simp: segment_image_def nth_append)
      moreover have "map_option (phys_byte pm2) (translate pm2 False R (?va + of_nat j)) = Some (of_char (segment_image data ph ! j))"
        using f(6) that len unfolding shows_bytes_def by simp
      ultimately show ?thesis by (simp split: if_splits)
    qed
    have "set fs \<subseteq> used_frames (memory_bitmap ?s')" using k(1) by (auto simp: frames_kept_def)
    moreover have "editable ?s' PD R" using f(3) by (simp add: loading_def)
    moreover have "\<forall>x. below_recursive x \<longrightarrow> translate (pmem ?s') False R x = frames_shown (pmem s) R ?a fs x" using f(5) m(7) k(2) by simp
    ultimately show ?thesis
      using run f(4) m(4-6) P(5) bytes by (intro disjI1 exI [of _ ?s'] exI [of _ fs]) blast
  next
    fix s'
    assume "map_segment PD flags (page_list ?a n) s = Some (ELF_RESULT_ALLOCATION_ERROR, s')" "card (free_pages (memory_bitmap s')) \<le> 1"
    then show ?thesis unfolding load_segment_def P(1) by (intro disjI2 exI [of _ s']) simp
  qed
qed

text \<open>A program of four bytes in the kernel heap, and a second directory shown by the bounce page 0.\<close>

definition sample_program :: kernel_io where
  "sample_program = sample_root
     \<lparr>pmem := sample_pmem, cr3 := 0x1000, cr4_pse := False, memory_bitmap := memory_bitmap sample_machine,
      bounce_pages_used := bounce_pages_used sample_machine, vfs_nodes := sample_node,
      ramfs_nodes := sample_ramfs_node(0x720 := (sample_ramfs_node 0x720)\<lparr>ramfs_data := 0xF0001000, ramfs_data_size := 4\<rparr>),
      heap_data := (\<lambda>a. if a = 0xF0001000 then CHR ''e'' else if a = 0xF0001001 then CHR ''l'' else if a = 0xF0001002 then CHR ''f'' else CHR ''!'')\<rparr>"

definition sample_phdr :: Elf32_Phdr where
  "sample_phdr = \<lparr>p_type = PT_LOAD, p_offset = 1, p_vaddr = 0x400FFE, p_paddr = 0, p_filesz = 3, p_memsz = 6, p_flags = 5, p_align = 4096\<rparr>"

lemma sample_program_ok: "editable sample_program (bounce_vaddr 0) 0x3000" "program_file sample_program 0x510 ''elf!''"
proof -
  show "editable sample_program (bounce_vaddr 0) 0x3000"
    using sample_editable by (simp add: editable_def bounce_ready_def machine_wf_def bounce_table_def sample_program_def sample_machine_def)
  show "program_file sample_program 0x510 ''elf!''"
  proof -
    have "[0..<4] = [0, 1, 2, 3 :: nat]" by (simp add: upt_rec)
    then show ?thesis by (simp add: program_file_def file_data_def bytes_at_def sample_program_def sample_node_def)
  qed
qed

theorem elf_segment_loaded_witness:
  "editable sample_program (bounce_vaddr 0) 0x3000 \<and> program_file sample_program 0x510 ''elf!'' \<and>
   ((\<exists>s'. load_segment 0x510 (bounce_vaddr 0) 0x3000 6 sample_phdr sample_program = Some (ELF_RESULT_OK, s') \<and>
      map_option (phys_byte (pmem s')) (translate (pmem s') False 0x3000 0x401000) = Some (of_char (CHR ''!'')) \<and>
      map_option (phys_byte (pmem s')) (translate (pmem s') False 0x3000 0x401003) = Some 0) \<or>
    (\<exists>s'. load_segment 0x510 (bounce_vaddr 0) 0x3000 6 sample_phdr sample_program =
       fail_release_first 0x510 (bounce_vaddr 0) ELF_RESULT_ALLOCATION_ERROR s' \<and> card (free_pages (memory_bitmap s')) \<le> 1))"
proof -
  have h: "page_directory_index (bounce_vaddr 0) = 1022" "ALIGN_DOWN 6 = (0 :: u32)"
    "unat (p_vaddr sample_phdr) + unat (p_memsz sample_phdr) \<le> 0xBFFFF000" "p_filesz sample_phdr \<le> p_memsz sample_phdr"
    "unat (p_offset sample_phdr) + unat (p_filesz sample_phdr) \<le> length ''elf!''"
    using bounce_index(1) [of 0] by (simp_all add: sample_phdr_def ALIGN_DOWN_def PAGE_SIZE_def)
  have at: "p_vaddr sample_phdr + of_nat 2 = 0x401000" "p_vaddr sample_phdr + of_nat 5 = 0x401003" "unat (p_memsz sample_phdr) = 6"
    "unat (p_filesz sample_phdr) = 3" "unat (p_offset sample_phdr) = 1"
    by (simp_all add: sample_phdr_def)
  from elf_segment_loaded [OF sample_program_ok(1) h(1,2) sample_program_ok(2) h(3-5)] show ?thesis
  proof (elim disjE exE conjE)
    fix s' fs
    assume r: "load_segment 0x510 (bounce_vaddr 0) 0x3000 6 sample_phdr sample_program = Some (ELF_RESULT_OK, s')"
      "\<forall>j < unat (p_memsz sample_phdr). map_option (phys_byte (pmem s')) (translate (pmem s') False 0x3000 (p_vaddr sample_phdr + of_nat j)) =
         Some (if j < unat (p_filesz sample_phdr) then of_char (''elf!'' ! (unat (p_offset sample_phdr) + j)) else 0)"
    have "map_option (phys_byte (pmem s')) (translate (pmem s') False 0x3000 0x401000) = Some (of_char (CHR ''!''))"
      using r(2) [rule_format, of 2] unfolding at by simp
    moreover have "map_option (phys_byte (pmem s')) (translate (pmem s') False 0x3000 0x401003) = Some 0"
      using r(2) [rule_format, of 5] unfolding at by simp
    ultimately show ?thesis using r(1) sample_program_ok by blast
  next
    fix s'
    assume "load_segment 0x510 (bounce_vaddr 0) 0x3000 6 sample_phdr sample_program = fail_release_first 0x510 (bounce_vaddr 0) ELF_RESULT_ALLOCATION_ERROR s'"
      "card (free_pages (memory_bitmap s')) \<le> 1"
    then show ?thesis using sample_program_ok by blast
  qed
qed

end
