(* ===== verification/User_Library.thy ===== *)
theory User_Library
  imports Syscall_Memory
begin

text \<open>
  The library of user programs: the system calls of \<^verbatim>\<open>initrd/lib/syscall.c\<close> with the trap of
  \<^verbatim>\<open>initrd/include/syscall.h\<close>, and the functions of \<^verbatim>\<open>initrd/lib/newlib_glue.c\<close> that the C library calls. The
  instruction \<^verbatim>\<open>int 0x80\<close> is an argument: it takes the registers and the state to the registers and the
  state with which the program goes on. The properties take the handler of the kernel for it, which
  is what happens when the call does not switch to another task.
\<close>

unbundle bit_operations_syntax

section \<open>The trap\<close>

definition USER_SYSCALL_OPEN :: u32 where "USER_SYSCALL_OPEN = 0"
definition USER_SYSCALL_CLOSE :: u32 where "USER_SYSCALL_CLOSE = 1"
definition USER_SYSCALL_READ :: u32 where "USER_SYSCALL_READ = 2"
definition USER_SYSCALL_WRITE :: u32 where "USER_SYSCALL_WRITE = 3"
definition USER_SYSCALL_FORK :: u32 where "USER_SYSCALL_FORK = 4"
definition USER_SYSCALL_EXECVE :: u32 where "USER_SYSCALL_EXECVE = 5"
definition USER_SYSCALL_EXIT :: u32 where "USER_SYSCALL_EXIT = 6"
definition USER_SYSCALL_WAITPID :: u32 where "USER_SYSCALL_WAITPID = 7"
definition USER_SYSCALL_SBRK :: u32 where "USER_SYSCALL_SBRK = 8"
definition USER_SYSCALL_ISATTY :: u32 where "USER_SYSCALL_ISATTY = 9"
definition USER_SYSCALL_GETPID :: u32 where "USER_SYSCALL_GETPID = 10"
definition USER_SYSCALL_LSEEK :: u32 where "USER_SYSCALL_LSEEK = 11"
definition USER_SYSCALL_FCNTL :: u32 where "USER_SYSCALL_FCNTL = 12"
definition USER_SYSCALL_IOCTL :: u32 where "USER_SYSCALL_IOCTL = 13"
definition USER_SYSCALL_FSTAT :: u32 where "USER_SYSCALL_FSTAT = 14"
definition USER_SYSCALL_STAT :: u32 where "USER_SYSCALL_STAT = 15"
definition USER_SYSCALL_LINK :: u32 where "USER_SYSCALL_LINK = 16"
definition USER_SYSCALL_UNLINK :: u32 where "USER_SYSCALL_UNLINK = 17"
definition USER_SYSCALL_TIMES :: u32 where "USER_SYSCALL_TIMES = 18"
definition USER_SYSCALL_KILL :: u32 where "USER_SYSCALL_KILL = 19"
definition USER_SYSCALL_SIGACTION :: u32 where "USER_SYSCALL_SIGACTION = 20"
definition USER_SYSCALL_SIGRETURN :: u32 where "USER_SYSCALL_SIGRETURN = 21"

type_synonym 's trap = "register_interrupt_data_t \<Rightarrow> 's \<Rightarrow> (register_interrupt_data_t \<times> 's) option"

text \<open>The registers that a wrapper does not set are those of the caller.\<close>

definition syscall0 :: "u32 \<Rightarrow> 's trap \<Rightarrow> register_interrupt_data_t \<Rightarrow> 's \<Rightarrow> (u32 \<times> 's) option" where
  "syscall0 n trap regs s = do {
     (regs, s) \<leftarrow> trap (regs\<lparr>frame_eax := n\<rparr>) s;
     Some (frame_eax regs, s)
   }"

definition syscall1 :: "u32 \<Rightarrow> u32 \<Rightarrow> 's trap \<Rightarrow> register_interrupt_data_t \<Rightarrow> 's \<Rightarrow> (u32 \<times> 's) option" where
  "syscall1 n a1 trap regs s = do {
     (regs, s) \<leftarrow> trap (regs\<lparr>frame_eax := n, frame_ebx := a1\<rparr>) s;
     Some (frame_eax regs, s)
   }"

definition syscall2 :: "u32 \<Rightarrow> u32 \<Rightarrow> u32 \<Rightarrow> 's trap \<Rightarrow> register_interrupt_data_t \<Rightarrow> 's \<Rightarrow> (u32 \<times> 's) option" where
  "syscall2 n a1 a2 trap regs s = do {
     (regs, s) \<leftarrow> trap (regs\<lparr>frame_eax := n, frame_ebx := a1, frame_ecx := a2\<rparr>) s;
     Some (frame_eax regs, s)
   }"

definition syscall3 :: "u32 \<Rightarrow> u32 \<Rightarrow> u32 \<Rightarrow> u32 \<Rightarrow> 's trap \<Rightarrow> register_interrupt_data_t \<Rightarrow> 's \<Rightarrow> (u32 \<times> 's) option" where
  "syscall3 n a1 a2 a3 trap regs s = do {
     (regs, s) \<leftarrow> trap (regs\<lparr>frame_eax := n, frame_ebx := a1, frame_ecx := a2, frame_edx := a3\<rparr>) s;
     Some (frame_eax regs, s)
   }"

section \<open>System calls\<close>

definition user_open :: "u32 \<Rightarrow> u32 \<Rightarrow> 's trap \<Rightarrow> register_interrupt_data_t \<Rightarrow> 's \<Rightarrow> (u32 \<times> 's) option" where
  "user_open pathname flags = syscall2 USER_SYSCALL_OPEN pathname flags"

definition user_close :: "u32 \<Rightarrow> 's trap \<Rightarrow> register_interrupt_data_t \<Rightarrow> 's \<Rightarrow> (u32 \<times> 's) option" where
  "user_close resource = syscall1 USER_SYSCALL_CLOSE resource"

definition user_read :: "u32 \<Rightarrow> u32 \<Rightarrow> u32 \<Rightarrow> 's trap \<Rightarrow> register_interrupt_data_t \<Rightarrow> 's \<Rightarrow> (u32 \<times> 's) option" where
  "user_read resource buf len = syscall3 USER_SYSCALL_READ resource buf len"

definition user_write :: "u32 \<Rightarrow> u32 \<Rightarrow> u32 \<Rightarrow> 's trap \<Rightarrow> register_interrupt_data_t \<Rightarrow> 's \<Rightarrow> (u32 \<times> 's) option" where
  "user_write resource buf len = syscall3 USER_SYSCALL_WRITE resource buf len"

definition user_fork :: "'s trap \<Rightarrow> register_interrupt_data_t \<Rightarrow> 's \<Rightarrow> (u32 \<times> 's) option" where
  "user_fork = syscall0 USER_SYSCALL_FORK"

definition user_execve :: "u32 \<Rightarrow> u32 \<Rightarrow> 's trap \<Rightarrow> register_interrupt_data_t \<Rightarrow> 's \<Rightarrow> (u32 \<times> 's) option" where
  "user_execve pathname argv = syscall2 USER_SYSCALL_EXECVE pathname argv"

definition user_waitpid :: "u32 \<Rightarrow> u32 \<Rightarrow> 's trap \<Rightarrow> register_interrupt_data_t \<Rightarrow> 's \<Rightarrow> (u32 \<times> 's) option" where
  "user_waitpid pid status = syscall2 USER_SYSCALL_WAITPID pid status"

definition user_sbrk :: "u32 \<Rightarrow> 's trap \<Rightarrow> register_interrupt_data_t \<Rightarrow> 's \<Rightarrow> (u32 \<times> 's) option" where
  "user_sbrk increment = syscall1 USER_SYSCALL_SBRK increment"

definition user_isatty :: "u32 \<Rightarrow> 's trap \<Rightarrow> register_interrupt_data_t \<Rightarrow> 's \<Rightarrow> (u32 \<times> 's) option" where
  "user_isatty fd = syscall1 USER_SYSCALL_ISATTY fd"

definition user_getpid :: "'s trap \<Rightarrow> register_interrupt_data_t \<Rightarrow> 's \<Rightarrow> (u32 \<times> 's) option" where
  "user_getpid = syscall0 USER_SYSCALL_GETPID"

definition user_lseek :: "u32 \<Rightarrow> u32 \<Rightarrow> u32 \<Rightarrow> 's trap \<Rightarrow> register_interrupt_data_t \<Rightarrow> 's \<Rightarrow> (u32 \<times> 's) option" where
  "user_lseek fd offset whence = syscall3 USER_SYSCALL_LSEEK fd offset whence"

definition user_fcntl :: "u32 \<Rightarrow> u32 \<Rightarrow> u32 \<Rightarrow> 's trap \<Rightarrow> register_interrupt_data_t \<Rightarrow> 's \<Rightarrow> (u32 \<times> 's) option" where
  "user_fcntl fd cmd argument = syscall3 USER_SYSCALL_FCNTL fd cmd argument"

definition user_ioctl :: "u32 \<Rightarrow> u32 \<Rightarrow> u32 \<Rightarrow> 's trap \<Rightarrow> register_interrupt_data_t \<Rightarrow> 's \<Rightarrow> (u32 \<times> 's) option" where
  "user_ioctl fd cmd argument = syscall3 USER_SYSCALL_IOCTL fd cmd argument"

definition user_fstat :: "u32 \<Rightarrow> u32 \<Rightarrow> 's trap \<Rightarrow> register_interrupt_data_t \<Rightarrow> 's \<Rightarrow> (u32 \<times> 's) option" where
  "user_fstat fd buf = syscall2 USER_SYSCALL_FSTAT fd buf"

definition user_stat :: "u32 \<Rightarrow> u32 \<Rightarrow> 's trap \<Rightarrow> register_interrupt_data_t \<Rightarrow> 's \<Rightarrow> (u32 \<times> 's) option" where
  "user_stat pathname buf = syscall2 USER_SYSCALL_STAT pathname buf"

definition user_link :: "u32 \<Rightarrow> u32 \<Rightarrow> 's trap \<Rightarrow> register_interrupt_data_t \<Rightarrow> 's \<Rightarrow> (u32 \<times> 's) option" where
  "user_link old_path new_path = syscall2 USER_SYSCALL_LINK old_path new_path"

definition user_unlink :: "u32 \<Rightarrow> 's trap \<Rightarrow> register_interrupt_data_t \<Rightarrow> 's \<Rightarrow> (u32 \<times> 's) option" where
  "user_unlink pathname = syscall1 USER_SYSCALL_UNLINK pathname"

definition user_times :: "u32 \<Rightarrow> 's trap \<Rightarrow> register_interrupt_data_t \<Rightarrow> 's \<Rightarrow> (u32 \<times> 's) option" where
  "user_times buf = syscall1 USER_SYSCALL_TIMES buf"

definition user_kill :: "u32 \<Rightarrow> u32 \<Rightarrow> 's trap \<Rightarrow> register_interrupt_data_t \<Rightarrow> 's \<Rightarrow> (u32 \<times> 's) option" where
  "user_kill pid sig = syscall2 USER_SYSCALL_KILL pid sig"

text \<open>The loop after the call never ends.\<close>

definition user_exit :: "u32 \<Rightarrow> 's trap \<Rightarrow> register_interrupt_data_t \<Rightarrow> 's \<Rightarrow> 'r option" where
  "user_exit code trap regs s = do {
     _ \<leftarrow> syscall1 USER_SYSCALL_EXIT code trap regs s;
     None
   }"

definition user_raise :: "u32 \<Rightarrow> 's trap \<Rightarrow> register_interrupt_data_t \<Rightarrow> 's \<Rightarrow> (u32 \<times> 's) option" where
  "user_raise sig trap regs s = do {
     (pid, s) \<leftarrow> user_getpid trap regs s;
     user_kill pid sig trap regs s
   }"

definition user_sigaction :: "u32 \<Rightarrow> u32 \<Rightarrow> u32 \<Rightarrow> 's trap \<Rightarrow> register_interrupt_data_t \<Rightarrow> 's \<Rightarrow> (u32 \<times> 's) option" where
  "user_sigaction sig act oldact = syscall3 USER_SYSCALL_SIGACTION sig act oldact"

definition SIG_ERR :: u32 where "SIG_ERR = - 1"

text \<open>The two structures are on the stack of the program, at the given addresses.\<close>

definition user_signal ::
    "u32 \<Rightarrow> u32 \<Rightarrow> u32 \<Rightarrow> u32 \<Rightarrow> 'a kernel_sys_scheme trap \<Rightarrow> register_interrupt_data_t \<Rightarrow> 'a kernel_sys_scheme \<Rightarrow>
      (u32 \<times> 'a kernel_sys_scheme) option" where
  "user_signal act oldact sig handler trap regs s = do {
     (result, s) \<leftarrow> user_sigaction sig act oldact trap regs (s\<lparr>heap_data := store_u32 act handler (heap_data s)\<rparr>);
     Some (if sint result < 0 then SIG_ERR else load_u32 (heap_data s) oldact, s)
   }"

section \<open>The functions of the C library\<close>

text \<open>The numbers of errors are those of the C library, which is not part of the repository.\<close>

record errno_codes =
  EINVAL :: u32
  EBUSY :: u32
  ENOMEM :: u32
  EAGAIN :: u32
  EIO :: u32

definition USER_SYSCALL_RESULT_BAD_PARAMETER :: u32 where "USER_SYSCALL_RESULT_BAD_PARAMETER = 2"
definition USER_SYSCALL_RESULT_BUSY :: u32 where "USER_SYSCALL_RESULT_BUSY = 3"
definition USER_SYSCALL_RESULT_OUT_OF_MEMORY :: u32 where "USER_SYSCALL_RESULT_OUT_OF_MEMORY = 4"
definition USER_SYSCALL_RESULT_WOULD_BLOCK :: u32 where "USER_SYSCALL_RESULT_WOULD_BLOCK = 5"

definition result_to_errno :: "errno_codes \<Rightarrow> u32 \<Rightarrow> u32" where
  "result_to_errno codes ret =
     (if - ret = USER_SYSCALL_RESULT_BAD_PARAMETER then EINVAL codes
      else if - ret = USER_SYSCALL_RESULT_BUSY then EBUSY codes
      else if - ret = USER_SYSCALL_RESULT_OUT_OF_MEMORY then ENOMEM codes
      else if - ret = USER_SYSCALL_RESULT_WOULD_BLOCK then EAGAIN codes
      else EIO codes)"

text \<open>A call with the variable \<^verbatim>\<open>errno\<close>: a negative result sets it and becomes -1.\<close>

definition with_errno ::
    "errno_codes \<Rightarrow> ('s trap \<Rightarrow> register_interrupt_data_t \<Rightarrow> 's \<Rightarrow> (u32 \<times> 's) option) \<Rightarrow> 's trap \<Rightarrow> register_interrupt_data_t \<Rightarrow>
      u32 \<times> 's \<Rightarrow> (u32 \<times> u32 \<times> 's) option" where
  "with_errno codes call trap regs = (\<lambda>(errno, s). do {
     (ret, s) \<leftarrow> call trap regs s;
     Some (if sint ret < 0 then (- 1, result_to_errno codes ret, s) else (ret, errno, s))
   })"

definition glue_read :: "errno_codes \<Rightarrow> u32 \<Rightarrow> u32 \<Rightarrow> u32 \<Rightarrow> 's trap \<Rightarrow> register_interrupt_data_t \<Rightarrow> u32 \<times> 's \<Rightarrow> (u32 \<times> u32 \<times> 's) option" where
  "glue_read codes fd buf len = with_errno codes (user_read fd buf len)"

definition glue_write :: "errno_codes \<Rightarrow> u32 \<Rightarrow> u32 \<Rightarrow> u32 \<Rightarrow> 's trap \<Rightarrow> register_interrupt_data_t \<Rightarrow> u32 \<times> 's \<Rightarrow> (u32 \<times> u32 \<times> 's) option" where
  "glue_write codes fd buf len = with_errno codes (user_write fd buf len)"

definition glue_open :: "errno_codes \<Rightarrow> u32 \<Rightarrow> u32 \<Rightarrow> u32 \<Rightarrow> 's trap \<Rightarrow> register_interrupt_data_t \<Rightarrow> u32 \<times> 's \<Rightarrow> (u32 \<times> u32 \<times> 's) option" where
  "glue_open codes pathname flags mode = with_errno codes (user_open pathname flags)"

definition glue_close :: "errno_codes \<Rightarrow> u32 \<Rightarrow> 's trap \<Rightarrow> register_interrupt_data_t \<Rightarrow> u32 \<times> 's \<Rightarrow> (u32 \<times> u32 \<times> 's) option" where
  "glue_close codes fd = with_errno codes (user_close fd)"

definition glue_lseek :: "errno_codes \<Rightarrow> u32 \<Rightarrow> u32 \<Rightarrow> u32 \<Rightarrow> 's trap \<Rightarrow> register_interrupt_data_t \<Rightarrow> u32 \<times> 's \<Rightarrow> (u32 \<times> u32 \<times> 's) option" where
  "glue_lseek codes fd ptr dir = with_errno codes (user_lseek fd ptr dir)"

definition glue_fstat :: "errno_codes \<Rightarrow> u32 \<Rightarrow> u32 \<Rightarrow> 's trap \<Rightarrow> register_interrupt_data_t \<Rightarrow> u32 \<times> 's \<Rightarrow> (u32 \<times> u32 \<times> 's) option" where
  "glue_fstat codes fd st = with_errno codes (user_fstat fd st)"

definition glue_stat :: "errno_codes \<Rightarrow> u32 \<Rightarrow> u32 \<Rightarrow> 's trap \<Rightarrow> register_interrupt_data_t \<Rightarrow> u32 \<times> 's \<Rightarrow> (u32 \<times> u32 \<times> 's) option" where
  "glue_stat codes file st = with_errno codes (user_stat file st)"

definition glue_link :: "errno_codes \<Rightarrow> u32 \<Rightarrow> u32 \<Rightarrow> 's trap \<Rightarrow> register_interrupt_data_t \<Rightarrow> u32 \<times> 's \<Rightarrow> (u32 \<times> u32 \<times> 's) option" where
  "glue_link codes old_path new_path = with_errno codes (user_link old_path new_path)"

definition glue_unlink :: "errno_codes \<Rightarrow> u32 \<Rightarrow> 's trap \<Rightarrow> register_interrupt_data_t \<Rightarrow> u32 \<times> 's \<Rightarrow> (u32 \<times> u32 \<times> 's) option" where
  "glue_unlink codes pathname = with_errno codes (user_unlink pathname)"

definition glue_sbrk :: "errno_codes \<Rightarrow> u32 \<Rightarrow> 's trap \<Rightarrow> register_interrupt_data_t \<Rightarrow> u32 \<times> 's \<Rightarrow> (u32 \<times> u32 \<times> 's) option" where
  "glue_sbrk codes increment = with_errno codes (user_sbrk increment)"

definition glue_kill :: "errno_codes \<Rightarrow> u32 \<Rightarrow> u32 \<Rightarrow> 's trap \<Rightarrow> register_interrupt_data_t \<Rightarrow> u32 \<times> 's \<Rightarrow> (u32 \<times> u32 \<times> 's) option" where
  "glue_kill codes pid sig = with_errno codes (user_kill pid sig)"

definition glue_isatty :: "u32 \<Rightarrow> 's trap \<Rightarrow> register_interrupt_data_t \<Rightarrow> 's \<Rightarrow> (u32 \<times> 's) option" where
  "glue_isatty fd = user_isatty fd"

definition glue_getpid :: "'s trap \<Rightarrow> register_interrupt_data_t \<Rightarrow> 's \<Rightarrow> (u32 \<times> 's) option" where
  "glue_getpid = user_getpid"

definition glue_exit :: "u32 \<Rightarrow> 's trap \<Rightarrow> register_interrupt_data_t \<Rightarrow> 's \<Rightarrow> 'r option" where
  "glue_exit code = user_exit code"

section \<open>Entering the kernel\<close>

text \<open>
  The call \<open>c\<close> runs the function \<open>f\<close> of the kernel for the running task with the given parameters, on
  the memory and the other tasks as they are, and returns its result.
\<close>

definition reaches ::
    "(u32 \<times> 'a kernel_sys_scheme) option \<Rightarrow> ('a kernel_sys_scheme \<Rightarrow> (u32 \<times> 'a kernel_sys_scheme) option) \<Rightarrow> u32 list \<Rightarrow>
      'a kernel_sys_scheme \<Rightarrow> bool" where
  "reaches c f args s \<longleftrightarrow> (\<exists>u. caller_task u = task_current s \<and> task_current u = task_current s \<and>
     (\<forall>i < length args. SYSCALL_GET_PARAMETER (of_nat i) u = args ! i) \<and>
     heap_data u = heap_data s \<and> pmem u = pmem s \<and> vfs_nodes u = vfs_nodes s \<and>
     (\<exists>e. tasks u = (tasks s)(task_current s := (tasks s (task_current s))\<lparr>syscall_execution := e\<rparr>)) \<and>
     c = map_option (\<lambda>(r, v). (r, v\<lparr>syscall_frame := (syscall_frame v)\<lparr>frame_eax := r\<rparr>\<rparr>)) (f u))"

lemma handler_reaches:
  fixes s :: "'a kernel_sys_scheme"
  assumes t: "task_current s \<noteq> 0" "syscall_retry (tasks s (task_current s)) = 0"
    and f: "\<And>u :: 'a kernel_sys_scheme. syscall_dispatch (frame_eax regs) u = return_eax (f u)"
    and args: "args = take k [frame_ebx regs, frame_ecx regs, frame_edx regs]"
  shows "reaches (do { (r, v) \<leftarrow> syscall_handler regs s; Some (frame_eax r, v) }) f args s"
proof -
  define u where "u = upd_caller (\<lambda>t. t\<lparr>syscall_execution := execution_of regs (syscall_execution t)\<rparr>)
    (s\<lparr>caller_task := task_current s, syscall_frame := regs, register_data_set := True\<rparr>)"
  have u: "caller_task u = task_current s" "task_current u = task_current s" "heap_data u = heap_data s" "pmem u = pmem s"
    "vfs_nodes u = vfs_nodes s" "tasks u = (tasks s)(task_current s := (tasks s (task_current s))
       \<lparr>syscall_execution := execution_of regs (syscall_execution (tasks s (task_current s)))\<rparr>)"
    by (simp_all add: u_def upd_caller_def upd_task_def)
  have x: "syscall_index (syscall_execution (SYSCALL_TASK u)) = frame_eax regs"
    "parameters (syscall_execution (SYSCALL_TASK u)) = (parameters (syscall_execution (tasks s (task_current s))))
       (0 := frame_ebx regs, 1 := frame_ecx regs, 2 := frame_edx regs, 3 := frame_esi regs, 4 := frame_edi regs, 5 := 0)"
    by (simp_all add: u(1,6) execution_of_def)
  have "SYSCALL_GET_PARAMETER (of_nat i) u = args ! i" if "i < length args" for i
  proof -
    have "i = 0 \<or> i = 1 \<or> i = 2" using that args by auto
    then show ?thesis using that args by (auto simp: SYSCALL_GET_PARAMETER_def x(2))
  qed
  moreover have "syscall_handler regs s = do { v \<leftarrow> syscall_dispatch (frame_eax regs) u; Some (syscall_frame v, v) }"
    using t x(1) by (simp add: syscall_handler_def Let_def u_def upd_caller_def)
  then have "do { (r, v) \<leftarrow> syscall_handler regs s; Some (frame_eax r, v) } =
      map_option (\<lambda>(r, v). (r, v\<lparr>syscall_frame := (syscall_frame v)\<lparr>frame_eax := r\<rparr>\<rparr>)) (f u)"
    unfolding f by (cases "f u") (auto simp: return_eax_def)
  ultimately show ?thesis unfolding reaches_def using u by blast
qed

lemma syscall_reaches:
  fixes s :: "'a kernel_sys_scheme"
  assumes t: "task_current s \<noteq> 0" "syscall_retry (tasks s (task_current s)) = 0"
    and f: "\<And>u :: 'a kernel_sys_scheme. syscall_dispatch n u = return_eax (f u)"
  shows syscall0_reaches: "reaches (syscall0 n syscall_handler regs s) f [] s"
    and syscall1_reaches: "reaches (syscall1 n a1 syscall_handler regs s) f [a1] s"
    and syscall2_reaches: "reaches (syscall2 n a1 a2 syscall_handler regs s) f [a1, a2] s"
    and syscall3_reaches: "reaches (syscall3 n a1 a2 a3 syscall_handler regs s) f [a1, a2, a3] s"
  unfolding syscall0_def syscall1_def syscall2_def syscall3_def
  using f by (intro handler_reaches [OF t, where k = 0] handler_reaches [OF t, where k = 1] handler_reaches [OF t, where k = 2]
      handler_reaches [OF t, where k = 3]; simp)+

lemmas user_calls =
  user_open_def user_close_def user_read_def user_write_def user_fork_def user_waitpid_def user_sbrk_def user_isatty_def user_getpid_def user_lseek_def user_fcntl_def user_ioctl_def user_fstat_def user_stat_def user_link_def user_unlink_def user_times_def user_kill_def user_sigaction_def user_execve_def

lemmas syscall_numbers =
  SYSCALL_OPEN_def SYSCALL_CLOSE_def SYSCALL_READ_def SYSCALL_WRITE_def SYSCALL_FORK_def SYSCALL_EXECVE_def SYSCALL_EXIT_def SYSCALL_WAITPID_def SYSCALL_SBRK_def SYSCALL_ISATTY_def SYSCALL_GETPID_def SYSCALL_LSEEK_def SYSCALL_FCNTL_def SYSCALL_IOCTL_def SYSCALL_FSTAT_def SYSCALL_STAT_def SYSCALL_LINK_def SYSCALL_UNLINK_def SYSCALL_TIMES_def SYSCALL_KILL_def SYSCALL_SIGACTION_def SYSCALL_SIGRETURN_def

lemmas user_numbers =
  USER_SYSCALL_OPEN_def USER_SYSCALL_CLOSE_def USER_SYSCALL_READ_def USER_SYSCALL_WRITE_def USER_SYSCALL_FORK_def USER_SYSCALL_EXECVE_def USER_SYSCALL_EXIT_def USER_SYSCALL_WAITPID_def USER_SYSCALL_SBRK_def USER_SYSCALL_ISATTY_def USER_SYSCALL_GETPID_def USER_SYSCALL_LSEEK_def USER_SYSCALL_FCNTL_def USER_SYSCALL_IOCTL_def USER_SYSCALL_FSTAT_def USER_SYSCALL_STAT_def USER_SYSCALL_LINK_def USER_SYSCALL_UNLINK_def USER_SYSCALL_TIMES_def USER_SYSCALL_KILL_def USER_SYSCALL_SIGACTION_def USER_SYSCALL_SIGRETURN_def



section \<open>Errors and signals\<close>

text \<open>The codes of the kernel's failures and the numbers that the C library gets for them.\<close>

lemma result_to_errno_failure:
  "result_to_errno codes (failure SYSCALL_RESULT_BAD_PARAMETER) = EINVAL codes"
  "result_to_errno codes (failure SYSCALL_RESULT_BUSY) = EBUSY codes"
  "result_to_errno codes (failure SYSCALL_RESULT_OUT_OF_MEMORY) = ENOMEM codes"
  "result_to_errno codes (failure SYSCALL_RESULT_WOULD_BLOCK) = EAGAIN codes"
  "result_to_errno codes (failure SYSCALL_RESULT_FAIL) = EIO codes"
  by (simp_all add: result_to_errno_def failure_def USER_SYSCALL_RESULT_BAD_PARAMETER_def USER_SYSCALL_RESULT_BUSY_def
      USER_SYSCALL_RESULT_OUT_OF_MEMORY_def USER_SYSCALL_RESULT_WOULD_BLOCK_def)

lemma failure_negative: "r \<noteq> SYSCALL_RESULT_OK \<Longrightarrow> sint (failure r) < 0"
  by (cases r) (simp_all add: failure_def)

text \<open>A break in the upper half of the addresses is taken for an error, though the heap may reach there.\<close>

lemma glue_sbrk_high_break:
  assumes "user_sbrk 0 trap regs s = Some (b, s')" "0x80000000 \<le> b" "b \<le> USER_HEAP_VIRTUAL_CEILING"
  shows "glue_sbrk codes 0 trap regs (errno, s) = Some (- 1, EIO codes, s')"
proof -
  have b: "2147483648 \<le> uint b" "uint b \<le> 3220164608"
    using assms(2,3) by (simp_all add: word_le_def USER_HEAP_VIRTUAL_CEILING_def USER_STACK_TOP_def PAGE_SIZE_def)
  have "(uint b + 2147483648) mod 4294967296 = uint b - 2147483648"
    using b by (simp add: mod_pos_pos_trivial flip: minus_mod_self2 [of "uint b + 2147483648"])
  then have "sint b = uint b - 2 ^ 32" by (simp add: sint_uint signed_take_bit_eq_take_bit_shift take_bit_eq_mod)
  then have n: "sint b < 0" using b by simp
  have "uint (- b) = 2 ^ 32 - uint b" using b by (simp add: uint_word_ariths zmod_zminus1_eq_if)
  then have "uint (- b) > 5" using b by simp
  then have "- b \<noteq> 2" "- b \<noteq> 3" "- b \<noteq> 4" "- b \<noteq> 5" by auto
  then have "result_to_errno codes b = EIO codes"
    by (simp add: result_to_errno_def USER_SYSCALL_RESULT_BAD_PARAMETER_def USER_SYSCALL_RESULT_BUSY_def
        USER_SYSCALL_RESULT_OUT_OF_MEMORY_def USER_SYSCALL_RESULT_WOULD_BLOCK_def)
  then show ?thesis using assms(1) n by (simp add: glue_sbrk_def with_errno_def)
qed

text \<open>
  The function \<^verbatim>\<open>signal\<close> of the user library. For a number out of range, and for \<^verbatim>\<open>SIGKILL\<close>, it gives
  \<^verbatim>\<open>SIG_ERR\<close> and no handler changes. For every other signal it gives the handler that was
  installed and installs the new one for exactly this signal; no other task changes, and in the memory of
  the program only its two structures on the stack are written.
\<close>

theorem user_signal_installs:
  fixes s :: "'a kernel_sys_scheme"
  assumes "t = task_current s" "t \<noteq> 0" "syscall_retry (tasks s t) = 0" "act \<noteq> 0" "oldact \<noteq> 0"
    "act < 0xBFFFFFFC" "oldact < 0xBFFFFFFC" "range_of act 4 \<inter> range_of oldact 4 = {}"
  shows "\<exists>r s'. user_signal act oldact sig handler syscall_handler regs s = Some (r, s') \<and>
    (if sint sig \<le> 0 \<or> 32 \<le> sint sig \<or> sig = SYSCALL_SIGKILL
     then r = SIG_ERR \<and> signal_handlers (tasks s' t) = signal_handlers (tasks s t)
     else r = signal_handlers (tasks s t) sig \<and> signal_handlers (tasks s' t) = (signal_handlers (tasks s t))(sig := handler)) \<and>
    (\<forall>p. p \<noteq> t \<longrightarrow> tasks s' p = tasks s p) \<and>
    (\<forall>q. q \<notin> range_of act 4 \<union> range_of oldact 4 \<longrightarrow> heap_data s' q = heap_data s q)"
proof -
  let ?s = "s\<lparr>heap_data := store_u32 act handler (heap_data s)\<rparr>"
  have t: "task_current ?s \<noteq> 0" "syscall_retry (tasks ?s (task_current ?s)) = 0" using assms by simp_all
  have "reaches (user_sigaction sig act oldact syscall_handler regs ?s) (\<lambda>u. Some (syscall_sigaction u)) [sig, act, oldact] ?s"
    unfolding user_sigaction_def by (rule syscall3_reaches [OF t]) (simp add: syscall_dispatch_def syscall_numbers user_numbers)
  then obtain u e where u: "caller_task u = t" "\<forall>i < 3. SYSCALL_GET_PARAMETER (of_nat i) u = [sig, act, oldact] ! i"
      "heap_data u = heap_data ?s" "tasks u = (tasks s)(t := (tasks s t)\<lparr>syscall_execution := e\<rparr>)"
      "user_sigaction sig act oldact syscall_handler regs ?s =
        map_option (\<lambda>(r, v). (r, v\<lparr>syscall_frame := (syscall_frame v)\<lparr>frame_eax := r\<rparr>\<rparr>)) (Some (syscall_sigaction u))"
    using assms(1) unfolding reaches_def by auto
  have pr: "SYSCALL_GET_PARAMETER 0 u = sig" "SYSCALL_GET_PARAMETER 1 u = act" "SYSCALL_GET_PARAMETER 2 u = oldact"
    using u(2) [rule_format, of 0] u(2) [rule_format, of 1] u(2) [rule_format, of 2] by simp_all
  have v: "syscall_validate_user_buffer p sizeof_sigaction u = SYSCALL_RESULT_OK" if "p < 0xBFFFFFFC" for p
  proof -
    have "unat p < 0xBFFFFFFC" using that by (simp add: word_less_nat_alt)
    moreover from this have "unat (p + 4) = unat p + 4" by (simp add: unat_word_ariths)
    ultimately have "\<not> p \<ge> 0xC0000000" "\<not> p + 4 < p" "\<not> p + 4 > 0xC0000000" by (simp_all add: word_less_nat_alt word_le_nat_alt)
    then show ?thesis by (simp add: syscall_validate_user_buffer_def sizeof_sigaction_def Let_def KERNEL_VIRTUAL_SPACE_START_def)
  qed
  have m: "load_u32 (store_u32 oldact x (store_u32 act handler (heap_data s))) act = handler" for x
  proof -
    have "load_u32 (store_u32 oldact x (store_u32 act handler (heap_data s))) act = load_u32 (store_u32 act handler (heap_data s)) act"
      by (rule load_u32_cong) (use assms(8) in \<open>auto intro!: store_u32_other\<close>)
    then show ?thesis by simp
  qed
  have o: "store_u32 oldact x (store_u32 act handler (heap_data s)) q = heap_data s q" "store_u32 act handler (heap_data s) q = heap_data s q"
    if "q \<notin> range_of act 4 \<union> range_of oldact 4" for x q
    using that by (simp_all add: store_u32_other)
  show ?thesis
  proof (cases "sint sig \<le> 0 \<or> 32 \<le> sint sig \<or> sig = SYSCALL_SIGKILL")
    case True
    then have "syscall_sigaction u = (failure SYSCALL_RESULT_BAD_PARAMETER, u)" using pr by (auto simp: syscall_sigaction_def Let_def SYSCALL_NSIG_def)
    then show ?thesis using u(3-5) True failure_negative [of SYSCALL_RESULT_BAD_PARAMETER] o(2) by (auto simp: user_signal_def)
  next
    case False
    then have "syscall_sigaction u = (0, upd_caller (\<lambda>x. x\<lparr>signal_handlers := (signal_handlers x)(sig := handler)\<rparr>)
        (u\<lparr>heap_data := store_u32 oldact (signal_handlers (tasks s t) sig) (store_u32 act handler (heap_data s))\<rparr>))"
      using pr v [OF assms(6)] v [OF assms(7)] assms(4,5) u(1,3,4) m by (auto simp: syscall_sigaction_def Let_def SYSCALL_NSIG_def)
    then show ?thesis using u False o(1) by (auto simp: user_signal_def upd_caller_def upd_task_def)
  qed
qed

theorem user_signal_installs_witness:
  "\<exists>r s'. user_signal 0xBFFFDF00 0xBFFFDF08 8 0x400123 syscall_handler zero_frame sample_sys = Some (r, s') \<and>
    r = SYSCALL_SIG_DFL \<and> signal_handlers (tasks s' 0x200) 8 = 0x400123"
proof -
  have s: "0x200 = task_current sample_sys" "(0x200 :: u32) \<noteq> 0" "syscall_retry (tasks sample_sys 0x200) = 0"
    "signal_handlers (tasks sample_sys 0x200) 8 = SYSCALL_SIG_DFL"
    by (simp_all add: sample_sys_fields sample_tasks_def zero_task_def SYSCALL_SIG_DFL_def)
  have "range_of (0xBFFFDF00 :: u32) 4 \<inter> range_of 0xBFFFDF08 4 = {}" by (auto simp: in_range_of_4)
  from user_signal_installs [OF s(1-3) _ _ _ _ this, where sig = 8 and handler = "0x400123" and regs = zero_frame]
  obtain r s' where "user_signal 0xBFFFDF00 0xBFFFDF08 8 0x400123 syscall_handler zero_frame sample_sys = Some (r, s')"
    "r = signal_handlers (tasks sample_sys 0x200) 8" "signal_handlers (tasks s' 0x200) = (signal_handlers (tasks sample_sys 0x200))(8 := 0x400123)"
    by (auto simp: SYSCALL_SIGKILL_def)
  then show ?thesis using s(4) by simp
qed

end
