(* ===== verification/Shell.thy ===== *)
theory Shell
  imports CString "HOL-Library.Monad_Syntax"
begin

text \<open>
  The shell, \<^verbatim>\<open>initrd/src/shell.c\<close>: it turns scancodes into characters, edits a line, and starts the programs
  that the line names. The line is an array on the stack, at an address in the memory of the
  program; \<^verbatim>\<open>strtok\<close> of the C library is the function with the same contract in \<open>CString\<close>. What the shell asks
  of the system is a list of events; what the system answers is part of the input.
\<close>

unbundle bit_operations_syntax

section \<open>Keys\<close>

definition back_space :: char where "back_space = CHR 0x08"
definition tabulator :: char where "tabulator = CHR 0x09"
definition new_line :: char where "new_line = CHR 0x0A"

definition keymap :: "char list" where
  "keymap = [nul, nul] @ ''1234567890-='' @ [back_space, tabulator] @ ''qwertyuiop[]'' @ [new_line, nul] @
     ''asdfghjkl;'' @ [CHR 0x27, CHR 0x60, nul, CHR 0x5C] @ ''zxcvbnm,./'' @ [nul] @ ''*'' @ [nul] @ '' '' @ replicate 70 nul"

definition keymap_shift :: "char list" where
  "keymap_shift = [nul, nul] @ ''!@#$%^&*()_+'' @ [back_space, tabulator] @ ''QWERTYUIOP{}'' @ [new_line, nul] @
     ''ASDFGHJKL:'' @ [CHR 0x22, CHR ''~'', nul, CHR ''|''] @ ''ZXCVBNM<>?'' @ [nul] @ ''*'' @ [nul] @ '' '' @ replicate 70 nul"

section \<open>Commands\<close>

definition LINE_MAX :: u32 where "LINE_MAX = 256"
definition ARGV_MAX :: nat where "ARGV_MAX = 16"

text \<open>What a program asks of the system: its calls, and the text it prints on the two standard streams of the C library.\<close>

datatype user_event =
    Write u32 "char list"
  | Open "char list" u32
  | Close u32
  | Lseek u32 u32 u32
  | Ioctl u32 u32
  | Signal u32
  | Output_text "char list"
  | Error_text "char list"
  | Fork
  | Execve "char list" "char list list"
  | Waitpid u32 u32
  | Exit u32

definition put_char :: "char \<Rightarrow> user_event list" where
  "put_char c = [Write 1 [c]]"

definition put_str :: "char list \<Rightarrow> user_event list" where
  "put_str s = [Write 1 s]"

text \<open>The loop of \<^verbatim>\<open>parse_args\<close> with the number of slots of \<^verbatim>\<open>argv\<close> that are left, but for the last one.\<close>

primrec parse_loop :: "nat \<Rightarrow> u32 \<Rightarrow> u32 \<Rightarrow> u32 \<Rightarrow> cmem \<Rightarrow> (u32 list \<times> u32 \<times> cmem) option" where
  "parse_loop 0 delim tok last_pos m = Some ([], last_pos, m)"
| "parse_loop (Suc n) delim tok last_pos m =
     (if tok = 0 then Some ([], last_pos, m)
      else do {
        (m, last_pos, next_tok) \<leftarrow> strtok m last_pos 0 delim;
        (argv, last_pos, m) \<leftarrow> parse_loop n delim next_tok last_pos m;
        Some (tok # argv, last_pos, m)
      })"

definition parse_args :: "u32 \<Rightarrow> u32 \<Rightarrow> u32 \<Rightarrow> cmem \<Rightarrow> (u32 list \<times> u32 \<times> cmem) option" where
  "parse_args delim line last_pos m = do {
     (m, last_pos, tok) \<leftarrow> strtok m last_pos line delim;
     parse_loop (ARGV_MAX - 1) delim tok last_pos m
   }"

definition string_at :: "cmem \<Rightarrow> u32 \<Rightarrow> char list option" where
  "string_at m p = do {
     n \<leftarrow> strlen m p;
     Some (bytes_at m p (unat n))
   }"

text \<open>
  The command of a line, given the results of \<^verbatim>\<open>fork\<close> and of \<^verbatim>\<open>execve\<close>. The flag tells whether the shell (or the
  child, whose \<^verbatim>\<open>execve\<close> has not failed) goes on.
\<close>

definition run_command ::
    "u32 \<Rightarrow> u32 \<Rightarrow> int \<Rightarrow> int \<Rightarrow> u32 \<Rightarrow> cmem \<Rightarrow> (user_event list \<times> bool \<times> u32 \<times> cmem) option" where
  "run_command delim line pid result last_pos m = do {
     (argv, last_pos, m) \<leftarrow> parse_args delim line last_pos m;
     args \<leftarrow> those (map (string_at m) argv);
     Some (case args of [] \<Rightarrow> ([], True, last_pos, m)
       | name # _ \<Rightarrow>
           if name = ''exit'' then ([Exit 0], False, last_pos, m)
           else if pid = 0
           then (if result < 0
             then ([Fork, Execve name args, Error_text (''unknown command: '' @ name @ [new_line]), Exit (word_of_int result)], False, last_pos, m)
             else ([Fork, Execve name args], True, last_pos, m))
           else ([Fork, Waitpid (- 1) 0], True, last_pos, m))
   }"

section \<open>The loop\<close>

record shell_t =
  shell_memory :: cmem
  shell_last_pos :: u32
  line_length :: int
  shell_shift :: bool

text \<open>What the system answers in one turn: the result of \<^verbatim>\<open>read\<close> with its byte, and those of \<^verbatim>\<open>fork\<close> and \<^verbatim>\<open>execve\<close>.\<close>

record shell_input =
  read_result :: int
  scancode :: u8
  fork_result :: int
  execve_result :: int

text \<open>A write outside of the array is a fault.\<close>

definition put_line :: "u32 \<Rightarrow> int \<Rightarrow> char \<Rightarrow> cmem \<Rightarrow> cmem option" where
  "put_line line i c m = (if 0 \<le> i \<and> i < uint LINE_MAX then Some (m(line + word_of_int i := c)) else None)"

definition shell_turn ::
    "u32 \<Rightarrow> u32 \<Rightarrow> shell_input \<Rightarrow> shell_t \<Rightarrow> (user_event list \<times> bool \<times> shell_t) option" where
  "shell_turn delim line inp s =
     (let released = scancode inp AND 0x80; key = scancode inp AND 0x7F;
          character = (if shell_shift s then keymap_shift else keymap) ! unat key
      in if read_result inp \<le> 0 then Some ([], True, s)
         else if key = 42 \<or> key = 54 then Some ([], True, s\<lparr>shell_shift := (released = 0)\<rparr>)
         else if released \<noteq> 0 then Some ([], True, s)
         else if character = nul then Some ([], True, s)
         else if character = back_space
         then (if line_length s > 0 then Some (put_char character, True, s\<lparr>line_length := line_length s - 1\<rparr>) else Some ([], True, s))
         else if character = new_line
         then do {
           m \<leftarrow> put_line line (line_length s) nul (shell_memory s);
           (events, goes_on, last_pos, m) \<leftarrow> run_command delim line (fork_result inp) (execve_result inp) (shell_last_pos s) m;
           Some (put_char character @ events @ (if goes_on then put_str ''> '' else []), goes_on,
             s\<lparr>shell_memory := m, shell_last_pos := last_pos, line_length := 0\<rparr>)
         }
         else if line_length s < uint LINE_MAX - 1
         then do {
           m \<leftarrow> put_line line (line_length s) character (shell_memory s);
           Some (put_char character, True, s\<lparr>shell_memory := m, line_length := line_length s + 1\<rparr>)
         }
         else Some ([], True, s))"

fun shell_loop :: "u32 \<Rightarrow> u32 \<Rightarrow> shell_input list \<Rightarrow> shell_t \<Rightarrow> (user_event list \<times> shell_t) option" where
  "shell_loop delim line [] s = Some ([], s)"
| "shell_loop delim line (inp # inps) s = do {
     (events, goes_on, s) \<leftarrow> shell_turn delim line inp s;
     if goes_on
     then do {
       (more, s) \<leftarrow> shell_loop delim line inps s;
       Some (events @ more, s)
     }
     else Some (events, s)
   }"

text \<open>The shell up to the point where the given inputs are used up.\<close>

definition shell_main :: "u32 \<Rightarrow> u32 \<Rightarrow> shell_input list \<Rightarrow> cmem \<Rightarrow> u32 \<Rightarrow> (user_event list \<times> shell_t) option" where
  "shell_main delim line inps m last_pos = do {
     (events, s) \<leftarrow> shell_loop delim line inps \<lparr>shell_memory = m, shell_last_pos = last_pos, line_length = 0, shell_shift = False\<rparr>;
     Some (put_str ''> '' @ events, s)
   }"

lemma keymap_length: "length keymap = 128" "length keymap_shift = 128"
  by (simp_all add: keymap_def keymap_shift_def)

section \<open>Splitting a line\<close>

lemma unat_add_of_nat: "unat p + n < 2 ^ 32 \<Longrightarrow> unat (p + of_nat n) = unat p + n" for p :: u32
  by (simp add: unat_word_ariths unat_of_nat)

lemma strtok_at:
  assumes ds: "cstr_at m d ds" and s: "cstr_at m p s" and start: "p = (if str \<noteq> 0 then str else last_pos)" "p \<noteq> 0"
  defines "q \<equiv> p + of_nat (length s - length (token_skip ds s))" and "n \<equiv> length (token_of ds s)"
  shows "strtok m last_pos str d =
    Some (if token_skip ds s = [] then (m, q, 0)
      else if n = length (token_skip ds s) then (m, q + of_nat n, q) else (m(q + of_nat n := nul), q + of_nat n + 1, q))"
proof -
  have k: "length (takeWhile (\<lambda>c. c \<in> set ds) s) = length s - length (token_skip ds s)"
    using arg_cong [OF takeWhile_dropWhile_id [of "\<lambda>c. c \<in> set ds" s], of length] by (simp add: token_skip_def del: takeWhile_dropWhile_id)
  have skip: "strtok_skip m d p = Some q" using strtok_skip_of_string [OF ds s] k by (simp add: q_def)
  have at_q: "cstr_at m q (token_skip ds s)"
    using cstr_at_append [of m p "takeWhile (\<lambda>c. c \<in> set ds) s" "token_skip ds s"] s k by (simp add: token_skip_def q_def)
  show ?thesis
  proof (cases "s = []")
    case True
    then show ?thesis using s start by (simp add: strtok_def Let_def token_skip_def q_def)
  next
    case False
    then have "m p \<noteq> nul" using s by (cases s) auto
    moreover have "m q = nul \<longleftrightarrow> token_skip ds s = []" using at_q by (cases "token_skip ds s") auto
    ultimately show ?thesis using skip start strtok_scan_of_string [OF ds at_q]
      by (auto simp: strtok_def Let_def n_def token_of_def)
  qed
qed

primrec take_tokens :: "nat \<Rightarrow> char list \<Rightarrow> char list \<Rightarrow> char list list" where
  "take_tokens 0 ds s = []"
| "take_tokens (Suc n) ds s = (if token_skip ds s = [] then [] else token_of ds s # take_tokens n ds (token_rest ds s))"

lemma token_parts:
  assumes "token_skip ds s \<noteq> []"
  shows "length (token_of ds s) + (if token_of ds s = token_skip ds s then 0 else Suc (length (token_rest ds s))) = length (token_skip ds s)"
    "length (token_skip ds s) \<le> length s"
proof -
  have "token_skip ds s = token_of ds s @ dropWhile (\<lambda>c. c \<notin> set ds) (token_skip ds s)" by (simp add: token_of_def)
  then have l: "length (token_skip ds s) = length (token_of ds s) + length (dropWhile (\<lambda>c. c \<notin> set ds) (token_skip ds s))"
    by (metis length_append)
  show "length (token_of ds s) + (if token_of ds s = token_skip ds s then 0 else Suc (length (token_rest ds s))) = length (token_skip ds s)"
  proof (cases "dropWhile (\<lambda>c. c \<notin> set ds) (token_skip ds s) = []")
    case True
    then have "token_of ds s = token_skip ds s" using takeWhile_dropWhile_id [of "\<lambda>c. c \<notin> set ds" "token_skip ds s"] by (simp add: token_of_def)
    then show ?thesis by simp
  next
    case False
    then have "token_of ds s \<noteq> token_skip ds s" using l by auto
    moreover have "length (token_rest ds s) + 1 = length (dropWhile (\<lambda>c. c \<notin> set ds) (token_skip ds s))"
      using False by (simp add: token_rest_def)
    ultimately show ?thesis using l by simp
  qed
  show "length (token_skip ds s) \<le> length s" by (simp add: token_skip_def length_dropWhile_le)
qed

text \<open>
  One call of \<^verbatim>\<open>strtok\<close> on the string at \<open>p\<close>: the token, then at a higher address the rest, and no byte
  outside of the string changes.
\<close>

lemma strtok_step:
  assumes ds: "cstr_at m d ds" and s: "cstr_at m p s" and start: "p = (if str \<noteq> 0 then str else last_pos)" "p \<noteq> 0"
    and len: "unat p + length s < 2 ^ 32"
  obtains (none) "token_skip ds s = []" "\<exists>q. strtok m last_pos str d = Some (m, q, 0)"
  | (token) m' q k where "token_skip ds s \<noteq> []" "strtok m last_pos str d = Some (m', q, k)" "k \<noteq> 0"
      "cstr_at m' k (token_of ds s)" "cstr_at m' q (token_rest ds s)"
      "unat p \<le> unat k" "unat k + length (token_of ds s) \<le> unat q" "unat q + length (token_rest ds s) \<le> unat p + length s"
      "token_rest ds s \<noteq> [] \<Longrightarrow> unat k + length (token_of ds s) < unat q"
      "\<And>x. x \<notin> range_of p (length s) \<Longrightarrow> m' x = m x"
proof (cases "token_skip ds s = []")
  case True
  then show thesis using none strtok_at [OF ds s start] by auto
next
  case False
  define k where "k = length s - length (token_skip ds s)"
  let ?n = "length (token_of ds s)" and ?q = "p + of_nat k"
  note P = token_parts(1) [OF False]
  have k: "k + length (token_skip ds s) = length s" using token_parts(2) [OF False] by (simp add: k_def)
  note run = strtok_at [OF ds s start, folded k_def]
  have uq: "unat ?q = unat p + k" "unat (?q + of_nat ?n) = unat p + k + ?n"
    using P k len unat_add_of_nat [of p k] unat_add_of_nat [of p "k + ?n"] by (simp_all add: add.assoc split: if_splits)
  have n0: "?q \<noteq> 0" using uq(1) start(2) by (auto simp: unat_eq_zero [symmetric])
  have "takeWhile (\<lambda>c. c \<in> set ds) s @ token_skip ds s = s" by (simp add: token_skip_def)
  moreover have "length (takeWhile (\<lambda>c. c \<in> set ds) s) = k" using arg_cong [OF calculation, of length] k by simp
  ultimately have at: "cstr_at m ?q (token_skip ds s)" using cstr_at_append s by metis
  have inr: "x \<in> range_of p (length s)" if "unat p \<le> unat x" "unat x < unat p + length s" for x
    using that len by (subst in_range_of) (auto simp: unat_sub word_le_nat_alt)
  show thesis
  proof (cases "token_of ds s = token_skip ds s")
    case True
    have r: "token_rest ds s = []"
    proof -
      have "dropWhile (\<lambda>c. c \<notin> set ds) (token_skip ds s) = []"
        using True takeWhile_eq_all_conv unfolding token_of_def by (metis dropWhile_eq_Nil_conv)
      then show ?thesis unfolding token_rest_def by (metis list.sel(2))
    qed
    have "cstr_at m (?q + of_nat ?n) []" using cstr_at_append [of m ?q "token_skip ds s" "[]"] at True by simp
    then show thesis
      using token [of m "?q + of_nat ?n" ?q] False run True at n0 uq P k r by simp
  next
    case False': False
    then have l: "?n + Suc (length (token_rest ds s)) = length (token_skip ds s)" using P by simp
    have tk: "token_skip ds s = token_of ds s @ dropWhile (\<lambda>c. c \<notin> set ds) (token_skip ds s)" by (simp add: token_of_def)
    then obtain c where c: "token_skip ds s = token_of ds s @ c # token_rest ds s"
      using False' by (cases "dropWhile (\<lambda>c. c \<notin> set ds) (token_skip ds s)") (auto simp: token_rest_def)
    have u1: "unat (?q + of_nat ?n + 1) = unat p + k + ?n + 1" using uq(2) P l k len by (simp add: unat_word_ariths)
    let ?m = "m(?q + of_nat ?n := nul)"
    have lt: "length (token_of ds s) < 2 ^ 32" using P l k len by linarith
    have a: "cstr_at ?m ?q (token_of ds s)" using cstr_at_cut [OF at [unfolded c] lt] .
    have "cstr_at m (?q + of_nat ?n + 1) (token_rest ds s)"
      using cstr_at_append [of m ?q "token_of ds s @ [c]" "token_rest ds s"] at c by (simp add: algebra_simps)
    then have b: "cstr_at ?m (?q + of_nat ?n + 1) (token_rest ds s)"
      by (rule cstr_at_update) (rule range_of_front, use P l k len in linarith)
    have o: "?m x = m x" if "x \<notin> range_of p (length s)" for x
      using inr [of "?q + of_nat ?n"] that uq P k l by auto
    show thesis
      using token [of ?m "?q + of_nat ?n + 1" ?q] False run l a b n0 uq u1 P k o by auto
  qed
qed

lemma string_at_cstr:
  assumes "cstr_at m p s" "length s < 2 ^ 32"
  shows "string_at m p = Some s"
proof -
  have "bytes_at m p (length s) = s"
    using assms(1)
  proof (induction s arbitrary: p)
    case (Cons c s)
    then show ?case using Cons.IH [of "p + 1"]
      by (simp add: bytes_at_def upt_conv_Cons map_Suc_upt [symmetric] o_def add.assoc del: upt_Suc)
  qed (simp add: bytes_at_def)
  then show ?thesis using assms strlen_of_string [OF assms(1)] by (simp add: string_at_def unat_of_nat_u32)
qed

lemma string_at_all: "list_all2 (cstr_at m) argv ss \<Longrightarrow> \<forall>s \<in> set ss. length s < 2 ^ 32 \<Longrightarrow> those (map (string_at m) argv) = Some ss"
  by (induction rule: list_all2_induct) (auto simp: string_at_cstr)

text \<open>The tokens that a line has, from the call of \<^verbatim>\<open>strtok\<close> on: each is a string of its own in the end.\<close>

lemma parse_tokens:
  assumes "cstr_at m d ds" "cstr_at m p s" "p = (if str \<noteq> 0 then str else last_pos)" "p \<noteq> 0" "unat p + length s < 2 ^ 32"
    and "range_of d (Suc (length ds)) \<inter> range_of p (length s) = {}"
  shows "\<exists>m1 q tok argv last' m'. strtok m last_pos str d = Some (m1, q, tok) \<and> parse_loop n d tok q m1 = Some (argv, last', m') \<and>
    list_all2 (cstr_at m') argv (take_tokens n ds s) \<and> (\<forall>x. x \<notin> range_of p (length s) \<longrightarrow> m' x = m x)"
  using assms
proof (induction n arbitrary: m p s str last_pos)
  case 0
  show ?case by (rule strtok_step [OF 0(1-5)]) (auto simp: list_all2_Nil2)
next
  case (Suc n)
  show ?case
  proof (rule strtok_step [OF Suc.prems(1-5)])
    assume "token_skip ds s = []" "\<exists>q. strtok m last_pos str d = Some (m, q, 0)"
    then show ?thesis by auto
  next
    fix m1 q k
    let ?t = "token_of ds s" and ?r = "token_rest ds s"
    assume k: "token_skip ds s \<noteq> []" "strtok m last_pos str d = Some (m1, q, k)" "k \<noteq> 0" "cstr_at m1 k ?t" "cstr_at m1 q ?r"
      "unat p \<le> unat k" "unat k + length ?t \<le> unat q" "unat q + length ?r \<le> unat p + length s"
      "?r \<noteq> [] \<Longrightarrow> unat k + length ?t < unat q" "\<And>x. x \<notin> range_of p (length s) \<Longrightarrow> m1 x = m x"
    have in_r: "x \<in> range_of a j \<longleftrightarrow> unat a \<le> unat x \<and> unat x < unat a + j" if "unat a + j \<le> 2 ^ 32" for x a :: u32 and j
      using that by (subst in_range_of) (auto simp: unat_sub_if' unat_u32)
    have sub: "range_of q (length ?r) \<subseteq> range_of p (length s)"
      using k(6-8) Suc.prems(5) by (auto simp: in_r)
    have q0: "q \<noteq> 0" using k(3,7) by (metis le_zero_eq add_is_0 unat_eq_zero)
    have d1: "cstr_at m1 d ds" by (rule cstr_at_frame [OF Suc.prems(1)]) (use k(10) Suc.prems(6) in auto)
    obtain m2 q2 tok argv last' m' where I: "strtok m1 q 0 d = Some (m2, q2, tok)" "parse_loop n d tok q2 m2 = Some (argv, last', m')"
      "list_all2 (cstr_at m') argv (take_tokens n ds ?r)" "\<And>x. x \<notin> range_of q (length ?r) \<Longrightarrow> m' x = m1 x"
      using Suc.IH [OF d1 k(5), of 0 q] q0 k(8) Suc.prems(5,6) sub by fastforce
    have "x \<notin> range_of q (length ?r)" if "x \<in> range_of k (Suc (length ?t))" for x
      using that k(6-9) Suc.prems(5) by (cases "?r = []") (auto simp: in_r)
    then have "cstr_at m' k ?t" using cstr_at_frame [OF k(4)] I(4) by blast
    then have "list_all2 (cstr_at m') (k # argv) (take_tokens (Suc n) ds s)" using I(3) k(1) by simp
    moreover have "\<forall>x. x \<notin> range_of p (length s) \<longrightarrow> m' x = m x" using I(4) k(10) sub by fastforce
    ultimately show ?thesis using k(2,3) I(1,2) by auto
  qed
qed

section \<open>The editor on lists\<close>

text \<open>
  What the shell promises, on lists: the text of the line is a list of at most 255 characters; the
  command of a line is made of its first 15 words.
\<close>

definition editor_command :: "int \<Rightarrow> int \<Rightarrow> char list \<Rightarrow> user_event list \<times> bool" where
  "editor_command pid result typed =
     (case take_tokens 15 '' '' typed of [] \<Rightarrow> ([], True)
      | name # args \<Rightarrow>
          if name = ''exit'' then ([Exit 0], False)
          else if pid \<noteq> 0 then ([Fork, Waitpid (- 1) 0], True)
          else if 0 \<le> result then ([Fork, Execve name (name # args)], True)
          else ([Fork, Execve name (name # args), Error_text (''unknown command: '' @ name @ [new_line]), Exit (word_of_int result)], False))"

definition editor_turn :: "shell_input \<Rightarrow> char list \<times> bool \<Rightarrow> user_event list \<times> bool \<times> char list \<times> bool" where
  "editor_turn inp = (\<lambda>(typed, shift).
     let key = unat (scancode inp) mod 128; pressed = (unat (scancode inp) < 128); c = (if shift then keymap_shift else keymap) ! key
     in if read_result inp \<le> 0 then ([], True, typed, shift)
        else if key \<in> {42, 54} then ([], True, typed, pressed)
        else if \<not> pressed \<or> c = nul then ([], True, typed, shift)
        else if c = back_space then (if typed = [] then ([], True, typed, shift) else ([Write 1 [c]], True, butlast typed, shift))
        else if c = new_line
        then (case editor_command (fork_result inp) (execve_result inp) typed of (events, goes_on) \<Rightarrow>
          (Write 1 [c] # events @ (if goes_on then [Write 1 ''> ''] else []), goes_on, [], shift))
        else if length typed < 255 then ([Write 1 [c]], True, typed @ [c], shift)
        else ([], True, typed, shift))"

primrec editor_loop :: "shell_input list \<Rightarrow> char list \<times> bool \<Rightarrow> user_event list \<times> char list \<times> bool" where
  "editor_loop [] e = ([], e)"
| "editor_loop (inp # inps) e =
     (let (events, goes_on, e) = editor_turn inp e
      in if goes_on then (let (more, e) = editor_loop inps e in (events @ more, e)) else (events, e))"

definition shell_inv :: "u32 \<Rightarrow> cmem \<Rightarrow> shell_t \<Rightarrow> char list \<times> bool \<Rightarrow> bool" where
  "shell_inv line m s = (\<lambda>(typed, shift).
     line_length s = int (length typed) \<and> length typed \<le> 255 \<and> nul \<notin> set typed \<and> shell_shift s = shift \<and>
     bytes_at (shell_memory s) line (length typed) = typed \<and>
     (\<forall>x. x \<notin> range_of line 256 \<longrightarrow> shell_memory s x = m x))"

lemma cstr_at_bytes: "nul \<notin> set s \<Longrightarrow> bytes_at m p (length s) = s \<Longrightarrow> m (p + of_nat (length s)) = nul \<Longrightarrow> cstr_at m p s"
proof (induction s arbitrary: p)
  case (Cons c s)
  then show ?case using Cons.IH [of "p + 1"]
    by (auto simp: bytes_at_def upt_conv_Cons map_Suc_upt [symmetric] o_def add.assoc simp del: upt_Suc)
qed simp

lemma take_tokens_short: "t \<in> set (take_tokens n ds s) \<Longrightarrow> length t \<le> length s"
proof (induction n arbitrary: s)
  case (Suc n)
  then have skip: "token_skip ds s \<noteq> []" by (auto split: if_splits)
  note P = token_parts [OF skip]
  from Suc.prems skip consider "t = token_of ds s" | "t \<in> set (take_tokens n ds (token_rest ds s))" by auto
  then show ?case
  proof cases
    case 1
    then show ?thesis using P by auto
  next
    case 2
    have "length (token_rest ds s) \<le> length (token_skip ds s)"
      unfolding token_rest_def length_tl by (rule le_trans [OF diff_le_self length_dropWhile_le])
    then show ?thesis using 2 Suc.IH P(2) by fastforce
  qed
qed simp

lemma run_command_editor:
  assumes s: "cstr_at m line typed" "line \<noteq> 0" "unat line + 256 \<le> 2 ^ 32" "length typed \<le> 255"
    and d: "cstr_at m delim '' ''" "range_of delim 2 \<inter> range_of line 256 = {}"
  shows "\<exists>last' m'. run_command delim line pid result last_pos m =
      Some (fst (editor_command pid result typed), snd (editor_command pid result typed), last', m') \<and>
    (\<forall>x. x \<notin> range_of line 256 \<longrightarrow> m' x = m x)"
proof -
  have sub: "range_of line (length typed) \<subseteq> range_of line 256" using s(4) by (auto simp: range_of_def)
  have dis: "range_of delim (Suc (length '' '')) \<inter> range_of line (length typed) = {}" using d(2) sub by (auto simp: numeral_2_eq_2)
  obtain m1 q tok argv last' m' where T: "strtok m last_pos line delim = Some (m1, q, tok)" "parse_loop 15 delim tok q m1 = Some (argv, last', m')"
      "list_all2 (cstr_at m') argv (take_tokens 15 '' '' typed)" "\<And>x. x \<notin> range_of line (length typed) \<Longrightarrow> m' x = m x"
    using parse_tokens [OF d(1) s(1) _ s(2) _ dis, of line last_pos 15] s(2-4) by auto
  have "those (map (string_at m') argv) = Some (take_tokens 15 '' '' typed)"
    using T(3) take_tokens_short string_at_all [of m' argv] s(4) by fastforce
  then show ?thesis using T(1,2,4) sub
    by (auto simp: run_command_def parse_args_def editor_command_def ARGV_MAX_def split: list.splits)
qed

lemma scancode_bits:
  "unat (c AND 0x7F) = unat c mod 128" "c AND 0x80 = 0 \<longleftrightarrow> unat c < 128" for c :: u8
proof -
  have "c AND 0x7F = take_bit 7 c" by (simp add: take_bit_eq_mask mask_eq_exp_minus_1)
  then show "unat (c AND 0x7F) = unat c mod 128" by (simp only: unsigned_take_bit_eq) (simp add: take_bit_eq_mod)
  have "c AND 2 ^ 7 = 0 \<longleftrightarrow> \<not> bit c 7" by (rule and_exp_eq_0_iff_not_bit)
  moreover have "bit c 7 \<longleftrightarrow> odd (unat c div 128)" using bit_unsigned_iff [where 'a = nat and w = c and n = 7] by (simp add: bit_iff_odd [of "unat c"])
  moreover have "unat c < 256" using unsigned_less [of c, where 'a = nat] by simp
  then have "odd (unat c div 128) \<longleftrightarrow> 128 \<le> unat c" by (cases "128 \<le> unat c") (auto simp: div_eq_dividend_iff le_div_geq)
  ultimately show "c AND 0x80 = 0 \<longleftrightarrow> unat c < 128" by auto
qed

lemma bytes_at_Suc: "bytes_at m p (Suc n) = bytes_at m p n @ [m (p + of_nat n)]"
  by (simp add: bytes_at_def)

lemma shell_inv_put:
  fixes c :: char
  assumes inv: "shell_inv line m s (typed, shift)" and i: "length typed < 256" "unat line + 256 \<le> 2 ^ 32"
  defines "m' \<equiv> (shell_memory s)(line + of_nat (length typed) := c)"
  shows "put_line line (line_length s) c (shell_memory s) = Some m'" "bytes_at m' line (length typed) = typed"
    "m' (line + of_nat (length typed)) = c" "\<forall>x. x \<notin> range_of line 256 \<longrightarrow> m' x = m x"
proof -
  show "put_line line (line_length s) c (shell_memory s) = Some m'"
    using inv i by (simp add: put_line_def shell_inv_def LINE_MAX_def m'_def)
  have "line + of_nat j \<noteq> line + of_nat (length typed)" if "j < length typed" for j
    using that i unat_add_of_nat [of line j] unat_add_of_nat [of line "length typed"] by auto
  then have "bytes_at m' line (length typed) = bytes_at (shell_memory s) line (length typed)"
    unfolding bytes_at_def by (intro map_cong) (auto simp: m'_def)
  then show "bytes_at m' line (length typed) = typed" using inv by (simp add: shell_inv_def)
  have "line + of_nat (length typed) \<in> range_of line 256" using i by (auto simp: range_of_def)
  then show "\<forall>x. x \<notin> range_of line 256 \<longrightarrow> m' x = m x" using inv by (auto simp: shell_inv_def m'_def)
qed (simp add: m'_def)

lemma shell_turn_editor:
  assumes inv: "shell_inv line m s (typed, shift)" and line: "line \<noteq> 0" "unat line + 256 \<le> 2 ^ 32"
    and d: "cstr_at m delim '' ''" "range_of delim 2 \<inter> range_of line 256 = {}"
    and e: "editor_turn inp (typed, shift) = (events, goes_on, e')"
  shows "\<exists>s'. shell_turn delim line inp s = Some (events, goes_on, s') \<and> shell_inv line m s' e'"
proof -
  note I = inv [unfolded shell_inv_def, simplified]
  let ?key = "unat (scancode inp) mod 128" and ?c = "(if shift then keymap_shift else keymap) ! (unat (scancode inp) mod 128)"
  have shifts: "scancode inp AND 0x7F = 42 \<or> scancode inp AND 0x7F = 54 \<longleftrightarrow> ?key \<in> {42, 54}"
    using scancode_bits(1) [of "scancode inp"] by (auto simp: unat_arith_simps)
  consider (idle) "read_result inp \<le> 0" | (shift) "0 < read_result inp" "?key \<in> {42, 54}"
    | (none) "0 < read_result inp" "?key \<notin> {42, 54}" "\<not> unat (scancode inp) < 128 \<or> ?c = nul"
    | (key) "0 < read_result inp" "?key \<notin> {42, 54}" "unat (scancode inp) < 128" "?c \<noteq> nul" by linarith
  then show ?thesis
  proof cases
    case key
    consider (erase) "?c = back_space" | (enter) "?c = new_line" | (char) "?c \<noteq> back_space" "?c \<noteq> new_line" by blast
    then show ?thesis
    proof cases
      case enter
      note P = shell_inv_put [OF inv _ line(2), of nul]
      let ?m = "(shell_memory s)(line + of_nat (length typed) := nul)"
      have l: "length typed < 256" "length typed \<le> 255" using I by simp_all
      have "cstr_at ?m line typed" by (rule cstr_at_bytes) (use I P(2,3) [OF l(1)] in simp_all)
      moreover have "cstr_at ?m delim '' ''" by (rule cstr_at_frame [OF d(1)]) (use P(4) [OF l(1)] d(2) in \<open>auto simp: numeral_2_eq_2\<close>)
      ultimately obtain last' m' where R: "run_command delim line (fork_result inp) (execve_result inp) (shell_last_pos s) ?m =
          Some (fst (editor_command (fork_result inp) (execve_result inp) typed), snd (editor_command (fork_result inp) (execve_result inp) typed), last', m')"
          "\<forall>x. x \<notin> range_of line 256 \<longrightarrow> m' x = ?m x"
        using run_command_editor [OF _ line l(2) _ d(2)] by blast
      have "shell_turn delim line inp s = Some (events, goes_on, s\<lparr>shell_memory := m', shell_last_pos := last', line_length := 0\<rparr>)" "e' = ([], shift)"
        using key e I enter R(1) P(1) [OF l(1)]
        by (simp_all add: shell_turn_def editor_turn_def Let_def scancode_bits shifts put_char_def put_str_def back_space_def new_line_def case_prod_beta split: if_splits)
      moreover have "shell_inv line m (s\<lparr>shell_memory := m', shell_last_pos := last', line_length := 0\<rparr>) ([], shift)"
        using I R(2) P(4) [OF l(1)] by (simp add: shell_inv_def bytes_at_def)
      ultimately show ?thesis by blast
    next
      case char
      show ?thesis
      proof (cases "length typed < 255")
        case True
        note P = shell_inv_put [OF inv _ line(2), of ?c]
        let ?m = "(shell_memory s)(line + of_nat (length typed) := ?c)"
        have "bytes_at ?m line (Suc (length typed)) = typed @ [?c]" using P(2) True by (simp add: bytes_at_Suc)
        then show ?thesis using key e I char P(1,4) True
          by (auto simp: shell_turn_def editor_turn_def Let_def scancode_bits shifts put_char_def shell_inv_def LINE_MAX_def)
      next
        case False
        then show ?thesis using key e I char inv
          by (auto simp: shell_turn_def editor_turn_def Let_def scancode_bits shifts LINE_MAX_def)
      qed
    next
      case erase
      then show ?thesis using key e I by (cases typed rule: rev_exhaust) (auto simp: shell_turn_def editor_turn_def Let_def scancode_bits shifts put_char_def shell_inv_def bytes_at_Suc split: if_splits)
    qed
  qed (use inv e I in \<open>auto simp: shell_turn_def editor_turn_def Let_def scancode_bits shifts shell_inv_def split: if_splits\<close>)
qed

lemma shell_loop_editor:
  assumes "shell_inv line m s e" "line \<noteq> 0" "unat line + 256 \<le> 2 ^ 32"
    "cstr_at m delim '' ''" "range_of delim 2 \<inter> range_of line 256 = {}" "editor_loop inps e = (events, e')"
  shows "\<exists>s'. shell_loop delim line inps s = Some (events, s') \<and> shell_inv line m s' e'"
  using assms
proof (induction inps arbitrary: s e events)
  case (Cons inp inps)
  obtain typed shift where e: "e = (typed, shift)" by force
  obtain ev goes_on e1 where t: "editor_turn inp e = (ev, goes_on, e1)" by (cases "editor_turn inp e") auto
  obtain s1 where s1: "shell_turn delim line inp s = Some (ev, goes_on, s1)" "shell_inv line m s1 e1"
    using shell_turn_editor [OF Cons.prems(1)[unfolded e] Cons.prems(2-5) t [unfolded e]] by blast
  show ?case
  proof (cases goes_on)
    case True
    obtain more e2 where "editor_loop inps e1 = (more, e2)" by (cases "editor_loop inps e1")
    then show ?thesis using Cons.IH [OF s1(2) Cons.prems(2-5)] Cons.prems(6) t s1(1) True by fastforce
  next
    case False
    then show ?thesis using Cons.prems(6) t s1 by auto
  qed
qed auto

text \<open>
  (C34) The shell refines an editor on lists. Whatever the keyboard sends and whatever \<^verbatim>\<open>fork\<close> and \<^verbatim>\<open>execve\<close> answer, it
  writes the same output and makes the same calls as the editor, whose line is a list that
  grows at its end, loses its last character on backspace and never has more than 255
  characters; a line is run as the command of its first 15 words. The bytes of the array are the
  characters of the line, and no byte outside of the 256 of the array is ever
  written, neither by the editing nor by the splitting.
\<close>

theorem shell_edits_lines:
  assumes "line \<noteq> 0" "unat line + 256 \<le> 2 ^ 32"
    and "cstr_at m delim '' ''" "range_of delim 2 \<inter> range_of line 256 = {}"
  shows "\<exists>s' typed shift events. editor_loop inps ([], False) = (events, typed, shift) \<and>
    shell_main delim line inps m last_pos = Some (Write 1 ''> '' # events, s') \<and>
    line_length s' = int (length typed) \<and> length typed \<le> 255 \<and> shell_shift s' = shift \<and>
    bytes_at (shell_memory s') line (length typed) = typed \<and>
    (\<forall>x. x \<notin> range_of line 256 \<longrightarrow> shell_memory s' x = m x)"
proof -
  let ?s = "\<lparr>shell_memory = m, shell_last_pos = last_pos, line_length = 0, shell_shift = False\<rparr>"
  obtain events typed shift where e: "editor_loop inps ([], False) = (events, typed, shift)" by (cases "editor_loop inps ([], False)") auto
  have "shell_inv line m ?s ([], False)" by (simp add: shell_inv_def bytes_at_def)
  then obtain s' where s': "shell_loop delim line inps ?s = Some (events, s')" "shell_inv line m s' (typed, shift)"
    using shell_loop_editor [OF _ assms e] by blast
  have "shell_main delim line inps m last_pos = Some (Write 1 ''> '' # events, s')"
    using s'(1) by (simp add: shell_main_def put_str_def)
  then show ?thesis using e s'(2) unfolding shell_inv_def by auto
qed

text \<open>Typing \<^verbatim>\<open>Ls\<close>, with shift and a correction, and running it.\<close>

definition sample_keys :: "shell_input list" where
  "sample_keys = map (\<lambda>c. \<lparr>read_result = 1, scancode = c, fork_result = 7, execve_result = 0\<rparr>) [42, 38, 170, 166, 30, 14, 31, 28, 45]"

definition sample_shell_memory :: cmem where
  "sample_shell_memory = (\<lambda>_. nul)(0x400000 := CHR '' '')"

theorem shell_edits_lines_witness:
  "fst (editor_loop sample_keys ([], False)) =
     [Write 1 ''L'', Write 1 ''a'', Write 1 [back_space], Write 1 ''s'', Write 1 [new_line], Fork, Waitpid (- 1) 0, Write 1 ''> '', Write 1 ''x''] \<and>
   (\<exists>s'. shell_main 0x400000 0xBFFF0000 sample_keys sample_shell_memory 0 =
      Some (Write 1 ''> '' # fst (editor_loop sample_keys ([], False)), s') \<and>
      bytes_at (shell_memory s') 0xBFFF0000 1 = ''x'' \<and> shell_memory s' 0x400000 = CHR '' '')"
proof -
  have words: "take_tokens 15 '' '' ''Ls'' = [''Ls'']"
    by (simp add: numeral_eq_Suc token_skip_def token_of_def token_rest_def)
  have e: "editor_loop sample_keys ([], False) =
     ([Write 1 ''L'', Write 1 ''a'', Write 1 [back_space], Write 1 ''s'', Write 1 [new_line], Fork, Waitpid (- 1) 0, Write 1 ''> '', Write 1 ''x''], ''x'', False)"
    by (simp add: sample_keys_def editor_turn_def editor_command_def Let_def keymap_def keymap_shift_def back_space_def new_line_def words)
  have n: "x \<notin> range_of 0xBFFF0000 256" if "x \<in> range_of 0x400000 2" for x :: u32
  proof -
    have "x = 0x400000 \<or> x = 0x400001" using that by (auto simp: numeral_2_eq_2 range_of_Suc)
    then show ?thesis using in_range_of [of 256 x "0xBFFF0000"] by auto
  qed
  have "cstr_at sample_shell_memory 0x400000 '' ''" by (simp add: sample_shell_memory_def)
  moreover have "range_of 0x400000 2 \<inter> range_of 0xBFFF0000 256 = ({} :: u32 set)" using n by auto
  moreover have "(0x400000 :: u32) \<in> range_of 0x400000 2" by (simp add: numeral_2_eq_2 range_of_Suc)
  ultimately show ?thesis
    using shell_edits_lines [of "0xBFFF0000" sample_shell_memory "0x400000" sample_keys 0] e n
    by (auto simp: sample_shell_memory_def)
qed

end
