(* ===== verification/User_Programs.thy ===== *)
theory User_Programs
  imports Shell Framebuffer Print
begin

text \<open>
  The other programs of the initial archive: \<^verbatim>\<open>initrd/src/init.c\<close>, \<^verbatim>\<open>initrd/src/calc.c\<close> and \<^verbatim>\<open>initrd/src/square.c\<close>. A
  program takes its arguments and the answers of the system to the list of what it asks of the
  system. Of the C library they use \<^verbatim>\<open>atoi\<close>, \<^verbatim>\<open>printf\<close> with \<^verbatim>\<open>%d\<close>, and \<^verbatim>\<open>malloc\<close>; the first two are defined here as the
  language defines them, the address that the last one gives is an argument.
\<close>

unbundle bit_operations_syntax

section \<open>Numbers\<close>

definition white_space :: "char \<Rightarrow> bool" where
  "white_space c \<longleftrightarrow> c = CHR '' '' \<or> (9 \<le> (of_char c :: nat) \<and> (of_char c :: nat) \<le> 13)"

definition is_digit :: "char \<Rightarrow> bool" where
  "is_digit c \<longleftrightarrow> 48 \<le> (of_char c :: nat) \<and> (of_char c :: nat) \<le> 57"

text \<open>A value that an \<^verbatim>\<open>int\<close> cannot hold has no defined result.\<close>

definition atoi :: "char list \<Rightarrow> int option" where
  "atoi str =
     (let str = dropWhile white_space str;
          (negative, str) = (case str of c # cs \<Rightarrow> if c = CHR ''-'' then (True, cs) else if c = CHR ''+'' then (False, cs) else (False, str) | [] \<Rightarrow> (False, []));
          n = int (value_of 10 (map read_digit (takeWhile is_digit str)));
          v = (if negative then - n else n)
      in if - (2 ^ 31) \<le> v \<and> v < 2 ^ 31 then Some v else None)"

section \<open>Starting the shell\<close>

text \<open>The program up to the given number of calls of \<^verbatim>\<open>waitpid\<close>, which never ends; \<^verbatim>\<open>execve\<close> returns only when it fails.\<close>

definition init_main :: "nat \<Rightarrow> int \<Rightarrow> user_event list" where
  "init_main rounds shell_pid =
     Fork # (if shell_pid = 0 then [Execve ''/bin/shell.elf'' [''/bin/shell.elf'']] else []) @ replicate rounds (Waitpid (- 1) 0)"

section \<open>The calculator\<close>

definition calc_usage :: "user_event list \<times> int" where
  "calc_usage = ([Error_text (''usage: calc <a> <+|-|*|/> <b>'' @ [new_line])], 1)"

definition sigfpe_handler :: "user_event list \<times> int" where
  "sigfpe_handler = ([Error_text (''calc: division by zero'' @ [new_line])], 1)"

text \<open>
  The result of an operation; \<open>None\<close> is the exception of the division instruction, for a divisor 0 and
  for a quotient that does not fit.
\<close>

definition calc_result :: "char \<Rightarrow> int \<Rightarrow> int \<Rightarrow> int option" where
  "calc_result op a b =
     (if op = CHR ''+'' then Some (i32 (a + b))
      else if op = CHR ''-'' then Some (i32 (a - b))
      else if op = CHR ''*'' then Some (i32 (a * b))
      else if b = 0 \<or> i32 (a sdiv b) \<noteq> a sdiv b then None
      else Some (a sdiv b))"

definition calc_main :: "char list list \<Rightarrow> (user_event list \<times> int) option" where
  "calc_main argv =
     (if length argv < 4 then Some calc_usage
      else do {
        a \<leftarrow> atoi (argv ! 1);
        let op = (case argv ! 2 of [] \<Rightarrow> nul | c # _ \<Rightarrow> c);
        b \<leftarrow> atoi (argv ! 3);
        Some (if op \<noteq> CHR ''+'' \<and> op \<noteq> CHR ''-'' \<and> op \<noteq> CHR ''*'' \<and> op \<noteq> CHR ''/'' then calc_usage
          else case calc_result op a b of
              None \<Rightarrow> (Signal 8 # fst sigfpe_handler, snd sigfpe_handler)
            | Some result \<Rightarrow> ([Signal 8, Output_text (decimal_text result @ [new_line])], 0))
      })"

section \<open>The square\<close>

record fb_info =
  info_width :: u32
  info_height :: u32
  info_pitch :: u32
  info_bpp :: u32
  info_size :: u32
  info_red_field_position :: u8
  info_green_field_position :: u8
  info_blue_field_position :: u8

definition byte_of :: "nat \<Rightarrow> u32 \<Rightarrow> char" where
  "byte_of k rgb = char_of (unat (drop_bit (8 * k) rgb AND 0xFF))"

definition pack_pixel :: "u32 \<Rightarrow> u32 \<Rightarrow> u8 \<Rightarrow> cmem \<Rightarrow> cmem" where
  "pack_pixel dest rgb bpp m =
     (if bpp = 32 then m(dest := byte_of 0 rgb, dest + 1 := byte_of 1 rgb, dest + 2 := byte_of 2 rgb, dest + 3 := byte_of 3 rgb)
      else if bpp = 24 then m(dest := byte_of 0 rgb, dest + 1 := byte_of 1 rgb, dest + 2 := byte_of 2 rgb)
      else if bpp = 16 then m(dest := byte_of 0 rgb, dest + 1 := byte_of 1 rgb)
      else m)"

primrec pack_row :: "nat \<Rightarrow> u32 \<Rightarrow> u32 \<Rightarrow> u32 \<Rightarrow> u8 \<Rightarrow> cmem \<Rightarrow> cmem" where
  "pack_row 0 row bytes_per_pixel rgb bpp m = m"
| "pack_row (Suc col) row bytes_per_pixel rgb bpp m =
     pack_pixel (row + of_nat col * bytes_per_pixel) rgb bpp (pack_row col row bytes_per_pixel rgb bpp m)"

primrec write_rows :: "nat \<Rightarrow> u32 \<Rightarrow> int \<Rightarrow> int \<Rightarrow> u32 \<Rightarrow> u32 \<Rightarrow> char list \<Rightarrow> user_event list" where
  "write_rows 0 fd x y pitch bytes_per_pixel row = []"
| "write_rows (Suc line) fd x y pitch bytes_per_pixel row =
     write_rows line fd x y pitch bytes_per_pixel row @
       [Lseek fd (word_of_int (y + int line) * pitch + word_of_int x * bytes_per_pixel) 0, Write fd row]"

definition clip_low :: "int \<Rightarrow> int \<Rightarrow> int \<times> int" where
  "clip_low x w = (if x < 0 then (0, i32 (w + x)) else (x, w))"

definition clip_high :: "int \<Rightarrow> int \<Rightarrow> u32 \<Rightarrow> int" where
  "clip_high x w extent = (if i32 (x + w) > sint extent then i32 (sint extent - x) else w)"

text \<open>
  The answers are the descriptor that \<^verbatim>\<open>open\<close> gives, the result of \<^verbatim>\<open>ioctl\<close> with the structure it fills, and the
  address that \<^verbatim>\<open>malloc\<close> gives.
\<close>

definition square_main ::
    "char list list \<Rightarrow> u32 \<Rightarrow> int \<times> fb_info \<Rightarrow> u32 \<Rightarrow> cmem \<Rightarrow> (user_event list \<times> int) option" where
  "square_main argv fd answer row m =
     (if length argv < 8 then Some ([Error_text (''usage: square <x> <y> <w> <h> <r> <g> <b>'' @ [new_line])], 1)
      else do {
        x \<leftarrow> atoi (argv ! 1);
        y \<leftarrow> atoi (argv ! 2);
        w \<leftarrow> atoi (argv ! 3);
        h \<leftarrow> atoi (argv ! 4);
        r \<leftarrow> atoi (argv ! 5);
        g \<leftarrow> atoi (argv ! 6);
        b \<leftarrow> atoi (argv ! 7);
        let r = word_of_int r :: u8; g = word_of_int g :: u8; b = word_of_int b :: u8;
            opening = Open ''/dev/framebuffer'' 1; info = snd answer;
            (x, w) = clip_low x w; (y, h) = clip_low y h;
            w = clip_high x w (info_width info); h = clip_high y h (info_height info);
            bytes_per_pixel = info_bpp info div 8;
            rgb = (push_bit (unat (info_red_field_position info)) (ucast r) OR
              push_bit (unat (info_green_field_position info)) (ucast g) OR
              push_bit (unat (info_blue_field_position info)) (ucast b));
            len = word_of_int w * bytes_per_pixel
        in Some (if sint fd < 0 then ([opening, Error_text (''failed to open /dev/framebuffer'' @ [new_line])], 1)
          else if fst answer < 0
          then ([opening, Ioctl fd FBIOGET_INFO, Error_text (''failed to query framebuffer info'' @ [new_line]), Close fd], 1)
          else if w \<le> 0 \<or> h \<le> 0 then ([opening, Ioctl fd FBIOGET_INFO, Close fd], 0)
          else if row = 0
          then ([opening, Ioctl fd FBIOGET_INFO, Error_text (''out of memory'' @ [new_line]), Close fd], 1)
          else ([opening, Ioctl fd FBIOGET_INFO] @
            write_rows (nat h) fd x y (info_pitch info) bytes_per_pixel
              (bytes_at (pack_row (nat w) row bytes_per_pixel rgb (ucast (info_bpp info)) m) row (unat len)) @ [Close fd], 0))
      })"

section \<open>Reading numbers back\<close>

lemma digit_char: "d < 10 \<Longrightarrow> is_digit (char_of (48 + d)) \<and> read_digit (char_of (48 + d)) = d \<and>
    \<not> white_space (char_of (48 + d)) \<and> char_of (48 + d) \<noteq> CHR ''-'' \<and> char_of (48 + d) \<noteq> CHR ''+''" for d :: nat
proof -
  assume d: "d < 10"
  then have o: "of_char (char_of (48 + d) :: char) = 48 + d" by simp
  have "char_of (48 + d) \<noteq> c" if "(of_char c :: nat) < 48" for c using that o by auto
  from this [of "CHR ''-''"] this [of "CHR ''+''"] this [of "CHR '' ''"] show ?thesis
    using d o read_digit_char [OF d] by (simp add: is_digit_def white_space_def)
qed

lemma atoi_decimal_text:
  assumes "- (2 ^ 31) \<le> v" "v < 2 ^ 31"
  shows "atoi (decimal_text v) = Some v"
proof -
  let ?ds = "digits_of 10 (nat \<bar>v\<bar>)" and ?c = "\<lambda>d. char_of (48 + d) :: char"
  have small: "\<forall>d \<in> set ?ds. d < 10" using digits_small [of 10] by auto
  then have all: "takeWhile is_digit (map ?c ?ds) = map ?c ?ds" by (auto simp: takeWhile_eq_all_conv digit_char)
  have "map read_digit (map ?c ?ds) = ?ds" using small by (auto intro!: map_idI simp: read_digit_char)
  then have n: "value_of 10 (map read_digit (takeWhile is_digit (map ?c ?ds))) = nat \<bar>v\<bar>"
    unfolding all by (simp only: value_of_digits)
  obtain d ds where ds: "?ds = d # ds" using digits_nonempty by (cases ?ds) auto
  note D = digit_char [of d] and m = n [unfolded ds, simplified]
  have "d < 10" using small ds by simp
  then show ?thesis using D m assms unfolding decimal_text_def ds
    by (auto simp: atoi_def Let_def white_space_def split: if_splits)
qed



section \<open>Painting\<close>

lemma byte_color: "(of_char (byte_of k c) :: u8) = color_byte c k"
proof -
  define v where "v = drop_bit (8 * k) c"
  have "unat (v AND 0xFF) < 256" using byte_bounds(1) [of v] by (simp only: word_less_nat_alt) simp
  then have "(of_char (byte_of k c) :: nat) = unat (v AND 0xFF)" by (simp add: byte_of_def v_def)
  from arg_cong [OF this, of "of_nat :: nat \<Rightarrow> u8"]
  have "(of_char (byte_of k c) :: u8) = ucast (v AND 0xFF)" by (simp only: of_nat_of_char of_nat_unat)
  also have "\<dots> = ucast v" using color_byte_low(1,2) [of v] by (simp only:)
  finally show ?thesis by (simp only: v_def color_byte_def)
qed

lemma pack_pixel_bytes:
  assumes "deep fb" "unat d + pixel_bytes fb \<le> 2 ^ 32"
  shows "pack_pixel d c (fb_bpp fb) m q =
    (if unat d \<le> unat q \<and> unat q < unat d + pixel_bytes fb then byte_of (unat q - unat d) c else m q)"
proof -
  note eq = offset_eq_iff [OF assms(2), of 0 q] offset_eq_iff [OF assms(2), of "Suc 0" q]
    offset_eq_iff [OF assms(2), of 2 q] offset_eq_iff [OF assms(2), of 3 q]
  consider "fb_bpp fb = 16" "pixel_bytes fb = 2" | "fb_bpp fb = 24" "pixel_bytes fb = 3" | "fb_bpp fb = 32" "pixel_bytes fb = 4"
    using assms(1) by (auto simp: deep_def pixel_bytes_def)
  then show ?thesis
  proof cases
    case 1
    then show ?thesis using eq(1,2) by (auto simp: pack_pixel_def)
  next
    case 2
    then show ?thesis using eq(1-3) by (auto simp: pack_pixel_def)
  next
    case 3
    then show ?thesis using eq by (auto simp: pack_pixel_def)
  qed
qed

lemma pack_row_bytes:
  assumes "deep fb"
  shows "unat row + n * pixel_bytes fb \<le> 2 ^ 32 \<Longrightarrow> i < n * pixel_bytes fb \<Longrightarrow>
    pack_row n row (of_nat (pixel_bytes fb)) c (fb_bpp fb) m (row + of_nat i) = byte_of (i mod pixel_bytes fb) c"
proof (induction n)
  case (Suc n)
  let ?B = "pixel_bytes fb"
  have B: "0 < ?B" using deep_bytes [OF assms] by simp
  have u: "unat (row + of_nat n * of_nat ?B) = unat row + n * ?B" "unat (row + of_nat i) = unat row + i"
    using unat_plus_small [of row "Suc n * ?B" "n * ?B"] unat_plus_small [of row "Suc n * ?B" i] Suc.prems B by simp_all
  have fits: "unat (row + of_nat n * of_nat ?B) + ?B \<le> 2 ^ 32" using Suc.prems u by simp
  note P = pack_pixel_bytes [OF assms fits, of c "pack_row n row (of_nat ?B) c (fb_bpp fb) m" "row + of_nat i"]
  show ?case
  proof (cases "i < n * ?B")
    case True
    then show ?thesis using P u Suc by simp
  next
    case False
    then have "i - n * ?B < ?B" "i = n * ?B + (i - n * ?B)" using Suc.prems by simp_all
    then have "i mod ?B = i - n * ?B" by (metis mod_less mod_mult_self3)
    then show ?thesis using P u False Suc.prems by simp
  qed
qed simp

lemma copy_to_device_apply:
  "unat d + n \<le> 2 ^ 32 \<Longrightarrow> copy_to_device n src d p m q =
    (if unat d \<le> unat q \<and> unat q - unat d < n then of_char (src (p + of_nat (unat q - unat d))) else m q)"
proof (induction n arbitrary: d p m)
  case (Suc n)
  have eq: "q = d \<longleftrightarrow> unat q = unat d" by (rule word_unat_eq_iff)
  show ?case
  proof (cases "n = 0")
    case True
    then show ?thesis using eq by auto
  next
    case False
    then have d: "unat (d + 1) = unat d + 1" using Suc.prems by (simp add: unat_word_ariths)
    then have "unat q - unat d = Suc (unat q - unat (d + 1))" if "unat d < unat q" using that by simp
    then show ?thesis using Suc.IH [of "d + 1" "p + 1"] Suc.prems d eq by (auto simp: add.assoc)
  qed
qed simp

text \<open>The device behind a descriptor: its position and the frame buffer.\<close>

fun device_step :: "u32 \<Rightarrow> user_event \<Rightarrow> u32 \<times> framebuffer_t \<Rightarrow> u32 \<times> framebuffer_t" where
  "device_step fd (Lseek d offset whence) (pos, fb) = (if d = fd \<and> whence = 0 \<and> 0 \<le> sint offset then (offset, fb) else (pos, fb))"
| "device_step fd (Write d bytes) (pos, fb) =
     (if d = fd
      then (let (_, n, fb) = framebuffer_dev_write pos (\<lambda>p. bytes ! unat p) 0 (of_nat (length bytes)) fb in (pos + n, fb))
      else (pos, fb))"
| "device_step fd _ s = s"

lemma screen_color_word: "screen_color fb (color_word \<lparr>red = r, green = g, blue = b\<rparr>) = field_color fb r g b"
proof -
  let ?w = "color_word \<lparr>red = r, green = g, blue = b\<rparr>"
  have m: "(0xFF :: u32) = mask 8" by (simp add: mask_eq_exp_minus_1)
  have out: "bit x (8 + n) = False" "bit x (16 + n) = False" for x :: u8 and n
    using bit_imp_le_length [of x "8 + n"] bit_imp_le_length [of x "16 + n"] by auto
  have "ucast (drop_bit 16 ?w AND 0xFF) = r" unfolding m color_word_def by (rule bit_word_eqI) (auto simp: bit_simps out)
  moreover have "ucast (drop_bit 8 ?w AND 0xFF) = g" unfolding m color_word_def by (rule bit_word_eqI) (auto simp: bit_simps out)
  moreover have "ucast (?w AND 0xFF) = b" unfolding m color_word_def by (rule bit_word_eqI) (auto simp: bit_simps out)
  ultimately show ?thesis by (simp only: screen_color_def)
qed

lemma blit_rows_last:
  "blit_rows fb sp w (Suc n) i d m =
    blit_row fb (pixels sp) w (i + of_nat n * sprite_width sp) (d + of_nat n * fb_pitch fb) (blit_rows fb sp w n i d m)"
proof (induction n arbitrary: i d m)
  case (Suc n)
  have "blit_rows fb sp w (Suc (Suc n)) i d m =
      blit_rows fb sp w (Suc n) (i + sprite_width sp) (d + fb_pitch fb) (blit_row fb (pixels sp) w i d m)" by (simp only: blit_rows.simps)
  also have "\<dots> = blit_row fb (pixels sp) w (i + of_nat (Suc n) * sprite_width sp) (d + of_nat (Suc n) * fb_pitch fb)
      (blit_rows fb sp w (Suc n) i d m)"
    by (subst Suc.IH) (simp only: blit_rows.simps of_nat_Suc distrib_right mult_1 add.assoc)
  finally show ?case .
qed simp

lemma blit_row_keeps: "blit_row (fb\<lparr>fb_memory := m'\<rparr>) src n i d m = blit_row fb src n i d m"
proof -
  have "blit_pixel (fb\<lparr>fb_memory := m'\<rparr>) = blit_pixel fb"
    by (intro ext) (simp add: blit_pixel_def field_color_def cong: if_cong)
  then show ?thesis by (induction n arbitrary: i d m) (simp_all add: split_beta)
qed

text \<open>One row of a single colour, written through the device, is a row of the blitter.\<close>

lemma write_row:
  fixes fb :: framebuffer_t
  assumes fb: "deep fb" and bytes: "length bytes = w * pixel_bytes fb" "\<forall>i < w * pixel_bytes fb. bytes ! i = byte_of (i mod pixel_bytes fb) c"
    and c: "screen_color fb raw = c" and off: "0 \<le> sint off" "unat off + w * pixel_bytes fb \<le> unat (fb_size fb)"
    and fits: "unat (fb_address fb) + unat (fb_size fb) \<le> 2 ^ 32" and w: "0 < w"
  shows "snd (device_step fd (Write fd bytes) (device_step fd (Lseek fd off 0) (pos, fb))) =
    fb\<lparr>fb_memory := blit_row fb (\<lambda>_. raw) w i (fb_address fb + off) (fb_memory fb)\<rparr>"
proof -
  let ?B = "pixel_bytes fb"
  have B: "0 < ?B" using deep_bytes [OF fb] by simp
  have wB: "0 < w * ?B" using w B by simp
  have lt: "\<not> fb_size fb \<le> off" using off(2) wB unfolding word_le_nat_alt by linarith
  have len: "unat (of_nat (w * ?B) :: u32) = w * ?B" using off(2) unat_u32 [of "fb_size fb"] by (intro unat_of_nat_u32) linarith
  have avail: "unat (fb_size fb - off) = unat (fb_size fb) - unat off" using lt by (simp add: unat_sub)
  have n: "unat (if of_nat (w * ?B) < fb_size fb - off then of_nat (w * ?B) else fb_size fb - off) = w * ?B"
    using len avail off(2) by (auto simp: word_less_nat_alt)
  have a: "unat (fb_address fb + off) = unat (fb_address fb) + unat off"
    using fits lt unat_plus_small [of "fb_address fb" "unat (fb_size fb)" "unat off"] by (simp add: word_le_nat_alt)
  have room: "unat (fb_address fb + off) + w * ?B \<le> 2 ^ 32" using a off(2) fits by linarith
  have "copy_to_device (w * ?B) (\<lambda>p. bytes ! unat p) (fb_address fb + off) 0 (fb_memory fb) =
      blit_row fb (\<lambda>_. raw) w i (fb_address fb + off) (fb_memory fb)"
  proof
    fix q
    have "bytes ! unat (of_nat k :: u32) = byte_of (k mod ?B) c" if "k < w * ?B" for k
      using that bytes(2) len unat_of_nat_u32 [of k] off(2) unat_u32 [of "fb_size fb"] by simp
    then show "copy_to_device (w * ?B) (\<lambda>p. bytes ! unat p) (fb_address fb + off) 0 (fb_memory fb) q =
        blit_row fb (\<lambda>_. raw) w i (fb_address fb + off) (fb_memory fb) q"
      unfolding copy_to_device_apply [OF room] blit_row_bytes [OF fb room] Let_def c
      by (intro if_cong refl) (simp only: add_0 byte_color)
  qed
  then show ?thesis using off(1) lt n bytes(1) by (simp add: framebuffer_dev_write_def Let_def del: of_nat_mult)
qed

lemma write_rows_blit:
  fixes fb :: framebuffer_t and sp :: framebuffer_sprite_t and x y :: int
  defines "off \<equiv> \<lambda>n. word_of_int (y + int n) * fb_pitch fb + word_of_int x * of_nat (pixel_bytes fb) :: u32"
  assumes fb: "deep fb" and bytes: "length bytes = w * pixel_bytes fb" "\<forall>i < w * pixel_bytes fb. bytes ! i = byte_of (i mod pixel_bytes fb) c"
    and sp: "pixels sp = (\<lambda>_. raw)" "screen_color fb raw = c"
    and fits: "unat (fb_address fb) + unat (fb_size fb) \<le> 2 ^ 32" and w: "0 < w"
  shows "(\<And>k. k < n \<Longrightarrow> 0 \<le> sint (off k) \<and> unat (off k) + w * pixel_bytes fb \<le> unat (fb_size fb)) \<Longrightarrow>
    snd (fold (device_step fd) (write_rows n fd x y (fb_pitch fb) (of_nat (pixel_bytes fb)) bytes) (pos, fb)) =
      fb\<lparr>fb_memory := blit_rows fb sp w n 0 (fb_address fb + off 0) (fb_memory fb)\<rparr>"
proof (induction n)
  case (Suc n)
  let ?m = "blit_rows fb sp w n 0 (fb_address fb + off 0) (fb_memory fb)" and ?fb = "fb\<lparr>fb_memory := blit_rows fb sp w n 0 (fb_address fb + off 0) (fb_memory fb)\<rparr>"
  let ?s = "fold (device_step fd) (write_rows n fd x y (fb_pitch fb) (of_nat (pixel_bytes fb)) bytes) (pos, fb)"
  have s: "?s = (fst ?s, ?fb)" using Suc.IH Suc.prems by (metis prod.collapse less_SucI)
  have o: "off n = off 0 + of_nat n * fb_pitch fb" by (simp add: off_def algebra_simps)
  have keep: "deep ?fb" "pixel_bytes ?fb = pixel_bytes fb" "screen_color ?fb = screen_color fb" 
    using fb by (simp_all add: deep_def pixel_bytes_def screen_color_def [abs_def] field_color_def)
  have "snd (fold (device_step fd) (write_rows (Suc n) fd x y (fb_pitch fb) (of_nat (pixel_bytes fb)) bytes) (pos, fb)) =
      snd (device_step fd (Write fd bytes) (device_step fd (Lseek fd (off n) 0) (fst ?s, ?fb)))"
    unfolding s [symmetric] by (simp only: write_rows.simps fold_append fold_simps o_apply off_def)
  also have "\<dots> = ?fb\<lparr>fb_memory := blit_row ?fb (\<lambda>_. raw) w (0 + of_nat n * sprite_width sp) (fb_address ?fb + off n) (fb_memory ?fb)\<rparr>"
    by (rule write_row [where c = c]) (use keep bytes sp fits w Suc.prems [of n] in simp_all)
  also have "blit_row ?fb (\<lambda>_. raw) w (0 + of_nat n * sprite_width sp) (fb_address ?fb + off n) (fb_memory ?fb) =
      blit_row fb (\<lambda>_. raw) w (0 + of_nat n * sprite_width sp) (fb_address ?fb + off n) ?m"
    by (simp add: blit_row_keeps)
  finally show ?case by (simp add: blit_rows_last sp(1) o add.assoc del: blit_rows.simps)
qed simp

lemma blit_rows_const:
  assumes "pixels sp = (\<lambda>_. raw)"
  shows "blit_rows fb sp w n i d m = blit_rows fb sp w n j d m"
proof -
  have row: "blit_row fb (\<lambda>_. raw) w i d m = blit_row fb (\<lambda>_. raw) w j d m" for i j d m
    by (induction w arbitrary: i j d m) (simp_all add: split_beta)
  show ?thesis
  proof (induction n arbitrary: i j d m)
    case (Suc n)
    show ?case unfolding blit_rows.simps assms using Suc.IH row by metis
  qed simp
qed

lemma clip_square:
  assumes "- (2 ^ 30) \<le> x" "x \<le> 2 ^ 30" "- (2 ^ 30) \<le> w" "w < 2 ^ 30" "unat extent < 2 ^ 30"
  shows "clip_high (fst (clip_low x w)) (snd (clip_low x w)) extent = min (x + w) (int (unat extent)) - max 0 x" "fst (clip_low x w) = max 0 x"
proof -
  define e where "e = int (unat extent)"
  have s: "sint extent = e" using assms(5) unfolding e_def by (intro sint_unat) simp
  have u: "0 \<le> e" "e < 2 ^ 30" using assms(5) unfolding e_def by (simp, metis of_nat_less_iff of_nat_numeral of_nat_power)
  have i: "i32 v = v" if "- (2 ^ 31) \<le> v" "v < 2 ^ 31" for v using that by (rule i32_id)
  show "clip_high (fst (clip_low x w)) (snd (clip_low x w)) extent = min (x + w) (int (unat extent)) - max 0 x" "fst (clip_low x w) = max 0 x"
    unfolding e_def [symmetric] using assms(1-4) s u i [of "w + x"] i [of "x + w"] i [of "e - x"] i [of e]
    by (auto simp: clip_high_def clip_low_def max_def min_def)
qed

definition load_info :: "cmem \<Rightarrow> u32 \<Rightarrow> fb_info" where
  "load_info m p = \<lparr>info_width = load_u32 m p, info_height = load_u32 m (p + 4), info_pitch = load_u32 m (p + 8), info_bpp = load_u32 m (p + 12),
     info_size = load_u32 m (p + 16), info_red_field_position = of_char (m (p + 20)), info_green_field_position = of_char (m (p + 21)),
     info_blue_field_position = of_char (m (p + 22))\<rparr>"

lemma of_char_u8: "of_char (char_of (unat v)) = v" for v :: u8
proof -
  have "unat v < 256" using unsigned_less [of v, where 'a = nat] by simp
  then have "(of_char (char_of (unat v)) :: nat) = unat v" by simp
  from arg_cong [OF this, of "of_nat :: nat \<Rightarrow> u8"] show ?thesis by (simp only: of_nat_of_char) simp
qed

lemma ioctl_info:
  assumes "framebuffer_is_valid_user_pointer p sizeof_fb_info"
  shows "load_info (snd (framebuffer_dev_ioctl FBIOGET_INFO p fb m)) p =
    \<lparr>info_width = fb_width fb, info_height = fb_height fb, info_pitch = fb_pitch fb, info_bpp = ucast (fb_bpp fb), info_size = fb_size fb,
      info_red_field_position = red_field_position fb, info_green_field_position = green_field_position fb,
      info_blue_field_position = blue_field_position fb\<rparr>"
proof -
  have skip: "load_u32 (store_u32 a v m) b = load_u32 m b" if "range_of b 4 \<inter> range_of a 4 = {}" for a b v m
    using that by (intro load_u32_cong store_u32_other) auto
  have upd: "load_u32 (m(a := c)) b = load_u32 m b" if "a \<notin> range_of b 4" for a b m and c :: char
    using that by (intro load_u32_cong) auto
  show ?thesis using assms
    by (simp add: framebuffer_dev_ioctl_def Let_def load_info_def upd skip in_range_of_4 disjoint_iff of_char_u8 add.assoc)
qed

text \<open>The screen with a rectangle of one colour, cut at the edges.\<close>

definition painted :: "int \<Rightarrow> int \<Rightarrow> int \<Rightarrow> int \<Rightarrow> u32 \<Rightarrow> framebuffer_t \<Rightarrow> u32 \<Rightarrow> u8" where
  "painted x y w h c fb q =
     (case pixel_of fb q of None \<Rightarrow> fb_memory fb q
      | Some (px, py, k) \<Rightarrow>
          if x \<le> int px \<and> int px < x + w \<and> y \<le> int py \<and> int py < y + h then color_byte c k else fb_memory fb q)"

lemma painted_drawn:
  assumes "pixels sp = (\<lambda>_. raw)" "int (unat (sprite_width sp)) = w" "int (unat (sprite_height sp)) = h"
  shows "drawn x y sp fb = painted x y w h (screen_color fb raw) fb"
  using assms by (auto simp: drawn_def painted_def fun_eq_iff Let_def split: option.split)

lemma painted_none:
  assumes "fb_ok fb" "min (x + w) (int (unat (fb_width fb))) - max 0 x \<le> 0 \<or> min (y + h) (int (unat (fb_height fb))) - max 0 y \<le> 0"
  shows "painted x y w h c fb = fb_memory fb"
proof
  fix q
  show "painted x y w h c fb q = fb_memory fb q"
  proof (cases "pixel_of fb q")
    case (Some r)
    obtain px py k where r: "r = (px, py, k)" by (cases r)
    have "int px < int (unat (fb_width fb))" "int py < int (unat (fb_height fb))"
      using pixel_of_inside [OF assms(1) Some [unfolded r]] by (simp_all only: of_nat_less_iff)
    then have "\<not> (x \<le> int px \<and> int px < x + w \<and> y \<le> int py \<and> int py < y + h)" using assms(2) by linarith
    then show ?thesis unfolding painted_def Some r option.case prod.case by (simp only: if_False)
  qed (simp add: painted_def)
qed

text \<open>The positions at which the rows of a clipped rectangle are written.\<close>

lemma row_offsets:
  fixes fb :: framebuffer_t and x y :: int
  defines "off \<equiv> \<lambda>n. word_of_int (y + int n) * fb_pitch fb + word_of_int x * of_nat (pixel_bytes fb) :: u32"
  assumes ok: "fb_ok fb" and size: "unat (fb_size fb) = unat (fb_height fb) * unat (fb_pitch fb)" "unat (fb_size fb) < 2 ^ 31"
    and x: "0 \<le> x" "x + int w \<le> int (unat (fb_width fb))" "0 < w" and y: "0 \<le> y" "y + int h \<le> int (unat (fb_height fb))" "k < h"
  shows "0 \<le> sint (off k) \<and> unat (off k) + w * pixel_bytes fb \<le> unat (fb_size fb)"
proof -
  let ?fb = "fb\<lparr>fb_address := 0\<rparr>" and ?B = "pixel_bytes fb" and ?P = "unat (fb_pitch fb)"
  obtain dx dy where d: "x = int dx" "y = int dy" using x(1) y(1) nonneg_int_cases by metis
  have n: "dx < unat (fb_width fb)" "dx + w \<le> unat (fb_width fb)" "dy + k < unat (fb_height fb)"
    using x(2,3) y(2,3) unfolding d by linarith+
  have ok': "fb_ok ?fb" using ok by (simp add: fb_ok_def deep_def pixel_bytes_def)
  have b: "of_nat ?B = (ucast (fb_bpp fb) div 8 :: u32)" using ok by (auto simp: fb_ok_def deep_def pixel_bytes_def)
  have "pixel_bytes ?fb = ?B" by (simp add: pixel_bytes_def)
  then have R: "unat (off k) = (dy + k) * ?P + dx * ?B" "dx * ?B + w * ?B \<le> ?P"
    using blit_rect [OF ok', of dx w "dy + k" 0 "off k"] n unfolding off_def d b by (simp_all add: algebra_simps)
  have "Suc (dy + k) * ?P \<le> unat (fb_height fb) * ?P" using n(3) by (intro mult_le_mono1) simp
  then have le: "unat (off k) + w * ?B \<le> unat (fb_size fb)" using R size(1) by simp
  then have "unat (off k) < 2 ^ 31" using size(2) by linarith
  then have "sint (off k) = int (unat (off k))" by (rule sint_unat)
  then show ?thesis using le by simp
qed

lemma square_rows:
  fixes fb :: framebuffer_t and x y w h :: int
  defines "w' \<equiv> min (x + w) (int (unat (fb_width fb))) - max 0 x" and "h' \<equiv> min (y + h) (int (unat (fb_height fb))) - max 0 y"
  assumes ok: "fb_ok fb" and size: "unat (fb_size fb) = unat (fb_height fb) * unat (fb_pitch fb)" "unat (fb_size fb) < 2 ^ 31"
    and small: "w < 2 ^ 30" "h < 2 ^ 30" and pos: "0 < w'" "0 < h'"
    and row: "unat row + unat (fb_width fb) * pixel_bytes fb \<le> 2 ^ 32"
  shows "snd (fold (device_step fd) (write_rows (nat h') fd (max 0 x) (max 0 y) (fb_pitch fb) (of_nat (pixel_bytes fb))
      (bytes_at (pack_row (nat w') row (of_nat (pixel_bytes fb)) (field_color fb r g b) (fb_bpp fb) m) row (nat w' * pixel_bytes fb))) (at, fb)) =
    fb\<lparr>fb_memory := painted x y w h (field_color fb r g b) fb\<rparr>"
proof -
  let ?B = "pixel_bytes fb" and ?c = "field_color fb r g b" and ?raw = "color_word \<lparr>red = r, green = g, blue = b\<rparr>"
  let ?bytes = "bytes_at (pack_row (nat w') row (of_nat ?B) ?c (fb_bpp fb) m) row (nat w' * ?B)"
  define sp where "sp = \<lparr>pixels = (\<lambda>_. ?raw), sprite_width = word_of_int w, sprite_height = word_of_int h\<rparr>"
  note O = fb_okD [OF ok]
  have wh: "0 < w" "0 < h" using pos unfolding w'_def h'_def by linarith+
  have unat_int: "unat (word_of_int v :: u32) = nat v" if "0 < v" "v < 2 ^ 30" for v
    using unat_of_nat_u32 [of "nat v"] that by (simp add: unsigned_of_int take_bit_int_eq_self)
  have sz: "int (unat (sprite_width sp)) = w" "int (unat (sprite_height sp)) = h"
    using wh small unat_int by (simp_all add: sp_def)
  have in_screen: "max 0 x + int (nat w') \<le> int (unat (fb_width fb))" "max 0 y + int (nat h') \<le> int (unat (fb_height fb))"
    using pos unfolding w'_def h'_def by linarith+
  then have "nat w' \<le> unat (fb_width fb)" by linarith
  then have "nat w' * ?B \<le> unat (fb_width fb) * ?B" by simp
  then have room: "unat row + nat w' * ?B \<le> 2 ^ 32" using row by linarith
  have bytes: "length ?bytes = nat w' * ?B" "\<forall>i < nat w' * ?B. ?bytes ! i = byte_of (i mod ?B) ?c"
    using pack_row_bytes [OF O(1) room] by (simp_all add: bytes_at_nth)
  have b: "of_nat ?B = (ucast (fb_bpp fb) div 8 :: u32)" using O(1) by (auto simp: deep_def pixel_bytes_def)
  have clip: "blit_rows fb sp (nat w') (nat h') i
      (fb_address fb + word_of_int (max 0 y) * fb_pitch fb + word_of_int (max 0 x) * of_nat ?B) (fb_memory fb) = painted x y w h ?c fb" for i
  proof -
    have xy: "x < int (unat (fb_width fb))" "0 \<le> x + int (unat (sprite_width sp))" "y < int (unat (fb_height fb))" "0 \<le> y + int (unat (sprite_height sp))"
      using pos unfolding sz w'_def h'_def by linarith+
    have "pixels sp = (\<lambda>_. ?raw)" by (simp add: sp_def)
    then show ?thesis
      using blit_clipped [OF ok xy, unfolded sz, folded w'_def h'_def b] painted_drawn [of sp ?raw w h x y fb] sz screen_color_word [of fb r g b]
        blit_rows_const [of sp ?raw fb "nat w'" "nat h'" i] by metis
  qed
  have "unat (fb_address fb) + unat (fb_size fb) \<le> 2 ^ 32" using O(4) size(1) by simp
  then have "snd (fold (device_step fd) (write_rows (nat h') fd (max 0 x) (max 0 y) (fb_pitch fb) (of_nat ?B) ?bytes) (at, fb)) =
    fb\<lparr>fb_memory := blit_rows fb sp (nat w') (nat h') 0
      (fb_address fb + (word_of_int (max 0 y + int 0) * fb_pitch fb + word_of_int (max 0 x) * of_nat ?B)) (fb_memory fb)\<rparr>"
    using row_offsets [OF ok size _ in_screen(1) _ _ in_screen(2)] pos
    by (intro write_rows_blit [OF O(1) bytes, where raw = ?raw]) (simp_all add: sp_def screen_color_word)
  then show ?thesis using clip [of 0] by (simp add: add.assoc)
qed

lemma square_main_runs:
  assumes "8 \<le> length argv" "atoi (argv ! 1) = Some x" "atoi (argv ! 2) = Some y" "atoi (argv ! 3) = Some w" "atoi (argv ! 4) = Some h"
    "atoi (argv ! 5) = Some r" "atoi (argv ! 6) = Some g" "atoi (argv ! 7) = Some b" "0 \<le> sint fd" "row \<noteq> 0"
    and "clip_low x w = (x1, w1)" "clip_low y h = (y1, h1)"
  defines "w2 \<equiv> \<lambda>info. clip_high x1 w1 (info_width info)" and "h2 \<equiv> \<lambda>info. clip_high y1 h1 (info_height info)"
    and "c \<equiv> \<lambda>info. push_bit (unat (info_red_field_position info)) (ucast (word_of_int r :: u8)) OR
      push_bit (unat (info_green_field_position info)) (ucast (word_of_int g :: u8)) OR
      push_bit (unat (info_blue_field_position info)) (ucast (word_of_int b :: u8)) :: u32"
  shows "square_main argv fd (0, info) row m =
    Some (if w2 info \<le> 0 \<or> h2 info \<le> 0 then [Open ''/dev/framebuffer'' 1, Ioctl fd FBIOGET_INFO, Close fd]
      else [Open ''/dev/framebuffer'' 1, Ioctl fd FBIOGET_INFO] @
        write_rows (nat (h2 info)) fd x1 y1 (info_pitch info) (info_bpp info div 8)
          (bytes_at (pack_row (nat (w2 info)) row (info_bpp info div 8) (c info) (ucast (info_bpp info)) m) row
            (unat (word_of_int (w2 info) * (info_bpp info div 8)))) @ [Close fd], 0)"
proof -
  have n: "\<not> length argv < 8" "\<not> sint fd < 0" "\<not> (0 :: int) < 0" using assms(1,9) by simp_all
  show ?thesis
    unfolding square_main_def w2_def h2_def c_def by (simp only: assms(2-8,10-12) n Let_def prod.case if_False bind.bind_lunit fst_conv snd_conv if_distrib [of Some] split: if_split) simp
qed



end
