(* ===== verification/Spec2Isabelle.thy ===== *)
theory Spec2Isabelle
  imports Boot Elf_Load User_Library User_Programs
begin

text \<open>
  Alura OS is a kernel for 32-bit x86 processors. This development models the C code of the kernel,
  of its user library and of its programs, function by function, and proves what makes its parts correct. File names below are relative to
  the root of the repository.

  \<^bold>\<open>The parts and how they interact.\<close> The boot loader enters \<^verbatim>\<open>src/bootstrap.c\<close>, which maps the first 64
  MiB twice, and then \<^verbatim>\<open>src/kernel.c\<close>, which initialises every module. Physical frames come from
  \<^verbatim>\<open>src/memory_bitmap.c\<close>; \<^verbatim>\<open>src/memory_paging.c\<close> builds address spaces out of them, the current one through the
  recursive slot of its page directory and other ones through sixteen bounce pages;
  \<^verbatim>\<open>src/kernel_heap.c\<close> grows over the paging and serves every other module. Tasks
  (\<^verbatim>\<open>src/task_manager.c\<close>) live in six queues, have a parent and children, an address space and a
  table of resources (\<^verbatim>\<open>src/resource.c\<close>). Interrupts go through the tables of \<^verbatim>\<open>src/gdt.c\<close>, \<^verbatim>\<open>src/tss.c\<close> and
  \<^verbatim>\<open>src/idt.c\<close>, the controller (\<^verbatim>\<open>src/pic.c\<close>) and the handlers of \<^verbatim>\<open>src/irq.c\<close>; the timer schedules, the
  keyboard fills its ring buffer and wakes the readers. Files are nodes of \<^verbatim>\<open>src/vfs.c\<close>, cached and
  counted, over the ram file system (\<^verbatim>\<open>src/fs/ramfs.c\<close>, filled from an archive by \<^verbatim>\<open>src/fs/ustar.c\<close>) and
  the devices (\<^verbatim>\<open>src/fs/devfs.c\<close>). Programs are loaded by \<^verbatim>\<open>src/elf_executable.c\<close> and enter the kernel
  through \<^verbatim>\<open>src/syscall.c\<close>. Text goes to \<^verbatim>\<open>src/terminal.c\<close>, which draws on the drivers
  \<^verbatim>\<open>src/drivers/vga.c\<close> or \<^verbatim>\<open>src/drivers/framebuffer.c\<close>. In user mode the wrappers of
  \<^verbatim>\<open>initrd/lib/syscall.c\<close> trap into the kernel, \<^verbatim>\<open>initrd/lib/newlib_glue.c\<close> puts the C library newlib on top of
  them, and the four programs of \<^verbatim>\<open>initrd/src/\<close> use both.

  \<^bold>\<open>The theories.\<close>

  \<^item> \<open>Prelude\<close>: machine words, \<^verbatim>\<open>include/memory.h\<close>, counted loops, lemmas on words and lists. \<open>Linked_Lists\<close>:
    paths along next pointers, searching, unlinking, and the interface \<open>fifo_queue\<close>.
  \<^item> \<open>CString\<close>: \<^verbatim>\<open>src/libc/string.c\<close> over a memory of bytes; words and bytes in memory.
  \<^item> \<open>Memory_Bitmap\<close>: the frame allocator, with the interface \<open>frame_allocator\<close>.
  \<^item> \<open>Memory_Paging\<close>: every function of \<^verbatim>\<open>src/memory_paging.c\<close>, the page walk of the processor, the invariant
    \<open>machine_wf\<close> and the current address space; \<open>Address_Spaces\<close>: bounce pages, other address spaces, new
    page directories, and the interface \<open>page_mapper\<close>; \<open>Bootstrap\<close>: \<^verbatim>\<open>src/bootstrap.c\<close>.
  \<^item> \<open>Kernel_Heap\<close>: the free list, its growth, \<open>heap_wf\<close>; \<open>Heap_Interface\<close>: the interface \<open>heap_allocator\<close>
    that the other modules rely on, and blocks that are kept apart (\<open>separate\<close>).
  \<^item> \<open>Task_State\<close>, \<open>Task_Queues\<close>, \<open>Scheduler\<close>: the structures of tasks, the queues, scheduling, blocking and
    waking, the timer. \<open>Resources\<close>: tables of open resources and their counts. \<open>Task_Stacks\<close>, \<open>Tasks\<close>:
    stacks and arguments of new tasks, creating, copying, ending and destroying tasks, delivering
    signals. \<open>Task_Tree\<close>: children, search and end of tasks. \<open>Task_Start\<close>: the first frame of a task.
  \<^item> \<open>Descriptors\<close>, \<open>Interrupts\<close>: segment and interrupt tables, the controller and the table of handlers.
  \<^item> \<open>Keyboard\<close>, \<open>Terminal\<close>, \<open>Vga\<close>, \<open>Framebuffer\<close>, \<open>Print\<close>: the drivers, with the interface
    \<open>text_display\<close> between the terminal and its driver, and formatted output.
  \<^item> \<open>File_State\<close>, \<open>Vfs_Cache\<close>, \<open>Ramfs\<close>, \<open>Vfs\<close>: the structures of files, the cache of nodes, the ram file
    system, devices, paths and open files. \<open>Node_Cache\<close>: the invariant of the cache. \<open>Path_Walk\<close>: resolving paths.
    \<open>Ustar\<close>: the initial archive. \<open>Elf\<close>: the program loader. \<open>Elf_Load\<close>: the bytes of a loaded segment.
  \<^item> \<open>Syscalls\<close>: every system call, the dispatch, and the handler of exceptions. \<open>Signals\<close>, \<open>Syscall_Memory\<close>,
    \<open>User_Heap\<close>: properties of signals, of buffers of the caller and of its heap. \<open>Boot\<close>: \<^verbatim>\<open>src/kernel.c\<close>.
  \<^item> \<open>User_Library\<close>: the wrappers of the system calls and the hooks of newlib, over the handler of the kernel.
    \<open>Shell\<close>: \<^verbatim>\<open>initrd/src/shell.c\<close>. \<open>User_Programs\<close>: \<^verbatim>\<open>init.c\<close>, \<^verbatim>\<open>calc.c\<close> and \<^verbatim>\<open>square.c\<close>.

  \<^bold>\<open>How the code is translated.\<close> Integers keep their width as words; where the code compares or adds
  signed numbers, the model uses integers with the wrap-around written out. The state is one record
  that grows with the modules: \<open>machine\<close> (memory, control registers, frames, bounce pages),
  \<open>heap_machine\<close>, \<open>kernel\<close>, \<open>kernel_keyboard\<close>, \<open>kernel_fs\<close>, \<open>kernel_io\<close> and \<open>kernel_sys\<close>, so that
  each theory is stated for every extension of its state. A function of the code is a function from a
  state to an option: \<open>None\<close> is a fault (an access through a null or unmapped pointer, a write past
  a buffer on the stack) or a loop that does not end; the error codes of the code are values. Structures in the
  heap are stores keyed by their address, and their blocks come from the model of the heap, so that
  sharing, reuse and lack of memory behave as in the code. Two views of memory are kept: \<open>pmem\<close>, the
  words of physical frames, read and written through the page walk (page tables, bounce pages, kernel
  stacks), and \<open>heap_data\<close>, the bytes behind ordinary pointers of the current address space (strings, file
  contents, buffers of the caller). They are connected in one place, \<open>read_into_window\<close> of \<open>Elf\<close>, where the bytes that a file gives to a bounce
  page are stored in the frame behind it; nothing else relies on a byte written in one view and read in the other. A
  program of \<^verbatim>\<open>initrd/\<close> is a function from its arguments and the answers of the system to the calls it makes.

  \<^bold>\<open>Loops.\<close> Counted loops are structural recursion over their counter. Loops along pointers and loops that may not
  end are partial functions to an option, without fuel; the theorems show that they return
  on well-formed states (\<open>Linked_Lists\<close>, \<open>Kernel_Heap\<close>, \<open>Task_Tree\<close>, \<open>Node_Cache\<close>, \<open>Path_Walk\<close>).

  \<^bold>\<open>What the lemmas show.\<close> Frames are handed out once and only when free. Mapping and unmapping change the
  translation of exactly one page, in the current and in other address spaces, and a new address
  space shares exactly the kernel's half. The heap never hands out overlapping blocks and coalesces what
  is freed. The scheduler is a multi-level feedback queue that loses no task. Children of tasks are lists, the
  search for a task is a search in preorder, and the end of a task leaves queues and families
  as they should be. A new task starts from the frame of its kind, and a signal handler returns to where
  the task was interrupted. The terminal is a teletype on either of its screens, formatted output
  is what the format asks, cut to its buffer. The keyboard is a bounded queue. Reading and writing
  files are reading and writing lists of bytes; the cache of nodes counts users exactly; a path
  leads to the file its names lead to. A segment of a program is in the pages of its address space byte for byte, followed by its
  zeros. System calls keep out of the kernel's half, and \<^verbatim>\<open>sbrk\<close> gives the
  caller fresh pages. Each wrapper of the user library reaches the function of the kernel its name says, with the arguments the
  program gave. The shell refines an editor of lines, the calculator prints what reads back as its
  result, and \<^verbatim>\<open>square\<close> paints the pixels of its rectangle and no others. The tables of the processor and the handlers of interrupts are as they
  should be after boot.

  \<^bold>\<open>Parameters.\<close> The addresses of the linker, the contents of memory at boot, garbage on the stack,
  the function that closes a resource and, for the user library, the error numbers of newlib are arguments of the
  definitions that use them. Of the standard C library the programs use \<^verbatim>\<open>strtok\<close>, \<^verbatim>\<open>atoi\<close>,
  \<^verbatim>\<open>printf\<close> and \<^verbatim>\<open>malloc\<close>, which the models take as the C standard describes them.

  \<^bold>\<open>Not modelled.\<close> The assembly files \<^verbatim>\<open>src/*.s\<close> save and restore registers around the C functions; of
  them only the choice of the next task in \<^verbatim>\<open>src/task_switch.s\<close> has a model. The translation cache of
  the processor is taken to be flushed whenever the code says so. The start-up code \<^verbatim>\<open>crt0.s\<close> of programs is assembly, and newlib itself is not
  part of the repository. Headers that only declare, and the tables of constants of
  \<^verbatim>\<open>include/multiboot.h\<close> that the code never reads, have no definitions.
\<close>

end
